(* ===== verification/Gwen_Prelude.thy ===== *)
theory Gwen_Prelude
  imports Main "HOL-Library.Word"
begin

text \<open>
  Shared ground of the development: the machine types of the C code, the outcome of a C call,
  the error codes of \<^verbatim>\<open>src/base/error.h\<close>, and the generic lemmas on words, lists and outcomes
  that every component uses.

  A C function that can call \<^verbatim>\<open>abort()\<close>, fail an \<^verbatim>\<open>assert\<close> or touch memory outside an allocated
  block is a function into \<open>outcome\<close>: \<open>Ret\<close> is a normal return, \<open>Abort\<close> is a deliberate stop of
  the process (\<^verbatim>\<open>abort\<close>, \<^verbatim>\<open>assert\<close>), \<open>Fault\<close> is an access or a pointer outside the block, that is,
  undefined behaviour. A proof that a call is not \<open>Fault\<close> is a proof of memory safety. \<open>Hang\<close> is a
  call that does not return, or not within the number of rounds a loop is given.
\<close>

unbundle bit_operations_syntax

type_synonym byte = "8 word"
type_synonym u16 = "16 word"
type_synonym u32 = "32 word"
type_synonym u64 = "64 word"

named_theorems outcome_simps \<open>how outcomes flow through a sequence of calls\<close>
named_theorems u32_simps \<open>reading 32 bit arithmetic as arithmetic on natural numbers\<close>

section \<open>Outcomes of C calls\<close>

datatype 'a outcome = Ret 'a | Abort | Fault | Hang

primrec obind :: "'a outcome \<Rightarrow> ('a \<Rightarrow> 'b outcome) \<Rightarrow> 'b outcome" where
  "obind (Ret x) f = f x"
| "obind Abort f = Abort"
| "obind Fault f = Fault"
| "obind Hang f = Hang"

definition oassert :: "bool \<Rightarrow> unit outcome" where
  "oassert c = (if c then Ret () else Abort)"

text \<open>A sequence of calls of a component, with the answers.\<close>

fun run_calls :: "('c \<Rightarrow> 's \<Rightarrow> ('r \<times> 's) outcome) \<Rightarrow> 'c list \<Rightarrow> 's \<Rightarrow> 'r list outcome" where
  "run_calls f [] s = Ret []"
| "run_calls f (c # cs) s = obind (f c s) (\<lambda>(r, s). obind (run_calls f cs s) (\<lambda>rs. Ret (r # rs)))"

text \<open>Two components give the same answers to every sequence of calls if each call keeps them related; where the second
  one faults nothing is said.\<close>

lemma run_calls_refines:
  assumes "R s t"
    and "\<And>c s t. R s t \<Longrightarrow> case g c t of
        Ret (r, t') \<Rightarrow> (\<exists>s'. f c s = Ret (r, s') \<and> R s' t') | Abort \<Rightarrow> f c s = Abort | Hang \<Rightarrow> f c s = Hang | Fault \<Rightarrow> True"
    and "run_calls g cs t \<noteq> Fault"
  shows "run_calls f cs s = run_calls g cs t"
  using assms(1,3)
proof (induction cs arbitrary: s t)
  case (Cons c cs)
  show ?case
  proof (cases "g c t")
    case (Ret x)
    obtain r t' where x: "x = (r, t')" by (cases x)
    obtain s' where s': "f c s = Ret (r, s')" "R s' t'" using assms(2) [OF Cons.prems(1), of c] Ret x by auto
    moreover have "run_calls g cs t' \<noteq> Fault" using Cons.prems(2) Ret x by auto
    ultimately show ?thesis using Cons.IH [OF s'(2)] Ret x by simp
  next
    case Abort
    then show ?thesis using assms(2) [OF Cons.prems(1), of c] by simp
  next
    case Hang
    then show ?thesis using assms(2) [OF Cons.prems(1), of c] by simp
  next
    case Fault
    then show ?thesis using Cons.prems(2) by simp
  qed
qed simp

lemma obind_Ret_iff [outcome_simps]:
  "obind m f = Ret y \<longleftrightarrow> (\<exists>x. m = Ret x \<and> f x = Ret y)"
  by (cases m) auto

lemma obind_Fault_iff [outcome_simps]:
  "obind m f = Fault \<longleftrightarrow> m = Fault \<or> (\<exists>x. m = Ret x \<and> f x = Fault)"
  by (cases m) auto

lemma obind_Hang_iff [outcome_simps]:
  "obind m f = Hang \<longleftrightarrow> m = Hang \<or> (\<exists>x. m = Ret x \<and> f x = Hang)"
  by (cases m) auto

lemma obind_cong [fundef_cong]:
  "m = m' \<Longrightarrow> (\<And>x. m' = Ret x \<Longrightarrow> f x = g x) \<Longrightarrow> obind m f = obind m' g"
  by (cases m') auto

lemma obind_assoc: "obind (obind m f) g = obind m (\<lambda>x. obind (f x) g)"
  by (cases m) auto

lemma obind_Ret_right [simp]: "obind m Ret = m"
  by (cases m) auto

lemma oassert_simps [simp]: "oassert True = Ret ()" "oassert False = Abort"
  by (simp_all add: oassert_def)

lemma oassert_Ret_iff [outcome_simps]: "oassert c = Ret u \<longleftrightarrow> c"
  by (simp add: oassert_def)

lemma oassert_not_Fault [simp]: "oassert c \<noteq> Fault" "oassert c \<noteq> Hang"
  by (simp_all add: oassert_def)

text \<open>Calls in sequence whose integer results the caller ignores.\<close>

primrec appends :: "('b \<Rightarrow> 'c \<Rightarrow> (int \<times> 'b) outcome) \<Rightarrow> 'b \<Rightarrow> 'c list \<Rightarrow> 'b outcome" where
  "appends app b [] = Ret b"
| "appends app b (c # cs) = obind (app b c) (\<lambda>(rv, b'). appends app b' cs)"

lemma appends_append:
  "appends app b (xs @ ys) = obind (appends app b xs) (\<lambda>b'. appends app b' ys)"
  by (induction xs arbitrary: b) (auto simp: obind_assoc intro!: arg_cong [where f = "obind _"])

section \<open>Error codes\<close>

text \<open>The values of \<^verbatim>\<open>src/base/error.h\<close>, lines 61 to 126, that the modelled code returns.\<close>

definition GWEN_ERROR_GENERIC :: int where "GWEN_ERROR_GENERIC = -1"
definition GWEN_ERROR_NOT_AVAILABLE :: int where "GWEN_ERROR_NOT_AVAILABLE = -3"
definition GWEN_ERROR_INVALID :: int where "GWEN_ERROR_INVALID = -6"
definition GWEN_ERROR_MEMORY_FULL :: int where "GWEN_ERROR_MEMORY_FULL = -40"
definition GWEN_ERROR_BUFFER_OVERFLOW :: int where "GWEN_ERROR_BUFFER_OVERFLOW = -42"
definition GWEN_ERROR_NOT_FOUND :: int where "GWEN_ERROR_NOT_FOUND = -51"
definition GWEN_ERROR_NO_DATA :: int where "GWEN_ERROR_NO_DATA = -55"
definition GWEN_ERROR_EOF :: int where "GWEN_ERROR_EOF = -57"
definition GWEN_ERROR_VERIFY :: int where "GWEN_ERROR_VERIFY = -65"
definition GWEN_ERROR_NOT_IMPLEMENTED :: int where "GWEN_ERROR_NOT_IMPLEMENTED = -67"
definition GWEN_ERROR_BAD_DATA :: int where "GWEN_ERROR_BAD_DATA = -101"
definition GWEN_ERROR_INTERNAL :: int where "GWEN_ERROR_INTERNAL = -104"
definition GWEN_ERROR_PERMISSIONS :: int where "GWEN_ERROR_PERMISSIONS = -105"

lemmas gwen_errors = GWEN_ERROR_GENERIC_def GWEN_ERROR_INVALID_def GWEN_ERROR_MEMORY_FULL_def
  GWEN_ERROR_BUFFER_OVERFLOW_def GWEN_ERROR_NOT_FOUND_def GWEN_ERROR_EOF_def
  GWEN_ERROR_BAD_DATA_def GWEN_ERROR_PERMISSIONS_def GWEN_ERROR_NOT_AVAILABLE_def GWEN_ERROR_VERIFY_def
  GWEN_ERROR_NOT_IMPLEMENTED_def GWEN_ERROR_NO_DATA_def GWEN_ERROR_INTERNAL_def

section \<open>32 bit arithmetic\<close>

text \<open>The range of a C \<^verbatim>\<open>int\<close>; a signed result outside it is undefined.\<close>

definition in_int :: "int \<Rightarrow> bool" where
  "in_int x \<longleftrightarrow> - 2147483648 \<le> x \<and> x < 2147483648"

lemma unat_u32_bound: "unat (a :: u32) < 4294967296"
  using unsigned_less [of a, where ?'a = nat] by simp

lemma unat_plus_u32 [u32_simps]:
  "unat (a :: u32) + unat b < 4294967296 \<Longrightarrow> unat (a + b) = unat a + unat b"
  by (simp add: unat_word_ariths)

lemma unat_minus_u32 [u32_simps]:
  "unat (b :: u32) \<le> unat a \<Longrightarrow> unat (a - b) = unat a - unat b"
  using unat_sub [of b a] by (simp add: word_le_nat_alt)

lemma unat_of_nat_u32 [u32_simps]:
  "n < 4294967296 \<Longrightarrow> unat (of_nat n :: u32) = n"
  by (simp add: unat_of_nat)

lemma unat_Suc_u32 [u32_simps]:
  "unat (a :: u32) < 4294967295 \<Longrightarrow> unat (a + 1) = unat a + 1"
  by (simp add: unat_plus_u32)

lemmas u32_order = word_le_nat_alt word_less_nat_alt

lemma sint_u32_small: "unat (a :: u32) < 2147483648 \<Longrightarrow> sint a = int (unat a)"
proof -
  assume small: "unat a < 2147483648"
  have nat: "uint a = int (unat a)" by simp
  from small have "int (unat a) < 2147483648" by linarith
  with nat have "uint a < 2 ^ 31" by simp
  then have "signed_take_bit 31 (uint a) = uint a"
    using uint_ge_0 [of a] by (intro signed_take_bit_int_eq_self) linarith+
  moreover have "sint a = signed_take_bit 31 (uint a)"
    by (simp add: sint_uint)
  ultimately show ?thesis using nat by (simp only:)
qed

lemma sint_nonneg_u32: "0 \<le> sint (x :: u32) \<Longrightarrow> sint x = int (unat x)"
proof -
  assume nn: "0 \<le> sint x"
  have "sint x < 2 ^ 32" using sint_lt [of x] by simp
  then have "take_bit 32 (sint x) = sint x"
    using nn by (intro take_bit_int_eq_self)
  then show ?thesis using uint_sint [of x] by simp
qed

lemma sint_diff_u32:
  assumes "unat (a :: u32) < 2147483648" and "unat b < 2147483648"
  shows "sint (a - b) = int (unat a) - int (unat b)"
proof -
  have "sint (a - b) = signed_take_bit 31 (sint a - sint b)"
    by (simp add: sint_word_ariths)
  also have "\<dots> = signed_take_bit 31 (int (unat a) - int (unat b))"
    by (simp only: sint_u32_small [OF assms(1)] sint_u32_small [OF assms(2)])
  also have "\<dots> = int (unat a) - int (unat b)"
  proof -
    have "(2 :: int) ^ 31 = 2147483648" by simp
    with assms show ?thesis by (intro signed_take_bit_int_eq_self) linarith+
  qed
  finally show ?thesis .
qed

text \<open>Rounding up to a multiple of a power of two by masking, as \<^verbatim>\<open>GWEN_Buffer_AllocRoom\<close> does.\<close>

lemma and_not_mask_u32: "(y :: u32) AND NOT (mask k) = y - take_bit k y"
proof -
  have "y AND NOT (mask k) = push_bit k (drop_bit k y)"
    by (rule bit_eqI) (auto simp: bit_simps)
  then show ?thesis
    using bits_ident [of k y] by (simp add: algebra_simps)
qed

lemma unat_take_bit_u32: "unat (take_bit k (y :: u32)) = unat y mod 2 ^ k"
  by (simp only: unsigned_take_bit_eq) (simp add: take_bit_eq_mod)

lemma round_up_u32:
  assumes st: "(st :: u32) = 2 ^ k" "k < 32" and fit: "unat x + unat st \<le> 4294967296"
  defines "r \<equiv> (x + (st - 1)) AND NOT (st - 1)"
  shows "unat x \<le> unat r" and "unat r < unat x + unat st"
proof -
  have ust: "unat st = 2 ^ k"
  proof -
    have "(2::nat) ^ k < 2 ^ 32" using st(2) by (intro power_strict_increasing) auto
    then have "unat (of_nat (2 ^ k) :: u32) = 2 ^ k" by (intro unat_of_nat_u32) simp
    then show ?thesis by (simp add: st)
  qed
  have st1: "st - 1 = mask k"
    by (simp add: st mask_eq_decr_exp)
  have pos: "0 < unat st" using ust by simp
  have us1: "unat (st - 1) = unat st - 1"
    using pos by (subst unat_minus_u32) auto
  have sum: "unat (x + (st - 1)) = unat x + unat st - 1"
    using fit pos by (subst unat_plus_u32) (auto simp: us1)
  have "r = (x + (st - 1)) - take_bit k (x + (st - 1))"
    by (simp only: r_def st1 and_not_mask_u32)
  then have r: "unat r = (unat x + unat st - 1) - (unat x + unat st - 1) mod unat st"
    by (simp add: unat_minus_u32 unat_take_bit_u32 sum ust)
  have m: "(unat x + unat st - 1) mod unat st < unat st"
    using pos by simp
  with pos show "unat x \<le> unat r" unfolding r by linarith
  show "unat r < unat x + unat st" unfolding r using pos by linarith
qed

text \<open>Shifts, masks and bytes inside 32 bit words.\<close>

lemma unat_drop_bit_u32: "unat (drop_bit k (w :: u32)) = unat w div 2 ^ k"
proof -
  have "unat (drop_bit k w) = drop_bit k (unat w)"
    using take_bit_nat_eq_self [of "unat w" 32] unat_u32_bound [of w] by (simp add: unsigned_drop_bit_eq)
  then show ?thesis by (simp add: drop_bit_eq_div)
qed

lemma mask_u32: "(0x3f :: u32) = mask 6" "(0xff :: u32) = mask 8"
  by (simp_all add: mask_eq_exp_minus_1)

lemma and_mask_u32: "(w :: u32) AND 0x3f = take_bit 6 w" "(w :: u32) AND 0xff = take_bit 8 w"
  by (simp_all only: mask_u32 take_bit_eq_mask)

lemma unat_byte: "unat (b :: byte) < 256"
  using unsigned_less [of b, where ?'a = nat] by simp

lemma unat_ucast_byte [simp]: "unat (ucast (b :: byte) :: u32) = unat b"
  by (simp add: unsigned_ucast_eq take_bit_nat_eq_self_iff) (use unat_byte [of b] in linarith)

lemma unat_push_bit_u32: "unat (w :: u32) * 2 ^ k < 4294967296 \<Longrightarrow> unat (push_bit k w) = unat w * 2 ^ k"
proof -
  assume lt: "unat w * 2 ^ k < 4294967296"
  have "unat (push_bit k w) = take_bit 32 (push_bit k (unat w))" by (simp add: unsigned_push_bit_eq)
  also have "\<dots> = unat w * 2 ^ k" using lt by (simp add: push_bit_eq_mult take_bit_nat_eq_self_iff)
  finally show ?thesis .
qed

lemma ucast_byte_eqI: "unat (w :: u32) mod 256 = unat (b :: byte) \<Longrightarrow> ucast w = b"
  by (simp add: word_unat_eq_iff unsigned_ucast_eq take_bit_eq_mod)

section \<open>Lists as memory\<close>

text \<open>\<open>write_at i bs m\<close> is the block \<open>m\<close> after \<open>bs\<close> has been written at offset \<open>i\<close>.\<close>

definition write_at :: "nat \<Rightarrow> 'a list \<Rightarrow> 'a list \<Rightarrow> 'a list" where
  "write_at i bs m = take i m @ bs @ drop (i + length bs) m"

lemma length_write_at [simp]: "i + length bs \<le> length m \<Longrightarrow> length (write_at i bs m) = length m"
  by (simp add: write_at_def)

lemma write_at_Nil [simp]: "write_at i [] m = m"
  by (simp add: write_at_def)

lemma take_write_at_before: "j \<le> i \<Longrightarrow> i + length bs \<le> length m \<Longrightarrow> take j (write_at i bs m) = take j m"
  by (simp add: write_at_def min_def)

lemma nth_write_at:
  "i + length bs \<le> length m \<Longrightarrow> k < length m \<Longrightarrow>
   write_at i bs m ! k = (if k < i then m ! k else if k < i + length bs then bs ! (k - i) else m ! k)"
  by (auto simp: write_at_def nth_append min_def)

text \<open>The window of \<open>n\<close> cells at offset \<open>i\<close>, and what a write does to it.\<close>

definition window :: "nat \<Rightarrow> nat \<Rightarrow> 'a list \<Rightarrow> 'a list" where
  "window i n m = take n (drop i m)"

lemma length_window [simp]: "i + n \<le> length m \<Longrightarrow> length (window i n m) = n"
  by (simp add: window_def)

lemma window_zero [simp]: "window i 0 m = []"
  by (simp add: window_def)

lemma nth_window [simp]: "k < n \<Longrightarrow> i + n \<le> length m \<Longrightarrow> window i n m ! k = m ! (i + k)"
  by (simp add: window_def)

lemma window_eqI:
  assumes "i + n \<le> length m" and "j + n \<le> length m'"
    and "\<And>k. k < n \<Longrightarrow> m ! (i + k) = m' ! (j + k)"
  shows "window i n m = window j n m'"
  using assms by (auto intro: nth_equalityI)

lemma window_append: "window i (n + k) m = window i n m @ window (i + n) k m"
  by (simp add: window_def take_add add.commute [of n i])

lemma window_write_at_same:
  "i + length bs \<le> length m \<Longrightarrow> window i (length bs) (write_at i bs m) = bs"
  by (simp add: window_def write_at_def)

lemma window_write_at_after:
  "j + n \<le> i \<Longrightarrow> i + length bs \<le> length m \<Longrightarrow> window j n (write_at i bs m) = window j n m"
  by (rule window_eqI) (auto simp: nth_write_at)

lemma window_write_at_before:
  "i + length bs \<le> j \<Longrightarrow> j + n \<le> length m \<Longrightarrow> window j n (write_at i bs m) = window j n m"
  by (rule window_eqI) (auto simp: nth_write_at)

lemma take_window: "k \<le> n \<Longrightarrow> take k (window i n m) = window i k m"
  by (simp add: window_def min_def)

lemma drop_window: "drop k (window i n m) = window (i + k) (n - k) m"
  by (simp add: window_def drop_take add.commute)

lemma window_window: "window i k (window j n m) = window (i + j) (min k (n - i)) m"
  by (simp add: window_def drop_take min.commute)

lemma window_take_cong:
  "take r m = take r m' \<Longrightarrow> i + n \<le> r \<Longrightarrow> window i n m = window i n m'"
proof -
  assume eq: "take r m = take r m'" and le: "i + n \<le> r"
  have *: "window i n xs = take n (drop i (take r xs))" for xs :: "'a list"
    using le by (simp add: window_def drop_take min_def)
  show ?thesis by (simp only: * eq)
qed

lemma write_at_write_at:
  "i + length xs \<le> length m \<Longrightarrow> i + length xs + length ys \<le> length m \<Longrightarrow>
   write_at (i + length xs) ys (write_at i xs m) = write_at i (xs @ ys) m"
  by (simp add: write_at_def ac_simps)

text \<open>Shifting a block up to make a gap, overwriting inside it, and closing a gap again.\<close>

lemma window_shift_right:
  assumes p: "p \<le> u" and len: "a + u + s + 1 \<le> length m"
  shows "window a (u + s) (write_at (a + (u + s)) [z] (write_at (a + p + s) (window (a + p) (u - p) m) m))
       = window a p m @ window (a + p) s m @ window (a + p) (u - p) m"
proof -
  let ?t = "window (a + p) (u - p) m"
  let ?m1 = "write_at (a + p + s) ?t m"
  have lt: "length ?t = u - p" using assms by simp
  have l1: "length ?m1 = length m" using assms by (simp add: lt)
  have "window a (u + s) (write_at (a + (u + s)) [z] ?m1) = window a (p + (s + (u - p))) ?m1"
    using len p by (subst window_write_at_after) (auto simp: l1 add.commute)
  also have "\<dots> = window a p ?m1 @ window (a + p) s ?m1 @ window (a + p + s) (u - p) ?m1"
    by (simp only: window_append append_assoc)
  also have "window a p ?m1 = window a p m"
    using assms by (intro window_write_at_after) (auto simp: lt)
  also have "window (a + p) s ?m1 = window (a + p) s m"
    using assms by (intro window_write_at_after) (auto simp: lt)
  also have "window (a + p + s) (u - p) ?m1 = ?t"
    using window_write_at_same [of "a + p + s" ?t m] assms by (simp add: lt)
  finally show ?thesis .
qed

lemma write_at_window_eq:
  assumes len: "a + u \<le> length m" and p: "p + length bs \<le> u"
  shows "window a u (write_at (a + p) bs m)
       = take p (window a u m) @ bs @ drop (p + length bs) (window a u m)"
proof -
  let ?m = "write_at (a + p) bs m"
  have "window a (p + (length bs + (u - p - length bs))) ?m
      = window a p ?m @ window (a + p) (length bs) ?m @ window (a + p + length bs) (u - p - length bs) ?m"
    by (simp only: window_append append_assoc)
  moreover have "window a p ?m = window a p m"
    using assms by (intro window_write_at_after) auto
  moreover have "window (a + p) (length bs) ?m = bs"
    using assms by (intro window_write_at_same) auto
  moreover have "window (a + p + length bs) (u - p - length bs) ?m
      = window (a + p + length bs) (u - p - length bs) m"
    using assms by (intro window_write_at_before) auto
  ultimately show ?thesis using assms by (simp add: take_window drop_window add.assoc)
qed

lemma window_close_gap:
  assumes "p + s \<le> u" and "a + u \<le> length m"
  shows "window a (u - s) (write_at (a + p) (window (a + p + s) (u - p - s) m) m)
       = take p (window a u m) @ drop (p + s) (window a u m)"
proof -
  let ?t = "window (a + p + s) (u - p - s) m"
  have lt: "length ?t = u - p - s" using assms by simp
  have "u - s = p + length ?t" using assms lt by simp
  then have "window a (u - s) (write_at (a + p) ?t m)
      = window a p (write_at (a + p) ?t m) @ window (a + p) (length ?t) (write_at (a + p) ?t m)"
    by (simp only: window_append)
  also have "window a p (write_at (a + p) ?t m) = window a p m"
    using assms lt by (intro window_write_at_after) auto
  also have "window (a + p) (length ?t) (write_at (a + p) ?t m) = ?t"
    using assms lt by (intro window_write_at_same) auto
  finally show ?thesis using assms by (simp add: take_window drop_window add.assoc)
qed

text \<open>A C string: the bytes up to the first \<open>NUL\<close>.\<close>

definition tolower :: "byte \<Rightarrow> byte" where
  "tolower c = (if 65 \<le> c \<and> c \<le> 90 then c + 32 else c)"

definition toupper :: "byte \<Rightarrow> byte" where
  "toupper c = (if 97 \<le> c \<and> c \<le> 122 then c - 32 else c)"

definition isdigit :: "byte \<Rightarrow> bool" where
  "isdigit c \<longleftrightarrow> 48 \<le> c \<and> c \<le> 57"

definition strlen :: "byte list \<Rightarrow> nat" where
  "strlen s = length (takeWhile (\<lambda>c. c \<noteq> 0) s)"

lemma strlen_le [simp]: "strlen s \<le> length s"
  by (simp add: strlen_def length_takeWhile_le)

lemma strlen_digits: "list_all (\<lambda>c. c \<noteq> 0) cs \<Longrightarrow> strlen (cs @ 0 # xs) = length cs"
  by (induction cs) (auto simp: strlen_def)


text \<open>String literals as bytes without the final \<open>NUL\<close>, and \<^verbatim>\<open>strchr\<close> for a character other than
  \<open>NUL\<close>: the index of its first occurrence.\<close>

definition str :: "string \<Rightarrow> byte list" where
  "str s = map of_char s"

primrec strchr :: "byte list \<Rightarrow> byte \<Rightarrow> nat option" where
  "strchr [] c = None"
| "strchr (x # xs) c =
     (if x = 0 then None else if x = c then Some 0 else map_option Suc (strchr xs c))"

lemma strchr_nth: "distinct s \<Longrightarrow> 0 \<notin> set s \<Longrightarrow> i < length s \<Longrightarrow> strchr s (s ! i) = Some i"
  by (induction s arbitrary: i) (auto simp: nth_Cons split: nat.splits)

lemma strchr_None: "c \<notin> set s \<Longrightarrow> strchr s c = None"
  by (induction s) auto

end
