(* ===== verification/Gwen_Buffer.thy ===== *)
theory Gwen_Buffer
  imports Gwen_Prelude
begin

text \<open>
  The growable byte buffer of \<^verbatim>\<open>src/base/buffer.c\<close>.

  The storage that \<^verbatim>\<open>realPtr\<close> points to is a list of bytes (\<open>None\<close> is the null pointer), \<^verbatim>\<open>ptr\<close> is
  the offset of the data in it, and every other field keeps its C type. Two ghost fields stand for
  the C library's allocator: \<open>fresh\<close> is what newly allocated memory happens to contain (C leaves it
  indeterminate) and \<open>allocOk n\<close> says whether a request for \<open>n\<close> bytes succeeds. Nothing is assumed
  about either except where a lemma says so. Every access goes through \<open>peek\<close> and \<open>poke\<close>, which
  answer \<open>Fault\<close> outside the block.
\<close>

section \<open>State\<close>

record gwen_buffer =
  realPtr :: "byte list option"
  ptr :: nat
  pos :: u32
  bufferSize :: u32
  realBufferSize :: u32
  bytesUsed :: u32
  flags :: u32
  mode :: u32
  hardLimit :: u32
  step :: u32
  bookmarks :: "u32 list"
  refCount :: u32
  fresh :: "nat \<Rightarrow> byte"
  allocOk :: "nat \<Rightarrow> bool"

definition GWEN_BUFFER_MAX_BOOKMARKS :: nat where "GWEN_BUFFER_MAX_BOOKMARKS = 64"
definition GWEN_BUFFER_DYNAMIC_STEP :: u32 where "GWEN_BUFFER_DYNAMIC_STEP = 1024"
definition GWEN_BUFFER_FLAGS_OWNED :: u32 where "GWEN_BUFFER_FLAGS_OWNED = 0x0001"
definition GWEN_BUFFER_MODE_DYNAMIC :: u32 where "GWEN_BUFFER_MODE_DYNAMIC = 0x0001"
definition GWEN_BUFFER_MODE_ABORT_ON_MEMFULL :: u32 where
  "GWEN_BUFFER_MODE_ABORT_ON_MEMFULL = 0x0002"
definition GWEN_BUFFER_MODE_READONLY :: u32 where "GWEN_BUFFER_MODE_READONLY = 0x0020"
definition GWEN_BUFFER_MODE_DEFAULT :: u32 where
  "GWEN_BUFFER_MODE_DEFAULT = GWEN_BUFFER_MODE_DYNAMIC OR GWEN_BUFFER_MODE_ABORT_ON_MEMFULL"

lemmas buffer_consts = GWEN_BUFFER_MAX_BOOKMARKS_def GWEN_BUFFER_DYNAMIC_STEP_def
  GWEN_BUFFER_FLAGS_OWNED_def GWEN_BUFFER_MODE_DYNAMIC_def
  GWEN_BUFFER_MODE_ABORT_ON_MEMFULL_def GWEN_BUFFER_MODE_READONLY_def
  GWEN_BUFFER_MODE_DEFAULT_def

definition has_mode :: "gwen_buffer \<Rightarrow> u32 \<Rightarrow> bool" where
  "has_mode bf m \<longleftrightarrow> mode bf AND m \<noteq> 0"

abbreviation readonly :: "gwen_buffer \<Rightarrow> bool" where
  "readonly bf \<equiv> has_mode bf GWEN_BUFFER_MODE_READONLY"

abbreviation dynamic :: "gwen_buffer \<Rightarrow> bool" where
  "dynamic bf \<equiv> has_mode bf GWEN_BUFFER_MODE_DYNAMIC"

section \<open>Memory access\<close>

definition blk :: "gwen_buffer \<Rightarrow> byte list" where
  "blk bf = (case realPtr bf of None \<Rightarrow> [] | Some m \<Rightarrow> m)"

definition peek :: "gwen_buffer \<Rightarrow> nat \<Rightarrow> nat \<Rightarrow> byte list outcome" where
  "peek bf a n = (if a + n \<le> length (blk bf) then Ret (window a n (blk bf)) else Fault)"

definition poke :: "gwen_buffer \<Rightarrow> nat \<Rightarrow> byte list \<Rightarrow> gwen_buffer outcome" where
  "poke bf a bs = (if a + length bs \<le> length (blk bf)
     then Ret (bf\<lparr>realPtr := map_option (write_at a bs) (realPtr bf)\<rparr>) else Fault)"

text \<open>The first \<open>sz\<close> bytes of a region the caller passes in.\<close>

definition region :: "byte list \<Rightarrow> u32 \<Rightarrow> byte list outcome" where
  "region buffer sz = (if unat sz \<le> length buffer then Ret (take (unat sz) buffer) else Fault)"

text \<open>\<^verbatim>\<open>ptr+=n\<close> and \<^verbatim>\<open>ptr-=n\<close>: a pointer that leaves its block is undefined behaviour.\<close>

definition advance :: "gwen_buffer \<Rightarrow> nat \<Rightarrow> gwen_buffer outcome" where
  "advance bf n = (if ptr bf + n \<le> length (blk bf) then Ret (bf\<lparr>ptr := ptr bf + n\<rparr>) else Fault)"

definition retreat :: "gwen_buffer \<Rightarrow> nat \<Rightarrow> gwen_buffer outcome" where
  "retreat bf n = (if n \<le> ptr bf then Ret (bf\<lparr>ptr := ptr bf - n\<rparr>) else Fault)"

text \<open>\<^verbatim>\<open>ptr[bytesUsed]=0\<close>, done by most writing functions so that the data is a C string.\<close>

definition terminate_data :: "gwen_buffer \<Rightarrow> gwen_buffer outcome" where
  "terminate_data bf = poke bf (ptr bf + unat (bytesUsed bf)) [0]"

text \<open>What every writing function does first when the buffer is read-only.\<close>

definition fail_with :: "gwen_buffer \<Rightarrow> int \<Rightarrow> (int \<times> gwen_buffer) outcome" where
  "fail_with bf rv =
     (if has_mode bf GWEN_BUFFER_MODE_ABORT_ON_MEMFULL then Abort else Ret (rv, bf))"

section \<open>Life cycle\<close>

definition GWEN_Buffer_new ::
  "u32 \<Rightarrow> (nat \<Rightarrow> byte) \<Rightarrow> (nat \<Rightarrow> bool) \<Rightarrow> byte list option \<Rightarrow> u32 \<Rightarrow> u32 \<Rightarrow> bool \<Rightarrow> gwen_buffer outcome"
where
  "GWEN_Buffer_new defaultHardLimit fr ok buffer sz used takeOwnership =
    (let obj = \<lparr>realPtr = None, ptr = 0, pos = 0, bufferSize = 0, realBufferSize = 0, bytesUsed = 0,
                flags = 0, mode = GWEN_BUFFER_MODE_DEFAULT, hardLimit = defaultHardLimit,
                step = GWEN_BUFFER_DYNAMIC_STEP,
                bookmarks = replicate GWEN_BUFFER_MAX_BOOKMARKS 0, refCount = 1,
                fresh = fr, allocOk = ok\<rparr>
     in case buffer of
       None \<Rightarrow>
         (let n = (if sz \<noteq> 0 then sz + 1 else 0)
          in if n = 0 \<or> \<not> ok (unat n) then Abort
             else Ret (obj\<lparr>realPtr := Some (write_at 0 [0] (map fr [0..<unat n])),
                           realBufferSize := sz + 1, bufferSize := sz + 1,
                           flags := GWEN_BUFFER_FLAGS_OWNED, bytesUsed := used\<rparr>))
     | Some b \<Rightarrow>
         Ret (obj\<lparr>realPtr := Some b, realBufferSize := sz, bufferSize := sz,
                  bytesUsed := used,
                  flags := (if takeOwnership then GWEN_BUFFER_FLAGS_OWNED else 0)\<rparr>))"

definition GWEN_Buffer_Attach :: "gwen_buffer \<Rightarrow> gwen_buffer outcome" where
  "GWEN_Buffer_Attach bf =
     obind (oassert (refCount bf \<noteq> 0)) (\<lambda>_. Ret (bf\<lparr>refCount := refCount bf + 1\<rparr>))"

text \<open>The object after the call (\<open>None\<close> when it is gone) and whether its storage was released.\<close>

definition GWEN_Buffer_free :: "gwen_buffer \<Rightarrow> (gwen_buffer option \<times> bool) outcome" where
  "GWEN_Buffer_free bf =
     obind (oassert (refCount bf \<noteq> 0)) (\<lambda>_.
       if refCount bf = 1 then Ret (None, flags bf AND GWEN_BUFFER_FLAGS_OWNED \<noteq> 0)
       else Ret (Some (bf\<lparr>refCount := refCount bf - 1\<rparr>), False))"

definition GWEN_Buffer_dup :: "gwen_buffer \<Rightarrow> gwen_buffer outcome" where
  "GWEN_Buffer_dup bf =
    (let obj = bf\<lparr>realPtr := None, ptr := 0, pos := 0, bufferSize := 0, realBufferSize := 0,
                  bytesUsed := 0, refCount := 1,
                  flags := flags bf OR GWEN_BUFFER_FLAGS_OWNED\<rparr>
     in if realPtr bf \<noteq> None \<and> realBufferSize bf \<noteq> 0 then
          (let n = realBufferSize bf + 1
           in if n = 0 \<or> \<not> allocOk bf (unat n) then Abort
              else
                (let new = obj\<lparr>realPtr := Some (map (fresh bf) [0..<unat n]), ptr := ptr bf,
                               realBufferSize := realBufferSize bf, bufferSize := bufferSize bf,
                               bytesUsed := bytesUsed bf\<rparr>
                 in obind
                      (if bytesUsed bf \<noteq> 0 then
                         (let toCopy = bytesUsed bf + 1
                          in if toCopy > bufferSize bf then Abort
                             else obind (peek bf (ptr bf) (unat toCopy)) (\<lambda>bs. poke new (ptr bf) bs))
                       else Ret new)
                      (\<lambda>new. Ret (new\<lparr>pos := pos bf\<rparr>))))
        else Ret obj)"

definition GWEN_Buffer_Relinquish :: "gwen_buffer \<Rightarrow> int \<times> gwen_buffer" where
  "GWEN_Buffer_Relinquish bf =
     (if flags bf AND GWEN_BUFFER_FLAGS_OWNED = 0 then (GWEN_ERROR_INVALID, bf)
      else if ptr bf \<noteq> 0 then (GWEN_ERROR_INVALID, bf)
      else (0, bf\<lparr>flags := flags bf AND NOT GWEN_BUFFER_FLAGS_OWNED\<rparr>))"

section \<open>Fields\<close>

definition GWEN_Buffer_GetMode :: "gwen_buffer \<Rightarrow> u32" where
  "GWEN_Buffer_GetMode bf = mode bf"

definition GWEN_Buffer_SetMode :: "gwen_buffer \<Rightarrow> u32 \<Rightarrow> gwen_buffer" where
  "GWEN_Buffer_SetMode bf m = bf\<lparr>mode := m\<rparr>"

definition GWEN_Buffer_AddMode :: "gwen_buffer \<Rightarrow> u32 \<Rightarrow> gwen_buffer" where
  "GWEN_Buffer_AddMode bf m = bf\<lparr>mode := mode bf OR m\<rparr>"

definition GWEN_Buffer_SubMode :: "gwen_buffer \<Rightarrow> u32 \<Rightarrow> gwen_buffer" where
  "GWEN_Buffer_SubMode bf m = bf\<lparr>mode := mode bf AND NOT m\<rparr>"

definition GWEN_Buffer_GetHardLimit :: "gwen_buffer \<Rightarrow> u32" where
  "GWEN_Buffer_GetHardLimit bf = hardLimit bf"

definition GWEN_Buffer_SetHardLimit :: "gwen_buffer \<Rightarrow> u32 \<Rightarrow> gwen_buffer outcome" where
  "GWEN_Buffer_SetHardLimit bf l = obind (oassert (l \<noteq> 0)) (\<lambda>_. Ret (bf\<lparr>hardLimit := l\<rparr>))"

definition GWEN_Buffer_GetStart :: "gwen_buffer \<Rightarrow> nat" where
  "GWEN_Buffer_GetStart bf = ptr bf"

definition GWEN_Buffer_GetSize :: "gwen_buffer \<Rightarrow> u32" where
  "GWEN_Buffer_GetSize bf = (if dynamic bf then hardLimit bf else bufferSize bf)"

definition GWEN_Buffer_GetPos :: "gwen_buffer \<Rightarrow> u32" where
  "GWEN_Buffer_GetPos bf = pos bf"

definition GWEN_Buffer_SetPos :: "gwen_buffer \<Rightarrow> u32 \<Rightarrow> int \<times> gwen_buffer" where
  "GWEN_Buffer_SetPos bf i =
     (if i \<ge> bufferSize bf then (GWEN_ERROR_BUFFER_OVERFLOW, bf) else (0, bf\<lparr>pos := i\<rparr>))"

definition GWEN_Buffer_GetUsedBytes :: "gwen_buffer \<Rightarrow> u32" where
  "GWEN_Buffer_GetUsedBytes bf = bytesUsed bf"

definition GWEN_Buffer_GetStep :: "gwen_buffer \<Rightarrow> u32" where
  "GWEN_Buffer_GetStep bf = step bf"

definition GWEN_Buffer_SetStep :: "gwen_buffer \<Rightarrow> u32 \<Rightarrow> gwen_buffer" where
  "GWEN_Buffer_SetStep bf s = bf\<lparr>step := s\<rparr>"

definition GWEN_Buffer_GetMaxUnsegmentedWrite :: "gwen_buffer \<Rightarrow> u32" where
  "GWEN_Buffer_GetMaxUnsegmentedWrite bf = bufferSize bf - (bytesUsed bf + 1)"

definition GWEN_Buffer_GetBytesLeft :: "gwen_buffer \<Rightarrow> u32" where
  "GWEN_Buffer_GetBytesLeft bf = (if pos bf < bytesUsed bf then bytesUsed bf - pos bf else 0)"

definition GWEN_Buffer_GetPosPointer :: "gwen_buffer \<Rightarrow> nat" where
  "GWEN_Buffer_GetPosPointer bf = ptr bf + unat (pos bf)"

definition GWEN_Buffer_GetBookmark :: "gwen_buffer \<Rightarrow> nat \<Rightarrow> u32 outcome" where
  "GWEN_Buffer_GetBookmark bf idx =
     obind (oassert (idx < GWEN_BUFFER_MAX_BOOKMARKS)) (\<lambda>_. Ret (bookmarks bf ! idx))"

definition GWEN_Buffer_SetBookmark :: "gwen_buffer \<Rightarrow> nat \<Rightarrow> u32 \<Rightarrow> gwen_buffer outcome" where
  "GWEN_Buffer_SetBookmark bf idx v =
     obind (oassert (idx < GWEN_BUFFER_MAX_BOOKMARKS))
       (\<lambda>_. Ret (bf\<lparr>bookmarks := (bookmarks bf)[idx := v]\<rparr>))"

definition GWEN_Buffer_AdjustBookmarks :: "gwen_buffer \<Rightarrow> u32 \<Rightarrow> int \<Rightarrow> gwen_buffer" where
  "GWEN_Buffer_AdjustBookmarks bf p offset =
     bf\<lparr>bookmarks := map (\<lambda>v. if v \<ge> p then v + word_of_int offset else v) (bookmarks bf)\<rparr>"

section \<open>Growing\<close>

definition GWEN_Buffer_AllocRoom :: "gwen_buffer \<Rightarrow> u32 \<Rightarrow> (int \<times> gwen_buffer) outcome" where
  "GWEN_Buffer_AllocRoom bf sz =
    (if readonly bf then fail_with bf GWEN_ERROR_PERMISSIONS
     else if bytesUsed bf + (sz + 1) > bufferSize bf then
       (if \<not> dynamic bf then fail_with bf GWEN_ERROR_BUFFER_OVERFLOW
        else
          (let reserved = (of_nat (ptr bf) :: u32);
               raw = bytesUsed bf + (sz + 1) - bufferSize bf;
               noffs = (raw + (step bf - 1)) AND NOT (step bf - 1);
               nsize = noffs + realBufferSize bf;
               request = (if nsize \<noteq> 0 then nsize + 1 else 0)
           in if nsize > hardLimit bf then fail_with bf GWEN_ERROR_BUFFER_OVERFLOW
              else if request = 0 then Abort
              else if \<not> allocOk bf (unat request) then
                (if realPtr bf = None then Abort else fail_with bf GWEN_ERROR_MEMORY_FULL)
              else Ret (0, bf\<lparr>realPtr := Some (take (unat request) (blk bf)
                                @ map (fresh bf) [length (blk bf)..<unat request]),
                              ptr := unat reserved, realBufferSize := nsize,
                              bufferSize := bufferSize bf + noffs\<rparr>)))
     else Ret (0, bf))"

definition GWEN_Buffer_ReserveBytes :: "gwen_buffer \<Rightarrow> u32 \<Rightarrow> (int \<times> gwen_buffer) outcome" where
  "GWEN_Buffer_ReserveBytes bf res =
    (if res = 0 then Ret (0, bf)
     else if bytesUsed bf \<noteq> 0 then
       obind (GWEN_Buffer_AllocRoom bf res) (\<lambda>(rv, bf).
         if rv \<noteq> 0 then Ret (-1, bf)
         else obind (peek bf (ptr bf) (unat (bytesUsed bf))) (\<lambda>bs.
              obind (poke bf (ptr bf + unat res) bs) (\<lambda>bf.
              obind (advance bf (unat res)) (\<lambda>bf.
                Ret (0, bf\<lparr>bufferSize := bufferSize bf - res\<rparr>)))))
     else
       obind (GWEN_Buffer_AllocRoom bf res) (\<lambda>(rv, bf).
         if rv \<noteq> 0 then Ret (-1, bf)
         else obind (advance bf (unat res)) (\<lambda>bf.
              let bf = bf\<lparr>bufferSize := bufferSize bf - res\<rparr>
              in if bufferSize bf \<noteq> 0
                 then obind (poke bf (ptr bf) [0]) (\<lambda>bf. Ret (0, bf))
                 else Ret (0, bf))))"

section \<open>Appending\<close>

definition GWEN_Buffer_AppendBytes ::
  "gwen_buffer \<Rightarrow> byte list \<Rightarrow> u32 \<Rightarrow> (int \<times> gwen_buffer) outcome" where
  "GWEN_Buffer_AppendBytes bf buffer sz =
    (if readonly bf then fail_with bf GWEN_ERROR_PERMISSIONS
     else obind (GWEN_Buffer_AllocRoom bf (sz + 1)) (\<lambda>(rv, bf).
       if rv < 0 then Ret (rv, bf)
       else obind (region buffer sz) (\<lambda>bs.
            obind (poke bf (ptr bf + unat (bytesUsed bf)) bs) (\<lambda>bf.
            let bf = (if pos bf = bytesUsed bf then bf\<lparr>pos := pos bf + sz\<rparr> else bf);
                bf = bf\<lparr>bytesUsed := bytesUsed bf + sz\<rparr>
            in obind (terminate_data bf) (\<lambda>bf. Ret (0, bf))))))"

definition GWEN_Buffer_AppendByte :: "gwen_buffer \<Rightarrow> byte \<Rightarrow> (int \<times> gwen_buffer) outcome" where
  "GWEN_Buffer_AppendByte bf c =
    (if readonly bf then fail_with bf GWEN_ERROR_PERMISSIONS
     else obind (if bytesUsed bf + 1 + 1 > bufferSize bf then GWEN_Buffer_AllocRoom bf (1 + 1)
                 else Ret (0, bf)) (\<lambda>(rv, bf).
       if rv < 0 then Ret (rv, bf)
       else obind (poke bf (ptr bf + unat (bytesUsed bf)) [c]) (\<lambda>bf.
            let bf = (if pos bf = bytesUsed bf then bf\<lparr>pos := pos bf + 1\<rparr> else bf);
                bf = bf\<lparr>bytesUsed := bytesUsed bf + 1\<rparr>
            in obind (terminate_data bf) (\<lambda>bf. Ret (0, bf)))))"

definition GWEN_Buffer_AppendBuffer ::
  "gwen_buffer \<Rightarrow> gwen_buffer \<Rightarrow> (int \<times> gwen_buffer) outcome" where
  "GWEN_Buffer_AppendBuffer bf sf =
    (if readonly bf then fail_with bf GWEN_ERROR_PERMISSIONS
     else if bytesUsed sf \<noteq> 0
       then GWEN_Buffer_AppendBytes bf (drop (ptr sf) (blk sf)) (bytesUsed sf)
       else Ret (0, bf))"

definition GWEN_Buffer_AppendString :: "gwen_buffer \<Rightarrow> byte list \<Rightarrow> (int \<times> gwen_buffer) outcome" where
  "GWEN_Buffer_AppendString bf s = GWEN_Buffer_AppendBytes bf s (of_nat (strlen s))"

definition GWEN_Buffer_FillWithBytes ::
  "gwen_buffer \<Rightarrow> byte \<Rightarrow> u32 \<Rightarrow> (int \<times> gwen_buffer) outcome" where
  "GWEN_Buffer_FillWithBytes bf c sz =
    (if readonly bf then fail_with bf GWEN_ERROR_PERMISSIONS
     else obind (GWEN_Buffer_AllocRoom bf (sz + 1)) (\<lambda>(rv, bf).
       if rv < 0 then Ret (rv, bf)
       else obind (poke bf (ptr bf + unat (bytesUsed bf)) (replicate (unat sz) c)) (\<lambda>bf.
            let bf = (if pos bf = bytesUsed bf then bf\<lparr>pos := pos bf + sz\<rparr> else bf);
                bf = bf\<lparr>bytesUsed := bytesUsed bf + sz\<rparr>
            in obind (terminate_data bf) (\<lambda>bf. Ret (0, bf)))))"

section \<open>Reading and the position\<close>

definition GWEN_Buffer_PeekByte :: "gwen_buffer \<Rightarrow> int outcome" where
  "GWEN_Buffer_PeekByte bf =
    (if pos bf \<ge> bytesUsed bf then Ret GWEN_ERROR_EOF
     else obind (peek bf (ptr bf + unat (pos bf)) 1) (\<lambda>bs. Ret (uint (hd bs))))"

definition GWEN_Buffer_ReadByte :: "gwen_buffer \<Rightarrow> (int \<times> gwen_buffer) outcome" where
  "GWEN_Buffer_ReadByte bf =
    (if pos bf \<ge> bytesUsed bf then Ret (GWEN_ERROR_EOF, bf)
     else obind (peek bf (ptr bf + unat (pos bf)) 1) (\<lambda>bs.
            Ret (uint (hd bs), bf\<lparr>pos := pos bf + 1\<rparr>)))"

definition GWEN_Buffer_IncrementPos :: "gwen_buffer \<Rightarrow> u32 \<Rightarrow> int \<times> gwen_buffer" where
  "GWEN_Buffer_IncrementPos bf i = (0, bf\<lparr>pos := pos bf + i\<rparr>)"

definition GWEN_Buffer_DecrementPos :: "gwen_buffer \<Rightarrow> u32 \<Rightarrow> int \<times> gwen_buffer" where
  "GWEN_Buffer_DecrementPos bf i =
     (if pos bf < i then (GWEN_ERROR_BUFFER_OVERFLOW, bf) else (0, bf\<lparr>pos := pos bf - i\<rparr>))"

definition GWEN_Buffer_AdjustUsedBytes :: "gwen_buffer \<Rightarrow> (int \<times> gwen_buffer) outcome" where
  "GWEN_Buffer_AdjustUsedBytes bf =
    (if pos bf \<le> bufferSize bf then
       (let bf = (if pos bf > bytesUsed bf then bf\<lparr>bytesUsed := pos bf\<rparr> else bf)
        in obind (terminate_data bf) (\<lambda>bf. Ret (0, bf)))
     else Ret (GWEN_ERROR_BUFFER_OVERFLOW, bf))"

definition GWEN_Buffer_Reset :: "gwen_buffer \<Rightarrow> gwen_buffer outcome" where
  "GWEN_Buffer_Reset bf = poke (bf\<lparr>pos := 0, bytesUsed := 0\<rparr>) (ptr bf) [0]"

definition GWEN_Buffer_Rewind :: "gwen_buffer \<Rightarrow> gwen_buffer" where
  "GWEN_Buffer_Rewind bf = bf\<lparr>pos := 0\<rparr>"

definition GWEN_Buffer_OverwriteContent :: "gwen_buffer \<Rightarrow> byte \<Rightarrow> gwen_buffer outcome" where
  "GWEN_Buffer_OverwriteContent bf c =
    (if realPtr bf \<noteq> None \<and> realBufferSize bf \<noteq> 0
     then poke bf 0 (replicate (unat (realBufferSize bf)) c) else Ret bf)"

section \<open>Well-formed buffers\<close>

definition buf_wf :: "gwen_buffer \<Rightarrow> bool" where
  "buf_wf bf \<longleftrightarrow> realPtr bf \<noteq> None
     \<and> ptr bf + unat (bufferSize bf) = unat (realBufferSize bf)
     \<and> unat (realBufferSize bf) \<le> length (blk bf)
     \<and> unat (bytesUsed bf) \<le> unat (bufferSize bf)
     \<and> (\<exists>k < 32. step bf = 2 ^ k)
     \<and> length (bookmarks bf) = GWEN_BUFFER_MAX_BOOKMARKS"

definition nul_terminated :: "gwen_buffer \<Rightarrow> bool" where
  "nul_terminated bf \<longleftrightarrow> unat (bytesUsed bf) < unat (bufferSize bf)
     \<and> blk bf ! (ptr bf + unat (bytesUsed bf)) = 0"

definition contents :: "gwen_buffer \<Rightarrow> byte list" where
  "contents bf = window (ptr bf) (unat (bytesUsed bf)) (blk bf)"

text \<open>No 32 bit sum wraps while \<open>n\<close> more bytes are made room for.\<close>

definition fits :: "gwen_buffer \<Rightarrow> nat \<Rightarrow> bool" where
  "fits bf n \<longleftrightarrow> ptr bf + unat (bytesUsed bf) + n + unat (step bf) + 1 < 4294967296"

text \<open>What \<^verbatim>\<open>GWEN_Buffer_AllocRoom\<close> may change: the storage and its sizes, keeping the old bytes.\<close>

definition grown :: "gwen_buffer \<Rightarrow> gwen_buffer \<Rightarrow> bool" where
  "grown bf bf' \<longleftrightarrow> (\<exists>m rs bs. bf' = bf\<lparr>realPtr := Some m, realBufferSize := rs, bufferSize := bs\<rparr>
     \<and> unat (bufferSize bf) \<le> unat bs \<and> ptr bf + unat bs = unat rs \<and> unat rs \<le> length m
     \<and> take (unat (realBufferSize bf)) m = take (unat (realBufferSize bf)) (blk bf))"

lemma blk_simps [simp]:
  "realPtr bf = Some m \<Longrightarrow> blk bf = m"
  "blk (bf\<lparr>realPtr := r\<rparr>) = (case r of None \<Rightarrow> [] | Some m \<Rightarrow> m)"
  "blk (bf\<lparr>ptr := p\<rparr>) = blk bf" "blk (bf\<lparr>pos := x\<rparr>) = blk bf"
  "blk (bf\<lparr>bufferSize := x\<rparr>) = blk bf" "blk (bf\<lparr>realBufferSize := x\<rparr>) = blk bf"
  "blk (bf\<lparr>bytesUsed := x\<rparr>) = blk bf" "blk (bf\<lparr>bookmarks := w\<rparr>) = blk bf"
  "blk (bf\<lparr>flags := x\<rparr>) = blk bf" "blk (bf\<lparr>mode := x\<rparr>) = blk bf"
  "blk (bf\<lparr>hardLimit := x\<rparr>) = blk bf" "blk (bf\<lparr>step := x\<rparr>) = blk bf"
  "blk (bf\<lparr>refCount := x\<rparr>) = blk bf"
  by (simp_all add: blk_def)

lemma wf_bounds:
  assumes "buf_wf bf"
  shows "ptr bf + unat (bufferSize bf) \<le> length (blk bf)"
    and "ptr bf + unat (bytesUsed bf) \<le> length (blk bf)"
    and "ptr bf + unat (bytesUsed bf) \<le> unat (realBufferSize bf)"
    and "unat (bytesUsed bf) \<le> unat (bufferSize bf)"
  using assms by (auto simp: buf_wf_def)

lemma length_contents [simp]: "buf_wf bf \<Longrightarrow> length (contents bf) = unat (bytesUsed bf)"
  by (simp add: contents_def wf_bounds)

lemma grown_wf: "buf_wf bf \<Longrightarrow> grown bf bf' \<Longrightarrow> buf_wf bf'"
  by (auto simp: buf_wf_def grown_def)

lemma grown_contents: "buf_wf bf \<Longrightarrow> grown bf bf' \<Longrightarrow> contents bf' = contents bf"
  by (auto simp: grown_def contents_def intro!: window_take_cong wf_bounds(3))

lemma grown_refl: "buf_wf bf \<Longrightarrow> grown bf bf"
  unfolding grown_def
  by (rule exI [of _ "blk bf"], rule exI [of _ "realBufferSize bf"], rule exI [of _ "bufferSize bf"])
     (auto simp: buf_wf_def)

lemma grown_fields:
  assumes "grown bf bf'"
  shows "ptr bf' = ptr bf" "pos bf' = pos bf" "bytesUsed bf' = bytesUsed bf"
    "mode bf' = mode bf" "flags bf' = flags bf" "hardLimit bf' = hardLimit bf"
    "step bf' = step bf" "bookmarks bf' = bookmarks bf" "refCount bf' = refCount bf"
    "allocOk bf' = allocOk bf" "fresh bf' = fresh bf" "has_mode bf' = has_mode bf"
    "unat (bufferSize bf) \<le> unat (bufferSize bf')"
  using assms by (auto simp: grown_def has_mode_def)

lemma fail_with_simps [outcome_simps]:
  "fail_with bf e = Ret (rv, bf') \<longleftrightarrow> \<not> has_mode bf GWEN_BUFFER_MODE_ABORT_ON_MEMFULL \<and> rv = e \<and> bf' = bf"
  "fail_with bf e \<noteq> Fault"
  by (auto simp: fail_with_def)

section \<open>Making room\<close>

lemma AllocRoom_no_Fault [simp]: "GWEN_Buffer_AllocRoom bf sz \<noteq> Fault"
  by (auto simp: GWEN_Buffer_AllocRoom_def Let_def outcome_simps)

lemma fail_with_no_Hang [simp]: "fail_with bf rv \<noteq> Hang"
  by (simp add: fail_with_def)

lemma AllocRoom_no_Hang [simp]: "GWEN_Buffer_AllocRoom bf sz \<noteq> Hang"
  by (auto simp: GWEN_Buffer_AllocRoom_def fail_with_def Let_def outcome_simps)

lemma AllocRoom_sizes:
  assumes wf: "buf_wf bf" and fit: "fits bf (unat sz)"
    and need: "bytesUsed bf + (sz + 1) > bufferSize bf"
  defines "noffs \<equiv> (bytesUsed bf + (sz + 1) - bufferSize bf + (step bf - 1)) AND NOT (step bf - 1)"
  shows "unat (bytesUsed bf) + unat sz + 1 \<le> unat (bufferSize bf) + unat noffs"
    and "unat (bufferSize bf + noffs) = unat (bufferSize bf) + unat noffs"
    and "unat (noffs + realBufferSize bf) = unat noffs + unat (realBufferSize bf)"
    and "unat (noffs + realBufferSize bf) < ptr bf + unat (bytesUsed bf) + unat sz + 1 + unat (step bf)"
    and "0 < unat noffs"
proof -
  from wf obtain k where k: "step bf = 2 ^ k" "k < 32" by (auto simp: buf_wf_def)
  have b: "ptr bf + unat (bytesUsed bf) + unat sz + unat (step bf) + 1 < 4294967296"
    using fit by (simp add: fits_def)
  have s: "unat (sz + 1) = unat sz + 1" using b by (intro unat_Suc_u32) linarith
  have u: "unat (bytesUsed bf + (sz + 1)) = unat (bytesUsed bf) + unat sz + 1"
    using b by (simp add: s unat_plus_u32)
  have lt: "unat (bufferSize bf) < unat (bytesUsed bf) + unat sz + 1"
    using need by (simp add: word_less_nat_alt u)
  have x: "unat (bytesUsed bf + (sz + 1) - bufferSize bf)
      = unat (bytesUsed bf) + unat sz + 1 - unat (bufferSize bf)"
    using lt by (simp add: unat_minus_u32 u)
  have "unat (bytesUsed bf + (sz + 1) - bufferSize bf) + unat (step bf) \<le> 4294967296"
    using b lt unfolding x by linarith
  from round_up_u32 [OF k this]
  have r: "unat (bytesUsed bf + (sz + 1) - bufferSize bf) \<le> unat noffs"
     "unat noffs < unat (bytesUsed bf + (sz + 1) - bufferSize bf) + unat (step bf)"
    by (simp_all add: noffs_def)
  have real: "ptr bf + unat (bufferSize bf) = unat (realBufferSize bf)"
    using wf by (simp add: buf_wf_def)
  show "unat (bytesUsed bf) + unat sz + 1 \<le> unat (bufferSize bf) + unat noffs"
    using r(1) lt unfolding x by linarith
  show "unat (bufferSize bf + noffs) = unat (bufferSize bf) + unat noffs"
    using r(2) lt b unfolding x by (intro unat_plus_u32) linarith
  show *: "unat (noffs + realBufferSize bf) = unat noffs + unat (realBufferSize bf)"
    using r(2) lt b real unfolding x by (intro unat_plus_u32) linarith
  show "unat (noffs + realBufferSize bf) < ptr bf + unat (bytesUsed bf) + unat sz + 1 + unat (step bf)"
    using r(2) lt b real unfolding * x by linarith
  show "0 < unat noffs" using r(1) lt unfolding x by linarith
qed

lemma AllocRoom_ok:
  assumes wf: "buf_wf bf" and fit: "fits bf (unat sz)"
    and ret: "GWEN_Buffer_AllocRoom bf sz = Ret (0, bf')"
  shows "grown bf bf'" and "unat (bytesUsed bf) + unat sz + 1 \<le> unat (bufferSize bf')"
proof -
  have b: "ptr bf + unat (bytesUsed bf) + unat sz + unat (step bf) + 1 < 4294967296"
    using fit by (simp add: fits_def)
  have s: "unat (sz + 1) = unat sz + 1" using b by (intro unat_Suc_u32) linarith
  have u: "unat (bytesUsed bf + (sz + 1)) = unat (bytesUsed bf) + unat sz + 1"
    using b by (simp add: s unat_plus_u32)
  have real: "ptr bf + unat (bufferSize bf) = unat (realBufferSize bf)"
    "unat (realBufferSize bf) \<le> length (blk bf)"
    using wf by (auto simp: buf_wf_def)
  have "grown bf bf' \<and> unat (bytesUsed bf) + unat sz + 1 \<le> unat (bufferSize bf')"
  proof (cases "bytesUsed bf + (sz + 1) > bufferSize bf")
    case False
    then have "bf' = bf" and "unat (bytesUsed bf) + unat sz + 1 \<le> unat (bufferSize bf)"
      using ret by (auto simp: GWEN_Buffer_AllocRoom_def outcome_simps u word_less_nat_alt
          gwen_errors split: if_splits)
    then show ?thesis using grown_refl [OF wf] by simp
  next
    case True
    let ?noffs = "(bytesUsed bf + (sz + 1) - bufferSize bf + (step bf - 1)) AND NOT (step bf - 1)"
    let ?nsize = "?noffs + realBufferSize bf"
    note sizes = AllocRoom_sizes [OF wf fit True]
    have req: "unat (?nsize + 1) = unat ?nsize + 1"
      using sizes(4) b by (intro unat_Suc_u32) linarith
    have p: "unat (of_nat (ptr bf) :: u32) = ptr bf"
      using b by (intro unat_of_nat_u32) linarith
    have bf': "bf' = bf\<lparr>realPtr := Some (take (unat (?nsize + 1)) (blk bf)
                 @ map (fresh bf) [length (blk bf)..<unat (?nsize + 1)]),
               realBufferSize := ?nsize, bufferSize := bufferSize bf + ?noffs\<rparr>"
      using ret True p by (auto simp: GWEN_Buffer_AllocRoom_def Let_def outcome_simps
          gwen_errors split: if_splits)
    have "grown bf bf'"
      unfolding grown_def bf'
      by (intro exI conjI, rule refl) (use sizes real req in \<open>auto simp: min_def\<close>)
    then show ?thesis using sizes(1,2) by (simp add: bf')
  qed
  then show "grown bf bf'" and "unat (bytesUsed bf) + unat sz + 1 \<le> unat (bufferSize bf')"
    by auto
qed

lemma AllocRoom_error:
  assumes "GWEN_Buffer_AllocRoom bf sz = Ret (rv, bf')" and "rv \<noteq> 0"
  shows "bf' = bf" and "rv \<in> {GWEN_ERROR_PERMISSIONS, GWEN_ERROR_BUFFER_OVERFLOW, GWEN_ERROR_MEMORY_FULL}"
  using assms by (auto simp: GWEN_Buffer_AllocRoom_def Let_def outcome_simps split: if_splits)


section \<open>Appending\<close>

text \<open>The buffer after \<open>bs\<close> and a \<open>NUL\<close> have been written behind its data.\<close>

definition appended :: "gwen_buffer \<Rightarrow> byte list \<Rightarrow> gwen_buffer" where
  "appended bf bs = bf\<lparr>
     realPtr := Some (write_at (ptr bf + unat (bytesUsed bf)) (bs @ [0]) (blk bf)),
     pos := (if pos bf = bytesUsed bf then pos bf + of_nat (length bs) else pos bf),
     bytesUsed := bytesUsed bf + of_nat (length bs)\<rparr>"

lemma append_tail:
  assumes wf: "buf_wf bf" and room: "unat (bytesUsed bf) + length bs + 1 \<le> unat (bufferSize bf)"
    and sz: "sz = of_nat (length bs)"
  shows "obind (poke bf (ptr bf + unat (bytesUsed bf)) bs) (\<lambda>bf.
           let bf = (if pos bf = bytesUsed bf then bf\<lparr>pos := pos bf + sz\<rparr> else bf);
               bf = bf\<lparr>bytesUsed := bytesUsed bf + sz\<rparr>
           in obind (terminate_data bf) (\<lambda>bf. Ret (0, bf))) = Ret (0 :: int, appended bf bs)"
proof -
  from wf obtain m where m: "realPtr bf = Some m" by (auto simp: buf_wf_def)
  have lt: "length bs < 4294967296"
    using room unat_u32_bound [of "bufferSize bf"] by linarith
  have u: "unat (bytesUsed bf + of_nat (length bs)) = unat (bytesUsed bf) + length bs"
    using room unat_u32_bound [of "bufferSize bf"]
    by (subst unat_plus_u32) (simp_all add: unat_of_nat_u32 [OF lt])
  have len: "ptr bf + unat (bytesUsed bf) + length bs + 1 \<le> length m"
    using wf_bounds(1) [OF wf] room m by simp
  show ?thesis
    using len by (simp add: poke_def terminate_data_def m sz u Let_def appended_def write_at_write_at
        add.assoc [symmetric])
qed

lemma appended_props:
  assumes wf: "buf_wf bf" and room: "unat (bytesUsed bf) + length bs + 1 \<le> unat (bufferSize bf)"
  shows "buf_wf (appended bf bs)" and "contents (appended bf bs) = contents bf @ bs"
    and "nul_terminated (appended bf bs)"
    and "unat (bytesUsed (appended bf bs)) = unat (bytesUsed bf) + length bs"
proof -
  from wf obtain m where m: "realPtr bf = Some m" by (auto simp: buf_wf_def)
  have lt: "length bs < 4294967296"
    using room unat_u32_bound [of "bufferSize bf"] by linarith
  have u: "unat (bytesUsed bf + of_nat (length bs)) = unat (bytesUsed bf) + length bs"
    using room unat_u32_bound [of "bufferSize bf"]
    by (subst unat_plus_u32) (simp_all add: unat_of_nat_u32 [OF lt])
  have len: "ptr bf + unat (bytesUsed bf) + length bs + 1 \<le> length m"
    using wf_bounds(1) [OF wf] room m by simp
  show "buf_wf (appended bf bs)"
    using wf room len by (auto simp: buf_wf_def appended_def u m)
  show "nul_terminated (appended bf bs)"
    using room len by (simp add: nul_terminated_def appended_def u m nth_write_at nth_append)
  show "unat (bytesUsed (appended bf bs)) = unat (bytesUsed bf) + length bs"
    by (simp add: appended_def u)
  let ?i = "ptr bf + unat (bytesUsed bf)"
  have "window ?i (length bs) (write_at ?i (bs @ [0]) m) = bs"
    using len by (simp add: window_def write_at_def)
  moreover have "window (ptr bf) (unat (bytesUsed bf)) (write_at ?i (bs @ [0]) m) = contents bf"
    using len by (simp add: window_write_at_after contents_def m)
  ultimately show "contents (appended bf bs) = contents bf @ bs"
    by (simp add: contents_def appended_def u m window_append)
qed


text \<open>What a successful or failed append leaves behind.\<close>

definition append_post :: "gwen_buffer \<Rightarrow> byte list \<Rightarrow> int \<Rightarrow> gwen_buffer \<Rightarrow> bool" where
  "append_post bf bs rv bf' \<longleftrightarrow>
     (rv = 0 \<and> (\<exists>bf1. grown bf bf1 \<and> unat (bytesUsed bf) + length bs + 1 \<le> unat (bufferSize bf1)
                  \<and> bf' = appended bf1 bs))
   \<or> (rv < 0 \<and> bf' = bf)"

lemma AllocRoom_neg:
  "GWEN_Buffer_AllocRoom bf sz = Ret (rv, bf') \<Longrightarrow> rv = 0 \<or> (rv < 0 \<and> bf' = bf)"
  using AllocRoom_error [of bf sz rv bf'] by (cases "rv = 0") (auto simp: gwen_errors)

lemma AllocRoom_cases:
  obtains (ok) bf1 where "GWEN_Buffer_AllocRoom bf sz = Ret (0, bf1)"
  | (err) rv where "rv < 0" "GWEN_Buffer_AllocRoom bf sz = Ret (rv, bf)"
  | (abort) "GWEN_Buffer_AllocRoom bf sz = Abort"
proof (cases "GWEN_Buffer_AllocRoom bf sz")
  case (Ret x)
  then show ?thesis using AllocRoom_neg [of bf sz "fst x" "snd x"] ok err by (cases x) auto
qed (use AllocRoom_no_Fault [of bf sz] AllocRoom_no_Hang [of bf sz] abort in auto)

lemma append_after_alloc:
  assumes wf: "buf_wf bf" and fit: "fits bf (unat s)" and n: "length bs \<le> unat s"
    and sz: "sz = of_nat (length bs)"
    and alloc: "A = GWEN_Buffer_AllocRoom bf s
                \<or> (A = Ret (0, bf) \<and> unat (bytesUsed bf) + length bs + 1 \<le> unat (bufferSize bf))"
  defines "R \<equiv> obind A (\<lambda>(rv, bf).
       if rv < 0 then Ret (rv, bf)
       else obind (poke bf (ptr bf + unat (bytesUsed bf)) bs) (\<lambda>bf.
           let bf = (if pos bf = bytesUsed bf then bf\<lparr>pos := pos bf + sz\<rparr> else bf);
               bf = bf\<lparr>bytesUsed := bytesUsed bf + sz\<rparr>
           in obind (terminate_data bf) (\<lambda>bf. Ret (0, bf))))"
  shows "R \<noteq> Fault" and "R = Ret (rv, bf') \<Longrightarrow> append_post bf bs rv bf'"
    and "A = Ret (0, bf1) \<Longrightarrow> \<exists>bf'. R = Ret (0, bf')"
proof -
  have A: "(rv = 0 \<and> grown bf bf1 \<and> unat (bytesUsed bf) + length bs + 1 \<le> unat (bufferSize bf1))
           \<or> (rv < 0 \<and> bf1 = bf)" if a: "A = Ret (rv, bf1)" for rv bf1
    using alloc
  proof
    assume al: "A = GWEN_Buffer_AllocRoom bf s"
    with a have r: "GWEN_Buffer_AllocRoom bf s = Ret (rv, bf1)" by simp
    from AllocRoom_neg [OF r] show ?thesis
      using AllocRoom_ok [OF wf fit, of bf1] r n by auto
  next
    assume "A = Ret (0, bf) \<and> unat (bytesUsed bf) + length bs + 1 \<le> unat (bufferSize bf)"
    with a show ?thesis using grown_refl [OF wf] by auto
  qed
  have tail: "R = (if rv < 0 then Ret (rv, bf1) else Ret (0, appended bf1 bs))"
    if a: "A = Ret (rv, bf1)" for rv bf1
  proof (cases "rv < 0")
    case True
    then show ?thesis by (simp add: R_def a)
  next
    case False
    with A [OF a] have g: "grown bf bf1" "unat (bytesUsed bf) + length bs + 1 \<le> unat (bufferSize bf1)"
      by auto
    with append_tail [OF grown_wf [OF wf g(1)], of bs sz] sz False show ?thesis
      by (simp add: R_def a grown_fields)
  qed
  have nf: "A \<noteq> Fault" using alloc AllocRoom_no_Fault [of bf s] by (metis outcome.distinct(3))
  show "R \<noteq> Fault"
  proof (cases A)
    case (Ret x)
    then show ?thesis using tail [of "fst x" "snd x"] by (cases x) auto
  qed (use nf in \<open>auto simp: R_def\<close>)
  show "\<exists>bf'. R = Ret (0, bf')" if "A = Ret (0, bf1)" for bf1
    using tail [OF that] by auto
  show "append_post bf bs rv bf'" if r: "R = Ret (rv, bf')"
  proof -
    from r obtain x bf1 where a: "A = Ret (x, bf1)"
      by (auto simp: R_def outcome_simps)
    from A [OF a] tail [OF a] r show ?thesis
      by (auto simp: append_post_def split: if_splits)
  qed
qed

lemma AppendBytes_correct:
  assumes wf: "buf_wf bf" and fit: "fits bf (unat sz + 1)" and src: "unat sz \<le> length buffer"
  shows "GWEN_Buffer_AppendBytes bf buffer sz \<noteq> Fault"
    and "GWEN_Buffer_AppendBytes bf buffer sz = Ret (rv, bf') \<Longrightarrow>
         append_post bf (take (unat sz) buffer) rv bf'"
    and "\<not> readonly bf \<Longrightarrow> GWEN_Buffer_AllocRoom bf (sz + 1) = Ret (0, bf1) \<Longrightarrow>
         \<exists>bf'. GWEN_Buffer_AppendBytes bf buffer sz = Ret (0, bf')"
proof -
  have s1: "unat (sz + 1) = unat sz + 1"
    using fit by (intro unat_Suc_u32) (simp add: fits_def)
  let ?bs = "take (unat sz) buffer"
  have reg: "region buffer sz = Ret ?bs" using src by (simp add: region_def)
  note al = append_after_alloc [OF wf, of "sz + 1" ?bs sz "GWEN_Buffer_AllocRoom bf (sz + 1)"]
  have prem: "fits bf (unat (sz + 1))" "length ?bs \<le> unat (sz + 1)" "sz = of_nat (length ?bs)"
    using fit src by (simp_all add: s1 min_def)
  note al = al [OF prem disjI1, OF refl]
  show "GWEN_Buffer_AppendBytes bf buffer sz \<noteq> Fault"
    unfolding GWEN_Buffer_AppendBytes_def reg obind.simps
    using al(1) by (simp add: fail_with_simps(2))
  show "append_post bf ?bs rv bf'" if "GWEN_Buffer_AppendBytes bf buffer sz = Ret (rv, bf')"
  proof (cases "readonly bf")
    case True
    with that show ?thesis
      by (auto simp: GWEN_Buffer_AppendBytes_def outcome_simps append_post_def gwen_errors)
  next
    case False
    with that al(2) show ?thesis
      unfolding GWEN_Buffer_AppendBytes_def reg obind.simps by simp
  qed
  show "\<not> readonly bf \<Longrightarrow> GWEN_Buffer_AllocRoom bf (sz + 1) = Ret (0, bf1) \<Longrightarrow>
         \<exists>bf'. GWEN_Buffer_AppendBytes bf buffer sz = Ret (0, bf')"
    unfolding GWEN_Buffer_AppendBytes_def reg obind.simps using al(3) by simp
qed


lemma AppendByte_correct:
  assumes wf: "buf_wf bf" and fit: "fits bf 2"
  shows "GWEN_Buffer_AppendByte bf c \<noteq> Fault"
    and "GWEN_Buffer_AppendByte bf c = Ret (rv, bf') \<Longrightarrow> append_post bf [c] rv bf'"
    and "\<not> readonly bf \<Longrightarrow> GWEN_Buffer_AllocRoom bf 2 = Ret (0, bf1) \<Longrightarrow>
         \<exists>bf'. GWEN_Buffer_AppendByte bf c = Ret (0, bf')"
proof -
  let ?A = "if bytesUsed bf + 1 + 1 > bufferSize bf then GWEN_Buffer_AllocRoom bf (1 + 1)
            else Ret (0, bf)"
  have u: "unat (bytesUsed bf + 1 + 1) = unat (bytesUsed bf) + 2"
    using fit by (simp add: fits_def unat_plus_u32)
  have A: "?A = GWEN_Buffer_AllocRoom bf 2
      \<or> (?A = Ret (0, bf) \<and> unat (bytesUsed bf) + length [c] + 1 \<le> unat (bufferSize bf))"
    using u by (auto simp: word_less_nat_alt)
  note al = append_after_alloc [OF wf, of 2 "[c]" 1 ?A, simplified,
      OF fit A [simplified]]
  show "GWEN_Buffer_AppendByte bf c \<noteq> Fault"
    using al(1) by (simp add: GWEN_Buffer_AppendByte_def fail_with_simps(2))
  show "append_post bf [c] rv bf'" if "GWEN_Buffer_AppendByte bf c = Ret (rv, bf')"
  proof (cases "readonly bf")
    case True
    with that show ?thesis
      by (auto simp: GWEN_Buffer_AppendByte_def outcome_simps append_post_def gwen_errors)
  next
    case False
    with that al(2) show ?thesis by (simp add: GWEN_Buffer_AppendByte_def)
  qed
  show "\<exists>bf'. GWEN_Buffer_AppendByte bf c = Ret (0, bf')"
    if "\<not> readonly bf" "GWEN_Buffer_AllocRoom bf 2 = Ret (0, bf1)" for bf1
  proof -
    have "\<exists>bf2. ?A = Ret (0, bf2)" using that(2) by simp
    then obtain bf2 where "?A = Ret (0, bf2)" ..
    from al(3) [OF this [simplified]] that(1) show ?thesis
      by (simp add: GWEN_Buffer_AppendByte_def)
  qed
qed

lemma FillWithBytes_correct:
  assumes wf: "buf_wf bf" and fit: "fits bf (unat sz + 1)"
  shows "GWEN_Buffer_FillWithBytes bf c sz \<noteq> Fault"
    and "GWEN_Buffer_FillWithBytes bf c sz = Ret (rv, bf') \<Longrightarrow>
         append_post bf (replicate (unat sz) c) rv bf'"
proof -
  have s1: "unat (sz + 1) = unat sz + 1"
    using fit by (intro unat_Suc_u32) (simp add: fits_def)
  let ?bs = "replicate (unat sz) c"
  note al = append_after_alloc [OF wf, of "sz + 1" ?bs sz "GWEN_Buffer_AllocRoom bf (sz + 1)"]
  have prem: "fits bf (unat (sz + 1))" "length ?bs \<le> unat (sz + 1)" "sz = of_nat (length ?bs)"
    using fit by (simp_all add: s1)
  note al = al [OF prem disjI1, OF refl]
  show "GWEN_Buffer_FillWithBytes bf c sz \<noteq> Fault"
    using al(1) by (simp add: GWEN_Buffer_FillWithBytes_def fail_with_simps(2))
  show "append_post bf ?bs rv bf'" if "GWEN_Buffer_FillWithBytes bf c sz = Ret (rv, bf')"
  proof (cases "readonly bf")
    case True
    with that show ?thesis
      by (auto simp: GWEN_Buffer_FillWithBytes_def outcome_simps append_post_def gwen_errors)
  next
    case False
    with that al(2) show ?thesis by (simp add: GWEN_Buffer_FillWithBytes_def)
  qed
qed

lemma append_post_contents:
  assumes wf: "buf_wf bf" and post: "append_post bf bs 0 bf'"
  shows "buf_wf bf'" "nul_terminated bf'" "contents bf' = contents bf @ bs"
    "unat (bytesUsed bf') = unat (bytesUsed bf) + length bs" "ptr bf' = ptr bf"
    "mode bf' = mode bf" "hardLimit bf' = hardLimit bf" "step bf' = step bf"
    "allocOk bf' = allocOk bf" "has_mode bf' = has_mode bf"
    "pos bf' = (if pos bf = bytesUsed bf then bytesUsed bf' else pos bf)"
proof -
  from post obtain bf1 where g: "grown bf bf1"
      "unat (bytesUsed bf) + length bs + 1 \<le> unat (bufferSize bf1)"
    and bf': "bf' = appended bf1 bs"
    by (auto simp: append_post_def)
  note f = grown_fields [OF g(1)]
  have r: "unat (bytesUsed bf1) + length bs + 1 \<le> unat (bufferSize bf1)" using g f by simp
  note p = appended_props [OF grown_wf [OF wf g(1)] r]
  show "buf_wf bf'" "nul_terminated bf'" "contents bf' = contents bf @ bs"
    "unat (bytesUsed bf') = unat (bytesUsed bf) + length bs"
    using p f grown_contents [OF wf g(1)] by (simp_all add: bf')
  show "ptr bf' = ptr bf" "mode bf' = mode bf" "hardLimit bf' = hardLimit bf"
    "step bf' = step bf" "allocOk bf' = allocOk bf" "has_mode bf' = has_mode bf"
    "pos bf' = (if pos bf = bytesUsed bf then bytesUsed bf' else pos bf)"
    using f by (auto simp: bf' appended_def has_mode_def fun_eq_iff)
qed

section \<open>Enough room: the contract of the appending functions\<close>

text \<open>
  \<open>room bf n\<close>: appending up to \<open>n\<close> more bytes cannot fail. The buffer is well-formed, writable and
  growable, its hard limit leaves space for the bytes, a terminator and one rounding step, and the
  allocator serves requests up to the hard limit.
\<close>

definition room :: "gwen_buffer \<Rightarrow> nat \<Rightarrow> bool" where
  "room bf n \<longleftrightarrow> buf_wf bf \<and> \<not> readonly bf \<and> dynamic bf
     \<and> ptr bf + unat (bytesUsed bf) + n + 2 + unat (step bf) \<le> unat (hardLimit bf)
     \<and> unat (hardLimit bf) < 4294967295
     \<and> (\<forall>k \<le> unat (hardLimit bf) + 1. allocOk bf k)"

lemma room_mono: "room bf n \<Longrightarrow> k \<le> n \<Longrightarrow> room bf k"
  by (auto simp: room_def)

lemma room_wf: "room bf n \<Longrightarrow> buf_wf bf"
  by (simp add: room_def)

lemma room_fits: "room bf n \<Longrightarrow> k \<le> n + 1 \<Longrightarrow> fits bf k"
  by (auto simp: room_def fits_def)

lemma AllocRoom_succeeds:
  assumes room: "room bf n" and n: "unat sz \<le> n + 1"
  shows "\<exists>bf'. GWEN_Buffer_AllocRoom bf sz = Ret (0, bf')"
proof (cases "bytesUsed bf + (sz + 1) > bufferSize bf")
  case False
  with room show ?thesis by (simp add: GWEN_Buffer_AllocRoom_def room_def)
next
  case True
  have wf: "buf_wf bf" and fit: "fits bf (unat sz)"
    using room_wf [OF room] room_fits [OF room n] by auto
  let ?noffs = "(bytesUsed bf + (sz + 1) - bufferSize bf + (step bf - 1)) AND NOT (step bf - 1)"
  let ?nsize = "?noffs + realBufferSize bf"
  note sizes = AllocRoom_sizes [OF wf fit True]
  have lim: "unat ?nsize < unat (hardLimit bf)" "unat (hardLimit bf) < 4294967295"
    using sizes(4) room n by (auto simp: room_def)
  have req: "unat (?nsize + 1) = unat ?nsize + 1"
    using lim by (intro unat_Suc_u32) linarith
  have pos: "0 < unat ?nsize" using sizes(3,5) by linarith
  then have nz: "?nsize \<noteq> 0" and nz1: "?nsize + 1 \<noteq> 0" using req by auto
  have "allocOk bf (unat (?nsize + 1))" using room lim req by (simp add: room_def)
  then show ?thesis
    using True room lim nz nz1
    by (simp add: GWEN_Buffer_AllocRoom_def Let_def word_less_nat_alt room_def)
qed

lemma room_append_post:
  assumes "room bf (length bs + n)" and "append_post bf bs 0 bf'"
  shows "room bf' n"
proof -
  note p = append_post_contents [OF room_wf [OF assms(1)] assms(2)]
  show ?thesis using assms(1) p by (simp add: room_def)
qed


lemma AppendByte_room:
  assumes room: "room bf (Suc n)"
  shows "\<exists>bf'. GWEN_Buffer_AppendByte bf c = Ret (0, bf') \<and> append_post bf [c] 0 bf'
           \<and> contents bf' = contents bf @ [c] \<and> room bf' n"
proof -
  have wf: "buf_wf bf" and fit: "fits bf 2" and ro: "\<not> readonly bf"
    using room_wf [OF room] room_fits [OF room] room by (auto simp: room_def)
  obtain bf1 where "GWEN_Buffer_AllocRoom bf 2 = Ret (0, bf1)"
    using AllocRoom_succeeds [OF room, of 2] by auto
  from AppendByte_correct(3) [OF wf fit ro this]
  obtain bf' where r: "GWEN_Buffer_AppendByte bf c = Ret (0, bf')" by blast
  note post = AppendByte_correct(2) [OF wf fit r]
  show ?thesis
    using r post append_post_contents(3) [OF wf post] room_append_post [of bf "[c]" n bf'] room
    by auto
qed

lemma AppendBytes_room:
  assumes room: "room bf (unat sz + n)" and src: "unat sz \<le> length buffer"
  shows "\<exists>bf'. GWEN_Buffer_AppendBytes bf buffer sz = Ret (0, bf')
           \<and> append_post bf (take (unat sz) buffer) 0 bf'
           \<and> contents bf' = contents bf @ take (unat sz) buffer \<and> room bf' n"
proof -
  have wf: "buf_wf bf" and fit: "fits bf (unat sz + 1)" and ro: "\<not> readonly bf"
    using room_wf [OF room] room_fits [OF room, of "unat sz + 1"] room by (auto simp: room_def)
  have s1: "unat (sz + 1) \<le> unat sz + n + 1"
    using fit unat_Suc_u32 [of sz] by (simp add: fits_def)
  obtain bf1 where "GWEN_Buffer_AllocRoom bf (sz + 1) = Ret (0, bf1)"
    using AllocRoom_succeeds [OF room s1] by auto
  from AppendBytes_correct(3) [OF wf fit src ro this]
  obtain bf' where r: "GWEN_Buffer_AppendBytes bf buffer sz = Ret (0, bf')" by blast
  note post = AppendBytes_correct(2) [OF wf fit src r]
  have "room bf (length (take (unat sz) buffer) + n)" using room src by (simp add: min_def)
  from r post append_post_contents(3) [OF wf post] room_append_post [OF this post]
  show ?thesis by auto
qed

section \<open>The interface the encoders rely on\<close>

text \<open>
  An encoder appends single bytes, blocks and strings to a sink and ignores the results. The laws:
  where there is room, a byte or a block is stored behind the content and uses up that much room.
\<close>

locale byte_sink =
  fixes hasRoom :: "'b \<Rightarrow> nat \<Rightarrow> bool"
    and content :: "'b \<Rightarrow> byte list"
    and app1 :: "'b \<Rightarrow> byte \<Rightarrow> (int \<times> 'b) outcome"
  assumes app1: "hasRoom b (Suc n) \<Longrightarrow>
      \<exists>b'. app1 b c = Ret (0, b') \<and> content b' = content b @ [c] \<and> hasRoom b' n"
begin

lemma appends_law:
  "hasRoom b (length cs + n) \<Longrightarrow>
   \<exists>b'. appends app1 b cs = Ret b' \<and> content b' = content b @ cs \<and> hasRoom b' n"
proof (induction cs arbitrary: b)
  case Nil
  then show ?case by simp
next
  case (Cons c cs)
  from Cons.prems app1 [of b "length cs + n" c] obtain b1
    where b1: "app1 b c = Ret (0, b1)" "content b1 = content b @ [c]" "hasRoom b1 (length cs + n)"
    by auto
  from Cons.IH [OF b1(3)] b1 show ?case by auto
qed

end

locale block_sink = byte_sink +
  fixes appN :: "'b \<Rightarrow> byte list \<Rightarrow> u32 \<Rightarrow> (int \<times> 'b) outcome"
  assumes appN: "hasRoom b (unat sz + n) \<Longrightarrow> unat sz \<le> length src \<Longrightarrow>
      \<exists>b'. appN b src sz = Ret (0, b') \<and> content b' = content b @ take (unat sz) src \<and> hasRoom b' n"
begin

lemma header_then_block:
  assumes "hasRoom b (length cs + unat sz + n)" and "unat sz \<le> length src"
  shows "\<exists>b'. obind (appends app1 b cs) (\<lambda>b. appN b src sz) = Ret (0, b')
           \<and> content b' = content b @ cs @ take (unat sz) src \<and> hasRoom b' n"
proof -
  from assms(1) have "hasRoom b (length cs + (unat sz + n))" by (simp add: add.assoc)
  from appends_law [OF this] obtain b1 where
    b1: "appends app1 b cs = Ret b1" "content b1 = content b @ cs" "hasRoom b1 (unat sz + n)"
    by auto
  from appN [OF b1(3) assms(2)] b1 show ?thesis by auto
qed

end

interpretation buf: block_sink room contents GWEN_Buffer_AppendByte GWEN_Buffer_AppendBytes
proof
  show "\<exists>b'. GWEN_Buffer_AppendByte b c = Ret (0, b') \<and> contents b' = contents b @ [c] \<and> room b' n"
    if "room b (Suc n)" for b n c
    using AppendByte_room [OF that] by blast
  show "\<exists>b'. GWEN_Buffer_AppendBytes b src sz = Ret (0, b')
          \<and> contents b' = contents b @ take (unat sz) src \<and> room b' n"
    if "room b (unat sz + n)" "unat sz \<le> length src" for b sz n src
    using AppendBytes_room [OF that] by blast
qed

text \<open>A string without its NUL.\<close>

lemma AppendString_room:
  assumes "room bf (length s + n)" "0 \<notin> set s"
  shows "\<exists>bf'. GWEN_Buffer_AppendString bf (s @ 0 # r) = Ret (0, bf') \<and> contents bf' = contents bf @ s \<and> room bf' n"
proof -
  have l: "strlen (s @ 0 # r) = length s" using assms(2) by (intro strlen_digits) (auto simp: list_all_iff)
  have "length s < 4294967296" using assms(1) by (simp add: room_def)
  then have u: "unat (of_nat (length s) :: u32) = length s" by (rule unat_of_nat_u32)
  show ?thesis using buf.appN [of bf "of_nat (length s)" n "s @ 0 # r"] assms(1) by (simp add: u l GWEN_Buffer_AppendString_def)
qed

section \<open>A new buffer\<close>

lemma new_buffer:
  assumes sz: "0 < unat sz" "unat sz < 4294967295" and ok: "ok (unat sz + 1)"
  shows "\<exists>bf. GWEN_Buffer_new hl fr ok None sz 0 t = Ret bf \<and> buf_wf bf \<and> nul_terminated bf
           \<and> contents bf = [] \<and> pos bf = 0 \<and> bytesUsed bf = 0 \<and> ptr bf = 0
           \<and> mode bf = GWEN_BUFFER_MODE_DEFAULT \<and> hardLimit bf = hl \<and> step bf = 1024
           \<and> allocOk bf = ok"
proof -
  have s1: "unat (sz + 1) = unat sz + 1" using sz by (intro unat_Suc_u32)
  have nz: "sz \<noteq> 0" using sz by auto
  have nz1: "sz + 1 \<noteq> 0" using s1 by auto
  have st: "\<exists>k<32. (1024::u32) = 2 ^ k" by (rule exI [of _ 10]) simp
  show ?thesis
    using nz nz1 ok sz st
    by (simp add: GWEN_Buffer_new_def Let_def s1 buf_wf_def nul_terminated_def contents_def
        buffer_consts nth_write_at)
qed

lemma new_buffer_room:
  assumes sz: "0 < unat sz" "unat sz < 4294967295" and hl: "n + 1026 \<le> unat hl" "unat hl < 4294967295"
  shows "\<exists>bf. GWEN_Buffer_new hl fr (\<lambda>_. True) None sz 0 t = Ret bf \<and> room bf n
           \<and> nul_terminated bf \<and> contents bf = [] \<and> pos bf = 0 \<and> bytesUsed bf = 0"
proof -
  from new_buffer [of sz "\<lambda>_. True" hl fr t] sz obtain bf where
    bf: "GWEN_Buffer_new hl fr (\<lambda>_. True) None sz 0 t = Ret bf" "buf_wf bf" "nul_terminated bf"
      "contents bf = []" "pos bf = 0" "bytesUsed bf = 0" "ptr bf = 0"
      "mode bf = GWEN_BUFFER_MODE_DEFAULT" "hardLimit bf = hl" "step bf = 1024"
      "allocOk bf = (\<lambda>_. True)"
    by auto
  moreover have "room bf n"
    using bf hl by (simp add: room_def has_mode_def buffer_consts)
  ultimately show ?thesis by blast
qed

text \<open>C16. Appending: where there is room for \<open>bs\<close> and \<open>n\<close> more bytes, \<^verbatim>\<open>GWEN_Buffer_AppendBytes\<close> returns 0,
  the contents are the old ones followed by exactly \<open>bs\<close>, the data is a C string, and room for
  \<open>n\<close> bytes is left.\<close>

theorem buffer_append_bytes:
  assumes "room bf (length bs + n)"
  shows "\<exists>bf'. GWEN_Buffer_AppendBytes bf bs (of_nat (length bs)) = Ret (0, bf')
           \<and> contents bf' = contents bf @ bs \<and> nul_terminated bf' \<and> room bf' n"
proof -
  have "unat (of_nat (length bs) :: u32) = length bs"
    using assms by (intro unat_of_nat_u32) (auto simp: room_def)
  with AppendBytes_room [of bf "of_nat (length bs)" n bs] assms
  obtain bf' where r: "GWEN_Buffer_AppendBytes bf bs (of_nat (length bs)) = Ret (0, bf')"
      "append_post bf bs 0 bf'" "contents bf' = contents bf @ bs" "room bf' n"
    by auto
  with append_post_contents(2) [OF room_wf [OF assms] r(2)] show ?thesis by blast
qed

theorem buffer_append_bytes_witness:
  "\<exists>bf bf'. GWEN_Buffer_new (16 * 1024 * 1024) (\<lambda>_. 7) (\<lambda>_. True) None 2 0 True = Ret bf
     \<and> GWEN_Buffer_AppendBytes bf [65, 66, 67] 3 = Ret (0, bf') \<and> contents bf' = [65, 66, 67]
     \<and> nul_terminated bf'"
proof -
  from new_buffer_room [of 2 100 "16 * 1024 * 1024" "\<lambda>_. 7" True] obtain bf where
    bf: "GWEN_Buffer_new (16 * 1024 * 1024) (\<lambda>_. 7) (\<lambda>_. True) None 2 0 True = Ret bf"
      "room bf 100" "contents bf = []"
    by auto
  then have "room bf (length [65, 66, 67 :: byte] + 97)" by simp
  from buffer_append_bytes [OF this] bf show ?thesis by auto
qed

end
