(* ===== verification/Gwen_BufferEdit.thy ===== *)
theory Gwen_BufferEdit
  imports Gwen_Buffer
begin

text \<open>
  Editing inside a buffer (\<^verbatim>\<open>src/base/buffer.c\<close>, lines 724 to 988): room inserted or removed at the
  position, bytes inserted or replaced, and cropping. The lemmas say which bytes are the contents
  afterwards, that the data stays a C string, and that no access leaves the storage.
\<close>

section \<open>Inserting and removing\<close>

definition GWEN_Buffer_InsertRoom :: "gwen_buffer \<Rightarrow> u32 \<Rightarrow> (int \<times> gwen_buffer) outcome" where
  "GWEN_Buffer_InsertRoom bf sz =
    (if readonly bf then fail_with bf GWEN_ERROR_PERMISSIONS
     else if pos bf = 0 \<and> bytesUsed bf = 0 then
       obind (GWEN_Buffer_AllocRoom bf sz) (\<lambda>(rv, bf).
         if rv \<noteq> 0 then Ret (rv, bf)
         else obind (terminate_data (bf\<lparr>bytesUsed := bytesUsed bf + sz\<rparr>)) (\<lambda>bf. Ret (0, bf)))
     else if pos bf = 0 \<and> int (ptr bf) \<ge> sint sz then
       obind (retreat bf (unat sz)) (\<lambda>bf.
         Ret (0, GWEN_Buffer_AdjustBookmarks
                   (bf\<lparr>bytesUsed := bytesUsed bf + sz, bufferSize := bufferSize bf + sz\<rparr>)
                   (pos bf) (sint sz)))
     else
       obind (GWEN_Buffer_AllocRoom bf sz) (\<lambda>(rv, bf).
         if rv < 0 then Ret (rv, bf)
         else obind (oassert (pos bf \<le> bytesUsed bf)) (\<lambda>_.
           let p = ptr bf + unat (pos bf); i = sint (bytesUsed bf - pos bf)
           in obind (if i > 0
                     then obind (peek bf p (nat i)) (\<lambda>bs. poke bf (p + unat sz) bs)
                     else Ret bf) (\<lambda>bf.
              obind (terminate_data (bf\<lparr>bytesUsed := bytesUsed bf + sz\<rparr>)) (\<lambda>bf.
                Ret (0, GWEN_Buffer_AdjustBookmarks bf (pos bf) (sint sz)))))))"

text \<open>\<^verbatim>\<open>-((int)v)\<close>: the most negative number has no negation.\<close>

definition int_neg :: "u32 \<Rightarrow> int outcome" where
  "int_neg v = (if sint v = - 2147483648 then Fault else Ret (- sint v))"

lemma int_neg_small:
  assumes "unat v < 2147483648"
  shows "int_neg v = Ret (- sint v)"
proof -
  have "sint v = int (unat v)" by (rule sint_u32_small [OF assms])
  then have "sint v \<noteq> - 2147483648" by linarith
  then show ?thesis by (simp add: int_neg_def)
qed

definition GWEN_Buffer_RemoveRoom :: "gwen_buffer \<Rightarrow> u32 \<Rightarrow> (int \<times> gwen_buffer) outcome" where
  "GWEN_Buffer_RemoveRoom bf sz =
    (if readonly bf then fail_with bf GWEN_ERROR_PERMISSIONS
     else if bytesUsed bf < sz + pos bf then Ret (GWEN_ERROR_INVALID, bf)
     else
       obind
         (if pos bf = 0 then
            obind (advance bf (unat sz)) (\<lambda>bf.
              Ret (bf\<lparr>bytesUsed := bytesUsed bf - sz, bufferSize := bufferSize bf - sz\<rparr>))
          else
            (let p = ptr bf + unat (pos bf) + unat sz; i = sint (bytesUsed bf - pos bf - sz)
             in if i < 0 then Fault
                else obind (peek bf p (nat i)) (\<lambda>bs.
                     obind (poke bf (ptr bf + unat (pos bf)) bs) (\<lambda>bf.
                       Ret (bf\<lparr>bytesUsed := bytesUsed bf - sz\<rparr>)))))
         (\<lambda>bf. obind (terminate_data bf) (\<lambda>bf.
            obind (int_neg sz) (\<lambda>offset. Ret (0, GWEN_Buffer_AdjustBookmarks bf (pos bf) offset)))))"

definition GWEN_Buffer_ReplaceBytes ::
  "gwen_buffer \<Rightarrow> u32 \<Rightarrow> byte list \<Rightarrow> u32 \<Rightarrow> (int \<times> gwen_buffer) outcome" where
  "GWEN_Buffer_ReplaceBytes bf rsize buffer sz =
    (if readonly bf then fail_with bf GWEN_ERROR_PERMISSIONS
     else
       (let d = sint (sz - rsize)
        in obind (if d < 0 then obind (int_neg (sz - rsize)) (\<lambda>d. GWEN_Buffer_RemoveRoom bf (word_of_int d))
                  else if d > 0 then GWEN_Buffer_InsertRoom bf (word_of_int d)
                  else Ret (0, bf)) (\<lambda>(rv, bf).
             if rv \<noteq> 0 then Ret (rv, bf)
             else if sz \<noteq> 0 then
               obind (region buffer sz) (\<lambda>bs.
               obind (poke bf (ptr bf + unat (pos bf)) bs) (\<lambda>bf. Ret (0, bf)))
             else Ret (0, bf))))"

definition GWEN_Buffer_InsertBytes ::
  "gwen_buffer \<Rightarrow> byte list \<Rightarrow> u32 \<Rightarrow> (int \<times> gwen_buffer) outcome" where
  "GWEN_Buffer_InsertBytes bf buffer sz =
    (if readonly bf then fail_with bf GWEN_ERROR_PERMISSIONS
     else obind (GWEN_Buffer_InsertRoom bf sz) (\<lambda>(rv, bf).
       if rv < 0 then Ret (rv, bf)
       else obind (region buffer sz) (\<lambda>bs.
            obind (poke bf (ptr bf + unat (pos bf)) bs) (\<lambda>bf. Ret (0, bf)))))"

definition GWEN_Buffer_InsertByte :: "gwen_buffer \<Rightarrow> byte \<Rightarrow> (int \<times> gwen_buffer) outcome" where
  "GWEN_Buffer_InsertByte bf c =
    (if readonly bf then fail_with bf GWEN_ERROR_PERMISSIONS
     else obind (GWEN_Buffer_InsertRoom bf 1) (\<lambda>(rv, bf).
       if rv < 0 then Ret (rv, bf)
       else obind (poke bf (ptr bf + unat (pos bf)) [c]) (\<lambda>bf. Ret (0, bf))))"

definition GWEN_Buffer_InsertBuffer ::
  "gwen_buffer \<Rightarrow> gwen_buffer \<Rightarrow> (int \<times> gwen_buffer) outcome" where
  "GWEN_Buffer_InsertBuffer bf sf =
     GWEN_Buffer_InsertBytes bf (drop (ptr sf) (blk sf)) (bytesUsed sf)"

definition GWEN_Buffer_InsertString :: "gwen_buffer \<Rightarrow> byte list \<Rightarrow> (int \<times> gwen_buffer) outcome" where
  "GWEN_Buffer_InsertString bf s = GWEN_Buffer_InsertBytes bf s (of_nat (strlen s))"

definition GWEN_Buffer_FillLeftWithBytes ::
  "gwen_buffer \<Rightarrow> byte \<Rightarrow> u32 \<Rightarrow> (int \<times> gwen_buffer) outcome" where
  "GWEN_Buffer_FillLeftWithBytes bf c sz =
    (if readonly bf then fail_with bf GWEN_ERROR_PERMISSIONS
     else obind (GWEN_Buffer_InsertRoom bf sz) (\<lambda>(rv, bf).
       if rv < 0 then Ret (-1, bf)
       else obind (poke bf (ptr bf + unat (pos bf)) (replicate (unat sz) c))
              (\<lambda>bf. Ret (0, bf))))"

definition GWEN_Buffer_Crop :: "gwen_buffer \<Rightarrow> u32 \<Rightarrow> u32 \<Rightarrow> (int \<times> gwen_buffer) outcome" where
  "GWEN_Buffer_Crop bf p l =
    (if readonly bf then fail_with bf GWEN_ERROR_PERMISSIONS
     else if p \<ge> bufferSize bf then Ret (-1, bf)
     else if bytesUsed bf - p < l then Ret (-1, bf)
     else obind (advance bf (unat p)) (\<lambda>bf.
       let offset = (if pos bf > p then p else pos bf);
           bf = bf\<lparr>bufferSize := bufferSize bf - p, pos := pos bf - offset, bytesUsed := l\<rparr>;
           bf = (if pos bf > bytesUsed bf then bf\<lparr>pos := bytesUsed bf\<rparr> else bf)
       in obind (terminate_data bf) (\<lambda>bf.
          obind (int_neg offset) (\<lambda>d. Ret (0, GWEN_Buffer_AdjustBookmarks bf offset d)))))"

section \<open>Inserting\<close>

lemma contents_split:
  assumes "buf_wf bf" and "unat (pos bf) \<le> unat (bytesUsed bf)"
  shows "take (unat (pos bf)) (contents bf) = window (ptr bf) (unat (pos bf)) (blk bf)"
    and "drop (unat (pos bf)) (contents bf)
       = window (ptr bf + unat (pos bf)) (unat (bytesUsed bf) - unat (pos bf)) (blk bf)"
  using assms by (simp_all add: contents_def take_window drop_window)

text \<open>Signed 32 bit sizes stay positive while the data is below two gigabytes.\<close>

definition below2G :: "gwen_buffer \<Rightarrow> u32 \<Rightarrow> bool" where
  "below2G bf sz \<longleftrightarrow> unat (bytesUsed bf) + unat sz < 2147483648"

definition insert_post :: "gwen_buffer \<Rightarrow> nat \<Rightarrow> byte list \<Rightarrow> gwen_buffer \<Rightarrow> bool" where
  "insert_post bf n X bf' \<longleftrightarrow> buf_wf bf' \<and> length X = n
     \<and> contents bf' = take (unat (pos bf)) (contents bf) @ X @ drop (unat (pos bf)) (contents bf)
     \<and> unat (bytesUsed bf') = unat (bytesUsed bf) + n \<and> pos bf' = pos bf
     \<and> ptr bf' \<le> ptr bf \<and> (nul_terminated bf \<longrightarrow> nul_terminated bf')
     \<and> mode bf' = mode bf \<and> hardLimit bf' = hardLimit bf \<and> step bf' = step bf
     \<and> allocOk bf' = allocOk bf"

lemma AdjustBookmarks_simps [simp]:
  "blk (GWEN_Buffer_AdjustBookmarks bf p d) = blk bf"
  "contents (GWEN_Buffer_AdjustBookmarks bf p d) = contents bf"
  "buf_wf (GWEN_Buffer_AdjustBookmarks bf p d) = buf_wf bf"
  "nul_terminated (GWEN_Buffer_AdjustBookmarks bf p d) = nul_terminated bf"
  "has_mode (GWEN_Buffer_AdjustBookmarks bf p d) = has_mode bf"
  "bytesUsed (GWEN_Buffer_AdjustBookmarks bf p d) = bytesUsed bf"
  "pos (GWEN_Buffer_AdjustBookmarks bf p d) = pos bf"
  "ptr (GWEN_Buffer_AdjustBookmarks bf p d) = ptr bf"
  "mode (GWEN_Buffer_AdjustBookmarks bf p d) = mode bf"
  "hardLimit (GWEN_Buffer_AdjustBookmarks bf p d) = hardLimit bf"
  "step (GWEN_Buffer_AdjustBookmarks bf p d) = step bf"
  "allocOk (GWEN_Buffer_AdjustBookmarks bf p d) = allocOk bf"
  "bufferSize (GWEN_Buffer_AdjustBookmarks bf p d) = bufferSize bf"
  "realBufferSize (GWEN_Buffer_AdjustBookmarks bf p d) = realBufferSize bf"
  by (simp_all add: GWEN_Buffer_AdjustBookmarks_def contents_def buf_wf_def nul_terminated_def
      has_mode_def fun_eq_iff)

lemma insert_post_AdjustBookmarks [simp]:
  "insert_post bf n X (GWEN_Buffer_AdjustBookmarks bf' p d) = insert_post bf n X bf'"
  by (simp add: insert_post_def)

text \<open>The data is shifted up behind the position: the last branch of \<^verbatim>\<open>GWEN_Buffer_InsertRoom\<close>.\<close>

lemma InsertRoom_shift:
  assumes wf: "buf_wf bf" and p: "unat (pos bf) \<le> unat (bytesUsed bf)" and small: "below2G bf sz"
    and g: "grown bf bf1" and rm: "unat (bytesUsed bf) + unat sz + 1 \<le> unat (bufferSize bf1)"
  shows "\<exists>X bf'. obind (if sint (bytesUsed bf1 - pos bf1) > 0
                     then obind (peek bf1 (ptr bf1 + unat (pos bf1)) (nat (sint (bytesUsed bf1 - pos bf1))))
                            (\<lambda>bs. poke bf1 (ptr bf1 + unat (pos bf1) + unat sz) bs)
                     else Ret bf1)
           (\<lambda>bf. terminate_data (bf\<lparr>bytesUsed := bytesUsed bf + sz\<rparr>)) = Ret bf'
         \<and> insert_post bf (unat sz) X bf' \<and> nul_terminated bf'"
proof -
  note f = grown_fields [OF g]
  have wf1: "buf_wf bf1" by (rule grown_wf [OF wf g])
  then obtain m where m: "realPtr bf1 = Some m" by (auto simp: buf_wf_def)
  let ?a = "ptr bf" and ?p = "unat (pos bf)" and ?u = "unat (bytesUsed bf)" and ?s = "unat sz"
  have len: "?a + ?u + ?s + 1 \<le> length m"
    using wf_bounds(1) [OF wf1] rm f m by simp
  define k where "k = ?u - ?p"
  have d: "unat (bytesUsed bf - pos bf) = k" unfolding k_def using p by (rule unat_minus_u32)
  have k: "k < 2147483648" using small by (simp add: k_def below2G_def)
  have i: "sint (bytesUsed bf - pos bf) = int k"
    using sint_u32_small [of "bytesUsed bf - pos bf"] k unfolding d by simp
  have pk: "?p + k = ?u" using p by (simp add: k_def)
  have us: "unat (bytesUsed bf + sz) = ?u + ?s"
    using small by (intro unat_plus_u32) (simp add: below2G_def)
  let ?t = "window (?a + ?p) k m"
  let ?m1 = "write_at (?a + ?p + ?s) ?t m"
  let ?m2 = "write_at (?a + (?u + ?s)) [0] ?m1"
  let ?bf' = "bf1\<lparr>realPtr := Some ?m2, bytesUsed := bytesUsed bf + sz\<rparr>"
  have lt: "length ?t = k" using pk len by simp
  have l1: "length ?m1 = length m" using pk len by (simp add: lt)
  have run: "obind (if sint (bytesUsed bf1 - pos bf1) > 0
                     then obind (peek bf1 (ptr bf1 + unat (pos bf1)) (nat (sint (bytesUsed bf1 - pos bf1))))
                            (\<lambda>bs. poke bf1 (ptr bf1 + unat (pos bf1) + unat sz) bs)
                     else Ret bf1)
           (\<lambda>bf. terminate_data (bf\<lparr>bytesUsed := bytesUsed bf + sz\<rparr>)) = Ret ?bf'"
  proof (cases "k = 0")
    case True
    then show ?thesis using len by (simp add: f i m us terminate_data_def poke_def)
  next
    case False
    then show ?thesis
      using len pk by (simp add: f i m us terminate_data_def peek_def poke_def lt l1)
  qed
  have c: "contents ?bf' = take ?p (contents bf) @ window (?a + ?p) ?s m @ drop ?p (contents bf)"
  proof -
    have "contents bf1 = contents bf" by (rule grown_contents [OF wf g])
    then show ?thesis
      using window_shift_right [OF p len, of 0] contents_split [OF wf1] p
      by (simp add: contents_def us f m k_def)
  qed
  have nt: "nul_terminated ?bf'"
    using len rm by (simp add: nul_terminated_def us f nth_write_at l1)
  have wf': "buf_wf ?bf'"
    using wf1 rm len by (auto simp: buf_wf_def us f m l1)
  have "insert_post bf ?s (window (?a + ?p) ?s m) ?bf'"
    using wf' c nt us len p by (simp add: insert_post_def f)
  with run nt show ?thesis by blast
qed


text \<open>Reserved space in front of the data is occupied: the middle branch.\<close>

lemma InsertRoom_reserved:
  assumes wf: "buf_wf bf" and p: "pos bf = 0" and s: "unat sz \<le> ptr bf" and small: "below2G bf sz"
  shows "\<exists>X. insert_post bf (unat sz) X
           (bf\<lparr>ptr := ptr bf - unat sz, bytesUsed := bytesUsed bf + sz, bufferSize := bufferSize bf + sz\<rparr>)"
    (is "\<exists>X. insert_post bf ?s X ?bf'")
proof -
  have us: "unat (bytesUsed bf + sz) = unat (bytesUsed bf) + ?s"
    using small by (intro unat_plus_u32) (simp add: below2G_def)
  have real: "ptr bf + unat (bufferSize bf) = unat (realBufferSize bf)"
    using wf by (simp add: buf_wf_def)
  have bs: "unat (bufferSize bf + sz) = unat (bufferSize bf) + ?s"
    using real s unat_u32_bound [of "realBufferSize bf"] by (intro unat_plus_u32) linarith
  have wf': "buf_wf ?bf'" using wf s by (auto simp: buf_wf_def us bs)
  have c: "contents ?bf' = window (ptr bf - ?s) ?s (blk bf) @ contents bf"
    using s window_append [of "ptr bf - ?s" ?s "unat (bytesUsed bf)" "blk bf"]
    by (simp add: contents_def us) (simp add: add.commute)
  have "length (window (ptr bf - ?s) ?s (blk bf)) = ?s"
    using s wf_bounds(2) [OF wf] by simp
  then have "insert_post bf ?s (window (ptr bf - ?s) ?s (blk bf)) ?bf'"
    using wf' c us p s by (auto simp: insert_post_def nul_terminated_def bs)
  then show ?thesis by blast
qed

text \<open>What a call that inserts \<open>n\<close> bytes may answer: never a fault, and either the room or an error.\<close>

definition room_result :: "gwen_buffer \<Rightarrow> u32 \<Rightarrow> (int \<times> gwen_buffer) outcome \<Rightarrow> bool" where
  "room_result bf sz r \<longleftrightarrow> r \<noteq> Fault \<and> r \<noteq> Hang \<and>
     (\<forall>rv bf'. r = Ret (rv, bf') \<longrightarrow>
        (rv = 0 \<and> (\<exists>X. insert_post bf (unat sz) X bf')) \<or> (rv < 0 \<and> bf' = bf)) \<and>
     (\<not> readonly bf \<longrightarrow> (\<exists>bf1. GWEN_Buffer_AllocRoom bf sz = Ret (0, bf1)) \<longrightarrow>
        (\<exists>bf'. r = Ret (0, bf')))"

lemma room_resultI_alloc:
  assumes ok: "\<And>bf1. GWEN_Buffer_AllocRoom bf sz = Ret (0, bf1) \<Longrightarrow>
      \<exists>X bf'. r = Ret (0, bf') \<and> insert_post bf (unat sz) X bf'"
    and err: "\<And>rv. rv < 0 \<Longrightarrow> GWEN_Buffer_AllocRoom bf sz = Ret (rv, bf) \<Longrightarrow> r = Ret (rv, bf)"
    and ab: "GWEN_Buffer_AllocRoom bf sz = Abort \<Longrightarrow> r = Abort"
  shows "room_result bf sz r"
proof (cases "GWEN_Buffer_AllocRoom bf sz")
  case (Ret x)
  then obtain rv bf1 where x: "GWEN_Buffer_AllocRoom bf sz = Ret (rv, bf1)" by (cases x) auto
  from AllocRoom_neg [OF x] show ?thesis
    using ok [of bf1] err [of rv] x by (auto simp: room_result_def)
next
  case Abort
  with ab show ?thesis by (simp add: room_result_def)
next
  case Fault
  then show ?thesis using AllocRoom_no_Fault [of bf sz] by simp
next
  case Hang
  then show ?thesis using AllocRoom_no_Hang [of bf sz] by simp
qed

lemma InsertRoom_empty_case:
  assumes wf: "buf_wf bf" and small: "below2G bf sz" and fit: "fits bf (unat sz)"
    and ro: "\<not> readonly bf" and empty: "pos bf = 0 \<and> bytesUsed bf = 0"
  shows "room_result bf sz (GWEN_Buffer_InsertRoom bf sz)"
proof (rule room_resultI_alloc)
  have p: "unat (pos bf) \<le> unat (bytesUsed bf)" using empty by simp
  fix bf1
  assume a: "GWEN_Buffer_AllocRoom bf sz = Ret (0, bf1)"
  note g = AllocRoom_ok [OF wf fit a]
  from InsertRoom_shift [OF wf p small g] empty
  obtain X bf' where "terminate_data (bf1\<lparr>bytesUsed := bytesUsed bf1 + sz\<rparr>) = Ret bf'"
    "insert_post bf (unat sz) X bf'"
    by (auto simp: grown_fields [OF g(1)])
  with empty a ro show "\<exists>X bf'. GWEN_Buffer_InsertRoom bf sz = Ret (0, bf') \<and> insert_post bf (unat sz) X bf'"
    by (auto simp: GWEN_Buffer_InsertRoom_def)
qed (use ro empty in \<open>auto simp: GWEN_Buffer_InsertRoom_def\<close>)

lemma InsertRoom_shift_case:
  assumes wf: "buf_wf bf" and small: "below2G bf sz" and fit: "fits bf (unat sz)"
    and p: "unat (pos bf) \<le> unat (bytesUsed bf)" and ro: "\<not> readonly bf"
    and ne: "\<not> (pos bf = 0 \<and> bytesUsed bf = 0)" and nr: "\<not> (pos bf = 0 \<and> int (ptr bf) \<ge> sint sz)"
  shows "room_result bf sz (GWEN_Buffer_InsertRoom bf sz)"
proof (rule room_resultI_alloc)
  let ?shift = "\<lambda>bf1. obind (if sint (bytesUsed bf1 - pos bf1) > 0
       then obind (peek bf1 (ptr bf1 + unat (pos bf1)) (nat (sint (bytesUsed bf1 - pos bf1))))
              (\<lambda>bs. poke bf1 (ptr bf1 + unat (pos bf1) + unat sz) bs)
       else Ret bf1) (\<lambda>bf. terminate_data (bf\<lparr>bytesUsed := bytesUsed bf + sz\<rparr>))"
  note unfold = GWEN_Buffer_InsertRoom_def if_not_P [OF ro] if_not_P [OF ne] if_not_P [OF nr]
  fix bf1
  assume a: "GWEN_Buffer_AllocRoom bf sz = Ret (0, bf1)"
  note g = AllocRoom_ok [OF wf fit a]
  from InsertRoom_shift [OF wf p small g]
  obtain X bf2 where r: "?shift bf1 = Ret bf2" and post: "insert_post bf (unat sz) X bf2" by blast
  have "pos bf1 \<le> bytesUsed bf1" using p by (simp add: grown_fields [OF g(1)] word_le_nat_alt)
  then have "GWEN_Buffer_InsertRoom bf sz
      = obind (?shift bf1) (\<lambda>bf. Ret (0, GWEN_Buffer_AdjustBookmarks bf (pos bf) (sint sz)))"
    unfolding unfold a by (simp add: Let_def obind_assoc)
  then have "GWEN_Buffer_InsertRoom bf sz = Ret (0, GWEN_Buffer_AdjustBookmarks bf2 (pos bf2) (sint sz))"
    by (simp only: r obind.simps)
  with post show "\<exists>X bf'. GWEN_Buffer_InsertRoom bf sz = Ret (0, bf') \<and> insert_post bf (unat sz) X bf'"
    by auto
next
  note unfold = GWEN_Buffer_InsertRoom_def if_not_P [OF ro] if_not_P [OF ne] if_not_P [OF nr]
  show "GWEN_Buffer_InsertRoom bf sz = Ret (rv, bf)"
    if "rv < 0" "GWEN_Buffer_AllocRoom bf sz = Ret (rv, bf)" for rv
    unfolding unfold using that by simp
  show "GWEN_Buffer_InsertRoom bf sz = Abort" if "GWEN_Buffer_AllocRoom bf sz = Abort"
    unfolding unfold using that by simp
qed

lemma InsertRoom_correct:
  assumes wf: "buf_wf bf" and p: "unat (pos bf) \<le> unat (bytesUsed bf)"
    and small: "below2G bf sz" and fit: "fits bf (unat sz)"
  shows "room_result bf sz (GWEN_Buffer_InsertRoom bf sz)"
proof -
  have sz: "sint sz = int (unat sz)"
    using small by (intro sint_u32_small) (simp add: below2G_def)
  consider (ro) "readonly bf" | (empty) "\<not> readonly bf" "pos bf = 0 \<and> bytesUsed bf = 0"
    | (reserved) "\<not> readonly bf" "\<not> (pos bf = 0 \<and> bytesUsed bf = 0)" "pos bf = 0" "int (ptr bf) \<ge> sint sz"
    | (shift) "\<not> readonly bf" "\<not> (pos bf = 0 \<and> bytesUsed bf = 0)" "\<not> (pos bf = 0 \<and> int (ptr bf) \<ge> sint sz)"
    by blast
  then show ?thesis
  proof cases
    case ro
    then show ?thesis
      by (auto simp: room_result_def GWEN_Buffer_InsertRoom_def outcome_simps gwen_errors)
  next
    case reserved
    from reserved(4) have le: "unat sz \<le> ptr bf" by (simp only: sz of_nat_le_iff)
    have "GWEN_Buffer_InsertRoom bf sz = Ret (0, GWEN_Buffer_AdjustBookmarks
        (bf\<lparr>ptr := ptr bf - unat sz, bytesUsed := bytesUsed bf + sz, bufferSize := bufferSize bf + sz\<rparr>)
        0 (sint sz))"
      using reserved le unfolding GWEN_Buffer_InsertRoom_def by (simp add: retreat_def)
    with InsertRoom_reserved [OF wf reserved(3) le small] show ?thesis
      by (simp add: room_result_def)
  qed (use assms InsertRoom_empty_case InsertRoom_shift_case in blast)+
qed

lemma poke_inserted:
  assumes post: "insert_post bf n X bf1" and n: "length bs = n"
    and wf: "buf_wf bf" and p: "unat (pos bf) \<le> unat (bytesUsed bf)"
  shows "\<exists>bf'. poke bf1 (ptr bf1 + unat (pos bf1)) bs = Ret bf' \<and> insert_post bf n bs bf'"
proof -
  have wf1: "buf_wf bf1" and pos: "pos bf1 = pos bf"
    and u: "unat (bytesUsed bf1) = unat (bytesUsed bf) + n"
    and c: "contents bf1 = take (unat (pos bf)) (contents bf) @ X @ drop (unat (pos bf)) (contents bf)"
    and lX: "length X = n"
    using post by (auto simp: insert_post_def)
  from wf1 obtain m where m: "realPtr bf1 = Some m" by (auto simp: buf_wf_def)
  have len: "ptr bf1 + unat (bytesUsed bf1) \<le> length m" using wf_bounds(2) [OF wf1] m by simp
  let ?a = "ptr bf1 + unat (pos bf)"
  let ?bf' = "bf1\<lparr>realPtr := Some (write_at ?a bs m)\<rparr>"
  have in_range: "?a + length bs \<le> length m" using len u p n by linarith
  have run: "poke bf1 (ptr bf1 + unat (pos bf1)) bs = Ret ?bf'"
    using in_range by (simp add: poke_def m pos)
  have wf': "buf_wf ?bf'" using wf1 in_range m by (auto simp: buf_wf_def)
  have "contents ?bf' = take (unat (pos bf)) (contents bf1) @ bs
          @ drop (unat (pos bf) + length bs) (contents bf1)"
    unfolding contents_def using len u p n write_at_window_eq [of "ptr bf1" "unat (bytesUsed bf1)" m "unat (pos bf)" bs]
    by (simp add: m)
  also have "\<dots> = take (unat (pos bf)) (contents bf) @ bs @ drop (unat (pos bf)) (contents bf)"
    using wf p by (simp add: c lX n)
  finally have c': "contents ?bf' = \<dots>" .
  have "nul_terminated bf1 \<Longrightarrow> nul_terminated ?bf'"
    using in_range u p n wf_bounds(1) [OF wf1] m
    by (auto simp: nul_terminated_def nth_write_at)
  with c' wf' post n have "insert_post bf n bs ?bf'" by (auto simp: insert_post_def)
  with run show ?thesis by blast
qed

definition insert_result :: "gwen_buffer \<Rightarrow> byte list \<Rightarrow> (int \<times> gwen_buffer) outcome \<Rightarrow> bool" where
  "insert_result bf bs r \<longleftrightarrow> r \<noteq> Fault \<and>
     (\<forall>rv bf'. r = Ret (rv, bf') \<longrightarrow>
        (rv = 0 \<and> insert_post bf (length bs) bs bf') \<or> (rv < 0 \<and> bf' = bf)) \<and>
     (\<not> readonly bf \<longrightarrow> (\<exists>bf1. GWEN_Buffer_AllocRoom bf (of_nat (length bs)) = Ret (0, bf1)) \<longrightarrow>
        (\<exists>bf'. r = Ret (0, bf')))"

lemma insert_after_room:
  assumes wf: "buf_wf bf" and p: "unat (pos bf) \<le> unat (bytesUsed bf)"
    and small: "below2G bf sz" and fit: "fits bf (unat sz)" and n: "length bs = unat sz"
    and e: "\<And>rv. rv < 0 \<Longrightarrow> e rv < (0 :: int)"
  shows "insert_result bf bs
    (if readonly bf then fail_with bf GWEN_ERROR_PERMISSIONS
     else obind (GWEN_Buffer_InsertRoom bf sz) (\<lambda>(rv, bf).
       if rv < 0 then Ret (e rv, bf)
       else obind (poke bf (ptr bf + unat (pos bf)) bs) (\<lambda>bf. Ret (0, bf))))"
proof (cases "readonly bf")
  case True
  then show ?thesis by (auto simp: insert_result_def outcome_simps gwen_errors)
next
  case False
  note I = InsertRoom_correct [OF wf p small fit, unfolded room_result_def]
  have al: "of_nat (length bs) = sz" by (simp add: n)
  show ?thesis
  proof (cases "GWEN_Buffer_InsertRoom bf sz")
    case (Ret x)
    obtain rv bf1 where r: "GWEN_Buffer_InsertRoom bf sz = Ret (rv, bf1)"
      using Ret by (cases x) auto
    from I r consider "rv < 0" "bf1 = bf" | X where "rv = 0" "insert_post bf (unat sz) X bf1"
      by blast
    then show ?thesis
    proof cases
      case 1
      with I r e [of rv] False show ?thesis by (auto simp: insert_result_def al)
    next
      case 2
      from poke_inserted [OF 2(2) n wf p] 2(1) r False show ?thesis
        by (auto simp: insert_result_def n)
    qed
  next
    case Abort
    with I False show ?thesis by (auto simp: insert_result_def al)
  next
    case Fault
    with I show ?thesis by auto
  next
    case Hang
    with I show ?thesis by auto
  qed
qed

lemma InsertBytes_correct:
  assumes "buf_wf bf" and "unat (pos bf) \<le> unat (bytesUsed bf)" and "below2G bf sz"
    and "fits bf (unat sz)" and src: "unat sz \<le> length buffer"
  shows "insert_result bf (take (unat sz) buffer) (GWEN_Buffer_InsertBytes bf buffer sz)"
proof -
  have reg: "region buffer sz = Ret (take (unat sz) buffer)" using src by (simp add: region_def)
  show ?thesis
    unfolding GWEN_Buffer_InsertBytes_def reg obind.simps
    using assms insert_after_room [of bf sz "take (unat sz) buffer" "\<lambda>rv. rv"] by simp
qed

lemma InsertByte_correct:
  assumes "buf_wf bf" and "unat (pos bf) \<le> unat (bytesUsed bf)" and "below2G bf 1" and "fits bf 1"
  shows "insert_result bf [c] (GWEN_Buffer_InsertByte bf c)"
  unfolding GWEN_Buffer_InsertByte_def
  using assms insert_after_room [of bf 1 "[c]" "\<lambda>rv. rv"] by simp

lemma FillLeftWithBytes_correct:
  assumes "buf_wf bf" and "unat (pos bf) \<le> unat (bytesUsed bf)" and "below2G bf sz"
    and "fits bf (unat sz)"
  shows "insert_result bf (replicate (unat sz) c) (GWEN_Buffer_FillLeftWithBytes bf c sz)"
  unfolding GWEN_Buffer_FillLeftWithBytes_def
  using assms insert_after_room [of bf sz "replicate (unat sz) c" "\<lambda>_. -1"] by simp

section \<open>Removing and cropping\<close>

definition cut_post :: "gwen_buffer \<Rightarrow> byte list \<Rightarrow> gwen_buffer \<Rightarrow> bool" where
  "cut_post bf c bf' \<longleftrightarrow> buf_wf bf' \<and> nul_terminated bf' \<and> contents bf' = c
     \<and> unat (bytesUsed bf') = length c
     \<and> mode bf' = mode bf \<and> hardLimit bf' = hardLimit bf \<and> step bf' = step bf
     \<and> allocOk bf' = allocOk bf"

lemma cut_post_AdjustBookmarks [simp]:
  "cut_post bf c (GWEN_Buffer_AdjustBookmarks bf' p d) = cut_post bf c bf'"
  by (simp add: cut_post_def)

text \<open>A terminator written behind \<open>n\<close> bytes at offset \<open>a\<close>: the last step of every cut.\<close>

lemma terminate_cut:
  assumes wf: "buf_wf bf" and lt: "unat (bytesUsed bf) < unat (bufferSize bf)"
  shows "\<exists>bf'. terminate_data bf = Ret bf' \<and> cut_post bf (contents bf) bf' \<and> pos bf' = pos bf
           \<and> ptr bf' = ptr bf"
proof -
  from wf obtain m where m: "realPtr bf = Some m" by (auto simp: buf_wf_def)
  let ?i = "ptr bf + unat (bytesUsed bf)"
  let ?bf' = "bf\<lparr>realPtr := Some (write_at ?i [0] m)\<rparr>"
  have len: "?i + 1 \<le> length m" using wf_bounds(1) [OF wf] lt m by simp
  have "contents ?bf' = contents bf"
    using len window_write_at_after [of "ptr bf" "unat (bytesUsed bf)" ?i "[0]" m]
    by (simp add: contents_def m)
  moreover have "buf_wf ?bf'" using wf len m by (auto simp: buf_wf_def)
  moreover have "nul_terminated ?bf'" using lt len by (simp add: nul_terminated_def nth_write_at)
  ultimately have "cut_post bf (contents bf) ?bf'" using wf by (simp add: cut_post_def)
  moreover have "terminate_data bf = Ret ?bf'"
    using len by (simp add: terminate_data_def poke_def m)
  ultimately show ?thesis by auto
qed

lemma RemoveRoom_correct:
  assumes wf: "buf_wf bf" and ro: "\<not> readonly bf" and nul: "unat (bytesUsed bf) < unat (bufferSize bf)"
    and small: "unat (bytesUsed bf) < 2147483648"
    and ps: "unat (pos bf) + unat sz \<le> unat (bytesUsed bf)"
  shows "\<exists>bf'. GWEN_Buffer_RemoveRoom bf sz = Ret (0, bf') \<and> pos bf' = pos bf \<and>
    cut_post bf (take (unat (pos bf)) (contents bf) @ drop (unat (pos bf) + unat sz) (contents bf)) bf'"
proof -
  let ?a = "ptr bf" and ?p = "unat (pos bf)" and ?u = "unat (bytesUsed bf)" and ?s = "unat sz"
  from wf obtain m where m: "realPtr bf = Some m" by (auto simp: buf_wf_def)
  have len: "?a + ?u \<le> length m" using wf_bounds(2) [OF wf] m by simp
  have sp: "unat (sz + pos bf) = ?s + ?p"
    using ps unat_u32_bound [of "bytesUsed bf"] by (intro unat_plus_u32) linarith
  have neg: "int_neg sz = Ret (- sint sz)" using ps small by (intro int_neg_small) linarith
  have guard: "\<not> bytesUsed bf < sz + pos bf" using ps by (simp add: word_less_nat_alt sp)
  have us: "unat (bytesUsed bf - sz) = ?u - ?s" using ps by (intro unat_minus_u32) simp
  have bs: "unat (bufferSize bf - sz) = unat (bufferSize bf) - ?s"
    using ps nul by (intro unat_minus_u32) simp
  show ?thesis
  proof (cases "pos bf = 0")
    case True
    let ?b = "bf\<lparr>ptr := ?a + ?s, bytesUsed := bytesUsed bf - sz, bufferSize := bufferSize bf - sz\<rparr>"
    have wfb: "buf_wf ?b" using wf ps nul by (auto simp: buf_wf_def us bs)
    have ltb: "unat (bytesUsed ?b) < unat (bufferSize ?b)" using nul ps by (simp add: us bs)
    from terminate_cut [OF wfb ltb] obtain bf' where
      t: "terminate_data ?b = Ret bf'" "cut_post ?b (contents ?b) bf'" "pos bf' = 0"
      using True by auto
    have "contents ?b = drop ?s (contents bf)"
      using m by (simp add: contents_def us drop_window)
    with t True guard ro len ps show ?thesis
      by (auto simp: GWEN_Buffer_RemoveRoom_def advance_def m cut_post_def neg)
  next
    case False
    define k where "k = ?u - ?p - ?s"
    have d: "unat (bytesUsed bf - pos bf - sz) = k"
      using ps by (simp add: unat_minus_u32 k_def)
    have kl: "k < 2147483648" using small by (simp add: k_def)
    have i: "sint (bytesUsed bf - pos bf - sz) = int k"
      using sint_u32_small [of "bytesUsed bf - pos bf - sz"] kl unfolding d by simp
    let ?t = "window (?a + ?p + ?s) k m"
    have lt: "length ?t = k" using len ps by (simp add: k_def)
    have pk: "?p + ?s + k = ?u" using ps by (simp add: k_def)
    let ?b = "bf\<lparr>realPtr := Some (write_at (?a + ?p) ?t m), bytesUsed := bytesUsed bf - sz\<rparr>"
    have run: "obind (peek bf (?a + ?p + ?s) k) (\<lambda>bs. obind (poke bf (?a + ?p) bs) (\<lambda>bf.
                       Ret (bf\<lparr>bytesUsed := bytesUsed bf - sz\<rparr>))) = Ret ?b"
      using len pk lt by (simp add: peek_def poke_def m)
    have "length (write_at (?a + ?p) ?t m) = length m"
      using len pk lt by (intro length_write_at) linarith
    then have wfb: "buf_wf ?b" using wf nul m by (auto simp: buf_wf_def us)
    have ltb: "unat (bytesUsed ?b) < unat (bufferSize ?b)" using nul ps by (simp add: us)
    from terminate_cut [OF wfb ltb] obtain bf' where
      t: "terminate_data ?b = Ret bf'" "cut_post ?b (contents ?b) bf'" "pos bf' = pos bf"
      by auto
    have "contents ?b = take ?p (contents bf) @ drop (?p + ?s) (contents bf)"
      using window_close_gap [OF ps len] by (simp add: contents_def us m k_def)
    with t have "cut_post bf (take ?p (contents bf) @ drop (?p + ?s) (contents bf)) bf'"
      by (simp add: cut_post_def)
    with t run show ?thesis
      unfolding GWEN_Buffer_RemoveRoom_def if_not_P [OF ro] if_not_P [OF guard] if_not_P [OF False]
        Let_def i using neg by simp
  qed
qed

lemma RemoveRoom_too_much:
  assumes "\<not> readonly bf" and "unat (pos bf) + unat sz < 4294967296"
    and "unat (bytesUsed bf) < unat (pos bf) + unat sz"
  shows "GWEN_Buffer_RemoveRoom bf sz = Ret (GWEN_ERROR_INVALID, bf)"
  using assms by (simp add: GWEN_Buffer_RemoveRoom_def word_less_nat_alt unat_plus_u32 add.commute)

lemma Crop_correct:
  assumes wf: "buf_wf bf" and ro: "\<not> readonly bf"
    and p: "unat p + unat l \<le> unat (bytesUsed bf)" and nul: "unat p + unat l < unat (bufferSize bf)"
    and small: "unat p < 2147483648"
  shows "\<exists>bf'. GWEN_Buffer_Crop bf p l = Ret (0, bf')
     \<and> cut_post bf (take (unat l) (drop (unat p) (contents bf))) bf'
     \<and> unat (pos bf') = min (unat (pos bf) - unat p) (unat l)"
proof -
  let ?u = "unat (bytesUsed bf)" and ?p = "unat p" and ?l = "unat l"
  have g1: "\<not> p \<ge> bufferSize bf" using nul by (simp add: word_le_nat_alt)
  have up: "unat (bytesUsed bf - p) = ?u - ?p" using p by (intro unat_minus_u32) simp
  have g2: "\<not> bytesUsed bf - p < l" using p by (simp add: word_less_nat_alt up)
  have bs: "unat (bufferSize bf - p) = unat (bufferSize bf) - ?p"
    using nul by (intro unat_minus_u32) simp
  define off where "off = (if pos bf > p then p else pos bf)"
  have "unat off < 2147483648" using small by (auto simp: off_def word_less_nat_alt)
  note neg = int_neg_small [OF this]
  define q where "q = (if pos bf - off > l then l else pos bf - off)"
  have po: "unat (pos bf - off) = unat (pos bf) - ?p"
    by (auto simp: off_def unat_minus_u32 word_less_nat_alt)
  have q: "unat q = min (unat (pos bf) - ?p) ?l"
    by (auto simp: q_def po word_less_nat_alt)
  have adv: "advance bf ?p = Ret (bf\<lparr>ptr := ptr bf + ?p\<rparr>)"
    using wf_bounds(1) [OF wf] nul by (simp add: advance_def)
  let ?b = "bf\<lparr>ptr := ptr bf + ?p, bufferSize := bufferSize bf - p, pos := q, bytesUsed := l\<rparr>"
  have wfb: "buf_wf ?b" using wf p nul by (auto simp: buf_wf_def bs)
  have ltb: "unat (bytesUsed ?b) < unat (bufferSize ?b)" using nul by (simp add: bs)
  from terminate_cut [OF wfb ltb] obtain bf' where
    t: "terminate_data ?b = Ret bf'" "cut_post ?b (contents ?b) bf'" "pos bf' = q"
    by auto
  have comm: "b\<lparr>bytesUsed := x, pos := y\<rparr> = b\<lparr>pos := y, bytesUsed := x\<rparr>" for b x y
    by simp
  have run: "GWEN_Buffer_Crop bf p l = Ret (0, GWEN_Buffer_AdjustBookmarks bf' off (- sint off))"
    unfolding GWEN_Buffer_Crop_def if_not_P [OF ro] if_not_P [OF g1] if_not_P [OF g2] adv obind.simps
    using t(1) neg by (simp add: off_def [symmetric] q_def [symmetric] Let_def if_distrib [of bytesUsed] cong: if_cong)
      (simp add: q_def comm split: if_splits)
  have "contents ?b = take ?l (drop ?p (contents bf))"
    using p by (simp add: contents_def drop_window take_window)
  with t run q show ?thesis by (auto simp: cut_post_def)
qed

section \<open>Reserving space in front of the data\<close>

definition reserve_post :: "gwen_buffer \<Rightarrow> u32 \<Rightarrow> gwen_buffer \<Rightarrow> bool" where
  "reserve_post bf res bf' \<longleftrightarrow> buf_wf bf' \<and> contents bf' = contents bf \<and> ptr bf' = ptr bf + unat res
     \<and> bytesUsed bf' = bytesUsed bf \<and> pos bf' = pos bf \<and> (bytesUsed bf = 0 \<longrightarrow> nul_terminated bf')"

lemma ReserveBytes_ok:
  assumes wf: "buf_wf bf" and fit: "fits bf (unat res)" and nz: "res \<noteq> 0"
    and a: "GWEN_Buffer_AllocRoom bf res = Ret (0, bf1)"
  shows "\<exists>bf'. GWEN_Buffer_ReserveBytes bf res = Ret (0, bf') \<and> reserve_post bf res bf'"
proof -
  note g = AllocRoom_ok [OF wf fit a]
  note f = grown_fields [OF g(1)]
  have wf1: "buf_wf bf1" by (rule grown_wf [OF wf g(1)])
  then obtain m where m: "realPtr bf1 = Some m" by (auto simp: buf_wf_def)
  have c1: "contents bf1 = contents bf" by (rule grown_contents [OF wf g(1)])
  let ?a = "ptr bf" and ?u = "unat (bytesUsed bf)" and ?r = "unat res"
  have len: "?a + ?u + ?r + 1 \<le> length m" using wf_bounds(1) [OF wf1] g(2) f m by simp
  have bs: "unat (bufferSize bf1 - res) = unat (bufferSize bf1) - ?r"
    using g(2) by (intro unat_minus_u32) simp
  have bnz: "bufferSize bf1 - res \<noteq> 0" using g(2) bs by auto
  have real: "?a + unat (bufferSize bf1) = unat (realBufferSize bf1)"
    using wf1 f by (simp add: buf_wf_def)
  let ?d = "if bytesUsed bf = 0 then [0] else window ?a ?u m"
  let ?b = "bf1\<lparr>realPtr := Some (write_at (?a + ?r) ?d m), ptr := ?a + ?r, bufferSize := bufferSize bf1 - res\<rparr>"
  have lm: "length (write_at (?a + ?r) ?d m) = length m"
    using len by (intro length_write_at) auto
  have "GWEN_Buffer_ReserveBytes bf res = Ret (0, ?b)"
    using nz a bnz len lm
    by (simp add: GWEN_Buffer_ReserveBytes_def advance_def peek_def poke_def m f Let_def)
  moreover have "buf_wf ?b" using wf1 real len lm g(2) m f by (auto simp: buf_wf_def bs)
  moreover have "contents ?b = contents bf"
    using window_write_at_same [of "?a + ?r" "window ?a ?u m" m] len c1
    by (simp add: contents_def f m)
  moreover have "bytesUsed bf = 0 \<longrightarrow> nul_terminated ?b"
    using g(2) len f by (simp add: nul_terminated_def bs nth_write_at)
  ultimately show ?thesis using f by (auto simp: reserve_post_def)
qed

lemma ReserveBytes_no_Fault:
  assumes "buf_wf bf" and "fits bf (unat res)"
  shows "GWEN_Buffer_ReserveBytes bf res \<noteq> Fault"
proof (cases "res = 0")
  case True
  then show ?thesis by (simp add: GWEN_Buffer_ReserveBytes_def)
next
  case False
  show ?thesis
    by (cases bf res rule: AllocRoom_cases)
       (use ReserveBytes_ok [OF assms False] False in \<open>auto simp: GWEN_Buffer_ReserveBytes_def\<close>)
qed

section \<open>Replacing\<close>

lemma poke_inside:
  assumes wf: "buf_wf bf" and p: "unat (pos bf) + length bs \<le> unat (bytesUsed bf)"
  shows "\<exists>bf'. poke bf (ptr bf + unat (pos bf)) bs = Ret bf' \<and> buf_wf bf'
     \<and> contents bf' = take (unat (pos bf)) (contents bf) @ bs @ drop (unat (pos bf) + length bs) (contents bf)
     \<and> pos bf' = pos bf \<and> bytesUsed bf' = bytesUsed bf \<and> (nul_terminated bf \<longrightarrow> nul_terminated bf')"
proof -
  from wf obtain m where m: "realPtr bf = Some m" by (auto simp: buf_wf_def)
  have len: "ptr bf + unat (bytesUsed bf) \<le> length m" using wf_bounds(2) [OF wf] m by simp
  let ?a = "ptr bf + unat (pos bf)"
  let ?bf' = "bf\<lparr>realPtr := Some (write_at ?a bs m)\<rparr>"
  have in_range: "?a + length bs \<le> length m" using len p by linarith
  have "poke bf ?a bs = Ret ?bf'" using in_range by (simp add: poke_def m)
  moreover have "buf_wf ?bf'" using wf in_range m by (auto simp: buf_wf_def)
  moreover have "contents ?bf' = take (unat (pos bf)) (contents bf) @ bs
      @ drop (unat (pos bf) + length bs) (contents bf)"
    unfolding contents_def using len p write_at_window_eq [of "ptr bf" "unat (bytesUsed bf)" m "unat (pos bf)" bs]
    by (simp add: m)
  moreover have "nul_terminated bf \<longrightarrow> nul_terminated ?bf'"
    using in_range p wf_bounds(1) [OF wf] m by (auto simp: nul_terminated_def nth_write_at)
  ultimately show ?thesis by auto
qed

text \<open>Making the data fit: the bytes in front of and behind the replaced range are kept.\<close>

text \<open>The first half of \<^verbatim>\<open>GWEN_Buffer_ReplaceBytes\<close>: as many bytes are inserted or removed as the new ones are more or fewer.\<close>

definition resized :: "gwen_buffer \<Rightarrow> u32 \<Rightarrow> u32 \<Rightarrow> gwen_buffer \<Rightarrow> bool" where
  "resized bf rsize sz bf1 \<longleftrightarrow> buf_wf bf1 \<and> nul_terminated bf1 \<and> pos bf1 = pos bf
     \<and> unat (bytesUsed bf1) = unat (bytesUsed bf) - unat rsize + unat sz
     \<and> take (unat (pos bf)) (contents bf1) = take (unat (pos bf)) (contents bf)
     \<and> drop (unat (pos bf) + unat sz) (contents bf1) = drop (unat (pos bf) + unat rsize) (contents bf)"

lemma Replace_resize:
  fixes sz rsize :: u32
  assumes wf: "buf_wf bf" and ro: "\<not> readonly bf" and fit: "fits bf (unat sz)" and nul: "nul_terminated bf"
    and small: "unat (bytesUsed bf) + unat sz < 2147483648"
    and in_data: "unat (pos bf) + unat rsize \<le> unat (bytesUsed bf)"
  defines "d \<equiv> sint (sz - rsize)"
  defines "R \<equiv> if d < 0 then obind (int_neg (sz - rsize)) (\<lambda>d. GWEN_Buffer_RemoveRoom bf (word_of_int d))
       else if d > 0 then GWEN_Buffer_InsertRoom bf (word_of_int d) else Ret (0, bf)"
  shows "R \<noteq> Fault \<and> (\<forall>rv bf1. R = Ret (rv, bf1) \<longrightarrow> rv = 0 \<and> resized bf rsize sz bf1 \<or> rv < 0 \<and> bf1 = bf)
    \<and> (room bf (unat sz) \<longrightarrow> (\<exists>bf1. R = Ret (0, bf1)))"
proof -
  let ?p = "unat (pos bf)" and ?s = "unat sz" and ?r = "unat rsize" and ?u = "unat (bytesUsed bf)"
  have nul': "?u < unat (bufferSize bf)" using nul by (simp add: nul_terminated_def)
  have d: "d = int ?s - int ?r"
    unfolding d_def by (rule sint_diff_u32) (use small in_data in linarith)+
  consider (eq) "?s = ?r" | (less) "?s < ?r" | (more) "?r < ?s" by linarith
  then show ?thesis
  proof cases
    case eq
    then show ?thesis using wf nul in_data by (simp add: d R_def resized_def)
  next
    case less
    define k :: u32 where "k = word_of_int (- d)"
    have "- d = int (?r - ?s)" using less d by linarith
    then have "k = of_nat (?r - ?s)" by (simp only: k_def of_int_of_nat_eq)
    then have k: "unat k = ?r - ?s"
      using unat_u32_bound [of rsize] unat_of_nat_u32 [of "?r - ?s"] by simp
    have "d \<noteq> - 2147483648" using d in_data small by linarith
    then have n: "int_neg (sz - rsize) = Ret (- d)" by (simp add: int_neg_def d_def [symmetric])
    have "\<exists>bf'. GWEN_Buffer_RemoveRoom bf k = Ret (0, bf') \<and> pos bf' = pos bf \<and>
       cut_post bf (take ?p (contents bf) @ drop (?p + unat k) (contents bf)) bf'"
      using small in_data k by (intro RemoveRoom_correct [OF wf ro nul']) linarith+
    moreover have "d < 0" using less d by linarith
    then have "R = GWEN_Buffer_RemoveRoom bf k" using n by (simp add: R_def k_def)
    ultimately show ?thesis
      using wf in_data less by (auto simp: cut_post_def k resized_def)
  next
    case more
    define k :: u32 where "k = word_of_int d"
    have "d = int (?s - ?r)" using more d by linarith
    then have "k = of_nat (?s - ?r)" by (simp only: k_def of_int_of_nat_eq)
    then have k: "unat k = ?s - ?r"
      using unat_u32_bound [of sz] unat_of_nat_u32 [of "?s - ?r"] by simp
    have rr: "room_result bf k (GWEN_Buffer_InsertRoom bf k)"
      using small in_data k fit
      by (intro InsertRoom_correct [OF wf]) (auto simp: below2G_def fits_def)
    have "\<not> d < 0" "d > 0" using more d by linarith+
    then have R: "R = GWEN_Buffer_InsertRoom bf k" by (simp add: R_def k_def)
    have "resized bf rsize sz bf'" if "insert_post bf (unat k) X bf'" for X bf'
      using that wf in_data more nul by (auto simp: resized_def insert_post_def k add.commute)
    moreover have "\<exists>b1. GWEN_Buffer_AllocRoom bf k = Ret (0, b1)" if "room bf ?s"
      using AllocRoom_succeeds [OF that, of k] k by simp
    ultimately show ?thesis using rr ro unfolding R room_result_def by blast
  qed
qed

lemma ReplaceBytes_result:
  assumes wf: "buf_wf bf" and ro: "\<not> readonly bf" and fit: "fits bf (unat sz)" and nul: "nul_terminated bf"
    and small: "unat (bytesUsed bf) + unat sz < 2147483648" and src: "unat sz \<le> length buffer"
    and in_data: "unat (pos bf) + unat rsize \<le> unat (bytesUsed bf)"
  shows "GWEN_Buffer_ReplaceBytes bf rsize buffer sz \<noteq> Fault
    \<and> (\<forall>rv bf'. GWEN_Buffer_ReplaceBytes bf rsize buffer sz = Ret (rv, bf') \<longrightarrow>
          rv < 0 \<and> bf' = bf
          \<or> rv = 0 \<and> buf_wf bf' \<and> nul_terminated bf' \<and> pos bf' = pos bf
            \<and> contents bf' = take (unat (pos bf)) (contents bf) @ take (unat sz) buffer
                @ drop (unat (pos bf) + unat rsize) (contents bf))
    \<and> (room bf (unat sz) \<longrightarrow> (\<exists>bf'. GWEN_Buffer_ReplaceBytes bf rsize buffer sz = Ret (0, bf')))"
proof -
  let ?p = "unat (pos bf)" and ?s = "unat sz" and ?r = "unat rsize"
  have reg: "region buffer sz = Ret (take ?s buffer)" using src by (simp add: region_def)
  define R where "R = (if sint (sz - rsize) < 0 then obind (int_neg (sz - rsize)) (\<lambda>d. GWEN_Buffer_RemoveRoom bf (word_of_int d))
       else if sint (sz - rsize) > 0 then GWEN_Buffer_InsertRoom bf (word_of_int (sint (sz - rsize))) else Ret (0, bf))"
  note M = Replace_resize [OF wf ro fit nul small in_data, folded R_def]
  have run: "GWEN_Buffer_ReplaceBytes bf rsize buffer sz = obind R (\<lambda>(rv, bf).
      if rv \<noteq> 0 then Ret (rv, bf)
      else if sz \<noteq> 0 then obind (poke bf (ptr bf + unat (pos bf)) (take ?s buffer)) (\<lambda>bf. Ret (0, bf))
      else Ret (0, bf))"
    unfolding GWEN_Buffer_ReplaceBytes_def if_not_P [OF ro] Let_def R_def reg obind.simps by (rule refl)
  have fin: "\<exists>bf2. (if sz \<noteq> 0 then obind (poke bf1 (ptr bf1 + unat (pos bf1)) (take ?s buffer)) (\<lambda>bf. Ret (0 :: int, bf))
        else Ret (0, bf1)) = Ret (0, bf2) \<and> buf_wf bf2 \<and> nul_terminated bf2 \<and> pos bf2 = pos bf
      \<and> contents bf2 = take ?p (contents bf) @ take ?s buffer @ drop (?p + ?r) (contents bf)"
    if b1: "resized bf rsize sz bf1" for bf1
  proof -
    have "unat (pos bf1) + length (take ?s buffer) \<le> unat (bytesUsed bf1)"
      using b1 in_data src by (simp add: resized_def min_def)
    from poke_inside [OF _ this] b1 obtain bf2 where
      "poke bf1 (ptr bf1 + unat (pos bf1)) (take ?s buffer) = Ret bf2" "buf_wf bf2" "pos bf2 = pos bf"
      "nul_terminated bf2" "contents bf2 = take ?p (contents bf) @ take ?s buffer @ drop (?p + ?r) (contents bf)"
      using src by (auto simp: resized_def min_def)
    moreover have "sz = 0 \<Longrightarrow> contents bf1 = take ?p (contents bf) @ drop (?p + ?r) (contents bf)"
      using b1 append_take_drop_id [of ?p "contents bf1"] by (simp add: resized_def)
    ultimately show ?thesis using b1 by (auto simp: resized_def)
  qed
  show ?thesis
  proof (cases R)
    case (Ret x)
    obtain rv bf1 where x: "R = Ret (rv, bf1)" using Ret by (cases x) auto
    from M x consider "rv < 0" "bf1 = bf" "\<not> room bf ?s" | "rv = 0" "resized bf rsize sz bf1" by auto
    then show ?thesis
    proof cases
      case 1
      then show ?thesis using run x by simp
    next
      case 2
      from fin [OF 2(2)] 2(1) show ?thesis unfolding run x by auto
    qed
  qed (use M run in auto)
qed

lemma ReplaceBytes_correct:
  assumes rm: "room bf (unat sz)" and nul: "nul_terminated bf"
    and small: "unat (bytesUsed bf) + unat sz < 2147483648" and src: "unat sz \<le> length buffer"
    and in_data: "unat (pos bf) + unat rsize \<le> unat (bytesUsed bf)"
  shows "\<exists>bf'. GWEN_Buffer_ReplaceBytes bf rsize buffer sz = Ret (0, bf') \<and> buf_wf bf'
     \<and> nul_terminated bf' \<and> pos bf' = pos bf
     \<and> contents bf' = take (unat (pos bf)) (contents bf) @ take (unat sz) buffer
         @ drop (unat (pos bf) + unat rsize) (contents bf)"
proof -
  have "buf_wf bf" "\<not> readonly bf" "fits bf (unat sz)" using rm room_fits [OF rm, of "unat sz"] by (auto simp: room_def)
  from ReplaceBytes_result [OF this nul small src in_data] rm show ?thesis by auto
qed

end
