(* ===== verification/Gwen_BufferIO.thy ===== *)
theory Gwen_BufferIO
  imports Gwen_BufferEdit
begin

text \<open>
  Reading out of a buffer and formatted output into it (\<^verbatim>\<open>src/base/buffer.c\<close>): the copy loop of
  \<^verbatim>\<open>GWEN_Buffer_ReadBytes\<close> with its termination, and \<^verbatim>\<open>GWEN_Buffer_AppendArgs\<close> with its two attempts.
\<close>

section \<open>Reading\<close>

text \<open>One round of the copy loop moves \<open>j\<close> bytes, at least one and at most what is asked for.\<close>

lemma read_step:
  fixes i sz :: u32
  assumes "i < sz" and "0 < j" and "j \<le> sint (sz - i)"
  shows "unat (i + word_of_int j) = unat i + nat j" and "unat i + nat j \<le> unat sz"
proof -
  have d: "unat (sz - i) = unat sz - unat i"
    using assms(1) by (intro unat_minus_u32) (simp add: word_less_nat_alt)
  have "sint (sz - i) = int (unat sz - unat i)"
    using sint_nonneg_u32 [of "sz - i"] assms d by linarith
  with assms show le: "unat i + nat j \<le> unat sz"
    unfolding word_less_nat_alt by linarith
  obtain n where n: "j = int n" using assms(2) zero_less_imp_eq_int [of j] by blast
  have "unat (of_nat n :: u32) = n"
    using le n unat_u32_bound [of sz] by (intro unat_of_nat_u32) simp
  moreover have "unat (i + of_nat n) = unat i + unat (of_nat n :: u32)"
    using calculation le n unat_u32_bound [of sz] by (intro unat_plus_u32) simp
  ultimately show "unat (i + word_of_int j) = unat i + nat j" by (simp add: n)
qed

function GWEN_Buffer_ReadBytes_loop ::
  "u32 \<Rightarrow> gwen_buffer \<Rightarrow> byte list \<Rightarrow> u32 \<Rightarrow> (byte list \<times> u32 \<times> gwen_buffer) outcome" where
  "GWEN_Buffer_ReadBytes_loop sz bf dst i =
    (if \<not> i < sz then Ret (dst, i, bf)
     else if pos bf \<ge> bytesUsed bf then Ret (dst, i, bf)
     else
       (let srcLeft = sint (bytesUsed bf - pos bf);
            j = (if sint (sz - i) > srcLeft then srcLeft else sint (sz - i))
        in if srcLeft = 0 then Ret (dst, i, bf)
           else if j \<le> 0 then Fault
           else obind (peek bf (ptr bf + unat (pos bf)) (nat j)) (\<lambda>bs.
                  GWEN_Buffer_ReadBytes_loop sz (bf\<lparr>pos := pos bf + word_of_int j\<rparr>)
                    (dst @ bs) (i + word_of_int j))))"
  by pat_completeness auto
termination
proof (relation "measure (\<lambda>(sz, bf, dst, i). unat sz - unat i)", goal_cases)
  case 1
  then show ?case by simp
next
  case (2 sz bf dst i srcLeft j bs)
  then have lt: "i < sz" "0 < j" "j \<le> sint (sz - i)" by auto
  from read_step [OF lt] lt(2) show ?case by auto
qed

declare GWEN_Buffer_ReadBytes_loop.simps [simp del]

text \<open>The bytes copied to the caller, their number, and the buffer with its position moved.\<close>

definition GWEN_Buffer_ReadBytes ::
  "gwen_buffer \<Rightarrow> u32 \<Rightarrow> (int \<times> byte list \<times> u32 \<times> gwen_buffer) outcome" where
  "GWEN_Buffer_ReadBytes bf sz =
     obind (GWEN_Buffer_ReadBytes_loop sz bf [] 0) (\<lambda>(dst, i, bf). Ret (0, dst, i, bf))"

lemma ReadBytes_correct:
  assumes wf: "buf_wf bf" and small: "unat (bytesUsed bf) < 2147483648" "unat sz < 2147483648"
    and p: "unat (pos bf) \<le> unat (bytesUsed bf)"
  defines "n \<equiv> min (unat sz) (unat (bytesUsed bf) - unat (pos bf))"
  shows "GWEN_Buffer_ReadBytes bf sz = Ret (0, take n (drop (unat (pos bf)) (contents bf)), of_nat n,
           bf\<lparr>pos := pos bf + of_nat n\<rparr>)"
proof (cases "n = 0")
  case True
  then have "\<not> (0 < sz \<and> pos bf < bytesUsed bf)"
    by (auto simp: n_def word_less_nat_alt)
  with True show ?thesis
    by (auto simp: GWEN_Buffer_ReadBytes_def GWEN_Buffer_ReadBytes_loop.simps [of sz bf])
next
  case False
  define L where "L = unat (bytesUsed bf) - unat (pos bf)"
  define S where "S = unat sz"
  have d: "unat (bytesUsed bf - pos bf) = L" unfolding L_def using p by (rule unat_minus_u32)
  have left: "sint (bytesUsed bf - pos bf) = int L"
    using sint_u32_small [of "bytesUsed bf - pos bf"] small unfolding d by (simp add: L_def)
  have s: "sint sz = int S" unfolding S_def using small by (intro sint_u32_small)
  have n: "n = min S L" by (simp add: n_def L_def S_def)
  have nl: "n < 4294967296" using small by (simp add: n_def)
  have un: "unat (of_nat n :: u32) = n" by (rule unat_of_nat_u32 [OF nl])
  have upn: "unat (pos bf + of_nat n) = unat (pos bf) + n"
    using p small un by (subst unat_plus_u32) (auto simp: n_def)
  have guards: "0 < sz" "pos bf < bytesUsed bf"
    using False by (auto simp: n_def word_less_nat_alt)
  have g2: "\<not> bytesUsed bf \<le> pos bf" using guards(2) by (simp add: not_le)
  have pk: "peek bf (ptr bf + unat (pos bf)) n = Ret (take n (drop (unat (pos bf)) (contents bf)))"
    using wf_bounds(2) [OF wf] p by (simp add: peek_def contents_def drop_window take_window n_def)
  have L0: "L \<noteq> 0" using False by (simp add: n)
  have step1: "GWEN_Buffer_ReadBytes_loop sz bf [] 0 =
      GWEN_Buffer_ReadBytes_loop sz (bf\<lparr>pos := pos bf + of_nat n\<rparr>)
        (take n (drop (unat (pos bf)) (contents bf))) (of_nat n)"
  proof (cases "L < S")
    case True
    then have "n = L" by (simp add: n)
    with True guards(1) g2 L0 pk show ?thesis
      by (subst GWEN_Buffer_ReadBytes_loop.simps) (simp add: left s)
  next
    case lt: False
    then have "n = S" by (simp add: n)
    with lt guards(1) g2 L0 False pk show ?thesis
      by (subst GWEN_Buffer_ReadBytes_loop.simps) (simp add: left s)
  qed
  have "\<not> (of_nat n < sz \<and> pos bf + of_nat n < bytesUsed bf)"
    unfolding word_less_nat_alt un upn using n L_def S_def p by linarith
  with step1 show ?thesis
    by (auto simp: GWEN_Buffer_ReadBytes_def
        GWEN_Buffer_ReadBytes_loop.simps [of sz "bf\<lparr>pos := pos bf + of_nat n\<rparr>"])
qed

section \<open>Formatted output\<close>

lemma AllocRoom_limit:
  assumes wf: "buf_wf bf" and fit: "fits bf (unat sz)" and lim: "unat (hardLimit bf) < L"
    and b: "unat (bufferSize bf) < L" and ret: "GWEN_Buffer_AllocRoom bf sz = Ret (0, bf')"
  shows "unat (bufferSize bf') < L"
proof (cases "bf' = bf")
  case True
  with b show ?thesis by simp
next
  case False
  with ret have "realBufferSize bf' \<le> hardLimit bf"
    by (auto simp: GWEN_Buffer_AllocRoom_def Let_def outcome_simps gwen_errors not_less split: if_splits)
  moreover have "ptr bf' + unat (bufferSize bf') = unat (realBufferSize bf')"
    using grown_wf [OF wf AllocRoom_ok(1) [OF wf fit ret]] by (simp add: buf_wf_def)
  ultimately show ?thesis using lim by (simp add: word_le_nat_alt)
qed

text \<open>
  \<^verbatim>\<open>vsnprintf(p, n, fmt, list)\<close> with the formatted text \<open>out\<close>: at most \<open>n\<close> bytes are stored, the last
  of them a \<open>NUL\<close>, and the length of the whole text is returned. \<open>n\<close> is a \<^verbatim>\<open>size_t\<close>.
\<close>

definition vsnprintf_at :: "gwen_buffer \<Rightarrow> nat \<Rightarrow> int \<Rightarrow> byte list \<Rightarrow> gwen_buffer outcome" where
  "vsnprintf_at bf p n out =
    (let k = nat (n mod 2 ^ 64)
     in if k = 0 then Ret bf else poke bf p (take (k - 1) out @ [0]))"

text \<open>\<open>formatted\<close> is the text that the format and its arguments give, \<open>None\<close> a formatting error.\<close>

definition GWEN_Buffer_AppendArgs ::
  "gwen_buffer \<Rightarrow> byte list option \<Rightarrow> (int \<times> gwen_buffer) outcome" where
  "GWEN_Buffer_AppendArgs bf formatted =
     obind (GWEN_Buffer_AllocRoom bf 256) (\<lambda>(_, bf).
       let maxUnsegmentedWrite = sint (GWEN_Buffer_GetMaxUnsegmentedWrite bf);
           p = GWEN_Buffer_GetStart bf + unat (GWEN_Buffer_GetPos bf)
       in case formatted of
            None \<Rightarrow> Ret (GWEN_ERROR_GENERIC, bf)
          | Some out \<Rightarrow>
              let rv = int (length out)
              in obind (vsnprintf_at bf p maxUnsegmentedWrite out) (\<lambda>bf.
                 obind (if rv \<ge> maxUnsegmentedWrite then
                          obind (GWEN_Buffer_AllocRoom bf (word_of_int (rv + 1))) (\<lambda>(_, bf).
                            vsnprintf_at bf (GWEN_Buffer_GetStart bf + unat (GWEN_Buffer_GetPos bf))
                              (sint (GWEN_Buffer_GetMaxUnsegmentedWrite bf)) out)
                        else Ret bf) (\<lambda>bf.
                 if rv > 0 then
                   obind (GWEN_Buffer_AdjustUsedBytes (snd (GWEN_Buffer_IncrementPos bf (word_of_int rv))))
                     (\<lambda>(_, bf). Ret (0, bf))
                 else Ret (0, bf))))"

lemma poke_behind:
  assumes wf: "buf_wf bf" and room: "unat (bytesUsed bf) + length bs \<le> unat (bufferSize bf)"
  shows "\<exists>bf'. poke bf (ptr bf + unat (bytesUsed bf)) bs = Ret bf' \<and> buf_wf bf'
     \<and> contents bf' = contents bf
     \<and> window (ptr bf + unat (bytesUsed bf)) (length bs) (blk bf') = bs
     \<and> ptr bf' = ptr bf \<and> pos bf' = pos bf \<and> bytesUsed bf' = bytesUsed bf
     \<and> bufferSize bf' = bufferSize bf \<and> step bf' = step bf \<and> hardLimit bf' = hardLimit bf
     \<and> mode bf' = mode bf \<and> allocOk bf' = allocOk bf"
proof -
  from wf obtain m where m: "realPtr bf = Some m" by (auto simp: buf_wf_def)
  let ?i = "ptr bf + unat (bytesUsed bf)"
  let ?b = "bf\<lparr>realPtr := Some (write_at ?i bs m)\<rparr>"
  have len: "?i + length bs \<le> length m" using wf_bounds(1) [OF wf] room m by simp
  have "poke bf ?i bs = Ret ?b" using len by (simp add: poke_def m)
  moreover have "buf_wf ?b" using wf len m by (auto simp: buf_wf_def)
  moreover have "contents ?b = contents bf"
    using len window_write_at_after [of "ptr bf" "unat (bytesUsed bf)" ?i bs m] m
    by (simp add: contents_def)
  moreover have "window ?i (length bs) (blk ?b) = bs"
    using window_write_at_same [OF len] by simp
  ultimately show ?thesis by (intro exI [of _ ?b]) auto
qed

lemma room_same:
  assumes "room bf n" and "buf_wf bf'" and "ptr bf' = ptr bf" and "bytesUsed bf' = bytesUsed bf"
    and "step bf' = step bf" "hardLimit bf' = hardLimit bf" "mode bf' = mode bf" "allocOk bf' = allocOk bf"
  shows "room bf' n"
  using assms by (simp add: room_def has_mode_def)

lemma max_write:
  assumes "unat (bytesUsed bf) + 1 \<le> unat (bufferSize bf)" and "unat (bufferSize bf) < 2147483648"
  shows "sint (GWEN_Buffer_GetMaxUnsegmentedWrite bf) = int (unat (bufferSize bf) - (unat (bytesUsed bf) + 1))"
    and "nat (int (unat (bufferSize bf) - (unat (bytesUsed bf) + 1)) mod 2 ^ 64)
       = unat (bufferSize bf) - (unat (bytesUsed bf) + 1)"
proof -
  define k where "k = unat (bufferSize bf) - (unat (bytesUsed bf) + 1)"
  have u: "unat (bufferSize bf - (bytesUsed bf + 1)) = k"
    unfolding k_def using assms by (simp add: unat_minus_u32 unat_Suc_u32)
  have k: "k < 2147483648" using assms(2) by (simp add: k_def)
  show "sint (GWEN_Buffer_GetMaxUnsegmentedWrite bf) = int (unat (bufferSize bf) - (unat (bytesUsed bf) + 1))"
    using sint_u32_small [of "bufferSize bf - (bytesUsed bf + 1)"] k
    unfolding GWEN_Buffer_GetMaxUnsegmentedWrite_def u k_def [symmetric] by simp
  show "nat (int (unat (bufferSize bf) - (unat (bytesUsed bf) + 1)) mod 2 ^ 64)
       = unat (bufferSize bf) - (unat (bytesUsed bf) + 1)"
    unfolding k_def [symmetric] using k by simp
qed

lemma vsnprintf_full:
  assumes wf: "buf_wf bf" and p: "pos bf = bytesUsed bf"
    and fit: "unat (bytesUsed bf) + length out + 2 \<le> unat (bufferSize bf)"
    and small: "unat (bufferSize bf) < 2147483648"
  shows "vsnprintf_at bf (GWEN_Buffer_GetStart bf + unat (GWEN_Buffer_GetPos bf))
            (sint (GWEN_Buffer_GetMaxUnsegmentedWrite bf)) out
         = poke bf (ptr bf + unat (bytesUsed bf)) (out @ [0])"
    and "int (length out) < sint (GWEN_Buffer_GetMaxUnsegmentedWrite bf)"
proof -
  define k where "k = unat (bufferSize bf) - (unat (bytesUsed bf) + 1)"
  have m: "sint (GWEN_Buffer_GetMaxUnsegmentedWrite bf) = int k" and kk: "nat (int k mod 2 ^ 64) = k"
    unfolding k_def using max_write [of bf] fit small by auto
  have k: "length out + 1 \<le> k" using fit by (simp add: k_def)
  from kk show "vsnprintf_at bf (GWEN_Buffer_GetStart bf + unat (GWEN_Buffer_GetPos bf))
            (sint (GWEN_Buffer_GetMaxUnsegmentedWrite bf)) out
         = poke bf (ptr bf + unat (bytesUsed bf)) (out @ [0])"
    using k by (simp add: vsnprintf_at_def m p GWEN_Buffer_GetStart_def GWEN_Buffer_GetPos_def)
  show "int (length out) < sint (GWEN_Buffer_GetMaxUnsegmentedWrite bf)"
    using k by (simp add: m)
qed

text \<open>The text is in place behind the data; moving the position over it makes it part of the data.\<close>

lemma AdjustUsedBytes_over:
  assumes wf: "buf_wf bf" and p: "pos bf = bytesUsed bf"
    and fit: "unat (bytesUsed bf) + length out + 1 \<le> unat (bufferSize bf)"
    and w: "window (ptr bf + unat (bytesUsed bf)) (length out) (blk bf) = out"
    and nz: "out \<noteq> []"
  shows "\<exists>bf'. GWEN_Buffer_AdjustUsedBytes (snd (GWEN_Buffer_IncrementPos bf (of_nat (length out)))) = Ret (0, bf')
     \<and> buf_wf bf' \<and> nul_terminated bf' \<and> contents bf' = contents bf @ out \<and> pos bf' = bytesUsed bf'
     \<and> unat (bytesUsed bf') = unat (bytesUsed bf) + length out \<and> ptr bf' = ptr bf \<and> mode bf' = mode bf
     \<and> hardLimit bf' = hardLimit bf \<and> step bf' = step bf \<and> allocOk bf' = allocOk bf"
proof -
  have u: "unat (of_nat (length out) :: u32) = length out"
    using fit unat_u32_bound [of "bufferSize bf"] by (intro unat_of_nat_u32) linarith
  have us: "unat (bytesUsed bf + of_nat (length out)) = unat (bytesUsed bf) + length out"
    using fit unat_u32_bound [of "bufferSize bf"] u by (subst unat_plus_u32) auto
  let ?b = "bf\<lparr>pos := bytesUsed bf + of_nat (length out), bytesUsed := bytesUsed bf + of_nat (length out)\<rparr>"
  have wfb: "buf_wf ?b" using wf fit by (auto simp: buf_wf_def us)
  have ltb: "unat (bytesUsed ?b) < unat (bufferSize ?b)" using fit by (simp add: us)
  from terminate_cut [OF wfb ltb] obtain bf' where
    t: "terminate_data ?b = Ret bf'" "cut_post ?b (contents ?b) bf'" "pos bf' = pos ?b" "ptr bf' = ptr ?b"
    by auto
  have gt: "bytesUsed bf + of_nat (length out) > bytesUsed bf"
    using nz by (simp add: word_less_nat_alt us)
  have le: "bytesUsed bf + of_nat (length out) \<le> bufferSize bf"
    using fit by (simp add: word_le_nat_alt us)
  have "contents ?b = contents bf @ out"
    using w by (simp add: contents_def us window_append)
  moreover have "GWEN_Buffer_AdjustUsedBytes (snd (GWEN_Buffer_IncrementPos bf (of_nat (length out)))) = Ret (0, bf')"
    using t(1) gt le p by (simp add: GWEN_Buffer_AdjustUsedBytes_def GWEN_Buffer_IncrementPos_def Let_def)
  moreover have "pos bf' = bytesUsed bf'"
  proof -
    have "unat (bytesUsed bf') = unat (bytesUsed ?b)"
      using t(2) wfb by (simp add: cut_post_def)
    then have "bytesUsed bf' = bytesUsed ?b" by (simp add: word_unat_eq_iff)
    then show ?thesis using t(3) by simp
  qed
  ultimately show ?thesis using t(2,4) wf wfb us by (auto simp: cut_post_def)
qed

lemma vsnprintf_any:
  assumes wf: "buf_wf bf" and p: "pos bf = bytesUsed bf"
    and fit: "unat (bytesUsed bf) + 1 \<le> unat (bufferSize bf)"
    and small: "unat (bufferSize bf) < 2147483648"
  shows "\<exists>bf'. vsnprintf_at bf (GWEN_Buffer_GetStart bf + unat (GWEN_Buffer_GetPos bf))
            (sint (GWEN_Buffer_GetMaxUnsegmentedWrite bf)) out = Ret bf' \<and> buf_wf bf'
     \<and> contents bf' = contents bf \<and> ptr bf' = ptr bf \<and> pos bf' = pos bf \<and> bytesUsed bf' = bytesUsed bf
     \<and> bufferSize bf' = bufferSize bf \<and> step bf' = step bf \<and> hardLimit bf' = hardLimit bf
     \<and> mode bf' = mode bf \<and> allocOk bf' = allocOk bf"
proof -
  define k where "k = unat (bufferSize bf) - (unat (bytesUsed bf) + 1)"
  have m: "sint (GWEN_Buffer_GetMaxUnsegmentedWrite bf) = int k" and kk: "nat (int k mod 2 ^ 64) = k"
    unfolding k_def using max_write [OF fit small] by auto
  show ?thesis
  proof (cases "k = 0")
    case True
    then show ?thesis using wf by (simp add: vsnprintf_at_def m)
  next
    case False
    let ?bs = "take (k - 1) out @ [0]"
    have "unat (bytesUsed bf) + length ?bs \<le> unat (bufferSize bf)"
      using False fit by (simp add: k_def)
    from poke_behind [OF wf this] False show ?thesis
      by (auto simp: vsnprintf_at_def m kk [simplified] p Let_def GWEN_Buffer_GetStart_def GWEN_Buffer_GetPos_def)
  qed
qed

text \<open>The two attempts together: the text ends up behind the data, whatever its length.\<close>

lemma AppendArgs_attempts:
  assumes room: "room bf (length out)" and p: "pos bf = bytesUsed bf"
    and lt: "unat (bytesUsed bf) + 1 \<le> unat (bufferSize bf)"
    and small: "unat (hardLimit bf) < 2147483648" "unat (bufferSize bf) < 2147483648"
  defines "mw \<equiv> sint (GWEN_Buffer_GetMaxUnsegmentedWrite bf)"
    and "pp \<equiv> GWEN_Buffer_GetStart bf + unat (GWEN_Buffer_GetPos bf)"
  shows "\<exists>bf2. obind (vsnprintf_at bf pp mw out) (\<lambda>bf.
           if int (length out) \<ge> mw then
             obind (GWEN_Buffer_AllocRoom bf (word_of_int (int (length out) + 1))) (\<lambda>(_, bf).
               vsnprintf_at bf (GWEN_Buffer_GetStart bf + unat (GWEN_Buffer_GetPos bf))
                 (sint (GWEN_Buffer_GetMaxUnsegmentedWrite bf)) out)
           else Ret bf) = Ret bf2
     \<and> buf_wf bf2 \<and> contents bf2 = contents bf \<and> pos bf2 = bytesUsed bf2 \<and> bytesUsed bf2 = bytesUsed bf
     \<and> unat (bytesUsed bf2) + length out + 2 \<le> unat (bufferSize bf2)
     \<and> window (ptr bf2 + unat (bytesUsed bf2)) (length out + 1) (blk bf2) = out @ [0]"
proof (cases "int (length out) \<ge> mw")
  case False
  have "mw = int (unat (bufferSize bf) - (unat (bytesUsed bf) + 1))"
    unfolding mw_def by (rule max_write(1) [OF lt small(2)])
  with False have fit: "unat (bytesUsed bf) + length out + 2 \<le> unat (bufferSize bf)"
    by simp
  then have "unat (bytesUsed bf) + length (out @ [0]) \<le> unat (bufferSize bf)" by simp
  from poke_behind [OF room_wf [OF room] this] vsnprintf_full [OF room_wf [OF room] p fit small(2)]
  show ?thesis using fit p False by (auto simp: mw_def pp_def)
next
  case True
  from vsnprintf_any [OF room_wf [OF room] p lt small(2), of out] obtain b1 where
    b1: "vsnprintf_at bf pp mw out = Ret b1" "buf_wf b1" "contents b1 = contents bf" "ptr b1 = ptr bf"
      "pos b1 = pos bf" "bytesUsed b1 = bytesUsed bf" "bufferSize b1 = bufferSize bf"
      "step b1 = step bf" "hardLimit b1 = hardLimit bf" "mode b1 = mode bf" "allocOk b1 = allocOk bf"
    by (auto simp: mw_def pp_def)
  have room1: "room b1 (length out)" by (rule room_same [OF room b1(2,4,6,8,9,10,11)])
  define s :: u32 where "s = 1 + of_nat (length out)"
  have "length out + 1 < 4294967296" using room1 by (auto simp: room_def)
  then have us: "unat s = length out + 1"
    using unat_of_nat_u32 [of "length out + 1"] by (simp add: s_def)
  have s: "word_of_int (int (length out) + 1) = s" by (simp add: s_def)
  from AllocRoom_succeeds [OF room1, of s] us obtain b2 where
    a: "GWEN_Buffer_AllocRoom b1 s = Ret (0, b2)" by auto
  have fit: "fits b1 (unat s)" using room_fits [OF room1, of "length out + 1"] us by simp
  note g = AllocRoom_ok [OF b1(2) fit a]
  note f = grown_fields [OF g(1)]
  have wf2: "buf_wf b2" by (rule grown_wf [OF b1(2) g(1)])
  have fit2: "unat (bytesUsed b2) + length out + 2 \<le> unat (bufferSize b2)"
    using g(2) us f by simp
  have sm2: "unat (bufferSize b2) < 2147483648"
    using AllocRoom_limit [OF b1(2) fit _ _ a] small b1 by simp
  have p2: "pos b2 = bytesUsed b2" using f b1 p by simp
  have "unat (bytesUsed b2) + length (out @ [0]) \<le> unat (bufferSize b2)" using fit2 by simp
  from poke_behind [OF wf2 this] vsnprintf_full(1) [OF wf2 p2 fit2 sm2] grown_contents [OF b1(2) g(1)]
  show ?thesis using b1 a s True fit2 f p by (auto simp: mw_def)
qed

lemma AppendArgs_correct:
  assumes room: "room bf (max 256 (length out))" and p: "pos bf = bytesUsed bf"
    and nul: "nul_terminated bf"
    and small: "unat (hardLimit bf) < 2147483648" "unat (bufferSize bf) < 2147483648"
  shows "\<exists>bf'. GWEN_Buffer_AppendArgs bf (Some out) = Ret (0, bf') \<and> buf_wf bf' \<and> nul_terminated bf'
     \<and> contents bf' = contents bf @ out \<and> pos bf' = bytesUsed bf'"
proof -
  note wf = room_wf [OF room]
  have fit: "fits bf (unat (256 :: u32))" using room_fits [OF room, of 256] by simp
  have "unat (256 :: u32) \<le> max 256 (length out) + 1" by simp
  from AllocRoom_succeeds [OF room this] obtain b0 where
    a: "GWEN_Buffer_AllocRoom bf 256 = Ret (0, b0)" ..
  note g = AllocRoom_ok [OF wf fit a]
  note f = grown_fields [OF g(1)]
  have wf0: "buf_wf b0" by (rule grown_wf [OF wf g(1)])
  have room0: "room b0 (length out)"
    using room_mono [OF room_same [OF room wf0], of "length out"] f by simp
  have "unat (bytesUsed b0) + 1 \<le> unat (bufferSize b0)" "unat (bufferSize b0) < 2147483648"
    using g(2) f AllocRoom_limit [OF wf fit small a] by auto
  from AppendArgs_attempts [OF room0 _ this(1) _ this(2)] f p small
  obtain b2 where run: "obind (vsnprintf_at b0 (GWEN_Buffer_GetStart b0 + unat (GWEN_Buffer_GetPos b0))
             (sint (GWEN_Buffer_GetMaxUnsegmentedWrite b0)) out) (\<lambda>bf.
           if int (length out) \<ge> sint (GWEN_Buffer_GetMaxUnsegmentedWrite b0) then
             obind (GWEN_Buffer_AllocRoom bf (word_of_int (int (length out) + 1))) (\<lambda>(_, bf).
               vsnprintf_at bf (GWEN_Buffer_GetStart bf + unat (GWEN_Buffer_GetPos bf))
                 (sint (GWEN_Buffer_GetMaxUnsegmentedWrite bf)) out)
           else Ret bf) = Ret b2"
    and b2: "buf_wf b2" "contents b2 = contents bf" "pos b2 = bytesUsed b2"
      "unat (bytesUsed b2) + length out + 2 \<le> unat (bufferSize b2)"
      "window (ptr b2 + unat (bytesUsed b2)) (length out + 1) (blk b2) = out @ [0]"
    using grown_contents [OF wf g(1)] by auto
  have eq: "GWEN_Buffer_AppendArgs bf (Some out) =
      (if int (length out) > 0 then
         obind (GWEN_Buffer_AdjustUsedBytes (snd (GWEN_Buffer_IncrementPos b2 (of_nat (length out)))))
           (\<lambda>(_, bf). Ret (0, bf)) else Ret (0, b2))"
    unfolding GWEN_Buffer_AppendArgs_def a obind.simps Let_def obind_assoc [symmetric] option.case prod.case run
    by simp
  show ?thesis
  proof (cases "out = []")
    case True
    have "ptr b2 + unat (bytesUsed b2) < length (blk b2)"
      using wf_bounds(1) [OF b2(1)] b2(4) by simp
    then have "nul_terminated b2"
      using b2(4,5) True by (auto simp: nul_terminated_def window_def take_Suc hd_drop_conv_nth)
    with True b2 eq show ?thesis by simp
  next
    case False
    have "window (ptr b2 + unat (bytesUsed b2)) (length out) (blk b2) = out"
      using b2(5) take_window [of "length out" "length out + 1" "ptr b2 + unat (bytesUsed b2)" "blk b2"] by simp
    from AdjustUsedBytes_over [OF b2(1,3) _ this False] b2(4) False b2 eq show ?thesis by auto
  qed
qed

section \<open>Writing at the position\<close>

lemma poke_poke:
  assumes "realPtr bf = Some m" and "a + length xs + length ys \<le> length m"
  shows "obind (poke bf a xs) (\<lambda>bf. poke bf (a + length xs) ys) = poke bf a (xs @ ys)"
  using assms write_at_write_at [of a xs m ys] by (simp add: poke_def)

text \<open>The position is where the data ends, and the data is a C string: the state every writer starts
  from and leaves behind.\<close>

definition at_end :: "gwen_buffer \<Rightarrow> bool" where
  "at_end bf \<longleftrightarrow> pos bf = bytesUsed bf \<and> nul_terminated bf"

text \<open>Room is made, the bytes are stored at the position and the position is moved over them.\<close>

lemma write_at_pos:
  assumes room: "room bf (length bs + k)" and p: "pos bf = bytesUsed bf" and nz: "bs \<noteq> []"
  shows "\<exists>b1 b2 bf'. GWEN_Buffer_AllocRoom bf (of_nat (length bs)) = Ret (0, b1)
     \<and> poke b1 (GWEN_Buffer_GetPosPointer b1) bs = Ret b2 \<and> realPtr b1 \<noteq> None
     \<and> GWEN_Buffer_GetPosPointer b1 + length bs \<le> length (blk b1)
     \<and> GWEN_Buffer_AdjustUsedBytes (snd (GWEN_Buffer_IncrementPos b2 (of_nat (length bs)))) = Ret (0, bf')
     \<and> contents bf' = contents bf @ bs \<and> at_end bf' \<and> room bf' k \<and> ptr bf' = ptr bf"
proof -
  let ?n = "length bs"
  have lt: "?n < 4294967296" using room by (auto simp: room_def)
  have u: "unat (of_nat ?n :: u32) = ?n" by (rule unat_of_nat_u32 [OF lt])
  note wf = room_wf [OF room]
  obtain b1 where a: "GWEN_Buffer_AllocRoom bf (of_nat ?n) = Ret (0, b1)"
    using AllocRoom_succeeds [OF room, of "of_nat ?n"] u by auto
  have fit: "fits bf (unat (of_nat ?n :: u32))" using room_fits [OF room] u by simp
  note g = AllocRoom_ok [OF wf fit a]
  note f = grown_fields [OF g(1)] and wf1 = grown_wf [OF wf g(1)]
  have sp: "unat (bytesUsed b1) + ?n + 1 \<le> unat (bufferSize b1)" using g(2) u f by simp
  have pp: "GWEN_Buffer_GetPosPointer b1 = ptr b1 + unat (bytesUsed b1)"
    using f p by (simp add: GWEN_Buffer_GetPosPointer_def)
  from poke_behind [OF wf1, of bs] sp obtain b2 where
    b2: "poke b1 (GWEN_Buffer_GetPosPointer b1) bs = Ret b2" "buf_wf b2" "contents b2 = contents b1"
      "window (ptr b2 + unat (bytesUsed b2)) ?n (blk b2) = bs" "pos b2 = pos b1" "bytesUsed b2 = bytesUsed b1"
      "bufferSize b2 = bufferSize b1" "ptr b2 = ptr b1" "mode b2 = mode b1" "hardLimit b2 = hardLimit b1"
      "step b2 = step b1" "allocOk b2 = allocOk b1"
    unfolding pp by force
  have "pos b2 = bytesUsed b2" using b2 f p by simp
  from AdjustUsedBytes_over [OF b2(2) this _ b2(4) nz] sp b2(6,7) obtain bf' where
    b': "GWEN_Buffer_AdjustUsedBytes (snd (GWEN_Buffer_IncrementPos b2 (of_nat ?n))) = Ret (0, bf')"
      "buf_wf bf'" "nul_terminated bf'" "contents bf' = contents b2 @ bs" "pos bf' = bytesUsed bf'"
      "unat (bytesUsed bf') = unat (bytesUsed b2) + ?n" "ptr bf' = ptr b2" "mode bf' = mode b2"
      "hardLimit bf' = hardLimit b2" "step bf' = step b2" "allocOk bf' = allocOk b2"
    by auto
  have "room bf' k" using room b' b2 f by (simp add: room_def has_mode_def)
  moreover have "realPtr b1 \<noteq> None" using wf1 by (simp add: buf_wf_def)
  moreover have "GWEN_Buffer_GetPosPointer b1 + ?n \<le> length (blk b1)"
    unfolding pp using wf_bounds(1) [OF wf1] sp by linarith
  ultimately show ?thesis
    using a b2 b' grown_contents [OF wf g(1)] f(1) by (auto simp: at_end_def)
qed

text \<open>Overwriting inside the data.\<close>

lemma poke_data:
  assumes wf: "buf_wf bf" and i: "i + length bs \<le> unat (bytesUsed bf)"
  shows "\<exists>bf'. poke bf (ptr bf + i) bs = Ret bf' \<and> buf_wf bf'
     \<and> contents bf' = take i (contents bf) @ bs @ drop (i + length bs) (contents bf)"
proof -
  from wf obtain m where m: "realPtr bf = Some m" by (auto simp: buf_wf_def)
  have len: "ptr bf + unat (bytesUsed bf) \<le> length m" using wf_bounds(2) [OF wf] m by simp
  let ?bf' = "bf\<lparr>realPtr := Some (write_at (ptr bf + i) bs m)\<rparr>"
  have r: "ptr bf + i + length bs \<le> length m" using len i by linarith
  have "poke bf (ptr bf + i) bs = Ret ?bf'" using r by (simp add: poke_def m)
  moreover have "buf_wf ?bf'" using wf r m by (auto simp: buf_wf_def)
  moreover have "contents ?bf' = take i (contents bf) @ bs @ drop (i + length bs) (contents bf)"
    using write_at_window_eq [OF len i] m by (simp add: contents_def)
  ultimately show ?thesis by blast
qed

text \<open>An empty buffer with room, as the writers need it.\<close>

lemma fresh_at_end:
  "\<exists>bf. GWEN_Buffer_new (16 * 1024 * 1024) (\<lambda>_. 7) (\<lambda>_. True) None 2 0 True = Ret bf \<and> room bf 1000
     \<and> at_end bf \<and> contents bf = [] \<and> pos bf = 0 \<and> ptr bf = 0"
proof -
  from new_buffer [of 2 "\<lambda>_. True" "16 * 1024 * 1024" "\<lambda>_. 7" True] obtain bf where
    bf: "GWEN_Buffer_new (16 * 1024 * 1024) (\<lambda>_. 7) (\<lambda>_. True) None 2 0 True = Ret bf"
      "buf_wf bf" "nul_terminated bf" "contents bf = []" "pos bf = 0" "bytesUsed bf = 0" "ptr bf = 0"
      "mode bf = GWEN_BUFFER_MODE_DEFAULT" "hardLimit bf = 16 * 1024 * 1024" "step bf = 1024"
      "allocOk bf = (\<lambda>_. True)"
    by auto
  then have "room bf 1000" "at_end bf" by (simp_all add: room_def has_mode_def buffer_consts at_end_def)
  with bf show ?thesis by blast
qed

end
