(* ===== verification/Gwen_BufferProps.thy ===== *)
theory Gwen_BufferProps
  imports Gwen_BufferIO
begin

text \<open>
  What the buffer of \<^verbatim>\<open>src/base/buffer.c\<close> guarantees, over the operations of the three theories before
  this one: the buffer as a state machine whose reachable states are all well-formed and
  \<open>NUL\<close>-terminated, the round trips insert/remove and append/read, cutting, replacing and formatted
  appending, and where the 32 bit size arithmetic of \<^verbatim>\<open>GWEN_Buffer_AllocRoom\<close> breaks.
\<close>

section \<open>The buffer as a state machine\<close>

definition buf_ok :: "gwen_buffer \<Rightarrow> bool" where
  "buf_ok bf \<longleftrightarrow> buf_wf bf \<and> nul_terminated bf"

text \<open>Fields that neither the storage nor the data depend on.\<close>

lemma buf_ok_frame [simp]:
  "buf_ok (bf\<lparr>pos := x\<rparr>) = buf_ok bf" "buf_ok (bf\<lparr>mode := x\<rparr>) = buf_ok bf"
  "buf_ok (bf\<lparr>flags := x\<rparr>) = buf_ok bf" "buf_ok (bf\<lparr>hardLimit := x\<rparr>) = buf_ok bf"
  "buf_ok (bf\<lparr>refCount := x\<rparr>) = buf_ok bf"
  "buf_ok (bf\<lparr>bookmarks := (bookmarks bf)[i := v]\<rparr>) = buf_ok bf"
  by (simp_all add: buf_ok_def buf_wf_def nul_terminated_def)

lemma buf_ok_grown: "buf_ok bf \<Longrightarrow> grown bf bf' \<Longrightarrow> buf_ok bf'"
proof -
  assume ok: "buf_ok bf" and g: "grown bf bf'"
  note f = grown_fields [OF g]
  have wf: "buf_wf bf" and wf': "buf_wf bf'"
    using ok grown_wf [OF _ g] by (auto simp: buf_ok_def)
  from g obtain m where m: "realPtr bf' = Some m"
      "take (unat (realBufferSize bf)) m = take (unat (realBufferSize bf)) (blk bf)"
    by (auto simp: grown_def)
  let ?i = "ptr bf + unat (bytesUsed bf)"
  have i: "?i < unat (realBufferSize bf)"
    using ok by (auto simp: buf_ok_def buf_wf_def nul_terminated_def)
  from m(2) i have "m ! ?i = blk bf ! ?i" by (metis nth_take)
  with ok wf' f m(1) show ?thesis by (simp add: buf_ok_def nul_terminated_def)
qed

lemma buf_ok_append: "buf_ok bf \<Longrightarrow> append_post bf bs rv bf' \<Longrightarrow> buf_ok bf'"
  using append_post_contents(1,2) [of bf bs bf'] by (auto simp: buf_ok_def append_post_def)

lemma buf_ok_insert: "buf_ok bf \<Longrightarrow> insert_result bf bs (Ret (rv, bf')) \<Longrightarrow> buf_ok bf'"
  by (auto simp: buf_ok_def insert_result_def insert_post_def)

lemma buf_ok_remove:
  assumes ok: "buf_ok bf" and r: "GWEN_Buffer_RemoveRoom bf sz = Ret (rv, bf')"
    and s: "unat (bytesUsed bf) < 2147483648" "unat (pos bf) + unat sz < 4294967296"
  shows "buf_ok bf'"
proof (cases "readonly bf")
  case True
  with r ok show ?thesis by (auto simp: GWEN_Buffer_RemoveRoom_def outcome_simps)
next
  case False
  show ?thesis
  proof (cases "unat (pos bf) + unat sz \<le> unat (bytesUsed bf)")
    case True
    with RemoveRoom_correct [OF _ False _ s(1), of sz] ok r show ?thesis
      by (auto simp: buf_ok_def cut_post_def nul_terminated_def)
  next
    case lt: False
    with RemoveRoom_too_much [OF False s(2)] ok r show ?thesis by auto
  qed
qed

lemma buf_ok_crop:
  assumes ok: "buf_ok bf" and r: "GWEN_Buffer_Crop bf p l = Ret (rv, bf')"
    and le: "unat p + unat l \<le> unat (bytesUsed bf)" and small: "unat p < 2147483648"
  shows "buf_ok bf'"
proof (cases "readonly bf")
  case True
  with r ok show ?thesis by (auto simp: GWEN_Buffer_Crop_def outcome_simps)
next
  case False
  with Crop_correct [OF _ False le _ small] ok le r show ?thesis
    by (auto simp: buf_ok_def cut_post_def nul_terminated_def)
qed

lemma buf_ok_reset: "buf_ok bf \<Longrightarrow> GWEN_Buffer_Reset bf = Ret bf' \<Longrightarrow> buf_ok bf'"
  by (auto simp: GWEN_Buffer_Reset_def poke_def buf_ok_def buf_wf_def nul_terminated_def nth_write_at
      split: if_splits)

text \<open>The calls of \<^verbatim>\<open>buffer.c\<close> that change a buffer, and \<^verbatim>\<open>GWEN_Buffer_PeekByte\<close>.\<close>

datatype buf_op =
    AllocRoom u32 | ReserveBytes u32
  | AppendBytes "byte list" u32 | AppendByte byte | AppendBuffer gwen_buffer | AppendString "byte list"
  | AppendArgs "byte list option" | FillWithBytes byte u32
  | InsertRoom u32 | InsertBytes "byte list" u32 | InsertByte byte | InsertBuffer gwen_buffer
  | InsertString "byte list" | FillLeftWithBytes byte u32
  | RemoveRoom u32 | ReplaceBytes u32 "byte list" u32 | Crop u32 u32
  | Reset | Rewind | SetPos u32 | IncrementPos u32 | DecrementPos u32 | AdjustUsedBytes
  | PeekByte | ReadByte | ReadBytes u32 | OverwriteContent byte
  | SetMode u32 | AddMode u32 | SubMode u32 | SetHardLimit u32 | SetStep u32 | SetBookmark nat u32
  | Attach | Relinquish | Dup

text \<open>The buffer a call leaves behind, whatever it returns. \<open>Dup\<close> goes on with the copy.\<close>

abbreviation buffer_of :: "(int \<times> gwen_buffer) outcome \<Rightarrow> gwen_buffer outcome" where
  "buffer_of m \<equiv> obind m (\<lambda>(rv, bf). Ret bf)"

fun buf_call :: "buf_op \<Rightarrow> gwen_buffer \<Rightarrow> gwen_buffer outcome" where
  "buf_call (AllocRoom sz) bf = buffer_of (GWEN_Buffer_AllocRoom bf sz)"
| "buf_call (ReserveBytes n) bf = buffer_of (GWEN_Buffer_ReserveBytes bf n)"
| "buf_call (AppendBytes bs sz) bf = buffer_of (GWEN_Buffer_AppendBytes bf bs sz)"
| "buf_call (AppendByte c) bf = buffer_of (GWEN_Buffer_AppendByte bf c)"
| "buf_call (AppendBuffer sf) bf = buffer_of (GWEN_Buffer_AppendBuffer bf sf)"
| "buf_call (AppendString s) bf = buffer_of (GWEN_Buffer_AppendString bf s)"
| "buf_call (AppendArgs out) bf = buffer_of (GWEN_Buffer_AppendArgs bf out)"
| "buf_call (FillWithBytes c sz) bf = buffer_of (GWEN_Buffer_FillWithBytes bf c sz)"
| "buf_call (InsertRoom sz) bf = buffer_of (GWEN_Buffer_InsertRoom bf sz)"
| "buf_call (InsertBytes bs sz) bf = buffer_of (GWEN_Buffer_InsertBytes bf bs sz)"
| "buf_call (InsertByte c) bf = buffer_of (GWEN_Buffer_InsertByte bf c)"
| "buf_call (InsertBuffer sf) bf = buffer_of (GWEN_Buffer_InsertBuffer bf sf)"
| "buf_call (InsertString s) bf = buffer_of (GWEN_Buffer_InsertString bf s)"
| "buf_call (FillLeftWithBytes c sz) bf = buffer_of (GWEN_Buffer_FillLeftWithBytes bf c sz)"
| "buf_call (RemoveRoom sz) bf = buffer_of (GWEN_Buffer_RemoveRoom bf sz)"
| "buf_call (ReplaceBytes rsize bs sz) bf = buffer_of (GWEN_Buffer_ReplaceBytes bf rsize bs sz)"
| "buf_call (Crop p l) bf = buffer_of (GWEN_Buffer_Crop bf p l)"
| "buf_call Reset bf = GWEN_Buffer_Reset bf"
| "buf_call Rewind bf = Ret (GWEN_Buffer_Rewind bf)"
| "buf_call (SetPos i) bf = Ret (snd (GWEN_Buffer_SetPos bf i))"
| "buf_call (IncrementPos i) bf = Ret (snd (GWEN_Buffer_IncrementPos bf i))"
| "buf_call (DecrementPos i) bf = Ret (snd (GWEN_Buffer_DecrementPos bf i))"
| "buf_call AdjustUsedBytes bf = buffer_of (GWEN_Buffer_AdjustUsedBytes bf)"
| "buf_call PeekByte bf = obind (GWEN_Buffer_PeekByte bf) (\<lambda>_. Ret bf)"
| "buf_call ReadByte bf = buffer_of (GWEN_Buffer_ReadByte bf)"
| "buf_call (ReadBytes sz) bf = obind (GWEN_Buffer_ReadBytes bf sz) (\<lambda>(rv, bs, n, bf). Ret bf)"
| "buf_call (OverwriteContent c) bf = GWEN_Buffer_OverwriteContent bf c"
| "buf_call (SetMode m) bf = Ret (GWEN_Buffer_SetMode bf m)"
| "buf_call (AddMode m) bf = Ret (GWEN_Buffer_AddMode bf m)"
| "buf_call (SubMode m) bf = Ret (GWEN_Buffer_SubMode bf m)"
| "buf_call (SetHardLimit l) bf = GWEN_Buffer_SetHardLimit bf l"
| "buf_call (SetStep s) bf = Ret (GWEN_Buffer_SetStep bf s)"
| "buf_call (SetBookmark i v) bf = GWEN_Buffer_SetBookmark bf i v"
| "buf_call Attach bf = GWEN_Buffer_Attach bf"
| "buf_call Relinquish bf = Ret (snd (GWEN_Buffer_Relinquish bf))"
| "buf_call Dup bf = GWEN_Buffer_dup bf"

text \<open>
  What the caller has to take care of, call by call. The sizes must not wrap the 32 bit sums of the code
  (\<open>fits\<close>) nor its signed sizes (\<open>below2G\<close>), the memory passed in must be as long as the caller says,
  and insertions and replacements must be made inside the data. Five conditions exclude calls that the code
  accepts and that break the buffer: \<^verbatim>\<open>GWEN_Buffer_ReserveBytes\<close> and \<^verbatim>\<open>GWEN_Buffer_dup\<close> lose the
  \<open>NUL\<close> of a buffer with and without data respectively, \<^verbatim>\<open>GWEN_Buffer_AdjustUsedBytes\<close> writes behind
  the storage where the position is its size, \<^verbatim>\<open>GWEN_Buffer_Crop\<close> accepts a range that starts between
  the end of the data and the end of the storage, and \<^verbatim>\<open>GWEN_Buffer_OverwriteContent\<close> overwrites the \<open>NUL\<close> too.
\<close>

definition insertable :: "gwen_buffer \<Rightarrow> u32 \<Rightarrow> bool" where
  "insertable bf sz \<longleftrightarrow> fits bf (unat sz) \<and> below2G bf sz \<and> unat (pos bf) \<le> unat (bytesUsed bf)"

fun buf_pre :: "buf_op \<Rightarrow> gwen_buffer \<Rightarrow> bool" where
  "buf_pre (AllocRoom sz) bf = fits bf (unat sz)"
| "buf_pre (ReserveBytes n) bf = (bytesUsed bf = 0 \<and> fits bf (unat n))"
| "buf_pre (AppendBytes bs sz) bf = (fits bf (unat sz + 1) \<and> unat sz \<le> length bs)"
| "buf_pre (AppendByte c) bf = fits bf 2"
| "buf_pre (AppendBuffer sf) bf = (buf_ok sf \<and> fits bf (unat (bytesUsed sf) + 1))"
| "buf_pre (AppendString s) bf = (0 \<in> set s \<and> fits bf (strlen s + 1))"
| "buf_pre (AppendArgs out) bf = (case out of None \<Rightarrow> fits bf 256
     | Some out \<Rightarrow> room bf (max 256 (length out)) \<and> pos bf = bytesUsed bf
         \<and> unat (hardLimit bf) < 2147483648 \<and> unat (bufferSize bf) < 2147483648)"
| "buf_pre (FillWithBytes c sz) bf = fits bf (unat sz + 1)"
| "buf_pre (InsertRoom sz) bf = insertable bf sz"
| "buf_pre (InsertBytes bs sz) bf = (insertable bf sz \<and> unat sz \<le> length bs)"
| "buf_pre (InsertByte c) bf = insertable bf 1"
| "buf_pre (InsertBuffer sf) bf = (buf_ok sf \<and> insertable bf (bytesUsed sf))"
| "buf_pre (InsertString s) bf = (0 \<in> set s \<and> insertable bf (of_nat (strlen s)))"
| "buf_pre (FillLeftWithBytes c sz) bf = insertable bf sz"
| "buf_pre (RemoveRoom sz) bf =
     (unat (bytesUsed bf) < 2147483648 \<and> unat (pos bf) + unat sz < 4294967296)"
| "buf_pre (ReplaceBytes rsize bs sz) bf = (insertable bf sz \<and> unat sz \<le> length bs
     \<and> unat (pos bf) + unat rsize \<le> unat (bytesUsed bf))"
| "buf_pre (Crop p l) bf = (bufferSize bf \<le> p \<or> unat p \<le> unat (bytesUsed bf) \<and> unat p < 2147483648)"
| "buf_pre AdjustUsedBytes bf = (pos bf \<noteq> bufferSize bf)"
| "buf_pre (ReadBytes sz) bf = (unat (bytesUsed bf) < 2147483648 \<and> unat sz < 2147483648)"
| "buf_pre (OverwriteContent c) bf = (c = 0)"
| "buf_pre (SetStep s) bf = (\<exists>k < 32. s = 2 ^ k)"
| "buf_pre Dup bf = (bytesUsed bf \<noteq> 0)"
| "buf_pre _ bf = True"

fun buf_run :: "buf_op list \<Rightarrow> gwen_buffer \<Rightarrow> gwen_buffer outcome" where
  "buf_run [] bf = Ret bf"
| "buf_run (c # cs) bf = obind (buf_call c bf) (buf_run cs)"

text \<open>Every call is made in a state that meets its condition.\<close>

fun buf_used_well :: "buf_op list \<Rightarrow> gwen_buffer \<Rightarrow> bool" where
  "buf_used_well [] bf = True"
| "buf_used_well (c # cs) bf = (buf_pre c bf \<and>
     (case buf_call c bf of Ret bf' \<Rightarrow> buf_used_well cs bf' | _ \<Rightarrow> True))"

definition buf_safe :: "gwen_buffer outcome \<Rightarrow> bool" where
  "buf_safe r \<longleftrightarrow> r \<noteq> Fault \<and> (\<forall>bf. r = Ret bf \<longrightarrow> buf_ok bf)"

lemma safe_Ret [simp]: "buf_safe (Ret bf) = buf_ok bf" "buf_safe Abort" "buf_safe Hang" "\<not> buf_safe Fault"
  by (auto simp: buf_safe_def)

lemma buffer_ofI:
  "m \<noteq> Fault \<Longrightarrow> (\<And>rv bf. m = Ret (rv, bf) \<Longrightarrow> buf_ok bf) \<Longrightarrow> buf_safe (buffer_of m)"
  by (cases m) (auto simp: buf_safe_def split: prod.splits)

lemma safe_append:
  assumes "buf_ok bf" and "m \<noteq> Fault" and "\<And>rv bf'. m = Ret (rv, bf') \<Longrightarrow> append_post bf bs rv bf'"
  shows "buf_safe (buffer_of m)"
  using assms by (intro buffer_ofI) (auto intro: buf_ok_append)

lemma safe_insert: "buf_ok bf \<Longrightarrow> insert_result bf bs m \<Longrightarrow> buf_safe (buffer_of m)"
  by (rule buffer_ofI) (auto simp: insert_result_def intro: buf_ok_insert)

lemma safe_AppendBytes:
  "buf_ok bf \<Longrightarrow> fits bf (unat sz + 1) \<Longrightarrow> unat sz \<le> length bs \<Longrightarrow>
   buf_safe (buffer_of (GWEN_Buffer_AppendBytes bf bs sz))"
  using AppendBytes_correct(1,2) [of bf sz bs] by (intro safe_append) (auto simp: buf_ok_def)

lemma safe_InsertBytes:
  "buf_ok bf \<Longrightarrow> insertable bf sz \<Longrightarrow> unat sz \<le> length bs \<Longrightarrow>
   buf_safe (buffer_of (GWEN_Buffer_InsertBytes bf bs sz))"
  using InsertBytes_correct [of bf sz bs] by (intro safe_insert) (auto simp: buf_ok_def insertable_def)

lemma buf_ok_source: "buf_ok sf \<Longrightarrow> unat (bytesUsed sf) \<le> length (drop (ptr sf) (blk sf))"
  using wf_bounds(2) [of sf] by (simp add: buf_ok_def)

lemma strlen_less: "0 \<in> set s \<Longrightarrow> strlen s < length s"
  unfolding strlen_def by (induction s) auto

lemma safe_AllocRoom:
  assumes ok: "buf_ok bf" and fit: "fits bf (unat sz)"
  shows "buf_safe (buffer_of (GWEN_Buffer_AllocRoom bf sz))"
proof (cases bf sz rule: AllocRoom_cases)
  case (ok bf1)
  with AllocRoom_ok(1) [OF _ fit] \<open>buf_ok bf\<close> show ?thesis
    by (auto simp: buf_ok_def [of bf] intro: buf_ok_grown [of bf])
qed (use ok in simp_all)

lemma safe_ReserveBytes:
  assumes ok: "buf_ok bf" and empty: "bytesUsed bf = 0" and fit: "fits bf (unat n)"
  shows "buf_safe (buffer_of (GWEN_Buffer_ReserveBytes bf n))"
proof (cases "n = 0")
  case True
  with ok show ?thesis by (simp add: GWEN_Buffer_ReserveBytes_def)
next
  case False
  have wf: "buf_wf bf" using ok by (simp add: buf_ok_def)
  show ?thesis
  proof (cases bf n rule: AllocRoom_cases)
    case (ok bf1)
    from ReserveBytes_ok [OF wf fit False this] empty show ?thesis
      by (auto simp: reserve_post_def buf_ok_def)
  qed (use ok False empty in \<open>auto simp: GWEN_Buffer_ReserveBytes_def\<close>)
qed

lemma safe_AppendByte: "buf_ok bf \<Longrightarrow> fits bf 2 \<Longrightarrow> buf_safe (buffer_of (GWEN_Buffer_AppendByte bf c))"
  using AppendByte_correct(1,2) [of bf c] by (intro safe_append) (auto simp: buf_ok_def)

lemma safe_fail_with [simp]: "buf_ok bf \<Longrightarrow> buf_safe (buffer_of (fail_with bf rv))"
  by (simp add: fail_with_def)

lemma safe_AppendBuffer:
  assumes "buf_ok bf" and "buf_ok sf" and "fits bf (unat (bytesUsed sf) + 1)"
  shows "buf_safe (buffer_of (GWEN_Buffer_AppendBuffer bf sf))"
  using assms safe_AppendBytes [OF assms(1,3) buf_ok_source [OF assms(2)]]
  by (simp add: GWEN_Buffer_AppendBuffer_def)

lemma safe_AppendString:
  assumes "buf_ok bf" and "fits bf (strlen s + 1)"
  shows "buf_safe (buffer_of (GWEN_Buffer_AppendString bf s))"
proof -
  have u: "unat (of_nat (strlen s) :: u32) = strlen s"
    using assms(2) by (intro unat_of_nat_u32) (simp add: fits_def)
  show ?thesis
    unfolding GWEN_Buffer_AppendString_def by (rule safe_AppendBytes) (use assms in \<open>simp_all add: u\<close>)
qed

lemma safe_AppendArgs:
  assumes ok: "buf_ok bf" and pre: "buf_pre (AppendArgs out) bf"
  shows "buf_safe (buffer_of (GWEN_Buffer_AppendArgs bf out))"
proof (cases out)
  case None
  then have "fits bf (unat (256 :: u32))" using pre by simp
  from safe_AllocRoom [OF ok this] None show ?thesis
    by (cases "GWEN_Buffer_AllocRoom bf 256") (auto simp: GWEN_Buffer_AppendArgs_def Let_def split: prod.splits)
next
  case (Some t)
  then have "room bf (max 256 (length t))" "pos bf = bytesUsed bf" "nul_terminated bf"
    "unat (hardLimit bf) < 2147483648" "unat (bufferSize bf) < 2147483648"
    using pre ok by (auto simp: buf_ok_def)
  from AppendArgs_correct [OF this] Some show ?thesis by (auto simp: buf_ok_def)
qed

lemma safe_FillWithBytes:
  "buf_ok bf \<Longrightarrow> fits bf (unat sz + 1) \<Longrightarrow> buf_safe (buffer_of (GWEN_Buffer_FillWithBytes bf c sz))"
  using FillWithBytes_correct(1,2) [of bf sz c] by (intro safe_append) (auto simp: buf_ok_def)

lemma safe_InsertRoom:
  assumes "buf_ok bf" and "insertable bf sz"
  shows "buf_safe (buffer_of (GWEN_Buffer_InsertRoom bf sz))"
proof -
  have "room_result bf sz (GWEN_Buffer_InsertRoom bf sz)"
    using assms by (intro InsertRoom_correct) (auto simp: buf_ok_def insertable_def)
  with assms(1) show ?thesis
    by (intro buffer_ofI) (auto simp: room_result_def buf_ok_def insert_post_def)
qed

lemma safe_InsertByte: "buf_ok bf \<Longrightarrow> insertable bf 1 \<Longrightarrow> buf_safe (buffer_of (GWEN_Buffer_InsertByte bf c))"
  using InsertByte_correct [of bf c] by (intro safe_insert) (auto simp: buf_ok_def insertable_def)

lemma safe_FillLeftWithBytes:
  "buf_ok bf \<Longrightarrow> insertable bf sz \<Longrightarrow> buf_safe (buffer_of (GWEN_Buffer_FillLeftWithBytes bf c sz))"
  using FillLeftWithBytes_correct [of bf sz c] by (intro safe_insert) (auto simp: buf_ok_def insertable_def)

lemma safe_RemoveRoom:
  assumes ok: "buf_ok bf" and s: "unat (bytesUsed bf) < 2147483648" "unat (pos bf) + unat sz < 4294967296"
  shows "buf_safe (buffer_of (GWEN_Buffer_RemoveRoom bf sz))"
proof (cases "readonly bf")
  case True
  with ok show ?thesis by (simp add: GWEN_Buffer_RemoveRoom_def)
next
  case ro: False
  have wf: "buf_wf bf" "unat (bytesUsed bf) < unat (bufferSize bf)"
    using ok by (auto simp: buf_ok_def nul_terminated_def)
  show ?thesis
  proof (cases "unat (pos bf) + unat sz \<le> unat (bytesUsed bf)")
    case True
    from RemoveRoom_correct [OF wf(1) ro wf(2) s(1) True] show ?thesis
      by (auto simp: cut_post_def buf_ok_def)
  next
    case False
    with RemoveRoom_too_much [OF ro s(2)] ok show ?thesis by auto
  qed
qed

lemma safe_ReplaceBytes:
  assumes ok: "buf_ok bf" and ins: "insertable bf sz" and src: "unat sz \<le> length bs"
    and r: "unat (pos bf) + unat rsize \<le> unat (bytesUsed bf)"
  shows "buf_safe (buffer_of (GWEN_Buffer_ReplaceBytes bf rsize bs sz))"
proof (cases "readonly bf")
  case True
  with ok show ?thesis by (simp add: GWEN_Buffer_ReplaceBytes_def)
next
  case ro: False
  have "buf_wf bf" "nul_terminated bf" "fits bf (unat sz)" "unat (bytesUsed bf) + unat sz < 2147483648"
    using ok ins by (auto simp: buf_ok_def insertable_def below2G_def)
  from ReplaceBytes_result [OF this(1) ro this(3,2,4) src r] ok show ?thesis
    by (intro buffer_ofI) (auto simp: buf_ok_def)
qed

lemma safe_Crop:
  assumes ok: "buf_ok bf" and p: "bufferSize bf \<le> p \<or> unat p \<le> unat (bytesUsed bf) \<and> unat p < 2147483648"
  shows "buf_safe (buffer_of (GWEN_Buffer_Crop bf p l))"
proof (cases "readonly bf \<or> bufferSize bf \<le> p \<or> bytesUsed bf - p < l")
  case True
  with ok show ?thesis by (auto simp: GWEN_Buffer_Crop_def)
next
  case False
  have "unat (bytesUsed bf - p) = unat (bytesUsed bf) - unat p" using False p by (intro unat_minus_u32) auto
  then have "unat p + unat l \<le> unat (bytesUsed bf)" using False p by (auto simp: word_less_nat_alt)
  moreover from this have "unat p + unat l < unat (bufferSize bf)"
    using ok by (simp add: buf_ok_def nul_terminated_def)
  ultimately show ?thesis
    using Crop_correct [of bf p l] False p ok by (auto simp: buf_ok_def cut_post_def)
qed

lemma safe_Reset:
  assumes ok: "buf_ok bf"
  shows "buf_safe (GWEN_Buffer_Reset bf)"
proof -
  have "ptr bf + 1 \<le> length (blk bf)"
    using ok wf_bounds(1) [of bf] by (auto simp: buf_ok_def nul_terminated_def)
  then have "GWEN_Buffer_Reset bf \<noteq> Fault" by (simp add: GWEN_Buffer_Reset_def poke_def)
  with buf_ok_reset [OF ok] show ?thesis by (simp add: buf_safe_def)
qed

lemma safe_AdjustUsedBytes:
  assumes ok: "buf_ok bf" and p: "pos bf \<noteq> bufferSize bf"
  shows "buf_safe (buffer_of (GWEN_Buffer_AdjustUsedBytes bf))"
proof (cases "pos bf \<le> bufferSize bf")
  case False
  with ok show ?thesis by (simp add: GWEN_Buffer_AdjustUsedBytes_def)
next
  case True
  let ?b = "if pos bf > bytesUsed bf then bf\<lparr>bytesUsed := pos bf\<rparr> else bf"
  have "unat (pos bf) < unat (bufferSize bf)" using True p by (simp add: word_less_nat_alt [symmetric])
  then have "buf_wf ?b" "unat (bytesUsed ?b) < unat (bufferSize ?b)"
    using ok by (auto simp: buf_ok_def buf_wf_def nul_terminated_def word_less_nat_alt)
  from terminate_cut [OF this] True show ?thesis
    by (auto simp: GWEN_Buffer_AdjustUsedBytes_def Let_def buf_ok_def cut_post_def)
qed

lemma peek_inside: "buf_ok bf \<Longrightarrow> pos bf < bytesUsed bf \<Longrightarrow> peek bf (ptr bf + unat (pos bf)) 1 \<noteq> Fault"
  using wf_bounds(2) [of bf] by (auto simp: buf_ok_def peek_def word_less_nat_alt)

lemma safe_reads:
  assumes ok: "buf_ok bf"
  shows "buf_safe (obind (GWEN_Buffer_PeekByte bf) (\<lambda>_. Ret bf))" and "buf_safe (buffer_of (GWEN_Buffer_ReadByte bf))"
  using ok peek_inside [OF ok] by (auto simp: GWEN_Buffer_PeekByte_def GWEN_Buffer_ReadByte_def buf_safe_def outcome_simps
      not_le split: if_splits)

lemma safe_ReadBytes:
  assumes ok: "buf_ok bf" and s: "unat (bytesUsed bf) < 2147483648" "unat sz < 2147483648"
  shows "buf_safe (obind (GWEN_Buffer_ReadBytes bf sz) (\<lambda>(rv, bs, n, bf). Ret bf))"
proof (cases "pos bf < bytesUsed bf")
  case True
  with ReadBytes_correct [of bf sz] s ok show ?thesis by (simp add: buf_ok_def [of bf] word_less_nat_alt)
next
  case False
  with ok show ?thesis
    by (simp add: GWEN_Buffer_ReadBytes_def GWEN_Buffer_ReadBytes_loop.simps [of sz bf] not_less)
qed

lemma safe_OverwriteContent:
  assumes ok: "buf_ok bf"
  shows "buf_safe (GWEN_Buffer_OverwriteContent bf 0)"
proof -
  from ok obtain m where m: "realPtr bf = Some m" by (auto simp: buf_ok_def buf_wf_def)
  have "ptr bf + unat (bytesUsed bf) < unat (realBufferSize bf)" "unat (realBufferSize bf) \<le> length m"
    using ok m by (auto simp: buf_ok_def buf_wf_def nul_terminated_def)
  with ok m show ?thesis
    by (auto simp: GWEN_Buffer_OverwriteContent_def poke_def buf_ok_def buf_wf_def nul_terminated_def nth_write_at)
qed

lemma unat_Suc_nonzero: "(v :: u32) + 1 \<noteq> 0 \<Longrightarrow> unat (v + 1) = unat v + 1"
  using unat_u32_bound [of v] unat_plus_if' [of v 1] by (auto simp: unat_eq_zero split: if_splits)

lemma safe_dup:
  assumes ok: "buf_ok bf" and nz: "bytesUsed bf \<noteq> 0"
  shows "buf_safe (GWEN_Buffer_dup bf)"
proof -
  from ok obtain m where m: "realPtr bf = Some m" by (auto simp: buf_ok_def buf_wf_def)
  let ?u = "unat (bytesUsed bf)"
  have b: "?u < unat (bufferSize bf)" "ptr bf + unat (bufferSize bf) = unat (realBufferSize bf)"
    "unat (realBufferSize bf) \<le> length m" "m ! (ptr bf + ?u) = 0"
    using ok m by (auto simp: buf_ok_def buf_wf_def nul_terminated_def)
  have u1: "unat (bytesUsed bf + 1) = ?u + 1"
    using b(1) unat_u32_bound [of "bufferSize bf"] by (intro unat_Suc_u32) linarith
  have le: "\<not> bytesUsed bf + 1 > bufferSize bf" using b(1) by (simp add: word_less_nat_alt u1)
  show ?thesis
  proof (cases "realBufferSize bf + 1 = 0 \<or> \<not> allocOk bf (unat (realBufferSize bf + 1)) \<or> realBufferSize bf = 0")
    case True
    then show ?thesis using b m by (auto simp: GWEN_Buffer_dup_def Let_def)
  next
    case False
    then have n: "unat (realBufferSize bf + 1) = unat (realBufferSize bf) + 1"
      by (simp add: unat_Suc_nonzero)
    show ?thesis
      using False nz ok b m le n u1
      by (auto simp: GWEN_Buffer_dup_def Let_def peek_def poke_def buf_ok_def buf_wf_def nul_terminated_def
          nth_write_at nth_window)
  qed
qed

text \<open>The calls that touch neither the storage nor the sizes.\<close>

lemma buf_ok_fields:
  assumes "buf_ok bf"
  shows "buf_ok (GWEN_Buffer_Rewind bf)" "buf_ok (snd (GWEN_Buffer_SetPos bf i))"
    "buf_ok (snd (GWEN_Buffer_IncrementPos bf i))" "buf_ok (snd (GWEN_Buffer_DecrementPos bf i))"
    "buf_ok (GWEN_Buffer_SetMode bf m)" "buf_ok (GWEN_Buffer_AddMode bf m)" "buf_ok (GWEN_Buffer_SubMode bf m)"
    "buf_safe (GWEN_Buffer_SetHardLimit bf l)" "buf_safe (GWEN_Buffer_SetBookmark bf k v)" "buf_safe (GWEN_Buffer_Attach bf)"
    "buf_ok (snd (GWEN_Buffer_Relinquish bf))"
  using assms by (auto simp: GWEN_Buffer_Rewind_def GWEN_Buffer_SetPos_def GWEN_Buffer_IncrementPos_def
      GWEN_Buffer_DecrementPos_def GWEN_Buffer_SetMode_def GWEN_Buffer_AddMode_def GWEN_Buffer_SubMode_def
      GWEN_Buffer_SetHardLimit_def GWEN_Buffer_SetBookmark_def GWEN_Buffer_Attach_def GWEN_Buffer_Relinquish_def
      buf_safe_def outcome_simps)

lemma buf_ok_SetStep: "buf_ok bf \<Longrightarrow> k < 32 \<Longrightarrow> buf_ok (GWEN_Buffer_SetStep bf (2 ^ k))"
  by (auto simp: GWEN_Buffer_SetStep_def buf_ok_def buf_wf_def nul_terminated_def)

lemma buf_call_safe:
  assumes ok: "buf_ok bf" and pre: "buf_pre c bf"
  shows "buf_safe (buf_call c bf)"
proof (cases c)
  case (InsertBuffer sf)
  with pre show ?thesis using safe_InsertBytes [OF ok _ buf_ok_source [of sf]]
    by (simp add: GWEN_Buffer_InsertBuffer_def)
next
  case (InsertString s)
  have "unat (of_nat (strlen s) :: u32) \<le> length s"
    by (simp add: unat_of_nat take_bit_nat_def order_trans [OF mod_less_eq_dividend])
  with InsertString pre show ?thesis using safe_InsertBytes [OF ok]
    by (simp add: GWEN_Buffer_InsertString_def)
qed (use pre in \<open>auto intro: safe_AllocRoom [OF ok] safe_ReserveBytes [OF ok] safe_AppendBytes [OF ok]
      safe_AppendByte [OF ok] safe_AppendBuffer [OF ok] safe_AppendString [OF ok] safe_AppendArgs [OF ok]
      safe_FillWithBytes [OF ok] safe_InsertRoom [OF ok] safe_InsertBytes [OF ok] safe_InsertByte [OF ok]
      safe_FillLeftWithBytes [OF ok] safe_RemoveRoom [OF ok] safe_ReplaceBytes [OF ok] safe_Crop [OF ok]
      safe_Reset [OF ok] safe_AdjustUsedBytes [OF ok] safe_reads [OF ok] safe_ReadBytes [OF ok]
      safe_OverwriteContent [OF ok] safe_dup [OF ok] buf_ok_fields [OF ok] buf_ok_SetStep [OF ok]\<close>)

lemma buf_run_safe: "buf_ok bf \<Longrightarrow> buf_used_well cs bf \<Longrightarrow> buf_safe (buf_run cs bf)"
proof (induction cs arbitrary: bf)
  case (Cons c cs)
  then have "buf_safe (buf_call c bf)" using buf_call_safe by simp
  with Cons show ?case by (cases "buf_call c bf") auto
qed simp

lemma new_buffer_ok:
  assumes "GWEN_Buffer_new hl fr ok None sz 0 own = Ret bf"
  shows "buf_ok bf"
proof -
  have "sz \<noteq> 0" "sz + 1 \<noteq> 0" "ok (unat (sz + 1))"
    using assms by (auto simp: GWEN_Buffer_new_def Let_def split: if_splits)
  then have "unat sz < 4294967295" "0 < unat sz"
    using unat_u32_bound [of sz] unat_plus_if' [of sz 1] by (auto simp: unat_gt_0 unat_eq_zero split: if_splits)
  then show ?thesis
    using new_buffer [of sz ok hl fr own] \<open>ok (unat (sz + 1))\<close> assms by (auto simp: buf_ok_def unat_Suc_u32)
qed

text \<open>C15. Whatever sequence of calls is made on a buffer created by \<^verbatim>\<open>GWEN_Buffer_new\<close>, each of
  them in a state that meets the condition \<open>buf_pre\<close> states for it (sizes that wrap no sum, room where
  \<^verbatim>\<open>GWEN_Buffer_AppendArgs\<close> needs it, ranges inside the data, no reservation in a buffer with data, no copy of
  one without), no call accesses memory outside the storage, and in every state reached the storage
  and the sizes are consistent and the data is followed by a \<open>NUL\<close> inside the storage.\<close>

theorem buffer_reachable_ok:
  assumes "GWEN_Buffer_new hl fr ok None sz 0 own = Ret bf0" and "buf_used_well cs bf0"
  shows "buf_run cs bf0 \<noteq> Fault \<and> (\<forall>bf. buf_run cs bf0 = Ret bf \<longrightarrow> buf_wf bf \<and> nul_terminated bf)"
  using buf_run_safe [OF new_buffer_ok [OF assms(1)] assms(2)] by (auto simp: buf_safe_def buf_ok_def)

text \<open>A buffer as a program would set it up, with \<^verbatim>\<open>ABC\<close> appended to it.\<close>

lemma abc_buffer:
  "\<exists>bf0 bf. GWEN_Buffer_new (16 * 1024 * 1024) (\<lambda>_. 7) (\<lambda>_. True) None 2 0 True = Ret bf0
     \<and> fits bf0 4 \<and> GWEN_Buffer_AppendBytes bf0 [65, 66, 67] 3 = Ret (0, bf) \<and> room bf 1000
     \<and> nul_terminated bf \<and> contents bf = [65, 66, 67] \<and> pos bf = 3 \<and> bytesUsed bf = 3
     \<and> hardLimit bf = 16 * 1024 * 1024 \<and> ptr bf = 0 \<and> step bf = 1024"
proof -
  from new_buffer [of 2 "\<lambda>_. True" "16 * 1024 * 1024" "\<lambda>_. 7" True] obtain bf0 where
    bf0: "GWEN_Buffer_new (16 * 1024 * 1024) (\<lambda>_. 7) (\<lambda>_. True) None 2 0 True = Ret bf0"
      "buf_wf bf0" "contents bf0 = []" "pos bf0 = 0" "bytesUsed bf0 = 0" "ptr bf0 = 0"
      "mode bf0 = GWEN_BUFFER_MODE_DEFAULT" "hardLimit bf0 = 16 * 1024 * 1024" "step bf0 = 1024"
      "allocOk bf0 = (\<lambda>_. True)"
    by auto
  then have r0: "room bf0 (unat (3 :: u32) + 1000)" by (simp add: room_def has_mode_def buffer_consts)
  from AppendBytes_room [OF r0, of "[65, 66, 67]"] obtain bf where
    bf: "GWEN_Buffer_AppendBytes bf0 [65, 66, 67] 3 = Ret (0, bf)" "append_post bf0 [65, 66, 67] 0 bf"
      "room bf 1000"
    by auto
  note p = append_post_contents [OF bf0(2) bf(2)]
  have "unat (bytesUsed bf) = unat (3 :: u32)" using p(4) bf0 by simp
  then have "bytesUsed bf = 3" by (simp only: word_unat_eq_iff)
  with bf bf0 p room_fits [OF r0, of 4] show ?thesis by auto
qed

theorem buffer_reachable_ok_witness:
  "\<exists>bf0 bf. GWEN_Buffer_new (16 * 1024 * 1024) (\<lambda>_. 7) (\<lambda>_. True) None 2 0 True = Ret bf0
     \<and> buf_run [AppendBytes [65, 66, 67] 3, SetPos 1, RemoveRoom 1, Rewind, ReadByte] bf0 = Ret bf
     \<and> contents bf = [65, 67] \<and> buf_wf bf \<and> nul_terminated bf"
proof -
  let ?cs = "[AppendBytes [65, 66, 67] 3, SetPos 1, RemoveRoom 1, Rewind, ReadByte]"
  from abc_buffer obtain bf0 b1 where
    b1: "GWEN_Buffer_new (16 * 1024 * 1024) (\<lambda>_. 7) (\<lambda>_. True) None 2 0 True = Ret bf0" "fits bf0 4"
      "GWEN_Buffer_AppendBytes bf0 [65, 66, 67] 3 = Ret (0, b1)" "room b1 1000" "nul_terminated b1"
      "contents b1 = [65, 66, 67]" "bytesUsed b1 = 3"
    by auto
  let ?b2 = "b1\<lparr>pos := 1\<rparr>"
  have p: "snd (GWEN_Buffer_SetPos b1 1) = ?b2"
    using b1(5,7) by (simp add: GWEN_Buffer_SetPos_def nul_terminated_def word_le_nat_alt)
  have "buf_wf ?b2" "\<not> readonly ?b2" "unat (bytesUsed ?b2) < unat (bufferSize ?b2)" "contents ?b2 = [65, 66, 67]"
    using b1 by (auto simp: room_def buf_wf_def nul_terminated_def contents_def has_mode_def)
  from RemoveRoom_correct [OF this(1-3), of 1] this(4) b1(7) obtain b3 where
    b3: "GWEN_Buffer_RemoveRoom ?b2 1 = Ret (0, b3)" "cut_post ?b2 [65, 67] b3"
    by auto
  let ?b4 = "GWEN_Buffer_Rewind b3"
  have "buf_wf ?b4" "contents ?b4 = [65, 67]" "unat (bytesUsed ?b4) = 2"
    using b3(2) by (auto simp: cut_post_def GWEN_Buffer_Rewind_def buf_wf_def contents_def)
  then obtain v where r: "GWEN_Buffer_ReadByte ?b4 = Ret (v, ?b4\<lparr>pos := 1\<rparr>)"
    using wf_bounds(2) [of ?b4] by (auto simp: GWEN_Buffer_ReadByte_def GWEN_Buffer_Rewind_def peek_def word_le_nat_alt)
  have run: "buf_run ?cs bf0 = Ret (?b4\<lparr>pos := 1\<rparr>)" using b1(3) b3(1) p r by simp
  have "buf_used_well ?cs bf0" using b1 b3(1) p by (simp split: outcome.splits)
  with buffer_reachable_ok [OF b1(1), of ?cs] run have "buf_wf (?b4\<lparr>pos := 1\<rparr>) \<and> nul_terminated (?b4\<lparr>pos := 1\<rparr>)"
    by simp
  moreover have "contents (?b4\<lparr>pos := 1\<rparr>) = [65, 67]"
    using \<open>contents ?b4 = _\<close> by (simp add: contents_def)
  ultimately show ?thesis using b1(1) run by blast
qed

text \<open>Bookmarks: the calls that make room keep them, inserting moves those at or behind the position up,
  removing moves them down.\<close>

lemma poke_bookmarks: "poke bf a bs = Ret bf' \<Longrightarrow> bookmarks bf' = bookmarks bf \<and> pos bf' = pos bf"
  by (auto simp: poke_def split: if_splits)

lemma AllocRoom_bookmarks:
  "GWEN_Buffer_AllocRoom bf sz = Ret (rv, bf') \<Longrightarrow> bookmarks bf' = bookmarks bf \<and> pos bf' = pos bf"
  by (auto simp: GWEN_Buffer_AllocRoom_def fail_with_def Let_def split: if_splits)

definition moved_up :: "gwen_buffer \<Rightarrow> u32 \<Rightarrow> u32 list" where
  "moved_up bf sz = (if pos bf = 0 \<and> bytesUsed bf = 0 then bookmarks bf
     else map (\<lambda>v. if v \<ge> pos bf then v + sz else v) (bookmarks bf))"

lemma InsertRoom_bookmarks:
  assumes r: "GWEN_Buffer_InsertRoom bf sz = Ret (rv, bf')" and nn: "\<not> rv < 0"
  shows "bookmarks bf' = moved_up bf sz"
proof (cases "readonly bf")
  case True
  with r nn show ?thesis by (auto simp: GWEN_Buffer_InsertRoom_def fail_with_def gwen_errors split: if_splits)
next
  case ro: False
  note unfold = GWEN_Buffer_InsertRoom_def if_not_P [OF ro]
  show ?thesis
  proof (cases "pos bf = 0 \<and> bytesUsed bf = 0")
    case True
    with r nn AllocRoom_neg [of bf sz] show ?thesis
      by (fastforce simp: unfold outcome_simps terminate_data_def moved_up_def
          dest!: AllocRoom_bookmarks poke_bookmarks split: if_splits)
  next
    case ne: False
    show ?thesis
    proof (cases "pos bf = 0 \<and> int (ptr bf) \<ge> sint sz")
      case True
      with r show ?thesis unfolding unfold if_not_P [OF ne] if_P [OF True] moved_up_def
        by (auto simp: outcome_simps retreat_def GWEN_Buffer_AdjustBookmarks_def split: if_splits)
    next
      case False
      from r nn obtain b1 b2 b3 x where "GWEN_Buffer_AllocRoom bf sz = Ret (x, b1)"
        "(if sint (bytesUsed b1 - pos b1) > 0
          then obind (peek b1 (ptr b1 + unat (pos b1)) (nat (sint (bytesUsed b1 - pos b1))))
                 (\<lambda>bs. poke b1 (ptr b1 + unat (pos b1) + unat sz) bs) else Ret b1) = Ret b2"
        "terminate_data (b2\<lparr>bytesUsed := bytesUsed b2 + sz\<rparr>) = Ret b3"
        "bf' = GWEN_Buffer_AdjustBookmarks b3 (pos b3) (sint sz)"
        unfolding unfold if_not_P [OF ne] if_not_P [OF False] Let_def outcome_simps
        by (auto simp: outcome_simps split: if_splits)
      moreover from this(2) have "bookmarks b2 = bookmarks b1 \<and> pos b2 = pos b1"
        by (auto simp: outcome_simps dest: poke_bookmarks split: if_splits)
      ultimately show ?thesis unfolding moved_up_def if_not_P [OF ne]
        by (auto simp: terminate_data_def GWEN_Buffer_AdjustBookmarks_def dest!: AllocRoom_bookmarks poke_bookmarks)
    qed
  qed
qed

lemma InsertBytes_bookmarks:
  assumes "GWEN_Buffer_InsertBytes bf bs sz = Ret (0, bf')"
  shows "bookmarks bf' = moved_up bf sz"
proof -
  from assms obtain rv b x where "GWEN_Buffer_InsertRoom bf sz = Ret (rv, b)" "\<not> rv < 0"
    "poke b (ptr b + unat (pos b)) x = Ret bf'"
    by (auto simp: GWEN_Buffer_InsertBytes_def fail_with_def gwen_errors outcome_simps split: if_splits)
  with InsertRoom_bookmarks [of bf sz rv b] poke_bookmarks show ?thesis by simp
qed

lemma RemoveRoom_bookmarks:
  "GWEN_Buffer_RemoveRoom bf sz = Ret (0, bf') \<Longrightarrow>
     bookmarks bf' = map (\<lambda>v. if v \<ge> pos bf then v - sz else v) (bookmarks bf)"
  by (auto simp: GWEN_Buffer_RemoveRoom_def GWEN_Buffer_AdjustBookmarks_def fail_with_def gwen_errors Let_def
      outcome_simps terminate_data_def advance_def int_neg_def split: if_splits dest!: poke_bookmarks)

lemma bookmark_up_down:
  assumes "unat (v :: u32) + unat sz < 4294967296"
  shows "(if (if v \<ge> p then v + sz else v) \<ge> p then (if v \<ge> p then v + sz else v) - sz
          else (if v \<ge> p then v + sz else v)) = v"
  using assms by (auto simp: word_le_nat_alt unat_plus_u32)

text \<open>C17. Inserting and removing are inverse: bytes inserted anywhere in a buffer and removed again at
  the same position leave the data, the position and the terminator as they were, and in between the
  data is the old data with exactly these bytes in front of the position. The bookmarks at or behind the
  position are moved up with the data and back again, except in an empty buffer: there the insertion
  leaves the bookmarks where they are, and the removal moves all of them down.\<close>

theorem buffer_insert_remove:
  assumes rm: "room bf (length bs)" and nul: "nul_terminated bf"
    and p: "unat (pos bf) \<le> unat (bytesUsed bf)"
    and small: "unat (bytesUsed bf) + length bs < 2147483648"
    and marks: "\<forall>v\<in>set (bookmarks bf). unat v + length bs < 4294967296"
  shows "\<exists>bf1 bf2. GWEN_Buffer_InsertBytes bf bs (of_nat (length bs)) = Ret (0, bf1)
    \<and> contents bf1 = take (unat (pos bf)) (contents bf) @ bs @ drop (unat (pos bf)) (contents bf)
    \<and> bookmarks bf1 = (if bytesUsed bf = 0 then bookmarks bf
        else map (\<lambda>v. if v \<ge> pos bf then v + of_nat (length bs) else v) (bookmarks bf))
    \<and> GWEN_Buffer_RemoveRoom bf1 (of_nat (length bs)) = Ret (0, bf2)
    \<and> contents bf2 = contents bf \<and> pos bf2 = pos bf \<and> nul_terminated bf2
    \<and> bookmarks bf2 = (if bytesUsed bf = 0 then map (\<lambda>v. v - of_nat (length bs)) (bookmarks bf)
        else bookmarks bf)"
proof -
  let ?sz = "of_nat (length bs) :: u32"
  have n: "unat ?sz = length bs" using small by (intro unat_of_nat_u32) linarith
  note wf = room_wf [OF rm]
  have "insert_result bf bs (GWEN_Buffer_InsertBytes bf bs ?sz)"
    using InsertBytes_correct [OF wf p, of ?sz bs] small room_fits [OF rm, of "length bs"]
    by (simp add: n below2G_def)
  moreover obtain b where "GWEN_Buffer_AllocRoom bf ?sz = Ret (0, b)"
    using AllocRoom_succeeds [OF rm, of ?sz] n by auto
  moreover have "\<not> readonly bf" using rm by (simp add: room_def)
  ultimately obtain bf1 where i: "GWEN_Buffer_InsertBytes bf bs ?sz = Ret (0, bf1)"
      "insert_post bf (length bs) bs bf1"
    by (auto simp: insert_result_def)
  then have f: "buf_wf bf1" "pos bf1 = pos bf" "mode bf1 = mode bf" "nul_terminated bf1"
      "unat (bytesUsed bf1) = unat (bytesUsed bf) + length bs"
      "contents bf1 = take (unat (pos bf)) (contents bf) @ bs @ drop (unat (pos bf)) (contents bf)"
    using nul by (auto simp: insert_post_def)
  have "\<not> readonly bf1" using rm f(3) by (simp add: room_def has_mode_def)
  from RemoveRoom_correct [OF f(1) this, of ?sz] f small p n
  obtain bf2 where r: "GWEN_Buffer_RemoveRoom bf1 ?sz = Ret (0, bf2)" "pos bf2 = pos bf"
      "cut_post bf1 (contents bf) bf2"
    by (auto simp: nul_terminated_def wf)
  have p0: "bytesUsed bf = 0 \<Longrightarrow> pos bf = 0" using p by (simp add: unat_eq_zero)
  note b1 = InsertBytes_bookmarks [OF i(1)] and b2 = RemoveRoom_bookmarks [OF r(1)]
  have "bookmarks bf1 = (if bytesUsed bf = 0 then bookmarks bf
      else map (\<lambda>v. if v \<ge> pos bf then v + ?sz else v) (bookmarks bf))"
    using b1 p0 by (auto simp: moved_up_def)
  moreover from this have "bookmarks bf2 = (if bytesUsed bf = 0 then map (\<lambda>v. v - ?sz) (bookmarks bf)
      else bookmarks bf)"
    using b2 p0 marks bookmark_up_down [of _ ?sz "pos bf"] f(2) n by (auto intro!: map_idI)
  ultimately show ?thesis using i f r by (auto simp: cut_post_def)
qed

theorem buffer_insert_remove_witness:
  "\<exists>bf bf1 bf2. pos bf = 1 \<and> contents bf = [65, 66, 67] \<and> bookmarks bf = 2 # replicate 63 0
    \<and> GWEN_Buffer_InsertBytes bf [1, 2] 2 = Ret (0, bf1) \<and> contents bf1 = [65, 1, 2, 66, 67]
    \<and> bookmarks bf1 = 4 # replicate 63 0
    \<and> GWEN_Buffer_RemoveRoom bf1 2 = Ret (0, bf2) \<and> contents bf2 = [65, 66, 67]
    \<and> bookmarks bf2 = 2 # replicate 63 0"
proof -
  from abc_buffer obtain bf0 where bf0: "room bf0 1000" "nul_terminated bf0"
      "contents bf0 = [65, 66, 67]" "bytesUsed bf0 = 3"
    by auto
  let ?bf = "bf0\<lparr>pos := 1, bookmarks := 2 # replicate 63 0\<rparr>"
  have pre: "room ?bf (length [1, 2 :: byte])" "nul_terminated ?bf" "contents ?bf = [65, 66, 67]"
    "unat (pos ?bf) \<le> unat (bytesUsed ?bf)" "unat (bytesUsed ?bf) + length [1, 2 :: byte] < 2147483648"
    "\<forall>v\<in>set (bookmarks ?bf). unat v + length [1, 2 :: byte] < 4294967296"
    using bf0 by (auto simp: room_def buf_wf_def nul_terminated_def contents_def has_mode_def buffer_consts)
  from buffer_insert_remove [OF pre(1,2,4,5,6)] obtain bf1 bf2 where
    "GWEN_Buffer_InsertBytes ?bf [1, 2] 2 = Ret (0, bf1)" "contents bf1 = [65, 1, 2, 66, 67]"
    "bookmarks bf1 = 4 # replicate 63 0" "GWEN_Buffer_RemoveRoom bf1 2 = Ret (0, bf2)"
    "contents bf2 = [65, 66, 67]" "bookmarks bf2 = 2 # replicate 63 0"
    using pre(3) bf0(4) by auto
  then show ?thesis using pre(3) by (intro exI [of _ ?bf] exI [of _ bf1] exI [of _ bf2]) simp
qed

text \<open>Cropping to a range inside the data keeps exactly that range, terminated, and moves the
  position with it; a range that starts behind the storage is refused.\<close>

theorem buffer_crop:
  assumes "buf_wf bf" and "nul_terminated bf" and "\<not> readonly bf" and "unat p < 2147483648"
  shows "(unat p + unat l \<le> unat (bytesUsed bf) \<longrightarrow>
      (\<exists>bf'. GWEN_Buffer_Crop bf p l = Ret (0, bf') \<and> contents bf' = take (unat l) (drop (unat p) (contents bf))
        \<and> nul_terminated bf' \<and> buf_wf bf' \<and> unat (pos bf') = min (unat (pos bf) - unat p) (unat l)))
    \<and> (unat (bufferSize bf) \<le> unat p \<longrightarrow> GWEN_Buffer_Crop bf p l = Ret (-1, bf))"
  using Crop_correct [OF assms(1,3) _ _ assms(4), of l] assms
  by (auto simp: nul_terminated_def cut_post_def GWEN_Buffer_Crop_def word_le_nat_alt)

theorem buffer_crop_witness:
  "\<exists>bf bf'. contents bf = [65, 66, 67] \<and> GWEN_Buffer_Crop bf 1 1 = Ret (0, bf') \<and> contents bf' = [66]
     \<and> unat (pos bf') = 1"
proof -
  from abc_buffer obtain bf where "room bf 1000" "nul_terminated bf"
      "contents bf = [65, 66, 67]" "bytesUsed bf = 3" "pos bf = 3"
    by auto
  with buffer_crop [of bf 1 1] show ?thesis by (auto simp: room_def)
qed

text \<open>\<^verbatim>\<open>GWEN_Buffer_ReplaceBytes\<close> replaces exactly the \<open>rsize\<close> bytes at the position by the new
  bytes, whether these are fewer, as many or more.\<close>

theorem buffer_replace:
  assumes "room bf (length bs)" and "nul_terminated bf"
    and "unat (bytesUsed bf) + length bs < 2147483648"
    and "unat (pos bf) + unat rsize \<le> unat (bytesUsed bf)"
  shows "\<exists>bf'. GWEN_Buffer_ReplaceBytes bf rsize bs (of_nat (length bs)) = Ret (0, bf')
     \<and> contents bf' = take (unat (pos bf)) (contents bf) @ bs @ drop (unat (pos bf) + unat rsize) (contents bf)
     \<and> pos bf' = pos bf \<and> nul_terminated bf' \<and> buf_wf bf'"
proof -
  have "unat (of_nat (length bs) :: u32) = length bs"
    using assms(3) by (intro unat_of_nat_u32) linarith
  with ReplaceBytes_correct [of bf "of_nat (length bs)" bs rsize] assms show ?thesis by auto
qed

theorem buffer_replace_witness:
  "\<exists>bf bf'. pos bf = 1 \<and> contents bf = [65, 66, 67]
    \<and> GWEN_Buffer_ReplaceBytes bf 1 [1, 2, 3] 3 = Ret (0, bf') \<and> contents bf' = [65, 1, 2, 3, 67]"
proof -
  from abc_buffer obtain bf0 where bf0: "room bf0 1000" "nul_terminated bf0"
      "contents bf0 = [65, 66, 67]" "bytesUsed bf0 = 3"
    by auto
  let ?bf = "bf0\<lparr>pos := 1\<rparr>"
  have "room ?bf (length [1, 2, 3 :: byte])" "nul_terminated ?bf" "contents ?bf = [65, 66, 67]"
    using bf0 by (auto simp: room_def buf_wf_def nul_terminated_def contents_def has_mode_def)
  with buffer_replace [of ?bf "[1, 2, 3]" 1] bf0(4) have
    "\<exists>bf'. GWEN_Buffer_ReplaceBytes ?bf 1 [1, 2, 3] 3 = Ret (0, bf') \<and> contents bf' = [65, 1, 2, 3, 67]"
    by auto
  moreover have "pos ?bf = 1" by simp
  ultimately show ?thesis using \<open>contents ?bf = _\<close> by blast
qed

text \<open>C18. What was appended is what is read: after \<^verbatim>\<open>GWEN_Buffer_AppendBytes\<close> to an empty buffer and
  \<^verbatim>\<open>GWEN_Buffer_Rewind\<close>, \<^verbatim>\<open>GWEN_Buffer_ReadBytes\<close> with any size returns the first bytes of it, as many
  as asked for and present, and leaves the position behind them.\<close>

theorem buffer_append_read:
  assumes rm: "room bf (length bs)" and empty: "bytesUsed bf = 0"
    and small: "length bs < 2147483648" "unat sz < 2147483648"
  shows "\<exists>bf1 bf2. GWEN_Buffer_AppendBytes bf bs (of_nat (length bs)) = Ret (0, bf1)
    \<and> GWEN_Buffer_ReadBytes (GWEN_Buffer_Rewind bf1) sz
        = Ret (0, take (unat sz) bs, of_nat (min (unat sz) (length bs)), bf2)
    \<and> unat (GWEN_Buffer_GetBytesLeft bf2) = length bs - unat sz"
proof -
  have n: "unat (of_nat (length bs) :: u32) = length bs"
    using small by (intro unat_of_nat_u32) linarith
  from AppendBytes_room [of bf "of_nat (length bs)" 0 bs] rm n obtain bf1 where
    a: "GWEN_Buffer_AppendBytes bf bs (of_nat (length bs)) = Ret (0, bf1)" "append_post bf bs 0 bf1"
    by auto
  note p = append_post_contents [OF room_wf [OF rm] a(2)]
  let ?r = "GWEN_Buffer_Rewind bf1" and ?n = "min (unat sz) (length bs)"
  have c: "contents ?r = bs" and u: "unat (bytesUsed ?r) = length bs" and wf: "buf_wf ?r" and p0: "pos ?r = 0"
    using p empty length_contents [OF room_wf [OF rm]]
    by (auto simp: GWEN_Buffer_Rewind_def contents_def buf_wf_def)
  have "GWEN_Buffer_ReadBytes ?r sz = Ret (0, take ?n bs, of_nat ?n, ?r\<lparr>pos := of_nat ?n\<rparr>)"
    using ReadBytes_correct [OF wf, of sz] small p0 by (simp add: u c)
  moreover have "take ?n bs = take (unat sz) bs" by (simp add: min_def)
  moreover have "unat (of_nat ?n :: u32) = ?n" using small by (intro unat_of_nat_u32) linarith
  then have "unat (GWEN_Buffer_GetBytesLeft (?r\<lparr>pos := of_nat ?n\<rparr>)) = length bs - unat sz"
    using u by (auto simp: GWEN_Buffer_GetBytesLeft_def word_less_nat_alt unat_minus_u32)
  ultimately show ?thesis using a(1) by auto
qed

theorem buffer_append_read_witness:
  "\<exists>bf bf1 bf2. GWEN_Buffer_new (16 * 1024 * 1024) (\<lambda>_. 7) (\<lambda>_. True) None 2 0 True = Ret bf
    \<and> GWEN_Buffer_AppendBytes bf [65, 66, 67] 3 = Ret (0, bf1)
    \<and> GWEN_Buffer_ReadBytes (GWEN_Buffer_Rewind bf1) 2 = Ret (0, [65, 66], 2, bf2)
    \<and> unat (GWEN_Buffer_GetBytesLeft bf2) = 1"
proof -
  from new_buffer_room [of 2 100 "16 * 1024 * 1024" "\<lambda>_. 7" True] obtain bf where
    bf: "GWEN_Buffer_new (16 * 1024 * 1024) (\<lambda>_. 7) (\<lambda>_. True) None 2 0 True = Ret bf"
      "room bf 100" "bytesUsed bf = 0"
    by auto
  then have "room bf (length [65, 66, 67 :: byte])" by (auto intro: room_mono)
  from buffer_append_read [OF this bf(3), of 2] bf(1) show ?thesis by auto
qed

text \<open>\<^verbatim>\<open>GWEN_Buffer_AppendArgs\<close> appends the complete formatted text, also when it does not fit into the
  first 256 bytes it makes room for and has to be formatted a second time.\<close>

theorem buffer_append_args:
  assumes "room bf (max 256 (length out))" and "pos bf = bytesUsed bf" and "nul_terminated bf"
    and "unat (hardLimit bf) < 2147483648" "unat (bufferSize bf) < 2147483648"
  shows "\<exists>bf'. GWEN_Buffer_AppendArgs bf (Some out) = Ret (0, bf') \<and> contents bf' = contents bf @ out
     \<and> pos bf' = bytesUsed bf' \<and> nul_terminated bf' \<and> buf_wf bf'"
  using AppendArgs_correct [OF assms] by blast

theorem buffer_append_args_witness:
  "\<exists>bf bf'. contents bf = [] \<and> GWEN_Buffer_AppendArgs bf (Some (replicate 300 65)) = Ret (0, bf')
     \<and> contents bf' = replicate 300 65"
proof -
  from new_buffer [of 2 "\<lambda>_. True" "16 * 1024 * 1024" "\<lambda>_. 7" True] obtain bf where
    bf: "GWEN_Buffer_new (16 * 1024 * 1024) (\<lambda>_. 7) (\<lambda>_. True) None 2 0 True = Ret bf"
      "buf_wf bf" "contents bf = []" "pos bf = 0" "bytesUsed bf = 0" "ptr bf = 0" "nul_terminated bf"
      "mode bf = GWEN_BUFFER_MODE_DEFAULT" "hardLimit bf = 16 * 1024 * 1024" "step bf = 1024"
      "allocOk bf = (\<lambda>_. True)"
    by auto
  have b: "bufferSize bf = 3" using bf(1) by (auto simp: GWEN_Buffer_new_def Let_def)
  have "room bf (max 256 (length (replicate 300 65 :: byte list)))"
    using bf by (simp add: room_def has_mode_def buffer_consts)
  from buffer_append_args [OF this] bf b obtain bf' where
    "GWEN_Buffer_AppendArgs bf (Some (replicate 300 65)) = Ret (0, bf')"
    "contents bf' = contents bf @ replicate 300 65"
    by auto
  with bf(3) show ?thesis by (intro exI [of _ bf] exI [of _ bf']) simp
qed

section \<open>Calls that break a buffer\<close>

text \<open>The conditions of \<open>buf_pre\<close> that exclude calls of the interface are needed: from a buffer in order,
  each of these calls gives one that is not, or writes behind the storage.\<close>

definition small_buffer :: gwen_buffer where
  "small_buffer = \<lparr>realPtr = Some [65, 0, 90, 90, 90, 90], ptr = 0, pos = 0, bufferSize = 6, realBufferSize = 6,
     bytesUsed = 1, flags = GWEN_BUFFER_FLAGS_OWNED, mode = GWEN_BUFFER_MODE_DEFAULT, hardLimit = 16777216,
     step = 1024, bookmarks = replicate 64 0, refCount = 1, fresh = (\<lambda>_. 90), allocOk = (\<lambda>_. True)\<rparr>"

lemma small_buffer_ok: "buf_ok small_buffer" "buf_ok (small_buffer\<lparr>realPtr := Some [0, 0, 90, 90, 90, 90], bytesUsed := 0\<rparr>)"
proof -
  have "\<exists>k<32. (1024 :: u32) = 2 ^ k" by (rule exI [of _ 10]) simp
  then show "buf_ok small_buffer" "buf_ok (small_buffer\<lparr>realPtr := Some [0, 0, 90, 90, 90, 90], bytesUsed := 0\<rparr>)"
    by (simp_all add: buf_ok_def buf_wf_def nul_terminated_def small_buffer_def buffer_consts)
qed

lemma reserve_loses_nul:
  "\<exists>bf. buf_call (ReserveBytes 2) small_buffer = Ret bf \<and> \<not> nul_terminated bf"
proof -
  have "GWEN_Buffer_AllocRoom small_buffer 2 = Ret (0, small_buffer)"
    by (simp add: small_buffer_def GWEN_Buffer_AllocRoom_def has_mode_def buffer_consts)
  then show ?thesis
    by (simp add: GWEN_Buffer_ReserveBytes_def peek_def poke_def advance_def nul_terminated_def nth_write_at)
      (simp add: small_buffer_def nth_write_at)
qed

lemma dup_loses_nul:
  "\<exists>bf. buf_call Dup (small_buffer\<lparr>realPtr := Some [0, 0, 90, 90, 90, 90], bytesUsed := 0\<rparr>) = Ret bf \<and> \<not> nul_terminated bf"
  by (simp add: small_buffer_def GWEN_Buffer_dup_def nul_terminated_def Let_def)

lemma adjust_behind_storage: "buf_call AdjustUsedBytes (small_buffer\<lparr>pos := 6\<rparr>) = Fault"
  by (simp add: small_buffer_def GWEN_Buffer_AdjustUsedBytes_def terminate_data_def poke_def)

lemma crop_behind_storage: "buf_call (Crop 3 10) small_buffer = Fault"
  by (simp add: small_buffer_def GWEN_Buffer_Crop_def has_mode_def buffer_consts advance_def terminate_data_def poke_def)

text \<open>Room made in an empty buffer and removed again moves a bookmark from 0 to 4294967294.\<close>

lemma empty_bookmarks_moved:
  "\<exists>bf. obind (buf_call (InsertRoom 2) (small_buffer\<lparr>realPtr := Some [0, 0, 90, 90, 90, 90], bytesUsed := 0\<rparr>))
     (buf_call (RemoveRoom 2)) = Ret bf \<and> bytesUsed bf = 0 \<and> bookmarks bf ! 0 = 4294967294"
  by (simp add: small_buffer_def GWEN_Buffer_InsertRoom_def GWEN_Buffer_RemoveRoom_def GWEN_Buffer_AllocRoom_def
      GWEN_Buffer_AdjustBookmarks_def has_mode_def buffer_consts advance_def terminate_data_def poke_def int_neg_def)

end
