(* ===== verification/Gwen_RingBuffer.thy ===== *)
theory Gwen_RingBuffer
  imports Gwen_Prelude
begin

text \<open>
  The ring buffer of \<^verbatim>\<open>src/base/ringbuffer.c\<close>: a fixed block of bytes with a read and a write position
  that wrap around. The block is a list (empty where \<^verbatim>\<open>malloc\<close> failed, which the code does not check),
  the positions and counters keep their 32 bits. The theory shows that it is a bounded first-in
  first-out queue: the byte-wise operations are interpreted as one (locale \<open>bounded_fifo\<close>), the
  block-wise ones move as many bytes as fit in the same order, and the zero-copy access through the
  read and write pointers is consistent with them.
\<close>

section \<open>State and operations\<close>

record gwen_ringbuffer =
  rb_ptr :: "byte list"
  rb_bufferSize :: u32
  rb_readPos :: u32
  rb_writePos :: u32
  rb_bytesUsed :: u32
  rb_maxBytesUsed :: u32
  rb_emptyCounter :: u32
  rb_fullCounter :: u32
  rb_throughput :: u32

text \<open>\<open>block\<close> is what \<^verbatim>\<open>malloc\<close> returned: a block of the size asked for, with any content, or nothing.\<close>

definition GWEN_RingBuffer_new :: "byte list \<Rightarrow> u32 \<Rightarrow> gwen_ringbuffer outcome" where
  "GWEN_RingBuffer_new block sz =
     obind (oassert (sz \<noteq> 0)) (\<lambda>_.
       Ret \<lparr>rb_ptr = block, rb_bufferSize = sz, rb_readPos = 0, rb_writePos = 0, rb_bytesUsed = 0,
            rb_maxBytesUsed = 0, rb_emptyCounter = 0, rb_fullCounter = 0, rb_throughput = 0\<rparr>)"

definition rb_peek :: "gwen_ringbuffer \<Rightarrow> u32 \<Rightarrow> nat \<Rightarrow> byte list outcome" where
  "rb_peek rb a n = (if unat a + n \<le> length (rb_ptr rb) then Ret (window (unat a) n (rb_ptr rb)) else Fault)"

definition rb_poke :: "gwen_ringbuffer \<Rightarrow> u32 \<Rightarrow> byte list \<Rightarrow> gwen_ringbuffer outcome" where
  "rb_poke rb a bs = (if unat a + length bs \<le> length (rb_ptr rb)
     then Ret (rb\<lparr>rb_ptr := write_at (unat a) bs (rb_ptr rb)\<rparr>) else Fault)"

text \<open>One round of the loops of \<^verbatim>\<open>WriteBytes\<close> and \<^verbatim>\<open>ReadBytes\<close> makes progress.\<close>

lemma chunk_less: "0 < (p :: u32) \<Longrightarrow> p \<le> n \<Longrightarrow> unat (n - p) < unat n"
  by (simp add: unat_minus_u32 word_le_nat_alt word_less_nat_alt)

text \<open>A round that moves no byte would be repeated for ever, which the model shows as \<open>Fault\<close>.\<close>

function GWEN_RingBuffer_WriteBytes_loop ::
  "gwen_ringbuffer \<Rightarrow> byte list \<Rightarrow> u32 \<Rightarrow> (u32 \<times> gwen_ringbuffer) outcome" where
  "GWEN_RingBuffer_WriteBytes_loop rb buffer bytesLeft =
    (if bytesLeft = 0 then Ret (bytesLeft, rb)
     else if rb_bufferSize rb - rb_bytesUsed rb = 0 then Ret (bytesLeft, rb)
     else
       (let psize = (if rb_writePos rb \<ge> rb_readPos rb then rb_bufferSize rb - rb_writePos rb
                     else rb_readPos rb - rb_writePos rb);
            psize = (if psize > bytesLeft then bytesLeft else psize)
        in if psize = 0 \<or> length buffer < unat psize then Fault
           else obind (rb_poke rb (rb_writePos rb) (take (unat psize) buffer)) (\<lambda>rb.
             let rb = rb\<lparr>rb_writePos := rb_writePos rb + psize\<rparr>;
                 rb = (if rb_writePos rb \<ge> rb_bufferSize rb then rb\<lparr>rb_writePos := 0\<rparr> else rb);
                 rb = rb\<lparr>rb_bytesUsed := rb_bytesUsed rb + psize\<rparr>
             in GWEN_RingBuffer_WriteBytes_loop rb (drop (unat psize) buffer) (bytesLeft - psize))))"
  by pat_completeness auto
termination
  by (relation "measure (\<lambda>(rb, buffer, bytesLeft). unat bytesLeft)")
     (auto intro!: chunk_less simp: unat_gt_0 word_gt_0 not_less split: if_splits)

declare GWEN_RingBuffer_WriteBytes_loop.simps [simp del]

text \<open>The result, the number of bytes written and the ring buffer after the call.\<close>

definition GWEN_RingBuffer_WriteBytes ::
  "gwen_ringbuffer \<Rightarrow> byte list \<Rightarrow> u32 \<Rightarrow> (int \<times> u32 \<times> gwen_ringbuffer) outcome" where
  "GWEN_RingBuffer_WriteBytes rb buffer sz =
    (if rb_bufferSize rb - rb_bytesUsed rb = 0
     then Ret (-1, sz, rb\<lparr>rb_fullCounter := rb_fullCounter rb + 1\<rparr>)
     else obind (GWEN_RingBuffer_WriteBytes_loop rb buffer sz) (\<lambda>(bytesLeft, rb).
       Ret (0, sz - bytesLeft,
            if rb_bytesUsed rb > rb_maxBytesUsed rb then rb\<lparr>rb_maxBytesUsed := rb_bytesUsed rb\<rparr> else rb)))"

definition GWEN_RingBuffer_GetMaxUnsegmentedRead :: "gwen_ringbuffer \<Rightarrow> u32 \<times> gwen_ringbuffer" where
  "GWEN_RingBuffer_GetMaxUnsegmentedRead rb =
    (if rb_bytesUsed rb = 0 then (0, rb\<lparr>rb_emptyCounter := rb_emptyCounter rb + 1\<rparr>)
     else (if rb_readPos rb \<ge> rb_writePos rb then rb_bufferSize rb - rb_readPos rb
           else rb_writePos rb - rb_readPos rb, rb))"

definition GWEN_RingBuffer_GetMaxUnsegmentedWrite :: "gwen_ringbuffer \<Rightarrow> u32 \<times> gwen_ringbuffer" where
  "GWEN_RingBuffer_GetMaxUnsegmentedWrite rb =
    (if rb_bufferSize rb - rb_bytesUsed rb = 0
     then (0, rb\<lparr>rb_fullCounter := rb_fullCounter rb + 1\<rparr>)
     else (if rb_writePos rb \<ge> rb_readPos rb then rb_bufferSize rb - rb_writePos rb
           else rb_readPos rb - rb_writePos rb, rb))"

definition GWEN_RingBuffer_SkipBytesRead :: "gwen_ringbuffer \<Rightarrow> u32 \<Rightarrow> gwen_ringbuffer outcome" where
  "GWEN_RingBuffer_SkipBytesRead rb psize =
    (if rb_bytesUsed rb < psize then Abort
     else
       (let rb = rb\<lparr>rb_readPos := rb_readPos rb + psize\<rparr>;
            rb = (if rb_readPos rb \<ge> rb_bufferSize rb then rb\<lparr>rb_readPos := 0\<rparr> else rb)
        in Ret (rb\<lparr>rb_bytesUsed := rb_bytesUsed rb - psize,
                   rb_throughput := rb_throughput rb + psize\<rparr>)))"

definition GWEN_RingBuffer_SkipBytesWrite :: "gwen_ringbuffer \<Rightarrow> u32 \<Rightarrow> gwen_ringbuffer outcome" where
  "GWEN_RingBuffer_SkipBytesWrite rb psize =
    (if rb_bufferSize rb - rb_bytesUsed rb < psize then Abort
     else
       (let rb = rb\<lparr>rb_writePos := rb_writePos rb + psize\<rparr>;
            rb = (if rb_writePos rb \<ge> rb_bufferSize rb then rb\<lparr>rb_writePos := 0\<rparr> else rb);
            rb = rb\<lparr>rb_bytesUsed := rb_bytesUsed rb + psize\<rparr>
        in Ret (if rb_bytesUsed rb > rb_maxBytesUsed rb
                then rb\<lparr>rb_maxBytesUsed := rb_bytesUsed rb\<rparr> else rb)))"

function GWEN_RingBuffer_ReadBytes_loop ::
  "gwen_ringbuffer \<Rightarrow> byte list \<Rightarrow> u32 \<Rightarrow> (byte list \<times> u32 \<times> gwen_ringbuffer) outcome" where
  "GWEN_RingBuffer_ReadBytes_loop rb buffer bytesLeft =
    (if bytesLeft = 0 then Ret (buffer, bytesLeft, rb)
     else if rb_bytesUsed rb = 0 then Ret (buffer, bytesLeft, rb)
     else
       (let psize = (if rb_readPos rb \<ge> rb_writePos rb then rb_bufferSize rb - rb_readPos rb
                     else rb_writePos rb - rb_readPos rb);
            psize = (if psize > bytesLeft then bytesLeft else psize)
        in if psize = 0 then Fault
           else obind (rb_peek rb (rb_readPos rb) (unat psize)) (\<lambda>bs.
             let rb = rb\<lparr>rb_readPos := rb_readPos rb + psize\<rparr>;
                 rb = (if rb_readPos rb \<ge> rb_bufferSize rb then rb\<lparr>rb_readPos := 0\<rparr> else rb);
                 rb = rb\<lparr>rb_bytesUsed := rb_bytesUsed rb - psize\<rparr>
             in GWEN_RingBuffer_ReadBytes_loop rb (buffer @ bs) (bytesLeft - psize))))"
  by pat_completeness auto
termination
  by (relation "measure (\<lambda>(rb, buffer, bytesLeft). unat bytesLeft)")
     (auto intro!: chunk_less simp: unat_gt_0 word_gt_0 not_less split: if_splits)

declare GWEN_RingBuffer_ReadBytes_loop.simps [simp del]

text \<open>The result, the bytes stored in the caller's buffer, their number and the ring buffer afterwards.\<close>

definition GWEN_RingBuffer_ReadBytes ::
  "gwen_ringbuffer \<Rightarrow> u32 \<Rightarrow> (int \<times> byte list \<times> u32 \<times> gwen_ringbuffer) outcome" where
  "GWEN_RingBuffer_ReadBytes rb sz =
    (if rb_bytesUsed rb = 0
     then Ret (-1, [], sz, rb\<lparr>rb_emptyCounter := rb_emptyCounter rb + 1\<rparr>)
     else obind (GWEN_RingBuffer_ReadBytes_loop rb [] sz) (\<lambda>(bs, bytesLeft, rb).
       let sz = sz - bytesLeft
       in Ret (0, bs, sz, rb\<lparr>rb_throughput := rb_throughput rb + sz\<rparr>)))"

definition GWEN_RingBuffer_GetUsedBytes :: "gwen_ringbuffer \<Rightarrow> u32" where
  "GWEN_RingBuffer_GetUsedBytes rb = rb_bytesUsed rb"

definition GWEN_RingBuffer_GetBytesLeft :: "gwen_ringbuffer \<Rightarrow> u32" where
  "GWEN_RingBuffer_GetBytesLeft rb = rb_bufferSize rb - rb_bytesUsed rb"

definition GWEN_RingBuffer_GetBufferSize :: "gwen_ringbuffer \<Rightarrow> u32" where
  "GWEN_RingBuffer_GetBufferSize rb = rb_bufferSize rb"

definition GWEN_RingBuffer_WriteByte :: "gwen_ringbuffer \<Rightarrow> byte \<Rightarrow> (int \<times> gwen_ringbuffer) outcome" where
  "GWEN_RingBuffer_WriteByte rb c =
    (if rb_bufferSize rb - rb_bytesUsed rb = 0
     then Ret (-1, rb\<lparr>rb_fullCounter := rb_fullCounter rb + 1\<rparr>)
     else obind (rb_poke rb (rb_writePos rb) [c]) (\<lambda>rb.
       let rb = rb\<lparr>rb_writePos := rb_writePos rb + 1\<rparr>;
           rb = (if rb_writePos rb \<ge> rb_bufferSize rb then rb\<lparr>rb_writePos := 0\<rparr> else rb);
           rb = rb\<lparr>rb_bytesUsed := rb_bytesUsed rb + 1\<rparr>
       in Ret (0, if rb_bytesUsed rb > rb_maxBytesUsed rb
                  then rb\<lparr>rb_maxBytesUsed := rb_bytesUsed rb\<rparr> else rb)))"

definition GWEN_RingBuffer_ReadByte :: "gwen_ringbuffer \<Rightarrow> (int \<times> gwen_ringbuffer) outcome" where
  "GWEN_RingBuffer_ReadByte rb =
    (if rb_bytesUsed rb = 0 then Ret (-1, rb\<lparr>rb_emptyCounter := rb_emptyCounter rb + 1\<rparr>)
     else obind (rb_peek rb (rb_readPos rb) 1) (\<lambda>bs.
       let rb = rb\<lparr>rb_readPos := rb_readPos rb + 1\<rparr>;
           rb = (if rb_readPos rb \<ge> rb_bufferSize rb then rb\<lparr>rb_readPos := 0\<rparr> else rb)
       in Ret (uint (hd bs), rb\<lparr>rb_bytesUsed := rb_bytesUsed rb - 1,
                                rb_throughput := rb_throughput rb + 1\<rparr>)))"

definition GWEN_RingBuffer_GetMaxUsedBytes :: "gwen_ringbuffer \<Rightarrow> u32" where
  "GWEN_RingBuffer_GetMaxUsedBytes rb = rb_maxBytesUsed rb"

definition GWEN_RingBuffer_ResetMaxUsedBytes :: "gwen_ringbuffer \<Rightarrow> gwen_ringbuffer" where
  "GWEN_RingBuffer_ResetMaxUsedBytes rb = rb\<lparr>rb_maxBytesUsed := 0\<rparr>"

definition GWEN_RingBuffer_GetThroughput :: "gwen_ringbuffer \<Rightarrow> u32" where
  "GWEN_RingBuffer_GetThroughput rb = rb_throughput rb"

definition GWEN_RingBuffer_ResetThroughput :: "gwen_ringbuffer \<Rightarrow> gwen_ringbuffer" where
  "GWEN_RingBuffer_ResetThroughput rb = rb\<lparr>rb_throughput := 0\<rparr>"

definition GWEN_RingBuffer_GetFullCounter :: "gwen_ringbuffer \<Rightarrow> u32" where
  "GWEN_RingBuffer_GetFullCounter rb = rb_fullCounter rb"

definition GWEN_RingBuffer_ResetFullCounter :: "gwen_ringbuffer \<Rightarrow> gwen_ringbuffer" where
  "GWEN_RingBuffer_ResetFullCounter rb = rb\<lparr>rb_fullCounter := 0\<rparr>"

definition GWEN_RingBuffer_GetEmptyCounter :: "gwen_ringbuffer \<Rightarrow> u32" where
  "GWEN_RingBuffer_GetEmptyCounter rb = rb_emptyCounter rb"

definition GWEN_RingBuffer_ResetEmptyCounter :: "gwen_ringbuffer \<Rightarrow> gwen_ringbuffer" where
  "GWEN_RingBuffer_ResetEmptyCounter rb = rb\<lparr>rb_emptyCounter := 0\<rparr>"

definition GWEN_RingBuffer_GetReadPointer :: "gwen_ringbuffer \<Rightarrow> u32" where
  "GWEN_RingBuffer_GetReadPointer rb = rb_readPos rb"

definition GWEN_RingBuffer_GetWritePointer :: "gwen_ringbuffer \<Rightarrow> u32" where
  "GWEN_RingBuffer_GetWritePointer rb = rb_writePos rb"

definition GWEN_RingBuffer_Reset :: "gwen_ringbuffer \<Rightarrow> gwen_ringbuffer" where
  "GWEN_RingBuffer_Reset rb = rb\<lparr>rb_readPos := 0, rb_writePos := 0, rb_bytesUsed := 0,
     rb_maxBytesUsed := 0, rb_emptyCounter := 0, rb_fullCounter := 0, rb_throughput := 0\<rparr>"

section \<open>Invariant and abstraction\<close>

definition wrap :: "nat \<Rightarrow> nat \<Rightarrow> nat" where
  "wrap s i = (if i < s then i else i - s)"

definition rb_wf :: "gwen_ringbuffer \<Rightarrow> bool" where
  "rb_wf rb \<longleftrightarrow> rb_readPos rb < rb_bufferSize rb \<and> rb_bytesUsed rb \<le> rb_bufferSize rb
     \<and> unat (rb_writePos rb) = wrap (unat (rb_bufferSize rb)) (unat (rb_readPos rb) + unat (rb_bytesUsed rb))
     \<and> length (rb_ptr rb) = unat (rb_bufferSize rb)"

text \<open>The queued bytes, oldest first.\<close>

definition rb_contents :: "gwen_ringbuffer \<Rightarrow> byte list" where
  "rb_contents rb = map (\<lambda>i. rb_ptr rb ! wrap (unat (rb_bufferSize rb)) (unat (rb_readPos rb) + i))
     [0..<unat (rb_bytesUsed rb)]"

definition rb_capacity :: "gwen_ringbuffer \<Rightarrow> nat" where
  "rb_capacity rb = unat (rb_bufferSize rb)"

text \<open>The step that every write does after the bytes are in the block, and every read.\<close>

definition rb_written :: "u32 \<Rightarrow> gwen_ringbuffer \<Rightarrow> gwen_ringbuffer" where
  "rb_written psize rb =
    (let rb = rb\<lparr>rb_writePos := rb_writePos rb + psize\<rparr>;
         rb = (if rb_writePos rb \<ge> rb_bufferSize rb then rb\<lparr>rb_writePos := 0\<rparr> else rb)
     in rb\<lparr>rb_bytesUsed := rb_bytesUsed rb + psize\<rparr>)"

definition rb_consumed :: "u32 \<Rightarrow> gwen_ringbuffer \<Rightarrow> gwen_ringbuffer" where
  "rb_consumed psize rb =
    (let rb = rb\<lparr>rb_readPos := rb_readPos rb + psize\<rparr>;
         rb = (if rb_readPos rb \<ge> rb_bufferSize rb then rb\<lparr>rb_readPos := 0\<rparr> else rb)
     in rb\<lparr>rb_bytesUsed := rb_bytesUsed rb - psize\<rparr>)"

text \<open>How many bytes can be written, and read, before the end of the block or the other position.\<close>

definition chunk_w :: "gwen_ringbuffer \<Rightarrow> u32" where
  "chunk_w rb = (if rb_writePos rb \<ge> rb_readPos rb then rb_bufferSize rb - rb_writePos rb
     else rb_readPos rb - rb_writePos rb)"

definition chunk_r :: "gwen_ringbuffer \<Rightarrow> u32" where
  "chunk_r rb = (if rb_readPos rb \<ge> rb_writePos rb then rb_bufferSize rb - rb_readPos rb
     else rb_writePos rb - rb_readPos rb)"

lemma rb_counters [simp]:
  "rb_wf (rb\<lparr>rb_maxBytesUsed := x\<rparr>) = rb_wf rb" "rb_wf (rb\<lparr>rb_fullCounter := x\<rparr>) = rb_wf rb"
  "rb_wf (rb\<lparr>rb_emptyCounter := x\<rparr>) = rb_wf rb" "rb_wf (rb\<lparr>rb_throughput := x\<rparr>) = rb_wf rb"
  "rb_contents (rb\<lparr>rb_maxBytesUsed := x\<rparr>) = rb_contents rb"
  "rb_contents (rb\<lparr>rb_fullCounter := x\<rparr>) = rb_contents rb"
  "rb_contents (rb\<lparr>rb_emptyCounter := x\<rparr>) = rb_contents rb"
  "rb_contents (rb\<lparr>rb_throughput := x\<rparr>) = rb_contents rb"
  "rb_capacity (rb\<lparr>rb_maxBytesUsed := x\<rparr>) = rb_capacity rb"
  "rb_capacity (rb\<lparr>rb_fullCounter := x\<rparr>) = rb_capacity rb"
  "rb_capacity (rb\<lparr>rb_emptyCounter := x\<rparr>) = rb_capacity rb"
  "rb_capacity (rb\<lparr>rb_throughput := x\<rparr>) = rb_capacity rb"
  by (simp_all add: rb_wf_def rb_contents_def rb_capacity_def)

lemma length_rb_contents [simp]: "length (rb_contents rb) = unat (rb_bytesUsed rb)"
  by (simp add: rb_contents_def)

lemma rb_wf_nat:
  assumes "rb_wf rb"
  shows "unat (rb_readPos rb) < unat (rb_bufferSize rb)"
    and "unat (rb_bytesUsed rb) \<le> unat (rb_bufferSize rb)"
    and "unat (rb_writePos rb) = wrap (unat (rb_bufferSize rb)) (unat (rb_readPos rb) + unat (rb_bytesUsed rb))"
    and "unat (rb_writePos rb) < unat (rb_bufferSize rb)"
    and "length (rb_ptr rb) = unat (rb_bufferSize rb)"
    and "rb_bufferSize rb - rb_bytesUsed rb = 0 \<longleftrightarrow> unat (rb_bytesUsed rb) = unat (rb_bufferSize rb)"
proof -
  have "rb_bufferSize rb - rb_bytesUsed rb = 0 \<longleftrightarrow> rb_bytesUsed rb = rb_bufferSize rb" by auto
  then show "rb_bufferSize rb - rb_bytesUsed rb = 0 \<longleftrightarrow> unat (rb_bytesUsed rb) = unat (rb_bufferSize rb)"
    by (simp only: word_unat_eq_iff)
qed (use assms in \<open>auto simp: rb_wf_def wrap_def word_less_nat_alt word_le_nat_alt\<close>)

text \<open>The arithmetic of positions, on natural numbers: \<open>s\<close> the size, \<open>r\<close> and \<open>w\<close> the positions, \<open>u\<close> the
  bytes in use, \<open>c\<close> the longest contiguous piece.\<close>

lemma write_arith:
  fixes r s u w c :: nat
  assumes "r < s" "u < s" "w = wrap s (r + u)" "c = (if r \<le> w then s - w else r - w)"
  shows "0 < c" "u + c \<le> s" "w + c \<le> s"
    and "n \<le> c \<Longrightarrow> (if w + n < s then w + n else 0) = wrap s (r + (u + n))"
    and "n \<le> c \<Longrightarrow> i < u \<Longrightarrow> wrap s (r + i) < w \<or> w + n \<le> wrap s (r + i)"
    and "n \<le> c \<Longrightarrow> i < n \<Longrightarrow> wrap s (r + (u + i)) = w + i"
    and "i < u \<Longrightarrow> wrap s (r + i) < s"
  using assms by (auto simp: wrap_def split: if_splits)

lemma read_arith:
  fixes r s u w c :: nat
  assumes "r < s" "u \<le> s" "w = wrap s (r + u)" "0 < u" "c = (if w \<le> r then s - r else w - r)"
  shows "0 < c" "c \<le> u" "r + c \<le> s"
    and "n \<le> c \<Longrightarrow> w = wrap s ((if r + n < s then r + n else 0) + (u - n))"
    and "n \<le> c \<Longrightarrow> n + i < u \<Longrightarrow> wrap s (r + (n + i)) = wrap s ((if r + n < s then r + n else 0) + i)"
    and "n \<le> c \<Longrightarrow> i < n \<Longrightarrow> wrap s (r + i) = r + i"
  using assms by (auto simp: wrap_def split: if_splits)

lemma unat_chunk_w:
  assumes "rb_wf rb"
  shows "unat (chunk_w rb) = (if unat (rb_readPos rb) \<le> unat (rb_writePos rb)
    then unat (rb_bufferSize rb) - unat (rb_writePos rb) else unat (rb_readPos rb) - unat (rb_writePos rb))"
  using rb_wf_nat(4) [OF assms] by (simp add: chunk_w_def word_le_nat_alt unat_minus_u32)

lemma unat_chunk_r:
  assumes "rb_wf rb"
  shows "unat (chunk_r rb) = (if unat (rb_writePos rb) \<le> unat (rb_readPos rb)
    then unat (rb_bufferSize rb) - unat (rb_readPos rb) else unat (rb_writePos rb) - unat (rb_readPos rb))"
  using rb_wf_nat(1) [OF assms] by (simp add: chunk_r_def word_le_nat_alt unat_minus_u32)

lemmas chunk_w_arith = write_arith [OF rb_wf_nat(1) _ rb_wf_nat(3) unat_chunk_w]
lemmas chunk_r_arith = read_arith [OF rb_wf_nat(1,2,3) _ unat_chunk_r]

section \<open>What a write and a read do to the queue\<close>

lemma rb_written_fields [simp]:
  "rb_ptr (rb_written p rb) = rb_ptr rb" "rb_bufferSize (rb_written p rb) = rb_bufferSize rb"
  "rb_readPos (rb_written p rb) = rb_readPos rb" "rb_bytesUsed (rb_written p rb) = rb_bytesUsed rb + p"
  "rb_capacity (rb_written p rb) = rb_capacity rb"
  by (simp_all add: rb_written_def Let_def rb_capacity_def)

lemma rb_consumed_fields [simp]:
  "rb_ptr (rb_consumed p rb) = rb_ptr rb" "rb_bufferSize (rb_consumed p rb) = rb_bufferSize rb"
  "rb_writePos (rb_consumed p rb) = rb_writePos rb" "rb_bytesUsed (rb_consumed p rb) = rb_bytesUsed rb - p"
  "rb_capacity (rb_consumed p rb) = rb_capacity rb"
  by (simp_all add: rb_consumed_def Let_def rb_capacity_def)

lemma write_chunk:
  assumes wf: "rb_wf rb" and free: "unat (rb_bytesUsed rb) < unat (rb_bufferSize rb)"
    and n: "length bs = unat p" "unat p \<le> unat (chunk_w rb)"
  defines "rb' \<equiv> rb_written p (rb\<lparr>rb_ptr := write_at (unat (rb_writePos rb)) bs (rb_ptr rb)\<rparr>)"
  shows "rb_poke rb (rb_writePos rb) bs = Ret (rb\<lparr>rb_ptr := write_at (unat (rb_writePos rb)) bs (rb_ptr rb)\<rparr>)"
    and "rb_wf rb'" and "rb_contents rb' = rb_contents rb @ bs"
    and "unat (rb_bytesUsed rb') = unat (rb_bytesUsed rb) + unat p"
proof -
  note wfn = rb_wf_nat [OF wf] and ar = chunk_w_arith [OF wf free wf wf]
  let ?s = "unat (rb_bufferSize rb)" and ?u = "unat (rb_bytesUsed rb)" and ?r = "unat (rb_readPos rb)"
  let ?w = "unat (rb_writePos rb)" and ?n = "unat p"
  have up: "?u + ?n \<le> ?s" "?w + ?n \<le> ?s" using ar(2,3) n by linarith+
  show "rb_poke rb (rb_writePos rb) bs = Ret (rb\<lparr>rb_ptr := write_at ?w bs (rb_ptr rb)\<rparr>)"
    using up wfn n by (simp add: rb_poke_def)
  have u': "unat (rb_bytesUsed rb + p) = ?u + ?n"
    using up unat_u32_bound [of "rb_bufferSize rb"] by (intro unat_plus_u32) linarith
  then show "unat (rb_bytesUsed rb') = ?u + ?n" by (simp add: rb'_def)
  have w': "unat (rb_writePos rb + p) = ?w + ?n"
    using up unat_u32_bound [of "rb_bufferSize rb"] by (intro unat_plus_u32) linarith
  have "unat (rb_writePos rb') = (if ?w + ?n < ?s then ?w + ?n else 0)"
    by (simp add: rb'_def rb_written_def Let_def word_le_nat_alt w' not_less)
  with ar(4) [OF n(2)] have "unat (rb_writePos rb') = wrap ?s (?r + (?u + ?n))" by (simp only:)
  moreover have "length (write_at ?w bs (rb_ptr rb)) = ?s" using up wfn(5) n by simp
  ultimately show "rb_wf rb'"
    using wfn(1) up(1) by (simp add: rb'_def rb_wf_def u' word_le_nat_alt word_less_nat_alt)
  have old: "write_at ?w bs (rb_ptr rb) ! wrap ?s (?r + i) = rb_ptr rb ! wrap ?s (?r + i)" if "i < ?u" for i
    using ar(5) [OF n(2) that] ar(7) [OF that] n wfn(5) up by (auto simp: nth_write_at)
  have new: "write_at ?w bs (rb_ptr rb) ! wrap ?s (?r + (?u + i)) = bs ! i" if "i < ?n" for i
    using ar(6) [OF n(2) that] that n wfn(5) up by (simp add: nth_write_at)
  have cat: "[0..<?u + ?n] = [0..<?u] @ map (\<lambda>i. ?u + i) [0..<?n]"
    by (rule nth_equalityI) (auto simp: nth_append)
  have "map (\<lambda>i. write_at ?w bs (rb_ptr rb) ! wrap ?s (?r + (?u + i))) [0..<?n] = bs"
    using new n(1) by (intro nth_equalityI) auto
  then show "rb_contents rb' = rb_contents rb @ bs"
    using old by (simp add: rb_contents_def rb'_def u' cat del: upt_add_eq_append cong: map_cong)
qed

lemma read_chunk:
  assumes wf: "rb_wf rb" and ne: "0 < unat (rb_bytesUsed rb)" and n: "unat p \<le> unat (chunk_r rb)"
  shows "rb_peek rb (rb_readPos rb) (unat p) = Ret (take (unat p) (rb_contents rb))"
    and "rb_wf (rb_consumed p rb)"
    and "rb_contents (rb_consumed p rb) = drop (unat p) (rb_contents rb)"
    and "unat (rb_bytesUsed (rb_consumed p rb)) = unat (rb_bytesUsed rb) - unat p"
proof -
  note wfn = rb_wf_nat [OF wf] and ar = chunk_r_arith [OF wf wf wf ne wf]
  let ?s = "unat (rb_bufferSize rb)" and ?u = "unat (rb_bytesUsed rb)" and ?r = "unat (rb_readPos rb)"
  let ?n = "unat p"
  have up: "?n \<le> ?u" "?r + ?n \<le> ?s" using ar(2,3) n by linarith+
  show "rb_peek rb (rb_readPos rb) ?n = Ret (take ?n (rb_contents rb))"
    using up wfn(5) ar(6) [OF n] by (auto simp: rb_peek_def rb_contents_def intro!: nth_equalityI)
  have u': "unat (rb_bytesUsed rb - p) = ?u - ?n" using up by (intro unat_minus_u32)
  then show "unat (rb_bytesUsed (rb_consumed p rb)) = ?u - ?n" by simp
  have r': "unat (rb_readPos rb + p) = ?r + ?n"
    using up unat_u32_bound [of "rb_bufferSize rb"] by (intro unat_plus_u32) linarith
  have rpos: "unat (rb_readPos (rb_consumed p rb)) = (if ?r + ?n < ?s then ?r + ?n else 0)"
    by (simp add: rb_consumed_def Let_def word_le_nat_alt r' not_less)
  have "(if ?r + ?n < ?s then ?r + ?n else 0) < ?s" using wfn(1) by simp
  then show "rb_wf (rb_consumed p rb)"
    using ar(4) [OF n] wfn(2,5) by (simp add: rb_wf_def rpos u' word_less_nat_alt word_le_nat_alt del: if_split)
  have "rb_contents rb ! (?n + i) = rb_contents (rb_consumed p rb) ! i" if "?n + i < ?u" for i
  proof -
    have "i < ?u - ?n" using that by linarith
    then show ?thesis using that ar(5) [OF n that] by (simp add: rb_contents_def rpos u' del: if_split)
  qed
  then show "rb_contents (rb_consumed p rb) = drop ?n (rb_contents rb)"
    using up(1) by (intro nth_equalityI) (auto simp: u')
qed


section \<open>The byte-wise interface is a bounded queue\<close>

text \<open>
  A bounded first-in first-out queue with a fallible put and get, as a client of the ring buffer sees
  it: \<open>put\<close> and \<open>get\<close> answer -1 and keep the content where the queue is full or empty.
\<close>

locale bounded_fifo =
  fixes inv :: "'q \<Rightarrow> bool" and content :: "'q \<Rightarrow> byte list" and capacity :: "'q \<Rightarrow> nat"
    and put :: "'q \<Rightarrow> byte \<Rightarrow> (int \<times> 'q) outcome" and get :: "'q \<Rightarrow> (int \<times> 'q) outcome"
  assumes put_room: "inv q \<Longrightarrow> length (content q) < capacity q \<Longrightarrow>
      \<exists>q'. put q c = Ret (0, q') \<and> inv q' \<and> content q' = content q @ [c] \<and> capacity q' = capacity q"
    and put_full: "inv q \<Longrightarrow> length (content q) = capacity q \<Longrightarrow>
      \<exists>q'. put q c = Ret (-1, q') \<and> inv q' \<and> content q' = content q \<and> capacity q' = capacity q"
    and get_some: "inv q \<Longrightarrow> content q = c # cs \<Longrightarrow>
      \<exists>q'. get q = Ret (uint c, q') \<and> inv q' \<and> content q' = cs \<and> capacity q' = capacity q"
    and get_none: "inv q \<Longrightarrow> content q = [] \<Longrightarrow>
      \<exists>q'. get q = Ret (-1, q') \<and> inv q' \<and> content q' = [] \<and> capacity q' = capacity q"

lemma WriteByte_room:
  assumes wf: "rb_wf rb" and free: "length (rb_contents rb) < rb_capacity rb"
  shows "\<exists>rb'. GWEN_RingBuffer_WriteByte rb c = Ret (0, rb') \<and> rb_wf rb'
    \<and> rb_contents rb' = rb_contents rb @ [c] \<and> rb_capacity rb' = rb_capacity rb"
proof -
  have fr: "unat (rb_bytesUsed rb) < unat (rb_bufferSize rb)" using free by (simp add: rb_capacity_def)
  then have ne: "rb_bufferSize rb - rb_bytesUsed rb \<noteq> 0" using rb_wf_nat(6) [OF wf] by simp
  have "unat (1 :: u32) \<le> unat (chunk_w rb)" using chunk_w_arith(1) [OF wf fr wf wf] by simp
  note w = write_chunk [OF wf fr _ this, of "[c]"]
  show ?thesis
    unfolding GWEN_RingBuffer_WriteByte_def if_not_P [OF ne] w(1) [simplified] obind.simps
    using w(2,3) by (simp add: rb_written_def Let_def rb_capacity_def)
qed

lemma ReadByte_some:
  assumes wf: "rb_wf rb" and c: "rb_contents rb = c # cs"
  shows "\<exists>rb'. GWEN_RingBuffer_ReadByte rb = Ret (uint c, rb') \<and> rb_wf rb'
    \<and> rb_contents rb' = cs \<and> rb_capacity rb' = rb_capacity rb"
proof -
  have "length (rb_contents rb) = Suc (length cs)" using c by simp
  then have ne: "0 < unat (rb_bytesUsed rb)" by (simp only: length_rb_contents)
  then have nz: "rb_bytesUsed rb \<noteq> 0" by auto
  have "unat (1 :: u32) \<le> unat (chunk_r rb)" using chunk_r_arith(1) [OF wf wf wf ne wf] by simp
  note r = read_chunk [OF wf ne this]
  have pk: "rb_peek rb (rb_readPos rb) 1 = Ret [c]" using r(1) c by simp
  show ?thesis
    unfolding GWEN_RingBuffer_ReadByte_def if_not_P [OF nz] pk obind.simps
    using r(2,3) c by (simp add: rb_consumed_def Let_def rb_capacity_def)
qed

interpretation ring: bounded_fifo rb_wf rb_contents rb_capacity GWEN_RingBuffer_WriteByte GWEN_RingBuffer_ReadByte
proof
  fix rb c
  show "\<exists>rb'. GWEN_RingBuffer_WriteByte rb c = Ret (-1, rb') \<and> rb_wf rb'
      \<and> rb_contents rb' = rb_contents rb \<and> rb_capacity rb' = rb_capacity rb"
    if "rb_wf rb" "length (rb_contents rb) = rb_capacity rb"
    using that rb_wf_nat(6) [of rb] by (simp add: GWEN_RingBuffer_WriteByte_def rb_capacity_def)
  show "\<exists>rb'. GWEN_RingBuffer_ReadByte rb = Ret (-1, rb') \<and> rb_wf rb' \<and> rb_contents rb' = []
      \<and> rb_capacity rb' = rb_capacity rb"
    if "rb_wf rb" "rb_contents rb = []"
  proof -
    have "unat (rb_bytesUsed rb) = 0" using that(2) length_rb_contents [of rb] by simp
    then have "rb_bytesUsed rb = 0" by (simp add: unat_eq_0)
    with that show ?thesis by (simp add: GWEN_RingBuffer_ReadByte_def)
  qed
qed (use WriteByte_room ReadByte_some in auto)


section \<open>Block-wise writing and reading\<close>

text \<open>One round of the write loop, in terms of \<open>write_chunk\<close>.\<close>

lemma WriteBytes_loop_step:
  assumes wf: "rb_wf rb" and n: "bytesLeft \<noteq> 0" "unat bytesLeft \<le> length buffer"
    and free: "unat (rb_bytesUsed rb) < unat (rb_bufferSize rb)"
  defines "p \<equiv> if chunk_w rb > bytesLeft then bytesLeft else chunk_w rb"
  defines "rb' \<equiv> rb_written p (rb\<lparr>rb_ptr := write_at (unat (rb_writePos rb)) (take (unat p) buffer) (rb_ptr rb)\<rparr>)"
  shows "GWEN_RingBuffer_WriteBytes_loop rb buffer bytesLeft
       = GWEN_RingBuffer_WriteBytes_loop rb' (drop (unat p) buffer) (bytesLeft - p)"
    and "rb_wf rb'" and "rb_contents rb' = rb_contents rb @ take (unat p) buffer"
    and "0 < unat p" and "unat p \<le> unat bytesLeft"
    and "unat (rb_bytesUsed rb') = unat (rb_bytesUsed rb) + unat p"
    and "unat (rb_bytesUsed rb) + unat p \<le> unat (rb_bufferSize rb)"
proof -
  have p: "unat p \<le> unat bytesLeft" "unat p \<le> unat (chunk_w rb)"
    by (auto simp: p_def word_less_nat_alt)
  show pos: "0 < unat p" using n(1) chunk_w_arith(1) [OF wf free wf wf] by (simp add: p_def unat_gt_0)
  have len: "length (take (unat p) buffer) = unat p" using p n by simp
  note w = write_chunk [OF wf free len p(2)]
  show "rb_wf rb'" "rb_contents rb' = rb_contents rb @ take (unat p) buffer"
      "unat (rb_bytesUsed rb') = unat (rb_bytesUsed rb) + unat p" "unat p \<le> unat bytesLeft"
    using w p by (auto simp: rb'_def)
  show "unat (rb_bytesUsed rb) + unat p \<le> unat (rb_bufferSize rb)"
    using chunk_w_arith(2) [OF wf free wf wf] p(2) by linarith
  have ne: "rb_bufferSize rb - rb_bytesUsed rb \<noteq> 0" using rb_wf_nat(6) [OF wf] free by simp
  have "\<not> (p = 0 \<or> length buffer < unat p)" using pos p n by auto
  then show "GWEN_RingBuffer_WriteBytes_loop rb buffer bytesLeft
       = GWEN_RingBuffer_WriteBytes_loop rb' (drop (unat p) buffer) (bytesLeft - p)"
    using n(1) ne w(1)
    by (subst GWEN_RingBuffer_WriteBytes_loop.simps)
       (simp add: Let_def chunk_w_def [symmetric] p_def [symmetric] rb'_def rb_written_def)
qed

lemma WriteBytes_loop_correct:
  "rb_wf rb \<Longrightarrow> unat bytesLeft \<le> length buffer \<Longrightarrow>
   k = min (unat bytesLeft) (rb_capacity rb - length (rb_contents rb)) \<Longrightarrow>
   \<exists>rb'. GWEN_RingBuffer_WriteBytes_loop rb buffer bytesLeft = Ret (bytesLeft - of_nat k, rb')
     \<and> rb_wf rb' \<and> rb_contents rb' = rb_contents rb @ take k buffer \<and> rb_capacity rb' = rb_capacity rb"
proof (induction "unat bytesLeft" arbitrary: rb buffer bytesLeft k rule: less_induct)
  case less
  note wf = less.prems(1)
  show ?case
  proof (cases "bytesLeft = 0 \<or> unat (rb_bytesUsed rb) = unat (rb_bufferSize rb)")
    case True
    then have "k = 0" using less.prems(3) by (auto simp: rb_capacity_def)
    then show ?thesis
      using True wf rb_wf_nat(6) [OF wf] by (subst GWEN_RingBuffer_WriteBytes_loop.simps) auto
  next
    case False
    then have nz: "bytesLeft \<noteq> 0" and free: "unat (rb_bytesUsed rb) < unat (rb_bufferSize rb)"
      using rb_wf_nat(2) [OF wf] by auto
    define p where "p = (if chunk_w rb > bytesLeft then bytesLeft else chunk_w rb)"
    define rb1 where
      "rb1 = rb_written p (rb\<lparr>rb_ptr := write_at (unat (rb_writePos rb)) (take (unat p) buffer) (rb_ptr rb)\<rparr>)"
    note st = WriteBytes_loop_step [OF wf nz less.prems(2) free, folded p_def, folded rb1_def]
    have d: "unat (bytesLeft - p) = unat bytesLeft - unat p" using st(5) by (intro unat_minus_u32)
    have cap: "rb_capacity rb1 = rb_capacity rb" by (simp add: rb1_def rb_capacity_def)
    then have bs: "unat (rb_bufferSize rb1) = unat (rb_bufferSize rb)" by (simp add: rb_capacity_def)
    have k1: "k - unat p = min (unat (bytesLeft - p)) (rb_capacity rb1 - length (rb_contents rb1))"
      and kp: "unat p \<le> k"
      using less.prems(3) st(5,6,7) by (auto simp: d bs rb_capacity_def min_def)
    have lt: "unat (bytesLeft - p) < unat bytesLeft" using d st(4,5) by linarith
    have len: "unat (bytesLeft - p) \<le> length (drop (unat p) buffer)" using d less.prems(2) by simp
    from less.hyps [OF lt st(2) len k1] obtain rb' where
      r: "GWEN_RingBuffer_WriteBytes_loop rb1 (drop (unat p) buffer) (bytesLeft - p)
           = Ret (bytesLeft - p - of_nat (k - unat p), rb')" "rb_wf rb'"
        "rb_contents rb' = rb_contents rb1 @ take (k - unat p) (drop (unat p) buffer)"
        "rb_capacity rb' = rb_capacity rb1"
      by blast
    have "bytesLeft - p - of_nat (k - unat p) = bytesLeft - of_nat k"
      using kp by (simp add: of_nat_diff)
    moreover have "take k buffer = take (unat p) buffer @ take (k - unat p) (drop (unat p) buffer)"
      using take_add [of "unat p" "k - unat p" buffer] kp by simp
    ultimately show ?thesis using r st(1,3) cap by simp
  qed
qed

lemma ReadBytes_loop_step:
  assumes wf: "rb_wf rb" and n: "bytesLeft \<noteq> 0" and ne: "0 < unat (rb_bytesUsed rb)"
  defines "p \<equiv> if chunk_r rb > bytesLeft then bytesLeft else chunk_r rb"
  shows "GWEN_RingBuffer_ReadBytes_loop rb buffer bytesLeft
       = GWEN_RingBuffer_ReadBytes_loop (rb_consumed p rb) (buffer @ take (unat p) (rb_contents rb)) (bytesLeft - p)"
    and "0 < unat p" and "unat p \<le> unat bytesLeft" and "unat p \<le> unat (rb_bytesUsed rb)"
    and "unat p \<le> unat (chunk_r rb)"
proof -
  show p: "unat p \<le> unat bytesLeft" "unat p \<le> unat (chunk_r rb)"
    by (auto simp: p_def word_less_nat_alt)
  show pos: "0 < unat p" using n chunk_r_arith(1) [OF wf wf wf ne wf] by (simp add: p_def unat_gt_0)
  show "unat p \<le> unat (rb_bytesUsed rb)" using chunk_r_arith(2) [OF wf wf wf ne wf] p(2) by linarith
  have nz: "p \<noteq> 0" "rb_bytesUsed rb \<noteq> 0" using pos ne by auto
  show "GWEN_RingBuffer_ReadBytes_loop rb buffer bytesLeft
      = GWEN_RingBuffer_ReadBytes_loop (rb_consumed p rb) (buffer @ take (unat p) (rb_contents rb)) (bytesLeft - p)"
    using n nz read_chunk(1) [OF wf ne p(2)]
    by (subst GWEN_RingBuffer_ReadBytes_loop.simps)
       (simp add: Let_def chunk_r_def [symmetric] p_def [symmetric] rb_consumed_def)
qed

lemma ReadBytes_loop_correct:
  "rb_wf rb \<Longrightarrow> k = min (unat bytesLeft) (length (rb_contents rb)) \<Longrightarrow>
   \<exists>rb'. GWEN_RingBuffer_ReadBytes_loop rb buffer bytesLeft
          = Ret (buffer @ take k (rb_contents rb), bytesLeft - of_nat k, rb')
     \<and> rb_wf rb' \<and> rb_contents rb' = drop k (rb_contents rb) \<and> rb_capacity rb' = rb_capacity rb"
proof (induction "unat bytesLeft" arbitrary: rb buffer bytesLeft k rule: less_induct)
  case less
  note wf = less.prems(1)
  show ?case
  proof (cases "bytesLeft = 0 \<or> unat (rb_bytesUsed rb) = 0")
    case True
    then have "k = 0" using less.prems(2) by auto
    then show ?thesis
      using True wf by (subst GWEN_RingBuffer_ReadBytes_loop.simps) (auto simp: unat_eq_0)
  next
    case False
    then have nz: "bytesLeft \<noteq> 0" and ne: "0 < unat (rb_bytesUsed rb)" by auto
    define p where "p = (if chunk_r rb > bytesLeft then bytesLeft else chunk_r rb)"
    note st = ReadBytes_loop_step [OF wf nz ne, folded p_def]
    note rc = read_chunk [OF wf ne st(5)]
    have d: "unat (bytesLeft - p) = unat bytesLeft - unat p" using st(3) by (intro unat_minus_u32)
    have k1: "k - unat p = min (unat (bytesLeft - p)) (length (rb_contents (rb_consumed p rb)))"
      and kp: "unat p \<le> k"
      using less.prems(2) st(3,4) rc(3) by (auto simp: d)
    have lt: "unat (bytesLeft - p) < unat bytesLeft" using d st(2,3) by linarith
    from less.hyps [OF lt rc(2) k1, of "buffer @ take (unat p) (rb_contents rb)"] obtain rb' where
      r: "GWEN_RingBuffer_ReadBytes_loop (rb_consumed p rb) (buffer @ take (unat p) (rb_contents rb)) (bytesLeft - p)
           = Ret ((buffer @ take (unat p) (rb_contents rb)) @ take (k - unat p) (drop (unat p) (rb_contents rb)),
                  bytesLeft - p - of_nat (k - unat p), rb')" "rb_wf rb'"
        "rb_contents rb' = drop (k - unat p) (drop (unat p) (rb_contents rb))"
        "rb_capacity rb' = rb_capacity rb"
      unfolding rc(3) by auto
    have "bytesLeft - p - of_nat (k - unat p) = bytesLeft - of_nat k"
      using kp by (simp add: of_nat_diff)
    moreover have "take k (rb_contents rb)
        = take (unat p) (rb_contents rb) @ take (k - unat p) (drop (unat p) (rb_contents rb))"
      using take_add [of "unat p" "k - unat p" "rb_contents rb"] kp by simp
    ultimately show ?thesis using r st(1) kp by simp
  qed
qed


section \<open>Properties\<close>

lemma new_ring:
  assumes "size_ok \<noteq> 0" and "length block = unat size_ok"
  shows "\<exists>rb. GWEN_RingBuffer_new block size_ok = Ret rb \<and> rb_wf rb \<and> rb_contents rb = []
    \<and> rb_capacity rb = unat size_ok"
  using assms
  by (simp add: GWEN_RingBuffer_new_def rb_wf_def rb_contents_def rb_capacity_def wrap_def word_gt_0)

section \<open>Sequences of calls\<close>

datatype ring_op = RingPut byte | RingGet | RingWrite "byte list" | RingRead u32 | RingUsed | RingLeft | RingReset

datatype ring_answer = RingByte int | RingWritten int u32 | RingBlock int "byte list" u32 | RingNumber u32 | RingNone

fun ring_call :: "ring_op \<Rightarrow> gwen_ringbuffer \<Rightarrow> (ring_answer \<times> gwen_ringbuffer) outcome" where
  "ring_call (RingPut c) rb = obind (GWEN_RingBuffer_WriteByte rb c) (\<lambda>(rv, rb). Ret (RingByte rv, rb))"
| "ring_call RingGet rb = obind (GWEN_RingBuffer_ReadByte rb) (\<lambda>(rv, rb). Ret (RingByte rv, rb))"
| "ring_call (RingWrite bs) rb =
     obind (GWEN_RingBuffer_WriteBytes rb bs (of_nat (length bs))) (\<lambda>(rv, n, rb). Ret (RingWritten rv n, rb))"
| "ring_call (RingRead sz) rb = obind (GWEN_RingBuffer_ReadBytes rb sz) (\<lambda>(rv, bs, n, rb). Ret (RingBlock rv bs n, rb))"
| "ring_call RingUsed rb = Ret (RingNumber (GWEN_RingBuffer_GetUsedBytes rb), rb)"
| "ring_call RingLeft rb = Ret (RingNumber (GWEN_RingBuffer_GetBytesLeft rb), rb)"
| "ring_call RingReset rb = Ret (RingNone, GWEN_RingBuffer_Reset rb)"

text \<open>A queue of at most \<open>cap\<close> bytes. Writing to a full one and reading from an empty one is refused; a block is written and
  read as far as there is space and data. Sizes are numbers of 32 bits.\<close>

fun queue_call :: "nat \<Rightarrow> ring_op \<Rightarrow> byte list \<Rightarrow> (ring_answer \<times> byte list) outcome" where
  "queue_call cap (RingPut c) q =
     Ret (if length q = cap then (RingByte (-1), q) else (RingByte 0, q @ [c]))"
| "queue_call cap RingGet q = Ret (case q of [] \<Rightarrow> (RingByte (-1), []) | c # q \<Rightarrow> (RingByte (uint c), q))"
| "queue_call cap (RingWrite bs) q =
     Ret (if length q = cap then (RingWritten (-1) (of_nat (length bs)), q)
          else (let k = min (length bs mod 4294967296) (cap - length q) in (RingWritten 0 (of_nat k), q @ take k bs)))"
| "queue_call cap (RingRead sz) q =
     Ret (if q = [] then (RingBlock (-1) [] sz, q)
          else (let k = min (unat sz) (length q) in (RingBlock 0 (take k q) (of_nat k), drop k q)))"
| "queue_call cap RingUsed q = Ret (RingNumber (of_nat (length q)), q)"
| "queue_call cap RingLeft q = Ret (RingNumber (of_nat (cap - length q)), q)"
| "queue_call cap RingReset q = Ret (RingNone, [])"

lemma WriteBytes_correct:
  fixes sz :: u32
  assumes wf: "rb_wf rb" and src: "unat sz \<le> length buffer"
  defines "k \<equiv> min (unat sz) (rb_capacity rb - length (rb_contents rb))"
  shows "if length (rb_contents rb) = rb_capacity rb
    then GWEN_RingBuffer_WriteBytes rb buffer sz = Ret (-1, sz, rb\<lparr>rb_fullCounter := rb_fullCounter rb + 1\<rparr>)
    else (\<exists>rb'. GWEN_RingBuffer_WriteBytes rb buffer sz = Ret (0, of_nat k, rb') \<and> rb_wf rb'
            \<and> rb_contents rb' = rb_contents rb @ take k buffer \<and> rb_capacity rb' = rb_capacity rb)"
proof (cases "length (rb_contents rb) = rb_capacity rb")
  case True
  then show ?thesis using rb_wf_nat(6) [OF wf] by (simp add: GWEN_RingBuffer_WriteBytes_def rb_capacity_def)
next
  case False
  then have ne: "rb_bufferSize rb - rb_bytesUsed rb \<noteq> 0" using rb_wf_nat(6) [OF wf] by (simp add: rb_capacity_def)
  from WriteBytes_loop_correct [OF wf src k_def [THEN meta_eq_to_obj_eq]] obtain rb' where
    "GWEN_RingBuffer_WriteBytes_loop rb buffer sz = Ret (sz - of_nat k, rb')" "rb_wf rb'"
    "rb_contents rb' = rb_contents rb @ take k buffer" "rb_capacity rb' = rb_capacity rb"
    by blast
  then show ?thesis using False ne by (simp add: GWEN_RingBuffer_WriteBytes_def)
qed

text \<open>\<^verbatim>\<open>GWEN_RingBuffer_ReadBytes\<close> delivers the oldest bytes, as many as asked for and present, in
  order and across the end of the block, and removes exactly these; an empty ring buffer answers -1.\<close>

lemma ring_read_bytes:
  fixes sz :: u32
  assumes wf: "rb_wf rb"
  defines "k \<equiv> min (unat sz) (length (rb_contents rb))"
  shows "if rb_contents rb = []
    then GWEN_RingBuffer_ReadBytes rb sz = Ret (-1, [], sz, rb\<lparr>rb_emptyCounter := rb_emptyCounter rb + 1\<rparr>)
    else (\<exists>rb'. GWEN_RingBuffer_ReadBytes rb sz = Ret (0, take k (rb_contents rb), of_nat k, rb') \<and> rb_wf rb'
            \<and> rb_contents rb' = drop k (rb_contents rb) \<and> rb_capacity rb' = rb_capacity rb)"
proof -
  have e: "rb_contents rb = [] \<longleftrightarrow> rb_bytesUsed rb = 0"
    using length_rb_contents [of rb] by (metis length_0_conv unat_eq_0)
  from ReadBytes_loop_correct [OF wf k_def [THEN meta_eq_to_obj_eq], of "[]"] obtain rb' where
    "GWEN_RingBuffer_ReadBytes_loop rb [] sz = Ret (take k (rb_contents rb), sz - of_nat k, rb')" "rb_wf rb'"
    "rb_contents rb' = drop k (rb_contents rb)" "rb_capacity rb' = rb_capacity rb"
    by auto
  then show ?thesis by (simp add: e GWEN_RingBuffer_ReadBytes_def Let_def)
qed

lemma ring_step:
  assumes "rb_wf rb"
  shows "\<exists>r rb' q'. ring_call c rb = Ret (r, rb') \<and> queue_call (rb_capacity rb) c (rb_contents rb) = Ret (r, q')
    \<and> rb_wf rb' \<and> rb_contents rb' = q' \<and> rb_capacity rb' = rb_capacity rb"
proof (cases c)
  case (RingPut b)
  then show ?thesis using ring.put_room [OF assms, of b] ring.put_full [OF assms, of b] rb_wf_nat(2) [OF assms]
    by (cases "length (rb_contents rb) = rb_capacity rb") (auto simp: rb_capacity_def)
next
  case RingGet
  then show ?thesis using ring.get_some [OF assms] ring.get_none [OF assms] by (cases "rb_contents rb") auto
next
  case (RingWrite bs)
  have "unat (of_nat (length bs) :: u32) = length bs mod 4294967296" by (simp add: unat_of_nat)
  then show ?thesis
    using WriteBytes_correct [OF assms, of "of_nat (length bs)" bs] assms RingWrite
    by (cases "length (rb_contents rb) = rb_capacity rb") (auto simp: Let_def simp del: unsigned_of_nat length_rb_contents)
next
  case (RingRead sz)
  then show ?thesis using ring_read_bytes [OF assms, of sz] assms
    by (cases "rb_contents rb = []") (auto simp: Let_def simp del: length_rb_contents)
next
  case RingUsed
  then show ?thesis using assms by (simp add: GWEN_RingBuffer_GetUsedBytes_def)
next
  case RingLeft
  have "rb_bufferSize rb - rb_bytesUsed rb = of_nat (rb_capacity rb - length (rb_contents rb))"
    using rb_wf_nat(2) [OF assms] by (simp add: rb_capacity_def of_nat_diff)
  then show ?thesis using assms RingLeft by (simp add: GWEN_RingBuffer_GetBytesLeft_def)
next
  case RingReset
  have "rb_wf (GWEN_RingBuffer_Reset rb)"
    using rb_wf_nat(1,5) [OF assms] by (auto simp: rb_wf_def GWEN_RingBuffer_Reset_def wrap_def word_less_nat_alt)
  then show ?thesis using RingReset by (simp add: GWEN_RingBuffer_Reset_def rb_contents_def rb_capacity_def)
qed

lemma ring_run: "rb_wf rb \<Longrightarrow> run_calls ring_call cs rb = run_calls (queue_call (rb_capacity rb)) cs (rb_contents rb)"
proof (induction cs arbitrary: rb)
  case (Cons c cs)
  obtain r rb' q' where s: "ring_call c rb = Ret (r, rb')" "queue_call (rb_capacity rb) c (rb_contents rb) = Ret (r, q')"
    "rb_wf rb'" "rb_contents rb' = q'" "rb_capacity rb' = rb_capacity rb"
    using ring_step [OF Cons.prems, of c] by blast
  from Cons.IH [OF s(3)] s show ?case by simp
qed simp

text \<open>C19. A new ring buffer is a first-in first-out queue whose capacity is its size: whatever sequence of calls is made, single
  bytes and blocks written and read in any order, each is answered as by the queue. A byte written to a full buffer and one
  read from an empty buffer are refused with -1, a block is moved as far as it fits, and no call leaves the memory or hangs.\<close>

theorem ring_fifo:
  assumes "sz \<noteq> 0" and "length block = unat sz"
  shows "\<exists>rb. GWEN_RingBuffer_new block sz = Ret rb \<and> run_calls ring_call cs rb = run_calls (queue_call (unat sz)) cs []
    \<and> (\<exists>answers. run_calls ring_call cs rb = Ret answers)"
proof -
  obtain rb where rb: "GWEN_RingBuffer_new block sz = Ret rb" "rb_wf rb" "rb_contents rb = []" "rb_capacity rb = unat sz"
    using new_ring [OF assms] by blast
  have "\<exists>answers. run_calls (queue_call cap) cs q = Ret answers" for cap q
  proof (induction cs arbitrary: q)
    case (Cons c cs)
    obtain x where "queue_call cap c q = Ret x" by (cases c) auto
    with Cons.IH [of "snd x"] show ?case by (cases x) auto
  qed simp
  then show ?thesis using ring_run [OF rb(2), of cs] rb by simp
qed

theorem ring_fifo_witness:
  "\<exists>rb. GWEN_RingBuffer_new [0, 0] 2 = Ret rb
    \<and> run_calls ring_call [RingPut 1, RingWrite [2, 3], RingPut 4, RingGet, RingRead 5, RingGet] rb
      = Ret [RingByte 0, RingWritten 0 1, RingByte (-1), RingByte 1, RingBlock 0 [2] 1, RingByte (-1)]"
proof -
  let ?cs = "[RingPut 1, RingWrite [2, 3], RingPut 4, RingGet, RingRead 5, RingGet]"
  have "run_calls (queue_call (unat (2 :: u32))) ?cs []
      = Ret [RingByte 0, RingWritten 0 1, RingByte (-1), RingByte 1, RingBlock 0 [2] 1, RingByte (-1)]" by (simp add: Let_def)
  with ring_fifo [of 2 "[0, 0]" ?cs] show ?thesis by auto
qed

text \<open>C20. \<^verbatim>\<open>GWEN_RingBuffer_WriteBytes\<close> puts as many of the bytes as there is space for behind those already
  queued, in order and across the end of the block, and reports their number; a full ring buffer is
  left alone, except that it counts the attempt, and the answer is -1. It never writes outside the
  block and always returns.\<close>

theorem ring_write_bytes:
  assumes wf: "rb_wf rb" and src: "unat sz \<le> length buffer"
  defines "k \<equiv> min (unat sz) (rb_capacity rb - length (rb_contents rb))"
  shows "if length (rb_contents rb) = rb_capacity rb
    then GWEN_RingBuffer_WriteBytes rb buffer sz = Ret (-1, sz, rb\<lparr>rb_fullCounter := rb_fullCounter rb + 1\<rparr>)
    else (\<exists>rb'. GWEN_RingBuffer_WriteBytes rb buffer sz = Ret (0, of_nat k, rb') \<and> rb_wf rb'
            \<and> rb_contents rb' = rb_contents rb @ take k buffer \<and> rb_capacity rb' = rb_capacity rb)"
  unfolding k_def by (rule WriteBytes_correct [OF wf src])

text \<open>A ring buffer whose two bytes lie across the end of its block of three.\<close>

definition ex_ring :: gwen_ringbuffer where
  "ex_ring = \<lparr>rb_ptr = [11, 12, 10], rb_bufferSize = 3, rb_readPos = 2, rb_writePos = 1, rb_bytesUsed = 2,
     rb_maxBytesUsed = 2, rb_emptyCounter = 0, rb_fullCounter = 0, rb_throughput = 2\<rparr>"

lemma ex_ring: "rb_wf ex_ring" "rb_contents ex_ring = [10, 11]" "rb_capacity ex_ring = 3"
  by (simp_all add: ex_ring_def rb_wf_def rb_contents_def rb_capacity_def wrap_def upt_rec)

theorem ring_write_bytes_witness:
  "\<exists>rb'. GWEN_RingBuffer_WriteBytes ex_ring [20, 21, 22] 3 = Ret (0, 1, rb') \<and> rb_contents rb' = [10, 11, 20]"
  using ring_write_bytes [of ex_ring 3 "[20, 21, 22]"] by (auto simp: ex_ring)

text \<open>A piece read or written in one round is what the pointers give access to.\<close>

lemma ReadBytes_chunk:
  assumes wf: "rb_wf rb" and p: "0 < unat p" "unat p \<le> unat (chunk_r rb)" and ne: "0 < unat (rb_bytesUsed rb)"
  shows "GWEN_RingBuffer_ReadBytes rb p
    = Ret (0, take (unat p) (rb_contents rb), p, (rb_consumed p rb)\<lparr>rb_throughput := rb_throughput rb + p\<rparr>)"
proof -
  have pz: "p \<noteq> 0" "rb_bytesUsed rb \<noteq> 0" using p(1) ne by auto
  have "(if chunk_r rb > p then p else chunk_r rb) = p"
    using p(2) by (auto simp: word_less_nat_alt word_unat_eq_iff)
  from ReadBytes_loop_step(1) [OF wf pz(1) ne, of "[]", unfolded this]
  have "GWEN_RingBuffer_ReadBytes_loop rb [] p = Ret (take (unat p) (rb_contents rb), 0, rb_consumed p rb)"
    by (simp add: GWEN_RingBuffer_ReadBytes_loop.simps [of "rb_consumed p rb"])
  moreover have "rb_throughput (rb_consumed p rb) = rb_throughput rb" by (simp add: rb_consumed_def Let_def)
  ultimately show ?thesis using pz by (simp add: GWEN_RingBuffer_ReadBytes_def)
qed

lemma WriteBytes_chunk:
  assumes wf: "rb_wf rb" and bs: "unat p = length bs" "0 < unat p" "unat p \<le> unat (chunk_w rb)"
    and free: "unat (rb_bytesUsed rb) < unat (rb_bufferSize rb)"
  defines "rb' \<equiv> rb_written p (rb\<lparr>rb_ptr := write_at (unat (rb_writePos rb)) bs (rb_ptr rb)\<rparr>)"
  shows "GWEN_RingBuffer_WriteBytes rb bs p
    = Ret (0, p, if rb_bytesUsed rb' > rb_maxBytesUsed rb' then rb'\<lparr>rb_maxBytesUsed := rb_bytesUsed rb'\<rparr> else rb')"
proof -
  have pz: "p \<noteq> 0" "rb_bufferSize rb - rb_bytesUsed rb \<noteq> 0" using bs(2) free rb_wf_nat(6) [OF wf] by auto
  have "(if chunk_w rb > p then p else chunk_w rb) = p"
    using bs(3) by (auto simp: word_less_nat_alt word_unat_eq_iff)
  from WriteBytes_loop_step(1) [OF wf pz(1) _ free, of bs, unfolded this] bs(1) show ?thesis
    using pz by (simp add: GWEN_RingBuffer_WriteBytes_def GWEN_RingBuffer_WriteBytes_loop.simps [of rb'] rb'_def [symmetric])
qed

text \<open>C21. Zero-copy access is the same as copying. As many bytes as \<^verbatim>\<open>GWEN_RingBuffer_GetMaxUnsegmentedRead\<close> allows, or fewer,
  taken from the read pointer and skipped with \<^verbatim>\<open>GWEN_RingBuffer_SkipBytesRead\<close>, are the bytes that
  \<^verbatim>\<open>GWEN_RingBuffer_ReadBytes\<close> copies, and leave the same ring buffer, position and counters included; where none are
  allowed, \<^verbatim>\<open>GWEN_RingBuffer_ReadBytes\<close> fails. In the same way bytes stored at the write pointer within
  \<^verbatim>\<open>GWEN_RingBuffer_GetMaxUnsegmentedWrite\<close> and skipped are those that \<^verbatim>\<open>GWEN_RingBuffer_WriteBytes\<close> writes.\<close>

theorem ring_zero_copy:
  assumes wf: "rb_wf rb"
  shows "(0 < p \<and> p \<le> fst (GWEN_RingBuffer_GetMaxUnsegmentedRead rb) \<longrightarrow>
      (\<exists>bs rb'. rb_peek rb (GWEN_RingBuffer_GetReadPointer rb) (unat p) = Ret bs
        \<and> GWEN_RingBuffer_SkipBytesRead rb p = Ret rb'
        \<and> GWEN_RingBuffer_ReadBytes rb p = Ret (0, bs, p, rb') \<and> rb_contents rb = bs @ rb_contents rb'))
    \<and> (fst (GWEN_RingBuffer_GetMaxUnsegmentedRead rb) = 0 \<longrightarrow>
        GWEN_RingBuffer_ReadBytes rb p = Ret (-1, [], p, snd (GWEN_RingBuffer_GetMaxUnsegmentedRead rb)))
    \<and> (bs \<noteq> [] \<and> length bs \<le> unat (fst (GWEN_RingBuffer_GetMaxUnsegmentedWrite rb)) \<longrightarrow>
      (\<exists>rb'. obind (rb_poke rb (GWEN_RingBuffer_GetWritePointer rb) bs)
               (\<lambda>rb. GWEN_RingBuffer_SkipBytesWrite rb (of_nat (length bs))) = Ret rb'
        \<and> GWEN_RingBuffer_WriteBytes rb bs (of_nat (length bs)) = Ret (0, of_nat (length bs), rb')
        \<and> rb_contents rb' = rb_contents rb @ bs))
    \<and> (fst (GWEN_RingBuffer_GetMaxUnsegmentedWrite rb) = 0 \<longrightarrow>
        GWEN_RingBuffer_WriteBytes rb bs p = Ret (-1, p, snd (GWEN_RingBuffer_GetMaxUnsegmentedWrite rb)))"
proof (intro conjI impI)
  assume p: "0 < p \<and> p \<le> fst (GWEN_RingBuffer_GetMaxUnsegmentedRead rb)"
  then have ne: "0 < unat (rb_bytesUsed rb)" and le: "unat p \<le> unat (chunk_r rb)" and pz: "0 < unat p"
    by (auto simp: GWEN_RingBuffer_GetMaxUnsegmentedRead_def chunk_r_def word_le_nat_alt unat_gt_0
        unat_eq_0 word_gt_0 split: if_splits)
  have "\<not> rb_bytesUsed rb < p"
    using le chunk_r_arith(2) [OF wf wf wf ne wf] by (simp add: word_less_nat_alt)
  then show "\<exists>bs rb'. rb_peek rb (GWEN_RingBuffer_GetReadPointer rb) (unat p) = Ret bs
        \<and> GWEN_RingBuffer_SkipBytesRead rb p = Ret rb'
        \<and> GWEN_RingBuffer_ReadBytes rb p = Ret (0, bs, p, rb') \<and> rb_contents rb = bs @ rb_contents rb'"
    using read_chunk [OF wf ne le] ReadBytes_chunk [OF wf pz le ne]
    by (simp add: GWEN_RingBuffer_SkipBytesRead_def GWEN_RingBuffer_GetReadPointer_def Let_def rb_consumed_def)
next
  assume "fst (GWEN_RingBuffer_GetMaxUnsegmentedRead rb) = 0"
  then have "rb_bytesUsed rb = 0"
    using chunk_r_arith(1) [OF wf wf wf _ wf]
    by (auto simp: GWEN_RingBuffer_GetMaxUnsegmentedRead_def chunk_r_def [symmetric] unat_gt_0 split: if_splits)
  then show "GWEN_RingBuffer_ReadBytes rb p = Ret (-1, [], p, snd (GWEN_RingBuffer_GetMaxUnsegmentedRead rb))"
    by (simp add: GWEN_RingBuffer_ReadBytes_def GWEN_RingBuffer_GetMaxUnsegmentedRead_def)
next
  assume "bs \<noteq> [] \<and> length bs \<le> unat (fst (GWEN_RingBuffer_GetMaxUnsegmentedWrite rb))"
  then have nf: "rb_bufferSize rb - rb_bytesUsed rb \<noteq> 0" and le: "length bs \<le> unat (chunk_w rb)" and nz: "0 < length bs"
    by (auto simp: GWEN_RingBuffer_GetMaxUnsegmentedWrite_def chunk_w_def split: if_splits)
  then have free: "unat (rb_bytesUsed rb) < unat (rb_bufferSize rb)"
    using rb_wf_nat(2,6) [OF wf] by linarith
  let ?n = "of_nat (length bs) :: u32"
  have u: "unat ?n = length bs"
    using le unat_u32_bound [of "chunk_w rb"] by (intro unat_of_nat_u32) linarith
  have len: "length bs = unat ?n" "unat ?n \<le> unat (chunk_w rb)" "0 < unat ?n" using u le nz by simp_all
  note w = write_chunk [OF wf free len(1,2)] and wb = WriteBytes_chunk [OF wf u len(3,2) free]
  have "\<not> rb_bufferSize rb - rb_bytesUsed rb < ?n"
    using le chunk_w_arith(2) [OF wf free wf wf] u by (simp add: word_less_nat_alt unat_minus_u32)
  then show "\<exists>rb'. obind (rb_poke rb (GWEN_RingBuffer_GetWritePointer rb) bs)
               (\<lambda>rb. GWEN_RingBuffer_SkipBytesWrite rb ?n) = Ret rb'
        \<and> GWEN_RingBuffer_WriteBytes rb bs ?n = Ret (0, ?n, rb') \<and> rb_contents rb' = rb_contents rb @ bs"
    using w(1,2,3) wb
    by (simp add: GWEN_RingBuffer_SkipBytesWrite_def GWEN_RingBuffer_GetWritePointer_def Let_def rb_written_def)
next
  assume "fst (GWEN_RingBuffer_GetMaxUnsegmentedWrite rb) = 0"
  then have "rb_bufferSize rb - rb_bytesUsed rb = 0"
    using chunk_w_arith(1) [OF wf _ wf wf] rb_wf_nat(2,6) [OF wf]
    by (auto simp: GWEN_RingBuffer_GetMaxUnsegmentedWrite_def chunk_w_def [symmetric] unat_gt_0 split: if_splits)
  then show "GWEN_RingBuffer_WriteBytes rb bs p = Ret (-1, p, snd (GWEN_RingBuffer_GetMaxUnsegmentedWrite rb))"
    by (simp add: GWEN_RingBuffer_WriteBytes_def GWEN_RingBuffer_GetMaxUnsegmentedWrite_def)
qed

theorem ring_zero_copy_witness:
  "fst (GWEN_RingBuffer_GetMaxUnsegmentedRead ex_ring) = 1 \<and>
   (\<exists>rb'. GWEN_RingBuffer_SkipBytesRead ex_ring 1 = Ret rb' \<and> GWEN_RingBuffer_ReadBytes ex_ring 1 = Ret (0, [10], 1, rb')
      \<and> rb_contents rb' = [11])"
proof -
  have "fst (GWEN_RingBuffer_GetMaxUnsegmentedRead ex_ring) = 1" "rb_peek ex_ring (GWEN_RingBuffer_GetReadPointer ex_ring) 1 = Ret [10]"
    by (simp_all add: ex_ring_def GWEN_RingBuffer_GetMaxUnsegmentedRead_def GWEN_RingBuffer_GetReadPointer_def rb_peek_def window_def)
  with ring_zero_copy [OF ex_ring(1), of 1 "[]"] show ?thesis by (auto simp: ex_ring)
qed

text \<open>
  The guard of \<^verbatim>\<open>GWEN_RingBuffer_SkipBytesRead\<close> admits every number of bytes in use, also those beyond
  the end of the block, but the position then restarts at 0: the queue loses its alignment.
\<close>

theorem ring_skip_misaligned:
  "\<exists>rb'. GWEN_RingBuffer_SkipBytesRead ex_ring 2 = Ret rb' \<and> rb_readPos rb' \<noteq> rb_writePos rb'
     \<and> rb_bytesUsed rb' = 0 \<and> \<not> rb_wf rb'"
  by (simp add: ex_ring_def GWEN_RingBuffer_SkipBytesRead_def Let_def rb_wf_def wrap_def)

end
