(* ===== verification/Gwen_Base64.thy ===== *)
theory Gwen_Base64
  imports Gwen_Buffer
begin

text \<open>
  Base64 encoding and decoding, \<^verbatim>\<open>src/parser/base64.c\<close>, on top of the buffer. The source pointer is the
  list of bytes from it to the end of its memory, so that reading behind that is \<open>Fault\<close>; the
  destination is a \<open>gwen_buffer\<close> and every \<^verbatim>\<open>GWEN_Buffer_AppendByte\<close> is the buffer's own operation,
  with its result ignored as the code does. The main result is the round trip: decoding what was
  encoded, with or without line breaks and with or without a given size, restores the data.
\<close>

section \<open>Encoding\<close>

definition GWEN_Base64_Alphabet :: "byte list" where
  "GWEN_Base64_Alphabet = str ''ABCDEFGHIJKLMNOPQRSTUVWXYZabcdefghijklmnopqrstuvwxyz0123456789+/=''"

definition b64_char :: "u32 \<Rightarrow> byte" where
  "b64_char c = GWEN_Base64_Alphabet ! unat c"

fun GWEN_Base64_Encode_triplets ::
  "u32 \<Rightarrow> nat \<Rightarrow> u32 \<Rightarrow> byte list \<Rightarrow> gwen_buffer \<Rightarrow> (u32 \<times> byte list \<times> gwen_buffer) outcome" where
  "GWEN_Base64_Encode_triplets maxLineLength 0 l src dst = Ret (l, src, dst)"
| "GWEN_Base64_Encode_triplets maxLineLength (Suc by3) l (s0 # s1 # s2 # src) dst =
    (let triplet = (push_bit 16 (ucast s0) + push_bit 8 (ucast s1) + ucast s2 :: u32);
         c4 = triplet AND 0x3f; triplet = drop_bit 6 triplet;
         c3 = triplet AND 0x3f; triplet = drop_bit 6 triplet;
         c2 = triplet AND 0x3f; triplet = drop_bit 6 triplet;
         c1 = triplet AND 0x3f;
         brk = (maxLineLength \<noteq> 0 \<and> l + 4 > maxLineLength);
         l = (if maxLineLength \<noteq> 0 then (if brk then 0 else l) + 4 else l)
     in obind (appends GWEN_Buffer_AppendByte dst
                 ((if brk then [10] else []) @ [b64_char c1, b64_char c2, b64_char c3, b64_char c4])) (\<lambda>dst.
          GWEN_Base64_Encode_triplets maxLineLength by3 l src dst))"
| "GWEN_Base64_Encode_triplets maxLineLength (Suc by3) l src dst = Fault"

text \<open>The part behind the loop, with \<open>r\<close> bytes left over.\<close>

definition GWEN_Base64_Encode_rest ::
  "u32 \<Rightarrow> u32 \<Rightarrow> u32 \<Rightarrow> byte list \<Rightarrow> gwen_buffer \<Rightarrow> (int \<times> gwen_buffer) outcome" where
  "GWEN_Base64_Encode_rest maxLineLength r l src dst =
     obind (appends GWEN_Buffer_AppendByte dst
              (if maxLineLength \<noteq> 0 \<and> l + 4 \<ge> maxLineLength then [10] else [])) (\<lambda>dst.
       if r = 1 then
         (case src of
            [] \<Rightarrow> Fault
          | s0 # _ \<Rightarrow>
            (let triplet = (push_bit 4 (ucast s0) :: u32);
                 c2 = triplet AND 0x3f; triplet = drop_bit 6 triplet;
                 c1 = triplet AND 0x3f
             in obind (appends GWEN_Buffer_AppendByte dst [b64_char c1, b64_char c2]) (\<lambda>dst.
                obind (GWEN_Buffer_AppendString dst (str ''=='' @ [0])) (\<lambda>(_, dst). Ret (0, dst)))))
       else if r = 2 then
         (case src of
            s0 # s1 # _ \<Rightarrow>
            (let triplet = (push_bit 10 (ucast s0) + push_bit 2 (ucast s1) :: u32);
                 c3 = triplet AND 0x3f; triplet = drop_bit 6 triplet;
                 c2 = triplet AND 0x3f; triplet = drop_bit 6 triplet;
                 c1 = triplet AND 0x3f
             in obind (appends GWEN_Buffer_AppendByte dst [b64_char c1, b64_char c2, b64_char c3, 61])
                  (\<lambda>dst. Ret (0, dst)))
          | _ \<Rightarrow> Fault)
       else Ret (0, dst))"

definition GWEN_Base64_Encode ::
  "byte list \<Rightarrow> u32 \<Rightarrow> gwen_buffer \<Rightarrow> u32 \<Rightarrow> (int \<times> gwen_buffer) outcome" where
  "GWEN_Base64_Encode src sz dst maxLineLength =
    (if maxLineLength \<noteq> 0 \<and> maxLineLength < 4 then Ret (-1, dst)
     else obind (GWEN_Base64_Encode_triplets maxLineLength (unat (sz div 3)) 0 src dst)
       (\<lambda>(l, src, dst). GWEN_Base64_Encode_rest maxLineLength (sz mod 3) l src dst))"

section \<open>Decoding\<close>

text \<open>The loops that look for the next character of the alphabet, with its index, and for the next
  equal sign. At the final \<open>NUL\<close> the index is of no further use.\<close>

primrec b64_skip :: "nat \<Rightarrow> byte list \<Rightarrow> (nat \<times> byte list) outcome" where
  "b64_skip p [] = Fault"
| "b64_skip p (c # cs) =
    (if c = 0 then Ret (p, c # cs)
     else case strchr GWEN_Base64_Alphabet c of None \<Rightarrow> b64_skip p cs | Some i \<Rightarrow> Ret (i, c # cs))"

primrec b64_skip_eq :: "byte list \<Rightarrow> byte list outcome" where
  "b64_skip_eq [] = Fault"
| "b64_skip_eq (c # cs) = (if c = 0 \<or> c = 61 then Ret (c # cs) else b64_skip_eq cs)"

text \<open>The loop over the four characters of a group: \<open>n\<close> of them are still to come. \<open>Inl\<close> is a return
  from the function.\<close>

primrec b64_quad ::
  "bool \<Rightarrow> nat \<Rightarrow> u32 \<Rightarrow> nat \<Rightarrow> nat \<Rightarrow> byte list \<Rightarrow> (int + (u32 \<times> nat \<times> nat \<times> byte list)) outcome" where
  "b64_quad sizeGiven 0 v lastWasEq p src = Ret (Inr (v, lastWasEq, p, src))"
| "b64_quad sizeGiven (Suc n) v lastWasEq p src =
    obind (if lastWasEq \<noteq> 0 then obind (b64_skip_eq src) (\<lambda>src. Ret (p, src)) else b64_skip p src) (\<lambda>(p, src).
      case src of
        [] \<Rightarrow> Fault
      | c # rest \<Rightarrow>
          if c = 0 then Ret (Inl (if n = 3 \<and> \<not> sizeGiven then 0 else -1))
          else b64_quad sizeGiven n (push_bit 6 v + (of_nat p AND 0x3f))
                 (if c = 61 then lastWasEq + 1 else lastWasEq) p rest)"

lemma b64_skip_length: "b64_skip p src = Ret (q, src') \<Longrightarrow> length src' \<le> length src"
  by (induction src arbitrary: p) (auto split: if_splits option.splits dest: le_SucI)

lemma b64_skip_eq_length: "b64_skip_eq src = Ret src' \<Longrightarrow> length src' \<le> length src"
  by (induction src) (auto split: if_splits dest: le_SucI)

lemma b64_quad_length:
  "b64_quad g n v e p src = Ret (Inr (v', e', p', src')) \<Longrightarrow> length src' + n \<le> length src"
proof (induction n arbitrary: v e p src)
  case (Suc n)
  let ?skip = "if e \<noteq> 0 then obind (b64_skip_eq src) (\<lambda>src. Ret (p, src)) else b64_skip p src"
  from Suc.prems obtain q src1 where skip: "?skip = Ret (q, src1)"
    and rest: "(case src1 of [] \<Rightarrow> Fault
      | c # rest \<Rightarrow> if c = 0 then Ret (Inl (if n = 3 \<and> \<not> g then 0 else -1))
          else b64_quad g n (push_bit 6 v + (of_nat q AND 0x3f)) (if c = 61 then e + 1 else e) q rest)
        = Ret (Inr (v', e', p', src'))"
    unfolding b64_quad.simps obind_Ret_iff by auto
  have le: "length src1 \<le> length src"
    using skip by (auto simp: outcome_simps split: if_splits dest: b64_skip_length b64_skip_eq_length)
  from rest obtain c cs where "src1 = c # cs"
    "b64_quad g n (push_bit 6 v + (of_nat q AND 0x3f)) (if c = 61 then e + 1 else e) q cs
       = Ret (Inr (v', e', p', src'))"
    by (auto split: list.splits if_splits)
  with Suc.IH le show ?case by fastforce
qed simp

definition b64_flush :: "bool \<Rightarrow> u32 \<Rightarrow> u32 \<Rightarrow> nat \<Rightarrow> byte list \<times> u32" where
  "b64_flush sizeGiven sz v lastWasEq =
    (let o1 = ucast (drop_bit 16 v AND 0xff); o2 = ucast (drop_bit 8 v AND 0xff); o3 = ucast (v AND 0xff)
     in if sizeGiven then
          (if sz = 1 then ([o1], sz - 1)
           else if sz = 2 then ([o1, o2], sz - 2)
           else ([o1, o2, o3], sz - 3))
        else
          (let bytes = (24 - int lastWasEq * 6) div 8
           in (if bytes \<noteq> 0 then o1 # (if bytes > 1 then o2 # (if bytes > 2 then [o3] else []) else []) else [], sz)))"

function GWEN_Base64_Decode_loop ::
  "bool \<Rightarrow> byte list \<Rightarrow> u32 \<Rightarrow> nat \<Rightarrow> nat \<Rightarrow> gwen_buffer \<Rightarrow> (int \<times> gwen_buffer) outcome" where
  "GWEN_Base64_Decode_loop sizeGiven src sz lastWasEq p dst =
    (if sizeGiven \<and> sz = 0 \<or> lastWasEq \<noteq> 0 then Ret (0, dst)
     else case src of
       [] \<Rightarrow> Fault
     | c # _ \<Rightarrow>
       if c = 0 then Ret (0, dst)
       else obind (b64_skip p src) (\<lambda>(p, src1).
         case src1 of
           [] \<Rightarrow> Fault
         | c # _ \<Rightarrow>
           if c = 0 then Ret (0, dst)
           else obind (b64_quad sizeGiven 4 0 lastWasEq p src1) (\<lambda>r.
             case r of
               Inl rv \<Rightarrow> Ret (rv, dst)
             | Inr (v, lastWasEq, p, src2) \<Rightarrow>
                 (let (out, sz) = b64_flush sizeGiven sz v lastWasEq
                  in obind (appends GWEN_Buffer_AppendByte dst out) (\<lambda>dst.
                       GWEN_Base64_Decode_loop sizeGiven src2 sz lastWasEq p dst)))))"
  by pat_completeness auto
termination
  by (relation "measure (\<lambda>(g, src, sz, e, p, dst). length src)")
     (auto dest!: b64_skip_length b64_quad_length simp del: b64_skip.simps)

declare GWEN_Base64_Decode_loop.simps [simp del]

definition GWEN_Base64_Decode :: "byte list \<Rightarrow> u32 \<Rightarrow> gwen_buffer \<Rightarrow> (int \<times> gwen_buffer) outcome" where
  "GWEN_Base64_Decode src sz dst = GWEN_Base64_Decode_loop (sz \<noteq> 0) src sz 0 0 dst"

section \<open>Sextets\<close>

definition triplet :: "byte \<Rightarrow> byte \<Rightarrow> byte \<Rightarrow> u32" where
  "triplet a b c = push_bit 16 (ucast a) + push_bit 8 (ucast b) + ucast c"

lemma unat_triplet: "unat (triplet a b c) = unat a * 65536 + unat b * 256 + unat c"
proof -
  note lt = unat_byte [of a] unat_byte [of b] unat_byte [of c]
  have "unat (push_bit 16 (ucast a :: u32)) = unat a * 65536" "unat (push_bit 8 (ucast b :: u32)) = unat b * 256"
    using lt unat_push_bit_u32 [of "ucast a" 16] unat_push_bit_u32 [of "ucast b" 8] by auto
  then show ?thesis using lt by (simp add: triplet_def unat_plus_u32)
qed

lemma sextets:
  assumes "unat (t :: u32) < 16777216"
  shows "push_bit 6 (push_bit 6 (push_bit 6 (take_bit 6 (drop_bit 18 t)) + take_bit 6 (drop_bit 12 t))
      + take_bit 6 (drop_bit 6 t)) + take_bit 6 t = t"
proof -
  have top: "take_bit 6 (drop_bit 18 t) = drop_bit 18 t"
    using assms by (simp add: word_unat_eq_iff unat_take_bit_u32 unat_drop_bit_u32)
  have join: "push_bit 6 (drop_bit (k + 6) t) + take_bit 6 (drop_bit k t) = drop_bit k t" for k
    using bits_ident [of 6 "drop_bit k t"] by (simp add: add.commute)
  show ?thesis using join [of 12] join [of 6] join [of 0] by (simp add: top)
qed

lemma triplet_bytes:
  "ucast (take_bit 8 (drop_bit 16 (triplet a b c))) = a"
  "ucast (take_bit 8 (drop_bit 8 (triplet a b c))) = b"
  "ucast (take_bit 8 (triplet a b c)) = c"
proof -
  have m: "(x * 65536 + y * 256 + z) div 65536 mod 256 = x" "(x * 65536 + y * 256 + z) div 256 mod 256 = y"
    "(x * 65536 + y * 256 + z) mod 256 = z"
    if "x < 256" "y < 256" "z < 256" for x y z :: nat
  proof -
    have e: "x * 65536 + y * 256 + z = z + 256 * (y + 256 * x)" by simp
    have d: "(z + 256 * (y + 256 * x)) div 256 = y + 256 * x" using that by simp
    show "(x * 65536 + y * 256 + z) div 256 mod 256 = y" using that by (simp only: e d) simp
    show "(x * 65536 + y * 256 + z) mod 256 = z" using that(3) by (simp only: e mod_mult_self2 mod_less)
    have "(z + 256 * (y + 256 * x)) div 65536 = (z + 256 * (y + 256 * x)) div 256 div 256"
      by (simp add: div_mult2_eq [symmetric])
    also have "\<dots> = x" using that by (simp add: d)
    finally show "(x * 65536 + y * 256 + z) div 65536 mod 256 = x" using that by (simp only: e mod_less)
  qed
  note m = m [OF unat_byte [of a] unat_byte [of b] unat_byte [of c]]
  show "ucast (take_bit 8 (drop_bit 16 (triplet a b c))) = a"
    "ucast (take_bit 8 (drop_bit 8 (triplet a b c))) = b" "ucast (take_bit 8 (triplet a b c)) = c"
    using m by (auto intro!: ucast_byte_eqI simp: unat_take_bit_u32 unat_drop_bit_u32 unat_triplet)
qed

lemma alphabet_props:
  "distinct GWEN_Base64_Alphabet" "0 \<notin> set GWEN_Base64_Alphabet" "10 \<notin> set GWEN_Base64_Alphabet"
  "length GWEN_Base64_Alphabet = 65" "GWEN_Base64_Alphabet ! 64 = 61"
  by (simp_all add: GWEN_Base64_Alphabet_def str_def)

lemma b64_chars:
  assumes "i < 64"
  shows "strchr GWEN_Base64_Alphabet (GWEN_Base64_Alphabet ! i) = Some i"
    "GWEN_Base64_Alphabet ! i \<noteq> 0" "GWEN_Base64_Alphabet ! i \<noteq> 61" "strchr GWEN_Base64_Alphabet 61 = Some 64"
proof -
  note p = alphabet_props
  show "strchr GWEN_Base64_Alphabet (GWEN_Base64_Alphabet ! i) = Some i"
    using strchr_nth [OF p(1,2), of i] p(4) assms by simp
  have "GWEN_Base64_Alphabet ! i \<in> set GWEN_Base64_Alphabet" using assms p(4) by (intro nth_mem) simp
  with p(2) show "GWEN_Base64_Alphabet ! i \<noteq> 0" by metis
  show "strchr GWEN_Base64_Alphabet 61 = Some 64" using strchr_nth [OF p(1,2), of 64] p(4,5) by simp
  show "GWEN_Base64_Alphabet ! i \<noteq> 61"
    using p(5) nth_eq_iff_index_eq [OF p(1), of i 64] p(4) assms by auto
qed


section \<open>The encoded text\<close>

definition b64_q :: "u32 \<Rightarrow> byte list" where
  "b64_q t = [b64_char (drop_bit 18 t AND 0x3f), b64_char (drop_bit 12 t AND 0x3f),
     b64_char (drop_bit 6 t AND 0x3f), b64_char (t AND 0x3f)]"

text \<open>The last group: one or two bytes and equal signs. It is a full group with its tail replaced.\<close>

definition b64_tail :: "byte list \<Rightarrow> byte list" where
  "b64_tail src = (case src of
     [a] \<Rightarrow> take 2 (b64_q (triplet a 0 0)) @ [61, 61]
   | [a, b] \<Rightarrow> take 3 (b64_q (triplet a b 0)) @ [61]
   | _ \<Rightarrow> [])"

fun b64_text :: "u32 \<Rightarrow> u32 \<Rightarrow> byte list \<Rightarrow> byte list" where
  "b64_text m l (a # b # c # src) =
     (let brk = (m \<noteq> 0 \<and> l + 4 > m)
      in (if brk then [10] else []) @ b64_q (triplet a b c)
           @ b64_text m (if m \<noteq> 0 then (if brk then 0 else l) + 4 else l) src)"
| "b64_text m l src = (if m \<noteq> 0 \<and> l + 4 \<ge> m then [10] else []) @ b64_tail src"

lemma tail_sextets:
  "drop_bit 6 (push_bit 4 (ucast a)) AND 0x3f = drop_bit 18 (triplet a 0 0) AND 0x3f"
  "push_bit 4 (ucast a) AND 0x3f = drop_bit 12 (triplet a 0 0) AND 0x3f"
  "drop_bit 12 (push_bit 10 (ucast a) + push_bit 2 (ucast b)) AND 0x3f = drop_bit 18 (triplet a b 0) AND 0x3f"
  "drop_bit 6 (push_bit 10 (ucast a) + push_bit 2 (ucast b)) AND 0x3f = drop_bit 12 (triplet a b 0) AND 0x3f"
  "(push_bit 10 (ucast a) + push_bit 2 (ucast b)) AND 0x3f = drop_bit 6 (triplet a b 0) AND 0x3f"
proof -
  have p1: "push_bit 4 (ucast a :: u32) = drop_bit 12 (triplet a 0 0)"
    unfolding word_unat_eq_iff unat_drop_bit_u32 unat_triplet
    using unat_byte [of a] unat_push_bit_u32 [of "ucast a" 4] by simp
  have u: "unat (push_bit 10 (ucast a :: u32)) = unat a * 1024" "unat (push_bit 2 (ucast b :: u32)) = unat b * 4"
    using unat_byte [of a] unat_byte [of b] unat_push_bit_u32 [of "ucast a" 10] unat_push_bit_u32 [of "ucast b" 2]
    by auto
  have "unat (push_bit 10 (ucast a :: u32) + push_bit 2 (ucast b)) = unat a * 1024 + unat b * 4"
    using u unat_byte [of a] unat_byte [of b] by (simp add: unat_plus_u32)
  then have p2: "push_bit 10 (ucast a :: u32) + push_bit 2 (ucast b) = drop_bit 6 (triplet a b 0)"
    unfolding word_unat_eq_iff unat_drop_bit_u32 unat_triplet by simp
  show "drop_bit 6 (push_bit 4 (ucast a)) AND 0x3f = drop_bit 18 (triplet a 0 0) AND 0x3f"
    "push_bit 4 (ucast a) AND 0x3f = drop_bit 12 (triplet a 0 0) AND 0x3f"
    by (simp_all add: p1)
  show "drop_bit 12 (push_bit 10 (ucast a) + push_bit 2 (ucast b)) AND 0x3f = drop_bit 18 (triplet a b 0) AND 0x3f"
    "drop_bit 6 (push_bit 10 (ucast a) + push_bit 2 (ucast b)) AND 0x3f = drop_bit 12 (triplet a b 0) AND 0x3f"
    "(push_bit 10 (ucast a) + push_bit 2 (ucast b)) AND 0x3f = drop_bit 6 (triplet a b 0) AND 0x3f"
    by (simp_all add: p2)
qed


section \<open>What the encoder writes\<close>

lemma AppendString_eqs:
  assumes "room dst (2 + n)"
  shows "\<exists>dst'. GWEN_Buffer_AppendString dst (str ''=='' @ [0]) = Ret (0, dst')
     \<and> contents dst' = contents dst @ [61, 61] \<and> room dst' n"
proof -
  have s: "str ''=='' @ [0] = [61, 61, 0]" by (simp add: str_def)
  have "strlen [61, 61, 0] = 2" by (simp add: strlen_def)
  with buf.appN [of dst 2 n "[61, 61, 0]"] assms show ?thesis
    by (simp add: GWEN_Buffer_AppendString_def s)
qed

lemma Encode_rest_correct:
  assumes r: "length src < 3" and room: "room dst (length (b64_text m l src) + n)"
  shows "\<exists>dst'. GWEN_Base64_Encode_rest m (of_nat (length src)) l src dst = Ret (0, dst')
     \<and> contents dst' = contents dst @ b64_text m l src \<and> room dst' n"
proof -
  let ?nl = "if m \<noteq> 0 \<and> l + 4 \<ge> m then [10] else [] :: byte list"
  have txt_eq: "b64_text m l src = ?nl @ b64_tail src"
    using r by (cases src; cases "tl src"; cases "tl (tl src)") auto
  have "room dst (length ?nl + (length (b64_tail src) + n))" using room by (simp add: txt_eq add.assoc)
  from buf.appends_law [OF this] obtain d where
    d: "appends GWEN_Buffer_AppendByte dst ?nl = Ret d" "contents d = contents dst @ ?nl"
      "room d (length (b64_tail src) + n)"
    by blast
  consider (zero) "src = []" | (one) a where "src = [a]" | (two) a b where "src = [a, b]"
    using r by (cases src; cases "tl src"; cases "tl (tl src)") auto
  then show ?thesis
  proof cases
    case zero
    then show ?thesis using d by (simp add: GWEN_Base64_Encode_rest_def txt_eq b64_tail_def)
  next
    case one
    let ?cs = "take 2 (b64_q (triplet a 0 0))"
    have "room d (length ?cs + (2 + n))" using d(3) one by (simp add: b64_tail_def b64_q_def)
    from buf.appends_law [OF this] obtain d1 where
      d1: "appends GWEN_Buffer_AppendByte d ?cs = Ret d1" "contents d1 = contents d @ ?cs" "room d1 (2 + n)"
      by blast
    from AppendString_eqs [OF d1(3)] d1 d(1,2) one show ?thesis
      unfolding GWEN_Base64_Encode_rest_def txt_eq
      by (auto simp: b64_tail_def b64_q_def tail_sextets Let_def)
  next
    case two
    let ?cs = "take 3 (b64_q (triplet a b 0)) @ [61]"
    have "room d (length ?cs + n)" using d(3) two by (simp add: b64_tail_def b64_q_def)
    from buf.appends_law [OF this] d(1,2) two show ?thesis
      unfolding GWEN_Base64_Encode_rest_def txt_eq
      by (auto simp: b64_tail_def b64_q_def tail_sextets Let_def)
  qed
qed

lemma Encode_short:
  assumes "length src < 3" and "room dst (length (b64_text m l src) + n)"
  shows "\<exists>dst'. obind (GWEN_Base64_Encode_triplets m (length src div 3) l src dst)
       (\<lambda>(l, src', dst). GWEN_Base64_Encode_rest m (of_nat (length src mod 3)) l src' dst) = Ret (0, dst')
     \<and> contents dst' = contents dst @ b64_text m l src \<and> room dst' n"
  using Encode_rest_correct [OF assms] assms(1) by simp

lemma Encode_triplets_correct:
  "room dst (length (b64_text m l src) + n) \<Longrightarrow>
   \<exists>dst'. obind (GWEN_Base64_Encode_triplets m (length src div 3) l src dst)
       (\<lambda>(l, src', dst). GWEN_Base64_Encode_rest m (of_nat (length src mod 3)) l src' dst) = Ret (0, dst')
     \<and> contents dst' = contents dst @ b64_text m l src \<and> room dst' n"
proof (induction m l src arbitrary: dst rule: b64_text.induct)
  case (1 m l a b c src)
  define brk where "brk = (m \<noteq> 0 \<and> l + 4 > m)"
  define l' where "l' = (if m \<noteq> 0 then (if brk then 0 else l) + 4 else l)"
  let ?cs = "(if brk then [10] else []) @ b64_q (triplet a b c)"
  have txt_eq: "b64_text m l (a # b # c # src) = ?cs @ b64_text m l' src"
    by (simp add: brk_def l'_def Let_def)
  have "room dst (length ?cs + (length (b64_text m l' src) + n))" using 1(2) [unfolded txt_eq] by (simp add: add.assoc)
  from buf.appends_law [OF this] obtain d where
    d: "appends GWEN_Buffer_AppendByte dst ?cs = Ret d" "contents d = contents dst @ ?cs"
      "room d (length (b64_text m l' src) + n)"
    by blast
  have len: "length (a # b # c # src) div 3 = Suc (length src div 3)" by simp
  have step: "GWEN_Base64_Encode_triplets m (length (a # b # c # src) div 3) l (a # b # c # src) dst
      = GWEN_Base64_Encode_triplets m (length src div 3) l' src d"
    using d(1) unfolding len by (simp add: triplet_def [symmetric] Let_def b64_q_def brk_def l'_def)
  have md: "length (a # b # c # src) mod 3 = length src mod 3" by simp
  from 1(1) [OF brk_def, folded l'_def, OF d(3)] d(2) show ?case
    unfolding step txt_eq md by auto
qed (rule Encode_short; simp)+

lemma Encode_correct:
  assumes "m = 0 \<or> 4 \<le> m" and "length src < 4294967296" and "room dst (length (b64_text m 0 src) + n)"
  shows "\<exists>dst'. GWEN_Base64_Encode src (of_nat (length src)) dst m = Ret (0, dst')
     \<and> contents dst' = contents dst @ b64_text m 0 src \<and> room dst' n"
proof -
  have u: "unat (of_nat (length src) :: u32) = length src" using assms(2) by (rule unat_of_nat_u32)
  have "unat ((of_nat (length src) :: u32) div 3) = length src div 3"
    "(of_nat (length src) :: u32) mod 3 = of_nat (length src mod 3)"
    using u unat_of_nat_u32 [of "length src mod 3"] by (simp_all add: unat_div word_unat_eq_iff unat_mod)
  moreover have "\<not> (m \<noteq> 0 \<and> m < 4)" using assms(1) by auto
  ultimately show ?thesis using Encode_triplets_correct [OF assms(3)] by (simp add: GWEN_Base64_Encode_def)
qed


section \<open>What the decoder reads\<close>

lemma b64_sextet_lt: "unat (w AND 0x3f :: u32) < 64"
  by (simp add: and_mask_u32 unat_take_bit_u32)

lemma b64_char_props:
  "strchr GWEN_Base64_Alphabet (b64_char (w AND 0x3f)) = Some (unat (w AND 0x3f))"
  "b64_char (w AND 0x3f) \<noteq> 0" "b64_char (w AND 0x3f) \<noteq> 61"
  using b64_chars [OF b64_sextet_lt] by (simp_all add: b64_char_def)

lemma b64_skip_newline: "b64_skip p (10 # cs) = b64_skip p cs"
  using strchr_None [OF alphabet_props(3)] by simp

lemma b64_quad_char:
  "b64_quad g (Suc n) v 0 p (b64_char (w AND 0x3f) # rest)
     = b64_quad g n (push_bit 6 v + (w AND 0x3f)) 0 (unat (w AND 0x3f)) rest"
  by (simp add: b64_char_props and.assoc)

lemma b64_quad_eq:
  "b64_quad g (Suc n) v 0 p (61 # rest) = b64_quad g n (push_bit 6 v) (Suc 0) 64 rest"
  "b64_quad g (Suc n) v (Suc e) 64 (61 # rest) = b64_quad g n (push_bit 6 v) (Suc (Suc e)) 64 rest"
  using b64_chars(4) [of 0] by simp_all

lemmas b64_quad_steps = b64_quad_char b64_quad_eq b64_quad.simps(1)

lemma four: "4 = Suc (Suc (Suc (Suc 0)))" by simp

lemma b64_quad_full:
  assumes "unat t < 16777216"
  shows "\<exists>q. b64_quad g 4 0 0 p (b64_q t @ rest) = Ret (Inr (t, 0, q, rest))"
  using sextets [OF assms, folded and_mask_u32]
  by (simp only: four b64_q_def b64_quad_steps append_Cons append_Nil push_bit_of_0 add_0) blast

text \<open>The short groups: the missing sextets are zero, so \<open>v\<close> is the full group's value.\<close>

lemma b64_quad_one:
  "\<exists>q. b64_quad g 4 0 0 p (b64_tail [a] @ rest) = Ret (Inr (triplet a 0 0, Suc (Suc 0), q, rest))"
proof -
  let ?t = "triplet a 0 0"
  have lt: "unat ?t < 16777216" using unat_byte [of a] by (simp add: unat_triplet)
  have e: "unat a * 65536 = unat a * 16 * 64 * 64" by simp
  have "unat a * 65536 div 64 mod 64 = 0" "unat a * 65536 mod 64 = 0"
    by (simp_all only: e mod_mult_self2_is_0 nonzero_mult_div_cancel_right zero_neq_numeral [symmetric] not_False_eq_True)
  then have z: "?t AND 0x3f = 0" "drop_bit 6 ?t AND 0x3f = 0"
    unfolding and_mask_u32 word_unat_eq_iff unat_take_bit_u32 unat_drop_bit_u32 unat_triplet by simp_all
  have tail: "b64_tail [a] = [b64_char (drop_bit 18 ?t AND 0x3f), b64_char (drop_bit 12 ?t AND 0x3f), 61, 61]"
    by (simp add: b64_tail_def b64_q_def)
  show ?thesis
    using sextets [OF lt, folded and_mask_u32, unfolded z]
    by (simp only: four tail b64_quad_steps append_Cons append_Nil push_bit_of_0 add_0 add_0_right) blast
qed

lemma b64_quad_two:
  "\<exists>q. b64_quad g 4 0 0 p (b64_tail [a, b] @ rest) = Ret (Inr (triplet a b 0, Suc 0, q, rest))"
proof -
  let ?t = "triplet a b 0"
  have lt: "unat ?t < 16777216" using unat_byte [of a] unat_byte [of b] by (simp add: unat_triplet)
  have e: "unat a * 65536 + unat b * 256 = (unat a * 1024 + unat b * 4) * 64" by simp
  have "(unat a * 65536 + unat b * 256) mod 64 = 0" by (simp only: e mod_mult_self2_is_0)
  then have z: "?t AND 0x3f = 0"
    unfolding and_mask_u32 word_unat_eq_iff unat_take_bit_u32 unat_triplet by simp
  have tail: "b64_tail [a, b] = [b64_char (drop_bit 18 ?t AND 0x3f), b64_char (drop_bit 12 ?t AND 0x3f),
      b64_char (drop_bit 6 ?t AND 0x3f), 61]"
    by (simp add: b64_tail_def b64_q_def)
  show ?thesis
    using sextets [OF lt, folded and_mask_u32, unfolded z]
    by (simp only: four tail b64_quad_steps append_Cons append_Nil push_bit_of_0 add_0 add_0_right) blast
qed

text \<open>One round of the decoder on a group that starts with a character of the alphabet, and on a line
  break before it.\<close>

lemma Decode_loop_group:
  assumes q: "b64_quad g 4 0 0 i (b64_char (w AND 0x3f) # cs) = Ret (Inr (v, e, p', rest))"
    and i: "i = unat (w AND 0x3f)" and g: "g \<longrightarrow> sz \<noteq> 0"
  shows "GWEN_Base64_Decode_loop g (b64_char (w AND 0x3f) # cs) sz 0 p dst
       = obind (appends GWEN_Buffer_AppendByte dst (fst (b64_flush g sz v e))) (\<lambda>dst.
           GWEN_Base64_Decode_loop g rest (snd (b64_flush g sz v e)) e p' dst)"
  using q g
  by (subst GWEN_Base64_Decode_loop.simps)
     (auto simp: b64_char_props i [symmetric] split_beta Let_def simp del: b64_quad.simps)

lemma Decode_loop_newline:
  assumes "cs \<noteq> []"
  shows "GWEN_Base64_Decode_loop g (10 # cs) sz 0 p dst = GWEN_Base64_Decode_loop g cs sz 0 p dst"
proof -
  from assms obtain c cs' where cs: "cs = c # cs'" by (cases cs) auto
  show ?thesis
    by (subst (1 2) GWEN_Base64_Decode_loop.simps)
       (simp add: b64_skip_newline cs del: b64_quad.simps b64_skip.simps, simp)
qed

lemma Decode_loop_end: "GWEN_Base64_Decode_loop g (0 # cs) sz e p dst = Ret (0, dst)"
  "e \<noteq> 0 \<Longrightarrow> GWEN_Base64_Decode_loop g cs sz e p dst = Ret (0, dst)"
  "GWEN_Base64_Decode_loop True cs 0 e p dst = Ret (0, dst)"
  by (subst GWEN_Base64_Decode_loop.simps; simp)+

lemma flush_full:
  "g \<longrightarrow> 3 \<le> unat sz \<Longrightarrow> b64_flush g sz (triplet a b c) 0 = ([a, b, c], if g then sz - 3 else sz)"
  by (auto simp: b64_flush_def Let_def and_mask_u32 triplet_bytes)

lemma flush_short:
  "g \<longrightarrow> sz = 1 \<Longrightarrow> b64_flush g sz (triplet a 0 0) (Suc (Suc 0)) = ([a], if g then 0 else sz)"
  "g \<longrightarrow> sz = 2 \<Longrightarrow> b64_flush g sz (triplet a b 0) (Suc 0) = ([a, b], if g then 0 else sz)"
  by (auto simp: b64_flush_def Let_def and_mask_u32 triplet_bytes)


lemma Decode_loop_breaks:
  assumes "cs \<noteq> []"
  shows "GWEN_Base64_Decode_loop g ((if brk then [10] else []) @ cs) sz 0 p dst
       = GWEN_Base64_Decode_loop g cs sz 0 p dst"
  using Decode_loop_newline [OF assms] by simp

text \<open>One group of one to three bytes, whatever follows it.\<close>

lemma Decode_group:
  assumes quad: "\<And>p. \<exists>q. b64_quad g 4 0 0 p (grp @ rest) = Ret (Inr (v, e, q, rest))"
    and grp: "grp = b64_char (w AND 0x3f) # cs" and flush: "b64_flush g sz v e = (bs, sz')"
    and g: "g \<longrightarrow> sz \<noteq> 0" and room: "room dst (length bs + n)"
  shows "\<exists>q dst'. GWEN_Base64_Decode_loop g (grp @ rest) sz 0 p dst = GWEN_Base64_Decode_loop g rest sz' e q dst'
     \<and> contents dst' = contents dst @ bs \<and> room dst' n"
proof -
  from quad [of "unat (w AND 0x3f)"] obtain q where
    q: "b64_quad g 4 0 0 (unat (w AND 0x3f)) (b64_char (w AND 0x3f) # cs @ rest) = Ret (Inr (v, e, q, rest))"
    by (auto simp: grp)
  from buf.appends_law [OF room] obtain dst' where
    "appends GWEN_Buffer_AppendByte dst bs = Ret dst'" "contents dst' = contents dst @ bs" "room dst' n"
    by blast
  with Decode_loop_group [OF q refl g, of p dst] flush grp show ?thesis by auto
qed

lemma triplet_lt: "unat (triplet a b c) < 16777216"
  using unat_byte [of a] unat_byte [of b] unat_byte [of c] by (simp add: unat_triplet)

lemma b64_q_Cons: "b64_q t = b64_char (drop_bit 18 t AND 0x3f) # tl (b64_q t)"
  "b64_tail [a] = b64_char (drop_bit 18 (triplet a 0 0) AND 0x3f) # tl (b64_tail [a])"
  "b64_tail [a, b] = b64_char (drop_bit 18 (triplet a b 0) AND 0x3f) # tl (b64_tail [a, b])"
  by (simp_all add: b64_q_def b64_tail_def)

lemma Decode_text:
  "room dst (length src + n) \<Longrightarrow> length src < 4294967296 \<Longrightarrow> g \<longrightarrow> sz = of_nat (length src) \<Longrightarrow>
   \<exists>dst'. GWEN_Base64_Decode_loop g (b64_text m l src @ 0 # rest) sz 0 p dst = Ret (0, dst')
     \<and> contents dst' = contents dst @ src \<and> room dst' n"
proof (induction m l src arbitrary: sz p dst rule: b64_text.induct [case_names triplets nothing one two])
  case (triplets m l a b c src)
  define brk where "brk = (m \<noteq> 0 \<and> l + 4 > m)"
  define l' where "l' = (if m \<noteq> 0 then (if brk then 0 else l) + 4 else l)"
  let ?rest = "b64_text m l' src @ 0 # rest" and ?sz = "if g then sz - 3 else sz"
  have grp: "b64_text m l (a # b # c # src) @ 0 # rest
      = (if brk then [10] else []) @ (b64_q (triplet a b c) @ ?rest)"
    by (simp add: brk_def l'_def Let_def)
  have usz: "g \<longrightarrow> unat sz = length src + 3"
    using triplets(3,4) unat_of_nat_u32 [of "length (a # b # c # src)"] by auto
  have fl: "b64_flush g sz (triplet a b c) 0 = ([a, b, c], ?sz)" using usz by (intro flush_full) auto
  have nz: "g \<longrightarrow> sz \<noteq> 0" using usz by auto
  have rm: "room dst (length [a, b, c] + (length src + n))" using triplets(2) by (simp add: add.commute)
  from Decode_group [OF b64_quad_full [OF triplet_lt] b64_q_Cons(1) fl nz rm] obtain q d where
    d: "GWEN_Base64_Decode_loop g (b64_q (triplet a b c) @ ?rest) sz 0 p dst
        = GWEN_Base64_Decode_loop g ?rest ?sz 0 q d" "contents d = contents dst @ [a, b, c]" "room d (length src + n)"
    by blast
  have "g \<longrightarrow> ?sz = of_nat (length src)" using triplets(4) by (simp add: algebra_simps)
  from triplets(1) [OF brk_def, folded l'_def, OF d(3) _ this] triplets(3) d(1,2) show ?case
    unfolding grp by (subst Decode_loop_breaks) auto
next
  case (nothing m l)
  then show ?case by (auto simp: b64_tail_def Decode_loop_newline Decode_loop_end)
next
  case (one m l a)
  then have sz: "g \<longrightarrow> sz = 1" by simp
  then have nz: "g \<longrightarrow> sz \<noteq> 0" by auto
  have "room dst (length [a] + n)" using one(1) by simp
  from Decode_group [OF b64_quad_one b64_q_Cons(2) flush_short(1) [OF sz] nz this]
  obtain q d where "GWEN_Base64_Decode_loop g (b64_tail [a] @ 0 # rest) sz 0 p dst
      = GWEN_Base64_Decode_loop g (0 # rest) (if g then 0 else sz) (Suc (Suc 0)) q d"
    "contents d = contents dst @ [a]" "room d n"
    by blast
  then show ?case by (auto simp: Decode_loop_newline Decode_loop_end)
next
  case (two m l a b)
  then have sz: "g \<longrightarrow> sz = 2" by simp
  then have nz: "g \<longrightarrow> sz \<noteq> 0" by auto
  have "room dst (length [a, b] + n)" using two(1) by simp
  from Decode_group [OF b64_quad_two b64_q_Cons(3) flush_short(2) [OF sz] nz this]
  obtain q d where "GWEN_Base64_Decode_loop g (b64_tail [a, b] @ 0 # rest) sz 0 p dst
      = GWEN_Base64_Decode_loop g (0 # rest) (if g then 0 else sz) (Suc 0) q d"
    "contents d = contents dst @ [a, b]" "room d n"
    by blast
  then show ?case by (auto simp: Decode_loop_newline Decode_loop_end)
qed

section \<open>Round trip\<close>

text \<open>C22. Decoding the encoded text restores the data: for every byte string, with any line length the
  encoder accepts, with the size given to the decoder or left to it (0), and wherever there is room
  in the destination buffers.\<close>

theorem base64_roundtrip:
  assumes "m = 0 \<or> 4 \<le> m" and "length src < 4294967296" and "sz = 0 \<or> sz = of_nat (length src)"
    and "room dst (length (b64_text m 0 src))" and "contents dst = []" and "room dst2 (length src)"
  shows "\<exists>enc dec. GWEN_Base64_Encode src (of_nat (length src)) dst m = Ret (0, enc)
    \<and> GWEN_Base64_Decode (contents enc @ [0]) sz dst2 = Ret (0, dec)
    \<and> contents dec = contents dst2 @ src"
proof -
  from Encode_correct [OF assms(1,2), of dst 0] assms(4,5) obtain enc where
    enc: "GWEN_Base64_Encode src (of_nat (length src)) dst m = Ret (0, enc)" "contents enc = b64_text m 0 src"
    by auto
  from assms(3) have "sz \<noteq> 0 \<longrightarrow> sz = of_nat (length src)" by auto
  from Decode_text [OF _ assms(2) this, of dst2 0 m 0 "[]" 0] assms(6) enc show ?thesis
    by (auto simp: GWEN_Base64_Decode_def)
qed

theorem base64_roundtrip_witness:
  "\<exists>dst enc dec. GWEN_Base64_Encode [1, 2, 3, 4] 4 dst 4 = Ret (0, enc)
    \<and> GWEN_Base64_Decode (contents enc @ [0]) 0 dst = Ret (0, dec) \<and> contents dec = [1, 2, 3, 4]"
proof -
  from new_buffer_room [of 2 100 "16 * 1024 * 1024" "\<lambda>_. 7" True] obtain bf where
    "GWEN_Buffer_new (16 * 1024 * 1024) (\<lambda>_. 7) (\<lambda>_. True) None 2 0 True = Ret bf"
      "room bf 100" "contents bf = []"
    by auto
  moreover have "length (b64_text 4 0 [1, 2, 3, 4]) \<le> 100"
    by (simp add: b64_q_def b64_tail_def Let_def)
  ultimately show ?thesis
    using base64_roundtrip [of 4 "[1, 2, 3, 4]" 0 bf bf] room_mono [of bf 100] by auto
qed

end
