(* ===== verification/Gwen_Tag16.thy ===== *)
theory Gwen_Tag16
  imports Gwen_BufferIO
begin

text \<open>
  Tagged values with a 16 bit length, \<^verbatim>\<open>src/parser/tag16.c\<close>: one byte type, two bytes length with the low
  byte first, then the data. The writers build the header in place at the buffer's position and adjust
  the bytes in use, the readers take memory (the list of bytes from a pointer on) and a length. A tag
  made without a copy refers to the caller's memory; the model keeps the bytes it refers to.
  \<open>mallocOk\<close> says which requests to \<^verbatim>\<open>malloc\<close> succeed: its result is not checked by the code.
  A \<^verbatim>\<open>double\<close> is its 64 bit pattern, as the union in the code has it.
\<close>

section \<open>Tags\<close>

record gwen_tag16 =
  t16_tagSize :: u32
  t16_tagType :: u32
  t16_tagLength :: u32
  t16_tagData :: "byte list option"
  t16_dataOwned :: bool

definition GWEN_Tag16_new :: gwen_tag16 where
  "GWEN_Tag16_new = \<lparr>t16_tagSize = 0, t16_tagType = 0, t16_tagLength = 0, t16_tagData = None,
     t16_dataOwned = False\<rparr>"

definition GWEN_Tag16_newNoCopy :: "u32 \<Rightarrow> u32 \<Rightarrow> byte list \<Rightarrow> gwen_tag16" where
  "GWEN_Tag16_newNoCopy tagType tagLength tagData =
    (let tag = GWEN_Tag16_new\<lparr>t16_tagType := tagType, t16_tagLength := tagLength\<rparr>;
         tag = (if tagLength \<noteq> 0
                then tag\<lparr>t16_tagData := Some (take (unat tagLength) tagData), t16_dataOwned := False\<rparr> else tag)
     in tag\<lparr>t16_tagSize := tagLength + 3\<rparr>)"

definition GWEN_Tag16_newCopy :: "(nat \<Rightarrow> bool) \<Rightarrow> u32 \<Rightarrow> u32 \<Rightarrow> byte list \<Rightarrow> gwen_tag16 outcome" where
  "GWEN_Tag16_newCopy mallocOk tagType tagLength tagData =
    (let tag = GWEN_Tag16_new\<lparr>t16_tagType := tagType, t16_tagLength := tagLength\<rparr>
     in obind
          (if tagLength \<noteq> 0 then
             (if \<not> mallocOk (unat tagLength) then Fault
              else obind (region tagData tagLength) (\<lambda>bs.
                     Ret (tag\<lparr>t16_tagData := Some bs, t16_dataOwned := True\<rparr>)))
           else Ret tag)
          (\<lambda>tag. Ret (tag\<lparr>t16_tagSize := tagLength + 3\<rparr>)))"

text \<open>Whether the tag's data is released with it.\<close>

definition GWEN_Tag16_free :: "gwen_tag16 option \<Rightarrow> bool" where
  "GWEN_Tag16_free tag = (case tag of None \<Rightarrow> False | Some t \<Rightarrow> t16_dataOwned t)"

definition GWEN_Tag16_GetTagType :: "gwen_tag16 option \<Rightarrow> u32" where
  "GWEN_Tag16_GetTagType tag = (case tag of None \<Rightarrow> 0 | Some t \<Rightarrow> t16_tagType t)"

definition GWEN_Tag16_GetTagLength :: "gwen_tag16 option \<Rightarrow> u32" where
  "GWEN_Tag16_GetTagLength tag = (case tag of None \<Rightarrow> 0 | Some t \<Rightarrow> t16_tagLength t)"

definition GWEN_Tag16_GetTagSize :: "gwen_tag16 option \<Rightarrow> u32" where
  "GWEN_Tag16_GetTagSize tag = (case tag of None \<Rightarrow> 0 | Some t \<Rightarrow> t16_tagSize t)"

definition GWEN_Tag16_GetTagData :: "gwen_tag16 option \<Rightarrow> byte list option" where
  "GWEN_Tag16_GetTagData tag = (case tag of None \<Rightarrow> None | Some t \<Rightarrow> t16_tagData t)"

section \<open>Reading\<close>

definition GWEN_Tag16_fromBuffer2 ::
  "(nat \<Rightarrow> bool) \<Rightarrow> byte list \<Rightarrow> u32 \<Rightarrow> bool \<Rightarrow> gwen_tag16 option outcome" where
  "GWEN_Tag16_fromBuffer2 mallocOk bufferPtr bufferLen doCopy =
    (if bufferLen < 3 then Ret None
     else case bufferPtr of
       b0 # b1 # b2 # bufferPtr \<Rightarrow>
         (let tagType = (ucast b0 :: u32);
              bufferLen = bufferLen - 1;
              tagLength = (ucast b1 + push_bit 8 (ucast b2) :: u32);
              bufferLen = bufferLen - 2
          in if bufferLen < tagLength then Ret None
             else if doCopy then
               obind (GWEN_Tag16_newCopy mallocOk tagType tagLength bufferPtr) (\<lambda>tag. Ret (Some tag))
             else Ret (Some (GWEN_Tag16_newNoCopy tagType tagLength bufferPtr)))
     | _ \<Rightarrow> Fault)"

definition GWEN_Tag16_fromBuffer ::
  "(nat \<Rightarrow> bool) \<Rightarrow> gwen_buffer \<Rightarrow> (gwen_tag16 option \<times> gwen_buffer) outcome" where
  "GWEN_Tag16_fromBuffer mallocOk mbuf =
     obind (GWEN_Tag16_fromBuffer2 mallocOk (drop (GWEN_Buffer_GetPosPointer mbuf) (blk mbuf))
              (GWEN_Buffer_GetUsedBytes mbuf) True) (\<lambda>tag.
       Ret (tag, case tag of None \<Rightarrow> mbuf | Some t \<Rightarrow> snd (GWEN_Buffer_IncrementPos mbuf (t16_tagSize t))))"

lemma fromBuffer2_size:
  "GWEN_Tag16_fromBuffer2 mallocOk p l doCopy = Ret (Some tag) \<Longrightarrow>
   t16_tagSize tag = t16_tagLength tag + 3 \<and> unat (t16_tagLength tag) < 65536 \<and> 3 \<le> l"
proof -
  assume a: "GWEN_Tag16_fromBuffer2 mallocOk p l doCopy = Ret (Some tag)"
  have len: "unat (ucast b1 + push_bit 8 (ucast b2) :: u32) < 65536" for b1 b2 :: byte
    using unat_byte [of b1] unat_byte [of b2] unat_push_bit_u32 [of "ucast b2" 8]
    by (simp add: unat_plus_u32)
  from a show ?thesis
    by (auto simp: GWEN_Tag16_fromBuffer2_def GWEN_Tag16_newCopy_def GWEN_Tag16_newNoCopy_def Let_def
        outcome_simps not_less len split: if_splits list.splits)
qed

text \<open>A list of tags. A tag of the list is a pointer into it, modelled as the rest of the list from it on.\<close>

function GWEN_Tag16_List_fromBuffer_loop ::
  "(nat \<Rightarrow> bool) \<Rightarrow> byte list \<Rightarrow> u32 \<Rightarrow> bool \<Rightarrow> gwen_tag16 list \<Rightarrow> gwen_tag16 list option outcome" where
  "GWEN_Tag16_List_fromBuffer_loop mallocOk p l doCopy tagList =
    (if l = 0 then Ret (Some tagList)
     else obind (GWEN_Tag16_fromBuffer2 mallocOk p l doCopy) (\<lambda>r.
       case r of
         None \<Rightarrow> Ret None
       | Some tag \<Rightarrow>
           if l < t16_tagSize tag then Ret None
           else GWEN_Tag16_List_fromBuffer_loop mallocOk (drop (unat (t16_tagSize tag)) p)
                  (l - t16_tagSize tag) doCopy (tagList @ [tag])))"
  by pat_completeness auto
termination
proof (relation "measure (\<lambda>(mallocOk, p, l, doCopy, tagList). unat l)")
  fix mallocOk p doCopy x and l :: u32 and tagList and tag :: gwen_tag16
  assume "l \<noteq> 0" and "GWEN_Tag16_fromBuffer2 mallocOk p l doCopy = Ret x" and "x = Some tag"
    and le: "\<not> l < t16_tagSize tag"
  then have "t16_tagSize tag = t16_tagLength tag + 3" "unat (t16_tagLength tag) < 65536"
    using fromBuffer2_size by blast+
  then have "0 < unat (t16_tagSize tag)" by (simp add: unat_plus_u32)
  with le show "((mallocOk, drop (unat (t16_tagSize tag)) p, l - t16_tagSize tag, doCopy, tagList @ [tag]),
      mallocOk, p, l, doCopy, tagList) \<in> measure (\<lambda>(mallocOk, p, l, doCopy, tagList). unat l)"
    by (simp add: unat_minus_u32 word_less_nat_alt)
qed simp

declare GWEN_Tag16_List_fromBuffer_loop.simps [simp del]

definition GWEN_Tag16_List_fromBuffer ::
  "(nat \<Rightarrow> bool) \<Rightarrow> byte list \<Rightarrow> u32 \<Rightarrow> bool \<Rightarrow> gwen_tag16 list option outcome" where
  "GWEN_Tag16_List_fromBuffer mallocOk p l doCopy =
     obind (GWEN_Tag16_List_fromBuffer_loop mallocOk p l doCopy []) (\<lambda>r.
       case r of
         None \<Rightarrow> Ret None
       | Some tagList \<Rightarrow> if length tagList < 1 then Ret None else Ret (Some tagList))"

fun GWEN_Tag16_List_FindFirstByTagType :: "gwen_tag16 list \<Rightarrow> u32 \<Rightarrow> gwen_tag16 list" where
  "GWEN_Tag16_List_FindFirstByTagType [] tagType = []"
| "GWEN_Tag16_List_FindFirstByTagType (tag # rest) tagType =
     (if t16_tagType tag = tagType then tag # rest else GWEN_Tag16_List_FindFirstByTagType rest tagType)"

definition GWEN_Tag16_List_FindNextByTagType :: "gwen_tag16 list \<Rightarrow> u32 \<Rightarrow> gwen_tag16 list" where
  "GWEN_Tag16_List_FindNextByTagType tag tagType =
     (case tag of [] \<Rightarrow> [] | _ # rest \<Rightarrow> GWEN_Tag16_List_FindFirstByTagType rest tagType)"

section \<open>Values\<close>

text \<open>The bytes of a number in memory after \<^verbatim>\<open>htole16\<close> and its kin, and back: low byte first.\<close>

definition le_bytes :: "nat \<Rightarrow> 'a::len word \<Rightarrow> byte list" where
  "le_bytes n w = map (\<lambda>i. ucast (drop_bit (8 * i) w)) [0..<n]"

primrec le_word :: "byte list \<Rightarrow> 'a::len word" where
  "le_word [] = 0"
| "le_word (b # bs) = ucast b + push_bit 8 (le_word bs)"

definition tag_bytes :: "gwen_tag16 \<Rightarrow> nat \<Rightarrow> byte list outcome" where
  "tag_bytes t n = (case t16_tagData t of
     None \<Rightarrow> Fault | Some bs \<Rightarrow> if n \<le> length bs then Ret (take n bs) else Fault)"

definition GWEN_Tag16_GetTagDataAsUint8 :: "gwen_tag16 option \<Rightarrow> byte \<Rightarrow> byte outcome" where
  "GWEN_Tag16_GetTagDataAsUint8 tag defaultValue = (case tag of
     Some t \<Rightarrow> if t16_tagLength t \<ge> 1 then obind (tag_bytes t 1) (\<lambda>bs. Ret (hd bs)) else Ret defaultValue
   | None \<Rightarrow> Ret defaultValue)"

definition GWEN_Tag16_GetTagDataAsUint16 :: "gwen_tag16 option \<Rightarrow> u16 \<Rightarrow> u16 outcome" where
  "GWEN_Tag16_GetTagDataAsUint16 tag defaultValue = (case tag of
     Some t \<Rightarrow> if t16_tagLength t \<ge> 2 then obind (tag_bytes t 2) (\<lambda>bs. Ret (le_word bs)) else Ret defaultValue
   | None \<Rightarrow> Ret defaultValue)"

definition GWEN_Tag16_GetTagDataAsUint32 :: "gwen_tag16 option \<Rightarrow> u32 \<Rightarrow> u32 outcome" where
  "GWEN_Tag16_GetTagDataAsUint32 tag defaultValue = (case tag of
     Some t \<Rightarrow> if t16_tagLength t \<ge> 4 then obind (tag_bytes t 4) (\<lambda>bs. Ret (le_word bs)) else Ret defaultValue
   | None \<Rightarrow> Ret defaultValue)"

definition GWEN_Tag16_GetTagDataAsUint64 :: "gwen_tag16 option \<Rightarrow> u64 \<Rightarrow> u64 outcome" where
  "GWEN_Tag16_GetTagDataAsUint64 tag defaultValue = (case tag of
     Some t \<Rightarrow> if t16_tagLength t \<ge> 8 then obind (tag_bytes t 8) (\<lambda>bs. Ret (le_word bs)) else Ret defaultValue
   | None \<Rightarrow> Ret defaultValue)"

definition GWEN_Tag16_GetTagDataAsDouble :: "gwen_tag16 option \<Rightarrow> u64 \<Rightarrow> u64 outcome" where
  "GWEN_Tag16_GetTagDataAsDouble tag defaultValue = (case tag of
     Some t \<Rightarrow> if t16_tagLength t \<ge> 8 then obind (tag_bytes t 8) (\<lambda>bs. Ret (le_word bs)) else Ret defaultValue
   | None \<Rightarrow> Ret defaultValue)"

text \<open>\<^verbatim>\<open>GWEN_Text_strndup\<close> copies up to the first \<open>NUL\<close> or the given length, and terminates the copy; the
  new string is given without that \<open>NUL\<close>.\<close>

definition GWEN_Tag16_GetTagDataAsNewString ::
  "gwen_tag16 option \<Rightarrow> byte list option \<Rightarrow> byte list option outcome" where
  "GWEN_Tag16_GetTagDataAsNewString tag defaultValue = (case tag of
     Some t \<Rightarrow>
       if t16_tagLength t \<noteq> 0 then
         obind (tag_bytes t (unat (t16_tagLength t))) (\<lambda>bs. Ret (Some (takeWhile (\<lambda>c. c \<noteq> 0) bs)))
       else Ret (map_option (takeWhile (\<lambda>c. c \<noteq> 0)) defaultValue)
   | None \<Rightarrow> Ret (map_option (takeWhile (\<lambda>c. c \<noteq> 0)) defaultValue))"

section \<open>Writing\<close>

definition t16_writeTagToBuffer :: "u32 \<Rightarrow> byte list \<Rightarrow> int \<Rightarrow> gwen_buffer \<Rightarrow> gwen_buffer outcome" where
  "t16_writeTagToBuffer tagType p sz buf =
    (if \<not> in_int (sz + 3) then Fault
     else obind (GWEN_Buffer_AllocRoom buf (word_of_int (sz + 3))) (\<lambda>(rv, buf).
       if rv = 0 then
         (let posPtr = GWEN_Buffer_GetPosPointer buf
          in obind (poke buf posPtr [ucast (tagType AND 0xff), word_of_int sz, word_of_int (drop_bit 8 sz)]) (\<lambda>buf.
             obind (if sz < 0 then Fault
                    else if sz \<noteq> 0 then
                      (if nat sz \<le> length p then poke buf (posPtr + 3) (take (nat sz) p) else Fault)
                    else Ret buf) (\<lambda>buf.
             obind (GWEN_Buffer_AdjustUsedBytes (snd (GWEN_Buffer_IncrementPos buf (word_of_int (sz + 3)))))
               (\<lambda>(_, buf). Ret buf))))
       else Ret buf))"

definition GWEN_Tag16_WriteTagToBuffer :: "u32 \<Rightarrow> byte list \<Rightarrow> int \<Rightarrow> gwen_buffer \<Rightarrow> gwen_buffer outcome" where
  "GWEN_Tag16_WriteTagToBuffer tagType s sz buf = t16_writeTagToBuffer tagType s sz buf"

definition GWEN_Tag16_WriteStringTagToBuffer :: "u32 \<Rightarrow> byte list option \<Rightarrow> gwen_buffer \<Rightarrow> gwen_buffer outcome" where
  "GWEN_Tag16_WriteStringTagToBuffer tagType s buf = (case s of
     None \<Rightarrow> t16_writeTagToBuffer tagType [] 0 buf
   | Some s \<Rightarrow> t16_writeTagToBuffer tagType s (int (strlen s) + 1) buf)"

definition GWEN_Tag16_WriteUint8TagToBuffer :: "u32 \<Rightarrow> byte \<Rightarrow> gwen_buffer \<Rightarrow> gwen_buffer outcome" where
  "GWEN_Tag16_WriteUint8TagToBuffer tagType data buf = t16_writeTagToBuffer tagType [data] 1 buf"

definition GWEN_Tag16_WriteUint16TagToBuffer :: "u32 \<Rightarrow> u16 \<Rightarrow> gwen_buffer \<Rightarrow> gwen_buffer outcome" where
  "GWEN_Tag16_WriteUint16TagToBuffer tagType data buf = t16_writeTagToBuffer tagType (le_bytes 2 data) 2 buf"

definition GWEN_Tag16_WriteUint32TagToBuffer :: "u32 \<Rightarrow> u32 \<Rightarrow> gwen_buffer \<Rightarrow> gwen_buffer outcome" where
  "GWEN_Tag16_WriteUint32TagToBuffer tagType data buf = t16_writeTagToBuffer tagType (le_bytes 4 data) 4 buf"

definition GWEN_Tag16_WriteUint64TagToBuffer :: "u32 \<Rightarrow> u64 \<Rightarrow> gwen_buffer \<Rightarrow> gwen_buffer outcome" where
  "GWEN_Tag16_WriteUint64TagToBuffer tagType data buf = t16_writeTagToBuffer tagType (le_bytes 8 data) 8 buf"

definition GWEN_Tag16_WriteDoubleTagToBuffer :: "u32 \<Rightarrow> u64 \<Rightarrow> gwen_buffer \<Rightarrow> gwen_buffer outcome" where
  "GWEN_Tag16_WriteDoubleTagToBuffer tagType data buf = t16_writeTagToBuffer tagType (le_bytes 8 data) 8 buf"

definition GWEN_Tag16_DirectlyToBuffer :: "u32 \<Rightarrow> byte list \<Rightarrow> int \<Rightarrow> gwen_buffer \<Rightarrow> gwen_buffer outcome" where
  "GWEN_Tag16_DirectlyToBuffer tagType p sz buf =
     t16_writeTagToBuffer tagType p (if sz = -1 then int (strlen p) else sz) buf"

definition GWEN_Tag16_StartTagInBuffer :: "u32 \<Rightarrow> gwen_buffer option \<Rightarrow> (int \<times> gwen_buffer option) outcome" where
  "GWEN_Tag16_StartTagInBuffer tagType buf = (case buf of
     None \<Rightarrow> Ret (GWEN_ERROR_INVALID, None)
   | Some buf \<Rightarrow>
       (let p = sint (GWEN_Buffer_GetPos buf)
        in obind (GWEN_Buffer_AllocRoom buf 3) (\<lambda>(rv, buf).
             if rv = 0 then
               obind (poke buf (GWEN_Buffer_GetPosPointer buf) [ucast (tagType AND 0xff), 0, 0]) (\<lambda>buf.
               obind (GWEN_Buffer_AdjustUsedBytes (snd (GWEN_Buffer_IncrementPos buf 3))) (\<lambda>(_, buf).
                 Ret (p, Some buf)))
             else Ret (rv, Some buf))))"

definition GWEN_Tag16_EndTagInBuffer :: "int \<Rightarrow> gwen_buffer \<Rightarrow> (int \<times> gwen_buffer) outcome" where
  "GWEN_Tag16_EndTagInBuffer startPos buf =
    (let currentPos = sint (GWEN_Buffer_GetPos buf);
         payloadSize = currentPos - startPos - 3
     in if \<not> in_int (currentPos - startPos) \<or> \<not> in_int payloadSize then Fault
        else if payloadSize < 0 then Ret (GWEN_ERROR_GENERIC, buf)
        else if int (GWEN_Buffer_GetStart buf) + startPos + 1 < 0 then Fault
        else obind (poke buf (nat (int (GWEN_Buffer_GetStart buf) + startPos + 1))
                      [word_of_int payloadSize, word_of_int (drop_bit 8 payloadSize)]) (\<lambda>buf. Ret (0, buf)))"

section \<open>Little endian numbers\<close>

lemma le_bytes_Suc: "le_bytes (Suc n) w = ucast w # le_bytes n (drop_bit 8 w)"
  by (simp add: le_bytes_def upt_conv_Cons map_Suc_upt [symmetric] comp_def add.commute del: upt_Suc)

lemma length_le_bytes [simp]: "length (le_bytes n w) = n"
  by (simp add: le_bytes_def)

lemma le_word_le_bytes: "le_word (le_bytes n w) = take_bit (8 * n) (w :: 'a::len word)"
proof (induction n arbitrary: w)
  case 0
  then show ?case by (simp add: le_bytes_def)
next
  case (Suc n)
  let ?x = "take_bit (8 * Suc n) w"
  have low: "(ucast (ucast w :: byte) :: 'a word) = take_bit 8 ?x"
    by (rule bit_word_eqI) (auto simp: bit_simps)
  have "take_bit (8 * n) (drop_bit 8 w) = drop_bit 8 ?x"
    by (rule bit_word_eqI) (auto simp: bit_simps)
  with low show ?case
    using bits_ident [of 8 ?x] Suc.IH [of "drop_bit 8 w"] by (simp add: le_bytes_Suc add.commute)
qed

lemma le_word_full:
  "le_word (le_bytes 2 w) = (w :: u16)" "le_word (le_bytes 4 v) = (v :: u32)" "le_word (le_bytes 8 x) = (x :: u64)"
  using take_bit_word_eq_self [of 16 w] take_bit_word_eq_self [of 32 v] take_bit_word_eq_self [of 64 x]
  by (simp_all add: le_word_le_bytes)

section \<open>Writing a tag\<close>

definition t16_header :: "u32 \<Rightarrow> nat \<Rightarrow> byte list" where
  "t16_header tagType n = [ucast (tagType AND 0xff), of_nat n, of_nat (n div 256)]"

lemma length_t16_header [simp]: "length (t16_header ty n) = 3"
  by (simp add: t16_header_def)

lemma writeTag_correct:
  assumes room: "room buf (n + 3 + k)" and p: "at_end buf" and n: "n \<le> length data" "n < 2147483645"
  shows "\<exists>buf'. t16_writeTagToBuffer tagType data (int n) buf = Ret buf'
     \<and> contents buf' = contents buf @ t16_header tagType n @ take n data \<and> at_end buf' \<and> room buf' k
     \<and> ptr buf' = ptr buf"
proof -
  let ?h = "t16_header tagType n" and ?d = "take n data"
  have len: "length (?h @ ?d) = n + 3" using n by simp
  have "room buf (length (?h @ ?d) + k)" using room by (simp only: len)
  from write_at_pos [OF this, unfolded len] p obtain b1 b2 bf' where
    w: "GWEN_Buffer_AllocRoom buf (of_nat (n + 3)) = Ret (0, b1)"
      "poke b1 (GWEN_Buffer_GetPosPointer b1) (?h @ ?d) = Ret b2"
      "realPtr b1 \<noteq> None" "GWEN_Buffer_GetPosPointer b1 + (n + 3) \<le> length (blk b1)"
      "GWEN_Buffer_AdjustUsedBytes (snd (GWEN_Buffer_IncrementPos b2 (of_nat (n + 3)))) = Ret (0, bf')"
      "contents bf' = contents buf @ (?h @ ?d)" "at_end bf'" "room bf' k" "ptr bf' = ptr buf"
    by (auto simp: at_end_def t16_header_def)
  from w(3) obtain m where m: "realPtr b1 = Some m" by auto
  have pk: "obind (poke b1 (GWEN_Buffer_GetPosPointer b1) ?h)
      (\<lambda>b. poke b (GWEN_Buffer_GetPosPointer b1 + 3) ?d) = Ret b2"
    using poke_poke [OF m, of "GWEN_Buffer_GetPosPointer b1" ?h ?d] w(2,4) m n by simp
  have hdr: "?h = [ucast (tagType AND 0xff), word_of_int (int n), word_of_int (drop_bit 8 (int n))]"
    using zdiv_int [of n 256] of_int_of_nat_eq [of "n div 256", where ?'a = byte]
    by (simp add: t16_header_def drop_bit_eq_div)
  have "obind (poke b1 (GWEN_Buffer_GetPosPointer b1)
        [ucast (tagType AND 0xff), word_of_int (int n), word_of_int (drop_bit 8 (int n))])
      (\<lambda>b. if int n < 0 then Fault
            else if int n \<noteq> 0 then
              (if nat (int n) \<le> length data then poke b (GWEN_Buffer_GetPosPointer b1 + 3) (take (nat (int n)) data)
               else Fault) else Ret b) = Ret b2"
    using pk n unfolding hdr by (cases "n = 0") (auto simp: poke_def m split: if_splits)
  then have pk: "obind (poke b1 (GWEN_Buffer_GetPosPointer b1)
        [ucast (tagType AND 0xff), word_of_int (int n), word_of_int (drop_bit 8 (int n))])
      (\<lambda>b. obind (if int n < 0 then Fault
            else if int n \<noteq> 0 then
              (if nat (int n) \<le> length data then poke b (GWEN_Buffer_GetPosPointer b1 + 3) (take (nat (int n)) data)
               else Fault) else Ret b) K) = K b2" for K :: "gwen_buffer \<Rightarrow> gwen_buffer outcome"
    unfolding obind_assoc [symmetric] by simp
  have i: "word_of_int (int n + 3) = (of_nat (n + 3) :: u32)" "in_int (int n + 3)"
    using n by (simp_all add: in_int_def)
  have "t16_writeTagToBuffer tagType data (int n) buf = Ret bf'"
    by (simp only: t16_writeTagToBuffer_def i Let_def w(1) obind.simps prod.case pk w(5) simp_thms if_True if_False)
  with w(6-9) show ?thesis by auto
qed


section \<open>Reading what was written\<close>

text \<open>The tag that the header and data of type \<open>ty\<close> and bytes \<open>bs\<close> stand for.\<close>

definition t16_tag :: "bool \<Rightarrow> u32 \<times> byte list \<Rightarrow> gwen_tag16" where
  "t16_tag doCopy = (\<lambda>(ty, bs). \<lparr>t16_tagSize = of_nat (length bs + 3), t16_tagType = ty AND 0xff,
     t16_tagLength = of_nat (length bs), t16_tagData = (if bs = [] then None else Some bs),
     t16_dataOwned = (doCopy \<and> bs \<noteq> [])\<rparr>)"

definition t16_encode :: "u32 \<times> byte list \<Rightarrow> byte list" where
  "t16_encode = (\<lambda>(ty, bs). t16_header ty (length bs) @ bs)"

lemma length_t16_encode [simp]: "length (t16_encode (ty, bs)) = length bs + 3"
  by (simp add: t16_encode_def)

lemma header_length:
  assumes "n < 65536"
  shows "ucast (of_nat n :: byte) + push_bit 8 (ucast (of_nat (n div 256) :: byte)) = (of_nat n :: u32)"
proof -
  have "unat (of_nat n :: byte) = n mod 256" "unat (of_nat (n div 256) :: byte) = n div 256"
    using assms by (auto simp: unat_of_nat)
  moreover have "n mod 256 + n div 256 * 256 = n" by simp
  ultimately have "unat (ucast (of_nat n :: byte) + push_bit 8 (ucast (of_nat (n div 256) :: byte)) :: u32) = n"
    using unat_push_bit_u32 [of "ucast (of_nat (n div 256) :: byte)" 8] assms
    by (simp add: unat_plus_u32)
  then show ?thesis using assms by (simp add: word_unat_eq_iff unat_of_nat_u32)
qed

lemma header_type: "(ucast (ucast (ty AND 0xff :: u32) :: byte) :: u32) = ty AND 0xff"
  unfolding and_mask_u32 by (rule bit_word_eqI) (auto simp: bit_simps)

lemma new_tag:
  assumes u: "unat w = length bs" and ok: "\<And>k. mallocOk k"
  shows "GWEN_Tag16_newCopy mallocOk (ty AND 0xff) w (bs @ rest) = Ret (t16_tag True (ty, bs))"
    and "GWEN_Tag16_newNoCopy (ty AND 0xff) w (bs @ rest) = t16_tag False (ty, bs)"
proof -
  have w: "(of_nat (length bs + 3) :: u32) = w + 3" "(of_nat (length bs) :: u32) = w"
    by (simp_all add: u [symmetric])
  have z: "w = 0 \<longleftrightarrow> bs = []" using u by (simp flip: unat_eq_0)
  show "GWEN_Tag16_newCopy mallocOk (ty AND 0xff) w (bs @ rest) = Ret (t16_tag True (ty, bs))"
    using ok by (simp add: GWEN_Tag16_newCopy_def GWEN_Tag16_new_def region_def t16_tag_def w z u del: of_nat_add)
  show "GWEN_Tag16_newNoCopy (ty AND 0xff) w (bs @ rest) = t16_tag False (ty, bs)"
    by (simp add: GWEN_Tag16_newNoCopy_def GWEN_Tag16_new_def t16_tag_def w z u del: of_nat_add)
qed

lemma fromBuffer2_encoded:
  assumes "length bs < 65536" and "length bs + 3 \<le> unat l" and "\<And>k. mallocOk k"
  shows "GWEN_Tag16_fromBuffer2 mallocOk (t16_encode (ty, bs) @ rest) l doCopy = Ret (Some (t16_tag doCopy (ty, bs)))"
proof -
  have u: "unat (of_nat (length bs) :: u32) = length bs" using assms(1) by (intro unat_of_nat_u32) simp
  have g1: "\<not> l < 3" using assms(2) by (simp add: word_less_nat_alt)
  have "unat (l - 1 - 2) = unat l - 3" using assms(2) by (simp add: unat_minus_u32)
  then have g2: "\<not> l - 1 - 2 < of_nat (length bs)" using assms(2) by (simp only: word_less_nat_alt u)
  have e: "t16_encode (ty, bs) @ rest
      = ucast (ty AND 0xff) # of_nat (length bs) # of_nat (length bs div 256) # bs @ rest"
    by (simp add: t16_encode_def t16_header_def)
  show ?thesis
    unfolding GWEN_Tag16_fromBuffer2_def e list.case Let_def header_length [OF assms(1)] header_type
      if_not_P [OF g1] if_not_P [OF g2] new_tag [OF u assms(3)]
    by (cases doCopy) simp_all
qed

lemma List_fromBuffer_loop_encoded:
  assumes ok: "\<And>k. mallocOk k"
  shows "\<forall>(ty, bs) \<in> set tags. length bs < 65536 \<Longrightarrow> unat l = length (concat (map t16_encode tags)) \<Longrightarrow>
     GWEN_Tag16_List_fromBuffer_loop mallocOk (concat (map t16_encode tags)) l doCopy acc
       = Ret (Some (acc @ map (t16_tag doCopy) tags))"
proof (induction tags arbitrary: l acc)
  case Nil
  then show ?case by (subst GWEN_Tag16_List_fromBuffer_loop.simps) (simp add: unat_eq_0)
next
  case (Cons t tags)
  obtain ty bs where t: "t = (ty, bs)" by (cases t)
  let ?r = "concat (map t16_encode tags)" and ?s = "t16_tagSize (t16_tag doCopy t)"
  have lb: "length bs < 65536" using Cons.prems(1) t by auto
  have ul: "unat l = length bs + 3 + length ?r" using Cons.prems(2) t by simp
  have s: "unat ?s = length bs + 3" using lb by (simp add: t t16_tag_def unat_of_nat_u32 del: of_nat_add)
  have "GWEN_Tag16_fromBuffer2 mallocOk (concat (map t16_encode (t # tags))) l doCopy = Ret (Some (t16_tag doCopy t))"
    using fromBuffer2_encoded [OF lb _ ok, where l = l and ty = ty and rest = ?r and doCopy = doCopy] ul by (simp add: t)
  moreover have "l \<noteq> 0" "\<not> l < ?s" using ul s by (auto simp: word_less_nat_alt)
  moreover have "drop (unat ?s) (concat (map t16_encode (t # tags))) = ?r" using s by (simp add: t)
  moreover have "unat (l - ?s) = length ?r" using ul s by (simp add: unat_minus_u32)
  ultimately show ?case
    using Cons.IH [of "l - ?s" "acc @ [t16_tag doCopy t]"] Cons.prems(1)
    by (subst GWEN_Tag16_List_fromBuffer_loop.simps) simp
qed

text \<open>Tags written one after the other.\<close>

primrec write_tags :: "gwen_buffer \<Rightarrow> (u32 \<times> byte list) list \<Rightarrow> gwen_buffer outcome" where
  "write_tags buf [] = Ret buf"
| "write_tags buf (t # ts) =
     obind (GWEN_Tag16_WriteTagToBuffer (fst t) (snd t) (int (length (snd t))) buf) (\<lambda>buf. write_tags buf ts)"

lemma write_tags_correct:
  "room buf (length (concat (map t16_encode tags)) + k) \<Longrightarrow> at_end buf \<Longrightarrow>
   \<forall>(ty, bs) \<in> set tags. length bs < 65536 \<Longrightarrow>
   \<exists>buf'. write_tags buf tags = Ret buf' \<and> contents buf' = contents buf @ concat (map t16_encode tags)
     \<and> at_end buf' \<and> room buf' k"
proof (induction tags arbitrary: buf)
  case (Cons t tags)
  obtain ty bs where t: "t = (ty, bs)" by (cases t)
  have "room buf (length bs + 3 + (length (concat (map t16_encode tags)) + k))"
    using Cons.prems(1) by (simp add: t ac_simps)
  from writeTag_correct [OF this Cons.prems(2), of bs ty] Cons.prems(3) t obtain b1 where
    b1: "t16_writeTagToBuffer ty bs (int (length bs)) buf = Ret b1" "contents b1 = contents buf @ t16_encode t"
      "at_end b1" "room b1 (length (concat (map t16_encode tags)) + k)"
    by (auto simp: t16_encode_def)
  from Cons.IH [OF b1(4,3)] Cons.prems(3) b1 t show ?case by (auto simp: GWEN_Tag16_WriteTagToBuffer_def)
qed auto


section \<open>Properties\<close>

text \<open>C23. Tags written one after the other into an empty buffer are read back by
  \<^verbatim>\<open>GWEN_Tag16_List_fromBuffer\<close> as the same tags in the same order: type (its low byte), length and
  data, for every non-empty list of tags with less than 65536 bytes each.\<close>

theorem tag16_list_roundtrip:
  assumes "room buf (length (concat (map t16_encode tags)))" and "at_end buf" and "contents buf = []"
    and "tags \<noteq> []" and "\<forall>(ty, bs) \<in> set tags. length bs < 65536"
  shows "\<exists>buf'. write_tags buf tags = Ret buf'
    \<and> GWEN_Tag16_List_fromBuffer (\<lambda>_. True) (contents buf') (GWEN_Buffer_GetUsedBytes buf') doCopy
        = Ret (Some (map (t16_tag doCopy) tags))"
proof -
  from write_tags_correct [of buf tags 0] assms obtain buf' where
    b: "write_tags buf tags = Ret buf'" "contents buf' = concat (map t16_encode tags)" "room buf' 0"
    by auto
  have "unat (bytesUsed buf') = length (concat (map t16_encode tags))"
    using length_contents [OF room_wf [OF b(3)]] b(2) by simp
  with List_fromBuffer_loop_encoded [OF TrueI assms(5)] b(1,2) assms(4) show ?thesis
    by (auto simp: GWEN_Tag16_List_fromBuffer_def GWEN_Buffer_GetUsedBytes_def)
qed

theorem tag16_list_roundtrip_witness:
  "\<exists>buf buf'. write_tags buf [(1, [10, 11]), (2, [])] = Ret buf'
    \<and> GWEN_Tag16_List_fromBuffer (\<lambda>_. True) (contents buf') (GWEN_Buffer_GetUsedBytes buf') True
        = Ret (Some [t16_tag True (1, [10, 11]), t16_tag True (2, [])])"
proof -
  from fresh_at_end obtain bf where bf: "room bf 1000" "at_end bf" "contents bf = []" by blast
  have "length (concat (map t16_encode [(1, [10, 11]), (2, [])])) \<le> 1000" by simp
  from tag16_list_roundtrip [OF room_mono [OF bf(1) this] bf(2,3), of True] show ?thesis by auto
qed

lemma tag_number:
  assumes "room buf (n + 3)" and "at_end buf" and "0 < n" "n < 65536"
  shows "\<exists>buf'. t16_writeTagToBuffer ty (le_bytes n w) (int n) buf = Ret buf'
    \<and> GWEN_Tag16_fromBuffer2 (\<lambda>_. True) (drop (length (contents buf)) (contents buf')) (of_nat (n + 3)) doCopy
        = Ret (Some (t16_tag doCopy (ty, le_bytes n w)))
    \<and> tag_bytes (t16_tag doCopy (ty, le_bytes n w)) n = Ret (le_bytes n w)
    \<and> unat (t16_tagLength (t16_tag doCopy (ty, le_bytes n w))) = n"
proof -
  from writeTag_correct [of buf n 0 "le_bytes n w" ty] assms obtain buf' where
    b: "t16_writeTagToBuffer ty (le_bytes n w) (int n) buf = Ret buf'"
      "contents buf' = contents buf @ t16_header ty n @ le_bytes n w"
    by auto
  have l: "unat (of_nat (n + 3) :: u32) = n + 3" using assms(4) by (intro unat_of_nat_u32) simp
  have "unat (of_nat n :: u32) = n" using assms(4) by (intro unat_of_nat_u32) simp
  moreover have "GWEN_Tag16_fromBuffer2 (\<lambda>_. True) (t16_encode (ty, le_bytes n w) @ []) (of_nat (n + 3)) doCopy
      = Ret (Some (t16_tag doCopy (ty, le_bytes n w)))"
    using assms(4) l by (intro fromBuffer2_encoded) auto
  moreover have "le_bytes n w \<noteq> []" using assms(3) by (simp flip: length_greater_0_conv)
  ultimately show ?thesis using b by (auto simp: t16_encode_def tag_bytes_def t16_tag_def)
qed


text \<open>Numbers survive a tag: what \<^verbatim>\<open>GWEN_Tag16_WriteUint16TagToBuffer\<close> and its 32 and 64 bit variants
  write is what the reader finds there, whatever the default it is given.\<close>

theorem tag16_number_roundtrip:
  assumes "room buf 11" and "at_end buf"
  shows "(\<exists>buf' tag. GWEN_Tag16_WriteUint16TagToBuffer ty v16 buf = Ret buf'
      \<and> GWEN_Tag16_fromBuffer2 (\<lambda>_. True) (drop (length (contents buf)) (contents buf')) 5 doCopy = Ret (Some tag)
      \<and> GWEN_Tag16_GetTagDataAsUint16 (Some tag) d16 = Ret v16)
    \<and> (\<exists>buf' tag. GWEN_Tag16_WriteUint32TagToBuffer ty v32 buf = Ret buf'
      \<and> GWEN_Tag16_fromBuffer2 (\<lambda>_. True) (drop (length (contents buf)) (contents buf')) 7 doCopy = Ret (Some tag)
      \<and> GWEN_Tag16_GetTagDataAsUint32 (Some tag) d32 = Ret v32)
    \<and> (\<exists>buf' tag. GWEN_Tag16_WriteUint64TagToBuffer ty v64 buf = Ret buf'
      \<and> GWEN_Tag16_fromBuffer2 (\<lambda>_. True) (drop (length (contents buf)) (contents buf')) 11 doCopy = Ret (Some tag)
      \<and> GWEN_Tag16_GetTagDataAsUint64 (Some tag) d64 = Ret v64)"
proof (intro conjI)
  note n = tag_number [OF room_mono [OF assms(1)] assms(2)]
  from n [of 2 ty v16 doCopy] show "\<exists>buf' tag. GWEN_Tag16_WriteUint16TagToBuffer ty v16 buf = Ret buf'
      \<and> GWEN_Tag16_fromBuffer2 (\<lambda>_. True) (drop (length (contents buf)) (contents buf')) 5 doCopy = Ret (Some tag)
      \<and> GWEN_Tag16_GetTagDataAsUint16 (Some tag) d16 = Ret v16"
    by (force simp: GWEN_Tag16_WriteUint16TagToBuffer_def GWEN_Tag16_GetTagDataAsUint16_def le_word_full word_le_nat_alt)
  from n [of 4 ty v32 doCopy] show "\<exists>buf' tag. GWEN_Tag16_WriteUint32TagToBuffer ty v32 buf = Ret buf'
      \<and> GWEN_Tag16_fromBuffer2 (\<lambda>_. True) (drop (length (contents buf)) (contents buf')) 7 doCopy = Ret (Some tag)
      \<and> GWEN_Tag16_GetTagDataAsUint32 (Some tag) d32 = Ret v32"
    by (force simp: GWEN_Tag16_WriteUint32TagToBuffer_def GWEN_Tag16_GetTagDataAsUint32_def le_word_full word_le_nat_alt)
  from n [of 8 ty v64 doCopy] show "\<exists>buf' tag. GWEN_Tag16_WriteUint64TagToBuffer ty v64 buf = Ret buf'
      \<and> GWEN_Tag16_fromBuffer2 (\<lambda>_. True) (drop (length (contents buf)) (contents buf')) 11 doCopy = Ret (Some tag)
      \<and> GWEN_Tag16_GetTagDataAsUint64 (Some tag) d64 = Ret v64"
    by (force simp: GWEN_Tag16_WriteUint64TagToBuffer_def GWEN_Tag16_GetTagDataAsUint64_def le_word_full word_le_nat_alt)
qed

theorem tag16_number_roundtrip_witness:
  "\<exists>buf buf' tag. GWEN_Tag16_WriteUint32TagToBuffer 9 0xdeadbeef buf = Ret buf'
      \<and> GWEN_Tag16_fromBuffer2 (\<lambda>_. True) (drop (length (contents buf)) (contents buf')) 7 True = Ret (Some tag)
      \<and> GWEN_Tag16_GetTagDataAsUint32 (Some tag) 0 = Ret 0xdeadbeef"
proof -
  from fresh_at_end obtain bf where bf: "room bf 1000" "at_end bf" by blast
  have "room bf 11" by (rule room_mono [OF bf(1)]) simp
  from tag16_number_roundtrip [OF this bf(2), where ty = 9 and ?v32.0 = "0xdeadbeef" and ?d32.0 = 0 and doCopy = True]
  show ?thesis by blast
qed

text \<open>A tag built in place, \<^verbatim>\<open>GWEN_Tag16_StartTagInBuffer\<close>, then its payload appended, then
  \<^verbatim>\<open>GWEN_Tag16_EndTagInBuffer\<close>, leaves exactly the bytes that writing the whole tag at once leaves.\<close>

theorem tag16_start_end:
  assumes room: "room buf (length bs + 3)" and p: "at_end buf" and small: "length bs < 65536"
    and low: "unat (hardLimit buf) < 2147483648"
  shows "\<exists>pos b1 b2 b3 b4. GWEN_Tag16_StartTagInBuffer ty (Some buf) = Ret (pos, Some b1)
    \<and> GWEN_Buffer_AppendBytes b1 bs (of_nat (length bs)) = Ret (0, b2)
    \<and> GWEN_Tag16_EndTagInBuffer pos b2 = Ret (0, b3)
    \<and> GWEN_Tag16_WriteTagToBuffer ty bs (int (length bs)) buf = Ret b4 \<and> contents b3 = contents b4"
proof -
  let ?n = "length bs" and ?h0 = "[ucast (ty AND 0xff), 0, 0] :: byte list" and ?u = "unat (bytesUsed buf)"
  have "?n + 3 = length ?h0 + ?n" by simp
  with room have "room buf (length ?h0 + ?n)" by (simp only:)
  from write_at_pos [OF this] p obtain a1 a2 b1 where
    s: "GWEN_Buffer_AllocRoom buf 3 = Ret (0, a1)" "poke a1 (GWEN_Buffer_GetPosPointer a1) ?h0 = Ret a2"
      "GWEN_Buffer_AdjustUsedBytes (snd (GWEN_Buffer_IncrementPos a2 3)) = Ret (0, b1)"
      "contents b1 = contents buf @ ?h0" "at_end b1" "room b1 ?n"
    by (auto simp: at_end_def numeral_3_eq_3)
  let ?p = "sint (GWEN_Buffer_GetPos buf)"
  have start: "GWEN_Tag16_StartTagInBuffer ty (Some buf) = Ret (?p, Some b1)"
    by (simp add: GWEN_Tag16_StartTagInBuffer_def Let_def s)
  have ul: "?u + ?n + 5 < 2147483648" using room low by (simp add: room_def)
  then have pu: "?p = int ?u"
    using p sint_u32_small [of "bytesUsed buf"] by (simp add: at_end_def GWEN_Buffer_GetPos_def)
  have un: "unat (of_nat ?n :: u32) = ?n" using small by (intro unat_of_nat_u32) simp
  from AppendBytes_room [of b1 "of_nat ?n" 0 bs] s(6) un obtain b2 where
    b2: "GWEN_Buffer_AppendBytes b1 bs (of_nat ?n) = Ret (0, b2)" "append_post b1 bs 0 b2" "room b2 0"
    by auto
  note post = append_post_contents [OF room_wf [OF s(6)] b2(2)]
  have u1: "unat (bytesUsed b1) = ?u + 3"
    using length_contents [OF room_wf [OF s(6)]] length_contents [OF room_wf [OF room]] s(4) by simp
  have u2: "unat (bytesUsed b2) = ?u + 3 + ?n" using post(4) u1 by simp
  have "sint (pos b2) = int (?u + 3 + ?n)"
    using post(11) s(5) u2 sint_u32_small [of "bytesUsed b2"] ul by (simp add: at_end_def)
  then have pay: "sint (GWEN_Buffer_GetPos b2) - ?p - 3 = int ?n" using pu by (simp add: GWEN_Buffer_GetPos_def)
  from poke_data [OF post(1), of "?u + 1" "[of_nat ?n, of_nat (?n div 256)]"] u2 obtain b3 where
    b3: "poke b2 (ptr b2 + (?u + 1)) [of_nat ?n, of_nat (?n div 256)] = Ret b3"
      "contents b3 = take (?u + 1) (contents b2) @ [of_nat ?n, of_nat (?n div 256)] @ drop (?u + 3) (contents b2)"
    by (auto simp: numeral_3_eq_3)
  have e: "word_of_int (drop_bit 8 (int ?n)) = (of_nat (?n div 256) :: byte)"
    using zdiv_int [of ?n 256] of_int_of_nat_eq [of "?n div 256", where ?'a = byte] by (simp add: drop_bit_eq_div)
  have "in_int (sint (GWEN_Buffer_GetPos b2) - ?p)" "in_int (int ?n)"
    using pay ul by (auto simp: in_int_def)
  moreover have "\<not> int (ptr b2) + int ?u + 1 < 0" by linarith
  ultimately have fin: "GWEN_Tag16_EndTagInBuffer ?p b2 = Ret (0, b3)"
    using b3(1) pay e
    by (simp add: GWEN_Tag16_EndTagInBuffer_def Let_def pu GWEN_Buffer_GetStart_def nat_add_distrib add.assoc)
  have lc: "length (contents buf) = ?u" by (rule length_contents [OF room_wf [OF room]])
  have "contents b3 = contents buf @ t16_header ty ?n @ bs"
    using b3(2) post(3) s(4) lc by (simp add: t16_header_def)
  moreover obtain b4 where "GWEN_Tag16_WriteTagToBuffer ty bs (int ?n) buf = Ret b4"
      "contents b4 = contents buf @ t16_header ty ?n @ bs"
    using writeTag_correct [of buf ?n 0 bs ty] room p small by (auto simp: GWEN_Tag16_WriteTagToBuffer_def)
  ultimately show ?thesis using start b2(1) fin by metis
qed

theorem tag16_start_end_witness:
  "\<exists>buf pos b1 b2 b3 b4. GWEN_Tag16_StartTagInBuffer 7 (Some buf) = Ret (pos, Some b1)
    \<and> GWEN_Buffer_AppendBytes b1 [1, 2] 2 = Ret (0, b2) \<and> GWEN_Tag16_EndTagInBuffer pos b2 = Ret (0, b3)
    \<and> GWEN_Tag16_WriteTagToBuffer 7 [1, 2] 2 buf = Ret b4 \<and> contents b3 = contents b4"
proof -
  from fresh_at_end obtain bf where
    bf: "GWEN_Buffer_new (16 * 1024 * 1024) (\<lambda>_. 7) (\<lambda>_. True) None 2 0 True = Ret bf" "room bf 1000" "at_end bf"
    by blast
  have "hardLimit bf = 16 * 1024 * 1024" using bf(1) by (auto simp: GWEN_Buffer_new_def Let_def)
  with tag16_start_end [OF room_mono [OF bf(2)] bf(3), of "[1, 2]" 7] show ?thesis
    by (simp add: exI [of _ bf])
qed

text \<open>
  \<^verbatim>\<open>GWEN_Tag16_fromBuffer\<close> hands the number of bytes in use to the reader together with the position, so
  that with a position behind 0 the reader believes in more bytes than there are: here the one byte of
  data comes from behind the used bytes.
\<close>

definition ex_overread :: gwen_buffer where
  "ex_overread = \<lparr>realPtr = Some [9, 1, 1, 0, 77], ptr = 0, pos = 1, bufferSize = 5, realBufferSize = 5,
     bytesUsed = 4, flags = 1, mode = 3, hardLimit = 1000, step = 1024, bookmarks = replicate 64 0,
     refCount = 1, fresh = (\<lambda>_. 0), allocOk = (\<lambda>_. True)\<rparr>"

theorem tag16_fromBuffer_overread:
  "\<exists>tag buf'. GWEN_Tag16_fromBuffer (\<lambda>_. True) ex_overread = Ret (Some tag, buf')
     \<and> GWEN_Buffer_GetBytesLeft ex_overread < t16_tagSize tag \<and> t16_tagData tag = Some [77]"
  by (simp add: ex_overread_def GWEN_Tag16_fromBuffer_def GWEN_Tag16_fromBuffer2_def GWEN_Tag16_newCopy_def
      GWEN_Tag16_new_def region_def Let_def GWEN_Buffer_GetPosPointer_def GWEN_Buffer_GetUsedBytes_def
      GWEN_Buffer_IncrementPos_def GWEN_Buffer_GetBytesLeft_def)

end
