(* ===== verification/Gwen_TLV.thy ===== *)
theory Gwen_TLV
  imports Gwen_BufferIO
begin

text \<open>
  Type-length-value objects, \<^verbatim>\<open>src/parser/tlv.c\<close>, in the BER form (class and constructed flag in the top
  three bits, long types in a second byte, lengths of up to five bytes) and the simple form (one byte
  each). The readers work on memory: the list of bytes from a pointer on, \<open>Fault\<close> behind its end, so
  that a reader that looks further than the size it was given is seen. \<^verbatim>\<open>GWEN_TLV_Buffer_To_DB\<close>, which
  fills a configuration tree, is not part of this theory.
\<close>

section \<open>Objects\<close>

record gwen_tlv =
  tlv_isBerTlv :: bool
  tlv_tagMode :: u32
  tlv_tagSize :: u32
  tlv_tagType :: u32
  tlv_tagLength :: u32
  tlv_tagData :: "byte list option"

definition GWEN_TLV_new :: gwen_tlv where
  "GWEN_TLV_new = \<lparr>tlv_isBerTlv = False, tlv_tagMode = 0, tlv_tagSize = 0, tlv_tagType = 0,
     tlv_tagLength = 0, tlv_tagData = None\<rparr>"

definition GWEN_TLV_create ::
  "(nat \<Rightarrow> bool) \<Rightarrow> u32 \<Rightarrow> u32 \<Rightarrow> byte list \<Rightarrow> u32 \<Rightarrow> bool \<Rightarrow> gwen_tlv outcome" where
  "GWEN_TLV_create mallocOk tagType tagMode p dlen isBerTlv =
    (if tagType > 255 then Abort
     else if isBerTlv \<and> dlen > 65535 then Abort
     else if \<not> isBerTlv \<and> dlen > 255 then Abort
     else
       (let tlv = GWEN_TLV_new\<lparr>tlv_tagType := tagType, tlv_tagMode := tagMode, tlv_isBerTlv := isBerTlv,
                                tlv_tagLength := dlen\<rparr>
        in if dlen \<noteq> 0 then
             obind (oassert (mallocOk (unat dlen))) (\<lambda>_.
             obind (region p dlen) (\<lambda>bs. Ret (tlv\<lparr>tlv_tagData := Some bs\<rparr>)))
           else Ret tlv))"

definition GWEN_TLV_IsBerTlv :: "gwen_tlv \<Rightarrow> bool" where
  "GWEN_TLV_IsBerTlv tlv = tlv_isBerTlv tlv"

definition GWEN_TLV_GetTagType :: "gwen_tlv \<Rightarrow> u32" where
  "GWEN_TLV_GetTagType tlv = tlv_tagType tlv"

definition GWEN_TLV_GetTagLength :: "gwen_tlv \<Rightarrow> u32" where
  "GWEN_TLV_GetTagLength tlv = tlv_tagLength tlv"

definition GWEN_TLV_GetTagSize :: "gwen_tlv \<Rightarrow> u32" where
  "GWEN_TLV_GetTagSize tlv = tlv_tagSize tlv"

definition GWEN_TLV_GetTagData :: "gwen_tlv \<Rightarrow> byte list option" where
  "GWEN_TLV_GetTagData tlv = tlv_tagData tlv"

definition GWEN_TLV_IsContructed :: "gwen_tlv \<Rightarrow> u32" where
  "GWEN_TLV_IsContructed tlv = tlv_tagMode tlv AND 0x20"

definition GWEN_TLV_GetClass :: "gwen_tlv \<Rightarrow> u32" where
  "GWEN_TLV_GetClass tlv = tlv_tagMode tlv AND 0xc0"

section \<open>Reading\<close>

text \<open>\<open>n\<close> bytes of memory from index \<open>i\<close> on.\<close>

definition mem :: "byte list \<Rightarrow> u32 \<Rightarrow> nat \<Rightarrow> byte list outcome" where
  "mem p i n = (if unat i + n \<le> length p then Ret (window (unat i) n p) else Fault)"

text \<open>Bytes with the most significant first, as the readers add them up.\<close>

definition be64 :: "byte list \<Rightarrow> u64" where
  "be64 bs = foldl (\<lambda>v b. push_bit 8 v + ucast b) 0 bs"

text \<open>The type, common to both readers: index of its last byte and its value. The check against the size
  for a second byte cannot fail, since the size is at least 2.\<close>

definition tlv_read_type :: "byte list \<Rightarrow> u32 \<Rightarrow> bool \<Rightarrow> (u32 \<times> u64 \<times> u64) option outcome" where
  "tlv_read_type p sz isBerTlv =
     obind (mem p 0 1) (\<lambda>bs.
       let j = (ucast (hd bs) :: u64); tagMode = j AND 0xe0
       in if isBerTlv then
            (if j AND 0x1f = 0x1f then
               (if 1 \<ge> sz then Ret None
                else obind (mem p 1 1) (\<lambda>bs. Ret (Some (1, tagMode, ucast (hd bs)))))
             else Ret (Some (0, tagMode, j AND 0x1f)))
          else Ret (Some (0, tagMode, j)))"

text \<open>The length in \<^verbatim>\<open>GWEN_TLV_fromBuffer\<close>: index of its last byte and its value.\<close>

definition GWEN_TLV_fromBuffer_length :: "byte list \<Rightarrow> u32 \<Rightarrow> bool \<Rightarrow> u32 \<Rightarrow> (u32 \<times> u64) option outcome" where
  "GWEN_TLV_fromBuffer_length p sz isBerTlv ps =
     obind (mem p ps 1) (\<lambda>bs.
       let j = (ucast (hd bs) :: u64)
       in if isBerTlv then
            (if j AND 0x80 \<noteq> 0 then
               (if j = 0x81 then
                  (if ps + 1 \<ge> sz then Ret None
                   else obind (mem p (ps + 1) 1) (\<lambda>bs. Ret (Some (ps + 1, be64 bs))))
                else if j = 0x82 then
                  (if ps + 1 \<ge> sz then Ret None
                   else obind (mem p (ps + 1) 2) (\<lambda>bs. Ret (Some (ps + 2, be64 bs))))
                else Ret None)
             else Ret (Some (ps, j)))
          else if j = 255 then
            (if ps + 2 \<ge> sz then Ret None
             else obind (mem p (ps + 1) 2) (\<lambda>bs. Ret (Some (ps + 2, be64 bs))))
          else Ret (Some (ps, j)))"

definition GWEN_TLV_fromBuffer ::
  "(nat \<Rightarrow> bool) \<Rightarrow> gwen_buffer \<Rightarrow> bool \<Rightarrow> (gwen_tlv option \<times> gwen_buffer) outcome" where
  "GWEN_TLV_fromBuffer mallocOk mbuf isBerTlv =
    (if GWEN_Buffer_GetBytesLeft mbuf = 0 then Ret (None, mbuf)
     else
       (let startPos = GWEN_Buffer_GetPos mbuf;
            p = drop (GWEN_Buffer_GetPosPointer mbuf) (blk mbuf);
            sz = GWEN_Buffer_GetBytesLeft mbuf
        in if sz < 2 then Ret (None, mbuf)
           else obind (tlv_read_type p sz isBerTlv) (\<lambda>r.
             case r of
               None \<Rightarrow> Ret (None, mbuf)
             | Some (ps, tagMode, tagType) \<Rightarrow>
                 if ps + 1 \<ge> sz then Ret (None, mbuf)
                 else obind (GWEN_TLV_fromBuffer_length p sz isBerTlv (ps + 1)) (\<lambda>r.
                   case r of
                     None \<Rightarrow> Ret (None, mbuf)
                   | Some (ps, j) \<Rightarrow>
                       (let ps = ps + 1; tagLength = (ucast j :: u32);
                            mbuf = snd (GWEN_Buffer_IncrementPos mbuf ps)
                        in if ps + tagLength > sz then Ret (None, mbuf)
                           else
                             (let tlv = GWEN_TLV_new\<lparr>tlv_isBerTlv := isBerTlv, tlv_tagMode := ucast tagMode,
                                          tlv_tagType := ucast tagType, tlv_tagLength := tagLength\<rparr>
                              in obind (if tagLength \<noteq> 0 then
                                          (if \<not> mallocOk (unat tagLength) then Fault
                                           else obind (mem p ps (unat tagLength)) (\<lambda>bs.
                                                  Ret (tlv\<lparr>tlv_tagData := Some bs\<rparr>)))
                                        else Ret tlv) (\<lambda>tlv.
                                   let mbuf = snd (GWEN_Buffer_IncrementPos mbuf tagLength)
                                   in Ret (Some (tlv\<lparr>tlv_tagSize := GWEN_Buffer_GetPos mbuf - startPos\<rparr>), mbuf))))))))"

text \<open>
  The length in \<^verbatim>\<open>GWEN_TLV_ReadHeader\<close>, \<open>Inl\<close> a return with an error. In the four byte form the first byte
  is shifted as an \<^verbatim>\<open>int\<close>, so that its top bit becomes a sign.
\<close>

definition GWEN_TLV_ReadHeader_length ::
  "byte list \<Rightarrow> u32 \<Rightarrow> bool \<Rightarrow> u32 \<Rightarrow> (int + u32 \<times> u64) outcome" where
  "GWEN_TLV_ReadHeader_length p sz isBerTlv ps =
     obind (mem p ps 1) (\<lambda>bs.
       let j = (ucast (hd bs) :: u64)
       in if isBerTlv then
            (if j AND 0x80 \<noteq> 0 then
               (if j = 0x81 then
                  (if ps + 1 \<ge> sz then Ret (Inl GWEN_ERROR_BAD_DATA)
                   else obind (mem p (ps + 1) 1) (\<lambda>bs. Ret (Inr (ps + 1, be64 bs))))
                else if j = 0x82 then
                  (if ps + 1 \<ge> sz then Ret (Inl GWEN_ERROR_BAD_DATA)
                   else obind (mem p (ps + 1) 2) (\<lambda>bs. Ret (Inr (ps + 2, be64 bs))))
                else if j = 0x83 then
                  (if ps + 2 \<ge> sz then Ret (Inl GWEN_ERROR_BAD_DATA)
                   else obind (mem p (ps + 1) 3) (\<lambda>bs. Ret (Inr (ps + 3, be64 bs))))
                else if j = 0x84 then
                  (if ps + 3 \<ge> sz then Ret (Inl GWEN_ERROR_BAD_DATA)
                   else obind (mem p (ps + 1) 4) (\<lambda>bs.
                          Ret (Inr (ps + 4, scast (push_bit 24 (ucast (hd bs)) :: u32) + be64 (tl bs)))))
                else if j = 0x85 then
                  (if ps + 4 \<ge> sz then Ret (Inl GWEN_ERROR_BAD_DATA)
                   else obind (mem p (ps + 1) 5) (\<lambda>bs. Ret (Inr (ps + 5, be64 bs))))
                else Ret (Inl GWEN_ERROR_BAD_DATA))
             else Ret (Inr (ps, j)))
          else if j = 255 then
            (if ps + 2 \<ge> sz then Ret (Inl GWEN_ERROR_BAD_DATA)
             else obind (mem p (ps + 1) 2) (\<lambda>bs. Ret (Inr (ps + 2, be64 bs))))
          else Ret (Inr (ps, j)))"

definition GWEN_TLV_ReadHeader ::
  "gwen_tlv \<Rightarrow> byte list \<Rightarrow> u32 \<Rightarrow> bool \<Rightarrow> (int \<times> gwen_tlv) outcome" where
  "GWEN_TLV_ReadHeader tlv p sz isBerTlv =
    (if sz < 2 then Ret (GWEN_ERROR_BAD_DATA, tlv)
     else obind (tlv_read_type p sz isBerTlv) (\<lambda>r.
       case r of
         None \<Rightarrow> Ret (0, tlv)
       | Some (ps, tagMode, tagType) \<Rightarrow>
           if ps + 1 \<ge> sz then Ret (GWEN_ERROR_BAD_DATA, tlv)
           else obind (GWEN_TLV_ReadHeader_length p sz isBerTlv (ps + 1)) (\<lambda>r.
             case r of
               Inl rv \<Rightarrow> Ret (rv, tlv)
             | Inr (ps, tagLength) \<Rightarrow>
                 (let ps = ps + 1
                  in Ret (sint ps, tlv\<lparr>tlv_isBerTlv := isBerTlv, tlv_tagMode := ucast tagMode,
                            tlv_tagType := ucast tagType, tlv_tagLength := ucast tagLength,
                            tlv_tagSize := ucast (ucast ps + tagLength)\<rparr>)))))"

section \<open>Writing\<close>

text \<open>The type, as both writers write it in the BER form.\<close>

definition tlv_type_bytes :: "u32 \<Rightarrow> u32 \<Rightarrow> byte list" where
  "tlv_type_bytes tagType tagMode =
    (let j = (ucast tagMode :: byte)
     in if tagType \<ge> 0x1f then [j OR 0x1f, ucast tagType] else [j OR ucast tagType])"

definition GWEN_TLV_DirectlyToBuffer ::
  "u32 \<Rightarrow> u32 \<Rightarrow> byte list \<Rightarrow> int \<Rightarrow> bool \<Rightarrow> gwen_buffer \<Rightarrow> (int \<times> gwen_buffer) outcome" where
  "GWEN_TLV_DirectlyToBuffer tagType tagMode tagData tagLength isBerTlv mbuf =
    (let tagLength = (if tagLength = -1 then int (strlen tagData) else tagLength);
         b0 = (word_of_int tagLength :: byte); b1 = (word_of_int (drop_bit 8 tagLength) :: byte);
         hdr = (if isBerTlv then
                  tlv_type_bytes tagType tagMode @
                  (if tagLength > 255 then [0x82, b1, b0]
                   else if tagLength > 127 then [0x81, b0]
                   else [b0 AND 0x7f])
                else [ucast tagType, b0])
     in obind (appends GWEN_Buffer_AppendByte mbuf hdr) (\<lambda>mbuf.
        obind (if tagLength \<noteq> 0 then GWEN_Buffer_AppendBytes mbuf tagData (word_of_int tagLength)
               else Ret (0, mbuf)) (\<lambda>(_, mbuf). Ret (0, mbuf))))"

definition GWEN_TLV_toBuffer :: "gwen_tlv \<Rightarrow> gwen_buffer \<Rightarrow> (int \<times> gwen_buffer) outcome" where
  "GWEN_TLV_toBuffer tlv mbuf =
     GWEN_TLV_DirectlyToBuffer (tlv_tagType tlv) (tlv_tagMode tlv)
       (case tlv_tagData tlv of None \<Rightarrow> [] | Some bs \<Rightarrow> bs) (sint (tlv_tagLength tlv)) (tlv_isBerTlv tlv) mbuf"

definition tlv_length_byte :: "u64 \<Rightarrow> nat \<Rightarrow> byte" where
  "tlv_length_byte tagLength s = ucast (drop_bit s tagLength AND 0xff)"

definition GWEN_TLV_WriteHeader ::
  "u32 \<Rightarrow> u32 \<Rightarrow> u64 \<Rightarrow> bool \<Rightarrow> gwen_buffer \<Rightarrow> (int \<times> gwen_buffer) outcome" where
  "GWEN_TLV_WriteHeader tagType tagMode tagLength isBerTlv mbuf =
     obind (appends GWEN_Buffer_AppendByte mbuf
       (if isBerTlv then
          tlv_type_bytes tagType tagMode @
          (if tagLength > 0xffffffff then 0x85 # map (tlv_length_byte tagLength) [32, 24, 16, 8, 0]
           else if tagLength > 0xffffff then 0x84 # map (tlv_length_byte tagLength) [24, 16, 8, 0]
           else if tagLength > 0xffff then 0x83 # map (tlv_length_byte tagLength) [16, 8, 0]
           else if tagLength > 0xff then 0x82 # map (tlv_length_byte tagLength) [8, 0]
           else if tagLength > 127 then [0x81, tlv_length_byte tagLength 0]
           else [ucast (tagLength AND 0x7f)])
        else [ucast tagType, tlv_length_byte tagLength 0])) (\<lambda>mbuf. Ret (0, mbuf))"

section \<open>Scanning a header byte by byte\<close>

text \<open>\<^verbatim>\<open>GWEN_TLV_ParseLength\<close>: further bytes of the type, then the bytes of the length.\<close>

lemma ReadByte_progress:
  assumes "GWEN_Buffer_ReadByte mbuf = Ret (rv, mbuf')" and "\<not> rv < 0"
  shows "unat (bytesUsed mbuf') - unat (pos mbuf') < unat (bytesUsed mbuf) - unat (pos mbuf)"
proof -
  have lt: "pos mbuf < bytesUsed mbuf"
    using assms by (auto simp: GWEN_Buffer_ReadByte_def gwen_errors split: if_splits)
  then have "unat (pos mbuf + 1) = unat (pos mbuf) + 1"
    using unat_u32_bound [of "bytesUsed mbuf"] by (intro unat_Suc_u32) (simp add: word_less_nat_alt)
  with assms lt show ?thesis
    by (auto simp: GWEN_Buffer_ReadByte_def outcome_simps word_less_nat_alt gwen_errors split: if_splits)
qed

function tlv_skip_type :: "gwen_buffer \<Rightarrow> u32 \<Rightarrow> (u32 \<times> gwen_buffer) outcome" where
  "tlv_skip_type mbuf tlv_len =
     obind (GWEN_Buffer_ReadByte mbuf) (\<lambda>(rv, mbuf).
       if rv < 0 then Abort
       else if rv > 127 then tlv_skip_type mbuf (tlv_len + 1) else Ret (tlv_len + 1, mbuf))"
  by pat_completeness auto
termination
  by (relation "measure (\<lambda>(mbuf, tlv_len). unat (bytesUsed mbuf) - unat (pos mbuf))")
     (auto dest: ReadByte_progress)

declare tlv_skip_type.simps [simp del]

primrec tlv_length_bytes :: "nat \<Rightarrow> gwen_buffer \<Rightarrow> u32 \<Rightarrow> u32 \<Rightarrow> (u32 \<times> u32 \<times> gwen_buffer) outcome" where
  "tlv_length_bytes 0 mbuf tlv_len data_len = Ret (data_len, tlv_len, mbuf)"
| "tlv_length_bytes (Suc n) mbuf tlv_len data_len =
     obind (GWEN_Buffer_ReadByte mbuf) (\<lambda>(rv, mbuf).
       if rv < 0 then Abort
       else tlv_length_bytes n mbuf (tlv_len + 1) (push_bit 8 data_len + word_of_int rv))"

text \<open>The data length, the number of bytes read for type and length, and the buffer behind them.\<close>

definition GWEN_TLV_ParseLength :: "gwen_buffer \<Rightarrow> (u32 \<times> u32 \<times> gwen_buffer) outcome" where
  "GWEN_TLV_ParseLength mbuf =
     obind (GWEN_Buffer_ReadByte mbuf) (\<lambda>(rv, mbuf).
       if rv < 0 then Abort
       else
         obind (if (word_of_int rv :: byte) AND 0x1f = 0x1f then tlv_skip_type mbuf 1 else Ret (1, mbuf)) (\<lambda>(tlv_len, mbuf).
         obind (GWEN_Buffer_ReadByte mbuf) (\<lambda>(rv, mbuf).
           let b = (word_of_int rv :: byte); tlv_len = tlv_len + 1
           in if b AND 0x80 \<noteq> 0 then
                obind (oassert (b \<noteq> 0xff)) (\<lambda>_. tlv_length_bytes (unat (b - 128)) mbuf tlv_len 0)
              else Ret (ucast b, tlv_len, mbuf))))"

section \<open>Bits of the header\<close>

lemma tlv_masks: "(0x1f :: 'a::len word) = mask 5" "(0xe0 :: 'a word) = push_bit 5 (mask 3)"
    "(0xff :: 'a word) = mask 8" "(0x7f :: 'a word) = mask 7"
  by (simp_all add: mask_eq_exp_minus_1 push_bit_eq_mult)

lemma take_bit_self: "unat (w :: 'a::len word) < 2 ^ k \<Longrightarrow> take_bit k w = w"
  by (simp add: word_unat_eq_iff unsigned_take_bit_eq take_bit_nat_eq_self)

lemma bits_below: "unat (w :: 'a::len word) < 2 ^ k \<Longrightarrow> bit w n \<Longrightarrow> n < k"
  using take_bit_self [of w k] bit_take_bit_iff [of k w n] by metis

lemma mode_bits: "(m :: u32) AND NOT 0xe0 = 0 \<Longrightarrow> bit m n \<Longrightarrow> 5 \<le> n \<and> n < 8"
proof -
  assume m: "m AND NOT 0xe0 = 0" and b: "bit m n"
  have "\<not> bit (m AND NOT 0xe0) n" using m by simp
  then show ?thesis using b bit_imp_le_length [OF b] by (auto simp: tlv_masks bit_simps)
qed

lemma type_short:
  fixes ty m :: u32
  assumes "ty < 0x1f" and m: "m AND NOT 0xe0 = 0"
  shows "(ucast (ucast m OR ucast ty :: byte) :: u64) AND 0x1f = ucast ty"
    and "(ucast (ucast m OR ucast ty :: byte) :: u64) AND 0xe0 = ucast m"
    and "(ucast ty :: u64) \<noteq> 0x1f"
proof -
  have lt: "unat ty < 2 ^ 5" using assms(1) by (simp add: word_less_nat_alt)
  show "(ucast (ucast m OR ucast ty :: byte) :: u64) AND 0x1f = ucast ty"
    unfolding tlv_masks
    by (rule bit_word_eqI) (auto simp: bit_simps dest: mode_bits [OF m] bits_below [OF lt])
  show "(ucast (ucast m OR ucast ty :: byte) :: u64) AND 0xe0 = ucast m"
    unfolding tlv_masks
    by (rule bit_word_eqI) (auto simp: bit_simps dest: mode_bits [OF m] bits_below [OF lt])
  have "unat (ucast ty :: u64) = unat ty"
    using unat_u32_bound [of ty] by (simp add: unsigned_ucast_eq take_bit_nat_eq_self)
  with assms(1) show "(ucast ty :: u64) \<noteq> 0x1f" by (auto simp: word_less_nat_alt)
qed

lemma type_long:
  fixes ty m :: u32
  assumes m: "m AND NOT 0xe0 = 0" and ty: "ty \<le> 255"
  shows "(ucast (ucast m OR 0x1f :: byte) :: u64) AND 0x1f = 0x1f"
    and "(ucast (ucast m OR 0x1f :: byte) :: u64) AND 0xe0 = ucast m"
    and "(ucast (ucast (ucast ty :: byte) :: u64) :: u32) = ty"
    and "(ucast (ucast m :: u64) :: u32) = m" "(ucast (ucast ty :: u64) :: u32) = ty"
proof -
  have lt: "unat ty < 2 ^ 8" using ty by (simp add: word_le_nat_alt)
  show "(ucast (ucast m OR 0x1f :: byte) :: u64) AND 0x1f = 0x1f"
    unfolding tlv_masks by (rule bit_word_eqI) (auto simp: bit_simps)
  show "(ucast (ucast m OR 0x1f :: byte) :: u64) AND 0xe0 = ucast m"
    unfolding tlv_masks by (rule bit_word_eqI) (auto simp: bit_simps dest: mode_bits [OF m])
  show "(ucast (ucast (ucast ty :: byte) :: u64) :: u32) = ty"
    by (rule bit_word_eqI) (auto simp: bit_simps dest: bits_below [OF lt])
  show "(ucast (ucast m :: u64) :: u32) = m" "(ucast (ucast ty :: u64) :: u32) = ty"
    by (rule bit_word_eqI; auto simp: bit_simps)+
qed

text \<open>Reading the type that was written.\<close>

lemma read_type:
  fixes ty m :: u32
  assumes m: "m AND NOT 0xe0 = 0" and ty: "ty \<le> 255" and sz: "2 \<le> sz"
  shows "\<exists>tm tt. tlv_read_type (tlv_type_bytes ty m @ rest) sz True
      = Ret (Some (of_nat (length (tlv_type_bytes ty m) - 1), tm, tt)) \<and> ucast tm = m \<and> ucast tt = ty"
proof (cases "ty \<ge> 0x1f")
  case True
  have "\<not> 1 \<ge> sz" using sz by (auto simp: word_le_nat_alt)
  then show ?thesis
    using True type_long [OF m ty]
    by (simp add: tlv_read_type_def tlv_type_bytes_def mem_def window_def Let_def)
next
  case False
  then have lt: "ty < 0x1f" by simp
  with False type_short [OF lt m] type_long(4,5) [OF m ty] show ?thesis
    by (simp add: tlv_read_type_def tlv_type_bytes_def mem_def window_def Let_def)
qed

section \<open>Lengths\<close>

lemma length_byte: "(ucast (tlv_length_byte w s) :: u64) = take_bit 8 (drop_bit s w)"
  unfolding tlv_length_byte_def tlv_masks by (rule bit_word_eqI) (auto simp: bit_simps)

lemma be64_step:
  "push_bit 8 (take_bit k (drop_bit (s + 8) w)) + ucast (tlv_length_byte w s) = take_bit (k + 8) (drop_bit s (w :: u64))"
proof -
  let ?x = "take_bit (k + 8) (drop_bit s w)"
  have "take_bit k (drop_bit (s + 8) w) = drop_bit 8 ?x"
    by (rule bit_word_eqI) (auto simp: bit_simps ac_simps)
  moreover have "take_bit 8 (drop_bit s w) = take_bit 8 ?x"
    by (rule bit_word_eqI) (auto simp: bit_simps)
  ultimately show ?thesis using bits_ident [of 8 ?x] by (simp add: length_byte add.commute)
qed

lemma be64_lengths:
  "be64 [tlv_length_byte w 0] = take_bit 8 w"
  "be64 (map (tlv_length_byte w) [8, 0]) = take_bit 16 w"
  "be64 (map (tlv_length_byte w) [16, 8, 0]) = take_bit 24 w"
  using be64_step [of 8 0 w] be64_step [of 16 0 w] be64_step [of 8 8 w]
  by (simp_all add: be64_def length_byte)


lemma ucast_add_down: "(ucast (a + b :: u64) :: u32) = ucast a + ucast b"
  unfolding word_uint_eq_iff
  by (simp add: unsigned_ucast_eq uint_word_ariths take_bit_eq_mod mod_mod_cancel mod_add_eq)

lemma ucast_up_down: "(ucast (ucast (x :: u32) :: u64) :: u32) = x"
  by (rule bit_word_eqI) (auto simp: bit_simps)

lemma ucast_scast: "(ucast (scast (x :: u32) :: u64) :: u32) = x"
  by (rule bit_word_eqI) (auto simp: bit_simps)

lemma be64_four:
  "(ucast (scast (push_bit 24 (ucast (tlv_length_byte w 24)) :: u32)
      + be64 (map (tlv_length_byte w) [16, 8, 0])) :: u32) = ucast w"
proof -
  let ?x = "take_bit 32 w"
  have "push_bit 24 (ucast (tlv_length_byte w 24)) = (ucast (push_bit 24 (drop_bit 24 ?x)) :: u32)"
    unfolding tlv_length_byte_def tlv_masks by (rule bit_word_eqI) (auto simp: bit_simps)
  moreover have "take_bit 24 w = take_bit 24 ?x" by simp
  ultimately show ?thesis
    using bits_ident [of 24 ?x]
    unfolding be64_lengths ucast_add_down ucast_scast
    by (simp add: ucast_add_down [symmetric]) (rule bit_word_eqI, auto simp: bit_simps)
qed

definition tlv_length_bytes_of :: "u64 \<Rightarrow> byte list" where
  "tlv_length_bytes_of tagLength =
     (if tagLength > 0xffffffff then 0x85 # map (tlv_length_byte tagLength) [32, 24, 16, 8, 0]
      else if tagLength > 0xffffff then 0x84 # map (tlv_length_byte tagLength) [24, 16, 8, 0]
      else if tagLength > 0xffff then 0x83 # map (tlv_length_byte tagLength) [16, 8, 0]
      else if tagLength > 0xff then 0x82 # map (tlv_length_byte tagLength) [8, 0]
      else if tagLength > 127 then [0x81, tlv_length_byte tagLength 0]
      else [ucast (tagLength AND 0x7f)])"

lemma mem_at:
  assumes "unat i = length pre" and "n \<le> length xs"
  shows "mem (pre @ xs) i n = Ret (take n xs)"
  using assms by (simp add: mem_def window_def)

lemma mem_after:
  assumes "unat i = length pre" and "length pre < 10" and "n \<le> length xs"
  shows "mem (pre @ b # xs) (i + 1) n = Ret (take n xs)"
  using mem_at [of "i + 1" "pre @ [b]" n xs] assms by (simp add: unat_Suc_u32)

lemma read_length:
  assumes len: "w \<le> 0xffffffff" and i: "unat i = length pre" "length pre < 3"
    and sz: "length pre + length (tlv_length_bytes_of w) \<le> unat sz"
  shows "\<exists>j. GWEN_TLV_ReadHeader_length (pre @ tlv_length_bytes_of w @ rest) sz True i
      = Ret (Inr (i + of_nat (length (tlv_length_bytes_of w) - 1), j)) \<and> (ucast j :: u32) = ucast w"
proof -
  have g: "\<not> i + k \<ge> sz" if "unat k < length (tlv_length_bytes_of w)" for k
  proof -
    have "unat k < 6" using that by (auto simp: tlv_length_bytes_of_def split: if_splits)
    then have "unat (i + k) = length pre + unat k" using i by (simp add: unat_plus_u32)
    then show ?thesis using that sz by (simp add: word_le_nat_alt)
  qed
  note cmp = word_less_nat_alt word_le_nat_alt
  consider (four) "unat w > 0xffffff" | (three) "unat w \<le> 0xffffff" "unat w > 0xffff"
    | (two) "unat w \<le> 0xffff" "unat w > 0xff" | (one) "unat w \<le> 0xff" "unat w > 127" | (none) "unat w \<le> 127"
    by linarith
  then show ?thesis
  proof cases
    case four
    then have "tlv_length_bytes_of w = 0x84 # map (tlv_length_byte w) [24, 16, 8, 0]"
      using len by (simp add: tlv_length_bytes_of_def cmp)
    then show ?thesis
      using g [of 3] be64_four [of w] i by (simp add: GWEN_TLV_ReadHeader_length_def mem_at mem_after)
  next
    case three
    then have "tlv_length_bytes_of w = 0x83 # map (tlv_length_byte w) [16, 8, 0]"
      by (simp add: tlv_length_bytes_of_def cmp)
    moreover have "take_bit 24 w = w" using three by (intro take_bit_self) simp
    ultimately show ?thesis
      using g [of 2] be64_lengths(3) [of w] i by (simp add: GWEN_TLV_ReadHeader_length_def mem_at mem_after)
  next
    case two
    then have "tlv_length_bytes_of w = 0x82 # map (tlv_length_byte w) [8, 0]"
      by (simp add: tlv_length_bytes_of_def cmp)
    moreover have "take_bit 16 w = w" using two by (intro take_bit_self) simp
    ultimately show ?thesis
      using g [of 1] be64_lengths(2) [of w] i by (simp add: GWEN_TLV_ReadHeader_length_def mem_at mem_after)
  next
    case one
    then have "tlv_length_bytes_of w = [0x81, tlv_length_byte w 0]"
      by (simp add: tlv_length_bytes_of_def cmp)
    moreover have "take_bit 8 w = w" using one by (intro take_bit_self) simp
    ultimately show ?thesis
      using g [of 1] be64_lengths(1) [of w] i by (simp add: GWEN_TLV_ReadHeader_length_def mem_at mem_after)
  next
    case none
    then have lt: "unat w < 2 ^ 7" by simp
    have "tlv_length_bytes_of w = [ucast (w AND 0x7f)]"
      using none by (simp add: tlv_length_bytes_of_def cmp)
    moreover have "(ucast (ucast (w AND 0x7f) :: byte) :: u64) = w"
      unfolding tlv_masks by (rule bit_word_eqI) (auto simp: bit_simps dest: bits_below [OF lt])
    moreover have "w AND 0x80 = 0"
    proof (rule bit_word_eqI)
      have e: "(0x80 :: u64) = 2 ^ 7" by simp
      show "bit (w AND 0x80) n = bit 0 n" for n
        unfolding e bit_and_iff bit_exp_iff using bits_below [OF lt, of n] by auto
    qed
    ultimately show ?thesis using i by (simp add: GWEN_TLV_ReadHeader_length_def mem_at)
  qed
qed

section \<open>Properties\<close>

lemma type_bytes_length: "length (tlv_type_bytes ty m) \<in> {1, 2}"
  by (simp add: tlv_type_bytes_def Let_def)

lemma length_bytes_length: "w \<le> 0xffffffff \<Longrightarrow> length (tlv_length_bytes_of w) \<in> {1..5}"
  by (auto simp: tlv_length_bytes_of_def)

text \<open>C24. A BER header is read back as it was written: type, class and constructed flag, and every length
  that fits into 32 bits, in all five forms of the length; the result is the size of the header and
  the object's size is header and data together.\<close>

theorem tlv_header_roundtrip:
  fixes ty m :: u32
  assumes room: "room mbuf 7" and m: "m AND NOT 0xe0 = 0" and ty: "ty \<le> 255" and w: "w \<le> 0xffffffff"
  shows "\<exists>mbuf' h. GWEN_TLV_WriteHeader ty m w True mbuf = Ret (0, mbuf') \<and> contents mbuf' = contents mbuf @ h
    \<and> length h \<le> 7 \<and> (\<forall>rest sz. length h \<le> unat sz \<longrightarrow>
         GWEN_TLV_ReadHeader tlv (h @ rest) sz True = Ret (int (length h),
           tlv\<lparr>tlv_isBerTlv := True, tlv_tagMode := m, tlv_tagType := ty, tlv_tagLength := ucast w,
               tlv_tagSize := of_nat (length h) + ucast w\<rparr>))"
proof -
  let ?t = "tlv_type_bytes ty m" and ?l = "tlv_length_bytes_of w"
  let ?h = "?t @ ?l"
  note lt = type_bytes_length [of ty m] and ll = length_bytes_length [OF w]
  have "room mbuf (length ?h + 0)" using room_mono [OF room, of "length ?h + 0"] lt ll by auto
  from buf.appends_law [OF this] obtain mbuf' where
    wr: "appends GWEN_Buffer_AppendByte mbuf ?h = Ret mbuf'" "contents mbuf' = contents mbuf @ ?h" by blast
  have "GWEN_TLV_WriteHeader ty m w True mbuf = Ret (0, mbuf')"
    using wr(1) unfolding GWEN_TLV_WriteHeader_def tlv_length_bytes_of_def by simp
  moreover have "GWEN_TLV_ReadHeader tlv (?h @ rest) sz True = Ret (int (length ?h),
      tlv\<lparr>tlv_isBerTlv := True, tlv_tagMode := m, tlv_tagType := ty, tlv_tagLength := ucast w,
          tlv_tagSize := of_nat (length ?h) + ucast w\<rparr>)" if sz: "length ?h \<le> unat sz" for rest sz
  proof -
    have s2: "2 \<le> sz" "\<not> sz < 2" using sz lt ll by (auto simp: word_le_nat_alt word_less_nat_alt)
    let ?i = "of_nat (length ?t - 1) + 1 :: u32"
    have i: "?i = of_nat (length ?t)" "unat ?i = length ?t" using lt by auto
    from read_type [OF m ty s2(1), of "?l @ rest"] obtain tm tt where
      rt: "tlv_read_type (?t @ ?l @ rest) sz True = Ret (Some (of_nat (length ?t - 1), tm, tt))"
        "ucast tm = m" "ucast tt = ty" by blast
    have "\<not> ?i \<ge> sz" using i(2) sz ll by (auto simp: word_le_nat_alt)
    moreover from read_length [OF w i(2), of sz rest] lt sz obtain j where
      rl: "GWEN_TLV_ReadHeader_length (?t @ ?l @ rest) sz True ?i = Ret (Inr (?i + of_nat (length ?l - 1), j))"
        "(ucast j :: u32) = ucast w"
      by auto
    moreover have "?i + of_nat (length ?l - 1) + 1 = (of_nat (length ?h) :: u32)"
      using ll i(1) by (cases "length ?l") auto
    moreover have "sint (of_nat (length ?h) :: u32) = int (length ?h)"
    proof -
      have "unat (of_nat (length ?h) :: u32) = length ?h" using lt ll by (intro unat_of_nat_u32) auto
      then show ?thesis using sint_u32_small [of "of_nat (length ?h)"] lt ll by auto
    qed
    moreover have "(ucast (ucast (of_nat (length ?h) :: u32) + j :: u64) :: u32) = of_nat (length ?h) + ucast w"
      using rl(2) by (simp only: ucast_add_down ucast_up_down)
    ultimately show ?thesis
      using s2(2) rt by (simp add: GWEN_TLV_ReadHeader_def Let_def)
  qed
  moreover have "length ?h \<le> 7" using lt ll by auto
  ultimately show ?thesis using wr(2) by blast
qed


theorem tlv_header_roundtrip_witness:
  "\<exists>mbuf mbuf' h. GWEN_TLV_WriteHeader 0x21 0xa0 70000 True mbuf = Ret (0, mbuf')
     \<and> contents mbuf' = contents mbuf @ h
     \<and> GWEN_TLV_ReadHeader GWEN_TLV_new (h @ []) 100 True = Ret (int (length h),
         GWEN_TLV_new\<lparr>tlv_isBerTlv := True, tlv_tagMode := 0xa0, tlv_tagType := 0x21, tlv_tagLength := 70000,
             tlv_tagSize := of_nat (length h) + 70000\<rparr>)"
proof -
  from fresh_at_end obtain bf where bf: "room bf 1000" by blast
  have "room bf 7" by (rule room_mono [OF bf]) simp
  moreover have "(0xa0 :: u32) AND NOT 0xe0 = 0" "(0x21 :: u32) \<le> 255" "(70000 :: u64) \<le> 0xffffffff" by simp_all
  ultimately obtain mbuf' h where
    h: "GWEN_TLV_WriteHeader 0x21 0xa0 70000 True bf = Ret (0, mbuf')" "contents mbuf' = contents bf @ h"
      "length h \<le> 7" "\<And>rest sz. length h \<le> unat sz \<Longrightarrow>
         GWEN_TLV_ReadHeader GWEN_TLV_new (h @ rest) sz True = Ret (int (length h),
         GWEN_TLV_new\<lparr>tlv_isBerTlv := True, tlv_tagMode := 0xa0, tlv_tagType := 0x21, tlv_tagLength := ucast (70000 :: u64),
             tlv_tagSize := of_nat (length h) + ucast (70000 :: u64)\<rparr>)"
    using tlv_header_roundtrip [of bf "0xa0" "0x21" 70000 GWEN_TLV_new] by blast
  have "(ucast (70000 :: u64) :: u32) = 70000" by simp
  with h(1,2,3) h(4) [of 100 "[]"] show ?thesis
    by (intro exI [of _ bf] exI [of _ mbuf'] exI [of _ h]) simp
qed

text \<open>The two readers agree where both know the form of the length.\<close>

lemma fromBuffer_length_ReadHeader:
  assumes "GWEN_TLV_ReadHeader_length p sz ber i = Ret (Inr x)" and "mem p i 1 = Ret [b]"
    and "b \<notin> {0x83, 0x84, 0x85}"
  shows "GWEN_TLV_fromBuffer_length p sz ber i = Ret (Some x)"
proof -
  have "unat (ucast b :: u64) = unat b"
    using unat_byte [of b] by (simp add: unsigned_ucast_eq take_bit_nat_eq_self)
  then have "(ucast b :: u64) \<noteq> 0x83" "(ucast b :: u64) \<noteq> 0x84" "(ucast b :: u64) \<noteq> 0x85"
    using assms(3) by (auto simp: word_unat_eq_iff)
  with assms show ?thesis
    by (auto simp: GWEN_TLV_ReadHeader_length_def GWEN_TLV_fromBuffer_length_def Let_def outcome_simps
        split: if_splits)
qed

lemma length_first_byte:
  assumes "unat w \<le> 0xffff"
  obtains b bs where "tlv_length_bytes_of w = b # bs" "b \<notin> {0x83, 0x84, 0x85}"
proof (cases "unat w \<le> 127")
  case True
  have "(ucast (w AND 0x7f) :: byte) = take_bit 7 (ucast w)"
    unfolding tlv_masks by (rule bit_word_eqI) (auto simp: bit_simps)
  then have "unat (ucast (w AND 0x7f) :: byte) = take_bit 7 (unat (ucast w :: byte))"
    by (simp only: unsigned_take_bit_eq)
  then have "unat (ucast (w AND 0x7f) :: byte) < 128" by (simp only: take_bit_eq_mod) simp
  then have "(ucast (w AND 0x7f) :: byte) \<notin> {0x83, 0x84, 0x85}" by auto
  moreover have "tlv_length_bytes_of w = [ucast (w AND 0x7f)]"
    using True by (simp add: tlv_length_bytes_of_def word_less_nat_alt)
  ultimately show ?thesis using that by blast
next
  case False
  then have "tlv_length_bytes_of w = 0x82 # map (tlv_length_byte w) [8, 0]
      \<or> tlv_length_bytes_of w = [0x81, tlv_length_byte w 0]"
    using assms by (cases "unat w > 255") (simp_all add: tlv_length_bytes_of_def word_less_nat_alt)
  then show ?thesis
  proof
    assume "tlv_length_bytes_of w = 0x82 # map (tlv_length_byte w) [8, 0]"
    then show ?thesis by (rule that) simp
  next
    assume "tlv_length_bytes_of w = [0x81, tlv_length_byte w 0]"
    then show ?thesis by (rule that) simp
  qed
qed

lemma length_byte_of_nat:
  assumes "n < 65536"
  shows "tlv_length_byte (of_nat n) 0 = of_nat n" "tlv_length_byte (of_nat n) 8 = of_nat (n div 256)"
    "ucast (of_nat n AND 0x7f :: u64) = (of_nat n AND 0x7f :: byte)"
proof -
  have e: "tlv_length_byte w s = ucast (drop_bit s w)" for w s
    unfolding tlv_length_byte_def tlv_masks by (rule bit_word_eqI) (auto simp: bit_simps)
  have u: "unat (of_nat n :: u64) = n" using assms by (simp add: unat_of_nat)
  have c: "(ucast (of_nat k :: u64) :: byte) = of_nat k" for k
    by (simp add: word_unat_eq_iff unsigned_ucast_eq unat_of_nat take_bit_eq_mod mod_mod_cancel)
  show "tlv_length_byte (of_nat n) 0 = of_nat n" by (simp add: e c)
  have "drop_bit 8 (of_nat n :: u64) = of_nat (n div 256)"
    using assms u by (simp add: word_unat_eq_iff drop_bit_eq_div unat_div unat_of_nat)
  then show "tlv_length_byte (of_nat n) 8 = of_nat (n div 256)" by (simp add: e c)
  show "ucast (of_nat n AND 0x7f :: u64) = (of_nat n AND 0x7f :: byte)"
    unfolding c [symmetric] tlv_masks by (rule bit_word_eqI) (auto simp: bit_simps)
qed

lemma directly_length:
  assumes "n < 65536"
  shows "(if int n > 255 then [0x82, word_of_int (drop_bit 8 (int n)), word_of_int (int n)]
      else if int n > 127 then [0x81, word_of_int (int n)] else [(word_of_int (int n) :: byte) AND 0x7f])
    = tlv_length_bytes_of (of_nat n)"
proof -
  have u: "unat (of_nat n :: u64) = n" using assms by (simp add: unat_of_nat)
  have b1: "word_of_int (drop_bit 8 (int n)) = (of_nat (n div 256) :: byte)"
    using zdiv_int [of n 256] of_int_of_nat_eq [of "n div 256", where ?'a = byte] by (simp add: drop_bit_eq_div)
  show ?thesis
    using assms by (simp add: tlv_length_bytes_of_def length_byte_of_nat b1 word_less_nat_alt u)
qed


text \<open>The bytes that a BER object is written as.\<close>

definition tlv_encode :: "u32 \<Rightarrow> u32 \<Rightarrow> byte list \<Rightarrow> byte list" where
  "tlv_encode ty m bs = tlv_type_bytes ty m @ tlv_length_bytes_of (of_nat (length bs)) @ bs"

lemma DirectlyToBuffer_correct:
  assumes n: "length bs < 65536" and room: "room mbuf (length (tlv_encode ty m bs) + k)"
  shows "\<exists>mbuf'. GWEN_TLV_DirectlyToBuffer ty m bs (int (length bs)) True mbuf = Ret (0, mbuf')
     \<and> contents mbuf' = contents mbuf @ tlv_encode ty m bs \<and> room mbuf' k"
proof -
  let ?h = "tlv_type_bytes ty m @ tlv_length_bytes_of (of_nat (length bs))"
  have u: "unat (of_nat (length bs) :: u32) = length bs" using n by (intro unat_of_nat_u32) simp
  have "room mbuf (length ?h + (length bs + k))" using room by (simp add: tlv_encode_def add.assoc)
  from buf.appends_law [OF this] obtain b1 where
    b1: "appends GWEN_Buffer_AppendByte mbuf ?h = Ret b1" "contents b1 = contents mbuf @ ?h" "room b1 (length bs + k)"
    by blast
  note dl = directly_length [OF n]
  have step: "GWEN_TLV_DirectlyToBuffer ty m bs (int (length bs)) True mbuf
      = obind (if length bs \<noteq> 0 then GWEN_Buffer_AppendBytes b1 bs (of_nat (length bs)) else Ret (0, b1))
          (\<lambda>(_, mbuf). Ret (0, mbuf))"
  proof -
    have ne: "int (length bs) \<noteq> -1" by simp
    show ?thesis
      unfolding GWEN_TLV_DirectlyToBuffer_def Let_def if_not_P [OF ne] if_True dl b1(1) obind.simps by simp
  qed
  show ?thesis
  proof (cases "bs = []")
    case True
    then show ?thesis using step b1 by (simp add: tlv_encode_def)
  next
    case False
    have "room b1 (unat (of_nat (length bs) :: u32) + k)" using b1(3) u by simp
    from buf.appN [OF this, of bs] u b1(2) False show ?thesis unfolding step by (auto simp: tlv_encode_def)
  qed
qed

lemma blk_contents: "drop (ptr bf) (blk bf) = contents bf @ drop (ptr bf + unat (bytesUsed bf)) (blk bf)"
proof -
  have "drop (ptr bf + unat (bytesUsed bf)) (blk bf) = drop (unat (bytesUsed bf)) (drop (ptr bf) (blk bf))"
    by (simp add: add.commute)
  then show ?thesis by (simp only: contents_def window_def append_take_drop_id)
qed

text \<open>The object that \<^verbatim>\<open>GWEN_TLV_create\<close> makes.\<close>

definition tlv_object :: "bool \<Rightarrow> u32 \<Rightarrow> u32 \<Rightarrow> byte list \<Rightarrow> gwen_tlv" where
  "tlv_object ber ty m bs = \<lparr>tlv_isBerTlv = ber, tlv_tagMode = m, tlv_tagSize = 0, tlv_tagType = ty,
     tlv_tagLength = of_nat (length bs), tlv_tagData = (if bs = [] then None else Some bs)\<rparr>"

lemma create_object:
  assumes "ty \<le> 255" "length bs < (if ber then 65536 else 256)"
  shows "GWEN_TLV_create (\<lambda>_. True) ty m bs (of_nat (length bs)) ber = Ret (tlv_object ber ty m bs)"
proof -
  have u: "unat (of_nat (length bs) :: u32) = length bs"
    using assms(2) by (intro unat_of_nat_u32) (simp split: if_splits)
  then have z: "(of_nat (length bs) :: u32) = 0 \<longleftrightarrow> bs = []" by (metis length_0_conv unat_eq_0)
  have "\<not> ty > 255" using assms(1) by (simp add: not_less)
  then show ?thesis
    using assms(2) u z
    by (auto simp: GWEN_TLV_create_def tlv_object_def GWEN_TLV_new_def word_less_nat_alt oassert_def region_def Let_def
        simp del: unsigned_of_nat split: if_splits)
qed

lemma toBuffer_object:
  assumes "length bs < 65536"
  shows "GWEN_TLV_toBuffer (tlv_object ber ty m bs) mbuf = GWEN_TLV_DirectlyToBuffer ty m bs (int (length bs)) ber mbuf"
proof -
  have u: "unat (of_nat (length bs) :: u32) = length bs" using assms by (intro unat_of_nat_u32) simp
  have "sint (of_nat (length bs) :: u32) = int (length bs)"
    using sint_u32_small [of "of_nat (length bs)"] assms unfolding u by simp
  then show ?thesis by (cases "bs = []") (simp_all add: GWEN_TLV_toBuffer_def tlv_object_def)
qed

lemma ber_roundtrip:
  fixes ty m :: u32
  assumes room: "room mbuf (length (tlv_encode ty m bs))" and empty: "contents mbuf = []"
    and m: "m AND NOT 0xe0 = 0" and ty: "ty \<le> 255" and n: "length bs < 65536"
  shows "\<exists>mbuf' mbuf''. GWEN_TLV_DirectlyToBuffer ty m bs (int (length bs)) True mbuf = Ret (0, mbuf')
    \<and> GWEN_TLV_fromBuffer (\<lambda>_. True) (GWEN_Buffer_Rewind mbuf') True
        = Ret (Some ((tlv_object True ty m bs)\<lparr>tlv_tagSize := bytesUsed mbuf'\<rparr>), mbuf'')
    \<and> GWEN_Buffer_GetBytesLeft mbuf'' = 0"
proof -
  let ?t = "tlv_type_bytes ty m" and ?w = "of_nat (length bs) :: u64"
  let ?l = "tlv_length_bytes_of ?w"
  let ?n = "of_nat (length bs) :: u32"
  have room0: "room mbuf (length (tlv_encode ty m bs) + 0)" using room by simp
  from DirectlyToBuffer_correct [OF n room0] empty obtain b where
    b: "GWEN_TLV_DirectlyToBuffer ty m bs (int (length bs)) True mbuf = Ret (0, b)"
      "contents b = tlv_encode ty m bs" "room b 0"
    by auto
  note wf = room_wf [OF b(3)]
  have uw: "unat ?w = length bs" using n by (simp add: unat_of_nat)
  then have w: "?w \<le> 0xffffffff" "unat ?w \<le> 0xffff" using n by (simp_all add: word_le_nat_alt)
  have un: "unat ?n = length bs" using n by (intro unat_of_nat_u32) simp
  note lt = type_bytes_length [of ty m] and ll = length_bytes_length [OF w(1)]
  let ?r = "GWEN_Buffer_Rewind b" and ?sz = "bytesUsed b"
  let ?rest = "drop (ptr b + unat ?sz) (blk b)"
  let ?p = "?t @ ?l @ bs @ ?rest"
  have sz: "unat ?sz = length ?t + length ?l + length bs"
    using length_contents [OF wf] b(2) by (simp add: tlv_encode_def)
  have s2: "2 \<le> ?sz" "\<not> ?sz < 2" "?sz \<noteq> 0" using sz lt ll by (auto simp: word_le_nat_alt word_less_nat_alt)
  have p: "drop (GWEN_Buffer_GetPosPointer ?r) (blk ?r) = ?p"
    using blk_contents [of b] b(2) by (simp add: GWEN_Buffer_GetPosPointer_def GWEN_Buffer_Rewind_def tlv_encode_def)
  have left: "GWEN_Buffer_GetBytesLeft ?r = ?sz" "GWEN_Buffer_GetPos ?r = 0"
    using s2(3) by (simp_all add: GWEN_Buffer_GetBytesLeft_def GWEN_Buffer_Rewind_def GWEN_Buffer_GetPos_def word_gt_0)
  let ?i = "of_nat (length ?t - 1) + 1 :: u32"
  have i: "?i = of_nat (length ?t)" "unat ?i = length ?t" using lt by auto
  from read_type [OF m ty s2(1), of "?l @ bs @ ?rest"] obtain tm tt where
    rt: "tlv_read_type ?p ?sz True = Ret (Some (of_nat (length ?t - 1), tm, tt))" "ucast tm = m" "ucast tt = ty"
    by blast
  have gi: "\<not> ?i \<ge> ?sz" using i(2) sz ll by (auto simp: word_le_nat_alt)
  from read_length [OF w(1) i(2), of ?sz "bs @ ?rest"] lt sz obtain j where
    rl: "GWEN_TLV_ReadHeader_length ?p ?sz True ?i = Ret (Inr (?i + of_nat (length ?l - 1), j))" "(ucast j :: u32) = ucast ?w"
    by auto
  obtain b0 bs0 where l0: "?l = b0 # bs0" "b0 \<notin> {0x83, 0x84, 0x85}" by (rule length_first_byte [OF w(2)])
  have "mem ?p ?i 1 = Ret [b0]" using mem_at [OF i(2), of 1 "?l @ bs @ ?rest"] l0(1) by simp
  from fromBuffer_length_ReadHeader [OF rl(1) this l0(2)]
  have fl: "GWEN_TLV_fromBuffer_length ?p ?sz True ?i = Ret (Some (?i + of_nat (length ?l - 1), j))" .
  define hl where "hl = (?i + of_nat (length ?l - 1) + 1 :: u32)"
  have hl: "hl = of_nat (length ?t + length ?l)" using ll i(1) by (cases "length ?l") (auto simp: hl_def)
  have "length ?t + length ?l < 4294967296" using lt ll by auto
  then have uhl: "unat hl = length (?t @ ?l)" unfolding hl length_append by (rule unat_of_nat_u32)
  have tl: "(ucast j :: u32) = ?n"
    using rl(2) n by (simp add: word_unat_eq_iff unsigned_ucast_eq uw un take_bit_nat_eq_self del: unsigned_of_nat)
  have sum: "unat (hl + ?n) = unat ?sz" using uhl un sz lt ll n by (subst unat_plus_u32) auto
  then have sum': "hl + ?n = ?sz" by (simp add: word_unat_eq_iff)
  have md: "mem ?p hl (unat ?n) = Ret bs" using mem_at [of hl "?t @ ?l" "unat ?n" "bs @ ?rest"] uhl un by simp
  let ?tlv = "GWEN_TLV_new\<lparr>tlv_isBerTlv := True, tlv_tagMode := m, tlv_tagType := ty, tlv_tagLength := ?n\<rparr>"
  have z: "?n = 0 \<longleftrightarrow> bs = []" using un by (metis length_0_conv unat_eq_0)
  have fin: "GWEN_TLV_fromBuffer (\<lambda>_. True) ?r True
      = obind (if ?n \<noteq> 0 then Ret (?tlv\<lparr>tlv_tagData := Some bs\<rparr>) else Ret ?tlv) (\<lambda>tlv.
          Ret (Some (tlv\<lparr>tlv_tagSize := ?sz\<rparr>), ?r\<lparr>pos := ?sz\<rparr>))"
    unfolding GWEN_TLV_fromBuffer_def left p Let_def if_not_P [OF s2(3)] if_not_P [OF s2(2)] rt obind.simps
      option.case prod.case if_not_P [OF gi] fl hl_def [symmetric] tl sum' md
    by (simp add: GWEN_Buffer_IncrementPos_def GWEN_Buffer_GetPos_def GWEN_Buffer_Rewind_def sum')
  show ?thesis
    using b(1) fin z un
    by (cases "bs = []") (auto simp: GWEN_Buffer_GetBytesLeft_def GWEN_Buffer_Rewind_def GWEN_TLV_new_def tlv_object_def)
qed

text \<open>In the simple form the first byte is the type, with the mode in its upper bits.\<close>

lemma simple_roundtrip:
  fixes ty m :: u32
  assumes room: "room mbuf (length bs + 2)" and empty: "contents mbuf = []"
    and m: "m = ty AND 0xe0" and ty: "ty \<le> 255" and n: "length bs < 255"
  shows "\<exists>mbuf' mbuf''. GWEN_TLV_DirectlyToBuffer ty m bs (int (length bs)) False mbuf = Ret (0, mbuf')
    \<and> GWEN_TLV_fromBuffer (\<lambda>_. True) (GWEN_Buffer_Rewind mbuf') False
        = Ret (Some ((tlv_object False ty m bs)\<lparr>tlv_tagSize := bytesUsed mbuf'\<rparr>), mbuf'')
    \<and> GWEN_Buffer_GetBytesLeft mbuf'' = 0"
proof -
  let ?b = "of_nat (length bs) :: byte" and ?n = "of_nat (length bs) :: u32"
  have un: "unat ?n = length bs" using n by (intro unat_of_nat_u32) simp
  have ub: "unat ?b = length bs" using n by (simp add: unat_of_nat)
  have room': "room mbuf (length [ucast ty, ?b] + unat ?n + 0)" using room un by (simp add: add.commute)
  from buf.header_then_block [OF room', of bs] un empty obtain b0 where
    b0: "obind (appends GWEN_Buffer_AppendByte mbuf [ucast ty, ?b]) (\<lambda>b. GWEN_Buffer_AppendBytes b bs ?n) = Ret (0, b0)"
    "contents b0 = [ucast ty, ?b] @ bs" "room b0 0" by auto
  have room2: "room mbuf (length [ucast ty, ?b] + length bs)" using room by (simp add: add.commute)
  from buf.appends_law [OF this] empty obtain b1 where
    b1: "appends GWEN_Buffer_AppendByte mbuf [ucast ty, ?b] = Ret b1" "contents b1 = [ucast ty, ?b]" "room b1 (length bs)"
    by auto
  have ne: "int (length bs) \<noteq> -1" by simp
  obtain b where b: "GWEN_TLV_DirectlyToBuffer ty m bs (int (length bs)) False mbuf = Ret (0, b)"
    "contents b = ucast ty # ?b # bs" "room b 0"
  proof (cases "bs = []")
    case True
    with b1 that [of b1] show ?thesis by (simp add: GWEN_TLV_DirectlyToBuffer_def Let_def)
  next
    case False
    with b0 b1(1) that [of b0] show ?thesis
      by (auto simp: GWEN_TLV_DirectlyToBuffer_def Let_def)
  qed
  note wf = room_wf [OF b(3)]
  let ?r = "GWEN_Buffer_Rewind b" and ?sz = "bytesUsed b"
  let ?rest = "drop (ptr b + unat ?sz) (blk b)"
  let ?p = "ucast ty # ?b # bs @ ?rest"
  have sz: "unat ?sz = length bs + 2" using length_contents [OF wf] b(2) by simp
  have s2: "\<not> ?sz < 2" "?sz \<noteq> 0" "\<not> ?sz \<le> 1" using sz by (auto simp: word_le_nat_alt word_less_nat_alt)
  have p: "drop (GWEN_Buffer_GetPosPointer ?r) (blk ?r) = ?p"
    using blk_contents [of b] b(2) by (simp add: GWEN_Buffer_GetPosPointer_def GWEN_Buffer_Rewind_def)
  have left: "GWEN_Buffer_GetBytesLeft ?r = ?sz" "GWEN_Buffer_GetPos ?r = 0"
    using s2(2) by (simp_all add: GWEN_Buffer_GetBytesLeft_def GWEN_Buffer_Rewind_def GWEN_Buffer_GetPos_def word_gt_0)
  let ?j = "ucast (ucast ty :: byte) :: u64"
  have tj: "ucast ?j = ty"
    using ty by (simp add: word_unat_eq_iff word_le_nat_alt unsigned_ucast_eq unsigned_take_bit_eq take_bit_nat_eq_self)
  have mj: "ucast (?j AND 0xe0) = m"
  proof -
    have "ucast (?j AND 0xe0) = (ucast ?j AND 0xe0 :: u32)" by (rule bit_word_eqI) (auto simp: bit_simps)
    then show ?thesis using tj m by simp
  qed
  have rt: "tlv_read_type ?p ?sz False = Ret (Some (0, ?j AND 0xe0, ?j))"
    by (simp add: tlv_read_type_def mem_def window_def Let_def)
  have j: "(ucast ?b :: u64) \<noteq> 255" "(ucast (ucast ?b :: u64) :: u32) = ?n"
    using n by (auto simp: word_unat_eq_iff unsigned_ucast_eq unsigned_take_bit_eq take_bit_nat_eq_self ub un simp del: unsigned_of_nat)
  have gi: "\<not> 0 + 1 \<ge> ?sz" using s2(3) by simp
  have fl: "GWEN_TLV_fromBuffer_length ?p ?sz False (0 + 1) = Ret (Some (0 + 1, ucast ?b))"
    using j(1) by (simp add: GWEN_TLV_fromBuffer_length_def mem_def window_def Let_def)
  have sum: "0 + 1 + 1 + ?n = ?sz" using sz un n by (simp add: word_unat_eq_iff unat_plus_u32 del: unsigned_of_nat)
  have md: "mem ?p (0 + 1 + 1) (unat ?n) = Ret bs" by (simp add: mem_def window_def un del: unsigned_of_nat)
  have z: "?n = 0 \<longleftrightarrow> bs = []" using un by (metis length_0_conv unat_eq_0)
  let ?tlv = "GWEN_TLV_new\<lparr>tlv_isBerTlv := False, tlv_tagMode := m, tlv_tagType := ty, tlv_tagLength := ?n\<rparr>"
  have fin: "GWEN_TLV_fromBuffer (\<lambda>_. True) ?r False
      = obind (if ?n \<noteq> 0 then Ret (?tlv\<lparr>tlv_tagData := Some bs\<rparr>) else Ret ?tlv) (\<lambda>tlv.
          Ret (Some (tlv\<lparr>tlv_tagSize := ?sz\<rparr>), ?r\<lparr>pos := ?sz\<rparr>))"
    unfolding GWEN_TLV_fromBuffer_def left p Let_def if_not_P [OF s2(2)] if_not_P [OF s2(1)] rt obind.simps
      option.case prod.case if_not_P [OF gi] fl j(2) sum md mj tj
    using sum by (simp add: GWEN_Buffer_IncrementPos_def GWEN_Buffer_GetPos_def GWEN_Buffer_Rewind_def)
  show ?thesis
    using b(1) fin z
    by (cases "bs = []") (auto simp: GWEN_Buffer_GetBytesLeft_def GWEN_Buffer_Rewind_def GWEN_TLV_new_def tlv_object_def)
qed

text \<open>C25. An object made by \<^verbatim>\<open>GWEN_TLV_create\<close> and written into an empty buffer by \<^verbatim>\<open>GWEN_TLV_toBuffer\<close> is the object that
  \<^verbatim>\<open>GWEN_TLV_fromBuffer\<close> reads from there, but for the field that keeps the number of bytes read: in the BER form with
  up to 65535 bytes of data, in the simple form, where the mode is a part of the type, with up to 254. All of what was
  written is consumed.\<close>

theorem tlv_object_roundtrip:
  fixes ty m :: u32
  assumes room: "room mbuf (length bs + 5)" and empty: "contents mbuf = []" and ty: "ty \<le> 255"
    and form: "if ber then m AND NOT 0xe0 = 0 \<and> length bs < 65536 else m = ty AND 0xe0 \<and> length bs < 255"
  shows "\<exists>tlv mbuf' mbuf''. GWEN_TLV_create (\<lambda>_. True) ty m bs (of_nat (length bs)) ber = Ret tlv
    \<and> GWEN_TLV_toBuffer tlv mbuf = Ret (0, mbuf')
    \<and> GWEN_TLV_fromBuffer (\<lambda>_. True) (GWEN_Buffer_Rewind mbuf') ber
        = Ret (Some (tlv\<lparr>tlv_tagSize := GWEN_Buffer_GetUsedBytes mbuf'\<rparr>), mbuf'')
    \<and> GWEN_Buffer_GetBytesLeft mbuf'' = 0"
proof -
  have n: "length bs < 65536" and l: "length bs < (if ber then 65536 else 256)" using form by (auto split: if_splits)
  have "unat (of_nat (length bs) :: u64) = length bs" using n by (simp add: unat_of_nat)
  then have "length (tlv_encode ty m bs) \<le> length bs + 5"
    using n by (simp add: tlv_encode_def tlv_type_bytes_def tlv_length_bytes_of_def Let_def word_less_nat_alt)
  then have r: "room mbuf (length (tlv_encode ty m bs))" "room mbuf (length bs + 2)" by (auto intro: room_mono [OF room])
  note call = create_object [OF ty l, of m] toBuffer_object [OF n, of ber ty m mbuf]
  show ?thesis
  proof (cases ber)
    case True
    with ber_roundtrip [OF r(1) empty _ ty n] form call show ?thesis by (simp add: GWEN_Buffer_GetUsedBytes_def)
  next
    case False
    with simple_roundtrip [OF r(2) empty _ ty, of m] form call show ?thesis by (simp add: GWEN_Buffer_GetUsedBytes_def)
  qed
qed

theorem tlv_object_roundtrip_witness:
  "\<exists>mbuf tlv mbuf' mbuf''. GWEN_TLV_create (\<lambda>_. True) 0x0c 0x20 [65, 66] 2 True = Ret tlv
    \<and> GWEN_TLV_toBuffer tlv mbuf = Ret (0, mbuf')
    \<and> GWEN_TLV_fromBuffer (\<lambda>_. True) (GWEN_Buffer_Rewind mbuf') True
        = Ret (Some (tlv\<lparr>tlv_tagSize := GWEN_Buffer_GetUsedBytes mbuf'\<rparr>), mbuf'')"
proof -
  from fresh_at_end obtain bf where bf: "room bf 1000" "contents bf = []" by blast
  have "room bf (length [65, 66 :: byte] + 5)" by (rule room_mono [OF bf(1)]) simp
  from tlv_object_roundtrip [OF this bf(2), of "0x0c" True "0x20"] show ?thesis by auto
qed

section \<open>Where the readers and writers disagree\<close>

text \<open>
  The check before a two byte length is one too small: a header that ends in the middle of the length is
  not refused but read past the size given. The same holds for the longer forms.
\<close>

theorem tlv_header_overread:
  "GWEN_TLV_ReadHeader tlv [1, 0x82, 1] 3 True = Fault"
  "GWEN_TLV_ReadHeader tlv [1, 0x83, 1, 1] 4 True = Fault"
  by (simp_all add: GWEN_TLV_ReadHeader_def tlv_read_type_def GWEN_TLV_ReadHeader_length_def mem_def window_def
      word_le_nat_alt)

text \<open>
  In the simple form a length of 255 is allowed by \<^verbatim>\<open>GWEN_TLV_create\<close> and written as one byte, but read as
  the mark of a two byte length, which nobody writes.
\<close>

theorem tlv_simple_255:
  assumes "unat i = length pre" and "length pre < 3" and "length pre + 2 < unat sz"
  shows "GWEN_TLV_fromBuffer_length (pre @ [255, b1, b0] @ rest) sz False i = Ret (Some (i + 2, be64 [b1, b0]))"
proof -
  have "unat (i + 2) = unat i + 2" using assms by (simp add: unat_plus_u32)
  then have "\<not> i + 2 \<ge> sz" using assms by (simp add: word_le_nat_alt)
  then show ?thesis
    using assms by (simp add: GWEN_TLV_fromBuffer_length_def mem_at mem_after)
qed

end
