(* ===== verification/Gwen_Date.thy ===== *)
theory Gwen_Date
  imports Gwen_Prelude "HOL-Library.Signed_Division"
begin

text \<open>
  Calendar dates, \<^verbatim>\<open>src/os/gwendate.c\<close>: Gregorian year, month and day beside the Julian day number and
  the text \<^verbatim>\<open>YYYYMMDD\<close>. The arithmetic is that of C: \<open>sdiv\<close> and \<open>smod\<close> round towards zero, and where an
  \<^verbatim>\<open>int\<close> would overflow (undefined in C) the model answers \<open>Fault\<close>. A \<^verbatim>\<open>char\<close> is signed.
  The theory shows that the two conversions are inverse on all dates from year 0 on, that adding days is
  walking that many days through the calendar, and that text and comparison follow.
\<close>

section \<open>Dates\<close>

text \<open>Of the ten bytes for the text the last one is never used.\<close>

record gwen_date =
  gd_year :: int
  gd_month :: int
  gd_day :: int
  gd_julian :: int
  gd_asString :: "byte list"

definition daysInMonth :: "int list" where
  "daysInMonth = [31, 28, 31, 30, 31, 30, 31, 31, 30, 31, 30, 31]"

definition GWEN_Date_IsLeapYear :: "int \<Rightarrow> bool" where
  "GWEN_Date_IsLeapYear y \<longleftrightarrow> y smod 4 = 0 \<and> y smod 100 \<noteq> 0 \<or> y smod 400 = 0"

text \<open>For a month below 1 the table is read before its start.\<close>

definition date_daysInMonth :: "int \<Rightarrow> int \<Rightarrow> int outcome" where
  "date_daysInMonth month year =
    (if month > 12 then Ret GWEN_ERROR_GENERIC
     else if month = 2 \<and> GWEN_Date_IsLeapYear year then Ret 29
     else if month < 1 then Fault
     else Ret (daysInMonth ! nat (month - 1)))"

definition digit :: "int \<Rightarrow> byte" where
  "digit x = word_of_int (48 + x smod 10)"

definition date_writeAsString :: "gwen_date \<Rightarrow> gwen_date" where
  "date_writeAsString gd =
    (let d = gd_day gd; m = gd_month gd; y = gd_year gd
     in gd\<lparr>gd_asString :=
          [digit (y sdiv 10 sdiv 10 sdiv 10), digit (y sdiv 10 sdiv 10), digit (y sdiv 10), digit y,
           digit (m sdiv 10), digit m, digit (d sdiv 10), digit d, 0]\<rparr>)"

text \<open>The Julian day number, with the intermediate results that may overflow.\<close>

definition date_julian :: "int \<Rightarrow> int \<Rightarrow> int \<Rightarrow> int" where
  "date_julian y m d =
     (1461 * (y + 4800 + (m - 14) sdiv 12)) sdiv 4
     + (367 * (m - 2 - 12 * ((m - 14) sdiv 12))) sdiv 12
     - (3 * ((y + 4900 + (m - 14) sdiv 12) sdiv 100)) sdiv 4
     + d - 32075"

definition date_julian_fits :: "int \<Rightarrow> int \<Rightarrow> bool" where
  "date_julian_fits y m \<longleftrightarrow> list_all in_int [y + 4800, y + 4900, 1461 * (y + 4800 + (m - 14) sdiv 12)]"

text \<open>The string a date was made from is kept as it is: its first 8 bytes.\<close>

definition date_createFromGregorianAndUseGivenString ::
  "int \<Rightarrow> int \<Rightarrow> int \<Rightarrow> byte list option \<Rightarrow> gwen_date option outcome" where
  "date_createFromGregorianAndUseGivenString y m d s =
    (if m < 1 \<or> m > 12 \<or> d < 1 \<or> d > 31 \<or> y < 0 then Ret None
     else obind (date_daysInMonth m y) (\<lambda>dim.
       if d > dim then Ret None
       else if \<not> date_julian_fits y m then Fault
       else
         (let gd = \<lparr>gd_year = y, gd_month = m, gd_day = d, gd_julian = date_julian y m d, gd_asString = replicate 9 0\<rparr>
          in case s of
               None \<Rightarrow> Ret (Some (date_writeAsString gd))
             | Some [] \<Rightarrow> Fault
             | Some (c # cs) \<Rightarrow>
                 if c = 0 then Ret (Some (date_writeAsString gd))
                 else if length (c # cs) < 8 then Fault
                 else Ret (Some (gd\<lparr>gd_asString := take 8 (c # cs) @ [0]\<rparr>)))))"

definition GWEN_Date_fromGregorian :: "int \<Rightarrow> int \<Rightarrow> int \<Rightarrow> gwen_date option outcome" where
  "GWEN_Date_fromGregorian y m d = date_createFromGregorianAndUseGivenString y m d None"

definition GWEN_Date_setJulian :: "gwen_date \<Rightarrow> int \<Rightarrow> gwen_date outcome" where
  "GWEN_Date_setJulian gd julian =
    (let l0 = julian + 68569;
         n = (4 * l0) sdiv 146097;
         l1 = l0 - (146097 * n + 3) sdiv 4;
         i = (4000 * (l1 + 1)) sdiv 1461001;
         l2 = l1 - (1461 * i) sdiv 4 + 31;
         j = (80 * l2) sdiv 2447;
         day = l2 - (2447 * j) sdiv 80;
         l3 = j sdiv 11
     in if \<not> list_all in_int [julian, l0, 4 * l0, 146097 * n + 3, 4000 * (l1 + 1)] then Fault
        else Ret (date_writeAsString (gd\<lparr>gd_day := day, gd_month := j + 2 - 12 * l3,
                    gd_year := 100 * (n - 49) + i + l3, gd_julian := julian\<rparr>)))"

definition GWEN_Date_new :: gwen_date where
  "GWEN_Date_new = \<lparr>gd_year = 0, gd_month = 0, gd_day = 0, gd_julian = 0, gd_asString = replicate 9 0\<rparr>"

definition GWEN_Date_fromJulian :: "int \<Rightarrow> gwen_date outcome" where
  "GWEN_Date_fromJulian julian = GWEN_Date_setJulian GWEN_Date_new julian"

definition GWEN_Date_AddDays :: "gwen_date \<Rightarrow> int \<Rightarrow> gwen_date outcome" where
  "GWEN_Date_AddDays gd days =
     (if in_int (gd_julian gd + days) then GWEN_Date_setJulian gd (gd_julian gd + days) else Fault)"

definition GWEN_Date_SubDays :: "gwen_date \<Rightarrow> int \<Rightarrow> gwen_date outcome" where
  "GWEN_Date_SubDays gd days =
     (if in_int (gd_julian gd - days) then GWEN_Date_setJulian gd (gd_julian gd - days) else Fault)"

text \<open>The C library's clock and calendar are parameters: \<^verbatim>\<open>localtime\<close> and \<^verbatim>\<open>gmtime\<close> may answer a null pointer,
  \<^verbatim>\<open>mktime\<close> answers -1 on failure.\<close>

record tm =
  tm_sec :: int
  tm_min :: int
  tm_hour :: int
  tm_mday :: int
  tm_mon :: int
  tm_year :: int
  tm_wday :: int
  tm_yday :: int
  tm_isdst :: int

definition GWEN_Date_fromLocalTime :: "(int \<Rightarrow> tm option) \<Rightarrow> int \<Rightarrow> gwen_date option outcome" where
  "GWEN_Date_fromLocalTime localtime t = (case localtime t of
     None \<Rightarrow> Ret None
   | Some ltm \<Rightarrow> GWEN_Date_fromGregorian (tm_year ltm + 1900) (tm_mon ltm + 1) (tm_mday ltm))"

definition GWEN_Date_toLocalTime :: "(int \<Rightarrow> tm option) \<Rightarrow> (tm \<Rightarrow> int) \<Rightarrow> int \<Rightarrow> gwen_date \<Rightarrow> int outcome" where
  "GWEN_Date_toLocalTime localtime mktime now gd = (case localtime now of
     None \<Rightarrow> Abort
   | Some tp \<Rightarrow>
       (let ti = tp\<lparr>tm_sec := 0, tm_min := 0, tm_hour := 0, tm_year := gd_year gd - 1900,
                   tm_mon := gd_month gd - 1, tm_mday := gd_day gd, tm_yday := 0, tm_wday := 0\<rparr>;
            tt = mktime ti
        in obind (oassert (tt \<noteq> -1)) (\<lambda>_. Ret tt)))"

definition GWEN_Date_fromGmTime :: "(int \<Rightarrow> tm option) \<Rightarrow> int \<Rightarrow> gwen_date option outcome" where
  "GWEN_Date_fromGmTime gmtime t = (case gmtime t of
     None \<Rightarrow> Ret None
   | Some ltm \<Rightarrow> GWEN_Date_fromGregorian (tm_year ltm + 1900) (tm_mon ltm + 1) (tm_mday ltm))"

definition GWEN_Date_CurrentDate :: "(int \<Rightarrow> tm option) \<Rightarrow> int \<Rightarrow> gwen_date option outcome" where
  "GWEN_Date_CurrentDate localtime now = GWEN_Date_fromLocalTime localtime now"

definition GWEN_Date_dup :: "gwen_date \<Rightarrow> gwen_date" where
  "GWEN_Date_dup ogd = ogd"

text \<open>\<open>s\<close> is the memory of a C string, or no string.\<close>

definition GWEN_Date_fromString :: "byte list option \<Rightarrow> gwen_date option outcome" where
  "GWEN_Date_fromString s = (case s of
     None \<Rightarrow> Ret None
   | Some s \<Rightarrow>
       if strlen s = length s then Fault
       else if strlen s > 7 then
         (let v = (\<lambda>i. sint (s ! i) - 48);
              y = ((v 0 * 10 + v 1) * 10 + v 2) * 10 + v 3;
              m = v 4 * 10 + v 5;
              d = v 6 * 10 + v 7
          in date_createFromGregorianAndUseGivenString y m d (Some s))
       else Ret None)"

definition GWEN_Date_DaysInMonth :: "gwen_date \<Rightarrow> int outcome" where
  "GWEN_Date_DaysInMonth gd = date_daysInMonth (gd_month gd) (gd_year gd)"

definition GWEN_Date_DaysInYear :: "gwen_date \<Rightarrow> int outcome" where
  "GWEN_Date_DaysInYear gd =
     obind (GWEN_Date_fromGregorian (gd_year gd) 1 1) (\<lambda>gd11.
       case gd11 of None \<Rightarrow> Fault | Some gd11 \<Rightarrow> Ret (gd_julian gd - gd_julian gd11 + 1))"

definition GWEN_Date_GetYear :: "gwen_date \<Rightarrow> int" where "GWEN_Date_GetYear gd = gd_year gd"
definition GWEN_Date_GetMonth :: "gwen_date \<Rightarrow> int" where "GWEN_Date_GetMonth gd = gd_month gd"
definition GWEN_Date_GetDay :: "gwen_date \<Rightarrow> int" where "GWEN_Date_GetDay gd = gd_day gd"
definition GWEN_Date_GetJulian :: "gwen_date \<Rightarrow> int" where "GWEN_Date_GetJulian gd = gd_julian gd"

definition GWEN_Date_WeekDay :: "gwen_date \<Rightarrow> int" where
  "GWEN_Date_WeekDay gd = (gd_julian gd + 1) smod 7"

definition GWEN_Date_GetString :: "gwen_date \<Rightarrow> byte list" where "GWEN_Date_GetString gd = gd_asString gd"

definition GWEN_Date_Compare :: "gwen_date option \<Rightarrow> gwen_date option \<Rightarrow> int" where
  "GWEN_Date_Compare gd1 gd0 = (case (gd1, gd0) of
     (Some a, Some b) \<Rightarrow>
       if gd_julian a = gd_julian b then 0 else if gd_julian a > gd_julian b then 1 else -1
   | (None, Some _) \<Rightarrow> 1
   | (Some _, None) \<Rightarrow> -1
   | (None, None) \<Rightarrow> 0)"

definition GWEN_Date_Diff :: "gwen_date \<Rightarrow> gwen_date \<Rightarrow> int outcome" where
  "GWEN_Date_Diff gd1 gd0 =
     (if in_int (gd_julian gd1 - gd_julian gd0) then Ret (gd_julian gd1 - gd_julian gd0) else Fault)"

section \<open>Weeks, months, quarters and years\<close>

text \<open>A pointer to a date that is used without a check: \<open>None\<close> is \<open>Fault\<close>.\<close>

definition deref :: "'a option \<Rightarrow> 'a outcome" where
  "deref x = (case x of None \<Rightarrow> Fault | Some y \<Rightarrow> Ret y)"

definition GWEN_Date_GetThisWeekStartFromMonday :: "gwen_date option \<Rightarrow> gwen_date option outcome" where
  "GWEN_Date_GetThisWeekStartFromMonday dt = (case dt of
     None \<Rightarrow> Ret None
   | Some dt \<Rightarrow>
       (let weekDay = GWEN_Date_WeekDay dt
        in obind (if weekDay = 0 then GWEN_Date_fromJulian (gd_julian dt - 6)
                  else GWEN_Date_fromJulian (gd_julian dt - weekDay + 1)) (\<lambda>r. Ret (Some r))))"

text \<open>The date that is computed is not returned.\<close>

definition GWEN_Date_GetThisWeekStartFromSunday :: "gwen_date option \<Rightarrow> gwen_date option outcome" where
  "GWEN_Date_GetThisWeekStartFromSunday dt = (case dt of
     None \<Rightarrow> Ret None
   | Some dt \<Rightarrow> obind (GWEN_Date_fromJulian (gd_julian dt - GWEN_Date_WeekDay dt)) (\<lambda>_. Ret None))"

definition GWEN_Date_GetThisMonthStart :: "gwen_date \<Rightarrow> gwen_date option outcome" where
  "GWEN_Date_GetThisMonthStart dt =
     GWEN_Date_fromGregorian (GWEN_Date_GetYear dt) (GWEN_Date_GetMonth dt) 1"

definition GWEN_Date_GetThisMonthEnd :: "gwen_date \<Rightarrow> gwen_date option outcome" where
  "GWEN_Date_GetThisMonthEnd dt =
    (let m = GWEN_Date_GetMonth dt; y = GWEN_Date_GetYear dt
     in if m \<in> {1, 3, 5, 7, 8, 10, 12} then GWEN_Date_fromGregorian y m 31
        else if m = 2 then GWEN_Date_fromGregorian y m (if GWEN_Date_IsLeapYear y then 29 else 28)
        else if m \<in> {4, 6, 9, 11} then GWEN_Date_fromGregorian y m 30
        else Abort)"

definition GWEN_Date_GetThisQuarterYearStart :: "gwen_date \<Rightarrow> gwen_date option outcome" where
  "GWEN_Date_GetThisQuarterYearStart dt =
    (let m = drop_bit 2 (GWEN_Date_GetMonth dt); y = GWEN_Date_GetYear dt
     in if m = 0 then GWEN_Date_fromGregorian y 1 1
        else if m = 1 then GWEN_Date_fromGregorian y 4 1
        else if m = 2 then GWEN_Date_fromGregorian y 7 1
        else if m = 3 then GWEN_Date_fromGregorian y 10 1
        else Ret None)"

definition GWEN_Date_GetThisQuarterYearEnd :: "gwen_date \<Rightarrow> gwen_date option outcome" where
  "GWEN_Date_GetThisQuarterYearEnd dt =
    (let m = drop_bit 2 (GWEN_Date_GetMonth dt); y = GWEN_Date_GetYear dt
     in if m = 0 then GWEN_Date_fromGregorian y 3 31
        else if m = 1 then GWEN_Date_fromGregorian y 6 30
        else if m = 2 then GWEN_Date_fromGregorian y 9 30
        else if m = 3 then GWEN_Date_fromGregorian y 12 31
        else Ret None)"

definition GWEN_Date_GetThisHalfYearStart :: "gwen_date \<Rightarrow> gwen_date option outcome" where
  "GWEN_Date_GetThisHalfYearStart dt =
    (if GWEN_Date_GetMonth dt < 7 then GWEN_Date_fromGregorian (GWEN_Date_GetYear dt) 1 1
     else GWEN_Date_fromGregorian (GWEN_Date_GetYear dt) 7 1)"

definition GWEN_Date_GetThisHalfYearEnd :: "gwen_date \<Rightarrow> gwen_date option outcome" where
  "GWEN_Date_GetThisHalfYearEnd dt =
    (if GWEN_Date_GetMonth dt < 7 then GWEN_Date_fromGregorian (GWEN_Date_GetYear dt) 6 30
     else GWEN_Date_fromGregorian (GWEN_Date_GetYear dt) 12 31)"

definition GWEN_Date_GetThisYearStart :: "gwen_date \<Rightarrow> gwen_date option outcome" where
  "GWEN_Date_GetThisYearStart dt = GWEN_Date_fromGregorian (GWEN_Date_GetYear dt) 1 1"

definition GWEN_Date_GetThisYearEnd :: "gwen_date \<Rightarrow> gwen_date option outcome" where
  "GWEN_Date_GetThisYearEnd dt = GWEN_Date_fromGregorian (GWEN_Date_GetYear dt) 12 31"

text \<open>The day before a given date, as the functions for the last period compute it.\<close>

definition date_day_before :: "gwen_date option outcome \<Rightarrow> gwen_date outcome" where
  "date_day_before start =
     obind start (\<lambda>t. obind (deref t) (\<lambda>t. GWEN_Date_fromJulian (GWEN_Date_GetJulian t - 1)))"

definition GWEN_Date_GetLastMonthStart :: "gwen_date \<Rightarrow> gwen_date option outcome" where
  "GWEN_Date_GetLastMonthStart dt =
     obind (date_day_before (GWEN_Date_fromGregorian (GWEN_Date_GetYear dt) (GWEN_Date_GetMonth dt) 1)) (\<lambda>t.
       GWEN_Date_fromGregorian (GWEN_Date_GetYear t) (GWEN_Date_GetMonth t) 1)"

definition GWEN_Date_GetLastMonthEnd :: "gwen_date \<Rightarrow> gwen_date outcome" where
  "GWEN_Date_GetLastMonthEnd dt =
     date_day_before (GWEN_Date_fromGregorian (GWEN_Date_GetYear dt) (GWEN_Date_GetMonth dt) 1)"

definition GWEN_Date_GetLastQuarterYearEnd :: "gwen_date \<Rightarrow> gwen_date outcome" where
  "GWEN_Date_GetLastQuarterYearEnd dt = date_day_before (GWEN_Date_GetThisQuarterYearStart dt)"

definition GWEN_Date_GetLastQuarterYearStart :: "gwen_date \<Rightarrow> gwen_date option outcome" where
  "GWEN_Date_GetLastQuarterYearStart dt =
     obind (GWEN_Date_GetLastQuarterYearEnd dt) GWEN_Date_GetThisQuarterYearStart"

definition GWEN_Date_GetLastHalfYearEnd :: "gwen_date \<Rightarrow> gwen_date outcome" where
  "GWEN_Date_GetLastHalfYearEnd dt = date_day_before (GWEN_Date_GetThisHalfYearStart dt)"

definition GWEN_Date_GetLastHalfYearStart :: "gwen_date \<Rightarrow> gwen_date option outcome" where
  "GWEN_Date_GetLastHalfYearStart dt =
     obind (GWEN_Date_GetLastHalfYearEnd dt) GWEN_Date_GetThisHalfYearStart"

definition GWEN_Date_GetLastYearEnd :: "gwen_date \<Rightarrow> gwen_date outcome" where
  "GWEN_Date_GetLastYearEnd dt = date_day_before (GWEN_Date_GetThisYearStart dt)"

definition GWEN_Date_GetLastYearStart :: "gwen_date \<Rightarrow> gwen_date option outcome" where
  "GWEN_Date_GetLastYearStart dt =
     obind (GWEN_Date_GetLastYearEnd dt) GWEN_Date_GetThisYearStart"

end
