(* ===== verification/Gwen_Calendar.thy ===== *)
theory Gwen_Calendar
  imports Gwen_Date
begin

text \<open>
  The Gregorian calendar behind \<^verbatim>\<open>src/os/gwendate.c\<close>, stated without any closed formula: leap years, the
  lengths of the months, valid dates and the day after a date. The theory shows that the formula for
  the Julian day number counts the days of this calendar and that \<^verbatim>\<open>GWEN_Date_setJulian\<close> inverts it.
\<close>

section \<open>The calendar\<close>

lemma sdiv_nonneg: "0 \<le> a \<Longrightarrow> 0 < b \<Longrightarrow> a sdiv b = a div (b :: int)"
  by (simp add: signed_divide_int_def sgn_if)

lemma smod_nonneg: "0 \<le> a \<Longrightarrow> 0 < b \<Longrightarrow> a smod b = a mod (b :: int)"
  by (cases "a = 0") (simp_all add: signed_modulo_int_def sgn_if)

lemma div_eqI: "k * q \<le> x \<Longrightarrow> x < k * q + k \<Longrightarrow> x div k = (q :: int)"
  by (rule int_div_pos_eq [of x k q "x - k * q"]) auto

definition leap :: "int \<Rightarrow> bool" where
  "leap y \<longleftrightarrow> y mod 4 = 0 \<and> y mod 100 \<noteq> 0 \<or> y mod 400 = 0"

lemma IsLeapYear_leap: "0 \<le> y \<Longrightarrow> GWEN_Date_IsLeapYear y = leap y"
  by (simp add: GWEN_Date_IsLeapYear_def leap_def smod_nonneg)

definition month_days :: "int \<Rightarrow> int \<Rightarrow> int" where
  "month_days y m = (if m = 2 then (if leap y then 29 else 28) else if m \<in> {4, 6, 9, 11} then 30 else 31)"

definition valid_date :: "int \<Rightarrow> int \<Rightarrow> int \<Rightarrow> bool" where
  "valid_date y m d \<longleftrightarrow> 0 \<le> y \<and> 1 \<le> m \<and> m \<le> 12 \<and> 1 \<le> d \<and> d \<le> month_days y m"

lemma month_cases:
  assumes "1 \<le> m" "m \<le> (12 :: int)"
  obtains "m = 1" | "m = 2" | "m = 3" | "m = 4" | "m = 5" | "m = 6" | "m = 7" | "m = 8" | "m = 9"
    | "m = 10" | "m = 11" | "m = 12"
proof -
  have "m = 1 \<or> m = 2 \<or> m = 3 \<or> m = 4 \<or> m = 5 \<or> m = 6 \<or> m = 7 \<or> m = 8 \<or> m = 9 \<or> m = 10 \<or> m = 11 \<or> m = 12"
    using assms by arith
  with that show ?thesis by blast
qed

lemma daysInMonth_eq:
  assumes "0 \<le> y" "1 \<le> m" "m \<le> 12"
  shows "date_daysInMonth m y = Ret (month_days y m)"
  using assms(2,3)
  by (cases m rule: month_cases)
     (auto simp: date_daysInMonth_def month_days_def daysInMonth_def IsLeapYear_leap [OF assms(1)])

text \<open>Years counted from March, so that the leap day comes last: \<open>a\<close> is that year plus 4800, \<open>k\<close> the days
  from the start of that year.\<close>

definition march_year :: "int \<Rightarrow> int \<Rightarrow> int" where
  "march_year y m = (if m \<le> 2 then y + 4799 else y + 4800)"

definition march_offset :: "int \<Rightarrow> int" where
  "march_offset m = (367 * (if m \<le> 2 then m + 10 else m - 2)) div 12"

lemma march_sdiv: "1 \<le> m \<Longrightarrow> m \<le> 12 \<Longrightarrow> (m - 14) sdiv 12 = (if m \<le> 2 then -1 else 0)" for m :: int
  by (cases m rule: month_cases) (auto simp: signed_divide_int_def)

lemma date_julian_march:
  assumes "0 \<le> y" "1 \<le> m" "m \<le> 12"
  shows "date_julian y m d = 1461 * march_year y m div 4 + march_offset m
    - 3 * ((march_year y m + 100) div 100) div 4 + d - 32075"
proof -
  have e: "y + 4800 + (m - 14) sdiv 12 = march_year y m" "y + 4900 + (m - 14) sdiv 12 = march_year y m + 100"
    "m - 2 - 12 * ((m - 14) sdiv 12) = (if m \<le> 2 then m + 10 else m - 2)"
    using assms by (auto simp: march_sdiv march_year_def)
  have p: "0 \<le> march_year y m" using assms by (simp add: march_year_def)
  have "0 \<le> (march_year y m + 100) div 100" using p by simp
  then show ?thesis
    unfolding date_julian_def e using p assms by (simp add: sdiv_nonneg march_offset_def)
qed

lemma march_century: "3 * (c + 1) div 4 + (c + 4) div 4 = (c + 1 :: int)"
  by presburger

text \<open>The core of \<^verbatim>\<open>GWEN_Date_setJulian\<close>: century, year in it and day of the year are found again.\<close>

lemma setJulian_core:
  fixes c r k :: int
  assumes c: "0 \<le> c" and r: "0 \<le> r" "r < 100" and k: "0 \<le> k" "k \<le> 364 \<or> k = 365 \<and> r mod 4 = 3 \<and> (r = 99 \<longrightarrow> (c + 1) mod 4 = 0)"
  defines "l0 \<equiv> 1461 * (100 * c + r) div 4 - 3 * (c + 1) div 4 + k + 36525"
  shows "4 * l0 div 146097 = c + 1"
    and "l0 - (146097 * (c + 1) + 3) div 4 = 365 * r + r div 4 + k"
    and "4000 * (365 * r + r div 4 + k + 1) div 1461001 = r"
    and "1461 * r div 4 = 365 * r + r div 4"
proof -
  have e4: "(x + 4 * z) div 4 = z + x div 4" for x z :: int by simp
  have d1: "1461 * (100 * c + r) div 4 = 36525 * c + 365 * r + r div 4"
    using e4 [of r "36525 * c + 365 * r"] by (simp add: algebra_simps)
  show d2: "1461 * r div 4 = 365 * r + r div 4" using e4 [of r "365 * r"] by (simp add: algebra_simps)
  have d3: "(146097 * (c + 1) + 3) div 4 = 36524 * (c + 1) + (c + 4) div 4"
    using e4 [of "c + 4" "36524 * (c + 1)"] by (simp add: algebra_simps)
  show l1: "l0 - (146097 * (c + 1) + 3) div 4 = 365 * r + r div 4 + k"
  proof -
    define A B where "A = 3 * (c + 1) div 4" and "B = (c + 4) div 4"
    have "A + B = c + 1" using march_century [of c] by (simp add: A_def B_def)
    then show ?thesis unfolding l0_def d1 d3 A_def [symmetric] B_def [symmetric] by (simp add: algebra_simps)
  qed
  have q: "4 * (r div 4) \<le> r" "r < 4 * (r div 4) + 4" "r mod 4 = r - 4 * (r div 4)"
    by (auto simp: minus_mult_div_eq_mod)
  show "4000 * (365 * r + r div 4 + k + 1) div 1461001 = r"
    using q r k by (intro div_eqI) auto
  show "4 * l0 div 146097 = c + 1"
  proof (rule div_eqI)
    let ?x = "146097 * (c + 1)"
    define Z g where "Z = (?x + 3) div 4" and "g = r div 4"
    have x: "?x \<le> 4 * Z" "4 * Z \<le> ?x + 3" unfolding Z_def by presburger+
    have g: "0 \<le> g" "4 * g \<le> r" using q r by (auto simp: g_def)
    have e: "4 * l0 = 4 * Z + 4 * (365 * r + g + k)"
      using l1 [unfolded diff_eq_eq] by (simp only: distrib_left add.commute Z_def g_def)
    show "?x \<le> 4 * l0" unfolding e using x g r k(1) by simp
    show "4 * l0 < ?x + 146097"
    proof (cases "r = 99 \<and> k = 365")
      case True
      then have "(c + 1) mod 4 = 0" using k(2) by auto
      then have "4 dvd c + 1" by (simp add: dvd_eq_mod_eq_0)
      then obtain t where t: "c + 1 = 4 * t" ..
      then have "?x = 4 * (146097 * t)" by simp
      then have "Z = 146097 * t" unfolding Z_def by (intro div_eqI) simp_all
      then have "4 * Z = ?x" using t by simp
      moreover have "g = 24" using True by (simp add: g_def)
      ultimately show ?thesis unfolding e using True by simp
    next
      case False
      then have "365 * r + g + k \<le> 36523" using g r k by auto
      then have "4 * (365 * r + g + k) \<le> 4 * 36523" by (simp only: mult_le_cancel_left_pos zero_less_numeral)
      then show ?thesis unfolding e using x by simp
    qed
  qed
qed

text \<open>The month and the day in it are found from the day of the year.\<close>

lemma setJulian_month:
  assumes "1 \<le> m" "m \<le> 12" and "1 \<le> d" "d \<le> month_days y m"
  defines "k \<equiv> march_offset m + d"
  shows "80 * k div 2447 = (if m \<le> 2 then m + 10 else m - 2)"
    and "k - 2447 * (if m \<le> 2 then m + 10 else m - 2) div 80 = d"
    and "31 \<le> k" and "k \<le> 396" and "k = 396 \<longrightarrow> m = 2 \<and> d = 29"
proof -
  have dim: "d \<le> (if m = 2 then 29 else if m \<in> {4, 6, 9, 11} then 30 else 31)"
    using assms(4) by (auto simp: month_days_def split: if_splits)
  have "80 * k div 2447 = (if m \<le> 2 then m + 10 else m - 2)
      \<and> k - 2447 * (if m \<le> 2 then m + 10 else m - 2) div 80 = d \<and> 31 \<le> k \<and> k \<le> 396 \<and> (k = 396 \<longrightarrow> m = 2 \<and> d = 29)"
    unfolding k_def march_offset_def using assms(1,2)
    by (cases m rule: month_cases) (insert dim assms(3), auto intro!: div_eqI)
  then show "80 * k div 2447 = (if m \<le> 2 then m + 10 else m - 2)"
    "k - 2447 * (if m \<le> 2 then m + 10 else m - 2) div 80 = d" "31 \<le> k" "k \<le> 396" "k = 396 \<longrightarrow> m = 2 \<and> d = 29"
    by blast+
qed

lemma march_leap:
  assumes "leap y" and "y + 4799 = 100 * c + r" and "0 \<le> r" "r < 100"
  shows "r mod 4 = 3 \<and> (r = 99 \<longrightarrow> (c + 1) mod 4 = 0)"
proof -
  have y: "y = 100 * c + r - 4799" using assms(2) by linarith
  have "y mod 400 mod 4 = y mod 4" by (simp add: mod_mod_cancel)
  then have "y mod 4 = 0" using assms(1) by (auto simp: leap_def)
  then have r3: "r mod 4 = 3" unfolding y by presburger
  have "(c + 1) mod 4 = 0" if "r = 99"
  proof -
    have "y = 100 * (c - 47)" using y that by simp
    then have "y mod 100 = 0" by simp
    then have "y mod 400 = 0" using assms(1) by (auto simp: leap_def)
    moreover have "y mod 400 = 100 * ((c - 47) mod 4)"
      unfolding \<open>y = 100 * (c - 47)\<close> using mod_mult_mult1 [of 100 "c - 47" 4] by simp
    ultimately have "(c - 47) mod 4 = 0" by simp
    then show ?thesis by presburger
  qed
  with r3 show ?thesis by blast
qed


text \<open>What \<^verbatim>\<open>GWEN_Date_setJulian\<close> computes from the number of a valid date. Years up to 1100000 keep
  every intermediate result inside an \<^verbatim>\<open>int\<close>.\<close>

lemma date_julian_bounds:
  assumes "valid_date y m d"
  shows "0 \<le> date_julian y m d" and "4 * date_julian y m d \<le> 1461 * y + 7014384"
proof -
  from assms have y0: "0 \<le> y" and m: "1 \<le> m" "m \<le> 12" and d: "1 \<le> d" "d \<le> month_days y m"
    by (auto simp: valid_date_def)
  define a A B D where "a = march_year y m" and "A = 1461 * a div 4" and "B = 3 * ((a + 100) div 100) div 4" and "D = (a + 100) div 100"
  have a: "4799 \<le> a" "a \<le> y + 4800" using y0 by (auto simp: a_def march_year_def)
  have A: "1461 * a - 3 \<le> 4 * A" "4 * A \<le> 1461 * a" unfolding A_def by presburger+
  have D: "100 * D \<le> a + 100" "0 \<le> D" using a(1) by (auto simp: D_def)
  have B: "4 * B \<le> 3 * D" "0 \<le> B" unfolding B_def D_def [symmetric] using D(2) by auto
  have J: "date_julian y m d = A + (march_offset m + d) - B - 32075"
    unfolding date_julian_march [OF y0 m] a_def [symmetric] A_def B_def D_def by simp
  show "0 \<le> date_julian y m d"
    unfolding J using a A B D setJulian_month(3,4) [OF m d] by linarith
  have "1461 * a \<le> 1461 * y + 7012800" using a(2) by simp
  then show "4 * date_julian y m d \<le> 1461 * y + 7014384"
    unfolding J using A B setJulian_month(4) [OF m d] by simp
qed

lemma setJulian_valid:
  assumes v: "valid_date y m d" and y: "y \<le> 1100000"
  shows "GWEN_Date_setJulian gd (date_julian y m d)
    = Ret (date_writeAsString (gd\<lparr>gd_day := d, gd_month := m, gd_year := y, gd_julian := date_julian y m d\<rparr>))"
proof -
  from v have y0: "0 \<le> y" and m: "1 \<le> m" "m \<le> 12" and d: "1 \<le> d" "d \<le> month_days y m"
    by (auto simp: valid_date_def)
  let ?a = "march_year y m" and ?mm = "if m \<le> 2 then m + 10 else m - 2"
  define c r k where "c = ?a div 100" and "r = ?a mod 100" and "k = march_offset m + d"
  have a: "?a = 100 * c + r" "0 \<le> c" "0 \<le> r" "r < 100" using y0 by (auto simp: c_def r_def march_year_def)
  note mo = setJulian_month [OF m d, folded k_def]
  have kk: "0 \<le> k - 31" "k - 31 \<le> 364 \<or> k - 31 = 365 \<and> r mod 4 = 3 \<and> (r = 99 \<longrightarrow> (c + 1) mod 4 = 0)"
  proof -
    show "0 \<le> k - 31" using mo(3) by simp
    show "k - 31 \<le> 364 \<or> k - 31 = 365 \<and> r mod 4 = 3 \<and> (r = 99 \<longrightarrow> (c + 1) mod 4 = 0)"
    proof (cases "k = 396")
      case True
      then have "m = 2" "d = 29" using mo(5) by auto
      then have "leap y" using d(2) by (auto simp: month_days_def split: if_splits)
      moreover have "y + 4799 = 100 * c + r" using a(1) \<open>m = 2\<close> by (simp add: march_year_def)
      ultimately show ?thesis using march_leap [of y c r] a True by auto
    qed (use mo(4) in auto)
  qed
  note core = setJulian_core [OF a(2,3,4) kk]
  have l0: "date_julian y m d + 68569 = 1461 * (100 * c + r) div 4 - 3 * (c + 1) div 4 + (k - 31) + 36525"
  proof -
    have "(100 * c + r + 100) div 100 = c + 1" using a(3,4) by (intro div_eqI) auto
    then show ?thesis unfolding date_julian_march [OF y0 m] a(1) k_def by simp
  qed
  have l1: "365 * r + r div 4 + (k - 31) + 1 \<le> 36526" "0 \<le> 365 * r + r div 4 + (k - 31)"
    using a(3,4) mo(3,4) by auto
  note jb = date_julian_bounds [OF v]
  have c_le: "c \<le> 11100" using a y by (simp add: march_year_def split: if_splits)
  have ints: "list_all in_int [date_julian y m d, date_julian y m d + 68569, 4 * (date_julian y m d + 68569), 146097 * (c + 1) + 3,
      4000 * (365 * r + r div 4 + (k - 31) + 1)]"
    using jb c_le a(2) l1 y by (auto simp: in_int_def)
  let ?l0 = "date_julian y m d + 68569"
  have n: "(4 * ?l0) sdiv 146097 = c + 1" using core(1) jb(1) unfolding l0 [symmetric] by (simp add: sdiv_nonneg)
  have e1: "?l0 - (146097 * (c + 1) + 3) sdiv 4 = 365 * r + r div 4 + (k - 31)"
    using core(2) a(2) unfolding l0 [symmetric] by (simp add: sdiv_nonneg)
  have i: "(4000 * (365 * r + r div 4 + (k - 31) + 1)) sdiv 1461001 = r"
    using core(3) l1(2) by (subst sdiv_nonneg) auto
  have e2: "365 * r + r div 4 + (k - 31) - (1461 * r) sdiv 4 + 31 = k"
    using core(4) a(3) by (simp add: sdiv_nonneg)
  have j: "(80 * k) sdiv 2447 = ?mm" using mo(1,3) by (subst sdiv_nonneg) auto
  have mm: "0 \<le> ?mm" using m by auto
  have dd: "k - (2447 * ?mm) sdiv 80 = d" using mo(2) mm by (subst sdiv_nonneg) auto
  have l3: "?mm sdiv 11 = (if m \<le> 2 then 1 else 0)"
    using mm m by (subst sdiv_nonneg) (auto intro!: div_eqI)
  have mon: "?mm + 2 - 12 * (if m \<le> 2 then 1 else 0) = m" by simp
  have yr: "100 * (c + 1 - 49) + r + (if m \<le> 2 then 1 else 0) = y"
    using a(1) by (simp add: march_year_def split: if_splits)
  show ?thesis
    unfolding GWEN_Date_setJulian_def Let_def n e1 i e2 j dd l3 mon yr
    using ints by simp
qed


section \<open>Walking through the calendar\<close>

definition next_day :: "int \<times> int \<times> int \<Rightarrow> int \<times> int \<times> int" where
  "next_day = (\<lambda>(y, m, d). if d < month_days y m then (y, m, d + 1)
     else if m < 12 then (y, m + 1, 1) else (y + 1, 1, 1))"

lemma div_step: "0 < n \<Longrightarrow> (z + 1) div n = z div n + (if (z + 1) mod n = 0 then 1 else 0)" for z n :: int
proof -
  assume n: "0 < n"
  define q r where "q = z div n" and "r = z mod n"
  have z: "z = n * q + r" "0 \<le> r" "r < n" using n by (auto simp: q_def r_def)
  show ?thesis
  proof (cases "r = n - 1")
    case True
    then have e: "z + 1 = n * (q + 1)" using z(1) by (simp add: distrib_left)
    show ?thesis unfolding q_def [symmetric] e using n by simp
  next
    case False
    then have "r + 1 < n" using z by linarith
    then have d: "(z + 1) div n = q" using z by (intro div_eqI) auto
    have "(z + 1) mod n = r + 1" using minus_mult_div_eq_mod [of "z + 1" n] d z(1) by simp
    then show ?thesis using d z(2) by (simp add: q_def)
  qed
qed

lemma leap_shift: "leap y \<longleftrightarrow> (y + 4800) mod 4 = 0 \<and> (y + 4800) mod 100 \<noteq> 0 \<or> (y + 4800) mod 400 = 0"
proof -
  have "(y + 4800) mod n = y mod n" if "n dvd 4800" for n
    using that by (metis dvd_imp_mod_0 add_0_right mod_add_right_eq)
  then show ?thesis by (simp add: leap_def)
qed

lemma february:
  fixes a :: int
  shows "1461 * (a + 1) div 4 - 3 * ((a + 1 + 100) div 100) div 4
     = 1461 * a div 4 - 3 * ((a + 100) div 100) div 4
       + (if (a + 1) mod 4 = 0 \<and> (a + 1) mod 100 \<noteq> 0 \<or> (a + 1) mod 400 = 0 then 366 else 365)"
proof -
  define b where "b = a + 1"
  define D where "D = (a + 100) div 100"
  have A: "1461 * (a + 1) div 4 = 1461 * a div 4 + 365 + (if b mod 4 = 0 then 1 else 0)"
  proof -
    have e4: "(x + 4 * z) div 4 = z + x div 4" for x z :: int by simp
    have "1461 * (a + 1) div 4 = 365 * (a + 1) + (a + 1) div 4" "1461 * a div 4 = 365 * a + a div 4"
      using e4 [of "a + 1" "365 * (a + 1)"] e4 [of a "365 * a"] by (simp_all add: algebra_simps)
    then show ?thesis using div_step [of 4 a] by (simp add: b_def)
  qed
  have D: "(a + 1 + 100) div 100 = D + (if b mod 100 = 0 then 1 else 0)"
  proof -
    have e: "a + 100 + 1 = a + 1 + 100" by simp
    have "(a + 1 + 100) mod 100 = b mod 100" unfolding b_def by (rule mod_add_self2)
    then show ?thesis using div_step [of 100 "a + 100"] unfolding e D_def by simp
  qed
  have c: "3 * (D + 1) div 4 = 3 * D div 4 + (if D mod 4 = 0 then 0 else 1)"
  proof -
    define t s where "t = D div 4" and "s = D mod 4"
    have D4: "D = 4 * t + s" "0 \<le> s" "s < 4" by (simp_all add: t_def s_def)
    have e4: "(x + 4 * z) div 4 = z + x div 4" for x z :: int by simp
    have "3 * (D + 1) div 4 = 3 * t + (3 * s + 3) div 4" "3 * D div 4 = 3 * t + 3 * s div 4"
      using e4 [of "3 * s + 3" "3 * t"] e4 [of "3 * s" "3 * t"] D4(1) by (simp_all add: algebra_simps)
    moreover have "s = 0 \<or> s = 1 \<or> s = 2 \<or> s = 3" using D4 by arith
    ultimately show ?thesis unfolding s_def [symmetric] by auto
  qed
  have m: "b mod 400 = 0 \<longleftrightarrow> b mod 100 = 0 \<and> D mod 4 = 0"
  proof (cases "b mod 100 = 0")
    case True
    then obtain t where t: "b = 100 * t" by (metis dvd_eq_mod_eq_0 dvdE)
    then have "D = t" unfolding D_def b_def by (intro div_eqI) auto
    moreover have "100 * t mod (100 * 4) = 100 * (t mod 4)" by (rule mod_mult_mult1)
    ultimately show ?thesis using True t by simp
  next
    case False
    have "b mod 400 mod 100 = b mod 100" by (simp add: mod_mod_cancel)
    with False show ?thesis by auto
  qed
  have "b mod 100 mod 4 = b mod 4" by (simp add: mod_mod_cancel)
  then have m4: "b mod 100 = 0 \<Longrightarrow> b mod 4 = 0" by auto
  define L where "L = 1461 * a div 4"
  define K where "K = 3 * D div 4"
  have c': "3 * (D + (if p then 1 else 0)) div 4 = K + (if p \<and> D mod 4 \<noteq> 0 then 1 else 0)" for p
    using c by (cases p) (simp_all add: K_def)
  show ?thesis unfolding A D unfolding c' b_def [symmetric] D_def [symmetric] K_def [symmetric] L_def [symmetric] m
    using m4 by (cases "b mod 100 = 0"; cases "b mod 4 = 0"; cases "D mod 4 = 0") simp_all
qed


definition march_days :: "int \<Rightarrow> int" where
  "march_days a = 1461 * a div 4 - 3 * ((a + 100) div 100) div 4"

lemma date_julian_march_days:
  assumes "0 \<le> y" "1 \<le> m" "m \<le> 12"
  shows "date_julian y m d = march_days (march_year y m) + march_offset m + d - 32075"
  using date_julian_march [OF assms, of d] by (simp add: march_days_def)

lemma march_days_step: "march_days (y + 4800) = march_days (y + 4799) + (if leap y then 366 else 365)"
proof -
  have e: "y + 4799 + 1 = y + 4800" by simp
  show ?thesis using february [of "y + 4799", unfolded e] unfolding march_days_def leap_shift .
qed

lemma month_end:
  assumes y: "0 \<le> y" and m: "1 \<le> m" "m \<le> 12"
  shows "date_julian y m 1 + month_days y m = (if m < 12 then date_julian y (m + 1) 1 else date_julian (y + 1) 1 1)"
proof (cases "m = 2")
  case True
  have "date_julian y 2 1 = march_days (y + 4799) + 367 + 1 - 32075"
    "date_julian y 3 1 = march_days (y + 4800) + 30 + 1 - 32075"
    using y by (simp_all add: date_julian_march_days march_year_def march_offset_def)
  with march_days_step [of y] show ?thesis unfolding True by (simp add: month_days_def)
next
  case False
  have off: "march_offset m + month_days y m = march_offset (if m < 12 then m + 1 else 1)"
    using m by (cases m rule: month_cases) (use False in \<open>auto simp: march_offset_def month_days_def\<close>)
  have yr: "march_year y m = (if m < 12 then march_year y (m + 1) else march_year (y + 1) 1)"
    using False m by (auto simp: march_year_def)
  show ?thesis
  proof (cases "m < 12")
    case True
    then show ?thesis
      using off yr m y date_julian_march [OF y m, of 1] date_julian_march [OF y, of "m + 1" 1] by simp
  next
    case False
    then show ?thesis
      using off yr m y date_julian_march [OF y m, of 1] date_julian_march [of "y + 1" 1 1] by simp
  qed
qed

lemma date_julian_day: "date_julian y m d = date_julian y m 1 + d - 1"
  by (simp add: date_julian_def)

lemma next_day_valid:
  assumes "valid_date y m d" and "next_day (y, m, d) = (y', m', d')"
  shows "valid_date y' m' d'" and "date_julian y' m' d' = date_julian y m d + 1"
proof -
  from assms(1) have v: "0 \<le> y" "1 \<le> m" "m \<le> 12" "1 \<le> d" "d \<le> month_days y m" by (auto simp: valid_date_def)
  have pos: "1 \<le> month_days a b" for a b by (simp add: month_days_def)
  show "valid_date y' m' d'"
    using assms(2) v pos by (auto simp: next_day_def valid_date_def split: if_splits)
  show "date_julian y' m' d' = date_julian y m d + 1"
    using assms(2) v month_end [OF v(1-3)] date_julian_day [of y m d] date_julian_day [of y m "d + 1"]
    by (auto simp: next_day_def split: if_splits)
qed

lemma next_days_valid:
  assumes "valid_date y m d" and "(next_day ^^ n) (y, m, d) = (y', m', d')"
  shows "valid_date y' m' d' \<and> date_julian y' m' d' = date_julian y m d + int n"
  using assms
proof (induction n arbitrary: y' m' d')
  case (Suc n)
  obtain y1 m1 d1 where s: "(next_day ^^ n) (y, m, d) = (y1, m1, d1)" by (cases "(next_day ^^ n) (y, m, d)")
  then have "next_day (y1, m1, d1) = (y', m', d')" using Suc.prems(2) by simp
  with Suc.IH [OF Suc.prems(1) s] next_day_valid [of y1 m1 d1 y' m' d'] show ?case by simp
qed simp

lemma date_julian_lower: "valid_date y m d \<Longrightarrow> 365 * y + 1720750 \<le> date_julian y m d"
proof -
  assume "valid_date y m d"
  then have y0: "0 \<le> y" and m: "1 \<le> m" "m \<le> 12" and d: "1 \<le> d" "d \<le> month_days y m" by (auto simp: valid_date_def)
  define a A B D where "a = march_year y m" and "A = 1461 * a div 4" and "B = 3 * ((a + 100) div 100) div 4"
    and "D = (a + 100) div 100"
  have a: "y + 4799 \<le> a" by (simp add: a_def march_year_def)
  have A: "1461 * a - 3 \<le> 4 * A" unfolding A_def by presburger
  have D: "100 * D \<le> a + 100" "0 \<le> D" using a y0 by (auto simp: D_def)
  have B: "4 * B \<le> 3 * D" unfolding B_def D_def [symmetric] using D(2) by auto
  have J: "date_julian y m d = A + (march_offset m + d) - B - 32075"
    unfolding date_julian_march [OF y0 m] a_def [symmetric] A_def B_def by simp
  show ?thesis unfolding J using a A B D y0 setJulian_month(3) [OF m d] by linarith
qed

lemma year_zero: "date_julian 0 1 1 = 1721060"
  by (simp add: date_julian_march march_year_def march_offset_def)

lemma date_of_julian:
  assumes "1721060 \<le> J"
  obtains y m d where "valid_date y m d" "date_julian y m d = J"
proof -
  obtain y m d where e: "(next_day ^^ nat (J - 1721060)) (0, 1, 1) = (y, m, d)"
    by (cases "(next_day ^^ nat (J - 1721060)) (0, 1, 1)")
  have "valid_date 0 1 1" by (simp add: valid_date_def month_days_def)
  from next_days_valid [OF this e] assms have "valid_date y m d" "date_julian y m d = J" by (simp_all add: year_zero)
  then show ?thesis by (rule that)
qed

end
