(* ===== verification/Gwen_DateProps.thy ===== *)
theory Gwen_DateProps
  imports Gwen_Calendar "HOL-Library.Product_Lexorder"
begin

text \<open>
  What \<^verbatim>\<open>src/os/gwendate.c\<close> promises, over the calendar: the constructor accepts exactly the valid dates,
  the two conversions are inverse, adding days walks through the calendar, the comparison is the
  chronological order, the text of a date is read back, and which of the functions for the current and
  the last period are right.
\<close>

section \<open>Dates of the calendar\<close>

text \<open>The object that stands for a calendar date.\<close>

definition date_of :: "int \<times> int \<times> int \<Rightarrow> gwen_date" where
  "date_of = (\<lambda>(y, m, d). date_writeAsString
     \<lparr>gd_year = y, gd_month = m, gd_day = d, gd_julian = date_julian y m d, gd_asString = replicate 9 0\<rparr>)"

lemma date_of_fields [simp]:
  "gd_year (date_of (y, m, d)) = y" "gd_month (date_of (y, m, d)) = m" "gd_day (date_of (y, m, d)) = d"
  "gd_julian (date_of (y, m, d)) = date_julian y m d"
  by (simp_all add: date_of_def date_writeAsString_def Let_def)

lemma date_julian_fits_valid: "0 \<le> y \<Longrightarrow> y \<le> 1000000 \<Longrightarrow> 1 \<le> m \<Longrightarrow> m \<le> 12 \<Longrightarrow> date_julian_fits y m"
  by (simp add: date_julian_fits_def in_int_def march_sdiv)

lemma fromGregorian_valid:
  assumes "valid_date y m d" "y \<le> 1000000"
  shows "GWEN_Date_fromGregorian y m d = Ret (Some (date_of (y, m, d)))"
proof -
  have "d \<le> 31" using assms(1) by (auto simp: valid_date_def month_days_def split: if_splits)
  then show ?thesis
    using assms
    by (simp add: valid_date_def GWEN_Date_fromGregorian_def date_createFromGregorianAndUseGivenString_def
        daysInMonth_eq date_julian_fits_valid date_of_def)
qed

lemma fromGregorian_invalid: "\<not> valid_date y m d \<Longrightarrow> GWEN_Date_fromGregorian y m d = Ret None"
  by (auto simp: valid_date_def GWEN_Date_fromGregorian_def date_createFromGregorianAndUseGivenString_def
      daysInMonth_eq)

lemma setJulian_date_of:
  "valid_date y m d \<Longrightarrow> y \<le> 1100000 \<Longrightarrow> GWEN_Date_setJulian gd (date_julian y m d) = Ret (date_of (y, m, d))"
  by (cases gd) (simp add: setJulian_valid date_of_def date_writeAsString_def Let_def)

lemma julian_inj:
  assumes "valid_date y m d" "valid_date y' m' d'" "y \<le> 1100000" "y' \<le> 1100000"
    and "date_julian y m d = date_julian y' m' d'"
  shows "(y, m, d) = (y', m', d')"
proof -
  have "date_of (y, m, d) = date_of (y', m', d')"
    using setJulian_date_of [OF assms(1,3)] setJulian_date_of [OF assms(2,4)] assms(5) by simp
  then show ?thesis by (metis date_of_fields(1-3))
qed

lemma next_day_less: "x < next_day x"
  by (cases x) (auto simp: next_day_def less_prod_def)

lemma next_days_less: "0 < n \<Longrightarrow> x < (next_day ^^ n) x"
proof (induction n)
  case (Suc n)
  then show ?case using next_day_less [of "(next_day ^^ n) x"] by (cases n) (auto intro: less_trans)
qed simp

lemma next_days_year:
  assumes "valid_date y m d" and "(next_day ^^ n) (y, m, d) = (y', m', d')"
  shows "y \<le> y'"
proof (cases "n = 0")
  case False
  then show ?thesis using next_days_less [of n "(y, m, d)"] assms(2) by (auto simp: less_prod_def)
qed (use assms in simp)

text \<open>The chronological order is the order of the Julian day numbers.\<close>

lemma julian_less:
  assumes v: "valid_date y m d" "valid_date y' m' d'" and y: "y \<le> 1000000" "y' \<le> 1000000"
    and lt: "date_julian y m d < date_julian y' m' d'"
  shows "(y, m, d) < (y', m', d')"
proof -
  define n where "n = nat (date_julian y' m' d' - date_julian y m d)"
  obtain a b c where s: "(next_day ^^ n) (y, m, d) = (a, b, c)" by (cases "(next_day ^^ n) (y, m, d)")
  have ab: "valid_date a b c" "date_julian a b c = date_julian y' m' d'"
    using next_days_valid [OF v(1) s] lt by (auto simp: n_def)
  have "a \<le> 1100000"
    using date_julian_lower [OF ab(1)] ab(2) date_julian_bounds(2) [OF v(2)] y by linarith
  then have "(a, b, c) = (y', m', d')" using julian_inj [OF ab(1) v(2) _ _ ab(2)] y by simp
  then show ?thesis using next_days_less [of n "(y, m, d)"] s lt by (simp add: n_def)
qed

section \<open>Conversions\<close>

text \<open>C26. The constructor accepts exactly the dates of the calendar, and going to the Julian day number
  and back gives the same object, for all years up to a million.\<close>

theorem date_roundtrip:
  assumes "y \<le> 1000000"
  shows "GWEN_Date_fromGregorian y m d = Ret (if valid_date y m d then Some (date_of (y, m, d)) else None)
    \<and> (valid_date y m d \<longrightarrow>
         GWEN_Date_fromJulian (GWEN_Date_GetJulian (date_of (y, m, d))) = Ret (date_of (y, m, d)))"
  using assms fromGregorian_valid fromGregorian_invalid setJulian_date_of
  by (simp add: GWEN_Date_fromJulian_def GWEN_Date_GetJulian_def)

theorem date_roundtrip_witness:
  "GWEN_Date_fromGregorian 2024 2 29 = Ret (Some (date_of (2024, 2, 29)))
   \<and> GWEN_Date_fromJulian (GWEN_Date_GetJulian (date_of (2024, 2, 29))) = Ret (date_of (2024, 2, 29))"
proof -
  have "valid_date 2024 2 29" by code_simp
  then show ?thesis using date_roundtrip [of 2024 2 29] by simp
qed

text \<open>C27. Every Julian day number from the first day of year 0 up to 365 million is the number of a date
  of the calendar, and \<^verbatim>\<open>GWEN_Date_fromJulian\<close> returns this date.\<close>

theorem date_julian_total:
  assumes "1721060 \<le> J" "J \<le> 365000000"
  shows "\<exists>y m d. valid_date y m d \<and> GWEN_Date_fromJulian J = Ret (date_of (y, m, d))
    \<and> GWEN_Date_GetJulian (date_of (y, m, d)) = J"
proof -
  from date_of_julian [OF assms(1)] obtain y m d where v: "valid_date y m d" "date_julian y m d = J" .
  then have "y \<le> 1100000" using date_julian_lower [OF v(1)] assms(2) by linarith
  then have "GWEN_Date_fromJulian J = Ret (date_of (y, m, d))"
    using setJulian_date_of [OF v(1)] v(2) by (simp add: GWEN_Date_fromJulian_def)
  then show ?thesis using v by (auto simp: GWEN_Date_GetJulian_def)
qed

theorem date_julian_total_witness:
  "\<exists>y m d. valid_date y m d \<and> GWEN_Date_fromJulian 2460371 = Ret (date_of (y, m, d))
    \<and> GWEN_Date_GetJulian (date_of (y, m, d)) = 2460371"
  by (rule date_julian_total) simp_all

section \<open>Arithmetic and order\<close>

text \<open>C28. Adding \<open>n\<close> days walks \<open>n\<close> days forward through the calendar, and subtracting them walks back.\<close>

theorem date_add_days:
  assumes v: "valid_date y m d" and y: "fst ((next_day ^^ n) (y, m, d)) \<le> 1000000"
  shows "GWEN_Date_AddDays (date_of (y, m, d)) (int n) = Ret (date_of ((next_day ^^ n) (y, m, d)))
    \<and> GWEN_Date_SubDays (date_of ((next_day ^^ n) (y, m, d))) (int n) = Ret (date_of (y, m, d))"
proof -
  obtain a b c where s: "(next_day ^^ n) (y, m, d) = (a, b, c)" by (cases "(next_day ^^ n) (y, m, d)")
  note w = next_days_valid [OF v s]
  have ya: "y \<le> a" "a \<le> 1000000" using next_days_year [OF v s] y s by auto
  have J: "in_int (date_julian a b c)" "in_int (date_julian y m d)"
    using date_julian_bounds [of a b c] date_julian_bounds [OF v] w ya by (auto simp: in_int_def)
  have "date_julian y m d + int n = date_julian a b c" "date_julian a b c - int n = date_julian y m d"
    using w by simp_all
  then show ?thesis
    unfolding s using J w v ya setJulian_date_of [of a b c] setJulian_date_of [of y m d]
    by (simp add: GWEN_Date_AddDays_def GWEN_Date_SubDays_def)
qed

theorem date_add_days_witness:
  "GWEN_Date_AddDays (date_of (2023, 12, 31)) 60 = Ret (date_of (2024, 2, 29))
   \<and> GWEN_Date_SubDays (date_of (2024, 2, 29)) 60 = Ret (date_of (2023, 12, 31))"
proof -
  have v: "valid_date 2023 12 31" by code_simp
  have n: "(next_day ^^ 60) (2023, 12, 31) = (2024, 2, 29)" by code_simp
  show ?thesis using date_add_days [OF v, of 60] unfolding n by simp
qed

text \<open>The comparison of two dates is their chronological order: year before month before day.\<close>

theorem date_compare:
  assumes "valid_date y m d" "valid_date y' m' d'" and "y \<le> 1000000" "y' \<le> 1000000"
  shows "GWEN_Date_Compare (Some (date_of (y, m, d))) (Some (date_of (y', m', d')))
    = (if (y, m, d) = (y', m', d') then 0 else if (y, m, d) > (y', m', d') then 1 else -1)"
proof -
  consider "date_julian y m d = date_julian y' m' d'" | "date_julian y m d < date_julian y' m' d'"
    | "date_julian y m d > date_julian y' m' d'" by linarith
  then show ?thesis
  proof cases
    case 1
    then have "(y, m, d) = (y', m', d')" using julian_inj [of y m d y' m' d'] assms by simp
    with 1 show ?thesis by (simp add: GWEN_Date_Compare_def)
  next
    case 2
    then have "(y, m, d) < (y', m', d')" using julian_less assms by blast
    with 2 show ?thesis by (auto simp: GWEN_Date_Compare_def)
  next
    case 3
    then have "(y', m', d') < (y, m, d)" using julian_less assms by blast
    with 3 show ?thesis by (auto simp: GWEN_Date_Compare_def)
  qed
qed

theorem date_compare_witness:
  "GWEN_Date_Compare (Some (date_of (2024, 2, 29))) (Some (date_of (2023, 12, 31))) = 1"
proof -
  have v: "valid_date 2024 2 29" "valid_date 2023 12 31" by code_simp+
  show ?thesis using date_compare [OF v] by (simp add: less_prod_def)
qed

section \<open>Text\<close>

lemma digit_value:
  assumes "0 \<le> x"
  shows "sint (digit x) - 48 = x mod 10" and "digit x \<noteq> 0"
proof -
  have r: "0 \<le> x mod 10" "x mod 10 < 10" by simp_all
  have s: "x smod 10 = x mod 10" using assms by (simp add: smod_nonneg)
  have "sint (digit x) = 48 + x mod 10"
    unfolding digit_def s sint_sbintrunc' using r by (intro signed_take_bit_int_eq_self) simp_all
  then show "sint (digit x) - 48 = x mod 10" "digit x \<noteq> 0" using r by auto
qed

text \<open>C29. The text of a date, eight digits for years below 10000, is read back as the same date.\<close>

theorem date_string_roundtrip:
  assumes v: "valid_date y m d" and y: "y \<le> 9999"
  shows "GWEN_Date_fromString (Some (GWEN_Date_GetString (date_of (y, m, d)))) = Ret (Some (date_of (y, m, d)))"
proof -
  let ?y1 = "y sdiv 10" and ?m1 = "m sdiv 10" and ?d1 = "d sdiv 10"
  define ds where "ds = [digit (?y1 sdiv 10 sdiv 10), digit (?y1 sdiv 10), digit ?y1, digit y,
           digit ?m1, digit m, digit ?d1, digit d]"
  have s: "GWEN_Date_GetString (date_of (y, m, d)) = ds @ [0]"
    by (simp add: GWEN_Date_GetString_def date_of_def date_writeAsString_def Let_def ds_def)
  have b: "0 \<le> y" "0 \<le> m" "m \<le> 12" "0 \<le> d" "d \<le> 31"
    using v by (auto simp: valid_date_def month_days_def split: if_splits)
  have nz: "list_all (\<lambda>c. c \<noteq> 0) ds" using b by (simp add: ds_def digit_value sdiv_nonneg)
  have len: "strlen (ds @ [0]) = 8" using strlen_digits [OF nz, of "[]"] by (simp add: ds_def)
  have yy: "((((sint (ds ! 0) - 48) * 10 + (sint (ds ! 1) - 48)) * 10 + (sint (ds ! 2) - 48)) * 10 + (sint (ds ! 3) - 48)) = y"
    using b y by (simp add: ds_def digit_value sdiv_nonneg)
  have mm: "(sint (ds ! 4) - 48) * 10 + (sint (ds ! 5) - 48) = m"
    using b by (simp add: ds_def digit_value sdiv_nonneg)
  have dd: "(sint (ds ! 6) - 48) * 10 + (sint (ds ! 7) - 48) = d"
    using b by (simp add: ds_def digit_value sdiv_nonneg)
  have nth: "(ds @ [0]) ! i = ds ! i" if "i < 8" for i
  proof -
    have "length ds = 8" by (simp add: ds_def)
    then show ?thesis using that by (simp add: nth_append)
  qed
  have "GWEN_Date_fromString (Some (ds @ [0])) = date_createFromGregorianAndUseGivenString y m d (Some (ds @ [0]))"
    unfolding GWEN_Date_fromString_def Let_def option.case len using yy mm dd by (simp add: nth ds_def)
  moreover have "date_createFromGregorianAndUseGivenString y m d (Some (ds @ [0])) = Ret (Some (date_of (y, m, d)))"
  proof -
    have str: "date_of (y, m, d) = \<lparr>gd_year = y, gd_month = m, gd_day = d, gd_julian = date_julian y m d,
        gd_asString = ds @ [0]\<rparr>"
      by (simp add: date_of_def date_writeAsString_def Let_def ds_def)
    have ds: "\<exists>c cs. ds @ [0] = c # cs \<and> c \<noteq> 0 \<and> length (c # cs) = 9 \<and> take 8 (c # cs) = ds"
      using nz by (simp add: ds_def)
    have "date_daysInMonth m y = Ret (month_days y m)" "date_julian_fits y m"
      using v y daysInMonth_eq date_julian_fits_valid by (auto simp: valid_date_def)
    then show ?thesis
      unfolding str using v ds b(5) by (auto simp: valid_date_def date_createFromGregorianAndUseGivenString_def)
  qed
  ultimately show ?thesis unfolding s by simp
qed

theorem date_string_roundtrip_witness:
  "GWEN_Date_fromString (Some (GWEN_Date_GetString (date_of (2024, 2, 29)))) = Ret (Some (date_of (2024, 2, 29)))"
proof -
  have v: "valid_date 2024 2 29" by code_simp
  show ?thesis using date_string_roundtrip [OF v] by simp
qed

section \<open>Periods\<close>

lemma prev_day:
  assumes v: "valid_date y m d" and n: "(y, m, d) \<noteq> (0, 1, 1)" and y: "y \<le> 1000000"
  obtains a b c where "valid_date a b c" "next_day (a, b, c) = (y, m, d)" "a \<le> 1000000"
    "date_julian a b c = date_julian y m d - 1"
proof -
  have m1: "1 \<le> month_days a b" "month_days a b \<le> 31" for a b by (auto simp: month_days_def)
  have dec: "month_days a 12 = 31" for a by (simp add: month_days_def)
  define p where "p = (if 1 < d then (y, m, d - 1) else if 1 < m then (y, m - 1, month_days y (m - 1)) else (y - 1, 12, 31))"
  obtain a b c where p: "p = (a, b, c)" by (cases p)
  have v2: "valid_date a b c" "next_day (a, b, c) = (y, m, d)" "a \<le> 1000000"
    using v n y p m1 [of y "m - 1"] dec
    by (auto simp: p_def valid_date_def next_day_def split: if_splits)
  then show ?thesis using that next_day_valid(2) [OF v2(1,2)] by simp
qed

text \<open>First and last day of the month, the half year and the year of a date; and the last day of the
  month before is the day before the first.\<close>

theorem date_periods:
  assumes v: "valid_date y m d" and y: "0 < y" "y \<le> 1000000"
  shows "GWEN_Date_GetThisMonthStart (date_of (y, m, d)) = Ret (Some (date_of (y, m, 1)))
    \<and> GWEN_Date_GetThisMonthEnd (date_of (y, m, d)) = Ret (Some (date_of (y, m, month_days y m)))
    \<and> GWEN_Date_GetThisHalfYearStart (date_of (y, m, d)) = Ret (Some (date_of (y, if m < 7 then 1 else 7, 1)))
    \<and> GWEN_Date_GetThisHalfYearEnd (date_of (y, m, d))
        = Ret (Some (date_of (if m < 7 then (y, 6, 30) else (y, 12, 31))))
    \<and> GWEN_Date_GetThisYearStart (date_of (y, m, d)) = Ret (Some (date_of (y, 1, 1)))
    \<and> GWEN_Date_GetThisYearEnd (date_of (y, m, d)) = Ret (Some (date_of (y, 12, 31)))
    \<and> (\<exists>t. next_day t = (y, m, 1) \<and> GWEN_Date_GetLastMonthEnd (date_of (y, m, d)) = Ret (date_of t)
         \<and> GWEN_Date_GetLastMonthStart (date_of (y, m, d)) = Ret (Some (date_of (fst t, fst (snd t), 1))))"
proof -
  have m1: "1 \<le> month_days a b" for a b by (simp add: month_days_def)
  have vs: "valid_date y m 1" "valid_date y m (month_days y m)" "valid_date y 1 1" "valid_date y 12 31"
    "valid_date y 7 1" "valid_date y 6 30"
    using v y m1 by (auto simp: valid_date_def month_days_def)
  note fg = vs [THEN fromGregorian_valid, OF y(2)]
  obtain a b c where p: "valid_date a b c" "next_day (a, b, c) = (y, m, 1)" "a \<le> 1000000"
    "date_julian a b c = date_julian y m 1 - 1"
    using prev_day [OF vs(1)] y by auto
  have le: "GWEN_Date_GetLastMonthEnd (date_of (y, m, d)) = Ret (date_of (a, b, c))"
    using fg(1) p setJulian_date_of [OF p(1)]
    by (simp add: GWEN_Date_GetLastMonthEnd_def date_day_before_def deref_def GWEN_Date_GetYear_def
        GWEN_Date_GetMonth_def GWEN_Date_fromJulian_def GWEN_Date_GetJulian_def)
  have ls: "GWEN_Date_GetLastMonthStart (date_of (y, m, d)) = Ret (Some (date_of (a, b, 1)))"
    using le fromGregorian_valid [of a b 1] p m1
    by (simp add: GWEN_Date_GetLastMonthEnd_def GWEN_Date_GetLastMonthStart_def GWEN_Date_GetYear_def
        GWEN_Date_GetMonth_def valid_date_def)
  have me: "GWEN_Date_GetThisMonthEnd (date_of (y, m, d)) = Ret (Some (date_of (y, m, month_days y m)))"
  proof -
    have "1 \<le> m" "m \<le> 12" using v by (auto simp: valid_date_def)
    then show ?thesis using fg(2) y
      by (cases m rule: month_cases)
         (auto simp: GWEN_Date_GetThisMonthEnd_def GWEN_Date_GetYear_def GWEN_Date_GetMonth_def month_days_def
           IsLeapYear_leap)
  qed
  show ?thesis
    using fg le ls me p
    by (auto simp: GWEN_Date_GetThisMonthStart_def GWEN_Date_GetThisHalfYearStart_def GWEN_Date_GetThisHalfYearEnd_def
        GWEN_Date_GetThisYearStart_def GWEN_Date_GetThisYearEnd_def GWEN_Date_GetYear_def GWEN_Date_GetMonth_def)
qed

theorem date_periods_witness:
  "GWEN_Date_GetThisMonthEnd (date_of (2024, 2, 10)) = Ret (Some (date_of (2024, 2, 29)))
   \<and> GWEN_Date_GetThisHalfYearStart (date_of (2024, 2, 10)) = Ret (Some (date_of (2024, 1, 1)))"
proof -
  have v: "valid_date 2024 2 10" "month_days 2024 2 = 29" by code_simp+
  show ?thesis using date_periods [OF v(1)] v(2) by simp
qed

text \<open>The start of the week is a Monday, and the date lies in the seven days from it.\<close>

theorem date_week_start:
  assumes v: "valid_date y m d" and y: "0 < y" "y \<le> 1000000"
  shows "\<exists>a b c. valid_date a b c
    \<and> GWEN_Date_GetThisWeekStartFromMonday (Some (date_of (y, m, d))) = Ret (Some (date_of (a, b, c)))
    \<and> GWEN_Date_WeekDay (date_of (a, b, c)) = 1
    \<and> (\<exists>k \<le> 6. (next_day ^^ k) (a, b, c) = (y, m, d))"
proof -
  let ?J = "date_julian y m d"
  have J: "1721066 \<le> ?J" "4 * ?J \<le> 1461 * y + 7014384"
    using date_julian_lower [OF v] date_julian_bounds(2) [OF v] y by auto
  define w where "w = (?J + 1) mod 7"
  define k where "k = (if w = 0 then 6 else w - 1)"
  have w: "GWEN_Date_WeekDay (date_of (y, m, d)) = w" "0 \<le> w" "w < 7"
    using J by (simp_all add: GWEN_Date_WeekDay_def w_def smod_nonneg)
  have "?J + 1 = 7 * ((?J + 1) div 7) + w" by (simp add: w_def)
  then have "?J - k = 7 * ((?J + 1) div 7 - (if w = 0 then 1 else 0))" by (simp add: k_def)
  then have k: "0 \<le> k" "k \<le> 6" "(?J - k) mod 7 = 0" using w by (auto simp: k_def)
  obtain a b c where p: "valid_date a b c" "date_julian a b c = ?J - k"
    using date_of_julian [of "?J - k"] J k by auto
  have a: "a \<le> 1100000" using date_julian_lower [OF p(1)] p(2) J k y by simp
  have s: "GWEN_Date_GetThisWeekStartFromMonday (Some (date_of (y, m, d))) = Ret (Some (date_of (a, b, c)))"
    using w setJulian_date_of [OF p(1) a] p(2)
    by (auto simp: GWEN_Date_GetThisWeekStartFromMonday_def GWEN_Date_fromJulian_def k_def Let_def algebra_simps split: if_splits)
  obtain a' b' c' where t: "(next_day ^^ nat k) (a, b, c) = (a', b', c')" by (cases "(next_day ^^ nat k) (a, b, c)")
  have t': "valid_date a' b' c'" "date_julian a' b' c' = ?J" using next_days_valid [OF p(1) t] p(2) k by auto
  then have "a' \<le> 1100000" using date_julian_lower [OF t'(1)] J y by simp
  then have "(next_day ^^ nat k) (a, b, c) = (y, m, d)" using julian_inj [OF t'(1) v _ _ t'(2)] y t by simp
  moreover have "GWEN_Date_WeekDay (date_of (a, b, c)) = 1"
    using p(2) k J by (simp add: GWEN_Date_WeekDay_def smod_nonneg mod_add_left_eq [symmetric, of "?J - k"])
  ultimately show ?thesis using p(1) s k by (intro exI [of _ a] exI [of _ b] exI [of _ c]) (auto intro!: exI [of _ "nat k"])
qed

theorem date_week_start_witness:
  "\<exists>a b c. valid_date a b c
    \<and> GWEN_Date_GetThisWeekStartFromMonday (Some (date_of (2024, 2, 29))) = Ret (Some (date_of (a, b, c)))
    \<and> GWEN_Date_WeekDay (date_of (a, b, c)) = 1
    \<and> (\<exists>k \<le> 6. (next_day ^^ k) (a, b, c) = (2024, 2, 29))"
proof -
  have v: "valid_date 2024 2 29" by code_simp
  show ?thesis using date_week_start [OF v] by simp
qed

text \<open>The quarter is computed by a shift of the month by two bits: July counts to the second quarter.\<close>

theorem date_quarter_wrong:
  "GWEN_Date_GetThisQuarterYearStart (date_of (2024, 7, 15)) = Ret (Some (date_of (2024, 4, 1)))"
proof -
  have v: "valid_date 2024 4 1" by code_simp
  show ?thesis
    using fromGregorian_valid [OF v]
    by (simp add: GWEN_Date_GetThisQuarterYearStart_def GWEN_Date_GetMonth_def GWEN_Date_GetYear_def)
qed

end
