(* ===== verification/Gwen_DateText.thy ===== *)
theory Gwen_DateText
  imports Gwen_DateProps Gwen_BufferIO
begin

text \<open>
  Dates written and read by a template such as \<^verbatim>\<open>DD.MM.YYYY\<close>, the second half of \<^verbatim>\<open>src/os/gwendate.c\<close>. Every
  letter of the template stands for one digit, a star for the whole value. A string is the list of its
  bytes without the final \<open>NUL\<close>. The translation of the names of the days is a parameter.
\<close>

section \<open>Reading\<close>

definition dval :: "byte \<Rightarrow> int" where
  "dval c = uint c - 48"

text \<open>A result of \<^verbatim>\<open>int\<close> arithmetic: overflow is undefined.\<close>

definition ck :: "int \<Rightarrow> int outcome" where
  "ck x = (if in_int x then Ret x else Fault)"

text \<open>The digits a star stands for: up to the character behind the star.\<close>

fun date_star :: "byte \<Rightarrow> byte list \<Rightarrow> int \<Rightarrow> (int \<times> byte list) outcome" where
  "date_star t [] i = Ret (i, [])"
| "date_star t (c # p) i =
    (if \<not> isdigit c \<or> c = t then Ret (i, c # p)
     else obind (ck (i * 10)) (\<lambda>i. obind (ck (i + dval c)) (date_star t p)))"

text \<open>What a character of the template does with the value, on year, month and day.\<close>

definition date_field :: "byte \<Rightarrow> int \<Rightarrow> int \<times> int \<times> int \<Rightarrow> (int \<times> int \<times> int) outcome" where
  "date_field t i = (\<lambda>(year, month, day).
     if t = 89 then obind (ck (year * 10)) (\<lambda>year. obind (ck (year + i)) (\<lambda>year. Ret (year, month, day)))
     else if t = 77 then obind (ck (month * 10)) (\<lambda>month. obind (ck (month + i)) (\<lambda>month. Ret (year, month, day)))
     else if t = 68 then obind (ck (day * 10)) (\<lambda>day. obind (ck (day + i)) (\<lambda>day. Ret (year, month, day)))
     else Ret (year, month, day))"

text \<open>The loop: \<open>None\<close> for a template that ends with a star. A letter that finds no digit is passed over.\<close>

fun date_tmpl_loop ::
  "byte list \<Rightarrow> byte list \<Rightarrow> int \<times> int \<times> int \<Rightarrow> (int \<times> int \<times> int) option outcome" where
  "date_tmpl_loop [] p st = Ret (Some st)"
| "date_tmpl_loop (t # ts) [] st = Ret (Some st)"
| "date_tmpl_loop (t # ts) (c # p) st =
    (if t = 42 then
       (case ts of
          [] \<Rightarrow> Ret None
        | t' # ts' \<Rightarrow>
            obind (date_star t' (c # p) 0) (\<lambda>(i, p).
            obind (date_field t' i st) (date_tmpl_loop ts' p)))
     else
       (let i = (if isdigit c then dval c else -1)
        in if i = -1 \<and> t \<in> {89, 77, 68} then date_tmpl_loop ts (c # p) st
           else obind (date_field t i st) (date_tmpl_loop ts p)))"

definition GWEN_Date_fromStringWithTemplate :: "byte list \<Rightarrow> byte list \<Rightarrow> gwen_date option outcome" where
  "GWEN_Date_fromStringWithTemplate s tmpl =
     obind (date_tmpl_loop tmpl s (0, 0, 0)) (\<lambda>r.
       case r of
         None \<Rightarrow> Ret None
       | Some (year, month, day) \<Rightarrow>
           GWEN_Date_fromGregorian (if year < 100 then year + 2000 else year) month day)"

section \<open>Writing\<close>

text \<open>Decimal digits, and \<^verbatim>\<open>%0*d\<close>: filled up with zeros behind the sign.\<close>

fun dec_digits :: "nat \<Rightarrow> byte list" where
  "dec_digits n = (if n < 10 then [of_nat (48 + n)] else dec_digits (n div 10) @ [of_nat (48 + n mod 10)])"

declare dec_digits.simps [simp del]

definition dec_padded :: "nat \<Rightarrow> int \<Rightarrow> byte list" where
  "dec_padded w v =
    (let ds = dec_digits (nat \<bar>v\<bar>); sgn = (if v < 0 then [45] else [])
     in sgn @ replicate (w - length sgn - length ds) 48 @ ds)"

definition GWEN_DATE_TMPL_MAX_COUNT :: nat where
  "GWEN_DATE_TMPL_MAX_COUNT = 32"

record gwen_date_tmplchar =
  tc_character :: byte
  tc_count :: nat
  tc_maxCount :: nat
  tc_nextChar :: nat
  tc_content :: "byte list option"

definition GWEN_DateTmplChar_new :: "byte \<Rightarrow> gwen_date_tmplchar" where
  "GWEN_DateTmplChar_new c =
     \<lparr>tc_character = c, tc_count = 0,
      tc_maxCount = (if c = 89 then 4 else if c = 77 then 2 else if c = 68 then 2 else if c = 87 then 1
                     else GWEN_DATE_TMPL_MAX_COUNT),
      tc_nextChar = 0, tc_content = None\<rparr>"

definition GWEN_Date__findTmplChar :: "gwen_date_tmplchar list \<Rightarrow> byte \<Rightarrow> gwen_date_tmplchar option" where
  "GWEN_Date__findTmplChar ll c = find (\<lambda>e. tc_character e = c) ll"

text \<open>A change of the entry that \<^verbatim>\<open>GWEN_Date__findTmplChar\<close> returned, through the pointer to it.\<close>

primrec tmplchar_upd ::
  "byte \<Rightarrow> (gwen_date_tmplchar \<Rightarrow> gwen_date_tmplchar) \<Rightarrow> gwen_date_tmplchar list \<Rightarrow> gwen_date_tmplchar list" where
  "tmplchar_upd c f [] = []"
| "tmplchar_upd c f (e # es) = (if tc_character e = c then f e # es else e # tmplchar_upd c f es)"

definition tmpl_letters :: "byte list" where
  "tmpl_letters = str ''YMDWw''"

fun GWEN_Date__sampleTmplChars :: "byte list \<Rightarrow> gwen_date_tmplchar list \<Rightarrow> gwen_date_tmplchar list" where
  "GWEN_Date__sampleTmplChars [] ll = ll"
| "GWEN_Date__sampleTmplChars (c # s) ll =
    (if strchr tmpl_letters c \<noteq> None then
       (let ll = (case GWEN_Date__findTmplChar ll c of
                    None \<Rightarrow> ll @ [GWEN_DateTmplChar_new c]
                  | Some _ \<Rightarrow> ll)
        in GWEN_Date__sampleTmplChars s (tmplchar_upd c (\<lambda>e. e\<lparr>tc_count := tc_count e + 1\<rparr>) ll))
     else GWEN_Date__sampleTmplChars s ll)"

text \<open>The value of one entry. The buffer for the digits has 32 bytes, enough for every \<^verbatim>\<open>int\<close>.\<close>

definition tmplchar_fill :: "(string \<Rightarrow> byte list) \<Rightarrow> gwen_date \<Rightarrow> gwen_date_tmplchar \<Rightarrow> gwen_date_tmplchar outcome" where
  "tmplchar_fill I18N t e =
    (if tc_character e = 119 then
       (let wd = GWEN_Date_WeekDay t
        in if 0 \<le> wd \<and> wd \<le> 6 then
             Ret (e\<lparr>tc_content := Some (I18N ([''Sunday'', ''Monday'', ''Tuesday'', ''Wednesday'', ''Thursday'',
                      ''Friday'', ''Saturday''] ! nat wd)), tc_nextChar := 0\<rparr>)
           else Abort)
     else
       (let v = (if tc_character e = 89 then gd_year t else if tc_character e = 77 then gd_month t
                 else if tc_character e = 68 then gd_day t
                 else if tc_character e = 87 then GWEN_Date_WeekDay t else -1)
        in if v = -1 then Abort
           else
             (let content = dec_padded (tc_maxCount e) v; clen = length content; cnt = min (tc_count e) clen
              in Ret (e\<lparr>tc_content := Some content, tc_count := cnt, tc_nextChar := clen - cnt\<rparr>))))"

primrec GWEN_Date__fillTmplChars ::
  "(string \<Rightarrow> byte list) \<Rightarrow> gwen_date \<Rightarrow> gwen_date_tmplchar list \<Rightarrow> gwen_date_tmplchar list outcome" where
  "GWEN_Date__fillTmplChars I18N t [] = Ret []"
| "GWEN_Date__fillTmplChars I18N t (e # ll) =
     obind (tmplchar_fill I18N t e) (\<lambda>e. obind (GWEN_Date__fillTmplChars I18N t ll) (\<lambda>ll. Ret (e # ll)))"

text \<open>The loop of \<^verbatim>\<open>GWEN_Date_toStringWithTemplate\<close>. A content that is used up yields nothing.\<close>

fun date_out_loop :: "byte list \<Rightarrow> gwen_date_tmplchar list \<Rightarrow> gwen_buffer \<Rightarrow> gwen_buffer outcome" where
  "date_out_loop [] ll buf = Ret buf"
| "date_out_loop (c # s) ll buf =
    (if strchr tmpl_letters c \<noteq> None then
       (case GWEN_Date__findTmplChar ll c of
          None \<Rightarrow> Abort
        | Some e \<Rightarrow>
            (case tc_content e of
               None \<Rightarrow> Abort
             | Some content \<Rightarrow>
                 if s \<noteq> [] \<and> hd s = 42 then
                   obind (GWEN_Buffer_AppendString buf (content @ [0])) (\<lambda>(_, buf). date_out_loop (tl s) ll buf)
                 else if tc_nextChar e < length content then
                   obind (GWEN_Buffer_AppendByte buf (content ! tc_nextChar e)) (\<lambda>(_, buf).
                     date_out_loop s (tmplchar_upd c (\<lambda>e. e\<lparr>tc_nextChar := tc_nextChar e + 1\<rparr>) ll) buf)
                 else date_out_loop s ll buf))
     else obind (GWEN_Buffer_AppendByte buf c) (\<lambda>(_, buf). date_out_loop s ll buf))"

definition GWEN_Date_toStringWithTemplate ::
  "(string \<Rightarrow> byte list) \<Rightarrow> gwen_date \<Rightarrow> byte list \<Rightarrow> gwen_buffer \<Rightarrow> (int \<times> gwen_buffer) outcome" where
  "GWEN_Date_toStringWithTemplate I18N t tmpl buf =
     obind (GWEN_Date__fillTmplChars I18N t (GWEN_Date__sampleTmplChars tmpl [])) (\<lambda>ll.
     obind (date_out_loop tmpl ll buf) (\<lambda>buf. Ret (0, buf)))"

section \<open>What a template stands for\<close>

text \<open>The letters of the template replaced by the digits of the three numbers, in turn.\<close>

abbreviation "YMD \<equiv> {89, 77, 68 :: byte}"

fun render :: "byte list \<Rightarrow> (byte \<Rightarrow> byte list) \<Rightarrow> byte list" where
  "render [] f = []"
| "render (t # ts) f =
    (if t \<in> YMD then hd (f t) # render ts (f(t := tl (f t))) else t # render ts f)"

text \<open>Templates with as many letters as there are digits, and no stars and weekdays.\<close>

definition plain_tmpl :: "byte list \<Rightarrow> (byte \<Rightarrow> byte list) \<Rightarrow> bool" where
  "plain_tmpl ts f \<longleftrightarrow> set ts \<inter> {0, 42, 87, 119} = {} \<and> (\<forall>t \<in> YMD. count_list ts t = length (f t))"

lemma plain_tmpl_Cons:
  "plain_tmpl (t # ts) f \<Longrightarrow> t \<in> YMD \<Longrightarrow> f t \<noteq> [] \<and> plain_tmpl ts (f(t := tl (f t)))"
  "plain_tmpl (t # ts) f \<Longrightarrow> t \<notin> YMD \<Longrightarrow> plain_tmpl ts f"
  by (auto simp: plain_tmpl_def split: if_splits)

definition num :: "int \<Rightarrow> byte list \<Rightarrow> int" where
  "num = foldl (\<lambda>a c. a * 10 + dval c)"

lemma num_simps [simp]: "num a [] = a" "num a (c # cs) = num (a * 10 + dval c) cs"
  by (simp_all add: num_def)

lemma num_append: "num a (xs @ ys) = num (num a xs) ys"
  by (simp add: num_def)

text \<open>Room for the digits still to come below a thousand million.\<close>

definition fits :: "int \<Rightarrow> byte list \<Rightarrow> bool" where
  "fits a ds \<longleftrightarrow> 0 \<le> a \<and> (a + 1) * 10 ^ length ds \<le> 1000000000 \<and> list_all isdigit ds"

lemma dval_digit: "isdigit c \<Longrightarrow> 0 \<le> dval c \<and> dval c \<le> 9"
proof -
  assume "isdigit c"
  then have "48 \<le> uint c" "uint c \<le> 57" by (simp_all add: isdigit_def word_le_def)
  then show ?thesis by (simp add: dval_def)
qed

lemma fits_step:
  assumes "fits a (c # cs)"
  shows "isdigit c" "fits (a * 10 + dval c) cs" "in_int (a * 10)" "in_int (a * 10 + dval c)"
proof -
  from assms have a: "0 \<le> a" "(a + 1) * (10 * 10 ^ length cs) \<le> 1000000000" "isdigit c" "list_all isdigit cs"
    by (auto simp: fits_def)
  have d: "0 \<le> dval c" "dval c \<le> 9" using dval_digit [OF a(3)] by auto
  have "(a * 10 + dval c + 1) * 10 ^ length cs \<le> (a + 1) * 10 * 10 ^ length cs"
    using d by (intro mult_right_mono) auto
  also have "\<dots> \<le> 1000000000" using a(2) unfolding mult.assoc .
  finally have le: "(a * 10 + dval c + 1) * 10 ^ length cs \<le> 1000000000" .
  have "(a * 10 + dval c + 1) * 1 \<le> (a * 10 + dval c + 1) * 10 ^ length cs"
    using a(1) d by (intro mult_left_mono) auto
  with le have "a * 10 + dval c + 1 \<le> 1000000000" by simp
  then show "isdigit c" "fits (a * 10 + dval c) cs" "in_int (a * 10)" "in_int (a * 10 + dval c)"
    using a d le by (auto simp: fits_def in_int_def)
qed

lemma read_render:
  assumes "plain_tmpl ts f" and "fits y (f 89)" "fits m (f 77)" "fits d (f 68)"
  shows "date_tmpl_loop ts (render ts f) (y, m, d) = Ret (Some (num y (f 89), num m (f 77), num d (f 68)))"
  using assms
proof (induction ts arbitrary: f y m d)
  case Nil
  then show ?case by (simp add: plain_tmpl_def)
next
  case (Cons t ts)
  show ?case
  proof (cases "t \<in> YMD")
    case True
    note p = plain_tmpl_Cons(1) [OF Cons.prems(1) True]
    obtain c cs where f: "f t = c # cs" using p by (cases "f t") auto
    have q: "plain_tmpl ts (f(t := cs))" using p f by simp
    have fc: "isdigit c \<Longrightarrow> dval c \<noteq> -1" using dval_digit [of c] by auto
    from True consider "t = 89" | "t = 77" | "t = 68" by auto
    then show ?thesis
    proof cases
      case 1
      note s = fits_step [of y c cs]
      have "date_tmpl_loop ts (render ts (f(89 := cs))) (y * 10 + dval c, m, d)
        = Ret (Some (num (y * 10 + dval c) ((f(89 := cs)) 89), num m ((f(89 := cs)) 77), num d ((f(89 := cs)) 68)))"
        by (rule Cons.IH) (use s Cons.prems f q [unfolded 1] 1 in \<open>simp_all add: fun_upd_def\<close>)
      then show ?thesis using s Cons.prems f fc 1 by (auto simp: date_field_def ck_def)
    next
      case 2
      note s = fits_step [of m c cs]
      have "date_tmpl_loop ts (render ts (f(77 := cs))) (y, m * 10 + dval c, d)
        = Ret (Some (num y ((f(77 := cs)) 89), num (m * 10 + dval c) ((f(77 := cs)) 77), num d ((f(77 := cs)) 68)))"
        by (rule Cons.IH) (use s Cons.prems f q [unfolded 2] 2 in \<open>simp_all add: fun_upd_def\<close>)
      then show ?thesis using s Cons.prems f fc 2 by (auto simp: date_field_def ck_def)
    next
      case 3
      note s = fits_step [of d c cs]
      have "date_tmpl_loop ts (render ts (f(68 := cs))) (y, m, d * 10 + dval c)
        = Ret (Some (num y ((f(68 := cs)) 89), num m ((f(68 := cs)) 77), num (d * 10 + dval c) ((f(68 := cs)) 68)))"
        by (rule Cons.IH) (use s Cons.prems f q [unfolded 3] 3 in \<open>simp_all add: fun_upd_def\<close>)
      then show ?thesis using s Cons.prems f fc 3 by (auto simp: date_field_def ck_def)
    qed
  next
    case False
    have "t \<noteq> 42" using Cons.prems(1) by (auto simp: plain_tmpl_def)
    then show ?thesis using False Cons.IH [of f y m d] plain_tmpl_Cons(2) [OF Cons.prems(1) False] Cons.prems
      by (auto simp: date_field_def)
  qed
qed

section \<open>What the writer does\<close>

lemma findTmplChar_append: "GWEN_Date__findTmplChar (xs @ [e]) t
    = (case GWEN_Date__findTmplChar xs t of
         None \<Rightarrow> if tc_character e = t then Some e else None
       | Some x \<Rightarrow> Some x)"
  by (induction xs) (auto simp: GWEN_Date__findTmplChar_def)

lemma find_upd:
  assumes "\<And>e. tc_character (g e) = tc_character e"
  shows "GWEN_Date__findTmplChar (tmplchar_upd c g ll) t
    = (if t = c then map_option g (GWEN_Date__findTmplChar ll c) else GWEN_Date__findTmplChar ll t)"
  by (induction ll) (auto simp: GWEN_Date__findTmplChar_def assms)

lemma letters: "strchr tmpl_letters c \<noteq> None \<longleftrightarrow> c \<in> {89, 77, 68, 87, 119}"
  by (auto simp: tmpl_letters_def str_def of_char_def)

text \<open>The entry for a letter holds the digits that are still to be written.\<close>

definition holds :: "gwen_date_tmplchar list \<Rightarrow> byte \<Rightarrow> byte list \<Rightarrow> bool" where
  "holds ll t ds \<longleftrightarrow> (\<exists>e content. GWEN_Date__findTmplChar ll t = Some e \<and> tc_content e = Some content
     \<and> drop (tc_nextChar e) content = ds)"

lemma write_render:
  assumes "plain_tmpl ts f" and "\<forall>t \<in> YMD. f t \<noteq> [] \<longrightarrow> holds ll t (f t)" and "room buf (length ts + n)"
  shows "\<exists>buf'. date_out_loop ts ll buf = Ret buf' \<and> contents buf' = contents buf @ render ts f \<and> room buf' n"
  using assms
proof (induction ts arbitrary: f ll buf)
  case Nil
  then show ?case by simp
next
  case (Cons t ts)
  from Cons.prems(3) have rm: "room buf (Suc (length ts + n))" by simp
  have nostar: "ts \<noteq> [] \<Longrightarrow> hd ts \<noteq> 42" using Cons.prems(1) by (cases ts) (auto simp: plain_tmpl_def)
  show ?case
  proof (cases "t \<in> YMD")
    case True
    note p = plain_tmpl_Cons(1) [OF Cons.prems(1) True]
    then have ft: "f t \<noteq> []" by simp
    with Cons.prems(2) True obtain e content where
      e: "GWEN_Date__findTmplChar ll t = Some e" "tc_content e = Some content" "drop (tc_nextChar e) content = f t"
      by (auto simp: holds_def)
    then have nc: "tc_nextChar e < length content" "content ! tc_nextChar e = hd (f t)"
      using ft hd_drop_conv_nth [of "tc_nextChar e" content] by (cases "tc_nextChar e < length content"; auto)+
    let ?g = "\<lambda>e. e\<lparr>tc_nextChar := tc_nextChar e + 1\<rparr>"
    let ?ll = "tmplchar_upd t ?g ll"
    have h: "\<forall>u \<in> YMD. (f(t := tl (f t))) u \<noteq> [] \<longrightarrow> holds ?ll u ((f(t := tl (f t))) u)"
    proof (intro ballI impI)
      fix u assume u: "u \<in> YMD" "(f(t := tl (f t))) u \<noteq> []"
      show "holds ?ll u ((f(t := tl (f t))) u)"
      proof (cases "u = t")
        case True
        then show ?thesis using e by (auto simp: holds_def find_upd drop_Suc drop_tl)
      next
        case False
        then show ?thesis using Cons.prems(2) u by (auto simp: holds_def find_upd)
      qed
    qed
    obtain b where b: "GWEN_Buffer_AppendByte buf (hd (f t)) = Ret (0, b)" "contents b = contents buf @ [hd (f t)]"
        "room b (length ts + n)"
      using buf.app1 [OF rm] by blast
    have "strchr tmpl_letters t \<noteq> None" using True letters [of t] by blast
    then have "date_out_loop (t # ts) ll buf = date_out_loop ts ?ll b"
      using e nc b nostar by auto
    moreover obtain b' where "date_out_loop ts ?ll b = Ret b'" "contents b' = contents b @ render ts (f(t := tl (f t)))"
        "room b' n"
      using Cons.IH [OF conjunct2 [OF p] h b(3)] by blast
    ultimately show ?thesis using b True by auto
  next
    case False
    have "strchr tmpl_letters t = None"
      using False Cons.prems(1) letters [of t] by (auto simp: plain_tmpl_def)
    moreover obtain b where b: "GWEN_Buffer_AppendByte buf t = Ret (0, b)" "contents b = contents buf @ [t]"
        "room b (length ts + n)"
      using buf.app1 [OF rm] by blast
    moreover obtain b' where "date_out_loop ts ll b = Ret b'" "contents b' = contents b @ render ts f" "room b' n"
      using Cons.IH [OF plain_tmpl_Cons(2) [OF Cons.prems(1) False] Cons.prems(2) b(3)] by blast
    ultimately show ?thesis using False by auto
  qed
qed

definition tmpl_entry :: "byte \<Rightarrow> nat \<Rightarrow> gwen_date_tmplchar" where
  "tmpl_entry t n = (GWEN_DateTmplChar_new t)\<lparr>tc_count := n\<rparr>"

definition samples :: "gwen_date_tmplchar list \<Rightarrow> (byte \<Rightarrow> nat) \<Rightarrow> bool" where
  "samples ll k \<longleftrightarrow> (\<forall>t. GWEN_Date__findTmplChar ll t = (if k t = 0 then None else Some (tmpl_entry t (k t))))"

abbreviation "all_letters \<equiv> {89, 77, 68, 87, 119 :: byte}"

lemma sampled:
  "samples ll k \<Longrightarrow> samples (GWEN_Date__sampleTmplChars ts ll) (\<lambda>t. k t + (if t \<in> all_letters then count_list ts t else 0))"
proof (induction ts ll arbitrary: k rule: GWEN_Date__sampleTmplChars.induct)
  case (1 ll)
  then show ?case by (simp add: if_distrib cong: if_cong)
next
  case (2 c s ll)
  show ?case
  proof (cases "c \<in> all_letters")
    case True
    define l1 where "l1 = (case GWEN_Date__findTmplChar ll c of None \<Rightarrow> ll @ [GWEN_DateTmplChar_new c] | Some _ \<Rightarrow> ll)"
    let ?g = "\<lambda>e. e\<lparr>tc_count := tc_count e + 1\<rparr> :: gwen_date_tmplchar"
    have new: "tmpl_entry c (Suc 0) = ?g (GWEN_DateTmplChar_new c)" "tc_character (GWEN_DateTmplChar_new c) = c"
      by (simp_all add: tmpl_entry_def GWEN_DateTmplChar_new_def)
    have "GWEN_Date__findTmplChar l1 t = (if t = c \<and> k c = 0 then Some (GWEN_DateTmplChar_new c) else GWEN_Date__findTmplChar ll t)" for t
      using "2.prems" new(2) by (auto simp: l1_def samples_def findTmplChar_append split: option.splits)
    then have "samples (tmplchar_upd c ?g l1) (k(c := k c + 1))"
      using "2.prems" new(1) by (auto simp: samples_def find_upd tmpl_entry_def)
    note IH = "2.IH"(1) [OF _ l1_def this]
    have L: "strchr tmpl_letters c \<noteq> None" using True letters [of c] by blast
    have e: "(k(c := k c + 1)) t + (if t \<in> all_letters then count_list s t else 0)
        = k t + (if t \<in> all_letters then count_list (c # s) t else 0)" for t
      using True by auto
    show ?thesis using IH [OF L] L unfolding e by (simp add: l1_def Let_def)
  next
    case False
    then have L: "strchr tmpl_letters c = None" using letters [of c] by blast
    have e: "(if t \<in> all_letters then count_list s t else 0) = (if t \<in> all_letters then count_list (c # s) t else 0)" for t
      using False by auto
    show ?thesis using "2.IH"(2) [OF _ "2.prems"] L unfolding e by simp
  qed
qed

lemma filled:
  assumes "\<forall>e \<in> set ll. \<exists>e'. tmplchar_fill I18N gd e = Ret e'"
  shows "\<exists>ll'. GWEN_Date__fillTmplChars I18N gd ll = Ret ll'
    \<and> (\<forall>c e. GWEN_Date__findTmplChar ll c = Some e \<longrightarrow>
         (\<exists>e'. tmplchar_fill I18N gd e = Ret e' \<and> GWEN_Date__findTmplChar ll' c = Some e'))"
  using assms
proof (induction ll)
  case Nil
  then show ?case by (simp add: GWEN_Date__findTmplChar_def)
next
  case (Cons e ll)
  then obtain e' ll' where e': "tmplchar_fill I18N gd e = Ret e'" and ll': "GWEN_Date__fillTmplChars I18N gd ll = Ret ll'"
      "\<forall>c e. GWEN_Date__findTmplChar ll c = Some e \<longrightarrow>
         (\<exists>e'. tmplchar_fill I18N gd e = Ret e' \<and> GWEN_Date__findTmplChar ll' c = Some e')"
    by auto
  have "tc_character e' = tc_character e"
    using e' by (auto simp: tmplchar_fill_def Let_def split: if_splits)
  then show ?case using e' ll' by (auto simp: GWEN_Date__findTmplChar_def)
qed

lemma dec_digits_props:
  "list_all isdigit (dec_digits n) \<and> num 0 (dec_digits n) = int n"
proof (induction n rule: dec_digits.induct)
  case (1 n)
  have d: "isdigit (of_nat (48 + k)) \<and> dval (of_nat (48 + k)) = int k" if "k < 10" for k
  proof -
    have "k \<in> {0..<10}" using that by simp
    then have "k \<in> {0, 1, 2, 3, 4, 5, 6, 7, 8, 9}" by (simp add: atLeastLessThan_nat_numeral) auto
    then show ?thesis by (auto simp: isdigit_def dval_def)
  qed
  show ?case
  proof (cases "n < 10")
    case True
    then show ?thesis using d [of n] by (simp add: dec_digits.simps [of n])
  next
    case False
    have "int (n div 10) * 10 + int (n mod 10) = int n"
      by (metis div_mult_mod_eq of_nat_add of_nat_mult of_nat_numeral)
    then show ?thesis using False 1 d [of "n mod 10"] by (simp add: dec_digits.simps [of n] num_append)
  qed
qed

lemma dec_digits_length: "n < 10 ^ Suc w \<Longrightarrow> length (dec_digits n) \<le> Suc w"
proof (induction w arbitrary: n)
  case 0
  then show ?case by (simp add: dec_digits.simps)
next
  case (Suc w)
  then have "n div 10 < 10 ^ Suc w" by (simp add: less_mult_imp_div_less mult.commute)
  from Suc.IH [OF this] show ?case by (simp add: dec_digits.simps [of n])
qed

lemma num_zeros: "num 0 (replicate k 48 @ ds) = num 0 ds"
  by (induction k) (simp_all add: dval_def)

lemma dec_padded_props:
  assumes "0 \<le> v" "v < 10 ^ Suc w"
  shows "length (dec_padded (Suc w) v) = Suc w \<and> list_all isdigit (dec_padded (Suc w) v) \<and> num 0 (dec_padded (Suc w) v) = v"
proof -
  have "nat v < 10 ^ Suc w" using assms by (simp add: nat_less_iff)
  from dec_digits_length [OF this] dec_digits_props [of "nat v"] assms show ?thesis
    by (simp add: dec_padded_def Let_def num_zeros) (simp add: list_all_length isdigit_def)
qed

section \<open>Round trip\<close>

text \<open>The digits of a date, by the letter they stand for.\<close>

definition date_digits :: "int \<Rightarrow> int \<Rightarrow> int \<Rightarrow> byte \<Rightarrow> byte list" where
  "date_digits y m d t = (if t = 89 then dec_padded 4 y else if t = 77 then dec_padded 2 m else dec_padded 2 d)"

lemma sampled_chars:
  "\<forall>e \<in> set ll. tc_character e \<in> YMD \<Longrightarrow> set ts \<inter> {87, 119} = {} \<Longrightarrow>
   \<forall>e \<in> set (GWEN_Date__sampleTmplChars ts ll). tc_character e \<in> YMD"
proof (induction ts ll rule: GWEN_Date__sampleTmplChars.induct)
  case (1 ll)
  then show ?case by simp
next
  case (2 c s ll)
  define l1 where "l1 = (case GWEN_Date__findTmplChar ll c of None \<Rightarrow> ll @ [GWEN_DateTmplChar_new c] | Some _ \<Rightarrow> ll)"
  let ?l2 = "tmplchar_upd c (\<lambda>e. e\<lparr>tc_count := tc_count e + 1\<rparr>) l1"
  have chars: "tc_character ` set (tmplchar_upd c (\<lambda>e. e\<lparr>tc_count := tc_count e + 1\<rparr>) ll) = tc_character ` set ll" for ll
    by (induction ll) auto
  show ?case
  proof (cases "strchr tmpl_letters c \<noteq> None")
    case True
    then have "c \<in> YMD" using letters [of c] "2.prems"(2) by auto
    then have "\<forall>e \<in> set l1. tc_character e \<in> YMD"
      using "2.prems"(1) by (auto simp: l1_def GWEN_DateTmplChar_new_def split: option.splits)
    then have "tc_character ` set l1 \<subseteq> YMD" by blast
    then have "\<forall>e \<in> set ?l2. tc_character e \<in> YMD" using chars [of l1] by blast
    from "2.IH"(1) [OF True l1_def this] "2.prems"(2) True show ?thesis by (simp add: l1_def Let_def)
  next
    case False
    then show ?thesis using "2.IH"(2) "2.prems" by simp
  qed
qed

lemma date_digits_props:
  assumes "valid_date y m d" "y \<le> 9999"
  shows "length (date_digits y m d 89) = 4" "length (date_digits y m d 77) = 2" "length (date_digits y m d 68) = 2"
    "fits 0 (date_digits y m d 89)" "fits 0 (date_digits y m d 77)" "fits 0 (date_digits y m d 68)"
    "num 0 (date_digits y m d 89) = y" "num 0 (date_digits y m d 77) = m" "num 0 (date_digits y m d 68) = d"
proof -
  have b: "0 \<le> y" "0 \<le> m" "m < 100" "0 \<le> d" "d < 100"
    using assms by (auto simp: valid_date_def month_days_def split: if_splits)
  have S: "Suc 3 = 4" "Suc 1 = 2" by simp_all
  note p = dec_padded_props [of y 3, unfolded S] dec_padded_props [of m 1, unfolded S] dec_padded_props [of d 1, unfolded S]
  show "length (date_digits y m d 89) = 4" "length (date_digits y m d 77) = 2" "length (date_digits y m d 68) = 2"
    "fits 0 (date_digits y m d 89)" "fits 0 (date_digits y m d 77)" "fits 0 (date_digits y m d 68)"
    "num 0 (date_digits y m d 89) = y" "num 0 (date_digits y m d 77) = m" "num 0 (date_digits y m d 68) = d"
    using p b assms(2) by (simp_all add: date_digits_def fits_def)
qed

lemma write_template:
  assumes v: "valid_date y m d" "y \<le> 9999" and t: "plain_tmpl tmpl (date_digits y m d)"
    and rm: "room buf (length tmpl + n)"
  shows "\<exists>buf'. GWEN_Date_toStringWithTemplate I18N (date_of (y, m, d)) tmpl buf = Ret (0, buf')
    \<and> contents buf' = contents buf @ render tmpl (date_digits y m d) \<and> room buf' n"
proof -
  let ?gd = "date_of (y, m, d)" and ?f = "date_digits y m d"
  define ll where "ll = GWEN_Date__sampleTmplChars tmpl []"
  have b: "0 \<le> y" "0 \<le> m" "0 \<le> d" using v by (auto simp: valid_date_def)
  have ok: "\<exists>e'. tmplchar_fill I18N ?gd e = Ret e'" if "tc_character e \<in> YMD" for e
    using that b by (auto simp: tmplchar_fill_def Let_def)
  have "\<forall>e \<in> set ll. tc_character e \<in> YMD"
    using sampled_chars [of "[]" tmpl] t by (auto simp: ll_def plain_tmpl_def)
  then have "\<forall>e \<in> set ll. \<exists>e'. tmplchar_fill I18N ?gd e = Ret e'" using ok by blast
  from filled [OF this] obtain ll' where ll': "GWEN_Date__fillTmplChars I18N ?gd ll = Ret ll'"
      "\<forall>c e. GWEN_Date__findTmplChar ll c = Some e \<longrightarrow>
         (\<exists>e'. tmplchar_fill I18N ?gd e = Ret e' \<and> GWEN_Date__findTmplChar ll' c = Some e')"
    by blast
  have "samples [] (\<lambda>t. 0)" by (simp add: samples_def GWEN_Date__findTmplChar_def)
  from sampled [OF this, of tmpl] have s: "GWEN_Date__findTmplChar ll u = Some (tmpl_entry u (count_list tmpl u))"
    if "u \<in> YMD" "count_list tmpl u \<noteq> 0" for u
    using that by (auto simp: samples_def ll_def)
  have "holds ll' u (?f u)" if u: "u \<in> YMD" "?f u \<noteq> []" for u
  proof -
    have c: "count_list tmpl u = length (?f u)" using t u by (auto simp: plain_tmpl_def)
    with s [OF u(1)] u(2) have "GWEN_Date__findTmplChar ll u = Some (tmpl_entry u (length (?f u)))" by simp
    with ll'(2) obtain e' where e': "tmplchar_fill I18N ?gd (tmpl_entry u (length (?f u))) = Ret e'"
        "GWEN_Date__findTmplChar ll' u = Some e'" by blast
    have "tc_content e' = Some (?f u) \<and> tc_nextChar e' = 0"
      using e'(1) u(1) b
      by (auto simp: tmplchar_fill_def tmpl_entry_def GWEN_DateTmplChar_new_def date_digits_def Let_def)
    then show ?thesis using e'(2) by (simp add: holds_def)
  qed
  then have "\<forall>u \<in> YMD. ?f u \<noteq> [] \<longrightarrow> holds ll' u (?f u)" by blast
  from write_render [OF t this rm] ll'(1) show ?thesis
    by (auto simp: GWEN_Date_toStringWithTemplate_def ll_def [symmetric])
qed

text \<open>C30. For every template with four letters for the year, two for the month and two for the day, in any
  order and mixed with any other characters, a date of the years 100 to 9999 written by the template is
  read back by it.\<close>

theorem date_template_roundtrip:
  assumes v: "valid_date y m d" "100 \<le> y" "y \<le> 9999"
    and tmpl: "set tmpl \<inter> {0, 42, 87, 119} = {}" "count_list tmpl 89 = 4" "count_list tmpl 77 = 2" "count_list tmpl 68 = 2"
    and buf: "room buf (length tmpl)" "contents buf = []"
  shows "\<exists>buf'. GWEN_Date_toStringWithTemplate I18N (date_of (y, m, d)) tmpl buf = Ret (0, buf')
    \<and> GWEN_Date_fromStringWithTemplate (contents buf') tmpl = Ret (Some (date_of (y, m, d)))"
proof -
  note p = date_digits_props [OF v(1,3)]
  have t: "plain_tmpl tmpl (date_digits y m d)" using tmpl p(1-3) by (auto simp: plain_tmpl_def)
  from write_template [OF v(1,3) t, of buf 0] buf obtain buf' where
    b: "GWEN_Date_toStringWithTemplate I18N (date_of (y, m, d)) tmpl buf = Ret (0, buf')"
      "contents buf' = render tmpl (date_digits y m d)" by auto
  have "GWEN_Date_fromStringWithTemplate (contents buf') tmpl = Ret (Some (date_of (y, m, d)))"
    using read_render [OF t p(4-6)] p(7-9) v fromGregorian_valid [OF v(1)]
    by (simp add: GWEN_Date_fromStringWithTemplate_def b(2))
  with b(1) show ?thesis by blast
qed

theorem date_template_roundtrip_witness:
  "\<exists>buf buf'. GWEN_Date_toStringWithTemplate str (date_of (2024, 2, 29)) (str ''DD.MM.YYYY'') buf = Ret (0, buf')
    \<and> GWEN_Date_fromStringWithTemplate (contents buf') (str ''DD.MM.YYYY'') = Ret (Some (date_of (2024, 2, 29)))"
proof -
  have v: "valid_date 2024 2 29" by code_simp
  have t: "set (str ''DD.MM.YYYY'') \<inter> {0, 42, 87, 119} = {}" "count_list (str ''DD.MM.YYYY'') 89 = 4"
    "count_list (str ''DD.MM.YYYY'') 77 = 2" "count_list (str ''DD.MM.YYYY'') 68 = 2"
    "length (str ''DD.MM.YYYY'') = 10"
    by code_simp+
  obtain buf where "room buf 10" "contents buf = []"
    using new_buffer_room [of 64 10 4096] by auto
  then show ?thesis using date_template_roundtrip [OF v _ _ t(1-4), of buf str] unfolding t(5) by auto
qed

end
