(* ===== verification/Gwen_Padd.thy ===== *)
theory Gwen_Padd
  imports Gwen_BufferProps
begin

text \<open>
  Padding of data before it is encrypted or signed, \<^verbatim>\<open>src/crypt3/padd.c\<close>, with the algorithm ids of
  \<^verbatim>\<open>src/crypt3/paddalgo.c\<close>: ANSI X9.23, ZKA, PKCS1 block types 1 and 2, ISO 9796-2 and the ISO 9796-1
  variant for HBCI, and their selection by id. The random numbers of \<^verbatim>\<open>GWEN_Crypt_Random\<close> are a parameter: the
  bytes for a given length. The PSS padding is in a theory of its own.
\<close>

section \<open>Algorithms\<close>

datatype gwen_crypt_paddalgoid =
    GWEN_Crypt_PaddAlgoId_Unknown
  | GWEN_Crypt_PaddAlgoId_None
  | GWEN_Crypt_PaddAlgoId_Any
  | GWEN_Crypt_PaddAlgoId_Iso9796_1
  | GWEN_Crypt_PaddAlgoId_Iso9796_1A4
  | GWEN_Crypt_PaddAlgoId_Iso9796_2
  | GWEN_Crypt_PaddAlgoId_Pkcs1_1
  | GWEN_Crypt_PaddAlgoId_Pkcs1_2
  | GWEN_Crypt_PaddAlgoId_LeftZero
  | GWEN_Crypt_PaddAlgoId_RightZero
  | GWEN_Crypt_PaddAlgoId_AnsiX9_23
  | GWEN_Crypt_PaddAlgoId_Pkcs1_Pss_Sha256
  | GWEN_Crypt_PaddAlgoId_ZKA

record gwen_crypt_paddalgo =
  pa_id :: gwen_crypt_paddalgoid
  pa_paddSize :: int
  pa_refCount :: u32

definition streqcase :: "byte list \<Rightarrow> string \<Rightarrow> bool" where
  "streqcase s t \<longleftrightarrow> map tolower s = map tolower (str t)"

definition GWEN_Crypt_PaddAlgoId_fromString :: "byte list \<Rightarrow> gwen_crypt_paddalgoid" where
  "GWEN_Crypt_PaddAlgoId_fromString s =
    (if streqcase s ''none'' then GWEN_Crypt_PaddAlgoId_None
     else if streqcase s ''iso9796_1'' then GWEN_Crypt_PaddAlgoId_Iso9796_1
     else if streqcase s ''iso9796_1a4'' then GWEN_Crypt_PaddAlgoId_Iso9796_1A4
     else if streqcase s ''iso9796_2'' then GWEN_Crypt_PaddAlgoId_Iso9796_2
     else if streqcase s ''pkcs1_1'' then GWEN_Crypt_PaddAlgoId_Pkcs1_1
     else if streqcase s ''pkcs1_2'' then GWEN_Crypt_PaddAlgoId_Pkcs1_2
     else if streqcase s ''leftzero'' then GWEN_Crypt_PaddAlgoId_LeftZero
     else if streqcase s ''rightzero'' then GWEN_Crypt_PaddAlgoId_RightZero
     else if streqcase s ''ansix9_23'' then GWEN_Crypt_PaddAlgoId_AnsiX9_23
     else if streqcase s ''pkcs1_pss_sha256'' then GWEN_Crypt_PaddAlgoId_Pkcs1_Pss_Sha256
     else if streqcase s ''any'' then GWEN_Crypt_PaddAlgoId_Any
     else GWEN_Crypt_PaddAlgoId_Unknown)"

fun GWEN_Crypt_PaddAlgoId_toString :: "gwen_crypt_paddalgoid \<Rightarrow> byte list" where
  "GWEN_Crypt_PaddAlgoId_toString GWEN_Crypt_PaddAlgoId_None = str ''none''"
| "GWEN_Crypt_PaddAlgoId_toString GWEN_Crypt_PaddAlgoId_Iso9796_1 = str ''iso9796_1''"
| "GWEN_Crypt_PaddAlgoId_toString GWEN_Crypt_PaddAlgoId_Iso9796_1A4 = str ''iso9796_1a4''"
| "GWEN_Crypt_PaddAlgoId_toString GWEN_Crypt_PaddAlgoId_Iso9796_2 = str ''iso9796_2''"
| "GWEN_Crypt_PaddAlgoId_toString GWEN_Crypt_PaddAlgoId_Pkcs1_1 = str ''pkcs1_1''"
| "GWEN_Crypt_PaddAlgoId_toString GWEN_Crypt_PaddAlgoId_Pkcs1_2 = str ''pkcs1_2''"
| "GWEN_Crypt_PaddAlgoId_toString GWEN_Crypt_PaddAlgoId_LeftZero = str ''leftzero''"
| "GWEN_Crypt_PaddAlgoId_toString GWEN_Crypt_PaddAlgoId_RightZero = str ''rightzero''"
| "GWEN_Crypt_PaddAlgoId_toString GWEN_Crypt_PaddAlgoId_AnsiX9_23 = str ''ansix9_23''"
| "GWEN_Crypt_PaddAlgoId_toString GWEN_Crypt_PaddAlgoId_Pkcs1_Pss_Sha256 = str ''pkcs1_pss_sha256''"
| "GWEN_Crypt_PaddAlgoId_toString GWEN_Crypt_PaddAlgoId_Any = str ''any''"
| "GWEN_Crypt_PaddAlgoId_toString _ = str ''unknown''"

definition GWEN_Crypt_PaddAlgo_new :: "gwen_crypt_paddalgoid \<Rightarrow> gwen_crypt_paddalgo" where
  "GWEN_Crypt_PaddAlgo_new i = \<lparr>pa_id = i, pa_paddSize = 0, pa_refCount = 1\<rparr>"

definition GWEN_Crypt_PaddAlgo_Attach :: "gwen_crypt_paddalgo \<Rightarrow> gwen_crypt_paddalgo outcome" where
  "GWEN_Crypt_PaddAlgo_Attach a =
     obind (oassert (pa_refCount a \<noteq> 0)) (\<lambda>_. Ret (a\<lparr>pa_refCount := pa_refCount a + 1\<rparr>))"

definition GWEN_Crypt_PaddAlgo_GetId :: "gwen_crypt_paddalgo \<Rightarrow> gwen_crypt_paddalgoid" where
  "GWEN_Crypt_PaddAlgo_GetId a = pa_id a"

definition GWEN_Crypt_PaddAlgo_GetPaddSize :: "gwen_crypt_paddalgo \<Rightarrow> int" where
  "GWEN_Crypt_PaddAlgo_GetPaddSize a = pa_paddSize a"

definition GWEN_Crypt_PaddAlgo_SetPaddSize :: "gwen_crypt_paddalgo \<Rightarrow> int \<Rightarrow> gwen_crypt_paddalgo" where
  "GWEN_Crypt_PaddAlgo_SetPaddSize a i = a\<lparr>pa_paddSize := i\<rparr>"

section \<open>ISO 9796-1 with four bits of trailer\<close>

definition padd_lookUp :: "byte list" where
  "padd_lookUp = [14, 3, 5, 8, 9, 4, 2, 15, 0, 13, 11, 6, 7, 10, 12, 1]"

definition GWEN_Padd_permutate :: "byte \<Rightarrow> byte" where
  "GWEN_Padd_permutate input =
    (let rightNibble = input AND 15; leftNibble = (input AND 240) div 16;
         rightNibble = padd_lookUp ! unat rightNibble; leftNibble = padd_lookUp ! unat leftNibble
     in leftNibble * 16 + rightNibble)"

text \<open>One turn of the loop that adds redundancy, on the buffer of 96 bytes.\<close>

definition iso9796_turn :: "byte list \<Rightarrow> nat \<Rightarrow> byte list \<Rightarrow> byte list" where
  "iso9796_turn p i buffer =
    (let j1 = 97 - 2 * int i; j2 = 40 - int i; j3 = 96 - 2 * int i;
         buffer = (if 0 \<le> j1 \<and> j1 < 96 \<and> 0 \<le> j2 then buffer[nat j1 := p ! nat j2] else buffer)
     in if 0 \<le> j3 \<and> j3 < 96 \<and> 0 \<le> j2 then buffer[nat j3 := GWEN_Padd_permutate (p ! nat j2)] else buffer)"

definition iso9796_block :: "byte list \<Rightarrow> byte list" where
  "iso9796_block p =
    (let b = fold (iso9796_turn p) [0..<48] (replicate 96 0);
         b = write_at 0 (window 80 16 b) b;
         b = b[95 := (b ! 95 AND 15) * 16 + 6];
         b = b[0 := b ! 0 AND 127];
         b = b[0 := b ! 0 OR 64]
     in b[56 := b ! 56 XOR 1])"

text \<open>The hash is copied to an array of 20 bytes without a check.\<close>

definition GWEN_Padd_PaddWithISO9796 :: "gwen_buffer \<Rightarrow> (int \<times> gwen_buffer) outcome" where
  "GWEN_Padd_PaddWithISO9796 src =
    (let l = GWEN_Buffer_GetUsedBytes src
     in obind (peek src (GWEN_Buffer_GetStart src) (unat l)) (\<lambda>hash.
        if unat l > 20 then Fault
        else obind (GWEN_Buffer_AppendBytes src hash l) (\<lambda>(rv, src).
          if rv \<noteq> 0 then Ret (-1, src)
          else obind (GWEN_Buffer_AppendBytes src hash l) (\<lambda>(rv, src).
            if rv \<noteq> 0 then Ret (-1, src)
            else obind (GWEN_Buffer_Crop src 20 40) (\<lambda>(rv, src).
              if rv \<noteq> 0 then Ret (-1, src)
              else obind (peek src (GWEN_Buffer_GetStart src) 40) (\<lambda>p.
                let buffer = iso9796_block p
                in obind (GWEN_Buffer_Reset src) (\<lambda>src.
                   obind (GWEN_Buffer_AppendBytes src buffer 96) (\<lambda>(rv, src).
                     if rv \<noteq> 0 then Ret (-1, src) else Ret (0, src)))))))))"

section \<open>ISO 9796-2\<close>

definition nonzero_random :: "(nat \<Rightarrow> byte list) \<Rightarrow> nat \<Rightarrow> byte list" where
  "nonzero_random rnd n = map (\<lambda>b. if b = 0 then 0xff else b) (rnd n)"

definition GWEN_Padd_PaddWithIso9796_2 ::
  "(nat \<Rightarrow> byte list) \<Rightarrow> gwen_buffer \<Rightarrow> int \<Rightarrow> (int \<times> gwen_buffer) outcome" where
  "GWEN_Padd_PaddWithIso9796_2 rnd buf dstSize =
    (if (word_of_int dstSize :: u32) < GWEN_Buffer_GetUsedBytes buf + 12 then Ret (GWEN_ERROR_INVALID, buf)
     else obind (GWEN_Buffer_AppendByte buf 0xbc) (\<lambda>(_, buf).
       let buf = GWEN_Buffer_Rewind buf;
           diff = (word_of_int dstSize :: u32) - GWEN_Buffer_GetUsedBytes buf - 11 + 1
       in obind (GWEN_Buffer_InsertRoom buf (1 + diff + 1 + 8)) (\<lambda>(rv, buf).
          if rv \<noteq> 0 then Ret (GWEN_ERROR_GENERIC, buf)
          else obind (poke buf (GWEN_Buffer_GetStart buf)
                       ([0x60] @ replicate (unat diff) 0 @ [0x01] @ nonzero_random rnd 8)) (\<lambda>buf.
               Ret (0, buf)))))"

text \<open>The number of zeros at the start of a region that ends only with its block.\<close>

primrec count_zeros :: "byte list \<Rightarrow> nat \<Rightarrow> (nat \<times> byte) outcome" where
  "count_zeros [] n = Fault"
| "count_zeros (c # m) n = (if c = 0 then count_zeros m (n + 1) else Ret (n, c))"

definition GWEN_Padd_UnpaddWithIso9796_2 :: "gwen_buffer \<Rightarrow> (int \<times> gwen_buffer) outcome" where
  "GWEN_Padd_UnpaddWithIso9796_2 buf =
    (if GWEN_Buffer_GetUsedBytes buf < 11 then Ret (GWEN_ERROR_INVALID, buf)
     else obind (peek buf (GWEN_Buffer_GetStart buf) 1) (\<lambda>p.
       if hd p \<noteq> 0x60 then Ret (GWEN_ERROR_BAD_DATA, buf)
       else obind (count_zeros (drop (GWEN_Buffer_GetStart buf + 1) (blk buf)) 0) (\<lambda>(n, c).
         let l = (of_nat n :: u32)
         in if c \<noteq> 0x01 then Ret (GWEN_ERROR_BAD_DATA, buf)
            else obind (GWEN_Buffer_Crop buf (10 + l) (GWEN_Buffer_GetUsedBytes buf - 11 - l)) (\<lambda>(_, buf).
                 Ret (0, buf)))))"

section \<open>ANSI X9.23\<close>

text \<open>The length of the padding, shared with ZKA; it is kept in one byte.\<close>

definition padd_length :: "gwen_buffer \<Rightarrow> int \<Rightarrow> byte outcome" where
  "padd_length src y =
    (let y = (word_of_int y :: u32)
     in if y = 0 then Fault else Ret (ucast (y - GWEN_Buffer_GetUsedBytes src mod y)))"

definition GWEN_Padd_PaddWithAnsiX9_23ToMultipleOf :: "gwen_buffer \<Rightarrow> int \<Rightarrow> (int \<times> gwen_buffer) outcome" where
  "GWEN_Padd_PaddWithAnsiX9_23ToMultipleOf src y =
     obind (padd_length src y) (\<lambda>paddLength.
     obind (appends GWEN_Buffer_AppendByte src (replicate (unat paddLength) paddLength)) (\<lambda>src. Ret (0, src)))"

definition GWEN_Padd_UnpaddWithAnsiX9_23FromMultipleOf :: "gwen_buffer \<Rightarrow> int \<Rightarrow> (int \<times> gwen_buffer) outcome" where
  "GWEN_Padd_UnpaddWithAnsiX9_23FromMultipleOf src y =
    (let used = GWEN_Buffer_GetUsedBytes src
     in if used < word_of_int y then Ret (-1, src)
        else
          (let lastpos = used - 1
           in obind (peek src (GWEN_Buffer_GetStart src + unat lastpos) 1) (\<lambda>p.
              let paddLength = hd p
              in if paddLength < 1 \<or> int (unat paddLength) > y then Ret (-1, src)
                 else obind (GWEN_Buffer_Crop src 0 (used - ucast paddLength)) (\<lambda>(_, src).
                      Ret (0, snd (GWEN_Buffer_SetPos src (lastpos - ucast paddLength)))))))"

definition GWEN_Padd_PaddWithAnsiX9_23 :: "gwen_buffer \<Rightarrow> (int \<times> gwen_buffer) outcome" where
  "GWEN_Padd_PaddWithAnsiX9_23 src = GWEN_Padd_PaddWithAnsiX9_23ToMultipleOf src 8"

definition GWEN_Padd_UnpaddWithAnsiX9_23 :: "gwen_buffer \<Rightarrow> (int \<times> gwen_buffer) outcome" where
  "GWEN_Padd_UnpaddWithAnsiX9_23 src = GWEN_Padd_UnpaddWithAnsiX9_23FromMultipleOf src 8"

section \<open>PKCS1 block types 1 and 2\<close>

text \<open>Both block types check the size and make room in the same way; \<open>fill\<close> is what goes between the type
  and the zero in front of the data.\<close>

definition padd_pkcs1 :: "byte \<Rightarrow> (nat \<Rightarrow> byte list) \<Rightarrow> gwen_buffer \<Rightarrow> int \<Rightarrow> (int \<times> gwen_buffer) outcome" where
  "padd_pkcs1 bt fill buf dstSize =
    (if (word_of_int dstSize :: u32) < GWEN_Buffer_GetUsedBytes buf then Ret (GWEN_ERROR_INVALID, buf)
     else
       (let diff = (word_of_int dstSize :: u32) - GWEN_Buffer_GetUsedBytes buf
        in if diff < 11 then Ret (GWEN_ERROR_INVALID, buf)
           else obind (GWEN_Buffer_InsertRoom (GWEN_Buffer_Rewind buf) diff) (\<lambda>(rv, buf).
             if rv \<noteq> 0 then Ret (GWEN_ERROR_GENERIC, buf)
             else obind (poke buf (GWEN_Buffer_GetStart buf) ([0, bt] @ fill (unat diff - 3) @ [0])) (\<lambda>buf.
                  Ret (0, buf)))))"

definition GWEN_Padd_PaddWithPkcs1Bt1 :: "gwen_buffer \<Rightarrow> int \<Rightarrow> (int \<times> gwen_buffer) outcome" where
  "GWEN_Padd_PaddWithPkcs1Bt1 = padd_pkcs1 0x01 (\<lambda>n. replicate n 0xff)"

definition GWEN_Padd_PaddWithPkcs1Bt2 ::
  "(nat \<Rightarrow> byte list) \<Rightarrow> gwen_buffer \<Rightarrow> int \<Rightarrow> (int \<times> gwen_buffer) outcome" where
  "GWEN_Padd_PaddWithPkcs1Bt2 rnd = padd_pkcs1 0x02 (nonzero_random rnd)"

text \<open>Skipping the padding bytes: the byte at the end, the length left and the number of bytes.\<close>

primrec pkcs1_skip :: "byte list \<Rightarrow> u32 \<Rightarrow> u32 \<Rightarrow> (byte \<times> u32 \<times> u32) outcome" where
  "pkcs1_skip [] len paddBytes = Fault"
| "pkcs1_skip (c # m) len paddBytes =
     (if c \<noteq> 0 \<and> len \<noteq> 0 then pkcs1_skip m (len - 1) (paddBytes + 1) else Ret (c, len, paddBytes))"

definition GWEN_Padd__UnpaddWithPkcs1Bt1Or2 :: "gwen_buffer \<Rightarrow> (int \<times> gwen_buffer) outcome" where
  "GWEN_Padd__UnpaddWithPkcs1Bt1Or2 buf =
    (let used = GWEN_Buffer_GetUsedBytes buf
     in obind (oassert (used \<noteq> 0)) (\<lambda>_.
        obind (peek buf (GWEN_Buffer_GetStart buf) 1) (\<lambda>c.
        let p = (if hd c = 0 then GWEN_Buffer_GetStart buf + 1 else GWEN_Buffer_GetStart buf);
            len = (if hd c = 0 then used - 1 else used)
        in if len < 11 then Ret (GWEN_ERROR_INVALID, buf)
           else obind (peek buf p 1) (\<lambda>c.
             if hd c \<noteq> 0x01 \<and> hd c \<noteq> 0x02 then Ret (GWEN_ERROR_INVALID, buf)
             else obind (pkcs1_skip (drop (p + 1) (blk buf)) (len - 1) 0) (\<lambda>(c, len, paddBytes).
               if c \<noteq> 0 then Ret (GWEN_ERROR_INVALID, buf)
               else
                 (let len = len - 1
                  in if paddBytes < 8 then Ret (GWEN_ERROR_INVALID, buf)
                     else obind (GWEN_Buffer_Crop buf (used - len) len) (\<lambda>(_, buf). Ret (0, buf))))))))"

definition GWEN_Padd_UnpaddWithPkcs1Bt1 :: "gwen_buffer \<Rightarrow> (int \<times> gwen_buffer) outcome" where
  "GWEN_Padd_UnpaddWithPkcs1Bt1 src = GWEN_Padd__UnpaddWithPkcs1Bt1Or2 src"

definition GWEN_Padd_UnpaddWithPkcs1Bt2 :: "gwen_buffer \<Rightarrow> (int \<times> gwen_buffer) outcome" where
  "GWEN_Padd_UnpaddWithPkcs1Bt2 src = GWEN_Padd__UnpaddWithPkcs1Bt1Or2 src"

section \<open>ZKA\<close>

definition GWEN_Padd_PaddWithZkaToMultipleOf :: "gwen_buffer \<Rightarrow> int \<Rightarrow> (int \<times> gwen_buffer) outcome" where
  "GWEN_Padd_PaddWithZkaToMultipleOf src y =
     obind (padd_length src y) (\<lambda>paddLength.
       if paddLength > 0 then
         obind (GWEN_Buffer_AppendByte src 0x80) (\<lambda>(_, src).
         obind (appends GWEN_Buffer_AppendByte src (replicate (unat paddLength - 1) 0)) (\<lambda>src. Ret (0, src)))
       else Ret (0, src))"

definition GWEN_Padd_PaddWithZka :: "gwen_buffer \<Rightarrow> (int \<times> gwen_buffer) outcome" where
  "GWEN_Padd_PaddWithZka src = GWEN_Padd_PaddWithZkaToMultipleOf src 16"

text \<open>Zeros counted backwards from index \<open>i\<close> of the block, in one byte: the byte before them and their number.\<close>

primrec zka_zeros :: "byte list \<Rightarrow> nat \<Rightarrow> byte \<Rightarrow> (byte \<times> byte) outcome" where
  "zka_zeros m 0 n = (if m ! 0 = 0 then Fault else Ret (m ! 0, n))"
| "zka_zeros m (Suc i) n = (if m ! Suc i = 0 then zka_zeros m i (n + 1) else Ret (m ! Suc i, n))"

definition GWEN_Padd_UnpaddWithZkaFromMultipleOf :: "gwen_buffer \<Rightarrow> int \<Rightarrow> (int \<times> gwen_buffer) outcome" where
  "GWEN_Padd_UnpaddWithZkaFromMultipleOf buf y =
    (let used = GWEN_Buffer_GetUsedBytes buf
     in if used < word_of_int y then Ret (-1, buf)
        else
          (let lastpos = used - 1
           in obind (peek buf (GWEN_Buffer_GetStart buf + unat lastpos) 1) (\<lambda>_.
              obind (zka_zeros (blk buf) (GWEN_Buffer_GetStart buf + unat lastpos) 0) (\<lambda>(c, paddLength).
              if c \<noteq> 0x80 \<and> paddLength > 0 then Ret (-1, buf)
              else
                (let paddLength = (if c = 0x80 then paddLength + 1 else paddLength)
                 in if int (unat paddLength) > y then Ret (-1, buf)
                    else obind (GWEN_Buffer_Crop buf 0 (used - ucast paddLength)) (\<lambda>(_, buf).
                         Ret (0, snd (GWEN_Buffer_SetPos buf (lastpos - ucast paddLength)))))))))"

definition GWEN_Padd_UnpaddWithZka :: "gwen_buffer \<Rightarrow> (int \<times> gwen_buffer) outcome" where
  "GWEN_Padd_UnpaddWithZka buf = GWEN_Padd_UnpaddWithZkaFromMultipleOf buf 16"

section \<open>Selection by id\<close>

definition padd_result :: "(int \<times> gwen_buffer) outcome \<Rightarrow> (int \<times> gwen_buffer) outcome" where
  "padd_result r = obind r (\<lambda>(rv, buf). Ret (if rv \<noteq> 0 then GWEN_ERROR_GENERIC else rv, buf))"

definition GWEN_Padd_ApplyPaddAlgo ::
  "(nat \<Rightarrow> byte list) \<Rightarrow> gwen_crypt_paddalgo \<Rightarrow> gwen_buffer \<Rightarrow> (int \<times> gwen_buffer) outcome" where
  "GWEN_Padd_ApplyPaddAlgo rnd a buf =
    (let aid = GWEN_Crypt_PaddAlgo_GetId a
     in if aid = GWEN_Crypt_PaddAlgoId_None then Ret (0, buf)
        else
          (let chunkSize = (word_of_int (GWEN_Crypt_PaddAlgo_GetPaddSize a) :: u32)
           in if chunkSize = 0 then Ret (GWEN_ERROR_INVALID, buf)
              else
                (let bsize = GWEN_Buffer_GetUsedBytes buf;
                     dstSize = (bsize + (chunkSize - 1)) div chunkSize * chunkSize;
                     diff = dstSize - bsize
                 in case aid of
                      GWEN_Crypt_PaddAlgoId_Iso9796_1A4 \<Rightarrow>
                        if dstSize > 96 then Ret (GWEN_ERROR_INVALID, buf)
                        else padd_result (GWEN_Padd_PaddWithISO9796 buf)
                    | GWEN_Crypt_PaddAlgoId_Pkcs1_1 \<Rightarrow> padd_result (GWEN_Padd_PaddWithPkcs1Bt1 buf (sint dstSize))
                    | GWEN_Crypt_PaddAlgoId_Pkcs1_2 \<Rightarrow> padd_result (GWEN_Padd_PaddWithPkcs1Bt2 rnd buf (sint dstSize))
                    | GWEN_Crypt_PaddAlgoId_LeftZero \<Rightarrow> padd_result (GWEN_Buffer_FillLeftWithBytes buf 0 diff)
                    | GWEN_Crypt_PaddAlgoId_RightZero \<Rightarrow> padd_result (GWEN_Buffer_FillWithBytes buf 0 diff)
                    | GWEN_Crypt_PaddAlgoId_AnsiX9_23 \<Rightarrow> GWEN_Padd_PaddWithAnsiX9_23 buf
                    | GWEN_Crypt_PaddAlgoId_Iso9796_2 \<Rightarrow> GWEN_Padd_PaddWithIso9796_2 rnd buf (sint dstSize)
                    | _ \<Rightarrow> Ret (GWEN_ERROR_NOT_AVAILABLE, buf))))"

definition GWEN_Padd_UnapplyPaddAlgo :: "gwen_crypt_paddalgo \<Rightarrow> gwen_buffer \<Rightarrow> (int \<times> gwen_buffer) outcome" where
  "GWEN_Padd_UnapplyPaddAlgo a buf =
    (case GWEN_Crypt_PaddAlgo_GetId a of
       GWEN_Crypt_PaddAlgoId_None \<Rightarrow> Ret (0, buf)
     | GWEN_Crypt_PaddAlgoId_Pkcs1_1 \<Rightarrow> padd_result (GWEN_Padd_UnpaddWithPkcs1Bt1 buf)
     | GWEN_Crypt_PaddAlgoId_Pkcs1_2 \<Rightarrow> padd_result (GWEN_Padd_UnpaddWithPkcs1Bt2 buf)
     | GWEN_Crypt_PaddAlgoId_AnsiX9_23 \<Rightarrow> GWEN_Padd_UnpaddWithAnsiX9_23 buf
     | GWEN_Crypt_PaddAlgoId_Iso9796_2 \<Rightarrow> GWEN_Padd_UnpaddWithIso9796_2 buf
     | _ \<Rightarrow> Ret (GWEN_ERROR_NOT_AVAILABLE, buf))"

end
