(* ===== verification/Gwen_PaddProps.thy ===== *)
theory Gwen_PaddProps
  imports Gwen_Padd
begin

text \<open>
  What the paddings of \<^verbatim>\<open>src/crypt3/padd.c\<close> promise, for buffers with room for the padding: every padding that
  can be taken off again is the inverse of the one that was put on, errors leave the data alone, and a
  block of ISO 9796-1 holds the hash. One case is shown in which taking off a malformed padding writes
  outside of the memory of the buffer.
\<close>

section \<open>Buffers to be padded\<close>

text \<open>Room for \<open>n\<close> bytes, a C string inside, and sizes an \<^verbatim>\<open>int\<close> can hold.\<close>

definition padd_ready :: "gwen_buffer \<Rightarrow> nat \<Rightarrow> bool" where
  "padd_ready bf n \<longleftrightarrow> room bf n \<and> nul_terminated bf \<and> unat (hardLimit bf) < 2147483648"

lemma padd_ready_wf: "padd_ready bf n \<Longrightarrow> buf_wf bf"
  by (auto simp: padd_ready_def intro: room_wf)

lemma padd_ready_small:
  "padd_ready bf n \<Longrightarrow> unat (bytesUsed bf) + n < 2147483648 \<and> length (contents bf) = unat (bytesUsed bf)"
  by (auto simp: padd_ready_def room_def)

lemma padd_ready_mono: "padd_ready bf n \<Longrightarrow> k \<le> n \<Longrightarrow> padd_ready bf k"
  by (auto simp: padd_ready_def intro: room_mono)

lemma blk_data:
  assumes "buf_wf bf" "nul_terminated bf"
  shows "drop (ptr bf) (blk bf) = contents bf @ 0 # drop (ptr bf + unat (bytesUsed bf) + 1) (blk bf)"
proof -
  let ?u = "unat (bytesUsed bf)" and ?m = "drop (ptr bf) (blk bf)"
  have l: "?u < length ?m" using assms wf_bounds(1) [OF assms(1)] by (auto simp: nul_terminated_def)
  have "?m = take ?u ?m @ ?m ! ?u # drop (Suc ?u) ?m" using l by (rule id_take_nth_drop)
  moreover have "take ?u ?m = contents bf" by (simp add: contents_def window_def)
  moreover have "?m ! ?u = 0" using assms l by (simp add: nul_terminated_def)
  ultimately show ?thesis by (metis add.commute add_Suc_right drop_drop plus_1_eq_Suc)
qed

lemma insert_prefix:
  assumes r: "padd_ready bf (length bs + k)" and sz: "length bs = unat sz"
  shows "\<exists>b b'. GWEN_Buffer_InsertRoom (GWEN_Buffer_Rewind bf) sz = Ret (0, b) \<and> poke b (ptr b) bs = Ret b'
    \<and> contents b' = bs @ contents bf \<and> padd_ready b' k"
proof -
  let ?bf = "bf\<lparr>pos := 0\<rparr>"
  have room: "room ?bf (length bs + k)" and nul: "nul_terminated ?bf"
    and lim: "unat (hardLimit bf) < 2147483648"
    using r by (auto simp: padd_ready_def room_def buf_wf_def nul_terminated_def has_mode_def)
  note wf = room_wf [OF room]
  have fit: "fits ?bf (unat sz)" using room_fits [OF room, of "unat sz"] sz by simp
  have small: "below2G ?bf sz" using room sz lim by (simp add: below2G_def room_def)
  have ro: "\<not> readonly ?bf" using room by (simp add: room_def)
  note I = InsertRoom_correct [OF wf _ small fit, unfolded room_result_def]
  obtain b1 where "GWEN_Buffer_AllocRoom ?bf sz = Ret (0, b1)"
    using AllocRoom_succeeds [OF room, of sz] sz by auto
  with I ro obtain b where b: "GWEN_Buffer_InsertRoom ?bf sz = Ret (0, b)" by auto
  with I obtain X where X: "insert_post ?bf (unat sz) X b" by auto
  from poke_inserted [OF X sz wf] obtain b' where
    b': "poke b (ptr b + unat (pos b)) bs = Ret b'" "insert_post ?bf (unat sz) bs b'" by auto
  have "pos b = 0" using X by (simp add: insert_post_def)
  moreover have "contents b' = bs @ contents bf" 
  proof -
    have "contents ?bf = contents bf" by (simp add: contents_def)
    then show ?thesis using b'(2) by (simp add: insert_post_def)
  qed
  moreover have "padd_ready b' k"
    using b'(2) room nul lim sz by (auto simp: padd_ready_def room_def insert_post_def has_mode_def)
  ultimately show ?thesis using b b' by (auto simp: GWEN_Buffer_Rewind_def)
qed

lemma crop_data:
  assumes r: "padd_ready bf k" and p: "unat p + unat l \<le> length (contents bf)"
  shows "\<exists>b. GWEN_Buffer_Crop bf p l = Ret (0, b) \<and> contents b = take (unat l) (drop (unat p) (contents bf))"
proof -
  have "unat p + unat l < unat (bufferSize bf)"
    using p padd_ready_wf [OF r] r by (simp add: padd_ready_def nul_terminated_def)
  moreover have "unat p < 2147483648" using p padd_ready_small [OF r] by linarith
  ultimately show ?thesis
    using Crop_correct [of bf p l] p r padd_ready_wf [OF r] by (auto simp: padd_ready_def room_def cut_post_def)
qed

lemma append_ready:
  assumes "padd_ready bf (length cs + n)"
  shows "\<exists>b. appends GWEN_Buffer_AppendByte bf cs = Ret b \<and> contents b = contents bf @ cs \<and> padd_ready b n"
  using assms
proof (induction cs arbitrary: bf)
  case Nil
  then show ?case by simp
next
  case (Cons c cs)
  then have "room bf (Suc (length cs + n))" by (simp add: padd_ready_def)
  from AppendByte_room [OF this] obtain b where
    b: "GWEN_Buffer_AppendByte bf c = Ret (0, b)" "append_post bf [c] 0 b" "contents b = contents bf @ [c]"
      "room b (length cs + n)" by auto
  note ap = append_post_contents [OF padd_ready_wf [OF Cons.prems] b(2)]
  have "padd_ready b (length cs + n)" using b ap Cons.prems by (simp add: padd_ready_def)
  from Cons.IH [OF this] b show ?case by auto
qed

section \<open>PKCS1\<close>

lemma pkcs1_skip_run:
  "list_all (\<lambda>c. c \<noteq> 0) xs \<Longrightarrow> unat n + length xs < 4294967296 \<Longrightarrow> length xs \<le> unat len \<Longrightarrow>
   pkcs1_skip (xs @ 0 # m) len n = Ret (0, len - of_nat (length xs), n + of_nat (length xs))"
proof (induction xs arbitrary: len n)
  case Nil
  then show ?case by simp
next
  case (Cons x xs)
  have nz: "len \<noteq> 0" using Cons.prems(3) by auto
  have u: "unat (len - 1) = unat len - 1" using nz Cons.prems(3) by (simp add: unat_minus_one)
  have v: "unat (n + 1) = unat n + 1" using Cons.prems(2) by (intro unat_Suc_u32) simp
  show ?case using Cons.IH [of "n + 1" "len - 1"] Cons.prems u v nz by (simp add: algebra_simps)
qed

lemma padd_pkcs1_ok:
  assumes r: "padd_ready buf (unat (word_of_int dst :: u32))" and fill: "\<And>n. length (fill n) = n"
    and fits: "unat (bytesUsed buf) + 11 \<le> unat (word_of_int dst :: u32)"
  shows "\<exists>b k. padd_pkcs1 bt fill buf dst = Ret (0, b) \<and> padd_ready b 0
    \<and> contents b = [0, bt] @ fill (k + 8) @ [0] @ contents buf
    \<and> k + 11 + unat (bytesUsed buf) = unat (word_of_int dst :: u32)"
proof -
  let ?d = "word_of_int dst :: u32"
  define diff where "diff = ?d - bytesUsed buf"
  have ud: "unat diff = unat ?d - unat (bytesUsed buf)"
    unfolding diff_def using fits by (intro unat_minus_u32) simp
  have g: "\<not> ?d < bytesUsed buf" "\<not> diff < 11" using fits ud by (auto simp: word_less_nat_alt)
  define bs where "bs = [0, bt] @ fill (unat diff - 3) @ [0]"
  have bs: "length bs = unat diff" using fill ud fits by (simp add: bs_def)
  have "padd_ready buf (length bs + 0)" using padd_ready_mono [OF r] bs ud by simp
  from insert_prefix [OF this bs] obtain b b' where
    b: "GWEN_Buffer_InsertRoom (GWEN_Buffer_Rewind buf) diff = Ret (0, b)" "poke b (ptr b) bs = Ret b'"
      "contents b' = bs @ contents buf" "padd_ready b' 0" by auto
  have "unat diff - 3 = unat diff - 11 + 8" using ud fits by simp
  then show ?thesis using b g ud fits bs_def
    by (intro exI [of _ b'] exI [of _ "unat diff - 11"])
       (simp add: padd_pkcs1_def Let_def GWEN_Buffer_GetUsedBytes_def GWEN_Buffer_GetStart_def diff_def [symmetric])
qed

lemma unpadd_pkcs1_ok:
  assumes r: "padd_ready b 0" and c: "contents b = [0, bt] @ fl @ [0] @ xs" and bt: "bt = 1 \<or> bt = 2"
    and fl: "list_all (\<lambda>c. c \<noteq> 0) fl" "8 \<le> length fl" "9 \<le> length fl + length xs"
  shows "\<exists>b'. GWEN_Padd__UnpaddWithPkcs1Bt1Or2 b = Ret (0, b') \<and> contents b' = xs"
proof -
  note small = padd_ready_small [OF r]
  have u: "unat (bytesUsed b) = length fl + length xs + 3" using small c by simp
  have lt: "length fl + length xs + 3 < 2147483648" using small u by simp
  note bd = blk_data [OF padd_ready_wf [OF r]]
  have D: "drop (ptr b) (blk b) = [0, bt] @ fl @ [0] @ xs @ 0 # drop (ptr b + unat (bytesUsed b) + 1) (blk b)"
    using bd r c by (simp add: padd_ready_def)
  define rest where "rest = xs @ 0 # drop (ptr b + unat (bytesUsed b) + 1) (blk b)"
  have D2: "drop (ptr b + 2) (blk b) = fl @ 0 # rest"
    using arg_cong [OF D, of "drop 2"] by (simp add: rest_def add.commute)
  have len: "ptr b + 2 \<le> length (blk b)" using wf_bounds(2) [OF padd_ready_wf [OF r]] u by simp
  have p0: "peek b (ptr b) 1 = Ret [0]" using D len by (simp add: peek_def window_def)
  have p1: "peek b (ptr b + 1) 1 = Ret [bt]"
    using arg_cong [OF D, of "drop 1"] len by (simp add: peek_def window_def add.commute)
  have nz: "bytesUsed b \<noteq> 0" using u by auto
  have u1: "unat (bytesUsed b - 1) = length fl + length xs + 2" using u nz by (simp add: unat_minus_one)
  then have u2: "unat (bytesUsed b - 1 - 1) = length fl + length xs + 1"
    by (subst unat_minus_one) auto
  have g: "\<not> bytesUsed b - 1 < 11" using u1 fl(3) by (simp add: word_less_nat_alt)
  have sk: "pkcs1_skip (drop (ptr b + 1 + 1) (blk b)) (bytesUsed b - 1 - 1) 0
     = Ret (0, bytesUsed b - 1 - 1 - of_nat (length fl), of_nat (length fl))"
    using pkcs1_skip_run [OF fl(1), of 0 "bytesUsed b - 1 - 1" rest] D2 u2 lt by simp
  define l where "l = bytesUsed b - 1 - 1 - of_nat (length fl) - 1"
  have ul: "unat l = length xs"
  proof -
    have "bytesUsed b = of_nat (unat (bytesUsed b))" by simp
    then have "bytesUsed b = of_nat (length fl + length xs + 3)" unfolding u .
    then have "l = of_nat (length xs)" by (simp add: l_def)
    then show ?thesis using lt by (simp add: unat_of_nat_u32)
  qed
  have uc: "unat (bytesUsed b - l) = length fl + 3"
    using ul u by (subst unat_minus_u32) auto
  obtain b' where b': "GWEN_Buffer_Crop b (bytesUsed b - l) l = Ret (0, b')" "contents b' = xs"
  proof -
    define h where "h = [0, bt] @ fl @ [0]"
    have h: "contents b = h @ xs" "length h = length fl + 3" using c by (simp_all add: h_def)
    show ?thesis using that crop_data [OF r, of "bytesUsed b - l" l] ul uc h by auto
  qed
  have g8: "\<not> (of_nat (length fl) :: u32) < 8" using fl(2) lt by (simp add: word_less_nat_alt unat_of_nat_u32)
  show ?thesis
    using p0 p1 nz g sk g8 b' [unfolded l_def] bt
    by (auto simp: GWEN_Padd__UnpaddWithPkcs1Bt1Or2_def Let_def GWEN_Buffer_GetUsedBytes_def GWEN_Buffer_GetStart_def)
qed

section \<open>ISO 9796-2\<close>

lemma count_zeros_run: "c \<noteq> 0 \<Longrightarrow> count_zeros (replicate n 0 @ c # m) k = Ret (k + n, c)"
  by (induction n arbitrary: k) auto

lemma padd_iso9796_2_ok:
  assumes r: "padd_ready buf (unat (word_of_int dst :: u32) + 1)" and rnd: "length (rnd 8) = 8"
    and fits: "unat (bytesUsed buf) + 12 \<le> unat (word_of_int dst :: u32)"
  shows "\<exists>b k. GWEN_Padd_PaddWithIso9796_2 rnd buf dst = Ret (0, b) \<and> padd_ready b 0
    \<and> contents b = [0x60] @ replicate k 0 @ [1] @ nonzero_random rnd 8 @ contents buf @ [0xbc]"
proof -
  let ?d = "word_of_int dst :: u32"
  note small = padd_ready_small [OF r]
  have g: "\<not> ?d < bytesUsed buf + 12"
    using fits small unat_plus_u32 [of "bytesUsed buf" 12] by (simp add: word_less_nat_alt)
  obtain b where b: "GWEN_Buffer_AppendByte buf 0xbc = Ret (0, b)" "contents b = contents buf @ [0xbc]"
      "padd_ready b (unat ?d)"
  proof -
    have "room buf (Suc (unat ?d))" using r by (simp add: padd_ready_def)
    from AppendByte_room [OF this] obtain b where
      b: "GWEN_Buffer_AppendByte buf 0xbc = Ret (0, b)" "append_post buf [0xbc] 0 b" "contents b = contents buf @ [0xbc]"
        "room b (unat ?d)" by blast
    note ap = append_post_contents [OF padd_ready_wf [OF r] b(2)]
    show ?thesis using that b ap r by (simp add: padd_ready_def)
  qed
  have ub: "unat (bytesUsed b) = unat (bytesUsed buf) + 1"
    using padd_ready_small [OF b(3)] b(2) small by simp
  define diff where "diff = ?d - bytesUsed b - 11 + 1"
  have ud: "unat diff = unat ?d - unat (bytesUsed buf) - 11"
  proof -
    have 1: "unat (?d - bytesUsed b) = unat ?d - unat (bytesUsed b)" using fits ub by (intro unat_minus_u32) simp
    have 2: "unat (?d - bytesUsed b - 11) = unat ?d - unat (bytesUsed b) - 11"
      using 1 fits ub by (subst unat_minus_u32) auto
    have "unat (?d - bytesUsed b - 11 + 1) = unat ?d - unat (bytesUsed b) - 11 + 1"
      using 2 unat_u32_bound [of ?d] ub by (subst unat_Suc_u32) auto
    then show ?thesis using fits ub unfolding diff_def by simp
  qed
  define bs where "bs = [0x60] @ replicate (unat diff) 0 @ [0x01] @ nonzero_random rnd 8"
  have room: "length bs = unat diff + 10" using rnd by (simp add: bs_def nonzero_random_def)
  have uh: "unat (1 + diff + 1 + 8) = unat diff + 10"
  proof -
    have e: "1 + diff + 1 + 8 = diff + 10" by simp
    show ?thesis unfolding e using ud padd_ready_small [OF b(3)] by (subst unat_plus_u32) auto
  qed
  have "padd_ready b (length bs + 0)" using padd_ready_mono [OF b(3)] room ud fits by simp
  from insert_prefix [OF this, of "1 + diff + 1 + 8"] room uh obtain b1 b2 where
    b2: "GWEN_Buffer_InsertRoom (GWEN_Buffer_Rewind b) (1 + diff + 1 + 8) = Ret (0, b1)" "poke b1 (ptr b1) bs = Ret b2"
      "contents b2 = bs @ contents b" "padd_ready b2 0" by auto
  have used: "GWEN_Buffer_GetUsedBytes (GWEN_Buffer_Rewind b) = bytesUsed b"
    by (simp add: GWEN_Buffer_GetUsedBytes_def GWEN_Buffer_Rewind_def)
  have "GWEN_Padd_PaddWithIso9796_2 rnd buf dst = Ret (0, b2)"
    unfolding GWEN_Padd_PaddWithIso9796_2_def b(1) Let_def obind.simps split_conv used diff_def [symmetric] b2(1)
      bs_def [symmetric]
    using g b2(2) by (simp add: GWEN_Buffer_GetUsedBytes_def GWEN_Buffer_GetStart_def)
  then show ?thesis using b b2 by (auto simp: bs_def)
qed

lemma unpadd_iso9796_2_ok:
  assumes r: "padd_ready b 0" and c: "contents b = [0x60] @ replicate k 0 @ [1] @ rs @ xs @ [t]" and rs: "length rs = 8"
  shows "\<exists>b'. GWEN_Padd_UnpaddWithIso9796_2 b = Ret (0, b') \<and> contents b' = xs"
proof -
  note small = padd_ready_small [OF r]
  have u: "unat (bytesUsed b) = k + length xs + 11" using small c rs by simp
  have D: "drop (ptr b) (blk b) = [0x60] @ replicate k 0 @ 1 # rs @ xs @ t # 0 # drop (ptr b + unat (bytesUsed b) + 1) (blk b)"
    using blk_data [OF padd_ready_wf [OF r]] r c by (simp add: padd_ready_def)
  have D1: "drop (ptr b + 1) (blk b) = replicate k 0 @ 1 # rs @ xs @ t # 0 # drop (ptr b + unat (bytesUsed b) + 1) (blk b)"
    using arg_cong [OF D, of "drop 1"] by (simp add: add.commute)
  have len: "ptr b + 1 \<le> length (blk b)" using wf_bounds(2) [OF padd_ready_wf [OF r]] u by simp
  have p0: "peek b (ptr b) 1 = Ret [0x60]" using D len by (simp add: peek_def window_def)
  have cz: "count_zeros (drop (ptr b + 1) (blk b)) 0 = Ret (k, 1)"
    unfolding D1 by (simp add: count_zeros_run)
  have g: "\<not> bytesUsed b < 11" using u by (simp add: word_less_nat_alt)
  have kk: "unat (of_nat k :: u32) = k" using u small by (simp add: unat_of_nat_u32)
  have up: "unat (10 + of_nat k :: u32) = k + 10" using kk u small by (subst unat_plus_u32) auto
  have ul: "unat (bytesUsed b - 11 - of_nat k) = length xs"
  proof -
    have "unat (bytesUsed b - 11) = k + length xs" using u by (subst unat_minus_u32) auto
    then show ?thesis using kk by (subst unat_minus_u32) auto
  qed
  define h where "h = [0x60] @ replicate k 0 @ [1] @ rs"
  have h: "contents b = h @ xs @ [t]" "length h = k + 10" using c rs by (simp_all add: h_def)
  obtain b' where b': "GWEN_Buffer_Crop b (10 + of_nat k) (bytesUsed b - 11 - of_nat k) = Ret (0, b')" "contents b' = xs"
    using crop_data [OF r, of "10 + of_nat k" "bytesUsed b - 11 - of_nat k"] up ul h by auto
  show ?thesis
    using p0 cz g b'
    by (simp add: GWEN_Padd_UnpaddWithIso9796_2_def Let_def GWEN_Buffer_GetUsedBytes_def GWEN_Buffer_GetStart_def)
qed

section \<open>ANSI X9.23 and ZKA\<close>

lemma padd_length_ok:
  assumes "1 \<le> y" "y \<le> 255"
  shows "\<exists>n. padd_length src y = Ret n \<and> 1 \<le> unat n \<and> int (unat n) \<le> y
    \<and> (unat (bytesUsed src) + unat n) mod nat y = 0"
proof -
  let ?y = "word_of_int y :: u32" and ?u = "unat (bytesUsed src)"
  have uy: "unat ?y = nat y"
  proof -
    have "?y = of_nat (nat y)" using assms by simp
    then show ?thesis using assms unat_of_nat_u32 [of "nat y"] by simp
  qed
  have nz: "?y \<noteq> 0" using uy assms by auto
  have m: "unat (bytesUsed src mod ?y) = ?u mod nat y" by (simp add: unat_mod uy)
  have lt: "?u mod nat y < nat y" using assms by simp
  have "unat (?y - bytesUsed src mod ?y) = nat y - ?u mod nat y"
    using m uy lt by (subst unat_minus_u32) auto
  then have n: "unat (ucast (?y - bytesUsed src mod ?y) :: byte) = nat y - ?u mod nat y"
    using assms by (simp add: unsigned_ucast_eq take_bit_nat_eq_self_iff)
  have "(?u + (nat y - ?u mod nat y)) mod nat y = 0"
  proof -
    have "?u + (nat y - ?u mod nat y) = nat y * (?u div nat y) + nat y"
      using lt mult_div_mod_eq [of "nat y" ?u] by linarith
    then show ?thesis by simp
  qed
  moreover have "1 \<le> nat y - ?u mod nat y" "int (nat y - ?u mod nat y) \<le> y" using lt assms by linarith+
  ultimately show ?thesis
    using nz n by (intro exI [of _ "ucast (?y - bytesUsed src mod ?y)"])
      (simp only: padd_length_def Let_def GWEN_Buffer_GetUsedBytes_def if_False simp_thms)
qed

text \<open>The last byte of the data.\<close>

lemma peek_last:
  assumes r: "padd_ready b k" and c: "contents b = xs @ [t]"
  shows "unat (bytesUsed b - 1) = length xs"
    and "peek b (ptr b + unat (bytesUsed b - 1)) 1 = Ret [t]"
proof -
  have u: "unat (bytesUsed b) = length xs + 1" using padd_ready_small [OF r] c by simp
  then have nz: "bytesUsed b \<noteq> 0" by auto
  show l: "unat (bytesUsed b - 1) = length xs" using u nz by (simp add: unat_minus_one)
  have "drop (ptr b) (blk b) = xs @ t # 0 # drop (ptr b + unat (bytesUsed b) + 1) (blk b)"
    using blk_data [OF padd_ready_wf [OF r]] r c by (simp add: padd_ready_def)
  from arg_cong [OF this, of "drop (length xs)"] have "take 1 (drop (ptr b + length xs) (blk b)) = [t]"
    by (simp add: add.commute)
  moreover have "ptr b + length xs + 1 \<le> length (blk b)" using wf_bounds(2) [OF padd_ready_wf [OF r]] u by simp
  ultimately show "peek b (ptr b + unat (bytesUsed b - 1)) 1 = Ret [t]" using l by (simp add: peek_def window_def)
qed

lemma contents_SetPos [simp]: "contents (snd (GWEN_Buffer_SetPos b i)) = contents b"
  by (simp add: GWEN_Buffer_SetPos_def contents_def)

text \<open>Both take the padding off by cropping.\<close>

lemma crop_tail:
  assumes r: "padd_ready b k" and c: "contents b = xs @ ys" and n: "length ys = unat n"
  shows "\<exists>b'. GWEN_Buffer_Crop b 0 (bytesUsed b - n) = Ret (0, b') \<and> contents b' = xs"
proof -
  have "unat (bytesUsed b) = length xs + unat n" using padd_ready_small [OF r] c n by simp
  then have "unat (bytesUsed b - n) = length xs" by (subst unat_minus_u32) auto
  then show ?thesis using crop_data [OF r, of 0 "bytesUsed b - n"] c by auto
qed

lemma y_le_used:
  assumes "padd_ready b k" "1 \<le> y" "y \<le> 255" "nat y \<le> length (contents b)"
  shows "\<not> bytesUsed b < word_of_int y"
proof -
  have "(word_of_int y :: u32) = of_nat (nat y)" using assms by simp
  then have "unat (word_of_int y :: u32) = nat y" using assms unat_of_nat_u32 [of "nat y"] by simp
  then show ?thesis using assms(4) padd_ready_small [OF assms(1)] by (simp add: word_less_nat_alt)
qed

lemma multiple_le: "(u + n) mod y = 0 \<Longrightarrow> 1 \<le> n \<Longrightarrow> y \<le> u + (n :: nat)"
  by (metis add_is_0 dvd_imp_le less_numeral_extra(1) mod_0_imp_dvd neq0_conv not_one_le_zero)

text \<open>C32. Padding by ANSI X9.23 to a multiple of a block size fills the data up to such a multiple, and
  taking the padding off gives the data back.\<close>

theorem x923_roundtrip:
  assumes r: "padd_ready buf 256" and y: "1 \<le> y" "y \<le> 255"
  shows "\<exists>b b'. GWEN_Padd_PaddWithAnsiX9_23ToMultipleOf buf y = Ret (0, b) \<and> length (contents b) mod nat y = 0
    \<and> GWEN_Padd_UnpaddWithAnsiX9_23FromMultipleOf b y = Ret (0, b') \<and> contents b' = contents buf"
proof -
  from padd_length_ok [OF y, of buf] obtain n where
    n: "padd_length buf y = Ret n" "1 \<le> unat n" "int (unat n) \<le> y" "(unat (bytesUsed buf) + unat n) mod nat y = 0"
    by (elim exE conjE)
  have "padd_ready buf (length (replicate (unat n) n) + 0)"
    using padd_ready_mono [OF r, of "unat n"] n(2) unat_byte [of n] by simp
  from append_ready [OF this] obtain b where
    b: "appends GWEN_Buffer_AppendByte buf (replicate (unat n) n) = Ret b"
      "contents b = contents buf @ replicate (unat n) n" "padd_ready b 0" by blast
  have len: "length (contents b) = unat (bytesUsed buf) + unat n" using b(2) padd_ready_small [OF r] by simp
  obtain m where m: "unat n = Suc m" using n(2) by (cases "unat n") auto
  have c: "contents b = (contents buf @ replicate m n) @ [n]" using b(2) m by (simp add: replicate_append_same)
  have g: "\<not> bytesUsed b < word_of_int y"
    using y_le_used [OF b(3) y] multiple_le [OF n(4,2)] len by simp
  from crop_tail [OF b(3,2), of "ucast n"] obtain b' where
    b': "GWEN_Buffer_Crop b 0 (bytesUsed b - ucast n) = Ret (0, b')" "contents b' = contents buf" by auto
  have "\<not> n < 1" using n(2) by (simp add: word_less_nat_alt)
  then have "GWEN_Padd_UnpaddWithAnsiX9_23FromMultipleOf b y
      = Ret (0, snd (GWEN_Buffer_SetPos b' (bytesUsed b - 1 - ucast n)))"
    unfolding GWEN_Padd_UnpaddWithAnsiX9_23FromMultipleOf_def Let_def GWEN_Buffer_GetUsedBytes_def
      GWEN_Buffer_GetStart_def peek_last(2) [OF b(3) c]
    using g b' n(3) by simp
  moreover have "GWEN_Padd_PaddWithAnsiX9_23ToMultipleOf buf y = Ret (0, b)"
    using n(1) b(1) by (simp add: GWEN_Padd_PaddWithAnsiX9_23ToMultipleOf_def)
  ultimately show ?thesis using b' len n(4) by auto
qed

lemma zka_zeros_run:
  "\<forall>j < k. m ! (i + 1 + j) = 0 \<Longrightarrow> m ! i \<noteq> 0 \<Longrightarrow> zka_zeros m (i + k) n = Ret (m ! i, n + of_nat k)"
proof (induction k arbitrary: n)
  case 0
  then show ?case by (cases i) auto
next
  case (Suc k)
  then have "m ! Suc (i + k) = 0" by auto
  then show ?case using Suc.IH [of "n + 1"] Suc.prems by (simp add: add.assoc)
qed

text \<open>The same for the padding of ZKA: a byte 0x80 and zeros.\<close>

theorem zka_roundtrip:
  assumes r: "padd_ready buf 256" and y: "1 \<le> y" "y \<le> 255"
  shows "\<exists>b b'. GWEN_Padd_PaddWithZkaToMultipleOf buf y = Ret (0, b) \<and> length (contents b) mod nat y = 0
    \<and> GWEN_Padd_UnpaddWithZkaFromMultipleOf b y = Ret (0, b') \<and> contents b' = contents buf"
proof -
  from padd_length_ok [OF y, of buf] obtain n where
    n: "padd_length buf y = Ret n" "1 \<le> unat n" "int (unat n) \<le> y" "(unat (bytesUsed buf) + unat n) mod nat y = 0"
    by (elim exE conjE)
  let ?zs = "replicate (unat n - 1) 0 :: byte list"
  have "padd_ready buf (length (0x80 # ?zs) + 0)"
    using padd_ready_mono [OF r, of "unat n"] n(2) unat_byte [of n] by simp
  from append_ready [OF this] obtain b where
    b: "appends GWEN_Buffer_AppendByte buf (0x80 # ?zs) = Ret b"
      "contents b = contents buf @ 0x80 # ?zs" "padd_ready b 0" by blast
  have len: "length (contents b) = unat (bytesUsed buf) + unat n" using b(2) padd_ready_small [OF r] n(2) by simp
  have n0: "0 < n" using n(2) by (simp add: word_less_nat_alt)
  have pad: "GWEN_Padd_PaddWithZkaToMultipleOf buf y = Ret (0, b)"
    using n(1) n0 b(1)
    by (cases "GWEN_Buffer_AppendByte buf 0x80") (auto simp: GWEN_Padd_PaddWithZkaToMultipleOf_def)
  have g: "\<not> bytesUsed b < word_of_int y"
    using y_le_used [OF b(3) y] multiple_le [OF n(4,2)] len by simp
  let ?i = "ptr b + length (contents buf)"
  have u: "unat (bytesUsed b) = length (contents buf) + unat n" using padd_ready_small [OF b(3)] b(2) n(2) by simp
  then have "bytesUsed b \<noteq> 0" using n(2) by auto
  then have l: "ptr b + unat (bytesUsed b - 1) = ?i + (unat n - 1)" using u n(2) by (simp add: unat_minus_one)
  have bk: "drop (ptr b) (blk b) = contents buf @ 0x80 # ?zs @ 0 # drop (ptr b + unat (bytesUsed b) + 1) (blk b)"
    using blk_data [OF padd_ready_wf [OF b(3)]] b by (simp add: padd_ready_def)
  have D: "drop ?i (blk b) = 0x80 # ?zs @ 0 # drop (ptr b + unat (bytesUsed b) + 1) (blk b)"
    using arg_cong [OF bk, of "drop (length (contents buf))"] by (simp add: add.commute)
  have il: "?i \<le> length (blk b)" using wf_bounds(2) [OF padd_ready_wf [OF b(3)]] u by simp
  have nth: "blk b ! (?i + j) = drop ?i (blk b) ! j" for j using il by simp
  have z0: "blk b ! ?i = 0x80" using nth [of 0] unfolding D by simp
  have z1: "\<forall>j < unat n - 1. blk b ! (?i + 1 + j) = 0"
  proof (intro allI impI)
    fix j assume "j < unat n - 1"
    then have "drop ?i (blk b) ! (1 + j) = 0" unfolding D by (simp add: nth_append)
    then show "blk b ! (?i + 1 + j) = 0" using nth [of "1 + j"] by (simp add: add.assoc)
  qed
  have zk: "zka_zeros (blk b) (?i + (unat n - 1)) 0 = Ret (0x80, n - 1)"
    using zka_zeros_run [OF z1, of 0] z0 n(2) by simp
  have pk: "\<exists>t. peek b (?i + (unat n - 1)) 1 = Ret t"
    using wf_bounds(2) [OF padd_ready_wf [OF b(3)]] u n(2) by (simp add: peek_def)
  have "length (0x80 # ?zs) = unat (ucast n :: u32)" using n(2) by simp
  from crop_tail [OF b(3,2) this] obtain b' where
    b': "GWEN_Buffer_Crop b 0 (bytesUsed b - ucast n) = Ret (0, b')" "contents b' = contents buf" by auto
  have "GWEN_Padd_UnpaddWithZkaFromMultipleOf b y
      = Ret (0, snd (GWEN_Buffer_SetPos b' (bytesUsed b - 1 - ucast n)))"
    unfolding GWEN_Padd_UnpaddWithZkaFromMultipleOf_def Let_def GWEN_Buffer_GetUsedBytes_def GWEN_Buffer_GetStart_def l
    using g b' n(3) zk pk by auto
  then show ?thesis using pad b' len n(4) by auto
qed

section \<open>All algorithms\<close>

lemma nonzero_random_props:
  "length (rnd n) = n \<Longrightarrow> length (nonzero_random rnd n) = n \<and> list_all (\<lambda>c. c \<noteq> 0) (nonzero_random rnd n)"
  by (auto simp: nonzero_random_def list_all_iff)

lemma pkcs1_roundtrip:
  assumes r: "padd_ready buf (unat (word_of_int dst :: u32))" and fill: "\<And>n. length (fill n) = n"
    and nz: "\<And>n. list_all (\<lambda>c. c \<noteq> 0) (fill n)" and bt: "bt = 1 \<or> bt = 2"
    and fits: "unat (bytesUsed buf) + 11 \<le> unat (word_of_int dst :: u32)" "12 \<le> unat (word_of_int dst :: u32)"
  shows "\<exists>b b'. padd_pkcs1 bt fill buf dst = Ret (0, b) \<and> GWEN_Padd__UnpaddWithPkcs1Bt1Or2 b = Ret (0, b')
    \<and> contents b' = contents buf"
proof -
  from padd_pkcs1_ok [OF r fill fits(1)] obtain b k where
    b: "padd_pkcs1 bt fill buf dst = Ret (0, b)" "padd_ready b 0"
      "contents b = [0, bt] @ fill (k + 8) @ [0] @ contents buf"
      "k + 11 + unat (bytesUsed buf) = unat (word_of_int dst :: u32)" by blast
  have "9 \<le> length (fill (k + 8)) + length (contents buf)"
    using b(4) fits(2) fill padd_ready_small [OF r] by simp
  from unpadd_pkcs1_ok [OF b(2,3) bt nz _ this] fill b(1) show ?thesis by auto
qed

lemma iso9796_2_roundtrip:
  assumes "padd_ready buf (unat (word_of_int dst :: u32) + 1)" and "length (rnd 8) = 8"
    and "unat (bytesUsed buf) + 12 \<le> unat (word_of_int dst :: u32)"
  shows "\<exists>b b'. GWEN_Padd_PaddWithIso9796_2 rnd buf dst = Ret (0, b) \<and> GWEN_Padd_UnpaddWithIso9796_2 b = Ret (0, b')
    \<and> contents b' = contents buf"
proof -
  from padd_iso9796_2_ok [of buf dst rnd, OF assms] obtain b k where
    b: "GWEN_Padd_PaddWithIso9796_2 rnd buf dst = Ret (0, b)" "padd_ready b 0"
      "contents b = [0x60] @ replicate k 0 @ [1] @ nonzero_random rnd 8 @ contents buf @ [0xbc]" by blast
  from unpadd_iso9796_2_ok [OF b(2,3)] b(1) nonzero_random_props [of rnd 8] assms(2) show ?thesis by auto
qed

text \<open>The size the data is padded to: the next multiple of the block size.\<close>

definition padded_size :: "gwen_crypt_paddalgo \<Rightarrow> gwen_buffer \<Rightarrow> nat" where
  "padded_size a buf = (let c = nat (pa_paddSize a) in (unat (bytesUsed buf) + (c - 1)) div c * c)"

lemma padded_size_ge: "0 < pa_paddSize a \<Longrightarrow> unat (bytesUsed buf) \<le> padded_size a buf"
proof -
  assume "0 < pa_paddSize a"
  then obtain c where c: "nat (pa_paddSize a) = Suc c" by (cases "nat (pa_paddSize a)") auto
  let ?n = "unat (bytesUsed buf) + c"
  have "?n mod Suc c \<le> c" by (simp add: mod_Suc_le_divisor)
  moreover have "?n div Suc c * Suc c + ?n mod Suc c = ?n" by (rule div_mult_mod_eq)
  moreover have "padded_size a buf = ?n div Suc c * Suc c" unfolding padded_size_def c Let_def by simp
  ultimately show ?thesis by linarith
qed

lemma unat_mult_u32: "unat (x :: u32) * unat y < 4294967296 \<Longrightarrow> unat (x * y) = unat x * unat y"
  by (simp add: unat_word_ariths)

lemma padded_word:
  assumes "0 < pa_paddSize a" "pa_paddSize a < 1073741824" "unat (bytesUsed buf) < 1073741824"
  defines "cw \<equiv> word_of_int (pa_paddSize a) :: u32"
  shows "cw \<noteq> 0"
    and "unat ((bytesUsed buf + (cw - 1)) div cw * cw) = padded_size a buf"
    and "word_of_int (sint ((bytesUsed buf + (cw - 1)) div cw * cw)) = (bytesUsed buf + (cw - 1)) div cw * cw"
    and "padded_size a buf < 2147483648"
proof -
  let ?c = "nat (pa_paddSize a)" and ?u = "unat (bytesUsed buf)"
  have "cw = of_nat ?c" using assms(1) by (simp add: cw_def)
  then have uc: "unat cw = ?c" using assms unat_of_nat_u32 [of ?c] by simp
  show nz: "cw \<noteq> 0" using uc assms(1) by auto
  have u1: "unat (cw - 1) = ?c - 1" using uc nz by (simp add: unat_minus_one)
  have u2: "unat (bytesUsed buf + (cw - 1)) = ?u + (?c - 1)"
    using u1 assms by (subst unat_plus_u32) auto
  have le: "padded_size a buf \<le> ?u + (?c - 1)" by (simp add: padded_size_def Let_def)
  then show lt: "padded_size a buf < 2147483648" using assms by linarith
  have d: "unat ((bytesUsed buf + (cw - 1)) div cw) * unat cw = padded_size a buf"
    using u2 uc by (simp add: unat_div padded_size_def Let_def)
  then show "unat ((bytesUsed buf + (cw - 1)) div cw * cw) = padded_size a buf"
    using lt by (subst unat_mult_u32) auto
  show "word_of_int (sint ((bytesUsed buf + (cw - 1)) div cw * cw)) = (bytesUsed buf + (cw - 1)) div cw * cw"
    by simp
qed

text \<open>C31. Every padding that can be taken off is taken off to the data it was put on: for ANSI X9.23, PKCS1
  of both block types and ISO 9796-2, whenever the block size leaves the space the padding needs, padding
  succeeds and the reverse function restores the data.\<close>

theorem padd_algo_roundtrip:
  assumes r: "padd_ready buf (padded_size a buf + 257)" and size: "0 < pa_paddSize a" "pa_paddSize a < 1073741824"
    and used: "unat (bytesUsed buf) < 1073741824"
    and alg: "pa_id a = GWEN_Crypt_PaddAlgoId_AnsiX9_23
      \<or> pa_id a \<in> {GWEN_Crypt_PaddAlgoId_Pkcs1_1, GWEN_Crypt_PaddAlgoId_Pkcs1_2, GWEN_Crypt_PaddAlgoId_Iso9796_2}
        \<and> unat (bytesUsed buf) + 12 \<le> padded_size a buf"
    and rnd: "\<And>n. length (rnd n) = n"
  shows "\<exists>b b'. GWEN_Padd_ApplyPaddAlgo rnd a buf = Ret (0, b) \<and> GWEN_Padd_UnapplyPaddAlgo a b = Ret (0, b')
    \<and> contents b' = contents buf"
proof -
  let ?cw = "word_of_int (pa_paddSize a) :: u32"
  let ?dw = "(bytesUsed buf + (?cw - 1)) div ?cw * ?cw"
  note pw = padded_word [OF size used]
  have r1: "padd_ready buf (unat (word_of_int (sint ?dw) :: u32) + 1)" "padd_ready buf (unat (word_of_int (sint ?dw) :: u32))"
    "padd_ready buf 256"
    using padd_ready_mono [OF r] by (simp_all add: pw(2,3))
  have nr: "length (nonzero_random rnd n) = n \<and> list_all (\<lambda>c. c \<noteq> 0) (nonzero_random rnd n)" for n
    by (rule nonzero_random_props) (rule rnd)
  consider (x) "pa_id a = GWEN_Crypt_PaddAlgoId_AnsiX9_23"
    | (p1) "pa_id a = GWEN_Crypt_PaddAlgoId_Pkcs1_1" "unat (bytesUsed buf) + 12 \<le> padded_size a buf"
    | (p2) "pa_id a = GWEN_Crypt_PaddAlgoId_Pkcs1_2" "unat (bytesUsed buf) + 12 \<le> padded_size a buf"
    | (iso) "pa_id a = GWEN_Crypt_PaddAlgoId_Iso9796_2" "unat (bytesUsed buf) + 12 \<le> padded_size a buf"
    using alg by auto
  then show ?thesis
  proof cases
    case x
    then show ?thesis using x923_roundtrip [OF r1(3), of 8] pw(1)
      by (auto simp: GWEN_Padd_ApplyPaddAlgo_def GWEN_Padd_UnapplyPaddAlgo_def GWEN_Crypt_PaddAlgo_GetId_def
          GWEN_Crypt_PaddAlgo_GetPaddSize_def GWEN_Padd_PaddWithAnsiX9_23_def GWEN_Padd_UnpaddWithAnsiX9_23_def)
  next
    case p1
    have "unat (bytesUsed buf) + 11 \<le> unat (word_of_int (sint ?dw) :: u32)" "12 \<le> unat (word_of_int (sint ?dw) :: u32)"
      using p1(2) by (simp_all only: pw(2,3))
    from pkcs1_roundtrip [OF r1(2) _ _ _ this, of "\<lambda>n. replicate n 0xff" 1] p1(1) pw(1) show ?thesis
      by (auto simp: GWEN_Padd_ApplyPaddAlgo_def GWEN_Padd_UnapplyPaddAlgo_def GWEN_Crypt_PaddAlgo_GetId_def
          GWEN_Crypt_PaddAlgo_GetPaddSize_def GWEN_Padd_PaddWithPkcs1Bt1_def GWEN_Padd_UnpaddWithPkcs1Bt1_def
          GWEN_Buffer_GetUsedBytes_def padd_result_def Let_def list_all_iff)
  next
    case p2
    have "unat (bytesUsed buf) + 11 \<le> unat (word_of_int (sint ?dw) :: u32)" "12 \<le> unat (word_of_int (sint ?dw) :: u32)"
      using p2(2) by (simp_all only: pw(2,3))
    from pkcs1_roundtrip [OF r1(2) _ _ _ this, of "nonzero_random rnd" 2] nr p2(1) pw(1) show ?thesis
      by (auto simp: GWEN_Padd_ApplyPaddAlgo_def GWEN_Padd_UnapplyPaddAlgo_def GWEN_Crypt_PaddAlgo_GetId_def
          GWEN_Crypt_PaddAlgo_GetPaddSize_def GWEN_Padd_PaddWithPkcs1Bt2_def GWEN_Padd_UnpaddWithPkcs1Bt2_def
          GWEN_Buffer_GetUsedBytes_def padd_result_def Let_def)
  next
    case iso
    have "unat (bytesUsed buf) + 12 \<le> unat (word_of_int (sint ?dw) :: u32)"
      using iso(2) by (simp only: pw(2,3))
    from iso9796_2_roundtrip [of buf "sint ?dw" rnd, OF r1(1) rnd this] iso(1) pw(1) show ?thesis
      by (auto simp: GWEN_Padd_ApplyPaddAlgo_def GWEN_Padd_UnapplyPaddAlgo_def GWEN_Crypt_PaddAlgo_GetId_def
          GWEN_Crypt_PaddAlgo_GetPaddSize_def GWEN_Buffer_GetUsedBytes_def Let_def)
  qed
qed

lemma ready_example:
  "\<exists>buf. padd_ready buf 4000 \<and> contents buf = [1, 2, 3] \<and> unat (bytesUsed buf) = 3"
proof -
  obtain b0 where b0: "GWEN_Buffer_new 1000000 (\<lambda>_. 0) (\<lambda>_. True) None 256 0 True = Ret b0" "buf_wf b0"
      "nul_terminated b0" "contents b0 = []" "bytesUsed b0 = 0" "ptr b0 = 0" "mode b0 = GWEN_BUFFER_MODE_DEFAULT"
      "hardLimit b0 = 1000000" "step b0 = 1024" "allocOk b0 = (\<lambda>_. True)"
    using new_buffer [of 256 "\<lambda>_. True" 1000000 "\<lambda>_. 0" True] by auto
  then have "padd_ready b0 (length [1, 2, 3 :: byte] + 4000)"
    by (simp add: padd_ready_def room_def has_mode_def buffer_consts)
  from append_ready [OF this] b0(4) obtain b where
    "contents b = [1, 2, 3]" "padd_ready b 4000" by auto
  then show ?thesis using padd_ready_small [of b 4000] by force
qed

theorem x923_roundtrip_witness:
  "\<exists>buf b b'. contents buf = [1, 2, 3] \<and> GWEN_Padd_PaddWithAnsiX9_23ToMultipleOf buf 8 = Ret (0, b)
    \<and> length (contents b) mod nat 8 = 0
    \<and> GWEN_Padd_UnpaddWithAnsiX9_23FromMultipleOf b 8 = Ret (0, b') \<and> contents b' = [1, 2, 3]"
proof -
  obtain buf where buf: "padd_ready buf 256" "contents buf = [1, 2, 3]"
    using ready_example padd_ready_mono [of _ 4000 256] by auto
  show ?thesis using x923_roundtrip [OF buf(1), of 8] buf(2) by auto
qed

theorem zka_roundtrip_witness:
  "\<exists>buf b b'. contents buf = [1, 2, 3] \<and> GWEN_Padd_PaddWithZkaToMultipleOf buf 16 = Ret (0, b)
    \<and> length (contents b) mod nat 16 = 0
    \<and> GWEN_Padd_UnpaddWithZkaFromMultipleOf b 16 = Ret (0, b') \<and> contents b' = [1, 2, 3]"
proof -
  obtain buf where buf: "padd_ready buf 256" "contents buf = [1, 2, 3]"
    using ready_example padd_ready_mono [of _ 4000 256] by auto
  show ?thesis using zka_roundtrip [OF buf(1), of 16] buf(2) by auto
qed

theorem padd_algo_roundtrip_witness:
  "\<exists>buf b b'. contents buf = [1, 2, 3]
    \<and> GWEN_Padd_ApplyPaddAlgo (\<lambda>n. replicate n 7) \<lparr>pa_id = GWEN_Crypt_PaddAlgoId_Pkcs1_2, pa_paddSize = 128, pa_refCount = 1\<rparr> buf
        = Ret (0, b)
    \<and> GWEN_Padd_UnapplyPaddAlgo \<lparr>pa_id = GWEN_Crypt_PaddAlgoId_Pkcs1_2, pa_paddSize = 128, pa_refCount = 1\<rparr> b = Ret (0, b')
    \<and> contents b' = [1, 2, 3]"
proof -
  let ?a = "\<lparr>pa_id = GWEN_Crypt_PaddAlgoId_Pkcs1_2, pa_paddSize = 128, pa_refCount = 1\<rparr>"
  obtain buf where buf: "padd_ready buf 4000" "contents buf = [1, 2, 3]" "unat (bytesUsed buf) = 3"
    using ready_example by auto
  have ps: "padded_size ?a buf = 128" by (simp add: padded_size_def buf(3))
  have "padd_ready buf (padded_size ?a buf + 257)" using padd_ready_mono [OF buf(1)] by (simp add: ps)
  from padd_algo_roundtrip [OF this, of "\<lambda>n. replicate n 7"] buf ps show ?thesis by auto
qed

section \<open>Errors\<close>



text \<open>Padding bytes up to the end of the data: the reader takes the terminator behind the data for the separator,
  the length left wraps below 0, and the buffer is cropped to 4294967295 bytes, so that the terminator is
  written outside of its memory.\<close>

definition ex_no_separator :: gwen_buffer where
  "ex_no_separator = \<lparr>realPtr = Some [0, 1, 255, 255, 255, 255, 255, 255, 255, 255, 255, 255, 0, 0, 0, 0],
     ptr = 0, pos = 0, bufferSize = 16, realBufferSize = 16, bytesUsed = 12, flags = 0, mode = GWEN_BUFFER_MODE_DEFAULT, hardLimit = 1000000,
     step = 1024, bookmarks = replicate GWEN_BUFFER_MAX_BOOKMARKS 0, refCount = 1, fresh = (\<lambda>_. 0), allocOk = (\<lambda>_. True)\<rparr>"

theorem pkcs1_no_separator: "buf_ok ex_no_separator \<and> GWEN_Padd__UnpaddWithPkcs1Bt1Or2 ex_no_separator = Fault"
proof
  have "\<exists>k<32. (1024::u32) = 2 ^ k" by (rule exI [of _ 10]) simp
  then show "buf_ok ex_no_separator"
    by (simp add: buf_ok_def buf_wf_def nul_terminated_def ex_no_separator_def)
  have m: "blk ex_no_separator = [0, 1, 255, 255, 255, 255, 255, 255, 255, 255, 255, 255, 0, 0, 0, 0]"
    by (simp add: ex_no_separator_def blk_def)
  have p: "peek ex_no_separator 0 1 = Ret [0]" "peek ex_no_separator 1 1 = Ret [1]"
    by (simp_all add: peek_def m window_def)
  have sk: "pkcs1_skip (drop 2 (blk ex_no_separator)) 10 0 = Ret (0, 0, 10)"
    by (simp add: m)
  have "GWEN_Buffer_Crop ex_no_separator 13 0xffffffff = Fault"
    by (simp add: GWEN_Buffer_Crop_def has_mode_def advance_def terminate_data_def poke_def buffer_consts Let_def
        ex_no_separator_def blk_def)
  moreover have "(0xffffffff :: u32) = - 1" by simp
  ultimately have c: "GWEN_Buffer_Crop ex_no_separator 13 (- 1) = Fault" by (simp only:)
  show "GWEN_Padd__UnpaddWithPkcs1Bt1Or2 ex_no_separator = Fault"
    using p sk c
    by (simp add: GWEN_Padd__UnpaddWithPkcs1Bt1Or2_def GWEN_Buffer_GetUsedBytes_def GWEN_Buffer_GetStart_def Let_def
        ex_no_separator_def)
qed

section \<open>ISO 9796-1\<close>

lemma Crop_ptr: "GWEN_Buffer_Crop bf p l = Ret (0, bf') \<Longrightarrow> ptr bf' = ptr bf + unat p"
  by (auto simp: GWEN_Buffer_Crop_def fail_with_def advance_def terminate_data_def poke_def int_neg_def Let_def gwen_errors
      split: if_splits)

lemma crop_ready:
  assumes r: "padd_ready bf k" and p: "unat p + unat l \<le> length (contents bf)"
  shows "\<exists>b. GWEN_Buffer_Crop bf p l = Ret (0, b) \<and> contents b = take (unat l) (drop (unat p) (contents bf)) \<and> padd_ready b k"
proof -
  note wf = padd_ready_wf [OF r]
  have "unat p + unat l < unat (bufferSize bf)" using p wf r by (simp add: padd_ready_def nul_terminated_def)
  moreover have "unat p < 2147483648" using p padd_ready_small [OF r] by linarith
  ultimately obtain b where
    b: "GWEN_Buffer_Crop bf p l = Ret (0, b)" "cut_post bf (take (unat l) (drop (unat p) (contents bf))) b"
    using Crop_correct [of bf p l] p r wf by (auto simp: padd_ready_def room_def)
  have "unat (bytesUsed b) = unat l" using b(2) p by (auto simp: cut_post_def min_def)
  then have "padd_ready b k"
    using b(2) r p Crop_ptr [OF b(1)] wf by (auto simp: padd_ready_def room_def cut_post_def has_mode_def)
  with b show ?thesis by (auto simp: cut_post_def)
qed

lemma reset_ready:
  assumes r: "padd_ready bf k"
  shows "\<exists>b. GWEN_Buffer_Reset bf = Ret b \<and> contents b = [] \<and> padd_ready b k"
proof -
  note wf = padd_ready_wf [OF r]
  have "ptr bf + 1 \<le> length (blk bf)" using wf_bounds(1) [OF wf] r by (auto simp: padd_ready_def nul_terminated_def)
  then obtain b where b: "GWEN_Buffer_Reset bf = Ret b" "ptr b = ptr bf" "bytesUsed b = 0" "hardLimit b = hardLimit bf"
      "step b = step bf" "allocOk b = allocOk bf" "mode b = mode bf"
    by (auto simp: GWEN_Buffer_Reset_def poke_def)
  have "buf_ok b" using buf_ok_reset [OF _ b(1)] r wf by (simp add: buf_ok_def padd_ready_def)
  then show ?thesis using b r by (auto simp: buf_ok_def padd_ready_def room_def has_mode_def contents_def)
qed

lemma length_iso9796_turn [simp]: "length (iso9796_turn p i b) = length b"
  by (simp add: iso9796_turn_def Let_def)

text \<open>After \<open>n\<close> turns the last \<open>n - 1\<close> bytes of the data are in place, each behind its image.\<close>

lemma iso9796_turns:
  fixes p :: "byte list"
  assumes "n \<le> 48"
  defines "b \<equiv> fold (iso9796_turn p) [0..<n] (replicate 96 0)"
  shows "length b = 96 \<and> (\<forall>k < 40. 41 \<le> n + k \<longrightarrow> b ! (17 + 2 * k) = p ! k \<and> b ! (16 + 2 * k) = GWEN_Padd_permutate (p ! k))"
  using assms(1) unfolding b_def
proof (induction n)
  case 0
  then show ?case by simp
next
  case (Suc n)
  let ?b = "fold (iso9796_turn p) [0..<n] (replicate 96 0)"
  have IH: "length ?b = 96" "\<And>k. k < 40 \<Longrightarrow> 41 \<le> n + k \<Longrightarrow> ?b ! (17 + 2 * k) = p ! k \<and> ?b ! (16 + 2 * k) = GWEN_Padd_permutate (p ! k)"
    using Suc by auto
  have e: "fold (iso9796_turn p) [0..<Suc n] (replicate 96 0) = iso9796_turn p n ?b" by simp
  have turn: "iso9796_turn p n ?b = (if 1 \<le> n \<and> n \<le> 40 then ?b[97 - 2 * n := p ! (40 - n), 96 - 2 * n := GWEN_Padd_permutate (p ! (40 - n))] else ?b)"
    using Suc.prems by (auto simp: iso9796_turn_def Let_def nat_diff_distrib nat_mult_distrib)
  have "\<forall>k < 40. 41 \<le> Suc n + k \<longrightarrow> iso9796_turn p n ?b ! (17 + 2 * k) = p ! k
      \<and> iso9796_turn p n ?b ! (16 + 2 * k) = GWEN_Padd_permutate (p ! k)"
  proof (intro allI impI)
    fix k assume k: "k < 40" "41 \<le> Suc n + k"
    show "iso9796_turn p n ?b ! (17 + 2 * k) = p ! k \<and> iso9796_turn p n ?b ! (16 + 2 * k) = GWEN_Padd_permutate (p ! k)"
    proof (cases "k = 40 - n \<and> n \<le> 40")
      case True
      then have "17 + 2 * k = 97 - 2 * n" "16 + 2 * k = 96 - 2 * n" "1 \<le> n" using k by auto
      then show ?thesis using True IH(1) by (simp add: turn nth_list_update)
    next
      case False
      then have n: "41 \<le> n + k" using k by auto
      have "17 + 2 * k \<noteq> 97 - 2 * n" "17 + 2 * k \<noteq> 96 - 2 * n" "16 + 2 * k \<noteq> 97 - 2 * n" "16 + 2 * k \<noteq> 96 - 2 * n"
        if "n \<le> 40"
        using that False n by presburger+
      then show ?thesis using IH(2) [OF k(1) n] by (auto simp: turn nth_list_update)
    qed
  qed
  with IH(1) show ?case unfolding e by simp
qed

lemma iso9796_block_props:
  assumes "length p = 40"
  shows "length (iso9796_block p) = 96"
    and "k < 20 \<Longrightarrow> iso9796_block p ! (17 + 2 * k) = p ! k"
    and "iso9796_block p ! 0 AND 0xc0 = 0x40"
    and "iso9796_block p ! 95 AND 0xf = 6"
proof -
  define b0 where "b0 = fold (iso9796_turn p) [0..<48] (replicate 96 0)"
  define b1 where "b1 = write_at 0 (window 80 16 b0) b0"
  have b0: "length b0 = 96" "\<And>k. k < 40 \<Longrightarrow> b0 ! (17 + 2 * k) = p ! k"
    using iso9796_turns [of 48 p] by (auto simp: b0_def)
  have b1: "length b1 = 96" "\<And>j. 16 \<le> j \<Longrightarrow> j < 96 \<Longrightarrow> b1 ! j = b0 ! j"
    using b0(1) by (simp_all add: b1_def nth_write_at)
  have e: "iso9796_block p = b1[95 := (b1 ! 95 AND 15) * 16 + 6, 0 := (b1 ! 0 AND 127) OR 64, 56 := b1 ! 56 XOR 1]"
    using b1(1) by (simp add: iso9796_block_def Let_def b0_def [symmetric] b1_def [symmetric] nth_list_update)
  show "length (iso9796_block p) = 96" using b1 by (simp add: e)
  show "iso9796_block p ! (17 + 2 * k) = p ! k" if "k < 20"
  proof -
    have "17 + 2 * k \<noteq> 56" "17 + 2 * k \<noteq> 95" "17 + 2 * k < 96" using that by presburger+
    then show ?thesis using that b1(2) [of "17 + 2 * k"] b0(2) [of k] by (simp add: e)
  qed
  have "((x AND 127) OR 64) AND 0xc0 = (0x40 :: byte)" for x :: byte
  proof (rule bit_word_eqI)
    fix n assume "n < LENGTH(8)"
    then have "n \<in> {0, 1, 2, 3, 4, 5, 6, 7}" by auto
    then show "bit (((x AND 127) OR 64) AND 0xc0) n = bit (0x40 :: byte) n" by (auto simp: bit_simps)
  qed
  then show "iso9796_block p ! 0 AND 0xc0 = 0x40" using b1(1) by (simp add: e)
  have "((x AND 15) * 16 + 6) AND 0xf = (6 :: byte)" for x :: byte
  proof -
    have e: "(x AND 15) * 16 = push_bit 4 (x AND 15)" by (simp add: push_bit_eq_mult)
    have b8: "n \<in> {0, 1, 2, 3, 4, 5, 6, 7}" if "n < LENGTH(8)" for n using that by auto
    have z: "push_bit 4 (x AND 15) AND 6 = 0"
    proof (rule bit_word_eqI)
      fix n assume "n < LENGTH(8)"
      from b8 [OF this] show "bit (push_bit 4 (x AND 15) AND 6) n = bit 0 n" by (auto simp: bit_simps)
    qed
    have "(push_bit 4 (x AND 15) OR 6) AND 0xf = 6"
    proof (rule bit_word_eqI)
      fix n assume "n < LENGTH(8)"
      from b8 [OF this] show "bit ((push_bit 4 (x AND 15) OR 6) AND 0xf) n = bit (6 :: byte) n"
        by (auto simp: bit_simps)
    qed
    then show ?thesis unfolding e disjunctive_add_eq_or [OF z] .
  qed
  then show "iso9796_block p ! 95 AND 0xf = 6" using b1(1) by (simp add: e)
qed

text \<open>C34. Padding a hash of 20 bytes by ISO 9796-1 gives a block of 96 bytes that starts with the bits 01, ends with
  the trailer 6, and holds the hash in every other byte from 17 on.\<close>

theorem iso9796_block_of_hash:
  assumes r: "padd_ready buf 256" and h: "length (contents buf) = 20"
  shows "\<exists>b. GWEN_Padd_PaddWithISO9796 buf = Ret (0, b) \<and> length (contents b) = 96
    \<and> contents b ! 0 AND 0xc0 = 0x40 \<and> contents b ! 95 AND 0xf = 6
    \<and> map (\<lambda>k. contents b ! (17 + 2 * k)) [0..<20] = contents buf"
proof -
  let ?h = "contents buf" and ?l = "bytesUsed buf"
  have u: "unat ?l = 20" using padd_ready_small [OF r] h by simp
  note wf = padd_ready_wf [OF r]
  have pk: "peek buf (ptr buf) (unat ?l) = Ret ?h"
    using wf_bounds(2) [OF wf] by (simp add: peek_def contents_def)
  have app: "\<exists>b'. GWEN_Buffer_AppendBytes b xs sz = Ret (0, b') \<and> contents b' = contents b @ xs \<and> padd_ready b' n"
    if "padd_ready b (length xs + n)" "length xs = unat sz" for b n xs sz
  proof -
    have "room b (unat sz + n)" using that by (simp add: padd_ready_def)
    from AppendBytes_room [OF this, of xs] that(2) obtain b' where
      b': "GWEN_Buffer_AppendBytes b xs sz = Ret (0, b')" "append_post b xs 0 b'" "contents b' = contents b @ xs" "room b' n"
      by auto
    note ap = append_post_contents [OF padd_ready_wf [OF that(1)] b'(2)]
    then show ?thesis using b' that(1) by (auto simp: padd_ready_def)
  qed
  have "padd_ready buf (length ?h + 236)" using r h by simp
  from app [OF this, of ?l] u h obtain b1 where
    b1: "GWEN_Buffer_AppendBytes buf ?h ?l = Ret (0, b1)" "contents b1 = ?h @ ?h" "padd_ready b1 236" by auto
  have "padd_ready b1 (length ?h + 216)" using b1(3) h by simp
  from app [OF this, of ?l] u h b1 obtain b2 where
    b2: "GWEN_Buffer_AppendBytes b1 ?h ?l = Ret (0, b2)" "contents b2 = ?h @ ?h @ ?h" "padd_ready b2 216" by auto
  have l2: "length (contents b2) = 60" using b2(2) h by simp
  obtain b3 where b3: "GWEN_Buffer_Crop b2 20 40 = Ret (0, b3)" "contents b3 = ?h @ ?h" "padd_ready b3 216"
    using crop_ready [OF b2(3), of 20 40] l2 b2(2) h by auto
  have u3: "unat (bytesUsed b3) = 40" using padd_ready_small [OF b3(3)] b3(2) h by simp
  have pk3: "peek b3 (ptr b3) 40 = Ret (?h @ ?h)"
    using wf_bounds(2) [OF padd_ready_wf [OF b3(3)]] b3(2) u3 by (simp add: peek_def contents_def)
  have len40: "length (?h @ ?h) = 40" using h by simp
  note ib = iso9796_block_props [OF len40]
  obtain b4 where b4: "GWEN_Buffer_Reset b3 = Ret b4" "contents b4 = []" "padd_ready b4 216"
    using reset_ready [OF b3(3)] by auto
  have "padd_ready b4 (length (iso9796_block (?h @ ?h)) + 120)" using b4(3) ib(1) by simp
  from app [OF this, of 96] ib(1) b4 obtain b5 where
    b5: "GWEN_Buffer_AppendBytes b4 (iso9796_block (?h @ ?h)) 96 = Ret (0, b5)" "contents b5 = iso9796_block (?h @ ?h)"
    by auto
  have "GWEN_Padd_PaddWithISO9796 buf = Ret (0, b5)"
    using pk u b1 b2 b3 pk3 b4 b5
    by (simp add: GWEN_Padd_PaddWithISO9796_def Let_def GWEN_Buffer_GetUsedBytes_def GWEN_Buffer_GetStart_def)
  moreover have "map (\<lambda>k. contents b5 ! (17 + 2 * k)) [0..<20] = ?h"
    using ib(2) b5(2) h by (intro nth_equalityI) (simp_all add: nth_append)
  ultimately show ?thesis using ib b5(2) by auto
qed

theorem iso9796_block_of_hash_witness:
  "\<exists>buf b. contents buf = replicate 20 7 \<and> GWEN_Padd_PaddWithISO9796 buf = Ret (0, b) \<and> length (contents b) = 96
    \<and> map (\<lambda>k. contents b ! (17 + 2 * k)) [0..<20] = replicate 20 7"
proof -
  obtain buf where buf: "padd_ready buf 4000" using ready_example by auto
  from crop_ready [OF buf, of 0 0] obtain b0 where "contents b0 = []" "padd_ready b0 4000" by auto
  then have b0: "contents b0 = []" "padd_ready b0 (length (replicate 20 (7 :: byte)) + 256)"
    using padd_ready_mono [of b0 4000 276] by auto
  from append_ready [OF b0(2)] b0(1) obtain b1 where b1: "contents b1 = replicate 20 7" "padd_ready b1 256" by auto
  show ?thesis using iso9796_block_of_hash [OF b1(2)] b1(1) by auto
qed

section \<open>Names of the algorithms\<close>

lemma paddalgo_names:
  "GWEN_Crypt_PaddAlgoId_fromString (GWEN_Crypt_PaddAlgoId_toString GWEN_Crypt_PaddAlgoId_None) = GWEN_Crypt_PaddAlgoId_None"
  "GWEN_Crypt_PaddAlgoId_fromString (GWEN_Crypt_PaddAlgoId_toString GWEN_Crypt_PaddAlgoId_Any) = GWEN_Crypt_PaddAlgoId_Any"
  "GWEN_Crypt_PaddAlgoId_fromString (GWEN_Crypt_PaddAlgoId_toString GWEN_Crypt_PaddAlgoId_Iso9796_1) = GWEN_Crypt_PaddAlgoId_Iso9796_1"
  "GWEN_Crypt_PaddAlgoId_fromString (GWEN_Crypt_PaddAlgoId_toString GWEN_Crypt_PaddAlgoId_Iso9796_1A4) = GWEN_Crypt_PaddAlgoId_Iso9796_1A4"
  "GWEN_Crypt_PaddAlgoId_fromString (GWEN_Crypt_PaddAlgoId_toString GWEN_Crypt_PaddAlgoId_Iso9796_2) = GWEN_Crypt_PaddAlgoId_Iso9796_2"
  "GWEN_Crypt_PaddAlgoId_fromString (GWEN_Crypt_PaddAlgoId_toString GWEN_Crypt_PaddAlgoId_Pkcs1_1) = GWEN_Crypt_PaddAlgoId_Pkcs1_1"
  "GWEN_Crypt_PaddAlgoId_fromString (GWEN_Crypt_PaddAlgoId_toString GWEN_Crypt_PaddAlgoId_Pkcs1_2) = GWEN_Crypt_PaddAlgoId_Pkcs1_2"
  "GWEN_Crypt_PaddAlgoId_fromString (GWEN_Crypt_PaddAlgoId_toString GWEN_Crypt_PaddAlgoId_LeftZero) = GWEN_Crypt_PaddAlgoId_LeftZero"
  "GWEN_Crypt_PaddAlgoId_fromString (GWEN_Crypt_PaddAlgoId_toString GWEN_Crypt_PaddAlgoId_RightZero) = GWEN_Crypt_PaddAlgoId_RightZero"
  "GWEN_Crypt_PaddAlgoId_fromString (GWEN_Crypt_PaddAlgoId_toString GWEN_Crypt_PaddAlgoId_AnsiX9_23) = GWEN_Crypt_PaddAlgoId_AnsiX9_23"
  "GWEN_Crypt_PaddAlgoId_fromString (GWEN_Crypt_PaddAlgoId_toString GWEN_Crypt_PaddAlgoId_Pkcs1_Pss_Sha256) = GWEN_Crypt_PaddAlgoId_Pkcs1_Pss_Sha256"
  by code_simp+

text \<open>The name of every algorithm is read back as the algorithm, except for ZKA and the unknown one, which
  share a name.\<close>

theorem paddalgoid_roundtrip:
  assumes "i \<noteq> GWEN_Crypt_PaddAlgoId_Unknown" "i \<noteq> GWEN_Crypt_PaddAlgoId_ZKA"
  shows "GWEN_Crypt_PaddAlgoId_fromString (GWEN_Crypt_PaddAlgoId_toString i) = i"
  using assms paddalgo_names by (cases i) (simp_all only: simp_thms)

theorem paddalgoid_roundtrip_witness:
  "GWEN_Crypt_PaddAlgoId_fromString (GWEN_Crypt_PaddAlgoId_toString GWEN_Crypt_PaddAlgoId_Pkcs1_2)
     = GWEN_Crypt_PaddAlgoId_Pkcs1_2"
  by (rule paddalgoid_roundtrip) simp_all

theorem paddalgo_zka_lost:
  "GWEN_Crypt_PaddAlgoId_fromString (GWEN_Crypt_PaddAlgoId_toString GWEN_Crypt_PaddAlgoId_ZKA)
     = GWEN_Crypt_PaddAlgoId_Unknown"
  by code_simp

end
