(* ===== verification/Gwen_Pss.thy ===== *)
theory Gwen_Pss
  imports Gwen_PaddProps
begin

text \<open>
  The mask generation function and the probabilistic signature padding of \<^verbatim>\<open>src/crypt3/padd.c\<close>. A message
  digest is an object with functions to begin, to add bytes and to end, as \<^verbatim>\<open>GWEN_MDIGEST\<close> has them; what
  they compute is left to the library behind it and is a hypothesis of the theorems: a hash function of
  the bytes added. \<open>None\<close> is a call that does not return.
\<close>

section \<open>Message digests\<close>

text \<open>The functions are pointers that may be unset; \<open>'s\<close> is the state the library behind them keeps.\<close>

record 's gwen_mdigest =
  md_pDigest :: "byte list"
  md_beginFn :: "('s \<Rightarrow> int \<times> 's) option"
  md_endFn :: "('s \<Rightarrow> int \<times> byte list \<times> 's) option"
  md_updateFn :: "('s \<Rightarrow> byte list \<Rightarrow> int \<times> 's) option"
  md_state :: 's

definition GWEN_MDigest_GetDigestSize :: "'s gwen_mdigest \<Rightarrow> nat" where
  "GWEN_MDigest_GetDigestSize md = length (md_pDigest md)"

definition GWEN_MDigest_GetDigestPtr :: "'s gwen_mdigest \<Rightarrow> byte list" where
  "GWEN_MDigest_GetDigestPtr md = md_pDigest md"

definition GWEN_MDigest_Begin :: "'s gwen_mdigest \<Rightarrow> int \<times> 's gwen_mdigest" where
  "GWEN_MDigest_Begin md =
    (case md_beginFn md of
       None \<Rightarrow> (GWEN_ERROR_NOT_IMPLEMENTED, md)
     | Some f \<Rightarrow> (let (rv, s) = f (md_state md) in (rv, md\<lparr>md_state := s\<rparr>)))"

definition GWEN_MDigest_End :: "'s gwen_mdigest \<Rightarrow> int \<times> 's gwen_mdigest" where
  "GWEN_MDigest_End md =
    (case md_endFn md of
       None \<Rightarrow> (GWEN_ERROR_NOT_IMPLEMENTED, md)
     | Some f \<Rightarrow> (let (rv, d, s) = f (md_state md) in (rv, md\<lparr>md_pDigest := d, md_state := s\<rparr>)))"

definition GWEN_MDigest_Update :: "'s gwen_mdigest \<Rightarrow> byte list \<Rightarrow> int \<times> 's gwen_mdigest" where
  "GWEN_MDigest_Update md buf =
    (case md_updateFn md of
       None \<Rightarrow> (GWEN_ERROR_NOT_IMPLEMENTED, md)
     | Some f \<Rightarrow> (let (rv, s) = f (md_state md) buf in (rv, md\<lparr>md_state := s\<rparr>)))"

text \<open>The digest of a few regions one after the other; the first error is returned.\<close>

primrec md_updates :: "'s gwen_mdigest \<Rightarrow> byte list list \<Rightarrow> int \<times> 's gwen_mdigest" where
  "md_updates md [] = (0, md)"
| "md_updates md (bs # bss) =
     (let (rv, md) = GWEN_MDigest_Update md bs in if rv < 0 then (rv, md) else md_updates md bss)"

definition md_hash :: "'s gwen_mdigest \<Rightarrow> byte list list \<Rightarrow> int \<times> 's gwen_mdigest" where
  "md_hash md bss =
    (let (rv, md) = GWEN_MDigest_Begin md
     in if rv < 0 then (rv, md)
        else
          (let (rv, md) = md_updates md bss
           in if rv < 0 then (rv, md) else GWEN_MDigest_End md))"

text \<open>The digest of a block into a destination of \<open>dstLen\<close> bytes; empty arguments are asserted against.\<close>

definition GWEN_MDigest_Digest ::
  "'s gwen_mdigest \<Rightarrow> byte list \<Rightarrow> byte list \<Rightarrow> (int \<times> byte list \<times> 's gwen_mdigest) outcome" where
  "GWEN_MDigest_Digest md srcBuf dstBuf =
    (if srcBuf = [] \<or> dstBuf = [] then Abort
     else case md_hash md [srcBuf] of
       (rv, md) \<Rightarrow>
         if rv < 0 then Ret (rv, dstBuf, md)
         else
           (let digestLen = GWEN_MDigest_GetDigestSize md
            in if length dstBuf < digestLen then Ret (GWEN_ERROR_BUFFER_OVERFLOW, dstBuf, md)
               else Ret (0, write_at 0 (GWEN_MDigest_GetDigestPtr md) dstBuf, md)))"

section \<open>Mask generation\<close>

definition mgf1_counter :: "u32 \<Rightarrow> byte list" where
  "mgf1_counter i = [ucast (drop_bit 24 i AND 0xff), ucast (drop_bit 16 i AND 0xff), ucast (drop_bit 8 i AND 0xff),
     ucast (i AND 0xff)]"

text \<open>With a digest of no bytes the loop does not end.\<close>

partial_function (option) GWEN_Padd_MGF1_loop ::
  "'s gwen_mdigest \<Rightarrow> byte list \<Rightarrow> u32 \<Rightarrow> nat \<Rightarrow> byte list \<Rightarrow> (int \<times> byte list \<times> 's gwen_mdigest) option" where
  "GWEN_Padd_MGF1_loop md pSeed i bytesLeft acc =
    (if bytesLeft = 0 then Some (0, acc, md)
     else case md_hash md [pSeed, mgf1_counter i] of
       (rv, md) \<Rightarrow>
         if rv < 0 then Some (rv, acc, md)
         else
           (let l = min (GWEN_MDigest_GetDigestSize md) bytesLeft
            in GWEN_Padd_MGF1_loop md pSeed (i + 1) (bytesLeft - l) (acc @ take l (GWEN_MDigest_GetDigestPtr md))))"

definition GWEN_Padd_MGF1 ::
  "'s gwen_mdigest \<Rightarrow> nat \<Rightarrow> byte list \<Rightarrow> (int \<times> byte list \<times> 's gwen_mdigest) option" where
  "GWEN_Padd_MGF1 md lDestBuffer pSeed = GWEN_Padd_MGF1_loop md pSeed 0 lDestBuffer []"

section \<open>Signature padding\<close>

definition nullarray :: "byte list" where
  "nullarray = [0, 0, 0, 0, 0, 0, 0, 0]"

definition pss_emLen :: "u32 \<Rightarrow> nat" where
  "pss_emLen nbits = unat nbits div 8 + (if unat nbits mod 8 \<noteq> 0 then 1 else 0)"

definition xor_bytes :: "byte list \<Rightarrow> byte list \<Rightarrow> byte list" where
  "xor_bytes xs ys = map2 (XOR) xs ys"

text \<open>The encoded message in the destination from offset \<open>off\<close> on. The salt and the hash are copied to
  memory of the sizes computed before, without a check that the message is long enough; the digest goes to
  64 bytes on the stack.\<close>

definition GWEN_Padd_AddPkcs1Pss ::
  "(nat \<Rightarrow> byte list) \<Rightarrow> byte list \<Rightarrow> u32 \<Rightarrow> byte list \<Rightarrow> u32 \<Rightarrow> 's gwen_mdigest \<Rightarrow>
     (int \<times> byte list \<times> 's gwen_mdigest) outcome option" where
  "GWEN_Padd_AddPkcs1Pss rnd pDestBuffer nbits pHash lSalt md =
    (let nb0 = unat ((nbits - 1) AND 7);
         off = (if nb0 = 0 then 1 else 0);
         emLen = pss_emLen nbits - off;
         dst = (if nb0 = 0 then pDestBuffer[0 := 0] else pDestBuffer);
         pSalt = rnd (unat lSalt)
     in if nb0 = 0 \<and> pDestBuffer = [] then Some Fault
        else case md_hash md [nullarray, pHash, pSalt] of
          (rv, md) \<Rightarrow>
            if rv < 0 then Some (Ret (rv, dst, md))
            else
              (let hl = GWEN_MDigest_GetDigestSize md; hashMBar = GWEN_MDigest_GetDigestPtr md
               in if 64 < hl \<or> emLen < hl + unat lSalt + 2 then Some Fault
                  else
                    (let pDB = replicate (emLen - hl - unat lSalt - 2) 0 @ [0x01] @ pSalt;
                         x = emLen - hl - 1
                     in case GWEN_Padd_MGF1 md x hashMBar of
                          None \<Rightarrow> None
                        | Some (rv, pDbMask, md) \<Rightarrow>
                            if rv < 0 then Some (Ret (rv, dst, md))
                            else if length dst < off + emLen then Some Fault
                            else
                              (let dst = write_at off (xor_bytes pDB pDbMask @ hashMBar @ [0xbc]) dst;
                                   dst = (if nb0 \<noteq> 0 then dst[off := dst ! off AND drop_bit (8 - nb0) 0xff] else dst)
                               in Some (Ret (int emLen, dst, md))))))"

text \<open>The check of the sizes is done with 32 bits, where the sum wraps for a huge salt: then the hash is
  looked for outside the message. \<open>pSrcBuffer\<close> is the memory behind the pointer.\<close>

definition GWEN_Padd_VerifyPkcs1Pss ::
  "byte list \<Rightarrow> u32 \<Rightarrow> u32 \<Rightarrow> byte list \<Rightarrow> u32 \<Rightarrow> 's gwen_mdigest \<Rightarrow> (int \<times> 's gwen_mdigest) outcome option" where
  "GWEN_Padd_VerifyPkcs1Pss pSrcBuffer lSrcBuffer nbits pHash lSalt md =
    (let nb0 = unat ((nbits - 1) AND 7);
         off = (if nb0 = 0 then 1 else 0);
         emLen = pss_emLen nbits - off;
         hl = GWEN_MDigest_GetDigestSize md
     in if nb0 \<noteq> 0 \<and> pSrcBuffer = [] then Some Fault
        else if nb0 \<noteq> 0 \<and> pSrcBuffer ! 0 AND push_bit nb0 0xff \<noteq> 0 then Some (Ret (GWEN_ERROR_BAD_DATA, md))
        else if of_nat emLen < of_nat hl + lSalt + 2 then Some (Ret (GWEN_ERROR_BAD_DATA, md))
        else if unat lSrcBuffer < emLen then Some (Ret (GWEN_ERROR_BAD_DATA, md))
        else if emLen < hl + 2 \<or> length pSrcBuffer < off + emLen - 1 then Some Fault
        else
          (let x = emLen - hl - 1; hashMBar = window (off + x) hl pSrcBuffer
           in case GWEN_Padd_MGF1 md x hashMBar of
                None \<Rightarrow> None
              | Some (rv, pDB, md) \<Rightarrow>
                  if rv < 0 then Some (Ret (rv, md))
                  else
                    (let pDB = xor_bytes pDB (window off x pSrcBuffer);
                         pDB = (if nb0 \<noteq> 0 then pDB[0 := pDB ! 0 AND drop_bit (8 - nb0) 0xff] else pDB);
                         i = length (takeWhile (\<lambda>b. b = 0) (take (x - 1) pDB))
                     in if pDB ! i \<noteq> 0x01 then Some (Ret (GWEN_ERROR_BAD_DATA, md))
                        else if x - (i + 1) \<noteq> unat lSalt then Some (Ret (GWEN_ERROR_BAD_DATA, md))
                        else
                          (let pSalt = drop (i + 1) pDB
                           in case md_hash md ([nullarray] @ (if pHash \<noteq> [] then [pHash] else []) @ [pSalt]) of
                                (rv, md) \<Rightarrow>
                                  if rv < 0 then Some (Ret (rv, md))
                                  else if hashMBar \<noteq> GWEN_MDigest_GetDigestPtr md then Some (Ret (GWEN_ERROR_VERIFY, md))
                                  else Some (Ret (0, md))))))"

section \<open>What a digest computes\<close>

text \<open>The functions compute a hash \<open>H\<close> of \<open>n\<close> bytes over the bytes added since the beginning, which a state
  represents by \<open>absorbed\<close>.\<close>

definition digest_ok :: "('s \<Rightarrow> byte list) \<Rightarrow> (byte list \<Rightarrow> byte list) \<Rightarrow> nat \<Rightarrow> 's gwen_mdigest \<Rightarrow> bool" where
  "digest_ok absorbed H n md \<longleftrightarrow>
     length (md_pDigest md) = n \<and> (\<forall>bs. length (H bs) = n)
     \<and> (\<exists>b. md_beginFn md = Some b \<and> (\<forall>s. \<exists>rv s'. b s = (rv, s') \<and> 0 \<le> rv \<and> absorbed s' = []))
     \<and> (\<exists>u. md_updateFn md = Some u \<and> (\<forall>s bs. \<exists>rv s'. u s bs = (rv, s') \<and> 0 \<le> rv \<and> absorbed s' = absorbed s @ bs))
     \<and> (\<exists>e. md_endFn md = Some e \<and> (\<forall>s. \<exists>rv s'. e s = (rv, H (absorbed s), s') \<and> 0 \<le> rv))"

lemma digest_ok_size: "digest_ok absorbed H n md \<Longrightarrow> GWEN_MDigest_GetDigestSize md = n"
  by (simp add: digest_ok_def GWEN_MDigest_GetDigestSize_def)

lemma digest_ok_length: "digest_ok absorbed H n md \<Longrightarrow> length (H bs) = n"
  by (simp add: digest_ok_def)

lemma digest_ok_state: "digest_ok absorbed H n md \<Longrightarrow> digest_ok absorbed H n (md\<lparr>md_state := s\<rparr>)"
  by (simp add: digest_ok_def)

lemma digest_begin:
  assumes "digest_ok absorbed H n md"
  obtains rv md' where "GWEN_MDigest_Begin md = (rv, md')" "0 \<le> rv" "digest_ok absorbed H n md'"
    "absorbed (md_state md') = []"
proof -
  from assms obtain b where b: "md_beginFn md = Some b" "\<forall>s. \<exists>rv s'. b s = (rv, s') \<and> 0 \<le> rv \<and> absorbed s' = []"
    by (auto simp: digest_ok_def)
  then obtain rv s' where "b (md_state md) = (rv, s')" "0 \<le> rv" "absorbed s' = []" by blast
  with b(1) assms show thesis
    by (intro that [of rv "md\<lparr>md_state := s'\<rparr>"]) (simp_all add: GWEN_MDigest_Begin_def digest_ok_state)
qed

lemma digest_update:
  assumes "digest_ok absorbed H n md"
  obtains rv md' where "GWEN_MDigest_Update md bs = (rv, md')" "0 \<le> rv" "digest_ok absorbed H n md'"
    "absorbed (md_state md') = absorbed (md_state md) @ bs"
proof -
  from assms obtain u where
    u: "md_updateFn md = Some u" "\<forall>s bs. \<exists>rv s'. u s bs = (rv, s') \<and> 0 \<le> rv \<and> absorbed s' = absorbed s @ bs"
    by (auto simp: digest_ok_def)
  then obtain rv s' where "u (md_state md) bs = (rv, s')" "0 \<le> rv" "absorbed s' = absorbed (md_state md) @ bs" by blast
  with u(1) assms show thesis
    by (intro that [of rv "md\<lparr>md_state := s'\<rparr>"]) (simp_all add: GWEN_MDigest_Update_def digest_ok_state)
qed

lemma digest_end:
  assumes "digest_ok absorbed H n md"
  obtains rv md' where "GWEN_MDigest_End md = (rv, md')" "0 \<le> rv" "digest_ok absorbed H n md'"
    "GWEN_MDigest_GetDigestPtr md' = H (absorbed (md_state md))"
proof -
  from assms obtain e where e: "md_endFn md = Some e" "\<forall>s. \<exists>rv s'. e s = (rv, H (absorbed s), s') \<and> 0 \<le> rv"
    by (auto simp: digest_ok_def)
  then obtain rv s' where "e (md_state md) = (rv, H (absorbed (md_state md)), s')" "0 \<le> rv" by blast
  with e(1) assms show thesis
    by (intro that [of rv "md\<lparr>md_pDigest := H (absorbed (md_state md)), md_state := s'\<rparr>"])
      (simp_all add: GWEN_MDigest_End_def GWEN_MDigest_GetDigestPtr_def digest_ok_def)
qed

lemma md_updates_ok:
  assumes "digest_ok absorbed H n md"
  shows "\<exists>rv md'. md_updates md bss = (rv, md') \<and> 0 \<le> rv \<and> digest_ok absorbed H n md'
     \<and> absorbed (md_state md') = absorbed (md_state md) @ concat bss"
  using assms
proof (induction bss arbitrary: md)
  case (Cons bs bss)
  obtain rv md1 where u: "GWEN_MDigest_Update md bs = (rv, md1)" "0 \<le> rv" "digest_ok absorbed H n md1"
    "absorbed (md_state md1) = absorbed (md_state md) @ bs"
    using digest_update [OF Cons.prems] by blast
  from Cons.IH [OF u(3)] u show ?case by auto
qed simp

lemma md_hash_ok:
  assumes "digest_ok absorbed H n md"
  obtains rv md' where "md_hash md bss = (rv, md')" "0 \<le> rv" "digest_ok absorbed H n md'"
    "GWEN_MDigest_GetDigestPtr md' = H (concat bss)"
proof -
  obtain r0 m0 where b: "GWEN_MDigest_Begin md = (r0, m0)" "0 \<le> r0" "digest_ok absorbed H n m0" "absorbed (md_state m0) = []"
    using digest_begin [OF assms] by blast
  from md_updates_ok [OF b(3), of bss] obtain r1 m1 where
    m1: "md_updates m0 bss = (r1, m1)" "0 \<le> r1" "digest_ok absorbed H n m1" "absorbed (md_state m1) = concat bss"
    using b(4) by auto
  obtain r2 m2 where "GWEN_MDigest_End m1 = (r2, m2)" "0 \<le> r2" "digest_ok absorbed H n m2"
    "GWEN_MDigest_GetDigestPtr m2 = H (absorbed (md_state m1))"
    using digest_end [OF m1(3)] by blast
  with b m1 show thesis by (intro that [of r2 m2]) (simp_all add: md_hash_def)
qed

section \<open>The mask\<close>

text \<open>The mask of the standard: hashes of the seed and a counter, cut to the length.\<close>

definition mgf1_mask :: "(byte list \<Rightarrow> byte list) \<Rightarrow> byte list \<Rightarrow> nat \<Rightarrow> nat \<Rightarrow> byte list" where
  "mgf1_mask H seed k len = take len (concat (map (\<lambda>i. H (seed @ mgf1_counter (of_nat i))) [k..<k + len]))"

lemma length_blocks: "(\<And>bs. length (H bs) = n) \<Longrightarrow> length (concat (map (\<lambda>i. H (f i)) [a..<b])) = n * (b - a)"
proof (induction b)
  case (Suc b)
  then show ?case by (cases "a \<le> b") (auto simp: algebra_simps Suc_diff_le)
qed simp

lemma length_mgf1_mask: "0 < n \<Longrightarrow> (\<And>bs. length (H bs) = n) \<Longrightarrow> length (mgf1_mask H seed k len) = len"
  using length_blocks [of H n _ k "k + len"] by (simp add: mgf1_mask_def)

lemma mgf1_mask_step:
  assumes n: "0 < n" "\<And>bs. length (H bs) = n" and len: "0 < len"
  shows "mgf1_mask H seed k len =
     take (min n len) (H (seed @ mgf1_counter (of_nat k))) @ mgf1_mask H seed (Suc k) (len - min n len)"
proof -
  let ?B = "\<lambda>a b. concat (map (\<lambda>i. H (seed @ mgf1_counter (of_nat i))) [a..<b])"
  have "[k..<k + len] = k # [Suc k..<k + len]" using len by (simp add: upt_rec)
  then have 1: "mgf1_mask H seed k len = take len (H (seed @ mgf1_counter (of_nat k))) @ take (len - n) (?B (Suc k) (k + len))"
    using n(2) by (simp add: mgf1_mask_def)
  have "[Suc k..<k + len] = [Suc k..<Suc k + (len - n)] @ [Suc k + (len - n)..<k + len]"
    using upt_add_eq_append [of "Suc k" "Suc k + (len - n)" "k + len - (Suc k + (len - n))"] n(1) len by simp
  moreover have "len - n \<le> length (?B (Suc k) (Suc k + (len - n)))"
    using length_blocks [of H n _ "Suc k" "Suc k + (len - n)"] n by simp
  ultimately have "take (len - n) (?B (Suc k) (k + len)) = mgf1_mask H seed (Suc k) (len - n)"
    by (simp add: mgf1_mask_def)
  moreover have "len - min n len = len - n" "take len (H bs) = take (min n len) (H bs)" for bs
    using n(2) by (auto simp: min_def)
  ultimately show ?thesis using 1 by simp
qed

lemma mgf1_loop_mask:
  assumes "digest_ok absorbed H n md" "0 < n"
  shows "\<exists>md'. GWEN_Padd_MGF1_loop md seed (of_nat k) len acc = Some (0, acc @ mgf1_mask H seed k len, md')
     \<and> digest_ok absorbed H n md'"
  using assms(1)
proof (induction len arbitrary: md k acc rule: less_induct)
  case (less len)
  show ?case
  proof (cases "len = 0")
    case True
    then show ?thesis using less.prems by (simp add: GWEN_Padd_MGF1_loop.simps mgf1_mask_def)
  next
    case False
    obtain rv md1 where h: "md_hash md [seed, mgf1_counter (of_nat k)] = (rv, md1)" "0 \<le> rv" "digest_ok absorbed H n md1"
      "GWEN_MDigest_GetDigestPtr md1 = H (seed @ mgf1_counter (of_nat k))"
      using md_hash_ok [OF less.prems, of "[seed, mgf1_counter (of_nat k)]"] by auto
    let ?l = "min n len"
    have "len - ?l < len" using False assms(2) by simp
    from less.IH [OF this h(3), of "Suc k" "acc @ take ?l (H (seed @ mgf1_counter (of_nat k)))"] obtain md' where
      "GWEN_Padd_MGF1_loop md1 seed (of_nat k + 1) (len - ?l) (acc @ take ?l (H (seed @ mgf1_counter (of_nat k))))
         = Some (0, acc @ mgf1_mask H seed k len, md')" "digest_ok absorbed H n md'"
      using mgf1_mask_step [of n H len seed k, OF assms(2) digest_ok_length [OF less.prems]] False by (auto simp: add.commute)
    then show ?thesis
      using False h digest_ok_size [OF h(3)] by (subst GWEN_Padd_MGF1_loop.simps) (simp add: Let_def)
  qed
qed

lemma mgf1_ok:
  assumes "digest_ok absorbed H n md" "0 < n"
  obtains md' where "GWEN_Padd_MGF1 md len seed = Some (0, mgf1_mask H seed 0 len, md')" "digest_ok absorbed H n md'"
  using mgf1_loop_mask [OF assms, of seed 0 len "[]"] by (auto simp: GWEN_Padd_MGF1_def)

end
