(* ===== verification/Gwen_PssProps.thy ===== *)
theory Gwen_PssProps
  imports Gwen_Pss
begin

text \<open>
  What the signature padding guarantees for a digest that computes a hash function: the mask is the one of
  the standard, the check accepts exactly the encodings of the given hash, and what is encoded is accepted.
\<close>

section \<open>Encodings\<close>

abbreviation pss_bits :: "u32 \<Rightarrow> nat" where
  "pss_bits nbits \<equiv> unat ((nbits - 1) AND 7)"

abbreviation pss_off :: "u32 \<Rightarrow> nat" where
  "pss_off nbits \<equiv> (if pss_bits nbits = 0 then 1 else 0)"

definition pss_clear :: "nat \<Rightarrow> byte list \<Rightarrow> byte list" where
  "pss_clear k d = (if k \<noteq> 0 then d[0 := d ! 0 AND drop_bit (8 - k) 0xff] else d)"

text \<open>The encoded message \<open>em\<close> of the hash \<open>M\<close> up to its last byte: the tail is the hash of \<open>M\<close> with a salt, and the
  part before is the padded salt under the mask of that hash.\<close>

definition pss_payload ::
  "(byte list \<Rightarrow> byte list) \<Rightarrow> nat \<Rightarrow> u32 \<Rightarrow> byte list \<Rightarrow> byte list \<Rightarrow> byte list \<Rightarrow> bool" where
  "pss_payload H n nbits M salt em \<longleftrightarrow>
    (let k = pss_bits nbits; off = pss_off nbits; x = pss_emLen nbits - off - n - 1; h = window (off + x) n em
     in (k \<noteq> 0 \<longrightarrow> em ! 0 AND push_bit k 0xff = 0)
        \<and> h = H (nullarray @ M @ salt)
        \<and> pss_clear k (xor_bytes (mgf1_mask H h 0 x) (window off x em)) = replicate (x - length salt - 1) 0 @ [1] @ salt)"

text \<open>The whole message of RFC 3447, 9.1: the last byte is \<open>0xbc\<close>.\<close>

abbreviation pss_last :: "u32 \<Rightarrow> nat" where
  "pss_last nbits \<equiv> pss_emLen nbits - 1"

definition pss_encodes ::
  "(byte list \<Rightarrow> byte list) \<Rightarrow> nat \<Rightarrow> u32 \<Rightarrow> byte list \<Rightarrow> byte list \<Rightarrow> byte list \<Rightarrow> bool" where
  "pss_encodes H n nbits M salt em \<longleftrightarrow> pss_payload H n nbits M salt em \<and> em ! pss_last nbits = 0xbc"

lemma pss_payload_last:
  assumes "n + 2 \<le> pss_emLen nbits - pss_off nbits" "pss_emLen nbits \<le> length em"
  shows "pss_payload H n nbits M salt (em[pss_last nbits := t]) = pss_payload H n nbits M salt em"
proof -
  let ?em = "em[pss_last nbits := t]" and ?x = "pss_emLen nbits - pss_off nbits - n - 1"
  have w: "window i j ?em = window i j em" if "i + j \<le> pss_last nbits" for i j
    by (rule window_eqI) (use that assms(2) in \<open>auto simp: nth_list_update\<close>)
  have sz: "pss_off nbits + ?x + n \<le> pss_last nbits" "pss_off nbits + ?x \<le> pss_last nbits" "pss_last nbits \<noteq> 0"
    using assms(1) by auto
  have "?em ! 0 = em ! 0" using sz(3) by simp
  with w [OF sz(1)] w [OF sz(2)] show ?thesis unfolding pss_payload_def Let_def by metis
qed

lemma pss_encodes_last:
  assumes "n + 2 \<le> pss_emLen nbits - pss_off nbits" "pss_emLen nbits \<le> length em"
  shows "pss_encodes H n nbits M salt (em[pss_last nbits := 0xbc]) = pss_payload H n nbits M salt em"
proof -
  have "pss_last nbits < length em" using assms by auto
  then show ?thesis by (simp add: pss_encodes_def pss_payload_last [OF assms] del: One_nat_def)
qed

lemma length_xor_bytes [simp]: "length (xor_bytes xs ys) = min (length xs) (length ys)"
  by (simp add: xor_bytes_def)

lemma length_pss_clear [simp]: "length (pss_clear k d) = length d"
  by (simp add: pss_clear_def)

lemma pss_scan:
  fixes d :: "byte list"
  assumes x: "length d = x" "0 < x"
    and i: "i = length (takeWhile (\<lambda>b. b = 0) (take (x - 1) d))"
  shows "(d ! i = 1 \<and> x - (i + 1) = l) \<longleftrightarrow> l < x \<and> d = replicate (x - l - 1) 0 @ [1] @ drop (i + 1) d"
    (is "?L \<longleftrightarrow> ?R")
    and "d = replicate z 0 @ [1] @ salt \<Longrightarrow> i = z"
proof -
  have ix: "i < x" using i x length_takeWhile_le [of "\<lambda>b. b = 0" "take (x - 1) d"] by (simp add: min_def split: if_splits)
  have "take i d = replicate i 0"
  proof (rule nth_equalityI)
    fix j assume "j < length (take i d)"
    then have j: "j < i" by simp
    then have "takeWhile (\<lambda>b. b = 0) (take (x - 1) d) ! j = take (x - 1) d ! j" using i by (simp add: takeWhile_nth)
    moreover have "takeWhile (\<lambda>b. b = 0) (take (x - 1) d) ! j \<in> set (takeWhile (\<lambda>b. b = 0) (take (x - 1) d))"
      using i j by (intro nth_mem) simp
    then have "takeWhile (\<lambda>b. b = 0) (take (x - 1) d) ! j = 0" by (auto dest: set_takeWhileD)
    ultimately show "take i d ! j = replicate i 0 ! j" using j ix by simp
  qed (use ix x in simp)
  then have d: "d = replicate i 0 @ d ! i # drop (Suc i) d" using id_take_nth_drop [of i d] ix x by simp
  show "?L \<longleftrightarrow> ?R"
  proof
    assume ?L
    then have "i = x - l - 1" "l < x" using ix by auto
    with \<open>?L\<close> d show ?R by (metis Suc_eq_plus1 append_Cons append_Nil)
  next
    assume R: ?R
    have "length d = length (replicate (x - l - 1) (0 :: byte) @ [1] @ drop (i + 1) d)" using R by (simp only:)
    then have z: "i = x - l - 1" using R ix x by simp
    have "d ! i = (replicate i 0 @ [1] @ drop (i + 1) d) ! i" using R z by (simp only:)
    also have "\<dots> = 1" by (simp add: nth_append)
    finally show ?L using z R by simp
  qed
  show "i = z" if e: "d = replicate z 0 @ [1] @ salt"
  proof (cases salt)
    case Nil
    then have "take (x - 1) d = replicate z 0" using e x by simp
    then show ?thesis using i by (simp add: takeWhile_replicate)
  next
    case (Cons b s)
    then have "take (x - 1) d = replicate z 0 @ 1 # take (length s) salt" using e x by auto
    then show ?thesis using i by (simp add: takeWhile_append takeWhile_replicate)
  qed
qed

section \<open>Checking\<close>

lemma pss_emLen_bound: "pss_emLen nbits < 2 ^ 30"
proof -
  have "unat nbits < 2 ^ 32" using unsigned_less [of nbits, where 'a = nat] by simp
  then show ?thesis by (auto simp: pss_emLen_def)
qed

lemma pss_verify_eval:
  assumes md: "digest_ok absorbed H n md" "0 < n"
    and fits: "n + unat lSalt + 2 \<le> pss_emLen nbits - pss_off nbits" "pss_emLen nbits - pss_off nbits \<le> unat lSrc"
      "pss_emLen nbits \<le> length em"
  shows "\<exists>rv md'. GWEN_Padd_VerifyPkcs1Pss em lSrc nbits M lSalt md = Some (Ret (rv, md'))
     \<and> (rv = 0 \<longleftrightarrow> (\<exists>salt. length salt = unat lSalt \<and> pss_payload H n nbits M salt em))"
proof -
  define k where "k = pss_bits nbits"
  define off :: nat where "off = (if k = 0 then 1 else 0)"
  define emLen where "emLen = pss_emLen nbits - off"
  define x where "x = emLen - n - 1"
  define h where "h = window (off + x) n em"
  note defs = k_def off_def emLen_def x_def h_def
  have lt: "emLen < 2 ^ 30" using pss_emLen_bound [of nbits] by (simp add: emLen_def)
  have e: "n + unat lSalt + 2 \<le> emLen" "emLen \<le> unat lSrc" "off + emLen \<le> length em" "em \<noteq> []"
    using fits by (auto simp: emLen_def off_def k_def)
  have "unat (of_nat n + lSalt + 2 :: u32) = n + unat lSalt + 2"
    using e(1) lt by (simp add: unat_word_ariths unat_of_nat)
  then have sum: "\<not> (of_nat emLen :: u32) < of_nat n + lSalt + 2"
    using e(1) lt by (simp add: word_less_nat_alt unat_of_nat)
  obtain md1 where m: "GWEN_Padd_MGF1 md x h = Some (0, mgf1_mask H h 0 x, md1)" "digest_ok absorbed H n md1"
    using mgf1_ok [OF md] by blast
  define d where "d = pss_clear k (xor_bytes (mgf1_mask H h 0 x) (window off x em))"
  have x0: "0 < x" "length d = x"
    using e length_mgf1_mask [of n H h 0 x, OF md(2) digest_ok_length [OF md(1)]] by (auto simp: d_def x_def)
  define i where "i = length (takeWhile (\<lambda>b. b = 0) (take (x - 1) d))"
  note scan = pss_scan [OF x0(2,1) i_def]
  let ?top = "k \<noteq> 0 \<and> em ! 0 AND push_bit k 0xff \<noteq> 0"
  let ?hash = "H (nullarray @ M @ drop (i + 1) d)"
  obtain rv2 md2 where hash: "md_hash md1 ([nullarray] @ (if M \<noteq> [] then [M] else []) @ [drop (i + 1) d]) = (rv2, md2)" "0 \<le> rv2"
      "GWEN_MDigest_GetDigestPtr md2 = ?hash"
    by (rule md_hash_ok [OF m(2), of "[nullarray] @ (if M \<noteq> [] then [M] else []) @ [drop (i + 1) d]"]) (auto split: if_splits)
  have eval: "GWEN_Padd_VerifyPkcs1Pss em lSrc nbits M lSalt md = Some (Ret
      (if ?top then (GWEN_ERROR_BAD_DATA, md) else if d ! i \<noteq> 1 \<or> x - (i + 1) \<noteq> unat lSalt then (GWEN_ERROR_BAD_DATA, md1)
       else if h \<noteq> ?hash then (GWEN_ERROR_VERIFY, md2) else (0, md2)))"
    using e(2-4) sum e(1) hash(2)
    by (simp only: GWEN_Padd_VerifyPkcs1Pss_def Let_def digest_ok_size [OF md(1)] defs [symmetric] m(1)
        option.case prod.case pss_clear_def [symmetric] d_def [symmetric] i_def [symmetric] hash(1,3)) auto
  have enc: "pss_payload H n nbits M salt em \<longleftrightarrow> \<not> ?top \<and> h = H (nullarray @ M @ salt)
      \<and> d = replicate (x - length salt - 1) 0 @ [1] @ salt" for salt
    by (simp add: pss_payload_def Let_def d_def defs)
  have drop: "drop (i + 1) d = salt" if "d = replicate z 0 @ [1] @ salt" for salt z
    using scan(2) [OF that] that by simp
  have lx: "unat lSalt < x" using e(1) by (simp add: x_def)
  have ok: "d ! i = 1 \<and> x - (i + 1) = unat lSalt \<longleftrightarrow>
      (\<exists>salt. length salt = unat lSalt \<and> d = replicate (x - length salt - 1) 0 @ [1] @ salt)" (is "?L \<longleftrightarrow> ?R")
  proof
    assume ?L
    then show ?R using scan(1) [of "unat lSalt"] x0(2) by (intro exI [of _ "drop (i + 1) d"]) auto
  next
    assume ?R
    then obtain salt where r: "length salt = unat lSalt" "d = replicate (x - length salt - 1) 0 @ [1] @ salt" by blast
    from drop [OF r(2)] r have "d = replicate (x - unat lSalt - 1) 0 @ [1] @ drop (i + 1) d" by (simp only:)
    with scan(1) [of "unat lSalt"] lx show ?L by blast
  qed
  show ?thesis
  proof (cases "d ! i = 1 \<and> x - (i + 1) = unat lSalt")
    case True
    then obtain salt where r: "length salt = unat lSalt" "d = replicate (x - length salt - 1) 0 @ [1] @ salt"
      using ok by blast
    have salt: "salt' = salt" if "d = replicate z 0 @ [1] @ salt'" for z salt'
      using drop [OF that] drop [OF r(2)] by simp
    have "(length s = unat lSalt \<and> pss_payload H n nbits M s em) \<longleftrightarrow> s = salt \<and> \<not> ?top \<and> h = ?hash" for s
      using enc [of s] salt r drop [OF r(2)] by metis
    then have "(\<exists>s. length s = unat lSalt \<and> pss_payload H n nbits M s em) \<longleftrightarrow> \<not> ?top \<and> h = ?hash" by simp
    then show ?thesis using True by (simp add: eval gwen_errors)
  next
    case False
    then have "\<not> (\<exists>salt. length salt = unat lSalt \<and> pss_payload H n nbits M salt em)" using ok enc by blast
    with False show ?thesis by (auto simp: eval gwen_errors)
  qed
qed

section \<open>Encoding\<close>

lemma xor_bytes_cancel: "length ys \<le> length xs \<Longrightarrow> xor_bytes xs (xor_bytes ys xs) = ys"
  by (auto intro!: nth_equalityI bit_word_eqI simp: xor_bytes_def bit_simps)

lemma bit_top_mask:
  assumes "k \<le> 8"
  shows "bit (drop_bit (8 - k) (0xff :: byte)) j \<longleftrightarrow> j < k"
proof -
  have m1: "(0xff :: byte) = - 1" by simp
  show ?thesis unfolding m1 using assms by (auto simp: bit_simps)
qed

lemma pss_clear_xor:
  fixes a b :: byte
  assumes "0 < k" "k < 8"
  shows "b = 0 \<or> b = 1 \<Longrightarrow> (a XOR ((b XOR a) AND drop_bit (8 - k) 0xff)) AND drop_bit (8 - k) 0xff = b"
    and "(b AND drop_bit (8 - k) 0xff) AND push_bit k 0xff = 0"
  using assms by (auto intro!: bit_word_eqI simp: bit_and_iff bit_xor_iff bit_push_bit_iff bit_1_iff bit_top_mask)

lemma pss_clear_cancel:
  assumes "k < 8" "length p = length m" "p \<noteq> []" "p ! 0 = 0 \<or> p ! 0 = 1"
  shows "pss_clear k (xor_bytes m (pss_clear k (xor_bytes p m))) = p"
proof (cases "k = 0")
  case True
  then show ?thesis using xor_bytes_cancel [of p m] assms(2) by (simp add: pss_clear_def)
next
  case False
  show ?thesis
  proof (rule nth_equalityI)
    fix j assume "j < length (pss_clear k (xor_bytes m (pss_clear k (xor_bytes p m))))"
    then have j: "j < length p" "j < length m" "0 < length p" "0 < length m" using assms by auto
    show "pss_clear k (xor_bytes m (pss_clear k (xor_bytes p m))) ! j = p ! j"
    proof (cases "j = 0")
      case True
      then show ?thesis using j False pss_clear_xor(1) [OF _ assms(1,4), of "m ! 0"] by (simp add: pss_clear_def xor_bytes_def)
    next
      case ne: False
      then have "pss_clear k (xor_bytes m (pss_clear k (xor_bytes p m))) ! j = m ! j XOR (p ! j XOR m ! j)"
        using j by (simp add: pss_clear_def xor_bytes_def)
      then show ?thesis using xor_bytes_cancel [of "[p ! j]" "[m ! j]"] by (simp add: xor_bytes_def)
    qed
  qed (use assms in simp)
qed

lemma pss_bits_less: "pss_bits nbits < 8"
proof -
  have "(nbits - 1) AND 7 \<le> 7" by (rule word_and_le1)
  then show ?thesis by (simp add: word_le_nat_alt)
qed

text \<open>The bytes the encoder leaves in the destination.\<close>

lemma pss_layout:
  assumes "length d = x" "0 < x" "off + x + length h < length dst" "off = (if k = 0 then 1 else 0)"
    and em: "em = (let e = write_at off (d @ h @ [t]) dst in if k \<noteq> 0 then e[off := e ! off AND drop_bit (8 - k) 0xff] else e)"
  shows "window off x em = pss_clear k d" "window (off + x) (length h) em = h" "length em = length dst"
    "k \<noteq> 0 \<Longrightarrow> em ! 0 = d ! 0 AND drop_bit (8 - k) 0xff" "em ! (off + x + length h) = t"
proof -
  let ?e = "write_at off (d @ h @ [t]) dst"
  have len: "length ?e = length dst" using assms(1-3) by simp
  show "length em = length dst" using len by (simp add: em Let_def)
  have "window off (x + length h) ?e = d @ h"
    using assms(1-3) by (simp add: window_def write_at_def)
  then have w: "window off x ?e = d" "window (off + x) (length h) ?e = h"
    using assms(1) by (simp_all add: window_append append_eq_append_conv len) (use assms len in \<open>simp_all add: append_eq_append_conv\<close>)
  have off: "off < length ?e" using len assms(3) by linarith
  have e0: "?e ! off = d ! 0" using assms(1-3) by (simp add: nth_write_at nth_append)
  show "window (off + x) (length h) em = h"
    using w(2) assms(2) by (simp add: em Let_def window_def)
  show "window off x em = pss_clear k d"
    using w(1) e0 assms(1,2) by (auto simp: em Let_def window_def pss_clear_def drop_update_swap take_update_swap)
  show "k \<noteq> 0 \<Longrightarrow> em ! 0 = d ! 0 AND drop_bit (8 - k) 0xff"
    using e0 assms(4) off by (simp add: em Let_def)
  have "?e ! (off + x + length h) = t" using assms(1-3) by (simp add: nth_write_at nth_append)
  then show "em ! (off + x + length h) = t" using assms(2) by (simp add: em Let_def)
qed

lemma pss_add_eval:
  assumes md: "digest_ok absorbed H n md" "0 < n" "n \<le> 64"
    and rnd: "length (rnd (unat lSalt)) = unat lSalt"
    and fits: "n + unat lSalt + 2 \<le> pss_emLen nbits - pss_off nbits" "pss_emLen nbits \<le> length dst"
  shows "\<exists>em md'. GWEN_Padd_AddPkcs1Pss rnd dst nbits M lSalt md = Some (Ret (int (pss_emLen nbits - pss_off nbits), em, md'))
     \<and> length em = length dst \<and> pss_encodes H n nbits M (rnd (unat lSalt)) em \<and> digest_ok absorbed H n md'"
proof -
  define k where "k = pss_bits nbits"
  define off :: nat where "off = (if k = 0 then 1 else 0)"
  define emLen where "emLen = pss_emLen nbits - off"
  define x where "x = emLen - n - 1"
  define salt where "salt = rnd (unat lSalt)"
  define dst0 where "dst0 = (if k = 0 then dst[0 := 0] else dst)"
  define h where "h = H (nullarray @ M @ salt)"
  note defs = k_def off_def emLen_def salt_def dst0_def
  obtain rv md1 where h: "md_hash md [nullarray, M, salt] = (rv, md1)" "0 \<le> rv" "digest_ok absorbed H n md1"
    "GWEN_MDigest_GetDigestPtr md1 = h"
    by (rule md_hash_ok [OF md(1), of "[nullarray, M, salt]"]) (simp add: h_def)
  obtain md2 where m: "GWEN_Padd_MGF1 md1 x h = Some (0, mgf1_mask H h 0 x, md2)" "digest_ok absorbed H n md2"
    using mgf1_ok [OF h(3) md(2)] by blast
  define p where "p = replicate (emLen - n - unat lSalt - 2) 0 @ [0x01 :: byte] @ salt"
  define d where "d = xor_bytes p (mgf1_mask H h 0 x)"
  define em where "em = (let e = write_at off (d @ h @ [0xbc]) dst0 in if k \<noteq> 0 then e[off := e ! off AND drop_bit (8 - k) 0xff] else e)"
  have e: "n + unat lSalt + 2 \<le> emLen" "off + emLen \<le> length dst0" "dst \<noteq> []" "length dst0 = length dst"
    using fits by (auto simp: emLen_def off_def k_def dst0_def)
  have eval: "GWEN_Padd_AddPkcs1Pss rnd dst nbits M lSalt md = Some (Ret (int emLen, em, md2))"
    using e h(2) md(3)
    by (simp only: GWEN_Padd_AddPkcs1Pss_def Let_def defs [symmetric] h(1,4) prod.case digest_ok_size [OF h(3)]
        x_def [symmetric] m(1) option.case p_def [symmetric] d_def [symmetric] em_def) auto
  have mask: "length (mgf1_mask H h 0 x) = x"
    by (rule length_mgf1_mask [of n H]) (use md digest_ok_length in auto)
  have p: "length p = x" "0 < x" "p ! 0 = 0 \<or> p ! 0 = 1"
    using e(1) rnd by (auto simp: p_def x_def salt_def nth_append)
  have hn: "length h = n" using digest_ok_length [OF md(1)] by (simp add: h_def)
  have d: "length d = x" using p mask by (simp add: d_def)
  have "off + x + length h < length dst0" using e hn by (simp add: x_def)
  note lay = pss_layout [OF d p(2) this off_def em_def]
  have "pss_clear k (xor_bytes (mgf1_mask H h 0 x) (pss_clear k d)) = p"
    unfolding d_def by (rule pss_clear_cancel) (use pss_bits_less [of nbits] p mask in \<open>auto simp: k_def\<close>)
  moreover have "p = replicate (x - length salt - 1) 0 @ [1] @ salt"
    using rnd by (simp add: p_def x_def salt_def diff_right_commute add.commute)
  moreover have "k \<noteq> 0 \<Longrightarrow> em ! 0 AND push_bit k 0xff = 0"
    using lay(4) pss_clear_xor(2) [of k "d ! 0"] pss_bits_less [of nbits] by (simp add: k_def)
  ultimately have "pss_payload H n nbits M salt em"
    by (simp only: pss_payload_def Let_def defs [symmetric] x_def [symmetric] h_def [symmetric] lay(1) lay(2) [unfolded hn]) blast
  moreover have "em ! pss_last nbits = 0xbc"
  proof -
    have "pss_last nbits = off + x + n" using e(1) by (auto simp: x_def emLen_def)
    then show ?thesis using lay(5) hn by simp
  qed
  ultimately show ?thesis using eval lay(3) e(4) m(2) by (auto simp: defs pss_encodes_def)
qed

section \<open>The properties\<close>

text \<open>A digest that adds the bytes up, for the examples.\<close>

definition sum_digest :: "byte list gwen_mdigest" where
  "sum_digest = \<lparr>md_pDigest = [0], md_beginFn = Some (\<lambda>s. (0, [])), md_endFn = Some (\<lambda>s. (0, [sum_list s], s)),
     md_updateFn = Some (\<lambda>s bs. (0, s @ bs)), md_state = []\<rparr>"

lemma sum_digest_ok: "digest_ok id (\<lambda>bs. [sum_list bs]) 1 sum_digest"
  by (simp add: digest_ok_def sum_digest_def)

lemma pss_sizes_64: "pss_emLen 64 = 8" "pss_bits 64 = 7"
  by (simp_all add: pss_emLen_def)

text \<open>C35. With a digest of at least one byte the mask generation ends without an error, whatever the length asked
  for, and its output is the mask of RFC 3447, B.2.1: the hashes of the seed followed by a four byte counter,
  one after the other, cut to that length.\<close>

theorem mgf1_computes_mask:
  assumes "digest_ok absorbed H n md" "0 < n"
  shows "\<exists>md'. GWEN_Padd_MGF1 md len seed =
     Some (0, take len (concat (map (\<lambda>i. H (seed @ mgf1_counter (of_nat i))) [0..<len])), md')"
  using mgf1_ok [OF assms, of len seed] by (auto simp: mgf1_mask_def)

theorem mgf1_computes_mask_witness:
  "\<exists>md'. GWEN_Padd_MGF1 sum_digest 3 [5] =
     Some (0, take 3 (concat (map (\<lambda>i. [sum_list ([5] @ mgf1_counter (of_nat i))]) [0..<3])), md')"
  using mgf1_computes_mask [OF sum_digest_ok, of 3 "[5]"] by simp

text \<open>C36. For a message of the size the key asks for, the check of a signature returns. A message that ends in \<open>0xbc\<close>
  is accepted exactly if it is the encoding of the given hash by RFC 3447, 9.1, with some salt of the expected length. The last
  byte itself is not looked at: any message is accepted exactly if it is such an encoding once \<open>0xbc\<close> is put in its place.\<close>

theorem pss_verify_correct:
  assumes "digest_ok absorbed H n md" "0 < n"
    and "n + unat lSalt + 2 \<le> pss_emLen nbits - pss_off nbits"
    and "pss_emLen nbits - pss_off nbits \<le> unat lSrc" "pss_emLen nbits \<le> length em"
  shows "\<exists>rv md'. GWEN_Padd_VerifyPkcs1Pss em lSrc nbits M lSalt md = Some (Ret (rv, md'))
     \<and> (em ! pss_last nbits = 0xbc \<longrightarrow>
          (rv = 0 \<longleftrightarrow> (\<exists>salt. length salt = unat lSalt \<and> pss_encodes H n nbits M salt em)))
     \<and> (rv = 0 \<longleftrightarrow> (\<exists>salt. length salt = unat lSalt \<and> pss_encodes H n nbits M salt (em[pss_last nbits := 0xbc])))"
proof -
  have "n + 2 \<le> pss_emLen nbits - pss_off nbits" using assms(3) by simp
  from pss_verify_eval [OF assms] pss_encodes_last [OF this assms(5)] show ?thesis
    unfolding pss_encodes_def by metis
qed

theorem pss_verify_correct_witness:
  "\<exists>rv md'. GWEN_Padd_VerifyPkcs1Pss [0, 1, 2, 3, 4, 5, 6, 0xbc] 8 64 [9] 2 sum_digest = Some (Ret (rv, md'))
     \<and> (rv = 0 \<longleftrightarrow> (\<exists>salt. length salt = 2 \<and> pss_encodes (\<lambda>bs. [sum_list bs]) 1 64 [9] salt [0, 1, 2, 3, 4, 5, 6, 0xbc]))"
  using pss_verify_correct [OF sum_digest_ok, of 2 64 8 "[0, 1, 2, 3, 4, 5, 6, 0xbc]" "[9]"]
  by (simp add: pss_sizes_64)

text \<open>C37. What the encoder writes for a hash is accepted for that hash, with the same digest object afterwards or any
  other that computes the same function.\<close>

theorem pss_roundtrip:
  assumes "digest_ok absorbed H n md" "0 < n" "n \<le> 64" and "length (rnd (unat lSalt)) = unat lSalt"
    and "n + unat lSalt + 2 \<le> pss_emLen nbits - pss_off nbits" "pss_emLen nbits \<le> length dst"
    and "pss_emLen nbits - pss_off nbits \<le> unat lSrc"
  shows "\<exists>em md1 md2. GWEN_Padd_AddPkcs1Pss rnd dst nbits M lSalt md
       = Some (Ret (int (pss_emLen nbits - pss_off nbits), em, md1))
     \<and> GWEN_Padd_VerifyPkcs1Pss em lSrc nbits M lSalt md1 = Some (Ret (0, md2))"
proof -
  obtain em md1 where add: "GWEN_Padd_AddPkcs1Pss rnd dst nbits M lSalt md
      = Some (Ret (int (pss_emLen nbits - pss_off nbits), em, md1))"
    "length em = length dst" "pss_encodes H n nbits M (rnd (unat lSalt)) em" "digest_ok absorbed H n md1"
    using pss_add_eval [where rnd = rnd and lSalt = lSalt, OF assms(1-6)] by blast
  from pss_verify_eval [OF add(4) assms(2,5,7), of em M] add assms(4,6) show ?thesis unfolding pss_encodes_def by metis
qed

theorem pss_roundtrip_witness:
  "\<exists>em md1 md2. GWEN_Padd_AddPkcs1Pss (\<lambda>k. replicate k 7) (replicate 8 0) 64 [9] 2 sum_digest = Some (Ret (8, em, md1))
     \<and> GWEN_Padd_VerifyPkcs1Pss em 8 64 [9] 2 md1 = Some (Ret (0, md2))"
  using pss_roundtrip [OF sum_digest_ok, of "\<lambda>k. replicate k 7" 2 64 "replicate 8 0" 8 "[9]"] by (simp add: pss_sizes_64)

text \<open>The trailing byte of the message is not looked at: RFC 3447, 9.1.2 step 4 demands the value \<open>0xbc\<close>.\<close>

lemma pss_trailer_ignored:
  assumes "digest_ok absorbed H n md" "0 < n" "n \<le> 64" and "length (rnd (unat lSalt)) = unat lSalt"
    and "n + unat lSalt + 2 \<le> pss_emLen nbits - pss_off nbits" "pss_emLen nbits = length dst"
    and "pss_emLen nbits - pss_off nbits \<le> unat lSrc"
  shows "\<exists>em md1 md2. GWEN_Padd_AddPkcs1Pss rnd dst nbits M lSalt md
       = Some (Ret (int (pss_emLen nbits - pss_off nbits), em, md1))
     \<and> GWEN_Padd_VerifyPkcs1Pss (em[length em - 1 := t]) lSrc nbits M lSalt md1 = Some (Ret (0, md2))"
proof -
  obtain em md1 where add: "GWEN_Padd_AddPkcs1Pss rnd dst nbits M lSalt md
      = Some (Ret (int (pss_emLen nbits - pss_off nbits), em, md1))"
    "length em = length dst" "pss_encodes H n nbits M (rnd (unat lSalt)) em" "digest_ok absorbed H n md1"
    using pss_add_eval [where rnd = rnd and lSalt = lSalt, OF assms(1-5) eq_refl [OF assms(6)]] by blast
  let ?em = "em[length em - 1 := t]"
  have "n + 2 \<le> pss_emLen nbits - pss_off nbits" "pss_emLen nbits \<le> length em" using assms(5,6) add(2) by simp_all
  from pss_payload_last [OF this, of H M "rnd (unat lSalt)" t] have "pss_payload H n nbits M (rnd (unat lSalt)) ?em"
    using add(2,3) assms(6) by (simp add: pss_encodes_def)
  moreover have "pss_emLen nbits \<le> length ?em" using add(2) assms(6) by simp
  ultimately show ?thesis using pss_verify_eval [OF add(4) assms(2,5,7), of ?em M] add(1) assms(4) by metis
qed

end
