(* ===== verification/Gwen_Text.thy ===== *)
theory Gwen_Text
  imports Gwen_PaddProps
begin

text \<open>
  Escaping and hexadecimal text of \<^verbatim>\<open>src/parser/text.c\<close>. A source string is the memory it is read from: a list of
  bytes with a NUL in it; a read behind the list is a \<open>Fault\<close>. Classification of characters is that of the
  C locale.
\<close>

section \<open>Characters\<close>

definition isspace :: "byte \<Rightarrow> bool" where
  "isspace c \<longleftrightarrow> c = 32 \<or> 9 \<le> c \<and> c \<le> 13"

definition isxdigit :: "byte \<Rightarrow> bool" where
  "isxdigit c \<longleftrightarrow> 48 \<le> c \<and> c \<le> 57 \<or> 65 \<le> c \<and> c \<le> 70 \<or> 97 \<le> c \<and> c \<le> 102"

definition text_alnum :: "byte \<Rightarrow> bool" where
  "text_alnum x \<longleftrightarrow> 65 \<le> x \<and> x \<le> 90 \<or> 97 \<le> x \<and> x \<le> 122 \<or> 48 \<le> x \<and> x \<le> 57"

text \<open>The tolerant forms also leave a few other characters alone, the one writing to a buffer two more.\<close>

definition text_tolerant :: "byte \<Rightarrow> bool" where
  "text_tolerant x \<longleftrightarrow> text_alnum x \<or> x \<in> {32, 46, 44, 42, 63}"

definition text_tolerant_buf :: "byte \<Rightarrow> bool" where
  "text_tolerant_buf x \<longleftrightarrow> text_alnum x \<or> x \<in> {32, 46, 44, 95, 45, 42, 63}"

definition hex_digit :: "byte \<Rightarrow> byte" where
  "hex_digit c = (if c > 9 then c + 7 else c) + 48"

definition hex_pair :: "byte \<Rightarrow> byte list" where
  "hex_pair x = [hex_digit (drop_bit 4 x AND 0xf), hex_digit (x AND 0xf)]"

definition hex_val :: "byte \<Rightarrow> byte" where
  "hex_val c = (let d = toupper c - 48 in if d > 9 then d - 7 else d)"

definition hex_byte :: "byte \<Rightarrow> byte \<Rightarrow> byte" where
  "hex_byte a b = (push_bit 4 (hex_val a) AND 0xf0) + (hex_val b AND 0xf)"

section \<open>Escaping into a block of memory\<close>

definition text_put :: "byte list \<Rightarrow> u32 \<Rightarrow> byte list \<Rightarrow> byte list outcome" where
  "text_put buffer sz bs = (if unat sz + length bs \<le> length buffer then Ret (write_at (unat sz) bs buffer) else Fault)"

text \<open>The result is whether the buffer is returned (\<open>False\<close> is a null pointer), and the buffer. \<open>safe\<close> are the
  characters that stay as they are.\<close>

fun text_escape_loop :: "(byte \<Rightarrow> bool) \<Rightarrow> u32 \<Rightarrow> byte list \<Rightarrow> u32 \<Rightarrow> byte list \<Rightarrow> (bool \<times> byte list) outcome" where
  "text_escape_loop safe maxsize [] sz buffer = Fault"
| "text_escape_loop safe maxsize (x # src) sz buffer =
    (if x = 0 then obind (text_put buffer sz [0]) (\<lambda>buffer. Ret (True, buffer))
     else if \<not> safe x then
       (if maxsize - 1 < sz + 3 then Ret (False, buffer)
        else obind (text_put buffer sz (37 # hex_pair x)) (text_escape_loop safe maxsize src (sz + 3)))
     else if sz < maxsize - 1 then obind (text_put buffer sz [x]) (text_escape_loop safe maxsize src (sz + 1))
     else Ret (False, buffer))"

definition GWEN_Text_Escape :: "byte list \<Rightarrow> byte list \<Rightarrow> u32 \<Rightarrow> (bool \<times> byte list) outcome" where
  "GWEN_Text_Escape src buffer maxsize = text_escape_loop text_alnum maxsize src 0 buffer"

definition GWEN_Text_EscapeTolerant :: "byte list \<Rightarrow> byte list \<Rightarrow> u32 \<Rightarrow> (bool \<times> byte list) outcome" where
  "GWEN_Text_EscapeTolerant src buffer maxsize = text_escape_loop text_tolerant maxsize src 0 buffer"

fun text_unescape_loop ::
  "(byte \<Rightarrow> bool) \<Rightarrow> u32 \<Rightarrow> byte list \<Rightarrow> u32 \<Rightarrow> u32 \<Rightarrow> byte list \<Rightarrow> (bool \<times> byte list) outcome" where
  "text_unescape_loop safe maxsize [] srclen sz buffer = Fault"
| "text_unescape_loop safe maxsize (x # src) srclen sz buffer =
    (if x = 0 \<or> srclen = 0 then obind (text_put buffer sz [0]) (\<lambda>buffer. Ret (True, buffer))
     else if safe x then
       (if sz < maxsize - 1 then
          obind (text_put buffer sz [x]) (text_unescape_loop safe maxsize src (srclen - 1) (sz + 1))
        else Ret (False, buffer))
     else if x = 37 then
       (if srclen < 3 then Ret (False, buffer)
        else case src of
          [] \<Rightarrow> Fault
        | d1 # src1 \<Rightarrow>
            if d1 = 0 \<or> \<not> isxdigit d1 then Ret (False, buffer)
            else (case src1 of
              [] \<Rightarrow> Fault
            | d2 # src2 \<Rightarrow>
                if d2 = 0 \<or> \<not> isxdigit d2 then Ret (False, buffer)
                else if sz < maxsize - 1 then
                  obind (text_put buffer sz [hex_byte d1 d2])
                    (text_unescape_loop safe maxsize src2 (srclen - 2 - 1) (sz + 1))
                else Ret (False, buffer)))
     else Ret (False, buffer))"

definition GWEN_Text_UnescapeN :: "byte list \<Rightarrow> u32 \<Rightarrow> byte list \<Rightarrow> u32 \<Rightarrow> (bool \<times> byte list) outcome" where
  "GWEN_Text_UnescapeN src srclen buffer maxsize = text_unescape_loop text_alnum maxsize src srclen 0 buffer"

definition GWEN_Text_Unescape :: "byte list \<Rightarrow> byte list \<Rightarrow> u32 \<Rightarrow> (bool \<times> byte list) outcome" where
  "GWEN_Text_Unescape src buffer maxsize =
     (if strlen src = length src then Fault else GWEN_Text_UnescapeN src (of_nat (strlen src)) buffer maxsize)"

definition GWEN_Text_UnescapeTolerantN :: "byte list \<Rightarrow> u32 \<Rightarrow> byte list \<Rightarrow> u32 \<Rightarrow> (bool \<times> byte list) outcome" where
  "GWEN_Text_UnescapeTolerantN src srclen buffer maxsize = text_unescape_loop text_tolerant maxsize src srclen 0 buffer"

definition GWEN_Text_UnescapeTolerant :: "byte list \<Rightarrow> byte list \<Rightarrow> u32 \<Rightarrow> (bool \<times> byte list) outcome" where
  "GWEN_Text_UnescapeTolerant src buffer maxsize =
     (if strlen src = length src then Fault else GWEN_Text_UnescapeTolerantN src (of_nat (strlen src)) buffer maxsize)"

section \<open>Escaping into a buffer\<close>

fun text_escape_to :: "(byte \<Rightarrow> bool) \<Rightarrow> byte list \<Rightarrow> gwen_buffer \<Rightarrow> (int \<times> gwen_buffer) outcome" where
  "text_escape_to safe [] buf = Fault"
| "text_escape_to safe (x # src) buf =
    (if x = 0 then Ret (0, buf)
     else obind (appends GWEN_Buffer_AppendByte buf (if safe x then [x] else 37 # hex_pair x)) (text_escape_to safe src))"

definition GWEN_Text_EscapeToBuffer :: "byte list \<Rightarrow> gwen_buffer \<Rightarrow> (int \<times> gwen_buffer) outcome" where
  "GWEN_Text_EscapeToBuffer src buf = text_escape_to text_alnum src buf"

definition GWEN_Text_EscapeToBufferTolerant :: "byte list \<Rightarrow> gwen_buffer \<Rightarrow> (int \<times> gwen_buffer) outcome" where
  "GWEN_Text_EscapeToBufferTolerant src buf = text_escape_to text_tolerant_buf src buf"

text \<open>An incomplete escape sequence ends the conversion without an error.\<close>

fun GWEN_Text_UnescapeToBuffer :: "byte list \<Rightarrow> gwen_buffer \<Rightarrow> (int \<times> gwen_buffer) outcome" where
  "GWEN_Text_UnescapeToBuffer [] buf = Fault"
| "GWEN_Text_UnescapeToBuffer (x # src) buf =
    (if x = 0 then Ret (0, buf)
     else if text_alnum x then
       obind (GWEN_Buffer_AppendByte buf x) (\<lambda>(_, buf). GWEN_Text_UnescapeToBuffer src buf)
     else if x = 37 then
       (case src of
          [] \<Rightarrow> Fault
        | d1 # src1 \<Rightarrow>
            if d1 = 0 \<or> \<not> isxdigit d1 then Ret (0, buf)
            else (case src1 of
              [] \<Rightarrow> Fault
            | d2 # src2 \<Rightarrow>
                if d2 = 0 \<or> \<not> isxdigit d2 then Ret (0, buf)
                else obind (GWEN_Buffer_AppendByte buf (hex_byte d1 d2))
                       (\<lambda>(_, buf). GWEN_Text_UnescapeToBuffer src2 buf)))
     else Ret (-1, buf))"

fun GWEN_Text_UnescapeToBufferTolerant :: "byte list \<Rightarrow> gwen_buffer \<Rightarrow> (int \<times> gwen_buffer) outcome" where
  "GWEN_Text_UnescapeToBufferTolerant [] buf = Fault"
| "GWEN_Text_UnescapeToBufferTolerant (x # src) buf =
    (if x = 0 then Ret (0, buf)
     else case src of
       d1 # d2 # src2 \<Rightarrow>
         if x = 37 \<and> isxdigit d1 \<and> isxdigit d2 then
           obind (GWEN_Buffer_AppendByte buf (hex_byte d1 d2))
             (\<lambda>(_, buf). GWEN_Text_UnescapeToBufferTolerant src2 buf)
         else obind (GWEN_Buffer_AppendByte buf x) (\<lambda>(_, buf). GWEN_Text_UnescapeToBufferTolerant src buf)
     | _ \<Rightarrow> obind (GWEN_Buffer_AppendByte buf x) (\<lambda>(_, buf). GWEN_Text_UnescapeToBufferTolerant src buf))"

section \<open>Hexadecimal text and BCD\<close>

definition GWEN_Text_ToHex :: "byte list \<Rightarrow> u32 \<Rightarrow> byte list \<Rightarrow> u32 \<Rightarrow> (bool \<times> byte list) outcome" where
  "GWEN_Text_ToHex src l buffer maxsize =
    (if l * 2 + 1 > maxsize then Ret (False, buffer)
     else obind (region src l) (\<lambda>bs.
       if 2 * length bs + 1 \<le> length buffer then Ret (True, write_at 0 (concat (map hex_pair bs) @ [0]) buffer)
       else Fault))"

fun text_from_hex :: "u32 \<Rightarrow> byte list \<Rightarrow> u32 \<Rightarrow> byte list \<Rightarrow> (int \<times> byte list) outcome" where
  "text_from_hex maxsize [] sz buffer = Fault"
| "text_from_hex maxsize (c # src) sz buffer =
    (if c = 0 then Ret (sint sz, buffer)
     else if \<not> isxdigit c then Ret (-1, buffer)
     else case src of
       [] \<Rightarrow> Fault
     | d # src' \<Rightarrow>
         if d = 0 \<or> \<not> isxdigit d then Ret (-1, buffer)
         else if sz < maxsize then obind (text_put buffer sz [hex_byte c d]) (text_from_hex maxsize src' (sz + 1))
         else Ret (-1, buffer))"

definition GWEN_Text_FromHex :: "byte list \<Rightarrow> byte list \<Rightarrow> u32 \<Rightarrow> (int \<times> byte list) outcome" where
  "GWEN_Text_FromHex src buffer maxsize = text_from_hex maxsize src 0 buffer"

fun GWEN_Text_FromHexBuffer :: "byte list \<Rightarrow> gwen_buffer \<Rightarrow> (int \<times> gwen_buffer) outcome" where
  "GWEN_Text_FromHexBuffer [] buf = Fault"
| "GWEN_Text_FromHexBuffer (c # src) buf =
    (if c = 0 then Ret (0, buf)
     else if isspace c then GWEN_Text_FromHexBuffer src buf
     else if \<not> isxdigit c then Ret (-1, buf)
     else case src of
       [] \<Rightarrow> Fault
     | d # src' \<Rightarrow>
         if d = 0 \<or> \<not> isxdigit d then Ret (-1, buf)
         else obind (GWEN_Buffer_AppendByte buf (hex_byte c d)) (\<lambda>(_, buf). GWEN_Text_FromHexBuffer src' buf))"

text \<open>The digits of a byte, in groups; with the flag the leading zeroes are left out, but for the very last digit.
  \<open>delim\<close> is whether a delimiter may follow, \<open>skippable\<close> whether a zero may be left out here. The state is
  the flag, the number of digits in the current group and the buffer; an error of the buffer is \<open>None\<close>.\<close>

definition text_nibble ::
  "(byte \<Rightarrow> byte) \<Rightarrow> u32 \<Rightarrow> byte \<Rightarrow> bool \<Rightarrow> bool \<Rightarrow> byte \<Rightarrow> bool \<times> u32 \<times> gwen_buffer \<Rightarrow>
     ((bool \<times> u32) option \<times> gwen_buffer) outcome" where
  "text_nibble dig groupsize delimiter delim skippable c = (\<lambda>(skip, j, buf).
     let skip = (skip \<and> c = 0 \<and> skippable)
     in if skip then Ret (Some (True, j), buf)
        else obind (GWEN_Buffer_AppendByte buf (dig c)) (\<lambda>(rv, buf).
          if rv \<noteq> 0 then Ret (None, buf)
          else if groupsize \<noteq> 0 \<and> j + 1 = groupsize then
            (if delim then
               obind (GWEN_Buffer_AppendByte buf delimiter) (\<lambda>(rv, buf).
                 if rv \<noteq> 0 then Ret (None, buf) else Ret (Some (False, 0), buf))
             else Ret (Some (False, 0), buf))
          else Ret (Some (False, j + 1), buf)))"

fun text_to_digits ::
  "(byte \<Rightarrow> byte) \<Rightarrow> u32 \<Rightarrow> byte \<Rightarrow> byte list \<Rightarrow> bool \<Rightarrow> u32 \<Rightarrow> gwen_buffer \<Rightarrow> (int \<times> gwen_buffer) outcome" where
  "text_to_digits dig groupsize delimiter [] skip j buf = Ret (0, buf)"
| "text_to_digits dig groupsize delimiter (c # src) skip j buf =
    obind (text_nibble dig groupsize delimiter True True (drop_bit 4 c AND 0xf) (skip, j, buf)) (\<lambda>(r, buf).
      case r of
        None \<Rightarrow> Ret (-1, buf)
      | Some (skip, j) \<Rightarrow>
          obind (text_nibble dig groupsize delimiter (src \<noteq> []) (src \<noteq> []) (c AND 0xf) (skip, j, buf)) (\<lambda>(r, buf).
            case r of
              None \<Rightarrow> Ret (-1, buf)
            | Some (skip, j) \<Rightarrow> text_to_digits dig groupsize delimiter src skip j buf))"

definition GWEN_Text_ToHexBuffer ::
  "byte list \<Rightarrow> u32 \<Rightarrow> gwen_buffer \<Rightarrow> u32 \<Rightarrow> byte \<Rightarrow> bool \<Rightarrow> (int \<times> gwen_buffer) outcome" where
  "GWEN_Text_ToHexBuffer src l buf groupsize delimiter skipLeadingZeroes =
     obind (region src l) (\<lambda>bs. text_to_digits hex_digit groupsize delimiter bs skipLeadingZeroes 0 buf)"

definition GWEN_Text_ToBcdBuffer ::
  "byte list \<Rightarrow> u32 \<Rightarrow> gwen_buffer \<Rightarrow> u32 \<Rightarrow> byte \<Rightarrow> bool \<Rightarrow> (int \<times> gwen_buffer) outcome" where
  "GWEN_Text_ToBcdBuffer src l buf groupsize delimiter skipLeadingZeroes =
     obind (region src l) (\<lambda>bs. text_to_digits (\<lambda>c. c + 48) groupsize delimiter bs skipLeadingZeroes 0 buf)"

text \<open>A BCD text of odd length gets a leading zero. The second digit of a byte is checked to be hexadecimal only.\<close>

definition bcd_byte :: "byte \<Rightarrow> byte \<Rightarrow> byte" where
  "bcd_byte d1 d2 = (push_bit 4 d1 AND 0xf0) + ((d2 - 48) AND 0xf)"

fun text_from_bcd :: "byte list \<Rightarrow> bool \<Rightarrow> gwen_buffer \<Rightarrow> (int \<times> gwen_buffer) outcome" where
  "text_from_bcd [] fakeByte buf = Fault"
| "text_from_bcd (c # src) fakeByte buf =
    (if c = 0 then Ret (0, buf)
     else if fakeByte then
       (if \<not> isxdigit c then Ret (-1, buf)
        else obind (GWEN_Buffer_AppendByte buf (bcd_byte (0 - 48) c)) (\<lambda>(_, buf). text_from_bcd src False buf))
     else if \<not> isdigit c then Ret (-1, buf)
     else case src of
       [] \<Rightarrow> Fault
     | d # src' \<Rightarrow>
         if d = 0 \<or> \<not> isxdigit d then Ret (-1, buf)
         else obind (GWEN_Buffer_AppendByte buf (bcd_byte (c - 48) d)) (\<lambda>(_, buf). text_from_bcd src' False buf))"

definition GWEN_Text_FromBcdBuffer :: "byte list \<Rightarrow> gwen_buffer \<Rightarrow> (int \<times> gwen_buffer) outcome" where
  "GWEN_Text_FromBcdBuffer src buf =
     (if strlen src = length src then Fault else text_from_bcd src (odd (strlen src)) buf)"

end
