(* ===== verification/Gwen_TextProps.thy ===== *)
theory Gwen_TextProps
  imports Gwen_Text
begin

text \<open>
  Text that is escaped is read back, in a buffer and in a block of bounded size; bytes written as hexadecimal
  digits in groups are read back.
\<close>

section \<open>Digits\<close>

lemma nibble_cases:
  fixes n :: byte
  assumes "n \<le> 15"
  shows "n \<in> {0, 1, 2, 3, 4, 5, 6, 7, 8, 9, 10, 11, 12, 13, 14, 15}"
proof -
  have "unat n \<le> 15" using assms by (simp add: word_le_nat_alt)
  moreover have "k \<le> 15 \<Longrightarrow> k = 0 \<or> k = 1 \<or> k = 2 \<or> k = 3 \<or> k = 4 \<or> k = 5 \<or> k = 6 \<or> k = 7 \<or> k = 8 \<or> k = 9 \<or> k = 10 \<or> k = 11 \<or> k = 12 \<or> k = 13 \<or> k = 14 \<or> k = 15" for k :: nat
    by presburger
  ultimately have "unat n = 0 \<or> unat n = 1 \<or> unat n = 2 \<or> unat n = 3 \<or> unat n = 4 \<or> unat n = 5 \<or> unat n = 6 \<or> unat n = 7 \<or> unat n = 8 \<or> unat n = 9 \<or> unat n = 10 \<or> unat n = 11 \<or> unat n = 12 \<or> unat n = 13 \<or> unat n = 14 \<or> unat n = 15"
    by blast
  then have "of_nat (unat n) \<in> {0, 1, 2, 3, 4, 5, 6, 7, 8, 9, 10, 11, 12, 13, 14, 15 :: byte}" by (elim disjE) simp_all
  then show ?thesis by simp
qed

lemma hex_digit_facts:
  assumes "n \<le> 15"
  shows "hex_val (hex_digit n) = n" "isxdigit (hex_digit n)" "hex_digit n \<noteq> 0" "\<not> isspace (hex_digit n)"
    "text_alnum (hex_digit n)"
proof -
  have "hex_val (hex_digit n) = n \<and> isxdigit (hex_digit n) \<and> hex_digit n \<noteq> 0 \<and> \<not> isspace (hex_digit n)
      \<and> text_alnum (hex_digit n)"
    using nibble_cases [OF assms]
    by (elim insertE emptyE)
      (simp_all add: hex_digit_def hex_val_def toupper_def isxdigit_def isspace_def text_alnum_def Let_def)
  then show "hex_val (hex_digit n) = n" "isxdigit (hex_digit n)" "hex_digit n \<noteq> 0" "\<not> isspace (hex_digit n)"
    "text_alnum (hex_digit n)" by auto
qed

lemma nibble_le: "x AND (15 :: byte) \<le> 15"
  by (rule word_and_le1)

lemma hex_byte_pair: "hex_byte (hex_digit (drop_bit 4 x AND 15)) (hex_digit (x AND 15)) = x"
proof -
  have bits: "n < 8 \<Longrightarrow> n \<in> {0, 1, 2, 3, 4, 5, 6, 7}" for n :: nat by auto
  have hi: "push_bit 4 (drop_bit 4 x AND 15) AND 240 = x AND (240 :: byte)"
    by (rule bit_word_eqI) (use bits in \<open>force simp: bit_simps\<close>)
  have "(x AND 240) + (x AND 15) = (x AND 240) OR (x AND 15)"
    by (rule disjunctive_add_eq_or, rule bit_word_eqI) (use bits in \<open>force simp: bit_simps\<close>)
  also have "\<dots> = x" by (rule bit_word_eqI) (use bits in \<open>force simp: bit_simps\<close>)
  finally show ?thesis
    using hi by (simp add: hex_byte_def hex_digit_facts(1) [OF nibble_le])
qed

lemma hex_pair_facts:
  "hex_pair x = [a, b] \<Longrightarrow> hex_byte a b = x \<and> isxdigit a \<and> isxdigit b \<and> a \<noteq> 0 \<and> b \<noteq> 0
    \<and> \<not> isspace a \<and> text_alnum a \<and> text_alnum b"
proof -
  assume "hex_pair x = [a, b]"
  then have "a = hex_digit (drop_bit 4 x AND 15)" "b = hex_digit (x AND 15)" by (simp_all add: hex_pair_def)
  then show ?thesis
    using hex_byte_pair [of x] hex_digit_facts [OF nibble_le, of "drop_bit 4 x"] hex_digit_facts [OF nibble_le, of x] by simp
qed

lemma hex_pair_obtain: obtains a b where "hex_pair x = [a, b]"
  by (simp add: hex_pair_def)

section \<open>Escaping into a buffer\<close>

definition escaped :: "(byte \<Rightarrow> bool) \<Rightarrow> byte list \<Rightarrow> byte list" where
  "escaped safe s = concat (map (\<lambda>x. if safe x then [x] else 37 # hex_pair x) s)"

lemma escaped_simps [simp]:
  "escaped safe [] = []"
  "escaped safe (x # s) = (if safe x then [x] else 37 # hex_pair x) @ escaped safe s"
  by (simp_all add: escaped_def)

lemma length_escaped: "length (escaped safe s) \<le> 3 * length s"
  by (induction s) (auto simp: hex_pair_def)

lemma escaped_alnum: "\<forall>c \<in> set (escaped safe s). safe c \<or> c = 37 \<or> text_alnum c"
proof (induction s)
  case (Cons x s)
  obtain a b where "hex_pair x = [a, b]" by (rule hex_pair_obtain)
  with Cons hex_pair_facts [of x a b] show ?case by auto
qed simp

lemma escape_to_buffer:
  assumes "0 \<notin> set s" "room buf (length (escaped safe s) + n)"
  shows "\<exists>b. text_escape_to safe (s @ 0 # r) buf = Ret (0, b) \<and> contents b = contents buf @ escaped safe s \<and> room b n"
  using assms
proof (induction s arbitrary: buf)
  case (Cons x s)
  let ?cs = "if safe x then [x] else 37 # hex_pair x"
  have "room buf (length ?cs + (length (escaped safe s) + n))" using Cons.prems(2) by (simp add: ac_simps)
  from buf.appends_law [OF this] obtain b1 where
    b1: "appends GWEN_Buffer_AppendByte buf ?cs = Ret b1" "contents b1 = contents buf @ ?cs" "room b1 (length (escaped safe s) + n)"
    by auto
  from Cons.IH [OF _ b1(3)] b1 Cons.prems(1) show ?case by auto
qed simp

lemma unescape_to_buffer:
  assumes "0 \<notin> set s" "room buf (length s + n)"
  shows "\<exists>b. GWEN_Text_UnescapeToBuffer (escaped text_alnum s @ 0 # r) buf = Ret (0, b) \<and> contents b = contents buf @ s \<and> room b n"
  using assms
proof (induction s arbitrary: buf)
  case (Cons x s)
  then have "room buf (Suc (length s + n))" by simp
  from buf.app1 [OF this, of x] obtain b1 where
    b1: "GWEN_Buffer_AppendByte buf x = Ret (0, b1)" "contents b1 = contents buf @ [x]" "room b1 (length s + n)" by auto
  obtain a b where ab: "hex_pair x = [a, b]" by (rule hex_pair_obtain)
  have "\<not> text_alnum 37" by (simp add: text_alnum_def)
  with Cons.IH [OF _ b1(3)] b1 Cons.prems(1) ab hex_pair_facts [OF ab] show ?case by auto
qed simp

lemma unescape_to_buffer_tolerant:
  assumes "0 \<notin> set s" "room buf (length s + n)" "\<not> safe 37"
  shows "\<exists>b. GWEN_Text_UnescapeToBufferTolerant (escaped safe s @ 0 # r) buf = Ret (0, b) \<and> contents b = contents buf @ s \<and> room b n"
  using assms(1,2)
proof (induction s arbitrary: buf)
  case (Cons x s)
  then have "room buf (Suc (length s + n))" by simp
  from buf.app1 [OF this, of x] obtain b1 where
    b1: "GWEN_Buffer_AppendByte buf x = Ret (0, b1)" "contents b1 = contents buf @ [x]" "room b1 (length s + n)" by auto
  obtain a b where ab: "hex_pair x = [a, b]" by (rule hex_pair_obtain)
  show ?case
  proof (cases "safe x")
    case True
    then have "x \<noteq> 37" using assms(3) by blast
    with True Cons.IH [OF _ b1(3)] b1 Cons.prems(1) show ?thesis by (auto split: list.splits)
  next
    case False
    with Cons.IH [OF _ b1(3)] b1 Cons.prems(1) ab hex_pair_facts [OF ab] show ?thesis by auto
  qed
qed simp

lemma text_escape_both:
  assumes "0 \<notin> set s" "room buf (3 * length s)" "room buf2 (length s)"
  shows "\<exists>b e. GWEN_Text_EscapeToBuffer (s @ 0 # r) buf = Ret (0, b) \<and> contents b = contents buf @ e
     \<and> list_all (\<lambda>c. text_alnum c \<or> c = 37) e
     \<and> (\<exists>b2. GWEN_Text_UnescapeToBuffer (e @ 0 # r2) buf2 = Ret (0, b2) \<and> contents b2 = contents buf2 @ s)"
    and "\<exists>b e. GWEN_Text_EscapeToBufferTolerant (s @ 0 # r) buf = Ret (0, b) \<and> contents b = contents buf @ e
     \<and> list_all (\<lambda>c. text_tolerant_buf c \<or> c = 37) e
     \<and> (\<exists>b2. GWEN_Text_UnescapeToBufferTolerant (e @ 0 # r2) buf2 = Ret (0, b2) \<and> contents b2 = contents buf2 @ s)"
proof -
  have room: "room buf (length (escaped safe s) + 0)" "room buf2 (length s + 0)" for safe
    using room_mono [OF assms(2) length_escaped] assms(3) by simp_all
  note esc = escape_to_buffer [OF assms(1) room(1)]
  show "\<exists>b e. GWEN_Text_EscapeToBuffer (s @ 0 # r) buf = Ret (0, b) \<and> contents b = contents buf @ e
     \<and> list_all (\<lambda>c. text_alnum c \<or> c = 37) e
     \<and> (\<exists>b2. GWEN_Text_UnescapeToBuffer (e @ 0 # r2) buf2 = Ret (0, b2) \<and> contents b2 = contents buf2 @ s)"
    using esc [of text_alnum r] unescape_to_buffer [OF assms(1) room(2), of r2] escaped_alnum [of text_alnum s]
    by (fastforce simp: GWEN_Text_EscapeToBuffer_def list_all_iff)
  have "\<not> text_tolerant_buf 37" by (simp add: text_tolerant_buf_def text_alnum_def)
  then show "\<exists>b e. GWEN_Text_EscapeToBufferTolerant (s @ 0 # r) buf = Ret (0, b) \<and> contents b = contents buf @ e
     \<and> list_all (\<lambda>c. text_tolerant_buf c \<or> c = 37) e
     \<and> (\<exists>b2. GWEN_Text_UnescapeToBufferTolerant (e @ 0 # r2) buf2 = Ret (0, b2) \<and> contents b2 = contents buf2 @ s)"
    using esc [of text_tolerant_buf r] unescape_to_buffer_tolerant [OF assms(1) room(2), of text_tolerant_buf r2]
      escaped_alnum [of text_tolerant_buf s]
    by (fastforce simp: GWEN_Text_EscapeToBufferTolerant_def list_all_iff text_tolerant_buf_def)
qed


text \<open>C38. Escaping a string appends text of letters, digits and percent signs only (the tolerant form: also a
  few harmless characters), and unescaping this text, in any buffer with room for it, appends the string.\<close>

theorem text_escape_roundtrip:
  assumes "0 \<notin> set s" "room buf (3 * length s)" "room buf2 (length s)"
  shows "(\<exists>b e. GWEN_Text_EscapeToBuffer (s @ 0 # r) buf = Ret (0, b) \<and> contents b = contents buf @ e
     \<and> list_all (\<lambda>c. text_alnum c \<or> c = 37) e
     \<and> (\<exists>b2. GWEN_Text_UnescapeToBuffer (e @ 0 # r2) buf2 = Ret (0, b2) \<and> contents b2 = contents buf2 @ s))
   \<and> (\<exists>b e. GWEN_Text_EscapeToBufferTolerant (s @ 0 # r) buf = Ret (0, b) \<and> contents b = contents buf @ e
     \<and> list_all (\<lambda>c. text_tolerant_buf c \<or> c = 37) e
     \<and> (\<exists>b2. GWEN_Text_UnescapeToBufferTolerant (e @ 0 # r2) buf2 = Ret (0, b2) \<and> contents b2 = contents buf2 @ s))"
  using text_escape_both [OF assms, of r r2] by (rule conjI)

lemma room_example: obtains buf where "room buf 9"
proof -
  obtain buf where "padd_ready buf 4000" using ready_example by blast
  then have "room buf 9" by (auto simp: padd_ready_def intro: room_mono)
  then show thesis by (rule that)
qed

theorem text_escape_roundtrip_witness:
  "\<exists>buf. (\<exists>b e. GWEN_Text_EscapeToBuffer ([97, 47, 37] @ 0 # []) buf = Ret (0, b) \<and> contents b = contents buf @ e
     \<and> (\<exists>b2. GWEN_Text_UnescapeToBuffer (e @ 0 # []) buf = Ret (0, b2) \<and> contents b2 = contents buf @ [97, 47, 37]))"
proof -
  obtain buf where "room buf 9" by (rule room_example)
  then have "0 \<notin> set [97, 47, 37 :: byte]" "room buf (3 * length [97, 47, 37 :: byte])" "room buf (length [97, 47, 37 :: byte])"
    by (auto intro: room_mono)
  from text_escape_roundtrip [OF this, of "[]" "[]"] show ?thesis by blast
qed

section \<open>Escaping into bounded memory\<close>

lemma text_put_ok: "unat sz + length bs \<le> length buffer \<Longrightarrow> text_put buffer sz bs = Ret (write_at (unat sz) bs buffer)"
  by (simp add: text_put_def)

lemma write_at_twice: "i + length xs \<le> length m \<Longrightarrow> write_at (i + length xs) ys (write_at i xs m) = write_at i (xs @ ys) m"
  by (simp add: write_at_def ac_simps)

lemma escape_bounded:
  assumes "0 \<notin> set s" "unat sz < unat maxsize" "unat maxsize \<le> length buffer" "unat maxsize < 2147483648"
  shows "\<exists>b. text_escape_loop safe maxsize (s @ 0 # r) sz buffer = Ret (unat sz + length (escaped safe s) < unat maxsize, b)
     \<and> length b = length buffer
     \<and> (unat sz + length (escaped safe s) < unat maxsize \<longrightarrow> b = write_at (unat sz) (escaped safe s @ [0]) buffer)"
  using assms
proof (induction s arbitrary: sz buffer)
  case Nil
  then show ?case by (simp add: text_put_ok)
next
  case (Cons x s)
  let ?cs = "if safe x then [x] else 37 # hex_pair x" and ?k = "of_nat (if safe x then 1 else 3) :: u32"
  have k: "length ?cs = (if safe x then 1 else 3)" by (simp add: hex_pair_def)
  have m1: "unat (maxsize - 1) = unat maxsize - 1" using Cons.prems(2) unat_minus_u32 [of 1 maxsize] by simp
  have sk: "unat (sz + ?k) = unat sz + length ?cs"
    using Cons.prems(2,4) by (simp add: unat_plus_u32 hex_pair_def)
  show ?case
  proof (cases "unat sz + length ?cs < unat maxsize")
    case True
    let ?b = "write_at (unat sz) ?cs buffer"
    have fits: "unat sz + length ?cs \<le> length buffer" using True Cons.prems(3) by simp
    have step: "text_escape_loop safe maxsize ((x # s) @ 0 # r) sz buffer = text_escape_loop safe maxsize (s @ 0 # r) (sz + ?k) ?b"
      using True sk m1 fits Cons.prems(1) k by (auto simp: text_put_ok word_less_nat_alt)
    have "length ?b = length buffer" using fits by simp
    moreover have "write_at (unat sz + length ?cs) (escaped safe s @ [0]) ?b = write_at (unat sz) (escaped safe (x # s) @ [0]) buffer"
      using write_at_twice [OF fits, of "escaped safe s @ [0]"] by (simp only: escaped_simps append_assoc)
    ultimately show ?thesis
      using Cons.IH [of "sz + ?k" ?b] True Cons.prems sk unfolding step by (simp add: add.assoc)
  next
    case False
    then have "text_escape_loop safe maxsize ((x # s) @ 0 # r) sz buffer = Ret (False, buffer)"
      using sk m1 Cons.prems(1) k by (auto simp: word_less_nat_alt)
    then show ?thesis using False by simp
  qed
qed

lemma unescape_bounded:
  assumes "0 \<notin> set s" "\<not> safe 37" "unat sz < unat maxsize" "unat maxsize \<le> length buffer" "unat maxsize < 2147483648"
    and "unat srclen = length (escaped safe s)"
  shows "\<exists>b. text_unescape_loop safe maxsize (escaped safe s @ 0 # r) srclen sz buffer = Ret (unat sz + length s < unat maxsize, b)
     \<and> length b = length buffer
     \<and> (unat sz + length s < unat maxsize \<longrightarrow> b = write_at (unat sz) (s @ [0]) buffer)"
  using assms(1,3-6)
proof (induction s arbitrary: sz srclen buffer)
  case Nil
  then show ?case by (simp add: text_put_ok)
next
  case (Cons x s)
  obtain c d where cd: "hex_pair x = [c, d]" by (rule hex_pair_obtain)
  let ?k = "of_nat (if safe x then 1 else 3) :: u32" and ?b = "write_at (unat sz) [x] buffer"
  have m1: "unat (maxsize - 1) = unat maxsize - 1" using Cons.prems(2) unat_minus_u32 [of 1 maxsize] by simp
  have s1: "unat (sz + 1) = Suc (unat sz)" using Cons.prems(2,4) by (simp add: unat_plus_u32)
  have n: "unat ?k \<le> unat srclen" "unat (srclen - ?k) = length (escaped safe s)"
    using Cons.prems(5) cd unat_minus_u32 [of ?k srclen] by auto
  have k3: "\<not> safe x \<Longrightarrow> srclen - 2 - 1 = srclen - 3" by simp
  have fits: "unat sz + length [x] \<le> length buffer" using Cons.prems(2,3) by simp
  have step: "text_unescape_loop safe maxsize (escaped safe (x # s) @ 0 # r) srclen sz buffer =
      (if sz < maxsize - 1 then text_unescape_loop safe maxsize (escaped safe s @ 0 # r) (srclen - ?k) (sz + 1) ?b
       else Ret (False, buffer))"
    using Cons.prems(1) n(1) cd hex_pair_facts [OF cd] assms(2) fits
    by (cases "safe x") (auto simp: text_put_ok word_less_nat_alt)
  show ?case
  proof (cases "sz < maxsize - 1")
    case True
    have "length ?b = length buffer" using fits by simp
    moreover have "write_at (Suc (unat sz)) (s @ [0]) ?b = write_at (unat sz) ((x # s) @ [0]) buffer"
      using write_at_twice [OF fits, of "s @ [0]"] by simp
    moreover have "Suc (unat sz) < unat maxsize" using True m1 by (simp add: word_less_nat_alt)
    ultimately show ?thesis
      using Cons.IH [of "sz + 1" ?b "srclen - ?k"] True Cons.prems n(2) s1 unfolding step by simp
  next
    case False
    then show ?thesis unfolding step using m1 Cons.prems(2) by (auto simp: word_less_nat_alt)
  qed
qed

text \<open>C39. Escaping into a block of \<open>maxsize\<close> bytes never writes outside it. It succeeds exactly if the escaped text
  fits together with its NUL, and unescaping the result into a block that is large enough gives the string back.\<close>

theorem text_escape_bounded:
  assumes "0 \<notin> set s" "0 < unat maxsize" "unat maxsize \<le> length buffer" "unat maxsize < 2147483648"
    and "length s < unat maxsize2" "unat maxsize2 \<le> length buffer2" "unat maxsize2 < 2147483648"
  shows "\<exists>b. GWEN_Text_Escape (s @ 0 # r) buffer maxsize = Ret (length (escaped text_alnum s) < unat maxsize, b)
     \<and> length b = length buffer
     \<and> (length (escaped text_alnum s) < unat maxsize \<longrightarrow>
         b = escaped text_alnum s @ 0 # drop (Suc (length (escaped text_alnum s))) buffer
         \<and> GWEN_Text_Unescape b buffer2 maxsize2 = Ret (True, s @ 0 # drop (Suc (length s)) buffer2))"
proof -
  let ?e = "escaped text_alnum s"
  obtain b where b: "GWEN_Text_Escape (s @ 0 # r) buffer maxsize = Ret (length ?e < unat maxsize, b)" "length b = length buffer"
    "length ?e < unat maxsize \<longrightarrow> b = write_at 0 (?e @ [0]) buffer"
    using escape_bounded [of s 0 maxsize buffer text_alnum r] assms(1-4) by (auto simp: GWEN_Text_Escape_def)
  have "GWEN_Text_Unescape b buffer2 maxsize2 = Ret (True, s @ 0 # drop (Suc (length s)) buffer2)" if l: "length ?e < unat maxsize"
  proof -
    have be: "b = ?e @ 0 # drop (Suc (length ?e)) buffer" using b(3) l by (simp add: write_at_def)
    have "0 \<notin> set ?e" using escaped_alnum [of text_alnum s] by (auto simp: text_alnum_def)
    then have "strlen b = length ?e" unfolding be by (intro strlen_digits) (auto simp: list_all_iff)
    then have sl: "strlen b = length ?e" "strlen b \<noteq> length b" by (simp_all add: be)
    have "unat (of_nat (length ?e) :: u32) = length ?e" using l assms(4) by (simp add: unat_of_nat)
    moreover have "\<not> text_alnum 37" by (simp add: text_alnum_def)
    ultimately show ?thesis
      using unescape_bounded [of s text_alnum 0 maxsize2 buffer2 "of_nat (length ?e)" "drop (Suc (length ?e)) buffer"] assms sl
      by (simp add: GWEN_Text_Unescape_def GWEN_Text_UnescapeN_def be [symmetric]) (simp add: write_at_def)
  qed
  with b show ?thesis by (auto simp: write_at_def)
qed

theorem text_escape_bounded_witness:
  "\<exists>b. GWEN_Text_Escape ([97, 47] @ 0 # []) [7, 7, 7, 7, 7, 7, 7, 7] 8 = Ret (True, b)
     \<and> GWEN_Text_Unescape b [9, 9, 9, 9] 4 = Ret (True, [97, 47, 0, 9])"
proof -
  have "length (escaped text_alnum [97, 47]) = 4" by (simp add: text_alnum_def hex_pair_def)
  then show ?thesis
    using text_escape_bounded [of "[97, 47]" 8 "[7, 7, 7, 7, 7, 7, 7, 7]" 4 "[9, 9, 9, 9]" "[]"]
    by (auto simp del: escaped_simps)
qed

section \<open>Hexadecimal text\<close>

text \<open>The text of the bytes, in groups of an even number of digits.\<close>

fun grouped :: "u32 \<Rightarrow> byte \<Rightarrow> byte list \<Rightarrow> u32 \<Rightarrow> byte list" where
  "grouped g d [] j = []"
| "grouped g d (c # bs) j =
    hex_pair c @ (if g \<noteq> 0 \<and> j + 2 = g then (if bs = [] then [] else [d]) @ grouped g d bs 0 else grouped g d bs (j + 2))"

lemma length_grouped: "length (grouped g d bs j) \<le> 3 * length bs"
proof (induction bs arbitrary: j)
  case (Cons c bs)
  from Cons.IH [of 0] Cons.IH [of "j + 2"] show ?case by (auto simp: hex_pair_def)
qed simp

lemma even_plus_u32:
  assumes "even (unat (j :: u32))"
  shows "odd (unat (j + 1))" "even (unat (j + 2))"
proof -
  have "unat j < 4294967296" using unsigned_less [of j, where 'a = nat] by simp
  then show "odd (unat (j + 1))" "even (unat (j + 2))"
    using assms by (auto simp: unat_word_ariths mod_Suc even_Suc intro: dvd_mod)
qed

lemma to_digits_grouped:
  assumes "even (unat g)" "even (unat j)" "room buf (length (grouped g d bs j) + n)"
  shows "\<exists>b. text_to_digits hex_digit g d bs False j buf = Ret (0, b) \<and> contents b = contents buf @ grouped g d bs j \<and> room b n"
  using assms(2,3)
proof (induction bs arbitrary: j buf)
  case (Cons c bs)
  let ?stop = "g \<noteq> 0 \<and> j + 2 = g" and ?d1 = "hex_digit (drop_bit 4 c AND 15)" and ?d2 = "hex_digit (c AND 15)"
  define j' where "j' = (if ?stop then 0 else j + 2)"
  define dl where "dl = (if ?stop \<and> bs \<noteq> [] then [d] else [])"
  have j1: "j + 1 \<noteq> g" using even_plus_u32(1) [OF Cons.prems(1)] assms(1) by auto
  have j2: "j + 1 + 1 = j + 2" by simp
  have g: "grouped g d (c # bs) j = ?d1 # ?d2 # dl @ grouped g d bs j'"
    by (simp add: hex_pair_def j'_def dl_def)
  have j': "even (unat j')" using even_plus_u32(2) [OF Cons.prems(1)] by (simp add: j'_def)
  have "room buf (Suc (Suc (length dl + (length (grouped g d bs j') + n))))" using Cons.prems(2) by (simp only: g length_Cons length_append) (simp add: ac_simps)
  from buf.app1 [OF this] obtain b1 where
    b1: "GWEN_Buffer_AppendByte buf ?d1 = Ret (0, b1)" "contents b1 = contents buf @ [?d1]"
      "room b1 (Suc (length dl + (length (grouped g d bs j') + n)))" by blast
  from buf.app1 [OF b1(3)] obtain b2 where
    b2: "GWEN_Buffer_AppendByte b1 ?d2 = Ret (0, b2)" "contents b2 = contents b1 @ [?d2]"
      "room b2 (length dl + (length (grouped g d bs j') + n))" by blast
  obtain b3 where b3: "text_nibble hex_digit g d (bs \<noteq> []) (bs \<noteq> []) (c AND 15) (False, j + 1, b1) = Ret (Some (False, j'), b3)"
      "contents b3 = contents b2 @ dl" "room b3 (length (grouped g d bs j') + n)"
  proof (cases "?stop \<and> bs \<noteq> []")
    case True
    then have "room b2 (Suc (length (grouped g d bs j') + n))" using b2(3) by (simp add: dl_def)
    from buf.app1 [OF this, of d] True b2(1) show ?thesis
      by (auto intro!: that simp: text_nibble_def j2 j'_def dl_def)
  next
    case False
    then show ?thesis using b2 by (intro that [of b2]) (auto simp: text_nibble_def j2 j'_def dl_def)
  qed
  have "text_nibble hex_digit g d True True (drop_bit 4 c AND 15) (False, j, buf) = Ret (Some (False, j + 1), b1)"
    using b1(1) j1 by (simp add: text_nibble_def)
  then have "text_to_digits hex_digit g d (c # bs) False j buf = text_to_digits hex_digit g d bs False j' b3"
    using b3(1) by simp
  with b3(2) Cons.IH [OF j' b3(3)] b1(2) b2(2) show ?case by (auto simp del: grouped.simps simp: g)
qed simp

lemma from_hex_grouped:
  assumes "isspace d" "room buf (length bs + n)"
  shows "\<exists>b. GWEN_Text_FromHexBuffer (grouped g d bs j @ 0 # r) buf = Ret (0, b) \<and> contents b = contents buf @ bs \<and> room b n"
  using assms(2)
proof (induction bs arbitrary: j buf)
  case (Cons c bs)
  then have "room buf (Suc (length bs + n))" by simp
  from buf.app1 [OF this, of c] obtain b1 where
    b1: "GWEN_Buffer_AppendByte buf c = Ret (0, b1)" "contents b1 = contents buf @ [c]" "room b1 (length bs + n)" by auto
  obtain x y where xy: "hex_pair c = [x, y]" by (rule hex_pair_obtain)
  have "d \<noteq> 0" using assms(1) by (auto simp: isspace_def)
  with assms(1) xy hex_pair_facts [OF xy] b1 Cons.IH [OF b1(3), of 0] Cons.IH [OF b1(3), of "j + 2"] show ?case by auto
qed simp

text \<open>C40. Bytes written as hexadecimal digits, without a delimiter or in groups of an even number of digits with white
  space between them, are read back.\<close>

theorem text_hex_roundtrip:
  assumes "even (unat groupsize)" "isspace delimiter" "length bs < 4294967296"
    and "room buf (3 * length bs)" "room buf2 (length bs)"
  shows "\<exists>b e b2. GWEN_Text_ToHexBuffer (bs @ r) (of_nat (length bs)) buf groupsize delimiter False = Ret (0, b)
     \<and> contents b = contents buf @ e
     \<and> GWEN_Text_FromHexBuffer (e @ 0 # r2) buf2 = Ret (0, b2) \<and> contents b2 = contents buf2 @ bs"
proof -
  have l: "unat (of_nat (length bs) :: u32) = length bs" using assms(3) by (simp add: unat_of_nat)
  have "room buf (length (grouped groupsize delimiter bs 0) + 0)" using room_mono [OF assms(4) length_grouped] by simp
  from to_digits_grouped [OF assms(1) _ this] from_hex_grouped [OF assms(2), of buf2 bs 0 groupsize 0 r2] assms(5) l
  show ?thesis by (fastforce simp: GWEN_Text_ToHexBuffer_def region_def)
qed

theorem text_hex_roundtrip_witness:
  "\<exists>buf b e b2. GWEN_Text_ToHexBuffer ([1, 0xab, 0xff] @ []) 3 buf 4 32 False = Ret (0, b)
     \<and> contents b = contents buf @ e
     \<and> GWEN_Text_FromHexBuffer (e @ 0 # []) buf = Ret (0, b2) \<and> contents b2 = contents buf @ [1, 0xab, 0xff]"
proof -
  obtain buf where "room buf 9" by (rule room_example)
  then have "room buf (3 * length [1, 0xab, 0xff :: byte])" "room buf (length [1, 0xab, 0xff :: byte])"
    by (auto intro: room_mono)
  from text_hex_roundtrip [OF _ _ _ this, of 4 32 "[]" "[]"] show ?thesis by (auto simp: isspace_def)
qed

text \<open>An escape sequence that breaks off ends the strict conversion with the result 0, as if it were complete.\<close>

lemma unescape_incomplete: "GWEN_Text_UnescapeToBuffer (37 # 0 # r) buf = Ret (0, buf)"
  by (simp add: text_alnum_def)

end
