(* ===== verification/Gwen_XmlText.thy ===== *)
theory Gwen_XmlText
  imports Gwen_TextProps
begin

text \<open>
  Escaping of texts for XML, \<^verbatim>\<open>src/parser/text.c\<close>. Unescaping reads its source from memory with a NUL in it and
  writes behind the data of a buffer through a pointer of its own; only from time to time is the buffer told.
\<close>

section \<open>Escaping\<close>

definition gwen_text__xml_escape_chars :: "(byte \<times> byte list) list" where
  "gwen_text__xml_escape_chars =
    [(38, [38, 97, 109, 112, 59]), (60, [38, 108, 116, 59]), (62, [38, 103, 116, 59]),
     (39, [38, 97, 112, 111, 115, 59]), (34, [38, 113, 117, 111, 116, 59])]"

fun GWEN_Text_EscapeXmlToBuffer :: "byte list \<Rightarrow> gwen_buffer \<Rightarrow> (int \<times> gwen_buffer) outcome" where
  "GWEN_Text_EscapeXmlToBuffer [] buf = Fault"
| "GWEN_Text_EscapeXmlToBuffer (x # src) buf =
    (if x = 0 then Ret (0, buf)
     else obind (case map_of gwen_text__xml_escape_chars x of
                   Some replace \<Rightarrow> GWEN_Buffer_AppendString buf (replace @ [0])
                 | None \<Rightarrow> GWEN_Buffer_AppendByte buf x)
            (\<lambda>(_, buf). GWEN_Text_EscapeXmlToBuffer src buf))"

section \<open>Writing past the buffer\<close>

record xml_out =
  xo_buf :: gwen_buffer
  xo_pdst :: nat
  xo_roomLeft :: u32
  xo_bytesAdded :: u32

definition xml_open :: "gwen_buffer \<Rightarrow> xml_out" where
  "xml_open buf = \<lparr>xo_buf = buf, xo_pdst = GWEN_Buffer_GetPosPointer buf,
     xo_roomLeft = GWEN_Buffer_GetMaxUnsegmentedWrite buf, xo_bytesAdded = 0\<rparr>"

definition xml_flush :: "xml_out \<Rightarrow> gwen_buffer outcome" where
  "xml_flush st =
    (if xo_bytesAdded st \<noteq> 0
     then obind (GWEN_Buffer_AdjustUsedBytes (snd (GWEN_Buffer_IncrementPos (xo_buf st) (xo_bytesAdded st)))) (\<lambda>(_, buf). Ret buf)
     else Ret (xo_buf st))"

text \<open>The macro that appends a character.\<close>

definition GWEN_TEXT__APPENDCHAR :: "xml_out \<Rightarrow> byte \<Rightarrow> xml_out outcome" where
  "GWEN_TEXT__APPENDCHAR st chr =
     obind (if xo_roomLeft st < 2
            then obind (xml_flush st) (\<lambda>buf.
                 obind (GWEN_Buffer_AllocRoom buf 2) (\<lambda>(_, buf). Ret (xml_open buf)))
            else Ret st) (\<lambda>st.
     obind (poke (xo_buf st) (xo_pdst st) [chr]) (\<lambda>buf.
     obind (poke buf (xo_pdst st + 1) [0]) (\<lambda>buf.
       Ret \<lparr>xo_buf = buf, xo_pdst = xo_pdst st + 1, xo_roomLeft = xo_roomLeft st - 1, xo_bytesAdded = xo_bytesAdded st + 1\<rparr>)))"

section \<open>Unescaping\<close>

text \<open>The named characters that become two bytes of UTF-8.\<close>

definition xml_umlauts :: "(byte list \<times> byte list) list" where
  "xml_umlauts =
    [([115, 122, 108, 105, 103, 59], [0xc3, 0x9f]), ([65, 117, 109, 108, 59], [0xc3, 0x84]),
     ([79, 117, 109, 108, 59], [0xc3, 0x96]), ([85, 117, 109, 108, 59], [0xc3, 0x9c]),
     ([97, 117, 109, 108, 59], [0xc3, 0xa4]), ([111, 117, 109, 108, 59], [0xc3, 0xb6]),
     ([117, 117, 109, 108, 59], [0xc3, 0xbc])]"

text \<open>One turn of the loop: the characters to append and the rest of the source. Behind a number the next character is
  appended too, whatever it is.\<close>

definition xml_item :: "byte list \<Rightarrow> (byte list \<times> byte list) outcome" where
  "xml_item src =
    (case src of
       [] \<Rightarrow> Fault
     | x # t \<Rightarrow>
         if x = 38 \<and> t = [] then Fault
         else if x = 38 \<and> hd t = 35 then
           (let ds = takeWhile isdigit (tl t);
                code = foldl (\<lambda>n d. n * 10 + (d - 48)) (0 :: byte) ds;
                rest = drop (length ds + 1) (tl t)
            in case rest of [] \<Rightarrow> Fault | c # rest \<Rightarrow> Ret ([code, c], rest))
         else if x = 38 then
           (case find (\<lambda>(name, bs). take (length name) t = name) xml_umlauts of
              Some (name, bs) \<Rightarrow> Ret (bs, drop (length name) t)
            | None \<Rightarrow>
                (case find (\<lambda>(c, replace). map tolower (take (length replace) src) = map tolower replace) gwen_text__xml_escape_chars of
                   Some (c, replace) \<Rightarrow> Ret ([c], drop (length replace) src)
                 | None \<Rightarrow> Ret ([x], t)))
         else Ret ([x], t))"

lemma xml_item_shorter: "xml_item src = Ret (bs, rest) \<Longrightarrow> length rest < length src"
  by (cases src)
    (auto simp: xml_item_def Let_def xml_umlauts_def gwen_text__xml_escape_chars_def
       dest!: arg_cong [where f = length and x = "drop _ _"] split: if_splits list.splits option.splits)

fun xml_puts :: "xml_out \<Rightarrow> byte list \<Rightarrow> xml_out outcome" where
  "xml_puts st [] = Ret st"
| "xml_puts st (c # cs) = obind (GWEN_TEXT__APPENDCHAR st c) (\<lambda>st. xml_puts st cs)"

function xml_unescape :: "byte list \<Rightarrow> xml_out \<Rightarrow> xml_out outcome" where
  "xml_unescape src st =
    (if src = [] then Fault
     else if hd src = 0 then Ret st
     else case xml_item src of
            Ret (bs, rest) \<Rightarrow> obind (xml_puts st bs) (xml_unescape rest)
          | Abort \<Rightarrow> Abort
          | Fault \<Rightarrow> Fault)"
  by pat_completeness auto
termination
  by (relation "measure (\<lambda>(src, st). length src)") (auto dest: xml_item_shorter)

declare xml_unescape.simps [simp del]

definition GWEN_Text_UnescapeXmlToBuffer :: "byte list \<Rightarrow> gwen_buffer \<Rightarrow> (int \<times> gwen_buffer) outcome" where
  "GWEN_Text_UnescapeXmlToBuffer src buf =
     obind (xml_unescape src (xml_open buf)) (\<lambda>st. obind (xml_flush st) (\<lambda>buf. Ret (0, buf)))"

section \<open>The pointer writes like the buffer\<close>

definition xml_ready :: "xml_out \<Rightarrow> nat \<Rightarrow> bool" where
  "xml_ready st k \<longleftrightarrow>
    (let buf = xo_buf st; u = unat (bytesUsed buf); a = unat (xo_bytesAdded st)
     in room buf (a + k) \<and> pos buf = bytesUsed buf \<and> xo_pdst st = ptr buf + u + a
        \<and> u + a + unat (xo_roomLeft st) + 1 = unat (bufferSize buf))"

definition xml_contents :: "xml_out \<Rightarrow> byte list" where
  "xml_contents st = contents (xo_buf st) @
     window (ptr (xo_buf st) + unat (bytesUsed (xo_buf st))) (unat (xo_bytesAdded st)) (blk (xo_buf st))"

lemma xml_open_ready:
  assumes "room buf k" "pos buf = bytesUsed buf" "unat (bytesUsed buf) < unat (bufferSize buf)"
  shows "xml_ready (xml_open buf) k" "xml_contents (xml_open buf) = contents buf"
proof -
  have "unat (bytesUsed buf + 1) = unat (bytesUsed buf) + 1"
    using assms(3) unat_u32_bound [of "bufferSize buf"] by (intro unat_Suc_u32) linarith
  then have "unat (bufferSize buf - (bytesUsed buf + 1)) = unat (bufferSize buf) - (unat (bytesUsed buf) + 1)"
    using assms(3) by (subst unat_sub) (simp_all add: word_le_nat_alt)
  then show "xml_ready (xml_open buf) k"
    using assms by (simp add: xml_ready_def xml_open_def Let_def GWEN_Buffer_GetPosPointer_def GWEN_Buffer_GetMaxUnsegmentedWrite_def)
  show "xml_contents (xml_open buf) = contents buf" by (simp add: xml_contents_def xml_open_def)
qed

lemma xml_flush_ok:
  assumes "xml_ready st k"
  obtains buf where "xml_flush st = Ret buf" "contents buf = xml_contents st" "room buf k" "pos buf = bytesUsed buf"
proof (cases "xo_bytesAdded st = 0")
  case True
  then show thesis using assms that [of "xo_buf st"] by (simp add: xml_ready_def xml_flush_def xml_contents_def Let_def)
next
  case False
  let ?b = "xo_buf st" and ?n = "unat (xo_bytesAdded st)"
  let ?out = "window (ptr ?b + unat (bytesUsed ?b)) ?n (blk ?b)"
  have r: "room ?b (?n + k)" "pos ?b = bytesUsed ?b" "unat (bytesUsed ?b) + ?n + 1 \<le> unat (bufferSize ?b)"
    using assms by (auto simp: xml_ready_def Let_def)
  have wf: "buf_wf ?b" using r(1) by (rule room_wf)
  have len: "length ?out = ?n" using r(3) wf_bounds(1) [OF wf] by (intro length_window) simp
  have nz: "?out \<noteq> []" using len False by (metis list.size(3) unat_eq_zero)
  have fit: "unat (bytesUsed ?b) + length ?out + 1 \<le> unat (bufferSize ?b)"
    and w: "window (ptr ?b + unat (bytesUsed ?b)) (length ?out) (blk ?b) = ?out" using r(3) len by simp_all
  have n: "of_nat (length ?out) = xo_bytesAdded st" using len by simp
  from AdjustUsedBytes_over [OF wf r(2) fit w nz] obtain b' where
    "GWEN_Buffer_AdjustUsedBytes (snd (GWEN_Buffer_IncrementPos ?b (xo_bytesAdded st))) = Ret (0, b')"
    "buf_wf b'" "contents b' = contents ?b @ ?out" "pos b' = bytesUsed b'" "unat (bytesUsed b') = unat (bytesUsed ?b) + ?n"
    "ptr b' = ptr ?b" "mode b' = mode ?b" "hardLimit b' = hardLimit ?b" "step b' = step ?b" "allocOk b' = allocOk ?b"
    unfolding n len by auto
  then show thesis using r(1) False
    by (intro that [of b']) (auto simp: xml_flush_def xml_contents_def room_def has_mode_def)
qed

lemma xml_write:
  assumes "xml_ready st (Suc k)" "\<not> xo_roomLeft st < 2"
  shows "\<exists>st'. obind (poke (xo_buf st) (xo_pdst st) [c]) (\<lambda>buf. obind (poke buf (xo_pdst st + 1) [0]) (\<lambda>buf.
       Ret \<lparr>xo_buf = buf, xo_pdst = xo_pdst st + 1, xo_roomLeft = xo_roomLeft st - 1, xo_bytesAdded = xo_bytesAdded st + 1\<rparr>)) = Ret st'
    \<and> xml_contents st' = xml_contents st @ [c] \<and> xml_ready st' k"
proof -
  let ?b = "xo_buf st" and ?n = "unat (xo_bytesAdded st)" and ?u = "unat (bytesUsed (xo_buf st))"
  let ?a = "ptr ?b + ?u"
  have r: "room ?b (?n + Suc k)" "pos ?b = bytesUsed ?b" "xo_pdst st = ?a + ?n" "?u + ?n + unat (xo_roomLeft st) + 1 = unat (bufferSize ?b)"
    using assms(1) by (auto simp: xml_ready_def Let_def)
  have two: "2 \<le> unat (xo_roomLeft st)" using assms(2) by (simp add: word_less_nat_alt)
  have wf: "buf_wf ?b" using r(1) by (rule room_wf)
  obtain m where m: "realPtr ?b = Some m" using wf by (auto simp: buf_wf_def)
  have len: "?a + ?n + 2 \<le> length m" using wf_bounds(1) [OF wf] r(4) two m by simp
  let ?m = "write_at (?a + ?n) [c, 0] m"
  have mm: "write_at (?a + ?n + 1) [0] (write_at (?a + ?n) [c] m) = ?m"
    using write_at_write_at [of "?a + ?n" "[c]" m "[0]"] len by simp
  have lm: "length ?m = length m" using len by simp
  let ?b' = "?b\<lparr>realPtr := Some ?m\<rparr>"
  define st' where "st' = \<lparr>xo_buf = ?b', xo_pdst = ?a + ?n + 1, xo_roomLeft = xo_roomLeft st - 1, xo_bytesAdded = xo_bytesAdded st + 1\<rparr>"
  have p1: "poke ?b (?a + ?n) [c] = Ret (?b\<lparr>realPtr := Some (write_at (?a + ?n) [c] m)\<rparr>)" using len m by (simp add: poke_def)
  have p2: "poke (?b\<lparr>realPtr := Some (write_at (?a + ?n) [c] m)\<rparr>) (?a + ?n + 1) [0] = Ret ?b'"
    using len mm by (simp add: poke_def)
  have un: "unat (xo_bytesAdded st + 1) = ?n + 1" using r(4) unat_u32_bound [of "bufferSize ?b"] by (intro unat_Suc_u32) linarith
  have ur: "unat (xo_roomLeft st - 1) = unat (xo_roomLeft st) - 1" using two by (intro unat_minus_one) auto
  have con: "contents ?b' = contents ?b" using len m by (simp add: contents_def window_write_at_after)
  have win: "window ?a (?n + 1) ?m = window ?a ?n m @ [c]"
    using len window_write_at_after [of ?a ?n "?a + ?n" "[c, 0]" m]
    by (subst window_append) (simp add: window_def write_at_def)
  have "xml_contents st' = xml_contents st @ [c]" using con win m un by (simp add: xml_contents_def st'_def)
  moreover have "room ?b' (?n + Suc k)" using r(1) lm m by (simp add: room_def buf_wf_def has_mode_def)
  then have "xml_ready st' k" using r two un ur by (simp add: xml_ready_def Let_def st'_def)
  ultimately show ?thesis using p1 p2 r(3) by (simp add: st'_def)
qed

lemma xml_append_ok:
  assumes "xml_ready st (Suc k)"
  shows "\<exists>st'. GWEN_TEXT__APPENDCHAR st c = Ret st' \<and> xml_contents st' = xml_contents st @ [c] \<and> xml_ready st' k"
proof (cases "xo_roomLeft st < 2")
  case False
  then show ?thesis using xml_write [OF assms False] by (simp add: GWEN_TEXT__APPENDCHAR_def)
next
  case True
  obtain b where b: "xml_flush st = Ret b" "contents b = xml_contents st" "room b (Suc k)" "pos b = bytesUsed b"
    by (rule xml_flush_ok [OF assms])
  obtain b' where b': "GWEN_Buffer_AllocRoom b 2 = Ret (0, b')" using AllocRoom_succeeds [OF b(3), of 2] by auto
  have wf: "buf_wf b" using b(3) by (rule room_wf)
  have "fits b (unat (2 :: u32))" using room_fits [OF b(3)] by simp
  note g = AllocRoom_ok [OF wf this b']
  note f = grown_fields [OF g(1)]
  have r: "room b' (Suc k)" using b(3) f grown_wf [OF wf g(1)] by (simp add: room_def)
  have u: "unat (bytesUsed b') + 3 \<le> unat (bufferSize b')" using g(2) f by simp
  have o: "xml_ready (xml_open b') (Suc k)" "xml_contents (xml_open b') = xml_contents st"
    using xml_open_ready [OF r] b f u grown_contents [OF wf g(1)] by simp_all
  have "\<not> xo_roomLeft (xml_open b') < 2"
    using o(1) u by (simp add: xml_ready_def Let_def xml_open_def word_less_nat_alt)
  from xml_write [OF o(1) this] show ?thesis using True b(1) b' o(2) by (simp add: GWEN_TEXT__APPENDCHAR_def)
qed

interpretation xml: byte_sink xml_ready xml_contents "\<lambda>st c. obind (GWEN_TEXT__APPENDCHAR st c) (\<lambda>st. Ret (0, st))"
proof
  fix b n c
  assume "xml_ready b (Suc n)"
  from xml_append_ok [OF this, of c]
  show "\<exists>b'. obind (GWEN_TEXT__APPENDCHAR b c) (\<lambda>st. Ret (0, st)) = Ret (0, b') \<and> xml_contents b' = xml_contents b @ [c] \<and> xml_ready b' n"
    by auto
qed

lemma xml_puts_appends: "xml_puts st cs = appends (\<lambda>st c. obind (GWEN_TEXT__APPENDCHAR st c) (\<lambda>st. Ret (0, st))) st cs"
  by (induction cs arbitrary: st) (simp_all add: obind_assoc)

section \<open>Round trip\<close>

definition xml_escaped :: "byte list \<Rightarrow> byte list" where
  "xml_escaped s = concat (map (\<lambda>x. case map_of gwen_text__xml_escape_chars x of Some r \<Rightarrow> r | None \<Rightarrow> [x]) s)"

lemma xml_escaped_simps [simp]:
  "xml_escaped [] = []"
  "xml_escaped (x # s) = (case map_of gwen_text__xml_escape_chars x of Some r \<Rightarrow> r | None \<Rightarrow> [x]) @ xml_escaped s"
  by (simp_all add: xml_escaped_def)

text \<open>The first item of an escaped text is its first character.\<close>

lemma xml_item_escaped: "x \<noteq> 0 \<Longrightarrow> xml_item (xml_escaped (x # s) @ r) = Ret ([x], xml_escaped s @ r)"
  by (cases "x = 38"; cases "x = 60"; cases "x = 62"; cases "x = 39"; cases "x = 34")
    (simp_all add: gwen_text__xml_escape_chars_def xml_item_def xml_umlauts_def tolower_def)

lemma xml_escaped_head: "x \<noteq> 0 \<Longrightarrow> xml_escaped (x # s) @ r \<noteq> [] \<and> hd (xml_escaped (x # s) @ r) \<noteq> 0"
  by (simp add: gwen_text__xml_escape_chars_def)

lemma escape_xml:
  assumes "0 \<notin> set s" "room buf (length (xml_escaped s) + n)"
  shows "\<exists>buf'. GWEN_Text_EscapeXmlToBuffer (s @ 0 # r) buf = Ret (0, buf') \<and> contents buf' = contents buf @ xml_escaped s \<and> room buf' n"
  using assms
proof (induction s arbitrary: buf)
  case (Cons x s)
  let ?e = "case map_of gwen_text__xml_escape_chars x of Some r \<Rightarrow> r | None \<Rightarrow> [x]"
  let ?f = "case map_of gwen_text__xml_escape_chars x of Some e \<Rightarrow> GWEN_Buffer_AppendString buf (e @ [0]) | None \<Rightarrow> GWEN_Buffer_AppendByte buf x"
  have r: "room buf (length ?e + (length (xml_escaped s) + n))" using Cons.prems(2) by (simp add: add.assoc)
  have z: "0 \<notin> set ?e" using Cons.prems(1) by (simp add: gwen_text__xml_escape_chars_def)
  have "\<exists>b1. ?f = Ret (0, b1) \<and> contents b1 = contents buf @ ?e \<and> room b1 (length (xml_escaped s) + n)"
    using r z AppendString_room [of buf _ "length (xml_escaped s) + n" "[]"] buf.app1 [of buf "length (xml_escaped s) + n" x]
    by (cases "map_of gwen_text__xml_escape_chars x") auto
  then obtain b1 where b1: "?f = Ret (0, b1)" "contents b1 = contents buf @ ?e" "room b1 (length (xml_escaped s) + n)" by blast
  have "x \<noteq> 0" using Cons.prems(1) by auto
  with Cons.IH [OF _ b1(3)] Cons.prems(1) b1(1,2) show ?case by simp
qed simp

lemma unescape_xml:
  assumes "0 \<notin> set s" "xml_ready st (length s + n)"
  shows "\<exists>st'. xml_unescape (xml_escaped s @ 0 # r) st = Ret st' \<and> xml_contents st' = xml_contents st @ s \<and> xml_ready st' n"
  using assms
proof (induction s arbitrary: st)
  case Nil
  then show ?case by (simp add: xml_unescape.simps)
next
  case (Cons x s)
  have x: "x \<noteq> 0" "0 \<notin> set s" using Cons.prems(1) by auto
  obtain s1 where s1: "GWEN_TEXT__APPENDCHAR st x = Ret s1" "xml_contents s1 = xml_contents st @ [x]" "xml_ready s1 (length s + n)"
    using xml_append_ok [of st "length s + n" x] Cons.prems(2) by auto
  have "xml_unescape (xml_escaped (x # s) @ 0 # r) st = xml_unescape (xml_escaped s @ 0 # r) s1"
    using xml_escaped_head [OF x(1), of s "0 # r"] xml_item_escaped [OF x(1), of s "0 # r"] s1(1)
    by (subst xml_unescape.simps) simp
  with Cons.IH [OF x(2) s1(3)] s1(2) show ?case by simp
qed

text \<open>C12. A text escaped for XML has no markup left in it, and unescaping gives it back.\<close>

theorem xml_roundtrip:
  assumes "0 \<notin> set s" "room b1 (length (xml_escaped s) + n)" "room b2 (length s + n)" "pos b2 = bytesUsed b2"
    "unat (bytesUsed b2) < unat (bufferSize b2)"
  shows "\<exists>e b1' b2'. GWEN_Text_EscapeXmlToBuffer (s @ [0]) b1 = Ret (0, b1') \<and> contents b1' = contents b1 @ e
    \<and> set e \<inter> {60, 62, 34, 39} = {}
    \<and> GWEN_Text_UnescapeXmlToBuffer (e @ [0]) b2 = Ret (0, b2') \<and> contents b2' = contents b2 @ s"
proof -
  obtain b1' where e: "GWEN_Text_EscapeXmlToBuffer (s @ [0]) b1 = Ret (0, b1')" "contents b1' = contents b1 @ xml_escaped s"
    using escape_xml [OF assms(1,2), of "[]"] by blast
  note o = xml_open_ready [OF assms(3-5)]
  obtain st where st: "xml_unescape (xml_escaped s @ [0]) (xml_open b2) = Ret st" "xml_contents st = contents b2 @ s" "xml_ready st n"
    using unescape_xml [OF assms(1) o(1), of "[]"] o(2) by auto
  obtain b2' where f: "xml_flush st = Ret b2'" "contents b2' = xml_contents st" by (rule xml_flush_ok [OF st(3)])
  have "set (xml_escaped s) \<inter> {60, 62, 34, 39} = {}"
    by (induction s) (auto simp: gwen_text__xml_escape_chars_def split: if_splits)
  with e st(1,2) f show ?thesis by (auto simp: GWEN_Text_UnescapeXmlToBuffer_def)
qed

lemma new_room:
  obtains buf where "room buf 20" "pos buf = bytesUsed buf" "unat (bytesUsed buf) < unat (bufferSize buf)" "contents buf = []"
proof -
  obtain bf where b: "buf_wf bf" "nul_terminated bf" "contents bf = []" "pos bf = 0" "bytesUsed bf = 0" "ptr bf = 0"
    "mode bf = GWEN_BUFFER_MODE_DEFAULT" "hardLimit bf = 5000" "step bf = 1024" "allocOk bf = (\<lambda>_. True)"
    using new_buffer [of 8 "\<lambda>_. True" 5000 "\<lambda>_. 0" True] by auto
  then have "room bf 20" by (simp add: room_def has_mode_def buffer_consts)
  with b show thesis by (intro that [of bf]) (simp_all add: nul_terminated_def)
qed

theorem xml_roundtrip_witness:
  "\<exists>b e b1 b2. contents b = [] \<and> GWEN_Text_EscapeXmlToBuffer ([97, 38, 60] @ [0]) b = Ret (0, b1) \<and> contents b1 = e
     \<and> GWEN_Text_UnescapeXmlToBuffer (e @ [0]) b = Ret (0, b2) \<and> contents b2 = [97, 38, 60]"
proof -
  obtain b where b: "room b 20" "pos b = bytesUsed b" "unat (bytesUsed b) < unat (bufferSize b)" "contents b = []" by (rule new_room)
  have l: "length (xml_escaped [97, 38, 60]) = 10" by (simp add: gwen_text__xml_escape_chars_def)
  have r: "room b (length (xml_escaped [97, 38, 60]) + 5)" "room b (length [97, 38, 60 :: byte] + 5)"
    unfolding l using b(1) by (auto intro: room_mono)
  from xml_roundtrip [OF _ r b(2,3)] b(4) show ?thesis by fastforce
qed

text \<open>A number at the end of the text: the NUL is taken for the character behind it, and reading goes on past it. An
  entity behind a number is not recognised.\<close>

lemma xml_number_overread:
  assumes "room buf 2" "pos buf = bytesUsed buf" "unat (bytesUsed buf) < unat (bufferSize buf)"
  shows "GWEN_Text_UnescapeXmlToBuffer [38, 35, 54, 53, 59, 0] buf = Fault"
proof -
  have i: "xml_item [38, 35, 54, 53, 59, 0] = Ret ([65, 0], [])" by code_simp
  have "xml_ready (xml_open buf) (length [65, 0 :: byte] + 0)" using xml_open_ready(1) [OF assms] by (simp add: numeral_2_eq_2)
  from xml.appends_law [OF this] obtain st where "xml_puts (xml_open buf) [65, 0] = Ret st" by (auto simp: xml_puts_appends)
  then show ?thesis
    by (simp add: GWEN_Text_UnescapeXmlToBuffer_def i xml_unescape.simps [of "[38, 35, 54, 53, 59, 0]"] xml_unescape.simps [of "[]"])
qed

lemma xml_number_entity: "xml_item [38, 35, 54, 53, 59, 38, 108, 116, 59, 0] = Ret ([65, 38], [108, 116, 59, 0])"
  by code_simp

end
