(* ===== verification/Gwen_Pattern.thy ===== *)
theory Gwen_Pattern
  imports Gwen_TextProps
begin

text \<open>
  Comparing and searching texts, \<^verbatim>\<open>src/parser/text.c\<close>: comparison with and without case, search of a text in another,
  and patterns with the wildcards \<open>*\<close> and \<open>?\<close>. A text is the list of its bytes without the NUL; a pointer into it
  is what is left from there on.
\<close>

section \<open>Comparison and search\<close>

text \<open>\<^verbatim>\<open>strcmp\<close>: only the sign of the result is specified.\<close>

fun strcmp_sign :: "byte list \<Rightarrow> byte list \<Rightarrow> int" where
  "strcmp_sign [] [] = 0"
| "strcmp_sign [] (b # t) = -1"
| "strcmp_sign (a # s) [] = 1"
| "strcmp_sign (a # s) (b # t) = (if a = b then strcmp_sign s t else if a < b then -1 else 1)"

text \<open>A null pointer is \<open>None\<close>; an empty text is treated like one.\<close>

definition GWEN_Text_Compare :: "byte list option \<Rightarrow> byte list option \<Rightarrow> bool \<Rightarrow> int" where
  "GWEN_Text_Compare s1 s2 ign =
    (let s1 = (if s1 = Some [] then None else s1);
         s2 = (if s2 = Some [] then None else s2)
     in case (s1, s2) of
          (None, None) \<Rightarrow> 0
        | (None, Some _) \<Rightarrow> 1
        | (Some _, None) \<Rightarrow> -1
        | (Some a, Some b) \<Rightarrow> if ign then strcmp_sign (map tolower a) (map tolower b) else strcmp_sign a b)"

fun strcase_follow :: "byte list \<Rightarrow> byte list \<Rightarrow> bool" where
  "strcase_follow (a # t) (b # s) = (if tolower a = tolower b then strcase_follow t s else False)"
| "strcase_follow t s = (s = [])"

fun GWEN_Text_StrCaseStr :: "byte list \<Rightarrow> byte list \<Rightarrow> byte list option" where
  "GWEN_Text_StrCaseStr [] needle = None"
| "GWEN_Text_StrCaseStr (h # haystack) [] = None"
| "GWEN_Text_StrCaseStr (h # haystack) (c # needle) =
    (if tolower h = tolower c \<and> strcase_follow haystack needle then Some (h # haystack)
     else GWEN_Text_StrCaseStr haystack (c # needle))"

section \<open>Patterns\<close>

text \<open>A segment of the pattern, up to the next star: whether it matches here, what is left of word and pattern, and the
  number of characters that matched exactly.\<close>

fun cmpSegment :: "bool \<Rightarrow> byte list \<Rightarrow> byte list \<Rightarrow> nat \<Rightarrow> bool \<times> byte list \<times> byte list \<times> nat" where
  "cmpSegment sensecase (a # w) (b # p) matches =
    (if b = 42 then (True, a # w, b # p, matches)
     else
       (let a' = (if sensecase then a else toupper a);
            b' = (if sensecase then b else toupper b);
            m = (if a' = b' then matches + 1 else matches)
        in if a' \<noteq> b' \<and> b' \<noteq> 63 then (False, a # w, b # p, m)
           else cmpSegment sensecase w p m))"
| "cmpSegment sensecase [] [] matches = (True, [], [], matches)"
| "cmpSegment sensecase [] (b # p) matches = (b = 42, [], b # p, matches)"
| "cmpSegment sensecase (a # w) [] matches = (False, a # w, [], matches)"

fun findSegment :: "bool \<Rightarrow> byte list \<Rightarrow> byte list \<Rightarrow> nat \<Rightarrow> (byte list \<times> byte list \<times> nat) option" where
  "findSegment sensecase [] p matches = None"
| "findSegment sensecase (a # w) p matches =
    (case cmpSegment sensecase (a # w) p matches of
       (True, r) \<Rightarrow> Some r
     | (False, _) \<Rightarrow> findSegment sensecase w p matches)"

lemma cmpSegment_length: "cmpSegment sc w p m = (ok, w', p', m') \<Longrightarrow> length p' \<le> length p"
proof (induction sc w p m rule: cmpSegment.induct)
  case (1 sc a w b p m)
  show ?case
  proof (cases "cmpSegment sc (a # w) (b # p) m = (ok, a # w, b # p, m')")
    case False
    with 1(2) have "\<exists>k. cmpSegment sc w p k = (ok, w', p', m')" by (auto simp: Let_def split: if_splits)
    with 1 show ?thesis by (auto simp: Let_def le_SucI split: if_splits)
  qed (use 1(2) in auto)
qed auto

lemma findSegment_length: "findSegment sc w p m = Some (w', p', m') \<Longrightarrow> length p' \<le> length p"
  by (induction sc w p m rule: findSegment.induct) (auto split: prod.splits bool.splits dest: cmpSegment_length)

function pattern_loop :: "bool \<Rightarrow> byte list \<Rightarrow> byte list \<Rightarrow> nat \<Rightarrow> nat option" where
  "pattern_loop sensecase w p matches =
    (case p of
       [] \<Rightarrow> Some matches
     | _ # p \<Rightarrow>
         if p = [] then Some matches
         else (case findSegment sensecase w p matches of
                 None \<Rightarrow> None
               | Some (w, p, matches) \<Rightarrow> pattern_loop sensecase w p matches))"
  by pat_completeness auto
termination
  by (relation "measure (\<lambda>(sc, w, p, m). length p)") (auto dest: findSegment_length)

declare pattern_loop.simps [simp del]

text \<open>The number of matches is an unsigned integer that is returned as an \<^verbatim>\<open>int\<close>.\<close>

definition GWEN_Text_ComparePattern :: "byte list \<Rightarrow> byte list \<Rightarrow> bool \<Rightarrow> int" where
  "GWEN_Text_ComparePattern w p sensecase =
    (case cmpSegment sensecase w p 0 of
       (False, _) \<Rightarrow> -1
     | (True, w, p, matches) \<Rightarrow>
         (case pattern_loop sensecase w p matches of
            None \<Rightarrow> -1
          | Some m \<Rightarrow> sint (of_nat m :: 32 word)))"

section \<open>Searching finds the first occurrence\<close>

abbreviation occurs_at :: "byte list \<Rightarrow> byte list \<Rightarrow> bool" where
  "occurs_at needle t \<equiv> take (length needle) (map tolower t) = map tolower needle"

lemma strcase_follow_iff: "strcase_follow t s \<longleftrightarrow> occurs_at s t"
  by (induction t s rule: strcase_follow.induct) auto

lemma first_at_0: "P 0 \<Longrightarrow> 0 < n \<Longrightarrow> (\<exists>k < n. t = f k \<and> P k \<and> (\<forall>j < k. \<not> P j)) \<longleftrightarrow> t = f 0" for P :: "nat \<Rightarrow> bool"
  by (metis gr_zeroI less_zeroE)

text \<open>Searching a text in another, without regard to case, gives the rest from the first place on where it occurs;
  nothing is found exactly if it occurs nowhere. An empty text is never found.\<close>

theorem text_search:
  "(GWEN_Text_StrCaseStr haystack needle = Some t \<longleftrightarrow>
      needle \<noteq> [] \<and> (\<exists>k < length haystack. t = drop k haystack \<and> occurs_at needle (drop k haystack)
        \<and> (\<forall>j < k. \<not> occurs_at needle (drop j haystack))))
   \<and> (GWEN_Text_StrCaseStr haystack needle = None \<longleftrightarrow>
      needle = [] \<or> (\<forall>k < length haystack. \<not> occurs_at needle (drop k haystack)))"
proof (induction haystack needle arbitrary: t rule: GWEN_Text_StrCaseStr.induct)
  case (3 h haystack c needle)
  show ?case
  proof (cases "occurs_at (c # needle) (h # haystack)")
    case True
    then have "GWEN_Text_StrCaseStr (h # haystack) (c # needle) = Some (h # haystack)"
      by (simp add: strcase_follow_iff)
    then show ?thesis
      using True first_at_0 [of "\<lambda>k. occurs_at (c # needle) (drop k (h # haystack))" "length (h # haystack)" t "\<lambda>k. drop k (h # haystack)"]
      by (auto simp del: GWEN_Text_StrCaseStr.simps)
  next
    case False
    then have s: "GWEN_Text_StrCaseStr (h # haystack) (c # needle) = GWEN_Text_StrCaseStr haystack (c # needle)"
      by (auto simp: strcase_follow_iff)
    have ih: "(GWEN_Text_StrCaseStr haystack (c # needle) = Some t \<longleftrightarrow>
        (\<exists>k < length haystack. t = drop k haystack \<and> occurs_at (c # needle) (drop k haystack)
          \<and> (\<forall>j < k. \<not> occurs_at (c # needle) (drop j haystack))))"
      "GWEN_Text_StrCaseStr haystack (c # needle) = None \<longleftrightarrow> (\<forall>k < length haystack. \<not> occurs_at (c # needle) (drop k haystack))"
      using 3 [of t] False by (auto simp: strcase_follow_iff)
    show ?thesis
      unfolding s ih using False by (auto simp: Ex_less_Suc2 All_less_Suc2)
  qed
qed auto

section \<open>What a pattern means\<close>

definition same_char :: "bool \<Rightarrow> byte \<Rightarrow> byte \<Rightarrow> bool" where
  "same_char sensecase a b \<longleftrightarrow> (if sensecase then a = b else toupper a = toupper b)"

text \<open>A star stands for any text, a question mark for any character.\<close>

fun glob :: "bool \<Rightarrow> byte list \<Rightarrow> byte list \<Rightarrow> bool" where
  "glob sensecase [] w \<longleftrightarrow> w = []"
| "glob sensecase (b # p) w \<longleftrightarrow>
    (if b = 42 then list_ex (\<lambda>k. glob sensecase p (drop k w)) [0 ..< Suc (length w)]
     else case w of [] \<Rightarrow> False | a # w \<Rightarrow> (b = 63 \<or> same_char sensecase a b) \<and> glob sensecase p w)"

declare glob.simps(2) [simp del]

lemma glob_star: "glob sc (42 # p) w \<longleftrightarrow> (\<exists>k \<le> length w. glob sc p (drop k w))"
  by (auto simp: glob.simps(2) list_ex_iff less_Suc_eq_le simp del: upt_Suc)

lemma glob_char: "b \<noteq> 42 \<Longrightarrow> glob sc (b # p) (a # w) \<longleftrightarrow> (b = 63 \<or> same_char sc a b) \<and> glob sc p w"
  "b \<noteq> 42 \<Longrightarrow> \<not> glob sc (b # p) []"
  by (simp_all add: glob.simps(2))

lemma toupper_quest: "toupper b = 63 \<longleftrightarrow> b = 63"
  by (auto simp: toupper_def word_le_nat_alt unat_sub_if' dest: arg_cong [of _ _ unat])

text \<open>A segment that matches leaves a word that still has to match the rest; one that does not match rules out a match.\<close>

lemma cmpSegment_glob:
  assumes "cmpSegment sc w p m = (ok, w', p', m')"
  shows "glob sc p w \<longleftrightarrow> ok \<and> glob sc p' w'" "ok \<Longrightarrow> p' = [] \<and> w' = [] \<or> p' \<noteq> [] \<and> hd p' = 42" "m' + length w' \<le> m + length w"
proof -
  have "(glob sc p w \<longleftrightarrow> ok \<and> glob sc p' w') \<and> (ok \<longrightarrow> p' = [] \<and> w' = [] \<or> p' \<noteq> [] \<and> hd p' = 42)
      \<and> m' + length w' \<le> m + length w"
    using assms
  proof (induction sc w p m rule: cmpSegment.induct)
    case (1 sc a w b p m)
    let ?a = "if sc then a else toupper a" and ?b = "if sc then b else toupper b"
    let ?m = "if ?a = ?b then m + 1 else m"
    consider "b = 42" | "b \<noteq> 42" "?a \<noteq> ?b" "?b \<noteq> 63" | "b \<noteq> 42" "?a = ?b \<or> ?b = 63" by blast
    then show ?case
    proof cases
      case 3
      then have "cmpSegment sc w p ?m = (ok, w', p', m')" using 1(2) by (auto simp: Let_def split: if_splits)
      from 1(1) [OF 3(1) refl refl refl _ this] 3 show ?thesis
        by (auto simp: glob_char same_char_def toupper_quest split: if_splits)
    next
      case 2
      then have "\<not> ok" "w' = a # w" "m' = m" using 1(2) by (auto simp: Let_def split: if_splits)
      with 2 show ?thesis by (auto simp: glob_char same_char_def toupper_quest split: if_splits)
    qed (use 1(2) in auto)
  qed (auto simp: glob_star glob_char)
  then show "glob sc p w \<longleftrightarrow> ok \<and> glob sc p' w'" "ok \<Longrightarrow> p' = [] \<and> w' = [] \<or> p' \<noteq> [] \<and> hd p' = 42" "m' + length w' \<le> m + length w"
    by blast+
qed

lemma cmpSegment_rest:
  "cmpSegment sc w p m = (True, w', p', m') \<Longrightarrow> p' = dropWhile (\<lambda>c. c \<noteq> 42) p \<and> w' = drop (length (takeWhile (\<lambda>c. c \<noteq> 42) p)) w"
proof (induction sc w p m rule: cmpSegment.induct)
  case (1 sc a w b p m)
  then show ?case by (cases "b = 42") (auto simp: Let_def split: if_splits)
qed (auto split: if_splits)

lemma glob_star_drop: "glob sc (42 # q) (drop k w) \<Longrightarrow> glob sc (42 # q) w"
proof -
  assume "glob sc (42 # q) (drop k w)"
  then obtain j where "glob sc q (drop (j + k) w)" by (auto simp: glob_star)
  moreover have "drop (j + k) w = drop (min (j + k) (length w)) w" by (simp add: min_def)
  ultimately show "glob sc (42 # q) w" unfolding glob_star by (metis min.cobounded2)
qed

lemma glob_star_Cons: "glob sc (42 # p) (a # w) \<longleftrightarrow> glob sc p (a # w) \<or> glob sc (42 # p) w"
proof -
  have "(\<exists>k \<le> Suc (length w). glob sc p (drop k (a # w))) \<longleftrightarrow> glob sc p (a # w) \<or> (\<exists>k \<le> length w. glob sc p (drop k w))"
    by (simp add: less_Suc_eq_le [symmetric] Ex_less_Suc2)
  then show ?thesis by (simp add: glob_star)
qed

text \<open>It is enough to look for the first place where a segment matches.\<close>

lemma cmpSegment_first:
  assumes "cmpSegment sc w p m = (True, w', p', m')" "glob sc p (drop k w)"
  shows "glob sc p' w'"
proof -
  obtain ok w2 p2 m2 where c: "cmpSegment sc (drop k w) p m = (ok, w2, p2, m2)" by (metis prod_cases4)
  have ok: "ok" "glob sc p2 w2" using cmpSegment_glob(1) [OF c] assms(2) by auto
  then have "p2 = p'" "w2 = drop k w'"
    using cmpSegment_rest [OF assms(1)] cmpSegment_rest [of sc "drop k w" p m] c by (auto simp: add.commute)
  moreover have "p' = [] \<and> w' = [] \<or> p' \<noteq> [] \<and> hd p' = 42" using cmpSegment_glob(2) [OF assms(1)] by simp
  ultimately show ?thesis using ok(2) glob_star_drop [of sc "tl p'" k w'] by (cases p') auto
qed

lemma findSegment_glob:
  assumes "findSegment sc w p m = Some (w', p', m')"
  shows "glob sc p' w' \<longleftrightarrow> glob sc (42 # p) w" "p' = [] \<and> w' = [] \<or> p' \<noteq> [] \<and> hd p' = 42"
    "m' + length w' \<le> m + length w" "p' = dropWhile (\<lambda>c. c \<noteq> 42) p"
proof -
  have "(glob sc p' w' \<longleftrightarrow> glob sc (42 # p) w) \<and> (p' = [] \<and> w' = [] \<or> p' \<noteq> [] \<and> hd p' = 42)
      \<and> m' + length w' \<le> m + length w \<and> p' = dropWhile (\<lambda>c. c \<noteq> 42) p"
    using assms
  proof (induction sc w p m rule: findSegment.induct)
    case (2 sc a w p m)
    obtain ok w2 p2 m2 where c: "cmpSegment sc (a # w) p m = (ok, w2, p2, m2)" by (metis prod_cases4)
    show ?case
    proof (cases ok)
      case True
      then have "w2 = w'" "p2 = p'" "m2 = m'" using 2(2) c by auto
      with c True have c': "cmpSegment sc (a # w) p m = (True, w', p', m')" by simp
      have "glob sc (42 # p) (a # w) \<longleftrightarrow> glob sc p' w'"
        using cmpSegment_first [OF c'] cmpSegment_glob(1) [OF c'] by (auto simp: glob_star intro: exI [of _ 0])
      then show ?thesis using cmpSegment_glob(2,3) [OF c'] cmpSegment_rest [OF c'] by auto
    next
      case False
      then have "\<not> glob sc p (a # w)" using cmpSegment_glob(1) [OF c] by simp
      then have "glob sc (42 # p) (a # w) \<longleftrightarrow> glob sc (42 # p) w"
        by (simp add: glob_star_Cons)
      then show ?thesis using 2(1) [OF c [symmetric]] 2(2) c False by auto
    qed
  qed simp
  then show "glob sc p' w' \<longleftrightarrow> glob sc (42 # p) w" "p' = [] \<and> w' = [] \<or> p' \<noteq> [] \<and> hd p' = 42"
    "m' + length w' \<le> m + length w" "p' = dropWhile (\<lambda>c. c \<noteq> 42) p" by blast+
qed

lemma findSegment_None:
  "findSegment sc w p m = None \<Longrightarrow> p \<noteq> [] \<Longrightarrow> hd p \<noteq> 42 \<Longrightarrow> \<not> glob sc (42 # p) w"
proof (induction sc w p m rule: findSegment.induct)
  case (1 sc p m)
  then show ?case by (cases p) (auto simp: glob_star glob_char)
next
  case (2 sc a w p m)
  obtain ok w2 p2 m2 where c: "cmpSegment sc (a # w) p m = (ok, w2, p2, m2)" by (metis prod_cases4)
  with 2(2) have "\<not> ok" "findSegment sc w p m = None" by (auto split: bool.splits)
  then have "\<not> glob sc (42 # p) w" "\<not> glob sc p (a # w)" using 2 c cmpSegment_glob(1) [OF c] by auto
  then show ?case by (simp add: glob_star_Cons)
qed

fun double_star :: "byte list \<Rightarrow> bool" where
  "double_star (a # b # p) \<longleftrightarrow> a = 42 \<and> b = 42 \<or> double_star (b # p)"
| "double_star p \<longleftrightarrow> False"

lemma double_star_tl: "double_star p \<Longrightarrow> double_star (a # p)"
  by (cases p) auto

lemma double_star_dropWhile: "double_star (dropWhile P p) \<Longrightarrow> double_star p"
  by (induction p) (auto intro: double_star_tl split: if_splits)

lemma pattern_loop_glob:
  assumes "p = [] \<and> w = [] \<or> p \<noteq> [] \<and> hd p = 42"
  shows "(\<forall>r. pattern_loop sc w p m = Some r \<longrightarrow> glob sc p w \<and> r \<le> m + length w)
    \<and> (pattern_loop sc w p m = None \<longrightarrow> double_star p \<or> \<not> glob sc p w)"
  using assms
proof (induction sc w p m rule: pattern_loop.induct)
  case (1 sc w p m)
  show ?case
  proof (cases "p = [] \<or> tl p = []")
    case True
    then show ?thesis using 1(2) by (cases p) (auto simp: pattern_loop.simps glob_star intro: exI [of _ "length w"])
  next
    case False
    then obtain q where p: "p = 42 # q" "q \<noteq> []" using 1(2) by (cases p) auto
    show ?thesis
    proof (cases "findSegment sc w q m")
      case None
      then have "pattern_loop sc w p m = None" using p by (simp add: pattern_loop.simps [of sc w])
      moreover have "double_star p \<or> \<not> glob sc p w"
        using findSegment_None [OF None p(2)] p by (cases q) auto
      ultimately show ?thesis by simp
    next
      case (Some x)
      obtain w' p' m' where x: "x = (w', p', m')" by (cases x)
      have loop: "pattern_loop sc w p m = pattern_loop sc w' p' m'"
        using p Some x by (simp add: pattern_loop.simps [of sc w])
      note f = findSegment_glob [OF Some [unfolded x]]
      have "double_star p' \<Longrightarrow> double_star p" using f(4) p double_star_dropWhile double_star_tl by blast
      moreover note ih = 1(1) [OF p(1,2) Some x [symmetric] refl f(2)]
      moreover have "r \<le> m + length w" if "pattern_loop sc w' p' m' = Some r" for r
        using ih [THEN conjunct1, rule_format, OF that] f(3) by simp
      ultimately show ?thesis unfolding loop unfolding p(1) f(1) [symmetric] by blast
    qed
  qed
qed

text \<open>C6. A word matches a pattern exactly if the pattern describes it, unless two stars follow one another; a match
  is reported as a number of characters, at most the length of the word. With two adjacent stars what is reported
  is still a match.\<close>

theorem text_pattern:
  assumes "length w < 2 ^ 31"
  shows "(GWEN_Text_ComparePattern w p sensecase \<noteq> -1 \<longrightarrow> glob sensecase p w)
    \<and> (glob sensecase p w \<longrightarrow> double_star p \<or> GWEN_Text_ComparePattern w p sensecase \<noteq> -1)
    \<and> -1 \<le> GWEN_Text_ComparePattern w p sensecase \<and> GWEN_Text_ComparePattern w p sensecase \<le> int (length w)"
proof -
  obtain ok w' p' m' where c: "cmpSegment sensecase w p 0 = (ok, w', p', m')" by (metis prod_cases4)
  note g = cmpSegment_glob [OF c]
  show ?thesis
  proof (cases ok)
    case False
    then show ?thesis using c g by (simp add: GWEN_Text_ComparePattern_def)
  next
    case True
    note l = pattern_loop_glob [OF g(2) [OF True], of sensecase m']
    have d: "double_star p' \<Longrightarrow> double_star p" using cmpSegment_rest [of sensecase w p 0] c True double_star_dropWhile by auto
    have s: "sint (of_nat m :: 32 word) = int m" if "m \<le> m' + length w'" for m
      using that g(3) assms by (simp add: signed_of_nat signed_take_bit_int_eq_self)
    show ?thesis
      using c True l d g(1,3) s by (cases "pattern_loop sensecase w' p' m'") (auto simp: GWEN_Text_ComparePattern_def)
  qed
qed

theorem text_pattern_witness:
  "GWEN_Text_ComparePattern [97, 66, 99, 100] [65, 42, 63, 68] False = 2 \<and> glob False [65, 42, 63, 68] [97, 66, 99, 100]"
proof -
  have "GWEN_Text_ComparePattern [97, 66, 99, 100] [65, 42, 63, 68] False = 2" by code_simp
  with text_pattern [of "[97, 66, 99, 100]" "[65, 42, 63, 68]" False] show ?thesis by simp
qed

text \<open>Two stars at the end of the word are not recognised.\<close>

lemma pattern_double_star: "GWEN_Text_ComparePattern [97] [97, 42, 42] True = -1" "glob True [97, 42, 42] [97]"
  by code_simp+

end
