(* ===== verification/Gwen_Words.thy ===== *)
theory Gwen_Words
  imports Gwen_Pattern Gwen_DateText
begin

text \<open>
  Words, blanks, numbers and characters of \<^verbatim>\<open>src/parser/text.c\<close>: a text is cut at delimiters, with quotes and
  backslashes. A text is the list of its bytes without the NUL; a pointer into it is what is left from there on.
\<close>

section \<open>Flags\<close>

definition GWEN_TEXT_FLAGS_DEL_LEADING_BLANKS :: u32 where "GWEN_TEXT_FLAGS_DEL_LEADING_BLANKS = 0x00000001"
definition GWEN_TEXT_FLAGS_DEL_TRAILING_BLANKS :: u32 where "GWEN_TEXT_FLAGS_DEL_TRAILING_BLANKS = 0x00000002"
definition GWEN_TEXT_FLAGS_DEL_MULTIPLE_BLANKS :: u32 where "GWEN_TEXT_FLAGS_DEL_MULTIPLE_BLANKS = 0x00000004"
definition GWEN_TEXT_FLAGS_NEED_DELIMITER :: u32 where "GWEN_TEXT_FLAGS_NEED_DELIMITER = 0x00000008"
definition GWEN_TEXT_FLAGS_NULL_IS_DELIMITER :: u32 where "GWEN_TEXT_FLAGS_NULL_IS_DELIMITER = 0x00000010"
definition GWEN_TEXT_FLAGS_DEL_QUOTES :: u32 where "GWEN_TEXT_FLAGS_DEL_QUOTES = 0x00000020"
definition GWEN_TEXT_FLAGS_CHECK_BACKSLASH :: u32 where "GWEN_TEXT_FLAGS_CHECK_BACKSLASH = 0x00000040"

lemmas text_flags = GWEN_TEXT_FLAGS_DEL_LEADING_BLANKS_def GWEN_TEXT_FLAGS_DEL_TRAILING_BLANKS_def
  GWEN_TEXT_FLAGS_DEL_MULTIPLE_BLANKS_def GWEN_TEXT_FLAGS_NEED_DELIMITER_def GWEN_TEXT_FLAGS_NULL_IS_DELIMITER_def
  GWEN_TEXT_FLAGS_DEL_QUOTES_def GWEN_TEXT_FLAGS_CHECK_BACKSLASH_def

abbreviation has :: "u32 \<Rightarrow> u32 \<Rightarrow> bool" where
  "has fl f \<equiv> fl AND f \<noteq> 0"

section \<open>Words into a block of memory\<close>

text \<open>The loop over the characters. It ends with the rest of the source, the position behind the last blank, and whether
  a quote is open, or with \<open>None\<close> at a stray quote.\<close>

fun getword_loop ::
  "u32 \<Rightarrow> byte list \<Rightarrow> u32 \<Rightarrow> byte list \<Rightarrow> bool \<Rightarrow> u32 option \<Rightarrow> bool \<Rightarrow> bool \<Rightarrow> u32 \<Rightarrow> byte list \<Rightarrow>
     ((byte list \<times> u32 option \<times> bool) option \<times> u32 \<times> byte list) outcome" where
  "getword_loop fl delims maxsize [] blank blankPos quotes esc sz buffer = Ret (Some ([], blankPos, quotes), sz, buffer)"
| "getword_loop fl delims maxsize (c # src) blank blankPos quotes esc sz buffer =
    (if \<not> sz < maxsize - 1 then Ret (Some (c # src, blankPos, quotes), sz, buffer)
     else if esc then
       obind (text_put buffer sz [c]) (\<lambda>buffer. getword_loop fl delims maxsize src False None quotes False (sz + 1) buffer)
     else if c = 92 \<and> has fl GWEN_TEXT_FLAGS_CHECK_BACKSLASH then
       getword_loop fl delims maxsize src False None quotes True sz buffer
     else if \<not> quotes \<and> c \<in> set delims then Ret (Some (c # src, blankPos, quotes), sz, buffer)
     else if c = 34 then (if quotes then Ret (Some (src, blankPos, False), sz, buffer) else Ret (None, sz, buffer))
     else
       obind (if quotes \<or> \<not> blank \<or> \<not> has fl GWEN_TEXT_FLAGS_DEL_MULTIPLE_BLANKS
              then obind (text_put buffer sz [c]) (\<lambda>buffer. Ret (sz + 1, buffer)) else Ret (sz, buffer))
         (\<lambda>(sz, buffer). getword_loop fl delims maxsize src (isspace c) (if isspace c then Some sz else None) quotes False sz buffer))"

text \<open>What is checked behind the word.\<close>

definition word_ends :: "u32 \<Rightarrow> byte list \<Rightarrow> byte list \<Rightarrow> bool" where
  "word_ends fl delims src \<longleftrightarrow>
    (has fl GWEN_TEXT_FLAGS_NEED_DELIMITER \<longrightarrow>
       (case src of [] \<Rightarrow> has fl GWEN_TEXT_FLAGS_NULL_IS_DELIMITER | c # _ \<Rightarrow> c \<in> set delims))"

text \<open>The result is the rest of the source, or \<open>None\<close> for a null pointer, with the memory.\<close>

definition GWEN_Text_GetWord ::
  "byte list \<Rightarrow> byte list \<Rightarrow> byte list \<Rightarrow> u32 \<Rightarrow> u32 \<Rightarrow> (byte list option \<times> byte list) outcome" where
  "GWEN_Text_GetWord src delims buffer maxsize fl =
     obind (oassert (maxsize \<noteq> 0)) (\<lambda>_.
       let src = (if has fl GWEN_TEXT_FLAGS_DEL_LEADING_BLANKS then dropWhile (\<lambda>c. c < 33) src else src);
           quotes = (src \<noteq> [] \<and> hd src = 34);
           src = (if quotes \<and> has fl GWEN_TEXT_FLAGS_DEL_QUOTES then tl src else src)
       in obind (getword_loop fl delims maxsize src False None quotes False 0 buffer) (\<lambda>(r, sz, buffer).
            case r of
              None \<Rightarrow> Ret (None, buffer)
            | Some (src, blankPos, quotes) \<Rightarrow>
                obind (text_put buffer sz [0]) (\<lambda>buffer.
                  if quotes \<or> \<not> word_ends fl delims src then Ret (None, buffer)
                  else obind (case blankPos of
                                None \<Rightarrow> Ret buffer
                              | Some p \<Rightarrow> if has fl GWEN_TEXT_FLAGS_DEL_TRAILING_BLANKS then text_put buffer p [0] else Ret buffer)
                         (\<lambda>buffer. Ret (Some src, buffer)))))"

section \<open>Words into a buffer\<close>

fun word_loop ::
  "u32 \<Rightarrow> byte list \<Rightarrow> byte list \<Rightarrow> bool \<Rightarrow> u32 option \<Rightarrow> bool \<Rightarrow> bool \<Rightarrow> gwen_buffer \<Rightarrow>
     ((byte list \<times> u32 option \<times> bool) option \<times> gwen_buffer) outcome" where
  "word_loop fl delims [] blank blankPos quotes esc buf = Ret (Some ([], blankPos, quotes), buf)"
| "word_loop fl delims (c # src) blank blankPos quotes esc buf =
    (if esc then
       obind (GWEN_Buffer_AppendByte buf c) (\<lambda>(_, buf). word_loop fl delims src False None quotes False buf)
     else if c = 92 \<and> has fl GWEN_TEXT_FLAGS_CHECK_BACKSLASH then word_loop fl delims src False None quotes True buf
     else if \<not> quotes \<and> c \<in> set delims then Ret (Some (c # src, blankPos, quotes), buf)
     else if c = 34 then (if quotes then Ret (Some (src, blankPos, False), buf) else Ret (None, buf))
     else
       obind (if quotes \<or> \<not> blank \<or> \<not> has fl GWEN_TEXT_FLAGS_DEL_MULTIPLE_BLANKS
              then GWEN_Buffer_AppendByte buf c else Ret (0, buf))
         (\<lambda>(_, buf). word_loop fl delims src (c < 33) (if c < 33 then Some (GWEN_Buffer_GetPos buf) else None) quotes False buf))"

text \<open>Leading blanks are skipped up to a delimiter; \<open>None\<close> where one is met, with the rest from there.\<close>

fun skip_blanks :: "byte list \<Rightarrow> byte list \<Rightarrow> bool \<times> byte list" where
  "skip_blanks delims [] = (False, [])"
| "skip_blanks delims (c # src) =
    (if c < 33 then (if c \<in> set delims then (True, c # src) else skip_blanks delims src) else (False, c # src))"

definition GWEN_Text_GetWordToBuffer ::
  "byte list \<Rightarrow> byte list \<Rightarrow> gwen_buffer \<Rightarrow> u32 \<Rightarrow> (int \<times> byte list option \<times> gwen_buffer) outcome" where
  "GWEN_Text_GetWordToBuffer src delims buf fl =
    (let (atDelim, src) = (if has fl GWEN_TEXT_FLAGS_DEL_LEADING_BLANKS then skip_blanks delims src else (False, src))
     in if atDelim then Ret (0, Some src, buf)
        else
          (let quotes = (src \<noteq> [] \<and> hd src = 34);
               src = (if quotes \<and> has fl GWEN_TEXT_FLAGS_DEL_QUOTES then tl src else src)
           in obind (word_loop fl delims src False None quotes False buf) (\<lambda>(r, buf).
                case r of
                  None \<Rightarrow> Ret (-1, None, buf)
                | Some (src, blankPos, quotes) \<Rightarrow>
                    if quotes \<or> \<not> word_ends fl delims src then Ret (-1, None, buf)
                    else obind (case blankPos of
                                  None \<Rightarrow> Ret (0, buf)
                                | Some p \<Rightarrow> if has fl GWEN_TEXT_FLAGS_DEL_TRAILING_BLANKS
                                             then GWEN_Buffer_Crop buf 0 p else Ret (0, buf))
                           (\<lambda>(_, buf). Ret (0, Some src, buf)))))"

section \<open>Blanks\<close>

text \<open>The text is condensed in place: \<open>p\<close> is read, \<open>dst\<close> is written.\<close>

fun condense_loop ::
  "nat \<Rightarrow> nat \<Rightarrow> nat \<Rightarrow> bool \<Rightarrow> nat option \<Rightarrow> gwen_buffer \<Rightarrow> (nat \<times> nat option \<times> gwen_buffer) outcome" where
  "condense_loop 0 p dst lastWasBlank lastBlankPos buf = Ret (dst, lastBlankPos, buf)"
| "condense_loop (Suc n) p dst lastWasBlank lastBlankPos buf =
     obind (peek buf p 1) (\<lambda>x.
       if isspace (hd x) then
         (if \<not> lastWasBlank
          then obind (poke buf dst x) (\<lambda>buf. condense_loop n (Suc p) (Suc dst) True (Some dst) buf)
          else condense_loop n (Suc p) dst lastWasBlank lastBlankPos buf)
       else obind (poke buf dst x) (\<lambda>buf. condense_loop n (Suc p) (Suc dst) False None buf))"

definition GWEN_Text_CondenseBuffer :: "gwen_buffer \<Rightarrow> gwen_buffer outcome" where
  "GWEN_Text_CondenseBuffer buf =
    (let start = GWEN_Buffer_GetStart buf
     in obind (condense_loop (unat (GWEN_Buffer_GetUsedBytes buf)) start start False None buf) (\<lambda>(dst, lastBlankPos, buf).
          let dst = (case lastBlankPos of None \<Rightarrow> dst | Some q \<Rightarrow> q)
          in obind (GWEN_Buffer_Crop buf 0 (of_nat (dst - GWEN_Buffer_GetStart buf))) (\<lambda>(_, buf). Ret buf)))"

section \<open>Numbers\<close>

text \<open>\<^verbatim>\<open>%d\<close>.\<close>

definition int_text :: "int \<Rightarrow> byte list" where
  "int_text v = (if v < 0 then 45 # dec_digits (nat (- v)) else dec_digits (nat v))"

text \<open>\<^verbatim>\<open>sscanf(p, "%d", &x)\<close>: blanks, a sign, digits. \<open>None\<close> where no number is found; one that does not
  fit an \<^verbatim>\<open>int\<close> is undefined.\<close>

definition sscanf_int :: "byte list \<Rightarrow> int option outcome" where
  "sscanf_int p =
    (let p = dropWhile isspace p;
         neg = (p \<noteq> [] \<and> hd p = 45);
         p = (if p \<noteq> [] \<and> hd p \<in> {43, 45} then tl p else p);
         ds = takeWhile isdigit p;
         v = foldl (\<lambda>a c. a * 10 + (uint c - 48)) 0 ds;
         v = (if neg then - v else v)
     in if ds = [] then Ret None else if in_int v then Ret (Some v) else Fault)"

definition GWEN_Text_NumToString :: "int \<Rightarrow> byte list \<Rightarrow> u32 \<Rightarrow> int \<Rightarrow> (int \<times> byte list) outcome" where
  "GWEN_Text_NumToString v buffer bufsize fillchar =
    (let lbuffer = int_text v; i = (of_nat (length lbuffer) :: u32)
     in if i \<ge> bufsize then Ret (-1, buffer)
        else if fillchar > 0 then
          obind (text_put buffer 0 (lbuffer @ replicate (unat (bufsize - 1 - i)) (word_of_int fillchar) @ [0]))
            (\<lambda>buffer. Ret (sint bufsize, buffer))
        else if fillchar < 0 then
          obind (ck (- fillchar)) (\<lambda>fillchar.
          obind (text_put buffer 0 (replicate (unat (bufsize - 1 - i)) (word_of_int fillchar) @ lbuffer @ [0]))
            (\<lambda>buffer. Ret (sint bufsize, buffer)))
        else obind (text_put buffer 0 (lbuffer @ [0])) (\<lambda>buffer. Ret (sint i, buffer)))"

section \<open>Characters of UTF-8\<close>

text \<open>The number of bytes that follow the first one; \<open>None\<close> for a byte that cannot be first.\<close>

definition utf8_follow :: "byte \<Rightarrow> nat option" where
  "utf8_follow c =
    (if c AND 0xfe = 0xfc then Some 5
     else if c AND 0xfc = 0xf8 then Some 4
     else if c AND 0xf8 = 0xf0 then Some 3
     else if c AND 0xf0 = 0xe0 then Some 2
     else if c AND 0xe0 = 0xc0 then Some 1
     else if c AND 0x80 \<noteq> 0 then None
     else Some 0)"

text \<open>Bytes that follow are read but not judged: a wrong one is only logged.\<close>

function utf8_count :: "byte list \<Rightarrow> int \<Rightarrow> int outcome" where
  "utf8_count s n =
    (case s of
       [] \<Rightarrow> Ret n
     | c # s \<Rightarrow>
         (case utf8_follow c of
            None \<Rightarrow> Ret (-1)
          | Some i \<Rightarrow> if i > length s then Ret (-1) else obind (ck (n + 1)) (utf8_count (drop i s))))"
  by pat_completeness auto
termination
  by (relation "measure (\<lambda>(s, n). length s)") auto

declare utf8_count.simps [simp del]

text \<open>\<open>s\<close> is the memory the text is in, \<open>len\<close> its length, where 0 stands for up to the NUL.\<close>

definition GWEN_Text_CountUtf8Chars :: "byte list \<Rightarrow> int \<Rightarrow> int outcome" where
  "GWEN_Text_CountUtf8Chars s len =
    (let len = (if len = 0 then int (strlen s) else len)
     in if nat len \<le> length s then utf8_count (take (nat len) s) 0 else Fault)"

end
