(* ===== verification/Gwen_WordsProps.thy ===== *)
theory Gwen_WordsProps
  imports Gwen_Words
begin

text \<open>
  Words are read back as they were written, words stay inside the memory given for them, condensing leaves exactly
  the single blanks, and characters of UTF-8 are counted.
\<close>

section \<open>Reading back a word\<close>

definition word_special :: "byte list \<Rightarrow> byte \<Rightarrow> bool" where
  "word_special delims c \<longleftrightarrow> c = 34 \<or> c = 92 \<or> c < 33 \<or> c \<in> set delims"

definition word_escaped :: "byte list \<Rightarrow> byte list \<Rightarrow> byte list" where
  "word_escaped delims w = concat (map (\<lambda>c. if word_special delims c then [92, c] else [c]) w)"

lemma word_escaped_simps [simp]:
  "word_escaped delims [] = []"
  "word_escaped delims (c # w) = (if word_special delims c then [92, c] else [c]) @ word_escaped delims w"
  by (simp_all add: word_escaped_def)

text \<open>Unquoted, every special character behind a backslash.\<close>

lemma word_loop_escaped:
  assumes "has fl GWEN_TEXT_FLAGS_CHECK_BACKSLASH \<or> list_all (\<lambda>c. \<not> word_special delims c) w"
    "rest = [] \<or> hd rest \<in> set delims" "rest \<noteq> [] \<Longrightarrow> hd rest \<noteq> 92" "room buf (length w + n)"
  shows "\<exists>buf'. word_loop fl delims (word_escaped delims w @ rest) False None False False buf = Ret (Some (rest, None, False), buf')
    \<and> contents buf' = contents buf @ w \<and> room buf' n \<and> (nul_terminated buf \<longrightarrow> nul_terminated buf')"
  using assms(1,4)
proof (induction w arbitrary: buf)
  case Nil
  then show ?case using assms(2,3) by (cases rest) auto
next
  case (Cons c w)
  have r: "room buf (Suc (length w + n))" using Cons.prems(2) by simp
  obtain b1 where b1: "GWEN_Buffer_AppendByte buf c = Ret (0, b1)" "contents b1 = contents buf @ [c]" "room b1 (length w + n)"
    "nul_terminated b1"
    using AppendByte_room [OF r, of c] append_post_contents(2) [OF room_wf [OF r]] by blast
  obtain b2 where b2: "word_loop fl delims (word_escaped delims w @ rest) False None False False b1 = Ret (Some (rest, None, False), b2)"
    "contents b2 = contents b1 @ w" "room b2 n" "nul_terminated b2"
    using Cons.IH [OF _ b1(3)] Cons.prems(1) b1(4) by auto
  show ?case
  proof (cases "word_special delims c")
    case True
    then have "has fl GWEN_TEXT_FLAGS_CHECK_BACKSLASH" using Cons.prems(1) by auto
    then show ?thesis using True b1 b2 by simp
  next
    case False
    then show ?thesis using b1 b2 by (simp add: word_special_def)
  qed
qed

lemma getword_escaped:
  assumes "has fl GWEN_TEXT_FLAGS_CHECK_BACKSLASH \<or> list_all (\<lambda>c. \<not> word_special delims c) w"
    "rest = [] \<or> hd rest \<in> set delims \<and> hd rest \<notin> {34, 92}" "w \<noteq> [] \<or> \<not> has fl GWEN_TEXT_FLAGS_DEL_LEADING_BLANKS"
    "word_ends fl delims rest" "room buf (length w + n)"
  shows "\<exists>buf'. GWEN_Text_GetWordToBuffer (word_escaped delims w @ rest) delims buf fl = Ret (0, Some rest, buf')
    \<and> contents buf' = contents buf @ w \<and> room buf' n \<and> (nul_terminated buf \<longrightarrow> nul_terminated buf')"
proof -
  obtain b' where b': "word_loop fl delims (word_escaped delims w @ rest) False None False False buf = Ret (Some (rest, None, False), b')"
    "contents b' = contents buf @ w" "room b' n" "nul_terminated buf \<longrightarrow> nul_terminated b'"
    using word_loop_escaped [OF assms(1) _ _ assms(5), of rest] assms(2) by auto
  let ?s = "word_escaped delims w @ rest"
  have nq: "(?s \<noteq> [] \<and> hd ?s = 34) = False" using assms(2) by (cases w) (auto simp: word_special_def)
  have "skip_blanks delims ?s = (False, ?s)" if "w \<noteq> []"
    using that by (cases w) (auto simp: word_special_def)
  then have sk: "(if has fl GWEN_TEXT_FLAGS_DEL_LEADING_BLANKS then skip_blanks delims ?s else (False, ?s)) = (False, ?s)"
    using assms(3) by auto
  show ?thesis
    unfolding GWEN_Text_GetWordToBuffer_def sk Let_def prod.case nq using b' assms(4) by simp
qed

text \<open>Quoted, with any character but the quote and the backslash.\<close>

lemma word_loop_quoted:
  assumes "34 \<notin> set w" "92 \<notin> set w" "room buf (length w + n)"
  shows "\<exists>buf' bp. word_loop fl delims (w @ 34 # rest) b bp0 True False buf = Ret (Some (rest, bp, False), buf')
    \<and> contents buf' = contents buf @ w \<and> room buf' n"
  using assms
proof (induction w arbitrary: buf b bp0)
  case (Cons c w)
  have "room buf (Suc (length w + n))" using Cons.prems(3) by simp
  from buf.app1 [OF this, of c] obtain b1 where
    b1: "GWEN_Buffer_AppendByte buf c = Ret (0, b1)" "contents b1 = contents buf @ [c]" "room b1 (length w + n)" by blast
  from Cons.IH [OF _ _ b1(3)] Cons.prems(1,2) obtain b2 bp where
    "word_loop fl delims (w @ 34 # rest) (c < 33) (if c < 33 then Some (GWEN_Buffer_GetPos b1) else None) True False b1
       = Ret (Some (rest, bp, False), b2)" "contents b2 = contents b1 @ w" "room b2 n" by fastforce
  with b1 Cons.prems(1,2) show ?case by simp
qed simp

text \<open>C13. A word is read back from a text in which its special characters stand behind a backslash, or between quotes;
  the rest of the text is left at the delimiter or behind the closing quote.\<close>

theorem word_roundtrip:
  assumes "room buf (length w + n)" "\<not> has fl GWEN_TEXT_FLAGS_DEL_TRAILING_BLANKS" "word_ends fl delims rest"
  shows "((has fl GWEN_TEXT_FLAGS_CHECK_BACKSLASH \<or> list_all (\<lambda>c. \<not> word_special delims c) w)
        \<and> (rest = [] \<or> hd rest \<in> set delims \<and> hd rest \<notin> {34, 92}) \<and> (w \<noteq> [] \<or> \<not> has fl GWEN_TEXT_FLAGS_DEL_LEADING_BLANKS)
      \<longrightarrow> (\<exists>buf'. GWEN_Text_GetWordToBuffer (word_escaped delims w @ rest) delims buf fl = Ret (0, Some rest, buf')
            \<and> contents buf' = contents buf @ w \<and> room buf' n))
    \<and> (has fl GWEN_TEXT_FLAGS_DEL_QUOTES \<and> 34 \<notin> set w \<and> 92 \<notin> set w
      \<longrightarrow> (\<exists>buf'. GWEN_Text_GetWordToBuffer (34 # w @ 34 # rest) delims buf fl = Ret (0, Some rest, buf')
            \<and> contents buf' = contents buf @ w \<and> room buf' n))"
proof (intro conjI impI; elim conjE)
  assume a: "has fl GWEN_TEXT_FLAGS_CHECK_BACKSLASH \<or> list_all (\<lambda>c. \<not> word_special delims c) w"
    "rest = [] \<or> hd rest \<in> set delims \<and> hd rest \<notin> {34, 92}" "w \<noteq> [] \<or> \<not> has fl GWEN_TEXT_FLAGS_DEL_LEADING_BLANKS"
  from getword_escaped [OF this assms(3,1)]
  show "\<exists>buf'. GWEN_Text_GetWordToBuffer (word_escaped delims w @ rest) delims buf fl = Ret (0, Some rest, buf')
      \<and> contents buf' = contents buf @ w \<and> room buf' n" by blast
next
  assume a: "has fl GWEN_TEXT_FLAGS_DEL_QUOTES" "34 \<notin> set w" "92 \<notin> set w"
  obtain b' bp where b': "word_loop fl delims (w @ 34 # rest) False None True False buf = Ret (Some (rest, bp, False), b')"
    "contents b' = contents buf @ w" "room b' n"
    using word_loop_quoted [OF a(2,3) assms(1)] by blast
  show "\<exists>buf'. GWEN_Text_GetWordToBuffer (34 # w @ 34 # rest) delims buf fl = Ret (0, Some rest, buf')
      \<and> contents buf' = contents buf @ w \<and> room buf' n"
    unfolding GWEN_Text_GetWordToBuffer_def using a(1) b' assms(2,3) by (simp split: option.split)
qed

theorem word_roundtrip_witness:
  "\<exists>buf buf'. room buf 9 \<and> contents buf' = contents buf @ [97, 44, 98]
     \<and> GWEN_Text_GetWordToBuffer ([97, 92, 44, 98] @ [44, 99]) [44] buf GWEN_TEXT_FLAGS_CHECK_BACKSLASH = Ret (0, Some [44, 99], buf')"
proof -
  obtain buf where b: "room buf 9" by (rule room_example)
  let ?w = "[97, 44, 98] :: byte list"
  have e: "word_escaped [44] ?w = [97, 92, 44, 98]" by (simp add: word_special_def)
  have h: "room buf (length ?w + 6)" "\<not> has GWEN_TEXT_FLAGS_CHECK_BACKSLASH GWEN_TEXT_FLAGS_DEL_TRAILING_BLANKS"
    "word_ends GWEN_TEXT_FLAGS_CHECK_BACKSLASH [44] [44, 99]" "has GWEN_TEXT_FLAGS_CHECK_BACKSLASH GWEN_TEXT_FLAGS_CHECK_BACKSLASH"
    using b by (simp_all add: text_flags word_ends_def)
  from word_roundtrip [OF h(1-3)] h(4) obtain buf' where
    "GWEN_Text_GetWordToBuffer (word_escaped [44] ?w @ [44, 99]) [44] buf GWEN_TEXT_FLAGS_CHECK_BACKSLASH = Ret (0, Some [44, 99], buf')"
    "contents buf' = contents buf @ ?w" by auto
  with b show ?thesis unfolding e by blast
qed

text \<open>What the code does with blanks: the character behind a blank is dropped along with further blanks, a trailing
  blank is kept, and a quoted word is empty unless the quotes are to be removed.\<close>

lemma word_blank_drops: "GWEN_Text_GetWord [97, 32, 98, 99] [44] (replicate 8 7) 8 GWEN_TEXT_FLAGS_DEL_MULTIPLE_BLANKS
    = Ret (Some [], [97, 32, 99, 0, 7, 7, 7, 7])"
  by code_simp

lemma word_trailing_kept: "GWEN_Text_GetWord [97, 32, 44] [44] (replicate 8 7) 8 GWEN_TEXT_FLAGS_DEL_TRAILING_BLANKS
    = Ret (Some [44], [97, 32, 0, 7, 7, 7, 7, 7])"
  by code_simp

lemma word_quotes_kept: "GWEN_Text_GetWord [34, 97, 34, 44] [44] (replicate 8 7) 8 0
    = Ret (Some [97, 34, 44], [0, 7, 7, 7, 7, 7, 7, 7])"
  by code_simp

section \<open>Words stay inside their memory\<close>

lemma drop_write_at: "i + length bs \<le> k \<Longrightarrow> i + length bs \<le> length m \<Longrightarrow> drop k (write_at i bs m) = drop k m"
  by (simp add: write_at_def drop_append)

lemma getword_bounded:
  assumes "unat sz < unat maxsize" "unat maxsize \<le> length buffer"
    "\<And>p. bp = Some p \<Longrightarrow> p \<le> sz"
  shows "\<exists>r sz' buffer'. getword_loop fl delims maxsize src blank bp quotes esc sz buffer = Ret (r, sz', buffer')
    \<and> sz' < maxsize \<and> length buffer' = length buffer \<and> drop (unat maxsize) buffer' = drop (unat maxsize) buffer
    \<and> (\<forall>src' p q. r = Some (src', Some p, q) \<longrightarrow> p \<le> sz')"
  using assms(1,2,3)
proof (induction src arbitrary: blank bp quotes esc sz buffer)
  case Nil
  then show ?case by (auto simp: word_less_nat_alt)
next
  case (Cons c src)
  show ?case
  proof (cases "sz < maxsize - 1")
    case False
    then show ?thesis using Cons.prems by (auto simp: word_less_nat_alt)
  next
    case True
    have m1: "unat (maxsize - 1) = unat maxsize - 1" using Cons.prems(1) by (intro unat_minus_one) auto
    have s1: "unat (sz + 1) = unat sz + 1"
      using True m1 unat_u32_bound [of maxsize] by (intro unat_Suc_u32) (auto simp: word_less_nat_alt)
    let ?b = "write_at (unat sz) [c] buffer"
    have put: "text_put buffer sz [c] = Ret ?b" using Cons.prems(1,2) by (simp add: text_put_ok)
    have b: "unat (sz + 1) < unat maxsize" "unat maxsize \<le> length ?b" "length ?b = length buffer"
        "drop (unat maxsize) ?b = drop (unat maxsize) buffer"
      using True m1 s1 Cons.prems(1,2) by (auto simp: word_less_nat_alt drop_write_at)
    show ?thesis
      using True put Cons.prems b Cons.IH [OF Cons.prems(1,2), of None] Cons.IH [OF b(1,2), of None]
        Cons.IH [OF Cons.prems(1,2), of "if isspace c then Some sz else None"]
        Cons.IH [OF b(1,2), of "if isspace c then Some (sz + 1) else None"]
      by (auto simp: word_less_nat_alt)
  qed
qed

text \<open>C14. A word never leaves the memory of the given size, whatever the source is: nothing behind it changes, and the
  word is terminated inside it.\<close>

theorem word_bounded:
  assumes "0 < maxsize" "unat maxsize \<le> length buffer"
  shows "\<exists>r buffer'. GWEN_Text_GetWord src delims buffer maxsize fl = Ret (r, buffer')
    \<and> length buffer' = length buffer \<and> drop (unat maxsize) buffer' = drop (unat maxsize) buffer
    \<and> (r \<noteq> None \<longrightarrow> strlen buffer' < unat maxsize)"
proof -
  define s1 where "s1 = (if has fl GWEN_TEXT_FLAGS_DEL_LEADING_BLANKS then dropWhile (\<lambda>c. c < 33) src else src)"
  define q where "q = (s1 \<noteq> [] \<and> hd s1 = 34)"
  define s2 where "s2 = (if q \<and> has fl GWEN_TEXT_FLAGS_DEL_QUOTES then tl s1 else s1)"
  have m: "unat (0 :: u32) < unat maxsize" "maxsize \<noteq> 0" using assms(1) by (auto simp: word_less_nat_alt)
  obtain r sz b1 where l: "getword_loop fl delims maxsize s2 False None q False 0 buffer = Ret (r, sz, b1)"
    "sz < maxsize" "length b1 = length buffer" "drop (unat maxsize) b1 = drop (unat maxsize) buffer"
    "\<forall>src' p q. r = Some (src', Some p, q) \<longrightarrow> p \<le> sz"
    using getword_bounded [OF m(1) assms(2), of None fl delims s2 False q False] by auto
  have put: "text_put b p [0] = Ret (write_at (unat p) [0] b)"
      "length (write_at (unat p) [0] b) = length b" "drop (unat maxsize) (write_at (unat p) [0] b) = drop (unat maxsize) b"
      "strlen (write_at (unat p) [0] b) < unat maxsize"
    if "p \<le> sz" "length b = length buffer" for b p
  proof -
    have p: "unat p < unat maxsize" using that(1) l(2) by (simp add: word_less_nat_alt word_le_nat_alt)
    then show "text_put b p [0] = Ret (write_at (unat p) [0] b)" "length (write_at (unat p) [0] b) = length b"
      "drop (unat maxsize) (write_at (unat p) [0] b) = drop (unat maxsize) b"
      using that(2) assms(2) by (simp_all add: text_put_ok drop_write_at)
    have "strlen (xs @ 0 # ys) \<le> length xs" for xs ys by (induction xs) (auto simp: strlen_def)
    from this [of "take (unat p) b"] p show "strlen (write_at (unat p) [0] b) < unat maxsize"
      by (simp add: write_at_def) (metis le_less_trans min.cobounded2 order.trans)
  qed
  note def = GWEN_Text_GetWord_def Let_def
  show ?thesis
    unfolding def s1_def [symmetric] q_def [symmetric] s2_def [symmetric]
    using m(2) l put by (auto split: option.splits simp: oassert_def)
qed

theorem word_bounded_witness:
  "GWEN_Text_GetWord [97, 98, 99, 100] [44] (replicate 8 7) 3 0 = Ret (Some [99, 100], [97, 98, 0, 7, 7, 7, 7, 7])
   \<and> drop 3 [97, 98, 0, 7, 7, 7, 7, 7] = drop 3 (replicate 8 (7 :: byte))"
proof -
  have "GWEN_Text_GetWord [97, 98, 99, 100] [44] (replicate 8 7) 3 0 = Ret (Some [99, 100], [97, 98, 0, 7, 7, 7, 7, 7])"
    by code_simp
  with word_bounded [of 3 "replicate 8 7" "[97, 98, 99, 100]" "[44]" 0] show ?thesis by auto
qed

section \<open>Condensing\<close>

fun condensed :: "bool \<Rightarrow> byte list \<Rightarrow> byte list" where
  "condensed b [] = []"
| "condensed b (c # s) = (if isspace c then (if b then condensed True s else c # condensed True s) else c # condensed False s)"

text \<open>Of several blanks the first is kept, and none at the end.\<close>

definition condense_text :: "byte list \<Rightarrow> byte list" where
  "condense_text s = (let c = condensed False s in if c \<noteq> [] \<and> isspace (last c) then butlast c else c)"

lemma length_condensed: "length (condensed b s) \<le> length s"
  by (induction s arbitrary: b) (auto simp: le_SucI)

lemma condense_loop_ok:
  assumes "realPtr bf = Some m" "p + n \<le> length m" "dst \<le> p"
  shows "condense_loop n p dst b l bf =
    (let c = condensed b (window p n m)
     in Ret (dst + length c, if c = [] then l else if isspace (last c) then Some (dst + length c - 1) else None,
          bf\<lparr>realPtr := Some (write_at dst c m)\<rparr>))"
  using assms
proof (induction n arbitrary: p dst b l bf m)
  case 0
  then show ?case by simp
next
  case (Suc n)
  let ?x = "m ! p" and ?m = "write_at dst [m ! p] m"
  have w: "window p (Suc n) m = ?x # window (Suc p) n m"
    using Suc.prems(2) by (simp add: window_def Cons_nth_drop_Suc [symmetric])
  have r: "peek bf p (Suc 0) = Ret [?x]"
    using Suc.prems(1,2) by (simp add: peek_def window_def Cons_nth_drop_Suc [symmetric])
  have k: "poke bf dst [?x] = Ret (bf\<lparr>realPtr := Some ?m\<rparr>)" using Suc.prems by (simp add: poke_def)
  have lm: "length ?m = length m" using Suc.prems(2,3) by simp
  have wm: "window (Suc p) n ?m = window (Suc p) n m" using Suc.prems(2,3) by (intro window_write_at_before) auto
  have len: "length (condensed b' (window (Suc p) n m)) \<le> n" for b'
    using length_condensed [of b' "window (Suc p) n m"] Suc.prems(2) by simp
  have mm: "write_at (Suc dst) (condensed b' (window (Suc p) n m)) ?m = write_at dst (?x # condensed b' (window (Suc p) n m)) m" for b'
    using write_at_write_at [of dst "[?x]" m "condensed b' (window (Suc p) n m)"] Suc.prems(2,3) len [of b'] by simp
  have ih: "condense_loop n (Suc p) (Suc dst) b' l' (bf\<lparr>realPtr := Some ?m\<rparr>) =
      (let c = condensed b' (window (Suc p) n m)
       in Ret (Suc dst + length c, if c = [] then l' else if isspace (last c) then Some (dst + length c) else None,
            bf\<lparr>realPtr := Some (write_at dst (?x # c) m)\<rparr>))" for b' l'
    using Suc.IH [of "bf\<lparr>realPtr := Some ?m\<rparr>" ?m "Suc p" "Suc dst" b' l'] Suc.prems(2,3) lm wm mm by (simp add: Let_def)
  show ?case
    using Suc.IH [OF Suc.prems(1), of "Suc p" dst True] Suc.prems(2,3)
    by (simp add: r k ih w Let_def)
qed

lemma condensed_props:
  "filter (\<lambda>c. \<not> isspace c) (condensed b s) = filter (\<lambda>c. \<not> isspace c) s"
  "k + 1 < length (condensed b s) \<Longrightarrow> isspace (condensed b s ! k) \<Longrightarrow> \<not> isspace (condensed b s ! (k + 1))"
  "b \<Longrightarrow> condensed b s \<noteq> [] \<Longrightarrow> \<not> isspace (hd (condensed b s))"
proof -
  show "filter (\<lambda>c. \<not> isspace c) (condensed b s) = filter (\<lambda>c. \<not> isspace c) s"
    by (induction s arbitrary: b) auto
  have h: "condensed True s \<noteq> [] \<Longrightarrow> \<not> isspace (hd (condensed True s))" for s
    by (induction s) auto
  then show "b \<Longrightarrow> condensed b s \<noteq> [] \<Longrightarrow> \<not> isspace (hd (condensed b s))" by simp
  show "k + 1 < length (condensed b s) \<Longrightarrow> isspace (condensed b s ! k) \<Longrightarrow> \<not> isspace (condensed b s ! (k + 1))"
  proof (induction s arbitrary: b k)
    case (Cons c s)
    then show ?case using h [of s] by (cases k) (auto simp: hd_conv_nth split: if_splits)
  qed simp
qed

lemma condense_text_props:
  "filter (\<lambda>c. \<not> isspace c) (condense_text s) = filter (\<lambda>c. \<not> isspace c) s"
  "k + 1 < length (condense_text s) \<Longrightarrow> isspace (condense_text s ! k) \<Longrightarrow> \<not> isspace (condense_text s ! (k + 1))"
  "condense_text s \<noteq> [] \<Longrightarrow> \<not> isspace (last (condense_text s))"
proof -
  let ?c = "condensed False s"
  have f: "filter P xs = filter P (butlast xs)" if "xs \<noteq> []" "\<not> P (last xs)" for P and xs :: "byte list"
    using that by (metis append_Nil2 append_butlast_last_id filter.simps filter_append)
  show "filter (\<lambda>c. \<not> isspace c) (condense_text s) = filter (\<lambda>c. \<not> isspace c) s"
    using condensed_props(1) [of False s] f [of ?c "\<lambda>c. \<not> isspace c"] by (auto simp: condense_text_def Let_def)
  show "k + 1 < length (condense_text s) \<Longrightarrow> isspace (condense_text s ! k) \<Longrightarrow> \<not> isspace (condense_text s ! (k + 1))"
    using condensed_props(2) [of k False s] by (auto simp: condense_text_def Let_def nth_butlast split: if_splits)
  assume t: "condense_text s \<noteq> []"
  show "\<not> isspace (last (condense_text s))"
  proof (cases "?c \<noteq> [] \<and> isspace (last ?c)")
    case True
    then have l: "1 < length ?c" "condense_text s = butlast ?c" using t by (cases ?c; auto simp: condense_text_def Let_def)+
    then have "last (butlast ?c) = ?c ! (length ?c - 2)" by (simp add: last_conv_nth t nth_butlast numeral_2_eq_2 length_greater_0_conv [symmetric] del: length_greater_0_conv)
    moreover have "last ?c = ?c ! (length ?c - 2 + 1)"
      using l(1) True Suc_diff_Suc [of 1 "length ?c"] by (simp add: last_conv_nth numeral_2_eq_2)
    moreover have "length ?c - 2 + 1 < length ?c" using l(1) by simp
    ultimately show ?thesis using condensed_props(2) [of "length ?c - 2" False s] True l(2) by auto
  next
    case False
    then show ?thesis using t by (auto simp: condense_text_def Let_def)
  qed
qed

lemma condense_run:
  assumes "buf_wf buf" "nul_terminated buf" "\<not> readonly buf"
  obtains buf' where "GWEN_Text_CondenseBuffer buf = Ret buf'" "contents buf' = condense_text (contents buf)" "buf_wf buf'" "nul_terminated buf'"
proof -
  let ?u = "unat (bytesUsed buf)" and ?c = "condensed False (contents buf)" and ?t = "condense_text (contents buf)"
  obtain m where m: "realPtr buf = Some m" using assms(1) by (auto simp: buf_wf_def)
  have len: "ptr buf + ?u < length m" using assms m by (auto simp: buf_wf_def nul_terminated_def)
  have con: "contents buf = window (ptr buf) ?u m" using m by (simp add: contents_def)
  have lc: "length ?c \<le> ?u" using length_condensed [of False "contents buf"] len con by simp
  define b1 where "b1 = buf\<lparr>realPtr := Some (write_at (ptr buf) ?c m)\<rparr>"
  have loop: "condense_loop ?u (ptr buf) (ptr buf) False None buf =
      Ret (ptr buf + length ?c, if ?c = [] then None else if isspace (last ?c) then Some (ptr buf + length ?c - 1) else None, b1)"
    using condense_loop_ok [OF m, of "ptr buf" ?u "ptr buf" False None] len by (simp add: con Let_def b1_def)
  have lw: "length (write_at (ptr buf) ?c m) = length m" using lc len by simp
  have wf1: "buf_wf b1" "\<not> readonly b1" using assms(1,3) m lw by (simp_all add: buf_wf_def b1_def has_mode_def)
  have c1: "take (length ?c) (contents b1) = ?c"
    using lc len window_write_at_same [of "ptr buf" ?c m] by (simp add: contents_def b1_def take_window)
  have lt: "length ?t \<le> length ?c" "take (length ?t) ?c = ?t"
    by (auto simp: condense_text_def Let_def butlast_conv_take)
  have u: "unat (of_nat (length ?t) :: u32) = length ?t"
    using lt(1) lc unat_u32_bound [of "bytesUsed buf"] by (simp add: unat_of_nat take_bit_nat_eq_self)
  have dst: "(case if ?c = [] then None else if isspace (last ?c) then Some (ptr buf + length ?c - 1) else None of
      None \<Rightarrow> ptr buf + length ?c | Some q \<Rightarrow> q) - ptr buf = length ?t"
    by (auto simp: condense_text_def Let_def)
  have "unat (0 :: u32) + unat (of_nat (length ?t) :: u32) \<le> unat (bytesUsed b1)"
    "unat (0 :: u32) + unat (of_nat (length ?t) :: u32) < unat (bufferSize b1)"
    "unat (0 :: u32) < 2147483648"
    using u lt(1) lc assms(2) by (simp_all add: b1_def nul_terminated_def)
  from Crop_correct [OF wf1 this] obtain b2 where
    b2: "GWEN_Buffer_Crop b1 0 (of_nat (length ?t)) = Ret (0, b2)" "cut_post b1 (take (length ?t) (contents b1)) b2"
    unfolding u by auto
  have "take (length ?t) (contents b1) = take (length ?t) ?c" using c1 lt(1) by (metis min.absorb1 take_take)
  then have cut: "cut_post b1 ?t b2" using b2(2) lt(2) by simp
  have run: "GWEN_Text_CondenseBuffer buf = Ret b2"
    using loop dst b2(1)
    by (simp add: GWEN_Text_CondenseBuffer_def GWEN_Buffer_GetStart_def GWEN_Buffer_GetUsedBytes_def Let_def b1_def)
  with cut show thesis by (intro that [of b2]) (simp_all add: cut_post_def)
qed

text \<open>Condensing a buffer leaves its words and, between them, the first of the blanks; nothing is left of blanks at
  the end. It works in place and never reads what it has already overwritten.\<close>

theorem text_condense:
  assumes "buf_wf buf" "nul_terminated buf" "\<not> readonly buf"
  shows "\<exists>buf'. GWEN_Text_CondenseBuffer buf = Ret buf' \<and> contents buf' = condense_text (contents buf)
    \<and> buf_wf buf' \<and> nul_terminated buf'
    \<and> filter (\<lambda>c. \<not> isspace c) (contents buf') = filter (\<lambda>c. \<not> isspace c) (contents buf)
    \<and> (\<forall>k. k + 1 < length (contents buf') \<longrightarrow> isspace (contents buf' ! k) \<longrightarrow> \<not> isspace (contents buf' ! (k + 1)))
    \<and> (contents buf' \<noteq> [] \<longrightarrow> \<not> isspace (last (contents buf')))"
proof -
  obtain buf' where "GWEN_Text_CondenseBuffer buf = Ret buf'" "contents buf' = condense_text (contents buf)" "buf_wf buf'" "nul_terminated buf'"
    by (rule condense_run [OF assms])
  then show ?thesis by (intro exI [of _ buf']) (simp add: condense_text_props del: One_nat_def Suc_eq_plus1 add_Suc_right)
qed

theorem text_condense_witness:
  "\<exists>buf buf'. contents buf = [] \<and> buf_wf buf \<and> GWEN_Text_CondenseBuffer buf = Ret buf' \<and> contents buf' = []
     \<and> condense_text [97, 32, 9, 98, 32] = [97, 32, 98]"
proof -
  obtain bf where "buf_wf bf" "nul_terminated bf" "contents bf = []" "mode bf = GWEN_BUFFER_MODE_DEFAULT"
    using new_buffer [of 8 "\<lambda>_. True" 100 "\<lambda>_. 0" True] by auto
  moreover from this have "\<not> readonly bf" by (simp add: has_mode_def buffer_consts)
  moreover have "condense_text [97, 32, 9, 98, 32] = [97, 32, 98]" "condense_text [] = []"
    by (simp_all add: condense_text_def isspace_def)
  ultimately show ?thesis using text_condense [of bf] by metis
qed

section \<open>Counting characters\<close>

text \<open>The encoding of a code point.\<close>

definition utf8_char :: "nat \<Rightarrow> byte list" where
  "utf8_char n =
    (if n < 0x80 then [of_nat n]
     else if n < 0x800 then [0xc0 OR of_nat (n div 64), 0x80 OR of_nat (n mod 64)]
     else if n < 0x10000 then [0xe0 OR of_nat (n div 4096), 0x80 OR of_nat (n div 64 mod 64), 0x80 OR of_nat (n mod 64)]
     else [0xf0 OR of_nat (n div 262144), 0x80 OR of_nat (n div 4096 mod 64), 0x80 OR of_nat (n div 64 mod 64), 0x80 OR of_nat (n mod 64)])"

lemma utf8_lead:
  "n < 128 \<Longrightarrow> utf8_follow (of_nat n) = Some 0" "n < 32 \<Longrightarrow> utf8_follow (0xc0 OR of_nat n) = Some 1"
  "n < 16 \<Longrightarrow> utf8_follow (0xe0 OR of_nat n) = Some 2" "n < 8 \<Longrightarrow> utf8_follow (0xf0 OR of_nat n) = Some 3"
proof -
  have "list_all (\<lambda>n. utf8_follow (of_nat n) = Some 0) [0 ..< 128]" "list_all (\<lambda>n. utf8_follow (0xc0 OR of_nat n) = Some 1) [0 ..< 32]"
    "list_all (\<lambda>n. utf8_follow (0xe0 OR of_nat n) = Some 2) [0 ..< 16]" "list_all (\<lambda>n. utf8_follow (0xf0 OR of_nat n) = Some 3) [0 ..< 8]"
    by code_simp+
  then show "n < 128 \<Longrightarrow> utf8_follow (of_nat n) = Some 0" "n < 32 \<Longrightarrow> utf8_follow (0xc0 OR of_nat n) = Some 1"
    "n < 16 \<Longrightarrow> utf8_follow (0xe0 OR of_nat n) = Some 2" "n < 8 \<Longrightarrow> utf8_follow (0xf0 OR of_nat n) = Some 3"
    by (simp_all add: list_all_iff)
qed

lemma utf8_char_lead:
  assumes "n < 0x200000"
  obtains c cs where "utf8_char n = c # cs" "utf8_follow c = Some (length cs)"
proof -
  have "n < 0x800 \<Longrightarrow> n div 64 < 32" "n < 0x10000 \<Longrightarrow> n div 4096 < 16" "n div 262144 < 8" using assms by auto
  then have "utf8_char n \<noteq> [] \<and> utf8_follow (hd (utf8_char n)) = Some (length (tl (utf8_char n)))"
    using utf8_lead(1) [of n] utf8_lead(2) [of "n div 64"] utf8_lead(3) [of "n div 4096"] utf8_lead(4) [of "n div 262144"]
    by (simp add: utf8_char_def)
  then show thesis by (cases "utf8_char n") (auto intro: that)
qed

text \<open>The characters of a text in UTF-8 are counted: as many as code points were encoded, for code points of up to
  four bytes.\<close>

theorem utf8_counted:
  assumes "\<forall>n \<in> set cps. n < 0x200000" "0 < length (concat (map utf8_char cps))" "length cps < 2147483648"
  shows "GWEN_Text_CountUtf8Chars (concat (map utf8_char cps) @ rest) (int (length (concat (map utf8_char cps)))) = Ret (int (length cps))"
proof -
  have "utf8_count (concat (map utf8_char cps)) k = Ret (k + int (length cps))"
    if "\<forall>n \<in> set cps. n < 0x200000" "0 \<le> k" "k + int (length cps) < 2147483648" for k
    using that
  proof (induction cps arbitrary: k)
    case (Cons n cps)
    obtain c cs where c: "utf8_char n = c # cs" "utf8_follow c = Some (length cs)"
      using Cons.prems(1) by (auto intro: utf8_char_lead)
    have "in_int (k + 1)" using Cons.prems(2,3) by (simp add: in_int_def)
    with Cons c show ?case by (simp add: utf8_count.simps [of "c # _"] ck_def)
  qed (simp add: utf8_count.simps)
  moreover have "int (length (concat (map utf8_char cps))) \<noteq> 0" using assms(2) by simp
  ultimately show ?thesis using assms(1,3) by (simp add: GWEN_Text_CountUtf8Chars_def Let_def del: length_concat of_nat_eq_0_iff)
qed

theorem utf8_counted_witness:
  "utf8_char 0xe4 = [0xc3, 0xa4] \<and> utf8_char 0x20ac = [0xe2, 0x82, 0xac]
   \<and> GWEN_Text_CountUtf8Chars [0xc3, 0xa4, 65, 0xe2, 0x82, 0xac, 0] 6 = Ret 3"
proof -
  have u: "utf8_char 0xe4 = [0xc3, 0xa4]" "utf8_char 0x20ac = [0xe2, 0x82, 0xac]" "utf8_char 65 = [65]"
    by (simp_all add: utf8_char_def)
  with utf8_counted [of "[0xe4, 65, 0x20ac]" "[0]"] show ?thesis by simp
qed

section \<open>Numbers\<close>

lemma int_text_short: "in_int v \<Longrightarrow> length (int_text v) \<le> 11"
proof -
  assume "in_int v"
  then have "nat v < 10 ^ Suc 9" "nat (- v) < 10 ^ Suc 9" by (auto simp: in_int_def)
  from dec_digits_length [OF this(1)] dec_digits_length [OF this(2)] show "length (int_text v) \<le> 11"
    by (simp add: int_text_def)
qed

text \<open>A number fills its field exactly, with the fill character before or behind it.\<close>

lemma num_to_string:
  assumes "in_int v" "unat bufsize \<le> length buffer" "unat bufsize < 2147483648" "in_int (- fillchar)"
  shows "GWEN_Text_NumToString v buffer bufsize fillchar =
    (let t = int_text v; n = unat bufsize
     in if n \<le> length t then Ret (-1, buffer)
        else if fillchar = 0 then Ret (int (length t), write_at 0 (t @ [0]) buffer)
        else Ret (int n, write_at 0 ((if fillchar > 0 then t @ replicate (n - 1 - length t) (word_of_int fillchar)
                                      else replicate (n - 1 - length t) (word_of_int (- fillchar)) @ t) @ [0]) buffer))"
proof -
  let ?t = "int_text v" and ?n = "unat bufsize"
  have l: "unat (of_nat (length ?t) :: u32) = length ?t" using int_text_short [OF assms(1)] by (simp add: u32_simps)
  have cmp: "of_nat (length ?t) \<ge> bufsize \<longleftrightarrow> ?n \<le> length ?t" using l by (simp add: word_le_nat_alt)
  have fill: "unat (bufsize - 1 - of_nat (length ?t)) = ?n - 1 - length ?t" if "length ?t < ?n"
  proof -
    have "unat (bufsize - 1) = ?n - 1" using that by (intro unat_minus_one) auto
    then show ?thesis using that l by (subst unat_sub) (simp_all add: word_le_nat_alt)
  qed
  have s: "sint bufsize = int ?n" "sint (of_nat (length ?t) :: u32) = int (length ?t)"
    using assms(3) l int_text_short [OF assms(1)] by (auto simp: sint_u32_small)
  show ?thesis
    using cmp fill s assms(2,4)
    by (auto simp: GWEN_Text_NumToString_def Let_def text_put_def ck_def)
qed

text \<open>A number written out is read back.\<close>

lemma sscanf_digits:
  assumes "list_all isdigit ds" "ds \<noteq> []"
  shows "in_int (num 0 ds) \<Longrightarrow> sscanf_int ds = Ret (Some (num 0 ds))" "in_int (- num 0 ds) \<Longrightarrow> sscanf_int (45 # ds) = Ret (Some (- num 0 ds))"
proof -
  obtain d ds' where ds: "ds = d # ds'" "isdigit d" using assms(1,2) by (cases ds) auto
  have d: "\<not> isspace d" "d \<noteq> 45" "d \<noteq> 43" "\<not> isspace 45"
    using ds(2) by (auto simp: isdigit_def isspace_def word_le_nat_alt unat_word_ariths)
  have t: "takeWhile isdigit ds = ds" using assms(1) by (auto simp: takeWhile_eq_all_conv list_all_iff)
  have v: "foldl (\<lambda>a c. a * 10 + (uint c - 48)) 0 ds = num 0 ds" by (simp add: num_def dval_def [abs_def])
  have h: "dropWhile isspace ds = ds" "hd ds \<noteq> 45" "hd ds \<noteq> 43" using ds d by simp_all
  show "in_int (num 0 ds) \<Longrightarrow> sscanf_int ds = Ret (Some (num 0 ds))"
    unfolding sscanf_int_def Let_def h(1) using assms(2) h(2,3) by (simp add: t v)
  show "in_int (- num 0 ds) \<Longrightarrow> sscanf_int (45 # ds) = Ret (Some (- num 0 ds))"
    unfolding sscanf_int_def Let_def using assms(2) d(4) by (simp add: t v)
qed

lemma dec_digits_nonempty: "dec_digits n \<noteq> []"
  by (simp add: dec_digits.simps)

lemma sscanf_int_text: "in_int i \<Longrightarrow> sscanf_int (int_text i) = Ret (Some i)"
  using dec_digits_props [of "nat i"] dec_digits_props [of "nat (- i)"] sscanf_digits [of "dec_digits (nat i)"]
    sscanf_digits [of "dec_digits (nat (- i))"]
  by (auto simp: int_text_def dec_digits_nonempty)

end
