(* ===== verification/Gwen_StringList.thy ===== *)
theory Gwen_StringList
  imports Gwen_WordsProps
begin

text \<open>
  Lists of strings, \<^verbatim>\<open>src/base/stringlist.c\<close>. The linked entries are a list, a pointer to an entry is its position.
  Whether a string is copied or taken over makes no difference here. A string is the list of its bytes without the NUL.
\<close>

section \<open>State\<close>

record gwen_stringlistentry =
  sle_data :: "byte list option"
  sle_refCount :: u32

record gwen_stringlist =
  sl_entries :: "gwen_stringlistentry list"
  sl_count :: u32
  sl_senseCase :: bool
  sl_ignoreRefCount :: bool

datatype gwen_stringlist_sort_mode = SortModeNoCase | SortModeCase | SortModeInt

definition GWEN_StringList_new :: gwen_stringlist where
  "GWEN_StringList_new = \<lparr>sl_entries = [], sl_count = 0, sl_senseCase = False, sl_ignoreRefCount = True\<rparr>"

definition GWEN_StringList_SetSenseCase :: "gwen_stringlist \<Rightarrow> bool \<Rightarrow> gwen_stringlist" where
  "GWEN_StringList_SetSenseCase sl i = sl\<lparr>sl_senseCase := i\<rparr>"

definition GWEN_StringList_SetIgnoreRefCount :: "gwen_stringlist \<Rightarrow> bool \<Rightarrow> gwen_stringlist" where
  "GWEN_StringList_SetIgnoreRefCount sl i = sl\<lparr>sl_ignoreRefCount := i\<rparr>"

definition GWEN_StringListEntry_new :: "byte list option \<Rightarrow> gwen_stringlistentry" where
  "GWEN_StringListEntry_new s = \<lparr>sle_data = s, sle_refCount = 1\<rparr>"

definition GWEN_StringListEntry_ReplaceString :: "gwen_stringlistentry \<Rightarrow> byte list \<Rightarrow> gwen_stringlistentry" where
  "GWEN_StringListEntry_ReplaceString e s = e\<lparr>sle_data := Some s\<rparr>"

definition GWEN_StringListEntry_SetData :: "gwen_stringlistentry \<Rightarrow> byte list option \<Rightarrow> gwen_stringlistentry" where
  "GWEN_StringListEntry_SetData e s = e\<lparr>sle_data := s\<rparr>"

section \<open>Entries\<close>

definition GWEN_StringList_AppendEntry :: "gwen_stringlist \<Rightarrow> gwen_stringlistentry \<Rightarrow> gwen_stringlist" where
  "GWEN_StringList_AppendEntry sl se = sl\<lparr>sl_entries := sl_entries sl @ [se], sl_count := sl_count sl + 1\<rparr>"

text \<open>The walk to the entry in front of one that is not in the list ends at a null pointer.\<close>

definition GWEN_StringList_RemoveEntry :: "gwen_stringlist \<Rightarrow> nat \<Rightarrow> gwen_stringlist outcome" where
  "GWEN_StringList_RemoveEntry sl i =
    (if sl_entries sl = [] then Ret sl
     else if i < length (sl_entries sl)
     then Ret (sl\<lparr>sl_entries := take i (sl_entries sl) @ drop (Suc i) (sl_entries sl),
                  sl_count := (if sl_count sl \<noteq> 0 then sl_count sl - 1 else sl_count sl)\<rparr>)
     else Fault)"

definition GWEN_StringList_Clear :: "gwen_stringlist \<Rightarrow> gwen_stringlist" where
  "GWEN_StringList_Clear sl = sl\<lparr>sl_entries := [], sl_count := 0\<rparr>"

definition GWEN_StringList_Count :: "gwen_stringlist \<Rightarrow> u32" where
  "GWEN_StringList_Count sl = sl_count sl"

definition GWEN_StringList_FirstEntry :: "gwen_stringlist \<Rightarrow> nat option" where
  "GWEN_StringList_FirstEntry sl = (if sl_entries sl = [] then None else Some 0)"

definition GWEN_StringListEntry_Next :: "gwen_stringlist \<Rightarrow> nat \<Rightarrow> nat option" where
  "GWEN_StringListEntry_Next sl i = (if Suc i < length (sl_entries sl) then Some (Suc i) else None)"

definition GWEN_StringListEntry_Data :: "gwen_stringlistentry \<Rightarrow> byte list option" where
  "GWEN_StringListEntry_Data se = sle_data se"

section \<open>Looking for a string\<close>

definition sl_same :: "gwen_stringlist \<Rightarrow> byte list \<Rightarrow> byte list \<Rightarrow> bool" where
  "sl_same sl a b \<longleftrightarrow> (if sl_senseCase sl then a = b else map tolower a = map tolower b)"

text \<open>The first entry with the string; comparing with a null pointer is a \<open>Fault\<close>.\<close>

fun sl_search :: "(byte list \<Rightarrow> bool) \<Rightarrow> gwen_stringlistentry list \<Rightarrow> nat \<Rightarrow> nat option outcome" where
  "sl_search P [] i = Ret None"
| "sl_search P (se # es) i =
    (case sle_data se of
       None \<Rightarrow> Fault
     | Some d \<Rightarrow> if P d then Ret (Some i) else sl_search P es (Suc i))"

definition sl_find :: "gwen_stringlist \<Rightarrow> byte list \<Rightarrow> nat option outcome" where
  "sl_find sl s = sl_search (\<lambda>d. sl_same sl d s) (sl_entries sl) 0"

definition GWEN_StringList_HasString :: "gwen_stringlist \<Rightarrow> byte list \<Rightarrow> bool outcome" where
  "GWEN_StringList_HasString sl s = obind (sl_find sl s) (\<lambda>i. Ret (i \<noteq> None))"

definition GWEN_StringList_GetStringPos :: "gwen_stringlist \<Rightarrow> byte list \<Rightarrow> int outcome" where
  "GWEN_StringList_GetStringPos sl s = obind (sl_find sl s) (\<lambda>i. Ret (case i of None \<Rightarrow> -1 | Some i \<Rightarrow> int i))"

definition GWEN_StringList_FindStringEntry :: "gwen_stringlist \<Rightarrow> byte list \<Rightarrow> nat option outcome" where
  "GWEN_StringList_FindStringEntry sl s = sl_find sl s"

section \<open>Adding and removing strings\<close>

definition sl_ref :: "(u32 \<Rightarrow> u32) \<Rightarrow> gwen_stringlist \<Rightarrow> nat \<Rightarrow> gwen_stringlist" where
  "sl_ref f sl i = sl\<lparr>sl_entries := (sl_entries sl)[i := (sl_entries sl ! i)\<lparr>sle_refCount := f (sle_refCount (sl_entries sl ! i))\<rparr>]\<rparr>"

definition GWEN_StringList_AppendString :: "gwen_stringlist \<Rightarrow> byte list \<Rightarrow> bool \<Rightarrow> (int \<times> gwen_stringlist) outcome" where
  "GWEN_StringList_AppendString sl s checkDouble =
     obind (if checkDouble then sl_find sl s else Ret None) (\<lambda>i.
       case i of
         Some i \<Rightarrow> Ret (0, sl_ref (\<lambda>n. n + 1) sl i)
       | None \<Rightarrow> Ret (1, GWEN_StringList_AppendEntry sl (GWEN_StringListEntry_new (Some s))))"

definition GWEN_StringList_InsertString :: "gwen_stringlist \<Rightarrow> byte list \<Rightarrow> bool \<Rightarrow> (int \<times> gwen_stringlist) outcome" where
  "GWEN_StringList_InsertString sl s checkDouble =
     obind (if checkDouble then sl_find sl s else Ret None) (\<lambda>i.
       case i of
         Some i \<Rightarrow> Ret (0, sl_ref (\<lambda>n. n + 1) sl i)
       | None \<Rightarrow> Ret (1, sl\<lparr>sl_entries := GWEN_StringListEntry_new (Some s) # sl_entries sl, sl_count := sl_count sl + 1\<rparr>))"

text \<open>One reference less; the entry goes with the last one, or at once where references are ignored.\<close>

definition sl_unref :: "gwen_stringlist \<Rightarrow> nat \<Rightarrow> gwen_stringlist outcome" where
  "sl_unref sl i =
     obind (oassert (sle_refCount (sl_entries sl ! i) \<noteq> 0)) (\<lambda>_.
       let sl' = sl_ref (\<lambda>n. n - 1) sl i
       in if sl_ignoreRefCount sl \<or> sle_refCount (sl_entries sl' ! i) = 0 then GWEN_StringList_RemoveEntry sl' i else Ret sl')"

definition GWEN_StringList_RemoveString :: "gwen_stringlist \<Rightarrow> byte list \<Rightarrow> (int \<times> gwen_stringlist) outcome" where
  "GWEN_StringList_RemoveString sl s =
     obind (sl_find sl s) (\<lambda>i.
       case i of
         None \<Rightarrow> Ret (0, sl)
       | Some i \<Rightarrow> obind (sl_unref sl i) (\<lambda>sl. Ret (1, sl)))"

definition GWEN_StringList_RemoveFirstString :: "gwen_stringlist \<Rightarrow> gwen_stringlist outcome" where
  "GWEN_StringList_RemoveFirstString sl = (if sl_entries sl = [] then Ret sl else sl_unref sl 0)"

section \<open>Whole lists\<close>

definition GWEN_StringList_dup :: "gwen_stringlist \<Rightarrow> gwen_stringlist" where
  "GWEN_StringList_dup sl =
     fold (\<lambda>se newsl. GWEN_StringList_AppendEntry newsl (GWEN_StringListEntry_new (sle_data se))) (sl_entries sl) GWEN_StringList_new"

text \<open>The callback gets a string and the state, and ends the walk with a result.\<close>

fun sl_foreach :: "(byte list option \<Rightarrow> 's \<Rightarrow> 's \<times> 'r option) \<Rightarrow> gwen_stringlistentry list \<Rightarrow> 's \<Rightarrow> 's \<times> 'r option" where
  "sl_foreach func [] u = (u, None)"
| "sl_foreach func (se # es) u =
    (let (u, r) = func (sle_data se) u in case r of Some x \<Rightarrow> (u, Some x) | None \<Rightarrow> sl_foreach func es u)"

definition GWEN_StringList_ForEach ::
  "gwen_stringlist \<Rightarrow> (byte list option \<Rightarrow> 's \<Rightarrow> 's \<times> 'r option) \<Rightarrow> 's \<Rightarrow> 's \<times> 'r option" where
  "GWEN_StringList_ForEach l func user_data = sl_foreach func (sl_entries l) user_data"

definition GWEN_StringList_FirstString :: "gwen_stringlist \<Rightarrow> byte list option" where
  "GWEN_StringList_FirstString l = (case sl_entries l of [] \<Rightarrow> None | se # _ \<Rightarrow> sle_data se)"

text \<open>An index is counted down to 0; a negative one never gets there.\<close>

definition GWEN_StringList_StringAt :: "gwen_stringlist \<Rightarrow> int \<Rightarrow> byte list option" where
  "GWEN_StringList_StringAt sl idx =
    (if 0 \<le> idx \<and> idx < int (length (sl_entries sl)) then sle_data (sl_entries sl ! nat idx) else None)"

definition GWEN_StringList_StringAsIntAt :: "gwen_stringlist \<Rightarrow> int \<Rightarrow> int \<Rightarrow> int outcome" where
  "GWEN_StringList_StringAsIntAt l idx defaultValue =
    (case GWEN_StringList_StringAt l idx of
       None \<Rightarrow> Ret defaultValue
     | Some s \<Rightarrow>
         if s = [] then Ret defaultValue
         else obind (sscanf_int s) (\<lambda>i. Ret (case i of None \<Rightarrow> defaultValue | Some i \<Rightarrow> i)))"

fun sl_append_all :: "gwen_stringlist \<Rightarrow> gwen_stringlistentry list \<Rightarrow> bool \<Rightarrow> gwen_stringlist outcome" where
  "sl_append_all slDest [] checkDouble = Ret slDest"
| "sl_append_all slDest (se # es) checkDouble =
    (case sle_data se of
       Some s \<Rightarrow>
         if s \<noteq> [] then obind (GWEN_StringList_AppendString slDest s checkDouble) (\<lambda>(_, sl). sl_append_all sl es checkDouble)
         else sl_append_all slDest es checkDouble
     | None \<Rightarrow> sl_append_all slDest es checkDouble)"

definition GWEN_StringList_AppendStringList :: "gwen_stringlist \<Rightarrow> gwen_stringlist \<Rightarrow> bool \<Rightarrow> gwen_stringlist outcome" where
  "GWEN_StringList_AppendStringList slDest slSource checkDouble = sl_append_all slDest (sl_entries slSource) checkDouble"

text \<open>The entries both lists begin with are removed from both.\<close>

definition sl_common :: "gwen_stringlistentry \<Rightarrow> gwen_stringlistentry \<Rightarrow> bool" where
  "sl_common se1 se2 \<longleftrightarrow>
    (case (sle_data se1, sle_data se2) of
       (Some s1, Some s2) \<Rightarrow> s1 \<noteq> [] \<and> s2 \<noteq> [] \<and> map tolower s1 = map tolower s2
     | _ \<Rightarrow> False)"

fun sl_remove_common :: "nat \<Rightarrow> gwen_stringlist \<Rightarrow> gwen_stringlist \<Rightarrow> (gwen_stringlist \<times> gwen_stringlist) outcome" where
  "sl_remove_common 0 sl1 sl2 = Ret (sl1, sl2)"
| "sl_remove_common (Suc n) sl1 sl2 =
    (case (sl_entries sl1, sl_entries sl2) of
       (se1 # _, se2 # _) \<Rightarrow>
         if sl_common se1 se2
         then obind (GWEN_StringList_RemoveEntry sl1 0) (\<lambda>sl1.
              obind (GWEN_StringList_RemoveEntry sl2 0) (\<lambda>sl2. sl_remove_common n sl1 sl2))
         else Ret (sl1, sl2)
     | _ \<Rightarrow> Ret (sl1, sl2))"

definition GWEN_StringList_RemoveCommonFirstEntries ::
  "gwen_stringlist \<Rightarrow> gwen_stringlist \<Rightarrow> (gwen_stringlist \<times> gwen_stringlist) outcome" where
  "GWEN_StringList_RemoveCommonFirstEntries sl1 sl2 = sl_remove_common (length (sl_entries sl1)) sl1 sl2"

section \<open>Sorting\<close>

text \<open>\<^verbatim>\<open>qsort\<close> with a comparison function: the model keeps the order of equal elements, which C leaves open.\<close>

fun qsort_insert :: "('a \<Rightarrow> 'a \<Rightarrow> int) \<Rightarrow> 'a \<Rightarrow> 'a list \<Rightarrow> 'a list" where
  "qsort_insert compar x [] = [x]"
| "qsort_insert compar x (y # ys) = (if compar x y \<le> 0 then x # y # ys else y # qsort_insert compar x ys)"

definition qsort :: "('a \<Rightarrow> 'a \<Rightarrow> int) \<Rightarrow> 'a list \<Rightarrow> 'a list" where
  "qsort compar xs = foldr (qsort_insert compar) xs []"

text \<open>\<^verbatim>\<open>atoi\<close>, for texts of numbers that fit an \<^verbatim>\<open>int\<close>.\<close>

definition atoi :: "byte list \<Rightarrow> int" where
  "atoi s = (case sscanf_int s of Ret (Some v) \<Rightarrow> v | _ \<Rightarrow> 0)"

definition sl_compar :: "(byte list \<Rightarrow> byte list \<Rightarrow> int) \<Rightarrow> gwen_stringlistentry \<Rightarrow> gwen_stringlistentry \<Rightarrow> int" where
  "sl_compar f se1 se2 = (case (sle_data se1, sle_data se2) of (Some a, Some b) \<Rightarrow> f a b | _ \<Rightarrow> 0)"

text \<open>The functions named \<^verbatim>\<open>nocase\<close> sense the case, those named \<^verbatim>\<open>case\<close> do not.\<close>

definition GWEN_StringList__compar_asc_nocase :: "gwen_stringlistentry \<Rightarrow> gwen_stringlistentry \<Rightarrow> int" where
  "GWEN_StringList__compar_asc_nocase a b = sl_compar strcmp_sign a b"

definition GWEN_StringList__compar_desc_nocase :: "gwen_stringlistentry \<Rightarrow> gwen_stringlistentry \<Rightarrow> int" where
  "GWEN_StringList__compar_desc_nocase a b = sl_compar (\<lambda>s t. strcmp_sign t s) a b"

definition GWEN_StringList__compar_asc_case :: "gwen_stringlistentry \<Rightarrow> gwen_stringlistentry \<Rightarrow> int" where
  "GWEN_StringList__compar_asc_case a b = sl_compar (\<lambda>s t. strcmp_sign (map tolower s) (map tolower t)) a b"

definition GWEN_StringList__compar_desc_case :: "gwen_stringlistentry \<Rightarrow> gwen_stringlistentry \<Rightarrow> int" where
  "GWEN_StringList__compar_desc_case a b = sl_compar (\<lambda>s t. strcmp_sign (map tolower t) (map tolower s)) a b"

definition GWEN_StringList__compar_asc_int :: "gwen_stringlistentry \<Rightarrow> gwen_stringlistentry \<Rightarrow> int" where
  "GWEN_StringList__compar_asc_int a b =
     sl_compar (\<lambda>s t. (if atoi s > atoi t then 1 else 0) - (if atoi s < atoi t then 1 else 0)) a b"

definition GWEN_StringList__compar_desc_int :: "gwen_stringlistentry \<Rightarrow> gwen_stringlistentry \<Rightarrow> int" where
  "GWEN_StringList__compar_desc_int a b =
     sl_compar (\<lambda>s t. (if atoi t > atoi s then 1 else 0) - (if atoi t < atoi s then 1 else 0)) a b"

definition sl_order :: "bool \<Rightarrow> gwen_stringlist_sort_mode \<Rightarrow> gwen_stringlistentry \<Rightarrow> gwen_stringlistentry \<Rightarrow> int" where
  "sl_order ascending sortMode =
    (case sortMode of
       SortModeNoCase \<Rightarrow> if ascending then GWEN_StringList__compar_asc_nocase else GWEN_StringList__compar_desc_nocase
     | SortModeCase \<Rightarrow> if ascending then GWEN_StringList__compar_asc_case else GWEN_StringList__compar_desc_case
     | SortModeInt \<Rightarrow> if ascending then GWEN_StringList__compar_asc_int else GWEN_StringList__compar_desc_int)"

text \<open>The array for sorting has room for as many entries as are counted.\<close>

definition GWEN_StringList_Sort :: "gwen_stringlist \<Rightarrow> bool \<Rightarrow> gwen_stringlist_sort_mode \<Rightarrow> gwen_stringlist outcome" where
  "GWEN_StringList_Sort l ascending sortMode =
    (if sl_count l < 2 then Ret l
     else if unat (sl_count l) \<noteq> length (sl_entries l) then Fault
     else Ret (l\<lparr>sl_entries := qsort (sl_order ascending sortMode) (sl_entries l)\<rparr>))"

section \<open>Strings from and to text\<close>

lemma dropWhile_shorter: "xs \<noteq> [] \<Longrightarrow> length (dropWhile P xs) - Suc 0 < length xs"
  using length_dropWhile_le [of P xs] by (cases xs) auto

function sl_from_tabs :: "byte list \<Rightarrow> bool \<Rightarrow> gwen_stringlist \<Rightarrow> gwen_stringlist outcome" where
  "sl_from_tabs s checkDup sl =
    (if s = [] then Ret sl
     else obind (GWEN_StringList_AppendString sl (takeWhile (\<lambda>c. c \<noteq> 9) s) checkDup) (\<lambda>(_, sl).
            if 9 \<in> set s then sl_from_tabs (tl (dropWhile (\<lambda>c. c \<noteq> 9) s)) checkDup sl else Ret sl))"
  by pat_completeness auto
termination
  by (relation "measure (\<lambda>(s, c, sl). length s)") (auto simp: dropWhile_shorter)

declare sl_from_tabs.simps [simp del]

definition GWEN_StringList_fromTabString :: "byte list option \<Rightarrow> bool \<Rightarrow> gwen_stringlist outcome" where
  "GWEN_StringList_fromTabString s checkDup =
    (case s of None \<Rightarrow> Ret GWEN_StringList_new | Some s \<Rightarrow> sl_from_tabs s checkDup GWEN_StringList_new)"

function sl_from :: "byte list \<Rightarrow> byte list \<Rightarrow> bool \<Rightarrow> gwen_stringlist \<Rightarrow> gwen_stringlist outcome" where
  "sl_from s delimiters checkDouble sl =
    (if s = [] then Ret sl
     else
       (let s' = dropWhile (\<lambda>c. c < 33) s;
            w = takeWhile (\<lambda>c. c \<notin> set delimiters) s'
        in obind (if w \<noteq> [] then GWEN_StringList_AppendString sl w checkDouble else Ret (0, sl)) (\<lambda>(_, sl).
             sl_from (tl (dropWhile (\<lambda>c. c \<notin> set delimiters) s')) delimiters checkDouble sl)))"
  by pat_completeness auto
termination
proof (relation "measure (\<lambda>(s, d, c, sl). length s)")
  fix s delimiters :: "byte list" and checkDouble and sl :: gwen_stringlist and s' w x y sl'
  assume "s \<noteq> []" "s' = dropWhile (\<lambda>c. c < 33) s"
  then show "((tl (dropWhile (\<lambda>c. c \<notin> set delimiters) s'), delimiters, checkDouble, sl'), s, delimiters, checkDouble, sl)
      \<in> measure (\<lambda>(s, d, c, sl). length s)"
    using length_dropWhile_le [of "\<lambda>c. c < 33" s] dropWhile_shorter [of s' "\<lambda>c. c \<notin> set delimiters"]
    by (cases "s' = []") auto
qed simp

declare sl_from.simps [simp del]

text \<open>No list at all where no string was found.\<close>

definition sl_or_null :: "gwen_stringlist \<Rightarrow> gwen_stringlist option" where
  "sl_or_null sl = (if GWEN_StringList_Count sl = 0 then None else Some sl)"

definition GWEN_StringList_fromString :: "byte list option \<Rightarrow> byte list \<Rightarrow> bool \<Rightarrow> gwen_stringlist option outcome" where
  "GWEN_StringList_fromString txt delimiters checkDouble =
    (case txt of
       None \<Rightarrow> Ret None
     | Some s \<Rightarrow> if s = [] then Ret None
                  else obind (sl_from s delimiters checkDouble GWEN_StringList_new) (\<lambda>sl. Ret (sl_or_null sl)))"

text \<open>The words of a text, with quotes and backslashes. The string in the word buffer ends at its NUL.\<close>

definition buffer_string :: "gwen_buffer \<Rightarrow> byte list outcome" where
  "buffer_string buf =
    (let m = drop (GWEN_Buffer_GetStart buf) (blk buf)
     in if 0 \<in> set m then Ret (takeWhile (\<lambda>c. c \<noteq> 0) m) else Fault)"

lemma word_loop_shorter:
  "word_loop fl delims src b bp q e buf = Ret (Some (rest, bp', q'), buf') \<Longrightarrow> length rest \<le> length src"
  by (induction src arbitrary: b bp q e buf) (force simp: obind_Ret_iff split: if_splits)+

lemma skip_blanks_shorter: "length (snd (skip_blanks delims src)) \<le> length src"
  by (induction src) auto

lemma GetWord_shorter:
  assumes "GWEN_Text_GetWordToBuffer src delims buf fl = Ret (rv, Some rest, buf')"
  shows "length rest \<le> length src"
proof -
  obtain a t where x: "(if has fl GWEN_TEXT_FLAGS_DEL_LEADING_BLANKS then skip_blanks delims src else (False, src)) = (a, t)" by fastforce
  then have t: "length t \<le> length src" using skip_blanks_shorter [of delims src] by (auto split: if_splits)
  define q where "q = (t \<noteq> [] \<and> hd t = 34)"
  define s where "s = (if q \<and> has fl GWEN_TEXT_FLAGS_DEL_QUOTES then tl t else t)"
  have s: "length s \<le> length src" using t by (auto simp: s_def)
  note g = assms [unfolded GWEN_Text_GetWordToBuffer_def x Let_def prod.case, folded q_def, folded s_def]
  show ?thesis
  proof (cases a)
    case True
    then show ?thesis using g t by simp
  next
    case False
    from g False obtain r b1 where l: "word_loop fl delims s False None q False buf = Ret (r, b1)"
      by (auto simp: obind_Ret_iff)
    with g False obtain bp q' where "r = Some (rest, bp, q')"
      by (cases r) (auto simp: obind_Ret_iff split: if_splits)
    with word_loop_shorter l s show ?thesis by fastforce
  qed
qed

function sl_from2 ::
  "byte list \<Rightarrow> byte list \<Rightarrow> bool \<Rightarrow> u32 \<Rightarrow> gwen_buffer \<Rightarrow> gwen_stringlist \<Rightarrow> gwen_stringlist outcome" where
  "sl_from2 s delimiters checkDouble fl wbuf sl =
    (let s = dropWhile isspace s
     in if s = [] then Ret sl
        else obind (GWEN_Text_GetWordToBuffer s delimiters wbuf fl) (\<lambda>(rv, nxt, wbuf).
               case nxt of
                 None \<Rightarrow> Ret sl
               | Some rest \<Rightarrow>
                   obind (buffer_string wbuf) (\<lambda>w.
                   obind (GWEN_StringList_AppendString sl w checkDouble) (\<lambda>(_, sl).
                   obind (GWEN_Buffer_Reset wbuf) (\<lambda>wbuf. sl_from2 (tl rest) delimiters checkDouble fl wbuf sl)))))"
  by pat_completeness auto
termination
proof (relation "measure (\<lambda>(s, d, c, fl, b, sl). length s)")
  fix s delimiters :: "byte list" and checkDouble and fl :: u32 and wbuf :: gwen_buffer and sl :: gwen_stringlist
  fix s' x rv y nxt wbuf' rest w z a sl' wbuf2
  assume "s' = dropWhile isspace s" "s' \<noteq> []" "GWEN_Text_GetWordToBuffer s' delimiters wbuf fl = Ret x"
    "(rv, y) = x" "(nxt, wbuf') = y" "nxt = Some rest"
  then show "((tl rest, delimiters, checkDouble, fl, wbuf2, sl'), s, delimiters, checkDouble, fl, wbuf, sl)
      \<in> measure (\<lambda>(s, d, c, fl, b, sl). length s)"
    using GetWord_shorter [of s' delimiters wbuf fl rv rest wbuf'] length_dropWhile_le [of isspace s]
    by (cases rest) auto
qed simp

declare sl_from2.simps [simp del]

definition GWEN_StringList_fromString2 ::
  "u32 \<Rightarrow> (nat \<Rightarrow> byte) \<Rightarrow> (nat \<Rightarrow> bool) \<Rightarrow> byte list option \<Rightarrow> byte list \<Rightarrow> bool \<Rightarrow> u32 \<Rightarrow> gwen_stringlist option outcome" where
  "GWEN_StringList_fromString2 hl fr ok txt delimiters checkDouble fl =
    (case txt of
       None \<Rightarrow> Ret None
     | Some s \<Rightarrow>
         if s = [] then Ret None
         else obind (GWEN_Buffer_new hl fr ok None 256 0 True) (\<lambda>wbuf.
              obind (sl_from2 s delimiters checkDouble fl wbuf GWEN_StringList_new) (\<lambda>sl. Ret (sl_or_null sl))))"

fun sl_to_buffer :: "gwen_stringlistentry list \<Rightarrow> byte list \<Rightarrow> nat \<Rightarrow> gwen_buffer \<Rightarrow> (int \<times> gwen_buffer) outcome" where
  "sl_to_buffer [] delimiter n buf = Ret (int n, buf)"
| "sl_to_buffer (se # es) delimiter n buf =
    (case sle_data se of
       None \<Rightarrow> sl_to_buffer es delimiter n buf
     | Some s \<Rightarrow>
         if s = [] then sl_to_buffer es delimiter n buf
         else obind (if n \<noteq> 0 \<and> delimiter \<noteq> [] then GWEN_Buffer_AppendString buf (delimiter @ [0]) else Ret (0, buf)) (\<lambda>(_, buf).
              obind (GWEN_Buffer_AppendString buf (s @ [0])) (\<lambda>(_, buf). sl_to_buffer es delimiter (Suc n) buf)))"

definition GWEN_StringList_toBuffer :: "gwen_stringlist option \<Rightarrow> byte list \<Rightarrow> gwen_buffer \<Rightarrow> (int \<times> gwen_buffer) outcome" where
  "GWEN_StringList_toBuffer sl delimiter outBuffer =
    (case sl of None \<Rightarrow> Ret (0, outBuffer) | Some sl \<Rightarrow> sl_to_buffer (sl_entries sl) delimiter 0 outBuffer)"

end
