(* ===== verification/Gwen_Path.thy ===== *)
theory Gwen_Path
  imports Gwen_StringList
begin

text \<open>
  Paths, \<^verbatim>\<open>src/parser/path.c\<close>: a path is cut into its elements, and a callback is applied to one after the other.
  A string is the list of its bytes without the NUL. The local buffers of the code are represented by the text
  in them; memory for them is taken to be available.
\<close>

section \<open>Flags\<close>

definition GWEN_PATH_FLAGS_PATHMUSTEXIST :: u32 where "GWEN_PATH_FLAGS_PATHMUSTEXIST = 0x00000001"
definition GWEN_PATH_FLAGS_PATHMUSTNOTEXIST :: u32 where "GWEN_PATH_FLAGS_PATHMUSTNOTEXIST = 0x00000002"
definition GWEN_PATH_FLAGS_PATHCREATE :: u32 where "GWEN_PATH_FLAGS_PATHCREATE = 0x00000004"
definition GWEN_PATH_FLAGS_NAMEMUSTEXIST :: u32 where "GWEN_PATH_FLAGS_NAMEMUSTEXIST = 0x00000008"
definition GWEN_PATH_FLAGS_NAMEMUSTNOTEXIST :: u32 where "GWEN_PATH_FLAGS_NAMEMUSTNOTEXIST = 0x00000010"
definition GWEN_PATH_FLAGS_CREATE_GROUP :: u32 where "GWEN_PATH_FLAGS_CREATE_GROUP = 0x00000020"
definition GWEN_PATH_FLAGS_CREATE_VAR :: u32 where "GWEN_PATH_FLAGS_CREATE_VAR = 0x00000040"
definition GWEN_PATH_FLAGS_VARIABLE :: u32 where "GWEN_PATH_FLAGS_VARIABLE = 0x00000080"
definition GWEN_PATH_FLAGS_ESCAPE :: u32 where "GWEN_PATH_FLAGS_ESCAPE = 0x00000100"
definition GWEN_PATH_FLAGS_TOLERANT_ESCAPE :: u32 where "GWEN_PATH_FLAGS_TOLERANT_ESCAPE = 0x00000200"
definition GWEN_PATH_FLAGS_CONVERT_LAST :: u32 where "GWEN_PATH_FLAGS_CONVERT_LAST = 0x00000400"
definition GWEN_PATH_FLAGS_CHECKROOT :: u32 where "GWEN_PATH_FLAGS_CHECKROOT = 0x00000800"
definition GWEN_PATH_FLAGS_NO_IDX :: u32 where "GWEN_PATH_FLAGS_NO_IDX = 0x00001000"
definition GWEN_PATH_FLAGS_INTERNAL :: u32 where "GWEN_PATH_FLAGS_INTERNAL = 0x0000c000"
definition GWEN_PATH_FLAGS_LAST :: u32 where "GWEN_PATH_FLAGS_LAST = 0x00004000"
definition GWEN_PATH_FLAGS_ROOT :: u32 where "GWEN_PATH_FLAGS_ROOT = 0x00008000"

lemmas path_flags = GWEN_PATH_FLAGS_PATHMUSTEXIST_def GWEN_PATH_FLAGS_PATHMUSTNOTEXIST_def GWEN_PATH_FLAGS_PATHCREATE_def
  GWEN_PATH_FLAGS_NAMEMUSTEXIST_def GWEN_PATH_FLAGS_NAMEMUSTNOTEXIST_def GWEN_PATH_FLAGS_CREATE_GROUP_def
  GWEN_PATH_FLAGS_CREATE_VAR_def GWEN_PATH_FLAGS_VARIABLE_def GWEN_PATH_FLAGS_ESCAPE_def
  GWEN_PATH_FLAGS_TOLERANT_ESCAPE_def GWEN_PATH_FLAGS_CONVERT_LAST_def GWEN_PATH_FLAGS_CHECKROOT_def
  GWEN_PATH_FLAGS_NO_IDX_def GWEN_PATH_FLAGS_INTERNAL_def GWEN_PATH_FLAGS_LAST_def GWEN_PATH_FLAGS_ROOT_def

section \<open>Numbers in brackets\<close>

text \<open>The name and the index of an element; \<open>None\<close> where the bracket is not closed or holds no number.\<close>

definition path_index :: "byte list \<Rightarrow> (byte list \<times> int) option outcome" where
  "path_index e =
    (if 91 \<notin> set e then Ret (Some (e, 0))
     else
       (let p = tl (dropWhile (\<lambda>c. c \<noteq> 91) e)
        in if 93 \<notin> set p then Ret None
           else obind (sscanf_int (takeWhile (\<lambda>c. c \<noteq> 93) p)) (\<lambda>x.
             case x of None \<Rightarrow> Ret None | Some idx \<Rightarrow> Ret (Some (takeWhile (\<lambda>c. c \<noteq> 91) e, idx)))))"

section \<open>The elements of a path\<close>

definition is_slash :: "byte \<Rightarrow> bool" where
  "is_slash c \<longleftrightarrow> c = 47 \<or> c = 92"

text \<open>Escaping of an element. The flag that asks for unescaping has the same value, so that branch is never taken.\<close>

definition path_convert :: "bool \<Rightarrow> u32 \<Rightarrow> byte list \<Rightarrow> byte list" where
  "path_convert startAtRoot fl e =
    (if (\<not> has fl GWEN_PATH_FLAGS_LAST \<or> has fl GWEN_PATH_FLAGS_CONVERT_LAST) \<and> has fl GWEN_PATH_FLAGS_ESCAPE then
       (let safe = (if has fl GWEN_PATH_FLAGS_TOLERANT_ESCAPE then text_tolerant_buf else text_alnum)
        in if startAtRoot then 47 # escaped safe (tl e) else escaped safe e)
     else e)"

text \<open>The flags of an element: \<open>rest\<close> is the path from the slash behind it on, \<open>path'\<close> the path from the next element on.\<close>

definition path_elem_flags :: "u32 \<Rightarrow> bool \<Rightarrow> byte list \<Rightarrow> byte list \<Rightarrow> u32" where
  "path_elem_flags origflags startAtRoot rest path' =
    (let fl = origflags AND NOT GWEN_PATH_FLAGS_INTERNAL AND NOT GWEN_PATH_FLAGS_VARIABLE;
         fl = (if startAtRoot then fl OR GWEN_PATH_FLAGS_ROOT else fl);
         fl = (if path' = [] then fl OR GWEN_PATH_FLAGS_LAST else fl)
     in if rest = [] \<and> has origflags GWEN_PATH_FLAGS_VARIABLE then fl OR GWEN_PATH_FLAGS_VARIABLE else fl)"

text \<open>The loop over the elements. The callback gets the text of the element, the state, the object reached so far, the
  index and the flags; it returns the next object or, with \<open>None\<close>, gives up. The state it has left stays. \<open>index\<close> is
  what takes the index off an element.\<close>

lemma path_shorter:
  assumes "path \<noteq> []"
  shows "length (dropWhile is_slash (dropWhile (\<lambda>c. \<not> is_slash c) path)) < length path"
proof -
  obtain c cs where path: "path = c # cs" using assms by (cases path) auto
  show ?thesis
    using length_dropWhile_le [of is_slash cs] length_dropWhile_le [of "\<lambda>c. \<not> is_slash c" cs]
      length_dropWhile_le [of is_slash "dropWhile (\<lambda>c. \<not> is_slash c) cs"]
    by (cases "is_slash c") (simp_all add: path)
qed

function path_loop ::
  "(byte list \<Rightarrow> (byte list \<times> int) option outcome) \<Rightarrow> (byte list \<Rightarrow> 's \<Rightarrow> 'p \<Rightarrow> int \<Rightarrow> u32 \<Rightarrow> ('s \<times> 'p option) outcome) \<Rightarrow>
     u32 \<Rightarrow> bool \<Rightarrow> byte list \<Rightarrow> 's \<Rightarrow> 'p \<Rightarrow> ('s \<times> 'p option) outcome" where
  "path_loop index elementFunction origflags startAtRoot path st obj =
    (if path = [] then Ret (st, Some obj)
     else
       (let e = takeWhile (\<lambda>c. \<not> is_slash c) path;
            e = (if startAtRoot then 47 # e else e);
            rest = dropWhile (\<lambda>c. \<not> is_slash c) path;
            path' = dropWhile is_slash rest;
            fl = path_elem_flags origflags startAtRoot rest path'
        in obind (if has fl GWEN_PATH_FLAGS_NO_IDX then Ret (Some (e, 0)) else index e) (\<lambda>r.
             case r of
               None \<Rightarrow> Ret (st, None)
             | Some (name, idx) \<Rightarrow>
                 if rest \<noteq> [] \<and> path' = [] \<and> has origflags GWEN_PATH_FLAGS_VARIABLE then Ret (st, None)
                 else obind (elementFunction (path_convert startAtRoot fl name) st obj idx fl) (\<lambda>(st, r).
                        case r of
                          None \<Rightarrow> Ret (st, None)
                        | Some obj \<Rightarrow> path_loop index elementFunction origflags False path' st obj))))"
  by pat_completeness auto
termination
  by (relation "measure (\<lambda>(index, f, origflags, startAtRoot, path, st, obj). length path)") (auto simp: path_shorter)

declare path_loop.simps [simp del]

text \<open>The flags as bits.\<close>

lemma has_bit:
  "has w GWEN_PATH_FLAGS_PATHMUSTEXIST \<longleftrightarrow> bit w 0" "has w GWEN_PATH_FLAGS_PATHMUSTNOTEXIST \<longleftrightarrow> bit w 1"
  "has w GWEN_PATH_FLAGS_PATHCREATE \<longleftrightarrow> bit w 2" "has w GWEN_PATH_FLAGS_NAMEMUSTEXIST \<longleftrightarrow> bit w 3"
  "has w GWEN_PATH_FLAGS_NAMEMUSTNOTEXIST \<longleftrightarrow> bit w 4" "has w GWEN_PATH_FLAGS_CREATE_GROUP \<longleftrightarrow> bit w 5"
  "has w GWEN_PATH_FLAGS_CREATE_VAR \<longleftrightarrow> bit w 6" "has w GWEN_PATH_FLAGS_VARIABLE \<longleftrightarrow> bit w 7"
  "has w GWEN_PATH_FLAGS_ESCAPE \<longleftrightarrow> bit w 8" "has w GWEN_PATH_FLAGS_TOLERANT_ESCAPE \<longleftrightarrow> bit w 9"
  "has w GWEN_PATH_FLAGS_CONVERT_LAST \<longleftrightarrow> bit w 10" "has w GWEN_PATH_FLAGS_CHECKROOT \<longleftrightarrow> bit w 11"
  "has w GWEN_PATH_FLAGS_NO_IDX \<longleftrightarrow> bit w 12" "has w GWEN_PATH_FLAGS_LAST \<longleftrightarrow> bit w 14"
  using and_exp_eq_0_iff_not_bit [of w 0] and_exp_eq_0_iff_not_bit [of w 1] and_exp_eq_0_iff_not_bit [of w 2]
    and_exp_eq_0_iff_not_bit [of w 3] and_exp_eq_0_iff_not_bit [of w 4] and_exp_eq_0_iff_not_bit [of w 5]
    and_exp_eq_0_iff_not_bit [of w 6] and_exp_eq_0_iff_not_bit [of w 7] and_exp_eq_0_iff_not_bit [of w 8]
    and_exp_eq_0_iff_not_bit [of w 9] and_exp_eq_0_iff_not_bit [of w 10] and_exp_eq_0_iff_not_bit [of w 11]
    and_exp_eq_0_iff_not_bit [of w 12] and_exp_eq_0_iff_not_bit [of w 14]
  by (simp_all add: path_flags)

lemma bit_elem_flags:
  "k < 14 \<Longrightarrow> k \<noteq> 7 \<Longrightarrow> bit (path_elem_flags orig s rest p) k = bit orig k"
  "bit (path_elem_flags orig s rest p) 7 \<longleftrightarrow> rest = [] \<and> bit orig 7"
  "bit (path_elem_flags orig s rest p) 14 \<longleftrightarrow> p = []"
proof -
  have k: "k < 14 \<Longrightarrow> k \<in> {0, 1, 2, 3, 4, 5, 6, 7, 8, 9, 10, 11, 12, 13}" for k :: nat
    by (simp only: insert_iff empty_iff) presburger
  show "bit (path_elem_flags orig s rest p) k = bit orig k" if "k < 14" "k \<noteq> 7"
    using k [OF that(1)] that(2)
    by (elim insertE emptyE) (simp_all add: path_elem_flags_def Let_def path_flags bit_simps)
  show "bit (path_elem_flags orig s rest p) 7 \<longleftrightarrow> rest = [] \<and> bit orig 7"
    using has_bit(8) [of orig] by (auto simp: path_elem_flags_def Let_def path_flags bit_simps)
  show "bit (path_elem_flags orig s rest p) 14 \<longleftrightarrow> p = []"
    by (auto simp: path_elem_flags_def Let_def path_flags bit_simps)
qed

section \<open>Paths\<close>

text \<open>Leading blanks and slashes are skipped; a slash is only noted where the caller asks for it.\<close>

definition path_handle where
  "path_handle index elementFunction path origflags st obj =
    (let path = dropWhile isspace path;
         startAtRoot = (path \<noteq> [] \<and> is_slash (hd path) \<and> has origflags GWEN_PATH_FLAGS_CHECKROOT)
     in path_loop index elementFunction origflags startAtRoot (dropWhile is_slash path) st obj)"

definition GWEN_Path_HandleWithIdx ::
  "byte list \<Rightarrow> 's \<Rightarrow> 'p \<Rightarrow> u32 \<Rightarrow> (byte list \<Rightarrow> 's \<Rightarrow> 'p \<Rightarrow> int \<Rightarrow> u32 \<Rightarrow> ('s \<times> 'p option) outcome) \<Rightarrow>
     ('s \<times> 'p option) outcome" where
  "GWEN_Path_HandleWithIdx path st obj fl elementFunction = path_handle path_index elementFunction path fl st obj"

definition GWEN_Path_Handle ::
  "byte list \<Rightarrow> 's \<Rightarrow> 'p \<Rightarrow> u32 \<Rightarrow> (byte list \<Rightarrow> 's \<Rightarrow> 'p \<Rightarrow> u32 \<Rightarrow> ('s \<times> 'p option) outcome) \<Rightarrow>
     ('s \<times> 'p option) outcome" where
  "GWEN_Path_Handle path st obj fl elementFunction =
     path_handle (\<lambda>e. Ret (Some (e, 0))) (\<lambda>entry st obj idx fl. elementFunction entry st obj fl) path fl st obj"

text \<open>Copying a path into a buffer, with its elements escaped if wanted.\<close>

definition GWEN_Path_AppendPathElement ::
  "byte list \<Rightarrow> gwen_buffer \<Rightarrow> unit \<Rightarrow> u32 \<Rightarrow> (gwen_buffer \<times> unit option) outcome" where
  "GWEN_Path_AppendPathElement entry ebuf obj fl =
     obind (GWEN_Buffer_AppendString ebuf (entry @ [0])) (\<lambda>(_, ebuf).
     obind (if \<not> has fl GWEN_PATH_FLAGS_LAST \<or> \<not> has fl GWEN_PATH_FLAGS_VARIABLE
            then GWEN_Buffer_AppendByte ebuf 47 else Ret (0, ebuf)) (\<lambda>(_, ebuf).
     obind (GWEN_Buffer_AllocRoom ebuf 1) (\<lambda>(_, ebuf).
     obind (poke ebuf (GWEN_Buffer_GetPosPointer ebuf) [0]) (\<lambda>ebuf. Ret (ebuf, Some ())))))"

definition GWEN_Path_Convert :: "byte list \<Rightarrow> gwen_buffer \<Rightarrow> u32 \<Rightarrow> (int \<times> gwen_buffer) outcome" where
  "GWEN_Path_Convert path buffer fl =
     obind (GWEN_Path_Handle path buffer () fl GWEN_Path_AppendPathElement) (\<lambda>(buffer, r).
       Ret (if r = None then -1 else 0, buffer))"

end
