(* ===== verification/Gwen_DB.thy ===== *)
theory Gwen_DB
  imports Gwen_Path
begin

text \<open>
  The configuration tree, \<^verbatim>\<open>src/parser/db.c\<close>: groups hold groups and variables, variables hold values. A tree is a
  value of a datatype; a pointer to a node of it is the list of child positions that leads there from the
  root, so that the way back up along \<^verbatim>\<open>parent\<close> is the list of its prefixes. Operations on a node take the
  tree and the position and return the new tree. Names and texts are lists of bytes without the NUL.
\<close>

section \<open>Nodes\<close>

datatype gwen_db_node_type =
    NodeType_Unknown | NodeType_Group | NodeType_Var | NodeType_ValueChar | NodeType_ValueInt | NodeType_ValueBin
  | NodeType_ValuePtr | NodeType_ValueLast

datatype (discs_sels) gwen_db_data =
    DataName "byte list" | DataChar "byte list" | DataBin "byte list" | DataInt int | DataPtr nat

datatype gwen_db_node =
  DbNode (db_typ: gwen_db_node_type) (db_nodeFlags: u32) (db_data: gwen_db_data) (db_children: "gwen_db_node list option")

type_synonym db_pos = "nat list"

definition GWEN_DB_FLAGS_OVERWRITE_VARS :: u32 where "GWEN_DB_FLAGS_OVERWRITE_VARS = 0x00010000"
definition GWEN_DB_FLAGS_OVERWRITE_GROUPS :: u32 where "GWEN_DB_FLAGS_OVERWRITE_GROUPS = 0x00020000"
definition GWEN_DB_FLAGS_INSERT :: u32 where "GWEN_DB_FLAGS_INSERT = 0x40000000"
definition GWEN_DB_FLAGS_DEFAULT :: u32 where "GWEN_DB_FLAGS_DEFAULT = 0x10f80000"
definition GWEN_DB_NODE_FLAGS_DIRTY :: u32 where "GWEN_DB_NODE_FLAGS_DIRTY = 0x00000001"

lemmas db_flags = GWEN_DB_FLAGS_OVERWRITE_VARS_def GWEN_DB_FLAGS_OVERWRITE_GROUPS_def GWEN_DB_FLAGS_INSERT_def
  GWEN_DB_FLAGS_DEFAULT_def GWEN_DB_NODE_FLAGS_DIRTY_def

text \<open>The types of values are those from \<open>ValueChar\<close> on, before \<open>ValueLast\<close>.\<close>

definition db_is_value :: "gwen_db_node \<Rightarrow> bool" where
  "db_is_value n \<longleftrightarrow> db_typ n \<in> {NodeType_ValueChar, NodeType_ValueInt, NodeType_ValueBin, NodeType_ValuePtr}"

definition GWEN_DB_Node_new :: "gwen_db_node_type \<Rightarrow> gwen_db_data \<Rightarrow> gwen_db_node list option \<Rightarrow> gwen_db_node" where
  "GWEN_DB_Node_new t d cs = DbNode t 0 d cs"

definition GWEN_DB_ValueBin_new :: "byte list \<Rightarrow> gwen_db_node" where
  "GWEN_DB_ValueBin_new val = GWEN_DB_Node_new NodeType_ValueBin (DataBin val) None"

definition GWEN_DB_ValueInt_new :: "int \<Rightarrow> gwen_db_node" where
  "GWEN_DB_ValueInt_new val = GWEN_DB_Node_new NodeType_ValueInt (DataInt val) None"

definition GWEN_DB_ValueChar_new :: "byte list option \<Rightarrow> gwen_db_node" where
  "GWEN_DB_ValueChar_new val =
     GWEN_DB_Node_new NodeType_ValueChar (DataChar (case val of None \<Rightarrow> [] | Some s \<Rightarrow> s)) None"

definition GWEN_DB_ValueChar_newFromInt :: "int \<Rightarrow> gwen_db_node" where
  "GWEN_DB_ValueChar_newFromInt v = GWEN_DB_Node_new NodeType_ValueChar (DataChar (int_text v)) None"

definition GWEN_DB_ValuePtr_new :: "nat \<Rightarrow> gwen_db_node" where
  "GWEN_DB_ValuePtr_new p = GWEN_DB_Node_new NodeType_ValuePtr (DataPtr p) None"

definition GWEN_DB_Group_new :: "byte list \<Rightarrow> gwen_db_node" where
  "GWEN_DB_Group_new name = GWEN_DB_Node_new NodeType_Group (DataName name) (Some [])"

definition GWEN_DB_Var_new :: "byte list \<Rightarrow> gwen_db_node" where
  "GWEN_DB_Var_new name = GWEN_DB_Node_new NodeType_Var (DataName name) (Some [])"

section \<open>Positions in a tree\<close>

fun db_at :: "gwen_db_node \<Rightarrow> db_pos \<Rightarrow> gwen_db_node option" where
  "db_at n [] = Some n"
| "db_at n (i # is) =
    (case db_children n of
       None \<Rightarrow> None
     | Some cs \<Rightarrow> if i < length cs then db_at (cs ! i) is else None)"

fun db_upd :: "(gwen_db_node \<Rightarrow> gwen_db_node) \<Rightarrow> db_pos \<Rightarrow> gwen_db_node \<Rightarrow> gwen_db_node" where
  "db_upd f [] n = f n"
| "db_upd f (i # is) (DbNode t fl d (Some cs)) = DbNode t fl d (Some (cs[i := db_upd f is (cs ! i)]))"
| "db_upd f (i # is) (DbNode t fl d None) = DbNode t fl d None"

definition flags_modified :: "u32 \<Rightarrow> u32 \<Rightarrow> u32 \<Rightarrow> u32" where
  "flags_modified newflags msk fl = ((fl XOR newflags) AND msk) XOR fl"

fun GWEN_DB_ModifyBranchFlagsUp :: "u32 \<Rightarrow> u32 \<Rightarrow> db_pos \<Rightarrow> gwen_db_node \<Rightarrow> gwen_db_node" where
  "GWEN_DB_ModifyBranchFlagsUp newflags msk [] (DbNode t fl d cs) = DbNode t (flags_modified newflags msk fl) d cs"
| "GWEN_DB_ModifyBranchFlagsUp newflags msk (i # is) (DbNode t fl d cs) =
    DbNode t (flags_modified newflags msk fl) d
      (map_option (\<lambda>cs. cs[i := GWEN_DB_ModifyBranchFlagsUp newflags msk is (cs ! i)]) cs)"

fun GWEN_DB_ModifyBranchFlagsDown :: "u32 \<Rightarrow> u32 \<Rightarrow> gwen_db_node \<Rightarrow> gwen_db_node" where
  "GWEN_DB_ModifyBranchFlagsDown newflags msk (DbNode t fl d cs) =
    DbNode t (flags_modified newflags msk fl) d (map_option (map (GWEN_DB_ModifyBranchFlagsDown newflags msk)) cs)"

text \<open>Every function below takes the node as the tree \<open>r\<close> and the position \<open>n\<close>; a position that leads to no node is
  a null pointer, which is asserted against.\<close>

definition db_node :: "gwen_db_node \<Rightarrow> db_pos \<Rightarrow> gwen_db_node outcome" where
  "db_node r n = (case db_at r n of None \<Rightarrow> Abort | Some m \<Rightarrow> Ret m)"

definition db_with_children :: "(gwen_db_node list \<Rightarrow> gwen_db_node list) \<Rightarrow> gwen_db_node \<Rightarrow> gwen_db_node" where
  "db_with_children f n = (case n of DbNode t fl d cs \<Rightarrow> DbNode t fl d (map_option f cs))"

definition db_dirty_up :: "gwen_db_node \<Rightarrow> db_pos \<Rightarrow> gwen_db_node" where
  "db_dirty_up r n = GWEN_DB_ModifyBranchFlagsUp GWEN_DB_NODE_FLAGS_DIRTY GWEN_DB_NODE_FLAGS_DIRTY n r"

text \<open>Appending and inserting return the position of the new node; inserting moves its siblings by one.\<close>

definition GWEN_DB_Node_Append_UnDirty :: "gwen_db_node \<Rightarrow> db_pos \<Rightarrow> gwen_db_node \<Rightarrow> (gwen_db_node \<times> db_pos) outcome" where
  "GWEN_DB_Node_Append_UnDirty r parent n =
     obind (db_node r parent) (\<lambda>p.
       case db_children p of
         None \<Rightarrow> Abort
       | Some cs \<Rightarrow> Ret (db_upd (db_with_children (\<lambda>cs. cs @ [n])) parent r, parent @ [length cs]))"

definition GWEN_DB_Node_Append :: "gwen_db_node \<Rightarrow> db_pos \<Rightarrow> gwen_db_node \<Rightarrow> (gwen_db_node \<times> db_pos) outcome" where
  "GWEN_DB_Node_Append r parent n =
     obind (GWEN_DB_Node_Append_UnDirty r parent n) (\<lambda>(r, m). Ret (db_dirty_up r parent, m))"

definition GWEN_DB_Node_InsertUnDirty :: "gwen_db_node \<Rightarrow> db_pos \<Rightarrow> gwen_db_node \<Rightarrow> (gwen_db_node \<times> db_pos) outcome" where
  "GWEN_DB_Node_InsertUnDirty r parent n =
     obind (db_node r parent) (\<lambda>p.
       case db_children p of
         None \<Rightarrow> Abort
       | Some cs \<Rightarrow> Ret (db_upd (db_with_children (\<lambda>cs. n # cs)) parent r, parent @ [0]))"

definition GWEN_DB_Node_Insert :: "gwen_db_node \<Rightarrow> db_pos \<Rightarrow> gwen_db_node \<Rightarrow> (gwen_db_node \<times> db_pos) outcome" where
  "GWEN_DB_Node_Insert r parent n =
     obind (GWEN_DB_Node_InsertUnDirty r parent n) (\<lambda>(r, m). Ret (db_dirty_up r parent, m))"

text \<open>Unlinking takes a node out of the list of its parent and returns it; the root has no parent.\<close>

definition GWEN_DB_Node_Unlink :: "gwen_db_node \<Rightarrow> db_pos \<Rightarrow> (gwen_db_node \<times> gwen_db_node) outcome" where
  "GWEN_DB_Node_Unlink r n =
     obind (db_node r n) (\<lambda>m.
       if n = [] then Abort
       else Ret (db_dirty_up (db_upd (db_with_children (\<lambda>cs. take (last n) cs @ drop (Suc (last n)) cs)) (butlast n) r) (butlast n), m))"

fun GWEN_DB_Node_dup :: "gwen_db_node \<Rightarrow> gwen_db_node option" where
  "GWEN_DB_Node_dup (DbNode t fl d cs) =
    (if t \<in> {NodeType_Unknown, NodeType_ValueLast} then None
     else
       (let ds = map GWEN_DB_Node_dup (case cs of None \<Rightarrow> [] | Some cs \<Rightarrow> cs)
        in if list_all (\<lambda>x. x \<noteq> None) ds
           then Some (DbNode t 0 d (if t \<in> {NodeType_Group, NodeType_Var} then Some (map the ds) else None))
           else None))"

definition GWEN_DB_Group_dup :: "gwen_db_node \<Rightarrow> gwen_db_node option" where
  "GWEN_DB_Group_dup n = (if db_typ n \<noteq> NodeType_Group then None else GWEN_DB_Node_dup n)"

section \<open>Walking through a tree\<close>

fun db_scan :: "(gwen_db_node \<Rightarrow> bool) \<Rightarrow> gwen_db_node list \<Rightarrow> nat \<Rightarrow> nat option" where
  "db_scan P [] k = None"
| "db_scan P (c # cs) k = (if P c then Some k else db_scan P cs (Suc k))"

definition db_first :: "gwen_db_node_type \<Rightarrow> (gwen_db_node \<Rightarrow> bool) \<Rightarrow> gwen_db_node \<Rightarrow> db_pos \<Rightarrow> db_pos option outcome" where
  "db_first t P r n =
     obind (db_node r n) (\<lambda>m.
       if db_typ m \<noteq> t then Ret None
       else case db_children m of
         None \<Rightarrow> Abort
       | Some cs \<Rightarrow> Ret (map_option (\<lambda>k. n @ [k]) (db_scan P cs 0)))"

definition db_siblings :: "gwen_db_node \<Rightarrow> db_pos \<Rightarrow> gwen_db_node list" where
  "db_siblings r n =
    (if n = [] then []
     else case db_at r (butlast n) of
       Some p \<Rightarrow> (case db_children p of Some cs \<Rightarrow> drop (Suc (last n)) cs | None \<Rightarrow> [])
     | None \<Rightarrow> [])"

definition db_next :: "(gwen_db_node \<Rightarrow> bool) \<Rightarrow> (gwen_db_node \<Rightarrow> bool) \<Rightarrow> gwen_db_node \<Rightarrow> db_pos \<Rightarrow> db_pos option outcome" where
  "db_next Q P r n =
     obind (db_node r n) (\<lambda>m.
       if \<not> Q m then Ret None
       else Ret (map_option (\<lambda>k. butlast n @ [k]) (db_scan P (db_siblings r n) (Suc (last n)))))"

definition GWEN_DB_IsGroup :: "gwen_db_node \<Rightarrow> bool" where
  "GWEN_DB_IsGroup n \<longleftrightarrow> db_typ n = NodeType_Group"

definition GWEN_DB_IsVariable :: "gwen_db_node \<Rightarrow> bool" where
  "GWEN_DB_IsVariable n \<longleftrightarrow> db_typ n = NodeType_Var"

text \<open>Both comparisons of \<^verbatim>\<open>GWEN_DB_IsValue\<close> are \<^verbatim>\<open>>=\<close>.\<close>

definition GWEN_DB_IsValue :: "gwen_db_node \<Rightarrow> bool" where
  "GWEN_DB_IsValue n \<longleftrightarrow> (db_is_value n \<or> db_typ n = NodeType_ValueLast) \<and> db_typ n = NodeType_ValueLast"

definition GWEN_DB_GetFirstGroup :: "gwen_db_node \<Rightarrow> db_pos \<Rightarrow> db_pos option outcome" where
  "GWEN_DB_GetFirstGroup r n = db_first NodeType_Group GWEN_DB_IsGroup r n"

definition GWEN_DB_GetNextGroup :: "gwen_db_node \<Rightarrow> db_pos \<Rightarrow> db_pos option outcome" where
  "GWEN_DB_GetNextGroup r n = db_next GWEN_DB_IsGroup GWEN_DB_IsGroup r n"

definition GWEN_DB_GetFirstVar :: "gwen_db_node \<Rightarrow> db_pos \<Rightarrow> db_pos option outcome" where
  "GWEN_DB_GetFirstVar r n = db_first NodeType_Group GWEN_DB_IsVariable r n"

definition GWEN_DB_GetNextVar :: "gwen_db_node \<Rightarrow> db_pos \<Rightarrow> db_pos option outcome" where
  "GWEN_DB_GetNextVar r n = db_next GWEN_DB_IsVariable GWEN_DB_IsVariable r n"

definition GWEN_DB_GetFirstValue :: "gwen_db_node \<Rightarrow> db_pos \<Rightarrow> db_pos option outcome" where
  "GWEN_DB_GetFirstValue r n = db_first NodeType_Var db_is_value r n"

definition GWEN_DB_GetNextValue :: "gwen_db_node \<Rightarrow> db_pos \<Rightarrow> db_pos option outcome" where
  "GWEN_DB_GetNextValue r n = db_next db_is_value db_is_value r n"

definition GWEN_DB_GetValueType :: "gwen_db_node \<Rightarrow> gwen_db_node_type" where
  "GWEN_DB_GetValueType n = (if db_is_value n then db_typ n else NodeType_Unknown)"

text \<open>The parent group: the nearest node above that is a group.\<close>

fun db_parent_group :: "gwen_db_node \<Rightarrow> nat \<Rightarrow> db_pos \<Rightarrow> db_pos option" where
  "db_parent_group r 0 n = None"
| "db_parent_group r (Suc k) n =
    (case db_at r (take k n) of
       Some m \<Rightarrow> if db_typ m = NodeType_Group then Some (take k n) else db_parent_group r k n
     | None \<Rightarrow> db_parent_group r k n)"

definition GWEN_DB_GetParentGroup :: "gwen_db_node \<Rightarrow> db_pos \<Rightarrow> db_pos option outcome" where
  "GWEN_DB_GetParentGroup r n = obind (db_node r n) (\<lambda>_. Ret (db_parent_group r (length n) n))"

section \<open>Finding nodes by name\<close>

text \<open>\<^verbatim>\<open>strcasecmp(a, b)==0\<close>.\<close>

definition same_name :: "byte list \<Rightarrow> byte list \<Rightarrow> bool" where
  "same_name a b \<longleftrightarrow> map tolower a = map tolower b"

definition db_name :: "gwen_db_node \<Rightarrow> byte list" where
  "db_name n = (case db_data n of DataName s \<Rightarrow> s | _ \<Rightarrow> [])"

text \<open>The match number \<open>idx\<close>, counted down; below the smallest \<^verbatim>\<open>int\<close> counting is undefined.\<close>

fun db_nth :: "(gwen_db_node \<Rightarrow> bool) \<Rightarrow> int \<Rightarrow> gwen_db_node list \<Rightarrow> nat \<Rightarrow> nat option outcome" where
  "db_nth P idx [] k = Ret None"
| "db_nth P idx (c # cs) k =
    (if P c then (if idx = 0 then Ret (Some k) else obind (ck (idx - 1)) (\<lambda>idx. db_nth P idx cs (Suc k)))
     else db_nth P idx cs (Suc k))"

definition db_find :: "gwen_db_node_type \<Rightarrow> gwen_db_node \<Rightarrow> db_pos \<Rightarrow> byte list \<Rightarrow> int \<Rightarrow> db_pos option outcome" where
  "db_find t r n name idx =
     obind (db_node r n) (\<lambda>m.
       if db_typ m \<noteq> NodeType_Group then Ret None
       else case db_children m of
         None \<Rightarrow> Abort
       | Some cs \<Rightarrow>
           obind (db_nth (\<lambda>c. db_typ c = t \<and> same_name (db_name c) name) idx cs 0) (\<lambda>k.
             Ret (map_option (\<lambda>k. n @ [k]) k)))"

definition GWEN_DB_FindGroup :: "gwen_db_node \<Rightarrow> db_pos \<Rightarrow> byte list \<Rightarrow> int \<Rightarrow> db_pos option outcome" where
  "GWEN_DB_FindGroup r n name idx = db_find NodeType_Group r n name idx"

definition GWEN_DB_FindVar :: "gwen_db_node \<Rightarrow> db_pos \<Rightarrow> byte list \<Rightarrow> int \<Rightarrow> db_pos option outcome" where
  "GWEN_DB_FindVar r n name idx = db_find NodeType_Var r n name idx"

text \<open>Creating a variable or a group below \<open>n\<close>; only where the index is 0.\<close>

definition db_create ::
  "gwen_db_node \<Rightarrow> db_pos \<Rightarrow> byte list \<Rightarrow> int \<Rightarrow> u32 \<Rightarrow> (gwen_db_node \<times> db_pos option) outcome" where
  "db_create r n entry idx fl =
    (if idx \<noteq> 0 then Ret (r, None)
     else
       (let nn = (if has fl GWEN_PATH_FLAGS_VARIABLE then GWEN_DB_Var_new entry else GWEN_DB_Group_new entry)
        in obind (if has fl GWEN_DB_FLAGS_INSERT then GWEN_DB_Node_Insert r n nn else GWEN_DB_Node_Append r n nn)
             (\<lambda>(r, m). Ret (r, Some m))))"

definition GWEN_DB_HandlePath ::
  "byte list \<Rightarrow> gwen_db_node \<Rightarrow> db_pos \<Rightarrow> int \<Rightarrow> u32 \<Rightarrow> (gwen_db_node \<times> db_pos option) outcome" where
  "GWEN_DB_HandlePath entry r n idx fl =
    (if has fl GWEN_PATH_FLAGS_LAST
          \<and> (has fl GWEN_PATH_FLAGS_VARIABLE \<and> has fl GWEN_PATH_FLAGS_CREATE_VAR
             \<or> \<not> has fl GWEN_PATH_FLAGS_VARIABLE \<and> has fl GWEN_PATH_FLAGS_CREATE_GROUP)
        \<or> \<not> has fl GWEN_PATH_FLAGS_LAST \<and> has fl GWEN_PATH_FLAGS_PATHCREATE
     then db_create r n entry idx fl
     else obind (if has fl GWEN_PATH_FLAGS_VARIABLE then GWEN_DB_FindVar r n entry idx
                 else GWEN_DB_FindGroup r n entry idx) (\<lambda>nn.
       case nn of
         None \<Rightarrow>
           if \<not> has fl GWEN_PATH_FLAGS_LAST \<and> has fl GWEN_PATH_FLAGS_PATHMUSTEXIST \<or> has fl GWEN_PATH_FLAGS_NAMEMUSTEXIST
           then Ret (r, None)
           else db_create r n entry idx fl
       | Some m \<Rightarrow>
           if has fl GWEN_PATH_FLAGS_LAST \<and> has fl GWEN_PATH_FLAGS_NAMEMUSTNOTEXIST
              \<or> \<not> has fl GWEN_PATH_FLAGS_LAST \<and> has fl GWEN_PATH_FLAGS_PATHMUSTNOTEXIST
           then Ret (r, None)
           else Ret (r, Some m)))"

definition GWEN_DB_GetNode :: "gwen_db_node \<Rightarrow> db_pos \<Rightarrow> byte list \<Rightarrow> u32 \<Rightarrow> (gwen_db_node \<times> db_pos option) outcome" where
  "GWEN_DB_GetNode r n path fl = GWEN_Path_HandleWithIdx path r n fl GWEN_DB_HandlePath"

end
