(* ===== verification/Gwen_DBOps.thy ===== *)
theory Gwen_DBOps
  imports Gwen_DB
begin

text \<open>
  The operations of \<^verbatim>\<open>src/parser/db.c\<close> that callers use: values by path, groups, deletion, renaming.
\<close>

definition must_exist :: u32 where
  "must_exist = GWEN_PATH_FLAGS_PATHMUSTEXIST OR GWEN_PATH_FLAGS_NAMEMUSTEXIST"

section \<open>Reading values\<close>

definition GWEN_DB_GetValue :: "gwen_db_node \<Rightarrow> db_pos \<Rightarrow> byte list \<Rightarrow> int \<Rightarrow> (gwen_db_node \<times> db_pos option) outcome" where
  "GWEN_DB_GetValue r n path idx =
     obind (GWEN_DB_GetNode r n path (must_exist OR GWEN_PATH_FLAGS_VARIABLE)) (\<lambda>(r, nn).
       case nn of
         None \<Rightarrow> Ret (r, None)
       | Some m \<Rightarrow>
           obind (db_node r m) (\<lambda>v.
             case db_children v of
               None \<Rightarrow> Abort
             | Some cs \<Rightarrow> obind (db_nth db_is_value idx cs 0) (\<lambda>k. Ret (r, map_option (\<lambda>k. m @ [k]) k))))"

text \<open>The node found, for the getters; they do not look at the tree otherwise.\<close>

definition db_value :: "gwen_db_node \<Rightarrow> db_pos \<Rightarrow> byte list \<Rightarrow> int \<Rightarrow> gwen_db_node option outcome" where
  "db_value r n path idx =
     obind (GWEN_DB_GetValue r n path idx) (\<lambda>(r, m).
       case m of None \<Rightarrow> Ret None | Some m \<Rightarrow> obind (db_node r m) (\<lambda>v. Ret (Some v)))"

definition GWEN_DB_GetCharValueFromNode :: "gwen_db_node \<Rightarrow> byte list option" where
  "GWEN_DB_GetCharValueFromNode n =
    (if db_typ n \<noteq> NodeType_ValueChar then None else case db_data n of DataChar s \<Rightarrow> Some s | _ \<Rightarrow> None)"

definition GWEN_DB_GetIntValueFromNode :: "gwen_db_node \<Rightarrow> int outcome" where
  "GWEN_DB_GetIntValueFromNode n =
    (case (db_typ n, db_data n) of
       (NodeType_ValueInt, DataInt v) \<Rightarrow> Ret v
     | (NodeType_ValueChar, DataChar s) \<Rightarrow> obind (sscanf_int s) (\<lambda>x. Ret (case x of None \<Rightarrow> 0 | Some v \<Rightarrow> v))
     | _ \<Rightarrow> Ret 0)"

definition GWEN_DB_GetBinValueFromNode :: "gwen_db_node \<Rightarrow> byte list option" where
  "GWEN_DB_GetBinValueFromNode n =
    (if db_typ n \<noteq> NodeType_ValueBin then None else case db_data n of DataBin bs \<Rightarrow> Some bs | _ \<Rightarrow> None)"

definition GWEN_DB_GetCharValue ::
  "gwen_db_node \<Rightarrow> db_pos \<Rightarrow> byte list \<Rightarrow> int \<Rightarrow> byte list option \<Rightarrow> byte list option outcome" where
  "GWEN_DB_GetCharValue r n path idx defVal =
     obind (db_value r n path idx) (\<lambda>v.
       Ret (case v of
              None \<Rightarrow> defVal
            | Some v \<Rightarrow> if db_typ v \<noteq> NodeType_ValueChar then defVal
                         else case db_data v of DataChar s \<Rightarrow> Some s | _ \<Rightarrow> defVal))"

definition GWEN_DB_GetIntValue :: "gwen_db_node \<Rightarrow> db_pos \<Rightarrow> byte list \<Rightarrow> int \<Rightarrow> int \<Rightarrow> int outcome" where
  "GWEN_DB_GetIntValue r n path idx defVal =
     obind (db_value r n path idx) (\<lambda>v.
       case v of
         None \<Rightarrow> Ret defVal
       | Some v \<Rightarrow>
           (case (db_typ v, db_data v) of
              (NodeType_ValueInt, DataInt x) \<Rightarrow> Ret x
            | (NodeType_ValueChar, DataChar s) \<Rightarrow> obind (sscanf_int s) (\<lambda>x. Ret (case x of None \<Rightarrow> defVal | Some x \<Rightarrow> x))
            | _ \<Rightarrow> Ret defVal))"

definition GWEN_DB_GetBinValue :: "gwen_db_node \<Rightarrow> db_pos \<Rightarrow> byte list \<Rightarrow> int \<Rightarrow> byte list option \<Rightarrow> byte list option outcome" where
  "GWEN_DB_GetBinValue r n path idx defVal =
     obind (db_value r n path idx) (\<lambda>v.
       Ret (case v of
              None \<Rightarrow> defVal
            | Some v \<Rightarrow> if db_typ v \<noteq> NodeType_ValueBin then defVal
                         else case db_data v of DataBin bs \<Rightarrow> Some bs | _ \<Rightarrow> defVal))"

definition GWEN_DB_GetPtrValue :: "gwen_db_node \<Rightarrow> db_pos \<Rightarrow> byte list \<Rightarrow> int \<Rightarrow> nat \<Rightarrow> nat outcome" where
  "GWEN_DB_GetPtrValue r n path idx defVal =
     obind (db_value r n path idx) (\<lambda>v.
       Ret (case v of
              None \<Rightarrow> defVal
            | Some v \<Rightarrow> if db_typ v \<noteq> NodeType_ValuePtr then defVal
                         else case db_data v of DataPtr p \<Rightarrow> p | _ \<Rightarrow> defVal))"

definition GWEN_DB_VariableExists :: "gwen_db_node \<Rightarrow> db_pos \<Rightarrow> byte list \<Rightarrow> bool outcome" where
  "GWEN_DB_VariableExists r n path =
     obind (GWEN_DB_GetNode r n path (must_exist OR GWEN_PATH_FLAGS_VARIABLE)) (\<lambda>(r, nn). Ret (nn \<noteq> None))"

definition GWEN_DB_ValueExists :: "gwen_db_node \<Rightarrow> db_pos \<Rightarrow> byte list \<Rightarrow> int \<Rightarrow> bool outcome" where
  "GWEN_DB_ValueExists r n path i = obind (GWEN_DB_GetValue r n path i) (\<lambda>(r, nn). Ret (nn \<noteq> None))"

definition GWEN_DB_GetVariableType :: "gwen_db_node \<Rightarrow> db_pos \<Rightarrow> byte list \<Rightarrow> gwen_db_node_type outcome" where
  "GWEN_DB_GetVariableType r n p =
     obind (GWEN_DB_FindVar r n p 0) (\<lambda>nn.
       case nn of
         None \<Rightarrow> Ret NodeType_Unknown
       | Some m \<Rightarrow> obind (GWEN_DB_GetFirstValue r m) (\<lambda>v.
           case v of None \<Rightarrow> Ret NodeType_Unknown | Some v \<Rightarrow> obind (db_node r v) (\<lambda>v. Ret (GWEN_DB_GetValueType v))))"

definition GWEN_DB_GetValueTypeByPath :: "gwen_db_node \<Rightarrow> db_pos \<Rightarrow> byte list \<Rightarrow> int \<Rightarrow> gwen_db_node_type outcome" where
  "GWEN_DB_GetValueTypeByPath r n path i =
     obind (db_value r n path i) (\<lambda>v. Ret (case v of None \<Rightarrow> NodeType_Unknown | Some v \<Rightarrow> GWEN_DB_GetValueType v))"

section \<open>Setting values\<close>

definition GWEN_DB_ClearNode :: "gwen_db_node \<Rightarrow> db_pos \<Rightarrow> gwen_db_node" where
  "GWEN_DB_ClearNode r n = db_upd (db_with_children (\<lambda>_. [])) n r"

definition db_add :: "u32 \<Rightarrow> gwen_db_node \<Rightarrow> db_pos \<Rightarrow> gwen_db_node \<Rightarrow> (int \<times> gwen_db_node) outcome" where
  "db_add fl r m nv =
     obind (if has fl GWEN_DB_FLAGS_INSERT then GWEN_DB_Node_Insert r m nv else GWEN_DB_Node_Append r m nv)
       (\<lambda>(r, _). Ret (0, r))"

text \<open>The body the setters share: find or create the variable, clear it if wanted, add the value.\<close>

definition db_set_value :: "gwen_db_node \<Rightarrow> db_pos \<Rightarrow> u32 \<Rightarrow> byte list \<Rightarrow> gwen_db_node \<Rightarrow> (int \<times> gwen_db_node) outcome" where
  "db_set_value r n fl path nv =
     obind (GWEN_DB_GetNode r n path (fl OR GWEN_PATH_FLAGS_VARIABLE)) (\<lambda>(r, nn).
       case nn of
         None \<Rightarrow> Ret (1, r)
       | Some m \<Rightarrow> db_add fl (if has fl GWEN_DB_FLAGS_OVERWRITE_VARS then GWEN_DB_ClearNode r m else r) m nv)"

definition GWEN_DB_SetCharValue ::
  "gwen_db_node \<Rightarrow> db_pos \<Rightarrow> u32 \<Rightarrow> byte list \<Rightarrow> byte list option \<Rightarrow> (int \<times> gwen_db_node) outcome" where
  "GWEN_DB_SetCharValue r n fl path val = db_set_value r n fl path (GWEN_DB_ValueChar_new val)"

definition GWEN_DB_SetCharValueFromInt ::
  "gwen_db_node \<Rightarrow> db_pos \<Rightarrow> u32 \<Rightarrow> byte list \<Rightarrow> int \<Rightarrow> (int \<times> gwen_db_node) outcome" where
  "GWEN_DB_SetCharValueFromInt r n fl path val = db_set_value r n fl path (GWEN_DB_ValueChar_newFromInt val)"

definition GWEN_DB_SetIntValue :: "gwen_db_node \<Rightarrow> db_pos \<Rightarrow> u32 \<Rightarrow> byte list \<Rightarrow> int \<Rightarrow> (int \<times> gwen_db_node) outcome" where
  "GWEN_DB_SetIntValue r n fl path val = db_set_value r n fl path (GWEN_DB_ValueInt_new val)"

definition GWEN_DB_SetBinValue ::
  "gwen_db_node \<Rightarrow> db_pos \<Rightarrow> u32 \<Rightarrow> byte list \<Rightarrow> byte list \<Rightarrow> (int \<times> gwen_db_node) outcome" where
  "GWEN_DB_SetBinValue r n fl path val = db_set_value r n fl path (GWEN_DB_ValueBin_new val)"

definition GWEN_DB_SetPtrValue :: "gwen_db_node \<Rightarrow> db_pos \<Rightarrow> u32 \<Rightarrow> byte list \<Rightarrow> nat \<Rightarrow> (int \<times> gwen_db_node) outcome" where
  "GWEN_DB_SetPtrValue r n fl path val = db_set_value r n fl path (GWEN_DB_ValuePtr_new val)"

text \<open>The check for an existing value looks at the first value of \<open>n\<close>, the node the path starts at, and compares
  without case where the case is to be sensed.\<close>

definition db_first_is :: "gwen_db_node \<Rightarrow> db_pos \<Rightarrow> byte list \<Rightarrow> bool \<Rightarrow> db_pos option outcome" where
  "db_first_is r n val senseCase =
     obind (GWEN_DB_GetFirstValue r n) (\<lambda>nv.
       case nv of
         None \<Rightarrow> Ret None
       | Some m \<Rightarrow> obind (db_node r m) (\<lambda>v.
           case GWEN_DB_GetCharValueFromNode v of
             None \<Rightarrow> Ret None
           | Some s \<Rightarrow> Ret (if (if senseCase then same_name s val else s = val) then Some m else None)))"

definition GWEN_DB_AddCharValue ::
  "gwen_db_node \<Rightarrow> db_pos \<Rightarrow> byte list \<Rightarrow> byte list \<Rightarrow> bool \<Rightarrow> bool \<Rightarrow> (int \<times> gwen_db_node) outcome" where
  "GWEN_DB_AddCharValue r n path val senseCase check =
     obind (GWEN_DB_GetNode r n path (GWEN_DB_FLAGS_DEFAULT OR GWEN_PATH_FLAGS_VARIABLE)) (\<lambda>(r, nn).
       case nn of
         None \<Rightarrow> Ret (-1, r)
       | Some m \<Rightarrow>
           obind (if check then db_first_is r n val senseCase else Ret None) (\<lambda>found.
             if found \<noteq> None then Ret (1, r)
             else obind (GWEN_DB_Node_Append r m (GWEN_DB_ValueChar_new (Some val))) (\<lambda>(r, _). Ret (0, r))))"

definition GWEN_DB_RemoveCharValue ::
  "gwen_db_node \<Rightarrow> db_pos \<Rightarrow> byte list \<Rightarrow> byte list \<Rightarrow> bool \<Rightarrow> (int \<times> gwen_db_node) outcome" where
  "GWEN_DB_RemoveCharValue r n path val senseCase =
     obind (GWEN_DB_GetNode r n path (GWEN_DB_FLAGS_DEFAULT OR GWEN_PATH_FLAGS_VARIABLE)) (\<lambda>(r, nn).
       case nn of
         None \<Rightarrow> Ret (-1, r)
       | Some m \<Rightarrow>
           obind (db_first_is r n val senseCase) (\<lambda>found.
             case found of
               None \<Rightarrow> Ret (1, r)
             | Some v \<Rightarrow> obind (GWEN_DB_Node_Unlink r v) (\<lambda>(r, _). Ret (0, r))))"

definition db_set_data :: "gwen_db_data \<Rightarrow> gwen_db_node \<Rightarrow> gwen_db_node" where
  "db_set_data d n = (case n of DbNode t fl _ cs \<Rightarrow> DbNode t fl d cs)"

definition GWEN_DB_SetCharValueInNode :: "gwen_db_node \<Rightarrow> db_pos \<Rightarrow> byte list \<Rightarrow> (int \<times> gwen_db_node) outcome" where
  "GWEN_DB_SetCharValueInNode r n s =
     obind (db_node r n) (\<lambda>m.
       if db_typ m \<noteq> NodeType_ValueChar then Ret (GWEN_ERROR_INVALID, r)
       else Ret (0, db_upd (db_set_data (DataChar s)) n r))"

section \<open>Groups and deletion\<close>

definition GWEN_DB_GetGroup :: "gwen_db_node \<Rightarrow> db_pos \<Rightarrow> u32 \<Rightarrow> byte list \<Rightarrow> (gwen_db_node \<times> db_pos option) outcome" where
  "GWEN_DB_GetGroup r n fl path =
     obind (GWEN_DB_GetNode r n path (fl AND NOT GWEN_PATH_FLAGS_VARIABLE)) (\<lambda>(r, nn).
       case nn of
         None \<Rightarrow> Ret (r, None)
       | Some m \<Rightarrow> Ret (if has fl GWEN_DB_FLAGS_OVERWRITE_GROUPS then GWEN_DB_ClearNode r m else r, Some m))"

definition db_delete :: "u32 \<Rightarrow> gwen_db_node \<Rightarrow> db_pos \<Rightarrow> byte list \<Rightarrow> (int \<times> gwen_db_node) outcome" where
  "db_delete fl r n path =
     obind (GWEN_DB_GetNode r n path fl) (\<lambda>(r, nn).
       case nn of
         None \<Rightarrow> Ret (1, r)
       | Some m \<Rightarrow> obind (GWEN_DB_Node_Unlink r m) (\<lambda>(r, _). Ret (0, r)))"

definition GWEN_DB_DeleteVar :: "gwen_db_node \<Rightarrow> db_pos \<Rightarrow> byte list \<Rightarrow> (int \<times> gwen_db_node) outcome" where
  "GWEN_DB_DeleteVar r n path = db_delete (must_exist OR GWEN_PATH_FLAGS_VARIABLE) r n path"

definition GWEN_DB_DeleteGroup :: "gwen_db_node \<Rightarrow> db_pos \<Rightarrow> byte list \<Rightarrow> (int \<times> gwen_db_node) outcome" where
  "GWEN_DB_DeleteGroup r n path = db_delete must_exist r n path"

definition GWEN_DB_ClearGroup :: "gwen_db_node \<Rightarrow> db_pos \<Rightarrow> byte list option \<Rightarrow> (int \<times> gwen_db_node) outcome" where
  "GWEN_DB_ClearGroup r n path =
     obind (db_node r n) (\<lambda>_.
       case path of
         None \<Rightarrow> Ret (0, GWEN_DB_ClearNode r n)
       | Some path \<Rightarrow>
           obind (GWEN_DB_GetNode r n path must_exist) (\<lambda>(r, nn).
             case nn of None \<Rightarrow> Ret (1, r) | Some m \<Rightarrow> Ret (0, GWEN_DB_ClearNode r m)))"

text \<open>Adding a group: the wrong kind of node is passed over without an error.\<close>

definition GWEN_DB_AddGroup :: "gwen_db_node \<Rightarrow> db_pos \<Rightarrow> gwen_db_node \<Rightarrow> (int \<times> gwen_db_node) outcome" where
  "GWEN_DB_AddGroup r n nn =
     obind (db_node r n) (\<lambda>m.
       if db_typ m \<noteq> NodeType_Group \<or> db_typ nn \<noteq> NodeType_Group then Ret (0, r)
       else obind (GWEN_DB_Node_Append r n nn) (\<lambda>(r, _). Ret (0, r)))"

definition GWEN_DB_InsertGroup :: "gwen_db_node \<Rightarrow> db_pos \<Rightarrow> gwen_db_node \<Rightarrow> (int \<times> gwen_db_node) outcome" where
  "GWEN_DB_InsertGroup r n nn =
     obind (db_node r n) (\<lambda>m.
       if db_typ m \<noteq> NodeType_Group \<or> db_typ nn \<noteq> NodeType_Group then Ret (0, r)
       else obind (GWEN_DB_Node_Insert r n nn) (\<lambda>(r, _). Ret (0, r)))"

fun db_append_copies :: "gwen_db_node \<Rightarrow> db_pos \<Rightarrow> gwen_db_node list \<Rightarrow> gwen_db_node outcome" where
  "db_append_copies r n [] = Ret r"
| "db_append_copies r n (c # cs) =
    (case GWEN_DB_Node_dup c of
       None \<Rightarrow> Abort
     | Some cpn \<Rightarrow> obind (GWEN_DB_Node_Append r n cpn) (\<lambda>(r, _). db_append_copies r n cs))"

definition GWEN_DB_AddGroupChildren :: "gwen_db_node \<Rightarrow> db_pos \<Rightarrow> gwen_db_node \<Rightarrow> (int \<times> gwen_db_node) outcome" where
  "GWEN_DB_AddGroupChildren r n nn =
     obind (db_node r n) (\<lambda>m.
       if db_typ m \<noteq> NodeType_Group \<or> db_typ nn \<noteq> NodeType_Group then Ret (-1, r)
       else obind (db_append_copies r n (case db_children nn of None \<Rightarrow> [] | Some cs \<Rightarrow> cs)) (\<lambda>r. Ret (0, r)))"

definition GWEN_DB_UnlinkGroup :: "gwen_db_node \<Rightarrow> db_pos \<Rightarrow> (gwen_db_node \<times> gwen_db_node option) outcome" where
  "GWEN_DB_UnlinkGroup r n =
     obind (db_node r n) (\<lambda>m.
       if db_typ m \<noteq> NodeType_Group then Ret (r, None)
       else obind (GWEN_DB_Node_Unlink r n) (\<lambda>(r, g). Ret (r, Some g)))"

definition GWEN_DB_GroupName :: "gwen_db_node \<Rightarrow> byte list option" where
  "GWEN_DB_GroupName n = (if db_typ n \<noteq> NodeType_Group then None else Some (db_name n))"

definition GWEN_DB_VariableName :: "gwen_db_node \<Rightarrow> byte list option" where
  "GWEN_DB_VariableName n = (if db_typ n \<noteq> NodeType_Var then None else Some (db_name n))"

definition GWEN_DB_GroupRename :: "gwen_db_node \<Rightarrow> db_pos \<Rightarrow> byte list \<Rightarrow> gwen_db_node outcome" where
  "GWEN_DB_GroupRename r n newname =
     obind (db_node r n) (\<lambda>m.
       if db_typ m \<noteq> NodeType_Group then Abort else Ret (db_upd (db_set_data (DataName newname)) n r))"

definition GWEN_DB_VariableRename :: "gwen_db_node \<Rightarrow> db_pos \<Rightarrow> byte list \<Rightarrow> gwen_db_node outcome" where
  "GWEN_DB_VariableRename r n newname =
     obind (db_node r n) (\<lambda>m.
       if db_typ m \<noteq> NodeType_Var then Abort else Ret (db_upd (db_set_data (DataName newname)) n r))"

definition GWEN_DB_GetNodeFlags :: "gwen_db_node \<Rightarrow> u32" where
  "GWEN_DB_GetNodeFlags n = db_nodeFlags n"

definition GWEN_DB_SetNodeFlags :: "gwen_db_node \<Rightarrow> db_pos \<Rightarrow> u32 \<Rightarrow> gwen_db_node outcome" where
  "GWEN_DB_SetNodeFlags r n fl =
     obind (db_node r n) (\<lambda>_. Ret (db_upd (\<lambda>m. case m of DbNode t _ d cs \<Rightarrow> DbNode t fl d cs) n r))"

end
