(* ===== verification/Gwen_DBTree.thy ===== *)
theory Gwen_DBTree
  imports Gwen_DBOps
begin

text \<open>
  Well-formed configuration trees: which nodes may be below which, and what they hold. The laws of positions and
  of updates at a position, and that the flags of nodes do not matter for finding them.
\<close>

section \<open>Well-formed trees\<close>

fun db_wf :: "gwen_db_node \<Rightarrow> bool" where
  "db_wf (DbNode t fl d cs) \<longleftrightarrow>
     t = NodeType_Group \<and> is_DataName d
       \<and> (case cs of Some cs \<Rightarrow> list_all (\<lambda>c. db_typ c \<in> {NodeType_Group, NodeType_Var} \<and> db_wf c) cs | None \<Rightarrow> False)
   \<or> t = NodeType_Var \<and> is_DataName d
       \<and> (case cs of Some cs \<Rightarrow> list_all (\<lambda>c. db_is_value c \<and> db_wf c) cs | None \<Rightarrow> False)
   \<or> t = NodeType_ValueChar \<and> is_DataChar d \<and> cs = None
   \<or> t = NodeType_ValueInt \<and> is_DataInt d \<and> cs = None
   \<or> t = NodeType_ValueBin \<and> is_DataBin d \<and> cs = None
   \<or> t = NodeType_ValuePtr \<and> is_DataPtr d \<and> cs = None"

declare db_wf.simps [simp del]

text \<open>What may be a child of what.\<close>

definition db_fits :: "gwen_db_node_type \<Rightarrow> gwen_db_node \<Rightarrow> bool" where
  "db_fits t c \<longleftrightarrow>
    (t = NodeType_Group \<and> db_typ c \<in> {NodeType_Group, NodeType_Var} \<or> t = NodeType_Var \<and> db_is_value c)"

lemma db_wf_inner:
  assumes "db_typ n \<in> {NodeType_Group, NodeType_Var}"
  shows "db_wf n \<longleftrightarrow> (\<exists>cs. is_DataName (db_data n) \<and> db_children n = Some cs \<and> (\<forall>c \<in> set cs. db_fits (db_typ n) c \<and> db_wf c))"
  using assms by (cases n) (auto simp: db_wf.simps db_fits_def list_all_iff split: option.splits)

lemma db_wf_children:
  assumes "db_wf n" "db_children n = Some cs"
  shows "db_typ n \<in> {NodeType_Group, NodeType_Var}" "\<And>c. c \<in> set cs \<Longrightarrow> db_fits (db_typ n) c \<and> db_wf c"
  using assms
  by (cases n; auto simp: db_wf.simps db_fits_def list_all_iff)+

lemma db_wf_value_kids:
  "db_wf n \<Longrightarrow> db_is_value n \<Longrightarrow> db_children n = None"
  by (cases n) (auto simp: db_wf.simps db_is_value_def)

lemma db_wf_at: "db_wf r \<Longrightarrow> db_at r n = Some m \<Longrightarrow> db_wf m"
proof (induction r n rule: db_at.induct)
  case (2 n i "is")
  then show ?case using db_wf_children(2) [of n] by (auto split: option.splits if_splits)
qed simp

section \<open>Updates at a position\<close>

lemma db_at_append: "db_at r (p @ q) = (case db_at r p of None \<Rightarrow> None | Some m \<Rightarrow> db_at m q)"
  by (induction r p rule: db_at.induct) (auto split: option.splits)

lemma db_at_upd: "db_at r p = Some m \<Longrightarrow> db_at (db_upd f p r) (p @ q) = db_at (f m) q"
proof (induction f p r arbitrary: m rule: db_upd.induct)
  case (2 f i "is" t fl d cs)
  then show ?case by (auto split: if_splits)
qed auto

lemma db_at_upd_same: "db_at r p = Some m \<Longrightarrow> db_at (db_upd f p r) p = Some (f m)"
  using db_at_upd [of r p m f "[]"] by simp

lemma db_typ_upd: "(p = [] \<Longrightarrow> db_typ (f r) = db_typ r) \<Longrightarrow> db_typ (db_upd f p r) = db_typ r"
  by (cases "(f, p, r)" rule: db_upd.cases) auto

lemma db_data_upd: "(p = [] \<Longrightarrow> db_data (f r) = db_data r) \<Longrightarrow> db_data (db_upd f p r) = db_data r"
  by (cases "(f, p, r)" rule: db_upd.cases) auto

lemma db_wf_upd:
  assumes "db_wf r" "db_at r p = Some m" "db_wf (f m)" "db_typ (f m) = db_typ m"
  shows "db_wf (db_upd f p r)"
  using assms
proof (induction f p r rule: db_upd.induct)
  case (2 f i "is" t fl d cs)
  let ?n = "DbNode t fl d (Some cs)" and ?u = "db_upd f is (cs ! i)"
  from "2.prems"(2) have i: "i < length cs" "db_at (cs ! i) is = Some m" by (auto split: if_splits)
  note kids = db_wf_children [OF "2.prems"(1), of cs, simplified]
  have u: "db_wf ?u" using "2.IH" kids(2) i "2.prems" by auto
  have t: "db_typ ?u = db_typ (cs ! i)" using i(2) "2.prems"(4) by (intro db_typ_upd) auto
  have "db_fits t ?u" using kids(2) [of "cs ! i"] i(1) t by (simp add: db_fits_def db_is_value_def)
  with u kids have "\<forall>c \<in> set (cs[i := ?u]). db_fits t c \<and> db_wf c"
    using set_update_subset_insert [of cs i ?u] by auto
  with kids(1) "2.prems"(1) show ?case by (auto simp: db_wf_inner)
qed auto

lemma db_upd_append: "db_upd f (p @ q) r = db_upd (db_upd f q) p r"
  by (induction f p r rule: db_upd.induct) auto

lemma db_upd_upd: "db_upd f p (db_upd g p r) = db_upd (\<lambda>m. f (g m)) p r"
proof (induction g p r rule: db_upd.induct)
  case (2 g i "is" t fl d cs)
  then show ?case by (cases "i < length cs") (auto simp: list_update_beyond)
qed auto

lemma db_upd_const: "db_at r p = Some m \<Longrightarrow> db_upd f p r = db_upd (\<lambda>_. f m) p r"
proof (induction f p r rule: db_upd.induct)
  case (2 f i "is" t fl d cs)
  then show ?case by (auto split: if_splits)
qed auto

lemma db_upd_id: "db_at r p = Some m \<Longrightarrow> db_upd (\<lambda>_. m) p r = r"
proof (induction "\<lambda>_ :: gwen_db_node. m" p r rule: db_upd.induct)
  case (2 i "is" t fl d cs)
  then show ?case by (auto split: if_splits)
qed auto

section \<open>Trees without their flags\<close>

fun db_erase :: "gwen_db_node \<Rightarrow> gwen_db_node" where
  "db_erase (DbNode t fl d cs) = DbNode t 0 d (map_option (map db_erase) cs)"

lemma db_erase_sel [simp]:
  "db_typ (db_erase n) = db_typ n" "db_data (db_erase n) = db_data n"
  "db_children (db_erase n) = map_option (map db_erase) (db_children n)"
  by (cases n; simp)+

lemma db_is_value_erase [simp]: "db_is_value (db_erase n) = db_is_value n"
  by (simp add: db_is_value_def)

lemma db_name_erase [simp]: "db_name (db_erase n) = db_name n"
  by (simp add: db_name_def)

lemma db_at_erase: "db_at (db_erase r) p = map_option db_erase (db_at r p)"
  by (induction r p rule: db_at.induct) (auto split: option.splits)

lemma db_erase_flags_up: "db_erase (GWEN_DB_ModifyBranchFlagsUp nf msk p r) = db_erase r"
proof (induction nf msk p r rule: GWEN_DB_ModifyBranchFlagsUp.induct)
  case (2 nf msk i "is" t fl d cs)
  show ?case
  proof (cases cs)
    case (Some l)
    then show ?thesis using 2 by (cases "i < length l") (auto intro!: nth_equalityI simp: nth_list_update list_update_beyond)
  qed simp
qed simp

lemma db_erase_dirty [simp]: "db_erase (db_dirty_up r p) = db_erase r"
  by (simp add: db_dirty_up_def db_erase_flags_up)

lemma db_wf_erase: "db_wf (db_erase r) = db_wf r"
proof (induction r rule: db_erase.induct)
  case (1 t fl d cs)
  then show ?case by (cases cs) (auto simp: db_wf.simps list_all_iff)
qed

lemma db_wf_cong: "db_erase r = db_erase r' \<Longrightarrow> db_wf r = db_wf r'"
  using db_wf_erase [of r] db_wf_erase [of r'] by simp

lemma db_erase_upd:
  assumes "\<And>m. db_at r p = Some m \<Longrightarrow> db_erase (f m) = g (db_erase m)"
  shows "db_erase (db_upd f p r) = db_upd g p (db_erase r)"
  using assms
proof (induction f p r rule: db_upd.induct)
  case (2 f i "is" t fl d cs)
  then show ?case by (cases "i < length cs") (auto simp: map_update list_update_beyond)
qed auto

lemma db_erase_eq_sel:
  assumes "db_erase a = db_erase b"
  shows "db_typ a = db_typ b" "db_data a = db_data b" "db_name a = db_name b" "db_is_value a = db_is_value b"
    "map_option (map db_erase) (db_children a) = map_option (map db_erase) (db_children b)"
  using assms db_erase_sel [of a] db_erase_sel [of b] by (auto simp: db_name_def db_is_value_def)

lemma db_at_cong:
  assumes "db_erase r = db_erase r'" "db_at r p = Some m"
  obtains m' where "db_at r' p = Some m'" "db_erase m' = db_erase m"
  using assms db_at_erase [of r p] db_at_erase [of r' p] by auto

section \<open>Finding by name\<close>

lemma db_nth_cong:
  "length cs = length cs' \<Longrightarrow> (\<And>j. j < length cs \<Longrightarrow> P (cs ! j) = P' (cs' ! j)) \<Longrightarrow> db_nth P idx cs k = db_nth P' idx cs' k"
proof (induction cs cs' arbitrary: idx k rule: list_induct2)
  case (Cons c cs c' cs')
  from Cons.prems [of 0] have "P c = P' c'" by simp
  moreover have "db_nth P idx cs k = db_nth P' idx cs' k" for idx k
    using Cons.IH Cons.prems [of "Suc j" for j] by force
  ultimately show ?case by simp
qed simp

lemma db_node_erase: "db_node (db_erase r) n = (case db_node r n of Ret m \<Rightarrow> Ret (db_erase m) | Abort \<Rightarrow> Abort | Fault \<Rightarrow> Fault | Hang \<Rightarrow> Hang)"
  by (auto simp: db_node_def db_at_erase split: option.splits)

lemma db_find_erase: "db_find t (db_erase r) n name idx = db_find t r n name idx"
proof -
  have "db_nth (\<lambda>c. db_typ c = t \<and> same_name (db_name c) name) idx (map db_erase cs) 0
      = db_nth (\<lambda>c. db_typ c = t \<and> same_name (db_name c) name) idx cs 0" for cs
    by (rule db_nth_cong) auto
  then show ?thesis
    by (auto simp: db_find_def db_node_def db_at_erase split: option.splits)
qed

lemma db_find_cong: "db_erase r = db_erase r' \<Longrightarrow> db_find t r n name idx = db_find t r' n name idx"
  using db_find_erase [of t r] db_find_erase [of t r'] by metis

section \<open>Changes below a node\<close>

text \<open>\<open>changed_at p r r'\<close>: but for flags, \<open>r'\<close> differs from \<open>r\<close> only below the node at \<open>p\<close>.\<close>

definition changed_at :: "db_pos \<Rightarrow> gwen_db_node \<Rightarrow> gwen_db_node \<Rightarrow> bool" where
  "changed_at p r r' \<longleftrightarrow>
    (\<exists>y x. db_at r p = Some y \<and> db_typ x = db_typ y \<and> db_data x = db_data y \<and> db_erase r' = db_upd (\<lambda>_. x) p (db_erase r))"

lemma changed_at_refl: "db_at r p = Some y \<Longrightarrow> db_erase r' = db_erase r \<Longrightarrow> changed_at p r r'"
  unfolding changed_at_def by (rule exI [of _ y], rule exI [of _ "db_erase y"]) (simp add: db_upd_id db_at_erase)

lemma changed_at_typ:
  assumes "changed_at p r r'"
  obtains y y' where "db_at r p = Some y" "db_at r' p = Some y'" "db_typ y' = db_typ y" "db_data y' = db_data y"
proof -
  from assms obtain y x where y: "db_at r p = Some y" "db_typ x = db_typ y" "db_data x = db_data y"
    "db_erase r' = db_upd (\<lambda>_. x) p (db_erase r)" by (auto simp: changed_at_def)
  have "db_at (db_erase r') p = Some x" using y by (simp add: db_at_upd_same [of _ _ "db_erase y"] db_at_erase)
  then obtain y' where "db_at r' p = Some y'" "db_erase y' = x" by (auto simp: db_at_erase)
  with y show thesis by (intro that [of y y']) auto
qed

lemma changed_at_up:
  assumes "changed_at (p @ q) r r'"
  shows "changed_at p r r'"
proof -
  from assms obtain y x where y: "db_at r (p @ q) = Some y" "db_typ x = db_typ y" "db_data x = db_data y"
    "db_erase r' = db_upd (\<lambda>_. x) (p @ q) (db_erase r)" by (auto simp: changed_at_def)
  from y(1) obtain z where z: "db_at r p = Some z" "db_at z q = Some y" by (auto simp: db_at_append split: option.splits)
  let ?u = "db_upd (\<lambda>_. x) q (db_erase z)"
  have "db_erase r' = db_upd (\<lambda>_. ?u) p (db_erase r)"
    using y(4) z(1) db_upd_const [of "db_erase r" p "db_erase z" "db_upd (\<lambda>_. x) q"] by (simp add: db_upd_append db_at_erase)
  moreover have "db_typ ?u = db_typ (db_erase z)" by (rule db_typ_upd) (use y z in auto)
  moreover have "db_data ?u = db_data (db_erase z)" by (rule db_data_upd) (use y z in auto)
  ultimately show ?thesis using z(1) unfolding changed_at_def
    by (intro exI [of _ z] exI [of _ ?u]) simp
qed

lemma changed_at_trans:
  assumes "changed_at p r r1" "changed_at p r1 r2"
  shows "changed_at p r r2"
proof -
  from assms(1) obtain y x where y: "db_at r p = Some y" "db_typ x = db_typ y" "db_data x = db_data y"
    "db_erase r1 = db_upd (\<lambda>_. x) p (db_erase r)" by (auto simp: changed_at_def)
  from assms(2) obtain y' x' where y': "db_at r1 p = Some y'" "db_typ x' = db_typ y'" "db_data x' = db_data y'"
    "db_erase r2 = db_upd (\<lambda>_. x') p (db_erase r1)" by (auto simp: changed_at_def)
  from changed_at_typ [OF assms(1)] y(1) y'(1) have "db_typ y' = db_typ y" "db_data y' = db_data y" by auto
  moreover have "db_erase r2 = db_upd (\<lambda>_. x') p (db_erase r)" by (simp add: y'(4) y(4) db_upd_upd)
  ultimately show ?thesis using y(1) y'(2,3) by (auto simp: changed_at_def)
qed

lemma changed_at_find:
  assumes "changed_at (n @ [k]) r r'"
  shows "db_find t r' n name idx = db_find t r n name idx"
proof -
  from assms obtain y x where y: "db_at r (n @ [k]) = Some y" "db_typ x = db_typ y" "db_data x = db_data y"
    "db_erase r' = db_upd (\<lambda>_. x) (n @ [k]) (db_erase r)" by (auto simp: changed_at_def)
  from y(1) obtain m cs where m: "db_at r n = Some m" "db_children m = Some cs" "k < length cs" "cs ! k = y"
    by (auto simp: db_at_append split: option.splits if_splits)
  let ?E = "map db_erase cs" and ?P = "\<lambda>c. db_typ c = t \<and> same_name (db_name c) name"
  have "db_at (db_erase r') n = Some (db_upd (\<lambda>_. x) [k] (db_erase m))"
    using y(4) m(1) by (simp add: db_upd_append db_at_upd_same [of _ _ "db_erase m"] db_at_erase)
  moreover have "db_children (db_upd (\<lambda>_. x) [k] (db_erase m)) = Some (?E[k := x])"
    "db_typ (db_upd (\<lambda>_. x) [k] (db_erase m)) = db_typ m"
    using m(2) by (cases m; simp)+
  moreover have "db_nth ?P idx (?E[k := x]) 0 = db_nth ?P idx ?E 0"
    using m y(2,3) by (intro db_nth_cong) (auto simp: nth_list_update db_name_def)
  moreover have "db_at (db_erase r) n = Some (db_erase m)" using m(1) by (simp add: db_at_erase)
  ultimately have "db_find t (db_erase r') n name idx = db_find t (db_erase r) n name idx"
    using m(2) by (simp add: db_find_def db_node_def)
  then show ?thesis by (simp add: db_find_erase)
qed

end
