(* ===== verification/Gwen_DBProps.thy ===== *)
theory Gwen_DBProps
  imports Gwen_DBTree
begin

text \<open>
  What the configuration tree promises: every sequence of calls on groups keeps it well-formed, and what is stored
  under a path is what is found there.
\<close>

section \<open>The children of a node replaced\<close>

text \<open>But for flags, \<open>r'\<close> is \<open>r\<close> with the children \<open>cs\<close> at \<open>p\<close>.\<close>

definition kids_set :: "db_pos \<Rightarrow> gwen_db_node list \<Rightarrow> gwen_db_node \<Rightarrow> gwen_db_node \<Rightarrow> bool" where
  "kids_set p cs r r' \<longleftrightarrow>
    (\<exists>m. db_at r p = Some m \<and> db_children m \<noteq> None \<and> db_erase r' = db_upd (db_with_children (\<lambda>_. map db_erase cs)) p (db_erase r))"

lemma db_with_children_sel [simp]:
  "db_typ (db_with_children f n) = db_typ n" "db_data (db_with_children f n) = db_data n"
  "db_children (db_with_children f n) = map_option f (db_children n)"
  by (cases n; simp add: db_with_children_def)+

lemma db_erase_idem [simp]: "db_erase (db_erase n) = db_erase n"
proof (induction n rule: db_erase.induct)
  case (1 t fl d cs)
  then show ?case by (cases cs) simp_all
qed

lemma kids_set_changed: "kids_set p cs r r' \<Longrightarrow> changed_at p r r'"
  unfolding kids_set_def changed_at_def
  by (elim exE conjE, rule exI, rule exI [of _ "db_with_children (\<lambda>_. map db_erase cs) (db_erase m)" for m])
    (auto simp: db_at_erase intro!: db_upd_const)

lemma kids_set_at:
  assumes "kids_set p cs r r'" "db_at r p = Some m"
  obtains m' cs' where "db_at r' p = Some m'" "db_typ m' = db_typ m" "db_data m' = db_data m" "db_children m' = Some cs'"
    "map db_erase cs' = map db_erase cs"
proof -
  have "db_at (db_erase r') p = Some (db_with_children (\<lambda>_. map db_erase cs) (db_erase m))"
    using assms by (auto simp: kids_set_def db_at_erase intro!: db_at_upd_same)
  then obtain m' where m': "db_at r' p = Some m'" "db_erase m' = db_with_children (\<lambda>_. map db_erase cs) (db_erase m)"
    by (auto simp: db_at_erase)
  have "map_option (map db_erase) (db_children m') = db_children (db_erase m')" by simp
  also have "\<dots> = Some (map db_erase cs)" using assms by (auto simp: m'(2) kids_set_def)
  finally show thesis using m' db_erase_sel(1,2) [of m'] by (cases "db_children m'") (auto intro!: that [of m'])
qed

lemma kids_set_wf:
  assumes "kids_set p cs r r'" "db_wf r" "db_at r p = Some m" "\<And>c. c \<in> set cs \<Longrightarrow> db_fits (db_typ m) c \<and> db_wf c"
  shows "db_wf r'"
proof -
  let ?f = "db_with_children (\<lambda>_. map db_erase cs)"
  have m: "db_at (db_erase r) p = Some (db_erase m)" "db_erase r' = db_upd ?f p (db_erase r)" "db_children m \<noteq> None"
    using assms(1,3) by (auto simp: kids_set_def db_at_erase)
  have wf: "db_wf (db_erase r)" "db_wf (db_erase m)" using assms(2) db_wf_at [OF assms(2,3)] by (simp_all add: db_wf_erase)
  obtain l where l: "db_children m = Some l" using m(3) by auto
  have t: "db_typ m \<in> {NodeType_Group, NodeType_Var}" using db_wf_children(1) [OF db_wf_at [OF assms(2,3)] l] .
  have "db_wf (?f (db_erase m))"
    using wf(2) t assms(4) l by (auto simp: db_wf_inner db_fits_def db_wf_erase)
  from db_wf_upd [OF wf(1) m(1), of ?f, OF this] m(2) have "db_wf (db_erase r')" by simp
  then show ?thesis by (simp add: db_wf_erase)
qed

lemma kids_set_upd:
  assumes "db_at r p = Some m" "db_children m = Some cs"
  shows "kids_set p (f cs) r (db_upd (db_with_children f) p r)"
proof -
  have "db_erase (db_with_children f m) = db_with_children (\<lambda>_. map db_erase (f cs)) (db_erase m)"
    using assms(2) by (cases m) (simp add: db_with_children_def)
  then have "db_erase (db_upd (db_with_children f) p r) = db_upd (db_with_children (\<lambda>_. map db_erase (f cs))) p (db_erase r)"
    using assms(1) by (intro db_erase_upd) auto
  then show ?thesis using assms by (auto simp: kids_set_def)
qed

lemma kids_set_dirty [simp]: "kids_set p cs r (db_dirty_up r' q) = kids_set p cs r r'"
  by (simp add: kids_set_def)

lemma db_append_ok:
  assumes "db_at r p = Some m" "db_children m = Some cs"
  obtains r' where "GWEN_DB_Node_Append r p nn = Ret (r', p @ [length cs])" "kids_set p (cs @ [nn]) r r'"
  using assms kids_set_upd [OF assms, of "\<lambda>cs. cs @ [nn]"]
  by (simp add: GWEN_DB_Node_Append_def GWEN_DB_Node_Append_UnDirty_def db_node_def)

lemma db_insert_ok:
  assumes "db_at r p = Some m" "db_children m = Some cs"
  obtains r' where "GWEN_DB_Node_Insert r p nn = Ret (r', p @ [0])" "kids_set p (nn # cs) r r'"
  using assms kids_set_upd [OF assms, of "\<lambda>cs. nn # cs"]
  by (simp add: GWEN_DB_Node_Insert_def GWEN_DB_Node_InsertUnDirty_def db_node_def)

text \<open>The new node is in front or at the end.\<close>

lemma db_put_ok:
  assumes "db_at r p = Some m" "db_children m = Some cs"
  obtains r' k cs' where
    "(if b then GWEN_DB_Node_Insert r p nn else GWEN_DB_Node_Append r p nn) = Ret (r', p @ [k])" "kids_set p cs' r r'"
    "cs' = (if b then nn # cs else cs @ [nn])" "k = (if b then 0 else length cs)"
proof (cases b)
  case True
  obtain r' where "GWEN_DB_Node_Insert r p nn = Ret (r', p @ [0])" "kids_set p (nn # cs) r r'" by (rule db_insert_ok [OF assms])
  with True show thesis by (intro that) auto
next
  case False
  obtain r' where "GWEN_DB_Node_Append r p nn = Ret (r', p @ [length cs])" "kids_set p (cs @ [nn]) r r'" by (rule db_append_ok [OF assms])
  with False show thesis by (intro that) auto
qed

section \<open>Finding and creating\<close>

lemma db_nth_Some: "db_nth P idx cs k = Ret (Some j) \<Longrightarrow> k \<le> j \<and> j - k < length cs \<and> P (cs ! (j - k))"
proof (induction P idx cs k rule: db_nth.induct)
  case (2 P idx c cs k)
  show ?case
  proof (cases "P c \<and> idx = 0")
    case False
    then have "\<exists>i. db_nth P i cs (Suc k) = Ret (Some j) \<and> (i = idx \<or> i = idx - 1)"
      using "2.prems" by (auto simp: ck_def split: if_splits)
    then have "Suc k \<le> j \<and> j - Suc k < length cs \<and> P (cs ! (j - Suc k))"
      using "2.IH" False "2.prems" by (auto simp: ck_def split: if_splits)
    then show ?thesis by (auto simp: Suc_diff_le nth_Cons')
  qed (use "2.prems" in auto)
qed simp

lemma db_nth_0_None: "db_nth P 0 cs k = Ret None \<longleftrightarrow> (\<forall>c \<in> set cs. \<not> P c)"
  by (induction cs arbitrary: k) auto

lemma db_nth_0_total: "\<exists>x. db_nth P 0 cs k = Ret x"
  by (induction cs arbitrary: k) auto

lemma db_nth_0_skip: "\<forall>c \<in> set cs. \<not> P c \<Longrightarrow> db_nth P 0 (cs @ ds) k = db_nth P 0 ds (k + length cs)"
  by (induction cs arbitrary: k) auto

lemma db_find_group:
  assumes "db_at r n = Some g" "db_typ g = NodeType_Group" "db_children g = Some cs"
  shows "db_find t r n name idx =
     obind (db_nth (\<lambda>c. db_typ c = t \<and> same_name (db_name c) name) idx cs 0) (\<lambda>k. Ret (map_option (\<lambda>k. n @ [k]) k))"
  using assms by (simp add: db_find_def db_node_def)

lemma db_group_kids: "db_wf r \<Longrightarrow> db_at r n = Some g \<Longrightarrow> db_typ g = NodeType_Group \<Longrightarrow> \<exists>cs. db_children g = Some cs"
  using db_wf_at [of r n g] by (auto simp: db_wf_inner)

lemma db_find_Some:
  assumes "db_wf r" "db_at r n = Some g" "db_typ g = NodeType_Group" "db_find t r n name idx = Ret (Some m)"
  obtains k x where "m = n @ [k]" "db_at r m = Some x" "db_typ x = t"
proof -
  obtain cs where cs: "db_children g = Some cs" using db_group_kids [OF assms(1-3)] by blast
  let ?P = "\<lambda>c. db_typ c = t \<and> same_name (db_name c) name"
  from assms(4) db_find_group [OF assms(2,3) cs, of t name idx] obtain k where
    k: "db_nth ?P idx cs 0 = Ret (Some k)" "m = n @ [k]"
    by (cases "db_nth ?P idx cs 0") auto
  from db_nth_Some [OF k(1)] k(2) assms(2) cs show thesis by (intro that [of k "cs ! k"]) (auto simp: db_at_append)
qed

abbreviation elem_typ :: "u32 \<Rightarrow> gwen_db_node_type" where
  "elem_typ fl \<equiv> (if has fl GWEN_PATH_FLAGS_VARIABLE then NodeType_Var else NodeType_Group)"

lemma db_new_wf [simp]:
  "db_wf (GWEN_DB_Var_new e)" "db_typ (GWEN_DB_Var_new e) = NodeType_Var" "db_name (GWEN_DB_Var_new e) = e"
  "db_wf (GWEN_DB_Group_new e)" "db_typ (GWEN_DB_Group_new e) = NodeType_Group" "db_name (GWEN_DB_Group_new e) = e"
  by (simp_all add: GWEN_DB_Var_new_def GWEN_DB_Group_new_def GWEN_DB_Node_new_def db_wf.simps db_name_def)

text \<open>A node created where none of its name was found is the one found afterwards.\<close>

lemma db_create_ok:
  assumes "db_wf r" "db_at r n = Some g" "db_typ g = NodeType_Group"
  obtains r' k x where "db_create r n entry 0 fl = Ret (r', Some (n @ [k]))" "db_wf r'" "changed_at n r r'"
    "db_at r' (n @ [k]) = Some x" "db_typ x = elem_typ fl"
    "db_find (elem_typ fl) r n entry 0 = Ret None \<Longrightarrow> db_find (elem_typ fl) r' n entry 0 = Ret (Some (n @ [k]))"
proof -
  obtain cs where cs: "db_children g = Some cs" using db_group_kids [OF assms] by blast
  define nn where "nn = (if has fl GWEN_PATH_FLAGS_VARIABLE then GWEN_DB_Var_new entry else GWEN_DB_Group_new entry)"
  have nn: "db_wf nn" "db_typ nn = elem_typ fl" "db_name nn = entry" by (auto simp: nn_def)
  let ?ins = "has fl GWEN_DB_FLAGS_INSERT" and ?P = "\<lambda>c. db_typ c = elem_typ fl \<and> same_name (db_name c) entry"
  obtain r' k cs' where put: "(if ?ins then GWEN_DB_Node_Insert r n nn else GWEN_DB_Node_Append r n nn) = Ret (r', n @ [k])"
    "kids_set n cs' r r'" "cs' = (if ?ins then nn # cs else cs @ [nn])" "k = (if ?ins then 0 else length cs)"
    by (rule db_put_ok [OF assms(2) cs])
  obtain g' ds where g': "db_at r' n = Some g'" "db_typ g' = db_typ g" "db_children g' = Some ds" "map db_erase ds = map db_erase cs'"
    by (rule kids_set_at [OF put(2) assms(2)])
  have kids: "db_fits (db_typ g) c \<and> db_wf c" if "c \<in> set cs" for c
    using db_wf_children(2) [OF db_wf_at [OF assms(1,2)] cs] that by blast
  have wf: "db_wf r'"
    by (rule kids_set_wf [OF put(2) assms(1,2)]) (use put(3) kids nn assms(3) in \<open>auto simp: db_fits_def split: if_splits\<close>)
  have len: "length ds = length cs'" using g'(4) by (metis length_map)
  have nth: "db_erase (ds ! j) = db_erase (cs' ! j)" if "j < length ds" for j
    using g'(4) that len by (metis nth_map)
  have k: "k < length ds" "cs' ! k = nn" using put(3,4) len by auto
  have same: "db_nth ?P 0 ds 0 = db_nth ?P 0 cs' 0"
    by (rule db_nth_cong [OF len]) (simp only: db_erase_eq_sel(1) [OF nth] db_erase_eq_sel(3) [OF nth])
  have "db_find (elem_typ fl) r' n entry 0 = Ret (Some (n @ [k]))" if "db_find (elem_typ fl) r n entry 0 = Ret None"
  proof -
    obtain x where x: "db_nth ?P 0 cs 0 = Ret x" using db_nth_0_total by blast
    then have "x = None" using that by (simp add: db_find_group [OF assms(2,3) cs])
    then have "\<forall>c \<in> set cs. \<not> ?P c" using x db_nth_0_None [of ?P cs 0] by simp
    then have "db_nth ?P 0 cs' 0 = Ret (Some k)"
      using put(3,4) nn db_nth_0_skip [of cs ?P "[nn]" 0] by (auto simp: same_name_def)
    then show ?thesis using db_find_group [OF g'(1) _ g'(3), of "elem_typ fl" entry 0] g'(2) assms(3) same by simp
  qed
  moreover have "db_create r n entry 0 fl = Ret (r', Some (n @ [k]))"
    using put(1) by (simp add: db_create_def nn_def [symmetric])
  moreover have "db_at r' (n @ [k]) = Some (ds ! k)" using g'(1,3) k(1) by (simp add: db_at_append)
  moreover have "db_typ (ds ! k) = elem_typ fl" using nth [OF k(1)] k(2) nn(2) db_erase_eq_sel(1) by metis
  ultimately show thesis using wf kids_set_changed [OF put(2)] by (intro that) auto
qed

section \<open>Walking a path\<close>

lemma changed_at_group:
  assumes "changed_at n r r'" "db_at r n = Some g" "db_typ g = NodeType_Group"
  obtains g' where "db_at r' n = Some g'" "db_typ g' = NodeType_Group"
proof -
  obtain y y' where "db_at r n = Some y" "db_at r' n = Some y'" "db_typ y' = db_typ y" by (rule changed_at_typ [OF assms(1)])
  with assms(2,3) show thesis by (intro that [of y']) auto
qed

text \<open>One element: the tree stays well-formed, and the node reached is a child of the right type.\<close>

lemma HandlePath_typed:
  assumes "db_wf r" "db_at r n = Some g" "db_typ g = NodeType_Group" "GWEN_DB_HandlePath e r n idx fl = Ret (r', res)"
  shows "db_wf r' \<and> changed_at n r r'
     \<and> (\<forall>m. res = Some m \<longrightarrow> (\<exists>k x. m = n @ [k] \<and> db_at r' m = Some x \<and> db_typ x = elem_typ fl))"
proof -
  have create: "db_wf r' \<and> changed_at n r r' \<and> (\<forall>m. res = Some m \<longrightarrow> (\<exists>k x. m = n @ [k] \<and> db_at r' m = Some x \<and> db_typ x = elem_typ fl))"
    if c: "db_create r n e idx fl = Ret (r', res)"
  proof (cases "idx = 0")
    case True
    obtain r1 k x where "db_create r n e 0 fl = Ret (r1, Some (n @ [k]))" "db_wf r1" "changed_at n r r1"
      "db_at r1 (n @ [k]) = Some x" "db_typ x = elem_typ fl" by (rule db_create_ok [OF assms(1-3)])
    with c True show ?thesis by auto
  next
    case False
    then show ?thesis using c assms(1) changed_at_refl [OF assms(2)] by (simp add: db_create_def)
  qed
  have same: "r' = r \<Longrightarrow> res = None \<Longrightarrow> ?thesis" using assms(1) changed_at_refl [OF assms(2)] by simp
  have found: "?thesis" if f: "r' = r" "res = Some m" "db_find (elem_typ fl) r n e idx = Ret (Some m)" for m
  proof -
    obtain k x where "m = n @ [k]" "db_at r m = Some x" "db_typ x = elem_typ fl" by (rule db_find_Some [OF assms(1-3) f(3)])
    then show ?thesis using f(1,2) assms(1) changed_at_refl [OF assms(2)] by auto
  qed
  have find: "(if has fl GWEN_PATH_FLAGS_VARIABLE then GWEN_DB_FindVar r n e idx else GWEN_DB_FindGroup r n e idx)
      = db_find (elem_typ fl) r n e idx" by (simp add: GWEN_DB_FindVar_def GWEN_DB_FindGroup_def)
  have "db_create r n e idx fl = Ret (r', res) \<or> r' = r \<and> res = None
      \<or> r' = r \<and> (\<exists>m. res = Some m \<and> db_find (elem_typ fl) r n e idx = Ret (Some m))"
    using assms(4) unfolding GWEN_DB_HandlePath_def find
    by (simp split: if_split_asm) (cases "db_find (elem_typ fl) r n e idx"; simp split: if_split_asm option.splits)+
  then show ?thesis using create same found by blast
qed

lemma path_typed:
  assumes "path_loop path_index GWEN_DB_HandlePath orig s path r n = Ret (r1, res)" "db_wf r" "db_at r n = Some g"
    "path \<noteq> [] \<Longrightarrow> db_typ g = NodeType_Group"
  shows "db_wf r1 \<and> changed_at n r r1
     \<and> (\<forall>m. res = Some m \<longrightarrow> (\<exists>p x. m = n @ p \<and> db_at r1 m = Some x \<and> (path \<noteq> [] \<longrightarrow> db_typ x = elem_typ orig)))"
  using assms
proof (induction path arbitrary: s r n g rule: length_induct)
  case (1 path)
  show ?case
  proof (cases "path = []")
    case True
    then show ?thesis using 1(2-4) changed_at_refl [OF 1(4)] by (auto simp: path_loop.simps)
  next
    case False
    define rest where "rest = dropWhile (\<lambda>c. \<not> is_slash c) path"
    define path' where "path' = dropWhile is_slash rest"
    define fl where "fl = path_elem_flags orig s rest path'"
    define e where "e = (if s then 47 # takeWhile (\<lambda>c. \<not> is_slash c) path else takeWhile (\<lambda>c. \<not> is_slash c) path)"
    note defs = rest_def path'_def fl_def e_def
    have loop: "obind (if has fl GWEN_PATH_FLAGS_NO_IDX then Ret (Some (e, 0)) else path_index e) (\<lambda>x.
             case x of
               None \<Rightarrow> Ret (r, None)
             | Some (name, idx) \<Rightarrow>
                 if rest \<noteq> [] \<and> path' = [] \<and> has orig GWEN_PATH_FLAGS_VARIABLE then Ret (r, None)
                 else obind (GWEN_DB_HandlePath (path_convert s fl name) r n idx fl) (\<lambda>(st, x).
                        case x of
                          None \<Rightarrow> Ret (st, None)
                        | Some obj \<Rightarrow> path_loop path_index GWEN_DB_HandlePath orig False path' st obj)) = Ret (r1, res)"
      using 1(2) by (subst (asm) path_loop.simps) (simp only: Let_def False if_False defs [symmetric])
    have short: "length path' < length path" using path_shorter [OF False] by (simp add: defs)
    have none: ?thesis if "r1 = r" "res = None" using that 1(3) changed_at_refl [OF 1(4)] by simp
    show ?thesis
    proof (cases "if has fl GWEN_PATH_FLAGS_NO_IDX then Ret (Some (e, 0)) else path_index e")
      case (Ret x)
      show ?thesis
      proof (cases "x = None \<or> rest \<noteq> [] \<and> path' = [] \<and> has orig GWEN_PATH_FLAGS_VARIABLE")
        case True
        then show ?thesis using loop Ret none by (auto split: option.splits)
      next
        case False2: False
        then obtain name idx where x: "x = Some (name, idx)" by auto
        let ?h = "GWEN_DB_HandlePath (path_convert s fl name) r n idx fl"
        obtain r2 res2 where h: "?h = Ret (r2, res2)"
          using loop Ret False2 x by (cases ?h) auto
        note t = HandlePath_typed [OF 1(3,4) 1(5) [OF False] h]
        show ?thesis
        proof (cases res2)
          case None
          then show ?thesis using loop Ret False2 x h t by auto
        next
          case (Some m)
          with t obtain k y where m: "m = n @ [k]" "db_at r2 m = Some y" "db_typ y = elem_typ fl" by blast
          have step: "path_loop path_index GWEN_DB_HandlePath orig False path' r2 m = Ret (r1, res)"
            using loop Ret False2 x h Some by (simp split: if_splits)
          have last: "path' \<noteq> [] \<Longrightarrow> db_typ y = NodeType_Group"
            using m(3) by (auto simp: fl_def has_bit bit_elem_flags path'_def)
          have var: "path' = [] \<Longrightarrow> db_typ y = elem_typ orig"
            using m(3) False2 by (auto simp: fl_def has_bit bit_elem_flags)
          from 1(1) [rule_format, OF short step _ m(2) last] t
          have ih: "db_wf r1 \<and> changed_at m r2 r1 \<and> (\<forall>m'. res = Some m' \<longrightarrow>
              (\<exists>p z. m' = m @ p \<and> db_at r1 m' = Some z \<and> (path' \<noteq> [] \<longrightarrow> db_typ z = elem_typ orig)))" by blast
          have "changed_at n r r1"
            using changed_at_trans [of n r r2 r1] t changed_at_up [of n "[k]" r2 r1] ih m(1) by blast
          moreover have "\<exists>p z. m' = n @ p \<and> db_at r1 m' = Some z \<and> db_typ z = elem_typ orig" if "res = Some m'" for m'
          proof (cases "path' = []")
            case True
            then have "r1 = r2" "m' = m" using step that by (simp_all add: path_loop.simps)
            with True var m show ?thesis by auto
          next
            case False
            then show ?thesis using ih that m(1) by fastforce
          qed
          ultimately show ?thesis using ih by blast
        qed
      qed
    qed (use loop in auto)
  qed
qed

end
