(* ===== verification/Gwen_DBType.thy ===== *)
theory Gwen_DBType
  imports Gwen_DBProps
begin

text \<open>
  Every operation on the groups of a configuration tree keeps it well-formed: groups hold groups and variables,
  variables hold values, and each node holds the data its type says.
\<close>

section \<open>What the operations keep\<close>

definition path_elems :: "byte list \<Rightarrow> bool" where
  "path_elems path \<longleftrightarrow> dropWhile is_slash (dropWhile isspace path) \<noteq> []"

definition db_group :: "gwen_db_node \<Rightarrow> db_pos \<Rightarrow> bool" where
  "db_group r n \<longleftrightarrow> (case db_at r n of Some g \<Rightarrow> db_typ g = NodeType_Group | None \<Rightarrow> False)"

lemma db_groupE:
  assumes "db_group r n"
  obtains g where "db_at r n = Some g" "db_typ g = NodeType_Group"
  using assms by (auto simp: db_group_def split: option.splits)

definition db_keeps :: "gwen_db_node \<Rightarrow> gwen_db_node \<Rightarrow> bool" where
  "db_keeps r r' \<longleftrightarrow> db_wf r' \<and> db_typ r' = db_typ r"

lemma db_keeps_refl: "db_wf r \<Longrightarrow> db_keeps r r"
  by (simp add: db_keeps_def)

lemma db_keeps_trans: "db_keeps r r1 \<Longrightarrow> db_keeps r1 r2 \<Longrightarrow> db_keeps r r2"
  by (simp add: db_keeps_def)

lemma changed_keeps:
  assumes "changed_at n r r'" "db_wf r'"
  shows "db_keeps r r'"
proof -
  have "changed_at [] r r'" using changed_at_up [of "[]" n] assms(1) by simp
  then obtain y y' where "db_at r [] = Some y" "db_at r' [] = Some y'" "db_typ y' = db_typ y" by (rule changed_at_typ)
  then show ?thesis using assms(2) by (simp add: db_keeps_def)
qed

lemma kids_set_keeps:
  assumes "kids_set p cs r r'" "db_wf r" "db_at r p = Some m" "\<And>c. c \<in> set cs \<Longrightarrow> db_fits (db_typ m) c \<and> db_wf c"
  shows "db_keeps r r'"
  using changed_keeps [OF kids_set_changed [OF assms(1)] kids_set_wf [OF assms]] .

lemma GetNode_typed:
  assumes "GWEN_DB_GetNode r n path fl = Ret (r1, res)" "db_wf r" "db_at r n = Some g" "db_typ g = NodeType_Group"
  shows "db_wf r1 \<and> changed_at n r r1
     \<and> (\<forall>m. res = Some m \<longrightarrow> (\<exists>p x. m = n @ p \<and> db_at r1 m = Some x \<and> (path_elems path \<longrightarrow> db_typ x = elem_typ fl)))"
proof -
  from assms(1) obtain s where
    "path_loop path_index GWEN_DB_HandlePath fl s (dropWhile is_slash (dropWhile isspace path)) r n = Ret (r1, res)"
    unfolding GWEN_DB_GetNode_def GWEN_Path_HandleWithIdx_def path_handle_def Let_def by blast
  from path_typed [OF this assms(2,3,4)] show ?thesis unfolding path_elems_def by blast
qed

lemma GetNode_keeps:
  assumes "GWEN_DB_GetNode r n path fl = Ret (r1, res)" "db_wf r" "db_group r n"
  shows "db_keeps r r1"
  using GetNode_typed [OF assms(1,2)] assms(3) changed_keeps by (auto elim!: db_groupE)

lemma GetNode_var:
  assumes "GWEN_DB_GetNode r n path fl = Ret (r1, Some m)" "db_wf r" "db_group r n" "path_elems path"
  obtains x where "db_at r1 m = Some x" "db_typ x = elem_typ fl"
  using GetNode_typed [OF assms(1,2)] assms(3,4) by (auto elim!: db_groupE)

lemma GetNode_at:
  assumes "GWEN_DB_GetNode r n path fl = Ret (r1, Some m)" "db_wf r" "db_group r n"
  obtains x where "db_at r1 m = Some x"
  using GetNode_typed [OF assms(1,2)] assms(3) by (auto elim!: db_groupE)

lemma ClearNode_kids: "db_at r m = Some x \<Longrightarrow> db_children x = Some cs \<Longrightarrow> kids_set m [] r (GWEN_DB_ClearNode r m)"
  using kids_set_upd [of r m x cs "\<lambda>_. []"] by (simp add: GWEN_DB_ClearNode_def)

lemma db_upd_none: "db_at r m = Some x \<Longrightarrow> db_children x = None \<Longrightarrow> db_upd (db_with_children f) m r = r"
  using db_upd_const [of r m x "db_with_children f"] db_upd_id [of r m x]
  by (cases x) (simp add: db_with_children_def)

lemma ClearNode_keeps:
  assumes "db_wf r" "db_at r m = Some x"
  shows "db_keeps r (GWEN_DB_ClearNode r m)"
proof (cases "db_children x")
  case None
  then show ?thesis using assms by (simp add: GWEN_DB_ClearNode_def db_upd_none db_keeps_refl)
next
  case (Some cs)
  show ?thesis by (rule kids_set_keeps [OF ClearNode_kids [OF assms(2) Some] assms]) simp
qed

lemma db_put_keeps:
  assumes "db_wf r" "db_at r m = Some x" "db_fits (db_typ x) nv" "db_wf nv"
    "(if b then GWEN_DB_Node_Insert r m nv else GWEN_DB_Node_Append r m nv) = Ret (r', k)"
  shows "db_keeps r r'"
proof -
  obtain cs where cs: "db_children x = Some cs"
    using assms(3) db_wf_at [OF assms(1,2)] by (auto simp: db_fits_def db_wf_inner)
  obtain r1 i cs' where "(if b then GWEN_DB_Node_Insert r m nv else GWEN_DB_Node_Append r m nv) = Ret (r1, m @ [i])"
    "kids_set m cs' r r1" "cs' = (if b then nv # cs else cs @ [nv])" by (rule db_put_ok [OF assms(2) cs])
  with assms(3-5) db_wf_children(2) [OF db_wf_at [OF assms(1,2)] cs] show ?thesis
    by (intro kids_set_keeps [of m cs' r r' x] assms(1,2)) (auto split: if_splits)
qed

lemma db_add_keeps:
  assumes "db_add fl r m nv = Ret (rv, r')" "db_wf r" "db_at r m = Some x" "db_fits (db_typ x) nv" "db_wf nv"
  shows "db_keeps r r'"
proof -
  from assms(1) obtain k where
    "(if has fl GWEN_DB_FLAGS_INSERT then GWEN_DB_Node_Insert r m nv else GWEN_DB_Node_Append r m nv) = Ret (r', k)"
    unfolding db_add_def obind_Ret_iff by auto
  from db_put_keeps [OF assms(2-5) this] show ?thesis .
qed

lemma db_set_value_keeps:
  assumes "db_set_value r n fl path nv = Ret (rv, r')" "db_wf r" "db_group r n" "path_elems path" "db_is_value nv" "db_wf nv"
  shows "db_keeps r r'"
proof -
  let ?fl = "fl OR GWEN_PATH_FLAGS_VARIABLE"
  have var: "elem_typ ?fl = NodeType_Var" by (simp add: has_bit bit_or_iff path_flags)
  obtain r1 res where g: "GWEN_DB_GetNode r n path ?fl = Ret (r1, res)"
    using assms(1) by (auto simp: db_set_value_def obind_Ret_iff)
  note k1 = GetNode_keeps [OF g assms(2,3)]
  show ?thesis
  proof (cases res)
    case None
    then show ?thesis using assms(1) g k1 by (simp add: db_set_value_def)
  next
    case (Some m)
    obtain x where x: "db_at r1 m = Some x" "db_typ x = NodeType_Var"
      using GetNode_var [OF g [unfolded Some] assms(2,3,4)] var by metis
    define r2 where "r2 = (if has fl GWEN_DB_FLAGS_OVERWRITE_VARS then GWEN_DB_ClearNode r1 m else r1)"
    have wf1: "db_wf r1" using k1 by (simp add: db_keeps_def)
    have k2: "db_keeps r1 r2" using ClearNode_keeps [OF wf1 x(1)] db_keeps_refl [OF wf1] by (simp add: r2_def)
    have "\<exists>x2. db_at r2 m = Some x2 \<and> db_typ x2 = NodeType_Var"
      using x by (simp add: r2_def GWEN_DB_ClearNode_def db_at_upd_same)
    then obtain x2 where x2: "db_at r2 m = Some x2" "db_typ x2 = NodeType_Var" by blast
    have "db_add fl r2 m nv = Ret (rv, r')" using assms(1) g Some by (simp add: db_set_value_def r2_def)
    from db_add_keeps [OF this _ x2(1) _ assms(6)] have "db_keeps r2 r'"
      using k2 x2(2) assms(5) by (simp add: db_keeps_def db_fits_def)
    then show ?thesis using k1 k2 db_keeps_trans by blast
  qed
qed

lemma Unlink_keeps:
  assumes "GWEN_DB_Node_Unlink r n = Ret (r', m)" "db_wf r"
  shows "db_keeps r r'"
proof -
  from assms(1) have n: "n \<noteq> []" "db_at r n = Some m"
    by (auto simp: GWEN_DB_Node_Unlink_def db_node_def obind_Ret_iff split: option.splits if_splits)
  define p k where "p = butlast n" and "k = last n"
  have pk: "n = p @ [k]" using n(1) by (simp add: p_def k_def)
  from n(2) pk obtain x cs where x: "db_at r p = Some x" "db_children x = Some cs"
    by (auto simp: db_at_append split: option.splits if_splits)
  let ?f = "\<lambda>cs :: gwen_db_node list. take k cs @ drop (Suc k) cs"
  have "r' = db_dirty_up (db_upd (db_with_children ?f) p r) p"
    using assms(1) n by (simp add: GWEN_DB_Node_Unlink_def db_node_def p_def k_def)
  then have "kids_set p (?f cs) r r'" using kids_set_upd [OF x, of ?f] by simp
  moreover have "c \<in> set (?f cs) \<Longrightarrow> c \<in> set cs" for c by (auto dest: in_set_takeD in_set_dropD)
  ultimately show ?thesis
    using db_wf_children(2) [OF db_wf_at [OF assms(2) x(1)] x(2)] by (intro kids_set_keeps [OF _ assms(2) x(1)]) auto
qed

lemma db_delete_keeps:
  assumes "db_delete fl r n path = Ret (rv, r')" "db_wf r" "db_group r n"
  shows "db_keeps r r'"
proof -
  obtain r1 res where g: "GWEN_DB_GetNode r n path fl = Ret (r1, res)"
    using assms(1) by (auto simp: db_delete_def obind_Ret_iff)
  note k1 = GetNode_keeps [OF g assms(2,3)]
  show ?thesis
    using assms(1) g k1 Unlink_keeps [of r1] db_keeps_trans [of r r1 r']
    by (auto simp: db_delete_def obind_Ret_iff db_keeps_def split: option.splits)
qed

text \<open>A copy is the tree itself with all flags reset.\<close>

lemma Node_dup_wf: "db_wf n \<Longrightarrow> GWEN_DB_Node_dup n = Some (db_erase n)"
proof (induction n rule: GWEN_DB_Node_dup.induct)
  case (1 t fl d cs)
  show ?case
  proof (cases cs)
    case None
    then show ?thesis using 1(2) by (auto simp: db_wf.simps)
  next
    case (Some l)
    then have t: "t \<in> {NodeType_Group, NodeType_Var}" and kids: "\<And>c. c \<in> set l \<Longrightarrow> db_wf c"
      using db_wf_children [OF 1(2), of l] by auto
    have "map GWEN_DB_Node_dup l = map (\<lambda>c. Some (db_erase c)) l" using 1(1) kids t Some by auto
    then show ?thesis using t Some by (auto simp: list_all_iff comp_def)
  qed
qed

lemma append_copies_keeps:
  assumes "db_append_copies r n cs = Ret r'" "db_wf r" "db_group r n"
    "\<And>c. c \<in> set cs \<Longrightarrow> db_wf c \<and> db_fits NodeType_Group c"
  shows "db_keeps r r'"
  using assms
proof (induction cs arbitrary: r)
  case Nil
  then show ?case by (simp add: db_keeps_refl)
next
  case (Cons c cs)
  let ?d = "db_erase c"
  obtain g where g: "db_at r n = Some g" "db_typ g = NodeType_Group" by (rule db_groupE [OF Cons.prems(3)])
  have cw: "db_wf c" "db_fits NodeType_Group c" using Cons.prems(4) [of c] by simp_all
  have c: "db_wf ?d" "db_fits NodeType_Group ?d" "GWEN_DB_Node_dup c = Some ?d"
    using cw Node_dup_wf [OF cw(1)] by (simp_all add: db_wf_erase db_fits_def)
  obtain l where l: "db_children g = Some l" using db_group_kids [OF Cons.prems(2) g] ..
  obtain r1 where put: "GWEN_DB_Node_Append r n ?d = Ret (r1, n @ [length l])" "kids_set n (l @ [?d]) r r1"
    by (rule db_append_ok [OF g(1) l])
  have r1: "db_append_copies r1 n cs = Ret r'" using Cons.prems(1) c(3) put(1) by simp
  have k1: "db_keeps r r1" using db_put_keeps [OF Cons.prems(2) g(1), of ?d False] c g(2) put(1) by simp
  obtain g' where "db_at r1 n = Some g'" "db_typ g' = NodeType_Group"
    by (rule changed_at_group [OF kids_set_changed [OF put(2)] g])
  then have "db_group r1 n" by (simp add: db_group_def)
  with Cons.IH [OF r1] k1 Cons.prems(4) have "db_keeps r1 r'" by (simp add: db_keeps_def)
  with k1 show ?case by (rule db_keeps_trans)
qed

section \<open>The other operations\<close>

lemma db_upd_keeps:
  assumes "db_wf r" "db_at r n = Some m" "db_wf (f m)" "db_typ (f m) = db_typ m"
  shows "db_keeps r (db_upd f n r)"
proof -
  have "n = [] \<Longrightarrow> db_typ (f r) = db_typ r" using assms(2,4) by simp
  from db_typ_upd [of n f r, OF this] show ?thesis using db_wf_upd [of r n m f] assms by (simp add: db_keeps_def)
qed

lemma db_set_data_wf:
  "db_typ (db_set_data d m) = db_typ m"
  "db_wf m \<Longrightarrow> db_typ m \<in> {NodeType_Group, NodeType_Var} \<Longrightarrow> db_wf (db_set_data (DataName s) m)"
  "db_wf m \<Longrightarrow> db_typ m = NodeType_ValueChar \<Longrightarrow> db_wf (db_set_data (DataChar s) m)"
  by (cases m; auto simp: db_set_data_def db_wf.simps)+

lemma AddCharValue_keeps:
  assumes "GWEN_DB_AddCharValue r n path val sc chk = Ret (rv, r')" "db_wf r" "db_group r n" "path_elems path"
  shows "db_keeps r r'"
proof -
  let ?fl = "GWEN_DB_FLAGS_DEFAULT OR GWEN_PATH_FLAGS_VARIABLE" and ?nv = "GWEN_DB_ValueChar_new (Some val)"
  have var: "elem_typ ?fl = NodeType_Var" by (simp add: db_flags path_flags)
  obtain r1 res where g: "GWEN_DB_GetNode r n path ?fl = Ret (r1, res)"
    using assms(1) by (auto simp: GWEN_DB_AddCharValue_def obind_Ret_iff)
  note k1 = GetNode_keeps [OF g assms(2,3)]
  show ?thesis
  proof (cases "r' = r1")
    case False
    then obtain m k where m: "res = Some m" "GWEN_DB_Node_Append r1 m ?nv = Ret (r', k)"
      using assms(1) g by (auto simp: GWEN_DB_AddCharValue_def obind_Ret_iff split: option.splits if_splits)
    obtain x where "db_at r1 m = Some x" "db_typ x = NodeType_Var"
      using GetNode_var [OF g [unfolded m(1)] assms(2-4)] var by metis
    with db_put_keeps [of r1 m x ?nv False r' k] m(2) k1 have "db_keeps r1 r'"
      by (simp add: db_keeps_def db_fits_def db_is_value_def GWEN_DB_ValueChar_new_def GWEN_DB_Node_new_def db_wf.simps)
    with k1 show ?thesis by (rule db_keeps_trans)
  qed (use k1 in simp)
qed

lemma RemoveCharValue_keeps:
  assumes "GWEN_DB_RemoveCharValue r n path val sc = Ret (rv, r')" "db_wf r" "db_group r n"
  shows "db_keeps r r'"
proof -
  obtain r1 res where g: "GWEN_DB_GetNode r n path (GWEN_DB_FLAGS_DEFAULT OR GWEN_PATH_FLAGS_VARIABLE) = Ret (r1, res)"
    using assms(1) by (auto simp: GWEN_DB_RemoveCharValue_def obind_Ret_iff)
  note k1 = GetNode_keeps [OF g assms(2,3)]
  show ?thesis
  proof (cases "r' = r1")
    case False
    then obtain v x where "GWEN_DB_Node_Unlink r1 v = Ret (r', x)"
      using assms(1) g by (auto simp: GWEN_DB_RemoveCharValue_def obind_Ret_iff split: option.splits)
    from db_keeps_trans [OF k1 Unlink_keeps [OF this]] k1 show ?thesis by (simp add: db_keeps_def)
  qed (use k1 in simp)
qed

lemma GetGroup_keeps:
  assumes "GWEN_DB_GetGroup r n fl path = Ret (r', res)" "db_wf r" "db_group r n"
  shows "db_keeps r r'"
proof -
  obtain r1 res1 where g: "GWEN_DB_GetNode r n path (fl AND NOT GWEN_PATH_FLAGS_VARIABLE) = Ret (r1, res1)"
    using assms(1) by (auto simp: GWEN_DB_GetGroup_def obind_Ret_iff)
  note k1 = GetNode_keeps [OF g assms(2,3)]
  show ?thesis
  proof (cases "r' = r1")
    case False
    then obtain m where m: "res1 = Some m" "r' = GWEN_DB_ClearNode r1 m"
      using assms(1) g by (auto simp: GWEN_DB_GetGroup_def split: option.splits if_splits)
    obtain x where "db_at r1 m = Some x" by (rule GetNode_at [OF g [unfolded m(1)] assms(2,3)])
    from db_keeps_trans [OF k1 ClearNode_keeps [OF _ this]] m(2) k1 show ?thesis by (simp add: db_keeps_def)
  qed (use k1 in simp)
qed

lemma ClearGroup_keeps:
  assumes "GWEN_DB_ClearGroup r n path = Ret (rv, r')" "db_wf r" "db_group r n"
  shows "db_keeps r r'"
proof (cases path)
  case None
  obtain x where "db_at r n = Some x" using assms(3) by (rule db_groupE)
  with None assms(1) ClearNode_keeps [OF assms(2) this] show ?thesis by (simp add: GWEN_DB_ClearGroup_def db_node_def)
next
  case (Some p)
  obtain r1 res1 where g: "GWEN_DB_GetNode r n p must_exist = Ret (r1, res1)"
    using assms(1) Some by (auto simp: GWEN_DB_ClearGroup_def obind_Ret_iff)
  note k1 = GetNode_keeps [OF g assms(2,3)]
  show ?thesis
  proof (cases "r' = r1")
    case False
    then obtain m where m: "res1 = Some m" "r' = GWEN_DB_ClearNode r1 m"
      using assms(1) g Some by (auto simp: GWEN_DB_ClearGroup_def obind_Ret_iff split: option.splits)
    obtain x where "db_at r1 m = Some x" by (rule GetNode_at [OF g [unfolded m(1)] assms(2,3)])
    from db_keeps_trans [OF k1 ClearNode_keeps [OF _ this]] m(2) k1 show ?thesis by (simp add: db_keeps_def)
  qed (use k1 in simp)
qed

lemma put_group_keeps:
  assumes "db_wf r" "db_node r n = Ret m" "db_wf nn" "db_typ m = NodeType_Group" "db_typ nn = NodeType_Group"
  shows "GWEN_DB_Node_Append r n nn = Ret (r', k) \<Longrightarrow> db_keeps r r'"
    "GWEN_DB_Node_Insert r n nn = Ret (r', k) \<Longrightarrow> db_keeps r r'"
  using db_put_keeps [of r n m nn False] db_put_keeps [of r n m nn True] assms
  by (auto simp: db_node_def db_fits_def split: option.splits)

lemma AddGroup_keeps: "GWEN_DB_AddGroup r n nn = Ret (rv, r') \<Longrightarrow> db_wf r \<Longrightarrow> db_wf nn \<Longrightarrow> db_keeps r r'"
  using put_group_keeps(1) [of r n _ nn]
  by (auto simp: GWEN_DB_AddGroup_def obind_Ret_iff db_keeps_refl split: if_splits)

lemma InsertGroup_keeps: "GWEN_DB_InsertGroup r n nn = Ret (rv, r') \<Longrightarrow> db_wf r \<Longrightarrow> db_wf nn \<Longrightarrow> db_keeps r r'"
  using put_group_keeps(2) [of r n _ nn]
  by (auto simp: GWEN_DB_InsertGroup_def obind_Ret_iff db_keeps_refl split: if_splits)

lemma AddGroupChildren_keeps:
  assumes "GWEN_DB_AddGroupChildren r n nn = Ret (rv, r')" "db_wf r" "db_wf nn"
  shows "db_keeps r r'"
proof (cases "r' = r")
  case False
  let ?cs = "case db_children nn of None \<Rightarrow> [] | Some cs \<Rightarrow> cs"
  obtain m where m: "db_node r n = Ret m" "db_typ m = NodeType_Group" "db_typ nn = NodeType_Group"
    "db_append_copies r n ?cs = Ret r'"
    using assms(1) False by (auto simp: GWEN_DB_AddGroupChildren_def obind_Ret_iff split: if_splits)
  have "db_group r n" using m(1,2) by (auto simp: db_group_def db_node_def split: option.splits)
  moreover have "c \<in> set ?cs \<Longrightarrow> db_wf c \<and> db_fits NodeType_Group c" for c
    using db_wf_children(2) [OF assms(3)] m(3) by (cases "db_children nn") auto
  ultimately show ?thesis by (rule append_copies_keeps [OF m(4) assms(2)])
qed (use assms(2) db_keeps_refl in simp)

lemma UnlinkGroup_keeps: "GWEN_DB_UnlinkGroup r n = Ret (r', g) \<Longrightarrow> db_wf r \<Longrightarrow> db_keeps r r'"
  using Unlink_keeps [of r n]
  by (auto simp: GWEN_DB_UnlinkGroup_def obind_Ret_iff db_keeps_refl split: if_splits)

lemma erase_keeps: "db_wf r \<Longrightarrow> db_erase r' = db_erase r \<Longrightarrow> db_keeps r r'"
  using db_wf_cong [of r' r] db_erase_eq_sel(1) [of r' r] by (simp add: db_keeps_def)

lemma db_erase_flags_down: "db_erase (GWEN_DB_ModifyBranchFlagsDown nf msk r) = db_erase r"
proof (induction nf msk r rule: GWEN_DB_ModifyBranchFlagsDown.induct)
  case (1 nf msk t fl d cs)
  then show ?case by (cases cs) auto
qed

lemma db_typ_flags_down [simp]: "db_typ (GWEN_DB_ModifyBranchFlagsDown nf msk r) = db_typ r"
  by (cases r) simp

lemma db_values_wf [simp]:
  "db_wf (GWEN_DB_ValueChar_new v)" "db_is_value (GWEN_DB_ValueChar_new v)"
  "db_wf (GWEN_DB_ValueChar_newFromInt i)" "db_is_value (GWEN_DB_ValueChar_newFromInt i)"
  "db_wf (GWEN_DB_ValueInt_new i)" "db_is_value (GWEN_DB_ValueInt_new i)"
  "db_wf (GWEN_DB_ValueBin_new b)" "db_is_value (GWEN_DB_ValueBin_new b)"
  "db_wf (GWEN_DB_ValuePtr_new p)" "db_is_value (GWEN_DB_ValuePtr_new p)"
  by (simp_all add: GWEN_DB_ValueChar_new_def GWEN_DB_ValueChar_newFromInt_def GWEN_DB_ValueInt_new_def
      GWEN_DB_ValueBin_new_def GWEN_DB_ValuePtr_new_def GWEN_DB_Node_new_def db_wf.simps db_is_value_def)

section \<open>Sequences of calls\<close>

text \<open>One call of the library on a tree, and the trees that sequences of calls make of a new group, with the paths that the
  setters of values were given on the way. Nodes are passed as positions; where a path is walked, it starts at a group.
  A tree that is added to another, or copied into it, is any node of a tree made in the same way.\<close>

inductive db_step :: "byte list list \<Rightarrow> gwen_db_node \<Rightarrow> gwen_db_node \<Rightarrow> bool"
  and db_reachable :: "byte list list \<Rightarrow> gwen_db_node \<Rightarrow> bool" where
  SetChar: "db_group r n \<Longrightarrow> GWEN_DB_SetCharValue r n fl path v = Ret (rv, r') \<Longrightarrow> db_step [path] r r'"
| SetCharFromInt: "db_group r n \<Longrightarrow> GWEN_DB_SetCharValueFromInt r n fl path i = Ret (rv, r') \<Longrightarrow> db_step [path] r r'"
| SetInt: "db_group r n \<Longrightarrow> GWEN_DB_SetIntValue r n fl path i = Ret (rv, r') \<Longrightarrow> db_step [path] r r'"
| SetBin: "db_group r n \<Longrightarrow> GWEN_DB_SetBinValue r n fl path b = Ret (rv, r') \<Longrightarrow> db_step [path] r r'"
| SetPtr: "db_group r n \<Longrightarrow> GWEN_DB_SetPtrValue r n fl path p = Ret (rv, r') \<Longrightarrow> db_step [path] r r'"
| AddChar: "db_group r n \<Longrightarrow> GWEN_DB_AddCharValue r n path s sc chk = Ret (rv, r') \<Longrightarrow> db_step [path] r r'"
| RemoveChar: "db_group r n \<Longrightarrow> GWEN_DB_RemoveCharValue r n path s sc = Ret (rv, r') \<Longrightarrow> db_step [] r r'"
| SetInNode: "GWEN_DB_SetCharValueInNode r n s = Ret (rv, r') \<Longrightarrow> db_step [] r r'"
| GetGroup: "db_group r n \<Longrightarrow> GWEN_DB_GetGroup r n fl path = Ret (r', g) \<Longrightarrow> db_step [] r r'"
| GetValue: "db_group r n \<Longrightarrow> GWEN_DB_GetValue r n path idx = Ret (r', v) \<Longrightarrow> db_step [] r r'"
| DeleteVar: "db_group r n \<Longrightarrow> GWEN_DB_DeleteVar r n path = Ret (rv, r') \<Longrightarrow> db_step [] r r'"
| DeleteGroup: "db_group r n \<Longrightarrow> GWEN_DB_DeleteGroup r n path = Ret (rv, r') \<Longrightarrow> db_step [] r r'"
| ClearGroup: "db_group r n \<Longrightarrow> GWEN_DB_ClearGroup r n opath = Ret (rv, r') \<Longrightarrow> db_step [] r r'"
| AddGroup: "db_reachable ps t \<Longrightarrow> db_at t q = Some nn \<Longrightarrow> GWEN_DB_AddGroup r n nn = Ret (rv, r') \<Longrightarrow> db_step ps r r'"
| InsertGroup: "db_reachable ps t \<Longrightarrow> db_at t q = Some nn \<Longrightarrow> GWEN_DB_InsertGroup r n nn = Ret (rv, r') \<Longrightarrow> db_step ps r r'"
| AddGroupChildren: "db_reachable ps t \<Longrightarrow> db_at t q = Some nn \<Longrightarrow> GWEN_DB_AddGroupChildren r n nn = Ret (rv, r') \<Longrightarrow> db_step ps r r'"
| UnlinkGroup: "GWEN_DB_UnlinkGroup r n = Ret (r', g) \<Longrightarrow> db_step [] r r'"
| GroupRename: "GWEN_DB_GroupRename r n s = Ret r' \<Longrightarrow> db_step [] r r'"
| VariableRename: "GWEN_DB_VariableRename r n s = Ret r' \<Longrightarrow> db_step [] r r'"
| SetNodeFlags: "GWEN_DB_SetNodeFlags r n fl = Ret r' \<Longrightarrow> db_step [] r r'"
| FlagsUp: "db_step [] r (GWEN_DB_ModifyBranchFlagsUp fl msk n r)"
| FlagsDown: "db_at r n = Some m \<Longrightarrow> db_step [] r (db_upd (GWEN_DB_ModifyBranchFlagsDown fl msk) n r)"
| db_new: "db_reachable [] (GWEN_DB_Group_new name)"
| db_call: "db_reachable ps r \<Longrightarrow> db_step qs r r' \<Longrightarrow> db_reachable (ps @ qs) r'"
| db_unlinked: "db_reachable ps r \<Longrightarrow> GWEN_DB_UnlinkGroup r n = Ret (r', Some g) \<Longrightarrow> db_reachable ps g"
| db_dup: "db_reachable ps r \<Longrightarrow> db_at r n = Some g \<Longrightarrow> GWEN_DB_Group_dup g = Some g' \<Longrightarrow> db_reachable ps g'"

lemma GetValue_tree: "GWEN_DB_GetValue r n path idx = Ret (r', v) \<Longrightarrow>
    \<exists>nn. GWEN_DB_GetNode r n path (must_exist OR GWEN_PATH_FLAGS_VARIABLE) = Ret (r', nn)"
  by (auto simp: GWEN_DB_GetValue_def obind_Ret_iff split: option.splits)

lemma rename_keeps:
  "GWEN_DB_GroupRename r n s = Ret r' \<Longrightarrow> db_wf r \<Longrightarrow> db_keeps r r'"
  "GWEN_DB_VariableRename r n s = Ret r' \<Longrightarrow> db_wf r \<Longrightarrow> db_keeps r r'"
  "GWEN_DB_SetCharValueInNode r n s = Ret (rv, r') \<Longrightarrow> db_wf r \<Longrightarrow> db_keeps r r'"
  unfolding GWEN_DB_GroupRename_def GWEN_DB_VariableRename_def GWEN_DB_SetCharValueInNode_def db_node_def
  by (auto simp: db_set_data_wf db_wf_at db_keeps_refl obind_Ret_iff intro!: db_upd_keeps split: option.splits if_splits)

lemma SetNodeFlags_keeps: "GWEN_DB_SetNodeFlags r n fl = Ret r' \<Longrightarrow> db_wf r \<Longrightarrow> db_keeps r r'"
proof -
  have "db_wf (DbNode t f d cs) = db_wf (DbNode t f' d cs)" for t f f' d cs by (simp add: db_wf.simps)
  then show "GWEN_DB_SetNodeFlags r n fl = Ret r' \<Longrightarrow> db_wf r \<Longrightarrow> db_keeps r r'"
    by (auto simp: GWEN_DB_SetNodeFlags_def db_node_def split: option.splits intro!: db_upd_keeps)
      (metis db_wf_at gwen_db_node.case gwen_db_node.exhaust gwen_db_node.sel(1))+
qed

lemma FlagsDown_keeps: "db_wf r \<Longrightarrow> db_at r n = Some m \<Longrightarrow> db_keeps r (db_upd (GWEN_DB_ModifyBranchFlagsDown fl msk) n r)"
  using db_wf_cong [OF db_erase_flags_down [of fl msk m]] by (auto intro!: db_upd_keeps dest: db_wf_at)

lemma unlinked_wf: "GWEN_DB_UnlinkGroup r n = Ret (r', Some g) \<Longrightarrow> db_wf r \<Longrightarrow> db_wf g \<and> db_typ g = NodeType_Group"
  by (auto simp: GWEN_DB_UnlinkGroup_def GWEN_DB_Node_Unlink_def db_node_def obind_Ret_iff Let_def oassert_def
      intro: db_wf_at split: option.splits if_splits)

lemma dup_wf:
  assumes "GWEN_DB_Group_dup g = Some g'" "db_wf g"
  shows "db_wf g' \<and> db_typ g' = NodeType_Group"
proof -
  have "g' = db_erase g" "db_typ g = NodeType_Group"
    using assms Node_dup_wf [OF assms(2)] by (auto simp: GWEN_DB_Group_dup_def split: if_splits)
  then show ?thesis using assms(2) by (simp add: db_wf_erase)
qed

lemma db_keeps_all:
  "db_step ps r r' \<Longrightarrow> list_all path_elems ps \<longrightarrow> db_wf r \<longrightarrow> db_keeps r r'"
  "db_reachable ps t \<Longrightarrow> list_all path_elems ps \<longrightarrow> db_wf t \<and> db_typ t = NodeType_Group"
proof (induction rule: db_step_db_reachable.inducts)
  case (GetValue r n path idx r' v)
  then show ?case using GetValue_tree [of r n path idx r' v] GetNode_keeps by blast
next
  case (FlagsUp r fl msk n)
  then show ?case by (auto intro: erase_keeps simp: db_erase_flags_up)
next
  case (db_call ps r qs r')
  then show ?case by (auto simp: db_keeps_def)
next
  case (db_unlinked ps r n r' g)
  then show ?case using unlinked_wf by blast
next
  case (db_dup ps r n g g')
  then show ?case using dup_wf db_wf_at by blast
qed (auto simp: GWEN_DB_SetCharValue_def GWEN_DB_SetCharValueFromInt_def GWEN_DB_SetIntValue_def GWEN_DB_SetBinValue_def
    GWEN_DB_SetPtrValue_def GWEN_DB_DeleteVar_def GWEN_DB_DeleteGroup_def
    intro: db_set_value_keeps AddCharValue_keeps RemoveCharValue_keeps rename_keeps GetGroup_keeps db_delete_keeps
      ClearGroup_keeps AddGroup_keeps InsertGroup_keeps AddGroupChildren_keeps UnlinkGroup_keeps SetNodeFlags_keeps
      FlagsDown_keeps db_wf_at)



end
