(* ===== verification/Gwen_DBGet.thy ===== *)
theory Gwen_DBGet
  imports Gwen_DBType
begin

text \<open>
  What is stored in a configuration tree under a path is what is found there: walking the path to read reaches the
  node that walking it to write has reached or created.
\<close>

section \<open>Plain paths\<close>

text \<open>A path that names a variable: no index in brackets, and an element after the last slash.\<close>

definition path_plain :: "byte list \<Rightarrow> bool" where
  "path_plain path \<longleftrightarrow> path_elems path \<and> 91 \<notin> set path \<and> \<not> is_slash (last path)"

lemma dropWhile_last: "dropWhile P xs \<noteq> [] \<Longrightarrow> last (dropWhile P xs) = last xs"
  by (induction xs) auto

lemma last_slash: "dropWhile (\<lambda>c. \<not> is_slash c) path \<noteq> [] \<Longrightarrow> \<not> is_slash (last path)
    \<Longrightarrow> dropWhile is_slash (dropWhile (\<lambda>c. \<not> is_slash c) path) \<noteq> []"
  by (metis dropWhile_eq_Nil_conv dropWhile_last last_in_set)

abbreviation path_rest :: "byte list \<Rightarrow> byte list" where
  "path_rest path \<equiv> dropWhile (\<lambda>c. \<not> is_slash c) path"

abbreviation path_next :: "byte list \<Rightarrow> byte list" where
  "path_next path \<equiv> dropWhile is_slash (path_rest path)"

text \<open>One turn of the loop over such a path.\<close>

lemma path_loop_plain:
  assumes "path \<noteq> []" "91 \<notin> set path" "\<not> is_slash (last path)" "\<not> bit orig 8"
  shows "path_loop path_index f orig False path st obj =
    obind (f (takeWhile (\<lambda>c. \<not> is_slash c) path) st obj 0 (path_elem_flags orig False (path_rest path) (path_next path)))
      (\<lambda>(st, r). case r of None \<Rightarrow> Ret (st, None) | Some obj \<Rightarrow> path_loop path_index f orig False (path_next path) st obj)"
proof -
  let ?e = "takeWhile (\<lambda>c. \<not> is_slash c) path" and ?fl = "path_elem_flags orig False (path_rest path) (path_next path)"
  have "91 \<notin> set ?e" using assms(2) set_takeWhileD by fastforce
  then have idx: "path_index ?e = Ret (Some (?e, 0))" by (simp add: path_index_def)
  have esc: "path_convert False ?fl ?e = ?e" using assms(4) by (simp add: path_convert_def has_bit bit_elem_flags)
  have "\<not> (path_rest path \<noteq> [] \<and> path_next path = [] \<and> has orig GWEN_PATH_FLAGS_VARIABLE)"
    using last_slash assms(3) by blast
  then show ?thesis
    using assms(1) by (subst path_loop.simps) (simp only: Let_def idx esc if_False if_cancel obind.simps option.case prod.case)
qed

section \<open>Writing, then reading\<close>

lemma db_find_0_total: "db_wf r \<Longrightarrow> db_at r n = Some g \<Longrightarrow> db_typ g = NodeType_Group \<Longrightarrow> \<exists>x. db_find t r n e 0 = Ret x"
proof -
  assume g: "db_wf r" "db_at r n = Some g" "db_typ g = NodeType_Group"
  obtain cs where "db_children g = Some cs" using db_group_kids [OF g] ..
  with g(2,3) db_nth_0_total [of "\<lambda>c. db_typ c = t \<and> same_name (db_name c) e" cs 0] show "\<exists>x. db_find t r n e 0 = Ret x"
    by (auto simp: db_find_group)
qed

text \<open>An element with flags that neither force nor forbid creation: a node of the name is there afterwards, and it
  is the first one.\<close>

lemma HandlePath_set:
  assumes "db_wf r" "db_at r n = Some g" "db_typ g = NodeType_Group" "\<And>k. k < 7 \<Longrightarrow> \<not> bit fl k"
  obtains r' k x where "GWEN_DB_HandlePath e r n 0 fl = Ret (r', Some (n @ [k]))" "db_wf r'" "changed_at n r r'"
    "db_at r' (n @ [k]) = Some x" "db_typ x = elem_typ fl" "db_find (elem_typ fl) r' n e 0 = Ret (Some (n @ [k]))"
proof -
  have bits: "\<not> bit fl 0" "\<not> bit fl 1" "\<not> bit fl 2" "\<not> bit fl 3" "\<not> bit fl 4" "\<not> bit fl 5" "\<not> bit fl 6"
    by (simp_all add: assms(4))
  have h: "GWEN_DB_HandlePath e r n 0 fl = obind (db_find (elem_typ fl) r n e 0) (\<lambda>nn.
      case nn of None \<Rightarrow> db_create r n e 0 fl | Some m \<Rightarrow> Ret (r, Some m))"
    using bits by (simp add: GWEN_DB_HandlePath_def GWEN_DB_FindVar_def GWEN_DB_FindGroup_def has_bit cong: option.case_cong)
  obtain x where x: "db_find (elem_typ fl) r n e 0 = Ret x" using db_find_0_total [OF assms(1-3)] ..
  show thesis
  proof (cases x)
    case None
    obtain r' k y where "db_create r n e 0 fl = Ret (r', Some (n @ [k]))" "db_wf r'" "changed_at n r r'"
      "db_at r' (n @ [k]) = Some y" "db_typ y = elem_typ fl"
      "db_find (elem_typ fl) r' n e 0 = Ret (Some (n @ [k]))"
      by (rule db_create_ok [OF assms(1-3), of e fl]) (use x None in blast)
    then show thesis using h x None by (intro that) auto
  next
    case (Some m)
    obtain k y where "m = n @ [k]" "db_at r m = Some y" "db_typ y = elem_typ fl"
      by (rule db_find_Some [OF assms(1-3) x [unfolded Some]])
    then show thesis using h x Some assms(1) changed_at_refl [OF assms(2)] by (intro that [of r k y]) auto
  qed
qed

text \<open>The flags of the getters.\<close>

abbreviation get_flags :: u32 where
  "get_flags \<equiv> must_exist OR GWEN_PATH_FLAGS_VARIABLE"

lemma bit_get_flags: "bit get_flags 0" "\<not> bit get_flags (Suc 0)" "\<not> bit get_flags 2" "bit get_flags 3" "\<not> bit get_flags 4"
  "\<not> bit get_flags 5" "\<not> bit get_flags 6" "bit get_flags 7" "\<not> bit get_flags 8" "\<not> bit get_flags 11"
  by (simp_all add: must_exist_def path_flags)

lemma HandlePath_get:
  assumes "db_find (elem_typ fl) r n e 0 = Ret (Some m)" "fl = path_elem_flags get_flags s rest p"
  shows "GWEN_DB_HandlePath e r n 0 fl = Ret (r, Some m)"
  using assms(1)
  by (simp add: GWEN_DB_HandlePath_def GWEN_DB_FindVar_def GWEN_DB_FindGroup_def has_bit assms(2) bit_elem_flags
      bit_get_flags split: if_splits)

lemma path_set_get:
  assumes "\<And>k. k < 7 \<Longrightarrow> \<not> bit orig k" "bit orig 7" "\<not> bit orig 8" "91 \<notin> set path" "path \<noteq> [] \<Longrightarrow> \<not> is_slash (last path)"
    "db_wf r" "db_at r n = Some g" "path \<noteq> [] \<Longrightarrow> db_typ g = NodeType_Group"
  shows "\<exists>r1 p. path_loop path_index GWEN_DB_HandlePath orig False path r n = Ret (r1, Some (n @ p))
     \<and> changed_at n r r1
     \<and> (\<forall>r2. changed_at (n @ p) r1 r2 \<longrightarrow> path_loop path_index GWEN_DB_HandlePath get_flags False path r2 n = Ret (r2, Some (n @ p)))"
  using assms(4-8)
proof (induction path arbitrary: r n g rule: length_induct)
  case (1 path)
  let ?L = "path_loop path_index GWEN_DB_HandlePath"
  show ?case
  proof (cases "path = []")
    case True
    then show ?thesis using changed_at_refl [OF "1.prems"(4)]
      by (intro exI [of _ r] exI [of _ "[]"]) (simp add: path_loop.simps)
  next
    case False
    let ?e = "takeWhile (\<lambda>c. \<not> is_slash c) path" and ?p = "path_next path"
    let ?fl = "\<lambda>orig. path_elem_flags orig False (path_rest path) ?p"
    note turn = path_loop_plain [OF False "1.prems"(1) "1.prems"(2) [OF False], of _ GWEN_DB_HandlePath]
    have low: "k < 7 \<Longrightarrow> \<not> bit (?fl orig) k" for k using assms(1) by (simp add: bit_elem_flags)
    obtain r1 k x where h: "GWEN_DB_HandlePath ?e r n 0 (?fl orig) = Ret (r1, Some (n @ [k]))" "db_wf r1" "changed_at n r r1"
      "db_at r1 (n @ [k]) = Some x" "db_typ x = elem_typ (?fl orig)"
      "db_find (elem_typ (?fl orig)) r1 n ?e 0 = Ret (Some (n @ [k]))"
      by (rule HandlePath_set [OF "1.prems"(3,4) "1.prems"(5) [OF False] low])
    have same: "elem_typ (?fl get_flags) = elem_typ (?fl orig)" using assms(2) bit_get_flags by (simp add: has_bit bit_elem_flags)
    have grp: "?p \<noteq> [] \<Longrightarrow> db_typ x = NodeType_Group" using h(5) by (cases "path_rest path = []") (simp_all add: has_bit bit_elem_flags)
    have nxt: "length ?p < length path" "91 \<notin> set ?p" "?p \<noteq> [] \<Longrightarrow> \<not> is_slash (last ?p)"
    proof -
      show "length ?p < length path" by (rule path_shorter [OF False])
      show "91 \<notin> set ?p" using "1.prems"(1) by (auto dest!: set_dropWhileD)
      assume p: "?p \<noteq> []"
      then have "path_rest path \<noteq> []" by (metis dropWhile.simps(1))
      then show "\<not> is_slash (last ?p)" using dropWhile_last p "1.prems"(2) [OF False] by metis
    qed
    from "1.IH" [rule_format, OF nxt h(2,4) grp] obtain r2 p where ih:
      "?L orig False ?p r1 (n @ [k]) = Ret (r2, Some ((n @ [k]) @ p))" "changed_at (n @ [k]) r1 r2"
      "\<And>r3. changed_at ((n @ [k]) @ p) r2 r3 \<Longrightarrow> ?L get_flags False ?p r3 (n @ [k]) = Ret (r3, Some ((n @ [k]) @ p))" by blast
    have "?L get_flags False path r3 n = Ret (r3, Some (n @ k # p))" if c: "changed_at (n @ k # p) r2 r3" for r3
    proof -
      have "changed_at (n @ [k]) r1 r3" using changed_at_trans [OF ih(2) changed_at_up [of "n @ [k]" p]] c by simp
      from changed_at_find [OF this] h(6) have "db_find (elem_typ (?fl get_flags)) r3 n ?e 0 = Ret (Some (n @ [k]))"
        by (simp only: same)
      from HandlePath_get [OF this refl] turn [OF bit_get_flags(9), of r3 n] ih(3) [of r3] c show ?thesis by simp
    qed
    moreover have "?L orig False path r n = Ret (r2, Some (n @ k # p))" using turn [OF assms(3), of r n] h(1) ih(1) by simp
    moreover have "changed_at n r r2" using changed_at_trans [OF h(3) changed_at_up [OF ih(2)]] .
    ultimately show ?thesis by (intro exI [of _ r2] exI [of _ "k # p"]) simp
  qed
qed

lemma GetNode_plain:
  assumes "path_plain path" "\<not> bit fl 11"
  shows "GWEN_DB_GetNode r n path fl =
    path_loop path_index GWEN_DB_HandlePath fl False (dropWhile is_slash (dropWhile isspace path)) r n"
  using assms(2) by (simp add: GWEN_DB_GetNode_def GWEN_Path_HandleWithIdx_def path_handle_def has_bit)

lemma GetNode_set_get:
  assumes "db_wf r" "db_group r n" "path_plain path" "fl AND 0xffff = 0"
  obtains r1 m x cs where "GWEN_DB_GetNode r n path (fl OR GWEN_PATH_FLAGS_VARIABLE) = Ret (r1, Some m)" "db_wf r1"
    "db_at r1 m = Some x" "db_typ x = NodeType_Var" "db_children x = Some cs"
    "\<forall>r2. changed_at m r1 r2 \<longrightarrow> GWEN_DB_GetNode r2 n path get_flags = Ret (r2, Some m)"
proof -
  let ?fl = "fl OR GWEN_PATH_FLAGS_VARIABLE" and ?p = "dropWhile is_slash (dropWhile isspace path)"
  have low: "\<not> bit fl k" if "k < 16" for k
  proof -
    have "bit (fl AND mask 16) k = bit fl k" using that by (simp add: bit_and_iff bit_mask_iff)
    moreover have "fl AND mask 16 = 0" using assms(4) by (simp add: mask_eq_exp_minus_1)
    ultimately show ?thesis by simp
  qed
  have bits: "\<And>k. k < 7 \<Longrightarrow> \<not> bit ?fl k" "bit ?fl 7" "\<not> bit ?fl 8" "\<not> bit ?fl 11"
  proof -
    have "bit (128 :: u32) k \<longleftrightarrow> k = 7" if "k < 32" for k using bit_exp_iff [of 7 k, where 'a = "32 word"] that by simp
    then show "\<And>k. k < 7 \<Longrightarrow> \<not> bit ?fl k" "bit ?fl 7" "\<not> bit ?fl 8" "\<not> bit ?fl 11"
      using low by (simp_all add: bit_or_iff path_flags)
  qed
  obtain g where g: "db_at r n = Some g" "db_typ g = NodeType_Group" by (rule db_groupE [OF assms(2)])
  have p: "?p \<noteq> []" "91 \<notin> set ?p" "\<not> is_slash (last ?p)"
  proof -
    show ne: "?p \<noteq> []" using assms(3) by (simp add: path_plain_def path_elems_def)
    show "91 \<notin> set ?p" using assms(3) by (auto simp: path_plain_def dest!: set_dropWhileD)
    have "dropWhile isspace path \<noteq> []" using ne by (metis dropWhile.simps(1))
    then show "\<not> is_slash (last ?p)" using dropWhile_last ne assms(3) unfolding path_plain_def by metis
  qed
  from path_set_get [OF bits(1-3) p(2,3) assms(1) g] obtain r1 q where
    q: "GWEN_DB_GetNode r n path ?fl = Ret (r1, Some (n @ q))"
      "\<And>r2. changed_at (n @ q) r1 r2 \<Longrightarrow> GWEN_DB_GetNode r2 n path get_flags = Ret (r2, Some (n @ q))"
    unfolding GetNode_plain [OF assms(3) bits(4)] GetNode_plain [OF assms(3) bit_get_flags(10)] by blast
  have "path_elems path" using assms(3) by (simp add: path_plain_def)
  then obtain x where x: "db_at r1 (n @ q) = Some x" "db_typ x = elem_typ ?fl" by (rule GetNode_var [OF q(1) assms(1,2)])
  have wf: "db_wf r1" using GetNode_keeps [OF q(1) assms(1,2)] by (simp add: db_keeps_def)
  have var: "db_typ x = NodeType_Var" using x(2) by (simp add: path_flags)
  then obtain cs where "db_children x = Some cs" using db_wf_at [OF wf x(1)] by (auto simp: db_wf_inner)
  with q wf x(1) var show thesis by (intro that [of r1 "n @ q" x cs]) blast+
qed

text \<open>The value set is the first one of its variable.\<close>

lemma set_value_get:
  assumes "db_wf r" "db_group r n" "path_plain path" "fl AND 0xffff = 0"
    "has fl GWEN_DB_FLAGS_OVERWRITE_VARS \<or> has fl GWEN_DB_FLAGS_INSERT" "db_is_value nv"
  obtains r' v where "db_set_value r n fl path nv = Ret (0, r')" "db_value r' n path 0 = Ret (Some v)" "db_erase v = db_erase nv"
proof -
  let ?ins = "has fl GWEN_DB_FLAGS_INSERT" and ?ow = "has fl GWEN_DB_FLAGS_OVERWRITE_VARS"
  obtain r1 m x cs where g: "GWEN_DB_GetNode r n path (fl OR GWEN_PATH_FLAGS_VARIABLE) = Ret (r1, Some m)" "db_wf r1"
    "db_at r1 m = Some x" "db_typ x = NodeType_Var" "db_children x = Some cs"
    "\<forall>r2. changed_at m r1 r2 \<longrightarrow> GWEN_DB_GetNode r2 n path get_flags = Ret (r2, Some m)"
    by (rule GetNode_set_get [OF assms(1-4)])
  define r2 where "r2 = (if ?ow then GWEN_DB_ClearNode r1 m else r1)"
  have "\<exists>x2. db_at r2 m = Some x2 \<and> db_children x2 = Some (if ?ow then [] else cs)"
    using g(3,5) by (simp add: r2_def GWEN_DB_ClearNode_def db_at_upd_same)
  then obtain x2 where x2: "db_at r2 m = Some x2" "db_children x2 = Some (if ?ow then [] else cs)" by blast
  have c2: "changed_at m r1 r2"
    using changed_at_refl [OF g(3)] kids_set_changed [OF ClearNode_kids [OF g(3,5)]] by (simp add: r2_def)
  obtain r' k ds where put: "(if ?ins then GWEN_DB_Node_Insert r2 m nv else GWEN_DB_Node_Append r2 m nv) = Ret (r', m @ [k])"
    "kids_set m ds r2 r'" "ds = (if ?ins then nv # (if ?ow then [] else cs) else (if ?ow then [] else cs) @ [nv])"
    by (rule db_put_ok [OF x2])
  obtain x' es where x': "db_at r' m = Some x'" "db_children x' = Some es" "map db_erase es = map db_erase ds"
    by (rule kids_set_at [OF put(2) x2(1)])
  obtain v vs where es: "es = v # vs" "db_erase v = db_erase nv"
    using x'(3) put(3) assms(5) by (cases es) (auto split: if_splits)
  have "db_is_value v" using db_erase_eq_sel(4) [OF es(2)] assms(6) by simp
  then have "db_value r' n path 0 = Ret (Some v)"
    using g(6) [rule_format, OF changed_at_trans [OF c2 kids_set_changed [OF put(2)]]] x'(1,2) es(1)
    by (simp add: db_value_def GWEN_DB_GetValue_def db_node_def db_at_append)
  moreover have add: "db_add fl r2 m nv = Ret (0, r')" unfolding db_add_def put(1) by simp
  moreover have "db_set_value r n fl path nv = Ret (0, r')"
    using g(1) add by (simp add: db_set_value_def r2_def [symmetric])
  ultimately show thesis using es(2) by (intro that)
qed

text \<open>C3. A text, a number, binary data or a pointer stored under a path with \<open>OVERWRITE_VARS\<close> or \<open>INSERT\<close> is what
  the getter of its type finds there, whatever the tree held before; groups and the variable are created on the way. A
  number stored as text is found as text and as number.\<close>

theorem db_set_get:
  assumes "db_wf r" "db_group r n" "path_plain path" "fl AND 0xffff = 0"
    "has fl GWEN_DB_FLAGS_OVERWRITE_VARS \<or> has fl GWEN_DB_FLAGS_INSERT"
  shows "(\<exists>r'. GWEN_DB_SetCharValue r n fl path (Some s) = Ret (0, r') \<and> GWEN_DB_GetCharValue r' n path 0 ds = Ret (Some s))
    \<and> (\<exists>r'. GWEN_DB_SetIntValue r n fl path i = Ret (0, r') \<and> GWEN_DB_GetIntValue r' n path 0 di = Ret i)
    \<and> (\<exists>r'. GWEN_DB_SetBinValue r n fl path b = Ret (0, r') \<and> GWEN_DB_GetBinValue r' n path 0 db = Ret (Some b))
    \<and> (\<exists>r'. GWEN_DB_SetPtrValue r n fl path p = Ret (0, r') \<and> GWEN_DB_GetPtrValue r' n path 0 dp = Ret p)
    \<and> (in_int i \<longrightarrow> (\<exists>r'. GWEN_DB_SetCharValueFromInt r n fl path i = Ret (0, r')
          \<and> GWEN_DB_GetIntValue r' n path 0 di = Ret i \<and> GWEN_DB_GetCharValue r' n path 0 ds = Ret (Some (int_text i))))"
proof -
  have node: "\<exists>r' v. db_set_value r n fl path nv = Ret (0, r') \<and> db_value r' n path 0 = Ret (Some v)
      \<and> db_typ v = db_typ nv \<and> db_data v = db_data nv" if "db_is_value nv" for nv
    using set_value_get [OF assms that] db_erase_eq_sel(1,2) by metis
  note news = GWEN_DB_ValueChar_new_def GWEN_DB_ValueChar_newFromInt_def GWEN_DB_ValueInt_new_def
    GWEN_DB_ValueBin_new_def GWEN_DB_ValuePtr_new_def GWEN_DB_Node_new_def
  note sets = GWEN_DB_SetCharValue_def GWEN_DB_GetCharValue_def GWEN_DB_SetIntValue_def GWEN_DB_GetIntValue_def
    GWEN_DB_SetBinValue_def GWEN_DB_GetBinValue_def GWEN_DB_SetPtrValue_def GWEN_DB_GetPtrValue_def
    GWEN_DB_SetCharValueFromInt_def
  have "\<exists>r'. GWEN_DB_SetCharValue r n fl path (Some s) = Ret (0, r') \<and> GWEN_DB_GetCharValue r' n path 0 ds = Ret (Some s)"
    using node [of "GWEN_DB_ValueChar_new (Some s)"] by (auto simp: sets news db_is_value_def)
  moreover have "\<exists>r'. GWEN_DB_SetIntValue r n fl path i = Ret (0, r') \<and> GWEN_DB_GetIntValue r' n path 0 di = Ret i"
    using node [of "GWEN_DB_ValueInt_new i"] by (auto simp: sets news db_is_value_def)
  moreover have "\<exists>r'. GWEN_DB_SetBinValue r n fl path b = Ret (0, r') \<and> GWEN_DB_GetBinValue r' n path 0 db = Ret (Some b)"
    using node [of "GWEN_DB_ValueBin_new b"] by (auto simp: sets news db_is_value_def)
  moreover have "\<exists>r'. GWEN_DB_SetPtrValue r n fl path p = Ret (0, r') \<and> GWEN_DB_GetPtrValue r' n path 0 dp = Ret p"
    using node [of "GWEN_DB_ValuePtr_new p"] by (auto simp: sets news db_is_value_def)
  moreover have "\<exists>r'. GWEN_DB_SetCharValueFromInt r n fl path i = Ret (0, r') \<and> GWEN_DB_GetIntValue r' n path 0 di = Ret i
      \<and> GWEN_DB_GetCharValue r' n path 0 ds = Ret (Some (int_text i))" if "in_int i"
    using node [of "GWEN_DB_ValueChar_newFromInt i"] sscanf_int_text [OF that] by (auto simp: sets news db_is_value_def)
  ultimately show ?thesis by blast
qed

theorem db_set_get_witness:
  "GWEN_DB_SetCharValue (GWEN_DB_Group_new [99]) [] (GWEN_DB_FLAGS_DEFAULT OR GWEN_DB_FLAGS_OVERWRITE_VARS) [97, 47, 98] (Some [120])
     = Ret (0, DbNode NodeType_Group 1 (DataName [99]) (Some [DbNode NodeType_Group 1 (DataName [97]) (Some
         [DbNode NodeType_Var 1 (DataName [98]) (Some [DbNode NodeType_ValueChar 0 (DataChar [120]) None])])]))
   \<and> (\<exists>r'. GWEN_DB_SetCharValue (GWEN_DB_Group_new [99]) [] (GWEN_DB_FLAGS_DEFAULT OR GWEN_DB_FLAGS_OVERWRITE_VARS) [97, 47, 98] (Some [120])
         = Ret (0, r') \<and> GWEN_DB_GetCharValue r' [] [97, 47, 98] 0 None = Ret (Some [120]))"
proof -
  let ?r = "GWEN_DB_Group_new [99]" and ?fl = "GWEN_DB_FLAGS_DEFAULT OR GWEN_DB_FLAGS_OVERWRITE_VARS"
  have "db_group ?r []" "path_plain [97, 47, 98]" "?fl AND 0xffff = 0" "has ?fl GWEN_DB_FLAGS_OVERWRITE_VARS"
    by (simp_all add: db_group_def path_plain_def path_elems_def is_slash_def isspace_def db_flags)
  with db_set_get [of ?r "[]" "[97, 47, 98]" ?fl "[120]" None]
  have "\<exists>r'. GWEN_DB_SetCharValue ?r [] ?fl [97, 47, 98] (Some [120]) = Ret (0, r')
      \<and> GWEN_DB_GetCharValue r' [] [97, 47, 98] 0 None = Ret (Some [120])" by simp
  moreover have "GWEN_DB_SetCharValue ?r [] ?fl [97, 47, 98] (Some [120])
     = Ret (0, DbNode NodeType_Group 1 (DataName [99]) (Some [DbNode NodeType_Group 1 (DataName [97]) (Some
         [DbNode NodeType_Var 1 (DataName [98]) (Some [DbNode NodeType_ValueChar 0 (DataChar [120]) None])])]))" by code_simp
  ultimately show ?thesis by (intro conjI)
qed

section \<open>Where the code does not do what it says\<close>

lemma db_is_value_never: "db_is_value n \<Longrightarrow> \<not> GWEN_DB_IsValue n"
  by (auto simp: db_is_value_def GWEN_DB_IsValue_def)

text \<open>The first value is looked up below the group the path starts at, where there is none: the check for a value that
  exists never finds one, and nothing is ever removed.\<close>

lemma db_first_is_group:
  assumes "GWEN_DB_GetNode r n path fl = Ret (r1, res)" "db_wf r" "db_group r n"
  shows "db_first_is r1 n val sc = Ret None"
proof -
  obtain g where g: "db_at r n = Some g" "db_typ g = NodeType_Group" by (rule db_groupE [OF assms(3)])
  obtain g' where "db_at r1 n = Some g'" "db_typ g' = NodeType_Group"
    by (rule changed_at_group [OF _ g]) (use GetNode_typed [OF assms(1,2) g] in blast)
  then show ?thesis by (simp add: db_first_is_def GWEN_DB_GetFirstValue_def db_first_def db_node_def)
qed

lemma AddCharValue_unchecked:
  assumes "db_wf r" "db_group r n"
  shows "GWEN_DB_AddCharValue r n path val sc True = GWEN_DB_AddCharValue r n path val sc False"
proof (cases "GWEN_DB_GetNode r n path (GWEN_DB_FLAGS_DEFAULT OR GWEN_PATH_FLAGS_VARIABLE)")
  case (Ret x)
  then show ?thesis
    using db_first_is_group [OF _ assms] by (cases x) (auto simp: GWEN_DB_AddCharValue_def split: option.splits)
qed (simp_all add: GWEN_DB_AddCharValue_def)

lemma RemoveCharValue_nothing:
  assumes "db_wf r" "db_group r n" "GWEN_DB_RemoveCharValue r n path val sc = Ret (rv, r')"
  shows "rv \<in> {1, -1}"
proof -
  obtain r1 res where g: "GWEN_DB_GetNode r n path (GWEN_DB_FLAGS_DEFAULT OR GWEN_PATH_FLAGS_VARIABLE) = Ret (r1, res)"
    using assms(3) by (auto simp: GWEN_DB_RemoveCharValue_def obind_Ret_iff)
  then show ?thesis
    using assms(3) db_first_is_group [OF g assms(1,2)] by (auto simp: GWEN_DB_RemoveCharValue_def split: option.splits)
qed

text \<open>Without an element in the path the value is put into the group itself, which is not well-formed then; with the
  flags of the getters the group itself is found, and deleting a variable deletes the group.\<close>

lemma db_empty_path:
  "GWEN_DB_SetIntValue (GWEN_DB_Group_new [99]) [] 0 [] 5
     = Ret (0, DbNode NodeType_Group 1 (DataName [99]) (Some [DbNode NodeType_ValueInt 0 (DataInt 5) None]))"
  "\<not> db_wf (DbNode NodeType_Group 1 (DataName [99]) (Some [DbNode NodeType_ValueInt 0 (DataInt 5) None]))"
  "GWEN_DB_DeleteVar (DbNode NodeType_Group 0 (DataName [99]) (Some [GWEN_DB_Group_new [97]])) [0] []
     = Ret (0, DbNode NodeType_Group 1 (DataName [99]) (Some []))"
  by code_simp+

end
