(* ===== verification/Gwen_RingTraffic.thy ===== *)
theory Gwen_RingTraffic
  imports Gwen_RingBuffer "HOL-Library.Sublist"
begin

text \<open>
  Any interleaving of single reads and writes on a ring buffer: whatever the order, the bytes delivered are the bytes
  accepted, in order, and a reader that keeps reading gets each of them. The lemmas are proved once for every bounded
  queue (locale \<open>bounded_fifo\<close>) and reach the ring buffer through its interpretation \<open>ring\<close>.
\<close>

datatype fifo_op = FifoPut byte | FifoGet

text \<open>The bytes accepted, the values delivered and the queue afterwards.\<close>

fun fifo_run :: "('q \<Rightarrow> byte \<Rightarrow> (int \<times> 'q) outcome) \<Rightarrow> ('q \<Rightarrow> (int \<times> 'q) outcome) \<Rightarrow> fifo_op list \<Rightarrow> 'q
    \<Rightarrow> (byte list \<times> int list \<times> 'q) outcome" where
  "fifo_run put get [] q = Ret ([], [], q)"
| "fifo_run put get (FifoPut c # ops) q =
     obind (put q c) (\<lambda>(rv, q).
     obind (fifo_run put get ops q) (\<lambda>(acc, del, q). Ret (if rv = 0 then c # acc else acc, del, q)))"
| "fifo_run put get (FifoGet # ops) q =
     obind (get q) (\<lambda>(rv, q).
     obind (fifo_run put get ops q) (\<lambda>(acc, del, q). Ret (acc, if rv \<ge> 0 then rv # del else del, q)))"

lemma fifo_run_append:
  "fifo_run put get (ops @ ops') q =
     obind (fifo_run put get ops q) (\<lambda>(acc, del, q).
     obind (fifo_run put get ops' q) (\<lambda>(acc', del', q). Ret (acc @ acc', del @ del', q)))"
proof (induction put get ops q rule: fifo_run.induct)
  case (1 put get q)
  show ?case by (cases "fifo_run put get ops' q") auto
next
  case (2 put get c ops q)
  have "put q c = Ret x \<Longrightarrow> ?case" for x
    using 2 [of x "fst x" "snd x"] by (cases "fifo_run put get ops (snd x)") (auto simp: split_beta obind_assoc)
  then show ?case by (cases "put q c") auto
next
  case (3 put get ops q)
  have "get q = Ret x \<Longrightarrow> ?case" for x
    using 3 [of x "fst x" "snd x"] by (cases "fifo_run put get ops (snd x)") (auto simp: split_beta obind_assoc)
  then show ?case by (cases "get q") auto
qed

context bounded_fifo
begin

text \<open>Nothing is lost, doubled or reordered, and every read of a queue that is not empty delivers.\<close>

lemma run_law:
  assumes "inv q" "length (content q) \<le> capacity q"
  shows "\<exists>acc del q'. fifo_run put get ops q = Ret (acc, del, q') \<and> inv q' \<and> length (content q') \<le> capacity q'
    \<and> map uint (content q @ acc) = del @ map uint (content q')
    \<and> min (count_list ops FifoGet) (length (content q)) \<le> length del"
  using assms
proof (induction ops arbitrary: q)
  case (Cons x ops)
  show ?case
  proof (cases x)
    case (FifoPut c)
    obtain rv q1 where q1: "put q c = Ret (rv, q1)" "inv q1" "content q1 = content q @ (if rv = 0 then [c] else [])"
      "length (content q1) \<le> capacity q1"
      using put_room [OF Cons.prems(1), of c] put_full [OF Cons.prems(1), of c] Cons.prems(2)
      by (cases "length (content q) < capacity q") auto
    from Cons.IH [OF q1(2,4)] obtain acc del q2 where
      "fifo_run put get ops q1 = Ret (acc, del, q2)" "inv q2" "length (content q2) \<le> capacity q2"
      "map uint (content q1 @ acc) = del @ map uint (content q2)"
      "min (count_list ops FifoGet) (length (content q1)) \<le> length del" by blast
    with q1 FifoPut show ?thesis by (cases "rv = 0") auto
  next
    case FifoGet
    show ?thesis
    proof (cases "content q")
      case Nil
      obtain q1 where q1: "get q = Ret (-1, q1)" "inv q1" "content q1 = []" "capacity q1 = capacity q"
        using get_none [OF Cons.prems(1) Nil] by blast
      have "length (content q1) \<le> capacity q1" by (simp add: q1)
      from Cons.IH [OF q1(2) this] q1 FifoGet Nil show ?thesis by auto
    next
      case (Cons c cs)
      obtain q1 where q1: "get q = Ret (uint c, q1)" "inv q1" "content q1 = cs" "capacity q1 = capacity q"
        using get_some [OF Cons.prems(1) Cons] by blast
      have "length (content q1) \<le> capacity q1" using q1 Cons Cons.prems(2) by simp
      from Cons.IH [OF q1(2) this] q1 FifoGet Cons show ?thesis by auto
    qed
  qed
qed simp

lemma enough_gets:
  assumes "\<forall>n. \<exists>m \<ge> n. sched m = FifoGet"
  shows "\<exists>m \<ge> n. k \<le> count_list (map sched [n..<m]) FifoGet"
proof (induction k)
  case (Suc k)
  then obtain m where m: "n \<le> m" "k \<le> count_list (map sched [n..<m]) FifoGet" by blast
  obtain i where i: "m \<le> i" "sched i = FifoGet" using assms by blast
  have "[n..<Suc i] = [n..<m] @ [m..<i] @ [i]" using m i upt_add_eq_append [of n m "i - m"] by simp
  then have "Suc k \<le> count_list (map sched [n..<Suc i]) FifoGet" using m i by simp
  then show ?case using m i by (metis le_SucI le_trans)
qed auto

lemma delivery:
  assumes "inv q" "content q = []" "\<forall>n. \<exists>m \<ge> n. sched m = FifoGet"
  shows "\<exists>m \<ge> n. \<exists>acc del q1 acc' del' q2. fifo_run put get (map sched [0..<n]) q = Ret (acc, del, q1)
    \<and> fifo_run put get (map sched [0..<m]) q = Ret (acc', del', q2)
    \<and> prefix (map uint acc) del' \<and> prefix del' (map uint acc')"
proof -
  have l: "length (content q) \<le> capacity q" by (simp add: assms)
  from run_law [OF assms(1) l, of "map sched [0..<n]"] obtain acc del q1 where
    r1: "fifo_run put get (map sched [0..<n]) q = Ret (acc, del, q1)" "inv q1" "length (content q1) \<le> capacity q1"
    "map uint acc = del @ map uint (content q1)" using assms(2) by auto
  obtain m where m: "n \<le> m" "length (content q1) \<le> count_list (map sched [n..<m]) FifoGet" using enough_gets [OF assms(3)] by blast
  from run_law [OF r1(2,3), of "map sched [n..<m]"] m(2) obtain acc2 del2 q2 where
    r2: "fifo_run put get (map sched [n..<m]) q1 = Ret (acc2, del2, q2)" "length (content q1) \<le> length del2"
    "map uint (content q1) @ map uint acc2 = del2 @ map uint (content q2)" by auto
  have s: "map sched [0..<m] = map sched [0..<n] @ map sched [n..<m]" using m(1) upt_add_eq_append [of 0 n "m - n"] by simp
  have "fifo_run put get (map sched [0..<m]) q = Ret (acc @ acc2, del @ del2, q2)"
    unfolding s fifo_run_append using r1(1) r2(1) by simp
  moreover have "prefix (map uint (content q1)) del2" using r2(2,3) by (metis length_map prefixI prefix_length_prefix)
  then have "prefix (map uint acc) (del @ del2)" by (simp add: r1(4))
  moreover have "prefix (del @ del2) (map uint (acc @ acc2))" by (simp add: r1(4) r2(3))
  ultimately show ?thesis using r1(1) m(1) by blast
qed

end

text \<open>C4. Delivery: on whatever schedule bytes are read from and written to a ring buffer, as long as the reader keeps
  coming back, everything accepted up to a point has been delivered some time later, in order, and nothing else is
  ever delivered.\<close>

theorem ring_delivery:
  assumes "sz \<noteq> 0" "length block = unat sz" "\<forall>n. \<exists>m \<ge> n. sched m = FifoGet"
  shows "\<exists>rb. GWEN_RingBuffer_new block sz = Ret rb \<and>
    (\<exists>m \<ge> n. \<exists>acc del rb1 acc' del' rb2.
        fifo_run GWEN_RingBuffer_WriteByte GWEN_RingBuffer_ReadByte (map sched [0..<n]) rb = Ret (acc, del, rb1)
      \<and> fifo_run GWEN_RingBuffer_WriteByte GWEN_RingBuffer_ReadByte (map sched [0..<m]) rb = Ret (acc', del', rb2)
      \<and> prefix (map uint acc) del' \<and> prefix del' (map uint acc'))"
proof -
  obtain rb where rb: "GWEN_RingBuffer_new block sz = Ret rb" "rb_wf rb" "rb_contents rb = []"
    using new_ring [OF assms(1,2)] by blast
  with ring.delivery [OF rb(2,3) assms(3), of n] show ?thesis by blast
qed

theorem ring_delivery_witness:
  "\<exists>rb. GWEN_RingBuffer_new [0, 0] 2 = Ret rb \<and> (\<exists>m \<ge> 3. \<exists>acc' del' rb2.
      fifo_run GWEN_RingBuffer_WriteByte GWEN_RingBuffer_ReadByte
        (map (\<lambda>i. if 5 \<le> i then FifoGet else FifoPut (of_nat i)) [0..<m]) rb = Ret (acc', del', rb2)
      \<and> prefix [0, 1] del')"
proof -
  let ?s = "\<lambda>i :: nat. if 5 \<le> i then FifoGet else FifoPut (of_nat i)"
  have f: "\<forall>n. \<exists>m \<ge> n. ?s m = FifoGet" by (metis nat_le_linear)
  from ring_delivery [of 2 "[0, 0]" ?s 3, OF _ _ f] obtain rb m acc del rb1 acc' del' rb2 where
    r: "GWEN_RingBuffer_new [0, 0] 2 = Ret rb" "3 \<le> m"
    "fifo_run GWEN_RingBuffer_WriteByte GWEN_RingBuffer_ReadByte (map ?s [0..<3]) rb = Ret (acc, del, rb1)"
    "fifo_run GWEN_RingBuffer_WriteByte GWEN_RingBuffer_ReadByte (map ?s [0..<m]) rb = Ret (acc', del', rb2)"
    "prefix (map uint acc) del'"
    by auto
  have "obind (GWEN_RingBuffer_new [0, 0] 2) (\<lambda>rb. obind (fifo_run GWEN_RingBuffer_WriteByte GWEN_RingBuffer_ReadByte
      [FifoPut 0, FifoPut 1, FifoPut 2] rb) (\<lambda>(acc, _). Ret acc)) = Ret [0, 1]" by code_simp
  then have "acc = [0, 1]" using r(1,3) by (simp add: upt_rec)
  with r show ?thesis by auto
qed

end
