(* ===== verification/Gwen_Bag.thy ===== *)
theory Gwen_Bag
  imports Gwen_Prelude "HOL-Library.Multiset"
begin

text \<open>
  The interface of the containers that count their elements, the string lists and the id lists: adding, removing one, and
  asking for an element, as operations of a bag.
\<close>

datatype 's bag_op = BagAdd 's | BagRemove 's

fun bag_elem :: "'s bag_op \<Rightarrow> 's" where
  "bag_elem (BagAdd s) = s"
| "bag_elem (BagRemove s) = s"

fun bag_effect :: "('s \<Rightarrow> 'k) \<Rightarrow> 's bag_op \<Rightarrow> 'k multiset \<Rightarrow> 'k multiset" where
  "bag_effect key (BagAdd s) m = add_mset (key s) m"
| "bag_effect key (BagRemove s) m = m - {#key s#}"

fun bag_call :: "('a \<Rightarrow> 's \<Rightarrow> (int \<times> 'a) outcome) \<Rightarrow> ('a \<Rightarrow> 's \<Rightarrow> (int \<times> 'a) outcome) \<Rightarrow> 's bag_op \<Rightarrow> 'a \<Rightarrow> (int \<times> 'a) outcome" where
  "bag_call add remove (BagAdd s) l = add l s"
| "bag_call add remove (BagRemove s) l = remove l s"

fun bag_calls :: "('a \<Rightarrow> 's \<Rightarrow> (int \<times> 'a) outcome) \<Rightarrow> ('a \<Rightarrow> 's \<Rightarrow> (int \<times> 'a) outcome) \<Rightarrow> 's bag_op list \<Rightarrow> 'a \<Rightarrow> 'a outcome" where
  "bag_calls add remove [] l = Ret l"
| "bag_calls add remove (c # cs) l = obind (bag_call add remove c l) (\<lambda>(_, l). bag_calls add remove cs l)"

text \<open>\<open>ok n l\<close>: the container is in order and can take \<open>n\<close> more calls.\<close>

locale counted_bag =
  fixes ok :: "nat \<Rightarrow> 'a \<Rightarrow> bool" and bag :: "'a \<Rightarrow> 'k multiset" and key :: "'s \<Rightarrow> 'k" and valid :: "'s \<Rightarrow> bool"
    and add :: "'a \<Rightarrow> 's \<Rightarrow> (int \<times> 'a) outcome" and remove :: "'a \<Rightarrow> 's \<Rightarrow> (int \<times> 'a) outcome" and has_elem :: "'a \<Rightarrow> 's \<Rightarrow> bool outcome"
  assumes add_law: "ok (Suc n) l \<Longrightarrow> valid s \<Longrightarrow> \<exists>rv l'. add l s = Ret (rv, l') \<and> ok n l' \<and> bag l' = add_mset (key s) (bag l)"
    and remove_law: "ok (Suc n) l \<Longrightarrow> valid s \<Longrightarrow>
      \<exists>l'. remove l s = Ret (if key s \<in># bag l then 1 else 0, l') \<and> ok n l' \<and> bag l' = bag l - {#key s#}"
    and has_law: "ok n l \<Longrightarrow> valid s \<Longrightarrow> has_elem l s = Ret (key s \<in># bag l)"
begin

lemma calls_law:
  assumes "ok (n + length cs) l" "\<forall>c \<in> set cs. valid (bag_elem c)"
  shows "\<exists>l'. bag_calls add remove cs l = Ret l' \<and> ok n l' \<and> bag l' = fold (bag_effect key) cs (bag l)
     \<and> (\<forall>s. valid s \<longrightarrow> has_elem l' s = Ret (key s \<in># fold (bag_effect key) cs (bag l)))"
  using assms
proof (induction cs arbitrary: l)
  case Nil
  then show ?case using has_law by simp
next
  case (Cons c cs)
  have k: "ok (Suc (n + length cs)) l" using Cons.prems(1) by simp
  have "\<exists>rv l1. bag_call add remove c l = Ret (rv, l1) \<and> ok (n + length cs) l1 \<and> bag l1 = bag_effect key c (bag l)"
    using add_law [OF k] remove_law [OF k] Cons.prems(2) by (cases c) (simp_all, blast+)
  then obtain rv l1 where l1: "bag_call add remove c l = Ret (rv, l1)" "ok (n + length cs) l1" "bag l1 = bag_effect key c (bag l)" by blast
  from Cons.IH [OF l1(2)] Cons.prems(2) l1 show ?case by auto
qed

end

end
