(* ===== verification/Gwen_StringListProps.thy ===== *)
theory Gwen_StringListProps
  imports Gwen_StringList Gwen_Bag
begin

text \<open>
  What the lists of strings promise: with reference counts a list is a bag of strings, sorting gives a sorted
  permutation, and a list written as text is read back.
\<close>

section \<open>Reference counted lists are bags\<close>

definition sl_key :: "bool \<Rightarrow> byte list \<Rightarrow> byte list" where
  "sl_key sense s = (if sense then s else map tolower s)"

definition sle_key :: "bool \<Rightarrow> gwen_stringlistentry \<Rightarrow> byte list" where
  "sle_key sense se = sl_key sense (the (sle_data se))"

definition sl_bag :: "bool \<Rightarrow> gwen_stringlist \<Rightarrow> byte list multiset" where
  "sl_bag sense sl = (\<Sum>se \<leftarrow> sl_entries sl. replicate_mset (unat (sle_refCount se)) (sle_key sense se))"

definition sl_counted :: "bool \<Rightarrow> gwen_stringlist \<Rightarrow> bool" where
  "sl_counted sense sl \<longleftrightarrow> sl_senseCase sl = sense \<and> \<not> sl_ignoreRefCount sl \<and> unat (sl_count sl) = length (sl_entries sl)
     \<and> (\<forall>se \<in> set (sl_entries sl). sle_data se \<noteq> None \<and> sle_refCount se \<noteq> 0) \<and> distinct (map (sle_key sense) (sl_entries sl))"

lemma sl_search_total: "\<forall>se \<in> set es. sle_data se \<noteq> None \<Longrightarrow> \<exists>x. sl_search P es k = Ret x"
  by (induction es arbitrary: k) auto

lemma sl_search_None: "sl_search P es k = Ret None \<Longrightarrow> se \<in> set es \<Longrightarrow> \<not> P (the (sle_data se))"
  by (induction es arbitrary: k) (auto split: option.splits if_splits)

lemma sl_search_Some: "sl_search P es k = Ret (Some j) \<Longrightarrow> k \<le> j \<and> j - k < length es \<and> P (the (sle_data (es ! (j - k))))"
proof (induction es arbitrary: k)
  case (Cons se es)
  show ?case
  proof (cases "\<exists>d. sle_data se = Some d \<and> P d")
    case False
    with Cons.prems have "sl_search P es (Suc k) = Ret (Some j)" by (auto split: option.splits if_splits)
    from Cons.IH [OF this] have j: "Suc k \<le> j" "j - Suc k < length es" "P (the (sle_data (es ! (j - Suc k))))" by auto
    then have "j - k = Suc (j - Suc k)" by simp
    with j show ?thesis by simp
  qed (use Cons.prems in auto)
qed simp

text \<open>Where a string is found, and what the list looks like around it.\<close>

lemma sl_find_cases:
  assumes "sl_counted sense sl"
  obtains (none) "sl_find sl s = Ret None" "sl_key sense s \<notin># sl_bag sense sl" "sl_key sense s \<notin> sle_key sense ` set (sl_entries sl)"
  | (found) i xs se ys where "sl_find sl s = Ret (Some i)" "sl_key sense s \<in># sl_bag sense sl" "sl_entries sl = xs @ se # ys" "i = length xs"
      "sle_key sense se = sl_key sense s"
proof -
  have same: "sl_same sl d s \<longleftrightarrow> sl_key sense d = sl_key sense s" for d
    using assms by (auto simp: sl_same_def sl_key_def sl_counted_def)
  have mem: "k \<in># sl_bag sense sl \<longleftrightarrow> (\<exists>se \<in> set (sl_entries sl). sle_key sense se = k)" for k
    using assms by (auto simp: sl_bag_def sl_counted_def in_replicate_mset unat_gt_0)
  obtain x where x: "sl_find sl s = Ret x"
    using sl_search_total [of "sl_entries sl"] assms unfolding sl_find_def sl_counted_def by meson
  show thesis
  proof (cases x)
    case None
    with x have "sle_key sense se \<noteq> sl_key sense s" if "se \<in> set (sl_entries sl)" for se
      using sl_search_None [OF _ that] by (auto simp: sl_find_def same sle_key_def)
    then have "sl_key sense s \<notin> sle_key sense ` set (sl_entries sl)" by force
    moreover from this have "sl_key sense s \<notin># sl_bag sense sl" unfolding mem by force
    ultimately show thesis using x None by (intro none) simp_all
  next
    case (Some i)
    with x sl_search_Some have i: "i < length (sl_entries sl)" "sle_key sense (sl_entries sl ! i) = sl_key sense s"
      by (auto simp: sl_find_def same sle_key_def dest!: sl_search_Some)
    with x Some mem nth_mem [OF i(1)] show thesis
      by (intro found [of i "take i (sl_entries sl)" "sl_entries sl ! i" "drop (Suc i) (sl_entries sl)"])
        (auto simp: id_take_nth_drop [symmetric])
  qed
qed

lemma sl_bag_parts [simp]:
  "sl_bag sense (sl\<lparr>sl_entries := es, sl_count := n\<rparr>) = sl_bag sense (sl\<lparr>sl_entries := es\<rparr>)"
  "sl_bag sense (sl\<lparr>sl_entries := []\<rparr>) = {#}"
  "sl_bag sense (sl\<lparr>sl_entries := se # es\<rparr>) = replicate_mset (unat (sle_refCount se)) (sle_key sense se) + sl_bag sense (sl\<lparr>sl_entries := es\<rparr>)"
  "sl_bag sense (sl\<lparr>sl_entries := xs @ ys\<rparr>) = sl_bag sense (sl\<lparr>sl_entries := xs\<rparr>) + sl_bag sense (sl\<lparr>sl_entries := ys\<rparr>)"
  by (simp_all add: sl_bag_def)

lemma sl_bag_self: "sl_entries sl = es \<Longrightarrow> sl_bag sense sl = sl_bag sense (sl\<lparr>sl_entries := es\<rparr>)"
  by (simp add: sl_bag_def)

lemma sl_ref_split: "sl_entries sl = xs @ se # ys \<Longrightarrow>
    sl_ref f sl (length xs) = sl\<lparr>sl_entries := xs @ se\<lparr>sle_refCount := f (sle_refCount se)\<rparr> # ys\<rparr>"
  by (simp add: sl_ref_def)

lemma sl_size:
  assumes "sl_counted sense sl"
  shows "length (sl_entries sl) \<le> size (sl_bag sense sl)" "se \<in> set (sl_entries sl) \<Longrightarrow> unat (sle_refCount se) \<le> size (sl_bag sense sl)"
proof -
  have "size (\<Sum>se \<leftarrow> es. replicate_mset (unat (sle_refCount se)) (sle_key sense se)) = (\<Sum>se \<leftarrow> es. unat (sle_refCount se))"
    for es :: "gwen_stringlistentry list" by (induction es) simp_all
  then have s: "size (sl_bag sense sl) = (\<Sum>se \<leftarrow> sl_entries sl. unat (sle_refCount se))" by (simp add: sl_bag_def)
  have "length es \<le> (\<Sum>se \<leftarrow> es. unat (sle_refCount se))" if "\<forall>se \<in> set es. sle_refCount se \<noteq> 0" for es :: "gwen_stringlistentry list"
    using that by (induction es) (auto simp: unat_gt_0 Suc_le_eq intro!: add_le_mono [of 1, simplified])
  then show "length (sl_entries sl) \<le> size (sl_bag sense sl)" using assms s by (auto simp: sl_counted_def)
  show "se \<in> set (sl_entries sl) \<Longrightarrow> unat (sle_refCount se) \<le> size (sl_bag sense sl)"
    unfolding s by (rule member_le_sum_list) auto
qed

lemma sl_add_law:
  assumes "sl_counted sense sl" "size (sl_bag sense sl) < 4294967295"
  shows "\<exists>sl'. GWEN_StringList_AppendString sl s True = Ret (if sl_key sense s \<in># sl_bag sense sl then 0 else 1, sl')
    \<and> sl_counted sense sl' \<and> sl_bag sense sl' = add_mset (sl_key sense s) (sl_bag sense sl)"
proof (cases rule: sl_find_cases [OF assms(1), of s, case_names none found])
  case none
  let ?e = "GWEN_StringListEntry_new (Some s)"
  have e: "sle_key sense ?e = sl_key sense s" by (simp add: sle_key_def GWEN_StringListEntry_new_def)
  have c: "unat (sl_count sl + 1) = Suc (length (sl_entries sl))"
    using assms sl_size(1) [OF assms(1)] by (subst unat_Suc_u32) (auto simp: sl_counted_def)
  have "sl_counted sense (GWEN_StringList_AppendEntry sl ?e)"
    using assms(1) none(3) e c by (auto simp: sl_counted_def GWEN_StringList_AppendEntry_def GWEN_StringListEntry_new_def)
  moreover have "sl_bag sense (GWEN_StringList_AppendEntry sl ?e) = add_mset (sl_key sense s) (sl_bag sense sl)"
    using e by (simp add: GWEN_StringList_AppendEntry_def GWEN_StringListEntry_new_def sl_bag_def)
  ultimately show ?thesis using none by (simp add: GWEN_StringList_AppendString_def)
next
  case (found i xs se ys)
  let ?sl = "sl\<lparr>sl_entries := xs @ se\<lparr>sle_refCount := sle_refCount se + 1\<rparr> # ys\<rparr>"
  have u: "unat (sle_refCount se + 1) = Suc (unat (sle_refCount se))"
    using sl_size(2) [OF assms(1), of se] found(3) assms(2) by (subst unat_Suc_u32) auto
  have nz: "sle_refCount se + 1 \<noteq> 0" using u by auto
  have "sl_counted sense ?sl" using assms(1) found(3) nz by (auto simp: sl_counted_def sle_key_def)
  moreover have "sl_bag sense ?sl = add_mset (sl_key sense s) (sl_bag sense sl)"
    using found(3,5) u sl_bag_self [OF found(3), of sense] by (simp add: sle_key_def)
  ultimately show ?thesis
    using found(1,2,4) sl_ref_split [OF found(3)] by (simp add: GWEN_StringList_AppendString_def)
qed

lemma sl_remove_law:
  assumes "sl_counted sense sl"
  shows "\<exists>sl'. GWEN_StringList_RemoveString sl s = Ret (if sl_key sense s \<in># sl_bag sense sl then 1 else 0, sl')
    \<and> sl_counted sense sl' \<and> sl_bag sense sl' = sl_bag sense sl - {#sl_key sense s#}"
proof (cases rule: sl_find_cases [OF assms, of s, case_names none found])
  case none
  then show ?thesis using assms by (simp add: GWEN_StringList_RemoveString_def)
next
  case (found i xs se ys)
  let ?n = "sle_refCount se"
  let ?sl = "sl\<lparr>sl_entries := xs @ se\<lparr>sle_refCount := ?n - 1\<rparr> # ys\<rparr>"
  have nz: "?n \<noteq> 0" "\<not> sl_ignoreRefCount sl" using assms found(3) by (auto simp: sl_counted_def)
  have u: "unat (?n - 1) = unat ?n - 1" "0 < unat ?n" using nz by (simp_all add: unat_minus_one unat_gt_0)
  have bag: "sl_bag sense sl - {#sl_key sense s#} = sl_bag sense ?sl"
    using found(3,5) u sl_bag_self [OF found(3), of sense] by (cases "unat ?n") (simp_all add: sle_key_def)
  have i: "sl_entries ?sl ! i = se\<lparr>sle_refCount := ?n - 1\<rparr>" using found(4) by simp
  have unref: "sl_unref sl i = (if ?n - 1 = 0 then GWEN_StringList_RemoveEntry ?sl i else Ret ?sl)"
    using found(3,4) nz sl_ref_split [OF found(3)] by (simp add: sl_unref_def oassert_def Let_def)
  show ?thesis
  proof (cases "?n - 1 = 0")
    case True
    let ?sl' = "sl\<lparr>sl_entries := xs @ ys, sl_count := sl_count sl - 1\<rparr>"
    have c: "unat (sl_count sl) = Suc (length (xs @ ys))" using assms found(3) by (simp add: sl_counted_def)
    then have "sl_count sl \<noteq> 0" by auto
    then have r: "GWEN_StringList_RemoveEntry ?sl i = Ret ?sl'" using found(4) by (simp add: GWEN_StringList_RemoveEntry_def)
    have "unat (sl_count sl - 1) = length (xs @ ys)" using c \<open>sl_count sl \<noteq> 0\<close> by (simp add: unat_minus_one)
    then have "sl_counted sense ?sl'" using assms found(3) by (auto simp: sl_counted_def)
    moreover have "sl_bag sense ?sl' = sl_bag sense ?sl" using True by simp
    ultimately show ?thesis using found(1,2) unref r True bag by (simp add: GWEN_StringList_RemoveString_def)
  next
    case False
    have "sl_counted sense ?sl" using assms found(3) False by (auto simp: sl_counted_def sle_key_def)
    then show ?thesis using found(1,2) unref False bag by (simp add: GWEN_StringList_RemoveString_def)
  qed
qed

interpretation sl: counted_bag "\<lambda>n sl. sl_counted sense sl \<and> size (sl_bag sense sl) + n \<le> 4294967295" "sl_bag sense" "sl_key sense" "\<lambda>_. True"
  "\<lambda>sl s. GWEN_StringList_AppendString sl s True" GWEN_StringList_RemoveString GWEN_StringList_HasString for sense
proof
  fix n l s
  show "\<exists>rv l'. GWEN_StringList_AppendString l s True = Ret (rv, l') \<and> (sl_counted sense l' \<and> size (sl_bag sense l') + n \<le> 4294967295)
      \<and> sl_bag sense l' = add_mset (sl_key sense s) (sl_bag sense l)"
    if "sl_counted sense l \<and> size (sl_bag sense l) + Suc n \<le> 4294967295"
    using sl_add_law [of sense l s] that by fastforce
  show "\<exists>l'. GWEN_StringList_RemoveString l s = Ret (if sl_key sense s \<in># sl_bag sense l then 1 else 0, l')
      \<and> (sl_counted sense l' \<and> size (sl_bag sense l') + n \<le> 4294967295) \<and> sl_bag sense l' = sl_bag sense l - {#sl_key sense s#}"
    if "sl_counted sense l \<and> size (sl_bag sense l) + Suc n \<le> 4294967295"
    using sl_remove_law [of sense l s] that size_mset_mono [OF diff_subset_eq_self [of "sl_bag sense l" "{#sl_key sense s#}"]] by fastforce
  show "GWEN_StringList_HasString l s = Ret (sl_key sense s \<in># sl_bag sense l)"
    if "sl_counted sense l \<and> size (sl_bag sense l) + n \<le> 4294967295"
    by (cases rule: sl_find_cases [of sense l s]) (use that in \<open>simp_all add: GWEN_StringList_HasString_def\<close>)
qed

text \<open>C7. A list that honours reference counts is a bag of strings, with or without regard to case: after any sequence
  of calls that add and remove strings, a string is in the list exactly if it was added more often than removed, where
  removing it from a list without it does nothing.\<close>

theorem stringlist_bag:
  assumes "length ops < 4294967295"
  shows "\<exists>sl. bag_calls (\<lambda>sl s. GWEN_StringList_AppendString sl s True) GWEN_StringList_RemoveString ops
      (GWEN_StringList_SetSenseCase (GWEN_StringList_SetIgnoreRefCount GWEN_StringList_new False) sense) = Ret sl
    \<and> (\<forall>s. GWEN_StringList_HasString sl s = Ret (sl_key sense s \<in># fold (bag_effect (sl_key sense)) ops {#}))
    \<and> unat (GWEN_StringList_Count sl) = card (set_mset (fold (bag_effect (sl_key sense)) ops {#}))"
proof -
  let ?l = "GWEN_StringList_SetSenseCase (GWEN_StringList_SetIgnoreRefCount GWEN_StringList_new False) sense"
  have l: "sl_counted sense ?l" "sl_bag sense ?l = {#}"
    by (simp_all add: sl_counted_def sl_bag_def GWEN_StringList_SetSenseCase_def GWEN_StringList_SetIgnoreRefCount_def GWEN_StringList_new_def)
  have "sl_counted sense ?l \<and> size (sl_bag sense ?l) + (0 + length ops) \<le> 4294967295" using assms l by simp
  from sl.calls_law [OF this] obtain sl where sl:
    "bag_calls (\<lambda>sl s. GWEN_StringList_AppendString sl s True) GWEN_StringList_RemoveString ops ?l = Ret sl" "sl_counted sense sl"
    "sl_bag sense sl = fold (bag_effect (sl_key sense)) ops {#}"
    "\<forall>s. GWEN_StringList_HasString sl s = Ret (sl_key sense s \<in># fold (bag_effect (sl_key sense)) ops {#})"
    unfolding l(2) by auto
  have "set_mset (sl_bag sense sl) = set (map (sle_key sense) (sl_entries sl))"
    using sl(2) by (auto simp: sl_bag_def sl_counted_def in_replicate_mset unat_gt_0)
  moreover have "distinct (map (sle_key sense) (sl_entries sl))" "unat (sl_count sl) = length (sl_entries sl)"
    using sl(2) by (auto simp: sl_counted_def)
  ultimately have "unat (GWEN_StringList_Count sl) = card (set_mset (sl_bag sense sl))"
    using distinct_card by (metis GWEN_StringList_Count_def length_map)
  with sl show ?thesis by (intro exI [of _ sl]) simp
qed

theorem stringlist_bag_witness:
  "\<exists>sl. bag_calls (\<lambda>sl s. GWEN_StringList_AppendString sl s True) GWEN_StringList_RemoveString
        [BagAdd [97], BagAdd [98], BagAdd [65], BagRemove [97], BagRemove [98]]
        (GWEN_StringList_SetSenseCase (GWEN_StringList_SetIgnoreRefCount GWEN_StringList_new False) False) = Ret sl
     \<and> GWEN_StringList_HasString sl [65] = Ret True \<and> GWEN_StringList_HasString sl [98] = Ret False"
proof -
  have "fold (bag_effect (sl_key False)) [BagAdd [97], BagAdd [98], BagAdd [65], BagRemove [97], BagRemove [98]] {#} = {#[97]#}"
    by (simp add: sl_key_def tolower_def)
  with stringlist_bag [of "[BagAdd [97], BagAdd [98], BagAdd [65], BagRemove [97], BagRemove [98]]" False]
  show ?thesis by (auto simp: sl_key_def tolower_def)
qed

section \<open>Sorting\<close>

lemma strcmp_swap: "strcmp_sign t s = - strcmp_sign s t"
  by (induction s t rule: strcmp_sign.induct) auto

lemma strcmp_refl [simp]: "strcmp_sign s s = 0"
  by (induction s) auto

lemma strcmp_trans: "strcmp_sign a b \<le> 0 \<Longrightarrow> strcmp_sign b c \<le> 0 \<Longrightarrow> strcmp_sign a c \<le> 0"
proof (induction a b arbitrary: c rule: strcmp_sign.induct)
  case (4 a s b t)
  then show ?case by (cases c) (auto split: if_splits)
next
  case (2 b t)
  then show ?case by (cases c) auto
qed (auto split: if_splits)

lemma qsort_insert_mset: "mset (qsort_insert compar x xs) = add_mset x (mset xs)"
  by (induction xs) auto

lemma qsort_mset: "mset (qsort compar xs) = mset xs"
  by (induction xs) (auto simp: qsort_def qsort_insert_mset)

lemma qsort_sorted:
  assumes "\<And>x y. x \<in> A \<Longrightarrow> y \<in> A \<Longrightarrow> 0 < compar x y \<Longrightarrow> compar y x \<le> 0"
    "\<And>x y z. x \<in> A \<Longrightarrow> y \<in> A \<Longrightarrow> z \<in> A \<Longrightarrow> compar x y \<le> 0 \<Longrightarrow> compar y z \<le> 0 \<Longrightarrow> compar x z \<le> 0" "set xs \<subseteq> A"
  shows "sorted_wrt (\<lambda>x y. compar x y \<le> 0) (qsort compar xs)"
proof -
  have ins: "sorted_wrt (\<lambda>x y. compar x y \<le> 0) (qsort_insert compar x ys)"
    if "sorted_wrt (\<lambda>x y. compar x y \<le> 0) ys" "set ys \<subseteq> A" "x \<in> A" for x ys
    using that
  proof (induction ys)
    case (Cons y ys)
    have m: "set (qsort_insert compar x ys) = insert x (set ys)"
      using qsort_insert_mset [of compar x ys] by (metis set_mset_add_mset_insert set_mset_mset)
    show ?case
    proof (cases "compar x y \<le> 0")
      case True
      have "compar x z \<le> 0" if "z \<in> set ys" for z
        using assms(2) [OF Cons.prems(3) _ _ True, of z] Cons.prems(1,2) that by auto
      then show ?thesis using True Cons.prems(1) by simp
    next
      case False
      then have "compar y x \<le> 0" using assms(1) Cons.prems(2,3) by simp
      then show ?thesis using False Cons m by simp
    qed
  qed simp
  show ?thesis using assms(3)
  proof (induction xs)
    case (Cons x xs)
    have "set (foldr (qsort_insert compar) xs []) = set xs" using qsort_mset [of compar xs] by (metis qsort_def mset_eq_setD)
    then show ?case using Cons.IH Cons.prems(1) ins by (simp add: qsort_def)
  qed (simp add: qsort_def)
qed

lemma sl_order_laws:
  assumes "sle_data x \<noteq> None" "sle_data y \<noteq> None" "sle_data z \<noteq> None"
  shows "0 < sl_order asc m x y \<Longrightarrow> sl_order asc m y x \<le> 0"
    "sl_order asc m x y \<le> 0 \<Longrightarrow> sl_order asc m y z \<le> 0 \<Longrightarrow> sl_order asc m x z \<le> 0"
proof -
  note defs = sl_order_def sl_compar_def GWEN_StringList__compar_asc_nocase_def GWEN_StringList__compar_desc_nocase_def
    GWEN_StringList__compar_asc_case_def GWEN_StringList__compar_desc_case_def GWEN_StringList__compar_asc_int_def
    GWEN_StringList__compar_desc_int_def
  obtain a b c where d: "sle_data x = Some a" "sle_data y = Some b" "sle_data z = Some c" using assms by auto
  show "0 < sl_order asc m x y \<Longrightarrow> sl_order asc m y x \<le> 0"
    using d strcmp_swap [of a b] strcmp_swap [of "map tolower a" "map tolower b"] by (cases m; cases asc) (auto simp: defs split: if_splits)
  show "sl_order asc m x y \<le> 0 \<Longrightarrow> sl_order asc m y z \<le> 0 \<Longrightarrow> sl_order asc m x z \<le> 0"
    using d strcmp_trans [of a b c] strcmp_trans [of c b a] strcmp_trans [of "map tolower a" "map tolower b" "map tolower c"]
      strcmp_trans [of "map tolower c" "map tolower b" "map tolower a"]
    by (cases m; cases asc) (auto simp: defs split: if_splits)
qed

text \<open>Sorting gives the same entries, in the order of the comparison that was asked for.\<close>

theorem stringlist_sort:
  assumes "\<forall>se \<in> set (sl_entries l). sle_data se \<noteq> None" "unat (sl_count l) = length (sl_entries l)"
  shows "\<exists>l'. GWEN_StringList_Sort l asc m = Ret l' \<and> mset (sl_entries l') = mset (sl_entries l) \<and> sl_count l' = sl_count l
    \<and> sorted_wrt (\<lambda>a b. sl_order asc m a b \<le> 0) (sl_entries l')"
proof (cases "sl_count l < 2")
  case True
  then have "length (sl_entries l) < 2" using assms(2) by (simp add: word_less_nat_alt)
  then have "sorted_wrt (\<lambda>a b. sl_order asc m a b \<le> 0) (sl_entries l)" by (cases "sl_entries l") auto
  then show ?thesis using True by (simp add: GWEN_StringList_Sort_def)
next
  case False
  have "sorted_wrt (\<lambda>a b. sl_order asc m a b \<le> 0) (qsort (sl_order asc m) (sl_entries l))"
    by (rule qsort_sorted [where A = "{se. sle_data se \<noteq> None}"]) (use assms(1) sl_order_laws in blast)+
  then show ?thesis using False assms(2) by (simp add: GWEN_StringList_Sort_def qsort_mset)
qed

definition sl_of :: "byte list list \<Rightarrow> gwen_stringlist" where
  "sl_of ws = \<lparr>sl_entries = map (\<lambda>w. GWEN_StringListEntry_new (Some w)) ws, sl_count = of_nat (length ws),
     sl_senseCase = False, sl_ignoreRefCount = True\<rparr>"

theorem stringlist_sort_witness:
  "GWEN_StringList_Sort (sl_of [[51], [49, 48], [50]]) True SortModeInt = Ret (sl_of [[50], [51], [49, 48]])
   \<and> sorted_wrt (\<lambda>a b. sl_order True SortModeInt a b \<le> 0) (sl_entries (sl_of [[50], [51], [49, 48]]))"
proof -
  have "GWEN_StringList_Sort (sl_of [[51], [49, 48], [50]]) True SortModeInt = Ret (sl_of [[50], [51], [49, 48]])" by code_simp
  with stringlist_sort [of "sl_of [[51], [49, 48], [50]]" True SortModeInt] show ?thesis
    by (auto simp: sl_of_def GWEN_StringListEntry_new_def)
qed

text \<open>The mode named without case senses it: an upper case letter comes first.\<close>

lemma stringlist_modes_swapped:
  "GWEN_StringList_Sort (sl_of [[97], [66]]) True SortModeNoCase = Ret (sl_of [[66], [97]])"
  "GWEN_StringList_Sort (sl_of [[97], [66]]) True SortModeCase = Ret (sl_of [[97], [66]])"
  by code_simp+

section \<open>Lists as text\<close>

text \<open>The strings with the delimiter between them.\<close>

definition joined :: "byte list \<Rightarrow> byte list list \<Rightarrow> byte list" where
  "joined d ws = (case ws of [] \<Rightarrow> [] | w # ws \<Rightarrow> w @ concat (map (\<lambda>v. d @ v) ws))"

lemma joined_simps: "joined d [w] = w" "joined d (w # v # ws) = w @ d @ joined d (v # ws)"
  by (simp_all add: joined_def)

lemma sl_of_append [simp]: "GWEN_StringList_AppendEntry (sl_of ws) (GWEN_StringListEntry_new (Some w)) = sl_of (ws @ [w])"
  by (simp add: sl_of_def GWEN_StringList_AppendEntry_def add.commute)

lemma sl_of_Nil: "GWEN_StringList_new = sl_of []"
  by (simp add: sl_of_def GWEN_StringList_new_def)

lemma sl_append_plain: "GWEN_StringList_AppendString (sl_of ws) w False = Ret (1, sl_of (ws @ [w]))"
  by (simp add: GWEN_StringList_AppendString_def)

abbreviation sl_news :: "byte list list \<Rightarrow> gwen_stringlistentry list" where
  "sl_news ws \<equiv> map (\<lambda>w. GWEN_StringListEntry_new (Some w)) ws"

lemma to_buffer_rest:
  assumes "\<forall>w \<in> set ws. w \<noteq> [] \<and> 0 \<notin> set w" "d \<noteq> []" "0 \<notin> set d" "room buf (length (concat (map (\<lambda>w. d @ w) ws)) + n)" "0 < k"
  shows "\<exists>buf'. sl_to_buffer (sl_news ws) d k buf = Ret (int (k + length ws), buf')
    \<and> contents buf' = contents buf @ concat (map (\<lambda>w. d @ w) ws) \<and> room buf' n"
  using assms(1,4,5)
proof (induction ws arbitrary: buf k)
  case (Cons w ws)
  let ?t = "concat (map (\<lambda>w. d @ w) ws)"
  have "room buf (length d + (length w + (length ?t + n)))" using Cons.prems(2) by (simp add: add.assoc)
  from AppendString_room [OF this assms(3), of "[]"] obtain b1 where
    b1: "GWEN_Buffer_AppendString buf (d @ [0]) = Ret (0, b1)" "contents b1 = contents buf @ d" "room b1 (length w + (length ?t + n))" by blast
  have w: "w \<noteq> []" "0 \<notin> set w" using Cons.prems(1) by auto
  from AppendString_room [OF b1(3) w(2), of "[]"] obtain b2 where
    b2: "GWEN_Buffer_AppendString b1 (w @ [0]) = Ret (0, b2)" "contents b2 = contents b1 @ w" "room b2 (length ?t + n)" by blast
  from Cons.IH [OF _ b2(3), of "Suc k"] Cons.prems(1) obtain b3 where
    "sl_to_buffer (sl_news ws) d (Suc k) b2 = Ret (int (Suc k + length ws), b3)" "contents b3 = contents b2 @ ?t" "room b3 n" by auto
  with b1 b2 w(1) assms(2) Cons.prems(3) show ?case by (simp add: GWEN_StringListEntry_new_def)
qed simp

lemma to_buffer_joined:
  assumes "\<forall>w \<in> set ws. w \<noteq> [] \<and> 0 \<notin> set w" "d \<noteq> []" "0 \<notin> set d" "room buf (length (joined d ws) + n)"
  shows "\<exists>buf'. GWEN_StringList_toBuffer (Some (sl_of ws)) d buf = Ret (int (length ws), buf')
    \<and> contents buf' = contents buf @ joined d ws \<and> room buf' n"
proof (cases ws)
  case (Cons w vs)
  let ?t = "concat (map (\<lambda>w. d @ w) vs)"
  have "room buf (length w + (length ?t + n))" using assms(4) Cons by (simp add: joined_def add.assoc)
  moreover have w: "w \<noteq> []" "0 \<notin> set w" using assms(1) Cons by auto
  ultimately obtain b1 where
    b1: "GWEN_Buffer_AppendString buf (w @ [0]) = Ret (0, b1)" "contents b1 = contents buf @ w" "room b1 (length ?t + n)"
    using AppendString_room [of buf w _ "[]"] by blast
  from to_buffer_rest [OF _ assms(2,3) b1(3), of 1] assms(1) Cons obtain b2 where
    "sl_to_buffer (sl_news vs) d 1 b1 = Ret (int (1 + length vs), b2)" "contents b2 = contents b1 @ ?t" "room b2 n" by auto
  with b1 w(1) Cons show ?thesis by (simp add: GWEN_StringList_toBuffer_def sl_of_def GWEN_StringListEntry_new_def joined_def)
qed (use assms(4) in \<open>simp add: GWEN_StringList_toBuffer_def sl_of_def joined_def\<close>)

definition plain_word :: "byte \<Rightarrow> byte list \<Rightarrow> bool" where
  "plain_word d w \<longleftrightarrow> w \<noteq> [] \<and> 0 \<notin> set w \<and> list_all (\<lambda>c. \<not> word_special [d] c) w"

lemma plain_word_cut:
  assumes "plain_word d w" "t = [] \<or> hd t = d"
  shows "dropWhile (\<lambda>c. c < 33) (w @ t) = w @ t" "dropWhile isspace (w @ t) = w @ t"
    "takeWhile (\<lambda>c. c \<notin> set [d]) (w @ t) = w" "dropWhile (\<lambda>c. c \<notin> set [d]) (w @ t) = t"
proof -
  obtain c cs where w: "w = c # cs" using assms(1) by (cases w) (auto simp: plain_word_def)
  have c: "\<not> c < 33" using assms(1) w by (simp add: plain_word_def word_special_def)
  then show "dropWhile (\<lambda>c. c < 33) (w @ t) = w @ t" by (simp add: w)
  have "isspace c \<Longrightarrow> c < 33" by (auto simp: isspace_def word_less_nat_alt word_le_nat_alt)
  then show "dropWhile isspace (w @ t) = w @ t" using c by (auto simp: w)
  have d: "\<forall>x \<in> set w. x \<noteq> d" using assms(1) by (auto simp: plain_word_def list_all_iff word_special_def)
  then show "takeWhile (\<lambda>c. c \<notin> set [d]) (w @ t) = w" "dropWhile (\<lambda>c. c \<notin> set [d]) (w @ t) = t"
    using assms(2) by (cases t; auto simp: takeWhile_append2 dropWhile_append2)+
qed

lemma sl_from_joined:
  "\<forall>w \<in> set ws. plain_word d w \<Longrightarrow> sl_from (joined [d] ws) [d] False (sl_of vs) = Ret (sl_of (vs @ ws))"
proof (induction ws arbitrary: vs)
  case Nil
  then show ?case by (simp add: joined_def sl_from.simps)
next
  case (Cons w ws)
  define t where "t = (if ws = [] then [] else d # joined [d] ws)"
  have j: "joined [d] (w # ws) = w @ t" by (cases ws) (simp_all add: joined_simps t_def)
  have w: "plain_word d w" using Cons.prems by simp
  note cut = plain_word_cut [OF w, of t]
  have "sl_from (joined [d] (w # ws)) [d] False (sl_of vs) = sl_from (tl t) [d] False (sl_of (vs @ [w]))"
    unfolding j using w cut by (subst sl_from.simps) (simp add: plain_word_def Let_def sl_append_plain t_def)
  also have "tl t = joined [d] ws" by (simp add: t_def joined_def)
  finally show ?case using Cons by simp
qed

text \<open>C11. Strings joined with a delimiter in a buffer come back as the same list, as long as no string has the delimiter,
  quotes, backslashes, blanks or control characters in it.\<close>

theorem stringlist_text:
  assumes "\<forall>w \<in> set ws. plain_word d w" "ws \<noteq> []" "length ws < 4294967296" "d \<noteq> 0" "room buf (length (joined [d] ws))" "contents buf = []"
  shows "\<exists>buf'. GWEN_StringList_toBuffer (Some (sl_of ws)) [d] buf = Ret (int (length ws), buf')
    \<and> GWEN_StringList_fromString (Some (contents buf')) [d] False = Ret (Some (sl_of ws))"
proof -
  from to_buffer_joined [of ws "[d]" buf 0] assms obtain b where
    b: "GWEN_StringList_toBuffer (Some (sl_of ws)) [d] buf = Ret (int (length ws), b)" "contents b = joined [d] ws"
    by (auto simp: plain_word_def)
  have "joined [d] ws \<noteq> []" using assms(1,2) by (cases ws) (auto simp: joined_def plain_word_def)
  moreover have "(of_nat (length ws) :: u32) \<noteq> 0" using assms(2,3) unat_of_nat_u32 [of "length ws"] by (metis length_0_conv unat_0)
  then have "GWEN_StringList_Count (sl_of ws) \<noteq> 0" by (simp add: GWEN_StringList_Count_def sl_of_def)
  moreover have "sl_from (joined [d] ws) [d] False GWEN_StringList_new = Ret (sl_of ws)"
    using sl_from_joined [OF assms(1), of "[]"] by (simp add: sl_of_Nil)
  ultimately show ?thesis using b by (simp add: GWEN_StringList_fromString_def sl_or_null_def)
qed

theorem stringlist_text_witness:
  "\<exists>buf buf'. GWEN_Buffer_new 1000000 (\<lambda>_. 0) (\<lambda>_. True) None 16 0 True = Ret buf
    \<and> GWEN_StringList_toBuffer (Some (sl_of [[97, 98], [99]])) [44] buf = Ret (2, buf')
    \<and> GWEN_StringList_fromString (Some (contents buf')) [44] False = Ret (Some (sl_of [[97, 98], [99]]))"
proof -
  obtain buf where b: "GWEN_Buffer_new 1000000 (\<lambda>_. 0) (\<lambda>_. True) None 16 0 True = Ret buf" "room buf 4" "contents buf = []"
    using new_buffer_room [of 16 4 1000000 "\<lambda>_. 0" True] by auto
  have p: "\<forall>w \<in> set [[97, 98], [99]]. plain_word 44 w" by (simp add: plain_word_def word_special_def)
  have r: "room buf (length (joined [44] [[97, 98], [99]]))" using b(2) by (simp add: joined_def eval_nat_numeral)
  from stringlist_text [OF p _ _ _ r b(3)] b(1) show ?thesis by auto
qed

end
