(* ===== verification/Gwen_PtrList.thy ===== *)
theory Gwen_PtrList
  imports Gwen_Prelude
begin

text \<open>
  Growing lists of pointers, \<^verbatim>\<open>src/base/simpleptrlist.c\<close>. A list object points to a block of entries; a lazy copy shares the
  block of the original until one of them is written to. The blocks live in a store, so that sharing is visible:
  a list holds the address of its block. A pointer in a list is a number, 0 the null pointer. The functions a client
  registers to attach to and to detach from the objects in a list are known by a number, their calls are recorded.
\<close>

section \<open>State\<close>

type_synonym voidptr = nat

definition GWEN_SIMPLEPTRLIST_FLAGS_COPYONWRITE :: u32 where "GWEN_SIMPLEPTRLIST_FLAGS_COPYONWRITE = 0x80000000"
definition GWEN_SIMPLEPTRLIST_FLAGS_ATTACHTOOBJECTS :: u32 where "GWEN_SIMPLEPTRLIST_FLAGS_ATTACHTOOBJECTS = 0x40000000"
definition GWEN_SIMPLEPTRLIST_FLAGS_DETACHFROMOBJECTS :: u32 where "GWEN_SIMPLEPTRLIST_FLAGS_DETACHFROMOBJECTS = 0x20000000"

record internal_ptrlist =
  ip_refCounter :: int
  ip_storedEntries :: u64
  ip_entries :: "voidptr list"

record gwen_simpleptrlist =
  pl_maxEntries :: u64
  pl_usedEntries :: u64
  pl_steps :: u64
  pl_flags :: u32
  pl_refCount :: u32
  pl_userIntData :: int
  pl_userCounter :: u64
  pl_entryList :: "nat option"
  pl_attachObjectFn :: "nat option"
  pl_freeObjectFn :: "nat option"

datatype object_call = AttachCall nat voidptr | FreeCall nat voidptr

text \<open>The store: blocks by their address, the next free address, which sizes can be allocated, and the calls made.\<close>

record ptr_world =
  w_blocks :: "nat \<Rightarrow> internal_ptrlist option"
  w_next :: nat
  w_ok :: "u64 \<Rightarrow> bool"
  w_calls :: "object_call list"

abbreviation fl_has :: "u32 \<Rightarrow> u32 \<Rightarrow> bool" where
  "fl_has f m \<equiv> f AND m \<noteq> 0"

section \<open>Blocks\<close>

text \<open>A live block; following a null or a stale pointer is a \<open>Fault\<close>.\<close>

definition w_block :: "ptr_world \<Rightarrow> nat option \<Rightarrow> internal_ptrlist outcome" where
  "w_block w a = (case a of None \<Rightarrow> Fault | Some a \<Rightarrow> (case w_blocks w a of None \<Rightarrow> Fault | Some b \<Rightarrow> Ret b))"

definition w_set :: "ptr_world \<Rightarrow> nat \<Rightarrow> internal_ptrlist option \<Rightarrow> ptr_world" where
  "w_set w a b = w\<lparr>w_blocks := (w_blocks w)(a := b)\<rparr>"

text \<open>The size of a block is computed in 64 bits: a header of 16 bytes and 8 for each entry.\<close>

definition ptrlist_size :: "u64 \<Rightarrow> u64" where
  "ptrlist_size n = 16 + n * 8"

definition ptrlist_slots :: "u64 \<Rightarrow> nat" where
  "ptrlist_slots n = (unat (ptrlist_size n) - 16) div 8"

definition mallocPtrList :: "u64 \<Rightarrow> ptr_world \<Rightarrow> (nat option \<times> ptr_world) outcome" where
  "mallocPtrList totalEntries w =
    (if \<not> w_ok w (ptrlist_size totalEntries) then Ret (None, w)
     else if unat (ptrlist_size totalEntries) < 16 then Fault
     else Ret (Some (w_next w),
       (w_set w (w_next w) (Some \<lparr>ip_refCounter = 1, ip_storedEntries = totalEntries,
          ip_entries = replicate (ptrlist_slots totalEntries) 0\<rparr>))\<lparr>w_next := Suc (w_next w)\<rparr>))"

definition attachToPtrList :: "nat option \<Rightarrow> ptr_world \<Rightarrow> ptr_world outcome" where
  "attachToPtrList a w =
    (if a = None then Abort
     else obind (w_block w a) (\<lambda>b.
          obind (oassert (ip_refCounter b > 0)) (\<lambda>_.
          if in_int (ip_refCounter b + 1) then Ret (w_set w (the a) (Some (b\<lparr>ip_refCounter := ip_refCounter b + 1\<rparr>))) else Fault)))"

definition freePtrList :: "nat option \<Rightarrow> ptr_world \<Rightarrow> ptr_world outcome" where
  "freePtrList a w =
    (if a = None then Ret w
     else obind (w_block w a) (\<lambda>b.
          if ip_refCounter b > 0
          then if ip_refCounter b = 1 then Ret (w_set w (the a) None)
               else Ret (w_set w (the a) (Some (b\<lparr>ip_refCounter := ip_refCounter b - 1\<rparr>)))
          else Ret w))"

text \<open>The entries of a block that was made larger: those it had, and null pointers in the new ones.\<close>

definition grown_entries :: "internal_ptrlist \<Rightarrow> u64 \<Rightarrow> voidptr list outcome" where
  "grown_entries b totalEntries =
    (let n = ptrlist_slots totalEntries; stored = unat (ip_storedEntries b)
     in if unat (ptrlist_size totalEntries) < 16 \<or> stored \<noteq> length (ip_entries b) \<or> unat totalEntries \<noteq> n then Fault
        else Ret (ip_entries b @ replicate (unat totalEntries - stored) 0))"

text \<open>\<^verbatim>\<open>realloc\<close> may move the block: the old address is gone then, whoever else holds it.\<close>

definition reallocPtrList :: "nat option \<Rightarrow> u64 \<Rightarrow> ptr_world \<Rightarrow> (nat option \<times> ptr_world) outcome" where
  "reallocPtrList a totalEntries w =
    (if a = None then Abort
     else obind (w_block w a) (\<lambda>b.
          obind (oassert (ip_refCounter b > 0)) (\<lambda>_.
          if totalEntries < ip_storedEntries b then Ret (a, w)
          else if \<not> w_ok w (ptrlist_size totalEntries) then Ret (None, w)
          else obind (grown_entries b totalEntries) (\<lambda>es.
               Ret (Some (w_next w),
                 (w_set (w_set w (the a) None) (w_next w) (Some (b\<lparr>ip_storedEntries := totalEntries, ip_entries := es\<rparr>)))
                   \<lparr>w_next := Suc (w_next w)\<rparr>)))))"

definition copyPtrList :: "nat option \<Rightarrow> u64 \<Rightarrow> ptr_world \<Rightarrow> (nat option \<times> ptr_world) outcome" where
  "copyPtrList a totalEntries w =
    (if a = None then Abort
     else obind (w_block w a) (\<lambda>b.
          obind (oassert (ip_refCounter b > 0)) (\<lambda>_.
          let total = (if totalEntries < ip_storedEntries b then ip_storedEntries b else totalEntries)
          in if \<not> w_ok w (ptrlist_size total) then Ret (None, w)
             else obind (grown_entries b total) (\<lambda>es.
                  Ret (Some (w_next w),
                    (w_set w (w_next w) (Some \<lparr>ip_refCounter = 1, ip_storedEntries = total, ip_entries = es\<rparr>))
                      \<lparr>w_next := Suc (w_next w)\<rparr>)))))"

definition ptr_get :: "ptr_world \<Rightarrow> nat option \<Rightarrow> nat \<Rightarrow> voidptr outcome" where
  "ptr_get w a i = obind (w_block w a) (\<lambda>b. if i < length (ip_entries b) then Ret (ip_entries b ! i) else Fault)"

definition ptr_put :: "ptr_world \<Rightarrow> nat option \<Rightarrow> nat \<Rightarrow> voidptr \<Rightarrow> ptr_world outcome" where
  "ptr_put w a i p = obind (w_block w a) (\<lambda>b.
     if i < length (ip_entries b) then Ret (w_set w (the a) (Some (b\<lparr>ip_entries := (ip_entries b)[i := p]\<rparr>))) else Fault)"

section \<open>Objects\<close>

definition w_call :: "ptr_world \<Rightarrow> object_call \<Rightarrow> ptr_world" where
  "w_call w c = w\<lparr>w_calls := w_calls w @ [c]\<rparr>"

definition attachToObject :: "gwen_simpleptrlist \<Rightarrow> voidptr \<Rightarrow> ptr_world \<Rightarrow> ptr_world" where
  "attachToObject pl p w = (case pl_attachObjectFn pl of Some f \<Rightarrow> w_call w (AttachCall f p) | None \<Rightarrow> w)"

definition detachFromObject :: "gwen_simpleptrlist \<Rightarrow> voidptr \<Rightarrow> ptr_world \<Rightarrow> ptr_world" where
  "detachFromObject pl p w = (case pl_freeObjectFn pl of Some f \<Rightarrow> w_call w (FreeCall f p) | None \<Rightarrow> w)"

definition pl_used :: "gwen_simpleptrlist \<Rightarrow> ptr_world \<Rightarrow> voidptr list outcome" where
  "pl_used pl w = obind (w_block w (pl_entryList pl)) (\<lambda>b.
     if unat (pl_usedEntries pl) \<le> length (ip_entries b) then Ret (take (unat (pl_usedEntries pl)) (ip_entries b)) else Fault)"

definition attachToAllObjects :: "gwen_simpleptrlist \<Rightarrow> ptr_world \<Rightarrow> ptr_world outcome" where
  "attachToAllObjects pl w =
    (if pl_attachObjectFn pl = None then Ret w
     else obind (pl_used pl w) (\<lambda>ps. Ret (fold (attachToObject pl) (filter (\<lambda>p. p \<noteq> 0) ps) w)))"

definition detachFromAllObjects :: "gwen_simpleptrlist \<Rightarrow> ptr_world \<Rightarrow> ptr_world outcome" where
  "detachFromAllObjects pl w =
    (if pl_freeObjectFn pl = None then Ret w
     else obind (pl_used pl w) (\<lambda>ps. Ret (fold (detachFromObject pl) (filter (\<lambda>p. p \<noteq> 0) ps) w)))"

section \<open>Lists\<close>

definition GWEN_SimplePtrList_new :: "u64 \<Rightarrow> u64 \<Rightarrow> ptr_world \<Rightarrow> (gwen_simpleptrlist \<times> ptr_world) outcome" where
  "GWEN_SimplePtrList_new startEntries steps w =
     obind (mallocPtrList startEntries w) (\<lambda>(a, w).
       Ret (\<lparr>pl_maxEntries = startEntries, pl_usedEntries = 0, pl_steps = steps, pl_flags = 0, pl_refCount = 1,
             pl_userIntData = 0, pl_userCounter = 0, pl_entryList = a, pl_attachObjectFn = None, pl_freeObjectFn = None\<rparr>, w))"

text \<open>The copy, and the original with its flag set.\<close>

definition GWEN_SimplePtrList_LazyCopy ::
  "gwen_simpleptrlist \<Rightarrow> ptr_world \<Rightarrow> (gwen_simpleptrlist \<times> gwen_simpleptrlist \<times> ptr_world) outcome" where
  "GWEN_SimplePtrList_LazyCopy oldList w =
     obind (attachToPtrList (pl_entryList oldList) w) (\<lambda>w.
       Ret (\<lparr>pl_maxEntries = pl_maxEntries oldList, pl_usedEntries = pl_usedEntries oldList, pl_steps = pl_steps oldList,
             pl_flags = pl_flags oldList OR GWEN_SIMPLEPTRLIST_FLAGS_COPYONWRITE, pl_refCount = 1,
             pl_userIntData = pl_userIntData oldList, pl_userCounter = 0, pl_entryList = pl_entryList oldList,
             pl_attachObjectFn = pl_attachObjectFn oldList, pl_freeObjectFn = pl_freeObjectFn oldList\<rparr>,
            oldList\<lparr>pl_flags := pl_flags oldList OR GWEN_SIMPLEPTRLIST_FLAGS_COPYONWRITE\<rparr>, w))"

definition GWEN_SimplePtrList_Attach :: "gwen_simpleptrlist \<Rightarrow> gwen_simpleptrlist outcome" where
  "GWEN_SimplePtrList_Attach pl =
     obind (oassert (pl_refCount pl \<noteq> 0)) (\<lambda>_. Ret (pl\<lparr>pl_refCount := pl_refCount pl + 1\<rparr>))"

text \<open>\<open>None\<close> where the last reference went and the list with it.\<close>

definition GWEN_SimplePtrList_free :: "gwen_simpleptrlist \<Rightarrow> ptr_world \<Rightarrow> (gwen_simpleptrlist option \<times> ptr_world) outcome" where
  "GWEN_SimplePtrList_free pl w =
     obind (oassert (pl_refCount pl \<noteq> 0)) (\<lambda>_.
       if pl_refCount pl = 1
       then obind (if fl_has (pl_flags pl) GWEN_SIMPLEPTRLIST_FLAGS_DETACHFROMOBJECTS
                   then obind (w_block w (pl_entryList pl)) (\<lambda>b. if ip_refCounter b = 1 then detachFromAllObjects pl w else Ret w)
                   else Ret w) (\<lambda>w.
            obind (freePtrList (pl_entryList pl) w) (\<lambda>w. Ret (None, w)))
       else Ret (Some (pl\<lparr>pl_refCount := pl_refCount pl - 1\<rparr>), w))"

definition GWEN_SimplePtrList_Clear :: "gwen_simpleptrlist \<Rightarrow> ptr_world \<Rightarrow> ptr_world outcome" where
  "GWEN_SimplePtrList_Clear pl w =
     obind (oassert (pl_refCount pl \<noteq> 0)) (\<lambda>_.
     obind (if fl_has (pl_flags pl) GWEN_SIMPLEPTRLIST_FLAGS_DETACHFROMOBJECTS then detachFromAllObjects pl w else Ret w) (\<lambda>w.
     obind (w_block w (pl_entryList pl)) (\<lambda>b.
       if unat (pl_usedEntries pl) \<le> length (ip_entries b)
       then Ret (w_set w (the (pl_entryList pl)) (Some (b\<lparr>ip_entries :=
              replicate (unat (pl_usedEntries pl)) 0 @ drop (unat (pl_usedEntries pl)) (ip_entries b)\<rparr>)))
       else Fault)))"

definition GWEN_SimplePtrList_SetUserIntData :: "gwen_simpleptrlist \<Rightarrow> int \<Rightarrow> gwen_simpleptrlist outcome" where
  "GWEN_SimplePtrList_SetUserIntData pl i = obind (oassert (pl_refCount pl \<noteq> 0)) (\<lambda>_. Ret (pl\<lparr>pl_userIntData := i\<rparr>))"

definition GWEN_SimplePtrList_GetUserIntData :: "gwen_simpleptrlist \<Rightarrow> int outcome" where
  "GWEN_SimplePtrList_GetUserIntData pl = obind (oassert (pl_refCount pl \<noteq> 0)) (\<lambda>_. Ret (pl_userIntData pl))"

definition GWEN_SimplePtrList_SetUserCounter :: "gwen_simpleptrlist \<Rightarrow> u64 \<Rightarrow> gwen_simpleptrlist outcome" where
  "GWEN_SimplePtrList_SetUserCounter pl i = obind (oassert (pl_refCount pl \<noteq> 0)) (\<lambda>_. Ret (pl\<lparr>pl_userCounter := i\<rparr>))"

definition GWEN_SimplePtrList_GetUserCounter :: "gwen_simpleptrlist \<Rightarrow> u64 outcome" where
  "GWEN_SimplePtrList_GetUserCounter pl = obind (oassert (pl_refCount pl \<noteq> 0)) (\<lambda>_. Ret (pl_userCounter pl))"

definition GWEN_SimplePtrList_IncUserCounter :: "gwen_simpleptrlist \<Rightarrow> gwen_simpleptrlist outcome" where
  "GWEN_SimplePtrList_IncUserCounter pl =
     obind (oassert (pl_refCount pl \<noteq> 0)) (\<lambda>_. Ret (pl\<lparr>pl_userCounter := pl_userCounter pl + 1\<rparr>))"

definition GWEN_SimplePtrList_DecUserCounter :: "gwen_simpleptrlist \<Rightarrow> (int \<times> gwen_simpleptrlist) outcome" where
  "GWEN_SimplePtrList_DecUserCounter pl =
     obind (oassert (pl_refCount pl \<noteq> 0)) (\<lambda>_.
       if pl_userCounter pl \<noteq> 0 then Ret (0, pl\<lparr>pl_userCounter := pl_userCounter pl - 1\<rparr>) else Ret (GWEN_ERROR_INVALID, pl))"

definition GWEN_SimplePtrList_GetSteps :: "gwen_simpleptrlist \<Rightarrow> u64 outcome" where
  "GWEN_SimplePtrList_GetSteps pl = obind (oassert (pl_refCount pl \<noteq> 0)) (\<lambda>_. Ret (pl_steps pl))"

definition GWEN_SimplePtrList_SetSteps :: "gwen_simpleptrlist \<Rightarrow> u64 \<Rightarrow> gwen_simpleptrlist outcome" where
  "GWEN_SimplePtrList_SetSteps pl steps = obind (oassert (pl_refCount pl \<noteq> 0)) (\<lambda>_. Ret (pl\<lparr>pl_steps := steps\<rparr>))"

definition GWEN_SimplePtrList_GetMaxEntries :: "gwen_simpleptrlist \<Rightarrow> u64 outcome" where
  "GWEN_SimplePtrList_GetMaxEntries pl = obind (oassert (pl_refCount pl \<noteq> 0)) (\<lambda>_. Ret (pl_maxEntries pl))"

definition GWEN_SimplePtrList_GetUsedEntries :: "gwen_simpleptrlist \<Rightarrow> u64 outcome" where
  "GWEN_SimplePtrList_GetUsedEntries pl = obind (oassert (pl_refCount pl \<noteq> 0)) (\<lambda>_. Ret (pl_usedEntries pl))"

definition GWEN_SimplePtrList_GetFlags :: "gwen_simpleptrlist \<Rightarrow> u32 outcome" where
  "GWEN_SimplePtrList_GetFlags pl = obind (oassert (pl_refCount pl \<noteq> 0)) (\<lambda>_. Ret (pl_flags pl))"

definition GWEN_SimplePtrList_SetFlags :: "gwen_simpleptrlist \<Rightarrow> u32 \<Rightarrow> gwen_simpleptrlist outcome" where
  "GWEN_SimplePtrList_SetFlags pl f = obind (oassert (pl_refCount pl \<noteq> 0)) (\<lambda>_. Ret (pl\<lparr>pl_flags := f\<rparr>))"

definition GWEN_SimplePtrList_AddFlags :: "gwen_simpleptrlist \<Rightarrow> u32 \<Rightarrow> gwen_simpleptrlist outcome" where
  "GWEN_SimplePtrList_AddFlags pl f = obind (oassert (pl_refCount pl \<noteq> 0)) (\<lambda>_. Ret (pl\<lparr>pl_flags := pl_flags pl OR f\<rparr>))"

definition GWEN_SimplePtrList_SubFlags :: "gwen_simpleptrlist \<Rightarrow> u32 \<Rightarrow> gwen_simpleptrlist outcome" where
  "GWEN_SimplePtrList_SubFlags pl f = obind (oassert (pl_refCount pl \<noteq> 0)) (\<lambda>_. Ret (pl\<lparr>pl_flags := pl_flags pl AND NOT f\<rparr>))"

definition GWEN_SimplePtrList_SetAttachObjectFn ::
  "gwen_simpleptrlist \<Rightarrow> nat option \<Rightarrow> (nat option \<times> gwen_simpleptrlist) outcome" where
  "GWEN_SimplePtrList_SetAttachObjectFn pl fn =
     obind (oassert (pl_refCount pl \<noteq> 0)) (\<lambda>_. Ret (pl_attachObjectFn pl, pl\<lparr>pl_attachObjectFn := fn\<rparr>))"

definition GWEN_SimplePtrList_SetFreeObjectFn ::
  "gwen_simpleptrlist \<Rightarrow> nat option \<Rightarrow> (nat option \<times> gwen_simpleptrlist) outcome" where
  "GWEN_SimplePtrList_SetFreeObjectFn pl fn =
     obind (oassert (pl_refCount pl \<noteq> 0)) (\<lambda>_. Ret (pl_freeObjectFn pl, pl\<lparr>pl_freeObjectFn := fn\<rparr>))"

section \<open>Entries\<close>

definition GWEN_SimplePtrList_GetEntries :: "gwen_simpleptrlist \<Rightarrow> ptr_world \<Rightarrow> voidptr list outcome" where
  "GWEN_SimplePtrList_GetEntries pl w =
     obind (oassert (pl_refCount pl \<noteq> 0)) (\<lambda>_. obind (w_block w (pl_entryList pl)) (\<lambda>b. Ret (ip_entries b)))"

definition GWEN_SimplePtrList_GetPtrAt :: "gwen_simpleptrlist \<Rightarrow> u64 \<Rightarrow> ptr_world \<Rightarrow> voidptr outcome" where
  "GWEN_SimplePtrList_GetPtrAt pl idx w =
     obind (oassert (pl_refCount pl \<noteq> 0)) (\<lambda>_.
       if idx < pl_usedEntries pl then ptr_get w (pl_entryList pl) (unat idx) else Ret 0)"

definition GWEN_SimplePtrList_EnsureWritability ::
  "gwen_simpleptrlist \<Rightarrow> ptr_world \<Rightarrow> (int \<times> gwen_simpleptrlist \<times> ptr_world) outcome" where
  "GWEN_SimplePtrList_EnsureWritability pl w =
     obind (oassert (pl_refCount pl \<noteq> 0)) (\<lambda>_.
       if fl_has (pl_flags pl) GWEN_SIMPLEPTRLIST_FLAGS_COPYONWRITE
       then let n = pl_maxEntries pl + pl_steps pl
            in obind (copyPtrList (pl_entryList pl) n w) (\<lambda>(a, w).
                 if a = None then Ret (GWEN_ERROR_MEMORY_FULL, pl, w)
                 else obind (freePtrList (pl_entryList pl) w) (\<lambda>w.
                      let pl = pl\<lparr>pl_entryList := a, pl_maxEntries := n\<rparr>
                      in obind (if fl_has (pl_flags pl) GWEN_SIMPLEPTRLIST_FLAGS_ATTACHTOOBJECTS then attachToAllObjects pl w else Ret w) (\<lambda>w.
                           Ret (0, pl\<lparr>pl_flags := pl_flags pl AND NOT GWEN_SIMPLEPTRLIST_FLAGS_COPYONWRITE\<rparr>, w))))
       else Ret (0, pl, w))"

definition GWEN_SimplePtrList_SetPtrAt ::
  "gwen_simpleptrlist \<Rightarrow> u64 \<Rightarrow> voidptr \<Rightarrow> ptr_world \<Rightarrow> (int \<times> gwen_simpleptrlist \<times> ptr_world) outcome" where
  "GWEN_SimplePtrList_SetPtrAt pl idx p w =
     obind (oassert (pl_refCount pl \<noteq> 0)) (\<lambda>_.
       if idx < pl_usedEntries pl
       then obind (GWEN_SimplePtrList_EnsureWritability pl w) (\<lambda>(rv, pl, w).
              if rv < 0 then Ret (rv, pl, w)
              else obind (ptr_get w (pl_entryList pl) (unat idx)) (\<lambda>oldPtr.
                   obind (ptr_put w (pl_entryList pl) (unat idx) p) (\<lambda>w.
                     let w = (if p \<noteq> 0 \<and> fl_has (pl_flags pl) GWEN_SIMPLEPTRLIST_FLAGS_ATTACHTOOBJECTS then attachToObject pl p w else w);
                         w = (if oldPtr \<noteq> 0 \<and> fl_has (pl_flags pl) GWEN_SIMPLEPTRLIST_FLAGS_DETACHFROMOBJECTS
                              then detachFromObject pl oldPtr w else w)
                     in Ret (0, pl, w))))
       else Ret (GWEN_ERROR_BUFFER_OVERFLOW, pl, w))"

definition ptrlist_grow :: "gwen_simpleptrlist \<Rightarrow> ptr_world \<Rightarrow> (int \<times> gwen_simpleptrlist \<times> ptr_world) outcome" where
  "ptrlist_grow pl w =
    (if pl_usedEntries pl \<ge> pl_maxEntries pl
     then let n = pl_maxEntries pl + pl_steps pl
          in if n > pl_maxEntries pl
             then obind (reallocPtrList (pl_entryList pl) n w) (\<lambda>(a, w).
                    if a = None then Ret (GWEN_ERROR_MEMORY_FULL, pl, w)
                    else Ret (0, pl\<lparr>pl_entryList := a, pl_maxEntries := n\<rparr>, w))
             else Ret (GWEN_ERROR_MEMORY_FULL, pl, w)
     else Ret (0, pl, w))"

text \<open>The position is returned as a signed number of 64 bits.\<close>

definition GWEN_SimplePtrList_AddPtr ::
  "gwen_simpleptrlist \<Rightarrow> voidptr \<Rightarrow> ptr_world \<Rightarrow> (int \<times> gwen_simpleptrlist \<times> ptr_world) outcome" where
  "GWEN_SimplePtrList_AddPtr pl p w =
     obind (oassert (pl_refCount pl \<noteq> 0)) (\<lambda>_.
     obind (GWEN_SimplePtrList_EnsureWritability pl w) (\<lambda>(rv, pl, w).
       if rv < 0 then Ret (rv, pl, w)
       else obind (ptrlist_grow pl w) (\<lambda>(rv, pl, w).
            if rv < 0 then Ret (rv, pl, w)
            else obind (ptr_put w (pl_entryList pl) (unat (pl_usedEntries pl)) p) (\<lambda>w.
                 let w = (if p \<noteq> 0 \<and> fl_has (pl_flags pl) GWEN_SIMPLEPTRLIST_FLAGS_ATTACHTOOBJECTS then attachToObject pl p w else w);
                     pl = pl\<lparr>pl_usedEntries := pl_usedEntries pl + 1\<rparr>
                 in Ret (sint (pl_usedEntries pl - 1), pl, w)))))"

end
