(* ===== verification/Gwen_IdList64.thy ===== *)
theory Gwen_IdList64
  imports Gwen_PtrList
begin

text \<open>
  Lists of 64 bit ids in tables of a fixed size, \<^verbatim>\<open>src/base/idlist64.c\<close>, on top of the lists of pointers of
  \<^verbatim>\<open>src/base/simpleptrlist.c\<close>: the pointers are addresses of tables in a second store, and the calls the pointer list
  makes to its objects are the attaching to and the releasing of tables.
\<close>

section \<open>Tables\<close>

definition GWEN_IDLIST64_INITIAL_ENTRYCOUNT :: u64 where "GWEN_IDLIST64_INITIAL_ENTRYCOUNT = 64"
definition GWEN_IDLIST64_STEPS :: u64 where "GWEN_IDLIST64_STEPS = 64"
definition GWEN_IDLIST64_ENTRIES_PER_TABLE :: u64 where "GWEN_IDLIST64_ENTRIES_PER_TABLE = 256"
definition GWEN_IDTABLE64_RUNTIME_FLAGS_DIRTY :: u32 where "GWEN_IDTABLE64_RUNTIME_FLAGS_DIRTY = 0x01"
definition GWEN_IDTABLE64_RUNTIME_FLAGS_ISCOPY :: u32 where "GWEN_IDTABLE64_RUNTIME_FLAGS_ISCOPY = 0x02"

record gwen_idtable64 =
  it_maxEntries :: u64
  it_freeEntries :: u64
  it_highestEntry :: u64
  it_ptrEntries :: "u64 list option"
  it_refCount :: u32
  it_runtimeFlags :: u32

text \<open>The store of the tables beside that of the pointers; address 0 is the null pointer.\<close>

record id_world =
  iw_ptrs :: ptr_world
  iw_tables :: "voidptr \<Rightarrow> gwen_idtable64 option"
  iw_fresh :: voidptr

definition iw_table :: "id_world \<Rightarrow> voidptr \<Rightarrow> gwen_idtable64 outcome" where
  "iw_table w t = (if t = 0 then Abort else (case iw_tables w t of None \<Rightarrow> Fault | Some ft \<Rightarrow> Ret ft))"

definition iw_set :: "id_world \<Rightarrow> voidptr \<Rightarrow> gwen_idtable64 option \<Rightarrow> id_world" where
  "iw_set w t ft = w\<lparr>iw_tables := (iw_tables w)(t := ft)\<rparr>"

definition iw_new :: "id_world \<Rightarrow> gwen_idtable64 \<Rightarrow> voidptr \<times> id_world" where
  "iw_new w ft = (iw_fresh w, (iw_set w (iw_fresh w) (Some ft))\<lparr>iw_fresh := Suc (iw_fresh w)\<rparr>)"

definition GWEN_IdTable64_new :: gwen_idtable64 where
  "GWEN_IdTable64_new = \<lparr>it_maxEntries = 0, it_freeEntries = 0, it_highestEntry = 0, it_ptrEntries = None, it_refCount = 1, it_runtimeFlags = 0\<rparr>"

definition GWEN_IdTable64_Attach :: "voidptr \<Rightarrow> id_world \<Rightarrow> id_world outcome" where
  "GWEN_IdTable64_Attach t w =
     obind (iw_table w t) (\<lambda>ft.
     obind (oassert (it_refCount ft \<noteq> 0)) (\<lambda>_. Ret (iw_set w t (Some (ft\<lparr>it_refCount := it_refCount ft + 1\<rparr>)))))"

definition GWEN_IdTable64_free :: "voidptr \<Rightarrow> id_world \<Rightarrow> id_world outcome" where
  "GWEN_IdTable64_free t w =
    (if t = 0 then Ret w
     else obind (iw_table w t) (\<lambda>ft.
          obind (oassert (it_refCount ft \<noteq> 0)) (\<lambda>_.
            if it_refCount ft = 1 then Ret (iw_set w t None)
            else Ret (iw_set w t (Some (ft\<lparr>it_refCount := it_refCount ft - 1\<rparr>))))))"

definition GWEN_IdTable64_dup :: "voidptr \<Rightarrow> id_world \<Rightarrow> (voidptr \<times> id_world) outcome" where
  "GWEN_IdTable64_dup t w =
     obind (iw_table w t) (\<lambda>ft.
     obind (oassert (it_refCount ft \<noteq> 0)) (\<lambda>_.
       Ret (iw_new w (GWEN_IdTable64_new\<lparr>it_maxEntries := it_maxEntries ft, it_freeEntries := it_freeEntries ft,
         it_highestEntry := it_highestEntry ft, it_runtimeFlags := it_runtimeFlags ft,
         it_ptrEntries := (if it_maxEntries ft \<noteq> 0 then it_ptrEntries ft else None)\<rparr>))))"

text \<open>The size of the entries in bytes is computed in 64 bits.\<close>

definition GWEN_IdTable64_Create :: "u64 \<Rightarrow> id_world \<Rightarrow> (voidptr \<times> id_world) outcome" where
  "GWEN_IdTable64_Create maxEntries w =
     obind (oassert (w_ok (iw_ptrs w) (maxEntries * 8))) (\<lambda>_.
       Ret (iw_new w (GWEN_IdTable64_new\<lparr>it_maxEntries := maxEntries, it_freeEntries := maxEntries,
         it_ptrEntries := Some (replicate (unat (maxEntries * 8) div 8) 0)\<rparr>)))"

definition GWEN_IdTable64_DecFreeEntries :: "gwen_idtable64 \<Rightarrow> gwen_idtable64" where
  "GWEN_IdTable64_DecFreeEntries ft = (if it_freeEntries ft > 0 then ft\<lparr>it_freeEntries := it_freeEntries ft - 1\<rparr> else ft)"

definition GWEN_IdTable64_CheckAndSetHighestEntry :: "gwen_idtable64 \<Rightarrow> u64 \<Rightarrow> gwen_idtable64" where
  "GWEN_IdTable64_CheckAndSetHighestEntry ft i = (if i > it_highestEntry ft then ft\<lparr>it_highestEntry := i\<rparr> else ft)"

definition GWEN_IdTable64_AddRuntimeFlags :: "gwen_idtable64 \<Rightarrow> u32 \<Rightarrow> gwen_idtable64" where
  "GWEN_IdTable64_AddRuntimeFlags ft i = ft\<lparr>it_runtimeFlags := it_runtimeFlags ft OR i\<rparr>"

section \<open>The pointer list with tables as its objects\<close>

fun table_calls :: "object_call list \<Rightarrow> id_world \<Rightarrow> id_world outcome" where
  "table_calls [] w = Ret w"
| "table_calls (AttachCall f t # cs) w = obind (GWEN_IdTable64_Attach t w) (table_calls cs)"
| "table_calls (FreeCall f t # cs) w = obind (GWEN_IdTable64_free t w) (table_calls cs)"

text \<open>An operation of the pointer list, and then what it does to the tables.\<close>

definition on_ptrs :: "(ptr_world \<Rightarrow> ('a \<times> ptr_world) outcome) \<Rightarrow> id_world \<Rightarrow> ('a \<times> id_world) outcome" where
  "on_ptrs f w =
     obind (f ((iw_ptrs w)\<lparr>w_calls := []\<rparr>)) (\<lambda>(x, pw).
     obind (table_calls (w_calls pw) (w\<lparr>iw_ptrs := pw\<lparr>w_calls := []\<rparr>\<rparr>)) (\<lambda>w. Ret (x, w)))"

definition pl_op :: "(ptr_world \<Rightarrow> (int \<times> gwen_simpleptrlist \<times> ptr_world) outcome) \<Rightarrow> ptr_world
    \<Rightarrow> ((int \<times> gwen_simpleptrlist) \<times> ptr_world) outcome" where
  "pl_op f w = obind (f w) (\<lambda>(rv, pl, w). Ret ((rv, pl), w))"

section \<open>Lists\<close>

definition GWEN_IdList64_newWithSteps :: "u64 \<Rightarrow> id_world \<Rightarrow> (gwen_simpleptrlist \<times> id_world) outcome" where
  "GWEN_IdList64_newWithSteps steps w =
     obind (on_ptrs (GWEN_SimplePtrList_new GWEN_IDLIST64_INITIAL_ENTRYCOUNT GWEN_IDLIST64_STEPS) w) (\<lambda>(idl, w).
     obind (GWEN_SimplePtrList_SetAttachObjectFn idl (Some 1)) (\<lambda>(_, idl).
     obind (GWEN_SimplePtrList_SetFreeObjectFn idl (Some 2)) (\<lambda>(_, idl).
     obind (GWEN_SimplePtrList_AddFlags idl GWEN_SIMPLEPTRLIST_FLAGS_ATTACHTOOBJECTS) (\<lambda>idl.
     obind (GWEN_SimplePtrList_AddFlags idl GWEN_SIMPLEPTRLIST_FLAGS_DETACHFROMOBJECTS) (\<lambda>idl.
     obind (GWEN_SimplePtrList_SetUserIntData idl (sint (ucast steps :: u32))) (\<lambda>idl. Ret (idl, w)))))))"

definition GWEN_IdList64_new :: "id_world \<Rightarrow> (gwen_simpleptrlist \<times> id_world) outcome" where
  "GWEN_IdList64_new w = GWEN_IdList64_newWithSteps GWEN_IDLIST64_ENTRIES_PER_TABLE w"

definition GWEN_IdList64_Attach :: "gwen_simpleptrlist \<Rightarrow> gwen_simpleptrlist outcome" where
  "GWEN_IdList64_Attach idl = GWEN_SimplePtrList_Attach idl"

definition GWEN_IdList64_free :: "gwen_simpleptrlist \<Rightarrow> id_world \<Rightarrow> (gwen_simpleptrlist option \<times> id_world) outcome" where
  "GWEN_IdList64_free idl w = on_ptrs (GWEN_SimplePtrList_free idl) w"

definition GWEN_IdList64_Clear :: "gwen_simpleptrlist \<Rightarrow> id_world \<Rightarrow> (gwen_simpleptrlist \<times> id_world) outcome" where
  "GWEN_IdList64_Clear idl w =
     obind (on_ptrs (\<lambda>pw. obind (GWEN_SimplePtrList_Clear idl pw) (\<lambda>pw. Ret ((), pw))) w) (\<lambda>(_, w).
     obind (GWEN_SimplePtrList_SetUserCounter idl 0) (\<lambda>idl. Ret (idl, w)))"

definition GWEN_IdList64_IncIdCounter :: "gwen_simpleptrlist \<Rightarrow> gwen_simpleptrlist outcome" where
  "GWEN_IdList64_IncIdCounter pl = GWEN_SimplePtrList_IncUserCounter pl"

definition GWEN_IdList64_DecIdCounter :: "gwen_simpleptrlist \<Rightarrow> (int \<times> gwen_simpleptrlist) outcome" where
  "GWEN_IdList64_DecIdCounter pl = GWEN_SimplePtrList_DecUserCounter pl"

definition GWEN_IdList64_GetEntryCount :: "gwen_simpleptrlist \<Rightarrow> u64 outcome" where
  "GWEN_IdList64_GetEntryCount pl = GWEN_SimplePtrList_GetUserCounter pl"

definition GWEN_IdList64_GetTableMaxEntries :: "gwen_simpleptrlist \<Rightarrow> int outcome" where
  "GWEN_IdList64_GetTableMaxEntries idl = GWEN_SimplePtrList_GetUserIntData idl"

definition GWEN_IdList64_LazyCopy :: "gwen_simpleptrlist \<Rightarrow> id_world \<Rightarrow> ((gwen_simpleptrlist \<times> gwen_simpleptrlist) \<times> id_world) outcome" where
  "GWEN_IdList64_LazyCopy oldList w =
     on_ptrs (\<lambda>pw. obind (GWEN_SimplePtrList_LazyCopy oldList pw) (\<lambda>(new, old, pw). Ret ((new, old), pw))) w"

definition GWEN_IdList64_GetTableAt :: "gwen_simpleptrlist \<Rightarrow> u64 \<Rightarrow> id_world \<Rightarrow> voidptr outcome" where
  "GWEN_IdList64_GetTableAt idl idx w = GWEN_SimplePtrList_GetPtrAt idl idx (iw_ptrs w)"

definition GWEN_IdList64_SetTableAt ::
  "gwen_simpleptrlist \<Rightarrow> u64 \<Rightarrow> voidptr \<Rightarrow> id_world \<Rightarrow> ((int \<times> gwen_simpleptrlist) \<times> id_world) outcome" where
  "GWEN_IdList64_SetTableAt idl idx t w = on_ptrs (pl_op (GWEN_SimplePtrList_SetPtrAt idl idx t)) w"

definition GWEN_IdList64_AddTable :: "gwen_simpleptrlist \<Rightarrow> voidptr \<Rightarrow> id_world \<Rightarrow> ((int \<times> gwen_simpleptrlist) \<times> id_world) outcome" where
  "GWEN_IdList64_AddTable idl t w = on_ptrs (pl_op (GWEN_SimplePtrList_AddPtr idl t)) w"

definition GWEN_IdList64_GetUsedTables :: "gwen_simpleptrlist \<Rightarrow> u64 outcome" where
  "GWEN_IdList64_GetUsedTables idl = GWEN_SimplePtrList_GetUsedEntries idl"

definition GWEN_IdList64_GetLastTablePos :: "gwen_simpleptrlist \<Rightarrow> int outcome" where
  "GWEN_IdList64_GetLastTablePos idl =
     obind (GWEN_SimplePtrList_GetUsedEntries idl) (\<lambda>idx. Ret (if idx \<noteq> 0 then sint (idx - 1) else GWEN_ERROR_NO_DATA))"

text \<open>All tables of a list are copied into a new one; a table that could not be added ends it.\<close>

fun idl_dup_tables :: "gwen_simpleptrlist \<Rightarrow> nat list \<Rightarrow> gwen_simpleptrlist \<Rightarrow> id_world \<Rightarrow> (gwen_simpleptrlist option \<times> id_world) outcome" where
  "idl_dup_tables oldList [] idl w = Ret (Some idl, w)"
| "idl_dup_tables oldList (i # is) idl w =
     obind (GWEN_IdList64_GetTableAt oldList (of_nat i) w) (\<lambda>oldTable.
       if oldTable = 0 then idl_dup_tables oldList is idl w
       else obind (GWEN_IdTable64_dup oldTable w) (\<lambda>(t, w).
            obind (GWEN_IdList64_AddTable idl t w) (\<lambda>((rv, idl), w).
            obind (GWEN_IdTable64_free t w) (\<lambda>w.
              if rv < 0 then obind (GWEN_IdList64_free idl w) (\<lambda>(_, w). Ret (None, w))
              else idl_dup_tables oldList is idl w))))"

definition GWEN_IdList64_dup :: "gwen_simpleptrlist \<Rightarrow> id_world \<Rightarrow> (gwen_simpleptrlist option \<times> id_world) outcome" where
  "GWEN_IdList64_dup oldList w =
     obind (GWEN_SimplePtrList_GetUserIntData oldList) (\<lambda>i.
     obind (GWEN_IdList64_newWithSteps (of_int i) w) (\<lambda>(idl, w).
     obind (GWEN_SimplePtrList_GetUsedEntries oldList) (\<lambda>tableCount.
     obind (idl_dup_tables oldList [0..<unat tableCount] idl w) (\<lambda>(idl, w).
       case idl of
         None \<Rightarrow> Ret (None, w)
       | Some idl \<Rightarrow>
           obind (GWEN_SimplePtrList_GetUserCounter oldList) (\<lambda>n.
           obind (GWEN_SimplePtrList_SetUserCounter idl n) (\<lambda>idl. Ret (Some idl, w)))))))"

section \<open>Ids\<close>

text \<open>The entry is returned as a signed number.\<close>

definition GWEN_IdList64_GetIdAt :: "gwen_simpleptrlist \<Rightarrow> u64 \<Rightarrow> id_world \<Rightarrow> int outcome" where
  "GWEN_IdList64_GetIdAt idl idx w =
     obind (GWEN_SimplePtrList_GetUserIntData idl) (\<lambda>entriesPerTable.
       if entriesPerTable \<noteq> 0
       then obind (GWEN_IdList64_GetTableAt idl (idx div of_int entriesPerTable) w) (\<lambda>t.
              if t = 0 then Ret GWEN_ERROR_BUFFER_OVERFLOW
              else obind (iw_table w t) (\<lambda>ft.
                   obind (oassert (it_refCount ft \<noteq> 0)) (\<lambda>_.
                     case it_ptrEntries ft of
                       None \<Rightarrow> Ret GWEN_ERROR_BUFFER_OVERFLOW
                     | Some es \<Rightarrow>
                         let entryPos = unat (idx mod of_int entriesPerTable)
                         in if entryPos < length es then Ret (sint (es ! entryPos)) else Fault)))
       else Ret GWEN_ERROR_BUFFER_OVERFLOW)"

text \<open>The first of the entries from \<open>i\<close> to \<open>n\<close> with a property.\<close>

function id_scan :: "(u64 \<Rightarrow> bool) \<Rightarrow> u64 list option \<Rightarrow> nat \<Rightarrow> nat \<Rightarrow> nat option outcome" where
  "id_scan P es i n =
    (if i < n
     then (case es of
             None \<Rightarrow> Fault
           | Some xs \<Rightarrow> if i < length xs then if P (xs ! i) then Ret (Some i) else id_scan P es (Suc i) n else Fault)
     else Ret None)"
  by pat_completeness auto
termination by (relation "measure (\<lambda>(P, es, i, n). n - i)") auto

declare id_scan.simps [simp del]

text \<open>Through the tables with the given numbers, in the first one from entry \<open>start\<close> on: the table, the number of the table and
  the entry.\<close>

fun id_walk :: "(u64 \<Rightarrow> bool) \<Rightarrow> gwen_simpleptrlist \<Rightarrow> id_world \<Rightarrow> nat list \<Rightarrow> nat \<Rightarrow> nat \<Rightarrow> (voidptr \<times> nat \<times> nat) option outcome" where
  "id_walk P idl w [] start n = Ret None"
| "id_walk P idl w (idx # is) start n =
     obind (GWEN_IdList64_GetTableAt idl (of_nat idx) w) (\<lambda>t.
       if t = 0 then id_walk P idl w is 0 n
       else obind (iw_table w t) (\<lambda>ft.
            obind (id_scan P (it_ptrEntries ft) start n) (\<lambda>i.
              case i of Some i \<Rightarrow> Ret (Some (t, idx, i)) | None \<Rightarrow> id_walk P idl w is 0 n)))"

text \<open>The number of tables is kept in an \<^verbatim>\<open>int\<close> and compared with an unsigned number of 32 bits.\<close>

definition idl_tables :: "gwen_simpleptrlist \<Rightarrow> nat" where
  "idl_tables idl = unat (ucast (pl_usedEntries idl) :: u32)"

definition idl_find :: "(u64 \<Rightarrow> bool) \<Rightarrow> gwen_simpleptrlist \<Rightarrow> id_world \<Rightarrow> (voidptr \<times> nat \<times> nat) option outcome" where
  "idl_find P idl w =
     obind (GWEN_IdList64_GetTableMaxEntries idl) (\<lambda>entriesPerTable.
     obind (GWEN_IdList64_GetUsedTables idl) (\<lambda>_. id_walk P idl w [0..<idl_tables idl] 0 (nat entriesPerTable)))"

definition GWEN_IdList64_HasId :: "gwen_simpleptrlist \<Rightarrow> u64 \<Rightarrow> id_world \<Rightarrow> bool outcome" where
  "GWEN_IdList64_HasId idl wantedId w = obind (idl_find (\<lambda>x. x = wantedId) idl w) (\<lambda>r. Ret (r \<noteq> None))"

definition id_put :: "id_world \<Rightarrow> voidptr \<Rightarrow> nat \<Rightarrow> u64 \<Rightarrow> id_world outcome" where
  "id_put w t i x =
     obind (iw_table w t) (\<lambda>ft.
       case it_ptrEntries ft of
         None \<Rightarrow> Fault
       | Some es \<Rightarrow> if i < length es then Ret (iw_set w t (Some (ft\<lparr>it_ptrEntries := Some (es[i := x])\<rparr>))) else Fault)"

definition GWEN_IdList64_DelId :: "gwen_simpleptrlist \<Rightarrow> u64 \<Rightarrow> id_world \<Rightarrow> (int \<times> gwen_simpleptrlist \<times> id_world) outcome" where
  "GWEN_IdList64_DelId idl wantedId w =
     obind (idl_find (\<lambda>x. x = wantedId) idl w) (\<lambda>r.
       case r of
         None \<Rightarrow> Ret (0, idl, w)
       | Some (t, idx, i) \<Rightarrow>
           obind (id_put w t i 0) (\<lambda>w.
           obind (GWEN_IdList64_DecIdCounter idl) (\<lambda>(_, idl). Ret (1, idl, w))))"

text \<open>Where a table has a free entry.\<close>

definition id_free_pos :: "gwen_idtable64 \<Rightarrow> int \<Rightarrow> int outcome" where
  "id_free_pos ft entriesPerTable =
    (if it_freeEntries ft = it_maxEntries ft then Ret 0
     else if it_highestEntry ft + 1 < of_int entriesPerTable
     then (case it_ptrEntries ft of
             None \<Rightarrow> Fault
           | Some es \<Rightarrow>
               let entryPos = unat (it_highestEntry ft + 1)
               in if entryPos < length es then if es ! entryPos \<noteq> 0 then Ret GWEN_ERROR_INTERNAL else Ret (int entryPos) else Fault)
     else obind (id_scan (\<lambda>x. x = 0) (it_ptrEntries ft) 0 (nat entriesPerTable)) (\<lambda>i.
            Ret (case i of Some i \<Rightarrow> int i | None \<Rightarrow> max 0 entriesPerTable)))"

text \<open>The entry is stored in a table of its own.\<close>

definition id_store :: "gwen_simpleptrlist \<Rightarrow> voidptr \<Rightarrow> int \<Rightarrow> int \<Rightarrow> u64 \<Rightarrow> id_world \<Rightarrow> (int \<times> gwen_simpleptrlist \<times> id_world) outcome" where
  "id_store idl t index entriesPerTable entry w =
     obind (iw_table w t) (\<lambda>ft.
     obind (id_free_pos ft entriesPerTable) (\<lambda>entryPos.
       if entryPos < 0 then Ret (GWEN_ERROR_INTERNAL, idl, w)
       else if entryPos < entriesPerTable
       then obind (id_put w t (nat entryPos) entry) (\<lambda>w.
            obind (GWEN_IdList64_IncIdCounter idl) (\<lambda>idl.
            obind (iw_table w t) (\<lambda>ft.
              let ft = GWEN_IdTable64_DecFreeEntries ft;
                  ft = GWEN_IdTable64_CheckAndSetHighestEntry ft (of_int entryPos);
                  ft = GWEN_IdTable64_AddRuntimeFlags ft GWEN_IDTABLE64_RUNTIME_FLAGS_DIRTY
              in Ret (index + entryPos, idl, iw_set w t (Some ft)))))
       else Ret (GWEN_ERROR_INTERNAL, idl, w)))"

text \<open>The last table, or a new one where there is none or it is full; a negative number is an error.\<close>

definition id_last_table :: "gwen_simpleptrlist \<Rightarrow> int \<Rightarrow> id_world \<Rightarrow> ((int \<times> voidptr) \<times> gwen_simpleptrlist \<times> id_world) outcome" where
  "id_last_table idl entriesPerTable w =
     obind (GWEN_IdList64_GetLastTablePos idl) (\<lambda>idx.
     obind (if idx \<ge> 0 then GWEN_IdList64_GetTableAt idl (of_int idx) w else Ret 0) (\<lambda>t.
     obind (if t = 0 then Ret True else obind (iw_table w t) (\<lambda>ft. obind (oassert (it_refCount ft \<noteq> 0)) (\<lambda>_. Ret (it_freeEntries ft = 0)))) (\<lambda>full.
       if full
       then obind (GWEN_IdTable64_Create (of_int entriesPerTable) w) (\<lambda>(t, w).
            obind (iw_table w t) (\<lambda>ft.
            let w = iw_set w t (Some (GWEN_IdTable64_AddRuntimeFlags ft GWEN_IDTABLE64_RUNTIME_FLAGS_ISCOPY))
            in obind (GWEN_IdList64_AddTable idl t w) (\<lambda>((idx, idl), w).
               obind (GWEN_IdTable64_free t w) (\<lambda>w. Ret ((idx, t), idl, w)))))
       else Ret ((idx, t), idl, w))))"

definition GWEN_IdList64_AddId :: "gwen_simpleptrlist \<Rightarrow> u64 \<Rightarrow> id_world \<Rightarrow> (int \<times> gwen_simpleptrlist \<times> id_world) outcome" where
  "GWEN_IdList64_AddId idl entry w =
     obind (GWEN_IdList64_GetTableMaxEntries idl) (\<lambda>entriesPerTable.
       if entry = 0 then Ret (GWEN_ERROR_INVALID, idl, w)
       else obind (on_ptrs (pl_op (GWEN_SimplePtrList_EnsureWritability idl)) w) (\<lambda>((rv, idl), w).
            if rv < 0 then Ret (rv, idl, w)
            else obind (id_last_table idl entriesPerTable w) (\<lambda>((idx, t), idl, w).
                 if idx < 0 then Ret (idx, idl, w)
                 else obind (iw_table w t) (\<lambda>ft.
                      if it_freeEntries ft = 0 then Ret (GWEN_ERROR_INTERNAL, idl, w)
                      else if it_runtimeFlags ft AND GWEN_IDTABLE64_RUNTIME_FLAGS_ISCOPY \<noteq> 0
                      then id_store idl t (idx * entriesPerTable) entriesPerTable entry w
                      else obind (GWEN_IdTable64_dup t w) (\<lambda>(t, w).
                           obind (GWEN_IdList64_SetTableAt idl (of_int idx) t w) (\<lambda>((_, idl), w).
                           obind (GWEN_IdTable64_free t w) (\<lambda>w.
                           obind (iw_table w t) (\<lambda>ft.
                             id_store idl t (idx * entriesPerTable) entriesPerTable entry
                               (iw_set w t (Some (GWEN_IdTable64_AddRuntimeFlags ft GWEN_IDTABLE64_RUNTIME_FLAGS_ISCOPY)))))))))))"

section \<open>Walking through the ids\<close>

text \<open>The position for the next call; its parts are added as \<^verbatim>\<open>int\<close>.\<close>

definition id_found :: "id_world \<Rightarrow> int \<Rightarrow> (voidptr \<times> nat \<times> nat) option \<Rightarrow> (u64 \<times> u64) outcome" where
  "id_found w entriesPerTable r =
    (case r of
       None \<Rightarrow> Ret (0, 0)
     | Some (t, idx, i) \<Rightarrow>
         obind (iw_table w t) (\<lambda>ft.
           let p = int idx * entriesPerTable + int i + 1
           in if in_int p then Ret (the (it_ptrEntries ft) ! i, of_int p) else Fault))"

definition GWEN_IdList64__GetFirstId :: "gwen_simpleptrlist \<Rightarrow> id_world \<Rightarrow> (u64 \<times> u64) outcome" where
  "GWEN_IdList64__GetFirstId idl w =
     obind (GWEN_IdList64_GetTableMaxEntries idl) (\<lambda>entriesPerTable.
     obind (idl_find (\<lambda>x. x \<noteq> 0) idl w) (\<lambda>r. id_found w entriesPerTable r))"

definition GWEN_IdList64__GetNextId :: "gwen_simpleptrlist \<Rightarrow> u64 \<Rightarrow> id_world \<Rightarrow> (u64 \<times> u64) outcome" where
  "GWEN_IdList64__GetNextId idl pos w =
    (if pos = 0 then Ret (0, 0)
     else obind (GWEN_IdList64_GetTableMaxEntries idl) (\<lambda>entriesPerTable.
          if entriesPerTable = 0 then Fault
          else let tableNum = pos div of_int entriesPerTable; tableIdx = pos mod of_int entriesPerTable
               in if tableNum > of_int (sint (ucast (pl_usedEntries idl) :: u32)) then Ret (0, 0)
                  else obind (id_walk (\<lambda>x. x \<noteq> 0) idl w [unat (ucast tableNum :: u32)..<idl_tables idl] (unat tableIdx) (nat entriesPerTable))
                         (\<lambda>r. id_found w entriesPerTable r)))"

record gwen_idlist64_iterator =
  iter_list :: gwen_simpleptrlist
  iter_nextIndex :: u64

definition GWEN_IdList64_Iterator_new :: "gwen_simpleptrlist \<Rightarrow> gwen_idlist64_iterator" where
  "GWEN_IdList64_Iterator_new idl = \<lparr>iter_list = idl, iter_nextIndex = 0\<rparr>"

definition GWEN_IdList64_Iterator_GetFirstId :: "gwen_idlist64_iterator \<Rightarrow> id_world \<Rightarrow> (u64 \<times> gwen_idlist64_iterator) outcome" where
  "GWEN_IdList64_Iterator_GetFirstId it w =
     obind (GWEN_IdList64__GetFirstId (iter_list it) w) (\<lambda>(x, pos). Ret (x, it\<lparr>iter_nextIndex := pos\<rparr>))"

definition GWEN_IdList64_Iterator_GetNextId :: "gwen_idlist64_iterator \<Rightarrow> id_world \<Rightarrow> (u64 \<times> gwen_idlist64_iterator) outcome" where
  "GWEN_IdList64_Iterator_GetNextId it w =
     obind (GWEN_IdList64__GetNextId (iter_list it) (iter_nextIndex it) w) (\<lambda>(x, pos). Ret (x, it\<lparr>iter_nextIndex := pos\<rparr>))"

section \<open>Sorting\<close>

text \<open>As many ids as are counted, the first one included; a missing one stops the program.\<close>

fun idl_collect :: "nat \<Rightarrow> bool \<Rightarrow> gwen_idlist64_iterator \<Rightarrow> id_world \<Rightarrow> u64 list outcome" where
  "idl_collect 0 first it w = Ret []"
| "idl_collect (Suc n) first it w =
     obind (if first then GWEN_IdList64_Iterator_GetFirstId it w else GWEN_IdList64_Iterator_GetNextId it w) (\<lambda>(x, it).
     obind (oassert (x \<noteq> 0)) (\<lambda>_. obind (idl_collect n False it w) (\<lambda>xs. Ret (x # xs))))"

fun idl_add_all :: "u64 list \<Rightarrow> gwen_simpleptrlist \<Rightarrow> id_world \<Rightarrow> (gwen_simpleptrlist \<times> id_world) outcome" where
  "idl_add_all [] idl w = Ret (idl, w)"
| "idl_add_all (x # xs) idl w = obind (GWEN_IdList64_AddId idl x w) (\<lambda>(_, idl, w). idl_add_all xs idl w)"

definition GWEN_IdList64__Sort :: "gwen_simpleptrlist \<Rightarrow> bool \<Rightarrow> id_world \<Rightarrow> (int \<times> gwen_simpleptrlist \<times> id_world) outcome" where
  "GWEN_IdList64__Sort idl ascending w =
     obind (GWEN_IdList64_GetEntryCount idl) (\<lambda>entryCount.
       if entryCount = 0 then Ret (0, idl, w)
       else obind (oassert (w_ok (iw_ptrs w) (8 * entryCount))) (\<lambda>_.
            obind (idl_collect (unat entryCount) True (GWEN_IdList64_Iterator_new idl) w) (\<lambda>xs.
            obind (GWEN_IdList64_Clear idl w) (\<lambda>(idl, w).
            obind (idl_add_all (if ascending then sort xs else rev (sort xs)) idl w) (\<lambda>(idl, w). Ret (0, idl, w))))))"

definition GWEN_IdList64_Sort :: "gwen_simpleptrlist \<Rightarrow> id_world \<Rightarrow> (int \<times> gwen_simpleptrlist \<times> id_world) outcome" where
  "GWEN_IdList64_Sort idl w = GWEN_IdList64__Sort idl True w"

definition GWEN_IdList64_ReverseSort :: "gwen_simpleptrlist \<Rightarrow> id_world \<Rightarrow> (int \<times> gwen_simpleptrlist \<times> id_world) outcome" where
  "GWEN_IdList64_ReverseSort idl w = GWEN_IdList64__Sort idl False w"

end
