(* ===== verification/Gwen_PtrListProps.thy ===== *)
theory Gwen_PtrListProps
  imports Gwen_PtrList "HOL-Library.Multiset"
begin

text \<open>
  Lists of pointers that share their entries behave as values: after any sequence of lazy copies, additions, replacements
  and releases each list holds what was put into it, whatever happened to the others, and no block is used after it was freed.
\<close>

lemma unat_u64_bound: "unat (a :: u64) < 18446744073709551616"
  using unsigned_less [of a, where ?'a = nat] by simp

lemma unat_plus_u64: "unat (a :: u64) + unat b < 18446744073709551616 \<Longrightarrow> unat (a + b) = unat a + unat b"
  by (simp add: unat_word_ariths)

lemma sint_uint_u64_small: "unat (a :: u64) < 1152921504606846976 \<Longrightarrow> sint a = int (unat a)"
proof -
  assume small: "unat a < 1152921504606846976"
  have nat: "uint a = int (unat a)" by simp
  from small have "int (unat a) < 1152921504606846976" by linarith
  with nat have "uint a < 2 ^ 63" by simp
  then have "signed_take_bit 63 (uint a) = uint a"
    using uint_ge_0 [of a] by (intro signed_take_bit_int_eq_self) linarith+
  with nat show "sint a = int (unat a)" by (simp add: sint_uint)
qed

lemma ptrlist_slots_small:
  assumes "unat n < 2 ^ 60"
  shows "ptrlist_slots n = unat n" "\<not> unat (ptrlist_size n) < 16"
proof -
  have "unat (n * 8) = unat n * 8" using assms by (simp add: unat_word_ariths)
  then have "unat (ptrlist_size n) = 16 + unat n * 8" using assms by (simp add: ptrlist_size_def unat_word_ariths)
  then show "ptrlist_slots n = unat n" "\<not> unat (ptrlist_size n) < 16" by (simp_all add: ptrlist_slots_def)
qed

lemma bit_or_has: "(f OR m) AND m = (m :: u32)"
  by (simp add: bit_eq_iff bit_simps)

section \<open>The lists and their blocks\<close>

definition holds :: "gwen_simpleptrlist option \<Rightarrow> nat option" where
  "holds x = (case x of None \<Rightarrow> None | Some pl \<Rightarrow> pl_entryList pl)"

definition holders :: "gwen_simpleptrlist option list \<Rightarrow> nat \<Rightarrow> nat" where
  "holders pls a = count (mset (map holds pls)) (Some a)"

abbreviation cow :: "gwen_simpleptrlist \<Rightarrow> bool" where
  "cow pl \<equiv> fl_has (pl_flags pl) GWEN_SIMPLEPTRLIST_FLAGS_COPYONWRITE"

text \<open>What holds of a list among the others, with \<open>n\<close> calls still to come: its block is live and has the size the list thinks,
  it counts its holders, and a list that shares it copies it before it writes.\<close>

definition pl_ok :: "u64 \<Rightarrow> nat \<Rightarrow> gwen_simpleptrlist option list \<Rightarrow> ptr_world \<Rightarrow> gwen_simpleptrlist \<Rightarrow> bool" where
  "pl_ok S n pls w pl \<longleftrightarrow> pl_refCount pl = 1 \<and> pl_steps pl = S \<and> unat (pl_maxEntries pl) + n * unat S < 2 ^ 60
    \<and> pl_usedEntries pl \<le> pl_maxEntries pl
    \<and> (\<exists>a b. pl_entryList pl = Some a \<and> w_blocks w a = Some b \<and> ip_storedEntries b = pl_maxEntries pl
        \<and> length (ip_entries b) = unat (pl_maxEntries pl) \<and> ip_refCounter b = int (holders pls a) \<and> (holders pls a = 1 \<or> cow pl))"

definition cow_ok :: "u64 \<Rightarrow> nat \<Rightarrow> gwen_simpleptrlist option list \<Rightarrow> ptr_world \<Rightarrow> bool" where
  "cow_ok S n pls w \<longleftrightarrow> w_ok w = (\<lambda>_. True) \<and> (\<forall>a \<ge> w_next w. w_blocks w a = None) \<and> (\<forall>pl. Some pl \<in> set pls \<longrightarrow> pl_ok S n pls w pl)"

definition pl_contents :: "ptr_world \<Rightarrow> gwen_simpleptrlist \<Rightarrow> voidptr list" where
  "pl_contents w pl = (case pl_entryList pl of None \<Rightarrow> []
     | Some a \<Rightarrow> (case w_blocks w a of None \<Rightarrow> [] | Some b \<Rightarrow> take (unat (pl_usedEntries pl)) (ip_entries b)))"

definition cow_values :: "gwen_simpleptrlist option list \<Rightarrow> ptr_world \<Rightarrow> voidptr list option list" where
  "cow_values pls w = map (map_option (pl_contents w)) pls"

lemma holders_pos:
  assumes "Some pl \<in> set pls" "pl_entryList pl = Some a"
  shows "0 < holders pls a"
proof -
  have "Some a \<in># mset (map holds pls)" using assms by (force simp: holds_def)
  then show ?thesis unfolding holders_def by (simp only: count_greater_zero_iff)
qed

lemma holders_update:
  assumes "i < length pls"
  shows "holders (pls[i := x]) a =
    holders pls a - (if holds (pls ! i) = Some a then 1 else 0) + (if holds x = Some a then 1 else 0)"
  using assms by (simp add: holders_def map_update mset_update)

lemma holders_two:
  assumes "i < length pls" "j < length pls" "i \<noteq> j" "holds (pls ! i) = Some a" "holds (pls ! j) = Some a"
  shows "2 \<le> holders pls a"
proof -
  have "holds (pls[i := None] ! j) = Some a" using assms by simp
  then obtain pl where pl: "pls[i := None] ! j = Some pl" "pl_entryList pl = Some a" by (cases "pls ! j") (use assms in \<open>auto simp: holds_def\<close>)
  then have "Some pl \<in> set (pls[i := None])" using assms(2) by (metis length_list_update nth_mem)
  from holders_pos [OF this pl(2)] show ?thesis using holders_update [OF assms(1), of None a] assms(4) by (simp add: holds_def)
qed

lemma cow_okD:
  assumes "cow_ok S n pls w" "i < length pls" "pls ! i = Some pl"
  obtains a b where "pl_refCount pl = 1" "pl_steps pl = S" "unat (pl_maxEntries pl) + n * unat S < 2 ^ 60"
    "pl_usedEntries pl \<le> pl_maxEntries pl" "pl_entryList pl = Some a" "w_blocks w a = Some b" "ip_storedEntries b = pl_maxEntries pl"
    "length (ip_entries b) = unat (pl_maxEntries pl)" "ip_refCounter b = int (holders pls a)" "holders pls a = 1 \<or> cow pl"
    "0 < holders pls a" "a < w_next w" "w_ok w = (\<lambda>_. True)" "pl_contents w pl = take (unat (pl_usedEntries pl)) (ip_entries b)"
proof -
  have m: "Some pl \<in> set pls" using assms(2,3) by (metis nth_mem)
  then have "pl_ok S n pls w pl" using assms(1) by (simp add: cow_ok_def)
  then obtain a b where ab: "pl_entryList pl = Some a" "w_blocks w a = Some b" "ip_storedEntries b = pl_maxEntries pl"
    "length (ip_entries b) = unat (pl_maxEntries pl)" "ip_refCounter b = int (holders pls a)" "holders pls a = 1 \<or> cow pl"
    and r: "pl_refCount pl = 1" "pl_steps pl = S" "unat (pl_maxEntries pl) + n * unat S < 2 ^ 60" "pl_usedEntries pl \<le> pl_maxEntries pl"
    by (auto simp: pl_ok_def)
  have "a < w_next w" using assms(1) ab(2) by (metis cow_ok_def linorder_not_le option.distinct(1))
  moreover have "w_ok w = (\<lambda>_. True)" using assms(1) by (simp add: cow_ok_def)
  ultimately show thesis using that [OF r ab] holders_pos [OF m ab(1)] ab by (simp add: pl_contents_def)
qed

lemma cow_okD_own: "cow_ok S n pls w \<Longrightarrow> i < length pls \<Longrightarrow> pls ! i = Some pl \<Longrightarrow> pl_ok S n pls w pl"
  unfolding cow_ok_def by (metis nth_mem)

text \<open>The calls made to objects do not matter.\<close>

lemma cow_ok_calls: "w_blocks w' = w_blocks w \<Longrightarrow> w_next w' = w_next w \<Longrightarrow> w_ok w' = w_ok w \<Longrightarrow> cow_ok S n pls w' = cow_ok S n pls w"
  by (simp add: cow_ok_def pl_ok_def)

lemma pl_contents_calls: "w_blocks w' = w_blocks w \<Longrightarrow> pl_contents w' = pl_contents w"
  by (rule ext) (simp add: pl_contents_def split: option.split)

lemma object_calls [simp]:
  "w_blocks (attachToObject pl p w) = w_blocks w" "w_next (attachToObject pl p w) = w_next w" "w_ok (attachToObject pl p w) = w_ok w"
  "w_blocks (detachFromObject pl p w) = w_blocks w" "w_next (detachFromObject pl p w) = w_next w" "w_ok (detachFromObject pl p w) = w_ok w"
  by (simp_all add: attachToObject_def detachFromObject_def w_call_def split: option.split)

lemma object_calls_fold [simp]:
  "w_blocks (fold (attachToObject pl) ps w) = w_blocks w" "w_next (fold (attachToObject pl) ps w) = w_next w" "w_ok (fold (attachToObject pl) ps w) = w_ok w"
  "w_blocks (fold (detachFromObject pl) ps w) = w_blocks w" "w_next (fold (detachFromObject pl) ps w) = w_next w" "w_ok (fold (detachFromObject pl) ps w) = w_ok w"
  by (induction ps arbitrary: w) simp_all

lemma all_objects_ok:
  assumes "w_block w (pl_entryList pl) = Ret b" "unat (pl_usedEntries pl) \<le> length (ip_entries b)"
  shows "\<exists>w'. attachToAllObjects pl w = Ret w' \<and> w_blocks w' = w_blocks w \<and> w_next w' = w_next w \<and> w_ok w' = w_ok w"
    "\<exists>w'. detachFromAllObjects pl w = Ret w' \<and> w_blocks w' = w_blocks w \<and> w_next w' = w_next w \<and> w_ok w' = w_ok w"
  using assms by (auto simp: attachToAllObjects_def detachFromAllObjects_def pl_used_def)

section \<open>What a list may do to the store\<close>

text \<open>The lists other than \<open>i\<close> see their blocks unchanged, but for the counter.\<close>

lemma others_ok:
  assumes "cow_ok S n pls w" "i < length pls" "w_ok w' = (\<lambda>_. True)" "\<forall>a \<ge> w_next w'. w_blocks w' a = None"
    "\<And>a b. a < w_next w \<Longrightarrow> w_blocks w a = Some b \<Longrightarrow> ip_refCounter b = int (holders pls a) \<Longrightarrow> holders (pls[i := None]) a \<noteq> 0 \<Longrightarrow>
       \<exists>b'. w_blocks w' a = Some b' \<and> ip_entries b' = ip_entries b \<and> ip_storedEntries b' = ip_storedEntries b
         \<and> ip_refCounter b' = int (holders (pls[i := x]) a)"
    "\<And>a. a < w_next w \<Longrightarrow> holders (pls[i := x]) a \<le> holders pls a"
    "m \<le> n" "\<And>pl. x = Some pl \<Longrightarrow> pl_ok S m (pls[i := x]) w' pl"
  shows "cow_ok S m (pls[i := x]) w'" "\<And>j. j < length pls \<Longrightarrow> j \<noteq> i \<Longrightarrow> cow_values (pls[i := x]) w' ! j = cow_values pls w ! j"
proof -
  have key: "pl_ok S m (pls[i := x]) w' pl \<and> pl_contents w' pl = pl_contents w pl"
    if j: "j < length pls" "j \<noteq> i" "pls ! j = Some pl" for j pl
  proof -
    obtain a b where o: "pl_refCount pl = 1" "pl_steps pl = S" "unat (pl_maxEntries pl) + n * unat S < 2 ^ 60"
      "pl_usedEntries pl \<le> pl_maxEntries pl" "pl_entryList pl = Some a" "w_blocks w a = Some b" "ip_storedEntries b = pl_maxEntries pl"
      "length (ip_entries b) = unat (pl_maxEntries pl)" "holders pls a = 1 \<or> cow pl" "a < w_next w"
      "pl_contents w pl = take (unat (pl_usedEntries pl)) (ip_entries b)" "ip_refCounter b = int (holders pls a)"
      using cow_okD [OF assms(1) j(1,3)] by metis
    have "pls[i := None] ! j = Some pl" using j by simp
    then have "0 < holders (pls[i := None]) a" using holders_pos o(5) j(1) by (metis length_list_update nth_mem)
    then obtain b' where b': "w_blocks w' a = Some b'" "ip_entries b' = ip_entries b" "ip_storedEntries b' = ip_storedEntries b"
      "ip_refCounter b' = int (holders (pls[i := x]) a)" using assms(5) [OF o(10,6,12)] by auto
    have "pls[i := x] ! j = Some pl" using j by simp
    then have "0 < holders (pls[i := x]) a" using holders_pos o(5) j(1) by (metis length_list_update nth_mem)
    then have "holders (pls[i := x]) a = 1 \<or> cow pl" using o(9) assms(6) [OF o(10)] by linarith
    moreover have "unat (pl_maxEntries pl) + m * unat S < 2 ^ 60"
      using o(3) mult_le_mono1 [OF assms(7), of "unat S"] by linarith
    ultimately show ?thesis using o b' by (simp add: pl_ok_def pl_contents_def)
  qed
  have "pl_ok S m (pls[i := x]) w' pl" if "Some pl \<in> set (pls[i := x])" for pl
  proof -
    obtain j where "j < length pls" "pls[i := x] ! j = Some pl" using \<open>Some pl \<in> _\<close> by (metis in_set_conv_nth length_list_update)
    then show ?thesis using key assms(2,8) by (cases "j = i") auto
  qed
  then show "cow_ok S m (pls[i := x]) w'" using assms(3,4) by (simp add: cow_ok_def)
  show "cow_values (pls[i := x]) w' ! j = cow_values pls w ! j" if "j < length pls" "j \<noteq> i" for j
    using key that by (cases "pls ! j") (auto simp: cow_values_def)
qed

lemma cow_values_update:
  assumes "i < length pls" "\<And>j. j < length pls \<Longrightarrow> j \<noteq> i \<Longrightarrow> cow_values (pls[i := x]) w' ! j = cow_values pls w ! j"
  shows "cow_values (pls[i := x]) w' = (cow_values pls w)[i := map_option (pl_contents w') x]"
  using assms by (intro nth_equalityI) (auto simp: cow_values_def nth_list_update)

text \<open>Writing into a block of its own.\<close>

lemma own_write:
  assumes "cow_ok S n pls w" "i < length pls" "pls ! i = Some pl" "pl_entryList pl = Some a" "holders pls a = 1"
    "w_blocks w a = Some b" "length es = length (ip_entries b)" "pl' = pl\<lparr>pl_usedEntries := u\<rparr>" "u \<le> pl_maxEntries pl"
    "w_blocks w' = (w_blocks w)(a := Some (b\<lparr>ip_entries := es\<rparr>))" "w_next w' = w_next w" "w_ok w' = w_ok w"
  shows "cow_ok S n (pls[i := Some pl']) w'" "cow_values (pls[i := Some pl']) w' = (cow_values pls w)[i := Some (take (unat u) es)]"
proof -
  have h: "holders (pls[i := Some pl']) x = holders pls x" for x
    using holders_update [OF assms(2), of "Some pl'" x] assms(2,3,4,5,8) by (auto simp: holds_def)
  have z: "holders (pls[i := None]) a = 0" using holders_update [OF assms(2), of None a] assms(3,4,5) by (simp add: holds_def)
  have o: "w_ok w = (\<lambda>_. True)" "\<forall>a \<ge> w_next w. w_blocks w a = None" using assms(1) by (simp_all add: cow_ok_def)
  have lt: "a < w_next w" using o(2) assms(6) by (metis linorder_not_le option.distinct(1))
  have ok: "pl_ok S n (pls[i := Some pl']) w' pl'"
    using cow_okD_own [OF assms(1-3)] assms(4,6,7,9,10) h unfolding pl_ok_def by (simp add: assms(8))
  have fr: "\<exists>b'. w_blocks w' x = Some b' \<and> ip_entries b' = ip_entries c \<and> ip_storedEntries b' = ip_storedEntries c
      \<and> ip_refCounter b' = int (holders (pls[i := Some pl']) x)"
    if x: "x < w_next w" "w_blocks w x = Some c" "ip_refCounter c = int (holders pls x)" "holders (pls[i := None]) x \<noteq> 0" for x c
    using x z h by (cases "x = a") (auto simp: assms(10))
  have nx: "\<forall>x \<ge> w_next w'. w_blocks w' x = None" using o(2) lt by (simp add: assms(10,11))
  have w: "w_ok w' = (\<lambda>_. True)" by (simp add: assms(12) o(1))
  have hl: "\<And>a. a < w_next w \<Longrightarrow> holders (pls[i := Some pl']) a \<le> holders pls a" by (simp add: h)
  have okx: "\<And>q. Some pl' = Some q \<Longrightarrow> pl_ok S n (pls[i := Some pl']) w' q" using ok by simp
  note r = others_ok [where x = "Some pl'", OF assms(1,2) w nx fr hl order_refl okx]
  show "cow_ok S n (pls[i := Some pl']) w'" by (rule r(1))
  have v: "cow_values (pls[i := Some pl']) w' = (cow_values pls w)[i := map_option (pl_contents w') (Some pl')]"
    by (rule cow_values_update [OF assms(2) r(2)])
  have "pl_contents w' pl' = take (unat u) es" by (simp add: pl_contents_def assms(4,8,10))
  then show "cow_values (pls[i := Some pl']) w' = (cow_values pls w)[i := Some (take (unat u) es)]" unfolding v by simp
qed

text \<open>Leaving the old block, which goes with its last holder, perhaps for a new one of its own.\<close>

definition dropped :: "internal_ptrlist \<Rightarrow> nat \<Rightarrow> internal_ptrlist option" where
  "dropped b h = (if h = 1 then None else Some (b\<lparr>ip_refCounter := ip_refCounter b - 1\<rparr>))"

lemma leave_block:
  assumes "cow_ok S n pls w" "i < length pls" "pls ! i = Some pl" "pl_entryList pl = Some a" "w_blocks w a = Some b"
    "w_ok w' = (\<lambda>_. True)" "\<forall>x \<ge> w_next w'. w_blocks w' x = None" "\<And>x. x < w_next w \<Longrightarrow> w_blocks w' x = ((w_blocks w)(a := dropped b (holders pls a))) x"
    "\<And>x. x < w_next w \<Longrightarrow> holds y \<noteq> Some x" "m \<le> n" "\<And>pl'. y = Some pl' \<Longrightarrow> pl_ok S m (pls[i := y]) w' pl'"
  shows "cow_ok S m (pls[i := y]) w'" "cow_values (pls[i := y]) w' = (cow_values pls w)[i := map_option (pl_contents w') y]"
proof -
  have h: "holders (pls[i := y]) x = holders pls x - (if x = a then 1 else 0)" if "x < w_next w" for x
    using holders_update [OF assms(2), of y x] assms(3,4) assms(9) [OF that] by (simp add: holds_def)
  have hN: "holders (pls[i := None]) x = holders pls x - (if x = a then 1 else 0)" for x
    using holders_update [OF assms(2), of None x] assms(3,4) by (simp add: holds_def)
  have fr: "\<exists>b'. w_blocks w' x = Some b' \<and> ip_entries b' = ip_entries c \<and> ip_storedEntries b' = ip_storedEntries c
      \<and> ip_refCounter b' = int (holders (pls[i := y]) x)"
    if x: "x < w_next w" "w_blocks w x = Some c" "ip_refCounter c = int (holders pls x)" "holders (pls[i := None]) x \<noteq> 0" for x c
    using x h [OF x(1)] hN [of x] assms(5,8) by (cases "x = a") (auto simp: dropped_def)
  have hl: "\<And>x. x < w_next w \<Longrightarrow> holders (pls[i := y]) x \<le> holders pls x" by (simp add: h)
  note r = others_ok [where x = y, OF assms(1,2,6,7) fr hl assms(10,11)]
  show "cow_ok S m (pls[i := y]) w'" by (rule r(1))
  show "cow_values (pls[i := y]) w' = (cow_values pls w)[i := map_option (pl_contents w') y]"
    by (rule cow_values_update [OF assms(2) r(2)])
qed

lemma new_block:
  assumes "cow_ok S n pls w" "i < length pls" "pls ! i = Some pl" "pl_entryList pl = Some a" "w_blocks w a = Some b"
    "w_ok w' = (\<lambda>_. True)" "w_next w' = Suc (w_next w)"
    "w_blocks w' = (w_blocks w)(a := dropped b (holders pls a), w_next w := Some \<lparr>ip_refCounter = 1, ip_storedEntries = k, ip_entries = es\<rparr>)"
    "pl' = pl\<lparr>pl_entryList := Some (w_next w), pl_maxEntries := k, pl_flags := f\<rparr>" "length es = unat k" "pl_usedEntries pl \<le> k"
    "unat k + m * unat S < 2 ^ 60" "m \<le> n" "take (unat (pl_usedEntries pl)) es = pl_contents w pl"
  shows "cow_ok S m (pls[i := Some pl']) w' \<and> cow_values (pls[i := Some pl']) w' = cow_values pls w \<and> holders (pls[i := Some pl']) (w_next w) = 1"
proof -
  have c: "\<forall>x \<ge> w_next w. w_blocks w x = None" using assms(1) by (simp add: cow_ok_def)
  have lt: "a < w_next w" using c assms(5) by (metis linorder_not_le option.distinct(1))
  have "Some (w_next w) \<notin> set (map holds pls)"
  proof
    assume "Some (w_next w) \<in> set (map holds pls)"
    then obtain pl2 where "Some pl2 \<in> set pls" "pl_entryList pl2 = Some (w_next w)" by (auto simp: holds_def split: option.splits)
    then show False using assms(1) c by (auto simp: cow_ok_def pl_ok_def)
  qed
  then have z: "holders pls (w_next w) = 0" by (metis holders_def count_mset_0_iff)
  have h: "holders (pls[i := Some pl']) (w_next w) = 1"
    using holders_update [OF assms(2), of "Some pl'" "w_next w"] z by (simp add: holds_def assms(9))
  have own: "pl_refCount pl = 1" "pl_steps pl = S" using cow_okD_own [OF assms(1-3)] by (simp_all add: pl_ok_def)
  have ok: "pl_ok S m (pls[i := Some pl']) w' pl'"
    using own assms(10-12) h unfolding pl_ok_def assms(8) by (simp add: assms(9))
  have b: "w_blocks w' x = ((w_blocks w)(a := dropped b (holders pls a))) x" if "x < w_next w" for x using that by (simp add: assms(8))
  have nx: "\<forall>x \<ge> w_next w'. w_blocks w' x = None" using c lt by (simp add: assms(7,8))
  have y: "holds (Some pl') \<noteq> Some x" if "x < w_next w" for x using that by (simp add: holds_def assms(9))
  have okx: "\<And>q. Some pl' = Some q \<Longrightarrow> pl_ok S m (pls[i := Some pl']) w' q" using ok by simp
  note r = leave_block [OF assms(1-6) nx b y assms(13) okx]
  have "pl_contents w' pl' = pl_contents w pl" using assms(14) by (simp add: pl_contents_def [of w'] assms(8,9))
  moreover have "cow_values pls w ! i = Some (pl_contents w pl)" using assms(2,3) by (simp add: cow_values_def)
  ultimately have "(cow_values pls w)[i := map_option (pl_contents w') (Some pl')] = cow_values pls w" by (metis list_update_id option.simps(9))
  then show ?thesis using r h by simp
qed

lemma cow_ok_less: "cow_ok S n pls w \<Longrightarrow> m \<le> n \<Longrightarrow> cow_ok S m pls w"
  unfolding cow_ok_def pl_ok_def by (meson add_le_mono le_refl mult_le_mono1 order_le_less_trans)

lemma growth:
  assumes "unat (x :: u64) + Suc n * unat S < 2 ^ 60"
  shows "unat (x + S) = unat x + unat S" "unat (x + S) + n * unat S < 2 ^ 60" "unat (x + S) < 2 ^ 60" "\<not> x + S < x"
    "S \<noteq> 0 \<Longrightarrow> x < x + S"
proof -
  show u: "unat (x + S) = unat x + unat S" using assms by (intro unat_plus_u64) simp
  then show "unat (x + S) + n * unat S < 2 ^ 60" "unat (x + S) < 2 ^ 60" using assms by simp_all
  show "\<not> x + S < x" using u by (simp add: word_less_nat_alt)
  show "S \<noteq> 0 \<Longrightarrow> x < x + S" using u by (simp add: word_less_nat_alt unat_gt_0)
qed

section \<open>The operations\<close>

lemma ensure_ok:
  assumes "cow_ok S (Suc n) pls w" "i < length pls" "pls ! i = Some pl"
  shows "\<exists>pl' w' a'. GWEN_SimplePtrList_EnsureWritability pl w = Ret (0, pl', w') \<and> cow_ok S n (pls[i := Some pl']) w'
    \<and> cow_values (pls[i := Some pl']) w' = cow_values pls w \<and> pl_entryList pl' = Some a' \<and> holders (pls[i := Some pl']) a' = 1
    \<and> pl_usedEntries pl' = pl_usedEntries pl"
proof -
  obtain a b where o: "pl_refCount pl = 1" "pl_steps pl = S" "unat (pl_maxEntries pl) + Suc n * unat S < 2 ^ 60"
    "pl_usedEntries pl \<le> pl_maxEntries pl" "pl_entryList pl = Some a" "w_blocks w a = Some b" "ip_storedEntries b = pl_maxEntries pl"
    "length (ip_entries b) = unat (pl_maxEntries pl)" "ip_refCounter b = int (holders pls a)" "holders pls a = 1 \<or> cow pl"
    "0 < holders pls a" "a < w_next w" "w_ok w = (\<lambda>_. True)" "pl_contents w pl = take (unat (pl_usedEntries pl)) (ip_entries b)"
    by (rule cow_okD [OF assms])
  show ?thesis
  proof (cases "cow pl")
    case False
    then have "GWEN_SimplePtrList_EnsureWritability pl w = Ret (0, pl, w)" by (simp add: GWEN_SimplePtrList_EnsureWritability_def o(1))
    moreover have "pls[i := Some pl] = pls" using assms(3) by (metis list_update_id)
    ultimately show ?thesis using False o(5,10) cow_ok_less [OF assms(1), of n] by simp
  next
    case True
    let ?k = "pl_maxEntries pl + S" and ?N = "w_next w"
    let ?es = "ip_entries b @ replicate (unat S) 0"
    let ?c = "\<lparr>ip_refCounter = 1, ip_storedEntries = ?k, ip_entries = ?es\<rparr>"
    note g = growth [OF o(3)]
    note sl = ptrlist_slots_small [OF g(3)]
    define w1 where "w1 = (w_set w ?N (Some ?c))\<lparr>w_next := Suc ?N\<rparr>"
    have c: "copyPtrList (Some a) ?k w = Ret (Some ?N, w1)"
      using g(1,4) sl o(11) by (simp add: copyPtrList_def w_block_def o(6,7,8,9,13) grown_entries_def w1_def Let_def)
    define w2 where "w2 = w_set w1 a (dropped b (holders pls a))"
    have f: "freePtrList (Some a) w1 = Ret w2"
      using o(11,12) by (simp add: freePtrList_def w_block_def w1_def w_set_def o(6,9) w2_def dropped_def)
    define p2 where "p2 = pl\<lparr>pl_entryList := Some ?N, pl_maxEntries := ?k\<rparr>"
    have "w_block w2 (pl_entryList p2) = Ret ?c" using o(12) by (simp add: p2_def w2_def w1_def w_set_def w_block_def)
    from all_objects_ok(1) [OF this] o(4) obtain w3 where
      w3: "(if fl_has (pl_flags p2) GWEN_SIMPLEPTRLIST_FLAGS_ATTACHTOOBJECTS then attachToAllObjects p2 w2 else Ret w2) = Ret w3"
      "w_blocks w3 = w_blocks w2" "w_next w3 = w_next w2" "w_ok w3 = w_ok w2"
      by (cases "fl_has (pl_flags p2) GWEN_SIMPLEPTRLIST_FLAGS_ATTACHTOOBJECTS") (auto simp: p2_def o(8) word_le_nat_alt)
    define p3 where "p3 = p2\<lparr>pl_flags := pl_flags p2 AND NOT GWEN_SIMPLEPTRLIST_FLAGS_COPYONWRITE\<rparr>"
    have e: "GWEN_SimplePtrList_EnsureWritability pl w = Ret (0, p3, w3)"
      using True w3(1) by (simp add: GWEN_SimplePtrList_EnsureWritability_def o(1,2,5) c f Let_def flip: p2_def) (simp add: p3_def)
    have bl: "w_blocks w3 = (w_blocks w)(a := dropped b (holders pls a), ?N := Some ?c)"
      using o(12) by (simp add: w3(2) w2_def w1_def w_set_def fun_upd_twist)
    have k: "w_ok w3 = (\<lambda>_. True)" "w_next w3 = Suc ?N" by (simp_all add: w3(3,4) w2_def w1_def w_set_def o(13))
    have p3: "p3 = pl\<lparr>pl_entryList := Some ?N, pl_maxEntries := ?k, pl_flags := pl_flags pl AND NOT GWEN_SIMPLEPTRLIST_FLAGS_COPYONWRITE\<rparr>"
      by (simp add: p3_def p2_def)
    have u: "pl_usedEntries pl \<le> ?k" "unat (pl_usedEntries pl) \<le> length (ip_entries b)" using o(4) g(1) by (simp_all add: word_le_nat_alt o(8))
    have "cow_ok S n (pls[i := Some p3]) w3 \<and> cow_values (pls[i := Some p3]) w3 = cow_values pls w \<and> holders (pls[i := Some p3]) ?N = 1"
      by (rule new_block [OF assms o(5,6) k bl p3 _ u(1) g(2)]) (use g(1) u(2) o(14) in \<open>simp_all add: o(8)\<close>)
    then show ?thesis using e by (intro exI [of _ p3] exI [of _ w3] exI [of _ ?N]) (simp add: p3_def p2_def)
  qed
qed

lemma grow_ok:
  assumes "cow_ok S (Suc n) pls w" "i < length pls" "pls ! i = Some pl" "pl_entryList pl = Some a" "holders pls a = 1" "S \<noteq> 0"
  shows "\<exists>pl' w' a'. ptrlist_grow pl w = Ret (0, pl', w') \<and> cow_ok S n (pls[i := Some pl']) w'
    \<and> cow_values (pls[i := Some pl']) w' = cow_values pls w \<and> pl_entryList pl' = Some a' \<and> holders (pls[i := Some pl']) a' = 1
    \<and> pl_usedEntries pl' = pl_usedEntries pl \<and> pl_usedEntries pl' < pl_maxEntries pl'"
proof (cases "pl_usedEntries pl < pl_maxEntries pl")
  case True
  then have "ptrlist_grow pl w = Ret (0, pl, w)" by (simp add: ptrlist_grow_def word_less_nat_alt word_le_nat_alt)
  moreover have "pls[i := Some pl] = pls" using assms(3) by (metis list_update_id)
  ultimately show ?thesis using True assms(4,5) cow_ok_less [OF assms(1), of n] by simp
next
  case False
  obtain a' b where o': "pl_steps pl = S" "unat (pl_maxEntries pl) + Suc n * unat S < 2 ^ 60"
    "pl_usedEntries pl \<le> pl_maxEntries pl" "pl_entryList pl = Some a'" "w_blocks w a' = Some b" "ip_storedEntries b = pl_maxEntries pl"
    "length (ip_entries b) = unat (pl_maxEntries pl)" "ip_refCounter b = int (holders pls a')" "a' < w_next w" "w_ok w = (\<lambda>_. True)"
    "pl_contents w pl = take (unat (pl_usedEntries pl)) (ip_entries b)"
    by (rule cow_okD [OF assms(1-3)])
  have [simp]: "a' = a" using o'(4) assms(4) by simp
  note o = o' [simplified]
  let ?k = "pl_maxEntries pl + S" and ?N = "w_next w"
  let ?es = "ip_entries b @ replicate (unat S) 0"
  note g = growth [OF o'(2)]
  note sl = ptrlist_slots_small [OF g(3)]
  define w1 where "w1 = (w_set (w_set w a None) ?N (Some (b\<lparr>ip_storedEntries := ?k, ip_entries := ?es\<rparr>)))\<lparr>w_next := Suc ?N\<rparr>"
  have r: "reallocPtrList (Some a) ?k w = Ret (Some ?N, w1)"
    using g(1,4) sl assms(5) by (simp add: reallocPtrList_def w_block_def o grown_entries_def w1_def Let_def)
  define p1 where "p1 = pl\<lparr>pl_entryList := Some ?N, pl_maxEntries := ?k\<rparr>"
  have e: "ptrlist_grow pl w = Ret (0, p1, w1)"
    using False g(5) [OF assms(6)] by (simp add: ptrlist_grow_def Let_def o(1) assms(4) r p1_def)
  have "b\<lparr>ip_storedEntries := ?k, ip_entries := ?es\<rparr> = \<lparr>ip_refCounter = 1, ip_storedEntries = ?k, ip_entries = ?es\<rparr>"
    using o(8) assms(5) by simp
  then have bl: "w_blocks w1 = (w_blocks w)(a := dropped b (holders pls a), ?N := Some \<lparr>ip_refCounter = 1, ip_storedEntries = ?k, ip_entries = ?es\<rparr>)"
    by (simp add: w1_def w_set_def dropped_def assms(5))
  have k: "w_ok w1 = (\<lambda>_. True)" "w_next w1 = Suc ?N" by (simp_all add: w1_def w_set_def o(10))
  have p1: "p1 = pl\<lparr>pl_entryList := Some ?N, pl_maxEntries := ?k, pl_flags := pl_flags pl\<rparr>" by (simp add: p1_def)
  have u: "pl_usedEntries pl \<le> ?k" "unat (pl_usedEntries pl) \<le> length (ip_entries b)" using o(3) g(1) by (simp_all add: word_le_nat_alt o(7))
  have "cow_ok S n (pls[i := Some p1]) w1 \<and> cow_values (pls[i := Some p1]) w1 = cow_values pls w \<and> holders (pls[i := Some p1]) ?N = 1"
    by (rule new_block [OF assms(1-4) o(5) k bl p1 _ u(1) g(2)]) (use g(1) u(2) o(11) in \<open>simp_all add: o(7)\<close>)
  moreover have "pl_usedEntries pl < ?k" using o(3) g(5) [OF assms(6)] by simp
  ultimately show ?thesis using e by (intro exI [of _ p1] exI [of _ w1] exI [of _ ?N]) (simp add: p1_def)
qed

text \<open>A write to a list that has its block for itself.\<close>

lemma put_ok:
  assumes "cow_ok S n pls w" "i < length pls" "pls ! i = Some pl" "pl_entryList pl = Some a" "holders pls a = 1"
    "k < unat (pl_maxEntries pl)" "u \<le> pl_maxEntries pl"
  shows "\<exists>w' b. w_blocks w a = Some b \<and> k < length (ip_entries b) \<and> ptr_put w (Some a) k p = Ret w'
    \<and> w_next w' = w_next w \<and> w_ok w' = w_ok w \<and> pl_contents w pl = take (unat (pl_usedEntries pl)) (ip_entries b)
    \<and> cow_ok S n (pls[i := Some (pl\<lparr>pl_usedEntries := u\<rparr>)]) w'
    \<and> cow_values (pls[i := Some (pl\<lparr>pl_usedEntries := u\<rparr>)]) w' = (cow_values pls w)[i := Some (take (unat u) ((ip_entries b)[k := p]))]"
proof -
  obtain b where b: "w_blocks w a = Some b" "length (ip_entries b) = unat (pl_maxEntries pl)"
    using cow_okD_own [OF assms(1-3)] assms(4) by (auto simp: pl_ok_def)
  define w' where "w' = w_set w a (Some (b\<lparr>ip_entries := (ip_entries b)[k := p]\<rparr>))"
  have "ptr_put w (Some a) k p = Ret w'" using assms(6) by (simp add: ptr_put_def w_block_def b w'_def)
  moreover note own_write [OF assms(1-5) b(1) _ refl assms(7), of "(ip_entries b)[k := p]" w']
  ultimately show ?thesis using b assms(4,6) by (simp add: w'_def w_set_def pl_contents_def)
qed

lemma add_ok:
  assumes "cow_ok S (Suc (Suc n)) pls w" "i < length pls" "pls ! i = Some pl" "S \<noteq> 0"
  shows "\<exists>pl' w'. GWEN_SimplePtrList_AddPtr pl p w = Ret (int (length (pl_contents w pl)), pl', w') \<and> cow_ok S n (pls[i := Some pl']) w'
    \<and> cow_values (pls[i := Some pl']) w' = (cow_values pls w)[i := Some (pl_contents w pl @ [p])]"
proof -
  from ensure_ok [OF assms(1-3)] obtain p1 w1 a1 where
    e: "GWEN_SimplePtrList_EnsureWritability pl w = Ret (0, p1, w1)" "cow_ok S (Suc n) (pls[i := Some p1]) w1"
      "cow_values (pls[i := Some p1]) w1 = cow_values pls w" "pl_entryList p1 = Some a1" "holders (pls[i := Some p1]) a1 = 1" by blast
  have i1: "i < length (pls[i := Some p1])" "pls[i := Some p1] ! i = Some p1" using assms(2) by simp_all
  from grow_ok [OF e(2) i1 e(4,5) assms(4)] obtain p2 w2 a2 where
    g: "ptrlist_grow p1 w1 = Ret (0, p2, w2)" "cow_ok S n (pls[i := Some p2]) w2" "cow_values (pls[i := Some p2]) w2 = cow_values pls w"
      "pl_entryList p2 = Some a2" "holders (pls[i := Some p2]) a2 = 1" "pl_usedEntries p2 < pl_maxEntries p2" unfolding e(3) by auto
  have i2: "i < length (pls[i := Some p2])" "pls[i := Some p2] ! i = Some p2" using assms(2) by simp_all
  let ?u = "pl_usedEntries p2"
  have ub: "unat ?u < unat (pl_maxEntries p2)" using g(6) by (simp add: word_less_nat_alt)
  then have u1: "unat (?u + 1) = Suc (unat ?u)" using unat_u64_bound [of "pl_maxEntries p2"] by (subst unat_plus_u64) simp_all
  then have le: "?u + 1 \<le> pl_maxEntries p2" using ub by (simp add: word_le_nat_alt)
  from put_ok [OF g(2) i2 g(4,5) ub le, of p] obtain w3 b where
    w3: "w_blocks w2 a2 = Some b" "unat ?u < length (ip_entries b)" "ptr_put w2 (Some a2) (unat ?u) p = Ret w3" "w_next w3 = w_next w2"
      "w_ok w3 = w_ok w2" "pl_contents w2 p2 = take (unat ?u) (ip_entries b)" "cow_ok S n (pls[i := Some (p2\<lparr>pl_usedEntries := ?u + 1\<rparr>)]) w3"
      "cow_values (pls[i := Some (p2\<lparr>pl_usedEntries := ?u + 1\<rparr>)]) w3
        = (cow_values pls w)[i := Some (take (unat (?u + 1)) ((ip_entries b)[unat ?u := p]))]" unfolding g(3) by auto
  have c: "pl_contents w pl = take (unat ?u) (ip_entries b)"
  proof -
    have "cow_values (pls[i := Some p2]) w2 ! i = Some (pl_contents w2 p2)" using assms(2) by (simp add: cow_values_def)
    moreover have "cow_values pls w ! i = Some (pl_contents w pl)" using assms(2,3) by (simp add: cow_values_def)
    ultimately show ?thesis using g(3) w3(6) by simp
  qed
  have t: "take (unat (?u + 1)) ((ip_entries b)[unat ?u := p]) = pl_contents w pl @ [p]"
    using w3(2) by (simp add: c u1 take_Suc_conv_app_nth)
  define w4 where "w4 = (if p \<noteq> 0 \<and> fl_has (pl_flags p2) GWEN_SIMPLEPTRLIST_FLAGS_ATTACHTOOBJECTS then attachToObject p2 p w3 else w3)"
  have w4: "w_blocks w4 = w_blocks w3" "w_next w4 = w_next w3" "w_ok w4 = w_ok w3" by (simp_all add: w4_def)
  have "unat (pl_maxEntries p2) < 2 ^ 60" using cow_okD_own [OF g(2) i2] by (simp add: pl_ok_def)
  then have "sint ?u = int (length (pl_contents w pl))" using ub w3(2) by (simp add: c sint_uint_u64_small)
  moreover have "pl_refCount pl \<noteq> 0" using cow_okD_own [OF assms(1-3)] by (simp add: pl_ok_def)
  ultimately have "GWEN_SimplePtrList_AddPtr pl p w = Ret (int (length (pl_contents w pl)), p2\<lparr>pl_usedEntries := ?u + 1\<rparr>, w4)"
    using e(1) g(1,4) w3(3) by (simp add: GWEN_SimplePtrList_AddPtr_def Let_def w4_def)
  moreover have "cow_ok S n (pls[i := Some (p2\<lparr>pl_usedEntries := ?u + 1\<rparr>)]) w4" using w3(7) cow_ok_calls [OF w4] by simp
  moreover have "cow_values (pls[i := Some (p2\<lparr>pl_usedEntries := ?u + 1\<rparr>)]) w4 = (cow_values pls w)[i := Some (pl_contents w pl @ [p])]"
    using w3(8) t by (simp add: cow_values_def pl_contents_calls [OF w4(1)])
  ultimately show ?thesis by blast
qed

lemma set_ok:
  assumes "cow_ok S (Suc (Suc n)) pls w" "i < length pls" "pls ! i = Some pl"
  shows "\<exists>rv pl' w'. GWEN_SimplePtrList_SetPtrAt pl k p w = Ret (rv, pl', w') \<and> cow_ok S n (pls[i := Some pl']) w'
    \<and> (rv = 0 \<longleftrightarrow> unat k < length (pl_contents w pl))
    \<and> cow_values (pls[i := Some pl']) w' = (cow_values pls w)[i := Some ((pl_contents w pl)[unat k := p])]"
proof -
  have own: "pl_refCount pl \<noteq> 0" "length (pl_contents w pl) = unat (pl_usedEntries pl)"
    using cow_okD_own [OF assms] by (auto simp: pl_ok_def pl_contents_def word_le_nat_alt)
  have v: "cow_values pls w ! i = Some (pl_contents w pl)" using assms(2,3) by (simp add: cow_values_def)
  show ?thesis
  proof (cases "k < pl_usedEntries pl")
    case False
    then have "length (pl_contents w pl) \<le> unat k" using own(2) by (simp add: word_less_nat_alt)
    then have "(cow_values pls w)[i := Some ((pl_contents w pl)[unat k := p])] = cow_values pls w"
      using v by (simp add: list_update_beyond) (metis list_update_id)
    moreover have "pls[i := Some pl] = pls" using assms(3) by (metis list_update_id)
    moreover have "GWEN_SimplePtrList_SetPtrAt pl k p w = Ret (GWEN_ERROR_BUFFER_OVERFLOW, pl, w)"
      using False own(1) by (simp add: GWEN_SimplePtrList_SetPtrAt_def)
    ultimately show ?thesis using False own(2) cow_ok_less [OF assms(1), of n] by (simp add: word_less_nat_alt gwen_errors)
  next
    case True
    from ensure_ok [OF assms] obtain p1 w1 a1 where
      e: "GWEN_SimplePtrList_EnsureWritability pl w = Ret (0, p1, w1)" "cow_ok S (Suc n) (pls[i := Some p1]) w1"
        "cow_values (pls[i := Some p1]) w1 = cow_values pls w" "pl_entryList p1 = Some a1" "holders (pls[i := Some p1]) a1 = 1"
        "pl_usedEntries p1 = pl_usedEntries pl" by blast
    have i1: "i < length (pls[i := Some p1])" "pls[i := Some p1] ! i = Some p1" using assms(2) by simp_all
    have um: "pl_usedEntries p1 \<le> pl_maxEntries p1" using cow_okD_own [OF e(2) i1] by (simp add: pl_ok_def)
    then have kb: "unat k < unat (pl_maxEntries p1)" using True e(6) by (simp add: word_less_nat_alt word_le_nat_alt)
    have self: "p1\<lparr>pl_usedEntries := pl_usedEntries pl\<rparr> = p1" unfolding e(6) [symmetric] by simp
    from put_ok [OF e(2) i1 e(4,5) kb um, of p, unfolded self e(6) list_update_overwrite] obtain w3 b where
      w3: "w_blocks w1 a1 = Some b" "unat k < length (ip_entries b)" "ptr_put w1 (Some a1) (unat k) p = Ret w3" "w_next w3 = w_next w1"
        "w_ok w3 = w_ok w1" "pl_contents w1 p1 = take (unat (pl_usedEntries pl)) (ip_entries b)" "cow_ok S (Suc n) (pls[i := Some p1]) w3"
        "cow_values (pls[i := Some p1]) w3 = (cow_values pls w)[i := Some (take (unat (pl_usedEntries pl)) ((ip_entries b)[unat k := p]))]"
      unfolding e(3) by blast
    have "pl_contents w pl = pl_contents w1 p1" using e(3) v assms(2) by (metis cow_values_def i1 length_list_update nth_map option.inject option.simps(9))
    then have t: "take (unat (pl_usedEntries pl)) ((ip_entries b)[unat k := p]) = (pl_contents w pl)[unat k := p]"
      using w3(6) by (simp add: take_update_swap)
    have "\<exists>w4. GWEN_SimplePtrList_SetPtrAt pl k p w = Ret (0, p1, w4) \<and> w_blocks w4 = w_blocks w3 \<and> w_next w4 = w_next w3 \<and> w_ok w4 = w_ok w3"
      using True own(1) e(1,4) w3(1,2,3) by (simp add: GWEN_SimplePtrList_SetPtrAt_def ptr_get_def w_block_def Let_def)
    then obtain w4 where w4: "GWEN_SimplePtrList_SetPtrAt pl k p w = Ret (0, p1, w4)" "w_blocks w4 = w_blocks w3" "w_next w4 = w_next w3" "w_ok w4 = w_ok w3"
      by blast
    have "cow_ok S n (pls[i := Some p1]) w4" using cow_ok_less [OF w3(7), of n] cow_ok_calls [OF w4(2-4)] by simp
    moreover have "cow_values (pls[i := Some p1]) w4 = (cow_values pls w)[i := Some ((pl_contents w pl)[unat k := p])]"
      using w3(8) t by (simp add: cow_values_def pl_contents_calls [OF w4(2)])
    ultimately show ?thesis using w4(1) True own(2) by (simp add: word_less_nat_alt)
  qed
qed

lemma free_ok:
  assumes "cow_ok S n pls w" "i < length pls" "pls ! i = Some pl"
  shows "\<exists>w'. GWEN_SimplePtrList_free pl w = Ret (None, w') \<and> cow_ok S n (pls[i := None]) w'
    \<and> cow_values (pls[i := None]) w' = (cow_values pls w)[i := None]"
proof -
  obtain a b where o: "pl_refCount pl = 1" "pl_usedEntries pl \<le> pl_maxEntries pl" "pl_entryList pl = Some a" "w_blocks w a = Some b"
    "length (ip_entries b) = unat (pl_maxEntries pl)" "ip_refCounter b = int (holders pls a)" "0 < holders pls a" "w_ok w = (\<lambda>_. True)"
    by (rule cow_okD [OF assms])
  have bl: "w_block w (pl_entryList pl) = Ret b" by (simp add: w_block_def o(3,4))
  have "unat (pl_usedEntries pl) \<le> length (ip_entries b)" using o(2,5) by (simp add: word_le_nat_alt)
  from all_objects_ok(2) [OF bl this] obtain w1 where
    w1: "(if fl_has (pl_flags pl) GWEN_SIMPLEPTRLIST_FLAGS_DETACHFROMOBJECTS
          then obind (w_block w (pl_entryList pl)) (\<lambda>b. if ip_refCounter b = 1 then detachFromAllObjects pl w else Ret w) else Ret w) = Ret w1"
      "w_blocks w1 = w_blocks w" "w_next w1 = w_next w" "w_ok w1 = w_ok w"
    unfolding bl by (cases "fl_has (pl_flags pl) GWEN_SIMPLEPTRLIST_FLAGS_DETACHFROMOBJECTS"; cases "ip_refCounter b = 1") auto
  define w2 where "w2 = w_set w1 a (dropped b (holders pls a))"
  have f: "freePtrList (Some a) w1 = Ret w2"
    using o(7) by (simp add: freePtrList_def w_block_def w1(2) w_set_def o(4,6) w2_def dropped_def)
  have r: "GWEN_SimplePtrList_free pl w = Ret (None, w2)"
    unfolding GWEN_SimplePtrList_free_def w1(1) by (simp add: o(1,3) f)
  have c: "\<forall>x \<ge> w_next w. w_blocks w x = None" using assms(1) by (simp add: cow_ok_def)
  then have lt: "a < w_next w" using o(4) by (metis linorder_not_le option.distinct(1))
  have nx: "\<forall>x \<ge> w_next w2. w_blocks w2 x = None" using c lt by (simp add: w2_def w_set_def w1)
  have ok: "w_ok w2 = (\<lambda>_. True)" by (simp add: w2_def w_set_def w1(4) o(8))
  have bl2: "w_blocks w2 x = ((w_blocks w)(a := dropped b (holders pls a))) x" for x by (simp add: w2_def w_set_def w1(2))
  have hn: "holds None \<noteq> Some x" for x by (simp add: holds_def)
  have pn: "\<And>q. None = Some q \<Longrightarrow> pl_ok S n (pls[i := None]) w2 q" by simp
  note lb = leave_block [where y = None, OF assms o(3,4) ok nx bl2 hn order_refl pn]
  have "cow_ok S n (pls[i := None]) w2" by (rule lb(1))
  moreover have "cow_values (pls[i := None]) w2 = (cow_values pls w)[i := map_option (pl_contents w2) None]" by (rule lb(2))
  ultimately show ?thesis using r by simp
qed

lemma lazy_copy_ok:
  assumes "cow_ok S n pls w" "i < length pls" "pls ! i = Some pl" "length pls < 2147483647"
  shows "\<exists>new old w'. GWEN_SimplePtrList_LazyCopy pl w = Ret (new, old, w') \<and> cow_ok S n (pls[i := Some old] @ [Some new]) w'
    \<and> cow_values (pls[i := Some old] @ [Some new]) w' = cow_values pls w @ [Some (pl_contents w pl)]"
proof -
  obtain a b where o: "pl_entryList pl = Some a" "w_blocks w a = Some b" "ip_storedEntries b = pl_maxEntries pl"
    "ip_refCounter b = int (holders pls a)" "0 < holders pls a" "a < w_next w" "pl_contents w pl = take (unat (pl_usedEntries pl)) (ip_entries b)"
    by (rule cow_okD [OF assms(1-3)])
  let ?b = "b\<lparr>ip_refCounter := ip_refCounter b + 1\<rparr>" and ?F = "pl_flags pl OR GWEN_SIMPLEPTRLIST_FLAGS_COPYONWRITE"
  define w1 where "w1 = w_set w a (Some ?b)"
  define old where "old = pl\<lparr>pl_flags := ?F\<rparr>"
  define new where "new = pl\<lparr>pl_flags := ?F, pl_refCount := 1, pl_userCounter := 0\<rparr>"
  have "holders pls a \<le> length pls" using count_le_size [of "mset (map holds pls)" "Some a"] by (simp add: holders_def)
  then have "attachToPtrList (Some a) w = Ret w1"
    using o(5) assms(4) by (simp add: attachToPtrList_def w_block_def o(2,4) w1_def in_int_def)
  then have c: "GWEN_SimplePtrList_LazyCopy pl w = Ret (new, old, w1)" by (simp add: GWEN_SimplePtrList_LazyCopy_def o(1) old_def new_def)
  let ?pls = "pls[i := Some old] @ [Some new]"
  have h: "holders ?pls x = holders pls x + (if x = a then 1 else 0)" for x
    using holders_update [OF assms(2), of "Some old" x] holders_pos [of pl pls x] assms(2,3) nth_mem [OF assms(2)]
    by (simp add: holders_def holds_def o(1) old_def new_def)
  have flag: "cow old" "cow new" by (simp_all add: old_def new_def GWEN_SIMPLEPTRLIST_FLAGS_COPYONWRITE_def bit_or_has)
  have w1: "w_blocks w1 = (w_blocks w)(a := Some ?b)" "w_next w1 = w_next w" "w_ok w1 = w_ok w" by (simp_all add: w1_def w_set_def)
  have own: "pl_ok S n pls w pl" by (rule cow_okD_own [OF assms(1-3)])
  have each: "pl_ok S n ?pls w1 q" if q: "Some q \<in> set ?pls" for q
  proof (cases "q = old \<or> q = new")
    case True
    then show ?thesis using own flag h by (auto simp: pl_ok_def w1(1) o(1,2) old_def new_def)
  next
    case False
    then obtain j where j: "j < length pls" "pls[i := Some old] ! j = Some q"
      using q by (metis UnE empty_iff empty_set in_set_conv_nth length_list_update list.simps(15) insertE option.inject set_append)
    then have ji: "j \<noteq> i" "pls ! j = Some q" using False assms(2) by (auto simp: nth_list_update split: if_splits)
    have qk: "pl_ok S n pls w q" by (rule cow_okD_own [OF assms(1) j(1) ji(2)])
    have "cow q" if "pl_entryList q = Some a"
      using holders_two [OF j(1) assms(2) ji(1)] qk that ji(2) assms(3) by (auto simp: pl_ok_def holds_def o(1))
    then show ?thesis using qk h o(2,3) by (auto simp: pl_ok_def w1(1))
  qed
  have "\<forall>x \<ge> w_next w1. w_blocks w1 x = None" "w_ok w1 = (\<lambda>_. True)" using assms(1) o(6) by (auto simp: cow_ok_def w1)
  then have ok: "cow_ok S n ?pls w1" using each by (simp add: cow_ok_def)
  have v: "pl_contents w1 = pl_contents w" by (rule ext) (simp add: pl_contents_def w1(1) o(2) split: option.split)
  have "pl_contents w old = pl_contents w pl" "pl_contents w new = pl_contents w pl" by (simp_all add: pl_contents_def old_def new_def split: option.split)
  then have "cow_values ?pls w1 = cow_values pls w @ [Some (pl_contents w pl)]"
    using assms(2,3) by (auto simp: cow_values_def v map_update intro!: list_update_same_conv [THEN iffD2])
  then show ?thesis using c ok by blast
qed

section \<open>Sequences of calls\<close>

datatype ptr_op = PtrAdd nat voidptr | PtrSet nat u64 voidptr | PtrCopy nat | PtrFree nat

text \<open>A call on the list with the given number, if there is one; a lazy copy becomes the last list.\<close>

fun ptr_call :: "ptr_op \<Rightarrow> gwen_simpleptrlist option list \<Rightarrow> ptr_world \<Rightarrow> (gwen_simpleptrlist option list \<times> ptr_world) outcome" where
  "ptr_call (PtrAdd i p) pls w =
     (case (if i < length pls then pls ! i else None) of None \<Rightarrow> Ret (pls, w)
      | Some pl \<Rightarrow> obind (GWEN_SimplePtrList_AddPtr pl p w) (\<lambda>(_, pl, w). Ret (pls[i := Some pl], w)))"
| "ptr_call (PtrSet i k p) pls w =
     (case (if i < length pls then pls ! i else None) of None \<Rightarrow> Ret (pls, w)
      | Some pl \<Rightarrow> obind (GWEN_SimplePtrList_SetPtrAt pl k p w) (\<lambda>(_, pl, w). Ret (pls[i := Some pl], w)))"
| "ptr_call (PtrCopy i) pls w =
     (case (if i < length pls then pls ! i else None) of None \<Rightarrow> Ret (pls, w)
      | Some pl \<Rightarrow> obind (GWEN_SimplePtrList_LazyCopy pl w) (\<lambda>(new, old, w). Ret (pls[i := Some old] @ [Some new], w)))"
| "ptr_call (PtrFree i) pls w =
     (case (if i < length pls then pls ! i else None) of None \<Rightarrow> Ret (pls, w)
      | Some pl \<Rightarrow> obind (GWEN_SimplePtrList_free pl w) (\<lambda>(pl, w). Ret (pls[i := pl], w)))"

fun ptr_calls :: "ptr_op list \<Rightarrow> gwen_simpleptrlist option list \<Rightarrow> ptr_world \<Rightarrow> (gwen_simpleptrlist option list \<times> ptr_world) outcome" where
  "ptr_calls [] pls w = Ret (pls, w)"
| "ptr_calls (c # cs) pls w = obind (ptr_call c pls w) (\<lambda>(pls, w). ptr_calls cs pls w)"

text \<open>The same calls on plain values.\<close>

fun value_call :: "ptr_op \<Rightarrow> voidptr list option list \<Rightarrow> voidptr list option list" where
  "value_call (PtrAdd i p) vs = (case (if i < length vs then vs ! i else None) of None \<Rightarrow> vs | Some v \<Rightarrow> vs[i := Some (v @ [p])])"
| "value_call (PtrSet i k p) vs = (case (if i < length vs then vs ! i else None) of None \<Rightarrow> vs | Some v \<Rightarrow> vs[i := Some (v[unat k := p])])"
| "value_call (PtrCopy i) vs = (case (if i < length vs then vs ! i else None) of None \<Rightarrow> vs | Some v \<Rightarrow> vs @ [Some v])"
| "value_call (PtrFree i) vs = (case (if i < length vs then vs ! i else None) of None \<Rightarrow> vs | Some v \<Rightarrow> vs[i := None])"

lemma call_ok:
  assumes "cow_ok S (Suc (Suc n)) pls w" "S \<noteq> 0" "length pls < 2147483647"
  shows "\<exists>pls' w'. ptr_call c pls w = Ret (pls', w') \<and> cow_ok S n pls' w' \<and> cow_values pls' w' = value_call c (cow_values pls w)
    \<and> length pls' \<le> Suc (length pls)"
proof -
  have v: "(if i < length (cow_values pls w) then cow_values pls w ! i else None)
      = map_option (pl_contents w) (if i < length pls then pls ! i else None)" for i
    by (simp add: cow_values_def)
  have l: "cow_ok S n pls w" by (rule cow_ok_less [OF assms(1)]) simp
  define i where "i = (case c of PtrAdd i p \<Rightarrow> i | PtrSet i k p \<Rightarrow> i | PtrCopy i \<Rightarrow> i | PtrFree i \<Rightarrow> i)"
  show ?thesis
  proof (cases "if i < length pls then pls ! i else None")
    case None
    then show ?thesis using l by (cases c) (simp_all only: i_def ptr_op.case ptr_call.simps value_call.simps v option.simps, auto)
  next
    case (Some pl)
    then have i: "i < length pls" "pls ! i = Some pl" by (auto split: if_splits)
    show ?thesis
    proof (cases c)
      case (PtrAdd j p)
      then show ?thesis using add_ok [OF assms(1) i assms(2), of p] Some v [of i] by (auto simp: i_def)
    next
      case (PtrSet j k p)
      then show ?thesis using set_ok [OF assms(1) i, of k p] Some v [of i] by (auto simp: i_def)
    next
      case (PtrCopy j)
      then show ?thesis using lazy_copy_ok [OF l i assms(3)] Some v [of i] by (auto simp: i_def)
    next
      case (PtrFree j)
      then show ?thesis using free_ok [OF l i] Some v [of i] by (auto simp: i_def)
    qed
  qed
qed

lemma calls_ok:
  assumes "cow_ok S (2 * length cs) pls w" "S \<noteq> 0" "length pls + length cs < 2147483648"
  shows "\<exists>pls' w'. ptr_calls cs pls w = Ret (pls', w') \<and> cow_ok S 0 pls' w' \<and> cow_values pls' w' = fold value_call cs (cow_values pls w)"
  using assms
proof (induction cs arbitrary: pls w)
  case (Cons c cs)
  have "cow_ok S (Suc (Suc (2 * length cs))) pls w" "length pls < 2147483647" using Cons.prems by simp_all
  from call_ok [OF this(1) Cons.prems(2) this(2), of c] obtain pls1 w1 where
    c: "ptr_call c pls w = Ret (pls1, w1)" "cow_ok S (2 * length cs) pls1 w1" "cow_values pls1 w1 = value_call c (cow_values pls w)"
      "length pls1 \<le> Suc (length pls)" by blast
  from Cons.IH [OF c(2) Cons.prems(2)] c Cons.prems(3) show ?case by auto
qed simp

lemma new_list_ok:
  assumes "w_ok w = (\<lambda>_. True)" "\<forall>a \<ge> w_next w. w_blocks w a = None" "unat start + n * unat steps < 2 ^ 60"
  shows "\<exists>pl w'. GWEN_SimplePtrList_new start steps w = Ret (pl, w') \<and> cow_ok steps n [Some pl] w' \<and> cow_values [Some pl] w' = [Some []]"
proof -
  have "unat start < 2 ^ 60" using assms(3) by simp
  note sl = ptrlist_slots_small [OF this]
  show ?thesis
    using assms sl
    by (simp add: GWEN_SimplePtrList_new_def mallocPtrList_def cow_ok_def pl_ok_def cow_values_def pl_contents_def w_set_def holders_def holds_def)
qed

lemma values_read:
  assumes "cow_ok S n pls w" "i < length pls" "pls ! i = Some pl"
  shows "GWEN_SimplePtrList_GetUsedEntries pl = Ret (of_nat (length (pl_contents w pl)))"
    "k < pl_usedEntries pl \<Longrightarrow> GWEN_SimplePtrList_GetPtrAt pl k w = Ret (pl_contents w pl ! unat k)"
proof -
  obtain a b where o: "pl_refCount pl = 1" "pl_usedEntries pl \<le> pl_maxEntries pl" "pl_entryList pl = Some a" "w_blocks w a = Some b"
    "length (ip_entries b) = unat (pl_maxEntries pl)" "pl_contents w pl = take (unat (pl_usedEntries pl)) (ip_entries b)"
    by (rule cow_okD [OF assms])
  then have l: "length (pl_contents w pl) = unat (pl_usedEntries pl)" by (simp add: word_le_nat_alt)
  then show "GWEN_SimplePtrList_GetUsedEntries pl = Ret (of_nat (length (pl_contents w pl)))"
    by (simp add: GWEN_SimplePtrList_GetUsedEntries_def o(1))
  show "k < pl_usedEntries pl \<Longrightarrow> GWEN_SimplePtrList_GetPtrAt pl k w = Ret (pl_contents w pl ! unat k)"
    using l o by (simp add: GWEN_SimplePtrList_GetPtrAt_def ptr_get_def w_block_def word_less_nat_alt word_le_nat_alt)
qed

text \<open>C8. Lists of pointers are values: any sequence of additions, replacements, lazy copies and releases that starts with a
  new list runs without touching freed memory, and afterwards every list that was not released has exactly the entries that
  the same calls give on values that share nothing.\<close>

theorem ptrlist_cow:
  assumes "w_ok w = (\<lambda>_. True)" "\<forall>a \<ge> w_next w. w_blocks w a = None" "steps \<noteq> 0"
    "unat start + 2 * length cs * unat steps < 2 ^ 60" "length cs < 2147483647"
  shows "\<exists>pl w1 pls w2. GWEN_SimplePtrList_new start steps w = Ret (pl, w1) \<and> ptr_calls cs [Some pl] w1 = Ret (pls, w2)
    \<and> list_all2 (\<lambda>x v. case (x, v) of
        (Some pl, Some ps) \<Rightarrow> GWEN_SimplePtrList_GetUsedEntries pl = Ret (of_nat (length ps))
          \<and> (\<forall>k. unat k < length ps \<longrightarrow> GWEN_SimplePtrList_GetPtrAt pl k w2 = Ret (ps ! unat k))
      | (None, None) \<Rightarrow> True | _ \<Rightarrow> False) pls (fold value_call cs [Some []])"
proof -
  from new_list_ok [OF assms(1,2,4)] obtain pl w1 where
    n: "GWEN_SimplePtrList_new start steps w = Ret (pl, w1)" "cow_ok steps (2 * length cs) [Some pl] w1" "cow_values [Some pl] w1 = [Some []]" by blast
  have "length [Some pl] + length cs < 2147483648" using assms(5) by simp
  from calls_ok [OF n(2) assms(3) this] n(3) obtain pls w2 where
    c: "ptr_calls cs [Some pl] w1 = Ret (pls, w2)" "cow_ok steps 0 pls w2" "cow_values pls w2 = fold value_call cs [Some []]" by auto
  have "list_all2 (\<lambda>x v. case (x, v) of
        (Some pl, Some ps) \<Rightarrow> GWEN_SimplePtrList_GetUsedEntries pl = Ret (of_nat (length ps))
          \<and> (\<forall>k. unat k < length ps \<longrightarrow> GWEN_SimplePtrList_GetPtrAt pl k w2 = Ret (ps ! unat k))
      | (None, None) \<Rightarrow> True | _ \<Rightarrow> False) pls (cow_values pls w2)"
    using values_read [OF c(2)]
    by (auto simp: list_all2_conv_all_nth cow_values_def pl_contents_def word_less_nat_alt split: option.split)
  then show ?thesis using n(1) c(1,3) by auto
qed

theorem ptrlist_cow_witness:
  "\<exists>pl w1 pls w2. GWEN_SimplePtrList_new 1 1 \<lparr>w_blocks = \<lambda>_. None, w_next = 0, w_ok = \<lambda>_. True, w_calls = []\<rparr> = Ret (pl, w1)
    \<and> ptr_calls [PtrAdd 0 7, PtrCopy 0, PtrAdd 0 8, PtrSet 1 0 9, PtrFree 0] [Some pl] w1 = Ret (pls, w2)
    \<and> (case pls of [None, Some c] \<Rightarrow> GWEN_SimplePtrList_GetPtrAt c 0 w2 = Ret 9 | _ \<Rightarrow> False)"
proof -
  let ?cs = "[PtrAdd 0 7, PtrCopy 0, PtrAdd 0 8, PtrSet 1 0 9, PtrFree 0]"
  have v: "fold value_call ?cs [Some []] = [None, Some [9]]" by simp
  have "unat (1 :: u64) + 2 * length ?cs * unat (1 :: u64) < 2 ^ 60" by simp
  from ptrlist_cow [of "\<lparr>w_blocks = \<lambda>_. None, w_next = 0, w_ok = \<lambda>_. True, w_calls = []\<rparr>" 1, OF _ _ _ this] v
  show ?thesis by (fastforce simp: list_all2_Cons2 split: option.splits)
qed

section \<open>Where sharing shows\<close>

definition empty_world :: ptr_world where
  "empty_world = \<lparr>w_blocks = \<lambda>_. None, w_next = 0, w_ok = \<lambda>_. True, w_calls = []\<rparr>"

text \<open>Clearing a lazy copy clears the original too.\<close>

lemma ptrlist_clear_shared:
  "obind (GWEN_SimplePtrList_new 1 1 empty_world) (\<lambda>(pl, w).
   obind (GWEN_SimplePtrList_AddPtr pl 7 w) (\<lambda>(_, pl, w).
   obind (GWEN_SimplePtrList_LazyCopy pl w) (\<lambda>(new, old, w).
   obind (GWEN_SimplePtrList_Clear new w) (\<lambda>w. GWEN_SimplePtrList_GetPtrAt old 0 w)))) = Ret 0"
  by code_simp

text \<open>A list that outlives its lazy copy takes a second reference to each of its objects and gives back only one.\<close>

lemma ptrlist_leaks:
  "obind (GWEN_SimplePtrList_new 1 1 empty_world) (\<lambda>(pl, w).
   obind (GWEN_SimplePtrList_AddFlags pl (GWEN_SIMPLEPTRLIST_FLAGS_ATTACHTOOBJECTS OR GWEN_SIMPLEPTRLIST_FLAGS_DETACHFROMOBJECTS)) (\<lambda>pl.
   obind (GWEN_SimplePtrList_SetAttachObjectFn pl (Some 1)) (\<lambda>(_, pl).
   obind (GWEN_SimplePtrList_SetFreeObjectFn pl (Some 2)) (\<lambda>(_, pl).
   obind (GWEN_SimplePtrList_AddPtr pl 7 w) (\<lambda>(_, pl, w).
   obind (GWEN_SimplePtrList_LazyCopy pl w) (\<lambda>(new, old, w).
   obind (GWEN_SimplePtrList_free new w) (\<lambda>(_, w).
   obind (GWEN_SimplePtrList_AddPtr old 0 w) (\<lambda>(_, old, w).
   obind (GWEN_SimplePtrList_free old w) (\<lambda>(_, w). Ret (w_calls w)))))))))) =
   Ret [AttachCall 1 7, AttachCall 1 7, FreeCall 2 7]"
  by code_simp

end
