(* ===== verification/Gwen_IdListProps.thy ===== *)
theory Gwen_IdListProps
  imports Gwen_IdList64 Gwen_PtrListProps Gwen_Bag
begin

text \<open>
  A list of ids that is not shared is a bag of ids, whatever the size of its tables: every id added and not yet removed is
  found. The pointer list below contributes its refinement to plain lists (\<open>Gwen_PtrListProps\<close>). Lazy copies share their
  tables even when they are written to, as the last section shows.
\<close>

lemma unat_of_nat_u64: "n < 18446744073709551616 \<Longrightarrow> unat (of_nat n :: u64) = n"
  by (simp add: unat_of_nat take_bit_nat_eq_self)

lemma unat_ucast_u64_u32: "unat (x :: u64) < 4294967296 \<Longrightarrow> unat (ucast x :: u32) = unat x"
  by (simp add: unsigned_ucast_eq take_bit_nat_eq_self)

section \<open>What adding a pointer leaves alone\<close>

lemma grow_fields:
  assumes "ptrlist_grow pl w = Ret (rv, pl', w')"
  shows "w_calls w' = w_calls w \<and> (\<exists>a m. pl' = pl\<lparr>pl_entryList := a, pl_maxEntries := m\<rparr>)"
proof -
  have c: "w_calls w1 = w_calls w" if "reallocPtrList a n w = Ret (b, w1)" for a n b w1
    using that by (auto simp: reallocPtrList_def obind_Ret_iff w_set_def split: if_splits)
  have "\<exists>a m. pl = pl\<lparr>pl_entryList := a, pl_maxEntries := m\<rparr>"
    by (rule exI [of _ "pl_entryList pl"], rule exI [of _ "pl_maxEntries pl"]) simp
  then show ?thesis using assms c
    by (auto simp: ptrlist_grow_def Let_def obind_Ret_iff split: if_splits)
qed

lemma put_fields: "ptr_put w a i p = Ret w' \<Longrightarrow> w_calls w' = w_calls w"
  by (auto simp: ptr_put_def obind_Ret_iff w_set_def split: if_splits)

lemma ensure_plain: "pl_refCount pl \<noteq> 0 \<Longrightarrow> \<not> cow pl \<Longrightarrow> GWEN_SimplePtrList_EnsureWritability pl w = Ret (0, pl, w)"
  by (simp add: GWEN_SimplePtrList_EnsureWritability_def)

lemma add_fields:
  assumes "GWEN_SimplePtrList_AddPtr pl p w = Ret (rv, pl', w')" "\<not> cow pl" "0 \<le> rv" "p \<noteq> 0"
    "fl_has (pl_flags pl) GWEN_SIMPLEPTRLIST_FLAGS_ATTACHTOOBJECTS" "pl_attachObjectFn pl = Some f"
  shows "w_calls w' = w_calls w @ [AttachCall f p] \<and> (\<exists>a m u. pl' = pl\<lparr>pl_entryList := a, pl_maxEntries := m, pl_usedEntries := u\<rparr>)"
proof -
  have r: "pl_refCount pl \<noteq> 0" using assms(1) by (auto simp: GWEN_SimplePtrList_AddPtr_def obind_Ret_iff oassert_Ret_iff)
  from assms(1) obtain rv1 p1 w1 where g: "ptrlist_grow pl w = Ret (rv1, p1, w1)"
    "(if rv1 < 0 then Ret (rv1, p1, w1)
      else obind (ptr_put w1 (pl_entryList p1) (unat (pl_usedEntries p1)) p) (\<lambda>w.
        let w = (if p \<noteq> 0 \<and> fl_has (pl_flags p1) GWEN_SIMPLEPTRLIST_FLAGS_ATTACHTOOBJECTS then attachToObject p1 p w else w);
            pl = p1\<lparr>pl_usedEntries := pl_usedEntries p1 + 1\<rparr>
        in Ret (sint (pl_usedEntries pl - 1), pl, w))) = Ret (rv, pl', w')"
    using r by (auto simp: GWEN_SimplePtrList_AddPtr_def ensure_plain [OF r assms(2)] obind_Ret_iff)
  from grow_fields [OF g(1)] obtain a m where p1: "w_calls w1 = w_calls w" "p1 = pl\<lparr>pl_entryList := a, pl_maxEntries := m\<rparr>" by blast
  have nz: "\<not> rv1 < 0" using g(2) assms(3) by (auto split: if_splits)
  obtain w2 where w2: "ptr_put w1 (pl_entryList p1) (unat (pl_usedEntries p1)) p = Ret w2" "w' = attachToObject p1 p w2"
    "pl' = p1\<lparr>pl_usedEntries := pl_usedEntries p1 + 1\<rparr>"
    using g(2) nz assms(4,5) p1(2) by (auto simp: obind_Ret_iff Let_def)
  have "w_calls w' = w_calls w @ [AttachCall f p]"
    using put_fields [OF w2(1)] by (simp add: w2(2) attachToObject_def p1 assms(6) w_call_def)
  then show ?thesis using w2(3) p1(2) by blast
qed

section \<open>Lists in order\<close>

definition id_entries :: "id_world \<Rightarrow> voidptr \<Rightarrow> u64 list" where
  "id_entries w t = the (it_ptrEntries (the (iw_tables w t)))"

text \<open>A table of \<open>E\<close> entries of which the first \<open>u\<close> have been used.\<close>

definition table_ok :: "nat \<Rightarrow> gwen_idtable64 \<Rightarrow> bool" where
  "table_ok E ft \<longleftrightarrow> it_refCount ft = 1 \<and> it_maxEntries ft = of_nat E \<and> it_runtimeFlags ft AND GWEN_IDTABLE64_RUNTIME_FLAGS_ISCOPY \<noteq> 0
    \<and> (\<exists>es u. it_ptrEntries ft = Some es \<and> length es = E \<and> u \<le> E \<and> it_freeEntries ft = of_nat (E - u)
        \<and> it_highestEntry ft = of_nat (u - 1) \<and> (\<forall>i < E. u \<le> i \<longrightarrow> es ! i = 0))"

abbreviation idl_ptrs :: "gwen_simpleptrlist \<Rightarrow> id_world \<Rightarrow> voidptr list" where
  "idl_ptrs l w \<equiv> pl_contents (iw_ptrs w) l"

definition idl_bag :: "gwen_simpleptrlist \<times> id_world \<Rightarrow> u64 multiset" where
  "idl_bag l = mset (filter (\<lambda>x. x \<noteq> 0) (concat (map (id_entries (snd l)) (idl_ptrs (fst l) (snd l)))))"

definition idl_head_ok :: "nat \<Rightarrow> gwen_simpleptrlist \<Rightarrow> bool" where
  "idl_head_ok E l \<longleftrightarrow> \<not> cow l \<and> fl_has (pl_flags l) GWEN_SIMPLEPTRLIST_FLAGS_ATTACHTOOBJECTS \<and> pl_attachObjectFn l = Some 1
    \<and> pl_userIntData l = int E \<and> 0 < E \<and> E < 1073741824"

definition idl_ok :: "nat \<Rightarrow> nat \<Rightarrow> gwen_simpleptrlist \<times> id_world \<Rightarrow> bool" where
  "idl_ok E n = (\<lambda>(l, w). idl_head_ok E l \<and> cow_ok 64 (2 * n) [Some l] (iw_ptrs w)
    \<and> length (idl_ptrs l w) + n < 2147483648 \<and> pl_userCounter l = of_nat (size (idl_bag (l, w)))
    \<and> 0 < iw_fresh w \<and> distinct (idl_ptrs l w)
    \<and> (\<forall>t \<in> set (idl_ptrs l w). t \<noteq> 0 \<and> t < iw_fresh w \<and> (\<exists>ft. iw_tables w t = Some ft \<and> table_ok E ft)))"

lemma idl_used:
  assumes "cow_ok S n [Some l] pw"
  shows "unat (pl_usedEntries l) = length (pl_contents pw l)" "pl_refCount l = 1"
  using cow_okD_own [OF assms, of 0 l] by (auto simp: pl_ok_def pl_contents_def word_le_nat_alt)

lemma table_at:
  assumes "cow_ok S n [Some l] (iw_ptrs w)" "i < length (idl_ptrs l w)"
  shows "GWEN_IdList64_GetTableAt l (of_nat i) w = Ret (idl_ptrs l w ! i)"
proof -
  have b: "i < 18446744073709551616" using assms(2) idl_used(1) [OF assms(1)] unat_u64_bound [of "pl_usedEntries l"] by simp
  then have u: "unat (of_nat i :: u64) = i" by (rule unat_of_nat_u64)
  have "(of_nat i :: u64) < pl_usedEntries l" using assms(2) idl_used(1) [OF assms(1)] u by (simp add: word_less_nat_alt)
  then show ?thesis using values_read(2) [OF assms(1), of 0 l "of_nat i"] u by (simp add: GWEN_IdList64_GetTableAt_def)
qed

section \<open>Finding ids\<close>

lemma id_scan_spec:
  assumes "n \<le> length xs"
  shows "\<exists>r. id_scan P (Some xs) i n = Ret r \<and> (case r of None \<Rightarrow> \<forall>k < n. i \<le> k \<longrightarrow> \<not> P (xs ! k) | Some k \<Rightarrow> i \<le> k \<and> k < n \<and> P (xs ! k))"
  using assms
proof (induction "n - i" arbitrary: i)
  case 0
  then show ?case by (simp add: id_scan.simps)
next
  case (Suc d)
  then have i: "i < n" "d = n - Suc i" by simp_all
  show ?case
  proof (cases "P (xs ! i)")
    case True
    then show ?thesis using i Suc.prems by (simp add: id_scan.simps)
  next
    case False
    from Suc.hyps(1) [OF i(2) Suc.prems] obtain r where
      r: "id_scan P (Some xs) (Suc i) n = Ret r" "case r of None \<Rightarrow> \<forall>k < n. Suc i \<le> k \<longrightarrow> \<not> P (xs ! k) | Some k \<Rightarrow> Suc i \<le> k \<and> k < n \<and> P (xs ! k)"
      by blast
    have "id_scan P (Some xs) i n = Ret r" using False i Suc.prems r(1) by (subst id_scan.simps) simp
    then show ?thesis using r(2) False by (auto split: option.splits simp: Suc_le_eq le_eq_less_or_eq)
  qed
qed

lemma id_walk_spec:
  assumes "idl_ok E n (l, w)" "b \<le> length (idl_ptrs l w)"
  shows "\<exists>r. id_walk P l w [a..<b] 0 E = Ret r \<and> (case r of
      None \<Rightarrow> \<forall>idx < b. a \<le> idx \<longrightarrow> (\<forall>x \<in> set (id_entries w (idl_ptrs l w ! idx)). \<not> P x)
    | Some (t, idx, i) \<Rightarrow> a \<le> idx \<and> idx < b \<and> t = idl_ptrs l w ! idx \<and> i < E \<and> P (id_entries w t ! i))"
  using assms(2)
proof (induction "b - a" arbitrary: a)
  case 0
  then show ?case by simp
next
  case (Suc d)
  then have a: "a < b" "[a..<b] = a # [Suc a..<b]" "a < length (idl_ptrs l w)" "d = b - Suc a" by (simp_all add: upt_conv_Cons)
  let ?t = "idl_ptrs l w ! a"
  have "?t \<in> set (idl_ptrs l w)" using a(3) by simp
  with assms(1) obtain ft where ft: "?t \<noteq> 0" "iw_tables w ?t = Some ft" "table_ok E ft" by (auto simp: idl_ok_def)
  then obtain es where es: "it_ptrEntries ft = Some es" "length es = E" by (auto simp: table_ok_def)
  then have ie: "id_entries w ?t = es" using ft(2) by (simp add: id_entries_def)
  have g: "GWEN_IdList64_GetTableAt l (of_nat a) w = Ret ?t" using assms(1) a(3) by (intro table_at [where S = 64 and n = "2 * n"]) (simp_all add: idl_ok_def)
  have tb: "iw_table w ?t = Ret ft" using ft(1,2) by (simp add: iw_table_def)
  obtain r where r: "id_scan P (Some es) 0 E = Ret r" "case r of None \<Rightarrow> \<forall>k < E. 0 \<le> k \<longrightarrow> \<not> P (es ! k) | Some k \<Rightarrow> 0 \<le> k \<and> k < E \<and> P (es ! k)"
    using id_scan_spec [of E es P 0] es(2) by auto
  show ?case
  proof (cases r)
    case (Some i)
    then have "id_walk P l w [a..<b] 0 E = Ret (Some (?t, a, i))" using ft(1) r(1) es(1) by (simp add: a(2) g tb)
    then show ?thesis using r(2) Some a(1) ie by simp
  next
    case None
    have no: "\<forall>x \<in> set (id_entries w ?t). \<not> P x" using r(2) None es(2) ie by (auto simp: in_set_conv_nth)
    have w: "id_walk P l w [a..<b] 0 E = id_walk P l w [Suc a..<b] 0 E" using ft(1) None r(1) es(1) by (simp add: a(2) g tb)
    from Suc.hyps(1) [OF a(4) Suc.prems] obtain r' where
      r': "id_walk P l w [Suc a..<b] 0 E = Ret r'" "case r' of
          None \<Rightarrow> \<forall>idx < b. Suc a \<le> idx \<longrightarrow> (\<forall>x \<in> set (id_entries w (idl_ptrs l w ! idx)). \<not> P x)
        | Some (t, idx, i) \<Rightarrow> Suc a \<le> idx \<and> idx < b \<and> t = idl_ptrs l w ! idx \<and> i < E \<and> P (id_entries w t ! i)" by blast
    show ?thesis unfolding w using r' no
      by (auto split: option.splits simp: Suc_le_eq le_eq_less_or_eq)
  qed
qed

lemma idl_find_spec:
  assumes "idl_ok E n (l, w)"
  shows "\<exists>r. idl_find P l w = Ret r \<and> (case r of
      None \<Rightarrow> \<forall>t \<in> set (idl_ptrs l w). \<forall>x \<in> set (id_entries w t). \<not> P x
    | Some (t, idx, i) \<Rightarrow> idx < length (idl_ptrs l w) \<and> t = idl_ptrs l w ! idx \<and> i < E \<and> P (id_entries w t ! i))"
proof -
  have ok: "cow_ok 64 (2 * n) [Some l] (iw_ptrs w)" "pl_userIntData l = int E" "length (idl_ptrs l w) + n < 2147483648"
    using assms by (simp_all add: idl_ok_def idl_head_ok_def)
  have "unat (ucast (pl_usedEntries l) :: u32) = length (idl_ptrs l w)"
    using idl_used(1) [OF ok(1)] ok(3) by (simp add: unat_ucast_u64_u32)
  then have t: "idl_tables l = length (idl_ptrs l w)" by (simp add: idl_tables_def)
  have "idl_find P l w = id_walk P l w [0..<length (idl_ptrs l w)] 0 E"
    using idl_used(2) [OF ok(1)] by (simp add: idl_find_def GWEN_IdList64_GetTableMaxEntries_def GWEN_SimplePtrList_GetUserIntData_def
        GWEN_IdList64_GetUsedTables_def GWEN_SimplePtrList_GetUsedEntries_def ok(2) t)
  with id_walk_spec [OF assms order_refl, of P 0] show ?thesis
    by (auto split: option.splits simp: in_set_conv_nth all_set_conv_all_nth)
qed

lemma bag_mem: "x \<noteq> 0 \<Longrightarrow> x \<in># idl_bag (l, w) \<longleftrightarrow> (\<exists>t \<in> set (idl_ptrs l w). x \<in> set (id_entries w t))"
  by (auto simp: idl_bag_def)

lemma has_id_law:
  assumes "idl_ok E n (l, w)" "x \<noteq> 0"
  shows "GWEN_IdList64_HasId l x w = Ret (x \<in># idl_bag (l, w))"
proof -
  from idl_find_spec [OF assms(1), of "\<lambda>y. y = x"] obtain r where r: "idl_find (\<lambda>y. y = x) l w = Ret r" "case r of
      None \<Rightarrow> \<forall>t \<in> set (idl_ptrs l w). \<forall>y \<in> set (id_entries w t). y \<noteq> x
    | Some (t, idx, i) \<Rightarrow> idx < length (idl_ptrs l w) \<and> t = idl_ptrs l w ! idx \<and> i < E \<and> id_entries w t ! i = x" by auto
  have "length (id_entries w t) = E" if "t \<in> set (idl_ptrs l w)" for t
    using assms(1) that by (auto simp: idl_ok_def table_ok_def id_entries_def)
  then have "r \<noteq> None \<longleftrightarrow> x \<in># idl_bag (l, w)"
    using r(2) assms(2) by (auto simp: bag_mem split: option.splits) (metis nth_mem)+
  then show ?thesis using r(1) by (simp add: GWEN_IdList64_HasId_def)
qed

section \<open>Changing tables\<close>

definition table_bag :: "gwen_idtable64 \<Rightarrow> u64 multiset" where
  "table_bag ft = mset (filter (\<lambda>x. x \<noteq> 0) (the (it_ptrEntries ft)))"

lemma idl_bag_sum: "idl_bag (l, w) = (\<Sum>t \<leftarrow> idl_ptrs l w. table_bag (the (iw_tables w t)))"
  by (induction "idl_ptrs l w") (simp_all add: idl_bag_def table_bag_def id_entries_def filter_concat mset_concat comp_def)

lemma sum_list_upd:
  assumes "distinct ts" "t \<in> set ts" "\<And>x. x \<in> set ts \<Longrightarrow> x \<noteq> t \<Longrightarrow> g x = f x"
  shows "(\<Sum>x \<leftarrow> ts. g x) + f t = (\<Sum>x \<leftarrow> ts. f x) + (g t :: 'a multiset)"
proof -
  obtain us vs where s: "ts = us @ t # vs" using assms(2) by (metis split_list)
  have "(\<Sum>x \<leftarrow> us. g x) = (\<Sum>x \<leftarrow> us. f x)" "(\<Sum>x \<leftarrow> vs. g x) = (\<Sum>x \<leftarrow> vs. f x)"
    using assms(1,3) s by (intro arg_cong [where f = sum_list] map_cong; auto)+
  then show ?thesis by (simp add: s ac_simps)
qed

lemma set_table:
  assumes "idl_ok E n (l, w)" "t \<in> set (idl_ptrs l w)" "iw_tables w t = Some ft" "table_ok E ft'"
  defines "w' \<equiv> iw_set w t (Some ft')"
  shows "idl_bag (l, w') + table_bag ft = idl_bag (l, w) + table_bag ft'"
    "c = of_nat (size (idl_bag (l, w'))) \<Longrightarrow> idl_ok E n (l\<lparr>pl_userCounter := c\<rparr>, w')"
    "idl_bag (l\<lparr>pl_userCounter := c\<rparr>, w') = idl_bag (l, w')"
proof -
  have p: "iw_ptrs w' = iw_ptrs w" "iw_tables w' = (iw_tables w)(t := Some ft')" "iw_fresh w' = iw_fresh w" by (simp_all add: w'_def iw_set_def)
  have d: "distinct (idl_ptrs l w)" using assms(1) by (simp add: idl_ok_def)
  show "idl_bag (l, w') + table_bag ft = idl_bag (l, w) + table_bag ft'"
    using sum_list_upd [OF d assms(2), of "\<lambda>t. table_bag (the (iw_tables w' t))" "\<lambda>t. table_bag (the (iw_tables w t))"]
    by (simp add: idl_bag_sum p assms(3))
  have c: "pl_contents pw (l\<lparr>pl_userCounter := c\<rparr>) = pl_contents pw l" for pw c by (simp add: pl_contents_def split: option.split)
  show b: "idl_bag (l\<lparr>pl_userCounter := c\<rparr>, w') = idl_bag (l, w')" for c
    by (simp add: idl_bag_def c)
  have "cow_ok S m [Some (l\<lparr>pl_userCounter := c\<rparr>)] pw = cow_ok S m [Some l] pw" for S m pw
    by (simp add: cow_ok_def pl_ok_def holders_def holds_def)
  then show "c = of_nat (size (idl_bag (l, w'))) \<Longrightarrow> idl_ok E n (l\<lparr>pl_userCounter := c\<rparr>, w')"
    using assms(1,4) by (auto simp: idl_ok_def idl_head_ok_def p c b)
qed

lemma idl_count:
  assumes "idl_ok E n (l, w)"
  shows "unat (pl_userCounter l) = size (idl_bag (l, w))"
proof -
  have "length (concat (map (id_entries w) (idl_ptrs l w))) = length (idl_ptrs l w) * E"
  proof -
    have "length (id_entries w t) = E" if "t \<in> set (idl_ptrs l w)" for t using assms that by (auto simp: idl_ok_def table_ok_def id_entries_def)
    then have "(\<Sum>t \<leftarrow> idl_ptrs l w. length (id_entries w t)) = (\<Sum>t \<leftarrow> idl_ptrs l w. E)" by (intro arg_cong [where f = sum_list] map_cong) auto
    then show ?thesis by (simp add: length_concat comp_def sum_list_triv)
  qed
  moreover have "length (idl_ptrs l w) * E \<le> 2147483648 * 1073741824"
    using assms by (intro mult_le_mono) (simp_all add: idl_ok_def idl_head_ok_def)
  ultimately have "size (idl_bag (l, w)) < 18446744073709551616"
    using length_filter_le [of "\<lambda>x. x \<noteq> 0" "concat (map (id_entries w) (idl_ptrs l w))"]
    by (simp add: idl_bag_def size_mset del: mset_filter)
  then show ?thesis using assms by (simp add: idl_ok_def unat_of_nat_u64)
qed

lemma filter_upd:
  assumes "i < length xs"
  shows "mset (filter P (xs[i := y])) + (if P (xs ! i) then {#xs ! i#} else {#}) = mset (filter P xs) + (if P y then {#y#} else {#})"
proof -
  have "xs = take i xs @ xs ! i # drop (Suc i) xs" using assms by (simp add: id_take_nth_drop)
  then have "mset (filter P xs) = mset (filter P (take i xs @ xs ! i # drop (Suc i) xs))" by simp
  then show ?thesis using assms by (simp add: upd_conv_take_nth_drop ac_simps)
qed

lemma del_id_law:
  assumes "idl_ok E n (l, w)" "x \<noteq> 0"
  shows "\<exists>l' w'. GWEN_IdList64_DelId l x w = Ret (if x \<in># idl_bag (l, w) then 1 else 0, l', w') \<and> idl_ok E n (l', w')
    \<and> idl_bag (l', w') = idl_bag (l, w) - {#x#}"
proof -
  from idl_find_spec [OF assms(1), of "\<lambda>y. y = x"] obtain r where r: "idl_find (\<lambda>y. y = x) l w = Ret r" "case r of
      None \<Rightarrow> \<forall>t \<in> set (idl_ptrs l w). \<forall>y \<in> set (id_entries w t). y \<noteq> x
    | Some (t, idx, i) \<Rightarrow> idx < length (idl_ptrs l w) \<and> t = idl_ptrs l w ! idx \<and> i < E \<and> id_entries w t ! i = x" by auto
  show ?thesis
  proof (cases r)
    case None
    then have "x \<notin># idl_bag (l, w)" using r(2) assms(2) by (auto simp: bag_mem)
    then show ?thesis using r(1) None assms(1) by (simp add: GWEN_IdList64_DelId_def)
  next
    case (Some p)
    then obtain t idx i where p: "r = Some (t, idx, i)" "idx < length (idl_ptrs l w)" "t = idl_ptrs l w ! idx" "i < E" "id_entries w t ! i = x"
      using r(2) by (cases p) auto
    have t: "t \<in> set (idl_ptrs l w)" using p(2,3) by simp
    then obtain ft where ft: "t \<noteq> 0" "iw_tables w t = Some ft" "table_ok E ft" using assms(1) by (auto simp: idl_ok_def)
    then obtain es u where es: "it_ptrEntries ft = Some es" "length es = E" "u \<le> E" "it_freeEntries ft = of_nat (E - u)"
      "it_highestEntry ft = of_nat (u - 1)" "\<forall>i < E. u \<le> i \<longrightarrow> es ! i = 0" by (auto simp: table_ok_def)
    have x: "es ! i = x" using p(5) ft(2) es(1) by (simp add: id_entries_def)
    let ?ft = "ft\<lparr>it_ptrEntries := Some (es[i := 0])\<rparr>" and ?w = "iw_set w t (Some (ft\<lparr>it_ptrEntries := Some (es[i := 0])\<rparr>))"
    have "\<forall>k < E. u \<le> k \<longrightarrow> es[i := 0] ! k = 0" using es(2,6) p(4) by (auto simp: nth_list_update)
    then have ok: "table_ok E ?ft" using ft(3) es by (auto simp: table_ok_def)
    note st = set_table [OF assms(1) t ft(2) ok]
    have tb: "table_bag ?ft + {#x#} = table_bag ft" using filter_upd [of i es "\<lambda>x. x \<noteq> 0" 0] es(1,2) p(4) x assms(2) by (simp add: table_bag_def)
    then have "idl_bag (l, ?w) + (table_bag ?ft + {#x#}) = idl_bag (l, w) + table_bag ?ft" using st(1) by simp
    then have b: "idl_bag (l, w) = add_mset x (idl_bag (l, ?w))" by (simp add: ac_simps)
    have pt: "id_put w t i 0 = Ret ?w" using ft(1,2) es(1,2) p(4) by (simp add: id_put_def iw_table_def)
    have c: "unat (pl_userCounter l) = size (idl_bag (l, w))" by (rule idl_count [OF assms(1)])
    then have nz: "pl_userCounter l \<noteq> 0" using b by auto
    have "pl_userCounter l - 1 = of_nat (size (idl_bag (l, ?w)))" using assms(1) b by (simp add: idl_ok_def)
    note st(2) [OF this]
    moreover have "pl_refCount l = 1" using assms(1) idl_used(2) by (auto simp: idl_ok_def)
    ultimately show ?thesis
      using r(1) p(1) pt nz b st(3)
      by (simp add: GWEN_IdList64_DelId_def GWEN_IdList64_DecIdCounter_def GWEN_SimplePtrList_DecUserCounter_def)
  qed
qed

section \<open>Adding ids\<close>

lemma of_nat_u64_inject: "a < 18446744073709551616 \<Longrightarrow> b < 18446744073709551616 \<Longrightarrow> ((of_nat a :: u64) = of_nat b) = (a = b)"
  by (metis unat_of_nat_u64)

lemma store_law:
  assumes "idl_ok E n (l, w)" "t \<in> set (idl_ptrs l w)" "iw_tables w t = Some ft" "it_freeEntries ft \<noteq> 0" "x \<noteq> 0"
  shows "\<exists>rv l' w'. id_store l t k (int E) x w = Ret (rv, l', w') \<and> idl_ok E n (l', w') \<and> idl_bag (l', w') = add_mset x (idl_bag (l, w))"
proof -
  have t0: "t \<noteq> 0" and ok: "table_ok E ft" using assms(1-3) by (auto simp: idl_ok_def)
  then obtain es u where es: "it_refCount ft = 1" "it_maxEntries ft = of_nat E" "it_ptrEntries ft = Some es" "length es = E" "u \<le> E"
    "it_freeEntries ft = of_nat (E - u)" "it_highestEntry ft = of_nat (u - 1)" "\<forall>i < E. u \<le> i \<longrightarrow> es ! i = 0"
    "it_runtimeFlags ft AND GWEN_IDTABLE64_RUNTIME_FLAGS_ISCOPY \<noteq> 0" by (auto simp: table_ok_def)
  have E: "0 < E" "E < 1073741824" using assms(1) by (simp_all add: idl_ok_def idl_head_ok_def)
  have u: "u < E" using assms(4) es(5,6) by (cases "u = E") auto
  have z: "es ! u = 0" using es(8) u by simp
  have pos: "id_free_pos ft (int E) = Ret (int u)"
  proof (cases "u = 0")
    case True
    then show ?thesis using es by (simp add: id_free_pos_def)
  next
    case False
    have ne: "it_freeEntries ft \<noteq> it_maxEntries ft" using False u E unfolding es(2,6) by (subst of_nat_u64_inject) auto
    have h: "it_highestEntry ft + 1 = of_nat u" using False by (cases u) (simp_all add: es(7) add.commute)
    have hu: "unat (of_nat u :: u64) = u" "unat (of_nat E :: u64) = E" using u E by (simp_all add: unat_of_nat_u64)
    have "(of_nat u :: u64) < of_int (int E)" using u hu by (simp add: word_less_nat_alt)
    then show ?thesis using ne u z by (simp add: id_free_pos_def h es(3,4) hu Let_def)
  qed
  let ?f1 = "ft\<lparr>it_ptrEntries := Some (es[u := x])\<rparr>"
  let ?w1 = "iw_set w t (Some ?f1)"
  have pt: "id_put w t u x = Ret ?w1" using t0 assms(3) es(3,4) u by (simp add: id_put_def iw_table_def)
  define f2 where "f2 = GWEN_IdTable64_AddRuntimeFlags (GWEN_IdTable64_CheckAndSetHighestEntry (GWEN_IdTable64_DecFreeEntries ?f1) (of_nat u))
    GWEN_IDTABLE64_RUNTIME_FLAGS_DIRTY"
  have ww: "iw_set ?w1 t (Some f2) = iw_set w t (Some f2)" by (simp add: iw_set_def)
  have tw: "iw_table ?w1 t = Ret ?f1" using t0 by (simp add: iw_table_def iw_set_def)
  have r1: "pl_refCount l = 1" using assms(1) idl_used(2) by (auto simp: idl_ok_def)
  let ?l = "l\<lparr>pl_userCounter := pl_userCounter l + 1\<rparr>"
  have run: "id_store l t k (int E) x w = Ret (k + int u, ?l, iw_set w t (Some f2))"
    using t0 assms(3) u r1 pt tw
    by (simp add: id_store_def iw_table_def [of w] pos GWEN_IdList64_IncIdCounter_def GWEN_SimplePtrList_IncUserCounter_def Let_def ww flip: f2_def)
  have "table_ok E f2"
  proof -
    have fr: "(of_nat (E - u) :: u64) > 0" using assms(4) es(6) by (simp add: word_gt_0)
    have f: "it_freeEntries f2 = of_nat (E - Suc u)"
      using fr u by (simp add: f2_def GWEN_IdTable64_AddRuntimeFlags_def GWEN_IdTable64_CheckAndSetHighestEntry_def GWEN_IdTable64_DecFreeEntries_def
          es(6) of_nat_diff)
    have hu: "unat (of_nat u :: u64) = u" "unat (of_nat (u - 1) :: u64) = u - 1" using u E by (simp_all add: unat_of_nat_u64)
    have h: "it_highestEntry f2 = of_nat u"
      using hu by (cases "u = 0") (simp_all add: f2_def GWEN_IdTable64_AddRuntimeFlags_def GWEN_IdTable64_CheckAndSetHighestEntry_def GWEN_IdTable64_DecFreeEntries_def
          es(7) word_less_nat_alt)
    have fl: "it_runtimeFlags f2 AND GWEN_IDTABLE64_RUNTIME_FLAGS_ISCOPY \<noteq> 0"
      using es(9) by (simp add: f2_def GWEN_IdTable64_AddRuntimeFlags_def GWEN_IdTable64_CheckAndSetHighestEntry_def GWEN_IdTable64_DecFreeEntries_def
          bit.conj_disj_distrib2 GWEN_IDTABLE64_RUNTIME_FLAGS_DIRTY_def GWEN_IDTABLE64_RUNTIME_FLAGS_ISCOPY_def)
    have oth: "it_refCount f2 = 1" "it_maxEntries f2 = of_nat E" "it_ptrEntries f2 = Some (es[u := x])"
      by (simp_all add: f2_def GWEN_IdTable64_AddRuntimeFlags_def GWEN_IdTable64_CheckAndSetHighestEntry_def GWEN_IdTable64_DecFreeEntries_def es(1,2))
    have "\<forall>i < E. Suc u \<le> i \<longrightarrow> es[u := x] ! i = 0" using es(8) by auto
    then show ?thesis using f h fl oth es(4) u
      by (auto simp: table_ok_def intro!: exI [of _ "Suc u"])
  qed
  note st = set_table [OF assms(1-3) this]
  have "table_bag f2 = add_mset x (table_bag ft)"
    using filter_upd [of u es "\<lambda>x. x \<noteq> 0" x] es(3,4) u z assms(5)
    by (simp add: table_bag_def f2_def GWEN_IdTable64_AddRuntimeFlags_def GWEN_IdTable64_CheckAndSetHighestEntry_def GWEN_IdTable64_DecFreeEntries_def)
  then have b: "idl_bag (l, iw_set w t (Some f2)) = add_mset x (idl_bag (l, w))" using st(1) by (simp add: ac_simps)
  have "pl_userCounter l + 1 = of_nat (size (idl_bag (l, iw_set w t (Some f2))))" using assms(1) b by (simp add: idl_ok_def)
  from st(2) [OF this] st(3) b run show ?thesis by auto
qed

text \<open>A new table at the end of the list.\<close>

lemma fresh_table:
  assumes "idl_ok E (Suc n) (l, w)"
  shows "\<exists>idx l' w'. obind (GWEN_IdTable64_Create (of_int (int E)) w) (\<lambda>(t, w).
        obind (iw_table w t) (\<lambda>ft.
        let w = iw_set w t (Some (GWEN_IdTable64_AddRuntimeFlags ft GWEN_IDTABLE64_RUNTIME_FLAGS_ISCOPY))
        in obind (GWEN_IdList64_AddTable l t w) (\<lambda>((idx, idl), w).
           obind (GWEN_IdTable64_free t w) (\<lambda>w. Ret ((idx, t), idl, w))))) = Ret ((int idx, iw_fresh w), l', w')
    \<and> idl_ok E n (l', w') \<and> idl_bag (l', w') = idl_bag (l, w) \<and> iw_fresh w \<in> set (idl_ptrs l' w')
    \<and> (\<exists>ft. iw_tables w' (iw_fresh w) = Some ft \<and> it_freeEntries ft \<noteq> 0 \<and> it_runtimeFlags ft AND GWEN_IDTABLE64_RUNTIME_FLAGS_ISCOPY \<noteq> 0)"
proof -
  let ?t = "iw_fresh w" and ?pw = "iw_ptrs w"
  have ok: "idl_head_ok E l" "cow_ok 64 (2 * Suc n) [Some l] ?pw" "length (idl_ptrs l w) + Suc n < 2147483648"
    "pl_userCounter l = of_nat (size (idl_bag (l, w)))" "0 < ?t" "distinct (idl_ptrs l w)"
    "\<forall>t \<in> set (idl_ptrs l w). t \<noteq> 0 \<and> t < ?t \<and> (\<exists>ft. iw_tables w t = Some ft \<and> table_ok E ft)"
    using assms by (simp_all add: idl_ok_def)
  have E: "0 < E" "E < 1073741824" using ok(1) by (simp_all add: idl_head_ok_def)
  have sz: "unat ((of_nat E :: u64) * 8) = E * 8"
  proof -
    have "(of_nat E :: u64) * 8 = of_nat (E * 8)" by simp
    then show ?thesis using E by (simp only: unat_of_nat_u64)
  qed
  define ft where "ft = GWEN_IdTable64_new\<lparr>it_maxEntries := of_nat E, it_freeEntries := of_nat E, it_ptrEntries := Some (replicate E 0)\<rparr>"
  define f1 where "f1 = GWEN_IdTable64_AddRuntimeFlags ft GWEN_IDTABLE64_RUNTIME_FLAGS_ISCOPY"
  let ?w1 = "(iw_set w ?t (Some ft))\<lparr>iw_fresh := Suc ?t\<rparr>"
  have w_ok: "w_ok ?pw = (\<lambda>_. True)" using ok(2) by (simp add: cow_ok_def)
  have cr: "GWEN_IdTable64_Create (of_int (int E)) w = Ret (?t, ?w1)"
    by (simp add: GWEN_IdTable64_Create_def w_ok sz iw_new_def ft_def)
  have t1: "iw_table ?w1 ?t = Ret ft" using ok(5) by (simp add: iw_table_def iw_set_def)
  define w2 where "w2 = iw_set ?w1 ?t (Some f1)"
  have p2: "iw_ptrs w2 = ?pw" "iw_fresh w2 = Suc ?t" "iw_tables w2 = (iw_tables w)(?t := Some f1)" by (simp_all add: w2_def iw_set_def)
  let ?q = "?pw\<lparr>w_calls := []\<rparr>"
  have q: "cow_ok 64 (Suc (Suc (2 * n))) [Some l] ?q" using ok(2) cow_ok_calls [of ?q ?pw] by simp
  have qc: "pl_contents ?q l = idl_ptrs l w" using pl_contents_calls [of ?q ?pw] by simp
  from add_ok [OF q, of 0 l ?t] obtain l' q' where a: "GWEN_SimplePtrList_AddPtr l ?t ?q = Ret (int (length (idl_ptrs l w)), l', q')"
    "cow_ok 64 (2 * n) [Some l'] q'" "pl_contents q' l' = idl_ptrs l w @ [?t]"
    using qc by (auto simp: cow_values_def)
  have at: "\<not> cow l" "fl_has (pl_flags l) GWEN_SIMPLEPTRLIST_FLAGS_ATTACHTOOBJECTS" "pl_attachObjectFn l = Some 1" "?t \<noteq> 0"
    using ok(1,5) by (simp_all add: idl_head_ok_def)
  have fld: "w_calls q' = [AttachCall 1 ?t]" "\<exists>a m u. l' = l\<lparr>pl_entryList := a, pl_maxEntries := m, pl_usedEntries := u\<rparr>"
    using add_fields [OF a(1) at(1) _ at(4,2,3)] by simp_all
  define w3 where "w3 = w2\<lparr>iw_ptrs := q'\<lparr>w_calls := []\<rparr>\<rparr>"
  define w4 where "w4 = iw_set w3 ?t (Some (f1\<lparr>it_refCount := 2\<rparr>))"
  have rc: "it_refCount f1 = 1" by (simp add: f1_def ft_def GWEN_IdTable64_AddRuntimeFlags_def GWEN_IdTable64_new_def)
  have t3: "iw_table w3 ?t = Ret f1" using ok(5) by (simp add: iw_table_def w3_def p2)
  have ad: "GWEN_IdList64_AddTable l ?t w2 = Ret ((int (length (idl_ptrs l w)), l'), w4)"
    by (simp add: GWEN_IdList64_AddTable_def on_ptrs_def pl_op_def p2 a(1) fld(1) GWEN_IdTable64_Attach_def t3 rc w4_def flip: w3_def)
  define w5 where "w5 = iw_set w4 ?t (Some f1)"
  have f1r: "f1\<lparr>it_refCount := 1\<rparr> = f1" using rc by simp
  have t4: "iw_table w4 ?t = Ret (f1\<lparr>it_refCount := 2\<rparr>)" using ok(5) by (simp add: iw_table_def w4_def iw_set_def)
  have fr: "GWEN_IdTable64_free ?t w4 = Ret w5" using ok(5) f1r by (simp add: GWEN_IdTable64_free_def t4 w5_def)
  have tot: "obind (GWEN_IdTable64_Create (of_int (int E)) w) (\<lambda>(t, w).
        obind (iw_table w t) (\<lambda>ft.
        let w = iw_set w t (Some (GWEN_IdTable64_AddRuntimeFlags ft GWEN_IDTABLE64_RUNTIME_FLAGS_ISCOPY))
        in obind (GWEN_IdList64_AddTable l t w) (\<lambda>((idx, idl), w).
           obind (GWEN_IdTable64_free t w) (\<lambda>w. Ret ((idx, t), idl, w))))) = Ret ((int (length (idl_ptrs l w)), ?t), l', w5)"
    using cr t1 ad fr by (simp add: Let_def flip: f1_def w2_def)
  have w5: "iw_ptrs w5 = q'\<lparr>w_calls := []\<rparr>" "iw_tables w5 = (iw_tables w)(?t := Some f1)" "iw_fresh w5 = Suc ?t"
    by (simp_all add: w5_def w4_def w3_def iw_set_def p2)
  have ptrs: "idl_ptrs l' w5 = idl_ptrs l w @ [?t]" using a(3) pl_contents_calls [of "q'\<lparr>w_calls := []\<rparr>" q'] by (simp add: w5(1))
  have tok: "table_ok E f1"
    by (auto simp: table_ok_def f1_def ft_def GWEN_IdTable64_AddRuntimeFlags_def GWEN_IdTable64_new_def GWEN_IDTABLE64_RUNTIME_FLAGS_ISCOPY_def
        intro!: exI [of _ 0])
  have tb: "table_bag f1 = {#}" by (simp add: table_bag_def f1_def ft_def GWEN_IdTable64_AddRuntimeFlags_def)
  have nin: "?t \<notin> set (idl_ptrs l w)" using ok(7) by auto
  have "(\<Sum>t \<leftarrow> idl_ptrs l w. table_bag (the (iw_tables w5 t))) = (\<Sum>t \<leftarrow> idl_ptrs l w. table_bag (the (iw_tables w t)))"
    using nin by (intro arg_cong [where f = sum_list] map_cong) (auto simp: w5(2))
  moreover have "table_bag (the (iw_tables w5 ?t)) = {#}" by (simp add: w5(2) tb)
  ultimately have bag: "idl_bag (l', w5) = idl_bag (l, w)" by (simp only: idl_bag_sum ptrs map_append sum_list_append list.map sum_list.Cons sum_list.Nil) simp
  have hd: "idl_head_ok E l'" "pl_userCounter l' = pl_userCounter l" using ok(1) fld(2) by (auto simp: idl_head_ok_def)
  have i1: "cow_ok 64 (2 * n) [Some l'] (iw_ptrs w5)" using a(2) cow_ok_calls [of "q'\<lparr>w_calls := []\<rparr>" q'] by (simp add: w5(1))
  have i2: "\<forall>t \<in> set (idl_ptrs l' w5). t \<noteq> 0 \<and> t < iw_fresh w5 \<and> (\<exists>ft. iw_tables w5 t = Some ft \<and> table_ok E ft)"
    using ok(5,7) tok nin by (auto simp: ptrs w5(2,3) less_SucI)
  have i3: "length (idl_ptrs l' w5) + n < 2147483648" "distinct (idl_ptrs l' w5)" using ok(3,6) nin by (simp_all add: ptrs)
  have i4: "pl_userCounter l' = of_nat (size (idl_bag (l', w5)))" "0 < iw_fresh w5" using ok(4) by (simp_all add: bag hd(2) w5(3))
  have "idl_ok E n (l', w5)" unfolding idl_ok_def prod.case by (intro conjI hd(1) i1 i2 i3 i4)
  moreover have "unat (of_nat E :: u64) = E" using E by (intro unat_of_nat_u64) simp
  then have "(of_nat E :: u64) \<noteq> 0" using E(1) by auto
  then have "it_freeEntries f1 \<noteq> 0" by (simp add: f1_def ft_def GWEN_IdTable64_AddRuntimeFlags_def)
  ultimately show ?thesis using tot bag ptrs w5(2) tok by (intro exI [of _ "length (idl_ptrs l w)"] exI [of _ l'] exI [of _ w5]) (simp add: table_ok_def)
qed

lemma add_id_law:
  assumes "idl_ok E (Suc n) (l, w)" "x \<noteq> 0"
  shows "\<exists>rv l' w'. GWEN_IdList64_AddId l x w = Ret (rv, l', w') \<and> idl_ok E n (l', w') \<and> idl_bag (l', w') = add_mset x (idl_bag (l, w))"
proof -
  have ok: "idl_head_ok E l" "cow_ok 64 (2 * Suc n) [Some l] (iw_ptrs w)" using assms(1) by (simp_all add: idl_ok_def)
  note us = idl_used [OF ok(2)]
  have E: "GWEN_IdList64_GetTableMaxEntries l = Ret (int E)" "\<not> cow l" "pl_refCount l \<noteq> 0"
    using ok(1) us(2) by (simp_all add: GWEN_IdList64_GetTableMaxEntries_def GWEN_SimplePtrList_GetUserIntData_def idl_head_ok_def)
  define w1 where "w1 = w\<lparr>iw_ptrs := (iw_ptrs w)\<lparr>w_calls := []\<rparr>\<rparr>"
  have en: "on_ptrs (pl_op (GWEN_SimplePtrList_EnsureWritability l)) w = Ret ((0, l), w1)"
    by (simp add: on_ptrs_def pl_op_def ensure_plain [OF E(3,2)] w1_def)
  have wq: "iw_tables w1 = iw_tables w" "iw_fresh w1 = iw_fresh w" "pl_contents (iw_ptrs w1) = pl_contents (iw_ptrs w)"
    "cow_ok S k pls (iw_ptrs w1) = cow_ok S k pls (iw_ptrs w)" for S k pls
    by (simp_all add: w1_def pl_contents_calls [of "(iw_ptrs w)\<lparr>w_calls := []\<rparr>"] cow_ok_calls [of "(iw_ptrs w)\<lparr>w_calls := []\<rparr>"])
  have bag1: "idl_bag (l, w1) = idl_bag (l, w)" by (simp add: idl_bag_sum wq)
  have ok1: "idl_ok E (Suc n) (l, w1)" using assms(1) by (simp add: idl_ok_def wq bag1)
  have "\<exists>idx t l2 w2. id_last_table l (int E) w1 = Ret ((int idx, t), l2, w2) \<and> idl_ok E n (l2, w2) \<and> idl_bag (l2, w2) = idl_bag (l, w1)
      \<and> t \<in> set (idl_ptrs l2 w2)
      \<and> (\<exists>ft. iw_tables w2 t = Some ft \<and> it_freeEntries ft \<noteq> 0 \<and> it_runtimeFlags ft AND GWEN_IDTABLE64_RUNTIME_FLAGS_ISCOPY \<noteq> 0)"
  proof -
    let ?ps = "idl_ptrs l w1"
    have less: "idl_ok E n (l, w1)" using ok1 cow_ok_less [of 64 "2 * Suc n" "[Some l]" "iw_ptrs w1" "2 * n"] by (simp add: idl_ok_def)
    have un: "unat (pl_usedEntries l) = length ?ps" using us(1) by (simp add: wq)
    have lb: "length ?ps < 2147483648" using ok1 by (simp add: idl_ok_def)
    show ?thesis
    proof (cases "?ps = []")
      case True
      then have "pl_usedEntries l = 0" using un by (simp add: unat_eq_0)
      then have "GWEN_IdList64_GetLastTablePos l = Ret GWEN_ERROR_NO_DATA"
        using E(3) by (simp add: GWEN_IdList64_GetLastTablePos_def GWEN_SimplePtrList_GetUsedEntries_def)
      then show ?thesis using fresh_table [OF ok1] by (auto simp: id_last_table_def gwen_errors)
    next
      case False
      let ?i = "length ?ps - 1"
      have nz: "pl_usedEntries l \<noteq> 0" using un False by (metis length_0_conv unat_0)
      have ui: "unat (pl_usedEntries l - 1) = ?i" using nz un by (simp add: unat_minus_one)
      then have "sint (pl_usedEntries l - 1) = int ?i" using lb by (subst sint_uint_u64_small) simp_all
      then have lp: "GWEN_IdList64_GetLastTablePos l = Ret (int ?i)"
        using E(3) nz by (simp add: GWEN_IdList64_GetLastTablePos_def GWEN_SimplePtrList_GetUsedEntries_def)
      have ta: "GWEN_IdList64_GetTableAt l (of_int (int ?i)) w1 = Ret (?ps ! ?i)"
        using table_at [of 64 "2 * Suc n" l w1 ?i] ok1 False by (simp add: idl_ok_def)
      let ?t = "?ps ! ?i"
      have t: "?t \<in> set ?ps" using False by simp
      then obtain ft where ft: "?t \<noteq> 0" "iw_tables w1 ?t = Some ft" "table_ok E ft" using ok1 by (auto simp: idl_ok_def)
      have tb: "iw_table w1 ?t = Ret ft" "it_refCount ft \<noteq> 0" using ft by (simp_all add: iw_table_def table_ok_def)
      show ?thesis
      proof (cases "it_freeEntries ft = 0")
        case True
        then show ?thesis using fresh_table [OF ok1] lp ta ft(1) tb by (auto simp: id_last_table_def simp del: of_int_of_nat_eq)
      next
        case False
        then have "id_last_table l (int E) w1 = Ret ((int ?i, ?t), l, w1)"
          using lp ta ft(1) tb by (simp add: id_last_table_def del: of_int_of_nat_eq)
        then show ?thesis using less t ft False by (intro exI [of _ ?i] exI [of _ ?t] exI [of _ l] exI [of _ w1]) (simp add: table_ok_def)
      qed
    qed
  qed
  then obtain idx t l2 w2 ft where lt: "id_last_table l (int E) w1 = Ret ((int idx, t), l2, w2)" "idl_ok E n (l2, w2)" "idl_bag (l2, w2) = idl_bag (l, w1)"
    "t \<in> set (idl_ptrs l2 w2)" "iw_tables w2 t = Some ft" "it_freeEntries ft \<noteq> 0" "it_runtimeFlags ft AND GWEN_IDTABLE64_RUNTIME_FLAGS_ISCOPY \<noteq> 0" by blast
  have "iw_table w2 t = Ret ft" using lt(2,4,5) by (auto simp: iw_table_def idl_ok_def)
  then have "GWEN_IdList64_AddId l x w = id_store l2 t (int idx * int E) (int E) x w2"
    using assms(2) lt(1,6,7) by (simp add: GWEN_IdList64_AddId_def E(1) en)
  with store_law [OF lt(2,4,5,6) assms(2), of "int idx * int E"] lt(3) bag1 show ?thesis by simp
qed

section \<open>Id lists are bags\<close>

abbreviation id_add :: "gwen_simpleptrlist \<times> id_world \<Rightarrow> u64 \<Rightarrow> (int \<times> gwen_simpleptrlist \<times> id_world) outcome" where
  "id_add l x \<equiv> GWEN_IdList64_AddId (fst l) x (snd l)"

abbreviation id_remove :: "gwen_simpleptrlist \<times> id_world \<Rightarrow> u64 \<Rightarrow> (int \<times> gwen_simpleptrlist \<times> id_world) outcome" where
  "id_remove l x \<equiv> GWEN_IdList64_DelId (fst l) x (snd l)"

lemma idl_ok_less: "idl_ok E (Suc n) l \<Longrightarrow> idl_ok E n l"
  using cow_ok_less [of 64 "2 * Suc n" _ _ "2 * n"] by (cases l) (simp add: idl_ok_def)

interpretation idl: counted_bag "idl_ok E" idl_bag "\<lambda>x. x" "\<lambda>x. x \<noteq> 0" id_add id_remove "\<lambda>l x. GWEN_IdList64_HasId (fst l) x (snd l)" for E
proof
  fix n :: nat and l :: "gwen_simpleptrlist \<times> id_world" and x :: u64
  obtain i w where l: "l = (i, w)" by fastforce
  show "\<exists>rv l'. id_add l x = Ret (rv, l') \<and> idl_ok E n l' \<and> idl_bag l' = add_mset x (idl_bag l)" if "idl_ok E (Suc n) l" "x \<noteq> 0"
    using add_id_law [of E n i w x] that by (auto simp: l)
  show "\<exists>l'. id_remove l x = Ret (if x \<in># idl_bag l then 1 else 0, l') \<and> idl_ok E n l' \<and> idl_bag l' = idl_bag l - {#x#}"
    if "idl_ok E (Suc n) l" "x \<noteq> 0"
    using del_id_law [of E n i w x] idl_ok_less [OF that(1)] that(2) by (auto simp: l)
  show "GWEN_IdList64_HasId (fst l) x (snd l) = Ret (x \<in># idl_bag l)" if "idl_ok E n l" "x \<noteq> 0"
    using has_id_law [of E n i w x] that by (simp add: l)
qed

lemma new_idlist:
  assumes "w_ok (iw_ptrs w) = (\<lambda>_. True)" "\<forall>a \<ge> w_next (iw_ptrs w). w_blocks (iw_ptrs w) a = None" "0 < iw_fresh w"
    "0 < steps" "unat steps < 1073741824" "n < 1073741824"
  shows "\<exists>l w'. GWEN_IdList64_newWithSteps steps w = Ret (l, w') \<and> idl_ok (unat steps) n (l, w') \<and> idl_bag (l, w') = {#}"
proof -
  let ?q = "(iw_ptrs w)\<lparr>w_calls := []\<rparr>"
  have "unat GWEN_IDLIST64_INITIAL_ENTRYCOUNT + (2 * n) * unat GWEN_IDLIST64_STEPS < 2 ^ 60"
    using assms(6) by (simp add: GWEN_IDLIST64_INITIAL_ENTRYCOUNT_def GWEN_IDLIST64_STEPS_def)
  moreover have "w_ok ?q = (\<lambda>_. True)" "\<forall>a \<ge> w_next ?q. w_blocks ?q a = None" using assms(1,2) by simp_all
  ultimately obtain pl q' where p: "GWEN_SimplePtrList_new GWEN_IDLIST64_INITIAL_ENTRYCOUNT GWEN_IDLIST64_STEPS ?q = Ret (pl, q')"
    "cow_ok GWEN_IDLIST64_STEPS (2 * n) [Some pl] q'" "cow_values [Some pl] q' = [Some []]"
    using new_list_ok [of ?q] by blast
  have f: "pl_flags pl = 0" "pl_userCounter pl = 0" "pl_refCount pl = 1" "w_calls q' = []"
    using p(1) by (auto simp: GWEN_SimplePtrList_new_def mallocPtrList_def obind_Ret_iff w_set_def split: if_splits)
  define w1 where "w1 = w\<lparr>iw_ptrs := q'\<lparr>w_calls := []\<rparr>\<rparr>"
  have on: "on_ptrs (GWEN_SimplePtrList_new GWEN_IDLIST64_INITIAL_ENTRYCOUNT GWEN_IDLIST64_STEPS) w = Ret (pl, w1)"
    by (simp add: on_ptrs_def p(1) f(4) w1_def)
  define l where "l = pl\<lparr>pl_attachObjectFn := Some 1, pl_freeObjectFn := Some 2,
    pl_flags := GWEN_SIMPLEPTRLIST_FLAGS_ATTACHTOOBJECTS OR GWEN_SIMPLEPTRLIST_FLAGS_DETACHFROMOBJECTS, pl_userIntData := int (unat steps)\<rparr>"
  have st: "sint (ucast steps :: u32) = int (unat steps)"
    using assms(5) unat_ucast_u64_u32 [of steps] sint_u32_small [of "ucast steps"] by simp
  have nw: "GWEN_IdList64_newWithSteps steps w = Ret (l, w1)"
    by (simp add: GWEN_IdList64_newWithSteps_def on GWEN_SimplePtrList_SetAttachObjectFn_def GWEN_SimplePtrList_SetFreeObjectFn_def
        GWEN_SimplePtrList_AddFlags_def GWEN_SimplePtrList_SetUserIntData_def f(1,3) st l_def)
  have "pl_contents q' pl = []" using p(3) by (simp add: cow_values_def)
  moreover have "pl_contents x l = pl_contents x pl" for x by (simp add: pl_contents_def l_def split: option.split)
  ultimately have c: "idl_ptrs l w1 = []" using pl_contents_calls [of "q'\<lparr>w_calls := []\<rparr>" q'] by (simp add: w1_def)
  then have b: "idl_bag (l, w1) = {#}" by (simp add: idl_bag_def)
  have hd: "idl_head_ok (unat steps) l" "pl_userCounter l = 0"
    using assms(4,5) by (simp_all add: idl_head_ok_def l_def f(2) unat_gt_0 word_gt_0 GWEN_SIMPLEPTRLIST_FLAGS_COPYONWRITE_def
        GWEN_SIMPLEPTRLIST_FLAGS_ATTACHTOOBJECTS_def GWEN_SIMPLEPTRLIST_FLAGS_DETACHFROMOBJECTS_def)
  have "cow_ok 64 (2 * n) [Some l] q'"
    using p(2) hd(1) by (auto simp: cow_ok_def pl_ok_def holders_def holds_def l_def GWEN_IDLIST64_STEPS_def)
  then have "cow_ok 64 (2 * n) [Some l] (iw_ptrs w1)" using cow_ok_calls [of "q'\<lparr>w_calls := []\<rparr>" q'] by (simp add: w1_def)
  then have "idl_ok (unat steps) n (l, w1)" using hd assms(3,6) by (simp add: idl_ok_def c b) (simp add: w1_def)
  then show ?thesis using nw b by blast
qed

text \<open>C9. An id list that is not shared is a bag of ids, whatever the size of its tables: after any sequence of additions
  and removals an id is in the list exactly if it was added more often than removed, and the list counts its ids.\<close>

theorem idlist_bag:
  assumes "w_ok (iw_ptrs w) = (\<lambda>_. True)" "\<forall>a \<ge> w_next (iw_ptrs w). w_blocks (iw_ptrs w) a = None" "0 < iw_fresh w"
    "0 < steps" "unat steps < 1073741824" "length ops < 1073741824" "\<forall>c \<in> set ops. bag_elem c \<noteq> 0"
  shows "\<exists>l0 l w'. GWEN_IdList64_newWithSteps steps w = Ret l0 \<and> bag_calls id_add id_remove ops l0 = Ret (l, w')
    \<and> (\<forall>x. x \<noteq> 0 \<longrightarrow> GWEN_IdList64_HasId l x w' = Ret (x \<in># fold (bag_effect (\<lambda>x. x)) ops {#}))
    \<and> GWEN_IdList64_GetEntryCount l = Ret (of_nat (size (fold (bag_effect (\<lambda>x. x)) ops {#})))"
proof -
  obtain l0 w0 where n: "GWEN_IdList64_newWithSteps steps w = Ret (l0, w0)" "idl_ok (unat steps) (length ops) (l0, w0)" "idl_bag (l0, w0) = {#}"
    using new_idlist [OF assms(1-6)] by blast
  have "idl_ok (unat steps) (0 + length ops) (l0, w0)" using n(2) by simp
  from idl.calls_law [OF this assms(7)] n(3) obtain l' where c: "bag_calls id_add id_remove ops (l0, w0) = Ret l'"
    "idl_ok (unat steps) 0 l'" "idl_bag l' = fold (bag_effect (\<lambda>x. x)) ops {#}"
    "\<forall>x. x \<noteq> 0 \<longrightarrow> GWEN_IdList64_HasId (fst l') x (snd l') = Ret (x \<in># fold (bag_effect (\<lambda>x. x)) ops {#})" by auto
  obtain l w' where l: "l' = (l, w')" by fastforce
  have "pl_refCount l = 1" "pl_userCounter l = of_nat (size (idl_bag l'))" using c(2) idl_used(2) by (auto simp: idl_ok_def l)
  then have "GWEN_IdList64_GetEntryCount l = Ret (of_nat (size (fold (bag_effect (\<lambda>x. x)) ops {#})))"
    by (simp add: GWEN_IdList64_GetEntryCount_def GWEN_SimplePtrList_GetUserCounter_def c(3))
  then show ?thesis using n(1) c(1,4) by (auto simp: l)
qed

definition empty_ids :: id_world where
  "empty_ids = \<lparr>iw_ptrs = empty_world, iw_tables = \<lambda>_. None, iw_fresh = 1\<rparr>"

theorem idlist_bag_witness:
  "\<exists>l0 l w'. GWEN_IdList64_newWithSteps 2 empty_ids = Ret l0
    \<and> bag_calls id_add id_remove [BagAdd 5, BagAdd 6, BagAdd 5, BagRemove 6, BagRemove 5] l0 = Ret (l, w')
    \<and> GWEN_IdList64_HasId l 5 w' = Ret True \<and> GWEN_IdList64_HasId l 6 w' = Ret False \<and> GWEN_IdList64_GetEntryCount l = Ret 1"
proof -
  let ?ops = "[BagAdd 5, BagAdd 6, BagAdd 5, BagRemove 6, BagRemove 5] :: u64 bag_op list"
  have f: "fold (bag_effect (\<lambda>x. x)) ?ops {#} = {#5#}" by simp
  have "w_ok (iw_ptrs empty_ids) = (\<lambda>_. True)" "\<forall>a \<ge> w_next (iw_ptrs empty_ids). w_blocks (iw_ptrs empty_ids) a = None" "0 < iw_fresh empty_ids"
    by (simp_all add: empty_ids_def empty_world_def)
  note w = this
  have s: "(0 :: u64) < 2" "unat (2 :: u64) < 1073741824" "length ?ops < 1073741824" "\<forall>c \<in> set ?ops. bag_elem c \<noteq> 0" by simp_all
  obtain l0 l w' where r: "GWEN_IdList64_newWithSteps 2 empty_ids = Ret l0" "bag_calls id_add id_remove ?ops l0 = Ret (l, w')"
    "\<forall>x. x \<noteq> 0 \<longrightarrow> GWEN_IdList64_HasId l x w' = Ret (x \<in># {#5#})" "GWEN_IdList64_GetEntryCount l = Ret (of_nat (size {#5 :: u64#}))"
    using idlist_bag [OF w s, unfolded f] by blast
  have "GWEN_IdList64_HasId l 5 w' = Ret True" "GWEN_IdList64_HasId l 6 w' = Ret False" "GWEN_IdList64_GetEntryCount l = Ret 1"
    using r(3,4) by simp_all
  with r(1,2) show ?thesis by blast
qed

section \<open>What lazy copies share\<close>

text \<open>An id added to a lazy copy shows up in the original, and the copy counts only the ids added to it: the copy-on-write
  of the tables never happens, since every table is marked as a copy from the start.\<close>

lemma idlist_copy_leaks:
  "obind (GWEN_IdList64_newWithSteps 4 empty_ids) (\<lambda>(l, w).
   obind (GWEN_IdList64_AddId l 5 w) (\<lambda>(_, l, w).
   obind (GWEN_IdList64_LazyCopy l w) (\<lambda>((new, old), w).
   obind (GWEN_IdList64_AddId new 9 w) (\<lambda>(_, new, w).
   obind (GWEN_IdList64_HasId old 9 w) (\<lambda>leaked.
   obind (GWEN_IdList64_GetEntryCount new) (\<lambda>n. Ret (leaked, n))))))) = Ret (True, 1)"
  by code_simp

text \<open>Sorting a lazy copy empties the original; asking for id 0 finds a free entry, and deleting it counts.\<close>

lemma idlist_sort_copy:
  "obind (GWEN_IdList64_newWithSteps 4 empty_ids) (\<lambda>(l, w).
   obind (GWEN_IdList64_AddId l 5 w) (\<lambda>(_, l, w).
   obind (GWEN_IdList64_LazyCopy l w) (\<lambda>((new, old), w).
   obind (GWEN_IdList64_Sort old w) (\<lambda>(_, old, w). GWEN_IdList64_HasId new 5 w)))) = Ret False"
  by code_simp

lemma idlist_zero:
  "obind (GWEN_IdList64_newWithSteps 4 empty_ids) (\<lambda>(l, w).
   obind (GWEN_IdList64_AddId l 5 w) (\<lambda>(_, l, w).
   obind (GWEN_IdList64_DelId l 0 w) (\<lambda>(rv, l, w).
   obind (GWEN_IdList64_GetEntryCount l) (\<lambda>n. obind (GWEN_IdList64_HasId l 5 w) (\<lambda>b. Ret (rv, n, b)))))) = Ret (1, 0, True)"
  by code_simp

end
