(* ===== verification/Gwen_IdMap.thy ===== *)
theory Gwen_IdMap
  imports Gwen_Prelude
begin

text \<open>
  Maps from 32 bit ids to pointers, \<^verbatim>\<open>src/base/idmap.c\<close>: a tree of tables with 16 entries, one level for each hexadecimal digit
  of an id. A pointer to a table is its position in the tree, the list of the digits that lead to it, so that its parent is the
  position without the last digit. A pointer that the caller stores is a value, a null pointer \<open>None\<close>.
\<close>

section \<open>Tables\<close>

datatype gwen_idmap_result = IdMapResult_Ok | IdMapResult_NoFit | IdMapResult_NotFound

datatype gwen_idmap_algo = IdMapAlgo_Unknown | IdMapAlgo_Hex4

text \<open>\<^verbatim>\<open>isPtrTable\<close> is the constructor.\<close>

datatype 'a gwen_idmap_hex4_table = Hex4Ptrs "'a option list" | Hex4Tables "'a gwen_idmap_hex4_table option list"

record 'a gwen_idmap =
  im_algo :: gwen_idmap_algo
  im_table :: "'a gwen_idmap_hex4_table"
  im_count :: u32

definition GWEN_IdMapHex4Map_new :: "bool \<Rightarrow> 'a gwen_idmap_hex4_table" where
  "GWEN_IdMapHex4Map_new isPtrTable = (if isPtrTable then Hex4Ptrs (replicate 16 None) else Hex4Tables (replicate 16 None))"

definition GWEN_IdMap_new :: "gwen_idmap_algo \<Rightarrow> 'a gwen_idmap option" where
  "GWEN_IdMap_new algo =
    (case algo of
       IdMapAlgo_Hex4 \<Rightarrow> Some \<lparr>im_algo = algo, im_table = GWEN_IdMapHex4Map_new False, im_count = 0\<rparr>
     | IdMapAlgo_Unknown \<Rightarrow> None)"

text \<open>Clearing replaces the tables and leaves the number of entries.\<close>

definition GWEN_IdMap_Clear :: "'a gwen_idmap \<Rightarrow> 'a gwen_idmap" where
  "GWEN_IdMap_Clear m = m\<lparr>im_table := GWEN_IdMapHex4Map_new False\<rparr>"

definition GWEN_IdMap_GetSize :: "'a gwen_idmap \<Rightarrow> u32" where
  "GWEN_IdMap_GetSize m = im_count m"

definition hex4_digit :: "u32 \<Rightarrow> nat \<Rightarrow> nat" where
  "hex4_digit key s = unat (drop_bit s key AND 0xf)"

definition hex4_digits :: "u32 \<Rightarrow> nat list" where
  "hex4_digits key = map (hex4_digit key) [28, 24, 20, 16, 12, 8, 4, 0]"

section \<open>Setting and finding\<close>

fun hex4_empty :: "'a gwen_idmap_hex4_table \<Rightarrow> bool" where
  "hex4_empty (Hex4Ptrs ps) = list_all (\<lambda>p. p = None) ps"
| "hex4_empty (Hex4Tables ts) = list_all (\<lambda>t. case t of None \<Rightarrow> True | Some _ \<Rightarrow> False) ts"

text \<open>Down along the digits, where tables are created for a pointer that is set; a null pointer whose table is missing is not
  found. On the way back tables that became empty are deleted. The pointer is stored in a table of pointers at the last digit.\<close>

fun hex4_set :: "nat list \<Rightarrow> 'a option \<Rightarrow> 'a gwen_idmap_hex4_table \<Rightarrow> 'a gwen_idmap_hex4_table option outcome" where
  "hex4_set [d] v (Hex4Ptrs ps) = Ret (Some (Hex4Ptrs (ps[d := v])))"
| "hex4_set (d # d' # ds) v (Hex4Tables ts) =
    (if ts ! d = None \<and> v = None then Ret None
     else obind (hex4_set (d' # ds) v (case ts ! d of None \<Rightarrow> GWEN_IdMapHex4Map_new (ds = []) | Some t \<Rightarrow> t)) (\<lambda>t.
       Ret (map_option (\<lambda>t. Hex4Tables (ts[d := if v = None \<and> hex4_empty t then None else Some t])) t)))"
| "hex4_set _ _ _ = Fault"

definition GWEN_IdMapHex4_Insert :: "'a gwen_idmap \<Rightarrow> u32 \<Rightarrow> 'a option \<Rightarrow> (gwen_idmap_result \<times> 'a gwen_idmap) outcome" where
  "GWEN_IdMapHex4_Insert m key v =
     obind (hex4_set (hex4_digits key) v (im_table m)) (\<lambda>t.
       case t of
         None \<Rightarrow> Ret (IdMapResult_NotFound, m)
       | Some t \<Rightarrow>
           if v = None
           then obind (oassert (im_count m \<noteq> 0)) (\<lambda>_. Ret (IdMapResult_Ok, m\<lparr>im_table := t, im_count := im_count m - 1\<rparr>))
           else Ret (IdMapResult_Ok, m\<lparr>im_table := t, im_count := im_count m + 1\<rparr>))"

fun hex4_find :: "nat list \<Rightarrow> 'a gwen_idmap_hex4_table \<Rightarrow> 'a option outcome" where
  "hex4_find [d] (Hex4Ptrs ps) = Ret (ps ! d)"
| "hex4_find (d # d' # ds) (Hex4Tables ts) = (case ts ! d of None \<Rightarrow> Ret None | Some t \<Rightarrow> hex4_find (d' # ds) t)"
| "hex4_find _ _ = Fault"

definition GWEN_IdMapHex4_Find :: "'a gwen_idmap \<Rightarrow> u32 \<Rightarrow> 'a option outcome" where
  "GWEN_IdMapHex4_Find m key = hex4_find (hex4_digits key) (im_table m)"

text \<open>What the caller sees.\<close>

definition GWEN_IdMap_Insert :: "'a gwen_idmap \<Rightarrow> u32 \<Rightarrow> 'a option \<Rightarrow> (gwen_idmap_result \<times> 'a gwen_idmap) outcome" where
  "GWEN_IdMap_Insert m key v = obind (oassert (v \<noteq> None)) (\<lambda>_. GWEN_IdMapHex4_Insert m key v)"

definition GWEN_IdMap_Remove :: "'a gwen_idmap \<Rightarrow> u32 \<Rightarrow> (gwen_idmap_result \<times> 'a gwen_idmap) outcome" where
  "GWEN_IdMap_Remove m key = GWEN_IdMapHex4_Insert m key None"

definition GWEN_IdMap_Find :: "'a gwen_idmap \<Rightarrow> u32 \<Rightarrow> 'a option outcome" where
  "GWEN_IdMap_Find m key = GWEN_IdMapHex4_Find m key"

section \<open>Walking\<close>

text \<open>The table at a position.\<close>

fun hex4_at :: "'a gwen_idmap_hex4_table \<Rightarrow> nat list \<Rightarrow> 'a gwen_idmap_hex4_table option" where
  "hex4_at t [] = Some t"
| "hex4_at (Hex4Tables ts) (d # ds) = (case ts ! d of None \<Rightarrow> None | Some t \<Rightarrow> hex4_at t ds)"
| "hex4_at (Hex4Ptrs ps) (d # ds) = None"

definition GWEN_IdMapHex4__GetTable :: "'a gwen_idmap_hex4_table \<Rightarrow> u32 \<Rightarrow> nat list option" where
  "GWEN_IdMapHex4__GetTable t key = (let p = butlast (hex4_digits key) in map_option (\<lambda>_. p) (hex4_at t p))"

definition hex4_slot :: "'a gwen_idmap_hex4_table \<Rightarrow> nat \<Rightarrow> bool" where
  "hex4_slot t i = (case t of Hex4Ptrs ps \<Rightarrow> ps ! i \<noteq> None | Hex4Tables ts \<Rightarrow> (case ts ! i of None \<Rightarrow> False | Some _ \<Rightarrow> True))"

text \<open>The first of the entries \<open>is\<close> that is set and where \<open>f\<close> finds something.\<close>

fun hex4_scan :: "(nat \<Rightarrow> 'b option outcome) \<Rightarrow> (nat \<Rightarrow> bool) \<Rightarrow> nat list \<Rightarrow> 'b option outcome" where
  "hex4_scan f sl [] = Ret None"
| "hex4_scan f sl (i # is) =
    (if sl i then obind (f i) (\<lambda>r. case r of Some x \<Rightarrow> Ret (Some x) | None \<Rightarrow> hex4_scan f sl is) else hex4_scan f sl is)"

text \<open>The first table: every level starts with an id of its own, so that the id is that of the last level. Eight levels
  are the most there are.\<close>

primrec hex4_first :: "nat \<Rightarrow> 'a gwen_idmap_hex4_table \<Rightarrow> u32 option outcome" where
  "hex4_first 0 t = Hang"
| "hex4_first (Suc k) t =
     hex4_scan
       (\<lambda>i. case t of
          Hex4Ptrs ps \<Rightarrow> Ret (Some (of_nat i))
        | Hex4Tables ts \<Rightarrow> (case ts ! i of None \<Rightarrow> Fault | Some t \<Rightarrow> hex4_first k t))
       (hex4_slot t) [0..<16]"

definition GWEN_IdMapHex4__GetFirstTable :: "'a gwen_idmap_hex4_table \<Rightarrow> u32 option outcome" where
  "GWEN_IdMapHex4__GetFirstTable t = hex4_first 8 t"

text \<open>Up while the last digit is the greatest; \<open>None\<close> above the root.\<close>

fun hex4_up :: "nat \<Rightarrow> u32 \<Rightarrow> (nat \<times> u32) option" where
  "hex4_up 0 key = (if key AND 0xf = 0xf then None else Some (0, key))"
| "hex4_up (Suc l) key = (if key AND 0xf = 0xf then hex4_up l (drop_bit 4 key) else Some (Suc l, key))"

text \<open>The table at \<open>p\<close> or the next one: in a table of pointers from the last digit of the id on, else in the tables below, else
  further up. The rounds are given; twenty are enough for a tree of eight levels.\<close>

primrec hex4_next :: "nat \<Rightarrow> 'a gwen_idmap_hex4_table \<Rightarrow> nat list \<Rightarrow> u32 \<Rightarrow> bool \<Rightarrow> u32 option outcome" where
  "hex4_next 0 root p key incr = Hang"
| "hex4_next (Suc k) root p key incr =
    (case (if incr then map_option (\<lambda>(l, key). (take l p, key + 1)) (hex4_up (length p) key) else Some (p, key)) of
       None \<Rightarrow> Ret None
     | Some (p, key) \<Rightarrow>
         (case hex4_at root p of
            None \<Rightarrow> Fault
          | Some t \<Rightarrow>
              obind (hex4_scan
                (\<lambda>i. let lid = (key AND 0xfffffff0) OR of_nat i
                     in case t of
                          Hex4Ptrs ps \<Rightarrow> Ret (Some lid)
                        | Hex4Tables ts \<Rightarrow> hex4_next k root (p @ [i]) (push_bit 4 lid) False)
                (hex4_slot t) [unat (key AND 0xf)..<16]) (\<lambda>r.
                case r of
                  Some lid \<Rightarrow> Ret (Some lid)
                | None \<Rightarrow> if p = [] then Ret None else hex4_next k root (butlast p) (drop_bit 4 key) incr)))"

definition GWEN_IdMapHex4__GetNextTable :: "'a gwen_idmap_hex4_table \<Rightarrow> nat list \<Rightarrow> u32 \<Rightarrow> bool \<Rightarrow> u32 option outcome" where
  "GWEN_IdMapHex4__GetNextTable root p key incr = hex4_next 20 root p key incr"

definition GWEN_IdMapHex4_FindFirst :: "'a gwen_idmap \<Rightarrow> (gwen_idmap_result \<times> u32 option) outcome" where
  "GWEN_IdMapHex4_FindFirst m =
     obind (GWEN_IdMapHex4__GetFirstTable (im_table m)) (\<lambda>r.
       Ret (if r = None then IdMapResult_NotFound else IdMapResult_Ok, r))"

definition GWEN_IdMapHex4_FindNext :: "'a gwen_idmap \<Rightarrow> u32 \<Rightarrow> (gwen_idmap_result \<times> u32 option) outcome" where
  "GWEN_IdMapHex4_FindNext m key =
    (case GWEN_IdMapHex4__GetTable (im_table m) key of
       None \<Rightarrow> Abort
     | Some p \<Rightarrow>
         obind (GWEN_IdMapHex4__GetNextTable (im_table m) p key True) (\<lambda>r.
           Ret (if r = None then IdMapResult_NotFound else IdMapResult_Ok, r)))"

definition GWEN_IdMap_GetFirst :: "'a gwen_idmap \<Rightarrow> (gwen_idmap_result \<times> u32 option) outcome" where
  "GWEN_IdMap_GetFirst m = GWEN_IdMapHex4_FindFirst m"

definition GWEN_IdMap_GetNext :: "'a gwen_idmap \<Rightarrow> u32 \<Rightarrow> (gwen_idmap_result \<times> u32 option) outcome" where
  "GWEN_IdMap_GetNext m key = GWEN_IdMapHex4_FindNext m key"

end
