(* ===== verification/Gwen_IdMapProps.thy ===== *)
theory Gwen_IdMapProps
  imports Gwen_IdMap
begin

text \<open>
  The tree of \<^verbatim>\<open>Gwen_IdMap\<close> as a map from ids to pointers: the invariant of the tree, the effect of a store on the lookup
  function, the ids in ascending order, and the refinement of every operation.
\<close>

section \<open>The tree as a lookup function\<close>

text \<open>A tree of \<open>n\<close> levels. Only the root may be empty.\<close>

fun hex4_wf :: "nat \<Rightarrow> 'a gwen_idmap_hex4_table \<Rightarrow> bool" where
  "hex4_wf 0 t = False"
| "hex4_wf (Suc n) (Hex4Ptrs ps) = (n = 0 \<and> length ps = 16)"
| "hex4_wf (Suc n) (Hex4Tables ts) = (0 < n \<and> length ts = 16 \<and> (\<forall>i t. i < 16 \<longrightarrow> ts ! i = Some t \<longrightarrow> hex4_wf n t \<and> \<not> hex4_empty t))"

fun hex4_lookup :: "nat \<Rightarrow> 'a gwen_idmap_hex4_table \<Rightarrow> nat \<Rightarrow> 'a option" where
  "hex4_lookup 0 t v = None"
| "hex4_lookup (Suc n) (Hex4Ptrs ps) v = ps ! (v mod 16)"
| "hex4_lookup (Suc n) (Hex4Tables ts) v = (case ts ! (v div 16 ^ n mod 16) of None \<Rightarrow> None | Some t \<Rightarrow> hex4_lookup n t v)"

primrec digs :: "nat \<Rightarrow> nat \<Rightarrow> nat list" where
  "digs 0 v = []"
| "digs (Suc n) v = v div 16 ^ n mod 16 # digs n v"

lemma length_digs [simp]: "length (digs n v) = n"
  by (induction n) simp_all

lemma digs_Nil_iff [simp]: "digs n v = [] \<longleftrightarrow> n = 0"
  by (cases n) simp_all

lemma digs_Suc_Suc: "digs (Suc (Suc n)) v = v div 16 ^ Suc n mod 16 # v div 16 ^ n mod 16 # digs n v"
  by simp

lemma digs_take_div: "digs n (v div 16) @ [v mod 16] = digs (Suc n) v"
  by (induction n) (simp_all add: div_mult2_eq)

lemma digs_mod: "digs n (v mod 16 ^ n) = digs n v"
proof -
  have "n \<le> m \<Longrightarrow> digs n (v mod 16 ^ m) = digs n v" for m
  proof (induction n)
    case (Suc n)
    have "(v mod 16 ^ m) div 16 ^ n mod 16 = v div 16 ^ n mod 16"
    proof -
      obtain j where m: "m = Suc n + j" using Suc.prems le_Suc_ex by blast
      have d: "a div 16 ^ n mod 16 = a mod (16 ^ n * 16) div 16 ^ n" for a :: nat by (simp add: mod_mult2_eq)
      have "(v mod 16 ^ m) mod (16 ^ n * 16) = v mod (16 ^ n * 16)"
        by (rule mod_mod_cancel) (simp add: m power_add)
      then show ?thesis by (simp only: d)
    qed
    then show ?case using Suc by simp
  qed simp
  then show ?thesis by simp
qed

lemma hex4_digit_nat: "hex4_digit key s = unat key div 2 ^ s mod 16"
proof -
  have "(0xf :: u32) = mask 4" by (simp add: mask_eq_exp_minus_1)
  then have "drop_bit s key AND 0xf = take_bit 4 (drop_bit s key)" by (simp add: take_bit_eq_mask)
  then show ?thesis by (simp add: hex4_digit_def unat_take_bit_u32 unat_drop_bit_u32)
qed

lemma hex4_digits_digs: "hex4_digits key = digs 8 (unat key)"
proof -
  have "digs n v = map (\<lambda>i. v div 16 ^ i mod 16) (rev [0..<n])" for n v
    by (induction n) simp_all
  moreover have "rev [0..<8] = [7, 6, 5, 4, 3, 2, 1, 0]"
    by (simp add: upt_rec)
  ultimately show ?thesis by (simp add: hex4_digits_def hex4_digit_nat)
qed

lemma wf_ptrs: "hex4_wf n (Hex4Ptrs ps) \<longleftrightarrow> n = 1 \<and> length ps = 16"
  by (cases n) auto

lemma wf_tables:
  "hex4_wf n (Hex4Tables ts) \<longleftrightarrow> (\<exists>k. n = Suc (Suc k)) \<and> length ts = 16 \<and>
     (\<forall>i t. i < 16 \<longrightarrow> ts ! i = Some t \<longrightarrow> hex4_wf (n - 1) t \<and> \<not> hex4_empty t)"
  by (cases n; cases "n - 1") auto

lemma wf_sub: "hex4_wf (Suc n) (Hex4Tables ts) \<Longrightarrow> ts ! (j mod 16) = Some t \<Longrightarrow> hex4_wf n t \<and> \<not> hex4_empty t"
  unfolding hex4_wf.simps using mod_less_divisor [OF zero_less_numeral] by blast

lemma mod_16_Suc:
  "w mod 16 ^ Suc n = v mod 16 ^ Suc n \<longleftrightarrow> w div 16 ^ n mod 16 = v div 16 ^ n mod 16 \<and> w mod 16 ^ n = (v :: nat) mod 16 ^ n"
proof -
  have e: "a mod 16 ^ Suc n = 16 ^ n * (a div 16 ^ n mod 16) + a mod 16 ^ n" for a :: nat
    by (simp add: mod_mult2_eq mult.commute [of 16])
  have l: "a mod 16 ^ n < 16 ^ n" for a :: nat by simp
  have "16 ^ n * a + b = 16 ^ n * a' + b' \<longleftrightarrow> a = a' \<and> b = b'" if "b < 16 ^ n" "b' < 16 ^ n" for a a' b b' :: nat
    using that by (metis div_mult_self4 add.commute add_cancel_right_left div_less add_left_cancel not_less0)
  then show ?thesis by (simp only: e l)
qed

lemma wf_new: "hex4_wf (Suc n) (GWEN_IdMapHex4Map_new (n = 0))"
  by (auto simp: GWEN_IdMapHex4Map_new_def)

lemma lookup_new: "hex4_lookup n (GWEN_IdMapHex4Map_new b) v = None"
  by (cases n) (simp_all add: GWEN_IdMapHex4Map_new_def)

lemma empty_new [simp]: "hex4_empty (GWEN_IdMapHex4Map_new b)"
  by (simp add: GWEN_IdMapHex4Map_new_def list_all_iff)

lemma lookup_digs: "digs n w = digs n v \<Longrightarrow> hex4_lookup n t w = hex4_lookup n t v"
proof (induction n t v rule: hex4_lookup.induct)
    case (2 n ps v)
    have "last (digs (Suc n) w) = last (digs (Suc n) v)" using 2 by (rule arg_cong)
    then have "w mod 16 = v mod 16" by (simp only: digs_take_div [symmetric] last_snoc)
    then show ?case by simp
qed (auto split: option.split)

lemma lookup_mod: "hex4_lookup n t (v mod 16 ^ n) = hex4_lookup n t v"
  by (rule lookup_digs) (rule digs_mod)

lemma empty_lookup: "hex4_wf n t \<Longrightarrow> hex4_empty t \<longleftrightarrow> (\<forall>v. hex4_lookup n t v = None)"
proof (induction n arbitrary: t)
  case (Suc n)
  show ?case
  proof (cases t)
    case (Hex4Ptrs ps)
    then have "length ps = 16" using Suc.prems by simp
    then have "(\<forall>v. ps ! (v mod 16) = None) \<longleftrightarrow> (\<forall>i<16. ps ! i = None)"
      by (metis mod_less mod_less_divisor zero_less_numeral)
    then show ?thesis using Hex4Ptrs \<open>length ps = 16\<close> by (simp add: list_all_length)
  next
    case (Hex4Tables ts)
    then have l: "length ts = 16" and w: "\<And>i t. i < 16 \<Longrightarrow> ts ! i = Some t \<Longrightarrow> hex4_wf n t \<and> \<not> hex4_empty t"
      using Suc.prems by auto
    have "\<exists>v. hex4_lookup (Suc n) t v \<noteq> None" if iu: "i < 16" "ts ! i = Some u" for i u
    proof -
      obtain v where v: "hex4_lookup n u v \<noteq> None" using w [OF iu] Suc.IH [of u] by blast
      let ?v = "i * 16 ^ n + v mod 16 ^ n"
      have "?v div 16 ^ n mod 16 = i" "?v mod 16 ^ n = v mod 16 ^ n" using iu by simp_all
      then have "hex4_lookup (Suc n) t ?v = hex4_lookup n u v"
        using iu lookup_mod [of n u ?v] lookup_mod [of n u v] by (simp only: Hex4Tables hex4_lookup.simps option.simps)
      then show ?thesis using v by metis
    qed
    moreover have "hex4_lookup (Suc n) t v = None" if "\<forall>i<16. ts ! i = None" for v
      using that by (simp add: Hex4Tables)
    moreover have "hex4_empty t \<longleftrightarrow> (\<forall>i<16. ts ! i = None)"
      using l by (auto simp: Hex4Tables list_all_length split: option.splits)
    ultimately show ?thesis by (metis not_None_eq)
  qed
qed simp

section \<open>Setting and finding\<close>

lemma find_lookup: "hex4_wf n t \<Longrightarrow> hex4_find (digs n v) t = Ret (hex4_lookup n t v)"
proof (induction n arbitrary: t)
  case (Suc n)
  show ?case
  proof (cases t)
    case (Hex4Ptrs ps) then show ?thesis using Suc.prems by simp
  next
    case (Hex4Tables ts)
    then obtain k where "n = Suc k" using Suc.prems by (cases n) auto
    then have "hex4_find (digs (Suc n) v) t =
        (case ts ! (v div 16 ^ n mod 16) of None \<Rightarrow> Ret None | Some t \<Rightarrow> hex4_find (digs n v) t)"
      using \<open>n = Suc k\<close> by (simp add: Hex4Tables split: option.split)
    also have "\<dots> = Ret (hex4_lookup (Suc n) t v)"
      using Suc.IH wf_sub [OF Suc.prems [unfolded Hex4Tables]] by (simp add: Hex4Tables split: option.split)
    finally show ?thesis .
  qed
qed simp

text \<open>The path to the table of the last digit exists.\<close>

definition hex4_path :: "nat \<Rightarrow> 'a gwen_idmap_hex4_table \<Rightarrow> nat \<Rightarrow> bool" where
  "hex4_path n t v \<longleftrightarrow> hex4_at t (digs (n - 1) (v div 16)) \<noteq> None"

lemma path_Suc:
  "hex4_wf (Suc (Suc n)) (Hex4Tables ts) \<Longrightarrow>
     hex4_path (Suc (Suc n)) (Hex4Tables ts) v \<longleftrightarrow>
       (case ts ! (v div 16 ^ Suc n mod 16) of None \<Rightarrow> False | Some t \<Rightarrow> hex4_path (Suc n) t v)"
  by (simp add: hex4_path_def div_mult2_eq split: option.split)

lemma path_ptrs: "hex4_path (Suc 0) t v"
  by (simp add: hex4_path_def)

lemma set_lookup:
  assumes "hex4_wf n t"
  shows "if x = None \<and> \<not> hex4_path n t v then hex4_set (digs n v) x t = Ret None
    else \<exists>u. hex4_set (digs n v) x t = Ret (Some u) \<and> hex4_wf n u \<and>
      (\<forall>w. hex4_lookup n u w = (if w mod 16 ^ n = v mod 16 ^ n then x else hex4_lookup n t w))"
  using assms
proof (induction n arbitrary: t)
  case (Suc n)
  show ?case
  proof (cases t)
    case (Hex4Ptrs ps)
    then have "n = 0" "length ps = 16" using Suc.prems by simp_all
    then show ?thesis using path_ptrs [of t v] by (simp add: Hex4Ptrs nth_list_update)
  next
    case (Hex4Tables ts)
    then obtain k where k: "n = Suc k" and l: "length ts = 16" using Suc.prems by (cases n) auto
    let ?d = "v div 16 ^ n mod 16"
    have d: "?d < 16" by simp
    let ?s = "case ts ! ?d of None \<Rightarrow> GWEN_IdMapHex4Map_new (k = 0) | Some t \<Rightarrow> t"
    have s: "hex4_wf n ?s" using wf_sub [OF Suc.prems [unfolded Hex4Tables]] by (simp add: k wf_new split: option.split)
    have e: "hex4_set (digs (Suc n) v) x t =
      (if ts ! ?d = None \<and> x = None then Ret None
       else obind (hex4_set (digs n v) x ?s) (\<lambda>t.
         Ret (map_option (\<lambda>t. Hex4Tables (ts[?d := if x = None \<and> hex4_empty t then None else Some t])) t)))"
      by (simp add: Hex4Tables k digs_Suc_Suc cong: option.case_cong)
    have c: "x = None \<and> \<not> hex4_path (Suc n) t v \<longleftrightarrow>
        ts ! ?d = None \<and> x = None \<or> x = None \<and> \<not> hex4_path n ?s v"
      using path_Suc [OF Suc.prems [unfolded Hex4Tables k]] by (auto simp: Hex4Tables k split: option.split)
    show ?thesis
    proof (cases "ts ! ?d = None \<and> x = None \<or> x = None \<and> \<not> hex4_path n ?s v")
      case True
      then show ?thesis using Suc.IH [OF s] c by (simp only: e if_True) (auto split: if_splits)
    next
      case False
      then obtain u where u: "hex4_set (digs n v) x ?s = Ret (Some u)" "hex4_wf n u"
          "\<And>w. hex4_lookup n u w = (if w mod 16 ^ n = v mod 16 ^ n then x else hex4_lookup n ?s w)"
        using Suc.IH [OF s] by auto
      let ?t = "Hex4Tables (ts[?d := if x = None \<and> hex4_empty u then None else Some u])"
      have r: "hex4_set (digs (Suc n) v) x t = Ret (Some ?t)" using False u(1) by (simp add: e del: digs.simps)
      have "\<not> hex4_empty u" if "x \<noteq> None" using that u(3) [of v] empty_lookup [OF u(2)] by auto
      then have w: "hex4_wf (Suc n) ?t" using Suc.prems u(2) by (auto simp: Hex4Tables nth_list_update)
      have "hex4_lookup (Suc n) ?t w = (if w mod 16 ^ Suc n = v mod 16 ^ Suc n then x else hex4_lookup (Suc n) t w)" for w
      proof (cases "w div 16 ^ n mod 16 = ?d")
        case True
        have "hex4_lookup (Suc n) ?t w = hex4_lookup n u w"
          using empty_lookup [OF u(2)] True l by simp
        moreover have "hex4_lookup (Suc n) t w = hex4_lookup n ?s w"
          using True by (simp add: Hex4Tables lookup_new split: option.split)
        ultimately show ?thesis using u(3) [of w] True by (simp only: mod_16_Suc) simp
      next
        case False
        then show ?thesis using l by (simp only: mod_16_Suc) (simp add: Hex4Tables)
      qed
      then show ?thesis using r w False c by (simp only: if_False) blast
    qed
  qed
qed simp

section \<open>The ids in ascending order\<close>

definition least :: "(nat \<Rightarrow> bool) \<Rightarrow> nat option" where
  "least P = (if \<exists>v. P v then Some (LEAST v. P v) else None)"

lemma least_SomeI: "P v \<Longrightarrow> (\<And>w. P w \<Longrightarrow> v \<le> w) \<Longrightarrow> least P = Some v"
  by (auto simp: least_def intro: Least_equality)

lemma least_NoneI: "(\<And>v. \<not> P v) \<Longrightarrow> least P = None"
  by (simp add: least_def)

lemma least_SomeD: "least P = Some v \<Longrightarrow> P v \<and> (\<forall>w. P w \<longrightarrow> v \<le> w)"
  by (auto simp: least_def split: if_splits intro: LeastI Least_le)

lemma least_NoneD: "least P = None \<Longrightarrow> \<not> P v"
  by (auto simp: least_def split: if_splits)

lemma scan_least:
  assumes "\<And>i. d \<le> i \<Longrightarrow> i < m \<Longrightarrow> sl i \<Longrightarrow> f i = Ret (Some (g i))"
  shows "hex4_scan f sl [d..<m] = Ret (map_option g (least (\<lambda>i. d \<le> i \<and> i < m \<and> sl i)))"
  using assms
proof (induction "m - d" arbitrary: d)
  case 0
  then show ?case by (simp add: least_def)
next
  case (Suc n)
  then have u: "[d..<m] = d # [Suc d..<m]" by (simp add: upt_rec)
  show ?case
  proof (cases "sl d")
    case True
    then have "least (\<lambda>i. d \<le> i \<and> i < m \<and> sl i) = Some d" using Suc.hyps by (intro least_SomeI) auto
    then show ?thesis using True Suc by (simp add: u)
  next
    case False
    then have "(\<lambda>i. d \<le> i \<and> i < m \<and> sl i) = (\<lambda>i. Suc d \<le> i \<and> i < m \<and> sl i)"
      by (metis le_antisym not_less_eq_eq Suc_leD)
    then show ?thesis using False Suc.hyps(1) [of "Suc d"] Suc.hyps(2) Suc.prems by (simp add: u)
  qed
qed

text \<open>The least key of a tree whose first digit is at least \<open>d\<close>.\<close>

definition hex4_min :: "nat \<Rightarrow> 'a gwen_idmap_hex4_table \<Rightarrow> nat \<Rightarrow> nat option" where
  "hex4_min n t d = least (\<lambda>v. v < 16 ^ n \<and> d \<le> v div 16 ^ (n - 1) \<and> hex4_lookup n t v \<noteq> None)"

lemma min_ptrs: "hex4_min (Suc 0) (Hex4Ptrs ps) d = least (\<lambda>i. d \<le> i \<and> i < 16 \<and> ps ! i \<noteq> None)"
proof -
  have "(\<lambda>v. v < 16 ^ Suc 0 \<and> d \<le> v div 16 ^ (Suc 0 - 1) \<and> hex4_lookup (Suc 0) (Hex4Ptrs ps) v \<noteq> None) =
      (\<lambda>i. d \<le> i \<and> i < 16 \<and> ps ! i \<noteq> None)"
    by (auto simp: fun_eq_iff)
  then show ?thesis by (simp only: hex4_min_def)
qed

lemma min_nonempty:
  assumes "hex4_wf n t" "\<not> hex4_empty t"
  shows "\<exists>w. hex4_min n t 0 = Some w \<and> w < 16 ^ n \<and> hex4_lookup n t w \<noteq> None \<and>
    (\<forall>v<16 ^ n. hex4_lookup n t v \<noteq> None \<longrightarrow> w \<le> v)"
proof -
  obtain v where "hex4_lookup n t v \<noteq> None" using assms empty_lookup by blast
  then have "hex4_lookup n t (v mod 16 ^ n) \<noteq> None" by (simp add: lookup_mod)
  then have "hex4_min n t 0 \<noteq> None" unfolding hex4_min_def
    using least_NoneD [of "\<lambda>v. v < 16 ^ n \<and> 0 \<le> v div 16 ^ (n - 1) \<and> hex4_lookup n t v \<noteq> None" "v mod 16 ^ n"] by auto
  then obtain w where w: "hex4_min n t 0 = Some w" by blast
  show ?thesis using w least_SomeD [OF w [unfolded hex4_min_def]] by simp
qed

lemma min_tables:
  assumes "hex4_wf (Suc n) (Hex4Tables ts)"
  shows "hex4_min (Suc n) (Hex4Tables ts) d =
    map_option (\<lambda>i. i * 16 ^ n + the (hex4_min n (the (ts ! i)) 0)) (least (\<lambda>i. d \<le> i \<and> i < 16 \<and> ts ! i \<noteq> None))"
proof (cases "least (\<lambda>i. d \<le> i \<and> i < 16 \<and> ts ! i \<noteq> None)")
  case None
  then have "hex4_min (Suc n) (Hex4Tables ts) d = None" unfolding hex4_min_def
    by (intro least_NoneI) (auto dest!: least_NoneD split: option.splits simp: less_mult_imp_div_less mult.commute)
  then show ?thesis using None by simp
next
  case (Some i)
  then have i: "d \<le> i" "i < 16" and l: "\<And>j. d \<le> j \<Longrightarrow> j < 16 \<Longrightarrow> ts ! j \<noteq> None \<Longrightarrow> i \<le> j" and "ts ! i \<noteq> None"
    by (auto dest!: least_SomeD)
  then obtain u where u: "ts ! i = Some u" by blast
  then have "hex4_wf n u" "\<not> hex4_empty u" using assms i by auto
  then obtain w where w: "hex4_min n u 0 = Some w" "w < 16 ^ n" "hex4_lookup n u w \<noteq> None"
    "\<And>v. v < 16 ^ n \<Longrightarrow> hex4_lookup n u v \<noteq> None \<Longrightarrow> w \<le> v" using min_nonempty [of n u] by blast
  have a: "(i * 16 ^ n + w) div 16 ^ n = i" "(i * 16 ^ n + w) mod 16 ^ n = w" using w(2) by simp_all
  have "hex4_min (Suc n) (Hex4Tables ts) d = Some (i * 16 ^ n + w)" unfolding hex4_min_def
  proof (rule least_SomeI)
    have "i * 16 ^ n + w < 16 ^ Suc n" using i(2) w(2)
      by (metis a(1) div_less_iff_less_mult power_Suc zero_less_numeral zero_less_power)
    moreover have "hex4_lookup n u (i * 16 ^ n + w) \<noteq> None"
      using w(3) lookup_mod [of n u "i * 16 ^ n + w"] a by simp
    ultimately show "i * 16 ^ n + w < 16 ^ Suc n \<and> d \<le> (i * 16 ^ n + w) div 16 ^ (Suc n - 1) \<and>
        hex4_lookup (Suc n) (Hex4Tables ts) (i * 16 ^ n + w) \<noteq> None"
      using i u a by simp
  next
    fix v assume v: "v < 16 ^ Suc n \<and> d \<le> v div 16 ^ (Suc n - 1) \<and> hex4_lookup (Suc n) (Hex4Tables ts) v \<noteq> None"
    then have j: "v div 16 ^ n < 16" by (simp add: less_mult_imp_div_less mult.commute)
    then have "i \<le> v div 16 ^ n" using v l [of "v div 16 ^ n"] by (auto split: option.splits)
    moreover have "w \<le> v mod 16 ^ n" if "i = v div 16 ^ n"
      using w(4) [of "v mod 16 ^ n"] v j u that by (simp add: lookup_mod)
    moreover have v': "v = v div 16 ^ n * 16 ^ n + v mod 16 ^ n" by (rule div_mult_mod_eq [symmetric])
    ultimately show "i * 16 ^ n + w \<le> v"
    proof (cases "i = v div 16 ^ n")
      case False
      then have "i + 1 \<le> v div 16 ^ n" using \<open>i \<le> v div 16 ^ n\<close> by simp
      then have "(i + 1) * 16 ^ n \<le> v div 16 ^ n * 16 ^ n" by (rule mult_le_mono1)
      moreover have "(i + 1) * 16 ^ n = i * 16 ^ n + 16 ^ n" by simp
      ultimately show ?thesis using w(2) div_times_less_eq_dividend [of v "16 ^ n"] by linarith
    qed (metis add_le_cancel_left)
  qed
  then show ?thesis using Some u w(1) by simp
qed

lemma first_min: "hex4_wf n t \<Longrightarrow> n \<le> k \<Longrightarrow> hex4_first k t = Ret (map_option (\<lambda>v. of_nat (v mod 16)) (hex4_min n t 0))"
proof (induction n arbitrary: k t)
  case (Suc n)
  then obtain k' where k: "k = Suc k'" "n \<le> k'" by (cases k) auto
  show ?case
  proof (cases t)
    case (Hex4Ptrs ps)
    then have "n = 0" using Suc.prems by simp
    have "hex4_first k t = Ret (map_option of_nat (least (\<lambda>i. 0 \<le> i \<and> i < 16 \<and> hex4_slot t i)))"
      unfolding k(1) hex4_first.simps by (rule scan_least) (simp add: Hex4Ptrs)
    moreover have "least (\<lambda>i. 0 \<le> i \<and> i < 16 \<and> hex4_slot t i) = hex4_min (Suc 0) t 0"
      by (simp add: Hex4Ptrs min_ptrs hex4_slot_def)
    moreover have "hex4_min (Suc 0) t 0 = Some i \<Longrightarrow> i < 16" for i
      by (auto simp: hex4_min_def dest: least_SomeD)
    ultimately show ?thesis using \<open>n = 0\<close> by (cases "hex4_min (Suc 0) t 0") auto
  next
    case (Hex4Tables ts)
    let ?g = "\<lambda>i. of_nat ((i * 16 ^ n + the (hex4_min n (the (ts ! i)) 0)) mod 16)"
    obtain j where n: "n = Suc j" using Suc.prems Hex4Tables by (cases n) auto
    have "hex4_first k t = Ret (map_option ?g (least (\<lambda>i. 0 \<le> i \<and> i < 16 \<and> hex4_slot t i)))"
      unfolding k(1) hex4_first.simps
    proof (rule scan_least)
      fix i assume "0 \<le> i" "i < (16 :: nat)" "hex4_slot t i"
      then obtain u where u: "ts ! i = Some u" by (auto simp: hex4_slot_def Hex4Tables split: option.splits)
      then have w: "hex4_wf n u" "\<not> hex4_empty u" using Suc.prems \<open>i < 16\<close> by (auto simp: Hex4Tables)
      have "(i * 16 ^ n + v) mod 16 = v mod 16" for v
        using mod_mult_self2 [of v 16 "i * 16 ^ j"] by (simp add: n algebra_simps)
      then show "(case t of Hex4Ptrs ps \<Rightarrow> Ret (Some (of_nat i))
          | Hex4Tables ts \<Rightarrow> (case ts ! i of None \<Rightarrow> Fault | Some t \<Rightarrow> hex4_first k' t)) = Ret (Some (?g i))"
        using Suc.IH [OF w(1) k(2)] min_nonempty [OF w] by (simp add: Hex4Tables u) (metis option.map(2) option.sel)
    qed
    moreover have "hex4_slot t = (\<lambda>i. ts ! i \<noteq> None)" by (simp add: fun_eq_iff Hex4Tables hex4_slot_def split: option.split)
    ultimately show ?thesis
      unfolding Hex4Tables min_tables [OF Suc.prems(1) [unfolded Hex4Tables]] by (simp add: option.map_comp comp_def)
  qed
qed simp

text \<open>Ids of at most eight digits, as the walk keeps them.\<close>

lemma key_last: "d < 16 \<Longrightarrow> unat ((of_nat (p * 16 + d) :: u32) AND 0xf) = d"
proof -
  assume d: "d < 16"
  have "(0xf :: u32) = mask 4" by (simp add: mask_eq_exp_minus_1)
  then have "(of_nat (p * 16 + d) :: u32) AND 0xf = of_nat ((p * 16 + d) mod 2 ^ 4)"
    by (simp only: take_bit_eq_mask [symmetric] take_bit_of_nat) (simp add: take_bit_eq_mod)
  also have "\<dots> = of_nat d" using d by simp
  finally show ?thesis using d by (simp add: unat_of_nat_u32)
qed

lemma key_set_last:
  assumes "d < 16" "i < 16"
  shows "((of_nat (p * 16 + d) :: u32) AND 0xfffffff0) OR of_nat i = of_nat (p * 16 + i)"
proof -
  have m: "(0xfffffff0 :: u32) = NOT (mask 4)" by (simp add: mask_eq_exp_minus_1)
  have b: "take_bit 4 (of_nat (p * 16 + k) :: u32) = of_nat k" if "k < 16" for k
    using that by (simp only: take_bit_of_nat) (simp add: take_bit_eq_mod)
  have "(of_nat (p * 16 + k) :: u32) AND 0xfffffff0 = of_nat (p * 16)" if "k < 16" for k
    by (simp only: m and_not_mask_u32 b [OF that]) simp
  note this [OF assms(1)] this [OF assms(2), symmetric]
  then have "((of_nat (p * 16 + d) :: u32) AND 0xfffffff0) OR of_nat i =
      (of_nat (p * 16 + i) AND NOT (mask 4)) OR take_bit 4 (of_nat (p * 16 + i))"
    by (simp only: m b [OF assms(2)])
  also have "\<dots> = of_nat (p * 16 + i)"
    by (rule bit_word_eqI) (auto simp: bit_simps)
  finally show ?thesis .
qed

lemma key_push: "push_bit 4 (of_nat p :: u32) = of_nat (p * 16 + 0)"
  by (simp add: push_bit_eq_mult)

lemma key_drop: "p * 16 + d < 4294967296 \<Longrightarrow> d < 16 \<Longrightarrow> drop_bit 4 (of_nat (p * 16 + d) :: u32) = of_nat p"
  by (simp only: word_unat_eq_iff unat_drop_bit_u32 unat_of_nat_u32) simp

lemma key_bound: "p < 16 ^ l \<Longrightarrow> l \<le> 7 \<Longrightarrow> d < 16 \<Longrightarrow> p * 16 + d < (4294967296 :: nat)"
proof -
  assume "p < 16 ^ l" "l \<le> 7" "d < 16"
  moreover have "(16 :: nat) ^ l \<le> 16 ^ 7" using \<open>l \<le> 7\<close> by (intro power_increasing) auto
  ultimately have "p < 16 ^ 7" by linarith
  then show ?thesis using \<open>d < 16\<close> by simp
qed

text \<open>One table from a digit on, with what is below it.\<close>

lemma row_min:
  assumes "hex4_wf n t" "hex4_at root p = Some t" "d < 16" "n \<le> Suc k"
  shows "hex4_scan
      (\<lambda>i. let lid = (of_nat (a * 16 + d) AND 0xfffffff0) OR of_nat i
           in case t of Hex4Ptrs ps \<Rightarrow> Ret (Some lid) | Hex4Tables ts \<Rightarrow> hex4_next k root (p @ [i]) (push_bit 4 lid) False)
      (hex4_slot t) [unat ((of_nat (a * 16 + d) :: u32) AND 0xf)..<16] =
    Ret (map_option (\<lambda>w. of_nat (a * 16 ^ n + w)) (hex4_min n t d))"
  using assms
proof (induction n arbitrary: t p d a k)
  case (Suc n)
  let ?f = "\<lambda>i. let lid = (of_nat (a * 16 + d) AND 0xfffffff0) OR of_nat i
       in case t of Hex4Ptrs ps \<Rightarrow> Ret (Some lid) | Hex4Tables ts \<Rightarrow> hex4_next k root (p @ [i]) (push_bit 4 lid) False"
  have lid: "((of_nat (a * 16 + d) :: u32) AND 0xfffffff0) OR of_nat i = of_nat (a * 16 + i)" if "i < 16" for i
    using that Suc.prems by (intro key_set_last)
  note last = key_last [OF Suc.prems(3)]
  show ?case
  proof (cases t)
    case (Hex4Ptrs ps)
    then have "n = 0" using Suc.prems by simp
    have "hex4_scan ?f (hex4_slot t) [d..<16] =
        Ret (map_option (\<lambda>i. of_nat (a * 16 + i)) (least (\<lambda>i. d \<le> i \<and> i < 16 \<and> hex4_slot t i)))"
      by (rule scan_least) (simp only: lid Let_def Hex4Ptrs gwen_idmap_hex4_table.case)
    moreover have "hex4_slot t = (\<lambda>i. ps ! i \<noteq> None)" by (simp add: fun_eq_iff hex4_slot_def Hex4Ptrs)
    ultimately show ?thesis unfolding last Hex4Ptrs \<open>n = 0\<close> min_ptrs by (simp add: Hex4Ptrs)
  next
    case (Hex4Tables ts)
    then obtain k' where k: "k = Suc k'" "n \<le> Suc k'" using Suc.prems by (cases k; cases n) auto
    let ?g = "\<lambda>i. of_nat (a * 16 ^ Suc n + (i * 16 ^ n + the (hex4_min n (the (ts ! i)) 0)))"
    have "hex4_scan ?f (hex4_slot t) [d..<16] = Ret (map_option ?g (least (\<lambda>i. d \<le> i \<and> i < 16 \<and> hex4_slot t i)))"
    proof (rule scan_least)
      fix i assume "d \<le> i" "i < (16 :: nat)" "hex4_slot t i"
      then obtain u where u: "ts ! i = Some u" by (auto simp: hex4_slot_def Hex4Tables split: option.splits)
      then have w: "hex4_wf n u" "\<not> hex4_empty u" using Suc.prems \<open>i < 16\<close> by (auto simp: Hex4Tables)
      have at: "hex4_at root (p @ [i]) = Some u" using Suc.prems(2) u
      proof (induction p arbitrary: root)
        case Nil then show ?case by (simp add: Hex4Tables)
      next
        case (Cons x p) then show ?case by (cases root) (auto split: option.splits)
      qed
      obtain m where m: "hex4_min n u 0 = Some m" using min_nonempty [OF w] by blast
      have "?f i = hex4_next k root (p @ [i]) (of_nat ((a * 16 + i) * 16 + 0)) False"
        using \<open>i < 16\<close> by (simp only: lid Let_def Hex4Tables gwen_idmap_hex4_table.case key_push)
      also have "\<dots> = Ret (Some (of_nat ((a * 16 + i) * 16 ^ n + m)))"
        unfolding k(1) hex4_next.simps at if_False option.case prod.case
          Suc.IH [OF w(1) at zero_less_numeral k(2)] m option.map by simp
      finally show "?f i = Ret (Some (?g i))" by (simp add: u m algebra_simps)
    qed
    moreover have "hex4_slot t = (\<lambda>i. ts ! i \<noteq> None)" by (simp add: fun_eq_iff Hex4Tables hex4_slot_def split: option.split)
    ultimately show ?thesis
      unfolding last min_tables [OF Suc.prems(1) [unfolded Hex4Tables]] Hex4Tables by (simp add: option.map_comp comp_def)
  qed
qed simp

lemma at_lookup:
  assumes "hex4_wf n root" "hex4_at root (digs l p) = Some t" "l < n"
  shows "hex4_wf (n - l) t \<and> (\<forall>v. v div 16 ^ (n - l) mod 16 ^ l = p mod 16 ^ l \<longrightarrow> hex4_lookup n root v = hex4_lookup (n - l) t v)"
  using assms
proof (induction l arbitrary: n root)
  case (Suc l)
  then obtain k where k: "n = Suc k" "l < k" by (cases n) auto
  then obtain ts where ts: "root = Hex4Tables ts" using Suc.prems by (cases root) auto
  then obtain u where u: "ts ! (p div 16 ^ l mod 16) = Some u" "hex4_at u (digs l p) = Some t"
    using Suc.prems by (auto split: option.splits)
  have w: "hex4_wf k u" using wf_sub [OF Suc.prems(1) [unfolded ts k(1)] u(1)] by simp
  have "hex4_lookup n root v = hex4_lookup (n - Suc l) t v" if v: "v div 16 ^ (n - Suc l) mod 16 ^ Suc l = p mod 16 ^ Suc l" for v
  proof -
    have "16 ^ k = 16 ^ (k - l) * (16 :: nat) ^ l" using k(2) by (simp flip: power_add)
    then have "v div 16 ^ (k - l) div 16 ^ l mod 16 = v div 16 ^ k mod 16" by (simp add: div_mult2_eq)
    moreover have "v div 16 ^ (k - l) mod 16 ^ l = p mod 16 ^ l" "v div 16 ^ (k - l) div 16 ^ l mod 16 = p div 16 ^ l mod 16"
      using v k(1) mod_16_Suc [of "v div 16 ^ (k - l)" l p] by simp_all
    ultimately have "ts ! (v div 16 ^ k mod 16) = Some u" "v div 16 ^ (k - l) mod 16 ^ l = p mod 16 ^ l"
      using u(1) by metis+
    then show ?thesis using Suc.IH [OF w u(2) k(2)] by (simp add: k(1) ts)
  qed
  then show ?case using Suc.IH [OF w u(2) k(2)] k(1) by simp
qed simp

text \<open>From a position on to the next id.\<close>

definition hex4_after :: "'a gwen_idmap_hex4_table \<Rightarrow> nat \<Rightarrow> nat \<Rightarrow> nat option" where
  "hex4_after root m p = least (\<lambda>v. v < 16 ^ 8 \<and> p < v div 16 ^ m \<and> hex4_lookup 8 root v \<noteq> None)"

lemma after_row:
  assumes "hex4_wf 8 root" "l \<le> 7" "p < 16 ^ l" "d < 16" "hex4_at root (digs l p) = Some t"
  shows "hex4_after root (7 - l) (p * 16 + d) =
    (case hex4_min (8 - l) t (Suc d) of Some w \<Rightarrow> Some (p * 16 ^ (8 - l) + w) | None \<Rightarrow> hex4_after root (8 - l) p)"
proof -
  define m where "m = 7 - l"
  have n: "8 - l = Suc m" "7 - l = m" using assms(2) by (simp_all add: m_def)
  have wt: "hex4_wf (Suc m) t" and lk: "\<And>v. v div 16 ^ Suc m = p \<Longrightarrow> v < 16 ^ 8 \<Longrightarrow> hex4_lookup 8 root v = hex4_lookup (Suc m) t v"
    using at_lookup [OF assms(1,5)] assms(2) n by auto
  have lw: "hex4_lookup (Suc m) t (v mod 16 ^ Suc m) = hex4_lookup (Suc m) t v" for v by (rule lookup_mod)
  have dd: "v div 16 ^ Suc m = v div 16 ^ m div 16" for v :: nat by (simp only: power_Suc2 div_mult2_eq)
  have dm: "v mod 16 ^ Suc m div 16 ^ m = v div 16 ^ m mod 16" for v :: nat
    by (simp add: mod_mult2_eq mult.commute [of 16])
  show ?thesis
  proof (cases "hex4_min (8 - l) t (Suc d)")
    case (Some w)
    note w = least_SomeD [OF Some [unfolded hex4_min_def n diff_Suc_1]]
    let ?v = "p * 16 ^ Suc m + w"
    have q: "?v div 16 ^ Suc m = p" "?v mod 16 ^ Suc m = w" using w by (simp_all only: div_mult_self3 mod_mult_self3) simp_all
    have "hex4_after root m (p * 16 + d) = Some ?v" unfolding hex4_after_def
    proof (rule least_SomeI)
      have "(p + 1) * 16 ^ Suc m \<le> 16 ^ l * 16 ^ Suc m" using assms(3) by (intro mult_le_mono1) simp
      also have "(16 :: nat) ^ l * 16 ^ Suc m = 16 ^ 8" using assms(2) by (simp only: power_add [symmetric] m_def) simp
      finally have b: "?v < 16 ^ 8" using w by simp
      have "?v div 16 ^ m = p * 16 + w div 16 ^ m" by (simp add: mult.assoc [symmetric])
      then show "?v < 16 ^ 8 \<and> p * 16 + d < ?v div 16 ^ m \<and> hex4_lookup 8 root ?v \<noteq> None"
        using b w lk [OF q(1) b] lw [of ?v] q(2) by simp
    next
      fix v assume v: "v < 16 ^ 8 \<and> p * 16 + d < v div 16 ^ m \<and> hex4_lookup 8 root v \<noteq> None"
      then have "p \<le> v div 16 ^ Suc m" unfolding dd by linarith
      show "?v \<le> v"
      proof (cases "v div 16 ^ Suc m = p")
        case True
        then have "v div 16 ^ m mod 16 = v div 16 ^ m - p * 16" unfolding dd by (simp add: modulo_nat_def mult.commute)
        then have "Suc d \<le> v mod 16 ^ Suc m div 16 ^ m" unfolding dm using v by linarith
        then have "w \<le> v mod 16 ^ Suc m"
          using conjunct2 [OF w, rule_format, of "v mod 16 ^ Suc m"] v lk [OF True] lw [of v] by simp
        moreover have "v = v div 16 ^ Suc m * 16 ^ Suc m + v mod 16 ^ Suc m" by (rule div_mult_mod_eq [symmetric])
        ultimately show ?thesis using True by (metis add_le_cancel_left)
      next
        case False
        then have "(p + 1) * 16 ^ Suc m \<le> v div 16 ^ Suc m * 16 ^ Suc m"
          using \<open>p \<le> v div 16 ^ Suc m\<close> by (intro mult_le_mono1) simp
        moreover have "(p + 1) * 16 ^ Suc m = p * 16 ^ Suc m + 16 ^ Suc m" by simp
        ultimately show ?thesis using w div_times_less_eq_dividend [of v "16 ^ Suc m"] by linarith
      qed
    qed
    then show ?thesis using Some n by simp
  next
    case None
    have "p * 16 + d < v div 16 ^ m \<longleftrightarrow> p < v div 16 ^ Suc m" if v: "v < 16 ^ 8" "hex4_lookup 8 root v \<noteq> None" for v
    proof (cases "v div 16 ^ Suc m = p")
      case True
      then have "\<not> Suc d \<le> v div 16 ^ m mod 16"
        using least_NoneD [OF None [unfolded hex4_min_def n diff_Suc_1], of "v mod 16 ^ Suc m"] v lk [OF True] lw [of v] dm [of v]
        by auto
      then show ?thesis using True div_mult_mod_eq [of "v div 16 ^ m" 16] unfolding dd by simp
    next
      case False
      then show ?thesis using assms(4) unfolding dd by linarith
    qed
    then have "hex4_after root m (p * 16 + d) = hex4_after root (Suc m) p"
      unfolding hex4_after_def by (metis (mono_tags, lifting))
    then show ?thesis using None n by simp
  qed
qed

lemma at_prefix: "hex4_at t (xs @ ys) = Some u \<Longrightarrow> \<exists>v. hex4_at t xs = Some v"
  by (induction t xs rule: hex4_at.induct) (auto split: option.splits)

lemma key_last_iff: "d < 16 \<Longrightarrow> ((of_nat (p * 16 + d) :: u32) AND 0xf = 0xf) = (d = 15)"
  using key_last [of d p] by (simp only: word_unat_eq_iff) simp

lemma next_step:
  assumes "hex4_wf 8 root" "l \<le> 7" "d < 15" "hex4_at root (digs l p) = Some t" "8 - l \<le> Suc k"
  shows "hex4_next (Suc k) root (digs l p) (of_nat (p * 16 + d)) True =
    (case hex4_min (8 - l) t (Suc d) of
       Some w \<Rightarrow> Ret (Some (of_nat (p * 16 ^ (8 - l) + w)))
     | None \<Rightarrow> if l = 0 then Ret None else hex4_next k root (butlast (digs l p)) (drop_bit 4 (of_nat (p * 16 + Suc d))) True)"
proof -
  have w: "hex4_wf (8 - l) t" using at_lookup [OF assms(1,4)] assms(2) by simp
  have "hex4_up l (of_nat (p * 16 + d)) = Some (l, of_nat (p * 16 + d))"
    using assms(3) key_last_iff [of d p] by (cases l) simp_all
  moreover have "(of_nat (p * 16 + d) :: u32) + 1 = of_nat (p * 16 + Suc d)" by simp
  moreover have "take l (digs l p) = digs l p" by simp
  ultimately show ?thesis
    using row_min [OF w assms(4) _ assms(5), of "Suc d" p] assms(3)
    unfolding hex4_next.simps length_digs if_True by (simp only: option.map option.case prod.case assms(4)) (simp split: option.split)
qed

lemma next_up:
  assumes "l \<le> 6" "p * 16 + 15 < 4294967296"
  shows "hex4_next k root (digs (Suc l) p) (of_nat (p * 16 + 15)) True = hex4_next k root (digs l (p div 16)) (of_nat p) True"
proof (cases k)
  case (Suc k')
  have u: "hex4_up (Suc l) (of_nat (p * 16 + 15)) = hex4_up l (of_nat p)"
    using key_last_iff [of 15 p] key_drop [OF assms(2)] by simp
  have "hex4_up n key = Some (m, key') \<Longrightarrow> m \<le> n" for n key m key'
    by (induction n key rule: hex4_up.induct) (auto split: if_splits)
  then have "map_option (\<lambda>(n, key). (take n (digs (Suc l) p), key + 1)) (hex4_up l (of_nat p)) =
      map_option (\<lambda>(n, key). (take n (digs l (p div 16)), key + 1)) (hex4_up l (of_nat p))"
    by (cases "hex4_up l (of_nat p)") (auto simp: digs_take_div [symmetric] simp del: digs.simps)
  then show ?thesis by (simp only: Suc hex4_next.simps length_digs u if_True)
qed simp

lemma next_least:
  assumes "hex4_wf 8 root"
  shows "l \<le> 7 \<Longrightarrow> p < 16 ^ l \<Longrightarrow> d < 16 \<Longrightarrow> hex4_at root (digs l p) = Some t \<Longrightarrow> 8 + l \<le> k \<Longrightarrow>
    hex4_next k root (digs l p) (of_nat (p * 16 + d)) True = Ret (map_option of_nat (hex4_after root (7 - l) (p * 16 + d)))"
proof (induction l arbitrary: p d t k)
  case 0
  then obtain k' where k: "k = Suc k'" "7 \<le> k'" by (cases k) auto
  have none: "hex4_after root 8 p = None" unfolding hex4_after_def by (rule least_NoneI) auto
  show ?case
  proof (cases "d = 15")
    case True
    have "hex4_min 8 t 16 = None"
      unfolding hex4_min_def by (rule least_NoneI) (auto simp: not_le less_mult_imp_div_less)
    then show ?thesis using after_row [OF assms 0(1,2,3,4)] True none key_last_iff [of 15 p] k by simp
  next
    case False
    then have "d < 15" using 0 by simp
    then show ?thesis unfolding k(1)
      using next_step [OF assms 0(1) _ 0(4), of d k'] after_row [OF assms 0(1,2,3,4)] k none by (simp split: option.split)
  qed
next
  case (Suc l)
  then obtain k' where k: "k = Suc k'" "8 + l \<le> k'" by (cases k) auto
  have l: "l \<le> 6" "l \<le> 7" "p div 16 < 16 ^ l" "p mod 16 < 16" using Suc.prems by (simp_all add: less_mult_imp_div_less mult.commute)
  obtain u where u: "hex4_at root (digs l (p div 16)) = Some u"
    using Suc.prems(4) at_prefix [of root "digs l (p div 16)" "[p mod 16]"] by (auto simp only: digs_take_div)
  note bound = key_bound [OF Suc.prems(2,1)]
  have up: "hex4_next j root (digs l (p div 16)) (of_nat p) True = Ret (map_option of_nat (hex4_after root (8 - Suc l) p))"
    if "8 + l \<le> j" for j
    using Suc.IH [OF l(2,3,4) u that] l(1) by simp
  have row: "hex4_after root (7 - Suc l) (p * 16 + d) =
    (case hex4_min (8 - Suc l) t (Suc d) of Some w \<Rightarrow> Some (p * 16 ^ (8 - Suc l) + w) | None \<Rightarrow> hex4_after root (8 - Suc l) p)"
    by (rule after_row [OF assms Suc.prems(1,2,3,4)])
  show ?case
  proof (cases "d = 15")
    case True
    have "hex4_min (8 - Suc l) t 16 = None"
    proof (unfold hex4_min_def, rule least_NoneI)
      fix v have "16 ^ (8 - Suc l) = 16 * (16 :: nat) ^ (8 - Suc l - 1)" using l(1) by (simp flip: power_Suc)
      then show "\<not> (v < 16 ^ (8 - Suc l) \<and> 16 \<le> v div 16 ^ (8 - Suc l - 1) \<and> hex4_lookup (8 - Suc l) t v \<noteq> None)"
        by (simp only: not_le) (auto simp: not_le less_mult_imp_div_less)
    qed
    then show ?thesis using next_up [OF l(1) bound, of k root] up [of k] row True k by simp
  next
    case False
    then have d: "d < 15" "Suc d < 16" using Suc.prems by simp_all
    have b: "butlast (digs (Suc l) p) = digs l (p div 16)" by (simp only: digs_take_div [symmetric] butlast_snoc)
    have s: "8 - Suc l \<le> Suc k'" using k by simp
    show ?thesis unfolding k(1) next_step [OF assms Suc.prems(1) d(1) Suc.prems(4) s] b key_drop [OF bound [OF d(2)] d(2)] row up [OF k(2)]
      by (simp split: option.split)
  qed
qed

section \<open>Every operation\<close>

text \<open>The calls of a client and what it gets.\<close>

datatype 'a idmap_op =
  CallInsert u32 "'a option" | CallRemove u32 | CallFind u32 | CallGetFirst | CallGetNext u32 | CallGetSize | CallClear

datatype 'a idmap_answer = AnsResult gwen_idmap_result | AnsPtr "'a option" | AnsId gwen_idmap_result "u32 option" | AnsSize u32 | AnsNone

fun idmap_call :: "'a idmap_op \<Rightarrow> 'a gwen_idmap \<Rightarrow> ('a idmap_answer \<times> 'a gwen_idmap) outcome" where
  "idmap_call (CallInsert key v) m = obind (GWEN_IdMap_Insert m key v) (\<lambda>(r, m). Ret (AnsResult r, m))"
| "idmap_call (CallRemove key) m = obind (GWEN_IdMap_Remove m key) (\<lambda>(r, m). Ret (AnsResult r, m))"
| "idmap_call (CallFind key) m = obind (GWEN_IdMap_Find m key) (\<lambda>v. Ret (AnsPtr v, m))"
| "idmap_call CallGetFirst m = obind (GWEN_IdMap_GetFirst m) (\<lambda>(r, k). Ret (AnsId r k, m))"
| "idmap_call (CallGetNext key) m = obind (GWEN_IdMap_GetNext m key) (\<lambda>(r, k). Ret (AnsId r k, m))"
| "idmap_call CallGetSize m = Ret (AnsSize (GWEN_IdMap_GetSize m), m)"
| "idmap_call CallClear m = Ret (AnsNone, GWEN_IdMap_Clear m)"

text \<open>An id is near a stored one when they differ in the last digit only.\<close>

definition near :: "(u32 \<rightharpoonup> 'a) \<Rightarrow> u32 \<Rightarrow> bool" where
  "near D key \<longleftrightarrow> (\<exists>k \<in> dom D. drop_bit 4 k = drop_bit 4 key)"

definition least_id :: "(u32 \<rightharpoonup> 'a) \<Rightarrow> (nat \<Rightarrow> bool) \<Rightarrow> nat option" where
  "least_id D P = least (\<lambda>v. v < 4294967296 \<and> P v \<and> D (of_nat v) \<noteq> None)"

definition found :: "nat option \<Rightarrow> (nat \<Rightarrow> nat) \<Rightarrow> 'a idmap_answer" where
  "found r f = AnsId (if r = None then IdMapResult_NotFound else IdMapResult_Ok) (map_option (\<lambda>v. of_nat (f v)) r)"

text \<open>What a call does to the ids that are stored and to the number that the code keeps of them. It is not always what a map
  does, see the next section.\<close>

fun idmap_effect :: "'a idmap_op \<Rightarrow> (u32 \<rightharpoonup> 'a) \<times> u32 \<Rightarrow> ('a idmap_answer \<times> (u32 \<rightharpoonup> 'a) \<times> u32) outcome" where
  "idmap_effect (CallInsert key v) (D, n) =
     (case v of None \<Rightarrow> Abort | Some x \<Rightarrow> Ret (AnsResult IdMapResult_Ok, D(key \<mapsto> x), n + 1))"
| "idmap_effect (CallRemove key) (D, n) =
     (if \<not> near D key then Ret (AnsResult IdMapResult_NotFound, D, n)
      else if n = 0 then Abort
      else Ret (AnsResult IdMapResult_Ok, D(key := None), n - 1))"
| "idmap_effect (CallFind key) (D, n) = Ret (AnsPtr (D key), D, n)"
| "idmap_effect CallGetFirst (D, n) = Ret (found (least_id D (\<lambda>_. True)) (\<lambda>v. v mod 16), D, n)"
| "idmap_effect (CallGetNext key) (D, n) = (if near D key then Ret (found (least_id D (\<lambda>v. unat key < v)) (\<lambda>v. v), D, n) else Abort)"
| "idmap_effect CallGetSize (D, n) = Ret (AnsSize n, D, n)"
| "idmap_effect CallClear (D, n) = Ret (AnsNone, Map.empty, n)"

definition idmap_abs :: "'a gwen_idmap \<Rightarrow> (u32 \<rightharpoonup> 'a) \<times> u32" where
  "idmap_abs m = ((\<lambda>key. hex4_lookup 8 (im_table m) (unat key)), im_count m)"

lemma at_nonempty: "hex4_wf n t \<Longrightarrow> hex4_at t (digs (Suc l) p) = Some u \<Longrightarrow> Suc l < n \<Longrightarrow> \<not> hex4_empty u"
proof (induction l arbitrary: n t)
  case 0
  then show ?case using wf_sub by (cases t; cases n) (auto split: option.splits)
next
  case (Suc l)
  then obtain k where k: "n = Suc k" by (cases n) auto
  then obtain ts where ts: "t = Hex4Tables ts" using Suc.prems by (cases t) auto
  then obtain s where s: "ts ! (p div 16 ^ Suc l mod 16) = Some s" "hex4_at s (digs (Suc l) p) = Some u"
    using Suc.prems by (simp only: digs.simps(2) [of "Suc l"] hex4_at.simps) (auto split: option.splits)
  show ?case using Suc.IH [of k s] s(2) wf_sub [OF Suc.prems(1) [unfolded k ts] s(1)] Suc.prems(3) k by simp
qed

lemma lookup_at: "hex4_wf n t \<Longrightarrow> hex4_lookup n t v \<noteq> None \<Longrightarrow> hex4_at t (digs (n - 1) (v div 16)) \<noteq> None"
proof (induction n arbitrary: t)
  case (Suc n)
  show ?case
  proof (cases t)
    case (Hex4Tables ts)
    then obtain k where k: "n = Suc k" using Suc.prems by (cases n) auto
    obtain s where s: "ts ! (v div 16 ^ n mod 16) = Some s" "hex4_lookup n s v \<noteq> None"
      using Suc.prems by (auto simp: Hex4Tables split: option.splits)
    then show ?thesis using Suc.IH [of s] wf_sub [OF Suc.prems(1) [unfolded Hex4Tables] s(1)] k
      by (simp add: Hex4Tables div_mult2_eq)
  qed (use Suc.prems in simp)
qed simp

lemma path_near:
  assumes "hex4_wf 8 t"
  shows "hex4_path 8 t (unat key) \<longleftrightarrow> near (\<lambda>k. hex4_lookup 8 t (unat k)) key"
proof -
  have d: "drop_bit 4 k = drop_bit 4 key \<longleftrightarrow> unat k div 16 = unat key div 16" for k
    by (simp add: word_unat_eq_iff unat_drop_bit_u32)
  show ?thesis
  proof
    assume "hex4_path 8 t (unat key)"
    then obtain u where u: "hex4_at t (digs 7 (unat key div 16)) = Some u" by (auto simp: hex4_path_def)
    have "digs 7 p = digs (Suc 6) p" for p by simp
    then have "\<not> hex4_empty u" using at_nonempty [OF assms, of 6 "unat key div 16" u] u by simp
    moreover have w: "hex4_wf 1 u"
        and l: "\<And>v. v div 16 mod 16 ^ 7 = unat key div 16 mod 16 ^ 7 \<Longrightarrow> hex4_lookup 8 t v = hex4_lookup 1 u v"
      using at_lookup [OF assms u] by auto
    ultimately obtain v where v: "hex4_lookup 1 u v \<noteq> None" using empty_lookup by blast
    let ?v = "unat key div 16 * 16 + v mod 16"
    have "unat key div 16 < 268435456" using unat_u32_bound [of key] by simp
    then have b: "?v < 4294967296" by linarith
    have "hex4_lookup 1 u ?v = hex4_lookup 1 u v" using lookup_mod [of 1 u ?v] lookup_mod [of 1 u v] by simp
    moreover have "?v div 16 = unat key div 16" by simp
    ultimately have "hex4_lookup 8 t ?v \<noteq> None" "?v div 16 = unat key div 16" using v l [of ?v] by metis+
    moreover have "unat (of_nat ?v :: u32) = ?v" using b by (simp only: unat_of_nat_u32 mod_less)
    ultimately have "hex4_lookup 8 t (unat (of_nat ?v :: u32)) \<noteq> None" "unat (of_nat ?v :: u32) div 16 = unat key div 16" by metis+
    then show "near (\<lambda>k. hex4_lookup 8 t (unat k)) key" unfolding near_def using d by blast
  next
    assume "near (\<lambda>k. hex4_lookup 8 t (unat k)) key"
    then obtain k where k: "k \<in> dom (\<lambda>k. hex4_lookup 8 t (unat k))" "drop_bit 4 k = drop_bit 4 key"
      unfolding near_def by (rule bexE)
    have "hex4_lookup 8 t (unat k) \<noteq> None" using k(1) unfolding domIff .
    moreover have "unat k div 16 = unat key div 16" using k(2) by (simp only: d)
    ultimately show "hex4_path 8 t (unat key)" using lookup_at [OF assms, of "unat k"] by (simp add: hex4_path_def)
  qed
qed

section \<open>Refinement\<close>

definition idmap_ok :: "'a gwen_idmap \<Rightarrow> bool" where
  "idmap_ok m \<longleftrightarrow> im_algo m = IdMapAlgo_Hex4 \<and> hex4_wf 8 (im_table m)"

lemma set_abs:
  assumes "hex4_wf 8 t"
  shows "if x = None \<and> \<not> near (\<lambda>k. hex4_lookup 8 t (unat k)) key then hex4_set (digs 8 (unat key)) x t = Ret None
    else \<exists>u. hex4_set (digs 8 (unat key)) x t = Ret (Some u) \<and> hex4_wf 8 u \<and>
      (\<lambda>k :: u32. hex4_lookup 8 u (unat k)) = (\<lambda>k. hex4_lookup 8 t (unat k)) (key := x)"
proof -
  have m: "unat (k :: u32) mod 16 ^ 8 = unat k" for k using unat_u32_bound [of k] by simp
  have "(\<lambda>k :: u32. hex4_lookup 8 u (unat k)) = (\<lambda>k. hex4_lookup 8 t (unat k)) (key := x)"
    if "\<forall>w. hex4_lookup 8 u w = (if w mod 16 ^ 8 = unat key mod 16 ^ 8 then x else hex4_lookup 8 t w)" for u
    using that by (simp only: fun_eq_iff m fun_upd_apply word_unat_eq_iff) simp
  note u = this
  show ?thesis
  proof (cases "x = None \<and> \<not> near (\<lambda>k. hex4_lookup 8 t (unat k)) key")
    case True
    then show ?thesis using set_lookup [OF assms, of x "unat key"] unfolding path_near [OF assms] by simp
  next
    case False
    then obtain u where r: "hex4_set (digs 8 (unat key)) x t = Ret (Some u)" "hex4_wf 8 u"
        and l: "\<forall>w. hex4_lookup 8 u w = (if w mod 16 ^ 8 = unat key mod 16 ^ 8 then x else hex4_lookup 8 t w)"
      using set_lookup [OF assms, of x "unat key"] unfolding path_near [OF assms] by (simp only: if_False) (elim exE conjE)
    show ?thesis unfolding if_not_P [OF False] by (intro exI conjI) (rule r u [OF l])+
  qed
qed

lemma lookup_of_nat: "v < 4294967296 \<Longrightarrow> hex4_lookup 8 t (unat (of_nat v :: u32)) = hex4_lookup 8 t v"
  by (simp add: unat_of_nat_u32)

lemma least_id_lookup:
  "least_id (\<lambda>k. hex4_lookup 8 t (unat k)) P = least (\<lambda>v. v < 4294967296 \<and> P v \<and> hex4_lookup 8 t v \<noteq> None)"
  unfolding least_id_def using lookup_of_nat by (metis (mono_tags, lifting))

lemma find_next:
  assumes "hex4_wf 8 t"
  shows "GWEN_IdMapHex4__GetTable t key =
      (if near (\<lambda>k. hex4_lookup 8 t (unat k)) key then Some (digs 7 (unat key div 16)) else None)"
    and "near (\<lambda>k. hex4_lookup 8 t (unat k)) key \<Longrightarrow>
      GWEN_IdMapHex4__GetNextTable t (digs 7 (unat key div 16)) key True =
        Ret (map_option of_nat (least_id (\<lambda>k. hex4_lookup 8 t (unat k)) (\<lambda>v. unat key < v)))"
proof -
  have "hex4_digits key = digs 7 (unat key div 16) @ [unat key mod 16]"
    using digs_take_div [of 7 "unat key"] by (simp add: hex4_digits_digs)
  then have b: "butlast (hex4_digits key) = digs 7 (unat key div 16)" by simp
  show "GWEN_IdMapHex4__GetTable t key =
      (if near (\<lambda>k. hex4_lookup 8 t (unat k)) key then Some (digs 7 (unat key div 16)) else None)"
    using path_near [OF assms, of key] by (auto simp: GWEN_IdMapHex4__GetTable_def b Let_def hex4_path_def)
  assume "near (\<lambda>k. hex4_lookup 8 t (unat k)) key"
  then obtain u where "hex4_at t (digs 7 (unat key div 16)) = Some u"
    using path_near [OF assms, of key] by (auto simp: hex4_path_def)
  moreover have "unat key div 16 < 16 ^ 7" using unat_u32_bound [of key] by simp
  moreover have "unat key div 16 * 16 + unat key mod 16 = unat key" by simp
  ultimately show "GWEN_IdMapHex4__GetNextTable t (digs 7 (unat key div 16)) key True =
        Ret (map_option of_nat (least_id (\<lambda>k. hex4_lookup 8 t (unat k)) (\<lambda>v. unat key < v)))"
    using next_least [OF assms, of 7 "unat key div 16" "unat key mod 16" u 20]
    by (simp add: GWEN_IdMapHex4__GetNextTable_def least_id_lookup hex4_after_def)
qed

text \<open>One call, on the tree and on the ids.\<close>

lemma idmap_step:
  assumes "idmap_ok m"
  shows "case idmap_call c m of
      Ret (r, m') \<Rightarrow> idmap_effect c (idmap_abs m) = Ret (r, idmap_abs m') \<and> idmap_ok m'
    | Abort \<Rightarrow> idmap_effect c (idmap_abs m) = Abort
    | _ \<Rightarrow> False"
proof -
  have w: "hex4_wf 8 (im_table m)" using assms by (simp add: idmap_ok_def)
  note defs = idmap_abs_def idmap_ok_def GWEN_IdMap_Insert_def GWEN_IdMap_Remove_def GWEN_IdMap_Find_def GWEN_IdMap_GetFirst_def
    GWEN_IdMap_GetNext_def GWEN_IdMap_GetSize_def GWEN_IdMap_Clear_def GWEN_IdMapHex4_Insert_def GWEN_IdMapHex4_Find_def
    GWEN_IdMapHex4_FindFirst_def GWEN_IdMapHex4_FindNext_def hex4_digits_digs
  show ?thesis
  proof (cases c)
    case (CallInsert key v)
    show ?thesis
    proof (cases v)
      case (Some x)
      then show ?thesis using set_abs [OF w, of v key] assms CallInsert by (auto simp: defs)
    qed (simp add: CallInsert defs)
  next
    case (CallRemove key)
    then show ?thesis
      using set_abs [OF w, of None key] assms by (auto simp: defs oassert_def split: if_splits)
  next
    case (CallFind key)
    then show ?thesis using find_lookup [OF w, of "unat key"] assms by (simp add: defs)
  next
    case CallGetFirst
    have "hex4_min 8 (im_table m) 0 = least_id (fst (idmap_abs m)) (\<lambda>_. True)"
      by (simp add: idmap_abs_def least_id_lookup hex4_min_def)
    then show ?thesis using first_min [OF w, of 8] assms CallGetFirst
      by (simp add: defs GWEN_IdMapHex4__GetFirstTable_def found_def)
  next
    case (CallGetNext key)
    then show ?thesis using find_next [OF w, of key] assms by (simp add: defs found_def)
  next
    case CallGetSize
    then show ?thesis using assms by (simp add: defs)
  next
    case CallClear
    have "hex4_wf 8 (GWEN_IdMapHex4Map_new False)" using wf_new [of 7] by simp
    then show ?thesis using assms CallClear by (simp add: defs lookup_new)
  qed
qed

section \<open>A finite map\<close>

fun map_call :: "'a idmap_op \<Rightarrow> (u32 \<rightharpoonup> 'a) \<Rightarrow> ('a idmap_answer \<times> (u32 \<rightharpoonup> 'a)) outcome" where
  "map_call (CallInsert key v) D = (case v of None \<Rightarrow> Abort | Some x \<Rightarrow> Ret (AnsResult IdMapResult_Ok, D(key \<mapsto> x)))"
| "map_call (CallRemove key) D =
     Ret (AnsResult (if key \<in> dom D then IdMapResult_Ok else IdMapResult_NotFound), D(key := None))"
| "map_call (CallFind key) D = Ret (AnsPtr (D key), D)"
| "map_call CallGetFirst D = Ret (found (least_id D (\<lambda>_. True)) (\<lambda>v. v), D)"
| "map_call (CallGetNext key) D = Ret (found (least_id D (\<lambda>v. unat key < v)) (\<lambda>v. v), D)"
| "map_call CallGetSize D = Ret (AnsSize (of_nat (card (dom D))), D)"
| "map_call CallClear D = Ret (AnsNone, Map.empty)"

text \<open>The calls for which the code is such a map. An id that is removed is stored, or no id near it is. The first id is asked for
  when there is none or one of a single digit. The next id is asked for from an id near a stored one. The number of entries is
  asked for while it is \<open>exact\<close>: as long as no stored id is stored again and no map with entries is cleared.\<close>

fun idmap_use :: "'a idmap_op \<Rightarrow> (u32 \<rightharpoonup> 'a) \<Rightarrow> bool \<Rightarrow> bool" where
  "idmap_use (CallRemove key) D exact = (key \<in> dom D \<or> \<not> near D key)"
| "idmap_use CallGetFirst D exact = (dom D = {} \<or> (\<exists>k \<in> dom D. k < 16))"
| "idmap_use (CallGetNext key) D exact = near D key"
| "idmap_use CallGetSize D exact = exact"
| "idmap_use _ D exact = True"

fun idmap_exact :: "'a idmap_op \<Rightarrow> (u32 \<rightharpoonup> 'a) \<Rightarrow> bool" where
  "idmap_exact (CallInsert key v) D = (key \<notin> dom D)"
| "idmap_exact CallClear D = (dom D = {})"
| "idmap_exact _ D = True"

fun idmap_uses :: "'a idmap_op list \<Rightarrow> (u32 \<rightharpoonup> 'a) \<Rightarrow> bool \<Rightarrow> bool" where
  "idmap_uses [] D exact = True"
| "idmap_uses (c # cs) D exact =
    (idmap_use c D exact
     \<and> (case map_call c D of Ret (_, D') \<Rightarrow> idmap_uses cs D' (exact \<and> idmap_exact c D) | _ \<Rightarrow> True))"

lemma near_refl: "key \<in> dom D \<Longrightarrow> near D key"
  unfolding near_def by blast

lemma first_small:
  assumes "dom D = {} \<or> (\<exists>k \<in> dom D. k < (16 :: u32))"
  shows "found (least_id D (\<lambda>_. True)) (\<lambda>v. v mod 16) = found (least_id D (\<lambda>_. True)) (\<lambda>v. v)"
proof (cases "least_id D (\<lambda>_. True)")
  case (Some v)
  then have l: "D (of_nat v) \<noteq> None" "\<And>w. w < 4294967296 \<Longrightarrow> D (of_nat w) \<noteq> None \<Longrightarrow> v \<le> w"
    unfolding least_id_def by (auto dest!: least_SomeD)
  then obtain k where k: "k \<in> dom D" "k < 16" using assms by blast
  have "D (of_nat (unat k)) \<noteq> None" using k(1) by auto
  then have "v \<le> unat k" using l(2) [OF unat_u32_bound] by blast
  then have "v mod 16 = v" using k(2) by (simp add: word_less_nat_alt)
  then show ?thesis by (simp add: Some found_def)
qed (simp add: found_def)

text \<open>The number never falls below the number of ids, so that no removal of a stored id fails.\<close>

lemma effect_map:
  assumes "idmap_use c D exact" "card (dom D) \<le> unat n" "exact \<longrightarrow> unat n = card (dom D)" "unat n < 4294967295"
  shows "case map_call c D of
      Ret (r, D') \<Rightarrow> (\<exists>n'. idmap_effect c (D, n) = Ret (r, D', n') \<and> card (dom D') \<le> unat n' \<and> unat n' \<le> unat n + 1
        \<and> (exact \<and> idmap_exact c D \<longrightarrow> unat n' = card (dom D')))
    | Abort \<Rightarrow> idmap_effect c (D, n) = Abort
    | _ \<Rightarrow> False"
proof (cases c)
  case (CallInsert key v)
  have "unat (n + 1) = unat n + 1" using assms(4) by (intro unat_Suc_u32) simp
  then show ?thesis using assms CallInsert by (auto simp: card_insert_if split: option.split)
next
  case (CallRemove key)
  show ?thesis
  proof (cases "key \<in> dom D")
    case True
    then have p: "0 < card (dom D)" by (auto simp: card_gt_0_iff)
    then have n0: "n \<noteq> 0" using assms(2) by auto
    then have n: "n \<noteq> 0" "unat (n - 1) = unat n - 1" by (simp_all add: unat_minus_one)
    have "card (dom D - {key}) = card (dom D) - 1" using True by simp
    then show ?thesis using True n p assms near_refl [OF True] CallRemove by auto
  next
    case False
    then have "D(key := None) = D" by auto
    then show ?thesis using False assms CallRemove by auto
  qed
next
  case CallGetFirst
  then show ?thesis using assms first_small [of D] by auto
next
  case CallGetSize
  then have "exact" "card (dom D) = unat n" using assms(1,3) by simp_all
  then show ?thesis using CallGetSize by simp
qed (use assms in auto)

lemma idmap_run:
  assumes "idmap_ok m" "idmap_abs m = (D, n)" "idmap_uses cs D exact"
    and "card (dom D) \<le> unat n" "exact \<longrightarrow> unat n = card (dom D)" "unat n + length cs < 4294967296"
  shows "run_calls idmap_call cs m = run_calls map_call cs D"
  using assms
proof (induction cs arbitrary: m D n exact)
  case (Cons c cs)
  have use: "idmap_use c D exact" using Cons.prems(3) by simp
  have n: "unat n < 4294967295" using Cons.prems(6) by simp
  note e = effect_map [OF use Cons.prems(4,5) n] and st = idmap_step [OF Cons.prems(1), of c, unfolded Cons.prems(2)]
  show ?case
  proof (cases "map_call c D")
    case (Ret x)
    obtain r D' where x: "map_call c D = Ret (r, D')" using Ret by (cases x) auto
    from e x obtain n' where n': "idmap_effect c (D, n) = Ret (r, D', n')" "card (dom D') \<le> unat n'" "unat n' \<le> unat n + 1"
      "exact \<and> idmap_exact c D \<longrightarrow> unat n' = card (dom D')" by auto
    from st n'(1) obtain m' where m': "idmap_call c m = Ret (r, m')" "idmap_abs m' = (D', n')" "idmap_ok m'"
      by (cases "idmap_call c m") (auto split: prod.splits)
    have "run_calls idmap_call cs m' = run_calls map_call cs D'"
      by (rule Cons.IH [OF m'(3,2) _ n'(2,4)]) (use Cons.prems(3,6) x n'(3) in auto)
    then show ?thesis using x m'(1) by simp
  next
    case Abort
    then have "idmap_call c m = Abort" using e st by (cases "idmap_call c m") (auto split: prod.splits)
    then show ?thesis using Abort by simp
  qed (use e in auto)
qed simp

text \<open>C5. A new id map, under any sequence of calls that keeps to the conditions of \<open>idmap_use\<close>, answers every call as a
  finite map from ids does: what is stored is found and removed, walking gives the ids in ascending order, and the size is the
  number of ids; no walk runs out of its rounds or leaves the tables, and no assertion fails but the one against storing a
  null pointer. Outside of these conditions the code deviates, see the lemmas below.\<close>

theorem idmap_refines_map:
  assumes "idmap_uses cs Map.empty True" "length cs < 4294967296"
  shows "\<exists>m. GWEN_IdMap_new IdMapAlgo_Hex4 = Some m \<and> run_calls idmap_call cs m = run_calls map_call cs Map.empty"
proof -
  let ?m = "\<lparr>im_algo = IdMapAlgo_Hex4, im_table = GWEN_IdMapHex4Map_new False, im_count = 0\<rparr> :: 'a gwen_idmap"
  have "idmap_ok ?m" using wf_new [of 7] by (simp add: idmap_ok_def)
  moreover have "idmap_abs ?m = (Map.empty, 0)" by (simp add: idmap_abs_def lookup_new)
  ultimately show ?thesis using idmap_run [of ?m Map.empty 0 cs True] assms by (simp add: GWEN_IdMap_new_def)
qed

theorem idmap_refines_map_witness:
  "\<exists>m. GWEN_IdMap_new IdMapAlgo_Hex4 = Some m
    \<and> run_calls idmap_call [CallInsert 5 (Some True), CallInsert 0x123 (Some False), CallGetFirst, CallGetNext 5, CallRemove 5, CallGetSize] m
      = Ret [AnsResult IdMapResult_Ok, AnsResult IdMapResult_Ok, AnsId IdMapResult_Ok (Some 5), AnsId IdMapResult_Ok (Some 0x123),
          AnsResult IdMapResult_Ok, AnsSize 1]"
proof -
  let ?cs = "[CallInsert 5 (Some True), CallInsert 0x123 (Some False), CallGetFirst, CallGetNext 5, CallRemove 5, CallGetSize]"
  let ?D = "[5 \<mapsto> True, 0x123 \<mapsto> False] :: u32 \<rightharpoonup> bool"
  have e: "of_nat v = (5 :: u32) \<longleftrightarrow> v = 5" "of_nat v = (0x123 :: u32) \<longleftrightarrow> v = 0x123" if "v < 4294967296" for v
    using unat_of_nat_u32 [OF that] by (auto simp: word_unat_eq_iff simp del: unsigned_of_nat)
  have first: "least_id ?D (\<lambda>_. True) = Some 5"
    unfolding least_id_def by (rule least_SomeI) (auto simp: e split: if_splits)
  have nxt: "least_id ?D (\<lambda>v. 5 < v) = Some 0x123"
    unfolding least_id_def by (rule least_SomeI) (auto simp: e split: if_splits)
  have "idmap_uses ?cs Map.empty True" by (simp add: near_def)
  moreover have "run_calls map_call ?cs Map.empty
      = Ret [AnsResult IdMapResult_Ok, AnsResult IdMapResult_Ok, AnsId IdMapResult_Ok (Some 5), AnsId IdMapResult_Ok (Some 0x123),
          AnsResult IdMapResult_Ok, AnsSize 1]"
    using first nxt by (simp add: found_def)
  ultimately show ?thesis using idmap_refines_map [of ?cs] by simp
qed

text \<open>Where the code is not a map: an id that is stored twice is counted twice; removing an id that is not there,
  while an id near it is, decreases the number, so that the id that is there cannot be removed any more; the first id is
  its last digit only; clearing leaves the number; and asking for the id behind one that no stored id is near is an assertion.\<close>

lemma idmap_counts_twice:
  "run_calls idmap_call [CallInsert 5 (Some True), CallInsert 5 (Some False), CallGetSize] (the (GWEN_IdMap_new IdMapAlgo_Hex4)) =
   Ret [AnsResult IdMapResult_Ok, AnsResult IdMapResult_Ok, AnsSize 2]"
  by code_simp

lemma idmap_remove_absent:
  "run_calls idmap_call [CallInsert 0x11 (Some True), CallRemove 0x12, CallRemove 0x11] (the (GWEN_IdMap_new IdMapAlgo_Hex4)) = Abort"
  by code_simp

lemma idmap_first_digit:
  "run_calls idmap_call [CallInsert 0x123 (Some True), CallGetFirst] (the (GWEN_IdMap_new IdMapAlgo_Hex4)) =
   Ret [AnsResult IdMapResult_Ok, AnsId IdMapResult_Ok (Some 3)]"
  by code_simp

lemma idmap_clear_counts:
  "run_calls idmap_call [CallInsert 5 (Some True), CallClear, CallGetSize] (the (GWEN_IdMap_new IdMapAlgo_Hex4)) =
   Ret [AnsResult IdMapResult_Ok, AnsNone, AnsSize 1]"
  by code_simp

lemma idmap_next_absent:
  "run_calls idmap_call [CallInsert 0x123 (Some True), CallGetNext 5] (the (GWEN_IdMap_new IdMapAlgo_Hex4)) = Abort"
  by code_simp

end
