(* ===== verification/Gwen_List1.thy ===== *)
theory Gwen_List1
  imports Gwen_StringList
begin

text \<open>
  Linked lists of objects, \<^verbatim>\<open>src/base/list1.c\<close>. Lists and elements are structs that point to each other, so that an element knows
  its neighbours and its list. They live in a store from addresses to structs; a pointer is an address or \<open>None\<close> for NULL, and
  reading or writing at an address without a struct is a fault. The data of an element belongs to the caller.
\<close>

section \<open>The store\<close>

record 'a gwen_list1_element =
  le_listPtr :: "nat option"
  le_data :: 'a
  le_prevElement :: "nat option"
  le_nextElement :: "nat option"

record 'a gwen_list1 =
  l1_count :: u32
  l1_firstElement :: "nat option"
  l1_lastElement :: "nat option"
  l1_sortFunction :: "'a \<Rightarrow> 'a \<Rightarrow> int \<Rightarrow> int"

record 'a list1_heap =
  lh_lists :: "nat \<rightharpoonup> 'a gwen_list1"
  lh_els :: "nat \<rightharpoonup> 'a gwen_list1_element"
  lh_next :: nat

definition lh_empty :: "'a list1_heap" where
  "lh_empty = \<lparr>lh_lists = Map.empty, lh_els = Map.empty, lh_next = 1\<rparr>"

definition l1_list :: "'a list1_heap \<Rightarrow> nat \<Rightarrow> 'a gwen_list1 outcome" where
  "l1_list h l = (case lh_lists h l of None \<Rightarrow> Fault | Some x \<Rightarrow> Ret x)"

definition l1_el :: "'a list1_heap \<Rightarrow> nat \<Rightarrow> 'a gwen_list1_element outcome" where
  "l1_el h a = (case lh_els h a of None \<Rightarrow> Fault | Some x \<Rightarrow> Ret x)"

definition l1_set_list :: "nat \<Rightarrow> ('a gwen_list1 \<Rightarrow> 'a gwen_list1) \<Rightarrow> 'a list1_heap \<Rightarrow> 'a list1_heap outcome" where
  "l1_set_list l f h = obind (l1_list h l) (\<lambda>x. Ret (h\<lparr>lh_lists := (lh_lists h) (l \<mapsto> f x)\<rparr>))"

definition l1_set_el :: "nat \<Rightarrow> ('a gwen_list1_element \<Rightarrow> 'a gwen_list1_element) \<Rightarrow> 'a list1_heap \<Rightarrow> 'a list1_heap outcome" where
  "l1_set_el a f h = obind (l1_el h a) (\<lambda>x. Ret (h\<lparr>lh_els := (lh_els h) (a \<mapsto> f x)\<rparr>))"

text \<open>A write through a pointer that may be NULL, guarded by a test of it.\<close>

definition l1_set_if :: "nat option \<Rightarrow> ('a gwen_list1_element \<Rightarrow> 'a gwen_list1_element) \<Rightarrow> 'a list1_heap \<Rightarrow> 'a list1_heap outcome" where
  "l1_set_if p f h = (case p of None \<Rightarrow> Ret h | Some a \<Rightarrow> l1_set_el a f h)"

section \<open>Lists\<close>

definition GWEN_List1__defaultSortFn :: "'a \<Rightarrow> 'a \<Rightarrow> int \<Rightarrow> int" where
  "GWEN_List1__defaultSortFn a b ascending = 0"

definition GWEN_List1_new :: "'a list1_heap \<Rightarrow> nat \<times> 'a list1_heap" where
  "GWEN_List1_new h =
     (lh_next h,
      h\<lparr>lh_lists := (lh_lists h) (lh_next h \<mapsto>
          \<lparr>l1_count = 0, l1_firstElement = None, l1_lastElement = None, l1_sortFunction = GWEN_List1__defaultSortFn\<rparr>),
        lh_next := lh_next h + 1\<rparr>)"

definition GWEN_List1_free :: "nat \<Rightarrow> 'a list1_heap \<Rightarrow> 'a list1_heap outcome" where
  "GWEN_List1_free l h = obind (l1_list h l) (\<lambda>_. Ret (h\<lparr>lh_lists := (lh_lists h) (l := None)\<rparr>))"

definition GWEN_List1_GetCount :: "nat \<Rightarrow> 'a list1_heap \<Rightarrow> int outcome" where
  "GWEN_List1_GetCount l h = obind (l1_list h l) (\<lambda>x. Ret (sint (l1_count x)))"

definition GWEN_List1_Add :: "nat \<Rightarrow> nat \<Rightarrow> 'a list1_heap \<Rightarrow> (int \<times> 'a list1_heap) outcome" where
  "GWEN_List1_Add l el h =
     obind (l1_el h el) (\<lambda>e.
     if le_listPtr e \<noteq> None then Abort
     else
     obind (l1_set_list l (\<lambda>x. if l1_firstElement x = None then x\<lparr>l1_firstElement := Some el\<rparr> else x) h) (\<lambda>h.
     obind (l1_list h l) (\<lambda>x.
     obind (l1_set_el el (\<lambda>e. e\<lparr>le_prevElement := l1_lastElement x\<rparr>) h) (\<lambda>h.
     obind (l1_set_if (l1_lastElement x) (\<lambda>e. e\<lparr>le_nextElement := Some el\<rparr>) h) (\<lambda>h.
     obind (l1_set_list l (\<lambda>x. x\<lparr>l1_lastElement := Some el\<rparr>) h) (\<lambda>h.
     obind (l1_set_el el (\<lambda>e. e\<lparr>le_listPtr := Some l\<rparr>) h) (\<lambda>h.
     obind (l1_set_list l (\<lambda>x. x\<lparr>l1_count := l1_count x + 1\<rparr>) h) (\<lambda>h.
     Ret (0, h)))))))))"

definition GWEN_List1_Insert :: "nat \<Rightarrow> nat \<Rightarrow> 'a list1_heap \<Rightarrow> (int \<times> 'a list1_heap) outcome" where
  "GWEN_List1_Insert l el h =
     obind (l1_el h el) (\<lambda>e.
     if le_listPtr e \<noteq> None then Ret (-1, h)
     else
     obind (l1_list h l) (\<lambda>x.
     obind (l1_set_el el (\<lambda>e. e\<lparr>le_nextElement := l1_firstElement x\<rparr>) h) (\<lambda>h.
     obind (l1_set_list l (\<lambda>x. x\<lparr>l1_firstElement := Some el\<rparr>) h) (\<lambda>h.
     obind (l1_set_list l (\<lambda>x. if l1_lastElement x = None then x\<lparr>l1_lastElement := Some el\<rparr> else x) h) (\<lambda>h.
     obind (l1_el h el) (\<lambda>e.
     obind (l1_set_if (le_nextElement e) (\<lambda>e. e\<lparr>le_prevElement := Some el\<rparr>) h) (\<lambda>h.
     obind (l1_set_el el (\<lambda>e. e\<lparr>le_listPtr := Some l\<rparr>) h) (\<lambda>h.
     obind (l1_set_list l (\<lambda>x. x\<lparr>l1_count := l1_count x + 1\<rparr>) h) (\<lambda>h.
     Ret (0, h))))))))))"

definition GWEN_List1_Del :: "nat \<Rightarrow> 'a list1_heap \<Rightarrow> (int \<times> 'a list1_heap) outcome" where
  "GWEN_List1_Del el h =
     obind (l1_el h el) (\<lambda>e.
     case le_listPtr e of
       None \<Rightarrow> Ret (-1, h)
     | Some l \<Rightarrow>
         obind (l1_set_if (le_prevElement e) (\<lambda>p. p\<lparr>le_nextElement := le_nextElement e\<rparr>) h) (\<lambda>h.
         obind (l1_el h el) (\<lambda>e.
         obind (l1_set_if (le_nextElement e) (\<lambda>n. n\<lparr>le_prevElement := le_prevElement e\<rparr>) h) (\<lambda>h.
         obind (l1_el h el) (\<lambda>e.
         obind (l1_set_list l (\<lambda>x. if l1_firstElement x = Some el then x\<lparr>l1_firstElement := le_nextElement e\<rparr> else x) h) (\<lambda>h.
         obind (l1_set_list l (\<lambda>x. if l1_lastElement x = Some el then x\<lparr>l1_lastElement := le_prevElement e\<rparr> else x) h) (\<lambda>h.
         obind (l1_set_list l (\<lambda>x. x\<lparr>l1_count := l1_count x - 1\<rparr>) h) (\<lambda>h.
         obind (l1_set_el el (\<lambda>e. e\<lparr>le_nextElement := None, le_prevElement := None, le_listPtr := None\<rparr>) h) (\<lambda>h.
         Ret (0, h))))))))))"

text \<open>Elements are moved as long as there is one; the number of rounds is given, and one more than there are elements is enough
  unless a list is added to itself.\<close>

primrec list1_move :: "nat \<Rightarrow> nat \<Rightarrow> nat \<Rightarrow> 'a list1_heap \<Rightarrow> (int \<times> 'a list1_heap) outcome" where
  "list1_move 0 dest l h = Hang"
| "list1_move (Suc k) dest l h =
     obind (l1_list h l) (\<lambda>x.
       case l1_firstElement x of
         None \<Rightarrow> Ret (0, h)
       | Some el \<Rightarrow>
           obind (GWEN_List1_Del el h) (\<lambda>(_, h).
           obind (GWEN_List1_Add dest el h) (\<lambda>(_, h). list1_move k dest l h)))"

definition GWEN_List1_AddList :: "nat \<Rightarrow> nat \<Rightarrow> 'a list1_heap \<Rightarrow> (int \<times> 'a list1_heap) outcome" where
  "GWEN_List1_AddList dest l h =
     obind (l1_list h dest) (\<lambda>_. obind (l1_list h l) (\<lambda>x. list1_move (unat (l1_count x) + 1) dest l h))"

text \<open>The data of the element at a pointer, \<open>None\<close> for NULL.\<close>

definition l1_data :: "nat option \<Rightarrow> 'a list1_heap \<Rightarrow> 'a option outcome" where
  "l1_data p h = (case p of None \<Rightarrow> Ret None | Some a \<Rightarrow> obind (l1_el h a) (\<lambda>e. Ret (Some (le_data e))))"

definition GWEN_List1_GetFirst :: "nat \<Rightarrow> 'a list1_heap \<Rightarrow> 'a option outcome" where
  "GWEN_List1_GetFirst l h = obind (l1_list h l) (\<lambda>x. l1_data (l1_firstElement x) h)"

definition GWEN_List1_GetLast :: "nat \<Rightarrow> 'a list1_heap \<Rightarrow> 'a option outcome" where
  "GWEN_List1_GetLast l h = obind (l1_list h l) (\<lambda>x. l1_data (l1_lastElement x) h)"

section \<open>Elements\<close>

definition GWEN_List1Element_new :: "'a \<Rightarrow> 'a list1_heap \<Rightarrow> nat \<times> 'a list1_heap" where
  "GWEN_List1Element_new d h =
     (lh_next h,
      h\<lparr>lh_els := (lh_els h) (lh_next h \<mapsto> \<lparr>le_listPtr = None, le_data = d, le_prevElement = None, le_nextElement = None\<rparr>),
        lh_next := lh_next h + 1\<rparr>)"

definition GWEN_List1Element_free :: "nat \<Rightarrow> 'a list1_heap \<Rightarrow> 'a list1_heap outcome" where
  "GWEN_List1Element_free el h =
     obind (l1_el h el) (\<lambda>e.
     obind (if le_listPtr e \<noteq> None then GWEN_List1_Del el h else Ret (0, h)) (\<lambda>(_, h).
     Ret (h\<lparr>lh_els := (lh_els h) (el := None)\<rparr>)))"

definition GWEN_List1Element_GetData :: "nat \<Rightarrow> 'a list1_heap \<Rightarrow> 'a outcome" where
  "GWEN_List1Element_GetData el h = obind (l1_el h el) (\<lambda>e. Ret (le_data e))"

definition GWEN_List1Element_GetPrevious :: "nat \<Rightarrow> 'a list1_heap \<Rightarrow> 'a option outcome" where
  "GWEN_List1Element_GetPrevious el h = obind (l1_el h el) (\<lambda>e. l1_data (le_prevElement e) h)"

definition GWEN_List1Element_GetNext :: "nat \<Rightarrow> 'a list1_heap \<Rightarrow> 'a option outcome" where
  "GWEN_List1Element_GetNext el h = obind (l1_el h el) (\<lambda>e. l1_data (le_nextElement e) h)"

section \<open>Sorting\<close>

definition GWEN_List1_SetSortFn :: "nat \<Rightarrow> ('a \<Rightarrow> 'a \<Rightarrow> int \<Rightarrow> int) \<Rightarrow> 'a list1_heap \<Rightarrow> (('a \<Rightarrow> 'a \<Rightarrow> int \<Rightarrow> int) \<times> 'a list1_heap) outcome" where
  "GWEN_List1_SetSortFn l fn h =
     obind (l1_list h l) (\<lambda>x. obind (l1_set_list l (\<lambda>x. x\<lparr>l1_sortFunction := fn\<rparr>) h) (\<lambda>h. Ret (l1_sortFunction x, h)))"

text \<open>The elements in order, each taken out of the chain; the array has room for as many as are counted.\<close>

primrec list1_collect :: "nat \<Rightarrow> nat \<Rightarrow> nat option \<Rightarrow> 'a list1_heap \<Rightarrow> (nat list \<times> 'a list1_heap) outcome" where
  "list1_collect 0 l p h = (case p of None \<Rightarrow> Ret ([], h) | Some _ \<Rightarrow> Fault)"
| "list1_collect (Suc k) l p h =
     (case p of
        None \<Rightarrow> Ret ([], h)
      | Some a \<Rightarrow>
          obind (l1_el h a) (\<lambda>e.
          obind (l1_set_el a (\<lambda>e. e\<lparr>le_prevElement := None, le_nextElement := None, le_listPtr := Some l\<rparr>) h) (\<lambda>h.
          obind (list1_collect k l (le_nextElement e) h) (\<lambda>(as, h). Ret (a # as, h)))))"

primrec list1_refill :: "nat \<Rightarrow> nat list \<Rightarrow> 'a list1_heap \<Rightarrow> 'a list1_heap outcome" where
  "list1_refill l [] h = Ret h"
| "list1_refill l (a # as) h =
     obind (l1_set_el a (\<lambda>e. e\<lparr>le_listPtr := None\<rparr>) h) (\<lambda>h.
     obind (GWEN_List1_Add l a h) (\<lambda>(_, h). list1_refill l as h))"

definition GWEN_List1__compar :: "('a \<Rightarrow> 'a \<Rightarrow> int \<Rightarrow> int) \<Rightarrow> int \<Rightarrow> 'a gwen_list1_element \<Rightarrow> 'a gwen_list1_element \<Rightarrow> int" where
  "GWEN_List1__compar sortFunction param e1 e2 = sortFunction (le_data e1) (le_data e2) param"

definition GWEN_List1_Sort :: "nat \<Rightarrow> int \<Rightarrow> 'a list1_heap \<Rightarrow> 'a list1_heap outcome" where
  "GWEN_List1_Sort l ascending h =
     obind (l1_list h l) (\<lambda>x.
     if l1_count x < 1 then Ret h
     else
     obind (list1_collect (unat (l1_count x)) l (l1_firstElement x) h) (\<lambda>(as, h).
     if length as \<noteq> unat (l1_count x) then Fault
     else
     obind (l1_set_list l (\<lambda>x. x\<lparr>l1_count := 0, l1_firstElement := None, l1_lastElement := None\<rparr>) h) (\<lambda>h.
     list1_refill l
       (qsort (\<lambda>a b. GWEN_List1__compar (l1_sortFunction x) ascending (the (lh_els h a)) (the (lh_els h b))) as) h)))"

end
