(* ===== verification/Gwen_List1Props.thy ===== *)
theory Gwen_List1Props
  imports Gwen_List1 Gwen_StringListProps
begin

text \<open>
  The store of \<^verbatim>\<open>Gwen_List1\<close> as a set of lists of addresses: segments of chains, the relation between a store and the lists it
  holds, and the refinement of every operation.
\<close>

section \<open>Chains\<close>

definition first_or :: "nat list \<Rightarrow> nat option \<Rightarrow> nat option" where
  "first_or xs r = (case xs of [] \<Rightarrow> r | x # _ \<Rightarrow> Some x)"

definition last_or :: "nat option \<Rightarrow> nat list \<Rightarrow> nat option" where
  "last_or p xs = (if xs = [] then p else Some (last xs))"

lemma first_or_simps [simp]: "first_or [] r = r" "first_or (x # xs) r = Some x"
  "first_or (xs @ ys) r = first_or xs (first_or ys r)"
  by (simp_all add: first_or_def split: list.split)

lemma last_or_simps [simp]: "last_or p [] = p" "last_or p (x # xs) = last_or (Some x) xs"
  "last_or p (xs @ ys) = last_or (last_or p xs) ys"
  by (simp_all add: last_or_def)

text \<open>The chain \<open>xs\<close> of list \<open>l\<close> between the element before it and the one behind it.\<close>

fun dseg :: "(nat \<rightharpoonup> 'a gwen_list1_element) \<Rightarrow> nat \<Rightarrow> nat option \<Rightarrow> nat list \<Rightarrow> nat option \<Rightarrow> bool" where
  "dseg E l p [] r = True"
| "dseg E l p (x # xs) r =
     ((\<exists>e. E x = Some e \<and> le_listPtr e = Some l \<and> le_prevElement e = p \<and> le_nextElement e = first_or xs r) \<and> dseg E l (Some x) xs r)"

lemma dseg_append [simp]:
  "dseg E l p (xs @ ys) r \<longleftrightarrow> dseg E l p xs (first_or ys r) \<and> dseg E l (last_or p xs) ys r"
  by (induction xs arbitrary: p) auto

lemma dseg_frame: "(\<And>x. x \<in> set xs \<Longrightarrow> E' x = E x) \<Longrightarrow> dseg E' l p xs r = dseg E l p xs r"
  by (induction xs arbitrary: p) auto

lemma dseg_upd [simp]: "a \<notin> set xs \<Longrightarrow> dseg (E(a := v)) l p xs r = dseg E l p xs r"
  by (rule dseg_frame) auto

definition upd_if :: "nat option \<Rightarrow> ('e \<Rightarrow> 'e) \<Rightarrow> (nat \<rightharpoonup> 'e) \<Rightarrow> (nat \<rightharpoonup> 'e)" where
  "upd_if p f E = (case p of None \<Rightarrow> E | Some a \<Rightarrow> E(a := map_option f (E a)))"

lemma upd_if_simps [simp]: "upd_if None f E = E" "upd_if (Some a) f E = E(a := map_option f (E a))"
  by (simp_all add: upd_if_def)

text \<open>Putting an element at the end, at the start, and taking one out.\<close>

lemma dseg_add:
  assumes "dseg E l None xs None" "distinct xs" "el \<notin> set xs" "le_nextElement e = None"
  shows "dseg (upd_if (last_or None xs) (\<lambda>e. e\<lparr>le_nextElement := Some el\<rparr>)
      (E(el \<mapsto> e\<lparr>le_prevElement := last_or None xs, le_listPtr := Some l\<rparr>))) l None (xs @ [el]) None"
proof (cases xs rule: rev_cases)
  case Nil then show ?thesis using assms by simp
next
  case (snoc ys y) then show ?thesis using assms by auto
qed

lemma dseg_insert:
  assumes "dseg E l None xs None" "distinct xs" "el \<notin> set xs" "le_prevElement e = None"
  shows "dseg (upd_if (first_or xs None) (\<lambda>e. e\<lparr>le_prevElement := Some el\<rparr>)
      (E(el \<mapsto> e\<lparr>le_nextElement := first_or xs None, le_listPtr := Some l\<rparr>))) l None (el # xs) None"
proof (cases xs)
  case Nil then show ?thesis using assms by simp
next
  case (Cons y ys) then show ?thesis using assms by auto
qed

lemma dseg_del:
  assumes "dseg E l None (xs @ el # ys) None" "distinct (xs @ el # ys)"
  shows "dseg ((upd_if (first_or ys None) (\<lambda>e. e\<lparr>le_prevElement := last_or None xs\<rparr>)
      (upd_if (last_or None xs) (\<lambda>e. e\<lparr>le_nextElement := first_or ys None\<rparr>) E)) (el := v)) l None (xs @ ys) None"
proof (cases xs rule: rev_cases)
  case Nil
  then show ?thesis using assms by (cases ys) auto
next
  case (snoc zs z)
  then show ?thesis using assms by (cases ys) auto
qed

section \<open>What the lists are\<close>

type_synonym 'a sort_fn = "'a \<Rightarrow> 'a \<Rightarrow> int \<Rightarrow> int"

text \<open>Lists of addresses with their order, elements with their data and the list they are in, and the next address.\<close>

record 'a lists_state =
  as_lists :: "nat \<rightharpoonup> nat list \<times> 'a sort_fn"
  as_els :: "nat \<rightharpoonup> 'a \<times> nat option"
  as_next :: nat

definition list_struct :: "nat list \<times> 'a sort_fn \<Rightarrow> 'a gwen_list1" where
  "list_struct = (\<lambda>(xs, f). \<lparr>l1_count = of_nat (length xs), l1_firstElement = first_or xs None, l1_lastElement = last_or None xs,
     l1_sortFunction = f\<rparr>)"

text \<open>While a list is sorted its elements are loose: they belong to no list but still point to theirs.\<close>

definition el_rel :: "bool \<Rightarrow> 'a gwen_list1_element \<Rightarrow> 'a \<times> nat option \<Rightarrow> bool" where
  "el_rel loose e = (\<lambda>(d, w). le_data e = d \<and> (\<not> loose \<longrightarrow> le_listPtr e = w) \<and>
     (w = None \<longrightarrow> le_prevElement e = None \<and> le_nextElement e = None))"

definition heap_rel :: "nat set \<Rightarrow> 'a list1_heap \<Rightarrow> 'a lists_state \<Rightarrow> bool" where
  "heap_rel L h s \<longleftrightarrow>
     lh_next h = as_next s \<and>
     (\<forall>l. lh_lists h l = map_option list_struct (as_lists s l)) \<and>
     (\<forall>a. rel_option (el_rel (a \<in> L)) (lh_els h a) (as_els s a)) \<and>
     (\<forall>l xs f. as_lists s l = Some (xs, f) \<longrightarrow> distinct xs \<and> length xs < 4294967296 \<and> dseg (lh_els h) l None xs None) \<and>
     (\<forall>l xs f a. as_lists s l = Some (xs, f) \<longrightarrow> a \<in> set xs \<longrightarrow> (\<exists>d. as_els s a = Some (d, Some l))) \<and>
     (\<forall>l d a. as_els s a = Some (d, Some l) \<longrightarrow> (\<exists>xs f. as_lists s l = Some (xs, f) \<and> a \<in> set xs)) \<and>
     (\<forall>a. as_next s \<le> a \<longrightarrow> as_els s a = None \<and> as_lists s a = None)"

lemma heap_relD:
  assumes "heap_rel L h s"
  shows "lh_next h = as_next s" "lh_lists h l = map_option list_struct (as_lists s l)"
    "rel_option (el_rel (a \<in> L)) (lh_els h a) (as_els s a)"
    "as_lists s l = Some (xs, f) \<Longrightarrow> distinct xs" "as_lists s l = Some (xs, f) \<Longrightarrow> length xs < 4294967296"
    "as_lists s l = Some (xs, f) \<Longrightarrow> dseg (lh_els h) l None xs None"
    "as_lists s l = Some (xs, f) \<Longrightarrow> a \<in> set xs \<Longrightarrow> \<exists>d. as_els s a = Some (d, Some l)"
    "as_els s a = Some (d, Some l) \<Longrightarrow> \<exists>xs f. as_lists s l = Some (xs, f) \<and> a \<in> set xs"
    "as_next s \<le> a \<Longrightarrow> as_els s a = None" "as_next s \<le> a \<Longrightarrow> as_lists s a = None"
  using assms unfolding heap_rel_def by blast+

lemma dseg_el: "dseg E l p xs r \<Longrightarrow> a \<in> set xs \<Longrightarrow> \<exists>e. E a = Some e \<and> le_listPtr e = Some l"
  by (induction xs arbitrary: p) auto

text \<open>Changing the list \<open>l\<close> and one element \<open>a\<close>, which is then in \<open>l\<close> or in no list.\<close>

lemma put_rel:
  assumes H: "heap_rel L h s" and l: "as_lists s l = Some (xs, f)" and a: "as_els s a = Some (d, w)" "w = None \<or> w = Some l"
    and xs': "distinct xs'" "length xs' < 4294967296" "dseg E' l None xs' None" "set xs' - {a} = set xs - {a}"
    and w': "w' = (if a \<in> set xs' then Some l else None)"
    and E': "\<And>b. b \<noteq> a \<Longrightarrow> b \<notin> set xs \<Longrightarrow> E' b = lh_els h b"
      "\<And>b. b \<noteq> a \<Longrightarrow> b \<in> set xs \<Longrightarrow> map_option le_data (E' b) = map_option le_data (lh_els h b)"
      "\<exists>e. E' a = Some e \<and> el_rel (a \<in> L) e (d, w')"
  shows "heap_rel L (h\<lparr>lh_lists := (lh_lists h) (l \<mapsto> list_struct (xs', f)), lh_els := E'\<rparr>)
    (s\<lparr>as_lists := (as_lists s) (l \<mapsto> (xs', f)), as_els := (as_els s) (a \<mapsto> (d, w'))\<rparr>)"
  unfolding heap_rel_def
proof (intro conjI allI impI)
  note H = heap_relD [OF H]
  fix b show "rel_option (el_rel (b \<in> L)) (lh_els (h\<lparr>lh_lists := (lh_lists h) (l \<mapsto> list_struct (xs', f)), lh_els := E'\<rparr>) b)
      (as_els (s\<lparr>as_lists := (as_lists s) (l \<mapsto> (xs', f)), as_els := (as_els s) (a \<mapsto> (d, w'))\<rparr>) b)"
  proof -
    consider "b = a" | "b \<noteq> a" "b \<notin> set xs" | "b \<noteq> a" "b \<in> set xs" by blast
    then show ?thesis
    proof cases
      case 1 then show ?thesis using E'(3) by auto
    next
      case 2 then show ?thesis using E'(1) H(3) [of b] by simp
    next
      case 3
      then obtain d' where d': "as_els s b = Some (d', Some l)" using H(7) l by blast
      have "b \<in> set xs'" using 3 xs'(4) by blast
      then obtain e where e: "E' b = Some e" "le_listPtr e = Some l" using dseg_el [OF xs'(3)] by blast
      moreover have "le_data e = d'" using E'(2) [OF 3] H(3) [of b] d' e by (auto simp: el_rel_def elim: option.rel_cases)
      ultimately show ?thesis using 3 d' by (simp add: el_rel_def)
    qed
  qed
next
  note H = heap_relD [OF H]
  fix m ys g assume m: "as_lists (s\<lparr>as_lists := (as_lists s) (l \<mapsto> (xs', f)), as_els := (as_els s) (a \<mapsto> (d, w'))\<rparr>) m = Some (ys, g)"
  have o: "b \<in> set ys \<Longrightarrow> b \<noteq> a \<and> b \<notin> set xs" if "m \<noteq> l" for b
    using H(7) [of m ys g b] H(7) [OF l, of b] that m a by auto
  show "distinct ys" "length ys < 4294967296" using m xs' H(4,5) by (auto split: if_splits)
  show "dseg (lh_els (h\<lparr>lh_lists := (lh_lists h) (l \<mapsto> list_struct (xs', f)), lh_els := E'\<rparr>)) m None ys None"
  proof (cases "m = l")
    case True then show ?thesis using m xs' by simp
  next
    case False
    then have "dseg E' m None ys None = dseg (lh_els h) m None ys None" using o E'(1) by (intro dseg_frame) blast
    then show ?thesis using H(6) m False by simp
  qed
  fix b assume b: "b \<in> set ys"
  show "\<exists>d''. as_els (s\<lparr>as_lists := (as_lists s) (l \<mapsto> (xs', f)), as_els := (as_els s) (a \<mapsto> (d, w'))\<rparr>) b = Some (d'', Some m)"
  proof (cases "m = l")
    case True
    then show ?thesis using m b w' xs'(4) H(7) [OF l, of b] by (cases "b = a") auto
  next
    case False
    then show ?thesis using m b o H(7) [of m ys g b] by auto
  qed
next
  note H = heap_relD [OF H]
  fix m d'' b assume b: "as_els (s\<lparr>as_lists := (as_lists s) (l \<mapsto> (xs', f)), as_els := (as_els s) (a \<mapsto> (d, w'))\<rparr>) b = Some (d'', Some m)"
  show "\<exists>ys g. as_lists (s\<lparr>as_lists := (as_lists s) (l \<mapsto> (xs', f)), as_els := (as_els s) (a \<mapsto> (d, w'))\<rparr>) m = Some (ys, g) \<and> b \<in> set ys"
  proof (cases "b = a")
    case True then show ?thesis using b w' by (auto split: if_splits)
  next
    case False
    then have "as_els s b = Some (d'', Some m)" using b by simp
    then obtain ys g where y: "as_lists s m = Some (ys, g)" "b \<in> set ys" using H(8) by blast
    then show ?thesis using False l xs'(4) by (cases "m = l") auto
  qed
next
  note H = heap_relD [OF H]
  fix b assume "as_next (s\<lparr>as_lists := (as_lists s) (l \<mapsto> (xs', f)), as_els := (as_els s) (a \<mapsto> (d, w'))\<rparr>) \<le> b"
  then have n: "as_els s b = None" "as_lists s b = None" using H(9,10) by simp_all
  then have "b \<noteq> a" "b \<noteq> l" using l a by auto
  then show "as_els (s\<lparr>as_lists := (as_lists s) (l \<mapsto> (xs', f)), as_els := (as_els s) (a \<mapsto> (d, w'))\<rparr>) b = None"
    "as_lists (s\<lparr>as_lists := (as_lists s) (l \<mapsto> (xs', f)), as_els := (as_els s) (a \<mapsto> (d, w'))\<rparr>) b = None"
    using n by simp_all
next
  show "lh_next (h\<lparr>lh_lists := (lh_lists h) (l \<mapsto> list_struct (xs', f)), lh_els := E'\<rparr>) =
      as_next (s\<lparr>as_lists := (as_lists s) (l \<mapsto> (xs', f)), as_els := (as_els s) (a \<mapsto> (d, w'))\<rparr>)"
    using heap_relD(1) [OF H] by simp
  fix m show "lh_lists (h\<lparr>lh_lists := (lh_lists h) (l \<mapsto> list_struct (xs', f)), lh_els := E'\<rparr>) m =
      map_option list_struct (as_lists (s\<lparr>as_lists := (as_lists s) (l \<mapsto> (xs', f)), as_els := (as_els s) (a \<mapsto> (d, w'))\<rparr>) m)"
    using heap_relD(2) [OF H, of m] by simp
qed

lemma Add_eq:
  assumes "lh_els h el = Some e" "le_listPtr e = None" "lh_lists h l = Some x"
    "\<And>p. l1_lastElement x = Some p \<Longrightarrow> p \<noteq> el \<and> lh_els h p \<noteq> None"
  shows "GWEN_List1_Add l el h = Ret (0, h\<lparr>
      lh_lists := (lh_lists h) (l \<mapsto> x\<lparr>l1_count := l1_count x + 1, l1_lastElement := Some el,
        l1_firstElement := (if l1_firstElement x = None then Some el else l1_firstElement x)\<rparr>),
      lh_els := upd_if (l1_lastElement x) (\<lambda>e. e\<lparr>le_nextElement := Some el\<rparr>)
        ((lh_els h) (el \<mapsto> e\<lparr>le_prevElement := l1_lastElement x, le_listPtr := Some l\<rparr>))\<rparr>)"
  using assms
  by (cases h; cases x; cases "l1_lastElement x")
    (auto simp: GWEN_List1_Add_def l1_el_def l1_set_el_def l1_set_if_def l1_set_list_def l1_list_def fun_upd_twist)

lemma Insert_eq:
  assumes "lh_els h el = Some e" "le_listPtr e = None" "lh_lists h l = Some x"
    "\<And>p. l1_firstElement x = Some p \<Longrightarrow> p \<noteq> el \<and> lh_els h p \<noteq> None"
  shows "GWEN_List1_Insert l el h = Ret (0, h\<lparr>
      lh_lists := (lh_lists h) (l \<mapsto> x\<lparr>l1_count := l1_count x + 1, l1_firstElement := Some el,
        l1_lastElement := (if l1_lastElement x = None then Some el else l1_lastElement x)\<rparr>),
      lh_els := upd_if (l1_firstElement x) (\<lambda>e. e\<lparr>le_prevElement := Some el\<rparr>)
        ((lh_els h) (el \<mapsto> e\<lparr>le_nextElement := l1_firstElement x, le_listPtr := Some l\<rparr>))\<rparr>)"
  using assms
  by (cases h; cases x; cases "l1_firstElement x")
    (auto simp: GWEN_List1_Insert_def l1_el_def l1_set_el_def l1_set_if_def l1_set_list_def l1_list_def fun_upd_twist)

lemma Del_eq:
  assumes "lh_els h el = Some e" "le_listPtr e = Some l" "lh_lists h l = Some x"
    "le_prevElement e = p" "le_nextElement e = n"
    "\<And>a. p = Some a \<Longrightarrow> a \<noteq> el \<and> lh_els h a \<noteq> None" "\<And>a. n = Some a \<Longrightarrow> a \<noteq> el \<and> lh_els h a \<noteq> None"
  shows "GWEN_List1_Del el h = Ret (0, h\<lparr>
      lh_lists := (lh_lists h) (l \<mapsto> x\<lparr>l1_count := l1_count x - 1,
        l1_firstElement := (if l1_firstElement x = Some el then n else l1_firstElement x),
        l1_lastElement := (if l1_lastElement x = Some el then p else l1_lastElement x)\<rparr>),
      lh_els := (upd_if n (\<lambda>e. e\<lparr>le_prevElement := p\<rparr>) (upd_if p (\<lambda>e. e\<lparr>le_nextElement := n\<rparr>) (lh_els h)))
        (el \<mapsto> e\<lparr>le_nextElement := None, le_prevElement := None, le_listPtr := None\<rparr>)\<rparr>)"
  using assms
  by (cases h; cases x; cases p; cases n)
    (auto simp: GWEN_List1_Del_def l1_el_def l1_set_el_def l1_set_if_def l1_set_list_def l1_list_def)

section \<open>The operations on lists of addresses\<close>

text \<open>\<open>Fault\<close> stands for a misuse of which nothing is said: an address that is not there, more elements than can be counted, and
  a list that is freed before its elements.\<close>

definition a_list :: "'a lists_state \<Rightarrow> nat \<Rightarrow> (nat list \<times> 'a sort_fn) outcome" where
  "a_list s l = (case as_lists s l of None \<Rightarrow> Fault | Some p \<Rightarrow> Ret p)"

definition a_el :: "'a lists_state \<Rightarrow> nat \<Rightarrow> ('a \<times> nat option) outcome" where
  "a_el s a = (case as_els s a of None \<Rightarrow> Fault | Some p \<Rightarrow> Ret p)"

definition a_put :: "nat \<Rightarrow> nat list \<times> 'a sort_fn \<Rightarrow> nat \<Rightarrow> 'a \<times> nat option \<Rightarrow> 'a lists_state \<Rightarrow> 'a lists_state" where
  "a_put l p a v s = s\<lparr>as_lists := (as_lists s) (l \<mapsto> p), as_els := (as_els s) (a \<mapsto> v)\<rparr>"

definition a_add :: "nat \<Rightarrow> nat \<Rightarrow> 'a lists_state \<Rightarrow> (int \<times> 'a lists_state) outcome" where
  "a_add l a s = obind (a_list s l) (\<lambda>(xs, f). obind (a_el s a) (\<lambda>(d, w).
     if w \<noteq> None then Abort
     else if 4294967295 \<le> length xs then Fault
     else Ret (0, a_put l (xs @ [a], f) a (d, Some l) s)))"

definition a_insert :: "nat \<Rightarrow> nat \<Rightarrow> 'a lists_state \<Rightarrow> (int \<times> 'a lists_state) outcome" where
  "a_insert l a s = obind (a_list s l) (\<lambda>(xs, f). obind (a_el s a) (\<lambda>(d, w).
     if w \<noteq> None then Ret (-1, s)
     else if 4294967295 \<le> length xs then Fault
     else Ret (0, a_put l (a # xs, f) a (d, Some l) s)))"

definition a_del :: "nat \<Rightarrow> 'a lists_state \<Rightarrow> (int \<times> 'a lists_state) outcome" where
  "a_del a s = obind (a_el s a) (\<lambda>(d, w).
     case w of
       None \<Rightarrow> Ret (-1, s)
     | Some l \<Rightarrow> obind (a_list s l) (\<lambda>(xs, f). Ret (0, a_put l (remove1 a xs, f) a (d, None) s)))"

definition out_rel :: "nat set \<Rightarrow> ('r \<times> 'a lists_state) outcome \<Rightarrow> ('r \<times> 'a list1_heap) outcome \<Rightarrow> bool" where
  "out_rel L A C =
     (case A of
        Ret (r, s) \<Rightarrow> (\<exists>h. C = Ret (r, h) \<and> heap_rel L h s)
      | Abort \<Rightarrow> C = Abort
      | Hang \<Rightarrow> C = Hang
      | Fault \<Rightarrow> True)"

lemma out_rel_simps [simp]:
  "out_rel L (Ret (r, s)) C \<longleftrightarrow> (\<exists>h. C = Ret (r, h) \<and> heap_rel L h s)"
  "out_rel L Abort C \<longleftrightarrow> C = Abort" "out_rel L Hang C \<longleftrightarrow> C = Hang" "out_rel L Fault C"
  by (simp_all add: out_rel_def)

lemma rel_list: "heap_rel L h s \<Longrightarrow> as_lists s l = Some p \<Longrightarrow> lh_lists h l = Some (list_struct p)"
  by (drule heap_relD(2) [of _ _ _ l]) simp

lemma rel_el: "heap_rel L h s \<Longrightarrow> as_els s a = Some v \<Longrightarrow> \<exists>e. lh_els h a = Some e \<and> el_rel (a \<in> L) e v"
  by (drule heap_relD(3) [of _ _ _ a]) (auto elim: option.rel_cases)

lemma rel_member: "heap_rel L h s \<Longrightarrow> as_lists s l = Some (xs, f) \<Longrightarrow> a \<in> set xs \<Longrightarrow> \<exists>e. lh_els h a = Some e"
  using heap_relD(6) dseg_el by blast

lemma first_or_in: "first_or xs None = Some p \<Longrightarrow> p \<in> set xs"
  by (cases xs) auto

lemma last_or_in: "last_or None xs = Some p \<Longrightarrow> p \<in> set xs"
  by (auto simp: last_or_def split: if_splits)

lemma first_last_None: "first_or xs None = None \<longleftrightarrow> xs = []" "last_or None xs = None \<longleftrightarrow> xs = []"
  by (auto simp: first_or_def last_or_def split: list.splits)

lemma add_rel:
  assumes H: "heap_rel L h s" and a: "a \<notin> L"
  shows "out_rel L (a_add l a s) (GWEN_List1_Add l a h)"
proof (cases "as_lists s l = None \<or> as_els s a = None")
  case True then show ?thesis by (auto simp: a_add_def a_list_def a_el_def split: option.splits)
next
  case False
  then obtain xs f d w where l: "as_lists s l = Some (xs, f)" and el: "as_els s a = Some (d, w)" by auto
  obtain e where e: "lh_els h a = Some e" "le_data e = d" "le_listPtr e = w"
      "w = None \<Longrightarrow> le_prevElement e = None \<and> le_nextElement e = None"
    using rel_el [OF H el] a by (auto simp: el_rel_def)
  show ?thesis
  proof (cases "w = None \<and> length xs < 4294967295")
    case False then show ?thesis using e by (auto simp: a_add_def a_list_def a_el_def l el GWEN_List1_Add_def l1_el_def)
  next
    case True
    then have n: "a \<notin> set xs" using heap_relD(7) [OF H l, of a] el by auto
    let ?x = "list_struct (xs, f)"
    let ?E = "upd_if (last_or None xs) (\<lambda>e. e\<lparr>le_nextElement := Some a\<rparr>) ((lh_els h) (a \<mapsto> e\<lparr>le_prevElement := last_or None xs, le_listPtr := Some l\<rparr>))"
    have lx: "last_or None xs = Some p \<Longrightarrow> p \<noteq> a \<and> lh_els h p \<noteq> None" for p
      using n last_or_in rel_member [OF H l] by fastforce
    have "GWEN_List1_Add l a h = Ret (0, h\<lparr>lh_lists := (lh_lists h) (l \<mapsto> list_struct (xs @ [a], f)), lh_els := ?E\<rparr>)"
      using Add_eq [OF e(1) _ rel_list [OF H l], of] e(3) True lx
      by (simp add: list_struct_def first_last_None) (simp add: first_or_def split: list.split)
    moreover have "heap_rel L (h\<lparr>lh_lists := (lh_lists h) (l \<mapsto> list_struct (xs @ [a], f)), lh_els := ?E\<rparr>) (a_put l (xs @ [a], f) a (d, Some l) s)"
      unfolding a_put_def
    proof (rule put_rel [OF H l el])
      show "dseg ?E l None (xs @ [a]) None"
        using dseg_add [OF heap_relD(6) [OF H l] heap_relD(4) [OF H l] n, of e] e True by simp
      fix b assume b: "b \<noteq> a"
      show "b \<notin> set xs \<Longrightarrow> ?E b = lh_els h b" using b last_or_in [of xs b] by (auto simp: upd_if_def split: option.split)
      show "b \<in> set xs \<Longrightarrow> map_option le_data (?E b) = map_option le_data (lh_els h b)"
        using b by (auto simp: upd_if_def option.map_comp comp_def split: option.split)
    next
      show "\<exists>e. ?E a = Some e \<and> el_rel (a \<in> L) e (d, Some l)" 
        using n e last_or_in [of xs a] by (auto simp: upd_if_def el_rel_def split: option.split)
    qed (use n True heap_relD(4) [OF H l] in auto)
    ultimately show ?thesis using True by (simp add: a_add_def a_list_def a_el_def l el)
  qed
qed

lemma insert_rel:
  assumes H: "heap_rel L h s" and a: "a \<notin> L"
  shows "out_rel L (a_insert l a s) (GWEN_List1_Insert l a h)"
proof (cases "as_lists s l = None \<or> as_els s a = None")
  case True then show ?thesis by (auto simp: a_insert_def a_list_def a_el_def split: option.splits)
next
  case False
  then obtain xs f d w where l: "as_lists s l = Some (xs, f)" and el: "as_els s a = Some (d, w)" by auto
  obtain e where e: "lh_els h a = Some e" "le_data e = d" "le_listPtr e = w"
      "w = None \<Longrightarrow> le_prevElement e = None \<and> le_nextElement e = None"
    using rel_el [OF H el] a by (auto simp: el_rel_def)
  show ?thesis
  proof (cases "w = None \<and> length xs < 4294967295")
    case False then show ?thesis using e H by (auto simp: a_insert_def a_list_def a_el_def l el GWEN_List1_Insert_def l1_el_def)
  next
    case True
    then have n: "a \<notin> set xs" using heap_relD(7) [OF H l, of a] el by auto
    let ?E = "upd_if (first_or xs None) (\<lambda>e. e\<lparr>le_prevElement := Some a\<rparr>) ((lh_els h) (a \<mapsto> e\<lparr>le_nextElement := first_or xs None, le_listPtr := Some l\<rparr>))"
    have lx: "first_or xs None = Some p \<Longrightarrow> p \<noteq> a \<and> lh_els h p \<noteq> None" for p
      using n first_or_in rel_member [OF H l] by fastforce
    have "GWEN_List1_Insert l a h = Ret (0, h\<lparr>lh_lists := (lh_lists h) (l \<mapsto> list_struct (a # xs, f)), lh_els := ?E\<rparr>)"
      using Insert_eq [OF e(1) _ rel_list [OF H l]] e(3) True lx
      by (simp add: list_struct_def first_last_None) (simp add: last_or_def add.commute)
    moreover have "heap_rel L (h\<lparr>lh_lists := (lh_lists h) (l \<mapsto> list_struct (a # xs, f)), lh_els := ?E\<rparr>) (a_put l (a # xs, f) a (d, Some l) s)"
      unfolding a_put_def
    proof (rule put_rel [OF H l el])
      show "dseg ?E l None (a # xs) None"
        using dseg_insert [OF heap_relD(6) [OF H l] heap_relD(4) [OF H l] n, of e] e True by simp
      fix b assume b: "b \<noteq> a"
      show "b \<notin> set xs \<Longrightarrow> ?E b = lh_els h b" using b first_or_in [of xs b] by (auto simp: upd_if_def split: option.split)
      show "b \<in> set xs \<Longrightarrow> map_option le_data (?E b) = map_option le_data (lh_els h b)"
        using b by (auto simp: upd_if_def option.map_comp comp_def split: option.split)
    next
      show "\<exists>e. ?E a = Some e \<and> el_rel (a \<in> L) e (d, Some l)"
        using n e first_or_in [of xs a] by (auto simp: upd_if_def el_rel_def split: option.split)
    qed (use n True heap_relD(4) [OF H l] in auto)
    ultimately show ?thesis using True by (simp add: a_insert_def a_list_def a_el_def l el)
  qed
qed

lemma del_rel:
  assumes H: "heap_rel L h s" and a: "a \<notin> L"
  shows "out_rel L (a_del a s) (GWEN_List1_Del a h)"
proof (cases "as_els s a")
  case None then show ?thesis by (simp add: a_del_def a_el_def)
next
  case (Some v)
  then obtain d w where el: "as_els s a = Some (d, w)" by (cases v) auto
  obtain e where e: "lh_els h a = Some e" "le_data e = d" "le_listPtr e = w"
    using rel_el [OF H el] a by (auto simp: el_rel_def)
  show ?thesis
  proof (cases w)
    case None then show ?thesis using e H by (simp add: a_del_def a_el_def el GWEN_List1_Del_def l1_el_def)
  next
    case (Some l)
    then obtain xs f where l: "as_lists s l = Some (xs, f)" "a \<in> set xs" using heap_relD(8) [OF H] el by blast
    then obtain ys zs where xs: "xs = ys @ a # zs" by (meson split_list)
    note D = heap_relD(4) [OF H l(1), unfolded xs] and S = heap_relD(6) [OF H l(1), unfolded xs]
    have p: "le_prevElement e = last_or None ys" "le_nextElement e = first_or zs None" using S e(1) by auto
    let ?E = "(upd_if (first_or zs None) (\<lambda>e. e\<lparr>le_prevElement := last_or None ys\<rparr>)
      (upd_if (last_or None ys) (\<lambda>e. e\<lparr>le_nextElement := first_or zs None\<rparr>) (lh_els h)))
        (a \<mapsto> e\<lparr>le_nextElement := None, le_prevElement := None, le_listPtr := None\<rparr>)"
    have lp: "last_or None ys = Some b \<Longrightarrow> b \<in> set ys \<and> b \<noteq> a \<and> lh_els h b \<noteq> None" for b
      using last_or_in [of ys b] D rel_member [OF H l(1), of b] by (auto simp: xs)
    have fp: "first_or zs None = Some b \<Longrightarrow> b \<in> set zs \<and> b \<noteq> a \<and> lh_els h b \<noteq> None" for b
      using first_or_in [of zs b] D rel_member [OF H l(1), of b] by (auto simp: xs)
    have r: "remove1 a xs = ys @ zs" using D by (simp add: xs remove1_append)
    have f1: "(if first_or xs None = Some a then first_or zs None else first_or xs None) = first_or (ys @ zs) None"
      using D by (cases ys) (auto simp: xs)
    have f2: "(if last_or None xs = Some a then last_or None ys else last_or None xs) = last_or None (ys @ zs)"
      using D by (cases zs rule: rev_cases) (auto simp: xs)
    have st: "(list_struct (xs, f))\<lparr>l1_count := l1_count (list_struct (xs, f)) - 1,
        l1_firstElement := (if l1_firstElement (list_struct (xs, f)) = Some a then first_or zs None else l1_firstElement (list_struct (xs, f))),
        l1_lastElement := (if l1_lastElement (list_struct (xs, f)) = Some a then last_or None ys else l1_lastElement (list_struct (xs, f)))\<rparr> =
        list_struct (ys @ zs, f)"
      unfolding list_struct_def prod.case gwen_list1.simps f1 f2 by (simp add: xs)
    have "le_listPtr e = Some l" using e(3) Some by simp
    from Del_eq [OF e(1) this rel_list [OF H l(1)] p] lp fp
    have "GWEN_List1_Del a h = Ret (0, h\<lparr>lh_lists := (lh_lists h) (l \<mapsto> list_struct (ys @ zs, f)), lh_els := ?E\<rparr>)"
      unfolding st by blast
    moreover have "heap_rel L (h\<lparr>lh_lists := (lh_lists h) (l \<mapsto> list_struct (ys @ zs, f)), lh_els := ?E\<rparr>) (a_put l (ys @ zs, f) a (d, None) s)"
      unfolding a_put_def
    proof (rule put_rel [OF H l(1) el])
      show "dseg ?E l None (ys @ zs) None" by (rule dseg_del [OF S D])
      fix b assume b: "b \<noteq> a"
      show "b \<notin> set xs \<Longrightarrow> ?E b = lh_els h b" using b lp fp by (auto simp: upd_if_def xs split: option.split)
      show "b \<in> set xs \<Longrightarrow> map_option le_data (?E b) = map_option le_data (lh_els h b)"
        using b by (auto simp: upd_if_def option.map_comp comp_def split: option.split)
    next
      show "\<exists>e. ?E a = Some e \<and> el_rel (a \<in> L) e (d, None)" using e by (simp add: el_rel_def)
      show "length (ys @ zs) < 4294967296" using heap_relD(5) [OF H l(1)] by (simp add: xs)
      show "None = (if a \<in> set (ys @ zs) then Some l else None)" using D by auto
    qed (use D Some in \<open>auto simp: xs\<close>)
    ultimately show ?thesis using Some by (simp add: a_del_def a_list_def a_el_def l el r)
  qed
qed

text \<open>Moving all elements of a list.\<close>

definition a_addlist :: "nat \<Rightarrow> nat \<Rightarrow> 'a lists_state \<Rightarrow> (int \<times> 'a lists_state) outcome" where
  "a_addlist dest l s = obind (a_list s dest) (\<lambda>(ds, f). obind (a_list s l) (\<lambda>(xs, g).
     if dest = l then (if xs = [] then Ret (0, s) else Hang)
     else if 4294967296 \<le> length ds + length xs then Fault
     else Ret (0, s\<lparr>as_lists := (as_lists s) (dest \<mapsto> (ds @ xs, f), l \<mapsto> ([], g)),
       as_els := (\<lambda>a. if a \<in> set xs then map_option (\<lambda>(d, w). (d, Some dest)) (as_els s a) else as_els s a)\<rparr>)))"

lemma out_rel_bind:
  assumes "out_rel L A C" "\<And>r s h. A = Ret (r, s) \<Longrightarrow> heap_rel L h s \<Longrightarrow> out_rel L (F r s) (G r h)"
  shows "out_rel L (obind A (\<lambda>(r, s). F r s)) (obind C (\<lambda>(r, h). G r h))"
  using assms by (cases A) auto

lemma move_rel:
  assumes "heap_rel {} h s" "as_lists s l = Some (xs, g)" "as_lists s dest = Some (ds, f)" "dest \<noteq> l" "length xs < k"
  shows "out_rel {} (a_addlist dest l s) (list1_move k dest l h)"
  using assms
proof (induction xs arbitrary: h s ds k)
  case Nil
  then obtain k' where k: "k = Suc k'" by (cases k) auto
  have "s\<lparr>as_lists := (as_lists s) (dest \<mapsto> (ds, f), l \<mapsto> ([], g)), as_els := as_els s\<rparr> = s"
    using Nil by (simp add: fun_upd_idem)
  then show ?case using Nil rel_list [OF Nil(1,2)] by (auto simp: a_addlist_def a_list_def k l1_list_def list_struct_def)
next
  case (Cons a xs)
  then obtain k' where k: "k = Suc k'" "length xs < k'" by (cases k) auto
  show ?case
  proof (cases "4294967296 \<le> length ds + length (a # xs)")
    case True then show ?thesis using Cons.prems by (simp add: a_addlist_def a_list_def)
  next
    case False
    obtain d where el: "as_els s a = Some (d, Some l)" using heap_relD(7) [OF Cons.prems(1,2), of a] by auto
    let ?s1 = "a_put l (xs, g) a (d, None) s" and ?s2 = "a_put dest (ds @ [a], f) a (d, Some dest) (a_put l (xs, g) a (d, None) s)"
    have "a_del a s = Ret (0, ?s1)" by (simp add: a_del_def a_el_def a_list_def el Cons.prems)
    then obtain h1 where h1: "GWEN_List1_Del a h = Ret (0, h1)" "heap_rel {} h1 ?s1"
      using del_rel [OF Cons.prems(1), of a] by auto
    have "a_add dest a ?s1 = Ret (0, ?s2)" using Cons.prems False by (simp add: a_add_def a_el_def a_list_def a_put_def)
    then obtain h2 where h2: "GWEN_List1_Add dest a h1 = Ret (0, h2)" "heap_rel {} h2 ?s2"
      using add_rel [OF h1(2), of a dest] by auto
    have m: "list1_move k dest l h = list1_move k' dest l h2"
      using rel_list [OF Cons.prems(1,2)] by (simp add: k l1_list_def list_struct_def h1 h2)
    have l2: "as_lists ?s2 l = Some (xs, g)" "as_lists ?s2 dest = Some (ds @ [a], f)" using Cons.prems by (simp_all add: a_put_def)
    have n: "a \<notin> set xs" using heap_relD(4) [OF Cons.prems(1,2)] by simp
    have "a_addlist dest l ?s2 = a_addlist dest l s"
      using Cons.prems False l2 n el
      by (auto simp: a_addlist_def a_list_def a_put_def fun_upd_twist fun_eq_iff intro!: lists_state.equality)
    then show ?thesis using Cons.IH [OF h2(2) l2 Cons.prems(4) k(2)] m by simp
  qed
qed

lemma move_self: "heap_rel {} h s \<Longrightarrow> as_lists s l = Some (xs, g) \<Longrightarrow> xs \<noteq> [] \<Longrightarrow> list1_move k l l h = Hang"
proof (induction k arbitrary: h s xs)
  case (Suc k)
  then obtain a ys where xs: "xs = a # ys" by (cases xs) auto
  obtain d where el: "as_els s a = Some (d, Some l)" using heap_relD(7) [OF Suc.prems(1,2), of a] xs by auto
  let ?s1 = "a_put l (ys, g) a (d, None) s" and ?s2 = "a_put l (ys @ [a], g) a (d, Some l) (a_put l (ys, g) a (d, None) s)"
  have "a_del a s = Ret (0, ?s1)" by (simp add: a_del_def a_el_def a_list_def el Suc.prems xs)
  then obtain h1 where h1: "GWEN_List1_Del a h = Ret (0, h1)" "heap_rel {} h1 ?s1"
    using del_rel [OF Suc.prems(1), of a] by auto
  have "length ys < 4294967295" using heap_relD(5) [OF Suc.prems(1,2)] xs by simp
  then have "a_add l a ?s1 = Ret (0, ?s2)" by (simp add: a_add_def a_el_def a_list_def a_put_def)
  then obtain h2 where h2: "GWEN_List1_Add l a h1 = Ret (0, h2)" "heap_rel {} h2 ?s2"
    using add_rel [OF h1(2), of a l] by auto
  have "list1_move (Suc k) l l h = list1_move k l l h2"
    using rel_list [OF Suc.prems(1,2)] by (simp add: l1_list_def list_struct_def h1 h2 xs)
  also have "\<dots> = Hang" by (rule Suc.IH [OF h2(2), of "ys @ [a]"]) (simp_all add: a_put_def)
  finally show ?case .
qed simp

lemma addlist_rel:
  assumes H: "heap_rel {} h s"
  shows "out_rel {} (a_addlist dest l s) (GWEN_List1_AddList dest l h)"
proof (cases "as_lists s dest = None \<or> as_lists s l = None")
  case True then show ?thesis by (auto simp: a_addlist_def a_list_def split: option.splits)
next
  case False
  then obtain ds f xs g where l: "as_lists s dest = Some (ds, f)" "as_lists s l = Some (xs, g)" by auto
  have u: "unat (l1_count (list_struct (xs, g))) = length xs"
    using heap_relD(5) [OF H l(2)] by (simp add: list_struct_def unat_of_nat_u32)
  have e: "GWEN_List1_AddList dest l h = list1_move (length xs + 1) dest l h"
    unfolding GWEN_List1_AddList_def l1_list_def rel_list [OF H l(1)] rel_list [OF H l(2)] option.case obind.simps u ..
  show ?thesis
  proof (cases "dest = l")
    case False show ?thesis unfolding e by (rule move_rel [OF H l(2,1) False]) simp
  next
    case True
    show ?thesis
    proof (cases "xs = []")
      case True then show ?thesis using \<open>dest = l\<close> e l H rel_list [OF H l(2)]
        by (simp add: a_addlist_def a_list_def l1_list_def list_struct_def)
    next
      case False then show ?thesis using \<open>dest = l\<close> e l move_self [OF H l(2) False] by (simp add: a_addlist_def a_list_def)
    qed
  qed
qed

section \<open>Sorting\<close>

definition loosen :: "nat \<Rightarrow> nat set \<Rightarrow> (nat \<rightharpoonup> 'a gwen_list1_element) \<Rightarrow> (nat \<rightharpoonup> 'a gwen_list1_element)" where
  "loosen l A E = (\<lambda>a. if a \<in> A
     then map_option (\<lambda>e. e\<lparr>le_prevElement := None, le_nextElement := None, le_listPtr := Some l\<rparr>) (E a) else E a)"

lemma collect_eq:
  assumes "dseg (lh_els h) l p xs None" "distinct xs" "length xs \<le> k"
  shows "list1_collect k l (first_or xs None) h = Ret (xs, h\<lparr>lh_els := loosen l (set xs) (lh_els h)\<rparr>)"
  using assms
proof (induction xs arbitrary: p k h)
  case Nil
  then show ?case by (cases k) (simp_all add: loosen_def)
next
  case (Cons a xs)
  then obtain k' where k: "k = Suc k'" "length xs \<le> k'" by (cases k) auto
  obtain e where e: "lh_els h a = Some e" "le_nextElement e = first_or xs None" using Cons.prems by auto
  let ?h = "h\<lparr>lh_els := (lh_els h) (a \<mapsto> e\<lparr>le_prevElement := None, le_nextElement := None, le_listPtr := Some l\<rparr>)\<rparr>"
  have "dseg (lh_els ?h) l (Some a) xs None" using Cons.prems by simp
  from Cons.IH [OF this _ k(2)] Cons.prems(2)
  have "list1_collect k' l (first_or xs None) ?h = Ret (xs, ?h\<lparr>lh_els := loosen l (set xs) (lh_els ?h)\<rparr>)"
    by (simp only: distinct.simps)
  moreover have "loosen l (set xs) (lh_els ?h) = loosen l (set (a # xs)) (lh_els h)"
    using e Cons.prems by (auto simp: loosen_def)
  ultimately show ?case by (simp add: k l1_el_def l1_set_el_def e)
qed

text \<open>The list emptied, its elements loose.\<close>

definition a_free_all :: "nat \<Rightarrow> nat list \<Rightarrow> 'a sort_fn \<Rightarrow> 'a lists_state \<Rightarrow> 'a lists_state" where
  "a_free_all l xs f s = s\<lparr>as_lists := (as_lists s) (l \<mapsto> ([], f)),
     as_els := (\<lambda>a. if a \<in> set xs then map_option (\<lambda>(d, w). (d, None)) (as_els s a) else as_els s a)\<rparr>"

lemma free_all_rel:
  assumes H: "heap_rel {} h s" and l: "as_lists s l = Some (xs, f)"
  shows "heap_rel (set xs) (h\<lparr>lh_els := loosen l (set xs) (lh_els h), lh_lists := (lh_lists h) (l \<mapsto> list_struct ([], f))\<rparr>) (a_free_all l xs f s)"
    (is "heap_rel _ ?h ?s")
  unfolding heap_rel_def
proof (intro conjI allI impI)
  note H = heap_relD [OF H]
  have own: "a \<in> set xs \<Longrightarrow> \<exists>d. as_els s a = Some (d, Some l)" for a using H(7) l by blast
  show "lh_next ?h = as_next ?s" using H(1) by (simp add: a_free_all_def)
  fix m show "lh_lists ?h m = map_option list_struct (as_lists ?s m)" using H(2) by (simp add: a_free_all_def)
next
  note H = heap_relD [OF H]
  fix a show "rel_option (el_rel (a \<in> set xs)) (lh_els ?h a) (as_els ?s a)"
    using H(3) [of a] by (auto simp: a_free_all_def loosen_def el_rel_def option.rel_map elim!: option.rel_mono_strong)
next
  note H = heap_relD [OF H]
  fix m ys g assume m: "as_lists ?s m = Some (ys, g)"
  have o: "b \<in> set ys \<Longrightarrow> b \<notin> set xs" for b
    using H(7) [of m ys g b] H(7) [OF l, of b] m by (auto simp: a_free_all_def split: if_splits)
  show "distinct ys" "length ys < 4294967296" using m H(4,5) by (auto simp: a_free_all_def split: if_splits)
  show "dseg (lh_els ?h) m None ys None"
  proof (cases "m = l")
    case True then show ?thesis using m by (simp add: a_free_all_def)
  next
    case False
    have "dseg (lh_els ?h) m None ys None = dseg (lh_els h) m None ys None" using o by (intro dseg_frame) (auto simp: loosen_def)
    then show ?thesis using H(6) m False by (simp add: a_free_all_def)
  qed
  fix b assume b: "b \<in> set ys"
  show "\<exists>d. as_els ?s b = Some (d, Some m)"
    using m b o H(7) [of m ys g b] by (auto simp: a_free_all_def split: if_splits)
next
  note H = heap_relD [OF H]
  fix m d b assume b: "as_els ?s b = Some (d, Some m)"
  then have n: "b \<notin> set xs" "as_els s b = Some (d, Some m)" by (auto simp: a_free_all_def split: if_splits)
  then obtain ys g where y: "as_lists s m = Some (ys, g)" "b \<in> set ys" using H(8) by blast
  then have "m \<noteq> l" using n l by auto
  then show "\<exists>ys g. as_lists ?s m = Some (ys, g) \<and> b \<in> set ys" using y by (simp add: a_free_all_def)
next
  note H = heap_relD [OF H]
  fix b assume b: "as_next ?s \<le> b"
  then have n: "as_els s b = None" "as_lists s b = None" using H(9,10) by (simp_all add: a_free_all_def)
  then have "b \<noteq> l" using l by auto
  then show "as_els ?s b = None" "as_lists ?s b = None" using n by (simp_all add: a_free_all_def)
qed

text \<open>A loose element without a list is an element that belongs to no list.\<close>

lemma tighten_rel:
  assumes H: "heap_rel L h s" and a: "as_els s a = Some (d, None)"
  shows "\<exists>h'. l1_set_el a (\<lambda>e. e\<lparr>le_listPtr := None\<rparr>) h = Ret h' \<and> heap_rel (L - {a}) h' s"
proof -
  obtain e where e: "lh_els h a = Some e" "el_rel (a \<in> L) e (d, None)" using rel_el [OF H a] by blast
  let ?h = "h\<lparr>lh_els := (lh_els h) (a \<mapsto> e\<lparr>le_listPtr := None\<rparr>)\<rparr>"
  have "heap_rel (L - {a}) ?h s"
    unfolding heap_rel_def
  proof (intro conjI allI impI)
    fix b show "rel_option (el_rel (b \<in> L - {a})) (lh_els ?h b) (as_els s b)"
      using heap_relD(3) [OF H, of b] e a by (cases "b = a") (auto simp: el_rel_def)
  next
    fix m ys g assume m: "as_lists s m = Some (ys, g)"
    have "a \<notin> set ys" using heap_relD(7) [OF H m, of a] a by auto
    then show "dseg (lh_els ?h) m None ys None" using heap_relD(6) [OF H m] by simp
    show "distinct ys" "length ys < 4294967296" using heap_relD(4,5) [OF H m] by auto
  qed (use heap_relD(1,2,7,8,9,10) [OF H] in auto)
  then show ?thesis using e by (simp add: l1_set_el_def l1_el_def)
qed

definition a_take_all :: "nat \<Rightarrow> nat list \<Rightarrow> nat list \<Rightarrow> 'a sort_fn \<Rightarrow> 'a lists_state \<Rightarrow> 'a lists_state" where
  "a_take_all l ys xs f s = s\<lparr>as_lists := (as_lists s) (l \<mapsto> (ys @ xs, f)),
     as_els := (\<lambda>a. if a \<in> set xs then map_option (\<lambda>(d, w). (d, Some l)) (as_els s a) else as_els s a)\<rparr>"

lemma refill_rel:
  assumes "heap_rel (set xs) h s" "as_lists s l = Some (ys, f)" "distinct xs" "length ys + length xs < 4294967296"
    "\<And>a. a \<in> set xs \<Longrightarrow> \<exists>d. as_els s a = Some (d, None)"
  shows "\<exists>h'. list1_refill l xs h = Ret h' \<and> heap_rel {} h' (a_take_all l ys xs f s)"
  using assms
proof (induction xs arbitrary: h s ys)
  case Nil
  have "a_take_all l ys [] f s = s" using Nil by (simp add: a_take_all_def fun_upd_idem)
  then show ?case using Nil by simp
next
  case (Cons a xs)
  obtain d where d: "as_els s a = Some (d, None)" using Cons.prems(5) [of a] by auto
  obtain h1 where h1: "l1_set_el a (\<lambda>e. e\<lparr>le_listPtr := None\<rparr>) h = Ret h1" "heap_rel (set xs) h1 s"
    using tighten_rel [OF Cons.prems(1) d] Cons.prems(3) by auto
  let ?s = "a_put l (ys @ [a], f) a (d, Some l) s"
  have "a_add l a s = Ret (0, ?s)" using Cons.prems d by (simp add: a_add_def a_list_def a_el_def)
  then obtain h2 where h2: "GWEN_List1_Add l a h1 = Ret (0, h2)" "heap_rel (set xs) h2 ?s"
    using add_rel [OF h1(2), of a l] Cons.prems(3) by auto
  have "\<exists>d. as_els ?s b = Some (d, None)" if "b \<in> set xs" for b
    using that Cons.prems(3) Cons.prems(5) [of b] by (auto simp: a_put_def)
  moreover have "as_lists ?s l = Some (ys @ [a], f)" by (simp add: a_put_def)
  ultimately obtain h3 where h3: "list1_refill l xs h2 = Ret h3" "heap_rel {} h3 (a_take_all l (ys @ [a]) xs f ?s)"
    using Cons.IH [OF h2(2), of "ys @ [a]"] Cons.prems(3,4) by auto
  have "a_take_all l (ys @ [a]) xs f ?s = a_take_all l ys (a # xs) f s"
    using Cons.prems d by (auto simp: a_take_all_def a_put_def fun_eq_iff intro!: lists_state.equality)
  then show ?case using h1 h2 h3 by simp
qed

definition a_sort :: "nat \<Rightarrow> int \<Rightarrow> 'a lists_state \<Rightarrow> (unit \<times> 'a lists_state) outcome" where
  "a_sort l ascending s = obind (a_list s l) (\<lambda>(xs, f).
     Ret ((), s\<lparr>as_lists := (as_lists s) (l \<mapsto> (qsort (\<lambda>a b. f (fst (the (as_els s a))) (fst (the (as_els s b))) ascending) xs, f))\<rparr>))"

lemma qsort_cong:
  assumes "\<And>a b. a \<in> set xs \<Longrightarrow> b \<in> set xs \<Longrightarrow> c a b = c' a b"
  shows "qsort c xs = qsort c' xs"
proof -
  have i: "qsort_insert c a ys = qsort_insert c' a ys" if "\<And>b. b \<in> set ys \<Longrightarrow> c a b = c' a b" for a ys
    using that by (induction ys) auto
  have "set (qsort c' xs) = set xs" for xs :: "'a list" by (metis qsort_mset set_mset_mset)
  then show ?thesis using assms
  proof (induction xs)
    case (Cons a xs)
    then have "qsort c xs = qsort c' xs" by simp
    moreover have "qsort_insert c a (qsort c' xs) = qsort_insert c' a (qsort c' xs)" using Cons by (intro i) simp
    ultimately show ?case by (simp add: qsort_def)
  qed (simp add: qsort_def)
qed

lemma sort_rel:
  assumes H: "heap_rel {} h s"
  shows "out_rel {} (a_sort l ascending s) (obind (GWEN_List1_Sort l ascending h) (\<lambda>h. Ret ((), h)))"
proof (cases "as_lists s l")
  case None then show ?thesis by (simp add: a_sort_def a_list_def)
next
  case (Some p)
  then obtain xs f where l: "as_lists s l = Some (xs, f)" by (cases p) auto
  have c: "unat (l1_count (list_struct (xs, f))) = length xs"
    using heap_relD(5) [OF H l] by (simp add: list_struct_def unat_of_nat_u32)
  show ?thesis
  proof (cases "xs = []")
    case True
    then have "s\<lparr>as_lists := (as_lists s) (l \<mapsto> ([], f))\<rparr> = s" using l by (simp add: fun_upd_idem)
    then show ?thesis using True rel_list [OF H l] H l
      by (simp add: a_sort_def a_list_def GWEN_List1_Sort_def l1_list_def list_struct_def qsort_def)
  next
    case False
    then have n: "\<not> l1_count (list_struct (xs, f)) < 1" using c by (simp add: word_less_nat_alt)
    let ?s = "a_free_all l xs f s"
    let ?h = "h\<lparr>lh_els := loosen l (set xs) (lh_els h), lh_lists := (lh_lists h) (l \<mapsto> list_struct ([], f))\<rparr>"
    let ?c = "\<lambda>a b. f (fst (the (as_els s a))) (fst (the (as_els s b))) ascending"
    have set: "set (qsort ?c xs) = set xs" "length (qsort ?c xs) = length xs" "distinct (qsort ?c xs)"
      using qsort_mset [of ?c xs] heap_relD(4) [OF H l] by (metis mset_eq_setD, metis size_mset, metis mset_eq_imp_distinct_iff)
    have own: "a \<in> set xs \<Longrightarrow> \<exists>d. as_els s a = Some (d, Some l)" for a using heap_relD(7) [OF H l] by blast
    have data: "le_data (the (lh_els ?h a)) = fst (the (as_els s a))" if "a \<in> set xs" for a
      using own [OF that] rel_el [OF H, of a] by (auto simp: loosen_def el_rel_def)
    have q: "qsort (\<lambda>a b. GWEN_List1__compar f ascending (the (lh_els ?h a)) (the (lh_els ?h b))) xs = qsort ?c xs"
      using data by (intro qsort_cong) (simp only: GWEN_List1__compar_def)
    have "\<exists>h'. list1_refill l (qsort ?c xs) ?h = Ret h' \<and> heap_rel {} h' (a_take_all l [] (qsort ?c xs) f ?s)"
    proof (rule refill_rel)
      show "heap_rel (set (qsort ?c xs)) ?h ?s" using free_all_rel [OF H l] set by simp
      show "as_lists ?s l = Some ([], f)" by (simp add: a_free_all_def)
      show "length ([] :: nat list) + length (qsort ?c xs) < 4294967296" using heap_relD(5) [OF H l] set by simp
      show "\<And>a. a \<in> set (qsort ?c xs) \<Longrightarrow> \<exists>d. as_els ?s a = Some (d, None)" using own set by (fastforce simp: a_free_all_def)
    qed (rule set)
    moreover have "a_take_all l [] (qsort ?c xs) f ?s = s\<lparr>as_lists := (as_lists s) (l \<mapsto> (qsort ?c xs, f))\<rparr>"
      using own set by (fastforce simp: a_take_all_def a_free_all_def fun_eq_iff intro!: lists_state.equality)
    moreover have "GWEN_List1_Sort l ascending h = list1_refill l (qsort ?c xs) ?h"
      using rel_list [OF H l] n c collect_eq [OF heap_relD(6,4) [OF H l], of "length xs"] q
      by (simp add: GWEN_List1_Sort_def l1_list_def l1_set_list_def list_struct_def)
    ultimately show ?thesis using l by (auto simp: a_sort_def a_list_def)
  qed
qed

section \<open>Every operation\<close>

datatype 'a list1_op =
  OpNew | OpFree nat | OpElementNew 'a | OpElementFree nat | OpAdd nat nat | OpInsert nat nat | OpDel nat | OpAddList nat nat
| OpGetFirst nat | OpGetLast nat | OpGetCount nat | OpGetNext nat | OpGetPrevious nat | OpGetData nat
| OpSetSortFn nat "'a sort_fn" | OpSort nat int

datatype 'a list1_answer = AnsNothing | AnsAddress nat | AnsInt int | AnsData "'a option"

definition no_answer :: "'h outcome \<Rightarrow> ('a list1_answer \<times> 'h) outcome" where
  "no_answer c = obind c (\<lambda>h. Ret (AnsNothing, h))"

definition int_answer :: "(int \<times> 'h) outcome \<Rightarrow> ('a list1_answer \<times> 'h) outcome" where
  "int_answer c = obind c (\<lambda>(r, h). Ret (AnsInt r, h))"

fun list1_call :: "'a list1_op \<Rightarrow> 'a list1_heap \<Rightarrow> ('a list1_answer \<times> 'a list1_heap) outcome" where
  "list1_call OpNew h = (let (l, h) = GWEN_List1_new h in Ret (AnsAddress l, h))"
| "list1_call (OpFree l) h = no_answer (GWEN_List1_free l h)"
| "list1_call (OpElementNew d) h = (let (a, h) = GWEN_List1Element_new d h in Ret (AnsAddress a, h))"
| "list1_call (OpElementFree a) h = no_answer (GWEN_List1Element_free a h)"
| "list1_call (OpAdd l a) h = int_answer (GWEN_List1_Add l a h)"
| "list1_call (OpInsert l a) h = int_answer (GWEN_List1_Insert l a h)"
| "list1_call (OpDel a) h = int_answer (GWEN_List1_Del a h)"
| "list1_call (OpAddList dest l) h = int_answer (GWEN_List1_AddList dest l h)"
| "list1_call (OpGetFirst l) h = obind (GWEN_List1_GetFirst l h) (\<lambda>d. Ret (AnsData d, h))"
| "list1_call (OpGetLast l) h = obind (GWEN_List1_GetLast l h) (\<lambda>d. Ret (AnsData d, h))"
| "list1_call (OpGetCount l) h = obind (GWEN_List1_GetCount l h) (\<lambda>n. Ret (AnsInt n, h))"
| "list1_call (OpGetNext a) h = obind (GWEN_List1Element_GetNext a h) (\<lambda>d. Ret (AnsData d, h))"
| "list1_call (OpGetPrevious a) h = obind (GWEN_List1Element_GetPrevious a h) (\<lambda>d. Ret (AnsData d, h))"
| "list1_call (OpGetData a) h = obind (GWEN_List1Element_GetData a h) (\<lambda>d. Ret (AnsData (Some d), h))"
| "list1_call (OpSetSortFn l f) h = obind (GWEN_List1_SetSortFn l f h) (\<lambda>(_, h). Ret (AnsNothing, h))"
| "list1_call (OpSort l ascending) h = no_answer (GWEN_List1_Sort l ascending h)"

text \<open>The element behind and the one before an element of a list.\<close>

definition behind :: "nat \<Rightarrow> nat list \<Rightarrow> nat option" where
  "behind a xs = first_or (tl (dropWhile (\<lambda>x. x \<noteq> a) xs)) None"

definition before :: "nat \<Rightarrow> nat list \<Rightarrow> nat option" where
  "before a xs = last_or None (takeWhile (\<lambda>x. x \<noteq> a) xs)"

definition a_data :: "'a lists_state \<Rightarrow> nat option \<Rightarrow> 'a list1_answer" where
  "a_data s p = AnsData (case p of None \<Rightarrow> None | Some a \<Rightarrow> map_option fst (as_els s a))"

fun lists_call :: "'a list1_op \<Rightarrow> 'a lists_state \<Rightarrow> ('a list1_answer \<times> 'a lists_state) outcome" where
  "lists_call OpNew s =
     Ret (AnsAddress (as_next s), s\<lparr>as_lists := (as_lists s) (as_next s \<mapsto> ([], GWEN_List1__defaultSortFn)), as_next := as_next s + 1\<rparr>)"
| "lists_call (OpFree l) s = obind (a_list s l) (\<lambda>(xs, f).
     if xs \<noteq> [] then Fault else Ret (AnsNothing, s\<lparr>as_lists := (as_lists s) (l := None)\<rparr>))"
| "lists_call (OpElementNew d) s =
     Ret (AnsAddress (as_next s), s\<lparr>as_els := (as_els s) (as_next s \<mapsto> (d, None)), as_next := as_next s + 1\<rparr>)"
| "lists_call (OpElementFree a) s = obind (a_del a s) (\<lambda>(_, s). Ret (AnsNothing, s\<lparr>as_els := (as_els s) (a := None)\<rparr>))"
| "lists_call (OpAdd l a) s = int_answer (a_add l a s)"
| "lists_call (OpInsert l a) s = int_answer (a_insert l a s)"
| "lists_call (OpDel a) s = int_answer (a_del a s)"
| "lists_call (OpAddList dest l) s = int_answer (a_addlist dest l s)"
| "lists_call (OpGetFirst l) s = obind (a_list s l) (\<lambda>(xs, f). Ret (a_data s (first_or xs None), s))"
| "lists_call (OpGetLast l) s = obind (a_list s l) (\<lambda>(xs, f). Ret (a_data s (last_or None xs), s))"
| "lists_call (OpGetCount l) s = obind (a_list s l) (\<lambda>(xs, f). Ret (AnsInt (sint (of_nat (length xs) :: u32)), s))"
| "lists_call (OpGetNext a) s = obind (a_el s a) (\<lambda>(d, w).
     case w of None \<Rightarrow> Ret (AnsData None, s) | Some l \<Rightarrow> obind (a_list s l) (\<lambda>(xs, f). Ret (a_data s (behind a xs), s)))"
| "lists_call (OpGetPrevious a) s = obind (a_el s a) (\<lambda>(d, w).
     case w of None \<Rightarrow> Ret (AnsData None, s) | Some l \<Rightarrow> obind (a_list s l) (\<lambda>(xs, f). Ret (a_data s (before a xs), s)))"
| "lists_call (OpGetData a) s = obind (a_el s a) (\<lambda>(d, w). Ret (AnsData (Some d), s))"
| "lists_call (OpSetSortFn l f) s = obind (a_list s l) (\<lambda>(xs, _). Ret (AnsNothing, s\<lparr>as_lists := (as_lists s) (l \<mapsto> (xs, f))\<rparr>))"
| "lists_call (OpSort l ascending) s = obind (a_sort l ascending s) (\<lambda>(_, s). Ret (AnsNothing, s))"

lemma rel_new:
  assumes H: "heap_rel {} h s"
  shows "heap_rel {} (snd (GWEN_List1_new h)) (s\<lparr>as_lists := (as_lists s) (as_next s \<mapsto> ([], GWEN_List1__defaultSortFn)), as_next := as_next s + 1\<rparr>)"
    (is "heap_rel {} ?h ?s")
  unfolding heap_rel_def
proof (intro conjI allI impI)
  note H = heap_relD [OF H]
  have n: "as_lists s (as_next s) = None" by (rule H(10)) simp
  show "lh_next ?h = as_next ?s" using H(1) by (simp add: GWEN_List1_new_def)
  fix m show "lh_lists ?h m = map_option list_struct (as_lists ?s m)" using H(1,2) by (simp add: GWEN_List1_new_def list_struct_def)
  fix a show "rel_option (el_rel (a \<in> {})) (lh_els ?h a) (as_els ?s a)" using H(3) [of a] by (simp add: GWEN_List1_new_def)
  show "as_next ?s \<le> a \<Longrightarrow> as_els ?s a = None" "as_next ?s \<le> a \<Longrightarrow> as_lists ?s a = None" using H(9,10) by simp_all
  fix ys g assume m: "as_lists ?s m = Some (ys, g)"
  show "distinct ys" "length ys < 4294967296" using m H(4,5) by (auto split: if_splits)
  show "dseg (lh_els ?h) m None ys None" using m H(6) by (auto simp: GWEN_List1_new_def split: if_splits)
  show "a \<in> set ys \<Longrightarrow> \<exists>d. as_els ?s a = Some (d, Some m)" using m H(7) by (auto split: if_splits)
next
  note H = heap_relD [OF H]
  have n: "as_lists s (as_next s) = None" by (rule H(10)) simp
  fix m d a assume "as_els ?s a = Some (d, Some m)"
  then have "as_els s a = Some (d, Some m)" by simp
  then obtain ys g where y: "as_lists s m = Some (ys, g)" "a \<in> set ys" using H(8) by blast
  then have "m \<noteq> as_next s" using n by auto
  then show "\<exists>xs f. as_lists ?s m = Some (xs, f) \<and> a \<in> set xs" using y by simp
qed

lemma rel_free:
  assumes H: "heap_rel {} h s" and l: "as_lists s l = Some ([], f)"
  shows "heap_rel {} (h\<lparr>lh_lists := (lh_lists h) (l := None)\<rparr>) (s\<lparr>as_lists := (as_lists s) (l := None)\<rparr>)"
    (is "heap_rel {} ?h ?s")
  unfolding heap_rel_def
proof (intro conjI allI impI)
  note H = heap_relD [OF H]
  show "lh_next ?h = as_next ?s" using H(1) by simp
  fix m show "lh_lists ?h m = map_option list_struct (as_lists ?s m)" using H(1,2) by simp
  fix a show "rel_option (el_rel (a \<in> {})) (lh_els ?h a) (as_els ?s a)" using H(3) [of a] by simp
  show "as_next ?s \<le> a \<Longrightarrow> as_els ?s a = None" "as_next ?s \<le> a \<Longrightarrow> as_lists ?s a = None" using H(9,10) by simp_all
  fix ys g assume m: "as_lists ?s m = Some (ys, g)"
  then have m': "as_lists s m = Some (ys, g)" by (auto split: if_splits)
  show "distinct ys" "length ys < 4294967296" using H(4,5) [OF m'] by auto
  show "dseg (lh_els ?h) m None ys None" using H(6) [OF m'] by simp
  show "a \<in> set ys \<Longrightarrow> \<exists>d. as_els ?s a = Some (d, Some m)" using H(7) [OF m'] by simp
next
  note H = heap_relD [OF H]
  fix m d a assume "as_els ?s a = Some (d, Some m)"
  then have "as_els s a = Some (d, Some m)" by simp
  then obtain ys g where y: "as_lists s m = Some (ys, g)" "a \<in> set ys" using H(8) by blast
  then have "m \<noteq> l" using l by auto
  then show "\<exists>xs f. as_lists ?s m = Some (xs, f) \<and> a \<in> set xs" using y by simp
qed

text \<open>Replacing an element that is in no list, or making a new one.\<close>

lemma rel_el_put:
  assumes H: "heap_rel {} h s" and a: "as_els s a = None \<or> as_els s a = Some (d', None)"
    and v: "rel_option (el_rel False) v v'" "v' \<noteq> None \<Longrightarrow> snd (the v') = None" and n: "as_next s \<le> n" "v' \<noteq> None \<Longrightarrow> a < n"
  shows "heap_rel {} (h\<lparr>lh_els := (lh_els h) (a := v), lh_next := n\<rparr>) (s\<lparr>as_els := (as_els s) (a := v'), as_next := n\<rparr>)"
    (is "heap_rel {} ?h ?s")
  unfolding heap_rel_def
proof (intro conjI allI impI)
  note H = heap_relD [OF H]
  show "lh_next ?h = as_next ?s" by simp
  fix m show "lh_lists ?h m = map_option list_struct (as_lists ?s m)" using H(2) by simp
  fix b show "rel_option (el_rel (b \<in> {})) (lh_els ?h b) (as_els ?s b)" using H(3) [of b] v(1) by simp
  show "as_next ?s \<le> b \<Longrightarrow> as_els ?s b = None" "as_next ?s \<le> b \<Longrightarrow> as_lists ?s b = None" using H(9,10) [of b] n by (cases v'; auto)+
  fix ys g assume m: "as_lists ?s m = Some (ys, g)"
  then have m': "as_lists s m = Some (ys, g)" by simp
  have o: "a \<notin> set ys" using H(7) [OF m', of a] a by auto
  show "distinct ys" "length ys < 4294967296" using H(4,5) [OF m'] by auto
  show "dseg (lh_els ?h) m None ys None" using H(6) [OF m'] o by simp
  show "b \<in> set ys \<Longrightarrow> \<exists>d. as_els ?s b = Some (d, Some m)" using H(7) [OF m', of b] o by auto
next
  note H = heap_relD [OF H]
  fix m d b assume b: "as_els ?s b = Some (d, Some m)"
  then have "as_els s b = Some (d, Some m)" using v(2) by (auto split: if_splits)
  then show "\<exists>xs f. as_lists ?s m = Some (xs, f) \<and> b \<in> set xs" using H(8) by simp
qed

lemma rel_sort_fn:
  assumes H: "heap_rel {} h s" and l: "as_lists s l = Some (xs, f)"
  shows "heap_rel {} (h\<lparr>lh_lists := (lh_lists h) (l \<mapsto> list_struct (xs, g))\<rparr>) (s\<lparr>as_lists := (as_lists s) (l \<mapsto> (xs, g))\<rparr>)"
    (is "heap_rel {} ?h ?s")
  unfolding heap_rel_def
proof (intro conjI allI impI)
  note H = heap_relD [OF H]
  show "lh_next ?h = as_next ?s" using H(1) by simp
  fix m show "lh_lists ?h m = map_option list_struct (as_lists ?s m)" using H(2) by simp
  fix a show "rel_option (el_rel (a \<in> {})) (lh_els ?h a) (as_els ?s a)" using H(3) [of a] by simp
  have "as_next s \<le> a \<Longrightarrow> a \<noteq> l" using H(10) [of a] l by auto
  then show "as_next ?s \<le> a \<Longrightarrow> as_els ?s a = None" "as_next ?s \<le> a \<Longrightarrow> as_lists ?s a = None" using H(9,10) by simp_all
  fix ys g' assume m: "as_lists ?s m = Some (ys, g')"
  then obtain g'' where m': "as_lists s m = Some (ys, g'')" using l by (auto split: if_splits)
  show "distinct ys" "length ys < 4294967296" using H(4,5) [OF m'] by auto
  show "dseg (lh_els ?h) m None ys None" using H(6) [OF m'] by simp
  show "a \<in> set ys \<Longrightarrow> \<exists>d. as_els ?s a = Some (d, Some m)" using H(7) [OF m'] by simp
next
  note H = heap_relD [OF H]
  fix m d a assume "as_els ?s a = Some (d, Some m)"
  then have "as_els s a = Some (d, Some m)" by simp
  then obtain ys g' where y: "as_lists s m = Some (ys, g')" "a \<in> set ys" using H(8) by blast
  then show "\<exists>xs f. as_lists ?s m = Some (xs, f) \<and> a \<in> set xs" using l by (cases "m = l") auto
qed

lemma before_behind: "a \<notin> set ys \<Longrightarrow> behind a (ys @ a # zs) = first_or zs None" "a \<notin> set ys \<Longrightarrow> before a (ys @ a # zs) = last_or None ys"
proof -
  assume a: "a \<notin> set ys"
  then have "dropWhile (\<lambda>x. x \<noteq> a) (ys @ a # zs) = a # zs" "takeWhile (\<lambda>x. x \<noteq> a) (ys @ a # zs) = ys"
    by (induction ys) auto
  then show "behind a (ys @ a # zs) = first_or zs None" "before a (ys @ a # zs) = last_or None ys"
    by (simp_all add: behind_def before_def)
qed

lemma out_rel_int: "out_rel L A C \<Longrightarrow> out_rel L (int_answer A) (int_answer C)"
  by (auto simp: out_rel_def int_answer_def split: outcome.splits)

lemma out_rel_unit:
  "out_rel L A (obind C (\<lambda>h. Ret ((), h))) \<Longrightarrow> out_rel L (obind A (\<lambda>(_, s). Ret (AnsNothing, s))) (no_answer C)"
  by (cases A; cases C) (auto simp: no_answer_def)

lemma data_rel:
  assumes H: "heap_rel {} h s" and p: "\<And>a. p = Some a \<Longrightarrow> as_els s a \<noteq> None"
  shows "out_rel {} (Ret (a_data s p, s)) (obind (l1_data p h) (\<lambda>d. Ret (AnsData d, h)))"
proof (cases p)
  case None then show ?thesis using H by (simp add: a_data_def l1_data_def)
next
  case (Some a)
  then obtain d w where a: "as_els s a = Some (d, w)" using p by fastforce
  then obtain e where "lh_els h a = Some e" "le_data e = d" using rel_el [OF H a] by (auto simp: el_rel_def)
  then show ?thesis using H a Some by (simp add: a_data_def l1_data_def l1_el_def)
qed

text \<open>The neighbours that an element points to.\<close>

lemma neighbours:
  assumes H: "heap_rel {} h s" and a: "as_els s a = Some (d, Some l)"
  shows "\<exists>xs f e. as_lists s l = Some (xs, f) \<and> lh_els h a = Some e \<and> le_nextElement e = behind a xs \<and> le_prevElement e = before a xs \<and>
    (\<forall>b. behind a xs = Some b \<or> before a xs = Some b \<longrightarrow> as_els s b \<noteq> None)"
proof -
  obtain xs f where l: "as_lists s l = Some (xs, f)" "a \<in> set xs" using heap_relD(8) [OF H a] by blast
  then obtain ys zs where xs: "xs = ys @ a # zs" by (meson split_list)
  have n: "a \<notin> set ys" using heap_relD(4) [OF H l(1)] by (simp add: xs)
  obtain e where e: "lh_els h a = Some e" "le_nextElement e = first_or zs None" "le_prevElement e = last_or None ys"
    using heap_relD(6) [OF H l(1)] by (auto simp: xs)
  have "b \<in> set xs \<Longrightarrow> as_els s b \<noteq> None" for b using heap_relD(7) [OF H l(1), of b] by auto
  then show ?thesis using l(1) e before_behind [OF n] first_or_in [of zs] last_or_in [of ys] by (auto simp: xs)
qed

lemma list1_step: "heap_rel {} h s \<Longrightarrow> out_rel {} (lists_call c s) (list1_call c h)"
proof -
  assume H: "heap_rel {} h s"
  note a_list_def [simp] a_el_def [simp]
  show ?thesis
  proof (cases c)
    case OpNew
    then show ?thesis using rel_new [OF H] heap_relD(1) [OF H] by (simp add: GWEN_List1_new_def)
  next
    case (OpFree l)
    then show ?thesis using rel_free [OF H] rel_list [OF H, of l]
      by (auto simp: GWEN_List1_free_def l1_list_def no_answer_def split: option.split)
  next
    case (OpElementNew d)
    have "as_els s (as_next s) = None" by (rule heap_relD(9) [OF H]) simp
    then show ?thesis
      using rel_el_put [OF H, of "as_next s" d "Some \<lparr>le_listPtr = None, le_data = d, le_prevElement = None, le_nextElement = None\<rparr>" "Some (d, None)" "as_next s + 1"]
        heap_relD(1) [OF H] OpElementNew by (simp add: GWEN_List1Element_new_def el_rel_def)
  next
    case (OpElementFree a)
    show ?thesis
    proof (cases "as_els s a")
      case None then show ?thesis by (simp add: OpElementFree a_del_def)
    next
      case (Some v)
      then obtain d w where a: "as_els s a = Some (d, w)" by (cases v) auto
      obtain e where e: "lh_els h a = Some e" "le_listPtr e = w" using rel_el [OF H a] by (auto simp: el_rel_def)
      have fin: "out_rel {} (Ret (AnsNothing, t\<lparr>as_els := (as_els t) (a := None)\<rparr>)) (Ret (AnsNothing, g\<lparr>lh_els := (lh_els g) (a := None)\<rparr>))"
        if "heap_rel {} g t" "as_els t a = Some (d, None)" for g :: "'a list1_heap" and t
        using rel_el_put [OF that(1), of a d None None "as_next t"] that heap_relD(1) [OF that(1)] by (cases g; cases t) simp
      show ?thesis
      proof (cases w)
        case None
        then show ?thesis using fin [OF H] a e by (simp add: OpElementFree a_del_def GWEN_List1Element_free_def l1_el_def no_answer_def)
      next
        case (Some l)
        obtain xs f where l: "as_lists s l = Some (xs, f)" using heap_relD(8) [OF H] a Some by blast
        let ?t = "a_put l (remove1 a xs, f) a (d, None) s"
        have "a_del a s = Ret (0, ?t)" using a l Some by (simp add: a_del_def)
        moreover obtain g where "GWEN_List1_Del a h = Ret (0, g)" "heap_rel {} g ?t" using del_rel [OF H, of a] calculation by auto
        ultimately show ?thesis using fin [of g ?t] a e Some
          by (simp add: OpElementFree GWEN_List1Element_free_def l1_el_def no_answer_def a_put_def)
      qed
    qed
  next
    case (OpAdd l a) then show ?thesis using out_rel_int [OF add_rel [OF H]] by simp
  next
    case (OpInsert l a) then show ?thesis using out_rel_int [OF insert_rel [OF H]] by simp
  next
    case (OpDel a) then show ?thesis using out_rel_int [OF del_rel [OF H]] by simp
  next
    case (OpAddList dest l) then show ?thesis using out_rel_int [OF addlist_rel [OF H]] by simp
  next
    case (OpGetFirst l)
    show ?thesis
    proof (cases "as_lists s l")
      case (Some p)
      then obtain xs f where l: "as_lists s l = Some (xs, f)" by (cases p) auto
      have "as_els s b \<noteq> None" if "first_or xs None = Some b" for b using heap_relD(7) [OF H l, of b] first_or_in [OF that] by auto
      then show ?thesis using data_rel [OF H, of "first_or xs None"] l rel_list [OF H l]
        by (simp add: OpGetFirst GWEN_List1_GetFirst_def l1_list_def list_struct_def)
    qed (simp add: OpGetFirst)
  next
    case (OpGetLast l)
    show ?thesis
    proof (cases "as_lists s l")
      case (Some p)
      then obtain xs f where l: "as_lists s l = Some (xs, f)" by (cases p) auto
      have "as_els s b \<noteq> None" if "last_or None xs = Some b" for b using heap_relD(7) [OF H l, of b] last_or_in [OF that] by auto
      then show ?thesis using data_rel [OF H, of "last_or None xs"] l rel_list [OF H l]
        by (simp add: OpGetLast GWEN_List1_GetLast_def l1_list_def list_struct_def)
    qed (simp add: OpGetLast)
  next
    case (OpGetCount l)
    then show ?thesis using rel_list [OF H, of l] H by (auto simp: GWEN_List1_GetCount_def l1_list_def list_struct_def split: option.split)
  next
    case (OpGetNext a)
    show ?thesis
    proof (cases "as_els s a")
      case (Some v)
      then obtain d w where a: "as_els s a = Some (d, w)" by (cases v) auto
      show ?thesis
      proof (cases w)
        case None
        then show ?thesis using rel_el [OF H a] a H by (auto simp: OpGetNext GWEN_List1Element_GetNext_def l1_el_def el_rel_def l1_data_def)
      next
        case (Some l)
        obtain xs f e where n: "as_lists s l = Some (xs, f)" "lh_els h a = Some e" "le_nextElement e = behind a xs" "le_prevElement e = before a xs"
            "\<forall>b. behind a xs = Some b \<or> before a xs = Some b \<longrightarrow> as_els s b \<noteq> None"
          using neighbours [OF H a [unfolded Some]] by blast
        then show ?thesis using data_rel [OF H, of "behind a xs"] a Some by (simp add: OpGetNext GWEN_List1Element_GetNext_def l1_el_def)
      qed
    qed (simp add: OpGetNext)
  next
    case (OpGetPrevious a)
    show ?thesis
    proof (cases "as_els s a")
      case (Some v)
      then obtain d w where a: "as_els s a = Some (d, w)" by (cases v) auto
      show ?thesis
      proof (cases w)
        case None
        then show ?thesis using rel_el [OF H a] a H by (auto simp: OpGetPrevious GWEN_List1Element_GetPrevious_def l1_el_def el_rel_def l1_data_def)
      next
        case (Some l)
        obtain xs f e where n: "as_lists s l = Some (xs, f)" "lh_els h a = Some e" "le_nextElement e = behind a xs" "le_prevElement e = before a xs"
            "\<forall>b. behind a xs = Some b \<or> before a xs = Some b \<longrightarrow> as_els s b \<noteq> None"
          using neighbours [OF H a [unfolded Some]] by blast
        then show ?thesis using data_rel [OF H, of "before a xs"] a Some by (simp add: OpGetPrevious GWEN_List1Element_GetPrevious_def l1_el_def)
      qed
    qed (simp add: OpGetPrevious)
  next
    case (OpGetData a)
    show ?thesis
    proof (cases "as_els s a")
      case (Some v)
      then obtain d w where a: "as_els s a = Some (d, w)" by (cases v) auto
      then obtain e where "lh_els h a = Some e" "le_data e = d" using rel_el [OF H a] by (auto simp: el_rel_def)
      then show ?thesis using a H by (simp add: OpGetData GWEN_List1Element_GetData_def l1_el_def)
    qed (simp add: OpGetData)
  next
    case (OpSetSortFn l f)
    then show ?thesis using rel_sort_fn [OF H, of l] rel_list [OF H, of l]
      by (auto simp: GWEN_List1_SetSortFn_def l1_list_def l1_set_list_def list_struct_def split: option.split)
  next
    case (OpSort l ascending)
    then show ?thesis using out_rel_unit [OF sort_rel [OF H]] by simp
  qed
qed

text \<open>C10. The operations on linked lists, in any order, do to the pointers what the same operations on plain lists of addresses
  do: adding at either end, taking out, moving all elements, sorting with the list's own function, walking in both directions.
  Answers agree to the end of every sequence of calls that does not use freed structs; adding an element twice fails the
  assertion, and adding a list to itself never ends.\<close>

theorem list1_refines_lists:
  assumes "run_calls lists_call cs \<lparr>as_lists = Map.empty, as_els = Map.empty, as_next = 1\<rparr> \<noteq> Fault"
  shows "run_calls list1_call cs lh_empty = run_calls lists_call cs \<lparr>as_lists = Map.empty, as_els = Map.empty, as_next = 1\<rparr>"
proof (rule run_calls_refines [where R = "heap_rel {}"])
  show "heap_rel {} lh_empty \<lparr>as_lists = Map.empty, as_els = Map.empty, as_next = 1\<rparr>"
    by (simp add: heap_rel_def lh_empty_def)
  fix c h s
  assume "heap_rel {} h s"
  from list1_step [OF this, of c]
  show "case lists_call c s of
        Ret (r, s') \<Rightarrow> (\<exists>h'. list1_call c h = Ret (r, h') \<and> heap_rel {} h' s')
      | Abort \<Rightarrow> list1_call c h = Abort | Hang \<Rightarrow> list1_call c h = Hang | Fault \<Rightarrow> True"
    by (auto simp: out_rel_def split: outcome.splits)
qed (rule assms)

theorem list1_refines_lists_witness:
  "run_calls list1_call
     [OpNew, OpElementNew (3 :: nat), OpElementNew 1, OpElementNew 2, OpAdd 1 2, OpAdd 1 3, OpInsert 1 4, OpGetFirst 1,
      OpSetSortFn 1 (\<lambda>a b _. int a - int b), OpSort 1 1, OpGetFirst 1, OpGetNext 3, OpDel 4, OpGetNext 3, OpGetCount 1] lh_empty =
   Ret [AnsAddress 1, AnsAddress 2, AnsAddress 3, AnsAddress 4, AnsInt 0, AnsInt 0, AnsInt 0, AnsData (Some 2),
     AnsNothing, AnsNothing, AnsData (Some 1), AnsData (Some 2), AnsInt 0, AnsData (Some 3), AnsInt 2]"
proof -
  have e: "run_calls lists_call
     [OpNew, OpElementNew (3 :: nat), OpElementNew 1, OpElementNew 2, OpAdd 1 2, OpAdd 1 3, OpInsert 1 4, OpGetFirst 1,
      OpSetSortFn 1 (\<lambda>a b _. int a - int b), OpSort 1 1, OpGetFirst 1, OpGetNext 3, OpDel 4, OpGetNext 3, OpGetCount 1]
     \<lparr>as_lists = Map.empty, as_els = Map.empty, as_next = 1\<rparr> =
    Ret [AnsAddress 1, AnsAddress 2, AnsAddress 3, AnsAddress 4, AnsInt 0, AnsInt 0, AnsInt 0, AnsData (Some 2),
     AnsNothing, AnsNothing, AnsData (Some 1), AnsData (Some 2), AnsInt 0, AnsData (Some 3), AnsInt 2]" (is "?A = ?r")
    by (simp add: a_add_def a_insert_def a_del_def a_sort_def a_list_def a_el_def a_put_def int_answer_def a_data_def behind_def qsort_def)
  have "?A \<noteq> Fault" unfolding e by simp
  from list1_refines_lists [OF this] e show ?thesis by (rule trans)
qed

end
