(* ===== verification/Gwen_SyncIo.thy ===== *)
theory Gwen_SyncIo
  imports Gwen_BufferProps
begin

text \<open>
  Input and output layers: the dispatch of \<^verbatim>\<open>src/sio/syncio.c\<close> and the layer over a buffer in memory,
  \<^verbatim>\<open>src/sio/syncio_memory.c\<close>.

  A layer is a table of functions over the data it inherits, the type parameter. A function that is not set is a null pointer.
  \<open>sio_rounds\<close> is a ghost field: the rounds given to a loop that repeats a call. C loops until the call has an end; here
  the loop that has used up its rounds is \<open>Hang\<close>.
\<close>

definition GWEN_ERROR_INTERRUPTED :: int where "GWEN_ERROR_INTERRUPTED = -37"
definition GWEN_ERROR_BROKEN_PIPE :: int where "GWEN_ERROR_BROKEN_PIPE = -39"
definition GWEN_SYNCIO_FLAGS_DOSMODE :: u32 where "GWEN_SYNCIO_FLAGS_DOSMODE = 0x08000000"

datatype gwen_syncio_status = Status_Unknown | Status_Unconnected | Status_Disconnected | Status_Connected | Status_Disabled

text \<open>A function that reads returns its result, the bytes it has put at the start of the memory of the caller, and the data.\<close>

record 'c gwen_syncio =
  sio_refCount :: u32
  sio_typeName :: "byte list"
  sio_flags :: u32
  sio_status :: gwen_syncio_status
  sio_connectFn :: "('c \<Rightarrow> (int \<times> 'c) outcome) option"
  sio_disconnectFn :: "('c \<Rightarrow> (int \<times> 'c) outcome) option"
  sio_flushFn :: "('c \<Rightarrow> (int \<times> 'c) outcome) option"
  sio_readFn :: "('c \<Rightarrow> u32 \<Rightarrow> (int \<times> byte list \<times> 'c) outcome) option"
  sio_writeFn :: "('c \<Rightarrow> byte list \<Rightarrow> (int \<times> 'c) outcome) option"
  sio_data :: 'c
  sio_rounds :: nat

section \<open>Life cycle and fields\<close>

definition GWEN_SyncIo_new :: "byte list \<Rightarrow> 'c \<Rightarrow> nat \<Rightarrow> 'c gwen_syncio" where
  "GWEN_SyncIo_new typeName dat rounds =
     \<lparr>sio_refCount = 1, sio_typeName = typeName, sio_flags = 0, sio_status = Status_Unconnected, sio_connectFn = None,
      sio_disconnectFn = None, sio_flushFn = None, sio_readFn = None, sio_writeFn = None, sio_data = dat, sio_rounds = rounds\<rparr>"

definition sio_alive :: "'c gwen_syncio \<Rightarrow> unit outcome" where
  "sio_alive sio = oassert (sio_refCount sio \<noteq> 0)"

definition GWEN_SyncIo_Attach :: "'c gwen_syncio \<Rightarrow> 'c gwen_syncio outcome" where
  "GWEN_SyncIo_Attach sio = obind (sio_alive sio) (\<lambda>_. Ret (sio\<lparr>sio_refCount := sio_refCount sio + 1\<rparr>))"

text \<open>\<open>None\<close>: the layer is gone, and with it its reference to the layer below.\<close>

definition GWEN_SyncIo_free :: "'c gwen_syncio \<Rightarrow> 'c gwen_syncio option outcome" where
  "GWEN_SyncIo_free sio =
     obind (sio_alive sio) (\<lambda>_.
       Ret (if sio_refCount sio = 1 then None else Some (sio\<lparr>sio_refCount := sio_refCount sio - 1\<rparr>)))"

definition GWEN_SyncIo_GetFlags :: "'c gwen_syncio \<Rightarrow> u32 outcome" where
  "GWEN_SyncIo_GetFlags sio = obind (sio_alive sio) (\<lambda>_. Ret (sio_flags sio))"

definition GWEN_SyncIo_SetFlags :: "'c gwen_syncio \<Rightarrow> u32 \<Rightarrow> 'c gwen_syncio outcome" where
  "GWEN_SyncIo_SetFlags sio fl = obind (sio_alive sio) (\<lambda>_. Ret (sio\<lparr>sio_flags := fl\<rparr>))"

definition GWEN_SyncIo_AddFlags :: "'c gwen_syncio \<Rightarrow> u32 \<Rightarrow> 'c gwen_syncio outcome" where
  "GWEN_SyncIo_AddFlags sio fl = obind (sio_alive sio) (\<lambda>_. Ret (sio\<lparr>sio_flags := sio_flags sio OR fl\<rparr>))"

definition GWEN_SyncIo_SubFlags :: "'c gwen_syncio \<Rightarrow> u32 \<Rightarrow> 'c gwen_syncio outcome" where
  "GWEN_SyncIo_SubFlags sio fl = obind (sio_alive sio) (\<lambda>_. Ret (sio\<lparr>sio_flags := sio_flags sio AND NOT fl\<rparr>))"

definition GWEN_SyncIo_GetStatus :: "'c gwen_syncio \<Rightarrow> gwen_syncio_status outcome" where
  "GWEN_SyncIo_GetStatus sio = obind (sio_alive sio) (\<lambda>_. Ret (sio_status sio))"

definition GWEN_SyncIo_SetStatus :: "'c gwen_syncio \<Rightarrow> gwen_syncio_status \<Rightarrow> 'c gwen_syncio outcome" where
  "GWEN_SyncIo_SetStatus sio st = obind (sio_alive sio) (\<lambda>_. Ret (sio\<lparr>sio_status := st\<rparr>))"

definition GWEN_SyncIo_GetTypeName :: "'c gwen_syncio \<Rightarrow> byte list outcome" where
  "GWEN_SyncIo_GetTypeName sio = obind (sio_alive sio) (\<lambda>_. Ret (sio_typeName sio))"

text \<open>Setting a function returns the former one.\<close>

definition GWEN_SyncIo_SetConnectFn ::
  "'c gwen_syncio \<Rightarrow> ('c \<Rightarrow> (int \<times> 'c) outcome) option \<Rightarrow> (('c \<Rightarrow> (int \<times> 'c) outcome) option \<times> 'c gwen_syncio) outcome" where
  "GWEN_SyncIo_SetConnectFn sio fn = obind (sio_alive sio) (\<lambda>_. Ret (sio_connectFn sio, sio\<lparr>sio_connectFn := fn\<rparr>))"

definition GWEN_SyncIo_SetDisconnectFn ::
  "'c gwen_syncio \<Rightarrow> ('c \<Rightarrow> (int \<times> 'c) outcome) option \<Rightarrow> (('c \<Rightarrow> (int \<times> 'c) outcome) option \<times> 'c gwen_syncio) outcome" where
  "GWEN_SyncIo_SetDisconnectFn sio fn = obind (sio_alive sio) (\<lambda>_. Ret (sio_disconnectFn sio, sio\<lparr>sio_disconnectFn := fn\<rparr>))"

definition GWEN_SyncIo_SetFlushFn ::
  "'c gwen_syncio \<Rightarrow> ('c \<Rightarrow> (int \<times> 'c) outcome) option \<Rightarrow> (('c \<Rightarrow> (int \<times> 'c) outcome) option \<times> 'c gwen_syncio) outcome" where
  "GWEN_SyncIo_SetFlushFn sio fn = obind (sio_alive sio) (\<lambda>_. Ret (sio_flushFn sio, sio\<lparr>sio_flushFn := fn\<rparr>))"

definition GWEN_SyncIo_SetReadFn ::
  "'c gwen_syncio \<Rightarrow> ('c \<Rightarrow> u32 \<Rightarrow> (int \<times> byte list \<times> 'c) outcome) option
     \<Rightarrow> (('c \<Rightarrow> u32 \<Rightarrow> (int \<times> byte list \<times> 'c) outcome) option \<times> 'c gwen_syncio) outcome" where
  "GWEN_SyncIo_SetReadFn sio fn = obind (sio_alive sio) (\<lambda>_. Ret (sio_readFn sio, sio\<lparr>sio_readFn := fn\<rparr>))"

definition GWEN_SyncIo_SetWriteFn ::
  "'c gwen_syncio \<Rightarrow> ('c \<Rightarrow> byte list \<Rightarrow> (int \<times> 'c) outcome) option
     \<Rightarrow> (('c \<Rightarrow> byte list \<Rightarrow> (int \<times> 'c) outcome) option \<times> 'c gwen_syncio) outcome" where
  "GWEN_SyncIo_SetWriteFn sio fn = obind (sio_alive sio) (\<lambda>_. Ret (sio_writeFn sio, sio\<lparr>sio_writeFn := fn\<rparr>))"

section \<open>The calls of a layer\<close>

definition sio_call :: "('c \<Rightarrow> (int \<times> 'c) outcome) option \<Rightarrow> int \<Rightarrow> 'c gwen_syncio \<Rightarrow> (int \<times> 'c gwen_syncio) outcome" where
  "sio_call fn otherwise sio =
     obind (sio_alive sio) (\<lambda>_.
       case fn of
         None \<Rightarrow> Ret (otherwise, sio)
       | Some f \<Rightarrow> obind (f (sio_data sio)) (\<lambda>(rv, d). Ret (rv, sio\<lparr>sio_data := d\<rparr>)))"

definition GWEN_SyncIo_Connect :: "'c gwen_syncio \<Rightarrow> (int \<times> 'c gwen_syncio) outcome" where
  "GWEN_SyncIo_Connect sio = sio_call (sio_connectFn sio) 0 sio"

definition GWEN_SyncIo_Disconnect :: "'c gwen_syncio \<Rightarrow> (int \<times> 'c gwen_syncio) outcome" where
  "GWEN_SyncIo_Disconnect sio = sio_call (sio_disconnectFn sio) 0 sio"

definition GWEN_SyncIo_Flush :: "'c gwen_syncio \<Rightarrow> (int \<times> 'c gwen_syncio) outcome" where
  "GWEN_SyncIo_Flush sio = sio_call (sio_flushFn sio) 0 sio"

definition GWEN_SyncIo_Read :: "'c gwen_syncio \<Rightarrow> u32 \<Rightarrow> (int \<times> byte list \<times> 'c gwen_syncio) outcome" where
  "GWEN_SyncIo_Read sio sz =
     obind (sio_alive sio) (\<lambda>_.
       case sio_readFn sio of
         None \<Rightarrow> Ret (GWEN_ERROR_EOF, [], sio)
       | Some f \<Rightarrow> obind (f (sio_data sio) sz) (\<lambda>(rv, bs, d). Ret (rv, bs, sio\<lparr>sio_data := d\<rparr>)))"

definition GWEN_SyncIo_Write :: "'c gwen_syncio \<Rightarrow> byte list \<Rightarrow> (int \<times> 'c gwen_syncio) outcome" where
  "GWEN_SyncIo_Write sio bs = sio_call (map_option (\<lambda>f d. f d bs) (sio_writeFn sio)) GWEN_ERROR_BROKEN_PIPE sio"

section \<open>Calls that insist\<close>

text \<open>An interrupted call is repeated.\<close>

fun sio_again :: "nat \<Rightarrow> ('s \<Rightarrow> (int \<times> 's) outcome) \<Rightarrow> 's \<Rightarrow> (int \<times> 's) outcome" where
  "sio_again 0 f s = Hang"
| "sio_again (Suc k) f s = obind (f s) (\<lambda>(rv, s). if rv = GWEN_ERROR_INTERRUPTED then sio_again k f s else Ret (rv, s))"

text \<open>All bytes are written; 0 when they are. More bytes written than given move the pointer behind its memory.\<close>

fun sio_write_all :: "nat \<Rightarrow> 'c gwen_syncio \<Rightarrow> byte list \<Rightarrow> (int \<times> 'c gwen_syncio) outcome" where
  "sio_write_all 0 sio bs = (if bs = [] then Ret (0, sio) else Hang)"
| "sio_write_all (Suc k) sio bs =
    (if bs = [] then Ret (0, sio)
     else obind (sio_again (sio_rounds sio) (\<lambda>sio. GWEN_SyncIo_Write sio bs) sio) (\<lambda>(rv, sio).
            if rv < 0 then Ret (rv, sio)
            else if nat rv \<le> length bs then sio_write_all k sio (drop (nat rv) bs)
            else Fault))"

definition GWEN_SyncIo_WriteForced :: "'c gwen_syncio \<Rightarrow> byte list \<Rightarrow> (int \<times> 'c gwen_syncio) outcome" where
  "GWEN_SyncIo_WriteForced sio bs =
    (if bs = []
     then obind (sio_again (sio_rounds sio) (\<lambda>sio. GWEN_SyncIo_Write sio bs) sio) (\<lambda>(rv, sio). Ret (min rv 0, sio))
     else obind (sio_write_all (sio_rounds sio) sio bs) (\<lambda>(rv, sio).
            Ret (if rv < 0 then rv else sint (of_nat (length bs) :: u32), sio)))"

text \<open>The bytes read are put into the memory of the caller from \<open>off\<close> on.\<close>

fun sio_read_all :: "nat \<Rightarrow> 'c gwen_syncio \<Rightarrow> byte list \<Rightarrow> nat \<Rightarrow> u32 \<Rightarrow> (int \<times> byte list \<times> 'c gwen_syncio) outcome" where
  "sio_read_all 0 sio buffer off todo = (if todo = 0 then Ret (0, buffer, sio) else Hang)"
| "sio_read_all (Suc k) sio buffer off todo =
    (if todo = 0 then Ret (0, buffer, sio)
     else obind (sio_again (sio_rounds sio)
                   (\<lambda>(buffer, sio). obind (GWEN_SyncIo_Read sio todo) (\<lambda>(rv, bs, sio).
                      if off + length bs \<le> length buffer then Ret (rv, write_at off bs buffer, sio) else Fault)) (buffer, sio)) (\<lambda>(rv, buffer, sio).
            if rv < 0 then Ret (rv, buffer, sio)
            else if rv = 0 then Ret (GWEN_ERROR_EOF, buffer, sio)
            else if nat rv \<le> unat todo then sio_read_all k sio buffer (off + nat rv) (todo - of_int rv)
            else Fault))"

definition GWEN_SyncIo_ReadForced :: "'c gwen_syncio \<Rightarrow> byte list \<Rightarrow> u32 \<Rightarrow> (int \<times> byte list \<times> 'c gwen_syncio) outcome" where
  "GWEN_SyncIo_ReadForced sio buffer sz =
     obind (sio_read_all (sio_rounds sio) sio buffer 0 sz) (\<lambda>(rv, buffer, sio). Ret (if rv < 0 then rv else sint sz, buffer, sio))"

text \<open>A string is given without its NUL; a null pointer is the empty string.\<close>

definition GWEN_SyncIo_WriteString :: "'c gwen_syncio \<Rightarrow> byte list option \<Rightarrow> (int \<times> 'c gwen_syncio) outcome" where
  "GWEN_SyncIo_WriteString sio s =
     obind (GWEN_SyncIo_WriteForced sio (case s of None \<Rightarrow> [] | Some s \<Rightarrow> s)) (\<lambda>(rv, sio). Ret (min rv 0, sio))"

definition GWEN_SyncIo_WriteLine :: "'c gwen_syncio \<Rightarrow> byte list option \<Rightarrow> (int \<times> 'c gwen_syncio) outcome" where
  "GWEN_SyncIo_WriteLine sio s =
     obind (GWEN_SyncIo_WriteString sio s) (\<lambda>(rv, sio).
       if rv < 0 then Ret (rv, sio)
       else obind (GWEN_SyncIo_GetFlags sio) (\<lambda>fl.
            obind (GWEN_SyncIo_WriteForced sio (if fl AND GWEN_SYNCIO_FLAGS_DOSMODE \<noteq> 0 then [13, 10] else [10])) (\<lambda>(rv, sio).
              Ret (min rv 0, sio))))"

definition GWEN_SyncIo_WriteChar :: "'c gwen_syncio \<Rightarrow> byte \<Rightarrow> (int \<times> 'c gwen_syncio) outcome" where
  "GWEN_SyncIo_WriteChar sio c = GWEN_SyncIo_WriteForced sio [c]"

section \<open>The layer in memory\<close>

record gwen_syncio_memory =
  mem_buffer :: "gwen_buffer option"
  mem_own :: bool

definition GWEN_SyncIo_Memory_Read :: "gwen_syncio_memory \<Rightarrow> u32 \<Rightarrow> (int \<times> byte list \<times> gwen_syncio_memory) outcome" where
  "GWEN_SyncIo_Memory_Read xio sz =
    (case mem_buffer xio of
       None \<Rightarrow> Ret (GWEN_ERROR_INTERNAL, [], xio)
     | Some b \<Rightarrow>
         let bytesLeft = GWEN_Buffer_GetBytesLeft b
         in if bytesLeft = 0 then Ret (0, [], xio)
            else let sz = (if sz > bytesLeft then bytesLeft else sz)
                 in obind (peek b (GWEN_Buffer_GetPosPointer b) (unat sz)) (\<lambda>bs.
                      Ret (sint sz, bs, xio\<lparr>mem_buffer := Some (snd (GWEN_Buffer_IncrementPos b sz))\<rparr>)))"

definition GWEN_SyncIo_Memory_Write :: "gwen_syncio_memory \<Rightarrow> byte list \<Rightarrow> (int \<times> gwen_syncio_memory) outcome" where
  "GWEN_SyncIo_Memory_Write xio bs =
    (case mem_buffer xio of
       None \<Rightarrow> Ret (GWEN_ERROR_INTERNAL, xio)
     | Some b \<Rightarrow>
         let sz = of_nat (length bs) :: u32
         in if sz = 0 then Ret (0, xio)
            else obind (GWEN_Buffer_AppendBytes b bs sz) (\<lambda>(rv, b).
                   Ret (if rv < 0 then rv else sint sz, xio\<lparr>mem_buffer := Some b\<rparr>)))"

definition memory_layer :: "gwen_syncio_memory \<Rightarrow> nat \<Rightarrow> gwen_syncio_memory gwen_syncio outcome" where
  "memory_layer xio rounds =
     obind (GWEN_SyncIo_SetReadFn (GWEN_SyncIo_new (str ''memory'') xio rounds) (Some GWEN_SyncIo_Memory_Read)) (\<lambda>(_, sio).
     obind (GWEN_SyncIo_SetWriteFn sio (Some GWEN_SyncIo_Memory_Write)) (\<lambda>(_, sio). GWEN_SyncIo_SetStatus sio Status_Connected))"

text \<open>\<open>hl\<close>, \<open>fr\<close> and \<open>ok\<close> are what a new buffer needs to know of the allocator.\<close>

definition GWEN_SyncIo_Memory_new ::
  "u32 \<Rightarrow> (nat \<Rightarrow> byte) \<Rightarrow> (nat \<Rightarrow> bool) \<Rightarrow> nat \<Rightarrow> gwen_buffer option \<Rightarrow> bool \<Rightarrow> gwen_syncio_memory gwen_syncio outcome" where
  "GWEN_SyncIo_Memory_new hl fr ok rounds buffer takeBuffer =
     obind (case buffer of
              Some b \<Rightarrow> Ret \<lparr>mem_buffer = Some b, mem_own = takeBuffer\<rparr>
            | None \<Rightarrow> obind (GWEN_Buffer_new hl fr ok None 256 0 True) (\<lambda>b. Ret \<lparr>mem_buffer = Some b, mem_own = True\<rparr>)) (\<lambda>xio.
       memory_layer xio rounds)"

text \<open>A size of -1 is that of a string with its NUL. The memory is a list of bytes, \<open>None\<close> a null pointer.\<close>

definition GWEN_SyncIo_Memory_fromBuffer ::
  "u32 \<Rightarrow> (nat \<Rightarrow> byte) \<Rightarrow> (nat \<Rightarrow> bool) \<Rightarrow> nat \<Rightarrow> byte list option \<Rightarrow> int \<Rightarrow> gwen_syncio_memory gwen_syncio outcome" where
  "GWEN_SyncIo_Memory_fromBuffer hl fr ok rounds buffer sz =
     obind (if sz = -1
            then (case buffer of
                    None \<Rightarrow> Ret 0
                  | Some b \<Rightarrow> if strlen b = length b then Fault else Ret (int (strlen b) + 1))
            else Ret sz) (\<lambda>sz.
     obind (GWEN_Buffer_new hl fr ok None (of_int sz) 0 True) (\<lambda>b.
     obind (if buffer \<noteq> None \<and> sz > 0
            then obind (region (the buffer) (of_int sz)) (\<lambda>bs.
                 obind (GWEN_Buffer_AppendBytes b bs (of_int sz)) (\<lambda>(_, b). Ret (GWEN_Buffer_Rewind b)))
            else Ret b) (\<lambda>b.
       memory_layer \<lparr>mem_buffer = Some b, mem_own = True\<rparr> rounds)))"

definition GWEN_SyncIo_Memory_GetBuffer :: "gwen_syncio_memory gwen_syncio \<Rightarrow> gwen_buffer option" where
  "GWEN_SyncIo_Memory_GetBuffer sio = mem_buffer (sio_data sio)"

definition GWEN_SyncIo_Memory_TakeBuffer ::
  "gwen_syncio_memory gwen_syncio \<Rightarrow> gwen_buffer option \<times> gwen_syncio_memory gwen_syncio" where
  "GWEN_SyncIo_Memory_TakeBuffer sio =
    (if \<not> mem_own (sio_data sio) \<or> mem_buffer (sio_data sio) = None then (None, sio)
     else (mem_buffer (sio_data sio), sio\<lparr>sio_data := \<lparr>mem_buffer = None, mem_own = False\<rparr>\<rparr>))"

end
