(* ===== verification/Gwen_FastBuffer.thy ===== *)
theory Gwen_FastBuffer
  imports Gwen_SyncIo
begin

text \<open>
  The fast buffer, \<^verbatim>\<open>src/base/fastbuffer.c\<close> and the macros of \<^verbatim>\<open>fastbuffer.h\<close>: a block of memory between a program and an
  input or output layer. The same block and the same write position serve reading, where it is the end of what was read, and
  writing, where it is the end of what is still to be sent. Memory of the caller that is read from is a list of bytes, memory
  that is read into is the list of the bytes put there. The macros READLINE, READLINEFORCED, COPYBYTES and COPYFORCED name
  variables they do not declare, so that no program can use them.
\<close>

definition GWEN_FAST_BUFFER_FLAGS_DOSMODE :: u32 where "GWEN_FAST_BUFFER_FLAGS_DOSMODE = 0x00000001"

record 'c gwen_fast_buffer =
  fb_io :: "'c gwen_syncio"
  fb_bufferSize :: u32
  fb_bufferReadPos :: u32
  fb_bufferWritePos :: u32
  fb_flags :: u32
  fb_bytesWritten :: u32
  fb_bytesRead :: u32
  fb_buffer :: "byte list"

text \<open>\<open>ok\<close> is the answer of the allocator.\<close>

definition GWEN_FastBuffer_new :: "bool \<Rightarrow> u32 \<Rightarrow> 'c gwen_syncio \<Rightarrow> 'c gwen_fast_buffer outcome" where
  "GWEN_FastBuffer_new ok bsize io =
     obind (oassert (bsize \<noteq> 0)) (\<lambda>_.
     obind (oassert ok) (\<lambda>_.
       Ret \<lparr>fb_io = io, fb_bufferSize = bsize, fb_bufferReadPos = 0, fb_bufferWritePos = 0, fb_flags = 0, fb_bytesWritten = 0,
            fb_bytesRead = 0, fb_buffer = replicate (unat bsize + 1) 0\<rparr>))"

definition GWEN_FastBuffer_GetFlags :: "'c gwen_fast_buffer \<Rightarrow> u32" where
  "GWEN_FastBuffer_GetFlags fb = fb_flags fb"

definition GWEN_FastBuffer_SetFlags :: "'c gwen_fast_buffer \<Rightarrow> u32 \<Rightarrow> 'c gwen_fast_buffer" where
  "GWEN_FastBuffer_SetFlags fb fl = fb\<lparr>fb_flags := fl\<rparr>"

definition GWEN_FastBuffer_AddFlags :: "'c gwen_fast_buffer \<Rightarrow> u32 \<Rightarrow> 'c gwen_fast_buffer" where
  "GWEN_FastBuffer_AddFlags fb fl = fb\<lparr>fb_flags := fb_flags fb OR fl\<rparr>"

definition GWEN_FastBuffer_SubFlags :: "'c gwen_fast_buffer \<Rightarrow> u32 \<Rightarrow> 'c gwen_fast_buffer" where
  "GWEN_FastBuffer_SubFlags fb fl = fb\<lparr>fb_flags := fb_flags fb AND NOT fl\<rparr>"

definition GWEN_FastBuffer_GetBytesWritten :: "'c gwen_fast_buffer \<Rightarrow> u32" where
  "GWEN_FastBuffer_GetBytesWritten fb = fb_bytesWritten fb"

definition GWEN_FastBuffer_GetBytesRead :: "'c gwen_fast_buffer \<Rightarrow> u32" where
  "GWEN_FastBuffer_GetBytesRead fb = fb_bytesRead fb"

section \<open>Reading\<close>

text \<open>The layer reads into the block.\<close>

definition fb_load :: "'c gwen_fast_buffer \<Rightarrow> (int \<times> 'c gwen_fast_buffer) outcome" where
  "fb_load fb =
     obind (GWEN_SyncIo_Read (fb_io fb) (fb_bufferSize fb)) (\<lambda>(rv, bs, io).
       if length bs \<le> length (fb_buffer fb) then Ret (rv, fb\<lparr>fb_io := io, fb_buffer := write_at 0 bs (fb_buffer fb)\<rparr>) else Fault)"

definition fb_cur :: "'c gwen_fast_buffer \<Rightarrow> byte outcome" where
  "fb_cur fb = (if unat (fb_bufferReadPos fb) < length (fb_buffer fb) then Ret (fb_buffer fb ! unat (fb_bufferReadPos fb)) else Fault)"

definition fb_step :: "'c gwen_fast_buffer \<Rightarrow> (byte \<times> 'c gwen_fast_buffer) outcome" where
  "fb_step fb = obind (fb_cur fb) (\<lambda>c. Ret (c, fb\<lparr>fb_bufferReadPos := fb_bufferReadPos fb + 1, fb_bytesRead := fb_bytesRead fb + 1\<rparr>))"

text \<open>The byte is loaded where there is none; the error of loading, or \<open>EOF\<close>, is the result then.\<close>

definition fb_filled :: "'c gwen_fast_buffer \<Rightarrow> (int \<times> 'c gwen_fast_buffer) outcome" where
  "fb_filled fb =
    (if fb_bufferReadPos fb \<ge> fb_bufferWritePos fb
     then obind (fb_load fb) (\<lambda>(rv, fb).
            if rv < 0 then Ret (rv, fb)
            else if rv = 0 then Ret (GWEN_ERROR_EOF, fb)
            else Ret (0, fb\<lparr>fb_bufferWritePos := of_int rv, fb_bufferReadPos := 0\<rparr>))
     else Ret (0, fb))"

definition GWEN_FASTBUFFER_PEEKBYTE :: "'c gwen_fast_buffer \<Rightarrow> (int \<times> 'c gwen_fast_buffer) outcome" where
  "GWEN_FASTBUFFER_PEEKBYTE fb =
     obind (fb_filled fb) (\<lambda>(rv, fb). if rv < 0 then Ret (rv, fb) else obind (fb_cur fb) (\<lambda>c. Ret (uint c, fb)))"

definition GWEN_FASTBUFFER_READBYTE :: "'c gwen_fast_buffer \<Rightarrow> (int \<times> 'c gwen_fast_buffer) outcome" where
  "GWEN_FASTBUFFER_READBYTE fb =
     obind (fb_filled fb) (\<lambda>(rv, fb). if rv < 0 then Ret (rv, fb) else obind (fb_step fb) (\<lambda>(c, fb). Ret (uint c, fb)))"

text \<open>The macro that reads a block takes what there is; a layer at its end leaves it with 0 bytes.\<close>

definition GWEN_FASTBUFFER_READBYTES :: "'c gwen_fast_buffer \<Rightarrow> int \<Rightarrow> (int \<times> byte list \<times> 'c gwen_fast_buffer) outcome" where
  "GWEN_FASTBUFFER_READBYTES fb len =
     obind (if fb_bufferReadPos fb \<ge> fb_bufferWritePos fb
            then obind (fb_load fb) (\<lambda>(rv, fb).
                   if rv < 0 then Ret (rv, fb) else Ret (0, fb\<lparr>fb_bufferWritePos := of_int rv, fb_bufferReadPos := 0\<rparr>))
            else Ret (0, fb)) (\<lambda>(rv, fb).
       if rv < 0 then Ret (rv, [], fb)
       else let bytes = min (sint (fb_bufferWritePos fb - fb_bufferReadPos fb)) len; p = unat (fb_bufferReadPos fb)
            in if bytes < 0 \<or> length (fb_buffer fb) < p + nat bytes then Fault
               else Ret (bytes, window p (nat bytes) (fb_buffer fb),
                         fb\<lparr>fb_bufferReadPos := fb_bufferReadPos fb + of_int bytes, fb_bytesRead := fb_bytesRead fb + of_int bytes\<rparr>))"

text \<open>All bytes wanted; every round reads one at least, so that there are no more rounds than bytes.\<close>

fun fb_read_all :: "nat \<Rightarrow> 'c gwen_fast_buffer \<Rightarrow> int \<Rightarrow> (int \<times> byte list \<times> 'c gwen_fast_buffer) outcome" where
  "fb_read_all 0 fb len = (if len = 0 then Ret (0, [], fb) else Hang)"
| "fb_read_all (Suc k) fb len =
    (if len = 0 then Ret (0, [], fb)
     else obind (GWEN_FASTBUFFER_READBYTES fb len) (\<lambda>(rv, bs, fb).
            if rv < 0 then Ret (rv, [], fb)
            else if rv = 0 then Ret (GWEN_ERROR_EOF, [], fb)
            else obind (fb_read_all k fb (len - rv)) (\<lambda>(rv, bs', fb). Ret (rv, bs @ bs', fb))))"

definition GWEN_FASTBUFFER_READFORCED :: "'c gwen_fast_buffer \<Rightarrow> int \<Rightarrow> (int \<times> byte list \<times> 'c gwen_fast_buffer) outcome" where
  "GWEN_FASTBUFFER_READFORCED fb len = fb_read_all (nat (\<bar>len\<bar>)) fb len"

text \<open>Reading a line up to a given size. What the layer has read is not taken notice of.\<close>

fun fb_line :: "nat \<Rightarrow> 'c gwen_fast_buffer \<Rightarrow> (byte list \<times> 'c gwen_fast_buffer) outcome" where
  "fb_line 0 fb = Ret ([], fb)"
| "fb_line (Suc n) fb =
     obind (fb_step fb) (\<lambda>(c, fb).
       if c = 10 then Ret ([c], fb)
       else obind (fb_line n fb) (\<lambda>(cs, fb). Ret (if c \<noteq> 13 then c # cs else cs, fb)))"

definition GWEN_FastBuffer_ReadLine :: "'c gwen_fast_buffer \<Rightarrow> int \<Rightarrow> (int \<times> byte list \<times> 'c gwen_fast_buffer) outcome" where
  "GWEN_FastBuffer_ReadLine fb len =
     obind (if fb_bufferReadPos fb \<ge> fb_bufferWritePos fb then fb_load fb else Ret (0, fb)) (\<lambda>(rv, fb).
       if rv < 0 then Ret (rv, [], fb)
       else let bytes = min (sint (fb_bufferWritePos fb - fb_bufferReadPos fb)) len
            in if bytes < 0 then Fault
               else obind (fb_line (nat bytes) fb) (\<lambda>(cs, fb). Ret (int (length cs), cs, fb)))"

text \<open>Through \<open>n\<close> bytes of the block up to the end of the line or a carriage return: whether the line is complete, and how
  many bytes are to be copied.\<close>

fun fb_scan :: "nat \<Rightarrow> 'c gwen_fast_buffer \<Rightarrow> nat \<Rightarrow> (bool \<times> nat \<times> 'c gwen_fast_buffer) outcome" where
  "fb_scan 0 fb copied = Ret (False, copied, fb)"
| "fb_scan (Suc n) fb copied =
     obind (fb_step fb) (\<lambda>(c, fb).
       if c = 10 then Ret (True, copied, fb)
       else if c = 13 then Ret (False, copied, fb)
       else fb_scan n fb (copied + 1))"

text \<open>The loop for a line of any length. The bytes go where \<open>app\<close> puts them.\<close>

fun fb_read_line ::
  "('b \<Rightarrow> byte list \<Rightarrow> 'b outcome) \<Rightarrow> nat \<Rightarrow> bool \<Rightarrow> 'c gwen_fast_buffer \<Rightarrow> 'b \<Rightarrow> (int \<times> 'c gwen_fast_buffer \<times> 'b) outcome" where
  "fb_read_line app 0 hadSome fb buf = Hang"
| "fb_read_line app (Suc k) hadSome fb buf =
     obind (if fb_bufferReadPos fb \<ge> fb_bufferWritePos fb
            then obind (fb_load fb) (\<lambda>(rv, fb).
                   if rv < 0 then Ret (Inl (if rv = GWEN_ERROR_EOF \<and> hadSome then 0 else rv), fb)
                   else if rv = 0 then Ret (if hadSome then Inr True else Inl GWEN_ERROR_EOF, fb)
                   else Ret (Inr False, fb\<lparr>fb_bufferWritePos := of_int rv, fb_bufferReadPos := 0\<rparr>))
            else Ret (Inr False, fb)) (\<lambda>(r, fb).
       case r of
         Inl rv \<Rightarrow> Ret (rv, fb, buf)
       | Inr lineComplete \<Rightarrow>
           let bytes = sint (fb_bufferWritePos fb - fb_bufferReadPos fb); p = unat (fb_bufferReadPos fb)
           in if bytes < 0 then Fault
              else obind (fb_scan (nat bytes) fb 0) (\<lambda>(found, copied, fb).
                   obind (if copied \<noteq> 0 then app buf (window p copied (fb_buffer fb)) else Ret buf) (\<lambda>buf.
                     if lineComplete \<or> found then Ret (0, fb, buf)
                     else fb_read_line app k (hadSome \<or> bytes \<noteq> 0) fb buf)))"

definition GWEN_FastBuffer_ReadLineToBuffer ::
  "'c gwen_fast_buffer \<Rightarrow> gwen_buffer \<Rightarrow> (int \<times> 'c gwen_fast_buffer \<times> gwen_buffer) outcome" where
  "GWEN_FastBuffer_ReadLineToBuffer fb buf =
     fb_read_line (\<lambda>buf bs. obind (GWEN_Buffer_AppendBytes buf bs (of_nat (length bs))) (\<lambda>(_, buf). Ret buf))
       (sio_rounds (fb_io fb)) False fb buf"

section \<open>Writing\<close>

text \<open>What is in the block is sent; 0 is success.\<close>

definition GWEN_FASTBUFFER_FLUSH :: "'c gwen_fast_buffer \<Rightarrow> (int \<times> 'c gwen_fast_buffer) outcome" where
  "GWEN_FASTBUFFER_FLUSH fb =
     obind (if unat (fb_bufferWritePos fb) \<le> length (fb_buffer fb)
            then GWEN_SyncIo_WriteForced (fb_io fb) (take (unat (fb_bufferWritePos fb)) (fb_buffer fb)) else Fault) (\<lambda>(rv, io).
       if rv < sint (fb_bufferWritePos fb) then Ret (rv, fb\<lparr>fb_io := io\<rparr>)
       else Ret (0, fb\<lparr>fb_io := io, fb_bufferWritePos := 0\<rparr>))"

text \<open>A full block is sent before more is put there. The code that writes goes on if the result is 0 only.\<close>

definition fb_make_room :: "'c gwen_fast_buffer \<Rightarrow> (int \<times> 'c gwen_fast_buffer) outcome" where
  "fb_make_room fb = (if fb_bufferWritePos fb \<ge> fb_bufferSize fb then GWEN_FASTBUFFER_FLUSH fb else Ret (0, fb))"

text \<open>The macro for a single byte tells a block that could not be sent by its branch, not by its result.\<close>

definition fb_put :: "'c gwen_fast_buffer \<Rightarrow> byte list \<Rightarrow> 'c gwen_fast_buffer outcome" where
  "fb_put fb bs =
    (if unat (fb_bufferWritePos fb) + length bs \<le> length (fb_buffer fb)
     then Ret (fb\<lparr>fb_buffer := write_at (unat (fb_bufferWritePos fb)) bs (fb_buffer fb),
                  fb_bufferWritePos := fb_bufferWritePos fb + of_nat (length bs),
                  fb_bytesWritten := fb_bytesWritten fb + of_nat (length bs)\<rparr>)
     else Fault)"

definition GWEN_FASTBUFFER_WRITEBYTE :: "'c gwen_fast_buffer \<Rightarrow> byte \<Rightarrow> (int \<times> 'c gwen_fast_buffer) outcome" where
  "GWEN_FASTBUFFER_WRITEBYTE fb c =
    (if fb_bufferWritePos fb \<ge> fb_bufferSize fb
     then obind (if unat (fb_bufferWritePos fb) \<le> length (fb_buffer fb)
                 then GWEN_SyncIo_WriteForced (fb_io fb) (take (unat (fb_bufferWritePos fb)) (fb_buffer fb)) else Fault) (\<lambda>(rv, io).
            if rv < sint (fb_bufferWritePos fb) then Ret (rv, fb\<lparr>fb_io := io\<rparr>)
            else obind (fb_put (fb\<lparr>fb_io := io, fb_bufferWritePos := 0\<rparr>) [c]) (\<lambda>fb. Ret (0, fb)))
     else obind (fb_put fb [c]) (\<lambda>fb. Ret (0, fb)))"

text \<open>A length of -1 is that of a string.\<close>

definition fb_len :: "byte list \<Rightarrow> int \<Rightarrow> int outcome" where
  "fb_len p len =
    (if len = -1 then (if strlen p = length p then Fault else Ret (sint (of_nat (strlen p) :: u32))) else Ret len)"

definition GWEN_FASTBUFFER_WRITEBYTES :: "'c gwen_fast_buffer \<Rightarrow> byte list \<Rightarrow> int \<Rightarrow> (int \<times> 'c gwen_fast_buffer) outcome" where
  "GWEN_FASTBUFFER_WRITEBYTES fb p len =
     obind (fb_len p len) (\<lambda>len.
     obind (fb_make_room fb) (\<lambda>(rv, fb).
       if rv \<noteq> 0 then Ret (rv, fb)
       else let bytes = min (sint (fb_bufferSize fb - fb_bufferWritePos fb)) len
            in if bytes < 0 \<or> length p < nat bytes then Fault
               else obind (fb_put fb (take (nat bytes) p)) (\<lambda>fb. Ret (bytes, fb))))"

fun fb_write_all :: "nat \<Rightarrow> 'c gwen_fast_buffer \<Rightarrow> byte list \<Rightarrow> int \<Rightarrow> (int \<times> 'c gwen_fast_buffer) outcome" where
  "fb_write_all 0 fb p len = (if len = 0 then Ret (0, fb) else Hang)"
| "fb_write_all (Suc k) fb p len =
    (if len = 0 then Ret (0, fb)
     else obind (GWEN_FASTBUFFER_WRITEBYTES fb p len) (\<lambda>(rv, fb).
            if rv < 0 then Ret (rv, fb)
            else if rv = 0 then Ret (GWEN_ERROR_EOF, fb)
            else fb_write_all k fb (drop (nat rv) p) (len - rv)))"

definition GWEN_FASTBUFFER_WRITEFORCED :: "'c gwen_fast_buffer \<Rightarrow> byte list \<Rightarrow> int \<Rightarrow> (int \<times> 'c gwen_fast_buffer) outcome" where
  "GWEN_FASTBUFFER_WRITEFORCED fb p len = obind (fb_len p len) (\<lambda>len. fb_write_all (nat (\<bar>len\<bar>)) fb p len)"

text \<open>A line, given as the text in front of its NUL.\<close>

definition fb_write_text :: "'c gwen_fast_buffer \<Rightarrow> byte list \<Rightarrow> (int \<times> 'c gwen_fast_buffer) outcome" where
  "fb_write_text fb s = GWEN_FASTBUFFER_WRITEFORCED fb (s @ [0]) (-1)"

definition GWEN_FASTBUFFER_WRITELINE :: "'c gwen_fast_buffer \<Rightarrow> byte list \<Rightarrow> (int \<times> 'c gwen_fast_buffer) outcome" where
  "GWEN_FASTBUFFER_WRITELINE fb s =
     obind (fb_write_text fb s) (\<lambda>(rv, fb).
       if rv < 0 then Ret (rv, fb)
       else obind (if fb_flags fb AND GWEN_FAST_BUFFER_FLAGS_DOSMODE \<noteq> 0 then GWEN_FASTBUFFER_WRITEFORCED fb [13, 10] 2
                   else GWEN_FASTBUFFER_WRITEFORCED fb [10] 1) (\<lambda>(rv, fb). Ret (min rv 0, fb)))"

end
