(* ===== verification/Gwen_SyncIoProps.thy ===== *)
theory Gwen_SyncIoProps
  imports Gwen_SyncIo
begin

text \<open>
  What a client of an input or output layer relies on, as two interfaces: a sink takes all bytes written while it has room, a
  source gives its bytes in order until there are none. The layer in memory is both.
\<close>

lemmas io_errors = GWEN_ERROR_INTERRUPTED_def GWEN_ERROR_BROKEN_PIPE_def gwen_errors

text \<open>Only the data of a layer may change.\<close>

definition same_layer :: "'c gwen_syncio \<Rightarrow> 'c gwen_syncio \<Rightarrow> bool" where
  "same_layer sio sio' \<longleftrightarrow> (\<exists>d. sio' = sio\<lparr>sio_data := d\<rparr>)"

lemma same_layerD:
  "same_layer sio sio' \<Longrightarrow> sio_refCount sio' = sio_refCount sio \<and> sio_flags sio' = sio_flags sio \<and> sio_readFn sio' = sio_readFn sio
     \<and> sio_writeFn sio' = sio_writeFn sio \<and> sio_rounds sio' = sio_rounds sio"
  by (auto simp: same_layer_def)

lemma same_layer_refl [simp]: "same_layer sio sio"
  unfolding same_layer_def by (rule exI [of _ "sio_data sio"]) simp

lemma same_layer_upd [simp]: "same_layer sio (sio\<lparr>sio_data := d\<rparr>)"
  by (auto simp: same_layer_def)

lemma same_layer_trans: "same_layer a b \<Longrightarrow> same_layer b c \<Longrightarrow> same_layer a c"
  by (auto simp: same_layer_def)

section \<open>Sinks\<close>

text \<open>A layer that can be written to, with room for \<open>n\<close> bytes and rounds enough for them.\<close>

definition sio_sink :: "('c \<Rightarrow> nat \<Rightarrow> bool) \<Rightarrow> ('c \<Rightarrow> byte list \<Rightarrow> (int \<times> 'c) outcome) \<Rightarrow> 'c gwen_syncio \<Rightarrow> nat \<Rightarrow> bool" where
  "sio_sink takes wr sio n \<longleftrightarrow>
     sio_refCount sio \<noteq> 0 \<and> sio_writeFn sio = Some wr \<and> takes (sio_data sio) n \<and> n < sio_rounds sio \<and> n < 2147483648"

locale io_sink =
  fixes takes :: "'c \<Rightarrow> nat \<Rightarrow> bool" and sent :: "'c \<Rightarrow> byte list" and wr :: "'c \<Rightarrow> byte list \<Rightarrow> (int \<times> 'c) outcome"
  assumes wr_law: "takes d (length bs + n) \<Longrightarrow> length bs < 2147483648 \<Longrightarrow>
      \<exists>k d'. wr d bs = Ret (int k, d') \<and> k \<le> length bs \<and> (bs \<noteq> [] \<longrightarrow> 0 < k) \<and> sent d' = sent d @ take k bs
        \<and> takes d' (length bs - k + n)"
begin

lemma write_once:
  assumes "sio_sink takes wr sio (length bs + n)"
  obtains k d' where "sio_again (sio_rounds sio) (\<lambda>sio. GWEN_SyncIo_Write sio bs) sio = Ret (int k, sio\<lparr>sio_data := d'\<rparr>)"
    "k \<le> length bs" "bs \<noteq> [] \<longrightarrow> 0 < k" "sent d' = sent (sio_data sio) @ take k bs" "takes d' (length bs - k + n)"
proof -
  from assms have s: "sio_refCount sio \<noteq> 0" "sio_writeFn sio = Some wr" "takes (sio_data sio) (length bs + n)"
    "length bs < 2147483648" "0 < sio_rounds sio" by (auto simp: sio_sink_def)
  from wr_law [OF s(3,4)] obtain k d' where w: "wr (sio_data sio) bs = Ret (int k, d')" "k \<le> length bs" "bs \<noteq> [] \<longrightarrow> 0 < k"
    "sent d' = sent (sio_data sio) @ take k bs" "takes d' (length bs - k + n)" by blast
  obtain r where r: "sio_rounds sio = Suc r" using s(5) by (cases "sio_rounds sio") auto
  have "sio_again (sio_rounds sio) (\<lambda>sio. GWEN_SyncIo_Write sio bs) sio = Ret (int k, sio\<lparr>sio_data := d'\<rparr>)"
    using s w by (simp add: r GWEN_SyncIo_Write_def sio_call_def sio_alive_def io_errors)
  then show thesis using w by (intro that) auto
qed

lemma write_all:
  assumes "sio_sink takes wr sio (length bs + n)" "length bs \<le> m"
  shows "\<exists>sio'. sio_write_all m sio bs = Ret (0, sio') \<and> same_layer sio sio' \<and> sent (sio_data sio') = sent (sio_data sio) @ bs
     \<and> sio_sink takes wr sio' n"
  using assms
proof (induction m arbitrary: sio bs)
  case (Suc m)
  show ?case
  proof (cases "bs = []")
    case False
    obtain k d' where w: "sio_again (sio_rounds sio) (\<lambda>sio. GWEN_SyncIo_Write sio bs) sio = Ret (int k, sio\<lparr>sio_data := d'\<rparr>)"
      "k \<le> length bs" "bs \<noteq> [] \<longrightarrow> 0 < k" "sent d' = sent (sio_data sio) @ take k bs" "takes d' (length bs - k + n)"
      by (rule write_once [OF Suc.prems(1)])
    let ?s = "sio\<lparr>sio_data := d'\<rparr>" and ?bs = "drop k bs"
    have "sio_sink takes wr ?s (length ?bs + n)" using Suc.prems(1) w(2,5) by (auto simp: sio_sink_def)
    moreover have "length ?bs \<le> m" using Suc.prems(2) w(3) False by simp
    ultimately obtain sio' where i: "sio_write_all m ?s ?bs = Ret (0, sio')" "same_layer ?s sio'"
      "sent (sio_data sio') = sent d' @ ?bs" "sio_sink takes wr sio' n"
      using Suc.IH [of ?s ?bs] by auto
    have "same_layer sio sio'" using same_layer_trans [OF same_layer_upd i(2)] .
    then show ?thesis using False w(1,2,4) i by simp
  qed (use Suc.prems in simp)
qed simp

lemma WriteForced_ok:
  assumes "sio_sink takes wr sio (length bs + n)"
  shows "\<exists>sio'. GWEN_SyncIo_WriteForced sio bs = Ret (int (length bs), sio') \<and> same_layer sio sio'
     \<and> sent (sio_data sio') = sent (sio_data sio) @ bs \<and> sio_sink takes wr sio' n"
proof (cases "bs = []")
  case True
  obtain k d' where w: "sio_again (sio_rounds sio) (\<lambda>sio. GWEN_SyncIo_Write sio bs) sio = Ret (int k, sio\<lparr>sio_data := d'\<rparr>)"
    "k \<le> length bs" "bs \<noteq> [] \<longrightarrow> 0 < k" "sent d' = sent (sio_data sio) @ take k bs" "takes d' (length bs - k + n)"
    by (rule write_once [OF assms])
  then show ?thesis using True assms by (auto simp: GWEN_SyncIo_WriteForced_def sio_sink_def)
next
  case False
  have r: "length bs \<le> sio_rounds sio" and l: "length bs < 2147483648" using assms by (auto simp: sio_sink_def)
  have "sint (of_nat (length bs) :: u32) = int (length bs)" using l by (simp add: sint_u32_small unat_of_nat_u32)
  with write_all [OF assms r] False show ?thesis by (auto simp: GWEN_SyncIo_WriteForced_def)
qed

end

section \<open>Sources\<close>

definition sio_source ::
  "('c \<Rightarrow> bool) \<Rightarrow> ('c \<Rightarrow> u32 \<Rightarrow> (int \<times> byte list \<times> 'c) outcome) \<Rightarrow> 'c gwen_syncio \<Rightarrow> bool" where
  "sio_source good rd sio \<longleftrightarrow> sio_refCount sio \<noteq> 0 \<and> sio_readFn sio = Some rd \<and> good (sio_data sio)"

locale io_source =
  fixes good :: "'c \<Rightarrow> bool" and left :: "'c \<Rightarrow> byte list" and rd :: "'c \<Rightarrow> u32 \<Rightarrow> (int \<times> byte list \<times> 'c) outcome"
  assumes rd_law: "good d \<Longrightarrow> 0 < unat sz \<Longrightarrow> unat sz < 2147483648 \<Longrightarrow>
      \<exists>bs d'. rd d sz = Ret (int (length bs), bs, d') \<and> length bs \<le> unat sz \<and> left d = bs @ left d' \<and> good d'
        \<and> (bs = [] \<longrightarrow> left d = [])"
begin

lemma Read_ok:
  assumes "sio_source good rd sio" "0 < unat sz" "unat sz < 2147483648"
  obtains bs sio' where "GWEN_SyncIo_Read sio sz = Ret (int (length bs), bs, sio')" "same_layer sio sio'" "sio_source good rd sio'"
    "length bs \<le> unat sz" "left (sio_data sio) = bs @ left (sio_data sio')" "bs = [] \<Longrightarrow> left (sio_data sio) = []"
proof -
  from assms(1) have s: "sio_refCount sio \<noteq> 0" "sio_readFn sio = Some rd" "good (sio_data sio)" by (auto simp: sio_source_def)
  from rd_law [OF s(3) assms(2,3)] obtain bs d' where "rd (sio_data sio) sz = Ret (int (length bs), bs, d')" "length bs \<le> unat sz"
    "left (sio_data sio) = bs @ left d'" "good d'" "bs = [] \<longrightarrow> left (sio_data sio) = []" by blast
  with s show thesis
    by (intro that [of bs "sio\<lparr>sio_data := d'\<rparr>"]) (auto simp: GWEN_SyncIo_Read_def sio_alive_def sio_source_def)
qed

end

section \<open>The layer in memory\<close>

definition mem_room :: "gwen_syncio_memory \<Rightarrow> nat \<Rightarrow> bool" where
  "mem_room xio n \<longleftrightarrow> (case mem_buffer xio of None \<Rightarrow> False | Some b \<Rightarrow> room b n)"

definition mem_sent :: "gwen_syncio_memory \<Rightarrow> byte list" where
  "mem_sent xio = (case mem_buffer xio of None \<Rightarrow> [] | Some b \<Rightarrow> contents b)"

interpretation mem: io_sink mem_room mem_sent GWEN_SyncIo_Memory_Write
proof
  fix d :: gwen_syncio_memory and bs :: "byte list" and n
  assume t: "mem_room d (length bs + n)" and l: "length bs < 2147483648"
  from t obtain b where b: "mem_buffer d = Some b" "room b (length bs + n)" by (auto simp: mem_room_def split: option.splits)
  let ?sz = "of_nat (length bs) :: u32"
  have sz: "unat ?sz = length bs" "sint ?sz = int (length bs)" using l by (simp_all add: unat_of_nat_u32 sint_u32_small)
  have z: "?sz \<noteq> 0" if "bs \<noteq> []"
  proof
    assume "?sz = 0"
    then have "unat ?sz = unat (0 :: u32)" by (simp only:)
    with sz(1) that show False by simp
  qed
  obtain b' where b': "GWEN_Buffer_AppendBytes b bs ?sz = Ret (0, b')" "contents b' = contents b @ bs" "room b' n"
    using buf.appN [of b ?sz n bs] b(2) by (auto simp: sz)
  show "\<exists>k d'. GWEN_SyncIo_Memory_Write d bs = Ret (int k, d') \<and> k \<le> length bs \<and> (bs \<noteq> [] \<longrightarrow> 0 < k)
      \<and> mem_sent d' = mem_sent d @ take k bs \<and> mem_room d' (length bs - k + n)"
  proof (cases "bs = []")
    case True
    then show ?thesis using b by (auto simp: GWEN_SyncIo_Memory_Write_def mem_room_def mem_sent_def)
  next
    case False
    then show ?thesis
      using b(1) b' z [OF False] sz(2)
      by (intro exI [of _ "length bs"] exI [of _ "d\<lparr>mem_buffer := Some b'\<rparr>"])
        (simp add: GWEN_SyncIo_Memory_Write_def mem_room_def mem_sent_def)
  qed
qed

definition mem_good :: "gwen_syncio_memory \<Rightarrow> bool" where
  "mem_good xio \<longleftrightarrow> (case mem_buffer xio of None \<Rightarrow> False | Some b \<Rightarrow> buf_wf b)"

definition mem_left :: "gwen_syncio_memory \<Rightarrow> byte list" where
  "mem_left xio = (case mem_buffer xio of None \<Rightarrow> [] | Some b \<Rightarrow> drop (unat (pos b)) (contents b))"

interpretation mem: io_source mem_good mem_left GWEN_SyncIo_Memory_Read
proof
  fix d :: gwen_syncio_memory and sz :: u32
  assume g: "mem_good d" and sz: "0 < unat sz" "unat sz < 2147483648"
  from g obtain b where b: "mem_buffer d = Some b" "buf_wf b" by (auto simp: mem_good_def split: option.splits)
  note w = wf_bounds [OF b(2)]
  show "\<exists>bs d'. GWEN_SyncIo_Memory_Read d sz = Ret (int (length bs), bs, d') \<and> length bs \<le> unat sz \<and> mem_left d = bs @ mem_left d'
      \<and> mem_good d' \<and> (bs = [] \<longrightarrow> mem_left d = [])"
  proof (cases "pos b < bytesUsed b")
    case False
    then have "unat (bytesUsed b) \<le> unat (pos b)" by (simp add: word_less_nat_alt)
    then have "mem_left d = []" using b by (simp add: mem_left_def)
    then show ?thesis using b False g by (intro exI [of _ "[]"] exI [of _ d]) (simp add: GWEN_SyncIo_Memory_Read_def GWEN_Buffer_GetBytesLeft_def)
  next
    case True
    then have p: "unat (pos b) < unat (bytesUsed b)" by (simp add: word_less_nat_alt)
    let ?l = "bytesUsed b - pos b"
    have l: "unat ?l = unat (bytesUsed b) - unat (pos b)" using p by (simp add: unat_minus_u32)
    have l0: "?l \<noteq> 0" using l p by auto
    define s where "s = (if sz > ?l then ?l else sz)"
    have s: "unat s = min (unat sz) (unat ?l)" by (auto simp: s_def word_less_nat_alt)
    have s1: "0 < unat s" "unat s \<le> unat (bytesUsed b) - unat (pos b)" "unat s < 2147483648" using s sz l p by linarith+
    have np: "unat (pos b + s) = unat (pos b) + unat s"
      using s1 p unat_u32_bound [of "bytesUsed b"] by (intro unat_plus_u32) linarith
    let ?bs = "window (ptr b + unat (pos b)) (unat s) (blk b)"
    have win: "?bs = take (unat s) (drop (unat (pos b)) (contents b))"
      using s1(2) p by (simp add: contents_def drop_window take_window)
    have in_blk: "ptr b + unat (pos b) + unat s \<le> length (blk b)" using s1(2) p w(2) by linarith
    let ?d = "d\<lparr>mem_buffer := Some (b\<lparr>pos := pos b + s\<rparr>)\<rparr>"
    have "GWEN_SyncIo_Memory_Read d sz = Ret (sint s, ?bs, ?d)"
      using b(1) True l0 in_blk
      by (simp add: GWEN_SyncIo_Memory_Read_def GWEN_Buffer_GetBytesLeft_def Let_def s_def [symmetric] peek_def
          GWEN_Buffer_GetPosPointer_def GWEN_Buffer_IncrementPos_def)
    moreover have "sint s = int (length ?bs)" using s1(3) in_blk by (simp add: sint_u32_small)
    moreover have "length ?bs \<le> unat sz" using in_blk s by simp
    moreover have "mem_left d = ?bs @ mem_left ?d"
    proof -
      have "mem_left ?d = drop (unat (pos b) + unat s) (contents b)" by (simp add: mem_left_def np contents_def)
      also have "\<dots> = drop (unat s) (drop (unat (pos b)) (contents b))" by (simp add: add.commute)
      finally show ?thesis using b(1) by (simp only: win mem_left_def option.case append_take_drop_id)
    qed
    moreover have "mem_good ?d" using b by (simp add: mem_good_def buf_wf_def)
    moreover have "?bs \<noteq> []" using s1(1) in_blk by (metis length_window length_0_conv less_numeral_extra(3))
    ultimately show ?thesis by (intro exI [of _ ?bs] exI [of _ ?d]) simp
  qed
qed

end
