(* ===== verification/Gwen_FastBufferProps.thy ===== *)
theory Gwen_FastBufferProps
  imports Gwen_FastBuffer Gwen_SyncIoProps
begin

text \<open>
  A fast buffer over a sink is a sink itself: what was written and is not sent yet is kept in the block. Over a source it
  gives the lines of what the source holds.
\<close>

lemma u32_le: "(a :: u32) \<le> b \<longleftrightarrow> unat a \<le> unat b"
  by (simp add: word_le_nat_alt)

lemma of_nat_int_u32: "(of_int (int n) :: u32) = of_nat n"
  by simp

section \<open>Writing\<close>

definition fb_sink :: "('c \<Rightarrow> nat \<Rightarrow> bool) \<Rightarrow> ('c \<Rightarrow> byte list \<Rightarrow> (int \<times> 'c) outcome) \<Rightarrow> u32 \<Rightarrow> 'c gwen_fast_buffer \<Rightarrow> nat \<Rightarrow> bool" where
  "fb_sink takes wr fl fb n \<longleftrightarrow>
     sio_sink takes wr (fb_io fb) (unat (fb_bufferWritePos fb) + n) \<and> fb_flags fb = fl
     \<and> 0 < unat (fb_bufferSize fb) \<and> unat (fb_bufferSize fb) < 2147483648 \<and> unat (fb_bufferSize fb) < length (fb_buffer fb)
     \<and> unat (fb_bufferWritePos fb) \<le> unat (fb_bufferSize fb)"

definition fb_sent :: "('c \<Rightarrow> byte list) \<Rightarrow> 'c gwen_fast_buffer \<Rightarrow> byte list" where
  "fb_sent sent fb = sent (sio_data (fb_io fb)) @ take (unat (fb_bufferWritePos fb)) (fb_buffer fb)"

text \<open>The end of a line.\<close>

abbreviation fb_eol :: "u32 \<Rightarrow> byte list" where
  "fb_eol fl \<equiv> (if fl AND GWEN_FAST_BUFFER_FLAGS_DOSMODE \<noteq> 0 then [13, 10] else [10])"

context io_sink
begin

lemma FLUSH_ok:
  assumes "fb_sink takes wr fl fb n"
  obtains fb' where "GWEN_FASTBUFFER_FLUSH fb = Ret (0, fb')" "fb_sink takes wr fl fb' n" "fb_sent sent fb' = fb_sent sent fb"
    "fb_bufferWritePos fb' = 0" "same_layer (fb_io fb) (fb_io fb')" "fb_bufferSize fb' = fb_bufferSize fb"
    "fb' = fb\<lparr>fb_io := fb_io fb', fb_bufferWritePos := 0\<rparr>"
proof -
  let ?w = "unat (fb_bufferWritePos fb)" and ?bs = "take (unat (fb_bufferWritePos fb)) (fb_buffer fb)"
  from assms have s: "sio_sink takes wr (fb_io fb) (?w + n)" "?w \<le> length (fb_buffer fb)" "?w < 2147483648"
    by (auto simp: fb_sink_def)
  have len: "length ?bs = ?w" using s(2) by simp
  from WriteForced_ok [of "fb_io fb" ?bs n] s(1) len obtain io where
    io: "GWEN_SyncIo_WriteForced (fb_io fb) ?bs = Ret (int ?w, io)" "same_layer (fb_io fb) io"
      "sent (sio_data io) = sent (sio_data (fb_io fb)) @ ?bs" "sio_sink takes wr io n" by auto
  have "GWEN_FASTBUFFER_FLUSH fb = Ret (0, fb\<lparr>fb_io := io, fb_bufferWritePos := 0\<rparr>)"
    using io(1) s(2,3) by (simp add: GWEN_FASTBUFFER_FLUSH_def sint_u32_small)
  then show thesis
    by (rule that) (use assms io in \<open>auto simp: fb_sink_def fb_sent_def\<close>)
qed

lemma make_room_ok:
  assumes "fb_sink takes wr fl fb n"
  obtains fb' where "fb_make_room fb = Ret (0, fb')" "fb_sink takes wr fl fb' n" "fb_sent sent fb' = fb_sent sent fb"
    "unat (fb_bufferWritePos fb') < unat (fb_bufferSize fb')"
proof (cases "fb_bufferWritePos fb \<ge> fb_bufferSize fb")
  case True
  obtain fb' where f: "GWEN_FASTBUFFER_FLUSH fb = Ret (0, fb')" "fb_sink takes wr fl fb' n" "fb_sent sent fb' = fb_sent sent fb"
    "fb_bufferWritePos fb' = 0" by (rule FLUSH_ok [OF assms])
  then show thesis using True by (intro that [of fb']) (auto simp: fb_make_room_def fb_sink_def)
next
  case False
  then show thesis using assms by (intro that [of fb]) (auto simp: fb_make_room_def u32_le)
qed

lemma block_put_ok:
  assumes "fb_sink takes wr fl fb (length bs + n)" "unat (fb_bufferWritePos fb) + length bs \<le> unat (fb_bufferSize fb)"
  obtains fb' where "fb_put fb bs = Ret fb'" "fb_sink takes wr fl fb' n" "fb_sent sent fb' = fb_sent sent fb @ bs"
proof -
  let ?w = "unat (fb_bufferWritePos fb)"
  have fits: "?w + length bs \<le> length (fb_buffer fb)" using assms by (auto simp: fb_sink_def)
  have w: "unat (fb_bufferWritePos fb + of_nat (length bs)) = ?w + length bs"
  proof -
    have "unat (of_nat (length bs) :: u32) = length bs"
      using assms by (intro unat_of_nat_u32) (auto simp: fb_sink_def)
    then show ?thesis using assms by (subst unat_plus_u32) (auto simp: fb_sink_def)
  qed
  have t: "take (?w + length bs) (write_at ?w bs (fb_buffer fb)) = take ?w (fb_buffer fb) @ bs"
    using fits by (intro nth_equalityI) (auto simp: nth_write_at nth_append)
  define fb' where "fb' = fb\<lparr>fb_buffer := write_at ?w bs (fb_buffer fb), fb_bufferWritePos := fb_bufferWritePos fb + of_nat (length bs),
    fb_bytesWritten := fb_bytesWritten fb + of_nat (length bs)\<rparr>"
  have "fb_put fb bs = Ret fb'" using fits by (simp add: fb_put_def fb'_def)
  moreover have "fb_sink takes wr fl fb' n" using assms fits w by (simp add: fb_sink_def fb'_def add.assoc)
  moreover have "fb_sent sent fb' = fb_sent sent fb @ bs" using w t by (simp add: fb_sent_def fb'_def)
  ultimately show thesis by (rule that)
qed

lemma WRITEBYTE_ok:
  assumes "fb_sink takes wr fl fb (Suc n)"
  shows "\<exists>fb'. GWEN_FASTBUFFER_WRITEBYTE fb c = Ret (0, fb') \<and> fb_sent sent fb' = fb_sent sent fb @ [c] \<and> fb_sink takes wr fl fb' n"
proof -
  obtain fb1 where r: "fb_make_room fb = Ret (0, fb1)" "fb_sink takes wr fl fb1 (Suc n)" "fb_sent sent fb1 = fb_sent sent fb"
    "unat (fb_bufferWritePos fb1) < unat (fb_bufferSize fb1)" by (rule make_room_ok [OF assms])
  obtain fb2 where p: "fb_put fb1 [c] = Ret fb2" "fb_sink takes wr fl fb2 n" "fb_sent sent fb2 = fb_sent sent fb1 @ [c]"
    by (rule block_put_ok [of fl fb1 "[c]" n]) (use r in auto)
  have "GWEN_FASTBUFFER_WRITEBYTE fb c = Ret (0, fb2)"
  proof (cases "fb_bufferWritePos fb \<ge> fb_bufferSize fb")
    case True
    obtain fb' where f: "GWEN_FASTBUFFER_FLUSH fb = Ret (0, fb')" "fb_bufferWritePos fb' = 0"
      "fb' = fb\<lparr>fb_io := fb_io fb', fb_bufferWritePos := 0\<rparr>"
      by (rule FLUSH_ok [OF assms])
    have "fb' = fb1" using True r(1) f(1) by (simp add: fb_make_room_def)
    let ?m = "if unat (fb_bufferWritePos fb) \<le> length (fb_buffer fb)
      then GWEN_SyncIo_WriteForced (fb_io fb) (take (unat (fb_bufferWritePos fb)) (fb_buffer fb)) else Fault"
    obtain rv io where m: "?m = Ret (rv, io)" using f(1) unfolding GWEN_FASTBUFFER_FLUSH_def by (cases ?m) auto
    have w0: "0 < unat (fb_bufferWritePos fb)" using True assms by (auto simp: fb_sink_def u32_le)
    have "\<not> rv < sint (fb_bufferWritePos fb)"
    proof
      assume lt: "rv < sint (fb_bufferWritePos fb)"
      then have "fb' = fb\<lparr>fb_io := io\<rparr>" using f(1) m unfolding GWEN_FASTBUFFER_FLUSH_def by simp
      then show False using f(2) w0 by simp
    qed
    then show ?thesis using True m p(1) f(1) \<open>fb' = fb1\<close> unfolding GWEN_FASTBUFFER_WRITEBYTE_def GWEN_FASTBUFFER_FLUSH_def by auto
  next
    case False
    then show ?thesis using r(1) p(1) by (simp add: GWEN_FASTBUFFER_WRITEBYTE_def fb_make_room_def)
  qed
  then show ?thesis using p r(3) by auto
qed

lemma WRITEBYTES_ok:
  assumes "fb_sink takes wr fl fb (m + n)" "m \<le> length p"
  obtains k fb' where "GWEN_FASTBUFFER_WRITEBYTES fb p (int m) = Ret (int k, fb')" "k \<le> m" "0 < m \<longrightarrow> 0 < k"
    "fb_sent sent fb' = fb_sent sent fb @ take k p" "fb_sink takes wr fl fb' (m - k + n)"
proof -
  obtain fb1 where r: "fb_make_room fb = Ret (0, fb1)" "fb_sink takes wr fl fb1 (m + n)" "fb_sent sent fb1 = fb_sent sent fb"
    "unat (fb_bufferWritePos fb1) < unat (fb_bufferSize fb1)" by (rule make_room_ok [OF assms(1)])
  let ?f = "unat (fb_bufferSize fb1) - unat (fb_bufferWritePos fb1)"
  have free: "sint (fb_bufferSize fb1 - fb_bufferWritePos fb1) = int ?f"
    using r(2,4) by (subst sint_diff_u32) (auto simp: fb_sink_def)
  define k where "k = min ?f m"
  have k: "k \<le> m" "k \<le> length p" "0 < m \<longrightarrow> 0 < k" "unat (fb_bufferWritePos fb1) + k \<le> unat (fb_bufferSize fb1)"
    using r(4) assms(2) by (auto simp: k_def)
  obtain fb2 where p: "fb_put fb1 (take k p) = Ret fb2" "fb_sink takes wr fl fb2 (m - k + n)"
    "fb_sent sent fb2 = fb_sent sent fb1 @ take k p"
    by (rule block_put_ok [of fl fb1 "take k p" "m - k + n"]) (use r(2) k in auto)
  have l: "fb_len p (int m) = Ret (int m)" by (simp add: fb_len_def)
  have b: "min (sint (fb_bufferSize fb1 - fb_bufferWritePos fb1)) (int m) = int k" by (simp only: free k_def of_nat_min)
  have "GWEN_FASTBUFFER_WRITEBYTES fb p (int m) = Ret (int k, fb2)"
    unfolding GWEN_FASTBUFFER_WRITEBYTES_def l r(1) obind.simps prod.case b Let_def using p(1) k(2) by simp
  then show thesis using k p r(3) by (intro that) auto
qed

lemma fb_write_all_ok:
  assumes "fb_sink takes wr fl fb (m + n)" "m \<le> length p" "m \<le> k"
  shows "\<exists>fb'. fb_write_all k fb p (int m) = Ret (0, fb') \<and> fb_sent sent fb' = fb_sent sent fb @ take m p \<and> fb_sink takes wr fl fb' n"
  using assms
proof (induction k arbitrary: fb p m)
  case (Suc k)
  show ?case
  proof (cases "m = 0")
    case False
    obtain j fb1 where w: "GWEN_FASTBUFFER_WRITEBYTES fb p (int m) = Ret (int j, fb1)" "j \<le> m" "0 < m \<longrightarrow> 0 < j"
      "fb_sent sent fb1 = fb_sent sent fb @ take j p" "fb_sink takes wr fl fb1 (m - j + n)"
      by (rule WRITEBYTES_ok [OF Suc.prems(1,2)])
    have l: "m - j \<le> length (drop j p)" "m - j \<le> k" using Suc.prems(2,3) w(3) False by simp_all
    from Suc.IH [OF w(5) l] obtain fb2 where i: "fb_write_all k fb1 (drop j p) (int (m - j)) = Ret (0, fb2)"
      "fb_sent sent fb2 = fb_sent sent fb1 @ take (m - j) (drop j p)" "fb_sink takes wr fl fb2 n" by blast
    have "take m p = take j p @ take (m - j) (drop j p)" using w(2) by (metis le_add_diff_inverse take_add)
    moreover have "fb_write_all (Suc k) fb p (int m) = Ret (0, fb2)"
    proof -
      have e: "int m - int j = int (m - j)" using w(2) by simp
      have "fb_write_all (Suc k) fb p (int m) = fb_write_all k fb1 (drop j p) (int m - int j)" using False w(1,3) by simp
      also have "\<dots> = Ret (0, fb2)" using i(1) by (simp only: e)
      finally show ?thesis .
    qed
    ultimately show ?thesis using w(4) i(2,3) by auto
  qed (use Suc.prems in simp)
qed simp

lemma WRITEFORCED_ok:
  assumes "fb_sink takes wr fl fb (m + n)" "m \<le> length p"
  shows "\<exists>fb'. GWEN_FASTBUFFER_WRITEFORCED fb p (int m) = Ret (0, fb') \<and> fb_sent sent fb' = fb_sent sent fb @ take m p
    \<and> fb_sink takes wr fl fb' n"
  using fb_write_all_ok [OF assms, of m] by (simp add: GWEN_FASTBUFFER_WRITEFORCED_def fb_len_def)

lemma write_text_ok:
  assumes "fb_sink takes wr fl fb (length s + n)" "0 \<notin> set s"
  shows "\<exists>fb'. fb_write_text fb s = Ret (0, fb') \<and> fb_sent sent fb' = fb_sent sent fb @ s \<and> fb_sink takes wr fl fb' n"
proof -
  have l: "strlen (s @ [0]) = length s" using assms(2) by (intro strlen_digits) (auto simp: list_all_iff)
  have "length s < 2147483648" using assms(1) by (auto simp: fb_sink_def sio_sink_def)
  then have "sint (of_nat (length s) :: u32) = int (length s)" by (simp add: sint_u32_small unat_of_nat_u32)
  then have "fb_len (s @ [0]) (-1) = Ret (int (length s))" by (simp add: fb_len_def l)
  then show ?thesis
    using fb_write_all_ok [OF assms(1), of "s @ [0]" "length s"]
    by (simp add: fb_write_text_def GWEN_FASTBUFFER_WRITEFORCED_def)
qed

lemma WRITELINE_ok:
  assumes "fb_sink takes wr fl fb (length s + length (fb_eol fl) + n)" "0 \<notin> set s"
  shows "\<exists>fb'. GWEN_FASTBUFFER_WRITELINE fb s = Ret (0, fb') \<and> fb_sent sent fb' = fb_sent sent fb @ s @ fb_eol fl
    \<and> fb_sink takes wr fl fb' n"
proof -
  from write_text_ok [of fl fb s "length (fb_eol fl) + n"] assms obtain fb1 where
    w: "fb_write_text fb s = Ret (0, fb1)" "fb_sent sent fb1 = fb_sent sent fb @ s" "fb_sink takes wr fl fb1 (length (fb_eol fl) + n)"
    by (auto simp: add.assoc)
  have "fb_flags fb1 = fl" using w(3) by (simp add: fb_sink_def)
  with WRITEFORCED_ok [OF w(3), of "fb_eol fl"] w(1,2) show ?thesis
    by (auto simp: GWEN_FASTBUFFER_WRITELINE_def split: if_splits)
qed

end

text \<open>Over the layer in memory the fast buffer is a sink for bytes and blocks.\<close>

interpretation mfb: block_sink "fb_sink mem_room GWEN_SyncIo_Memory_Write fl" "fb_sent mem_sent" GWEN_FASTBUFFER_WRITEBYTE
    "\<lambda>fb p sz. GWEN_FASTBUFFER_WRITEFORCED fb p (int (unat sz))" for fl
proof
  fix fb :: "gwen_syncio_memory gwen_fast_buffer" and n c
  assume "fb_sink mem_room GWEN_SyncIo_Memory_Write fl fb (Suc n)"
  from mem.WRITEBYTE_ok [OF this] show "\<exists>fb'. GWEN_FASTBUFFER_WRITEBYTE fb c = Ret (0, fb')
      \<and> fb_sent mem_sent fb' = fb_sent mem_sent fb @ [c] \<and> fb_sink mem_room GWEN_SyncIo_Memory_Write fl fb' n" by blast
next
  fix fb :: "gwen_syncio_memory gwen_fast_buffer" and sz :: u32 and n and src :: "byte list"
  assume "fb_sink mem_room GWEN_SyncIo_Memory_Write fl fb (unat sz + n)" "unat sz \<le> length src"
  from mem.WRITEFORCED_ok [OF this] show "\<exists>fb'. GWEN_FASTBUFFER_WRITEFORCED fb src (int (unat sz)) = Ret (0, fb')
      \<and> fb_sent mem_sent fb' = fb_sent mem_sent fb @ take (unat sz) src \<and> fb_sink mem_room GWEN_SyncIo_Memory_Write fl fb' n" by blast
qed

end
