(* ===== verification/Gwen_FastBufferLines.thy ===== *)
theory Gwen_FastBufferLines
  imports Gwen_FastBufferProps
begin

text \<open>
  Reading lines: over a source, the loop of \<^verbatim>\<open>GWEN_FastBuffer_ReadLineToBuffer\<close> gives what stands in front of the next line
  feed without its carriage returns, whatever blocks the source delivers its bytes in.
\<close>

section \<open>What a destination promises\<close>

locale line_dest =
  fixes hasRoom :: "'b \<Rightarrow> nat \<Rightarrow> bool" and content :: "'b \<Rightarrow> byte list" and app :: "'b \<Rightarrow> byte list \<Rightarrow> 'b outcome"
  assumes app: "hasRoom b (length bs + n) \<Longrightarrow> \<exists>b'. app b bs = Ret b' \<and> content b' = content b @ bs \<and> hasRoom b' n"

text \<open>A buffer is one, and so is a text that is kept as a list.\<close>

interpretation bufline: line_dest room contents "\<lambda>buf bs. obind (GWEN_Buffer_AppendBytes buf bs (of_nat (length bs))) (\<lambda>(_, buf). Ret buf)"
proof
  fix b and bs :: "byte list" and n
  assume "room b (length bs + n)"
  moreover from this have "unat (of_nat (length bs) :: u32) = length bs" by (intro unat_of_nat_u32) (auto simp: room_def)
  ultimately
  show "\<exists>b'. obind (GWEN_Buffer_AppendBytes b bs (of_nat (length bs))) (\<lambda>(_, buf). Ret buf) = Ret b'
      \<and> contents b' = contents b @ bs \<and> room b' n"
    using buf.appN [of b "of_nat (length bs)" n bs] by auto
qed

interpretation txtline: line_dest "\<lambda>_ _. True" "\<lambda>x :: byte list. x" "\<lambda>x bs. Ret (x @ bs)"
  by unfold_locales simp

section \<open>The state of a reader\<close>

definition fb_source ::
  "('c \<Rightarrow> bool) \<Rightarrow> ('c \<Rightarrow> u32 \<Rightarrow> (int \<times> byte list \<times> 'c) outcome) \<Rightarrow> nat \<Rightarrow> 'c gwen_fast_buffer \<Rightarrow> bool" where
  "fb_source good rd r fb \<longleftrightarrow>
     sio_source good rd (fb_io fb) \<and> sio_rounds (fb_io fb) = r
     \<and> 0 < unat (fb_bufferSize fb) \<and> unat (fb_bufferSize fb) < 2147483648 \<and> unat (fb_bufferSize fb) < length (fb_buffer fb)
     \<and> unat (fb_bufferReadPos fb) \<le> unat (fb_bufferWritePos fb) \<and> unat (fb_bufferWritePos fb) \<le> unat (fb_bufferSize fb)"

definition fb_avail :: "'c gwen_fast_buffer \<Rightarrow> byte list" where
  "fb_avail fb = window (unat (fb_bufferReadPos fb)) (unat (fb_bufferWritePos fb) - unat (fb_bufferReadPos fb)) (fb_buffer fb)"

definition fb_left :: "('c \<Rightarrow> byte list) \<Rightarrow> 'c gwen_fast_buffer \<Rightarrow> byte list" where
  "fb_left left fb = fb_avail fb @ left (sio_data (fb_io fb))"

definition fb_moved :: "nat \<Rightarrow> 'c gwen_fast_buffer \<Rightarrow> 'c gwen_fast_buffer" where
  "fb_moved m fb = fb\<lparr>fb_bufferReadPos := fb_bufferReadPos fb + of_nat m, fb_bytesRead := fb_bytesRead fb + of_nat m\<rparr>"

lemma length_avail:
  "fb_source good rd r fb \<Longrightarrow> length (fb_avail fb) = unat (fb_bufferWritePos fb) - unat (fb_bufferReadPos fb)"
  by (auto simp: fb_avail_def fb_source_def)

lemma moved_readPos:
  assumes "fb_source good rd r fb" "m \<le> length (fb_avail fb)"
  shows "unat (fb_bufferReadPos (fb_moved m fb)) = unat (fb_bufferReadPos fb) + m"
proof -
  have "unat (of_nat m :: u32) = m" using assms length_avail [OF assms(1)] by (intro unat_of_nat_u32) (auto simp: fb_source_def)
  then show ?thesis
    using assms length_avail [OF assms(1)] by (simp add: fb_moved_def) (subst unat_plus_u32; auto simp: fb_source_def)
qed

lemma moved_ok:
  assumes "fb_source good rd r fb" "m \<le> length (fb_avail fb)"
  shows "fb_source good rd r (fb_moved m fb)" "fb_avail (fb_moved m fb) = drop m (fb_avail fb)"
    "fb_left left (fb_moved m fb) = drop m (fb_left left fb)"
proof -
  note p = moved_readPos [OF assms]
  have f: "fb_bufferWritePos (fb_moved m fb) = fb_bufferWritePos fb" "fb_buffer (fb_moved m fb) = fb_buffer fb"
    "fb_io (fb_moved m fb) = fb_io fb" "fb_bufferSize (fb_moved m fb) = fb_bufferSize fb" by (simp_all add: fb_moved_def)
  show "fb_source good rd r (fb_moved m fb)"
    using assms length_avail [OF assms(1)] by (auto simp: fb_source_def f p)
  show a: "fb_avail (fb_moved m fb) = drop m (fb_avail fb)"
    using assms(2) by (simp add: fb_avail_def f p drop_window)
  show "fb_left left (fb_moved m fb) = drop m (fb_left left fb)"
    using assms(2) by (simp add: fb_left_def a f)
qed

lemma moved_moved: "fb_moved j (fb_moved i fb) = fb_moved (i + j) fb"
  by (simp add: fb_moved_def add.assoc)

lemma moved_0: "fb_moved 0 fb = fb"
  by (simp add: fb_moved_def)

lemma step_ok:
  assumes "fb_source good rd r fb" "fb_avail fb = c # cs"
  shows "fb_step fb = Ret (c, fb_moved 1 fb)"
proof -
  have l: "unat (fb_bufferReadPos fb) < unat (fb_bufferWritePos fb)" using assms(2) length_avail [OF assms(1)] by auto
  then have "fb_buffer fb ! unat (fb_bufferReadPos fb) = c"
    using assms nth_window [of 0 "unat (fb_bufferWritePos fb) - unat (fb_bufferReadPos fb)" "unat (fb_bufferReadPos fb)" "fb_buffer fb"]
    by (auto simp: fb_avail_def fb_source_def)
  then show ?thesis using l assms(1) by (auto simp: fb_step_def fb_cur_def fb_source_def fb_moved_def)
qed

text \<open>The scan stops behind the first line feed or carriage return.\<close>

abbreviation line_end :: "byte \<Rightarrow> bool" where
  "line_end c \<equiv> c = 10 \<or> c = 13"

lemma scan_ok:
  assumes "fb_source good rd r fb" "fb_avail fb = ys @ zs" "\<forall>c \<in> set ys. \<not> line_end c" "zs = [] \<or> line_end (hd zs)"
  shows "fb_scan (length (ys @ zs)) fb k =
    Ret (zs \<noteq> [] \<and> hd zs = 10, k + length ys, fb_moved (length ys + (if zs = [] then 0 else 1)) fb)"
  using assms
proof (induction ys arbitrary: fb k)
  case Nil
  show ?case
  proof (cases zs)
    case (Cons z zs')
    have "fb_step fb = Ret (z, fb_moved 1 fb)" using step_ok [OF Nil(1)] Nil(2) Cons by simp
    then show ?thesis using Nil(4) Cons by auto
  qed (simp add: moved_0)
next
  case (Cons y ys)
  have s: "fb_step fb = Ret (y, fb_moved 1 fb)" using step_ok [OF Cons.prems(1)] Cons.prems(2) by simp
  have l: "1 \<le> length (fb_avail fb)" using Cons.prems(2) by simp
  have a: "fb_avail (fb_moved 1 fb) = ys @ zs" using moved_ok(2) [OF Cons.prems(1) l] Cons.prems(2) by simp
  have "\<forall>c \<in> set ys. \<not> line_end c" using Cons.prems(3) by simp
  from Cons.IH [OF moved_ok(1) [OF Cons.prems(1) l] a this Cons.prems(4), of "k + 1"]
  show ?case using s Cons.prems(3) by (simp add: moved_moved)
qed

section \<open>The next line\<close>

definition line_text :: "byte list \<Rightarrow> byte list" where
  "line_text bs = filter (\<lambda>c. c \<noteq> 13) (takeWhile (\<lambda>c. c \<noteq> 10) bs)"

definition line_rest :: "byte list \<Rightarrow> byte list" where
  "line_rest bs = tl (dropWhile (\<lambda>c. c \<noteq> 10) bs)"

lemma line_split:
  assumes "\<forall>c \<in> set ys. \<not> line_end c"
  shows "line_text (ys @ zs) = ys @ line_text zs" "line_rest (ys @ zs) = line_rest zs"
proof -
  have "\<forall>c \<in> set ys. c \<noteq> 10" using assms by auto
  moreover have "filter (\<lambda>c. c \<noteq> 13) ys = ys" using assms by (intro filter_True) auto
  ultimately show "line_text (ys @ zs) = ys @ line_text zs" "line_rest (ys @ zs) = line_rest zs"
    by (simp_all add: line_text_def line_rest_def takeWhile_append2 dropWhile_append2)
qed

lemma line_simps [simp]:
  "line_text [] = []" "line_rest [] = []" "line_text (10 # bs) = []" "line_rest (10 # bs) = bs"
  "line_text (13 # bs) = line_text bs" "line_rest (13 # bs) = line_rest bs"
  by (simp_all add: line_text_def line_rest_def)

locale line_reader = io_source + line_dest
begin

lemma load_ok:
  assumes "fb_source good rd r fb" "fb_bufferReadPos fb \<ge> fb_bufferWritePos fb"
  obtains (empty) fb' where "fb_left left fb = []" "fb_load fb = Ret (0, fb')" "fb_source good rd r fb'" "fb_left left fb' = []" "fb_avail fb' = []"
  | (bytes) rv fb' where "fb_load fb = Ret (rv, fb')" "0 < rv"
      "fb_source good rd r (fb'\<lparr>fb_bufferWritePos := of_int rv, fb_bufferReadPos := 0\<rparr>)"
      "fb_left left (fb'\<lparr>fb_bufferWritePos := of_int rv, fb_bufferReadPos := 0\<rparr>) = fb_left left fb"
      "fb_avail (fb'\<lparr>fb_bufferWritePos := of_int rv, fb_bufferReadPos := 0\<rparr>) \<noteq> []"
proof -
  from assms(1) have s: "sio_source good rd (fb_io fb)" "0 < unat (fb_bufferSize fb)" "unat (fb_bufferSize fb) < 2147483648"
    "unat (fb_bufferSize fb) < length (fb_buffer fb)" by (auto simp: fb_source_def)
  have av: "fb_avail fb = []" using assms length_avail [OF assms(1)] by (auto simp: u32_le)
  obtain bs io where rd: "GWEN_SyncIo_Read (fb_io fb) (fb_bufferSize fb) = Ret (int (length bs), bs, io)" "same_layer (fb_io fb) io"
    "sio_source good rd io" "length bs \<le> unat (fb_bufferSize fb)"
    "left (sio_data (fb_io fb)) = bs @ left (sio_data io)" "bs = [] \<Longrightarrow> left (sio_data (fb_io fb)) = []"
    by (rule Read_ok [OF s(1-3)]) blast
  let ?fb = "fb\<lparr>fb_io := io, fb_buffer := write_at 0 bs (fb_buffer fb)\<rparr>"
  have ld: "fb_load fb = Ret (int (length bs), ?fb)" using rd(1,4) s(4) by (simp add: fb_load_def)
  have len: "length (write_at 0 bs (fb_buffer fb)) = length (fb_buffer fb)" using rd(4) s(4) by simp
  show thesis
  proof (cases "bs = []")
    case True
    have "fb_left left fb = []" using rd(6) True av by (simp add: fb_left_def)
    moreover have "fb_source good rd r ?fb" "fb_avail ?fb = []"
      using assms(1) rd(2,3) True av by (auto simp: fb_source_def fb_avail_def dest: same_layerD)
    moreover have "fb_left left ?fb = []" using rd(5,6) True calculation(3) by (simp add: fb_left_def)
    ultimately show thesis using ld True that(1) by simp
  next
    case False
    let ?g = "?fb\<lparr>fb_bufferWritePos := of_int (int (length bs)), fb_bufferReadPos := 0\<rparr>"
    have w: "unat (of_nat (length bs) :: u32) = length bs" using rd(4) s(3) by (intro unat_of_nat_u32) linarith
    have a: "fb_avail ?g = bs"
      using rd(4) s(4) window_write_at_same [of 0 bs "fb_buffer fb"] by (simp add: fb_avail_def w)
    have "fb_source good rd r ?g" using assms(1) rd(2-4) by (auto simp: fb_source_def w len dest: same_layerD)
    moreover have "fb_left left ?g = fb_left left fb" using a av rd(5) by (simp add: fb_left_def)
    ultimately show thesis using ld False a by (intro that(2)) auto
  qed
qed

lemma read_line:
  assumes "fb_source good rd r fb" "length (fb_left left fb) < k" "hasRoom b (length (fb_left left fb) + n)"
  shows "\<exists>fb' b'. fb_read_line app k hadSome fb b = Ret (if fb_left left fb = [] \<and> \<not> hadSome then GWEN_ERROR_EOF else 0, fb', b')
    \<and> fb_source good rd r fb' \<and> fb_left left fb' = line_rest (fb_left left fb) \<and> content b' = content b @ line_text (fb_left left fb)"
  using assms
proof (induction k arbitrary: fb b hadSome n)
  case (Suc k)
  text \<open>The rest of a round, when there are bytes in the block.\<close>
  have round: "\<exists>fb' b'. (let bytes = sint (fb_bufferWritePos g - fb_bufferReadPos g); p = unat (fb_bufferReadPos g)
           in if bytes < 0 then Fault
              else obind (fb_scan (nat bytes) g 0) (\<lambda>(found, copied, fb).
                   obind (if copied \<noteq> 0 then app b (window p copied (fb_buffer fb)) else Ret b) (\<lambda>buf.
                     if False \<or> found then Ret (0, fb, buf)
                     else fb_read_line app k (hadSome \<or> bytes \<noteq> 0) fb buf))) = Ret (0, fb', b')
      \<and> fb_source good rd r fb' \<and> fb_left left fb' = line_rest (fb_left left fb) \<and> content b' = content b @ line_text (fb_left left fb)"
    if g: "fb_source good rd r g" "fb_left left g = fb_left left fb" "fb_avail g \<noteq> []" for g
  proof -
    define ys where "ys = takeWhile (\<lambda>c. \<not> line_end c) (fb_avail g)"
    define zs where "zs = dropWhile (\<lambda>c. \<not> line_end c) (fb_avail g)"
    have a: "fb_avail g = ys @ zs" by (simp add: ys_def zs_def)
    have y: "\<forall>c \<in> set ys. \<not> line_end c" by (auto simp: ys_def dest: set_takeWhileD)
    have z: "zs = [] \<or> line_end (hd zs)" using hd_dropWhile [of "\<lambda>c. \<not> line_end c" "fb_avail g"] by (auto simp: zs_def)
    have len: "length (ys @ zs) = unat (fb_bufferWritePos g) - unat (fb_bufferReadPos g)" using length_avail [OF g(1)] a by simp
    define N where "N = length (ys @ zs)"
    have bytes: "sint (fb_bufferWritePos g - fb_bufferReadPos g) = int N"
      using g(1) len unfolding N_def [symmetric] by (subst sint_diff_u32) (auto simp: fb_source_def)
    define m where "m = length ys + (if zs = [] then 0 else 1)"
    have m: "m \<le> length (fb_avail g)" "0 < m" using g(3) a by (auto simp: m_def Suc_le_eq)
    note mv = moved_ok [OF g(1) m(1)]
    have win: "window (unat (fb_bufferReadPos g)) (length ys) (fb_buffer g) = ys"
      using len a take_window [of "length ys" "unat (fb_bufferWritePos g) - unat (fb_bufferReadPos g)" "unat (fb_bufferReadPos g)" "fb_buffer g"]
      by (simp add: fb_avail_def)
    have buf: "fb_buffer (fb_moved m g) = fb_buffer g" by (simp add: fb_moved_def)
    have left: "fb_left left fb = ys @ zs @ left (sio_data (fb_io g))" using g(2) a by (simp add: fb_left_def)
    let ?L = "zs @ left (sio_data (fb_io g))"
    have room: "hasRoom b (length ys + (length (drop m (fb_left left fb)) + (m - length ys + n)))"
      using Suc.prems(3) left a m(1) by (simp add: m_def add.assoc split: if_splits)
    from app [OF room] obtain b1 where b1: "app b ys = Ret b1" "content b1 = content b @ ys"
      "hasRoom b1 (length (drop m (fb_left left fb)) + (m - length ys + n))" by blast
    define b2 where "b2 = (if ys = [] then b else b1)"
    have b2: "(if length ys \<noteq> 0 then app b ys else Ret b) = Ret b2" "content b2 = content b @ ys"
      "hasRoom b2 (length (drop m (fb_left left fb)) + (m - length ys + n))"
      using b1 room by (auto simp: b2_def)
    have N: "N \<noteq> 0" using g(3) a by (simp add: N_def)
    have scan: "fb_scan N g 0 = Ret (zs \<noteq> [] \<and> hd zs = 10, length ys, fb_moved m g)"
      using scan_ok [OF g(1) a y z, of 0] unfolding N_def m_def by simp
    have dest: "(if length ys \<noteq> 0 then app b (window (unat (fb_bufferReadPos g)) (length ys) (fb_buffer (fb_moved m g))) else Ret b) = Ret b2"
      using b2(1) by (simp only: win buf)
    have body: "(let bytes = sint (fb_bufferWritePos g - fb_bufferReadPos g); p = unat (fb_bufferReadPos g)
           in if bytes < 0 then Fault
              else obind (fb_scan (nat bytes) g 0) (\<lambda>(found, copied, fb).
                   obind (if copied \<noteq> 0 then app b (window p copied (fb_buffer fb)) else Ret b) (\<lambda>buf.
                     if False \<or> found then Ret (0, fb, buf)
                     else fb_read_line app k (hadSome \<or> bytes \<noteq> 0) fb buf)))
        = (if zs \<noteq> [] \<and> hd zs = 10 then Ret (0, fb_moved m g, b2) else fb_read_line app k True (fb_moved m g) b2)"
      using N by (simp add: bytes scan dest [simplified] Let_def split del: if_split) simp
    note sp = line_split [OF y, of ?L]
    show ?thesis
    proof (cases "zs \<noteq> [] \<and> hd zs = 10")
      case True
      then obtain zs' where zs: "zs = 10 # zs'" by (cases zs) auto
      then show ?thesis using body mv b2(2) sp left g(2) by (simp add: m_def)
    next
      case False
      have short: "length (fb_left left (fb_moved m g)) < k"
      proof -
        have "0 < length (fb_left left g)" using g(3) by (simp add: fb_left_def)
        moreover have "length (fb_left left (fb_moved m g)) = length (fb_left left g) - m" by (simp only: mv(3) length_drop)
        ultimately show ?thesis using Suc.prems(2) m(2) unfolding g(2) by linarith
      qed
      have tl: "line_text (drop m (fb_left left fb)) = line_text ?L" "line_rest (drop m (fb_left left fb)) = line_rest ?L"
        using False z left by (cases zs; auto simp: m_def)+
      have room: "hasRoom b2 (length (fb_left left (fb_moved m g)) + (m - length ys + n))" using b2(3) mv(3) g(2) by simp
      from Suc.IH [OF mv(1) short room, of True]
      show ?thesis using body False b2(2) sp left g(2) tl by (auto simp: mv(3))
    qed
  qed
  show ?case
  proof (cases "fb_bufferReadPos fb \<ge> fb_bufferWritePos fb")
    case False
    then have "fb_avail fb \<noteq> []" using length_avail [OF Suc.prems(1)] by (auto simp: u32_le)
    moreover from this have "fb_left left fb \<noteq> []" by (simp add: fb_left_def)
    ultimately show ?thesis using round [OF Suc.prems(1) refl] False by simp
  next
    case True
    show ?thesis
    proof (cases rule: load_ok [OF Suc.prems(1) True])
      case l: (1 fb')
      have "unat (fb_bufferWritePos fb') = unat (fb_bufferReadPos fb')"
        using l(3,5) length_avail [OF l(3)] by (auto simp: fb_source_def)
      then have "sint (fb_bufferWritePos fb' - fb_bufferReadPos fb') = 0" by (simp add: word_unat_eq_iff [symmetric])
      then show ?thesis using True l by (simp add: gwen_errors)
    next
      case l: (2 rv fb')
      define g where "g = fb'\<lparr>fb_bufferWritePos := of_int rv, fb_bufferReadPos := 0\<rparr>"
      have "fb_left left fb \<noteq> []" using l(4,5) by (auto simp: fb_left_def)
      moreover have rv: "(rv < 0) = False" "(rv = 0) = False" using l(2) by simp_all
      ultimately show ?thesis
        using round [OF l(3-5)] by (simp only: fb_read_line.simps True l(1) rv g_def [symmetric] if_True if_False obind.simps prod.case sum.case) simp
    qed
  qed
qed simp

end

text \<open>Both destinations over the layer in memory.\<close>

interpretation memtext: line_reader mem_good mem_left GWEN_SyncIo_Memory_Read "\<lambda>_ _. True" "\<lambda>x :: byte list. x" "\<lambda>x bs. Ret (x @ bs)" ..

interpretation membuf: line_reader mem_good mem_left GWEN_SyncIo_Memory_Read room contents
  "\<lambda>buf bs. obind (GWEN_Buffer_AppendBytes buf bs (of_nat (length bs))) (\<lambda>(_, buf). Ret buf)" ..

end
