(* ===== verification/Gwen_DBText.thy ===== *)
theory Gwen_DBText
  imports Gwen_FastBuffer Gwen_DBOps
begin

text \<open>
  Configuration trees as text, \<^verbatim>\<open>src/parser/dbrw.c\<close>: a group is written line by line through a fast buffer, and read back line
  by line. The buffers that the code creates for a name, a value or a line are represented by the text in them; memory for them is
  taken to be available. A tree is read into at a position, as in Gwen\_DB.
\<close>

definition GWEN_DB_FLAGS_ALLOW_EMPTY_STREAM :: u32 where "GWEN_DB_FLAGS_ALLOW_EMPTY_STREAM = 0x00008000"
definition GWEN_DB_FLAGS_QUOTE_VARNAMES :: u32 where "GWEN_DB_FLAGS_QUOTE_VARNAMES = 0x00040000"
definition GWEN_DB_FLAGS_QUOTE_VALUES :: u32 where "GWEN_DB_FLAGS_QUOTE_VALUES = 0x00080000"
definition GWEN_DB_FLAGS_WRITE_SUBGROUPS :: u32 where "GWEN_DB_FLAGS_WRITE_SUBGROUPS = 0x00100000"
definition GWEN_DB_FLAGS_DETAILED_GROUPS :: u32 where "GWEN_DB_FLAGS_DETAILED_GROUPS = 0x00200000"
definition GWEN_DB_FLAGS_INDEND :: u32 where "GWEN_DB_FLAGS_INDEND = 0x00400000"
definition GWEN_DB_FLAGS_ADD_GROUP_NEWLINES :: u32 where "GWEN_DB_FLAGS_ADD_GROUP_NEWLINES = 0x00800000"
definition GWEN_DB_FLAGS_USE_COLON :: u32 where "GWEN_DB_FLAGS_USE_COLON = 0x01000000"
definition GWEN_DB_FLAGS_UNTIL_EMPTY_LINE :: u32 where "GWEN_DB_FLAGS_UNTIL_EMPTY_LINE = 0x02000000"
definition GWEN_DB_FLAGS_OMIT_TYPES :: u32 where "GWEN_DB_FLAGS_OMIT_TYPES = 0x04000000"
definition GWEN_DB_FLAGS_ESCAPE_CHARVALUES :: u32 where "GWEN_DB_FLAGS_ESCAPE_CHARVALUES = 0x10000000"
definition GWEN_DB_FLAGS_DOSMODE :: u32 where "GWEN_DB_FLAGS_DOSMODE = 0x80000000"
definition GWEN_DB_NODE_FLAGS_VOLATILE :: u32 where "GWEN_DB_NODE_FLAGS_VOLATILE = 0x00000002"

section \<open>Names of groups\<close>

definition db_safe :: "byte \<Rightarrow> bool" where
  "db_safe x \<longleftrightarrow> text_alnum x \<or> x \<in> {37, 46, 44, 95, 45, 42, 63}"

definition GWEN_DB_EscapeToBufferTolerant :: "byte list \<Rightarrow> byte list" where
  "GWEN_DB_EscapeToBufferTolerant src = concat (map (\<lambda>x. if db_safe x then [x] else 38 # hex_pair x) src)"

fun GWEN_DB_UnescapeToBufferTolerant :: "byte list \<Rightarrow> byte list" where
  "GWEN_DB_UnescapeToBufferTolerant (x # d1 # d2 # src) =
    (if x = 38 \<and> isxdigit d1 \<and> isxdigit d2 then hex_byte d1 d2 # GWEN_DB_UnescapeToBufferTolerant src
     else x # GWEN_DB_UnescapeToBufferTolerant (d1 # d2 # src))"
| "GWEN_DB_UnescapeToBufferTolerant src = src"

section \<open>Writing\<close>

text \<open>One call after the other; the first that fails ends it, with the result \<open>h\<close> makes of the error.\<close>

definition fb_then ::
  "(int \<Rightarrow> int) \<Rightarrow> (int \<times> 'c gwen_fast_buffer) outcome \<Rightarrow> ('c gwen_fast_buffer \<Rightarrow> (int \<times> 'c gwen_fast_buffer) outcome)
     \<Rightarrow> (int \<times> 'c gwen_fast_buffer) outcome" where
  "fb_then h m f = obind m (\<lambda>(err, fb). if err < 0 then Ret (h err, fb) else f fb)"

lemma fb_then_cong [fundef_cong]:
  "m = m' \<Longrightarrow> (\<And>rv fb. m' = Ret (rv, fb) \<Longrightarrow> f fb = g fb) \<Longrightarrow> fb_then h m f = fb_then h m' g"
  by (cases m') (auto simp: fb_then_def)

fun fb_spaces :: "nat \<Rightarrow> 'c gwen_fast_buffer \<Rightarrow> (int \<times> 'c gwen_fast_buffer) outcome" where
  "fb_spaces 0 fb = Ret (0, fb)"
| "fb_spaces (Suc n) fb = fb_then (\<lambda>err. err) (GWEN_FASTBUFFER_WRITEBYTE fb 32) (fb_spaces n)"

definition db_indent :: "u32 \<Rightarrow> int \<Rightarrow> 'c gwen_fast_buffer \<Rightarrow> (int \<times> 'c gwen_fast_buffer) outcome" where
  "db_indent dbflags ins fb = (if has dbflags GWEN_DB_FLAGS_INDEND then fb_spaces (nat ins) fb else Ret (0, fb))"

text \<open>The name of its type and the text of a value; pointers have none. The memory for binary data is measured in 32 bits.\<close>

definition db_pvalue :: "u32 \<Rightarrow> gwen_db_node \<Rightarrow> (int + (byte list \<times> byte list) option) outcome" where
  "db_pvalue dbflags cn =
    (case db_typ cn of
       NodeType_ValueChar \<Rightarrow>
         (case db_data cn of
            DataChar s \<Rightarrow> Ret (Inr (Some (str ''char '', if has dbflags GWEN_DB_FLAGS_ESCAPE_CHARVALUES then escaped text_tolerant_buf s else s)))
          | _ \<Rightarrow> Fault)
     | NodeType_ValueInt \<Rightarrow> (case db_data cn of DataInt i \<Rightarrow> Ret (Inr (Some (str ''int  '', int_text i))) | _ \<Rightarrow> Fault)
     | NodeType_ValueBin \<Rightarrow>
         (case db_data cn of
            DataBin b \<Rightarrow>
              let bbsize = of_nat (length b) * 2 + 1 :: u32
              in obind (GWEN_Text_ToHex b (of_nat (length b)) (replicate (unat bbsize) 0) bbsize) (\<lambda>(ok, binbuffer).
                   if ok then Ret (Inr (Some (str ''bin  '', takeWhile (\<lambda>c. c \<noteq> 0) binbuffer))) else Ret (Inl GWEN_ERROR_GENERIC))
          | _ \<Rightarrow> Fault)
     | _ \<Rightarrow> Ret (Inr None))"

text \<open>What is written for a value: the name of the variable in front of the first one, a comma in front of the others.\<close>

abbreviation fails :: "int \<Rightarrow> int" where
  "fails \<equiv> (\<lambda>err. 1)"

definition db_quote :: "bool \<Rightarrow> 'c gwen_fast_buffer \<Rightarrow> (int \<times> 'c gwen_fast_buffer) outcome" where
  "db_quote quoted fb = (if quoted then GWEN_FASTBUFFER_WRITEBYTE fb 34 else Ret (0, fb))"

definition db_write_name ::
  "u32 \<Rightarrow> int \<Rightarrow> byte list \<Rightarrow> byte list \<Rightarrow> 'c gwen_fast_buffer \<Rightarrow> (int \<times> 'c gwen_fast_buffer) outcome" where
  "db_write_name dbflags ins typname name fb =
     fb_then fails (db_indent dbflags ins fb) (\<lambda>fb.
     fb_then fails (if \<not> has dbflags GWEN_DB_FLAGS_OMIT_TYPES then fb_write_text fb typname else Ret (0, fb)) (\<lambda>fb.
     fb_then fails (db_quote (has dbflags GWEN_DB_FLAGS_QUOTE_VARNAMES) fb) (\<lambda>fb.
     fb_then fails (fb_write_text fb name) (\<lambda>fb.
     fb_then fails (db_quote (has dbflags GWEN_DB_FLAGS_QUOTE_VARNAMES) fb) (\<lambda>fb.
     fb_then fails (fb_write_text fb (if has dbflags GWEN_DB_FLAGS_USE_COLON then [58, 32] else [61])) (\<lambda>fb. Ret (0, fb)))))))"

definition db_write_value :: "u32 \<Rightarrow> bool \<Rightarrow> byte list \<Rightarrow> 'c gwen_fast_buffer \<Rightarrow> (int \<times> 'c gwen_fast_buffer) outcome" where
  "db_write_value dbflags further pvalue fb =
     fb_then fails (if further then fb_write_text fb [44, 32] else Ret (0, fb)) (\<lambda>fb.
     fb_then fails (db_quote (has dbflags GWEN_DB_FLAGS_QUOTE_VALUES) fb) (\<lambda>fb.
     fb_then fails (fb_write_text fb pvalue) (\<lambda>fb.
     fb_then fails (db_quote (has dbflags GWEN_DB_FLAGS_QUOTE_VALUES) fb) (\<lambda>fb. Ret (0, fb)))))"

text \<open>The values of a variable. \<open>namewritten\<close>: one has been written already.\<close>

fun db_write_values ::
  "u32 \<Rightarrow> int \<Rightarrow> byte list \<Rightarrow> bool \<Rightarrow> gwen_db_node list \<Rightarrow> 'c gwen_fast_buffer \<Rightarrow> (int \<times> bool \<times> 'c gwen_fast_buffer) outcome" where
  "db_write_values dbflags ins name namewritten [] fb = Ret (0, namewritten, fb)"
| "db_write_values dbflags ins name namewritten (cn # cns) fb =
     obind (db_pvalue dbflags cn) (\<lambda>v.
       case v of
         Inl err \<Rightarrow> Ret (err, namewritten, fb)
       | Inr None \<Rightarrow> db_write_values dbflags ins name namewritten cns fb
       | Inr (Some (typname, pvalue)) \<Rightarrow>
           obind (if namewritten then Ret (0, fb) else db_write_name dbflags ins typname name fb) (\<lambda>(rv, fb).
             if rv \<noteq> 0 then Ret (rv, namewritten, fb)
             else obind (db_write_value dbflags namewritten pvalue fb) (\<lambda>(rv, fb).
                    if rv \<noteq> 0 then Ret (rv, True, fb) else db_write_values dbflags ins name True cns fb)))"

text \<open>The children of a node. The result 1 of a failed value is no error to the callers.\<close>

function db_write_nodes :: "u32 \<Rightarrow> int \<Rightarrow> bool \<Rightarrow> gwen_db_node list \<Rightarrow> 'c gwen_fast_buffer \<Rightarrow> (int \<times> 'c gwen_fast_buffer) outcome" where
  "db_write_nodes dbflags ins lastWasVar [] fb = Ret (0, fb)"
| "db_write_nodes dbflags ins lastWasVar (DbNode t nodeFlags d cs # ns) fb =
    (if has nodeFlags GWEN_DB_NODE_FLAGS_VOLATILE then db_write_nodes dbflags ins lastWasVar ns fb
     else if t = NodeType_Group then
       fb_then (\<lambda>err. err)
        (if has dbflags GWEN_DB_FLAGS_WRITE_SUBGROUPS
         then fb_then (\<lambda>err. err)
                (if has dbflags GWEN_DB_FLAGS_ADD_GROUP_NEWLINES \<and> lastWasVar then GWEN_FASTBUFFER_WRITELINE fb [] else Ret (0, fb)) (\<lambda>fb.
              fb_then (\<lambda>err. err) (db_indent dbflags ins fb) (\<lambda>fb.
              let tbuf = GWEN_DB_EscapeToBufferTolerant (db_name (DbNode t nodeFlags d cs))
              in fb_then (\<lambda>err. err) (GWEN_FASTBUFFER_WRITEFORCED fb tbuf (sint (of_nat (length tbuf) :: u32))) (\<lambda>fb.
              fb_then (\<lambda>err. err) (GWEN_FASTBUFFER_WRITELINE fb [32, 123]) (\<lambda>fb.
              obind (ck (ins + 2)) (\<lambda>ins2.
              fb_then (\<lambda>err. err) (db_write_nodes dbflags ins2 False (case cs of None \<Rightarrow> [] | Some kids \<Rightarrow> kids) fb) (\<lambda>fb.
              fb_then (\<lambda>err. err) (db_indent dbflags ins fb) (\<lambda>fb.
              fb_then (\<lambda>err. err)
                (if has dbflags GWEN_DB_FLAGS_DETAILED_GROUPS
                 then fb_then (\<lambda>err. err) (fb_write_text fb [125, 32, 35]) (\<lambda>fb. GWEN_FASTBUFFER_WRITELINE fb (db_name (DbNode t nodeFlags d cs)))
                 else GWEN_FASTBUFFER_WRITELINE fb [125]) (\<lambda>fb.
                if has dbflags GWEN_DB_FLAGS_ADD_GROUP_NEWLINES \<and> ns \<noteq> [] then GWEN_FASTBUFFER_WRITELINE fb [] else Ret (0, fb)))))))))
         else Ret (0, fb))
        (db_write_nodes dbflags ins False ns)
     else if t = NodeType_Var then
       obind (db_write_values dbflags ins (db_name (DbNode t nodeFlags d cs)) False (case cs of None \<Rightarrow> [] | Some kids \<Rightarrow> kids) fb)
        (\<lambda>(rv, namewritten, fb).
          if rv \<noteq> 0 then Ret (rv, fb)
          else fb_then (\<lambda>err. GWEN_ERROR_GENERIC) (if namewritten then GWEN_FASTBUFFER_WRITELINE fb [] else Ret (0, fb))
                 (db_write_nodes dbflags ins True ns))
     else db_write_nodes dbflags ins lastWasVar ns fb)"
  by pat_completeness auto
termination
  by (relation "measure (\<lambda>(dbflags, ins, lastWasVar, ns, fb). size_list size ns)") (auto split: option.split)

definition GWEN_DB_WriteGroupToIoLayer ::
  "gwen_db_node \<Rightarrow> 'c gwen_fast_buffer \<Rightarrow> u32 \<Rightarrow> int \<Rightarrow> (int \<times> 'c gwen_fast_buffer) outcome" where
  "GWEN_DB_WriteGroupToIoLayer node fb dbflags ins =
     db_write_nodes dbflags ins False (case db_children node of None \<Rightarrow> [] | Some cs \<Rightarrow> cs) fb"

definition GWEN_DB_WriteToFastBuffer :: "gwen_db_node \<Rightarrow> 'c gwen_fast_buffer \<Rightarrow> u32 \<Rightarrow> (int \<times> 'c gwen_fast_buffer) outcome" where
  "GWEN_DB_WriteToFastBuffer node fb dbflags =
     fb_then (\<lambda>err. err) (GWEN_DB_WriteGroupToIoLayer node fb dbflags 0) GWEN_FASTBUFFER_FLUSH"

text \<open>The fast buffer of the code is created for the call; its layer stays.\<close>

definition db_fast_buffer :: "u32 \<Rightarrow> u32 \<Rightarrow> 'c gwen_syncio \<Rightarrow> 'c gwen_fast_buffer outcome" where
  "db_fast_buffer sz dbflags sio =
     obind (GWEN_FastBuffer_new True sz sio) (\<lambda>fb.
       Ret (if has dbflags GWEN_DB_FLAGS_DOSMODE then GWEN_FastBuffer_AddFlags fb GWEN_FAST_BUFFER_FLAGS_DOSMODE else fb))"

definition GWEN_DB_WriteToIo :: "gwen_db_node \<Rightarrow> 'c gwen_syncio \<Rightarrow> u32 \<Rightarrow> (int \<times> 'c gwen_syncio) outcome" where
  "GWEN_DB_WriteToIo node sio dbflags =
     obind (db_fast_buffer 512 dbflags sio) (\<lambda>fb.
     obind (GWEN_DB_WriteToFastBuffer node fb dbflags) (\<lambda>(rv, fb). Ret (rv, fb_io fb)))"

definition GWEN_DB_WriteToBuffer :: "nat \<Rightarrow> gwen_db_node \<Rightarrow> gwen_buffer \<Rightarrow> u32 \<Rightarrow> (int \<times> gwen_buffer option) outcome" where
  "GWEN_DB_WriteToBuffer rounds node buf dbflags =
     obind (GWEN_SyncIo_Memory_new 0 (\<lambda>_. 0) (\<lambda>_. True) rounds (Some buf) False) (\<lambda>sio.
     obind (GWEN_DB_WriteToIo node sio dbflags) (\<lambda>(rv, sio). Ret (min rv 0, GWEN_SyncIo_Memory_GetBuffer sio)))"

section \<open>Reading\<close>

text \<open>The two characters behind a percent sign are not checked; digits above 15 run into the upper half.\<close>

definition db_percent :: "byte \<Rightarrow> byte \<Rightarrow> byte" where
  "db_percent a b = push_bit 4 (hex_val a) OR hex_val b"

text \<open>One value: its text and what is behind it, or \<open>None\<close> for bad data.\<close>

fun db_scan_value :: "bool \<Rightarrow> byte list \<Rightarrow> (byte list \<times> byte list) option" where
  "db_scan_value quotes [] = Some ([], [])"
| "db_scan_value quotes (c # p) =
    (if c = 37
     then (case p of
             a # b # p \<Rightarrow> map_option (\<lambda>(w, p). (db_percent a b # w, p)) (db_scan_value quotes p)
           | _ \<Rightarrow> None)
     else if quotes then (if c = 34 then Some ([], p) else map_option (\<lambda>(w, p). (c # w, p)) (db_scan_value quotes p))
     else if c \<in> {44, 59, 35} then Some ([], c # p)
     else if c = 34 then None
     else map_option (\<lambda>(w, p). (c # w, p)) (db_scan_value quotes p))"

lemma db_scan_shorter: "db_scan_value quotes p = Some (w, p') \<Longrightarrow> length p' \<le> length p"
proof (induction quotes p arbitrary: w p' rule: db_scan_value.induct)
  case (2 quotes c p)
  then show ?case by (force split: if_splits list.splits)
qed simp

text \<open>\<^verbatim>\<open>GWEN_Text_FromHexBuffer\<close> on a text.\<close>

fun db_from_hex :: "byte list \<Rightarrow> byte list option" where
  "db_from_hex [] = Some []"
| "db_from_hex (c # src) =
    (if isspace c then db_from_hex src
     else if \<not> isxdigit c then None
     else case src of
       [] \<Rightarrow> None
     | d # src \<Rightarrow> if \<not> isxdigit d then None else map_option ((#) (hex_byte c d)) (db_from_hex src))"

definition db_value_kind :: "byte list option \<Rightarrow> gwen_db_node_type option" where
  "db_value_kind typeName =
    (case typeName of
       None \<Rightarrow> Some NodeType_ValueChar
     | Some s \<Rightarrow>
         if same_name s (str ''int'') then Some NodeType_ValueInt
         else if same_name s (str ''char'') then Some NodeType_ValueChar
         else if same_name s (str ''bin'') then Some NodeType_ValueBin
         else None)"

definition db_parse_value :: "gwen_db_node_type \<Rightarrow> byte list \<Rightarrow> gwen_db_node option outcome" where
  "db_parse_value kind v =
    (if kind = NodeType_ValueInt then obind (sscanf_int v) (\<lambda>i. Ret (map_option GWEN_DB_ValueInt_new i))
     else if kind = NodeType_ValueChar then Ret (Some (GWEN_DB_ValueChar_new (Some v)))
     else if kind = NodeType_ValueBin then Ret (map_option GWEN_DB_ValueBin_new (db_from_hex v))
     else Abort)"

lemma db_next_shorter:
  assumes "p1 = dropWhile isspace p0" "p1 \<noteq> []" "db_scan_value q (if q then tl p1 else p1) = Some (w, p')" "p2 = dropWhile isspace p'" "p2 \<noteq> []"
  shows "length (tl p2) < length p0"
proof -
  have "length p' \<le> length p1"
    using db_scan_shorter [OF assms(3)] by (auto split: if_splits)
  moreover have "length p2 \<le> length p'" "length p1 \<le> length p0"
    using assms(1,4) by (simp_all add: length_dropWhile_le)
  ultimately show ?thesis
    using assms(5) by (cases p2) auto
qed

text \<open>The values behind the equation mark, appended to the variable at \<open>m\<close>.\<close>

function db_read_values :: "gwen_db_node_type \<Rightarrow> byte list \<Rightarrow> gwen_db_node \<Rightarrow> db_pos \<Rightarrow> (int \<times> gwen_db_node) outcome" where
  "db_read_values kind p r m =
    (let p = dropWhile isspace p
     in if p = [] then Ret (GWEN_ERROR_BAD_DATA, r)
        else let quotes = (hd p = 34)
             in (case db_scan_value quotes (if quotes then tl p else p) of
                   None \<Rightarrow> Ret (GWEN_ERROR_BAD_DATA, r)
                 | Some (w, p) \<Rightarrow>
                     obind (db_parse_value kind (takeWhile (\<lambda>c. c \<noteq> 0) w)) (\<lambda>v.
                       case v of
                         None \<Rightarrow> Ret (GWEN_ERROR_BAD_DATA, r)
                       | Some v \<Rightarrow>
                           obind (GWEN_DB_Node_Append r m v) (\<lambda>(r, _).
                             let p = dropWhile isspace p
                             in if p = [] \<or> hd p \<in> {59, 35} then Ret (0, r)
                                else if hd p \<noteq> 44 then Ret (GWEN_ERROR_BAD_DATA, r)
                                else db_read_values kind (tl p) r m))))"
  by pat_completeness auto
termination
proof (relation "measure (\<lambda>(kind, p, r, m). length p)", goal_cases)
  case (2 kind p r m x xa y q quotes xb xc yc)
  from 2(1,2,4-) show ?case
    using db_next_shorter [of x p xa q quotes] by simp
qed simp

declare db_read_values.simps [simp del]

definition GWEN_DB__ReadValues ::
  "gwen_db_node \<Rightarrow> db_pos \<Rightarrow> u32 \<Rightarrow> byte list option \<Rightarrow> byte list \<Rightarrow> byte list \<Rightarrow> (int \<times> gwen_db_node) outcome" where
  "GWEN_DB__ReadValues r n dbflags typeName varName p =
    (case db_value_kind typeName of
       None \<Rightarrow> Ret (GWEN_ERROR_BAD_DATA, r)
     | Some kind \<Rightarrow>
         obind (GWEN_DB_GetNode r n varName (dbflags OR GWEN_PATH_FLAGS_VARIABLE)) (\<lambda>(r, dbVar).
           case dbVar of None \<Rightarrow> Ret (GWEN_ERROR_GENERIC, r) | Some m \<Rightarrow> db_read_values kind p r m))"

definition db_token_end :: "u32 \<Rightarrow> byte \<Rightarrow> bool" where
  "db_token_end dbflags c \<longleftrightarrow>
     isspace c \<or> c = 123 \<or> c = (if has dbflags GWEN_DB_FLAGS_USE_COLON then 58 else 61) \<or> c = 125 \<or> c = 44 \<or> c = 59"

text \<open>A line that is not blank, without its leading blanks: the result, the tree, the current group and its level.\<close>

definition db_read_token_line ::
  "u32 \<Rightarrow> byte list \<Rightarrow> gwen_db_node \<times> db_pos \<times> int \<Rightarrow> (int \<times> gwen_db_node \<times> db_pos \<times> int) outcome" where
  "db_read_token_line dbflags p1 st =
    (case st of (r, n, level) \<Rightarrow>
      let bad = Ret (GWEN_ERROR_BAD_DATA, r, n, level);
          p = dropWhile (\<lambda>c. \<not> db_token_end dbflags c) p1;
          name = takeWhile (\<lambda>c. \<not> db_token_end dbflags c) p1;
          q = dropWhile isspace p
      in if q = [] then bad
         else if hd q = 123 then
           obind (GWEN_DB_GetGroup r n dbflags (GWEN_DB_UnescapeToBufferTolerant name)) (\<lambda>(r, newGr).
             case newGr of
               None \<Rightarrow> Ret (GWEN_ERROR_GENERIC, r, n, level)
             | Some m \<Rightarrow> obind (ck (level + 1)) (\<lambda>level. Ret (0, r, m, level)))
         else if hd q \<in> {61, 58} then obind (GWEN_DB__ReadValues r n dbflags None name (tl q)) (\<lambda>(rv, r). Ret (rv, r, n, level))
         else if hd q \<in> {44, 59} then bad
         else let p2 = takeWhile (\<lambda>c. \<not> db_token_end dbflags c) q;
                  s = dropWhile isspace (dropWhile (\<lambda>c. \<not> db_token_end dbflags c) q)
              in if s = [] \<or> hd s \<notin> {61, 58} then bad
                 else obind (GWEN_DB__ReadValues r n dbflags (Some name) p2 (tl s)) (\<lambda>(rv, r). Ret (rv, r, n, level)))"

definition db_read_line ::
  "u32 \<Rightarrow> byte list \<Rightarrow> gwen_db_node \<times> db_pos \<times> int \<Rightarrow> (int \<times> gwen_db_node \<times> db_pos \<times> int) outcome" where
  "db_read_line dbflags l st =
    (let p = dropWhile isspace (takeWhile (\<lambda>c. c \<noteq> 0) l)
     in case st of (r, n, level) \<Rightarrow>
       if p = [] then Ret (0, st)
       else if hd p = 125 then
         (if level < 1 then Ret (GWEN_ERROR_BAD_DATA, st)
          else if n = [] then Abort
          else obind (db_node r (butlast n)) (\<lambda>g.
               obind (oassert (db_typ g = NodeType_Group)) (\<lambda>_. Ret (0, r, butlast n, level - 1))))
       else if hd p = 35 then Ret (0, st)
       else db_read_token_line dbflags p st)"

text \<open>Line after line.\<close>

fun db_read_loop ::
  "u32 \<Rightarrow> nat \<Rightarrow> bool \<Rightarrow> gwen_db_node \<times> db_pos \<times> int \<Rightarrow> 'c gwen_fast_buffer \<Rightarrow> (int \<times> gwen_db_node \<times> 'c gwen_fast_buffer) outcome" where
  "db_read_loop dbflags 0 someLinesRead st fb = Hang"
| "db_read_loop dbflags (Suc k) someLinesRead st fb =
     obind (fb_read_line (\<lambda>x bs. Ret (x @ bs)) (sio_rounds (fb_io fb)) False fb []) (\<lambda>(rv, fb, lbuf).
       let done = Ret (if snd (snd st) \<noteq> 0 then GWEN_ERROR_BAD_DATA else 0, fst st, fb)
       in if rv < 0 then
            (if rv \<noteq> GWEN_ERROR_EOF then Ret (rv, fst st, fb)
             else if \<not> someLinesRead \<and> \<not> has dbflags GWEN_DB_FLAGS_ALLOW_EMPTY_STREAM then Ret (rv, fst st, fb)
             else done)
          else if lbuf = [] then
            (if has dbflags GWEN_DB_FLAGS_UNTIL_EMPTY_LINE then done else db_read_loop dbflags k someLinesRead st fb)
          else obind (db_read_line dbflags lbuf st) (\<lambda>(rv, st).
                 if rv \<noteq> 0 then Ret (rv, fst st, fb) else db_read_loop dbflags k True st fb))"

definition GWEN_DB_ReadFromFastBuffer ::
  "gwen_db_node \<Rightarrow> db_pos \<Rightarrow> 'c gwen_fast_buffer \<Rightarrow> u32 \<Rightarrow> (int \<times> gwen_db_node \<times> 'c gwen_fast_buffer) outcome" where
  "GWEN_DB_ReadFromFastBuffer r n fb dbflags = db_read_loop dbflags (sio_rounds (fb_io fb)) False (r, n, 0) fb"

definition GWEN_DB_ReadFromIo :: "gwen_db_node \<Rightarrow> db_pos \<Rightarrow> 'c gwen_syncio \<Rightarrow> u32 \<Rightarrow> (int \<times> gwen_db_node \<times> 'c gwen_syncio) outcome" where
  "GWEN_DB_ReadFromIo r n sio dbflags =
     obind (db_fast_buffer 1024 dbflags sio) (\<lambda>fb.
     obind (GWEN_DB_ReadFromFastBuffer r n fb dbflags) (\<lambda>(rv, r, fb). Ret (min rv 0, r, fb_io fb)))"

text \<open>A length of 0 is that of the string.\<close>

definition GWEN_DB_ReadFromString ::
  "u32 \<Rightarrow> (nat \<Rightarrow> byte) \<Rightarrow> (nat \<Rightarrow> bool) \<Rightarrow> nat \<Rightarrow> gwen_db_node \<Rightarrow> db_pos \<Rightarrow> byte list \<Rightarrow> int \<Rightarrow> u32 \<Rightarrow> (int \<times> gwen_db_node) outcome" where
  "GWEN_DB_ReadFromString hl fr ok rounds r n s len dbflags =
     obind (if len = 0 then (if strlen s = length s then Fault else Ret (sint (of_nat (strlen s) :: u32))) else Ret len) (\<lambda>len.
     obind (GWEN_SyncIo_Memory_fromBuffer hl fr ok rounds (Some s) len) (\<lambda>sio.
     obind (GWEN_DB_ReadFromIo r n sio dbflags) (\<lambda>(rv, r, sio). Ret (rv, r))))"

end
