(* ===== verification/Gwen_DBLines.thy ===== *)
theory Gwen_DBLines
  imports Gwen_DBText Gwen_FastBufferLines Gwen_DBProps
begin

text \<open>
  The text of a configuration tree: which lines the writer makes of a group, and that these lines are what arrives at the sink
  behind the fast buffer.
\<close>

section \<open>The lines of a group\<close>

definition db_kids :: "gwen_db_node \<Rightarrow> gwen_db_node list" where
  "db_kids n = (case db_children n of None \<Rightarrow> [] | Some cs \<Rightarrow> cs)"

text \<open>The type and the text of a value that is written.\<close>

definition db_value_text :: "u32 \<Rightarrow> gwen_db_node \<Rightarrow> (byte list \<times> byte list) option" where
  "db_value_text w cn =
    (case db_data cn of
       DataChar s \<Rightarrow> Some (str ''char '', if has w GWEN_DB_FLAGS_ESCAPE_CHARVALUES then escaped text_tolerant_buf s else s)
     | DataInt i \<Rightarrow> Some (str ''int  '', int_text i)
     | DataBin b \<Rightarrow> Some (str ''bin  '', concat (map hex_pair b))
     | _ \<Rightarrow> None)"

definition db_texts :: "u32 \<Rightarrow> gwen_db_node list \<Rightarrow> (byte list \<times> byte list) list" where
  "db_texts w cns = List.map_filter (db_value_text w) cns"

definition db_quoted :: "bool \<Rightarrow> byte list \<Rightarrow> byte list" where
  "db_quoted q s = (if q then 34 # s @ [34] else s)"

definition db_blanks :: "u32 \<Rightarrow> nat \<Rightarrow> byte list" where
  "db_blanks w i = (if has w GWEN_DB_FLAGS_INDEND then replicate i 32 else [])"

definition db_var_head :: "u32 \<Rightarrow> nat \<Rightarrow> byte list \<Rightarrow> byte list \<Rightarrow> byte list" where
  "db_var_head w i typname name =
     db_blanks w i @ (if \<not> has w GWEN_DB_FLAGS_OMIT_TYPES then typname else []) @ db_quoted (has w GWEN_DB_FLAGS_QUOTE_VARNAMES) name
       @ (if has w GWEN_DB_FLAGS_USE_COLON then [58, 32] else [61])"

definition db_more_values :: "u32 \<Rightarrow> (byte list \<times> byte list) list \<Rightarrow> byte list" where
  "db_more_values w vs = concat (map (\<lambda>v. [44, 32] @ db_quoted (has w GWEN_DB_FLAGS_QUOTE_VALUES) (snd v)) vs)"

definition db_var_lines :: "u32 \<Rightarrow> nat \<Rightarrow> byte list \<Rightarrow> (byte list \<times> byte list) list \<Rightarrow> byte list list" where
  "db_var_lines w i name vs =
    (case vs of [] \<Rightarrow> []
     | v # vs \<Rightarrow> [db_var_head w i (fst v) name @ db_quoted (has w GWEN_DB_FLAGS_QUOTE_VALUES) (snd v) @ db_more_values w vs])"

definition db_begin_line :: "u32 \<Rightarrow> nat \<Rightarrow> byte list \<Rightarrow> byte list" where
  "db_begin_line w i name = db_blanks w i @ GWEN_DB_EscapeToBufferTolerant name @ [32, 123]"

definition db_end_line :: "u32 \<Rightarrow> nat \<Rightarrow> byte list \<Rightarrow> byte list" where
  "db_end_line w i name = db_blanks w i @ (if has w GWEN_DB_FLAGS_DETAILED_GROUPS then [125, 32, 35] @ name else [125])"

definition db_gap :: "u32 \<Rightarrow> bool \<Rightarrow> byte list list" where
  "db_gap w b = (if has w GWEN_DB_FLAGS_ADD_GROUP_NEWLINES \<and> b then [[]] else [])"

function db_lines :: "u32 \<Rightarrow> nat \<Rightarrow> bool \<Rightarrow> gwen_db_node list \<Rightarrow> byte list list" where
  "db_lines w i lv [] = []"
| "db_lines w i lv (DbNode t fl d cs # ns) =
    (let name = db_name (DbNode t fl d cs); kids = (case cs of None \<Rightarrow> [] | Some kids \<Rightarrow> kids)
     in if has fl GWEN_DB_NODE_FLAGS_VOLATILE then db_lines w i lv ns
        else if t = NodeType_Group then
          (if has w GWEN_DB_FLAGS_WRITE_SUBGROUPS
           then db_gap w lv @ [db_begin_line w i name] @ db_lines w (i + 2) False kids @ [db_end_line w i name] @ db_gap w (ns \<noteq> [])
           else []) @ db_lines w i False ns
        else if t = NodeType_Var then db_var_lines w i name (db_texts w kids) @ db_lines w i True ns
        else db_lines w i lv ns)"
  by pat_completeness auto
termination
  by (relation "measure (\<lambda>(w, i, lv, ns). size_list size ns)") (auto split: option.split)

declare db_lines.simps [simp del]

definition lines_text :: "u32 \<Rightarrow> byte list list \<Rightarrow> byte list" where
  "lines_text fl ls = concat (map (\<lambda>l. l @ fb_eol fl) ls)"

lemma lines_text_simps [simp]:
  "lines_text fl [] = []" "lines_text fl (l # ls) = l @ fb_eol fl @ lines_text fl ls"
  "lines_text fl (ls @ ls') = lines_text fl ls @ lines_text fl ls'"
  by (simp_all add: lines_text_def)

section \<open>What can be written\<close>

text \<open>Names and texts without NUL, numbers and sizes that fit.\<close>

definition db_value_fits :: "gwen_db_node \<Rightarrow> bool" where
  "db_value_fits cn \<longleftrightarrow>
    (case db_data cn of DataChar s \<Rightarrow> 0 \<notin> set s | DataInt i \<Rightarrow> in_int i | DataBin b \<Rightarrow> length b < 2147483647 | _ \<Rightarrow> True)"

fun db_writable :: "gwen_db_node \<Rightarrow> bool" where
  "db_writable (DbNode t fl d cs) \<longleftrightarrow>
     0 \<notin> set (db_name (DbNode t fl d cs)) \<and> db_value_fits (DbNode t fl d cs) \<and> list_all db_writable (case cs of None \<Rightarrow> [] | Some kids \<Rightarrow> kids)"

declare db_writable.simps [simp del]

lemma db_writable_value: "db_writable n \<Longrightarrow> db_value_fits n"
  by (cases n) (simp add: db_writable.simps)

lemma takeWhile_nul: "0 \<notin> set s \<Longrightarrow> takeWhile (\<lambda>c :: byte. c \<noteq> 0) (s @ 0 # r) = s"
  by (induction s) auto

lemma hex_text_nul: "0 \<notin> set (concat (map hex_pair b))"
proof (induction b)
  case (Cons x b)
  obtain a c where "hex_pair x = [a, c]" by (rule hex_pair_obtain)
  with Cons hex_pair_facts [of x a c] show ?case by auto
qed simp

lemma length_hex_text: "length (concat (map hex_pair b)) = 2 * length b"
  by (induction b) (auto simp: hex_pair_def)

lemma to_hex_text:
  assumes "length b < 2147483647"
  shows "\<exists>bb. GWEN_Text_ToHex b (of_nat (length b)) (replicate (unat (of_nat (length b) * 2 + 1 :: u32)) 0) (of_nat (length b) * 2 + 1)
      = Ret (True, bb) \<and> takeWhile (\<lambda>c. c \<noteq> 0) bb = concat (map hex_pair b)"
proof -
  let ?l = "of_nat (length b) :: u32"
  have l: "unat ?l = length b" using assms by (intro unat_of_nat_u32) simp
  have n: "unat (?l * 2 + 1) = 2 * length b + 1"
  proof -
    have "?l * 2 + 1 = (of_nat (2 * length b + 1) :: u32)" by simp
    then show ?thesis using assms by (simp only:) (intro unat_of_nat_u32, simp)
  qed
  have "write_at 0 (concat (map hex_pair b) @ [0]) (replicate (2 * length b + 1) 0) = concat (map hex_pair b) @ [0]"
    by (simp add: write_at_def length_hex_text)
  then show ?thesis
    using takeWhile_nul [OF hex_text_nul, of b "[]"] by (simp add: GWEN_Text_ToHex_def region_def l n)
qed

lemma pvalue_text:
  assumes "db_wf cn" "db_is_value cn" "db_value_fits cn"
  shows "db_pvalue w cn = Ret (Inr (db_value_text w cn))"
proof (cases cn)
  case (DbNode t fl d cs)
  show ?thesis
  proof (cases "t = NodeType_ValueBin")
    case True
    then obtain b where b: "d = DataBin b" using assms(1) DbNode by (auto simp: db_wf.simps is_DataBin_def)
    then have "length b < 2147483647" using assms(3) DbNode by (simp add: db_value_fits_def)
    from to_hex_text [OF this] show ?thesis using True b DbNode
      by (auto simp: db_pvalue_def db_value_text_def Let_def)
  next
    case False
    then show ?thesis using assms DbNode
      by (auto simp: db_pvalue_def db_value_text_def db_wf.simps db_is_value_def is_DataChar_def is_DataInt_def is_DataPtr_def)
  qed
qed

lemma escaped_nul: "safe 0 = False \<Longrightarrow> 0 \<notin> set (escaped safe s)"
  using escaped_alnum [of safe s] by (auto simp: text_alnum_def)

lemma dec_digits_nul: "0 \<notin> set (dec_digits n)"
  using dec_digits_props [of n] by (auto simp: list_all_iff isdigit_def)

lemma value_text_nul: "db_value_fits cn \<Longrightarrow> db_value_text w cn = Some (t, s) \<Longrightarrow> 0 \<notin> set t \<and> 0 \<notin> set s"
  using hex_text_nul escaped_nul [of text_tolerant_buf] dec_digits_nul
  by (auto simp: db_value_text_def db_value_fits_def str_def int_text_def text_tolerant_buf_def text_alnum_def
      split: gwen_db_data.splits if_splits)

section \<open>Writing text\<close>

text \<open>\<open>m\<close> writes \<open>s\<close>, wherever there is room for it.\<close>

definition fb_writes ::
  "('c \<Rightarrow> nat \<Rightarrow> bool) \<Rightarrow> ('c \<Rightarrow> byte list) \<Rightarrow> ('c \<Rightarrow> byte list \<Rightarrow> (int \<times> 'c) outcome) \<Rightarrow> u32
     \<Rightarrow> ('c gwen_fast_buffer \<Rightarrow> (int \<times> 'c gwen_fast_buffer) outcome) \<Rightarrow> byte list \<Rightarrow> bool" where
  "fb_writes takes sent wr fl m s \<longleftrightarrow>
     (\<forall>fb n. fb_sink takes wr fl fb (length s + n) \<longrightarrow>
       (\<exists>fb'. m fb = Ret (0, fb') \<and> fb_sent sent fb' = fb_sent sent fb @ s \<and> fb_sink takes wr fl fb' n))"

lemma fb_writesI:
  "(\<And>fb n. fb_sink takes wr fl fb (length s + n) \<Longrightarrow>
      \<exists>fb'. m fb = Ret (0, fb') \<and> fb_sent sent fb' = fb_sent sent fb @ s \<and> fb_sink takes wr fl fb' n) \<Longrightarrow> fb_writes takes sent wr fl m s"
  by (simp add: fb_writes_def)

lemma fb_writesD:
  assumes "fb_writes takes sent wr fl m s" "fb_sink takes wr fl fb (length s + n)"
  obtains fb' where "m fb = Ret (0, fb')" "fb_sent sent fb' = fb_sent sent fb @ s" "fb_sink takes wr fl fb' n"
  using assms by (auto simp: fb_writes_def)

lemma writes_nil: "fb_writes takes sent wr fl (\<lambda>fb. Ret (0, fb)) []"
  by (simp add: fb_writes_def)

lemma writes_then:
  assumes "fb_writes takes sent wr fl m s" "fb_writes takes sent wr fl f t"
  shows "fb_writes takes sent wr fl (\<lambda>fb. fb_then h (m fb) f) (s @ t)"
proof (rule fb_writesI)
  fix fb n
  assume "fb_sink takes wr fl fb (length (s @ t) + n)"
  then have r: "fb_sink takes wr fl fb (length s + (length t + n))" by (simp add: add.assoc)
  obtain fb1 where fb1: "m fb = Ret (0, fb1)" "fb_sent sent fb1 = fb_sent sent fb @ s" "fb_sink takes wr fl fb1 (length t + n)"
    by (rule fb_writesD [OF assms(1) r])
  obtain fb2 where "f fb1 = Ret (0, fb2)" "fb_sent sent fb2 = fb_sent sent fb1 @ t" "fb_sink takes wr fl fb2 n"
    by (rule fb_writesD [OF assms(2) fb1(3)])
  with fb1 show "\<exists>fb'. fb_then h (m fb) f = Ret (0, fb') \<and> fb_sent sent fb' = fb_sent sent fb @ s @ t \<and> fb_sink takes wr fl fb' n"
    by (auto simp: fb_then_def)
qed

lemma writes_if:
  assumes "b \<Longrightarrow> fb_writes takes sent wr fl m s" "\<not> b \<Longrightarrow> fb_writes takes sent wr fl m' s'"
  shows "fb_writes takes sent wr fl (\<lambda>fb. if b then m fb else m' fb) (if b then s else s')"
  using assms by simp

lemma writes_opt:
  "(b \<Longrightarrow> fb_writes takes sent wr fl m s) \<Longrightarrow> fb_writes takes sent wr fl (\<lambda>fb. if b then m fb else Ret (0, fb)) (if b then s else [])"
  by (rule writes_if) (simp_all add: writes_nil)

lemma writes_opt_not:
  "(\<not> b \<Longrightarrow> fb_writes takes sent wr fl m s) \<Longrightarrow> fb_writes takes sent wr fl (\<lambda>fb. if \<not> b then m fb else Ret (0, fb)) (if b then [] else s)"
  by (cases b) (simp_all add: writes_nil)

lemmas writes_steps = writes_nil writes_then writes_opt writes_opt_not writes_if

lemma writes_eq: "fb_writes takes sent wr fl m s \<Longrightarrow> s = t \<Longrightarrow> fb_writes takes sent wr fl m t"
  by simp

lemma writes_cong: "fb_writes takes sent wr fl m s \<Longrightarrow> (\<And>fb. m' fb = m fb) \<Longrightarrow> fb_writes takes sent wr fl m' s"
  by (simp add: fb_writes_def)

context io_sink
begin

abbreviation wrt where "wrt \<equiv> fb_writes takes sent wr"

lemma writes_byte: "wrt fl (\<lambda>fb. GWEN_FASTBUFFER_WRITEBYTE fb c) [c]"
  using WRITEBYTE_ok by (intro fb_writesI) simp

lemma writes_text: "0 \<notin> set s \<Longrightarrow> wrt fl (\<lambda>fb. fb_write_text fb s) s"
  by (intro fb_writesI write_text_ok)

lemma writes_line: "0 \<notin> set s \<Longrightarrow> wrt fl (\<lambda>fb. GWEN_FASTBUFFER_WRITELINE fb s) (s @ fb_eol fl)"
  using WRITELINE_ok by (intro fb_writesI) (simp only: length_append)

lemma writes_forced: "wrt fl (\<lambda>fb. GWEN_FASTBUFFER_WRITEFORCED fb s (sint (of_nat (length s) :: u32))) s"
proof (rule fb_writesI)
  fix fb n
  assume a: "fb_sink takes wr fl fb (length s + n)"
  then have "length s < 2147483648" by (auto simp: fb_sink_def sio_sink_def)
  then have "sint (of_nat (length s) :: u32) = int (length s)" by (simp add: sint_u32_small unat_of_nat_u32)
  with WRITEFORCED_ok [OF a order_refl]
  show "\<exists>fb'. GWEN_FASTBUFFER_WRITEFORCED fb s (sint (of_nat (length s) :: u32)) = Ret (0, fb') \<and> fb_sent sent fb' = fb_sent sent fb @ s
      \<and> fb_sink takes wr fl fb' n" by simp
qed

lemma writes_spaces: "wrt fl (fb_spaces n) (replicate n 32)"
proof (induction n)
  case 0
  have "fb_spaces 0 = (\<lambda>fb :: 'a gwen_fast_buffer. Ret (0, fb))" by auto
  then show ?case by (simp add: writes_nil)
next
  case (Suc n)
  have "fb_spaces (Suc n) = (\<lambda>fb :: 'a gwen_fast_buffer. fb_then (\<lambda>err. err) (GWEN_FASTBUFFER_WRITEBYTE fb 32) (fb_spaces n))" by auto
  then show ?case using writes_then [OF writes_byte Suc.IH] by simp
qed

lemma writes_indent: "wrt fl (db_indent w (int i)) (db_blanks w i)"
  unfolding db_indent_def [abs_def] db_blanks_def by (rule writes_opt) (simp add: writes_spaces)

lemma writes_quote: "wrt fl (db_quote q) (if q then [34] else [])"
  unfolding db_quote_def [abs_def] by (rule writes_opt) (rule writes_byte)

lemma sep_nul: "0 \<notin> set (if b then [58, 32] else [61 :: byte])" "0 \<notin> set [44, 32 :: byte]" "0 \<notin> set [125, 32, 35 :: byte]"
    "0 \<notin> set [125 :: byte]" "0 \<notin> set [32, 123 :: byte]" "0 \<notin> set ([] :: byte list)"
  by auto

lemma writes_name:
  assumes "0 \<notin> set typname" "0 \<notin> set name"
  shows "wrt fl (db_write_name w (int i) typname name) (db_var_head w i typname name)"
  unfolding db_write_name_def [abs_def]
  by (rule writes_eq, (rule assms sep_nul writes_then writes_indent writes_quote writes_opt_not writes_text writes_nil)+)
    (simp add: db_var_head_def db_quoted_def)

lemma writes_value:
  assumes "0 \<notin> set s"
  shows "wrt fl (db_write_value w b s) ((if b then [44, 32] else []) @ db_quoted (has w GWEN_DB_FLAGS_QUOTE_VALUES) s)"
  unfolding db_write_value_def [abs_def]
  by (rule writes_eq, (rule assms sep_nul writes_then writes_quote writes_opt writes_text writes_nil)+)
    (simp add: db_quoted_def)

text \<open>The values of a variable behind the first, and from the first on.\<close>

lemma writes_more:
  assumes "\<forall>cn \<in> set cns. db_wf cn \<and> db_is_value cn \<and> db_value_fits cn" "fb_sink takes wr fl fb (length (db_more_values w (db_texts w cns)) + n)"
  shows "\<exists>fb'. db_write_values w (int i) name True cns fb = Ret (0, True, fb') \<and> fb_sent sent fb' = fb_sent sent fb @ db_more_values w (db_texts w cns)
    \<and> fb_sink takes wr fl fb' n"
  using assms
proof (induction cns arbitrary: fb)
  case (Cons cn cns)
  note pv = pvalue_text [of cn w]
  show ?case
  proof (cases "db_value_text w cn")
    case None
    then show ?thesis using Cons pv by (simp add: db_texts_def map_filter_simps)
  next
    case (Some x)
    obtain t s where x: "x = (t, s)" by (cases x)
    have s: "0 \<notin> set s" using value_text_nul [of cn w t s] Cons.prems(1) Some x by simp
    let ?v = "[44, 32] @ db_quoted (has w GWEN_DB_FLAGS_QUOTE_VALUES) s" and ?m = "db_more_values w (db_texts w cns)"
    have m: "db_more_values w (db_texts w (cn # cns)) = ?v @ ?m"
      using Some x by (simp add: db_texts_def map_filter_simps db_more_values_def)
    have "fb_sink takes wr fl fb (length ((if True then [44, 32] else []) @ db_quoted (has w GWEN_DB_FLAGS_QUOTE_VALUES) s) + (length ?m + n))"
      using Cons.prems(2) by (simp add: m add.assoc)
    then obtain fb1 where fb1: "db_write_value w True s fb = Ret (0, fb1)" "fb_sent sent fb1 = fb_sent sent fb @ ?v"
      "fb_sink takes wr fl fb1 (length ?m + n)"
      by (rule fb_writesD [OF writes_value [OF s]]) simp
    from Cons.IH [OF _ fb1(3)] Cons.prems(1) obtain fb2 where "db_write_values w (int i) name True cns fb1 = Ret (0, True, fb2)"
      "fb_sent sent fb2 = fb_sent sent fb1 @ ?m" "fb_sink takes wr fl fb2 n" by auto
    then show ?thesis using pv Cons.prems(1) Some x fb1 by (simp add: m)
  qed
qed (simp add: db_texts_def db_more_values_def map_filter_simps)

lemma writes_values:
  assumes "\<forall>cn \<in> set cns. db_wf cn \<and> db_is_value cn \<and> db_value_fits cn" "0 \<notin> set name"
    "fb_sink takes wr fl fb (length (concat (db_var_lines w i name (db_texts w cns))) + n)"
  shows "\<exists>fb'. db_write_values w (int i) name False cns fb = Ret (0, db_texts w cns \<noteq> [], fb')
    \<and> fb_sent sent fb' = fb_sent sent fb @ concat (db_var_lines w i name (db_texts w cns)) \<and> fb_sink takes wr fl fb' n"
  using assms
proof (induction cns arbitrary: fb)
  case (Cons cn cns)
  note pv = pvalue_text [of cn w]
  show ?case
  proof (cases "db_value_text w cn")
    case None
    then show ?thesis using Cons pv by (simp add: db_texts_def map_filter_simps)
  next
    case (Some x)
    obtain t s where x: "x = (t, s)" by (cases x)
    have s: "0 \<notin> set t" "0 \<notin> set s" using value_text_nul [of cn w t s] Cons.prems(1) Some x by simp_all
    let ?h = "db_var_head w i t name" and ?v = "db_quoted (has w GWEN_DB_FLAGS_QUOTE_VALUES) s" and ?m = "db_more_values w (db_texts w cns)"
    have m: "db_texts w (cn # cns) = (t, s) # db_texts w cns" using Some x by (simp add: db_texts_def map_filter_simps)
    have "fb_sink takes wr fl fb (length ?h + (length ?v + (length ?m + n)))"
      using Cons.prems(3) by (simp add: m db_var_lines_def add.assoc)
    then obtain fb1 where fb1: "db_write_name w (int i) t name fb = Ret (0, fb1)" "fb_sent sent fb1 = fb_sent sent fb @ ?h"
      "fb_sink takes wr fl fb1 (length ?v + (length ?m + n))"
      by (rule fb_writesD [OF writes_name [OF s(1) Cons.prems(2)]])
    have "fb_sink takes wr fl fb1 (length ((if False then [44, 32] else []) @ ?v) + (length ?m + n))" using fb1(3) by simp
    then obtain fb2 where fb2: "db_write_value w False s fb1 = Ret (0, fb2)" "fb_sent sent fb2 = fb_sent sent fb1 @ ?v"
      "fb_sink takes wr fl fb2 (length ?m + n)"
      by (rule fb_writesD [OF writes_value [OF s(2)]]) simp
    from writes_more [OF _ fb2(3), of i name] Cons.prems(1) obtain fb3 where "db_write_values w (int i) name True cns fb2 = Ret (0, True, fb3)"
      "fb_sent sent fb3 = fb_sent sent fb2 @ ?m" "fb_sink takes wr fl fb3 n" by auto
    then show ?thesis using pv Cons.prems(1) Some x fb1 fb2 by (simp add: m db_var_lines_def)
  qed
qed (simp add: db_texts_def db_var_lines_def map_filter_simps)

text \<open>A variable, and then the rest.\<close>

lemma writes_var:
  assumes "\<forall>cn \<in> set cns. db_wf cn \<and> db_is_value cn \<and> db_value_fits cn" "0 \<notin> set name" "wrt fl rest s"
  shows "wrt fl (\<lambda>fb. obind (db_write_values w (int i) name False cns fb) (\<lambda>(rv, namewritten, fb).
      if rv \<noteq> 0 then Ret (rv, fb) else fb_then h (if namewritten then GWEN_FASTBUFFER_WRITELINE fb [] else Ret (0, fb)) rest))
    (lines_text fl (db_var_lines w i name (db_texts w cns)) @ s)"
proof (rule fb_writesI)
  let ?ls = "db_var_lines w i name (db_texts w cns)" and ?b = "db_texts w cns \<noteq> []"
  have t: "lines_text fl ?ls @ s = concat ?ls @ (if ?b then [] @ fb_eol fl else []) @ s"
    by (cases "db_texts w cns") (simp_all add: db_var_lines_def)
  fix fb n
  assume "fb_sink takes wr fl fb (length (lines_text fl ?ls @ s) + n)"
  then have "fb_sink takes wr fl fb (length (concat ?ls) + (length ((if ?b then [] @ fb_eol fl else []) @ s) + n))"
    by (simp only: t length_append add.assoc)
  from writes_values [OF assms(1,2) this] obtain fb1 where fb1: "db_write_values w (int i) name False cns fb = Ret (0, ?b, fb1)"
    "fb_sent sent fb1 = fb_sent sent fb @ concat ?ls" "fb_sink takes wr fl fb1 (length ((if ?b then [] @ fb_eol fl else []) @ s) + n)" by blast
  have "wrt fl (\<lambda>fb. fb_then h (if ?b then GWEN_FASTBUFFER_WRITELINE fb [] else Ret (0, fb)) rest) ((if ?b then [] @ fb_eol fl else []) @ s)"
    by (intro writes_then writes_opt writes_line assms(3)) simp
  from fb_writesD [OF this fb1(3)] obtain fb2 where "fb_then h (if ?b then GWEN_FASTBUFFER_WRITELINE fb1 [] else Ret (0, fb1)) rest = Ret (0, fb2)"
    "fb_sent sent fb2 = fb_sent sent fb1 @ (if ?b then [] @ fb_eol fl else []) @ s" "fb_sink takes wr fl fb2 n" by blast
  with fb1 show "\<exists>fb'. obind (db_write_values w (int i) name False cns fb) (\<lambda>(rv, namewritten, fb).
      if rv \<noteq> 0 then Ret (rv, fb) else fb_then h (if namewritten then GWEN_FASTBUFFER_WRITELINE fb [] else Ret (0, fb)) rest) = Ret (0, fb')
      \<and> fb_sent sent fb' = fb_sent sent fb @ lines_text fl ?ls @ s \<and> fb_sink takes wr fl fb' n"
    by (simp only: obind.simps prod.case t) simp
qed

lemma writes_gap: "wrt fl (\<lambda>fb. if has w GWEN_DB_FLAGS_ADD_GROUP_NEWLINES \<and> b then GWEN_FASTBUFFER_WRITELINE fb [] else Ret (0, fb))
    (lines_text fl (db_gap w b))"
  by (rule writes_eq, rule writes_opt, rule writes_line) (simp_all add: db_gap_def)

lemma writes_end:
  assumes "0 \<notin> set name"
  shows "wrt fl (\<lambda>fb. if has w GWEN_DB_FLAGS_DETAILED_GROUPS
      then fb_then (\<lambda>err. err) (fb_write_text fb [125, 32, 35]) (\<lambda>fb. GWEN_FASTBUFFER_WRITELINE fb name)
      else GWEN_FASTBUFFER_WRITELINE fb [125])
    ((if has w GWEN_DB_FLAGS_DETAILED_GROUPS then [125, 32, 35] @ name else [125]) @ fb_eol fl)"
  by (rule writes_eq, (rule assms sep_nul writes_then writes_if writes_text writes_line)+) simp

text \<open>A whole group, given what writes its children.\<close>

lemma writes_group:
  assumes "0 \<notin> set name" "in_int (int i + 2)" "wrt fl (db_write_nodes w (int i + 2) False kids) s"
  shows "wrt fl (\<lambda>fb. fb_then (\<lambda>err. err)
                (if has w GWEN_DB_FLAGS_ADD_GROUP_NEWLINES \<and> lv then GWEN_FASTBUFFER_WRITELINE fb [] else Ret (0, fb)) (\<lambda>fb.
              fb_then (\<lambda>err. err) (db_indent w (int i) fb) (\<lambda>fb.
              let tbuf = GWEN_DB_EscapeToBufferTolerant name
              in fb_then (\<lambda>err. err) (GWEN_FASTBUFFER_WRITEFORCED fb tbuf (sint (of_nat (length tbuf) :: u32))) (\<lambda>fb.
              fb_then (\<lambda>err. err) (GWEN_FASTBUFFER_WRITELINE fb [32, 123]) (\<lambda>fb.
              obind (ck (int i + 2)) (\<lambda>ins2.
              fb_then (\<lambda>err. err) (db_write_nodes w ins2 False kids fb) (\<lambda>fb.
              fb_then (\<lambda>err. err) (db_indent w (int i) fb) (\<lambda>fb.
              fb_then (\<lambda>err. err)
                (if has w GWEN_DB_FLAGS_DETAILED_GROUPS
                 then fb_then (\<lambda>err. err) (fb_write_text fb [125, 32, 35]) (\<lambda>fb. GWEN_FASTBUFFER_WRITELINE fb name)
                 else GWEN_FASTBUFFER_WRITELINE fb [125]) (\<lambda>fb.
                if has w GWEN_DB_FLAGS_ADD_GROUP_NEWLINES \<and> b then GWEN_FASTBUFFER_WRITELINE fb [] else Ret (0, fb))))))))))
     (lines_text fl (db_gap w lv) @ lines_text fl [db_begin_line w i name] @ s @ lines_text fl [db_end_line w i name] @ lines_text fl (db_gap w b))"
  using assms(2)
  by (simp only: ck_def if_True obind.simps Let_def)
    (rule writes_eq, (rule assms sep_nul writes_then writes_gap writes_indent writes_forced writes_end writes_line)+,
      simp only: db_begin_line_def db_end_line_def lines_text_simps append_assoc append_Nil append_Nil2)

text \<open>The indentation grows by less than the text does.\<close>

lemma writes_nodes:
  assumes "\<forall>n \<in> set ns. db_wf n \<and> db_typ n \<in> {NodeType_Group, NodeType_Var} \<and> db_writable n"
    "i + length (lines_text fl (db_lines w i lv ns)) < 2147483648"
  shows "wrt fl (db_write_nodes w (int i) lv ns) (lines_text fl (db_lines w i lv ns))"
  using assms
proof (induction w i lv ns rule: db_lines.induct)
  case (1 w i lv)
  have "db_write_nodes w (int i) lv [] = (\<lambda>fb :: 'a gwen_fast_buffer. Ret (0, fb))" by auto
  then show ?case by (simp add: db_lines.simps writes_nil)
next
  case (2 w i lv t f d cs ns)
  define name where "name = db_name (DbNode t f d cs)"
  define kids where "kids = (case cs of None \<Rightarrow> [] | Some kids \<Rightarrow> kids)"
  note defs = name_def [symmetric] kids_def [symmetric]
  have ns: "\<forall>n \<in> set ns. db_wf n \<and> db_typ n \<in> {NodeType_Group, NodeType_Var} \<and> db_writable n" using "2.prems"(1) by simp
  have n: "db_wf (DbNode t f d cs)" "t = NodeType_Group \<or> t = NodeType_Var" "db_writable (DbNode t f d cs)" using "2.prems"(1) by simp_all
  have w: "0 \<notin> set name" "list_all db_writable kids" using n(3) by (simp_all add: db_writable.simps defs)
  note eqs = db_lines.simps(2) [of w i lv t f d cs ns, unfolded Let_def defs]
  note unf = db_write_nodes.simps(2) [of w "int i" lv t f d cs ns, unfolded defs]
  show ?case
  proof (cases "has f GWEN_DB_NODE_FLAGS_VOLATILE")
    case True
    then have e: "db_lines w i lv (DbNode t f d cs # ns) = db_lines w i lv ns" unfolding eqs by simp
    have b: "i + length (lines_text fl (db_lines w i lv ns)) < 2147483648" using "2.prems"(2) unfolding e .
    show ?thesis
      unfolding e
      by (rule writes_cong [OF "2.IH"(1) [OF name_def kids_def True ns b]]) (subst unf, simp only: True if_True simp_thms)
  next
    case nv: False
    show ?thesis
    proof (cases "t = NodeType_Group")
      case True
      have kn: "\<forall>n \<in> set kids. db_wf n \<and> db_typ n \<in> {NodeType_Group, NodeType_Var} \<and> db_writable n"
        using n(1) w(2) True by (auto simp: db_wf.simps kids_def list_all_iff split: option.splits)
      show ?thesis
      proof (cases "has w GWEN_DB_FLAGS_WRITE_SUBGROUPS")
        case sub: True
        let ?s = "lines_text fl (db_lines w (i + 2) False kids)" and ?r = "lines_text fl (db_lines w i False ns)"
        have e: "lines_text fl (db_lines w i lv (DbNode t f d cs # ns)) = (lines_text fl (db_gap w lv) @ lines_text fl [db_begin_line w i name]
            @ ?s @ lines_text fl [db_end_line w i name] @ lines_text fl (db_gap w (ns \<noteq> []))) @ ?r"
          unfolding eqs using nv True sub by simp
        have long: "2 \<le> length (lines_text fl [db_begin_line w i name])" by (simp add: db_begin_line_def)
        have b: "i + 2 + length ?s < 2147483648" "i + length ?r < 2147483648"
          using "2.prems"(2) long unfolding e length_append by linarith+
        have "in_int (int i + 2)" using b(1) by (simp add: in_int_def)
        moreover have "wrt fl (db_write_nodes w (int i + 2) False kids) ?s"
          using "2.IH"(2) [OF name_def kids_def nv True sub kn b(1)] by (simp add: add.commute)
        ultimately have g: "wrt fl (db_write_nodes w (int i) False ns) ?r \<Longrightarrow> ?thesis"
          unfolding e
          by (rule writes_cong [OF writes_then [OF writes_group [OF w(1)]]])
            (assumption+, subst unf, simp only: nv True sub if_True if_False simp_thms)
        show ?thesis by (rule g) (rule "2.IH"(3) [OF name_def kids_def nv True ns b(2)])
      next
        case False
        have e: "db_lines w i lv (DbNode t f d cs # ns) = db_lines w i False ns" unfolding eqs using nv True False by simp
        have b: "i + length (lines_text fl (db_lines w i False ns)) < 2147483648" using "2.prems"(2) unfolding e .
        show ?thesis
          unfolding e
          by (rule writes_cong [OF "2.IH"(3) [OF name_def kids_def nv True ns b]])
            (subst unf, simp only: nv True False if_True if_False simp_thms fb_then_def obind.simps prod.case less_irrefl)
      qed
    next
      case ng: False
      then have t: "t = NodeType_Var" using n(2) by simp
      have vals: "\<forall>cn \<in> set kids. db_wf cn \<and> db_is_value cn \<and> db_value_fits cn" 
        using n(1) w(2) t by (auto simp: db_wf.simps kids_def list_all_iff db_writable_value split: option.splits)
      have e: "lines_text fl (db_lines w i lv (DbNode t f d cs # ns))
          = lines_text fl (db_var_lines w i name (db_texts w kids)) @ lines_text fl (db_lines w i True ns)"
        unfolding eqs using nv ng t by simp
      have b: "i + length (lines_text fl (db_lines w i True ns)) < 2147483648" using "2.prems"(2) unfolding e by simp
      from "2.IH"(4) [OF name_def kids_def nv ng t ns b]
      have r: "wrt fl (db_write_nodes w (int i) True ns) (lines_text fl (db_lines w i True ns))" .
      show ?thesis
        unfolding e
        by (rule writes_cong [OF writes_var [OF vals w(1) r]])
          (subst unf, simp only: nv ng t if_True if_False simp_thms gwen_db_node_type.distinct)
    qed
  qed
qed

end

section \<open>Writing a tree\<close>

text \<open>The text of a tree. Its own name is not part of it.\<close>

definition db_eol_flags :: "u32 \<Rightarrow> u32" where
  "db_eol_flags w = (if has w GWEN_DB_FLAGS_DOSMODE then GWEN_FAST_BUFFER_FLAGS_DOSMODE else 0)"

definition db_text :: "u32 \<Rightarrow> gwen_db_node \<Rightarrow> byte list" where
  "db_text w node = lines_text (db_eol_flags w) (db_lines w 0 False (db_kids node))"

definition db_printable :: "gwen_db_node \<Rightarrow> bool" where
  "db_printable node \<longleftrightarrow> db_wf node \<and> db_typ node = NodeType_Group \<and> db_writable node"

lemma new_fast_buffer:
  assumes "0 < unat sz"
  shows "db_fast_buffer sz w sio = Ret \<lparr>fb_io = sio, fb_bufferSize = sz, fb_bufferReadPos = 0, fb_bufferWritePos = 0,
      fb_flags = db_eol_flags w, fb_bytesWritten = 0, fb_bytesRead = 0, fb_buffer = replicate (unat sz + 1) 0\<rparr>"
  using assms
  by (auto simp: db_fast_buffer_def GWEN_FastBuffer_new_def GWEN_FastBuffer_AddFlags_def db_eol_flags_def oassert_def)

context io_sink
begin

lemma WriteToFastBuffer_ok:
  assumes "db_printable node" "fb_sink takes wr (db_eol_flags w) fb (length (db_text w node) + n)"
  shows "\<exists>fb'. GWEN_DB_WriteToFastBuffer node fb w = Ret (0, fb') \<and> sent (sio_data (fb_io fb')) = fb_sent sent fb @ db_text w node
    \<and> sio_sink takes wr (fb_io fb') n"
proof -
  let ?fl = "db_eol_flags w"
  have kids: "\<forall>n \<in> set (db_kids node). db_wf n \<and> db_typ n \<in> {NodeType_Group, NodeType_Var} \<and> db_writable n"
    using assms(1) by (cases node) (auto simp: db_printable_def db_kids_def db_wf.simps db_writable.simps list_all_iff split: option.splits)
  have "length (db_text w node) < 2147483648" using assms(2) by (auto simp: fb_sink_def sio_sink_def)
  then have "wrt ?fl (db_write_nodes w (int 0) False (db_kids node)) (db_text w node)"
    unfolding db_text_def by (intro writes_nodes kids) simp
  from fb_writesD [OF this assms(2)] obtain fb1 where fb1: "GWEN_DB_WriteGroupToIoLayer node fb w 0 = Ret (0, fb1)"
    "fb_sent sent fb1 = fb_sent sent fb @ db_text w node" "fb_sink takes wr ?fl fb1 n"
    by (auto simp: GWEN_DB_WriteGroupToIoLayer_def db_kids_def)
  obtain fb2 where fb2: "GWEN_FASTBUFFER_FLUSH fb1 = Ret (0, fb2)" "fb_sink takes wr ?fl fb2 n" "fb_sent sent fb2 = fb_sent sent fb1"
    "fb_bufferWritePos fb2 = 0" by (rule FLUSH_ok [OF fb1(3)])
  have "sent (sio_data (fb_io fb2)) = fb_sent sent fb2" "sio_sink takes wr (fb_io fb2) n"
    using fb2(2,4) by (simp_all add: fb_sent_def fb_sink_def)
  with fb1 fb2 show ?thesis by (auto simp: GWEN_DB_WriteToFastBuffer_def fb_then_def)
qed

lemma WriteToIo_ok:
  assumes "db_printable node" "sio_sink takes wr sio (length (db_text w node) + n)"
  shows "\<exists>sio'. GWEN_DB_WriteToIo node sio w = Ret (0, sio') \<and> sent (sio_data sio') = sent (sio_data sio) @ db_text w node
    \<and> sio_sink takes wr sio' n"
proof -
  obtain fb where fb: "db_fast_buffer 512 w sio = Ret fb" "fb_sink takes wr (db_eol_flags w) fb (length (db_text w node) + n)"
    "fb_sent sent fb = sent (sio_data sio)"
    using assms(2) new_fast_buffer [of 512 w sio] by (auto simp: fb_sink_def fb_sent_def)
  from WriteToFastBuffer_ok [OF assms(1) fb(2)] fb(1,3) show ?thesis by (auto simp: GWEN_DB_WriteToIo_def)
qed

end

text \<open>Into a buffer: the text is appended to what is in it.\<close>

lemma WriteToBuffer_ok:
  assumes "db_printable node" "room b (length (db_text w node) + n)" "length (db_text w node) + n < rounds" "length (db_text w node) + n < 2147483648"
  shows "\<exists>b'. GWEN_DB_WriteToBuffer rounds node b w = Ret (0, Some b') \<and> contents b' = contents b @ db_text w node \<and> room b' n"
proof -
  let ?xio = "\<lparr>mem_buffer = Some b, mem_own = False\<rparr>"
  obtain sio where sio: "GWEN_SyncIo_Memory_new 0 (\<lambda>_. 0) (\<lambda>_. True) rounds (Some b) False = Ret sio" "sio_data sio = ?xio"
    "sio_sink mem_room GWEN_SyncIo_Memory_Write sio (length (db_text w node) + n)"
    using assms(2-4)
    by (simp add: GWEN_SyncIo_Memory_new_def memory_layer_def GWEN_SyncIo_new_def GWEN_SyncIo_SetReadFn_def GWEN_SyncIo_SetWriteFn_def
        GWEN_SyncIo_SetStatus_def sio_alive_def oassert_def sio_sink_def mem_room_def)
  from mem.WriteToIo_ok [OF assms(1) sio(3)] obtain sio' where "GWEN_DB_WriteToIo node sio w = Ret (0, sio')"
    "mem_sent (sio_data sio') = mem_sent (sio_data sio) @ db_text w node" "sio_sink mem_room GWEN_SyncIo_Memory_Write sio' n" by blast
  with sio show ?thesis
    by (auto simp: GWEN_DB_WriteToBuffer_def GWEN_SyncIo_Memory_GetBuffer_def mem_sent_def sio_sink_def mem_room_def split: option.splits)
qed

end
