(* ===== verification/Gwen_DBParse.thy ===== *)
theory Gwen_DBParse
  imports Gwen_DBLines Gwen_DBGet
begin

text \<open>
  Reading the text of a configuration tree: every line that the writer makes of a node is what the reader needs to make that
  node again.
\<close>

section \<open>Reading into a node\<close>

text \<open>The node at \<open>p\<close>, without flags, and the tree with another one there.\<close>

abbreviation db_here :: "gwen_db_node \<Rightarrow> db_pos \<Rightarrow> gwen_db_node \<Rightarrow> bool" where
  "db_here r p x \<equiv> db_at (db_erase r) p = Some x"

abbreviation db_becomes :: "gwen_db_node \<Rightarrow> db_pos \<Rightarrow> gwen_db_node \<Rightarrow> gwen_db_node \<Rightarrow> bool" where
  "db_becomes r p x r' \<equiv> db_erase r' = db_upd (\<lambda>_. x) p (db_erase r)"

lemma becomes_here: "db_here r p x \<Longrightarrow> db_becomes r p y r' \<Longrightarrow> db_here r' p y"
  using db_at_upd_same [of "db_erase r" p x "\<lambda>_. y"] by simp

lemma becomes_trans: "db_becomes r p x r1 \<Longrightarrow> db_becomes r1 p y r2 \<Longrightarrow> db_becomes r p y r2"
  by (simp add: db_upd_upd)

lemma becomes_below:
  assumes "db_becomes r p (DbNode t 0 d (Some (cs @ [x]))) r1" "db_becomes r1 (p @ [length cs]) y r2"
  shows "db_becomes r p (DbNode t 0 d (Some (cs @ [y]))) r2"
  using assms by (simp add: db_upd_append db_upd_upd)

lemma append_here:
  assumes "db_here r p (DbNode t 0 d (Some cs))"
  obtains r' where "GWEN_DB_Node_Append r p nn = Ret (r', p @ [length cs])" "db_becomes r p (DbNode t 0 d (Some (cs @ [db_erase nn]))) r'"
proof -
  from assms obtain m where m: "db_at r p = Some m" "db_erase m = DbNode t 0 d (Some cs)" by (auto simp: db_at_erase)
  then obtain l where l: "db_children m = Some l" "map db_erase l = cs" "db_typ m = t" "db_data m = d" by (cases m) auto
  obtain r' where r': "GWEN_DB_Node_Append r p nn = Ret (r', p @ [length l])" "kids_set p (l @ [nn]) r r'"
    by (rule db_append_ok [OF m(1) l(1)])
  have "db_erase r' = db_upd (db_with_children (\<lambda>_. map db_erase (l @ [nn]))) p (db_erase r)"
    using r'(2) unfolding kids_set_def by blast
  also have "\<dots> = db_upd (\<lambda>_. DbNode t 0 d (Some (cs @ [db_erase nn]))) p (db_erase r)"
    using db_upd_const [OF assms, of "db_with_children (\<lambda>_. map db_erase (l @ [nn]))"] l(2) by (simp add: db_with_children_def)
  finally show thesis using r'(1) l(2) by (intro that) auto
qed

section \<open>Names as paths\<close>

text \<open>Flags that create every group and every variable that is not there.\<close>

definition db_rd_flags :: "u32 \<Rightarrow> bool" where
  "db_rd_flags rd \<longleftrightarrow> rd AND 0x42021fff = GWEN_PATH_FLAGS_CREATE_GROUP"

lemma masked_and: "w AND msk = v \<Longrightarrow> s AND msk = s \<Longrightarrow> w AND s = v AND s" for s :: u32
  by (metis and.assoc and.commute)

lemma rd_bits:
  assumes "db_rd_flags rd"
  shows "bit rd 5" "k < 13 \<Longrightarrow> k \<noteq> 5 \<Longrightarrow> \<not> bit rd k" "\<not> bit rd 30" "\<not> has rd GWEN_DB_FLAGS_OVERWRITE_GROUPS"
    "\<not> has rd GWEN_DB_FLAGS_UNTIL_EMPTY_LINE"
proof -
  have b: "bit (rd AND 0x42021fff) k = bit (GWEN_PATH_FLAGS_CREATE_GROUP) k" for k using assms by (simp add: db_rd_flags_def)
  have k: "k < 13 \<Longrightarrow> k \<in> {0, 1, 2, 3, 4, 5, 6, 7, 8, 9, 10, 11, 12}" for k :: nat
    by (simp only: insert_iff empty_iff) presburger
  show "bit rd 5" "\<not> bit rd 30" using b [of 5] b [of 30] by (simp_all add: path_flags bit_simps)
  show "\<not> bit rd k" if "k < 13" "k \<noteq> 5"
    using k [OF that(1)] that(2) b [of k] by (elim insertE emptyE) (simp_all add: path_flags bit_simps)
  show "\<not> has rd GWEN_DB_FLAGS_OVERWRITE_GROUPS" "\<not> has rd GWEN_DB_FLAGS_UNTIL_EMPTY_LINE"
    using masked_and [OF assms [unfolded db_rd_flags_def], where s = "0x20000"] masked_and [OF assms [unfolded db_rd_flags_def], where s = "0x02000000"]
    by (simp_all add: db_rd_flags_def db_flags GWEN_DB_FLAGS_UNTIL_EMPTY_LINE_def path_flags)
qed

lemma has_insert: "has fl GWEN_DB_FLAGS_INSERT \<longleftrightarrow> bit fl 30"
  using and_exp_eq_0_iff_not_bit [of fl 30] by (simp add: db_flags)

lemma bit_elem_30: "bit (path_elem_flags orig s rest p) 30 = bit orig 30"
  by (simp add: path_elem_flags_def Let_def path_flags bit_simps)

definition db_elem :: "byte list \<Rightarrow> bool" where
  "db_elem name \<longleftrightarrow> name \<noteq> [] \<and> \<not> isspace (hd name) \<and> 47 \<notin> set name \<and> 92 \<notin> set name \<and> 91 \<notin> set name"

lemma path_loop_nil: "path_loop index f fl s [] st obj = Ret (st, Some obj)"
  by (simp add: path_loop.simps [of _ _ _ _ "[]"])

lemma GetNode_elem:
  assumes "db_elem name" "\<not> bit fl 8"
  shows "GWEN_DB_GetNode r n name fl = GWEN_DB_HandlePath name r n 0 (path_elem_flags fl False [] [])"
proof -
  obtain c cs where name: "name = c # cs" using assms(1) by (cases name) (auto simp: db_elem_def)
  have sl: "\<forall>c \<in> set name. \<not> is_slash c" using assms(1) by (auto simp: db_elem_def is_slash_def)
  then have h: "dropWhile isspace name = name" "\<not> is_slash c" "dropWhile is_slash name = name"
    using assms(1) name by (auto simp: db_elem_def)
  have t: "takeWhile (\<lambda>c. \<not> is_slash c) name = name" "path_rest name = []" using sl by (simp_all add: takeWhile_eq_all_conv)
  have l: "\<not> is_slash (last name)" "name \<noteq> []" "91 \<notin> set name" using sl name assms(1) by (auto simp: db_elem_def)
  have "GWEN_DB_GetNode r n name fl = path_loop path_index GWEN_DB_HandlePath fl False name r n"
    using h name by (simp add: GWEN_DB_GetNode_def GWEN_Path_HandleWithIdx_def path_handle_def)
  also have "\<dots> = obind (GWEN_DB_HandlePath name r n 0 (path_elem_flags fl False [] []))
      (\<lambda>(st, r). case r of None \<Rightarrow> Ret (st, None) | Some obj \<Rightarrow> Ret (st, Some obj))"
    using path_loop_plain [OF l(2,3,1) assms(2), of GWEN_DB_HandlePath r n]
    by (simp only: t dropWhile.simps path_loop_nil)
  also have "\<dots> = GWEN_DB_HandlePath name r n 0 (path_elem_flags fl False [] [])"
    by (cases "GWEN_DB_HandlePath name r n 0 (path_elem_flags fl False [] [])") (auto split: option.splits)
  finally show ?thesis .
qed

text \<open>A variable of a new name is created, and so is a group of any name.\<close>

lemma create_here:
  assumes "db_here r p (DbNode t 0 d (Some cs))" "\<not> bit fl 30"
  obtains r' where "db_create r p name 0 fl = Ret (r', Some (p @ [length cs]))"
    "db_becomes r p (DbNode t 0 d (Some (cs @ [if has fl GWEN_PATH_FLAGS_VARIABLE then GWEN_DB_Var_new name else GWEN_DB_Group_new name]))) r'"
proof -
  let ?nn = "if has fl GWEN_PATH_FLAGS_VARIABLE then GWEN_DB_Var_new name else GWEN_DB_Group_new name"
  obtain r' where "GWEN_DB_Node_Append r p ?nn = Ret (r', p @ [length cs])" "db_becomes r p (DbNode t 0 d (Some (cs @ [db_erase ?nn]))) r'"
    by (rule append_here [OF assms(1)])
  moreover have "db_erase ?nn = ?nn" by (simp add: GWEN_DB_Var_new_def GWEN_DB_Group_new_def GWEN_DB_Node_new_def)
  ultimately show thesis using assms(2) by (intro that [of r']) (simp_all add: db_create_def has_insert)
qed

lemma new_group_here:
  assumes "db_here r p (DbNode NodeType_Group 0 d (Some cs))" "db_rd_flags rd" "db_elem name"
  obtains r' where "GWEN_DB_GetGroup r p rd name = Ret (r', Some (p @ [length cs]))"
    "db_becomes r p (DbNode NodeType_Group 0 d (Some (cs @ [GWEN_DB_Group_new name]))) r'"
proof -
  let ?fl = "rd AND NOT GWEN_PATH_FLAGS_VARIABLE" and ?e = "path_elem_flags (rd AND NOT GWEN_PATH_FLAGS_VARIABLE) False [] []"
  note bits = rd_bits [OF assms(2)]
  have fl: "\<not> bit ?fl 8" "\<not> bit ?fl 30" "bit ?fl 5" "\<not> bit ?fl 7" using bits(1,3) bits(2) [of 8] by (simp_all add: bit_simps path_flags)
  then have e: "\<not> bit ?e 30" "bit ?e 5" "\<not> bit ?e 7" "bit ?e 14" by (simp_all add: bit_elem_30 bit_elem_flags)
  obtain r' where "db_create r p name 0 ?e = Ret (r', Some (p @ [length cs]))"
    "db_becomes r p (DbNode NodeType_Group 0 d (Some (cs @ [if has ?e GWEN_PATH_FLAGS_VARIABLE then GWEN_DB_Var_new name else GWEN_DB_Group_new name]))) r'"
    by (rule create_here [OF assms(1) e(1)])
  then show thesis
    using e bits(4) by (intro that [of r']) (simp_all add: GWEN_DB_GetGroup_def GetNode_elem [OF assms(3) fl(1)] GWEN_DB_HandlePath_def has_bit)
qed

definition db_keys :: "gwen_db_node list \<Rightarrow> byte list list" where
  "db_keys cs = map (\<lambda>c. map tolower (db_name c)) (filter (\<lambda>c. db_typ c = NodeType_Var) cs)"

lemma find_new_var:
  assumes "db_here r p (DbNode NodeType_Group 0 d (Some cs))" "map tolower name \<notin> set (db_keys cs)"
  shows "db_find NodeType_Var r p name 0 = Ret None"
proof -
  have "\<forall>c \<in> set cs. \<not> (db_typ c = NodeType_Var \<and> same_name (db_name c) name)" using assms(2) by (simp add: db_keys_def same_name_def image_iff) metis
  with db_nth_0_None [of "\<lambda>c. db_typ c = NodeType_Var \<and> same_name (db_name c) name" cs 0]
  have "db_find NodeType_Var (db_erase r) p name 0 = Ret None"
    using assms(1) by (simp add: db_find_def db_node_def)
  then show ?thesis by (simp add: db_find_erase)
qed

lemma new_var_here:
  assumes "db_here r p (DbNode NodeType_Group 0 d (Some cs))" "db_rd_flags rd" "db_elem name" "map tolower name \<notin> set (db_keys cs)"
  obtains r' where "GWEN_DB_GetNode r p name (rd OR GWEN_PATH_FLAGS_VARIABLE) = Ret (r', Some (p @ [length cs]))"
    "db_becomes r p (DbNode NodeType_Group 0 d (Some (cs @ [GWEN_DB_Var_new name]))) r'"
proof -
  let ?fl = "rd OR GWEN_PATH_FLAGS_VARIABLE" and ?e = "path_elem_flags (rd OR GWEN_PATH_FLAGS_VARIABLE) False [] []"
  note bits = rd_bits [OF assms(2)]
  have fl: "\<not> bit ?fl 8" "\<not> bit ?fl 30" "\<not> bit ?fl 6" "\<not> bit ?fl 3" "bit ?fl 7"
    using bits(3) bits(2) [of 8] bits(2) [of 6] bits(2) [of 3] by (simp_all add: bit_simps path_flags)
  then have e: "\<not> bit ?e 30" "\<not> bit ?e 6" "\<not> bit ?e 3" "bit ?e 7" "bit ?e 14" by (simp_all add: bit_elem_30 bit_elem_flags)
  obtain r' where "db_create r p name 0 ?e = Ret (r', Some (p @ [length cs]))"
    "db_becomes r p (DbNode NodeType_Group 0 d (Some (cs @ [if has ?e GWEN_PATH_FLAGS_VARIABLE then GWEN_DB_Var_new name else GWEN_DB_Group_new name]))) r'"
    by (rule create_here [OF assms(1) e(1)])
  then show thesis
    using e find_new_var [OF assms(1,4)]
    by (intro that [of r']) (simp_all add: GetNode_elem [OF assms(3) fl(1)] GWEN_DB_HandlePath_def GWEN_DB_FindVar_def has_bit)
qed

section \<open>Values\<close>

text \<open>Flags of a writer whose text can be read: with groups, types and quoted, escaped values; names without quotes.\<close>

definition db_wr_flags :: "u32 \<Rightarrow> bool" where
  "db_wr_flags w \<longleftrightarrow> w AND 0x141c0000 = GWEN_DB_FLAGS_WRITE_SUBGROUPS OR GWEN_DB_FLAGS_QUOTE_VALUES OR GWEN_DB_FLAGS_ESCAPE_CHARVALUES"

lemma wr_has:
  assumes "db_wr_flags w"
  shows "has w GWEN_DB_FLAGS_WRITE_SUBGROUPS" "has w GWEN_DB_FLAGS_QUOTE_VALUES" "has w GWEN_DB_FLAGS_ESCAPE_CHARVALUES"
    "\<not> has w GWEN_DB_FLAGS_QUOTE_VARNAMES" "\<not> has w GWEN_DB_FLAGS_OMIT_TYPES"
proof -
  have w: "w AND 0x141c0000 = 0x10180000"
    using assms by (simp add: db_wr_flags_def GWEN_DB_FLAGS_WRITE_SUBGROUPS_def GWEN_DB_FLAGS_QUOTE_VALUES_def GWEN_DB_FLAGS_ESCAPE_CHARVALUES_def)
  show "has w GWEN_DB_FLAGS_WRITE_SUBGROUPS" "has w GWEN_DB_FLAGS_QUOTE_VALUES" "has w GWEN_DB_FLAGS_ESCAPE_CHARVALUES"
    "\<not> has w GWEN_DB_FLAGS_QUOTE_VARNAMES" "\<not> has w GWEN_DB_FLAGS_OMIT_TYPES"
    using masked_and [OF w, of "0x100000"] masked_and [OF w, of "0x80000"] masked_and [OF w, of "0x10000000"] masked_and [OF w, of "0x40000"]
      masked_and [OF w, of "0x04000000"]
    by (simp_all add: GWEN_DB_FLAGS_WRITE_SUBGROUPS_def GWEN_DB_FLAGS_QUOTE_VALUES_def GWEN_DB_FLAGS_ESCAPE_CHARVALUES_def
        GWEN_DB_FLAGS_QUOTE_VARNAMES_def GWEN_DB_FLAGS_OMIT_TYPES_def)
qed

lemma percent_pair: "hex_pair x = [a, b] \<Longrightarrow> db_percent a b = x"
proof -
  assume "hex_pair x = [a, b]"
  then have ab: "a = hex_digit (drop_bit 4 x AND 15)" "b = hex_digit (x AND 15)" by (simp_all add: hex_pair_def)
  have bits: "n < 8 \<Longrightarrow> n \<in> {0, 1, 2, 3, 4, 5, 6, 7}" for n :: nat by auto
  have "push_bit 4 (drop_bit 4 x AND 15) OR (x AND 15) = x"
    by (rule bit_word_eqI) (use bits in \<open>force simp: bit_simps\<close>)
  then show ?thesis by (simp add: ab db_percent_def hex_digit_facts(1) [OF nibble_le])
qed

lemma scan_escaped:
  assumes "\<And>c. safe c \<Longrightarrow> c \<noteq> 34 \<and> c \<noteq> 37"
  shows "db_scan_value True (escaped safe s @ 34 # rest) = Some (s, rest)"
proof (induction s)
  case (Cons x s)
  obtain a b where ab: "hex_pair x = [a, b]" by (rule hex_pair_obtain)
  then show ?case using Cons assms [of x] percent_pair [OF ab] by auto
qed simp

lemma scan_plain:
  assumes "\<forall>c \<in> set s. c \<noteq> 34 \<and> c \<noteq> 37"
  shows "db_scan_value True (s @ 34 # rest) = Some (s, rest)"
  using assms by (induction s) auto

lemma from_hex_text: "db_from_hex (concat (map hex_pair b)) = Some b"
proof (induction b)
  case (Cons x b)
  obtain c d where cd: "hex_pair x = [c, d]" by (rule hex_pair_obtain)
  then show ?case using Cons hex_pair_facts [OF cd] by simp
qed simp

text \<open>The bytes of digits and of escaped text.\<close>

definition db_plain :: "byte \<Rightarrow> bool" where
  "db_plain c \<longleftrightarrow> text_alnum c \<or> c = 45"

lemma db_plain_not: "db_plain c \<Longrightarrow> c \<notin> {0, 10, 13, 34, 37}"
  by (auto simp: db_plain_def text_alnum_def)

lemma hex_text_plain: "\<forall>c \<in> set (concat (map hex_pair b)). db_plain c"
proof (induction b)
  case (Cons x b)
  obtain c d where cd: "hex_pair x = [c, d]" by (rule hex_pair_obtain)
  then show ?case using Cons hex_pair_facts [OF cd] by (auto simp: db_plain_def)
qed simp

lemma int_text_plain: "\<forall>c \<in> set (int_text i). db_plain c"
  using dec_digits_props [of "nat i"] dec_digits_props [of "nat (- i)"]
  by (auto simp: int_text_def db_plain_def text_alnum_def isdigit_def list_all_iff)

text \<open>What may stand in a line.\<close>

definition db_line_char :: "byte \<Rightarrow> bool" where
  "db_line_char c \<longleftrightarrow> c \<notin> {0, 10, 13}"

lemma str_line_chars: "\<forall>c \<in> set (str ''char ''). db_line_char c" "\<forall>c \<in> set (str ''int  ''). db_line_char c"
  "\<forall>c \<in> set (str ''bin  ''). db_line_char c"
  by (simp_all add: str_def db_line_char_def)

lemma value_text_clean:
  assumes "has w GWEN_DB_FLAGS_ESCAPE_CHARVALUES" "db_value_text w cn = Some (t, s)"
  shows "\<forall>c \<in> set t. db_line_char c" "\<forall>c \<in> set s. db_line_char c"
proof -
  have e: "\<forall>c \<in> set (escaped text_tolerant_buf u). db_line_char c" for u
    using escaped_alnum [of text_tolerant_buf u] by (fastforce simp: text_tolerant_buf_def text_alnum_def db_line_char_def)
  have p: "db_plain c \<Longrightarrow> db_line_char c" for c by (auto simp: db_plain_def text_alnum_def db_line_char_def)
  show "\<forall>c \<in> set t. db_line_char c" "\<forall>c \<in> set s. db_line_char c"
    using assms str_line_chars e p hex_text_plain int_text_plain
    by (auto simp: db_value_text_def simp del: set_concat split: gwen_db_data.splits)
qed

text \<open>The text of a value is read as that value.\<close>

lemma value_read:
  assumes "db_wf cn" "db_is_value cn" "db_value_fits cn" "has w GWEN_DB_FLAGS_ESCAPE_CHARVALUES" "db_value_text w cn = Some (t, s)"
  obtains u v where "db_scan_value True (s @ 34 # rest) = Some (u, rest)"
    "db_parse_value (db_typ cn) (takeWhile (\<lambda>c. c \<noteq> 0) u) = Ret (Some v)" "db_erase v = db_erase cn"
proof (cases cn)
  case (DbNode ty f d cs)
  have id: "takeWhile (\<lambda>c. c \<noteq> 0) u = u" if "0 \<notin> set u" for u :: "byte list"
    using that by (auto simp: takeWhile_eq_all_conv)
  show thesis
  proof (cases d)
    case (DataChar u)
    then have ty: "ty = NodeType_ValueChar" "cs = None" using assms(1) DbNode by (auto simp: db_wf.simps)
    have u: "0 \<notin> set u" using assms(3) DbNode DataChar by (simp add: db_value_fits_def)
    have "text_tolerant_buf c \<Longrightarrow> c \<noteq> 34 \<and> c \<noteq> 37" for c by (auto simp: text_tolerant_buf_def text_alnum_def)
    note scan = scan_escaped [of text_tolerant_buf u rest, OF this]
    have v: "db_parse_value NodeType_ValueChar (takeWhile (\<lambda>c. c \<noteq> 0) u) = Ret (Some (GWEN_DB_ValueChar_new (Some u)))"
      unfolding id [OF u] by (simp add: db_parse_value_def)
    from scan assms(4,5) v show thesis
      using DbNode DataChar ty
      by (intro that [of u "GWEN_DB_ValueChar_new (Some u)"])
        (auto simp: db_value_text_def GWEN_DB_ValueChar_new_def GWEN_DB_Node_new_def)
  next
    case (DataInt i)
    then have ty: "ty = NodeType_ValueInt" "cs = None" using assms(1) DbNode by (auto simp: db_wf.simps)
    have i: "in_int i" using assms(3) DbNode DataInt by (simp add: db_value_fits_def)
    have p: "\<forall>c \<in> set (int_text i). c \<noteq> 34 \<and> c \<noteq> 37" "0 \<notin> set (int_text i)" using int_text_plain [of i] db_plain_not by blast+
    have v: "db_parse_value NodeType_ValueInt (takeWhile (\<lambda>c. c \<noteq> 0) (int_text i)) = Ret (Some (GWEN_DB_ValueInt_new i))"
      unfolding id [OF p(2)] by (simp add: db_parse_value_def sscanf_int_text [OF i])
    from scan_plain [OF p(1), of rest] assms(5) v show thesis
      using DbNode DataInt ty
      by (intro that [of "int_text i" "GWEN_DB_ValueInt_new i"])
        (auto simp: db_value_text_def GWEN_DB_ValueInt_new_def GWEN_DB_Node_new_def)
  next
    case (DataBin b)
    then have ty: "ty = NodeType_ValueBin" "cs = None" using assms(1) DbNode by (auto simp: db_wf.simps)
    let ?h = "concat (map hex_pair b)"
    have p: "\<forall>c \<in> set ?h. c \<noteq> 34 \<and> c \<noteq> 37" "0 \<notin> set ?h" using hex_text_plain [of b] db_plain_not by blast+
    have v: "db_parse_value NodeType_ValueBin (takeWhile (\<lambda>c. c \<noteq> 0) ?h) = Ret (Some (GWEN_DB_ValueBin_new b))"
      unfolding id [OF p(2)] by (simp add: db_parse_value_def from_hex_text)
    from scan_plain [OF p(1), of rest] assms(5) v show thesis
      using DbNode DataBin ty
      by (intro that [of ?h "GWEN_DB_ValueBin_new b"])
        (auto simp: db_value_text_def GWEN_DB_ValueBin_new_def GWEN_DB_Node_new_def)
  qed (use assms(5) DbNode in \<open>simp_all add: db_value_text_def\<close>)
qed

lemma dropWhile_blanks: "\<forall>c \<in> set bl. isspace c \<Longrightarrow> \<not> isspace c \<Longrightarrow> dropWhile isspace (bl @ c # p) = c # p"
  by (induction bl) auto

lemma isspace_simps [simp]: "isspace 10" "isspace 13" "isspace 32" "\<not> isspace 34" "\<not> isspace 44" "\<not> isspace 61" "\<not> isspace 58" "\<not> isspace 123" "\<not> isspace 125"
  by (simp_all add: isspace_def)

text \<open>One value and what follows it.\<close>

lemma read_values_step:
  assumes "db_scan_value True p = Some (u, rest)" "db_parse_value kind (takeWhile (\<lambda>c. c \<noteq> 0) u) = Ret (Some v)"
    "GWEN_DB_Node_Append r m v = Ret (r', k)" "\<forall>c \<in> set bl. isspace c"
  shows "rest = [] \<Longrightarrow> db_read_values kind (bl @ 34 # p) r m = Ret (0, r')"
    "rest = 44 # q \<Longrightarrow> db_read_values kind (bl @ 34 # p) r m = db_read_values kind q r' m"
  using assms(1-3) dropWhile_blanks [OF assms(4), of 34 p]
  by (simp_all add: db_read_values.simps [of kind "bl @ 34 # p"])

lemma read_values_text:
  assumes "\<forall>cn \<in> set (cn # cns). db_wf cn \<and> db_is_value cn \<and> db_value_fits cn \<and> db_typ cn = kind \<and> db_value_text w cn \<noteq> None"
    "db_wr_flags w" "db_here r m (DbNode ty 0 d (Some cs))" "\<forall>c \<in> set bl. isspace c"
  shows "\<exists>r'. db_read_values kind (bl @ db_quoted True (snd (the (db_value_text w cn))) @ db_more_values w (db_texts w cns)) r m = Ret (0, r')
    \<and> db_becomes r m (DbNode ty 0 d (Some (cs @ map db_erase (cn # cns)))) r'"
  using assms
proof (induction cns arbitrary: cn r cs bl)
  case Nil
  then obtain t s where ts: "db_value_text w cn = Some (t, s)" by auto
  obtain u v where v: "db_scan_value True (s @ 34 # []) = Some (u, [])" "db_parse_value kind (takeWhile (\<lambda>c. c \<noteq> 0) u) = Ret (Some v)"
    "db_erase v = db_erase cn"
    using value_read [OF _ _ _ wr_has(3) [OF Nil.prems(2)] ts] Nil.prems(1) by (metis list.set_intros(1))
  obtain r' where r': "GWEN_DB_Node_Append r m v = Ret (r', m @ [length cs])" "db_becomes r m (DbNode ty 0 d (Some (cs @ [db_erase v]))) r'"
    by (rule append_here [OF Nil.prems(3)])
  from read_values_step(1) [OF v(1,2) r'(1) Nil.prems(4) refl] r'(2) v(3) ts show ?case
    by (simp add: db_quoted_def db_more_values_def db_texts_def map_filter_simps)
next
  case (Cons cn' cns)
  then obtain t s where ts: "db_value_text w cn = Some (t, s)" by auto
  obtain t' s' where ts': "db_value_text w cn' = Some (t', s')" using Cons.prems(1) by auto
  let ?q = "[32] @ db_quoted True (snd (the (db_value_text w cn'))) @ db_more_values w (db_texts w cns)"
  have more: "db_more_values w (db_texts w (cn' # cns)) = 44 # ?q"
    using ts' wr_has(2) [OF Cons.prems(2)] by (simp add: db_texts_def map_filter_simps db_more_values_def)
  obtain u v where v: "db_scan_value True (s @ 34 # 44 # ?q) = Some (u, 44 # ?q)" "db_parse_value kind (takeWhile (\<lambda>c. c \<noteq> 0) u) = Ret (Some v)"
    "db_erase v = db_erase cn"
    using value_read [OF _ _ _ wr_has(3) [OF Cons.prems(2)] ts, of "44 # ?q"] Cons.prems(1) by (metis list.set_intros(1))
  obtain r1 where r1: "GWEN_DB_Node_Append r m v = Ret (r1, m @ [length cs])" "db_becomes r m (DbNode ty 0 d (Some (cs @ [db_erase v]))) r1"
    by (rule append_here [OF Cons.prems(3)])
  have "\<forall>c \<in> set [32]. isspace c" "\<forall>cn \<in> set (cn' # cns). db_wf cn \<and> db_is_value cn \<and> db_value_fits cn \<and> db_typ cn = kind \<and> db_value_text w cn \<noteq> None"
    using Cons.prems(1) by simp_all
  from Cons.IH [OF this(2) Cons.prems(2) becomes_here [OF Cons.prems(3) r1(2)] this(1)] obtain r2 where
    r2: "db_read_values kind ?q r1 m = Ret (0, r2)" "db_becomes r1 m (DbNode ty 0 d (Some ((cs @ [db_erase v]) @ map db_erase (cn' # cns)))) r2" by blast
  have "db_read_values kind (bl @ 34 # s @ 34 # 44 # ?q) r m = Ret (0, r2)"
    using read_values_step(2) [OF v(1,2) r1(1) Cons.prems(4) refl] r2(1) by (simp only:)
  moreover have "bl @ db_quoted True (snd (the (db_value_text w cn))) @ db_more_values w (db_texts w (cn' # cns)) = bl @ 34 # s @ 34 # 44 # ?q"
    using ts by (simp only: more db_quoted_def) simp
  moreover have "db_becomes r m (DbNode ty 0 d (Some (cs @ map db_erase (cn # cn' # cns)))) r2"
    using becomes_trans [OF r1(2) r2(2)] v(3) by simp
  ultimately show ?case by (intro exI [of _ r2] conjI) (simp only:)
qed

section \<open>Lines\<close>

definition db_var_name_ok :: "byte list \<Rightarrow> bool" where
  "db_var_name_ok name \<longleftrightarrow> name \<noteq> [] \<and> list_all (\<lambda>c. \<not> isspace c \<and> c \<notin> {0, 44, 47, 58, 59, 61, 91, 92, 123, 125}) name"

definition db_group_name_ok :: "byte list \<Rightarrow> bool" where
  "db_group_name_ok name \<longleftrightarrow> name \<noteq> [] \<and> \<not> isspace (hd name) \<and> list_all (\<lambda>c. c \<notin> {0, 10, 13, 44, 47, 91, 92}) name"

lemma name_elem: "db_var_name_ok name \<Longrightarrow> db_elem name" "db_group_name_ok name \<Longrightarrow> db_elem name"
  by (auto simp: db_var_name_ok_def db_group_name_ok_def db_elem_def list_all_iff)

lemma takeWhile_stop: "\<forall>c \<in> set a. P c \<Longrightarrow> \<not> P b \<Longrightarrow> takeWhile P (a @ b # r) = a" "\<forall>c \<in> set a. P c \<Longrightarrow> \<not> P b \<Longrightarrow> dropWhile P (a @ b # r) = b # r"
  by (induction a) auto

lemma alnum_not_end: "text_alnum c \<Longrightarrow> \<not> db_token_end rd c \<and> \<not> isspace c \<and> c \<notin> {0, 35, 125}"
proof -
  assume a: "text_alnum c"
  then have "\<not> isspace c" by (auto simp: text_alnum_def isspace_def word_le_nat_alt)
  with a show ?thesis by (auto simp: text_alnum_def db_token_end_def)
qed

lemma token_line_var:
  assumes "kw \<noteq> []" "\<forall>c \<in> set kw. text_alnum c" "db_var_name_ok name" "e = (if has rd GWEN_DB_FLAGS_USE_COLON then 58 else 61)"
  shows "db_read_token_line rd (kw @ 32 # replicate k 32 @ name @ e # rest) (r, p, lev)
    = obind (GWEN_DB__ReadValues r p rd (Some kw) name rest) (\<lambda>(rv, r). Ret (rv, r, p, lev))"
proof -
  let ?P = "\<lambda>c. \<not> db_token_end rd c" and ?q = "name @ e # rest"
  have kw: "\<forall>c \<in> set kw. ?P c" using assms(2) alnum_not_end by blast
  have bl: "\<not> ?P 32" by (simp add: db_token_end_def)
  have e: "\<not> ?P e" "\<not> isspace e" "e \<in> {61, 58}" using assms(4) by (auto simp: db_token_end_def)
  have nm: "\<forall>c \<in> set name. ?P c" using assms(3) by (auto simp: db_var_name_ok_def list_all_iff db_token_end_def)
  obtain c cs where name: "name = c # cs" "\<not> isspace c" "c \<notin> {123, 61, 58, 44, 59}"
    using assms(3) by (cases name) (auto simp: db_var_name_ok_def)
  have q: "dropWhile isspace (32 # replicate k 32 @ ?q) = ?q" using dropWhile_blanks [of "32 # replicate k 32" c "cs @ e # rest"] name by simp
  have s: "dropWhile isspace (e # rest) = e # rest" using e(2) by simp
  show ?thesis
    unfolding db_read_token_line_def Let_def prod.case takeWhile_stop(1) [OF kw bl] takeWhile_stop(2) [OF kw bl] q
      takeWhile_stop [where P = ?P, OF nm e(1)] s
    using name e(3) by auto
qed

text \<open>The blanks at the start of a line.\<close>

lemma read_line_indented:
  assumes "0 \<notin> set l" "l = c # cs" "\<not> isspace c" "c \<noteq> 125" "c \<noteq> 35"
  shows "db_read_line rd (db_blanks w i @ l) st = db_read_token_line rd l st"
proof -
  have t: "takeWhile (\<lambda>c. c \<noteq> 0) (db_blanks w i @ l) = db_blanks w i @ l"
    using assms(1) by (auto simp: takeWhile_eq_all_conv db_blanks_def)
  have d: "dropWhile isspace (db_blanks w i @ l) = l"
    using dropWhile_blanks [of "db_blanks w i" c cs] assms(2,3) by (auto simp: db_blanks_def)
  obtain r n level where st: "st = (r, n, level)" by (cases st)
  show ?thesis unfolding db_read_line_def t d Let_def using assms(2,4,5) by (simp add: st)
qed

lemma value_type_word:
  assumes "db_wf cn" "db_is_value cn" "db_value_text w cn = Some (t, s)"
  obtains kw k where "t = kw @ 32 # replicate k 32" "kw \<noteq> []" "\<forall>c \<in> set kw. text_alnum c" "db_value_kind (Some kw) = Some (db_typ cn)"
proof (cases cn)
  case (DbNode ty f d cs)
  show thesis
  proof (cases d)
    case (DataChar u)
    then show thesis using assms DbNode
      by (intro that [of "str ''char''" 0])
        (auto simp: db_value_text_def db_wf.simps str_def text_alnum_def db_value_kind_def same_name_def tolower_def split: if_splits)
  next
    case (DataInt u)
    then show thesis using assms DbNode
      by (intro that [of "str ''int''" 1])
        (auto simp: db_value_text_def db_wf.simps str_def text_alnum_def db_value_kind_def same_name_def tolower_def)
  next
    case (DataBin u)
    then show thesis using assms DbNode
      by (intro that [of "str ''bin''" 1])
        (auto simp: db_value_text_def db_wf.simps str_def text_alnum_def db_value_kind_def same_name_def tolower_def)
  qed (use assms DbNode in \<open>simp_all add: db_value_text_def\<close>)
qed

text \<open>The line of a variable.\<close>

lemma line_chars_nul: "\<forall>c \<in> set s. db_line_char c \<Longrightarrow> 0 \<notin> set s"
  by (auto simp: db_line_char_def)

lemma more_values_chars:
  assumes "has w GWEN_DB_FLAGS_ESCAPE_CHARVALUES"
  shows "\<forall>c \<in> set (db_more_values w (db_texts w cns)). db_line_char c"
proof (induction cns)
  case (Cons cn cns)
  have x: "db_line_char 44" "db_line_char 32" "db_line_char 34" by (simp_all add: db_line_char_def)
  show ?case
  proof (cases "db_value_text w cn")
    case (Some ts)
    then show ?thesis
      using Cons value_text_clean(2) [OF assms, of cn "fst ts" "snd ts"] x
      by (auto simp: db_texts_def db_more_values_def db_quoted_def map_filter_simps)
  qed (use Cons in \<open>simp add: db_texts_def map_filter_simps\<close>)
qed (simp add: db_texts_def db_more_values_def map_filter_simps)

lemma var_line_read:
  assumes "\<forall>cn \<in> set (cn # cns). db_wf cn \<and> db_is_value cn \<and> db_value_fits cn \<and> db_typ cn = kind \<and> db_value_text w cn \<noteq> None"
    "db_wr_flags w" "db_rd_flags rd" "has rd GWEN_DB_FLAGS_USE_COLON = has w GWEN_DB_FLAGS_USE_COLON" "db_var_name_ok name"
    "db_here r p (DbNode NodeType_Group 0 d (Some cs))" "map tolower name \<notin> set (db_keys cs)"
  shows "\<exists>r'. (\<forall>l \<in> set (db_var_lines w i name (db_texts w (cn # cns))). db_read_line rd l (r, p, lev) = Ret (0, r', p, lev))
    \<and> db_becomes r p (DbNode NodeType_Group 0 d (Some (cs @ [DbNode NodeType_Var 0 (DataName name) (Some (map db_erase (cn # cns)))]))) r'"
proof -
  obtain t s where ts: "db_value_text w cn = Some (t, s)" using assms(1) by auto
  obtain kw k where kw: "t = kw @ 32 # replicate k 32" "kw \<noteq> []" "\<forall>c \<in> set kw. text_alnum c" "db_value_kind (Some kw) = Some kind"
    using value_type_word [OF _ _ ts] assms(1) by (metis list.set_intros(1))
  note w = wr_has [OF assms(2)]
  define e bl where "e = (if has rd GWEN_DB_FLAGS_USE_COLON then 58 else 61 :: byte)"
    and "bl = (if has rd GWEN_DB_FLAGS_USE_COLON then [32] else [] :: byte list)"
  let ?v = "db_quoted True s @ db_more_values w (db_texts w cns)"
  let ?l = "kw @ 32 # replicate k 32 @ name @ e # bl @ ?v"
  have lines: "db_var_lines w i name (db_texts w (cn # cns)) = [db_blanks w i @ ?l]"
    using ts kw(1) w(2,4,5) assms(4)
    by (simp add: db_texts_def map_filter_simps db_var_lines_def db_var_head_def db_quoted_def e_def bl_def)
  obtain r1 where r1: "GWEN_DB_GetNode r p name (rd OR GWEN_PATH_FLAGS_VARIABLE) = Ret (r1, Some (p @ [length cs]))"
    "db_becomes r p (DbNode NodeType_Group 0 d (Some (cs @ [GWEN_DB_Var_new name]))) r1"
    by (rule new_var_here [OF assms(6,3) name_elem(1) [OF assms(5)] assms(7)])
  have "db_here r1 p (DbNode NodeType_Group 0 d (Some (cs @ [GWEN_DB_Var_new name])))" by (rule becomes_here [OF assms(6) r1(2)])
  then have var: "db_here r1 (p @ [length cs]) (DbNode NodeType_Var 0 (DataName name) (Some []))"
    by (simp add: db_at_append GWEN_DB_Var_new_def GWEN_DB_Node_new_def)
  have "\<forall>c \<in> set bl. isspace c" by (simp add: bl_def)
  from read_values_text [OF assms(1,2) var this] ts obtain r2 where
    r2: "db_read_values kind (bl @ ?v) r1 (p @ [length cs]) = Ret (0, r2)"
      "db_becomes r1 (p @ [length cs]) (DbNode NodeType_Var 0 (DataName name) (Some (map db_erase (cn # cns)))) r2" by auto
  have vals: "GWEN_DB__ReadValues r p rd (Some kw) name (bl @ ?v) = Ret (0, r2)"
    using r1(1) r2(1) kw(4) by (simp add: GWEN_DB__ReadValues_def)
  obtain c l' where c: "?l = c # l'" "text_alnum c" using kw(2,3) by (cases kw) auto
  have "0 \<notin> set ?l"
  proof -
    have "0 \<notin> set kw" using kw(3) alnum_not_end by blast
    moreover have "0 \<notin> set name" using assms(5) by (auto simp: db_var_name_ok_def list_all_iff)
    moreover have "0 \<notin> set s" using value_text_clean(2) [OF w(3) ts] line_chars_nul by blast
    moreover have "0 \<notin> set (db_more_values w (db_texts w cns))" using more_values_chars [OF w(3)] line_chars_nul by blast
    ultimately show ?thesis by (auto simp: e_def bl_def db_quoted_def)
  qed
  then have "db_read_line rd (db_blanks w i @ ?l) (r, p, lev) = db_read_token_line rd ?l (r, p, lev)"
    using alnum_not_end [OF c(2)] by (intro read_line_indented [OF _ c(1)]) auto
  also have "\<dots> = Ret (0, r2, p, lev)"
    using vals by (simp only: token_line_var [OF kw(2,3) assms(5) e_def] obind.simps prod.case)
  finally show ?thesis
    unfolding lines
    using becomes_below [OF r1(2) [unfolded GWEN_DB_Var_new_def GWEN_DB_Node_new_def] r2(2)] by (intro exI [of _ r2]) simp
qed

text \<open>The lines of a group.\<close>

lemma escape_simps [simp]:
  "GWEN_DB_EscapeToBufferTolerant [] = []"
  "GWEN_DB_EscapeToBufferTolerant (x # s) = (if db_safe x then [x] else 38 # hex_pair x) @ GWEN_DB_EscapeToBufferTolerant s"
  by (simp_all add: GWEN_DB_EscapeToBufferTolerant_def)

lemma unescape_plain: "x \<noteq> 38 \<Longrightarrow> GWEN_DB_UnescapeToBufferTolerant (x # s) = x # GWEN_DB_UnescapeToBufferTolerant s"
proof (cases s)
  case (Cons y s')
  then show "x \<noteq> 38 \<Longrightarrow> ?thesis" by (cases s') simp_all
qed simp

lemma group_name_read: "GWEN_DB_UnescapeToBufferTolerant (GWEN_DB_EscapeToBufferTolerant s) = s"
proof (induction s)
  case (Cons x s)
  obtain a b where ab: "hex_pair x = [a, b]" by (rule hex_pair_obtain)
  have "db_safe x \<Longrightarrow> x \<noteq> 38" by (auto simp: db_safe_def text_alnum_def)
  then show ?case using Cons ab hex_pair_facts [OF ab] by (simp add: unescape_plain)
qed simp

lemma escape_chars: "44 \<notin> set s \<Longrightarrow> \<forall>c \<in> set (GWEN_DB_EscapeToBufferTolerant s). text_alnum c \<or> c \<in> {37, 38, 46, 95, 45, 42, 63}"
proof (induction s)
  case (Cons x s)
  obtain a b where ab: "hex_pair x = [a, b]" by (rule hex_pair_obtain)
  then show ?case using Cons hex_pair_facts [OF ab] by (auto simp: db_safe_def)
qed simp

lemma escape_char_not_end: "text_alnum c \<or> c \<in> {37, 38, 46, 95, 45, 42, 63} \<Longrightarrow> \<not> db_token_end rd c \<and> \<not> isspace c \<and> c \<notin> {35, 125} \<and> db_line_char c"
proof -
  assume a: "text_alnum c \<or> c \<in> {37, 38, 46, 95, 45, 42, 63}"
  show ?thesis
  proof (cases "text_alnum c")
    case True
    then show ?thesis using alnum_not_end [OF True] by (auto simp: db_line_char_def text_alnum_def)
  next
    case False
    then show ?thesis using a by (auto simp: db_token_end_def isspace_def db_line_char_def)
  qed
qed

lemma escape_nonempty: "s \<noteq> [] \<Longrightarrow> GWEN_DB_EscapeToBufferTolerant s \<noteq> []"
  by (cases s) simp_all

lemma begin_line_read:
  assumes "db_rd_flags rd" "db_group_name_ok name" "db_here r p (DbNode NodeType_Group 0 d (Some cs))" "in_int (lev + 1)"
  shows "\<exists>r'. db_read_line rd (db_begin_line w i name) (r, p, lev) = Ret (0, r', p @ [length cs], lev + 1)
    \<and> db_becomes r p (DbNode NodeType_Group 0 d (Some (cs @ [GWEN_DB_Group_new name]))) r'"
proof -
  let ?e = "GWEN_DB_EscapeToBufferTolerant name" and ?P = "\<lambda>c. \<not> db_token_end rd c"
  have "44 \<notin> set name" "name \<noteq> []" using assms(2) by (auto simp: db_group_name_ok_def list_all_iff)
  note chars = escape_chars [OF this(1)] and ne = escape_nonempty [OF this(2)]
  have ec: "\<not> db_token_end rd c \<and> \<not> isspace c \<and> c \<notin> {35, 125} \<and> db_line_char c" if "c \<in> set ?e" for c
    by (rule escape_char_not_end) (rule bspec [OF chars that])
  have e: "\<forall>c \<in> set ?e. ?P c" "0 \<notin> set ?e" using ec by (blast, intro line_chars_nul) (simp add: ec)
  have bl: "\<not> ?P 32" by (simp add: db_token_end_def)
  obtain c l where c: "?e = c # l" "\<not> isspace c" "c \<notin> {35, 125}"
  proof (cases ?e)
    case (Cons c l)
    then show thesis using ec [of c] by (intro that [of c l]) simp_all
  qed (use ne in simp)
  obtain r' where r': "GWEN_DB_GetGroup r p rd name = Ret (r', Some (p @ [length cs]))"
    "db_becomes r p (DbNode NodeType_Group 0 d (Some (cs @ [GWEN_DB_Group_new name]))) r'"
    by (rule new_group_here [OF assms(3,1) name_elem(2) [OF assms(2)]])
  have "db_read_line rd (db_begin_line w i name) (r, p, lev) = db_read_token_line rd (?e @ [32, 123]) (r, p, lev)"
    unfolding db_begin_line_def using e(2) c by (intro read_line_indented [of _ c "l @ [32, 123]"]) auto
  also have "\<dots> = Ret (0, r', p @ [length cs], lev + 1)"
    unfolding db_read_token_line_def Let_def prod.case takeWhile_stop(1) [OF e(1) bl] takeWhile_stop(2) [OF e(1) bl]
    using r'(1) assms(4) by (simp add: group_name_read ck_def)
  finally show ?thesis using r'(2) by (intro exI [of _ r']) simp
qed

lemma end_line_read:
  assumes "db_here r p (DbNode NodeType_Group 0 d (Some cs))" "1 \<le> lev" "0 \<notin> set name"
  shows "db_read_line rd (db_end_line w i name) (r, p @ [k], lev) = Ret (0, r, p, lev - 1)"
proof -
  let ?l = "if has w GWEN_DB_FLAGS_DETAILED_GROUPS then [125, 32, 35] @ name else [125]"
  have t: "takeWhile (\<lambda>c. c \<noteq> 0) (db_end_line w i name) = db_end_line w i name"
    using assms(3) by (auto simp: takeWhile_eq_all_conv db_end_line_def db_blanks_def)
  have d: "dropWhile isspace (db_end_line w i name) = ?l"
    using dropWhile_blanks [of "db_blanks w i" 125 "tl ?l"] by (auto simp: db_blanks_def db_end_line_def)
  obtain g where g: "db_at r p = Some g" "db_typ g = NodeType_Group"
    using assms(1) by (auto simp: db_at_erase) (metis db_erase_sel(1) gwen_db_node.sel(1))
  show ?thesis unfolding db_read_line_def t d Let_def prod.case using assms(2) g by (simp add: db_node_def oassert_def)
qed

section \<open>One line after the other\<close>

fun db_fold :: "u32 \<Rightarrow> byte list list \<Rightarrow> gwen_db_node \<times> db_pos \<times> int \<Rightarrow> (int \<times> gwen_db_node \<times> db_pos \<times> int) outcome" where
  "db_fold rd [] st = Ret (0, st)"
| "db_fold rd (l # ls) st =
    (if l = [] then db_fold rd ls st
     else obind (db_read_line rd l st) (\<lambda>(rv, st). if rv \<noteq> 0 then Ret (rv, st) else db_fold rd ls st))"

lemma fold_append: "db_fold rd ls st = Ret (0, st') \<Longrightarrow> db_fold rd (ls @ ls') st = db_fold rd ls' st'"
proof (induction ls arbitrary: st)
  case (Cons l ls)
  then show ?case by (cases "l = []"; cases "db_read_line rd l st") (auto split: if_splits)
qed simp

lemma fold_gap [simp]: "db_fold rd (db_gap w b) st = Ret (0, st)"
  by (simp add: db_gap_def)

lemma fold_line: "db_read_line rd l st = Ret (0, st') \<Longrightarrow> l \<noteq> [] \<Longrightarrow> db_fold rd [l] st = Ret (0, st')"
  by simp

section \<open>What a text keeps of a tree\<close>

text \<open>Nodes that are volatile, pointers, and variables without values are lost, and so are all flags.\<close>

definition db_kept :: "gwen_db_node list \<Rightarrow> gwen_db_node list" where
  "db_kept cns = filter (\<lambda>cn. db_typ cn \<noteq> NodeType_ValuePtr) cns"

fun db_saved :: "gwen_db_node \<Rightarrow> gwen_db_node list" where
  "db_saved (DbNode t fl d cs) =
    (let kids = (case cs of None \<Rightarrow> [] | Some kids \<Rightarrow> kids)
     in if has fl GWEN_DB_NODE_FLAGS_VOLATILE then []
        else if t = NodeType_Group then [DbNode t 0 d (Some (concat (map db_saved kids)))]
        else if t = NodeType_Var \<and> db_kept kids \<noteq> [] then [DbNode t 0 d (Some (map db_erase (db_kept kids)))]
        else [])"

definition db_saves :: "gwen_db_node list \<Rightarrow> gwen_db_node list" where
  "db_saves ns = concat (map db_saved ns)"

text \<open>Trees whose text can be read: names that are their own tokens and paths, one type for the values of a variable, no two
  variables of one name in a group.\<close>

fun db_textual :: "gwen_db_node \<Rightarrow> bool" where
  "db_textual (DbNode t fl d cs) \<longleftrightarrow>
    (let name = db_name (DbNode t fl d cs); kids = (case cs of None \<Rightarrow> [] | Some kids \<Rightarrow> kids)
     in has fl GWEN_DB_NODE_FLAGS_VOLATILE
        \<or> t = NodeType_Group \<and> db_group_name_ok name \<and> list_all db_textual kids \<and> distinct (db_keys (db_saves kids))
        \<or> t = NodeType_Var \<and> (db_kept kids = [] \<or> db_var_name_ok name \<and> list_all (\<lambda>cn. db_typ cn = db_typ (hd (db_kept kids))) (db_kept kids)))"

declare db_saved.simps [simp del] db_textual.simps [simp del]

lemma texts_kept: "\<forall>cn \<in> set cns. db_wf cn \<and> db_is_value cn \<Longrightarrow> db_texts w cns = db_texts w (db_kept cns)
    \<and> (\<forall>cn \<in> set (db_kept cns). db_value_text w cn \<noteq> None)"
proof (induction cns)
  case (Cons cn cns)
  have "db_value_text w cn = None \<longleftrightarrow> db_typ cn = NodeType_ValuePtr"
    using Cons.prems by (cases cn) (auto simp: db_value_text_def db_wf.simps db_is_value_def split: gwen_db_data.splits)
  then show ?case using Cons by (auto simp: db_texts_def db_kept_def map_filter_simps split: option.splits)
qed (simp add: db_texts_def db_kept_def)

lemma saves_simps [simp]: "db_saves [] = []" "db_saves (n # ns) = db_saved n @ db_saves ns"
  by (simp_all add: db_saves_def)

lemma keys_append [simp]: "db_keys (a @ b) = db_keys a @ db_keys b"
  by (simp add: db_keys_def)

definition db_level :: "gwen_db_node list \<Rightarrow> bool" where
  "db_level ns \<longleftrightarrow> (\<forall>n \<in> set ns. db_wf n \<and> db_typ n \<in> {NodeType_Group, NodeType_Var} \<and> db_writable n \<and> db_textual n)"

lemma saved_children: "concat (map db_saved kids) = db_saves kids"
  by (simp add: db_saves_def)

lemma read_lines:
  assumes "db_wr_flags w" "db_rd_flags rd" "has rd GWEN_DB_FLAGS_USE_COLON = has w GWEN_DB_FLAGS_USE_COLON"
    "db_level ns" "db_here r p (DbNode NodeType_Group 0 d (Some cs))" "distinct (db_keys (cs @ db_saves ns))"
    "0 \<le> lev" "lev + int (length (db_lines w i lv ns)) < 2147483648"
  shows "\<exists>r'. db_fold rd (db_lines w i lv ns) (r, p, lev) = Ret (0, r', p, lev)
    \<and> db_becomes r p (DbNode NodeType_Group 0 d (Some (cs @ db_saves ns))) r'"
  using assms
proof (induction w i lv ns arbitrary: r p d cs lev rule: db_lines.induct)
  case (1 w i lv)
  then show ?case by (intro exI [of _ r]) (simp add: db_lines.simps db_upd_id)
next
  case (2 w i lv t f dt ch ns)
  define name where "name = db_name (DbNode t f dt ch)"
  define kids where "kids = (case ch of None \<Rightarrow> [] | Some kids \<Rightarrow> kids)"
  note defs = name_def [symmetric] kids_def [symmetric]
  note fl = "2.prems"(1-3) and here = "2.prems"(5) and keys = "2.prems"(6) and lev = "2.prems"(7,8)
  have ns: "db_level ns" using "2.prems"(4) by (simp add: db_level_def)
  have n: "db_wf (DbNode t f dt ch)" "t = NodeType_Group \<or> t = NodeType_Var" "db_writable (DbNode t f dt ch)" "db_textual (DbNode t f dt ch)"
    using "2.prems"(4) by (auto simp: db_level_def)
  note eqs = db_lines.simps(2) [of w i lv t f dt ch ns, unfolded Let_def defs]
  note sv = db_saved.simps [of t f dt ch, unfolded Let_def defs saved_children]
  note tx = n(4) [unfolded db_textual.simps Let_def defs]
  have w: "0 \<notin> set name" "list_all db_writable kids" using n(3) by (simp_all add: db_writable.simps defs)
  have dn: "dt = DataName name" using n(1,2) by (auto simp: name_def db_name_def db_wf.simps is_DataName_def)
  show ?case
  proof (cases "has f GWEN_DB_NODE_FLAGS_VOLATILE")
    case True
    then have e: "db_lines w i lv (DbNode t f dt ch # ns) = db_lines w i lv ns" "db_saved (DbNode t f dt ch) = []"
      unfolding eqs sv by simp_all
    show ?thesis
      unfolding e saves_simps append_Nil
      by (rule "2.IH"(1) [OF name_def kids_def True fl ns here]) (use keys lev in \<open>simp_all only: e saves_simps append_Nil\<close>)
  next
    case nv: False
    show ?thesis
    proof (cases "t = NodeType_Group")
      case True
      have tg: "db_group_name_ok name" "list_all db_textual kids" "distinct (db_keys (db_saves kids))" using tx nv True by auto
      have kn: "db_level kids"
        using n(1) w(2) tg(2) True by (auto simp: db_level_def db_wf.simps kids_def list_all_iff split: option.splits)
      have sub: "has w GWEN_DB_FLAGS_WRITE_SUBGROUPS" using wr_has(1) [OF fl(1)] .
      let ?k = "db_lines w (i + 2) False kids" and ?r = "db_lines w i False ns" and ?x = "DbNode NodeType_Group 0 dt (Some (db_saves kids))"
      have e: "db_lines w i lv (DbNode t f dt ch # ns) = db_gap w lv @ [db_begin_line w i name] @ ?k @ [db_end_line w i name] @ db_gap w (ns \<noteq> []) @ ?r"
        "db_saved (DbNode t f dt ch) = [?x]"
        unfolding eqs sv using nv True sub by simp_all
      have b: "lev + 1 + int (length ?k) < 2147483648" "lev + int (length ?r) < 2147483648" "in_int (lev + 1)"
        using lev unfolding e by (simp_all add: in_int_def)
      obtain r1 where r1: "db_read_line rd (db_begin_line w i name) (r, p, lev) = Ret (0, r1, p @ [length cs], lev + 1)"
        "db_becomes r p (DbNode NodeType_Group 0 d (Some (cs @ [DbNode NodeType_Group 0 dt (Some [])]))) r1"
        using begin_line_read [OF fl(2) tg(1) here b(3), of w i] by (auto simp: GWEN_DB_Group_new_def GWEN_DB_Node_new_def dn)
      have h1: "db_here r1 (p @ [length cs]) (DbNode NodeType_Group 0 dt (Some []))"
        using becomes_here [OF here r1(2)] by (simp add: db_at_append)
      have "distinct (db_keys ([] @ db_saves kids))" "0 \<le> lev + 1" using tg(3) lev(1) by simp_all
      from "2.IH"(2) [OF name_def kids_def nv True sub fl kn h1 this b(1)] obtain r2 where
        r2: "db_fold rd ?k (r1, p @ [length cs], lev + 1) = Ret (0, r2, p @ [length cs], lev + 1)"
          "db_becomes r1 (p @ [length cs]) ?x r2" by auto
      note b2 = becomes_below [OF r1(2) r2(2)]
      note h2 = becomes_here [OF here b2]
      have r3: "db_read_line rd (db_end_line w i name) (r2, p @ [length cs], lev + 1) = Ret (0, r2, p, lev)"
        using end_line_read [OF h2 _ w(1), of "lev + 1"] lev(1) by simp
      have "distinct (db_keys ((cs @ [?x]) @ db_saves ns))" using keys unfolding e saves_simps by (simp only: append_assoc)
      from "2.IH"(3) [OF name_def kids_def nv True fl ns h2 this lev(1) b(2)] obtain r4 where
        r4: "db_fold rd ?r (r2, p, lev) = Ret (0, r4, p, lev)" "db_becomes r2 p (DbNode NodeType_Group 0 d (Some ((cs @ [?x]) @ db_saves ns))) r4" by blast
      have ne: "db_begin_line w i name \<noteq> []" "db_end_line w i name \<noteq> []" by (simp_all add: db_begin_line_def db_end_line_def)
      have "db_fold rd (db_lines w i lv (DbNode t f dt ch # ns)) (r, p, lev) = Ret (0, r4, p, lev)"
        unfolding e(1)
        by (simp only: fold_append [OF fold_gap] fold_append [OF fold_line [OF r1(1) ne(1)]] fold_append [OF r2(1)]
            fold_append [OF fold_line [OF r3 ne(2)]] r4(1))
      moreover have "db_becomes r p (DbNode NodeType_Group 0 d (Some (cs @ db_saves (DbNode t f dt ch # ns)))) r4"
        using becomes_trans [OF b2 r4(2)] unfolding e(2) saves_simps by (simp only: append_assoc)
      ultimately show ?thesis by (intro exI [of _ r4] conjI)
    next
      case ng: False
      then have t: "t = NodeType_Var" using n(2) by simp
      have vals: "\<forall>cn \<in> set kids. db_wf cn \<and> db_is_value cn \<and> db_value_fits cn"
        using n(1) w(2) t by (auto simp: db_wf.simps kids_def list_all_iff db_writable_value split: option.splits)
      have e: "db_lines w i lv (DbNode t f dt ch # ns) = db_var_lines w i name (db_texts w kids) @ db_lines w i True ns"
        unfolding eqs using nv ng t by simp
      have tk: "db_texts w kids = db_texts w (db_kept kids)" "\<forall>cn \<in> set (db_kept kids). db_value_text w cn \<noteq> None"
        using texts_kept [of kids w] vals by blast+
      have b: "lev + int (length (db_lines w i True ns)) < 2147483648" using lev(2) unfolding e by simp
      note ih = "2.IH"(4) [OF name_def kids_def nv ng t fl ns]
      show ?thesis
      proof (cases "db_kept kids")
        case Nil
        then have e2: "db_saved (DbNode t f dt ch) = []" "db_var_lines w i name (db_texts w kids) = []"
          unfolding sv tk(1) using nv ng by (simp_all add: db_texts_def db_var_lines_def)
        show ?thesis
          unfolding e e2 saves_simps append_Nil
          by (rule ih [OF here _ lev(1) b]) (use keys in \<open>simp only: e2 saves_simps append_Nil\<close>)
      next
        case (Cons cn cns)
        let ?x = "DbNode NodeType_Var 0 (DataName name) (Some (map db_erase (cn # cns)))"
        have x: "db_saved (DbNode t f dt ch) = [?x]" unfolding sv using nv ng t Cons by (simp add: dn)
        have ok: "db_var_name_ok name" "list_all (\<lambda>c. db_typ c = db_typ cn) (db_kept kids)" using tx nv ng t Cons by auto
        have "\<forall>c \<in> set (cn # cns). db_wf c \<and> db_is_value c \<and> db_value_fits c \<and> db_typ c = db_typ cn \<and> db_value_text w c \<noteq> None"
          using vals tk(2) ok(2) unfolding Cons [symmetric] by (auto simp: list_all_iff db_kept_def)
        moreover have "map tolower name \<notin> set (db_keys cs)"
          using keys unfolding x saves_simps by (simp add: db_keys_def db_name_def)
        ultimately obtain r1 where r1: "\<forall>l \<in> set (db_var_lines w i name (db_texts w (cn # cns))). db_read_line rd l (r, p, lev) = Ret (0, r1, p, lev)"
          "db_becomes r p (DbNode NodeType_Group 0 d (Some (cs @ [?x]))) r1"
          using var_line_read [OF _ fl ok(1) here, of cn cns "db_typ cn" i lev] by blast
        have "distinct (db_keys ((cs @ [?x]) @ db_saves ns))" using keys unfolding x saves_simps by (simp only: append_assoc)
        from ih [OF becomes_here [OF here r1(2)] this lev(1) b] obtain r2 where
          r2: "db_fold rd (db_lines w i True ns) (r1, p, lev) = Ret (0, r2, p, lev)"
            "db_becomes r1 p (DbNode NodeType_Group 0 d (Some ((cs @ [?x]) @ db_saves ns))) r2" by blast
        obtain l where l: "db_var_lines w i name (db_texts w (cn # cns)) = [l]" "l \<noteq> []"
          using tk(2) unfolding Cons by (auto simp: db_texts_def map_filter_simps db_var_lines_def db_var_head_def)
        then have "db_read_line rd l (r, p, lev) = Ret (0, r1, p, lev)" using r1(1) by simp
        from fold_append [OF fold_line [OF this l(2)]] r2(1)
        have "db_fold rd (db_lines w i lv (DbNode t f dt ch # ns)) (r, p, lev) = Ret (0, r2, p, lev)"
          unfolding e tk(1) Cons l(1) by (simp only:)
        moreover have "db_becomes r p (DbNode NodeType_Group 0 d (Some (cs @ db_saves (DbNode t f dt ch # ns)))) r2"
          using becomes_trans [OF r1(2) r2(2)] unfolding x saves_simps by (simp only: append_assoc)
        ultimately show ?thesis by (intro exI [of _ r2] conjI)
      qed
    qed
  qed
qed

section \<open>Lines as they come from the reader\<close>

text \<open>No line holds the end of another.\<close>

lemma kept_level:
  assumes "db_wf (DbNode t f dt ch)" "db_writable (DbNode t f dt ch)" "kids = (case ch of None \<Rightarrow> [] | Some kids \<Rightarrow> kids)"
  shows "t = NodeType_Group \<Longrightarrow> list_all db_textual kids \<Longrightarrow> db_level kids"
    "t = NodeType_Var \<Longrightarrow> \<forall>cn \<in> set kids. db_wf cn \<and> db_is_value cn \<and> db_value_fits cn"
  using assms
  by (auto simp: db_level_def db_wf.simps db_writable.simps list_all_iff db_writable_value split: option.splits)

lemma group_lines_clean:
  assumes "db_group_name_ok name" "l = db_begin_line w i name \<or> l = db_end_line w i name"
  shows "\<forall>c \<in> set l. db_line_char c"
proof -
  have "44 \<notin> set name" "\<forall>c \<in> set name. db_line_char c"
    using assms(1) by (auto simp: db_group_name_ok_def list_all_iff db_line_char_def)
  moreover have "\<forall>c \<in> set (GWEN_DB_EscapeToBufferTolerant name). db_line_char c"
    using escape_chars [OF calculation(1)] escape_char_not_end by blast
  moreover have "db_line_char 32" "db_line_char 123" "db_line_char 125" "db_line_char 35" by (simp_all add: db_line_char_def)
  ultimately show ?thesis using assms(2) by (auto simp: db_begin_line_def db_end_line_def db_blanks_def split: if_splits)
qed

lemma var_lines_clean:
  assumes "db_wr_flags w" "db_var_name_ok name" "l \<in> set (db_var_lines w i name (db_texts w cns))"
  shows "\<forall>c \<in> set l. db_line_char c"
proof -
  note w = wr_has [OF assms(1)]
  obtain v vs where v: "db_texts w cns = v # vs" using assms(3) by (cases "db_texts w cns") (auto simp: db_var_lines_def)
  then have l: "l = db_var_head w i (fst v) name @ db_quoted True (snd v) @ db_more_values w vs"
    using assms(3) w(2) by (simp add: db_var_lines_def)
  have x: "db_line_char 32" "db_line_char 34" "db_line_char 44" "db_line_char 58" "db_line_char 61" by (simp_all add: db_line_char_def)
  have all: "\<forall>v \<in> set (db_texts w cns). (\<forall>c \<in> set (fst v). db_line_char c) \<and> (\<forall>c \<in> set (snd v). db_line_char c)"
  proof (induction cns)
    case (Cons cn cns)
    then show ?case using value_text_clean [OF w(3), of cn]
      by (cases "db_value_text w cn") (auto simp: db_texts_def map_filter_simps)
  qed (simp add: db_texts_def map_filter_simps)
  have "\<forall>c \<in> set name. db_line_char c"
  proof
    fix c
    assume "c \<in> set name"
    then have "\<not> isspace c" "c \<noteq> 0" using assms(2) by (simp_all add: db_var_name_ok_def list_all_iff)
    moreover from this(1) have "c \<noteq> 10" "c \<noteq> 13" using isspace_simps(1,2) by blast+
    ultimately show "db_line_char c" by (simp add: db_line_char_def)
  qed
  then have nm: "list_all db_line_char name" by (simp add: list_all_iff)
  have vv: "list_all db_line_char (fst u) \<and> list_all db_line_char (snd u)" if "u \<in> set (v # vs)" for u
    using all that unfolding v list_all_iff by blast
  have m: "list_all db_line_char (db_more_values w vs)" if "\<And>u. u \<in> set vs \<Longrightarrow> list_all db_line_char (snd u)"
    using that by (induction vs) (simp_all add: db_more_values_def db_quoted_def x)
  have "list_all db_line_char (replicate i 32)" using x(1) by (induction i) simp_all
  then have "list_all db_line_char l"
    using nm vv [of v] m vv w(4,5) by (simp add: l db_var_head_def db_blanks_def db_quoted_def x)
  then show ?thesis by (simp add: list_all_iff)
qed

lemma lines_clean:
  assumes "db_wr_flags w" "db_level ns" "l \<in> set (db_lines w i lv ns)"
  shows "\<forall>c \<in> set l. db_line_char c"
  using assms
proof (induction w i lv ns rule: db_lines.induct)
  case (2 w i lv t f dt ch ns)
  define name where "name = db_name (DbNode t f dt ch)"
  define kids where "kids = (case ch of None \<Rightarrow> [] | Some kids \<Rightarrow> kids)"
  note defs = name_def [symmetric] kids_def [symmetric]
  note eqs = db_lines.simps(2) [of w i lv t f dt ch ns, unfolded Let_def defs]
  have ns: "db_level ns" and n: "db_wf (DbNode t f dt ch)" "db_writable (DbNode t f dt ch)" "db_textual (DbNode t f dt ch)"
    using "2.prems"(2) by (simp_all add: db_level_def)
  note tx = n(3) [unfolded db_textual.simps Let_def defs]
  note kn = kept_level [OF n(1,2) kids_def]
  note ih = "2.IH"(1) [OF name_def kids_def _ "2.prems"(1) ns] "2.IH"(2) [OF name_def kids_def _ _ _ "2.prems"(1)]
    "2.IH"(3) [OF name_def kids_def _ _ "2.prems"(1) ns] "2.IH"(4) [OF name_def kids_def _ _ _ "2.prems"(1) ns]
    "2.IH"(5) [OF name_def kids_def _ _ _ "2.prems"(1) ns]
  show ?case
  proof (cases "has f GWEN_DB_NODE_FLAGS_VOLATILE")
    case True
    then show ?thesis using "2.prems"(3) ih(1) unfolding eqs by simp
  next
    case nv: False
    show ?thesis
    proof (cases "t = NodeType_Group")
      case True
      then have g: "db_group_name_ok name" "db_level kids" using tx nv kn(1) by auto
      have sub: "has w GWEN_DB_FLAGS_WRITE_SUBGROUPS" using wr_has(1) [OF "2.prems"(1)] .
      have "l = [] \<or> l = db_begin_line w i name \<or> l = db_end_line w i name \<or> l \<in> set (db_lines w (i + 2) False kids) \<or> l \<in> set (db_lines w i False ns)"
        using "2.prems"(3) nv True sub unfolding eqs by (auto simp: db_gap_def split: if_splits)
      then show ?thesis using group_lines_clean [OF g(1)] ih(2) [OF nv True sub g(2)] ih(3) [OF nv True] by auto
    next
      case ng: False
      then have t: "t = NodeType_Var" using "2.prems"(2) by (simp add: db_level_def)
      have "l \<in> set (db_var_lines w i name (db_texts w kids)) \<or> l \<in> set (db_lines w i True ns)"
        using "2.prems"(3) nv ng t unfolding eqs by simp
      moreover have "\<forall>c \<in> set l. db_line_char c" if l: "l \<in> set (db_var_lines w i name (db_texts w kids))"
      proof -
        have tk: "db_texts w kids = db_texts w (db_kept kids)" using texts_kept [of kids w] kn(2) [OF t] by blast
        then have "db_kept kids \<noteq> []" using l by (auto simp: db_texts_def db_var_lines_def)
        then show ?thesis using var_lines_clean [OF "2.prems"(1) _ l] tx nv ng by auto
      qed
      ultimately show ?thesis using ih(4) [OF nv ng t] by blast
    qed
  qed
qed (simp add: db_lines.simps)

end
