(* ===== verification/Gwen_DBTextProps.thy ===== *)
theory Gwen_DBTextProps
  imports Gwen_DBParse
begin

text \<open>
  A configuration tree written to a buffer and read from it again: through the fast buffer, the layer in memory and back, the
  tree is what its text keeps of it.
\<close>

section \<open>Reading lines\<close>

lemma text_of_line:
  assumes "\<forall>c \<in> set l. db_line_char c"
  shows "line_text (l @ fb_eol fl @ rest) = l" "line_rest (l @ fb_eol fl @ rest) = rest"
proof -
  have "\<forall>c \<in> set l. \<not> line_end c" using assms by (auto simp: db_line_char_def)
  note s = line_split [OF this, of "fb_eol fl @ rest"]
  show "line_text (l @ fb_eol fl @ rest) = l" "line_rest (l @ fb_eol fl @ rest) = rest" by (simp_all add: s)
qed

lemma lines_length: "length ls \<le> length (lines_text fl ls)"
  by (induction ls) auto

text \<open>A source is a source of lines.\<close>

sublocale io_source < text_lines: line_reader good left rd "\<lambda>_ _. True" "\<lambda>x :: byte list. x" "\<lambda>x bs. Ret (x @ bs)"
  by unfold_locales simp

context io_source
begin

lemma read_loop:
  assumes "fb_source good rd r fb" "fb_left left fb = lines_text fl ls" "\<forall>l \<in> set ls. \<forall>c \<in> set l. db_line_char c"
    "db_fold w ls st = Ret (0, t, p, 0)" "length (lines_text fl ls) < r" "length ls < k" "\<not> has w GWEN_DB_FLAGS_UNTIL_EMPTY_LINE"
    "some \<or> (\<exists>l \<in> set ls. l \<noteq> [])"
  shows "\<exists>fb'. db_read_loop w k some st fb = Ret (0, t, fb') \<and> fb_source good rd r fb' \<and> fb_left left fb' = []"
  using assms
proof (induction ls arbitrary: st fb k some)
  case Nil
  obtain k' where k: "k = Suc k'" using Nil.prems(6) by (cases k) auto
  have l: "fb_left left fb = []" "length (fb_left left fb) < r" "sio_rounds (fb_io fb) = r"
    using Nil.prems(1,2,5) by (simp_all add: fb_source_def)
  obtain fb' b' where rd: "fb_read_line (\<lambda>x bs. Ret (x @ bs)) r False fb [] = Ret (GWEN_ERROR_EOF, fb', b')"
    "fb_source good rd r fb'" "fb_left left fb' = []"
    using text_lines.read_line [OF Nil.prems(1) l(2), where hadSome = False and b = "[]"] l(1) by auto
  have st: "st = (t, p, 0)" using Nil.prems(4) by simp
  have "GWEN_ERROR_EOF < 0" by (simp add: gwen_errors)
  with rd st Nil.prems(8) show ?case by (simp add: k l(3))
next
  case (Cons l ls)
  obtain k' where k: "k = Suc k'" "length ls < k'" using Cons.prems(6) by (cases k) auto
  have clean: "\<forall>c \<in> set l. db_line_char c" "\<forall>l \<in> set ls. \<forall>c \<in> set l. db_line_char c" using Cons.prems(3) by simp_all
  have left: "fb_left left fb = l @ fb_eol fl @ lines_text fl ls" using Cons.prems(2) by simp
  have rr: "length (fb_left left fb) < r" "sio_rounds (fb_io fb) = r" "fb_left left fb \<noteq> []"
    using Cons.prems(1,2,5) by (auto simp: fb_source_def)
  note tl = text_of_line [OF clean(1), of fl "lines_text fl ls"]
  obtain fb1 where rd: "fb_read_line (\<lambda>x bs. Ret (x @ bs)) r False fb [] = Ret (0, fb1, l)"
    "fb_source good rd r fb1" "fb_left left fb1 = lines_text fl ls"
    using text_lines.read_line [OF Cons.prems(1) rr(1), where hadSome = False and b = "[]"] rr(3) tl by (auto simp: left)
  have short: "length (lines_text fl ls) < r" using Cons.prems(5) by simp
  show ?case
  proof (cases "l = []")
    case True
    then have "db_fold w ls st = Ret (0, t, p, 0)" "some \<or> (\<exists>l \<in> set ls. l \<noteq> [])" using Cons.prems(4,8) by simp_all
    from Cons.IH [OF rd(2,3) clean(2) this(1) short k(2) Cons.prems(7) this(2)] show ?thesis
      using rd(1) Cons.prems(7) True by (simp add: k(1) rr(2))
  next
    case False
    then obtain st1 where s: "db_read_line w l st = Ret (0, st1)" "db_fold w ls st1 = Ret (0, t, p, 0)"
      using Cons.prems(4) by (cases "db_read_line w l st") (auto split: if_splits)
    from Cons.IH [OF rd(2,3) clean(2) s(2) short k(2) Cons.prems(7)] show ?thesis
      using rd(1) s(1) False by (simp add: k(1) rr(2))
  qed
qed

lemma ReadFromIo_ok:
  assumes "sio_source good rd sio" "left (sio_data sio) = lines_text fl ls" "\<forall>l \<in> set ls. \<forall>c \<in> set l. db_line_char c"
    "db_fold w ls (r0, p0, 0) = Ret (0, t, p, 0)" "length (lines_text fl ls) < sio_rounds sio" "\<not> has w GWEN_DB_FLAGS_UNTIL_EMPTY_LINE"
    "\<exists>l \<in> set ls. l \<noteq> []"
  shows "\<exists>sio'. GWEN_DB_ReadFromIo r0 p0 sio w = Ret (0, t, sio')"
proof -
  obtain fb where fb: "db_fast_buffer 1024 w sio = Ret fb" "fb_source good rd (sio_rounds sio) fb" "fb_left left fb = left (sio_data sio)"
    "sio_rounds (fb_io fb) = sio_rounds sio"
    using assms(1) new_fast_buffer [of 1024 w sio] by (auto simp: fb_source_def fb_left_def fb_avail_def)
  have k: "length ls < sio_rounds sio" using lines_length [of ls fl] assms(5) by simp
  have "fb_left left fb = lines_text fl ls" using fb(3) assms(2) by simp
  from read_loop [OF fb(2) this assms(3,4,5) k assms(6), of False] assms(7) fb(1,4) show ?thesis
    by (auto simp: GWEN_DB_ReadFromIo_def GWEN_DB_ReadFromFastBuffer_def)
qed

end

section \<open>Strings\<close>

text \<open>A string is copied into a layer of its own.\<close>

lemma ReadFromString_ok:
  assumes "0 \<notin> set (lines_text fl ls)" "\<forall>l \<in> set ls. \<forall>c \<in> set l. db_line_char c"
    "db_fold w ls (r0, p0, 0) = Ret (0, t, p, 0)" "\<not> has w GWEN_DB_FLAGS_UNTIL_EMPTY_LINE" "\<exists>l \<in> set ls. l \<noteq> []"
    "length (lines_text fl ls) < rounds" "length (lines_text fl ls) < 2147483648" "length (lines_text fl ls) + 1026 \<le> unat hl" "unat hl < 4294967295"
  shows "GWEN_DB_ReadFromString hl fr (\<lambda>_. True) rounds r0 p0 (lines_text fl ls @ [0]) 0 w = Ret (0, t)"
proof -
  let ?s = "lines_text fl ls" and ?n = "length (lines_text fl ls)"
  have "0 < length (fb_eol fl)" by simp
  then have n: "0 < ?n" using assms(5) by (cases ls) (auto simp: lines_text_def)
  have len: "strlen (?s @ [0]) = ?n" using assms(1) by (intro strlen_digits) (auto simp: list_all_iff)
  have u: "unat (of_nat ?n :: u32) = ?n" "sint (of_nat ?n :: u32) = int ?n"
    using assms(7) by (simp_all add: unat_of_nat_u32 sint_u32_small)
  have w: "(of_int (int ?n) :: u32) = of_nat ?n" by simp
  obtain b where b: "GWEN_Buffer_new hl fr (\<lambda>_. True) None (of_nat ?n) 0 True = Ret b" "room b ?n" "contents b = []"
    using new_buffer_room [of "of_nat ?n" ?n hl fr True] assms(7-9) n by (auto simp: u(1))
  obtain b' where b': "GWEN_Buffer_AppendBytes b ?s (of_nat ?n) = Ret (0, b')" "contents b' = ?s" "room b' 0"
    using buf.appN [of b "of_nat ?n" 0 ?s] b by (auto simp: u(1))
  let ?b = "GWEN_Buffer_Rewind b'"
  have rew: "buf_wf ?b" "contents ?b = ?s" "pos ?b = 0"
    using b' room_wf [OF b'(3)] by (simp_all add: GWEN_Buffer_Rewind_def buf_wf_def contents_def)
  have reg: "region (?s @ [0]) (of_nat ?n) = Ret ?s" by (simp add: region_def u(1))
  obtain sio where sio: "GWEN_SyncIo_Memory_fromBuffer hl fr (\<lambda>_. True) rounds (Some (?s @ [0])) (int ?n) = Ret sio"
    "sio_data sio = \<lparr>mem_buffer = Some ?b, mem_own = True\<rparr>" "sio_source mem_good GWEN_SyncIo_Memory_Read sio" "sio_rounds sio = rounds"
    using b b' reg n rew(1)
    by (simp add: GWEN_SyncIo_Memory_fromBuffer_def w del: of_int_of_nat_eq)
      (simp add: memory_layer_def GWEN_SyncIo_new_def GWEN_SyncIo_SetReadFn_def GWEN_SyncIo_SetWriteFn_def
        GWEN_SyncIo_SetStatus_def sio_alive_def oassert_def sio_source_def mem_good_def)
  have "mem_left (sio_data sio) = ?s" by (simp add: sio(2) mem_left_def rew)
  moreover have "?n < sio_rounds sio" using assms(6) sio(4) by simp
  ultimately obtain sio' where "GWEN_DB_ReadFromIo r0 p0 sio w = Ret (0, t, sio')"
    using mem.ReadFromIo_ok [OF sio(3) _ assms(2,3) _ assms(4,5)] by blast
  with sio(1) len u(2) show ?thesis by (simp add: GWEN_DB_ReadFromString_def)
qed

section \<open>There and back\<close>

definition db_readable :: "gwen_db_node \<Rightarrow> bool" where
  "db_readable node \<longleftrightarrow>
     list_all db_textual (db_kids node) \<and> distinct (db_keys (db_saves (db_kids node))) \<and> db_saves (db_kids node) \<noteq> []"

lemma fold_blank: "\<forall>l \<in> set ls. l = [] \<Longrightarrow> db_fold rd ls st = Ret (0, st)"
  by (induction ls) simp_all

text \<open>C1. A tree written to a buffer as text and read from that text again is the same tree, but for what a text does not
  keep: flags, volatile nodes, pointers and variables without a value. Groups keep their order, variables their type and all
  their values.\<close>

theorem db_text_roundtrip:
  assumes "db_printable node" "db_readable node" "db_wr_flags w" "db_rd_flags rd"
    and "has rd GWEN_DB_FLAGS_USE_COLON = has w GWEN_DB_FLAGS_USE_COLON"
    and "room b (length (db_text w node) + n)" "contents b = []"
    and "length (db_text w node) + n < rounds" "length (db_text w node) + n < 2147483648"
    and "length (db_text w node) + 1026 \<le> unat hl" "unat hl < 4294967295"
  shows "\<exists>b' r. GWEN_DB_WriteToBuffer rounds node b w = Ret (0, Some b') \<and> room b' n
    \<and> GWEN_DB_ReadFromString hl fr (\<lambda>_. True) rounds (GWEN_DB_Group_new name) [] (contents b' @ [0]) 0 rd = Ret (0, r)
    \<and> db_erase r = DbNode NodeType_Group 0 (DataName name) (Some (db_saves (db_kids node)))"
proof -
  let ?g = "GWEN_DB_Group_new name" and ?ls = "db_lines w 0 False (db_kids node)" and ?s = "db_saves (db_kids node)"
  obtain b' where b': "GWEN_DB_WriteToBuffer rounds node b w = Ret (0, Some b')" "contents b' = db_text w node" "room b' n"
    using WriteToBuffer_ok [OF assms(1,6,8,9)] assms(7) by auto
  have level: "db_level (db_kids node)"
    using assms(1,2) by (cases node) (auto simp: db_printable_def db_readable_def db_kids_def db_level_def db_wf.simps db_writable.simps
        list_all_iff split: option.splits)
  have t: "db_text w node = lines_text (db_eol_flags w) ?ls" by (simp add: db_text_def)
  have len: "length ?ls \<le> length (db_text w node)" unfolding t by (rule lines_length)
  have here: "db_here ?g [] (DbNode NodeType_Group 0 (DataName name) (Some []))" by (simp add: GWEN_DB_Group_new_def GWEN_DB_Node_new_def)
  have "distinct (db_keys ([] @ ?s))" "0 + int (length ?ls) < 2147483648" using assms(2,9) len by (simp_all add: db_readable_def)
  from read_lines [OF assms(3-5) level here this(1) order_refl this(2)] obtain r where
    r: "db_fold rd ?ls (?g, [], 0) = Ret (0, r, [], 0)" "db_erase r = DbNode NodeType_Group 0 (DataName name) (Some ?s)" by auto
  have clean: "\<forall>l \<in> set ?ls. \<forall>c \<in> set l. db_line_char c" using lines_clean [OF assms(3) level] by blast
  have some: "\<exists>l \<in> set ?ls. l \<noteq> []"
  proof (rule ccontr)
    assume "\<not> ?thesis"
    then have "r = ?g" using fold_blank [of ?ls rd "(?g, [], 0)"] r(1) by simp
    then show False using r(2) assms(2) by (simp add: GWEN_DB_Group_new_def GWEN_DB_Node_new_def db_readable_def)
  qed
  have "0 \<notin> set (lines_text (db_eol_flags w) ?ls)"
    using clean line_chars_nul by (auto simp: lines_text_def)
  from ReadFromString_ok [OF this clean r(1) rd_bits(5) [OF assms(4)] some, of rounds hl fr] assms(8-11)
  have "GWEN_DB_ReadFromString hl fr (\<lambda>_. True) rounds ?g [] (contents b' @ [0]) 0 rd = Ret (0, r)"
    by (simp add: b'(2) t [symmetric])
  with b' r(2) show ?thesis by blast
qed

text \<open>A tree with a group in a group, values of three types, a volatile variable and one without a value.\<close>

definition db_sample :: gwen_db_node where
  "db_sample = DbNode NodeType_Group 1 (DataName [114]) (Some
     [DbNode NodeType_Var 1 (DataName [97]) (Some [DbNode NodeType_ValueChar 0 (DataChar [120, 32, 34]) None,
        DbNode NodeType_ValuePtr 0 (DataPtr 3) None, DbNode NodeType_ValueChar 0 (DataChar []) None]),
      DbNode NodeType_Var 2 (DataName [118]) (Some []),
      DbNode NodeType_Group 1 (DataName [103, 32, 49]) (Some
        [DbNode NodeType_Group 0 (DataName [104]) (Some []),
         DbNode NodeType_Var 0 (DataName [110]) (Some [DbNode NodeType_ValueInt 0 (DataInt (-5)) None])]),
      DbNode NodeType_Var 0 (DataName [98]) (Some [DbNode NodeType_ValueBin 0 (DataBin [0, 255]) None])])"

theorem db_text_roundtrip_witness:
  "\<exists>b b' r. GWEN_Buffer_new (16 * 1024 * 1024) (\<lambda>_. 7) (\<lambda>_. True) None 2 0 True = Ret b
   \<and> GWEN_DB_WriteToBuffer 1000 db_sample b GWEN_DB_FLAGS_DEFAULT = Ret (0, Some b')
   \<and> GWEN_DB_ReadFromString (16 * 1024 * 1024) (\<lambda>_. 7) (\<lambda>_. True) 1000 (GWEN_DB_Group_new [122]) [] (contents b' @ [0]) 0
       (GWEN_DB_FLAGS_DEFAULT OR GWEN_PATH_FLAGS_CREATE_GROUP) = Ret (0, r)
   \<and> db_erase r = DbNode NodeType_Group 0 (DataName [122]) (Some
     [DbNode NodeType_Var 0 (DataName [97]) (Some [DbNode NodeType_ValueChar 0 (DataChar [120, 32, 34]) None,
        DbNode NodeType_ValueChar 0 (DataChar []) None]),
      DbNode NodeType_Group 0 (DataName [103, 32, 49]) (Some
        [DbNode NodeType_Group 0 (DataName [104]) (Some []),
         DbNode NodeType_Var 0 (DataName [110]) (Some [DbNode NodeType_ValueInt 0 (DataInt (-5)) None])]),
      DbNode NodeType_Var 0 (DataName [98]) (Some [DbNode NodeType_ValueBin 0 (DataBin [0, 255]) None])])"
proof -
  have ok: "db_printable db_sample" "db_readable db_sample"
    by (simp_all add: db_printable_def db_readable_def db_sample_def db_wf.simps db_writable.simps db_textual.simps db_saved.simps db_name_def
        db_value_fits_def in_int_def db_is_value_def db_kids_def db_kept_def db_keys_def db_var_name_ok_def db_group_name_ok_def isspace_def
        GWEN_DB_NODE_FLAGS_VOLATILE_def tolower_def)
  have fl: "db_wr_flags GWEN_DB_FLAGS_DEFAULT" "db_rd_flags (GWEN_DB_FLAGS_DEFAULT OR GWEN_PATH_FLAGS_CREATE_GROUP)"
    "has (GWEN_DB_FLAGS_DEFAULT OR GWEN_PATH_FLAGS_CREATE_GROUP) GWEN_DB_FLAGS_USE_COLON = has GWEN_DB_FLAGS_DEFAULT GWEN_DB_FLAGS_USE_COLON"
    by code_simp+
  have len: "length (db_text GWEN_DB_FLAGS_DEFAULT db_sample) = 78"
    by code_simp
  obtain b where b: "GWEN_Buffer_new (16 * 1024 * 1024) (\<lambda>_. 7) (\<lambda>_. True) None 2 0 True = Ret b" "room b (78 + 0)" "contents b = []"
    using new_buffer_room [of 2 "78 + 0" "16 * 1024 * 1024" "\<lambda>_. 7" True] by auto
  have s: "db_saves (db_kids db_sample) = [DbNode NodeType_Var 0 (DataName [97]) (Some [DbNode NodeType_ValueChar 0 (DataChar [120, 32, 34]) None,
        DbNode NodeType_ValueChar 0 (DataChar []) None]),
      DbNode NodeType_Group 0 (DataName [103, 32, 49]) (Some
        [DbNode NodeType_Group 0 (DataName [104]) (Some []),
         DbNode NodeType_Var 0 (DataName [110]) (Some [DbNode NodeType_ValueInt 0 (DataInt (-5)) None])]),
      DbNode NodeType_Var 0 (DataName [98]) (Some [DbNode NodeType_ValueBin 0 (DataBin [0, 255]) None])]"
    by (simp add: db_sample_def db_saved.simps db_kids_def db_kept_def GWEN_DB_NODE_FLAGS_VOLATILE_def)
  note t = db_text_roundtrip [OF ok fl, of b 0 1000 "16 * 1024 * 1024" "\<lambda>_. 7" "[122]", unfolded len s, OF b(2,3)]
  have "78 + 0 < (1000 :: nat)" "78 + 0 < (2147483648 :: nat)" "78 + 1026 \<le> unat (16 * 1024 * 1024 :: u32)"
    "unat (16 * 1024 * 1024 :: u32) < 4294967295" by simp_all
  from t [OF this] b(1) show ?thesis by blast
qed

section \<open>Where a text is not read as it was written\<close>

text \<open>A comma in the name of a group is not escaped, but ends the token when it is read.\<close>

lemma db_comma_rejected:
  "db_begin_line 0 0 [97, 44, 98] = [97, 44, 98, 32, 123]"
  "db_read_line GWEN_PATH_FLAGS_CREATE_GROUP [97, 44, 98, 32, 123] (GWEN_DB_Group_new [], [], 0)
     = Ret (GWEN_ERROR_BAD_DATA, GWEN_DB_Group_new [], [], 0)"
  by code_simp+

text \<open>A slash in the name of a group is escaped and unescaped before the name is used as a path: the group comes back as two,
  and what follows it ends up in the first.\<close>

lemma db_slash_nested:
  "obind (db_fold GWEN_PATH_FLAGS_CREATE_GROUP
       (db_lines GWEN_DB_FLAGS_DEFAULT 0 False
         [DbNode NodeType_Group 0 (DataName [97, 47, 98]) (Some []), DbNode NodeType_Group 0 (DataName [99]) (Some [])])
       (GWEN_DB_Group_new [], [], 0)) (\<lambda>(rv, r, p, level). Ret (rv, db_erase r, p, level))
     = Ret (0, DbNode NodeType_Group 0 (DataName []) (Some [DbNode NodeType_Group 0 (DataName [97]) (Some
         [DbNode NodeType_Group 0 (DataName [98]) (Some []), DbNode NodeType_Group 0 (DataName [99]) (Some [])])]), [0], 0)"
  by code_simp

text \<open>The quotes that a writer can put around the name of a variable are part of the name when it is read.\<close>

lemma db_quoted_name:
  "db_lines (GWEN_DB_FLAGS_DEFAULT OR GWEN_DB_FLAGS_QUOTE_VARNAMES) 0 False
     [DbNode NodeType_Var 0 (DataName [97]) (Some [DbNode NodeType_ValueInt 0 (DataInt 1) None])]
     = [str ''int  '' @ [34, 97, 34, 61, 34, 49, 34]]"
  "obind (db_read_line GWEN_PATH_FLAGS_CREATE_GROUP (str ''int  '' @ [34, 97, 34, 61, 34, 49, 34]) (GWEN_DB_Group_new [], [], 0))
       (\<lambda>(rv, r, p, level). Ret (rv, db_erase r))
     = Ret (0, DbNode NodeType_Group 0 (DataName []) (Some
         [DbNode NodeType_Var 0 (DataName [34, 97, 34]) (Some [DbNode NodeType_ValueInt 0 (DataInt 1) None])]))"
  by code_simp+

text \<open>Values of several types are written under the type of the first.\<close>

lemma db_mixed_types:
  "db_lines GWEN_DB_FLAGS_DEFAULT 0 False
     [DbNode NodeType_Var 0 (DataName [97]) (Some [DbNode NodeType_ValueInt 0 (DataInt 1) None, DbNode NodeType_ValueChar 0 (DataChar [120]) None])]
     = [str ''int  a='' @ [34, 49, 34, 44, 32, 34, 120, 34]]"
  by code_simp

end
