(* ===== verification/Spec2Isabelle.thy ===== *)
theory Spec2Isabelle
  imports Gwen_BufferProps Gwen_RingBuffer Gwen_Base64 Gwen_Tag16 Gwen_TLV Gwen_DateText Gwen_PssProps Gwen_XmlText Gwen_DBGet Gwen_RingTraffic Gwen_StringListProps Gwen_IdListProps Gwen_IdMapProps Gwen_List1Props Gwen_FastBufferLines Gwen_DBTextProps
begin

text \<open>
  \<^bold>\<open>Gwenhywfar: a verification of its core.\<close> Gwenhywfar is the base library of the AqBanking project: byte
  buffers, parsers and encoders for the formats of chip cards and banking protocols, dates, cryptographic
  padding, configuration trees, and around them input and output layers, a plugin manager and user
  interfaces. This development models the part whose behaviour is decided by its own C code, from
  \<^verbatim>\<open>src/src/base\<close>, \<^verbatim>\<open>src/src/parser\<close>, \<^verbatim>\<open>src/src/sio\<close>, \<^verbatim>\<open>src/src/os\<close> and \<^verbatim>\<open>src/src/crypt3\<close>, and proves what makes
  it correct.

  \<^bold>\<open>Conventions\<close> (theory Gwen\_Prelude). A call ends with \<open>Ret\<close> and its result, with \<open>Abort\<close> where an assertion
  fails, with \<open>Fault\<close> where the C code leaves its memory or overflows a signed integer, or with \<open>Hang\<close> where a loop
  with a given number of rounds has used them up. Unsigned numbers are words of their width; an \<^verbatim>\<open>int\<close> is an integer
  together with a check of its range wherever a computation could leave it. Memory blocks are lists of bytes, a
  pointer into a block is an offset. Allocation may fail: the buffer carries the answer of the allocator and the
  content of fresh memory as parameters of the model. A parameter of a definition that is a function stands for code
  outside the repository: the allocator, the clock, the translation of day names, the random generator, the digest.

  \<^bold>\<open>The theories\<close>, with the files they model. Definitions have the names of the C functions; a helper in small
  letters is a loop or a branch of the function behind it.
  \<^item> Gwen\_Buffer, Gwen\_BufferEdit, Gwen\_BufferIO, Gwen\_BufferProps: \<^verbatim>\<open>base/buffer.c\<close>, the growable buffer every
    other part writes to. The state is the allocated block with the reserved bytes in front, the used size, the
    position and the bookmarks. Shown: every sequence of calls on a new buffer, each made in a state that meets the
    condition \<open>buf_pre\<close> states for it, stays inside the storage and keeps the representation invariant; the content
    after appending, inserting, removing, replacing, cropping, and reading back; and, for the conditions that exclude
    what the code accepts, inputs on which the buffer breaks. Locales \<open>byte_sink\<close> and \<open>block_sink\<close> state what
    a client that only appends relies on; the buffer, the fast buffer and the XML escaper interpret them.
  \<^item> Gwen\_RingBuffer, Gwen\_RingTraffic: \<^verbatim>\<open>base/ringbuffer.c\<close>. Any sequence of reads and writes, by bytes and by
    blocks, is answered as by a bounded queue; the laws of single bytes are a locale that the model's operations
    interpret. Access through the pointers does what the copying functions do. Over any schedule of reads and writes nothing is lost.
  \<^item> Gwen\_StringList, Gwen\_StringListProps: \<^verbatim>\<open>base/stringlist.c\<close>, lists of strings with reference counters. Refines a
    bag (theory Gwen\_Bag, a locale shared with the id list); lists written as text are read back.
  \<^item> Gwen\_List1, Gwen\_List1Props: \<^verbatim>\<open>base/list1.c\<close>, linked lists of objects. Lists and elements live in a store from addresses
    to structs. Every sequence of calls does to the pointers what it does to plain lists of addresses. Moving a list has as
    many rounds as it has elements, and one more to see that none is left.
  \<^item> Gwen\_PtrList, Gwen\_PtrListProps: \<^verbatim>\<open>base/simpleptrlist.c\<close>, arrays of pointers in blocks that several lists share
    until one of them writes. The blocks are a store from addresses to blocks with a counter of references. Shown: the
    lists behave as independent values.
  \<^item> Gwen\_IdList64, Gwen\_IdListProps: \<^verbatim>\<open>base/idlist64.c\<close>, sets of ids in tables that a pointer list holds. Refines a bag.
  \<^item> Gwen\_IdMap, Gwen\_IdMapProps: \<^verbatim>\<open>base/idmap.c\<close>, maps from ids to pointers in a tree of hexadecimal digits. A
    sequence of calls gives what a finite map with a counter gives, under the conditions \<open>idmap_uses\<close> that exclude the
    calls which the code answers wrongly; what it does there is \<open>idmap_effect\<close>, which holds for every sequence. A tree has eight levels, so eight rounds are enough
    to find the first id, and twenty to find the next one: up at most seven levels and down again.
  \<^item> Gwen\_Base64, Gwen\_Tag16, Gwen\_TLV: \<^verbatim>\<open>parser/base64.c\<close>, \<^verbatim>\<open>parser/tag16.c\<close>, \<^verbatim>\<open>parser/tlv.c\<close>. What is encoded is
    decoded again, objects of both forms of TLV included; the byte loops end, with the remaining input as their measure.
  \<^item> Gwen\_Text, Gwen\_TextProps, Gwen\_Pattern, Gwen\_Words, Gwen\_WordsProps, Gwen\_XmlText: \<^verbatim>\<open>parser/text.c\<close>, escaped and
    hexadecimal text, patterns with wildcards, words and quotes, entities of XML. Shown: round trips, no access outside
    the given memory, the agreement of the search for a pattern with the definition of wildcards.
  \<^item> Gwen\_Path: \<^verbatim>\<open>parser/path.c\<close>, walking along a path; the function called for each element is an argument.
  \<^item> Gwen\_DB, Gwen\_DBOps, Gwen\_DBTree, Gwen\_DBProps, Gwen\_DBType, Gwen\_DBGet: \<^verbatim>\<open>parser/db.c\<close>, the configuration tree. A
    node is a datatype with its kind, flags, data and children; a pointer to a node is its position in the tree. Shown:
    every tree built by calls whose setters are given a path with an element is well-typed (a path without one is
    the exception, shown beside it), and what is stored under a path is found there.
  \<^item> Gwen\_SyncIo, Gwen\_SyncIoProps: \<^verbatim>\<open>sio/syncio.c\<close> and \<^verbatim>\<open>sio/syncio_memory.c\<close>, layers for input and output. A layer is
    either the one over a buffer or a function of the caller. The loop that writes all bytes has a number of rounds
    \<open>sio_rounds\<close> that suffices for a layer that accepts at least one byte per call. Locales \<open>io_sink\<close> and \<open>io_source\<close>
    are what clients rely on; the layer over a buffer interprets them.
  \<^item> Gwen\_FastBuffer, Gwen\_FastBufferProps, Gwen\_FastBufferLines: \<^verbatim>\<open>base/fastbuffer.c\<close> and its macros, the block
    between a client and a layer. Locales \<open>line_dest\<close> and \<open>line_reader\<close>: bytes and lines go through unchanged for every
    block size.
  \<^item> Gwen\_DBText, Gwen\_DBLines, Gwen\_DBParse, Gwen\_DBTextProps: \<^verbatim>\<open>parser/dbrw.c\<close>, the text form of a configuration tree,
    over the tree, the fast buffer, the layers, the text functions and the buffer. Shown: what is written is read back.
  \<^item> Gwen\_Date, Gwen\_Calendar, Gwen\_DateProps, Gwen\_DateText: \<^verbatim>\<open>os/gwendate.c\<close>. The arithmetic of Julian day
    numbers is shown to agree with a calendar that only counts days, with every intermediate value inside the
    range of an \<^verbatim>\<open>int\<close>; texts and templates are read back.
  \<^item> Gwen\_Padd, Gwen\_PaddProps: the paddings of \<^verbatim>\<open>crypt3/padd.c\<close> and their names in \<^verbatim>\<open>crypt3/paddalgo.c\<close>.
  \<^item> Gwen\_Pss, Gwen\_PssProps: the signature padding of \<^verbatim>\<open>crypt3/padd.c\<close> over a digest of \<^verbatim>\<open>crypt3/mdigest.c\<close>.
    The mask generation is a loop without a bound of its own, a partial function; it is shown to end for
    every digest of at least one byte. The verification accepts what RFC 3447 calls an encoding of the hash, but
    for the last byte, which the code does not look at. The functions of the digest belong to libgcrypt and are parameters, with
    \<open>digest_ok\<close> as what is relied on.

  \<^bold>\<open>Where the code does not do what it means to\<close>, the models do what the code does, and small lemmas at the end of
  the theories show it on an input.

  \<^bold>\<open>Not modelled\<close>: what only talks to the operating system or to other libraries (files, sockets, TLS, processes,
  directories, the bindings of libgcrypt and GnuTLS), the user interfaces and the layout of HTML, the plugins, the
  generators of C code, the files they generate, and the tools; of the core, the generic lists and trees, the caches,
  the XML tree and the message engine that interprets it. The manifest names each part with its reason.
\<close>

end
